(* ===== verification/Prelude.thy ===== *)
theory Prelude
  imports Main "HOL-Library.Word" "HOL-Library.Char_ord" "HOL-Library.List_Lexorder" "HOL-Library.Sublist"
begin

unbundle bit_operations_syntax

text \<open>
  Shared vocabulary of the development.

  A C++ \<open>std::string\<close> or \<open>std::string_view\<close> is a list of bytes and is modelled by
  \<^typ>\<open>string\<close>: an Isabelle \<^typ>\<open>char\<close> is exactly one 8-bit byte. \<open>ord c\<close> is the
  byte read as \<open>unsigned char\<close>, \<open>byte n\<close> is \<open>static_cast<char>(n)\<close>, which keeps
  the low eight bits. A \<open>char32_t\<close> is a \<^typ>\<open>nat\<close>, with the source's shifts and masks
  written as the bit operations on \<^typ>\<open>nat\<close>; every narrowing the code performs is
  written out. A \<open>size_t\<close> that counts bytes in memory is a \<^typ>\<open>nat\<close>. Unsigned integers
  whose wrap-around the code can reach are words.

  The theory also holds the collections the component proofs use and the two interfaces that
  several components implement: a system given by an initial state and a step function
  (\<open>event_system\<close>), and a finite transition table (\<open>transition_table\<close>).
\<close>

section \<open>Bytes\<close>

type_synonym codepoint = nat

abbreviation ord :: "char \<Rightarrow> nat" where
  "ord c \<equiv> of_char c"

abbreviation byte :: "nat \<Rightarrow> char" where
  "byte n \<equiv> char_of n"

named_theorems bits "masks, shifts and disjoint unions of bits as div, mod and plus"
named_theorems handler "definitions of the operations of the component at hand"

lemma ord_byte [simp]: "ord (byte n) = n mod 256"
  by simp

lemma ord_eq_iff: "ord c = ord d \<longleftrightarrow> c = d"
  by (metis char_of_char)

lemma byte_ord_eqI: "ord c = n \<Longrightarrow> c = byte n"
  by auto

lemma byte_eq_iff: "byte m = byte n \<longleftrightarrow> m mod 256 = n mod 256"
  by (metis ord_byte char_of_char)

text \<open>Comparisons with a byte given by its value, for evaluating on concrete text.\<close>

lemma eq_byte_numeral:
  "c = byte (numeral k) \<longleftrightarrow> ord c = numeral k mod 256"
  "byte (numeral k) = c \<longleftrightarrow> ord c = numeral k mod 256"
  by (metis ord_byte char_of_char)+

subsection \<open>Bit fields of a natural number\<close>

lemma and_field: "(x::nat) AND push_bit k (mask m) = push_bit k (take_bit m (drop_bit k x))"
  by (auto simp: bit_eq_iff bit_simps)

lemmas bit_field_unfold = push_bit_eq_mult take_bit_eq_mod drop_bit_eq_div mask_eq_exp_minus_1

lemma and_low [bits]:
  "(x::nat) AND 0x3f = x mod 64" "(x::nat) AND 0x1f = x mod 32"
  "(x::nat) AND 0x0f = x mod 16" "(x::nat) AND 0x07 = x mod 8"
  "(x::nat) AND 0xff = x mod 256"
  using and_field [of x 0 6] and_field [of x 0 5] and_field [of x 0 4] and_field [of x 0 3]
    and_field [of x 0 8]
  by (simp_all add: bit_field_unfold)

lemma and_high [bits]:
  "(x::nat) AND 0xc0 = (x div 64 mod 4) * 64" "(x::nat) AND 0xe0 = (x div 32 mod 8) * 32"
  "(x::nat) AND 0xf0 = (x div 16 mod 16) * 16" "(x::nat) AND 0xf8 = (x div 8 mod 32) * 8"
  using and_field [of x 6 2] and_field [of x 5 3] and_field [of x 4 4] and_field [of x 3 5]
  by (simp_all add: bit_field_unfold)

lemma shift_or [bits]: "b < 2 ^ k \<Longrightarrow> push_bit k (v::nat) OR b = v * 2 ^ k + b"
proof -
  assume "b < 2 ^ k"
  then have b: "b = take_bit k b" by (simp add: take_bit_nat_eq_self)
  have "push_bit k v AND take_bit k b = 0"
    by (auto simp: bit_eq_iff bit_simps)
  then have "push_bit k v OR take_bit k b = push_bit k v + take_bit k b"
    by (rule disjunctive_add_eq_or [symmetric])
  then show ?thesis using b by (simp add: push_bit_eq_mult)
qed

lemma const_or [bits]:
  "b < 64 \<Longrightarrow> 0x80 OR (b::nat) = 0x80 + b" "b < 32 \<Longrightarrow> 0xc0 OR b = 0xc0 + b"
  "b < 16 \<Longrightarrow> 0xe0 OR b = 0xe0 + b" "b < 8 \<Longrightarrow> 0xf0 OR b = 0xf0 + b"
  using shift_or [of b 6 2] shift_or [of b 5 6] shift_or [of b 4 14] shift_or [of b 3 30]
  by (simp_all add: push_bit_eq_mult)

lemma digit64:
  assumes "v = q * 64 + r mod (64::nat)"
  shows "v div 64 = q" and "v mod 64 = r mod 64"
  using assms by simp_all

lemma mod64_continuation [simp]: "(128 + n mod 64) mod 64 = n mod (64::nat)"
  by (simp add: mod_add_eq [symmetric])

lemma base64_decomp:
  "v div 4096 * 4096 + v div 64 mod 64 * 64 + v mod 64 = (v::nat)"
  "v div 262144 * 262144 + v div 4096 mod 64 * 4096 + v div 64 mod 64 * 64 + v mod 64 = (v::nat)"
proof -
  have a: "v div 64 * 64 + v mod 64 = v" by simp
  have b: "v div 4096 * 64 + v div 64 mod 64 = v div 64"
    using div_mult_mod_eq [of "v div 64" 64] by (simp flip: div_mult2_eq)
  have c: "v div 262144 * 64 + v div 4096 mod 64 = v div 4096"
    using div_mult_mod_eq [of "v div 4096" 64] by (simp flip: div_mult2_eq)
  show d: "v div 4096 * 4096 + v div 64 mod 64 * 64 + v mod 64 = v"
    using a b by linarith
  show "v div 262144 * 262144 + v div 4096 mod 64 * 4096 + v div 64 mod 64 * 64 + v mod 64 = v"
    using c d by linarith
qed

section \<open>Lists\<close>

lemma drop_eq_ConsD: "drop i xs = y # ys \<Longrightarrow> i < length xs \<and> xs ! i = y \<and> drop (Suc i) xs = ys"
proof -
  assume eq: "drop i xs = y # ys"
  then have i: "i < length xs" by (metis drop_all list.distinct(1) not_le)
  then have "drop i xs = xs ! i # drop (Suc i) xs" by (simp add: Cons_nth_drop_Suc)
  with eq i show ?thesis by simp
qed

lemma take_drop_eq_append_iff:
  "take (length p) (drop i s) = p \<longleftrightarrow> (\<exists>t. drop i s = p @ t)"
  by (metis append_eq_conv_conj append_take_drop_id)

lemma concat_map_butlast:
  "xs \<noteq> [] \<Longrightarrow> concat (map f (butlast xs)) @ f (last xs) = concat (map f xs)"
  by (induction xs) auto

section \<open>Systems of events\<close>

text \<open>
  Several components are a state and a function that folds one event into it. The interface
  fixes the step, the states it may start from and an invariant; what it promises is that the
  invariant holds at the start and is kept by each step, and what every client may then use is
  that it holds after any sequence of events.
\<close>

locale event_system =
  fixes start :: "'s \<Rightarrow> bool"
    and step :: "'s \<Rightarrow> 'e \<Rightarrow> 's"
    and inv :: "'s \<Rightarrow> bool"
  assumes start_inv: "start s \<Longrightarrow> inv s"
    and step_inv: "inv s \<Longrightarrow> inv (step s e)"
begin

lemma run_inv: "inv s \<Longrightarrow> inv (foldl step s es)"
  by (induction es arbitrary: s) (auto intro: step_inv)

lemma run_from_start: "start s \<Longrightarrow> inv (foldl step s es)"
  by (rule run_inv) (rule start_inv)

end

section \<open>Transition tables\<close>

text \<open>
  A linear search of a table of \<open>(from, event, to)\<close> rows, as the health machine of the host
  and the connection machine of the input method both perform it.
\<close>

fun find_transition :: "('s \<times> 'e \<times> 's) list \<Rightarrow> 's \<Rightarrow> 'e \<Rightarrow> 's option" where
  "find_transition [] s e = None"
| "find_transition ((from, ev, to) # rows) s e =
     (if from = s \<and> ev = e then Some to else find_transition rows s e)"

lemma find_transition_mem: "find_transition rows s e = Some t \<Longrightarrow> (s, e, t) \<in> set rows"
  by (induction rows) (auto split: if_splits)

lemma find_transition_None: "find_transition rows s e = None \<longleftrightarrow> (\<forall>t. (s, e, t) \<notin> set rows)"
  by (induction rows) (auto split: if_splits)

text \<open>
  The contract of such a table: no row repeats a \<open>(from, event)\<close> pair and no row is a
  self-loop. Clients get that the search returns exactly the listed rows.
\<close>

locale transition_table =
  fixes rows :: "('s \<times> 'e \<times> 's) list"
  assumes keys_distinct: "distinct (map (\<lambda>(f, e, t). (f, e)) rows)"
    and no_self_loop: "(s, e, t) \<in> set rows \<Longrightarrow> s \<noteq> t"
begin

lemma find_iff: "find_transition rows s e = Some t \<longleftrightarrow> (s, e, t) \<in> set rows"
proof
  assume "(s, e, t) \<in> set rows"
  with keys_distinct show "find_transition rows s e = Some t"
    by (induction rows) (force simp: image_iff)+
qed (rule find_transition_mem)

lemma find_changes: "find_transition rows s e = Some t \<Longrightarrow> t \<noteq> s"
  using no_self_loop by (auto dest: find_transition_mem)

end

end
