(* ===== verification/Utf8.thy ===== *)
theory Utf8
  imports Prelude
begin

text \<open>
  UTF-8 as the program reads and writes it. The repository has five hand-written codecs:
  \<open>core/src/Utf8.cpp\<close> (\<open>DecodeNextUtf8\<close>, \<open>AppendUtf8\<close>, \<open>TakeLastUtf8Codepoints\<close>),
  the dictionary reader (\<open>Decode\<close> and \<open>Encode\<close> of \<open>core/src/DoubleArrayTrie.cpp\<close>), the
  live-conversion chunker (\<open>DecodeUtf8At\<close>), the JSON layer (\<open>AppendUtf8\<close> of
  \<open>ipc/src/Json.cpp\<close>) and the proofreading session (\<open>NextCodePoint\<close>). Each is modelled
  as written. The interface \<open>utf8_decoder\<close> says what a correct decoder promises: it
  succeeds at an offset exactly when the bytes there are the encoding of one scalar value, and
  returns that value and the offset behind it. Every decoder is shown to implement it, so that
  they accept the same byte sequences and agree on what they denote.
\<close>

section \<open>core/src/Utf8.cpp\<close>

fun decode_continuation :: "string \<Rightarrow> nat \<Rightarrow> nat \<Rightarrow> nat \<Rightarrow> nat option" where
  "decode_continuation input pos 0 value = Some value"
| "decode_continuation input pos (Suc n) value =
     (if ord (input ! pos) AND 0xc0 \<noteq> 0x80 then None
      else decode_continuation input (Suc pos) n
        (push_bit 6 value OR (ord (input ! pos) AND 0x3f)))"

text \<open>The in-out parameters \<open>offset\<close> and \<open>codepoint\<close> are passed in and returned.\<close>

definition DecodeNextUtf8 :: "string \<Rightarrow> nat \<Rightarrow> codepoint \<Rightarrow> bool \<times> nat \<times> codepoint" where
  "DecodeNextUtf8 input offset codepoint =
     (if offset \<ge> length input then (False, offset, codepoint)
      else let first = ord (input ! offset); fail = (False, offset + 1, first) in
        if first < 0x80 then (True, offset + 1, first)
        else case (if first AND 0xe0 = 0xc0 then Some (2, first AND 0x1f)
                   else if first AND 0xf0 = 0xe0 then Some (3, first AND 0x0f)
                   else if first AND 0xf8 = 0xf0 then Some (4, first AND 0x07)
                   else None) of
            None \<Rightarrow> fail
          | Some (width, value0) \<Rightarrow>
              if width > length input - offset then fail
              else case decode_continuation input (offset + 1) (width - 1) value0 of
                  None \<Rightarrow> fail
                | Some value \<Rightarrow>
                    if (width = 2 \<and> value < 0x80) \<or> (width = 3 \<and> value < 0x800) \<or>
                       (width = 4 \<and> value < 0x10000) \<or> value > 0x10ffff \<or>
                       (value \<ge> 0xd800 \<and> value \<le> 0xdfff)
                    then fail
                    else (True, offset + width, value))"

definition AppendUtf8 :: "string \<Rightarrow> codepoint \<Rightarrow> string" where
  "AppendUtf8 output codepoint =
     (if codepoint \<le> 0x7f then output @ [byte codepoint]
      else if codepoint \<le> 0x7ff then
        output @ [byte (0xc0 OR (drop_bit 6 codepoint AND 0x1f)),
                  byte (0x80 OR (codepoint AND 0x3f))]
      else if codepoint \<le> 0xffff then
        output @ [byte (0xe0 OR (drop_bit 12 codepoint AND 0x0f)),
                  byte (0x80 OR (drop_bit 6 codepoint AND 0x3f)),
                  byte (0x80 OR (codepoint AND 0x3f))]
      else
        output @ [byte (0xf0 OR (drop_bit 18 codepoint AND 0x07)),
                  byte (0x80 OR (drop_bit 12 codepoint AND 0x3f)),
                  byte (0x80 OR (drop_bit 6 codepoint AND 0x3f)),
                  byte (0x80 OR (codepoint AND 0x3f))])"

definition is_continuation :: "char \<Rightarrow> bool" where
  "is_continuation c \<longleftrightarrow> ord c AND 0xc0 = 0x80"

fun skip_continuation :: "string \<Rightarrow> nat \<Rightarrow> nat" where
  "skip_continuation input 0 = 0"
| "skip_continuation input (Suc start) =
     (if is_continuation (input ! Suc start) then skip_continuation input start else Suc start)"

fun take_last_start :: "string \<Rightarrow> nat \<Rightarrow> nat \<Rightarrow> nat" where
  "take_last_start input start 0 = start"
| "take_last_start input start (Suc n) =
     (if start > 0 then take_last_start input (skip_continuation input (start - 1)) n else start)"

definition TakeLastUtf8Codepoints :: "string \<Rightarrow> nat \<Rightarrow> string" where
  "TakeLastUtf8Codepoints input max_codepoints =
     drop (take_last_start input (length input) max_codepoints) input"

section \<open>What a decoder promises\<close>

definition is_scalar :: "codepoint \<Rightarrow> bool" where
  "is_scalar cp \<longleftrightarrow> cp \<le> 0x10ffff \<and> \<not> (0xd800 \<le> cp \<and> cp \<le> 0xdfff)"

text \<open>The bytes of a string literal: the concatenated encodings of its scalar values.\<close>

abbreviation utf8 :: "codepoint \<Rightarrow> string" where
  "utf8 cp \<equiv> AppendUtf8 [] cp"

definition utf8s :: "codepoint list \<Rightarrow> string" where
  "utf8s cps = concat (map utf8 cps)"

lemma utf8s_simps [simp]:
  "utf8s [] = []" "utf8s (c # cs) = utf8 c @ utf8s cs" "utf8s (xs @ ys) = utf8s xs @ utf8s ys"
  by (simp_all add: utf8s_def)

lemma AppendUtf8_append: "AppendUtf8 output cp = output @ utf8 cp"
  by (simp add: AppendUtf8_def)

lemma foldl_AppendUtf8: "foldl AppendUtf8 out cps = out @ utf8s cps"
proof (induction cps arbitrary: out)
  case (Cons c cs)
  then show ?case by (simp add: AppendUtf8_append [of out c])
qed simp

lemma utf8_cases:
  "cp < 0x80 \<Longrightarrow> utf8 cp = [byte cp]"
  "0x80 \<le> cp \<Longrightarrow> cp < 0x800 \<Longrightarrow> utf8 cp = [byte (0xc0 + cp div 64), byte (0x80 + cp mod 64)]"
  "0x800 \<le> cp \<Longrightarrow> cp < 0x10000 \<Longrightarrow>
     utf8 cp = [byte (0xe0 + cp div 4096), byte (0x80 + cp div 64 mod 64), byte (0x80 + cp mod 64)]"
  "0x10000 \<le> cp \<Longrightarrow> cp < 0x200000 \<Longrightarrow>
     utf8 cp = [byte (0xf0 + cp div 262144), byte (0x80 + cp div 4096 mod 64),
                byte (0x80 + cp div 64 mod 64), byte (0x80 + cp mod 64)]"
  by (simp_all add: AppendUtf8_def bits drop_bit_eq_div)

lemma utf8_high: "is_scalar cp \<Longrightarrow> 0x80 \<le> cp \<Longrightarrow> list_all (\<lambda>c. 0x80 \<le> ord c) (utf8 cp) \<and> utf8 cp \<noteq> []"
proof -
  assume a: "is_scalar cp" "0x80 \<le> cp"
  then consider "cp < 0x800" | "0x800 \<le> cp" "cp < 0x10000" | "0x10000 \<le> cp" "cp < 0x110000"
    by (fastforce simp: is_scalar_def)
  then show ?thesis
  proof cases
    case 1
    then have "cp div 64 < 32" using less_mult_imp_div_less [of cp 32 64] by simp
    then show ?thesis using 1 a by (simp add: utf8_cases)
  next
    case 2
    then have "cp div 4096 < 16" using less_mult_imp_div_less [of cp 16 4096] by simp
    then show ?thesis using 2 a by (simp add: utf8_cases)
  next
    case 3
    then have "cp div 262144 < 8" using less_mult_imp_div_less [of cp 8 262144] by simp
    then show ?thesis using 3 a by (simp add: utf8_cases)
  qed
qed

lemma is_continuation_iff: "is_continuation c \<longleftrightarrow> 0x80 \<le> ord c \<and> ord c < 0xc0"
proof -
  have "ord c div 64 < 4" using less_mult_imp_div_less [of "ord c" 4 64] by simp
  then have "(ord c div 64 mod 4) * 64 = 128 \<longleftrightarrow> ord c div 64 = 2" by auto
  also have "\<dots> \<longleftrightarrow> 128 \<le> ord c \<and> ord c < 192" by auto
  finally show ?thesis by (simp add: is_continuation_def bits)
qed

lemma continuation_value: "is_continuation c \<Longrightarrow> ord c = 0x80 + ord c mod 64"
proof -
  assume "is_continuation c"
  then have c: "ord c = 128 + (ord c - 128)" "ord c - 128 < 64" by (auto simp: is_continuation_iff)
  then have "ord c mod 64 = (128 + (ord c - 128)) mod 64" by simp
  also have "\<dots> = ord c - 128" using c(2) by (simp add: mod_add_eq [symmetric])
  finally show ?thesis using c by simp
qed

locale utf8_decoder =
  fixes accepts :: "codepoint \<Rightarrow> bool"
    and decode :: "string \<Rightarrow> nat \<Rightarrow> (codepoint \<times> nat) option"
  assumes accepts_scalar: "accepts cp \<Longrightarrow> is_scalar cp"
    and decode_iff: "decode s i = Some (cp, j) \<longleftrightarrow>
      accepts cp \<and> (\<exists>t. drop i s = utf8 cp @ t) \<and> j = i + length (utf8 cp)"
begin

lemma decode_encoded: "accepts cp \<Longrightarrow> decode (p @ utf8 cp @ t) (length p) = Some (cp, length p + length (utf8 cp))"
  by (simp add: decode_iff)

lemma decode_progress: "decode s i = Some (cp, j) \<Longrightarrow> i < j \<and> j \<le> length s"
proof -
  assume "decode s i = Some (cp, j)"
  then obtain t where t: "drop i s = utf8 cp @ t" and j: "j = i + length (utf8 cp)"
    by (auto simp: decode_iff)
  have "utf8 cp \<noteq> []" by (simp add: AppendUtf8_def)
  moreover have "length s - i = length (utf8 cp) + length t" using arg_cong [OF t, of length] by simp
  ultimately show ?thesis using j by (cases "utf8 cp") auto
qed

lemma decode_bytes: "decode s i = Some (cp, j) \<Longrightarrow> take (j - i) (drop i s) = utf8 cp"
  by (auto simp: decode_iff)

end

text \<open>
  A reference reader on the bytes that remain, in arithmetic instead of masks and shifts: the
  form to which each of the program's decoders reduces.
\<close>

fun utf8_head :: "string \<Rightarrow> (codepoint \<times> nat) option" where
  "utf8_head [] = None"
| "utf8_head (c0 # cs) =
     (let b0 = ord c0 in
      if b0 < 0x80 then Some (b0, 1)
      else if b0 < 0xc0 then None
      else if b0 < 0xe0 then
        (case cs of c1 # _ \<Rightarrow>
           let v = (b0 - 0xc0) * 64 + ord c1 mod 64 in
           if is_continuation c1 \<and> 0x80 \<le> v then Some (v, 2) else None
         | _ \<Rightarrow> None)
      else if b0 < 0xf0 then
        (case cs of c1 # c2 # _ \<Rightarrow>
           let v = (b0 - 0xe0) * 4096 + ord c1 mod 64 * 64 + ord c2 mod 64 in
           if is_continuation c1 \<and> is_continuation c2 \<and> 0x800 \<le> v \<and> is_scalar v
           then Some (v, 3) else None
         | _ \<Rightarrow> None)
      else if b0 < 0xf8 then
        (case cs of c1 # c2 # c3 # _ \<Rightarrow>
           let v = (b0 - 0xf0) * 262144 + ord c1 mod 64 * 4096 + ord c2 mod 64 * 64 + ord c3 mod 64 in
           if is_continuation c1 \<and> is_continuation c2 \<and> is_continuation c3 \<and> 0x10000 \<le> v \<and> is_scalar v
           then Some (v, 4) else None
         | _ \<Rightarrow> None)
      else None)"

lemma utf8_pack2:
  assumes "0xc0 \<le> ord c0" "ord c0 < 0xe0" "is_continuation c1"
    and "v = (ord c0 - 0xc0) * 64 + ord c1 mod 64" "0x80 \<le> v"
  shows "utf8 v = [c0, c1]"
proof -
  from assms(3) have b1: "ord c1 = 0x80 + ord c1 mod 64" by (rule continuation_value)
  from assms have "v < 0x800" by simp
  moreover have "v div 64 = ord c0 - 0xc0" "v mod 64 = ord c1 mod 64"
    using assms(4) by (rule digit64)+
  ultimately show ?thesis using assms(1,5) b1 by (simp add: utf8_cases flip: b1)
qed

lemma utf8_pack3:
  assumes "0xe0 \<le> ord c0" "ord c0 < 0xf0" "is_continuation c1" "is_continuation c2"
    and "v = (ord c0 - 0xe0) * 4096 + ord c1 mod 64 * 64 + ord c2 mod 64" "0x800 \<le> v"
  shows "utf8 v = [c0, c1, c2]"
proof -
  from assms(3,4) have b: "ord c1 = 0x80 + ord c1 mod 64" "ord c2 = 0x80 + ord c2 mod 64"
    by (auto intro: continuation_value)
  have v: "v < 0x10000" using assms(2,5) by simp
  have "v = ((ord c0 - 0xe0) * 64 + ord c1 mod 64) * 64 + ord c2 mod 64"
    using assms(5) by simp
  note lo = digit64 [OF this] and hi = digit64 [OF digit64(1) [OF this]]
  have "v div 4096 = v div 64 div 64" by (simp flip: div_mult2_eq)
  then show ?thesis using assms(1,6) v by (simp add: utf8_cases lo(2) hi flip: b)
qed

lemma utf8_pack4:
  assumes "0xf0 \<le> ord c0" "ord c0 < 0xf8" "is_continuation c1" "is_continuation c2" "is_continuation c3"
    and "v = (ord c0 - 0xf0) * 262144 + ord c1 mod 64 * 4096 + ord c2 mod 64 * 64 + ord c3 mod 64"
    and "0x10000 \<le> v"
  shows "utf8 v = [c0, c1, c2, c3]"
proof -
  from assms(3-5) have b: "ord c1 = 0x80 + ord c1 mod 64" "ord c2 = 0x80 + ord c2 mod 64"
    "ord c3 = 0x80 + ord c3 mod 64"
    by (auto intro: continuation_value)
  have v: "v < 0x200000" using assms(2,6) by simp
  have "v = (((ord c0 - 0xf0) * 64 + ord c1 mod 64) * 64 + ord c2 mod 64) * 64 + ord c3 mod 64"
    using assms(6) by simp
  note lo = digit64 [OF this] and mi = digit64 [OF digit64(1) [OF this]]
    and hi = digit64 [OF digit64(1) [OF digit64(1) [OF this]]]
  have "v div 4096 = v div 64 div 64" "v div 262144 = v div 64 div 64 div 64"
    by (simp_all flip: div_mult2_eq)
  then show ?thesis using assms(1,7) v by (simp add: utf8_cases lo(2) mi(2) hi flip: b)
qed

lemma continuation_byte: "is_continuation (byte (0x80 + n mod 64))" "is_continuation (byte n) \<longleftrightarrow> 0x80 \<le> n mod 256 \<and> n mod 256 < 0xc0"
  by (simp_all add: is_continuation_iff)

lemma utf8_head_sound:
  assumes "utf8_head s = Some (cp, w)"
  shows "is_scalar cp \<and> w = length (utf8 cp) \<and> (\<exists>t. s = utf8 cp @ t)"
proof -
  from assms obtain c0 cs where s: "s = c0 # cs" by (cases s) auto
  consider "ord c0 < 0x80" | "0xc0 \<le> ord c0" "ord c0 < 0xe0" | "0xe0 \<le> ord c0" "ord c0 < 0xf0"
    | "0xf0 \<le> ord c0" "ord c0 < 0xf8"
    using assms s by (fastforce simp: Let_def split: if_splits)
  then show ?thesis
  proof cases
    case 1
    with assms s show ?thesis by (auto simp: utf8_cases is_scalar_def)
  next
    case 2
    with assms s obtain c1 t where cs: "cs = c1 # t" "is_continuation c1" "w = 2" "0x80 \<le> cp"
      "cp = (ord c0 - 0xc0) * 64 + ord c1 mod 64"
      by (auto simp: Let_def split: list.splits if_splits)
    moreover have "cp < 0xd800" using 2 cs(5) by simp
    ultimately show ?thesis using utf8_pack2 [OF 2 cs(2,5,4)] s by (simp add: is_scalar_def)
  next
    case 3
    with assms s obtain c1 c2 t where cs: "cs = c1 # c2 # t" "is_continuation c1" "is_continuation c2"
      "w = 3" "0x800 \<le> cp" "cp = (ord c0 - 0xe0) * 4096 + ord c1 mod 64 * 64 + ord c2 mod 64" "is_scalar cp"
      by (auto simp: Let_def split: list.splits if_splits)
    then show ?thesis using utf8_pack3 [OF 3 cs(2,3,6,5)] s by simp
  next
    case 4
    with assms s obtain c1 c2 c3 t where cs: "cs = c1 # c2 # c3 # t" "is_continuation c1" "is_continuation c2"
      "is_continuation c3" "w = 4" "0x10000 \<le> cp" "is_scalar cp"
      "cp = (ord c0 - 0xf0) * 262144 + ord c1 mod 64 * 4096 + ord c2 mod 64 * 64 + ord c3 mod 64"
      by (auto simp: Let_def split: list.splits if_splits)
    then show ?thesis using utf8_pack4 [OF 4 cs(2-4,8,6)] s by simp
  qed
qed

lemma utf8_head_complete:
  assumes "is_scalar cp"
  shows "utf8_head (utf8 cp @ t) = Some (cp, length (utf8 cp))"
proof -
  consider "cp < 0x80" | "0x80 \<le> cp" "cp < 0x800" | "0x800 \<le> cp" "cp < 0x10000"
    | "0x10000 \<le> cp" "cp < 0x110000"
    using assms by (fastforce simp: is_scalar_def)
  then show ?thesis
  proof cases
    case 1
    then show ?thesis by (simp add: utf8_cases)
  next
    case 2
    then have "cp div 64 < 32" using less_mult_imp_div_less [of cp 32 64] by simp
    then show ?thesis using 2 by (simp add: utf8_cases continuation_byte Let_def)
  next
    case 3
    then have "cp div 4096 < 16" using less_mult_imp_div_less [of cp 16 4096] by simp
    then show ?thesis using 3 base64_decomp(1) [of cp] assms by (simp add: utf8_cases continuation_byte)
  next
    case 4
    then have "cp div 262144 < 8" using less_mult_imp_div_less [of cp 8 262144] by simp
    then show ?thesis using 4 base64_decomp(2) [of cp] assms by (simp add: utf8_cases continuation_byte)
  qed
qed

lemma utf8_head_iff:
  "utf8_head s = Some (cp, w) \<longleftrightarrow> is_scalar cp \<and> w = length (utf8 cp) \<and> (\<exists>t. s = utf8 cp @ t)"
  by (auto dest: utf8_head_sound simp: utf8_head_complete)

lemma utf8_head_offset:
  "map_option (\<lambda>(cp, w). (cp, i + w)) (utf8_head (drop i s)) = Some (cp, j) \<longleftrightarrow>
     is_scalar cp \<and> (\<exists>t. drop i s = utf8 cp @ t) \<and> j = i + length (utf8 cp)"
  by (auto simp: utf8_head_iff)

lemma length_utf8: "is_scalar cp \<Longrightarrow>
  length (utf8 cp) = (if cp < 0x80 then 1 else if cp < 0x800 then 2 else if cp < 0x10000 then 3 else 4)"
  by (auto simp: AppendUtf8_def is_scalar_def)

lemma utf8_lead: "is_scalar c \<Longrightarrow> \<not> is_continuation (hd (utf8 c)) \<and> list_all is_continuation (tl (utf8 c))"
proof -
  assume c: "is_scalar c"
  have lt: "c < 0x110000" using c by (simp add: is_scalar_def)
  consider "c < 0x80" | "0x80 \<le> c" "c < 0x800" | "0x800 \<le> c" "c < 0x10000" | "0x10000 \<le> c"
    by linarith
  then show ?thesis
    using lt
    by cases (simp_all add: utf8_cases continuation_byte)
qed

section \<open>The decoders implement the interface\<close>

text \<open>The success branch of \<open>DecodeNextUtf8\<close>, as a decoder.\<close>

definition decode_next :: "string \<Rightarrow> nat \<Rightarrow> (codepoint \<times> nat) option" where
  "decode_next s i = (case DecodeNextUtf8 s i 0 of (ok, j, cp) \<Rightarrow> if ok then Some (cp, j) else None)"

lemma lead_bits:
  assumes "b < 256"
  shows "b AND 0xe0 = (0xc0::nat) \<longleftrightarrow> 0xc0 \<le> b \<and> b < 0xe0"
    and "b AND 0xf0 = 0xe0 \<longleftrightarrow> 0xe0 \<le> b \<and> b < 0xf0"
    and "b AND 0xf8 = 0xf0 \<longleftrightarrow> 0xf0 \<le> b \<and> b < 0xf8"
proof -
  have "b div 32 < 8" "b div 16 < 16" "b div 8 < 32"
    using assms less_mult_imp_div_less [of b 8 32] less_mult_imp_div_less [of b 16 16]
      less_mult_imp_div_less [of b 32 8] by simp_all
  then show "b AND 0xe0 = (0xc0::nat) \<longleftrightarrow> 0xc0 \<le> b \<and> b < 0xe0"
    and "b AND 0xf0 = 0xe0 \<longleftrightarrow> 0xe0 \<le> b \<and> b < 0xf0"
    and "b AND 0xf8 = 0xf0 \<longleftrightarrow> 0xf0 \<le> b \<and> b < 0xf8"
    by (auto simp: bits)
qed

lemma lead_cases:
  fixes b :: nat
  obtains "b < 0x80" | "0x80 \<le> b" "b < 0xc0" | "0xc0 \<le> b" "b < 0xe0" | "0xe0 \<le> b" "b < 0xf0"
    | "0xf0 \<le> b" "b < 0xf8" | "0xf8 \<le> b"
  by linarith

lemma lead_payload:
  "0xc0 \<le> b \<Longrightarrow> b < 0xe0 \<Longrightarrow> b AND 0x1f = b - (0xc0::nat)"
  "0xe0 \<le> b \<Longrightarrow> b < 0xf0 \<Longrightarrow> b AND 0x0f = b - (0xe0::nat)"
  "0xf0 \<le> b \<Longrightarrow> b < 0xf8 \<Longrightarrow> b AND 0x07 = b - (0xf0::nat)"
  by (auto simp: bits le_mod_geq mod_if)

lemma decode_continuation_eq:
  "decode_continuation s p 1 v =
     (if is_continuation (s ! p) then Some (v * 64 + ord (s ! p) mod 64) else None)"
  "decode_continuation s p 2 v =
     (if is_continuation (s ! p) \<and> is_continuation (s ! Suc p)
      then Some ((v * 64 + ord (s ! p) mod 64) * 64 + ord (s ! Suc p) mod 64) else None)"
  "decode_continuation s p 3 v =
     (if is_continuation (s ! p) \<and> is_continuation (s ! Suc p) \<and> is_continuation (s ! Suc (Suc p))
      then Some (((v * 64 + ord (s ! p) mod 64) * 64 + ord (s ! Suc p) mod 64) * 64
        + ord (s ! Suc (Suc p)) mod 64) else None)"
  unfolding One_nat_def numeral_2_eq_2 numeral_3_eq_3
  by (simp_all add: is_continuation_def bits)

declare decode_continuation.simps [simp del]

lemma drop_split:
  "i < length s \<Longrightarrow> drop i s = s ! i # drop (Suc i) s"
  by (simp add: Cons_nth_drop_Suc)

lemma utf8_head_at:
  assumes "i < length s"
  shows "utf8_head (drop i s) =
     (let b0 = ord (s ! i); n = length s - i;
          k1 = s ! Suc i; k2 = s ! Suc (Suc i); k3 = s ! Suc (Suc (Suc i)) in
      if b0 < 0x80 then Some (b0, 1)
      else if b0 < 0xc0 then None
      else if b0 < 0xe0 then
        (let v = (b0 - 0xc0) * 64 + ord k1 mod 64 in
         if 2 \<le> n \<and> is_continuation k1 \<and> 0x80 \<le> v then Some (v, 2) else None)
      else if b0 < 0xf0 then
        (let v = (b0 - 0xe0) * 4096 + ord k1 mod 64 * 64 + ord k2 mod 64 in
         if 3 \<le> n \<and> is_continuation k1 \<and> is_continuation k2 \<and> 0x800 \<le> v \<and> is_scalar v
         then Some (v, 3) else None)
      else if b0 < 0xf8 then
        (let v = (b0 - 0xf0) * 262144 + ord k1 mod 64 * 4096 + ord k2 mod 64 * 64 + ord k3 mod 64 in
         if 4 \<le> n \<and> is_continuation k1 \<and> is_continuation k2 \<and> is_continuation k3 \<and>
            0x10000 \<le> v \<and> is_scalar v
         then Some (v, 4) else None)
      else None)"
proof -
  consider "length s - i = 1" | "length s - i = 2" | "length s - i = 3" | "4 \<le> length s - i"
    using assms by linarith
  then show ?thesis
  proof cases
    case 1
    then have "drop (Suc i) s = []" by simp
    then show ?thesis using 1 assms by (simp add: drop_split Let_def)
  next
    case 2
    then have "drop (Suc i) s = [s ! Suc i]" using drop_split [of "Suc i" s] by simp
    then show ?thesis using 2 assms by (simp add: drop_split [OF assms] Let_def)
  next
    case 3
    then have "drop (Suc i) s = [s ! Suc i, s ! Suc (Suc i)]"
      using drop_split [of "Suc i" s] drop_split [of "Suc (Suc i)" s] by simp
    then show ?thesis using 3 assms by (simp add: drop_split [OF assms] Let_def)
  next
    case 4
    then have "drop (Suc i) s = s ! Suc i # s ! Suc (Suc i) # s ! Suc (Suc (Suc i)) # drop (Suc (Suc (Suc (Suc i)))) s"
      using drop_split [of "Suc i" s] drop_split [of "Suc (Suc i)" s] drop_split [of "Suc (Suc (Suc i))" s]
      by simp
    then show ?thesis using 4 assms by (simp add: drop_split [OF assms] Let_def)
  qed
qed

text \<open>
  The three multi-byte forms, with the packed value \<open>v\<close> and the test \<open>k\<close> of the continuation
  bytes named: what every decoder built on the continuation loop needs to know.
\<close>

lemma utf8_head_2:
  assumes "i < length s" "0xc0 \<le> ord (s ! i)" "ord (s ! i) < 0xe0"
  obtains v k where "decode_continuation s (Suc i) (Suc 0) (ord (s ! i) AND 0x1f) = (if k then Some v else None)"
    and "utf8_head (drop i s) = (if 2 \<le> length s - i \<and> k \<and> 0x80 \<le> v then Some (v, 2) else None)"
    and "v < 0x800" and "0x80 \<le> v \<Longrightarrow> 0xc2 \<le> ord (s ! i)"
proof
  let ?v = "(ord (s ! i) - 0xc0) * 64 + ord (s ! Suc i) mod 64" and ?k = "is_continuation (s ! Suc i)"
  show "decode_continuation s (Suc i) (Suc 0) (ord (s ! i) AND 0x1f) = (if ?k then Some ?v else None)"
    unfolding lead_payload(1) [OF assms(2,3)] decode_continuation_eq(1) [unfolded One_nat_def] ..
  show "utf8_head (drop i s) = (if 2 \<le> length s - i \<and> ?k \<and> 0x80 \<le> ?v then Some (?v, 2) else None)"
    using assms(2,3) unfolding utf8_head_at [OF assms(1)] Let_def by simp
  have "ord (s ! Suc i) mod 64 < 64" by simp
  then show "?v < 0x800" and "0x80 \<le> ?v \<Longrightarrow> 0xc2 \<le> ord (s ! i)" using assms(2,3) by linarith+
qed

lemma utf8_head_3:
  assumes "i < length s" "0xe0 \<le> ord (s ! i)" "ord (s ! i) < 0xf0"
  obtains v k where "decode_continuation s (Suc i) 2 (ord (s ! i) AND 0x0f) = (if k then Some v else None)"
    and "utf8_head (drop i s) = (if 3 \<le> length s - i \<and> k \<and> 0x800 \<le> v \<and> is_scalar v then Some (v, 3) else None)"
proof
  let ?v = "((ord (s ! i) - 0xe0) * 64 + ord (s ! Suc i) mod 64) * 64 + ord (s ! Suc (Suc i)) mod 64"
    and ?k = "is_continuation (s ! Suc i) \<and> is_continuation (s ! Suc (Suc i))"
  have v: "?v = (ord (s ! i) - 0xe0) * 4096 + ord (s ! Suc i) mod 64 * 64 + ord (s ! Suc (Suc i)) mod 64"
    by (simp add: distrib_right)
  show "decode_continuation s (Suc i) 2 (ord (s ! i) AND 0x0f) = (if ?k then Some ?v else None)"
    unfolding lead_payload(2) [OF assms(2,3)] decode_continuation_eq(2) ..
  show "utf8_head (drop i s) = (if 3 \<le> length s - i \<and> ?k \<and> 0x800 \<le> ?v \<and> is_scalar ?v then Some (?v, 3) else None)"
    using assms(2,3) unfolding utf8_head_at [OF assms(1)] Let_def v by simp
qed

lemma utf8_head_4:
  assumes "i < length s" "0xf0 \<le> ord (s ! i)" "ord (s ! i) < 0xf8"
  obtains v k where "decode_continuation s (Suc i) 3 (ord (s ! i) AND 0x07) = (if k then Some v else None)"
    and "utf8_head (drop i s) = (if 4 \<le> length s - i \<and> k \<and> 0x10000 \<le> v \<and> is_scalar v then Some (v, 4) else None)"
    and "is_scalar v \<Longrightarrow> ord (s ! i) \<le> 0xf4"
proof
  let ?v = "(((ord (s ! i) - 0xf0) * 64 + ord (s ! Suc i) mod 64) * 64 + ord (s ! Suc (Suc i)) mod 64) * 64
      + ord (s ! Suc (Suc (Suc i))) mod 64"
    and ?k = "is_continuation (s ! Suc i) \<and> is_continuation (s ! Suc (Suc i)) \<and> is_continuation (s ! Suc (Suc (Suc i)))"
  have v: "?v = (ord (s ! i) - 0xf0) * 262144 + ord (s ! Suc i) mod 64 * 4096 +
      ord (s ! Suc (Suc i)) mod 64 * 64 + ord (s ! Suc (Suc (Suc i))) mod 64"
    by (simp add: distrib_right)
  show "decode_continuation s (Suc i) 3 (ord (s ! i) AND 0x07) = (if ?k then Some ?v else None)"
    unfolding lead_payload(3) [OF assms(2,3)] decode_continuation_eq(3) ..
  show "utf8_head (drop i s) = (if 4 \<le> length s - i \<and> ?k \<and> 0x10000 \<le> ?v \<and> is_scalar ?v then Some (?v, 4) else None)"
    using assms(2,3) unfolding utf8_head_at [OF assms(1)] Let_def v by simp
  show "is_scalar ?v \<Longrightarrow> ord (s ! i) \<le> 0xf4"
    unfolding v is_scalar_def by linarith
qed

lemma utf8_head_1:
  assumes "i < length s"
  shows "ord (s ! i) < 0x80 \<Longrightarrow> utf8_head (drop i s) = Some (ord (s ! i), 1)"
    and "0x80 \<le> ord (s ! i) \<Longrightarrow> ord (s ! i) < 0xc0 \<Longrightarrow> utf8_head (drop i s) = None"
    and "0xf8 \<le> ord (s ! i) \<Longrightarrow> utf8_head (drop i s) = None"
  by (simp_all add: utf8_head_at [OF assms] Let_def)

lemma decode_next_head:
  "decode_next s i = map_option (\<lambda>(cp, w). (cp, i + w)) (utf8_head (drop i s))"
proof (cases "i < length s")
  case True
  note D = decode_next_def DecodeNextUtf8_def lead_bits [OF nat_of_char_less_256] Let_def
  show ?thesis
  proof (cases rule: lead_cases [of "ord (s ! i)"])
    case 3
    show ?thesis by (rule utf8_head_2 [OF True 3]) (use True 3 in \<open>auto simp: D\<close>)
  next
    case 4
    show ?thesis by (rule utf8_head_3 [OF True 4]) (use True 4 in \<open>auto simp: D is_scalar_def\<close>)
  next
    case 5
    show ?thesis by (rule utf8_head_4 [OF True 5]) (use True 5 in \<open>auto simp: D is_scalar_def\<close>)
  qed (use True in \<open>simp_all add: D utf8_head_1 [OF True]\<close>)
next
  case False
  then show ?thesis by (simp add: decode_next_def DecodeNextUtf8_def)
qed

interpretation core_decoder: utf8_decoder is_scalar decode_next
  by unfold_locales (assumption, simp only: decode_next_head utf8_head_offset)

section \<open>core/src/DoubleArrayTrie.cpp: the dictionary's codec\<close>

text \<open>
  \<open>Decode\<close> advances \<open>i\<close> and writes \<open>cp\<close> before it knows whether the sequence is valid,
  but both callers stop at the first failure and drop them, so a failure is \<^term>\<open>None\<close>.
\<close>

definition trie_Decode :: "string \<Rightarrow> nat \<Rightarrow> (codepoint \<times> nat) option" where
  "trie_Decode s i =
     (if i \<ge> length s then None
      else let first = ord (s ! i) in
        if first < 0x80 then (if first \<noteq> 0 then Some (first, i + 1) else None)
        else case (if first \<ge> 0xc2 \<and> first \<le> 0xdf then Some (1, first AND 31, 0x80)
                   else if first \<ge> 0xe0 \<and> first \<le> 0xef then Some (2, first AND 15, 0x800)
                   else if first \<ge> 0xf0 \<and> first \<le> 0xf4 then Some (3, first AND 7, 0x10000)
                   else None) of
            None \<Rightarrow> None
          | Some (extra, cp0, minimum) \<Rightarrow>
              if extra > length s - (i + 1) then None
              else case decode_continuation s (i + 1) extra cp0 of
                  None \<Rightarrow> None
                | Some cp \<Rightarrow>
                    if cp \<ge> minimum \<and> cp \<le> 0x10ffff \<and> \<not> (cp \<ge> 0xd800 \<and> cp \<le> 0xdfff)
                    then Some (cp, i + 1 + extra) else None)"

definition trie_Encode :: "codepoint \<Rightarrow> string \<Rightarrow> string" where
  "trie_Encode cp out =
     (if cp < 0x80 then out @ [byte cp]
      else if cp < 0x800 then
        out @ [byte (0xc0 OR drop_bit 6 cp), byte (0x80 OR (cp AND 63))]
      else if cp < 0x10000 then
        out @ [byte (0xe0 OR drop_bit 12 cp), byte (0x80 OR (drop_bit 6 cp AND 63)),
               byte (0x80 OR (cp AND 63))]
      else
        out @ [byte (0xf0 OR drop_bit 18 cp), byte (0x80 OR (drop_bit 12 cp AND 63)),
               byte (0x80 OR (drop_bit 6 cp AND 63)), byte (0x80 OR (cp AND 63))])"

lemma trie_Encode_eq: "is_scalar cp \<Longrightarrow> trie_Encode cp out = AppendUtf8 out cp"
proof -
  assume "is_scalar cp"
  then have "cp < 0x110000" by (simp add: is_scalar_def)
  moreover have "cp < 0x800 \<Longrightarrow> cp div 64 < 32" "cp < 0x10000 \<Longrightarrow> cp div 4096 < 16"
    "cp < 0x110000 \<Longrightarrow> cp div 262144 < 8"
    using less_mult_imp_div_less [of cp 32 64] less_mult_imp_div_less [of cp 16 4096]
      less_mult_imp_div_less [of cp 8 262144] by simp_all
  ultimately show ?thesis
    by (auto simp: trie_Encode_def AppendUtf8_def bits drop_bit_eq_div)
qed

lemma trie_Decode_head:
  "trie_Decode s i = (case utf8_head (drop i s) of
     Some (cp, w) \<Rightarrow> if cp = 0 then None else Some (cp, i + w) | None \<Rightarrow> None)"
proof (cases "i < length s")
  case True
  note D = trie_Decode_def Let_def
  show ?thesis
  proof (cases rule: lead_cases [of "ord (s ! i)"])
    case 3
    show ?thesis by (rule utf8_head_2 [OF True 3]) (use True 3 in \<open>auto simp: D\<close>)
  next
    case 4
    show ?thesis by (rule utf8_head_3 [OF True 4]) (use True 4 in \<open>auto simp: D is_scalar_def\<close>)
  next
    case 5
    show ?thesis by (rule utf8_head_4 [OF True 5]) (use True 5 in \<open>auto simp: D is_scalar_def\<close>)
  qed (use True in \<open>simp_all add: D utf8_head_1 [OF True]\<close>)
next
  case False
  then show ?thesis by (simp add: trie_Decode_def)
qed

lemma trie_Decode_Some_iff:
  "trie_Decode s i = Some (cp, j) \<longleftrightarrow>
     cp \<noteq> 0 \<and> map_option (\<lambda>(cp, w). (cp, i + w)) (utf8_head (drop i s)) = Some (cp, j)"
  by (auto simp: trie_Decode_head split: option.splits if_splits)

interpretation dictionary_decoder: utf8_decoder "\<lambda>cp. is_scalar cp \<and> cp \<noteq> 0" trie_Decode
proof unfold_locales
  fix s i cp j
  show "trie_Decode s i = Some (cp, j) \<longleftrightarrow>
     (is_scalar cp \<and> cp \<noteq> 0) \<and> (\<exists>t. drop i s = utf8 cp @ t) \<and> j = i + length (utf8 cp)"
    unfolding trie_Decode_Some_iff utf8_head_offset by blast
qed simp

section \<open>core/src/LiveConversionChunker.cpp: DecodeUtf8At\<close>

definition DecodeUtf8At :: "string \<Rightarrow> nat \<Rightarrow> codepoint \<times> nat" where
  "DecodeUtf8At text offset =
     (let remaining = length text - offset;
          b0 = ord (text ! offset);
          b1 = text ! (offset + 1); b2 = text ! (offset + 2); b3 = text ! (offset + 3);
          two = push_bit 6 (b0 AND 0x1f) OR (ord b1 AND 0x3f);
          three = push_bit 12 (b0 AND 0x0f) OR push_bit 6 (ord b1 AND 0x3f) OR (ord b2 AND 0x3f);
          four = push_bit 18 (b0 AND 0x07) OR push_bit 12 (ord b1 AND 0x3f) OR
                 push_bit 6 (ord b2 AND 0x3f) OR (ord b3 AND 0x3f)
      in if b0 < 0x80 then (b0, 1)
         else if b0 AND 0xe0 = 0xc0 \<and> remaining \<ge> 2 \<and> is_continuation b1 \<and> two \<ge> 0x80 then (two, 2)
         else if b0 AND 0xf0 = 0xe0 \<and> remaining \<ge> 3 \<and> is_continuation b1 \<and> is_continuation b2 \<and>
                 three \<ge> 0x800 \<and> (three < 0xd800 \<or> three > 0xdfff) then (three, 3)
         else if b0 AND 0xf8 = 0xf0 \<and> remaining \<ge> 4 \<and> is_continuation b1 \<and> is_continuation b2 \<and>
                 is_continuation b3 \<and> four \<ge> 0x10000 \<and> four \<le> 0x10ffff then (four, 4)
         else (0xfffd, 1))"

lemma shift_or_chain:
  assumes "b < 64" "c < 64" "d < 64"
  shows "push_bit 12 a OR push_bit 6 b OR (c::nat) = a * 4096 + b * 64 + c"
    and "push_bit 18 a OR push_bit 12 b OR push_bit 6 c OR (d::nat) = a * 262144 + b * 4096 + c * 64 + d"
proof -
  have c1: "push_bit 6 b OR c = b * 64 + c" "push_bit 6 c OR d = c * 64 + d"
    using shift_or [of c 6 b] shift_or [of d 6 c] assms by simp_all
  then have c2: "push_bit 12 b OR (push_bit 6 c OR d) = b * 4096 + (c * 64 + d)"
    using shift_or [of "c * 64 + d" 12 b] assms by simp
  show "push_bit 12 a OR push_bit 6 b OR c = a * 4096 + b * 64 + c"
    using c1 shift_or [of "b * 64 + c" 12 a] assms by (simp add: or.assoc)
  show "push_bit 18 a OR push_bit 12 b OR push_bit 6 c OR d = a * 262144 + b * 4096 + c * 64 + d"
    using c2 shift_or [of "b * 4096 + (c * 64 + d)" 18 a] assms by (simp add: or.assoc)
qed

lemma packed_values:
  "push_bit 6 (x AND 0x1f) OR (y AND 0x3f) = x mod 32 * 64 + y mod (64::nat)"
  "push_bit 12 (x AND 0x0f) OR push_bit 6 (y AND 0x3f) OR (z AND 0x3f) =
     x mod 16 * 4096 + y mod 64 * 64 + z mod (64::nat)"
  "push_bit 18 (x AND 0x07) OR push_bit 12 (y AND 0x3f) OR push_bit 6 (z AND 0x3f) OR (w AND 0x3f) =
     x mod 8 * 262144 + y mod 64 * 4096 + z mod 64 * 64 + w mod (64::nat)"
  unfolding and_low by (simp_all add: shift_or shift_or_chain)

lemmas lead_mod = lead_payload [unfolded and_low]

lemma DecodeUtf8At_head:
  assumes "i < length s"
  shows "DecodeUtf8At s i = (case utf8_head (drop i s) of Some r \<Rightarrow> r | None \<Rightarrow> (0xfffd, 1))"
proof -
  note D = DecodeUtf8At_def [unfolded packed_values] utf8_head_at [OF assms]
    lead_bits [OF nat_of_char_less_256] lead_mod is_scalar_def Let_def not_less
  show ?thesis
  proof (cases rule: lead_cases [of "ord (s ! i)"])
    case (1)
    then show ?thesis by (simp add: D)
  next
    case (2)
    then show ?thesis by (simp add: D)
  next
    case (3)
    then show ?thesis by (auto simp: D)
  next
    case (4)
    then show ?thesis by (auto simp: D numeral_2_eq_2)
  next
    case (5)
    then show ?thesis by (auto simp: D numeral_2_eq_2 numeral_3_eq_3)
  next
    case (6)
    then show ?thesis by (simp add: D)
  qed
qed

section \<open>ipc/src/ProofreadSession.cpp: NextCodePoint\<close>

text \<open>\<open>pos\<close> is moved only on success.\<close>

definition NextCodePoint :: "string \<Rightarrow> nat \<Rightarrow> (codepoint \<times> nat) option" where
  "NextCodePoint text pos =
     (let first = ord (text ! pos) in
      if first < 0x80 then Some (first, pos + 1)
      else case (if first AND 0xe0 = 0xc0 then Some (2, first AND 0x1f, 0x80)
                 else if first AND 0xf0 = 0xe0 then Some (3, first AND 0x0f, 0x800)
                 else if first AND 0xf8 = 0xf0 then Some (4, first AND 0x07, 0x10000)
                 else None) of
          None \<Rightarrow> None
        | Some (len, code0, minimum) \<Rightarrow>
            if length text - pos < len then None
            else case decode_continuation text (pos + 1) (len - 1) code0 of
                None \<Rightarrow> None
              | Some code \<Rightarrow>
                  if code < minimum \<or> code > 0x10ffff \<or> (code \<ge> 0xd800 \<and> code \<le> 0xdfff) then None
                  else Some (code, pos + len))"

lemma NextCodePoint_decode_next:
  assumes "i < length s"
  shows "NextCodePoint s i = decode_next s i"
proof -
  note D = NextCodePoint_def decode_next_def DecodeNextUtf8_def lead_bits [OF nat_of_char_less_256]
    Let_def not_less
  show ?thesis
    by (cases rule: lead_cases [of "ord (s ! i)"]) (use assms in \<open>auto simp: D split: option.splits\<close>)
qed

section \<open>ipc/src/Json.cpp: AppendUtf8\<close>

definition json_AppendUtf8 :: "codepoint \<Rightarrow> string \<Rightarrow> string option" where
  "json_AppendUtf8 codepoint out =
     (if codepoint > 0x10ffff \<or> (codepoint \<ge> 0xd800 \<and> codepoint \<le> 0xdfff) then None
      else if codepoint < 0x80 then Some (out @ [byte codepoint])
      else if codepoint < 0x800 then
        Some (out @ [byte (0xc0 OR drop_bit 6 codepoint), byte (0x80 OR (codepoint AND 0x3f))])
      else if codepoint < 0x10000 then
        Some (out @ [byte (0xe0 OR drop_bit 12 codepoint), byte (0x80 OR (drop_bit 6 codepoint AND 0x3f)),
                     byte (0x80 OR (codepoint AND 0x3f))])
      else
        Some (out @ [byte (0xf0 OR drop_bit 18 codepoint), byte (0x80 OR (drop_bit 12 codepoint AND 0x3f)),
                     byte (0x80 OR (drop_bit 6 codepoint AND 0x3f)), byte (0x80 OR (codepoint AND 0x3f))]))"

lemma json_AppendUtf8_eq:
  "json_AppendUtf8 cp out = (if is_scalar cp then Some (AppendUtf8 out cp) else None)"
proof (cases "is_scalar cp")
  case True
  then have "json_AppendUtf8 cp out = Some (trie_Encode cp out)"
    by (auto simp: json_AppendUtf8_def trie_Encode_def is_scalar_def)
  with True show ?thesis by (simp add: trie_Encode_eq)
next
  case False
  then show ?thesis by (auto simp: json_AppendUtf8_def is_scalar_def)
qed

section \<open>Properties\<close>

text \<open>C12: \<open>DecodeNextUtf8\<close> is exactly the inverse of \<open>AppendUtf8\<close>: at every offset of every byte
  string it succeeds if and only if the bytes there start with the encoding that \<open>AppendUtf8\<close>
  writes for some Unicode scalar value, and then returns that value and the offset just behind
  the encoding. Overlong forms, surrogates, values above U+10FFFF and truncated sequences are
  therefore all refused.
\<close>

theorem DecodeNextUtf8_iff_AppendUtf8:
  "(\<exists>c0. DecodeNextUtf8 s i c0 = (True, j, cp)) \<longleftrightarrow>
     is_scalar cp \<and> j = i + length (AppendUtf8 [] cp) \<and> take (j - i) (drop i s) = AppendUtf8 [] cp"
proof -
  have c0: "DecodeNextUtf8 s i c0 = (True, j, cp) \<longleftrightarrow> decode_next s i = Some (cp, j)" for c0
    by (auto simp: decode_next_def DecodeNextUtf8_def Let_def split: if_splits option.splits)
  show ?thesis
    unfolding c0 core_decoder.decode_iff
    by (auto simp flip: take_drop_eq_append_iff)
qed

text \<open>On any byte string and any offset inside it, the five decoders of the program agree: the
  proofreading session's reader and the live-conversion chunker's reader accept exactly what
  \<open>DecodeNextUtf8\<close> accepts (the chunker substituting U+FFFD and one byte for a rejected
  sequence), and the dictionary's reader accepts the same except for the NUL byte.
\<close>

theorem utf8_decoders_agree:
  assumes "i < length s"
  shows "NextCodePoint s i = decode_next s i \<and>
     trie_Decode s i = (case decode_next s i of Some (cp, j) \<Rightarrow> if cp = 0 then None else Some (cp, j) | None \<Rightarrow> None) \<and>
     DecodeUtf8At s i = (case decode_next s i of Some (cp, j) \<Rightarrow> (cp, j - i) | None \<Rightarrow> (0xfffd, 1))"
  using assms
  by (auto simp: NextCodePoint_decode_next trie_Decode_head DecodeUtf8At_head decode_next_head
      split: option.splits)

theorem utf8_decoders_agree_witness:
  "NextCodePoint (utf8 0x3042 @ ''a'') 0 = Some (0x3042, 3) \<and> trie_Decode (utf8 0x3042 @ ''a'') 0 = Some (0x3042, 3)
   \<and> DecodeUtf8At (utf8 0x3042 @ ''a'') 0 = (0x3042, 3)"
proof -
  have d: "decode_next (utf8 0x3042 @ ''a'') 0 = Some (0x3042, 3)"
    by (simp add: decode_next_head utf8_cases is_continuation_iff is_scalar_def)
  have l: "0 < length (utf8 0x3042 @ ''a'')" by simp
  show ?thesis using utf8_decoders_agree [OF l] by (simp add: d)
qed

end
