(* ===== verification/StdMap.thy ===== *)
theory StdMap
  imports Prelude
begin

text \<open>
  The ordered map of the C++ standard library, \<open>std::map<std::string, V>\<close>, as the program uses
  it: an association list in strictly increasing key order. Keys are byte strings and are ordered
  as \<open>std::string\<close> orders them, lexicographically by unsigned bytes, which is the order that
  \<open>Char_ord\<close> and \<open>List_Lexorder\<close> give to \<^typ>\<open>string\<close>. The locale \<open>ordered_map\<close> is the
  contract the users of the container rely on.
\<close>

type_synonym ('k, 'v) map = "('k \<times> 'v) list"

definition map_wf :: "('k::linorder, 'v) map \<Rightarrow> bool" where
  "map_wf m \<longleftrightarrow> sorted_wrt (<) (map fst m)"

text \<open>\<open>m[k] = v\<close>\<close>

fun map_assign :: "'k::linorder \<Rightarrow> 'v \<Rightarrow> ('k, 'v) map \<Rightarrow> ('k, 'v) map" where
  "map_assign k v [] = [(k, v)]"
| "map_assign k v ((a, b) # m) =
     (if k < a then (k, v) # (a, b) # m
      else if k = a then (k, v) # m
      else (a, b) # map_assign k v m)"

text \<open>\<open>m.emplace(k, v)\<close>: an existing key keeps its value.\<close>

fun map_emplace :: "'k::linorder \<Rightarrow> 'v \<Rightarrow> ('k, 'v) map \<Rightarrow> ('k, 'v) map" where
  "map_emplace k v [] = [(k, v)]"
| "map_emplace k v ((a, b) # m) =
     (if k < a then (k, v) # (a, b) # m
      else if k = a then (a, b) # m
      else (a, b) # map_emplace k v m)"

definition map_erase :: "'k \<Rightarrow> ('k, 'v) map \<Rightarrow> ('k, 'v) map" where
  "map_erase k m = filter (\<lambda>(a, b). a \<noteq> k) m"

text \<open>\<open>m.lower_bound(k)\<close> and \<open>m.upper_bound(k)\<close>: the entries from the iterator to \<open>m.end()\<close>.\<close>

definition lower_bound :: "'k::linorder \<Rightarrow> ('k, 'v) map \<Rightarrow> ('k, 'v) map" where
  "lower_bound k m = dropWhile (\<lambda>(a, b). a < k) m"

definition upper_bound :: "'k::linorder \<Rightarrow> ('k, 'v) map \<Rightarrow> ('k, 'v) map" where
  "upper_bound k m = dropWhile (\<lambda>(a, b). a \<le> k) m"

section \<open>The contract\<close>

locale ordered_map =
  fixes find :: "'m \<Rightarrow> 'k::linorder \<Rightarrow> 'v option"
    and assign :: "'k \<Rightarrow> 'v \<Rightarrow> 'm \<Rightarrow> 'm"
    and emplace :: "'k \<Rightarrow> 'v \<Rightarrow> 'm \<Rightarrow> 'm"
    and erase :: "'k \<Rightarrow> 'm \<Rightarrow> 'm"
    and wf :: "'m \<Rightarrow> bool"
  assumes find_assign: "find (assign k v m) = (find m)(k \<mapsto> v)"
    and find_emplace: "wf m \<Longrightarrow> find (emplace k v m) = (if find m k = None then (find m)(k \<mapsto> v) else find m)"
    and find_erase: "find (erase k m) = (find m)(k := None)"
    and wf_assign: "wf m \<Longrightarrow> wf (assign k v m)"
    and wf_emplace: "wf m \<Longrightarrow> wf (emplace k v m)"
    and wf_erase: "wf m \<Longrightarrow> wf (erase k m)"
begin

text \<open>What a loader that assigns row after row ends with: the last row of a key wins.\<close>

lemma find_assign_all: "find (fold (\<lambda>(k, v). assign k v) rows m) = find m ++ map_of (rev rows)"
  by (induction rows arbitrary: m) (auto simp: find_assign map_add_def split: option.splits)

lemma wf_assign_all: "wf m \<Longrightarrow> wf (fold (\<lambda>(k, v). assign k v) rows m)"
  by (induction rows arbitrary: m) (auto intro: wf_assign)

end

lemma map_of_assign: "map_of (map_assign k v m) = (map_of m)(k \<mapsto> v)"
  by (induction k v m rule: map_assign.induct) (auto simp: fun_eq_iff)

lemma fst_set_assign: "fst ` set (map_assign k v m) = insert k (fst ` set m)"
  by (induction k v m rule: map_assign.induct) auto

lemma fst_set_emplace: "fst ` set (map_emplace k v m) = insert k (fst ` set m)"
  by (induction k v m rule: map_emplace.induct) auto

lemma set_map_emplace: "set (map_emplace k v m) \<subseteq> insert (k, v) (set m)"
  by (induction k v m rule: map_emplace.induct) auto

lemma map_wf_Cons: "map_wf ((a, b) # m) \<longleftrightarrow> (\<forall>x \<in> fst ` set m. a < x) \<and> map_wf m"
  by (auto simp: map_wf_def)

lemma map_wf_Nil [simp]: "map_wf []"
  by (simp add: map_wf_def)

lemma map_wf_distinct: "map_wf m \<Longrightarrow> distinct (map fst m)"
  unfolding map_wf_def by (rule strict_sorted_iff [THEN iffD1, THEN conjunct2])

lemma map_of_wf: "map_wf m \<Longrightarrow> map_of m k = Some v \<longleftrightarrow> (k, v) \<in> set m"
  using map_wf_distinct by (metis map_of_eq_Some_iff)

lemma map_wf_filter: "map_wf m \<Longrightarrow> map_wf (filter P m)"
  by (simp add: map_wf_def sorted_wrt_map sorted_wrt_filter)

lemma map_wf_map: "map_wf (map (\<lambda>(k, v). (k, f v)) m) \<longleftrightarrow> map_wf m"
  by (simp add: map_wf_def comp_def case_prod_unfold)

lemma map_assign_in: "x \<in> set (map_assign k v m) \<Longrightarrow> x = (k, v) \<or> x \<in> set m"
  by (induction k v m rule: map_assign.induct) (auto split: if_splits)

lemma map_assign_nonempty [simp]: "map_assign k v m \<noteq> []"
  by (induction k v m rule: map_assign.induct) auto

lemma map_emplace_nonempty [simp]: "map_emplace k v m \<noteq> []"
  by (induction k v m rule: map_emplace.induct) auto

lemma map_wf_assign: "map_wf m \<Longrightarrow> map_wf (map_assign k v m)"
proof (induction k v m rule: map_assign.induct)
  case (1 k v)
  then show ?case by (simp add: map_wf_def)
next
  case (2 k v a b m)
  then show ?case by (fastforce simp: map_wf_Cons fst_set_assign)
qed

lemma map_wf_emplace: "map_wf m \<Longrightarrow> map_wf (map_emplace k v m)"
proof (induction k v m rule: map_emplace.induct)
  case (1 k v)
  then show ?case by (simp add: map_wf_def)
next
  case (2 k v a b m)
  then show ?case by (fastforce simp: map_wf_Cons fst_set_emplace)
qed

lemma map_of_emplace:
  "map_wf m \<Longrightarrow> map_of (map_emplace k v m) = (if map_of m k = None then (map_of m)(k \<mapsto> v) else map_of m)"
proof (induction k v m rule: map_emplace.induct)
  case (2 k v a b m)
  have "k < a \<Longrightarrow> map_of m k = None"
    using 2(2) by (force simp: map_wf_Cons map_of_eq_None_iff)
  with 2 show ?case by (auto simp: map_wf_Cons fun_eq_iff)
qed simp

lemma map_of_erase: "map_of (map_erase k m) = (map_of m)(k := None)"
  by (induction m) (auto simp: map_erase_def fun_eq_iff)

lemma map_wf_erase: "map_wf m \<Longrightarrow> map_wf (map_erase k m)"
proof (induction m)
  case (Cons ab m)
  then show ?case by (cases ab) (auto simp: map_erase_def map_wf_Cons)
qed (simp add: map_erase_def)

interpretation std: ordered_map map_of map_assign map_emplace map_erase map_wf
  by unfold_locales
    (auto simp: map_of_assign map_of_emplace map_of_erase map_wf_assign map_wf_emplace map_wf_erase)

section \<open>Searching for a prefix\<close>

lemma prefix_le: "prefix p k \<Longrightarrow> p \<le> (k::'a::linorder list)"
proof (induction p arbitrary: k)
  case (Cons x p)
  then show ?case by (cases k) auto
qed simp

lemma prefix_interval:
  "(p::'a::linorder list) \<le> a \<Longrightarrow> a \<le> k \<Longrightarrow> prefix p k \<Longrightarrow> prefix p a"
proof (induction p arbitrary: a k)
  case (Cons x p)
  obtain k' where k: "k = x # k'" "prefix p k'" using Cons.prems(3) by (cases k) auto
  obtain y a' where a: "a = y # a'" using Cons.prems(1) by (cases a) auto
  from Cons.prems a k have "x = y" "p \<le> a'" "a' \<le> k'" by auto
  with Cons.IH k a show ?case by simp
qed simp

text \<open>\<open>it != end() && it->first.starts_with(p)\<close>\<close>

definition starts_at :: "'a list \<Rightarrow> ('a list, 'v) map \<Rightarrow> bool" where
  "starts_at p rest = (case rest of [] \<Rightarrow> False | (k, v) # _ \<Rightarrow> prefix p k)"

lemma starts_at_lower_bound:
  assumes "map_wf m"
  shows "starts_at p (lower_bound p m) \<longleftrightarrow> (\<exists>k \<in> fst ` set m. prefix p k)"
  using assms
proof (induction m)
  case (Cons ab m)
  obtain a b where ab: "ab = (a, b)" by (cases ab)
  show ?case
  proof (cases "a < p")
    case True
    then have "\<not> prefix p a" using prefix_le by force
    with True Cons ab show ?thesis by (simp add: lower_bound_def map_wf_Cons)
  next
    case False
    then have "prefix p a" if "k \<in> fst ` set m" "prefix p k" for k
      using that Cons.prems ab prefix_interval [of p a k] by (fastforce simp: map_wf_Cons)
    with False ab show ?thesis by (auto simp: lower_bound_def starts_at_def)
  qed
qed (simp add: lower_bound_def starts_at_def)

lemma starts_at_upper_bound:
  assumes "map_wf m"
  shows "starts_at p (upper_bound p m) \<longleftrightarrow> (\<exists>k \<in> fst ` set m. strict_prefix p k)"
  using assms
proof (induction m)
  case (Cons ab m)
  obtain a b where ab: "ab = (a, b)" by (cases ab)
  show ?case
  proof (cases "a \<le> p")
    case True
    then have "\<not> strict_prefix p a" using prefix_le [of p a] by (auto simp: strict_prefix_def)
    with True Cons ab show ?thesis by (simp add: upper_bound_def map_wf_Cons)
  next
    case False
    then have "prefix p a" if "k \<in> fst ` set m" "strict_prefix p k" for k
      using that Cons.prems ab prefix_interval [of p a k]
      by (fastforce simp: map_wf_Cons strict_prefix_def)
    with False ab show ?thesis by (auto simp: upper_bound_def starts_at_def strict_prefix_def)
  qed
qed (simp add: upper_bound_def starts_at_def)

end
