(* ===== verification/StdText.thy ===== *)
theory StdText
  imports Prelude
begin

text \<open>
  The text primitives of the C++ standard library that several components call: the character
  classes of \<open><cctype>\<close> in the C locale, \<open>find\<close> on a string view, decimal printing
  (\<open>std::to_string\<close>, \<open>std::to_chars\<close>) and decimal reading (\<open>std::from_chars\<close> on unsigned
  integers, which takes no sign and no white space, stops at the first non-digit and fails when
  there is no digit or the value does not fit).
\<close>

section \<open>Character classes\<close>

definition tolower :: "char \<Rightarrow> char" where
  "tolower c = (if 65 \<le> ord c \<and> ord c \<le> 90 then byte (ord c + 32) else c)"

definition isalpha :: "char \<Rightarrow> bool" where
  "isalpha c \<longleftrightarrow> (65 \<le> ord c \<and> ord c \<le> 90) \<or> (97 \<le> ord c \<and> ord c \<le> 122)"

definition isdigit :: "char \<Rightarrow> bool" where
  "isdigit c \<longleftrightarrow> 48 \<le> ord c \<and> ord c \<le> 57"

section \<open>Searching\<close>

text \<open>\<open>s.find(c)\<close>: the index of the first occurrence, \<^term>\<open>None\<close> for \<open>npos\<close>.\<close>

fun find_char :: "char \<Rightarrow> string \<Rightarrow> nat option" where
  "find_char c [] = None"
| "find_char c (x # xs) = (if x = c then Some 0 else map_option Suc (find_char c xs))"

text \<open>\<open>s.find(c, pos)\<close>\<close>

definition find_char_from :: "char \<Rightarrow> string \<Rightarrow> nat \<Rightarrow> nat option" where
  "find_char_from c s pos = map_option (\<lambda>i. pos + i) (find_char c (drop pos s))"

lemma find_char_Some:
  "find_char c s = Some i \<Longrightarrow> i < length s \<and> s ! i = c \<and> c \<notin> set (take i s)"
  by (induction s arbitrary: i) (auto split: if_splits)

lemma find_char_None [simp]: "find_char c s = None \<longleftrightarrow> c \<notin> set s"
  by (induction s) auto

lemma find_char_append:
  "c \<notin> set xs \<Longrightarrow> find_char c (xs @ c # ys) = Some (length xs)"
  by (induction xs) auto

section \<open>Decimal numbers\<close>

definition dec_value :: "string \<Rightarrow> nat" where
  "dec_value ds = foldl (\<lambda>n c. n * 10 + (ord c - 48)) 0 ds"

text \<open>\<open>std::from_chars\<close> for an unsigned type whose values are below \<open>bound\<close>.\<close>

definition from_chars_unsigned :: "nat \<Rightarrow> string \<Rightarrow> (nat \<times> string) option" where
  "from_chars_unsigned bound s =
     (let ds = takeWhile isdigit s; v = dec_value ds in
      if ds = [] \<or> bound \<le> v then None else Some (v, dropWhile isdigit s))"

text \<open>\<open>std::to_string\<close> of an unsigned value.\<close>

fun to_string :: "nat \<Rightarrow> string" where
  "to_string n = (if n < 10 then [byte (48 + n)] else to_string (n div 10) @ [byte (48 + n mod 10)])"

declare to_string.simps [simp del]

lemma dec_value_snoc: "dec_value (ds @ [c]) = dec_value ds * 10 + (ord c - 48)"
  by (simp add: dec_value_def)

lemma isdigit_byte: "d < 10 \<Longrightarrow> isdigit (byte (48 + d))"
  by (simp add: isdigit_def)

lemma to_string_digits: "list_all isdigit (to_string n) \<and> to_string n \<noteq> []"
proof (induction n rule: to_string.induct)
  case (1 n)
  then show ?case by (subst to_string.simps, subst to_string.simps) (auto simp: isdigit_byte)
qed

lemma dec_value_to_string [simp]: "dec_value (to_string n) = n"
proof (induction n rule: to_string.induct)
  case (1 n)
  show ?case
  proof (cases "n < 10")
    case True
    then show ?thesis by (simp add: to_string.simps [of n] dec_value_def)
  next
    case False
    then show ?thesis using 1 by (simp add: to_string.simps [of n] dec_value_snoc)
  qed
qed

lemma to_string_head: "hd (to_string n) = CHR ''0'' \<longleftrightarrow> n = 0"
proof (induction n rule: to_string.induct)
  case (1 n)
  show ?case
  proof (cases "n < 10")
    case True
    have "byte (48 + n) = CHR ''0'' \<longleftrightarrow> ord (byte (48 + n)) = ord (CHR ''0'')"
      by (simp only: of_char_eq_iff)
    with True show ?thesis by (simp add: to_string.simps [of n])
  next
    case False
    then have "hd (to_string n) = hd (to_string (n div 10))"
      using to_string_digits [of "n div 10"] by (simp add: to_string.simps [of n])
    then show ?thesis using 1 False by simp
  qed
qed

lemma from_chars_to_string:
  "n < bound \<Longrightarrow> (rest = [] \<or> \<not> isdigit (hd rest)) \<Longrightarrow>
     from_chars_unsigned bound (to_string n @ rest) = Some (n, rest)"
proof -
  assume n: "n < bound" and r: "rest = [] \<or> \<not> isdigit (hd rest)"
  have d: "\<forall>c \<in> set (to_string n). isdigit c" and ne: "to_string n \<noteq> []"
    using to_string_digits [of n] by (auto simp: list_all_iff)
  have "takeWhile isdigit (to_string n @ rest) = to_string n"
    using d r by (cases rest) (auto simp: takeWhile_append)
  moreover have "dropWhile isdigit (to_string n @ rest) = rest"
    using d r by (cases rest) (auto simp: dropWhile_append)
  ultimately show ?thesis using n ne by (simp add: from_chars_unsigned_def)
qed

end
