(* ===== verification/EditContext.thy ===== *)
theory EditContext
  imports Prelude
begin

text \<open>
  What the frontend could read of the document around the caret (\<open>EditContextHint.h\<close>). An unknown
  selection stands for a read that failed. The state machine of the composition and the bracket
  pairing both take this value.
\<close>

record EditContextHint =
  char_before :: "codepoint option"
  char_after :: "codepoint option"
  selection_collapsed :: "bool option"

end
