(* ===== verification/Binary64.thy ===== *)
theory Binary64
  imports StdText Complex_Main
begin

text \<open>
  The part of the \<open>double\<close> type of C++ that the program uses, exactly: finite values are a sign, a
  significand below \<open>2^53\<close> and an exponent not below \<open>-1074\<close>; rounding is to nearest, ties to
  even; \<open>std::from_chars\<close> reads a decimal numeral as the nearest value and reports
  \<open>result_out_of_range\<close> when that overflows, or when a nonzero numeral becomes zero;
  \<open>std::to_chars\<close> prints the shortest digits that read back as the same value, in the shorter of
  the fixed and the scientific notation.
\<close>

datatype double = Finite bool nat int | Infinite bool | NaN

definition pow2 :: "int \<Rightarrow> rat" where
  "pow2 e = (if e \<ge> 0 then 2 ^ nat e else 1 / 2 ^ nat (- e))"

definition pow10 :: "int \<Rightarrow> rat" where
  "pow10 e = (if e \<ge> 0 then 10 ^ nat e else 1 / 10 ^ nat (- e))"

text \<open>The value of a finite double; \<open>isfinite\<close>.\<close>

fun rat_of_double :: "double \<Rightarrow> rat" where
  "rat_of_double (Finite s m e) = (if s then - 1 else 1) * of_nat m * pow2 e"
| "rat_of_double _ = 0"

fun isfinite :: "double \<Rightarrow> bool" where
  "isfinite (Finite s m e) = True"
| "isfinite _ = False"

text \<open>Comparisons with a constant, and \<open>modf(d) == 0.0\<close>: the fractional part is zero.\<close>

fun double_ge :: "double \<Rightarrow> rat \<Rightarrow> bool" where
  "double_ge (Finite s m e) q \<longleftrightarrow> rat_of_double (Finite s m e) \<ge> q"
| "double_ge (Infinite s) q \<longleftrightarrow> \<not> s"
| "double_ge NaN q \<longleftrightarrow> False"

fun double_less :: "double \<Rightarrow> rat \<Rightarrow> bool" where
  "double_less (Finite s m e) q \<longleftrightarrow> rat_of_double (Finite s m e) < q"
| "double_less (Infinite s) q \<longleftrightarrow> s"
| "double_less NaN q \<longleftrightarrow> False"

fun no_fraction :: "double \<Rightarrow> bool" where
  "no_fraction (Finite s m e) \<longleftrightarrow> rat_of_double (Finite s m e) = of_int \<lfloor>rat_of_double (Finite s m e)\<rfloor>"
| "no_fraction (Infinite s) \<longleftrightarrow> True"
| "no_fraction NaN \<longleftrightarrow> False"

section \<open>Rounding\<close>

fun bit_length :: "nat \<Rightarrow> nat" where
  "bit_length n = (if n = 0 then 0 else Suc (bit_length (n div 2)))"

declare bit_length.simps [simp del]

text \<open>\<open>floor (log2 q)\<close> of a positive rational.\<close>

definition floor_log2 :: "rat \<Rightarrow> int" where
  "floor_log2 q =
     (let (a, b) = quotient_of q;
          k = int (bit_length (nat a)) - int (bit_length (nat b))
      in if pow2 k \<le> q then k else k - 1)"

definition round_half_even :: "rat \<Rightarrow> int" where
  "round_half_even q =
     (let f = \<lfloor>q\<rfloor>; r = q - of_int f in
      if r < 1 / 2 then f else if r > 1 / 2 then f + 1 else if even f then f else f + 1)"

text \<open>The double nearest to a magnitude, \<^term>\<open>None\<close> when it is too large.\<close>

definition round_magnitude :: "bool \<Rightarrow> rat \<Rightarrow> double option" where
  "round_magnitude s q =
     (if q = 0 then Some (Finite s 0 (- 1074))
      else let e = max (- 1074) (floor_log2 q - 52);
               m = round_half_even (q / pow2 e);
               (m', e') = (if m = 2 ^ 53 then (2 ^ 52, e + 1) else (m, e))
           in if e' > 971 then None else Some (Finite s (nat m') (if m' = 0 then - 1074 else e')))"

text \<open>\<open>static_cast<double>\<close> of an integer of at most 64 bits, which never overflows.\<close>

definition double_of_int :: "int \<Rightarrow> double" where
  "double_of_int v =
     (case round_magnitude (v < 0) (of_int \<bar>v\<bar>) of None \<Rightarrow> Infinite (v < 0) | Some d \<Rightarrow> d)"

section \<open>Decimal numerals\<close>

text \<open>The parts of a numeral of the JSON grammar: sign, integer digits, fraction digits, exponent.\<close>

definition numeral_sign :: "string \<Rightarrow> bool" where
  "numeral_sign t \<longleftrightarrow> t \<noteq> [] \<and> hd t = CHR ''-''"

definition strip_sign :: "string \<Rightarrow> string" where
  "strip_sign t = (if numeral_sign t then tl t else t)"

definition is_e :: "char \<Rightarrow> bool" where
  "is_e c \<longleftrightarrow> c = CHR ''e'' \<or> c = CHR ''E''"

definition significand :: "string \<Rightarrow> string" where
  "significand t = takeWhile (\<lambda>c. \<not> is_e c) (strip_sign t)"

definition int_digits :: "string \<Rightarrow> string" where
  "int_digits t = takeWhile (\<lambda>c. c \<noteq> CHR ''.'') (significand t)"

definition frac_digits :: "string \<Rightarrow> string" where
  "frac_digits t = tl (dropWhile (\<lambda>c. c \<noteq> CHR ''.'') (significand t))"

definition exponent_part :: "string \<Rightarrow> int" where
  "exponent_part t =
     (let x = tl (dropWhile (\<lambda>c. \<not> is_e c) (strip_sign t)) in
      if x = [] then 0
      else if hd x = CHR ''-'' then - int (dec_value (tl x))
      else if hd x = CHR ''+'' then int (dec_value (tl x))
      else int (dec_value x))"

text \<open>The magnitude a numeral denotes.\<close>

definition numeral_magnitude :: "string \<Rightarrow> rat" where
  "numeral_magnitude t =
     of_nat (dec_value (int_digits t @ frac_digits t)) *
       pow10 (exponent_part t - int (length (frac_digits t)))"

datatype from_chars_result = Parsed double | OutOfRange

definition from_chars_double :: "string \<Rightarrow> from_chars_result" where
  "from_chars_double t =
     (let q = numeral_magnitude t in
      case round_magnitude (numeral_sign t) q of
        None \<Rightarrow> OutOfRange
      | Some d \<Rightarrow> if q \<noteq> 0 \<and> rat_of_double d = 0 then OutOfRange else Parsed d)"

section \<open>Printing\<close>

text \<open>\<open>floor (log10 q)\<close> of a positive rational, from its integer part or by scaling up.\<close>

fun digit_count :: "nat \<Rightarrow> nat" where
  "digit_count n = (if n < 10 then 1 else Suc (digit_count (n div 10)))"

declare digit_count.simps [simp del]

fun log10_below_one :: "nat \<Rightarrow> rat \<Rightarrow> int" where
  "log10_below_one 0 q = 0"
| "log10_below_one (Suc fuel) q = (if q \<ge> 1 then 0 else log10_below_one fuel (q * 10) - 1)"

definition floor_log10 :: "rat \<Rightarrow> int" where
  "floor_log10 q =
     (if q \<ge> 1 then int (digit_count (nat \<lfloor>q\<rfloor>)) - 1 else log10_below_one 330 q)"

text \<open>The decimal with \<open>n\<close> digits nearest to a magnitude: digits and the exponent of the last one.\<close>

definition decimal_of :: "rat \<Rightarrow> nat \<Rightarrow> nat \<times> int" where
  "decimal_of q n =
     (let x = floor_log10 q - int n + 1 in (nat (round_half_even (q / pow10 x)), x))"

text \<open>The shortest digits that read back as the same double; seventeen always do.\<close>

fun shortest_from :: "nat \<Rightarrow> nat \<Rightarrow> double \<Rightarrow> nat \<times> int" where
  "shortest_from 0 n d = decimal_of \<bar>rat_of_double d\<bar> 17"
| "shortest_from (Suc fuel) n d =
     (let (ds, x) = decimal_of \<bar>rat_of_double d\<bar> n in
      case find (\<lambda>c. round_magnitude (rat_of_double d < 0) (of_nat c * pow10 x) = Some d) [ds, ds + 1] of
        Some c \<Rightarrow> (c, x)
      | None \<Rightarrow> shortest_from fuel (Suc n) d)"

text \<open>Digits without trailing zeros.\<close>

fun strip_zeros :: "nat \<Rightarrow> nat \<Rightarrow> int \<Rightarrow> nat \<times> int" where
  "strip_zeros 0 ds x = (ds, x)"
| "strip_zeros (Suc fuel) ds x =
     (if ds \<noteq> 0 \<and> ds mod 10 = 0 then strip_zeros fuel (ds div 10) (x + 1) else (ds, x))"

definition scientific :: "nat \<Rightarrow> int \<Rightarrow> string" where
  "scientific ds x =
     (let t = to_string ds;
          e = x + int (length t) - 1;
          mag = to_string (nat \<bar>e\<bar>)
      in hd t # (if tl t = [] then [] else CHR ''.'' # tl t) @
         CHR ''e'' # (if e < 0 then CHR ''-'' else CHR ''+'') #
         (if length mag < 2 then CHR ''0'' # mag else mag))"

definition fixed :: "rat \<Rightarrow> nat \<Rightarrow> int \<Rightarrow> string" where
  "fixed q ds x =
     (let t = to_string ds; n = int (length t) in
      if x \<ge> 0 then to_string (nat \<lfloor>q\<rfloor>)
      else if n + x > 0 then take (nat (n + x)) t @ CHR ''.'' # drop (nat (n + x)) t
      else ''0.'' @ replicate (nat (- (n + x))) (CHR ''0'') @ t)"

definition to_chars_double :: "double \<Rightarrow> string" where
  "to_chars_double d =
     (case d of
        Finite s m e \<Rightarrow>
          (if s then ''-'' else []) @
          (if m = 0 then ''0''
           else let q = \<bar>rat_of_double d\<bar>;
                    (ds0, x0) = shortest_from 16 1 d;
                    (ds, x) = strip_zeros 20 ds0 x0;
                    f = fixed q ds x; sc = scientific ds x
                in if length f \<le> length sc then f else sc)
      | Infinite s \<Rightarrow> (if s then ''-inf'' else ''inf'')
      | NaN \<Rightarrow> ''nan'')"

section \<open>Integers as numerals\<close>

lemma to_string_no_marks: "\<forall>c \<in> set (to_string n). c \<noteq> CHR ''.'' \<and> \<not> is_e c \<and> c \<noteq> CHR ''-''"
  using to_string_digits [of n] by (auto simp: list_all_iff isdigit_def is_e_def)

lemma takeWhile_all: "\<forall>c \<in> set t. P c \<Longrightarrow> takeWhile P t = t \<and> dropWhile P t = []"
  by auto

lemma nat_numeral:
  "numeral_sign (to_string n) = False" "numeral_magnitude (to_string n) = of_nat n"
  "numeral_sign (CHR ''-'' # to_string n)" "numeral_magnitude (CHR ''-'' # to_string n) = of_nat n"
proof -
  note plain = to_string_no_marks [of n]
  have ne: "to_string n \<noteq> []" using to_string_digits by blast
  then have "hd (to_string n) \<noteq> CHR ''-''" using plain by auto
  then show s: "numeral_sign (to_string n) = False" by (simp add: numeral_sign_def)
  show s': "numeral_sign (CHR ''-'' # to_string n)" by (simp add: numeral_sign_def)
  have e: "takeWhile (\<lambda>c. \<not> is_e c) (to_string n) = to_string n" "dropWhile (\<lambda>c. \<not> is_e c) (to_string n) = []"
    and d: "takeWhile (\<lambda>c. c \<noteq> CHR ''.'') (to_string n) = to_string n"
      "dropWhile (\<lambda>c. c \<noteq> CHR ''.'') (to_string n) = []"
    using plain takeWhile_all [of "to_string n" "\<lambda>c. \<not> is_e c"]
      takeWhile_all [of "to_string n" "\<lambda>c. c \<noteq> CHR ''.''"] by blast+
  show "numeral_magnitude (to_string n) = of_nat n" "numeral_magnitude (CHR ''-'' # to_string n) = of_nat n"
    by (simp_all add: numeral_magnitude_def int_digits_def frac_digits_def significand_def exponent_part_def
        strip_sign_def s s' e d pow10_def Let_def)
qed

text \<open>The nearest double of an integer of at most 64 bits exists and is zero only for zero.\<close>

lemma round_half_even_bounds: "of_int (round_half_even q) \<le> q + 1 / 2 \<and> q - 1 / 2 \<le> of_int (round_half_even q)"
  by (auto simp: round_half_even_def Let_def) linarith+


lemma bit_length_bounds: "n < 2 ^ bit_length n \<and> (n > 0 \<longrightarrow> 2 ^ (bit_length n - 1) \<le> n)"
proof (induction n rule: bit_length.induct)
  case (1 n)
  show ?case
  proof (cases "n < 2")
    case True
    then show ?thesis by (cases "n = 0") (auto simp: bit_length.simps)
  next
    case False
    define m where "m = bit_length (n div 2)"
    have "n div 2 > 0" using False by simp
    then have "m > 0" by (simp add: m_def bit_length.simps [of "n div 2"])
    then have "(2::nat) ^ m = 2 * 2 ^ (m - 1)" by (cases m) auto
    moreover have "n div 2 < 2 ^ m" "2 ^ (m - 1) \<le> n div 2" "bit_length n = Suc m"
      using 1 False by (auto simp: m_def bit_length.simps [of n])
    ultimately have "n < 2 * 2 ^ m" "2 * 2 ^ (m - 1) \<le> n" by linarith+
    then show ?thesis using \<open>m > 0\<close> \<open>bit_length n = Suc m\<close> by (cases m) auto
  qed
qed

lemma pow2_pos [simp]: "pow2 e > 0" "pow2 e \<noteq> 0"
  by (simp_all add: pow2_def)

lemma pow2_add: "pow2 (a + b) = pow2 a * pow2 b"
proof -
  have "pow2 x = power_int 2 x" for x
    by (simp add: pow2_def power_int_def inverse_eq_divide power_divide)
  then show ?thesis by (simp add: power_int_add)
qed

lemma pow2_nat: "pow2 (int n) = 2 ^ n"
  by (simp add: pow2_def)

lemma floor_log2_nat: "n > 0 \<Longrightarrow> floor_log2 (of_nat n) = int (bit_length n) - 1"
proof -
  assume n: "n > 0"
  define k where "k = bit_length n"
  have k: "n < 2 ^ k" using bit_length_bounds [of n] by (simp add: k_def)
  have b: "2 ^ (k - 1) \<le> n" "k > 0"
    using bit_length_bounds [of n] n by (auto simp: k_def bit_length.simps [of n])
  have q: "quotient_of (of_nat n) = (int n, 1)"
    using quotient_of_int [of "int n"] by (simp add: Rat.of_int_def)
  have "pow2 (int k) = of_nat (2 ^ k)" "pow2 (int k - 1) = of_nat (2 ^ (k - 1))"
    using b pow2_nat [of k] pow2_nat [of "k - 1"] by (simp_all add: of_nat_diff)
  then have "\<not> pow2 (int k) \<le> of_nat n" "pow2 (int k - 1) \<le> of_nat n"
    using k b of_nat_less_iff [of n "2 ^ k", where ?'a = rat] of_nat_le_iff [of "2 ^ (k - 1)" n, where ?'a = rat]
    by (simp_all add: not_le)
  then show ?thesis
    by (simp add: floor_log2_def q k_def [symmetric] bit_length.simps [of "Suc 0"] bit_length.simps [of 0] Let_def)
qed

lemma round_nat_exists:
  assumes n: "0 < n" "n < 2 ^ 64"
  shows "\<exists>m e. round_magnitude s (of_nat n) = Some (Finite s m e) \<and> m > 0"
proof -
  define k where "k = bit_length n"
  have k: "n < 2 ^ k" "2 ^ (k - 1) \<le> n" "k > 0"
    using bit_length_bounds [of n] n by (auto simp: k_def bit_length.simps [of n])
  have "(2::nat) ^ (k - 1) < 2 ^ 64" using k(2) n(2) by (rule le_less_trans)
  then have "k - 1 < 64" using power_strict_increasing_iff [of "2::nat" "k - 1" 64] by simp
  then have k64: "k \<le> 64" by simp
  define e where "e = int k - 53"
  have e: "max (- 1074) (floor_log2 (of_nat n) - 52) = e" "e \<le> 11"
    using n k64 k(3) by (simp_all add: floor_log2_nat k_def [symmetric] e_def)
  define q where "q = of_nat n / pow2 e"
  have "pow2 (int (k - 1)) = pow2 e * pow2 52"
    using k(3) pow2_add [of e 52] by (simp add: e_def of_nat_diff)
  moreover have "pow2 (int (k - 1)) \<le> of_nat n"
    using k(2) of_nat_le_iff [of "2 ^ (k - 1)" n, where ?'a = rat] by (simp add: pow2_nat)
  ultimately have "2 ^ 52 \<le> q"
    using pow2_nat [of 52] by (simp add: q_def pos_le_divide_eq mult.commute)
  then have "of_int (round_half_even q) \<ge> (1::rat)"
    using round_half_even_bounds [of q] by simp
  then have m: "round_half_even q \<ge> 1" by simp
  show ?thesis
    using n e m by (auto simp: round_magnitude_def Let_def q_def [symmetric])
qed

lemma from_chars_nat:
  "n < 2 ^ 64 \<Longrightarrow> from_chars_double (to_string n) = Parsed (double_of_int (int n))"
  "n < 2 ^ 64 \<Longrightarrow> n > 0 \<Longrightarrow> from_chars_double (CHR ''-'' # to_string n) = Parsed (double_of_int (- int n))"
proof -
  have zero: "round_magnitude s 0 = Some (Finite s 0 (- 1074))" for s by (simp add: round_magnitude_def)
  show "n < 2 ^ 64 \<Longrightarrow> from_chars_double (to_string n) = Parsed (double_of_int (int n))"
    using round_nat_exists [of n False] zero [of False]
    by (cases "n = 0") (auto simp: from_chars_double_def double_of_int_def nat_numeral less_imp_neq [symmetric])
  show "n < 2 ^ 64 \<Longrightarrow> n > 0 \<Longrightarrow> from_chars_double (CHR ''-'' # to_string n) = Parsed (double_of_int (- int n))"
    using round_nat_exists [of n True]
    by (auto simp: from_chars_double_def double_of_int_def nat_numeral)
qed

lemma isfinite_double_of_int: "\<bar>v\<bar> < 2 ^ 64 \<Longrightarrow> isfinite (double_of_int v)"
  using round_nat_exists [of "nat \<bar>v\<bar>" "v < 0"]
  by (cases "v = 0") (auto simp: double_of_int_def round_magnitude_def of_nat_nat nat_less_iff)

end
