(* ===== verification/DoubleArith.thy ===== *)
theory DoubleArith
  imports Binary64
begin

text \<open>
  Literals, comparison and arithmetic of the type \<open>double\<close>: every operation is the exact one on the
  rational values, rounded once. What the searches of the program rely on is shown: rounding is
  monotone, so that adding the same cost to two costs keeps their order.
\<close>

text \<open>The double nearest to a magnitude with a sign, infinite on overflow; a literal.\<close>

definition round_signed :: "bool \<Rightarrow> rat \<Rightarrow> double" where
  "round_signed s q = (case round_magnitude s q of None \<Rightarrow> Infinite s | Some d \<Rightarrow> d)"

definition double_lit :: "rat \<Rightarrow> double" where
  "double_lit q = round_signed False q"

text \<open>\<open>a < b\<close>\<close>

fun double_lt :: "double \<Rightarrow> double \<Rightarrow> bool" where
  "double_lt NaN _ \<longleftrightarrow> False"
| "double_lt _ NaN \<longleftrightarrow> False"
| "double_lt (Infinite s) b \<longleftrightarrow> s \<and> b \<noteq> Infinite True"
| "double_lt a (Infinite s) \<longleftrightarrow> \<not> s"
| "double_lt a b \<longleftrightarrow> rat_of_double a < rat_of_double b"

text \<open>\<open>a + b\<close>; a sum of opposite values is the positive zero.\<close>

fun double_add :: "double \<Rightarrow> double \<Rightarrow> double" where
  "double_add NaN _ = NaN"
| "double_add _ NaN = NaN"
| "double_add (Infinite s) (Infinite t) = (if s = t then Infinite s else NaN)"
| "double_add (Infinite s) _ = Infinite s"
| "double_add _ (Infinite t) = Infinite t"
| "double_add (Finite s m e) (Finite t n f) =
     (let v = rat_of_double (Finite s m e) + rat_of_double (Finite t n f) in
      if v = 0 then Finite (s \<and> t) 0 (- 1074) else round_signed (v < 0) \<bar>v\<bar>)"

fun double_neg :: "double \<Rightarrow> double" where
  "double_neg (Finite s m e) = Finite (\<not> s) m e"
| "double_neg (Infinite s) = Infinite (\<not> s)"
| "double_neg NaN = NaN"

definition double_sub :: "double \<Rightarrow> double \<Rightarrow> double" where
  "double_sub a b = double_add a (double_neg b)"

fun double_mul :: "double \<Rightarrow> double \<Rightarrow> double" where
  "double_mul NaN _ = NaN"
| "double_mul _ NaN = NaN"
| "double_mul (Infinite s) (Infinite t) = Infinite (s \<noteq> t)"
| "double_mul (Infinite s) (Finite t n f) = (if n = 0 then NaN else Infinite (s \<noteq> t))"
| "double_mul (Finite s m e) (Infinite t) = (if m = 0 then NaN else Infinite (s \<noteq> t))"
| "double_mul (Finite s m e) (Finite t n f) =
     round_signed (s \<noteq> t) \<bar>rat_of_double (Finite s m e) * rat_of_double (Finite t n f)\<bar>"

text \<open>\<open>std::max(a, b)\<close>\<close>

definition double_max :: "double \<Rightarrow> double \<Rightarrow> double" where
  "double_max a b = (if double_lt a b then b else a)"

section \<open>Rounding is monotone\<close>

lemma pow2_diff: "pow2 (a - b) = pow2 a / pow2 b"
  using pow2_add [of "a - b" b] by (simp add: field_simps)

lemma pow2_quotient: "a \<le> b \<Longrightarrow> pow2 b / pow2 a = of_int (2 ^ nat (b - a))"
  unfolding pow2_diff [symmetric] by (simp add: pow2_def)

lemma pow2_1: "pow2 1 = 2"
  by (simp add: pow2_def)

lemma pow2_less: "a < b \<Longrightarrow> pow2 a < pow2 b"
proof -
  assume "a < b"
  then have "pow2 b = pow2 a * pow2 (int (nat (b - a)))" by (simp flip: pow2_add)
  moreover have "(1::rat) < pow2 (int (nat (b - a)))" using \<open>a < b\<close> by (simp only: pow2_nat) (simp add: one_less_power)
  ultimately show ?thesis using pow2_pos(1) [of a] by simp
qed

lemma pow2_less_iff: "pow2 a < pow2 b \<longleftrightarrow> a < b"
  using pow2_less [of a b] pow2_less [of b a] by (cases a b rule: linorder_cases) auto

lemma pow2_le_iff: "pow2 a \<le> pow2 b \<longleftrightarrow> a \<le> b"
  using pow2_less_iff [of b a] by (simp add: not_less [symmetric])

lemma floor_log2_bounds:
  assumes "0 < q"
  shows "pow2 (floor_log2 q) \<le> q" "q < pow2 (floor_log2 q + 1)"
proof -
  obtain a b where ab: "quotient_of q = (a, b)" by fastforce
  have b: "0 < b" using quotient_of_denom_pos [OF ab] .
  have eq: "q = of_int a / of_int b" by (rule quotient_of_div [OF ab])
  then have a: "0 < a" using assms b by (simp add: zero_less_divide_iff)
  define la lb where "la = int (bit_length (nat a))" and "lb = int (bit_length (nat b))"
  have mag: "pow2 (int (bit_length (nat n)) - 1) \<le> of_int n \<and> of_int n < pow2 (int (bit_length (nat n)))" if n: "0 < n" for n
  proof -
    let ?k = "bit_length (nat n)"
    have k: "2 ^ (?k - 1) \<le> nat n" "nat n < 2 ^ ?k" using bit_length_bounds [of "nat n"] n by simp_all
    have "?k > 0" using n by (simp add: bit_length.simps [of "nat n"])
    then have "pow2 (int ?k - 1) = of_nat (2 ^ (?k - 1))" by (simp add: pow2_nat [symmetric] of_nat_diff)
    moreover have "pow2 (int ?k) = of_nat (2 ^ ?k)" by (simp add: pow2_nat)
    moreover have "of_int n = (of_nat (nat n) :: rat)" using n by simp
    ultimately show ?thesis using k by (simp only: of_nat_le_iff of_nat_less_iff)
  qed
  have lo: "pow2 (la - lb - 1) \<le> q"
  proof -
    have "pow2 (la - 1) / pow2 lb \<le> of_int a / of_int b"
      using mag [OF a] mag [OF b] a b by (intro frac_le) (simp_all add: la_def lb_def less_imp_le)
    moreover have "pow2 (la - lb - 1) = pow2 (la - 1) / pow2 lb" by (simp add: pow2_diff [symmetric] algebra_simps)
    ultimately show ?thesis using eq by simp
  qed
  have hi: "q < pow2 (la - lb + 1)"
  proof -
    have "of_int a / of_int b < pow2 la / pow2 (lb - 1)"
      using mag [OF a] mag [OF b] a by (intro frac_less) (simp_all add: la_def lb_def less_imp_le)
    moreover have "pow2 (la - lb + 1) = pow2 la / pow2 (lb - 1)" by (simp add: pow2_diff [symmetric] algebra_simps)
    ultimately show ?thesis using eq by simp
  qed
  have "floor_log2 q = (if pow2 (la - lb) \<le> q then la - lb else la - lb - 1)"
    using ab by (simp add: floor_log2_def Let_def la_def lb_def)
  then show "pow2 (floor_log2 q) \<le> q" "q < pow2 (floor_log2 q + 1)" using lo hi by (simp_all split: if_splits)
qed

lemma round_half_even_le: "x \<le> of_int n \<Longrightarrow> round_half_even x \<le> n"
proof -
  assume x: "x \<le> of_int n"
  then have "\<lfloor>x\<rfloor> \<le> n" by (simp add: floor_le_iff)
  moreover have "\<lfloor>x\<rfloor> < n" if "x - of_int \<lfloor>x\<rfloor> \<ge> 1 / 2"
    using that x \<open>\<lfloor>x\<rfloor> \<le> n\<close> by (cases "\<lfloor>x\<rfloor> = n") auto
  ultimately show ?thesis by (auto simp: round_half_even_def Let_def)
qed

lemma round_half_even_floor: "\<lfloor>x\<rfloor> \<le> round_half_even x" "round_half_even x \<le> \<lfloor>x\<rfloor> + 1"
  by (simp_all add: round_half_even_def Let_def)

lemma round_half_even_ge: "of_int n \<le> x \<Longrightarrow> n \<le> round_half_even x"
  using round_half_even_floor(1) [of x] by (simp add: le_floor_iff [symmetric])

lemma round_half_even_mono: "x \<le> y \<Longrightarrow> round_half_even x \<le> round_half_even y"
proof (cases "\<lfloor>x\<rfloor> = \<lfloor>y\<rfloor>")
  case False
  assume "x \<le> y"
  then have "\<lfloor>x\<rfloor> + 1 \<le> \<lfloor>y\<rfloor>" using False floor_mono [of x y] by linarith
  then show ?thesis using round_half_even_floor(2) [of x] round_half_even_floor(1) [of y] by linarith
next
  case True
  assume "x \<le> y"
  then have "x - of_int \<lfloor>x\<rfloor> \<le> y - of_int \<lfloor>y\<rfloor>" using True by simp
  then show ?thesis unfolding round_half_even_def Let_def True by (simp split: if_split)
qed

text \<open>The exponent of the result and its value.\<close>

definition round_exp :: "rat \<Rightarrow> int" where
  "round_exp q = max (- 1074) (floor_log2 q - 52)"

definition rounded :: "rat \<Rightarrow> rat" where
  "rounded q = of_int (round_half_even (q / pow2 (round_exp q))) * pow2 (round_exp q)"

lemma rounded_le: "0 < q \<Longrightarrow> round_exp q \<le> k \<Longrightarrow> q \<le> pow2 k \<Longrightarrow> rounded q \<le> pow2 k"
proof -
  assume a: "0 < q" "round_exp q \<le> k" "q \<le> pow2 k"
  have "q / pow2 (round_exp q) \<le> pow2 k / pow2 (round_exp q)" using a(3) by (simp add: divide_right_mono less_imp_le)
  also have "\<dots> = of_int (2 ^ nat (k - round_exp q))" using pow2_quotient [OF a(2)] .
  finally have "of_int (round_half_even (q / pow2 (round_exp q))) \<le> (of_int (2 ^ nat (k - round_exp q)) :: rat)"
    by (simp only: of_int_le_iff) (rule round_half_even_le)
  then have "rounded q \<le> of_int (2 ^ nat (k - round_exp q)) * pow2 (round_exp q)"
    unfolding rounded_def by (intro mult_right_mono) (simp_all add: less_imp_le)
  also have "\<dots> = pow2 (k - round_exp q) * pow2 (round_exp q)" using a(2) by (simp add: pow2_def)
  finally show ?thesis by (simp flip: pow2_add)
qed

lemma rounded_ge: "0 < q \<Longrightarrow> round_exp q \<le> k \<Longrightarrow> pow2 k \<le> q \<Longrightarrow> pow2 k \<le> rounded q"
proof -
  assume a: "0 < q" "round_exp q \<le> k" "pow2 k \<le> q"
  have "of_int (2 ^ nat (k - round_exp q)) = pow2 k / pow2 (round_exp q)" using pow2_quotient [OF a(2)] by simp
  also have "\<dots> \<le> q / pow2 (round_exp q)" using a(3) by (simp add: divide_right_mono less_imp_le)
  finally have "(of_int (2 ^ nat (k - round_exp q)) :: rat) \<le> of_int (round_half_even (q / pow2 (round_exp q)))"
    by (simp only: of_int_le_iff) (rule round_half_even_ge)
  then have "of_int (2 ^ nat (k - round_exp q)) * pow2 (round_exp q) \<le> rounded q"
    unfolding rounded_def by (intro mult_right_mono) (simp_all add: less_imp_le)
  moreover have "of_int (2 ^ nat (k - round_exp q)) * pow2 (round_exp q) = pow2 (k - round_exp q) * pow2 (round_exp q)"
    using a(2) by (simp add: pow2_def)
  ultimately show ?thesis by (simp flip: pow2_add)
qed

lemma rounded_mono:
  assumes "0 < p" "p \<le> q"
  shows "rounded p \<le> rounded q"
proof -
  have q: "0 < q" using assms by simp
  have "pow2 (floor_log2 p) < pow2 (floor_log2 q + 1)"
    using floor_log2_bounds [OF assms(1)] floor_log2_bounds [OF q] assms(2) by linarith
  then have fl: "floor_log2 p \<le> floor_log2 q" by (simp add: pow2_less_iff)
  show ?thesis
  proof (cases "round_exp p = round_exp q")
    case True
    have "round_half_even (p / pow2 (round_exp q)) \<le> round_half_even (q / pow2 (round_exp q))"
      using assms(2) by (intro round_half_even_mono divide_right_mono) (simp_all add: less_imp_le)
    then show ?thesis unfolding rounded_def True by (intro mult_right_mono) (simp_all add: less_imp_le)
  next
    case False
    then have e: "round_exp q = floor_log2 q - 52" "floor_log2 p < floor_log2 q" "round_exp p \<le> floor_log2 q"
      using fl by (auto simp: round_exp_def split: if_splits)
    have "p \<le> pow2 (floor_log2 q)"
      using floor_log2_bounds(2) [OF assms(1)] e(2) pow2_le_iff [of "floor_log2 p + 1" "floor_log2 q"] by linarith
    then have "rounded p \<le> pow2 (floor_log2 q)" by (rule rounded_le [OF assms(1) e(3)])
    also have "\<dots> \<le> rounded q" using e(1) by (intro rounded_ge [OF q _ floor_log2_bounds(1) [OF q]]) simp
    finally show ?thesis .
  qed
qed

lemma rounded_normal:
  assumes "0 < q"
  shows "round_half_even (q / pow2 (round_exp q)) \<le> 2 ^ 53" "0 \<le> round_half_even (q / pow2 (round_exp q))"
    "- 1074 < round_exp q \<Longrightarrow> 2 ^ 52 \<le> round_half_even (q / pow2 (round_exp q))"
proof -
  have "floor_log2 q + 1 \<le> round_exp q + 53" by (simp add: round_exp_def)
  then have "q \<le> pow2 (round_exp q + 53)"
    using floor_log2_bounds(2) [OF assms] pow2_le_iff [of "floor_log2 q + 1" "round_exp q + 53"] by linarith
  then have "q / pow2 (round_exp q) \<le> of_int (2 ^ 53)"
    by (simp add: pow2_add pow2_def [of 53] divide_le_eq mult.commute)
  then show "round_half_even (q / pow2 (round_exp q)) \<le> 2 ^ 53" by (rule round_half_even_le)
  show "0 \<le> round_half_even (q / pow2 (round_exp q))" using assms by (intro round_half_even_ge) (simp add: less_imp_le)
  show "2 ^ 52 \<le> round_half_even (q / pow2 (round_exp q))" if "- 1074 < round_exp q"
  proof -
    have "round_exp q + 52 = floor_log2 q" using that by (simp add: round_exp_def)
    then have "pow2 (round_exp q + 52) \<le> q" using floor_log2_bounds(1) [OF assms] by simp
    then have "of_int (2 ^ 52) \<le> q / pow2 (round_exp q)"
      by (simp add: pow2_add pow2_def [of 52] le_divide_eq mult.commute)
    then show ?thesis by (rule round_half_even_ge)
  qed
qed

text \<open>A positive magnitude overflows exactly when its rounded value reaches \<open>2^1024\<close>.\<close>

lemma round_signed_cases:
  assumes "0 < q"
  shows "rounded q < pow2 1024 \<and> (\<exists>m e. round_signed s q = Finite s m e \<and> of_nat m * pow2 e = rounded q) \<or>
    pow2 1024 \<le> rounded q \<and> round_signed s q = Infinite s"
proof -
  define e where "e = round_exp q"
  define m where "m = round_half_even (q / pow2 e)"
  have val: "rounded q = of_int m * pow2 e" by (simp add: rounded_def m_def e_def)
  note b = rounded_normal [OF assms, folded e_def, folded m_def]
  have r: "round_magnitude s q = (if m = 2 ^ 53 then (if e + 1 > 971 then None else Some (Finite s (2 ^ 52) (e + 1)))
      else if e > 971 then None else Some (Finite s (nat m) (if m = 0 then - 1074 else e)))"
    using assms by (simp add: round_magnitude_def Let_def flip: round_exp_def e_def m_def)
  consider "m = 2 ^ 53" | "m \<noteq> 2 ^ 53" "e > 971" | "m \<noteq> 2 ^ 53" "e \<le> 971" by linarith
  then show ?thesis
  proof cases
    case 1
    then have v: "rounded q = pow2 (e + 53)" using val by (simp add: pow2_add pow2_def [of 53])
    moreover have "of_nat (2 ^ 52) * pow2 (e + 1) = pow2 (e + 53)" by (simp add: pow2_add pow2_def [of 53] pow2_def [of 1])
    ultimately show ?thesis using 1 r pow2_less_iff [of "e + 53" 1024] pow2_le_iff [of 1024 "e + 53"] by (auto simp: round_signed_def)
  next
    case 2
    then have "(2::int) ^ 52 \<le> m" using b(3) by simp
    then have m: "(of_int (2 ^ 52) :: rat) * pow2 e \<le> of_int m * pow2 e"
      by (intro mult_right_mono) (simp_all only: of_int_le_iff, simp add: less_imp_le)
    have "pow2 1024 \<le> pow2 (e + 52)" using 2 by (simp add: pow2_le_iff)
    also have "\<dots> = of_int (2 ^ 52) * pow2 e" by (simp add: pow2_add pow2_def [of 52])
    also note m
    finally show ?thesis using 2 r val by (simp add: round_signed_def)
  next
    case 3
    have "m < 2 ^ 53" using 3 b(1) by simp
    then have "of_int m * pow2 e < (of_int (2 ^ 53) :: rat) * pow2 e" by (intro mult_strict_right_mono) (simp_all only: of_int_less_iff, simp)
    also have "\<dots> = pow2 (e + 53)" by (simp add: pow2_add pow2_def [of 53])
    also have "\<dots> \<le> pow2 1024" using 3 by (simp add: pow2_le_iff)
    finally have "rounded q < pow2 1024" using val by simp
    moreover have "of_nat (nat m) * pow2 (if m = 0 then - 1074 else e) = rounded q" using b(2) val by simp
    ultimately show ?thesis using 3 r by (auto simp: round_signed_def)
  qed
qed

section \<open>Costs\<close>

text \<open>A cost is a number that is not negative, possibly infinite; costs are ordered by \<open>\<not> b < a\<close>.\<close>

fun cost_ok :: "double \<Rightarrow> bool" where
  "cost_ok NaN \<longleftrightarrow> False"
| "cost_ok (Infinite s) \<longleftrightarrow> \<not> s"
| "cost_ok (Finite s m e) \<longleftrightarrow> 0 \<le> rat_of_double (Finite s m e)"

definition double_le :: "double \<Rightarrow> double \<Rightarrow> bool" where
  "double_le a b \<longleftrightarrow> \<not> double_lt b a"

lemma double_le_refl [simp]: "double_le a a"
  by (cases a) (auto simp: double_le_def)

lemma double_le_infinite [simp]: "double_le a (Infinite False)"
  by (cases a) (simp_all add: double_le_def)

lemma double_le_trans: "cost_ok a \<Longrightarrow> cost_ok b \<Longrightarrow> cost_ok c \<Longrightarrow> double_le a b \<Longrightarrow> double_le b c \<Longrightarrow> double_le a c"
  by (cases a; cases b; cases c) (auto simp: double_le_def)

lemma double_lt_le_trans: "cost_ok a \<Longrightarrow> cost_ok b \<Longrightarrow> cost_ok c \<Longrightarrow> double_lt a b \<Longrightarrow> double_le b c \<Longrightarrow> double_lt a c"
  by (cases a; cases b; cases c) (auto simp: double_le_def)

lemma double_lt_imp_le: "cost_ok a \<Longrightarrow> cost_ok b \<Longrightarrow> double_lt a b \<Longrightarrow> double_le a b"
  by (cases a; cases b) (auto simp: double_le_def)

lemma round_signed_cost: "0 \<le> q \<Longrightarrow> cost_ok (round_signed False q)"
proof (cases "q = 0")
  case False
  assume "0 \<le> q"
  then have "0 < q" using False by simp
  moreover from this have "0 \<le> rounded q" using rounded_normal(2) by (simp add: rounded_def less_imp_le)
  ultimately show ?thesis using round_signed_cases [of q False] by auto
qed (simp add: round_signed_def round_magnitude_def)

lemma round_signed_mono: "0 < p \<Longrightarrow> p \<le> q \<Longrightarrow> double_le (round_signed False p) (round_signed False q)"
  using rounded_mono [of p q] round_signed_cases [of p False] round_signed_cases [of q False]
  by (auto simp: double_le_def not_less)

lemma double_add_cost: "cost_ok a \<Longrightarrow> cost_ok b \<Longrightarrow> cost_ok (double_add a b)"
  by (cases a; cases b) (auto simp: Let_def intro!: round_signed_cost)

lemma double_add_mono:
  assumes "cost_ok a" "cost_ok b" "cost_ok c" "double_le a b"
  shows "double_le (double_add a c) (double_add b c)"
proof (cases "\<exists>s m e t n f u k g. a = Finite s m e \<and> b = Finite t n f \<and> c = Finite u k g")
  case True
  then obtain s m e t n f u k g where abc: "a = Finite s m e" "b = Finite t n f" "c = Finite u k g" by blast
  define v w where "v = rat_of_double a + rat_of_double c" and "w = rat_of_double b + rat_of_double c"
  have ord: "0 \<le> v" "v \<le> w" using assms abc by (simp_all add: v_def w_def double_le_def not_less)
  have sum: "double_add a c = (if v = 0 then Finite (s \<and> u) 0 (- 1074) else round_signed False v)"
    "double_add b c = (if w = 0 then Finite (t \<and> u) 0 (- 1074) else round_signed False w)"
    using ord abc by (simp_all add: v_def w_def Let_def)
  show ?thesis
  proof (cases "v = 0")
    case True
    have "cost_ok (double_add b c)" by (rule double_add_cost [OF assms(2,3)])
    then show ?thesis using sum(1) True by (cases "double_add b c") (auto simp: double_le_def)
  next
    case False
    then show ?thesis using sum ord round_signed_mono [of v w] by simp
  qed
next
  case False
  then consider "b = Infinite False" | "c = Infinite False" | "a = Infinite False" "b \<noteq> Infinite False"
    using assms by (cases a; cases b; cases c) auto
  then have "double_add b c = Infinite False"
    using assms by cases (cases b; cases c; auto simp: double_le_def)+
  then show ?thesis by simp
qed

lemma double_lit_cost: "0 \<le> q \<Longrightarrow> cost_ok (double_lit q)"
  by (simp add: double_lit_def round_signed_cost)

lemma double_lit_unit:
  assumes "0 < q" "q \<le> 1"
  shows "isfinite (double_lit q)" "0 \<le> rat_of_double (double_lit q)" "rat_of_double (double_lit q) \<le> 1"
proof -
  have one: "pow2 0 = 1" by (simp add: pow2_def)
  have "pow2 (floor_log2 q) \<le> pow2 0" using floor_log2_bounds(1) [OF assms(1)] assms(2) one by simp
  then have "round_exp q \<le> 0" by (simp only: pow2_le_iff) (simp add: round_exp_def)
  then have le: "rounded q \<le> pow2 0" using assms one by (intro rounded_le) simp_all
  then have "rounded q < pow2 1024" using pow2_less_iff [of 0 1024] by simp
  then obtain m e where d: "double_lit q = Finite False m e" "of_nat m * pow2 e = rounded q"
    using round_signed_cases [OF assms(1), of False] by (auto simp: double_lit_def)
  show "isfinite (double_lit q)" using d(1) by simp
  show "0 \<le> rat_of_double (double_lit q)" using d(1) by (simp add: less_imp_le)
  show "rat_of_double (double_lit q) \<le> 1" using d le one by simp
qed

end
