(* ===== verification/StdSort.thy ===== *)
theory StdSort
  imports DoubleArith "HOL-Library.Multiset"
begin

text \<open>
  The sorting algorithms of the C++ standard library with a comparison, \<open>std::stable_sort\<close>,
  and \<open>std::sort\<close> and \<open>std::partial_sort\<close> where the order of the elements is total, so that
  every correct algorithm gives the same list.
\<close>

fun insert_stable :: "('a \<Rightarrow> 'a \<Rightarrow> bool) \<Rightarrow> 'a \<Rightarrow> 'a list \<Rightarrow> 'a list" where
  "insert_stable lt x [] = [x]"
| "insert_stable lt x (y # ys) = (if lt y x then y # insert_stable lt x ys else x # y # ys)"

definition stable_sort :: "('a \<Rightarrow> 'a \<Rightarrow> bool) \<Rightarrow> 'a list \<Rightarrow> 'a list" where
  "stable_sort lt xs = foldr (insert_stable lt) xs []"

lemma mset_insert_stable: "mset (insert_stable lt x ys) = add_mset x (mset ys)"
  by (induction ys) auto

lemma mset_stable_sort [simp]: "mset (stable_sort lt xs) = mset xs"
  by (induction xs) (simp_all add: stable_sort_def mset_insert_stable)

lemma set_insert_stable: "set (insert_stable lt x ys) = insert x (set ys)"
  by (induction ys) auto

lemma set_stable_sort: "set (stable_sort lt xs) = set xs"
  by (rule mset_eq_setD) simp

lemma length_stable_sort [simp]: "length (stable_sort lt xs) = length xs"
  by (rule mset_eq_length) simp

text \<open>With a comparison that is a strict order on the elements, nothing stands before what it exceeds.\<close>

definition orders :: "'a set \<Rightarrow> ('a \<Rightarrow> 'a \<Rightarrow> bool) \<Rightarrow> bool" where
  "orders A lt \<longleftrightarrow> (\<forall>a \<in> A. \<forall>b \<in> A. lt a b \<longrightarrow> \<not> lt b a) \<and> (\<forall>a \<in> A. \<forall>b \<in> A. \<forall>c \<in> A. \<not> lt b a \<longrightarrow> \<not> lt c b \<longrightarrow> \<not> lt c a)"

lemma orders_subset: "orders B lt \<Longrightarrow> A \<subseteq> B \<Longrightarrow> orders A lt"
  unfolding orders_def by (meson subsetD)

lemma insert_stable_ordered:
  "orders (insert x (set ys)) lt \<Longrightarrow> sorted_wrt (\<lambda>a b. \<not> lt b a) ys \<Longrightarrow> sorted_wrt (\<lambda>a b. \<not> lt b a) (insert_stable lt x ys)"
proof (induction ys)
  case (Cons y ys)
  then have ord: "sorted_wrt (\<lambda>a b. \<not> lt b a) (insert_stable lt x ys)"
    using orders_subset [of "insert x (set (y # ys))" lt "insert x (set ys)"] by auto
  show ?case
  proof (cases "lt y x")
    case True
    then have "\<not> lt x y" using Cons.prems(1) by (simp add: orders_def)
    then show ?thesis using True ord Cons.prems(2) by (simp add: set_insert_stable)
  next
    case False
    have "\<not> lt z x" if "z \<in> set ys" for z
    proof -
      have "\<not> lt z y" using that Cons.prems(2) by simp
      then show ?thesis using False that Cons.prems(1) unfolding orders_def by (meson insertCI list.set_intros)
    qed
    then show ?thesis using False Cons.prems(2) by simp
  qed
qed simp

lemma stable_sort_ordered: "orders (set xs) lt \<Longrightarrow> sorted_wrt (\<lambda>a b. \<not> lt b a) (stable_sort lt xs)"
proof (induction xs)
  case (Cons x xs)
  have "sorted_wrt (\<lambda>a b. \<not> lt b a) (stable_sort lt xs)"
    using Cons orders_subset [of "set (x # xs)" lt "set xs"] by auto
  moreover have "stable_sort lt (x # xs) = insert_stable lt x (stable_sort lt xs)" by (simp add: stable_sort_def)
  ultimately show ?case
    using insert_stable_ordered [of x "stable_sort lt xs" lt] Cons.prems by (simp add: set_stable_sort)
qed (simp add: stable_sort_def)

lemma stable_sort_sorted:
  assumes "\<forall>x \<in> set xs. cost_ok (f x)"
  shows "sorted_wrt (\<lambda>a b. double_le (f a) (f b)) (stable_sort (\<lambda>l r. double_lt (f l) (f r)) xs)"
proof -
  have "sorted_wrt (\<lambda>a b. \<not> double_lt (f b) (f a)) (stable_sort (\<lambda>l r. double_lt (f l) (f r)) xs)"
  proof (rule stable_sort_ordered, unfold orders_def, intro conjI ballI impI)
    fix a b assume "a \<in> set xs" "b \<in> set xs" "double_lt (f a) (f b)"
    then show "\<not> double_lt (f b) (f a)" using assms double_lt_imp_le [of "f a" "f b"] by (simp add: double_le_def)
  next
    fix a b c assume "a \<in> set xs" "b \<in> set xs" "c \<in> set xs" "\<not> double_lt (f b) (f a)" "\<not> double_lt (f c) (f b)"
    then show "\<not> double_lt (f c) (f a)" using assms double_le_trans [of "f a" "f b" "f c"] by (simp add: double_le_def)
  qed
  then show ?thesis by (simp add: double_le_def)
qed

end
