(* ===== verification/JsonText.thy ===== *)
theory JsonText
  imports Binary64 Utf8
begin

text \<open>
  The tokens of \<open>ipc/src/Json.cpp\<close>: strings and numbers, read and written.

  The parser's position in the text is the text that remains: a function that advances \<open>pos_\<close>
  returns the rest of the input, \<open>pos_ >= text_.size()\<close> is the empty rest, and
  \<open>text_.substr(start, pos_ - start)\<close> is what the rest lost. A \<open>uint32_t\<close> code point never
  exceeds 21 bits and is a \<^typ>\<open>nat\<close>.
\<close>

section \<open>Strings\<close>

definition hex_digit :: "char \<Rightarrow> nat option" where
  "hex_digit h =
     (if 48 \<le> ord h \<and> ord h \<le> 57 then Some (ord h - 48)
      else if 97 \<le> ord h \<and> ord h \<le> 102 then Some (ord h - 97 + 10)
      else if 65 \<le> ord h \<and> ord h \<le> 70 then Some (ord h - 65 + 10)
      else None)"

fun read_hex_loop :: "nat \<Rightarrow> nat \<Rightarrow> string \<Rightarrow> (nat \<times> string) option" where
  "read_hex_loop 0 codepoint rest = Some (codepoint, rest)"
| "read_hex_loop (Suc n) codepoint [] = None"
| "read_hex_loop (Suc n) codepoint (h # rest) =
     (case hex_digit h of
        None \<Rightarrow> None
      | Some v \<Rightarrow> read_hex_loop n (push_bit 4 codepoint OR v) rest)"

definition ReadHexCodepoint :: "string \<Rightarrow> (nat \<times> string) option" where
  "ReadHexCodepoint rest = (if 4 > length rest then None else read_hex_loop 4 0 rest)"

definition Utf8SequenceLength :: "char \<Rightarrow> nat option" where
  "Utf8SequenceLength first =
     (if ord first < 0x80 then Some 1
      else if ord first \<ge> 0xc2 \<and> ord first \<le> 0xdf then Some 2
      else if ord first \<ge> 0xe0 \<and> ord first \<le> 0xef then Some 3
      else if ord first \<ge> 0xf0 \<and> ord first \<le> 0xf4 then Some 4
      else None)"

text \<open>
  The two halves of the loop body of \<open>ParseString\<close>: what follows a backslash, and a sequence of
  unescaped bytes. Each returns the bytes pushed to \<open>out\<close> and the rest.
\<close>

definition parse_unicode_escape :: "string \<Rightarrow> (string \<times> string) option" where
  "parse_unicode_escape rest =
     (case ReadHexCodepoint rest of
        None \<Rightarrow> None
      | Some (codepoint, rest1) \<Rightarrow>
          (case
             (if codepoint \<ge> 0xd800 \<and> codepoint \<le> 0xdbff then
                if 6 > length rest1 \<or> rest1 ! 0 \<noteq> CHR 0x5c \<or> rest1 ! 1 \<noteq> CHR ''u'' then None
                else case ReadHexCodepoint (drop 2 rest1) of
                       None \<Rightarrow> None
                     | Some (low, rest2) \<Rightarrow>
                         if low < 0xdc00 \<or> low > 0xdfff then None
                         else Some (0x10000 + (push_bit 10 (codepoint - 0xd800) OR (low - 0xdc00)), rest2)
              else Some (codepoint, rest1)) of
             None \<Rightarrow> None
           | Some (codepoint, rest) \<Rightarrow>
               if codepoint \<ge> 0xdc00 \<and> codepoint \<le> 0xdfff then None
               else (case json_AppendUtf8 codepoint [] of None \<Rightarrow> None | Some bytes \<Rightarrow> Some (bytes, rest))))"

definition parse_escape :: "string \<Rightarrow> (string \<times> string) option" where
  "parse_escape s =
     (case s of
        [] \<Rightarrow> None
      | esc # rest \<Rightarrow>
          if esc = CHR 0x22 then Some ([CHR 0x22], rest)
          else if esc = CHR 0x5c then Some ([CHR 0x5c], rest)
          else if esc = CHR ''/'' then Some (''/'', rest)
          else if esc = CHR ''b'' then Some ([CHR 0x08], rest)
          else if esc = CHR ''f'' then Some ([CHR 0x0c], rest)
          else if esc = CHR ''n'' then Some ([CHR 0x0a], rest)
          else if esc = CHR ''r'' then Some ([CHR 0x0d], rest)
          else if esc = CHR ''t'' then Some ([CHR 0x09], rest)
          else if esc = CHR ''u'' then parse_unicode_escape rest
          else None)"

definition parse_plain :: "char \<Rightarrow> string \<Rightarrow> (string \<times> string) option" where
  "parse_plain c rest =
     (if ord c < 0x20 then None
      else case Utf8SequenceLength c of
             None \<Rightarrow> None
           | Some sequence_len \<Rightarrow>
               if sequence_len - 1 > length rest then None
               else if \<not> list_all is_continuation (take (sequence_len - 1) rest) then None
               else if sequence_len = 3 \<and>
                       ((ord c = 0xe0 \<and> ord (rest ! 0) < 0xa0) \<or> (ord c = 0xed \<and> ord (rest ! 0) \<ge> 0xa0))
                    then None
               else if sequence_len = 4 \<and>
                       ((ord c = 0xf0 \<and> ord (rest ! 0) < 0x90) \<or> (ord c = 0xf4 \<and> ord (rest ! 0) > 0x8f))
                    then None
               else Some (c # take (sequence_len - 1) rest, drop (sequence_len - 1) rest))"

lemma read_hex_loop_length:
  "read_hex_loop n cp s = Some (v, rest) \<Longrightarrow> length s = n + length rest"
  by (induction n cp s rule: read_hex_loop.induct) (auto split: option.splits)

lemma ReadHexCodepoint_length: "ReadHexCodepoint s = Some (v, rest) \<Longrightarrow> length s = 4 + length rest"
  by (auto simp: ReadHexCodepoint_def dest: read_hex_loop_length split: if_splits)

lemma parse_unicode_escape_length:
  "parse_unicode_escape s = Some (bytes, rest) \<Longrightarrow> length rest < length s"
  by (auto simp: parse_unicode_escape_def dest!: ReadHexCodepoint_length split: option.splits if_splits prod.splits)

lemma parse_escape_length [termination_simp]:
  "parse_escape s = Some (bytes, rest) \<Longrightarrow> length rest < length s"
  by (auto simp: parse_escape_def dest: parse_unicode_escape_length split: list.splits if_splits)

lemma parse_plain_length [termination_simp]:
  "parse_plain c s = Some (bytes, rest) \<Longrightarrow> length rest \<le> length s"
  by (auto simp: parse_plain_def split: option.splits if_splits)

text \<open>The loop of \<open>ParseString\<close> after the opening quote.\<close>

function parse_string_loop :: "string \<Rightarrow> string \<Rightarrow> (string \<times> string) option" where
  "parse_string_loop out [] = None"
| "parse_string_loop out (c # rest) =
     (if c = CHR 0x22 then Some (out, rest)
      else case (if c = CHR 0x5c then parse_escape rest else parse_plain c rest) of
             None \<Rightarrow> None
           | Some (bytes, rest') \<Rightarrow> parse_string_loop (out @ bytes) rest')"
  by pat_completeness auto
termination
  by (relation "measure (length \<circ> snd)")
    (auto dest: parse_escape_length parse_plain_length split: if_splits)

definition ParseString :: "string \<Rightarrow> (string \<times> string) option" where
  "ParseString s =
     (case s of [] \<Rightarrow> None | c # rest \<Rightarrow> if c \<noteq> CHR 0x22 then None else parse_string_loop [] rest)"

section \<open>EscapeString\<close>

definition hex_lower :: "nat \<Rightarrow> char" where
  "hex_lower d = byte (if d < 10 then 48 + d else 87 + d)"

text \<open>\<open>snprintf("\\u%04x", c)\<close>\<close>

definition unicode_escape :: "nat \<Rightarrow> string" where
  "unicode_escape n =
     [CHR 0x5c, CHR ''u'', hex_lower (n div 4096 mod 16), hex_lower (n div 256 mod 16),
      hex_lower (n div 16 mod 16), hex_lower (n mod 16)]"

definition escape_byte :: "char \<Rightarrow> string" where
  "escape_byte c =
     (if c = CHR 0x22 then [CHR 0x5c, CHR 0x22]
      else if c = CHR 0x5c then [CHR 0x5c, CHR 0x5c]
      else if c = CHR 0x08 then [CHR 0x5c, CHR ''b'']
      else if c = CHR 0x0c then [CHR 0x5c, CHR ''f'']
      else if c = CHR 0x0a then [CHR 0x5c, CHR ''n'']
      else if c = CHR 0x0d then [CHR 0x5c, CHR ''r'']
      else if c = CHR 0x09 then [CHR 0x5c, CHR ''t'']
      else if ord c < 0x20 then unicode_escape (ord c)
      else [c])"

definition EscapeString :: "string \<Rightarrow> string" where
  "EscapeString s = concat (map escape_byte s)"

section \<open>Numbers\<close>

definition IsPlainIntegerToken :: "string \<Rightarrow> bool" where
  "IsPlainIntegerToken token \<longleftrightarrow>
     token \<noteq> [] \<and>
     (let digits = (if hd token = CHR ''-'' then tl token else token) in
      digits \<noteq> [] \<and> list_all isdigit digits)"

text \<open>The value of the exponent digits, held at 10000.\<close>

definition capped_exponent :: "string \<Rightarrow> int" where
  "capped_exponent ds = foldl (\<lambda>v c. min (v * 10 + (int (ord c) - 48)) 10000) 0 ds"

text \<open>The walk over the significand: digits before the point, digits seen, first nonzero digit.\<close>

fun significand_walk :: "bool \<Rightarrow> int \<Rightarrow> int \<Rightarrow> int option \<Rightarrow> string \<Rightarrow> int \<times> int option" where
  "significand_walk past_decimal before index first [] = (before, first)"
| "significand_walk past_decimal before index first (c # cs) =
     (if c = CHR ''.'' then significand_walk True before index first cs
      else significand_walk past_decimal (if past_decimal then before else before + 1) (index + 1)
             (if c \<noteq> CHR ''0'' \<and> first = None then Some index else first) cs)"

definition AdjustedDecimalExponent :: "string \<Rightarrow> int option" where
  "AdjustedDecimalExponent token =
     (let significand = takeWhile (\<lambda>c. \<not> is_e c) token;
          tail = dropWhile (\<lambda>c. \<not> is_e c) token;
          explicit_exponent =
            (if tail = [] then 0
             else let x = tl tail in
                  if x \<noteq> [] \<and> (hd x = CHR ''+'' \<or> hd x = CHR ''-'') then
                    if hd x = CHR ''-'' then - capped_exponent (tl x) else capped_exponent (tl x)
                  else capped_exponent x);
          (before, first) =
            significand_walk False 0 0 None (if hd token = CHR ''-'' then tl significand else significand)
      in case first of
           None \<Rightarrow> None
         | Some index \<Rightarrow> Some (explicit_exponent + before - index - 1))"

definition UnderflowsToZero :: "string \<Rightarrow> bool" where
  "UnderflowsToZero token =
     (case AdjustedDecimalExponent token of None \<Rightarrow> False | Some e \<Rightarrow> e < - 324)"

text \<open>
  \<open>ParseFiniteDouble\<close> is called on the tokens of the number grammar only, which
  \<open>std::from_chars\<close> consumes to the end.
\<close>

definition ParseFiniteDouble :: "string \<Rightarrow> double option" where
  "ParseFiniteDouble token =
     (case from_chars_double token of
        OutOfRange \<Rightarrow>
          if UnderflowsToZero token then Some (Finite (hd token = CHR ''-'') 0 (- 1074)) else None
      | Parsed d \<Rightarrow> if \<not> isfinite d then None else Some d)"

definition FormatInteger :: "int \<Rightarrow> string" where
  "FormatInteger v = (if v < 0 then CHR ''-'' # to_string (nat (- v)) else to_string (nat v))"

definition FormatDouble :: "double \<Rightarrow> string option" where
  "FormatDouble d =
     (if \<not> isfinite d then None
      else let text = to_chars_double d in if length text > 128 then None else Some text)"

text \<open>\<open>StringifyNumber\<close> on the two fields of a \<open>Number\<close>.\<close>

definition StringifyNumber :: "double \<Rightarrow> string \<Rightarrow> string" where
  "StringifyNumber d token =
     (if token \<noteq> [] then token
      else if no_fraction d \<and> double_ge d 0 \<and> double_less d (2 ^ 64) then
        FormatInteger \<lfloor>rat_of_double d\<rfloor>
      else if no_fraction d \<and> double_ge d (- (2 ^ 63)) \<and> double_less d (2 ^ 63) then
        FormatInteger \<lfloor>rat_of_double d\<rfloor>
      else case FormatDouble d of None \<Rightarrow> ''null'' | Some t \<Rightarrow> t)"

text \<open>The scanner of \<open>ParseNumber\<close>, part by part: each returns the rest behind the part.\<close>

definition scan_sign :: "string \<Rightarrow> string" where
  "scan_sign s = (if s \<noteq> [] \<and> hd s = CHR ''-'' then tl s else s)"

definition scan_int :: "string \<Rightarrow> string option" where
  "scan_int s =
     (case s of
        [] \<Rightarrow> None
      | c # rest \<Rightarrow>
          if c = CHR ''0'' then if rest \<noteq> [] \<and> isdigit (hd rest) then None else Some rest
          else if 49 \<le> ord c \<and> ord c \<le> 57 then Some (dropWhile isdigit s)
          else None)"

definition scan_digits :: "string \<Rightarrow> string option" where
  "scan_digits s = (if s = [] \<or> \<not> isdigit (hd s) then None else Some (dropWhile isdigit s))"

definition scan_frac :: "string \<Rightarrow> string option" where
  "scan_frac s = (if s \<noteq> [] \<and> hd s = CHR ''.'' then scan_digits (tl s) else Some s)"

definition scan_exp :: "string \<Rightarrow> string option" where
  "scan_exp s =
     (if s \<noteq> [] \<and> is_e (hd s) then
        let x = tl s in
        scan_digits (if x \<noteq> [] \<and> (hd x = CHR ''+'' \<or> hd x = CHR ''-'') then tl x else x)
      else Some s)"

definition scan_number :: "string \<Rightarrow> string option" where
  "scan_number s =
     (case scan_int (scan_sign s) of
        None \<Rightarrow> None
      | Some r1 \<Rightarrow> (case scan_frac r1 of None \<Rightarrow> None | Some r2 \<Rightarrow> scan_exp r2))"

definition ParseNumber :: "string \<Rightarrow> ((double \<times> string) \<times> string) option" where
  "ParseNumber s =
     (case scan_number s of
        None \<Rightarrow> None
      | Some rest \<Rightarrow>
          if length rest = length s then None
          else let token = take (length s - length rest) s in
               (case ParseFiniteDouble token of
                  None \<Rightarrow> None
                | Some d \<Rightarrow> Some ((d, token), rest)))"


section \<open>Strings are valid UTF-8\<close>

text \<open>The text is a sequence of encoded scalar values.\<close>

lemma utf8_head_width: "utf8_head s = Some (cp, w) \<Longrightarrow> 0 < w \<and> w \<le> length s"
  by (auto simp: utf8_head_iff length_utf8)

function valid_utf8 :: "string \<Rightarrow> bool" where
  "valid_utf8 s =
     (case utf8_head s of None \<Rightarrow> s = [] | Some (cp, w) \<Rightarrow> valid_utf8 (drop w s))"
  by pat_completeness auto
termination
  by (relation "measure length") (auto dest: utf8_head_width)

declare valid_utf8.simps [simp del]

lemma valid_utf8_Nil [simp]: "valid_utf8 []"
  by (simp add: valid_utf8.simps)

lemma valid_utf8_append [simp]: "is_scalar cp \<Longrightarrow> valid_utf8 (utf8 cp @ s) = valid_utf8 s"
  by (simp add: valid_utf8.simps [of "utf8 cp @ s"] utf8_head_complete)

lemma valid_utf8_iff: "valid_utf8 s \<longleftrightarrow> (\<exists>cps. list_all is_scalar cps \<and> s = utf8s cps)"
proof
  show "valid_utf8 s \<Longrightarrow> \<exists>cps. list_all is_scalar cps \<and> s = utf8s cps"
  proof (induction s rule: valid_utf8.induct)
    case (1 s)
    show ?case
    proof (cases "utf8_head s")
      case None
      then have "s = []" using 1(2) by (simp add: valid_utf8.simps [of s])
      then show ?thesis by (intro exI [of _ "[]"]) simp
    next
      case (Some x)
      then obtain cp w where cp: "utf8_head s = Some (cp, w)" by (cases x) auto
      then have "valid_utf8 (drop w s)" using 1(2) by (simp add: valid_utf8.simps [of s])
      then obtain cps where "list_all is_scalar cps" "drop w s = utf8s cps" using 1(1) cp by blast
      with cp show ?thesis by (intro exI [of _ "cp # cps"]) (auto simp: utf8_head_iff)
    qed
  qed
  have "list_all is_scalar cps \<Longrightarrow> valid_utf8 (utf8s cps)" for cps
    by (induction cps) simp_all
  then show "\<exists>cps. list_all is_scalar cps \<and> s = utf8s cps \<Longrightarrow> valid_utf8 s" by auto
qed

lemma valid_utf8_concat: "valid_utf8 s \<Longrightarrow> valid_utf8 t \<Longrightarrow> valid_utf8 (s @ t)"
  by (auto simp: valid_utf8_iff) (metis list_all_append utf8s_simps(3))

lemma Utf8SequenceLength_head:
  "Utf8SequenceLength c = None \<Longrightarrow> utf8_head (c # s) = None"
proof -
  assume "Utf8SequenceLength c = None"
  then consider "0x80 \<le> ord c" "ord c < 0xc0" | "0xc0 \<le> ord c" "ord c < 0xc2" | "0xf5 \<le> ord c"
    by (fastforce simp: Utf8SequenceLength_def split: if_splits)
  then show ?thesis
  proof cases
    case 2
    have "(ord c - 192) * 64 + x mod 64 < 128" for x :: nat
      using 2 mod_less_divisor [of 64 x] by linarith
    then show ?thesis using 2 by (auto simp: Let_def not_le split: list.splits)
  next
    case 3
    then have "(ord c - 240) * 262144 + x \<ge> 0x110000" for x :: nat by linarith
    then have "\<not> is_scalar ((ord c - 240) * 262144 + x)" for x
      by (fastforce simp: is_scalar_def)
    then have "\<not> is_scalar ((ord c - 240) * 262144 + x + y + z)" for x y z
      by (metis add.assoc)
    then show ?thesis using 3 by (auto simp: Let_def split: list.splits)
  qed auto
qed

lemma scalar_range3:
  fixes a m k :: nat
  assumes "a < 16" "m < 64" "k < 64"
  shows "0x800 \<le> a * 4096 + m * 64 + k \<and> is_scalar (a * 4096 + m * 64 + k) \<longleftrightarrow>
    \<not> (a = 0 \<and> m < 32) \<and> \<not> (a = 13 \<and> 32 \<le> m)"
proof -
  consider "a = 0" | "0 < a" "a < 13" | "a = 13" | "13 < a" by linarith
  then show ?thesis
  proof cases
    case 2
    then have "a * 4096 + m * 64 + k < 0xd800" "0x800 \<le> a * 4096 + m * 64 + k" using assms by linarith+
    then show ?thesis using 2 by (simp add: is_scalar_def)
  next
    case 4
    then have "a * 4096 + m * 64 + k > 0xdfff" "a * 4096 + m * 64 + k < 0x10000" using assms by linarith+
    then show ?thesis using 4 by (simp add: is_scalar_def)
  qed (use assms in \<open>auto simp: is_scalar_def\<close>)
qed

lemma scalar_range4:
  fixes a m k :: nat
  assumes "a < 5" "m < 64" "k < 4096"
  shows "0x10000 \<le> a * 262144 + m * 4096 + k \<and> is_scalar (a * 262144 + m * 4096 + k) \<longleftrightarrow>
    \<not> (a = 0 \<and> m < 16) \<and> \<not> (a = 4 \<and> 16 \<le> m)"
proof -
  consider "a = 0" | "0 < a" "a < 4" | "a = 4" using assms by linarith
  then show ?thesis
  proof cases
    case 2
    then have "a * 262144 + m * 4096 + k < 0x110000" "0x10000 \<le> a * 262144 + m * 4096 + k"
      using assms by linarith+
    then show ?thesis using 2 by (simp add: is_scalar_def)
  qed (use assms in \<open>auto simp: is_scalar_def\<close>)
qed

lemma parse_plain_3:
  assumes "0xe0 \<le> ord c" "ord c \<le> 0xef"
  shows "parse_plain c s =
    (case utf8_head (c # s) of None \<Rightarrow> None | Some (cp, w) \<Rightarrow> Some (take w (c # s), drop w (c # s)))"
proof (cases "\<exists>c1 c2 t. s = c1 # c2 # t")
  case True
  then obtain c1 c2 t where s: "s = c1 # c2 # t" by blast
  define v where "v = (ord c - 224) * 4096 + ord c1 mod 64 * 64 + ord c2 mod 64"
  have "is_continuation c1 \<Longrightarrow> (0x800 \<le> v \<and> is_scalar v \<longleftrightarrow>
      \<not> ((ord c = 0xe0 \<and> ord c1 < 0xa0) \<or> (ord c = 0xed \<and> ord c1 \<ge> 0xa0)))"
    using scalar_range3 [of "ord c - 224" "ord c1 mod 64" "ord c2 mod 64"] assms continuation_value [of c1]
    unfolding v_def by auto
  then show ?thesis using assms s v_def
    by (auto simp: parse_plain_def Utf8SequenceLength_def Let_def numeral_3_eq_3 numeral_2_eq_2)
next
  case False
  then have "length s < 2" by (cases s; cases "tl s") auto
  then show ?thesis using assms
    by (auto simp: parse_plain_def Utf8SequenceLength_def Let_def split: list.splits)
qed

lemma parse_plain_4:
  assumes "0xf0 \<le> ord c" "ord c \<le> 0xf4"
  shows "parse_plain c s =
    (case utf8_head (c # s) of None \<Rightarrow> None | Some (cp, w) \<Rightarrow> Some (take w (c # s), drop w (c # s)))"
proof (cases "\<exists>c1 c2 c3 t. s = c1 # c2 # c3 # t")
  case True
  then obtain c1 c2 c3 t where s: "s = c1 # c2 # c3 # t" by blast
  define v where "v = (ord c - 240) * 262144 + ord c1 mod 64 * 4096 + ord c2 mod 64 * 64 + ord c3 mod 64"
  have "ord c2 mod 64 * 64 + ord c3 mod 64 < 4096"
    using mod_less_divisor [of 64 "ord c2"] mod_less_divisor [of 64 "ord c3"] by linarith
  then have "is_continuation c1 \<Longrightarrow> (0x10000 \<le> v \<and> is_scalar v \<longleftrightarrow>
      \<not> ((ord c = 0xf0 \<and> ord c1 < 0x90) \<or> (ord c = 0xf4 \<and> ord c1 > 0x8f)))"
    using scalar_range4 [of "ord c - 240" "ord c1 mod 64" "ord c2 mod 64 * 64 + ord c3 mod 64"]
      assms continuation_value [of c1]
    unfolding v_def by (auto simp: add.assoc)
  then show ?thesis using assms s v_def
    by (auto simp: parse_plain_def Utf8SequenceLength_def Let_def)
next
  case False
  then have "length s < 3" by (cases s; cases "tl s"; cases "tl (tl s)") auto
  then show ?thesis using assms
    by (auto simp: parse_plain_def Utf8SequenceLength_def Let_def split: list.splits)
qed

text \<open>Outside the control characters the byte checks of \<open>ParseString\<close> are those of the reference reader.\<close>

lemma parse_plain_head:
  assumes "0x20 \<le> ord c"
  shows "parse_plain c s =
    (case utf8_head (c # s) of None \<Rightarrow> None | Some (cp, w) \<Rightarrow> Some (take w (c # s), drop w (c # s)))"
proof -
  consider "ord c < 0x80" | "0xc2 \<le> ord c" "ord c \<le> 0xdf" | "0xe0 \<le> ord c" "ord c \<le> 0xef"
    | "0xf0 \<le> ord c" "ord c \<le> 0xf4" | "Utf8SequenceLength c = None"
    by (fastforce simp: Utf8SequenceLength_def split: if_splits)
  then show ?thesis
  proof cases
    case 1
    then show ?thesis using assms by (simp add: parse_plain_def Utf8SequenceLength_def)
  next
    case 2
    then have "(ord c - 192) * 64 + x \<ge> 128" for x :: nat by linarith
    then show ?thesis using 2
      by (cases s) (auto simp: parse_plain_def Utf8SequenceLength_def Let_def)
  next
    case 3
    then show ?thesis by (rule parse_plain_3)
  next
    case 4
    then show ?thesis by (rule parse_plain_4)
  next
    case 5
    then show ?thesis using Utf8SequenceLength_head [of c s] by (simp add: parse_plain_def)
  qed
qed


lemma parse_plain_sound:
  assumes "parse_plain c s = Some (bytes, rest)"
  shows "valid_utf8 bytes \<and> bytes @ rest = c # s"
proof -
  have c: "0x20 \<le> ord c" using assms by (auto simp: parse_plain_def split: if_splits)
  obtain cp w where h: "utf8_head (c # s) = Some (cp, w)" "bytes = take w (c # s)" "rest = drop w (c # s)"
    using assms by (auto simp: parse_plain_head [OF c] split: option.splits)
  then obtain t where "is_scalar cp" "c # s = utf8 cp @ t" "w = length (utf8 cp)"
    using utf8_head_iff [of "c # s" cp w] by blast
  then show ?thesis using h valid_utf8_append [of cp "[]"] by simp
qed

lemma json_AppendUtf8_valid: "json_AppendUtf8 cp [] = Some bytes \<Longrightarrow> valid_utf8 bytes"
  using valid_utf8_append [of cp "[]"] by (auto simp: json_AppendUtf8_eq split: if_splits)

lemma valid_utf8_ascii: "ord c < 0x80 \<Longrightarrow> valid_utf8 [c]"
  using valid_utf8_append [of "ord c" "[]"] by (simp add: utf8_cases(1) is_scalar_def)

lemma parse_escape_valid: "parse_escape s = Some (bytes, rest) \<Longrightarrow> valid_utf8 bytes"
  by (auto simp: parse_escape_def parse_unicode_escape_def valid_utf8_ascii
      dest: json_AppendUtf8_valid split: list.splits option.splits if_splits prod.splits)

lemma parse_string_loop_valid:
  "parse_string_loop out s = Some (t, rest) \<Longrightarrow> valid_utf8 out \<Longrightarrow> valid_utf8 t"
proof (induction out s rule: parse_string_loop.induct)
  case (2 out c s)
  show ?case
  proof (cases "c = CHR 0x22")
    case False
    then obtain bytes rest' where
      p: "(if c = CHR 0x5c then parse_escape s else parse_plain c s) = Some (bytes, rest')"
      and l: "parse_string_loop (out @ bytes) rest' = Some (t, rest)"
      using 2(2) by (auto split: option.splits)
    then have "valid_utf8 bytes"
      using parse_escape_valid parse_plain_sound by (auto split: if_splits)
    then show ?thesis using 2(1) [OF False p refl l] 2(3) by (simp add: valid_utf8_concat)
  qed (use 2 in auto)
qed simp

lemma ParseString_valid: "ParseString s = Some (t, rest) \<Longrightarrow> valid_utf8 t"
  by (auto simp: ParseString_def dest: parse_string_loop_valid split: list.splits if_splits)

text \<open>Reading advances.\<close>

lemma parse_string_loop_length: "parse_string_loop out s = Some (t, rest) \<Longrightarrow> length rest < length s"
proof (induction out s rule: parse_string_loop.induct)
  case (2 out c s)
  show ?case
  proof (cases "c = CHR 0x22")
    case False
    then obtain bytes rest' where
      p: "(if c = CHR 0x5c then parse_escape s else parse_plain c s) = Some (bytes, rest')"
      and l: "parse_string_loop (out @ bytes) rest' = Some (t, rest)"
      using 2(2) by (auto split: option.splits)
    then have "length rest' \<le> length s"
      using parse_escape_length parse_plain_length by (fastforce split: if_splits)
    then show ?thesis using 2(1) [OF False p refl l] by simp
  qed (use 2 in auto)
qed simp

lemma ParseString_length: "ParseString s = Some (t, rest) \<Longrightarrow> length rest < length s"
  by (auto simp: ParseString_def dest: parse_string_loop_length split: list.splits if_splits)

section \<open>Escaped text reads back\<close>

lemma hex_digit_lower: "d < 16 \<Longrightarrow> hex_digit (hex_lower d) = Some d"
  by (auto simp: hex_digit_def hex_lower_def)

lemma ReadHexCodepoint_lower:
  assumes "a < 16" "b < 16" "c < 16" "d < 16"
  shows "ReadHexCodepoint (hex_lower a # hex_lower b # hex_lower c # hex_lower d # rest) =
    Some (((a * 16 + b) * 16 + c) * 16 + d, rest)"
  using assms shift_or [of _ 4] by (simp add: ReadHexCodepoint_def hex_digit_lower numeral_eq_Suc)

lemma parse_unicode_escape_control:
  assumes "n < 0x20"
  shows "parse_escape (tl (unicode_escape n) @ rest) = Some ([byte n], rest)"
proof -
  have d: "n div 4096 = 0" "n div 256 = 0" "n div 16 < 16" "n div 16 mod 16 = n div 16"
    using assms by (auto simp: div_less)
  have "ReadHexCodepoint (drop 2 (unicode_escape n) @ rest) = Some (n div 16 * 16 + n mod 16, rest)"
    using ReadHexCodepoint_lower [of 0 0 "n div 16" "n mod 16" rest] d
    by (simp add: unicode_escape_def numeral_2_eq_2)
  moreover have "json_AppendUtf8 n [] = Some [byte n]"
    using assms by (simp add: json_AppendUtf8_eq is_scalar_def utf8_cases)
  ultimately show ?thesis using assms
    by (simp add: parse_escape_def parse_unicode_escape_def unicode_escape_def numeral_2_eq_2)
qed

lemma escape_byte_high: "0x80 \<le> ord c \<Longrightarrow> escape_byte c = [c]"
proof -
  assume c: "0x80 \<le> ord c"
  have "c \<notin> {CHR 0x22, CHR 0x5c, CHR 0x08, CHR 0x0c, CHR 0x0a, CHR 0x0d, CHR 0x09}"
    using c by (intro notI) (elim insertE; simp)
  then show ?thesis using c by (simp add: escape_byte_def)
qed

lemma escape_high: "list_all (\<lambda>c. 0x80 \<le> ord c) s \<Longrightarrow> EscapeString s = s"
  by (induction s) (simp_all add: EscapeString_def escape_byte_high)

lemma parse_escaped_ascii:
  assumes "ord c < 0x80"
  shows "parse_string_loop out (escape_byte c @ rest) = parse_string_loop (out @ [c]) rest"
proof (cases "ord c < 0x20 \<and> escape_byte c = unicode_escape (ord c)")
  case True
  then show ?thesis
    using parse_unicode_escape_control [of "ord c" rest] by (simp add: unicode_escape_def)
next
  case False
  then consider "c \<in> {CHR 0x22, CHR 0x5c, CHR 0x08, CHR 0x0c, CHR 0x0a, CHR 0x0d, CHR 0x09}"
    | "c \<noteq> CHR 0x22" "c \<noteq> CHR 0x5c" "0x20 \<le> ord c" "escape_byte c = [c]"
    by (auto simp: escape_byte_def split: if_splits)
  then show ?thesis
  proof cases
    case 1
    then show ?thesis by (auto simp: escape_byte_def parse_escape_def)
  next
    case 2
    then show ?thesis using assms by (simp add: parse_plain_head)
  qed
qed

lemma parse_encoded:
  assumes "is_scalar cp" "0x80 \<le> cp"
  shows "parse_string_loop out (utf8 cp @ rest) = parse_string_loop (out @ utf8 cp) rest"
proof -
  obtain c cs where u: "utf8 cp = c # cs" "0x80 \<le> ord c"
    using utf8_high [OF assms] by (cases "utf8 cp") auto
  have "parse_plain c (cs @ rest) = Some (utf8 cp, rest)"
    using utf8_head_complete [OF assms(1), of rest] u by (simp add: parse_plain_head)
  moreover have "c \<noteq> CHR 0x22" "c \<noteq> CHR 0x5c" using u(2) by auto
  ultimately show ?thesis using u(1) by simp
qed

lemma EscapeString_append: "EscapeString (s @ t) = EscapeString s @ EscapeString t"
  by (simp add: EscapeString_def)

lemma parse_string_loop_escaped:
  "list_all is_scalar cps \<Longrightarrow>
     parse_string_loop out (EscapeString (utf8s cps) @ CHR 0x22 # rest) = Some (out @ utf8s cps, rest)"
proof (induction cps arbitrary: out)
  case (Cons cp cps)
  show ?case
  proof (cases "cp < 0x80")
    case True
    then show ?thesis
      using Cons parse_escaped_ascii [of "byte cp" out]
      by (simp add: EscapeString_append utf8_cases(1)) (simp add: EscapeString_def)
  next
    case False
    then show ?thesis
      using Cons parse_encoded [of cp out] utf8_high [of cp]
      by (simp add: EscapeString_append escape_high)
  qed
qed (simp add: EscapeString_def)

lemma ParseString_escaped:
  "valid_utf8 s \<Longrightarrow> ParseString (CHR 0x22 # EscapeString s @ CHR 0x22 # rest) = Some (s, rest)"
  by (auto simp: ParseString_def valid_utf8_iff parse_string_loop_escaped)


section \<open>Number tokens\<close>

text \<open>What may follow a number so that the scanner stops in front of it.\<close>

definition number_end :: "string \<Rightarrow> bool" where
  "number_end x \<longleftrightarrow> x = [] \<or> \<not> isdigit (hd x) \<and> hd x \<noteq> CHR ''.'' \<and> \<not> is_e (hd x)"

lemma dropWhile_digits:
  "list_all isdigit p \<Longrightarrow> x = [] \<or> \<not> isdigit (hd x) \<Longrightarrow> dropWhile isdigit (p @ x) = x"
  by (induction p; cases x) auto

lemma scan_digits_split:
  assumes "scan_digits s = Some r"
  obtains p where "p \<noteq> []" "isdigit (hd p)" "s = p @ r"
    "\<forall>x. (x = [] \<or> \<not> isdigit (hd x)) \<longrightarrow> scan_digits (p @ x) = Some x"
proof -
  define p where "p = takeWhile isdigit s"
  have s: "s \<noteq> []" "isdigit (hd s)" "r = dropWhile isdigit s"
    using assms by (auto simp: scan_digits_def split: if_splits)
  then have p: "p \<noteq> []" "hd p = hd s" "s = p @ r" by (cases s; simp add: p_def)+
  have "list_all isdigit p" by (auto simp: p_def list_all_iff dest: set_takeWhileD)
  then have "\<forall>x. (x = [] \<or> \<not> isdigit (hd x)) \<longrightarrow> scan_digits (p @ x) = Some x"
    using p(1,2) s(2) dropWhile_digits [of p] by (simp add: scan_digits_def)
  then show thesis using that [OF p(1) _ p(3)] p(2) s(2) by simp
qed

lemma scan_int_split:
  assumes "scan_int s = Some r"
  obtains p where "p \<noteq> []" "isdigit (hd p)" "s = p @ r"
    "\<forall>x. (x = [] \<or> \<not> isdigit (hd x)) \<longrightarrow> scan_int (p @ x) = Some x"
proof (cases "hd s = CHR ''0''")
  case True
  then have "s = ''0'' @ r" using assms by (auto simp: scan_int_def split: list.splits if_splits)
  then show thesis using that [of "''0''"] by (auto simp: scan_int_def isdigit_def)
next
  case False
  then obtain c t where s: "s = c # t" "49 \<le> ord c" "ord c \<le> 57" "r = dropWhile isdigit s"
    using assms by (auto simp: scan_int_def split: list.splits if_splits)
  then have "scan_digits s = Some r" by (simp add: scan_digits_def isdigit_def)
  then obtain p where p: "p \<noteq> []" "isdigit (hd p)" "s = p @ r"
    "\<forall>x. (x = [] \<or> \<not> isdigit (hd x)) \<longrightarrow> scan_digits (p @ x) = Some x"
    by (rule scan_digits_split)
  have "scan_int (p @ x) = scan_digits (p @ x)" for x
    using p(1,3) s False by (cases p) (auto simp: scan_int_def scan_digits_def isdigit_def)
  then show thesis using that [of p] p by simp
qed

lemma scan_frac_split:
  assumes "scan_frac s = Some r"
  obtains p where "p = [] \<or> hd p = CHR ''.''" "s = p @ r"
    "\<forall>x. (x = [] \<or> \<not> isdigit (hd x) \<and> hd x \<noteq> CHR ''.'') \<longrightarrow> scan_frac (p @ x) = Some x"
proof (cases "s \<noteq> [] \<and> hd s = CHR ''.''")
  case True
  then have "scan_digits (tl s) = Some r" using assms by (simp add: scan_frac_def)
  then obtain p where "p \<noteq> []" "isdigit (hd p)" "tl s = p @ r"
    "\<forall>x. (x = [] \<or> \<not> isdigit (hd x)) \<longrightarrow> scan_digits (p @ x) = Some x"
    by (rule scan_digits_split)
  then show thesis using that [of "CHR ''.'' # p"] True by (cases s) (auto simp: scan_frac_def)
next
  case False
  then show thesis using that [of "[]"] assms by (auto simp: scan_frac_def split: if_splits)
qed

lemma scan_exp_split:
  assumes "scan_exp s = Some r"
  obtains p where "p = [] \<or> is_e (hd p)" "s = p @ r" "\<forall>x. (number_end x) \<longrightarrow> scan_exp (p @ x) = Some x"
proof (cases "s \<noteq> [] \<and> is_e (hd s)")
  case True
  define x where "x = tl s"
  define sg where "sg = (if x \<noteq> [] \<and> (hd x = CHR ''+'' \<or> hd x = CHR ''-'') then [hd x] else [])"
  define y where "y = (if x \<noteq> [] \<and> (hd x = CHR ''+'' \<or> hd x = CHR ''-'') then tl x else x)"
  have xy: "x = sg @ y" by (simp add: sg_def y_def)
  have "scan_digits y = Some r" using assms True unfolding scan_exp_def x_def y_def Let_def by simp
  then obtain p where p: "p \<noteq> []" "isdigit (hd p)" "y = p @ r"
    "\<forall>x. (x = [] \<or> \<not> isdigit (hd x)) \<longrightarrow> scan_digits (p @ x) = Some x"
    by (rule scan_digits_split)
  have "hd p \<noteq> CHR ''+''" "hd p \<noteq> CHR ''-''" using p(2) by (auto simp: isdigit_def)
  then have "scan_exp (hd s # sg @ p @ z) = scan_digits (p @ z)" for z
    using True p(1) by (auto simp: scan_exp_def sg_def Let_def)
  then have "\<forall>z. number_end z \<longrightarrow> scan_exp ((hd s # sg @ p) @ z) = Some z"
    using p(4) by (simp add: number_end_def)
  moreover have "s = (hd s # sg @ p) @ r" using True p(3) xy by (cases s) (auto simp: x_def)
  ultimately show thesis using that [of "hd s # sg @ p"] True by simp
next
  case False
  then show thesis using that [of "[]"] assms by (auto simp: scan_exp_def number_end_def split: if_splits)
qed

lemma scan_number_split:
  assumes "scan_number s = Some r"
  obtains p where "p \<noteq> []" "s = p @ r" "hd p = CHR ''-'' \<or> isdigit (hd p)"
    "\<forall>x. (number_end x) \<longrightarrow> scan_number (p @ x) = Some x"
proof -
  define y where "y = scan_sign s"
  obtain r1 r2 where r: "scan_int y = Some r1" "scan_frac r1 = Some r2" "scan_exp r2 = Some r"
    using assms by (auto simp: scan_number_def y_def split: option.splits)
  obtain p1 where p1: "p1 \<noteq> []" "isdigit (hd p1)" "y = p1 @ r1"
    "\<forall>x. (x = [] \<or> \<not> isdigit (hd x)) \<longrightarrow> scan_int (p1 @ x) = Some x"
    using r(1) by (rule scan_int_split)
  obtain p2 where p2: "p2 = [] \<or> hd p2 = CHR ''.''" "r1 = p2 @ r2"
    "\<forall>x. (x = [] \<or> \<not> isdigit (hd x) \<and> hd x \<noteq> CHR ''.'') \<longrightarrow> scan_frac (p2 @ x) = Some x"
    using r(2) by (rule scan_frac_split)
  obtain p3 where p3: "p3 = [] \<or> is_e (hd p3)" "r2 = p3 @ r" "\<forall>x. (number_end x) \<longrightarrow> scan_exp (p3 @ x) = Some x"
    using r(3) by (rule scan_exp_split)
  define sg where "sg = (if s \<noteq> [] \<and> hd s = CHR ''-'' then ''-'' else [])"
  have s: "s = sg @ y" by (cases s) (auto simp: sg_def y_def scan_sign_def)
  have "hd p1 \<noteq> CHR ''-''" using p1(2) by (auto simp: isdigit_def)
  then have sign: "scan_sign (sg @ p1 @ z) = p1 @ z" for z
    using p1(1) by (auto simp: sg_def scan_sign_def)
  have "scan_number ((sg @ p1 @ p2 @ p3) @ x) = Some x" if x: "number_end x" for x
  proof -
    have c3: "p3 @ x = [] \<or> \<not> isdigit (hd (p3 @ x)) \<and> hd (p3 @ x) \<noteq> CHR ''.''"
      using p3(1) x by (cases p3) (auto simp: number_end_def is_e_def isdigit_def)
    then have c2: "p2 @ p3 @ x = [] \<or> \<not> isdigit (hd (p2 @ p3 @ x))"
      using p2(1) by (cases p2) (auto simp: isdigit_def)
    have "scan_int (p1 @ p2 @ p3 @ x) = Some (p2 @ p3 @ x)" by (rule p1(4) [rule_format, OF c2])
    moreover have "scan_frac (p2 @ p3 @ x) = Some (p3 @ x)" by (rule p2(3) [rule_format, OF c3])
    ultimately show ?thesis using p3(3) x by (simp add: scan_number_def sign)
  qed
  moreover have "hd (sg @ p1) = CHR ''-'' \<or> isdigit (hd (sg @ p1))" using p1(2) by (simp add: sg_def)
  ultimately show thesis
    using that [of "sg @ p1 @ p2 @ p3"] p1(1,3) p2(2) p3(2) s by (cases sg) auto
qed

text \<open>A token the printer may write as it is: the whole of it is a number.\<close>

definition number_token :: "string \<Rightarrow> bool" where
  "number_token t \<longleftrightarrow> scan_number t = Some []"

lemma number_token_head: "number_token t \<Longrightarrow> t \<noteq> [] \<and> (hd t = CHR ''-'' \<or> isdigit (hd t))"
  by (auto simp: number_token_def elim!: scan_number_split)

lemma ParseNumber_token:
  "number_token t \<Longrightarrow> ParseFiniteDouble t = Some d \<Longrightarrow> number_end x \<Longrightarrow>
     ParseNumber (t @ x) = Some ((d, t), x)"
  using number_token_head [of t]
  by (auto simp: number_token_def ParseNumber_def elim!: scan_number_split)

lemma ParseNumber_sound:
  assumes "ParseNumber s = Some ((d, t), x)"
  shows "number_token t \<and> ParseFiniteDouble t = Some d \<and> s = t @ x \<and> length x < length s"
proof -
  have sc: "scan_number s = Some x" and t: "t = take (length s - length x) s" "ParseFiniteDouble t = Some d"
    using assms by (auto simp: ParseNumber_def Let_def split: option.splits if_splits)
  from sc obtain p where "p \<noteq> []" "s = p @ x" "hd p = CHR ''-'' \<or> isdigit (hd p)"
    "\<forall>x. (number_end x) \<longrightarrow> scan_number (p @ x) = Some x"
    by (rule scan_number_split)
  then show ?thesis using t by (auto simp: number_token_def number_end_def)
qed

section \<open>Integers as tokens\<close>

lemma number_token_nat: "number_token (to_string n)" "n > 0 \<Longrightarrow> number_token (CHR ''-'' # to_string n)"
proof -
  define t where "t = to_string n"
  have d: "t \<noteq> []" "list_all isdigit t" "hd t = CHR ''0'' \<longleftrightarrow> n = 0"
    using to_string_digits [of n] to_string_head [of n] by (auto simp: t_def)
  have dw: "dropWhile isdigit t = []" using d(2) by (simp add: list_all_iff)
  have "scan_int t = Some []"
  proof (cases "n = 0")
    case True
    then show ?thesis using d by (cases t) (auto simp: t_def to_string.simps [of 0] scan_int_def)
  next
    case False
    then obtain c u where c: "t = c # u" "c \<noteq> CHR ''0''" "isdigit c" using d by (cases t) auto
    have "ord c \<noteq> 48" using c(2) ord_eq_iff [of c "CHR ''0''"] by simp
    then have "49 \<le> ord c" "ord c \<le> 57" using c(3) by (auto simp: isdigit_def)
    then show ?thesis using c dw by (simp add: scan_int_def)
  qed
  moreover have "scan_sign t = t" using d(1,2) by (cases t) (auto simp: scan_sign_def isdigit_def)
  ultimately show "number_token (to_string n)" "number_token (CHR ''-'' # to_string n)"
    by (simp_all add: number_token_def scan_number_def scan_frac_def scan_exp_def t_def scan_sign_def)
qed

lemma FormatInteger_number:
  assumes "\<bar>v\<bar> < 2 ^ 64"
  shows "number_token (FormatInteger v)" "ParseFiniteDouble (FormatInteger v) = Some (double_of_int v)"
    "IsPlainIntegerToken (FormatInteger v)"
proof -
  have n: "nat \<bar>v\<bar> < 2 ^ 64" using assms by (simp add: nat_less_iff)
  note fin = isfinite_double_of_int [OF assms]
  show "number_token (FormatInteger v)" by (simp add: FormatInteger_def number_token_nat)
  show "ParseFiniteDouble (FormatInteger v) = Some (double_of_int v)"
  proof (cases "v < 0")
    case True
    then show ?thesis using from_chars_nat(2) [of "nat (- v)"] n fin
      by (simp add: FormatInteger_def ParseFiniteDouble_def)
  next
    case False
    then show ?thesis using from_chars_nat(1) [of "nat v"] n fin
      by (simp add: FormatInteger_def ParseFiniteDouble_def)
  qed
  show "IsPlainIntegerToken (FormatInteger v)"
    using to_string_digits [of "nat v"] to_string_digits [of "nat (- v)"] to_string_no_marks [of "nat v"]
    by (cases "to_string (nat v)") (auto simp: FormatInteger_def IsPlainIntegerToken_def Let_def)
qed

section \<open>A numeral that is too small but not small enough\<close>

text \<open>
  \<open>2e-324\<close> is nearer to zero than to the smallest double, so \<open>std::from_chars\<close> reports it as out of
  range; its adjusted exponent is \<open>-324\<close>, which the test of \<open>UnderflowsToZero\<close> does not accept, so
  the numeral is refused although smaller ones are read as zero.
\<close>

lemma bit_length_ge: "2 ^ m \<le> n \<Longrightarrow> m < bit_length n"
proof -
  assume "2 ^ m \<le> n"
  also have "n < 2 ^ bit_length n" using bit_length_bounds [of n] by simp
  finally show ?thesis by simp
qed
lemma numeral_2e324: "numeral_magnitude ''2e-324'' = 1 / (5 * 10 ^ 323)" "numeral_sign ''2e-324'' = False"
  by (simp_all add: numeral_magnitude_def int_digits_def frac_digits_def significand_def exponent_part_def strip_sign_def numeral_sign_def is_e_def dec_value_def pow10_def)
lemma quotient_of_inverse: "b > 0 \<Longrightarrow> quotient_of (1 / of_int b) = (1, b)"
  using quotient_of_Fract [of 1 b] by (simp add: Fract_of_int_quotient normalize_def Let_def)

lemma round_half_even_small: "0 \<le> q \<Longrightarrow> q < 1 / 2 \<Longrightarrow> round_half_even q = 0"
proof -
  assume q: "0 \<le> q" "q < 1 / 2"
  then have "\<lfloor>q\<rfloor> = 0" by (simp add: floor_eq_iff)
  with q show ?thesis by (simp add: round_half_even_def)
qed

lemma round_2e324: "round_magnitude False (1 / of_int (5 * 10 ^ 323)) = Some (Finite False 0 (- 1074))"
proof -
  define b :: int where "b = 5 * 10 ^ 323"
  have "1074 < bit_length (nat b)" unfolding b_def by (rule bit_length_ge) simp
  moreover have "quotient_of (1 / of_int b) = (1, b)" by (rule quotient_of_inverse) (simp add: b_def)
  ultimately have "floor_log2 (1 / of_int b) - 52 \<le> - 1074"
    by (simp add: floor_log2_def bit_length.simps [of "Suc 0"] bit_length.simps [of 0] Let_def)
  then have e: "max (- 1074) (floor_log2 (1 / of_int b) - 52) = - 1074" by simp
  have "round_half_even (1 / of_int b / pow2 (- 1074)) = 0"
    by (rule round_half_even_small) (simp_all add: pow2_def b_def)
  moreover have "b > 0" by (simp add: b_def)
  ultimately have "round_magnitude False (1 / of_int b) = Some (Finite False 0 (- 1074))"
    by (simp add: round_magnitude_def e)
  then show ?thesis by (simp only: b_def)
qed

lemma ParseFiniteDouble_2e324: "ParseFiniteDouble ''2e-324'' = None"
proof -
  have "from_chars_double ''2e-324'' = OutOfRange"
    using round_2e324 by (simp add: from_chars_double_def numeral_2e324)
  moreover have "\<not> UnderflowsToZero ''2e-324''"
    by (simp add: UnderflowsToZero_def AdjustedDecimalExponent_def is_e_def capped_exponent_def)
  ultimately show ?thesis by (simp add: ParseFiniteDouble_def)
qed

end
