(* ===== verification/Json.thy ===== *)
theory Json
  imports JsonText StdMap
begin

text \<open>
  The JSON values of \<open>ipc/include/azookey/ipc/Json.h\<close> and the parser and printer of
  \<open>ipc/src/Json.cpp\<close>.

  A \<open>Value\<close> is the datatype \<open>json\<close>; an \<open>Object\<close> is the ordered map of the standard library.
  The parser threads the rest of the text and the contents of \<open>raw_member_\<close>; its first argument is
  the member to capture, \<^term>\<open>None\<close> for the constructor that captures nothing. The three mutually
  recursive functions of the class call each other on shorter and shorter rests, so they are given
  fuel, and \<open>ParseValue_fuel\<close> shows that the fuel of \<open>ParseDocument\<close> is never what stops them. The
  member functions \<open>ParseObject\<close> and \<open>ParseArray\<close> appear as their loops; what they do before the
  loop is part of the branches of \<open>ParseValue\<close> that call them.
\<close>

definition kMaxJsonInputBytes :: nat where "kMaxJsonInputBytes = 1024 * 1024"

definition kMaxJsonNestDepth :: nat where "kMaxJsonNestDepth = 64"

datatype json =
    JNull
  | JBool bool
  | JNumber double string
  | JString string
  | JArray "json list"
  | JObject "(string \<times> json) list"

text \<open>The converting constructors: of a \<open>double\<close>, and of an integer.\<close>

definition Value_double :: "double \<Rightarrow> json" where
  "Value_double d = JNumber d []"

definition Value_int :: "int \<Rightarrow> json" where
  "Value_int v = JNumber (double_of_int v) (FormatInteger v)"

section \<open>The parser\<close>

definition is_space :: "char \<Rightarrow> bool" where
  "is_space c \<longleftrightarrow> c = CHR '' '' \<or> c = CHR 0x09 \<or> c = CHR 0x0a \<or> c = CHR 0x0d"

definition SkipWhitespace :: "string \<Rightarrow> string" where
  "SkipWhitespace s = dropWhile is_space s"

definition ParseBool :: "string \<Rightarrow> (json \<times> string) option" where
  "ParseBool s =
     (if take 4 s = ''true'' then Some (JBool True, drop 4 s)
      else if take 5 s = ''false'' then Some (JBool False, drop 5 s)
      else None)"

definition ParseNull :: "string \<Rightarrow> (json \<times> string) option" where
  "ParseNull s = (if take 4 s = ''null'' then Some (JNull, drop 4 s) else None)"

text \<open>The branches of \<open>ParseValue\<close> for values without members.\<close>

definition ParseScalar :: "string \<Rightarrow> (json \<times> string) option" where
  "ParseScalar s =
     (if hd s = CHR 0x22 then map_option (\<lambda>(t, rest). (JString t, rest)) (ParseString s)
      else if hd s = CHR ''t'' \<or> hd s = CHR ''f'' then ParseBool s
      else if hd s = CHR ''n'' then ParseNull s
      else if hd s = CHR ''-'' \<or> isdigit (hd s) then
        map_option (\<lambda>((d, token), rest). (JNumber d token, rest)) (ParseNumber s)
      else None)"

text \<open>Whether the text goes on with a given character.\<close>

definition at_char :: "char \<Rightarrow> string \<Rightarrow> bool" where
  "at_char c s \<longleftrightarrow> s \<noteq> [] \<and> hd s = c"

text \<open>
  The bodies of the three member functions, with the functions they call as arguments.
\<close>

type_synonym parsed = "(json \<times> string \<times> string) option"

definition value_body ::
  "(nat \<Rightarrow> (string \<times> json) list \<Rightarrow> string \<Rightarrow> string \<Rightarrow> parsed) \<Rightarrow>
   (nat \<Rightarrow> json list \<Rightarrow> string \<Rightarrow> string \<Rightarrow> parsed) \<Rightarrow> nat \<Rightarrow> string \<Rightarrow> string \<Rightarrow> parsed" where
  "value_body object_loop array_loop depth text raw =
     (let s = SkipWhitespace text in
      if s = [] then None
      else if hd s = CHR ''{'' then
        if depth + 1 > kMaxJsonNestDepth then None
        else let s1 = SkipWhitespace (tl s) in
             if at_char (CHR ''}'') s1 then Some (JObject [], tl s1, raw)
             else object_loop (depth + 1) [] s1 raw
      else if hd s = CHR ''['' then
        if depth + 1 > kMaxJsonNestDepth then None
        else let s1 = SkipWhitespace (tl s) in
             if at_char (CHR '']'') s1 then Some (JArray [], tl s1, raw)
             else array_loop (depth + 1) [] s1 raw
      else map_option (\<lambda>(v, rest). (v, rest, raw)) (ParseScalar s))"

definition object_body ::
  "string option \<Rightarrow> (nat \<Rightarrow> string \<Rightarrow> string \<Rightarrow> parsed) \<Rightarrow>
   (nat \<Rightarrow> (string \<times> json) list \<Rightarrow> string \<Rightarrow> string \<Rightarrow> parsed) \<Rightarrow>
   nat \<Rightarrow> (string \<times> json) list \<Rightarrow> string \<Rightarrow> string \<Rightarrow> parsed" where
  "object_body member parse_value continue depth obj s raw =
     (case ParseString (SkipWhitespace s) of
        None \<Rightarrow> None
      | Some (key, s1) \<Rightarrow>
          let s2 = SkipWhitespace s1 in
          if \<not> at_char (CHR '':'') s2 then None
          else let value_start = SkipWhitespace (tl s2) in
          (case parse_value depth value_start raw of
             None \<Rightarrow> None
           | Some (val, s3, raw1) \<Rightarrow>
               let raw2 = (if member = Some key \<and> depth = 1 \<and> raw1 = []
                           then take (length value_start - length s3) value_start else raw1);
                   obj1 = map_emplace key val obj;
                   s4 = SkipWhitespace s3
               in if at_char (CHR '','') s4 then continue depth obj1 (tl s4) raw2
                  else if at_char (CHR ''}'') s4 then Some (JObject obj1, tl s4, raw2)
                  else None))"

definition array_body ::
  "(nat \<Rightarrow> string \<Rightarrow> string \<Rightarrow> parsed) \<Rightarrow> (nat \<Rightarrow> json list \<Rightarrow> string \<Rightarrow> string \<Rightarrow> parsed) \<Rightarrow>
   nat \<Rightarrow> json list \<Rightarrow> string \<Rightarrow> string \<Rightarrow> parsed" where
  "array_body parse_value continue depth arr s raw =
     (case parse_value depth s raw of
        None \<Rightarrow> None
      | Some (val, s1, raw1) \<Rightarrow>
          let arr1 = arr @ [val];
              s2 = SkipWhitespace s1
          in if at_char (CHR '','') s2 then continue depth arr1 (tl s2) raw1
             else if at_char (CHR '']'') s2 then Some (JArray arr1, tl s2, raw1)
             else None)"

function (sequential) ParseValue :: "string option \<Rightarrow> nat \<Rightarrow> nat \<Rightarrow> string \<Rightarrow> string \<Rightarrow> parsed"
  and ParseObject :: "string option \<Rightarrow> nat \<Rightarrow> nat \<Rightarrow> (string \<times> json) list \<Rightarrow> string \<Rightarrow> string \<Rightarrow> parsed"
  and ParseArray :: "string option \<Rightarrow> nat \<Rightarrow> nat \<Rightarrow> json list \<Rightarrow> string \<Rightarrow> string \<Rightarrow> parsed" where
  "ParseValue member 0 depth s raw = None"
| "ParseValue member (Suc fuel) depth s raw =
     value_body (\<lambda>d obj t r. ParseObject member fuel d obj t r) (\<lambda>d arr t r. ParseArray member fuel d arr t r)
       depth s raw"
| "ParseObject member 0 depth obj s raw = None"
| "ParseObject member (Suc fuel) depth obj s raw =
     object_body member (\<lambda>d t r. ParseValue member fuel d t r) (\<lambda>d o1 t r. ParseObject member fuel d o1 t r)
       depth obj s raw"
| "ParseArray member 0 depth arr s raw = None"
| "ParseArray member (Suc fuel) depth arr s raw =
     array_body (\<lambda>d t r. ParseValue member fuel d t r) (\<lambda>d a1 t r. ParseArray member fuel d a1 t r)
       depth arr s raw"
  by pat_completeness auto
termination
  by (relation "measure (\<lambda>x. case x of Inl (_, f, _) \<Rightarrow> f | Inr (Inl (_, f, _)) \<Rightarrow> f | Inr (Inr (_, f, _)) \<Rightarrow> f)") auto

declare ParseValue.simps(2) [simp del] ParseObject.simps(2) [simp del] ParseArray.simps(2) [simp del]

definition ParseDocument :: "string option \<Rightarrow> string \<Rightarrow> (json \<times> string) option" where
  "ParseDocument member s =
     (if length s > kMaxJsonInputBytes then None
      else case ParseValue member (2 * length s + 1) 0 (SkipWhitespace s) [] of
             None \<Rightarrow> None
           | Some (v, rest, raw) \<Rightarrow> if SkipWhitespace rest \<noteq> [] then None else Some (v, raw))"

definition Parse :: "string \<Rightarrow> json option" where
  "Parse s = map_option fst (ParseDocument None s)"

text \<open>The result and the final contents of the \<open>raw_member\<close> argument.\<close>

definition ParseWithRawMember :: "string \<Rightarrow> string \<Rightarrow> json option \<times> string" where
  "ParseWithRawMember s member =
     (case ParseDocument (Some member) s of None \<Rightarrow> (None, []) | Some (v, raw) \<Rightarrow> (Some v, raw))"

section \<open>Access to members\<close>

fun Find :: "json \<Rightarrow> string \<Rightarrow> json option" where
  "Find (JObject obj) key = map_of obj key"
| "Find _ key = None"

definition GetString :: "json \<Rightarrow> string \<Rightarrow> string option" where
  "GetString v key = (case Find v key of Some (JString s) \<Rightarrow> Some s | _ \<Rightarrow> None)"

definition GetNumber :: "json \<Rightarrow> string \<Rightarrow> double option" where
  "GetNumber v key = (case Find v key of Some (JNumber d _) \<Rightarrow> Some d | _ \<Rightarrow> None)"

text \<open>The integer a plain token denotes, which \<open>std::stoll\<close> returns or rejects as out of range.\<close>

definition plain_integer :: "string \<Rightarrow> int" where
  "plain_integer token =
     (if hd token = CHR ''-'' then - int (dec_value (tl token)) else int (dec_value token))"

definition GetInt :: "json \<Rightarrow> string \<Rightarrow> int option" where
  "GetInt v key =
     (case Find v key of
        Some (JNumber d token) \<Rightarrow>
          if IsPlainIntegerToken token then
            let n = plain_integer token in if - (2 ^ 63) \<le> n \<and> n < 2 ^ 63 then Some n else None
          else if \<not> isfinite d \<or> \<not> no_fraction d \<or> double_less d (- (2 ^ 63)) \<or> double_ge d (2 ^ 63) then None
          else Some \<lfloor>rat_of_double d\<rfloor>
      | _ \<Rightarrow> None)"

definition GetUInt :: "json \<Rightarrow> string \<Rightarrow> nat option" where
  "GetUInt v key =
     (case Find v key of
        Some (JNumber d token) \<Rightarrow>
          if IsPlainIntegerToken token \<and> hd token \<noteq> CHR ''-'' then
            let n = dec_value token in if n < 2 ^ 64 then Some n else None
          else if \<not> isfinite d \<or> double_less d 0 \<or> \<not> no_fraction d \<or> double_ge d (2 ^ 64) then None
          else Some (nat \<lfloor>rat_of_double d\<rfloor>)
      | _ \<Rightarrow> None)"

definition GetBool :: "json \<Rightarrow> string \<Rightarrow> bool option" where
  "GetBool v key = (case Find v key of Some (JBool b) \<Rightarrow> Some b | _ \<Rightarrow> None)"

definition GetArray :: "json \<Rightarrow> string \<Rightarrow> json list option" where
  "GetArray v key = (case Find v key of Some (JArray a) \<Rightarrow> Some a | _ \<Rightarrow> None)"

definition FindObject :: "json \<Rightarrow> string \<Rightarrow> (string \<times> json) list option" where
  "FindObject v key = (case Find v key of Some (JObject obj) \<Rightarrow> Some obj | _ \<Rightarrow> None)"

section \<open>The printer\<close>

definition quoted :: "string \<Rightarrow> string" where
  "quoted s = CHR 0x22 # EscapeString s @ [CHR 0x22]"

fun Stringify :: "json \<Rightarrow> string"
  and stringify_elements :: "bool \<Rightarrow> json list \<Rightarrow> string"
  and stringify_members :: "bool \<Rightarrow> (string \<times> json) list \<Rightarrow> string" where
  "Stringify JNull = ''null''"
| "Stringify (JBool b) = (if b then ''true'' else ''false'')"
| "Stringify (JNumber d token) = StringifyNumber d token"
| "Stringify (JString s) = quoted s"
| "Stringify (JArray vs) = CHR ''['' # stringify_elements True vs @ '']''"
| "Stringify (JObject ms) = CHR ''{'' # stringify_members True ms @ ''}''"
| "stringify_elements first [] = []"
| "stringify_elements first (v # vs) =
     (if first then [] else '','') @ Stringify v @ stringify_elements False vs"
| "stringify_members first [] = []"
| "stringify_members first ((k, v) # ms) =
     (if first then [] else '','') @ quoted k @ '':'' @ Stringify v @ stringify_members False ms"


section \<open>Well-formed values\<close>

text \<open>
  What the parser only ever returns: numbers carry a token of the grammar and the value that token
  denotes, text is valid UTF-8, objects are strictly sorted by key.
\<close>

fun json_wf :: "json \<Rightarrow> bool" where
  "json_wf (JNumber d token) \<longleftrightarrow> number_token token \<and> ParseFiniteDouble token = Some d"
| "json_wf (JString s) \<longleftrightarrow> valid_utf8 s"
| "json_wf (JArray vs) \<longleftrightarrow> (\<forall>v \<in> set vs. json_wf v)"
| "json_wf (JObject ms) \<longleftrightarrow> map_wf ms \<and> (\<forall>(k, v) \<in> set ms. valid_utf8 k \<and> json_wf v)"
| "json_wf _ \<longleftrightarrow> True"

text \<open>The number of brackets around the innermost value.\<close>

fun json_depth :: "json \<Rightarrow> nat" where
  "json_depth (JArray vs) = Suc (foldr max (map json_depth vs) 0)"
| "json_depth (JObject ms) = Suc (foldr max (map (\<lambda>(k, v). json_depth v) ms) 0)"
| "json_depth _ = 0"

lemma foldr_max_le: "foldr max ns 0 \<le> k \<longleftrightarrow> (\<forall>n \<in> set ns. n \<le> (k::nat))"
  by (induction ns) auto

lemma depth_array: "json_depth (JArray vs) \<le> k \<longleftrightarrow> 0 < k \<and> (\<forall>v \<in> set vs. json_depth v < k)"
  by (cases k) (auto simp: foldr_max_le less_Suc_eq_le)

lemma depth_object: "json_depth (JObject ms) \<le> k \<longleftrightarrow> 0 < k \<and> (\<forall>(a, v) \<in> set ms. json_depth v < k)"
  by (cases k) (auto simp: foldr_max_le less_Suc_eq_le)

lemma Value_int_wf: "\<bar>v\<bar> < 2 ^ 64 \<Longrightarrow> json_wf (Value_int v)"
  by (simp add: Value_int_def FormatInteger_number)

section \<open>What the parser returns\<close>

lemma SkipWhitespace_length: "length (SkipWhitespace s) \<le> length s"
  by (simp add: SkipWhitespace_def length_dropWhile_le)

lemma SkipWhitespace_tl: "at_char c (SkipWhitespace s) \<Longrightarrow> length (tl (SkipWhitespace s)) < length s"
  using SkipWhitespace_length [of s] by (cases "SkipWhitespace s") (auto simp: at_char_def)

lemma ParseScalar_sound:
  assumes "ParseScalar s = Some (v, x)"
  shows "length x < length s \<and> json_wf v \<and> json_depth v = 0"
proof -
  have t: "take n s = u \<Longrightarrow> length u \<le> length s" for n u by auto
  have "take 4 s = ''true'' \<Longrightarrow> 4 \<le> length s" "take 5 s = ''false'' \<Longrightarrow> 5 \<le> length s"
    "take 4 s = ''null'' \<Longrightarrow> 4 \<le> length s"
    using t [of 4 "''true''"] t [of 5 "''false''"] t [of 4 "''null''"] by simp_all
  then show ?thesis using assms
    by (auto simp: ParseScalar_def ParseBool_def ParseNull_def dest: ParseString_length ParseString_valid
        ParseNumber_sound split: if_splits)
qed

text \<open>
  One induction over the fuel shows what a successful call returns: less text, a well-formed value
  within the nesting limit, and a changed \<open>raw_member\<close> only for the members of the outermost object.
\<close>

definition value_post :: "nat \<Rightarrow> string \<Rightarrow> string \<Rightarrow> json \<times> string \<times> string \<Rightarrow> bool" where
  "value_post d s raw res =
     (case res of (v, x, raw') \<Rightarrow>
        length x < length s \<and> json_wf v \<and> d + json_depth v \<le> max d kMaxJsonNestDepth \<and> (d \<noteq> 0 \<longrightarrow> raw' = raw))"

definition loop_post :: "nat \<Rightarrow> string \<Rightarrow> string \<Rightarrow> json \<times> string \<times> string \<Rightarrow> bool" where
  "loop_post d s raw res =
     (case res of (v, x, raw') \<Rightarrow>
        length x < length s \<and> json_wf v \<and> d + json_depth v \<le> Suc kMaxJsonNestDepth \<and> (d \<noteq> 1 \<longrightarrow> raw' = raw))"

definition values_ok :: "nat \<Rightarrow> json list \<Rightarrow> bool" where
  "values_ok d vs \<longleftrightarrow> 0 < d \<and> d \<le> kMaxJsonNestDepth \<and> (\<forall>v \<in> set vs. json_wf v \<and> d + json_depth v \<le> kMaxJsonNestDepth)"

definition members_ok :: "nat \<Rightarrow> (string \<times> json) list \<Rightarrow> bool" where
  "members_ok d ms \<longleftrightarrow> map_wf ms \<and> (\<forall>k \<in> fst ` set ms. valid_utf8 k) \<and> values_ok d (map snd ms)"

lemma members_ok_emplace:
  "members_ok d ms \<Longrightarrow> valid_utf8 k \<Longrightarrow> json_wf v \<Longrightarrow> d + json_depth v \<le> kMaxJsonNestDepth \<Longrightarrow>
     members_ok d (map_emplace k v ms)"
  using set_map_emplace [of k v ms]
  by (force simp: members_ok_def values_ok_def map_wf_emplace fst_set_emplace)

lemma array_closed: "values_ok d vs \<Longrightarrow> json_wf (JArray vs) \<and> d + json_depth (JArray vs) \<le> Suc kMaxJsonNestDepth"
  using depth_array [of vs "Suc kMaxJsonNestDepth - d"]
  by (fastforce simp: values_ok_def le_diff_conv2 simp del: json_depth.simps)

lemma object_closed:
  "members_ok d ms \<Longrightarrow> json_wf (JObject ms) \<and> d + json_depth (JObject ms) \<le> Suc kMaxJsonNestDepth"
  using depth_object [of ms "Suc kMaxJsonNestDepth - d"]
  by (fastforce simp: members_ok_def values_ok_def le_diff_conv2 simp del: json_depth.simps)

lemma value_body_post:
  assumes obj: "\<And>d ms s raw res. ol d ms s raw = Some res \<Longrightarrow> members_ok d ms \<Longrightarrow> loop_post d s raw res"
    and arr: "\<And>d vs s raw res. al d vs s raw = Some res \<Longrightarrow> values_ok d vs \<Longrightarrow> loop_post d s raw res"
    and res: "value_body ol al d s raw = Some res"
  shows "value_post d s raw res"
proof -
  define u where "u = SkipWhitespace s"
  define w where "w = SkipWhitespace (tl u)"
  have ne: "u \<noteq> []" using res by (auto simp: value_body_def u_def [symmetric] Let_def)
  have "length u \<le> length s" "length w \<le> length (tl u)"
    by (simp_all only: u_def w_def SkipWhitespace_length)
  with ne have u: "u \<noteq> []" "length u \<le> length s" "length w < length s" by (cases u; simp)+
  have w: "at_char c w \<Longrightarrow> length (tl w) < length s" for c using u(3) by simp
  consider (object) "hd u = CHR ''{''" | (array) "hd u = CHR ''[''" | (scalar) "hd u \<noteq> CHR ''{''" "hd u \<noteq> CHR ''[''"
    by blast
  then show ?thesis
  proof cases
    case object
    then have d: "d < kMaxJsonNestDepth" using res u(1)
      by (auto simp: value_body_def u_def [symmetric] Let_def split: if_splits)
    then have "members_ok (Suc d) []" by (simp add: members_ok_def values_ok_def map_wf_def)
    then show ?thesis
      using object res u d obj [of "Suc d" "[]" w raw res]
      by (auto simp: value_body_def u_def [symmetric] w_def [symmetric] Let_def value_post_def loop_post_def map_wf_def
          split: if_splits)
  next
    case array
    then have d: "d < kMaxJsonNestDepth" using res u(1)
      by (auto simp: value_body_def u_def [symmetric] Let_def split: if_splits)
    then have "values_ok (Suc d) []" by (simp add: values_ok_def)
    then show ?thesis
      using array res u d arr [of "Suc d" "[]" w raw res]
      by (auto simp: value_body_def u_def [symmetric] w_def [symmetric] Let_def value_post_def loop_post_def
          split: if_splits)
  next
    case scalar
    then show ?thesis using res u
      by (auto simp: value_body_def u_def [symmetric] Let_def value_post_def dest!: ParseScalar_sound)
  qed
qed

lemma object_body_post:
  assumes val: "\<And>d s raw res. pv d s raw = Some res \<Longrightarrow> value_post d s raw res"
    and next_: "\<And>d ms s raw res. ol d ms s raw = Some res \<Longrightarrow> members_ok d ms \<Longrightarrow> loop_post d s raw res"
    and res: "object_body member pv ol d ms s raw = Some res" and ms: "members_ok d ms"
  shows "loop_post d s raw res"
proof -
  have d: "0 < d" "d \<le> kMaxJsonNestDepth" using ms by (simp_all add: members_ok_def values_ok_def)
  obtain key s1 where key: "ParseString (SkipWhitespace s) = Some (key, s1)"
    using res by (cases "ParseString (SkipWhitespace s)") (auto simp: object_body_def)
  define s2 where "s2 = SkipWhitespace s1"
  define vs where "vs = SkipWhitespace (tl s2)"
  obtain v s3 raw1 where v: "at_char (CHR '':'') s2" "pv d vs raw = Some (v, s3, raw1)"
    using res by (auto simp: object_body_def key s2_def vs_def Let_def split: if_splits option.splits)
  define s4 where "s4 = SkipWhitespace s3"
  define raw2 where "raw2 = (if member = Some key \<and> d = 1 \<and> raw1 = [] then take (length vs - length s3) vs else raw1)"
  have post: "value_post d vs raw (v, s3, raw1)" using v(2) by (rule val)
  have len: "length s4 < length s"
    using post ParseString_length [OF key] SkipWhitespace_length [of s] SkipWhitespace_tl [of _ s1]
      SkipWhitespace_length [of "tl s2"] SkipWhitespace_length [of s3] v(1)
    by (fastforce simp: value_post_def vs_def s2_def s4_def)
  have ok: "members_ok d (map_emplace key v ms)"
    using ms post ParseString_valid [OF key] d by (auto intro!: members_ok_emplace simp: value_post_def max_absorb2)
  have raw: "d \<noteq> 1 \<Longrightarrow> raw2 = raw" if "d \<noteq> 0" using post that by (simp add: raw2_def value_post_def)
  have r: "(if at_char (CHR '','') s4 then ol d (map_emplace key v ms) (tl s4) raw2
      else if at_char (CHR ''}'') s4 then Some (JObject (map_emplace key v ms), tl s4, raw2) else None) = Some res"
    using res v by (simp add: object_body_def key s2_def [symmetric] vs_def [symmetric] s4_def [symmetric]
        raw2_def [symmetric] Let_def del: One_nat_def split del: if_split cong del: if_weak_cong)
  show ?thesis
  proof (cases "at_char (CHR '','') s4")
    case True
    then have "loop_post d (tl s4) raw2 res" using r next_ ok by simp
    then show ?thesis using len raw d(1) by (auto simp: loop_post_def)
  next
    case False
    then have "res = (JObject (map_emplace key v ms), tl s4, raw2)" using r by (simp split: if_splits)
    then show ?thesis using len raw d(1) object_closed [OF ok] by (auto simp: loop_post_def simp del: json_depth.simps json_wf.simps)
  qed
qed

lemma array_body_post:
  assumes val: "\<And>d s raw res. pv d s raw = Some res \<Longrightarrow> value_post d s raw res"
    and next_: "\<And>d vs s raw res. al d vs s raw = Some res \<Longrightarrow> values_ok d vs \<Longrightarrow> loop_post d s raw res"
    and res: "array_body pv al d vs s raw = Some res" and vs: "values_ok d vs"
  shows "loop_post d s raw res"
proof -
  have d: "0 < d" "d \<le> kMaxJsonNestDepth" using vs by (simp_all add: values_ok_def)
  obtain v s1 raw1 where v: "pv d s raw = Some (v, s1, raw1)"
    using res by (cases "pv d s raw") (auto simp: array_body_def)
  define s2 where "s2 = SkipWhitespace s1"
  have post: "value_post d s raw (v, s1, raw1)" using v by (rule val)
  have len: "length s2 < length s"
    using post SkipWhitespace_length [of s1] by (simp add: value_post_def s2_def)
  have ok: "values_ok d (vs @ [v])" using vs post d by (auto simp: value_post_def max_absorb2 values_ok_def)
  have r: "(if at_char (CHR '','') s2 then al d (vs @ [v]) (tl s2) raw1
      else if at_char (CHR '']'') s2 then Some (JArray (vs @ [v]), tl s2, raw1) else None) = Some res"
    using res by (simp add: array_body_def s2_def v Let_def split del: if_split cong del: if_weak_cong)
  have raw: "raw1 = raw" using post d(1) by (simp add: value_post_def)
  show ?thesis
  proof (cases "at_char (CHR '','') s2")
    case True
    then have "loop_post d (tl s2) raw1 res" using r next_ ok by simp
    then show ?thesis using len raw by (auto simp: loop_post_def)
  next
    case False
    then have "res = (JArray (vs @ [v]), tl s2, raw1)" using r by (simp split: if_splits)
    then show ?thesis using len raw array_closed [OF ok] by (auto simp: loop_post_def simp del: json_depth.simps json_wf.simps)
  qed
qed

lemma parse_post:
  "(ParseValue member fuel d s raw = Some res \<longrightarrow> value_post d s raw res) \<and>
   (ParseObject member fuel d ms s raw = Some res \<longrightarrow> members_ok d ms \<longrightarrow> loop_post d s raw res) \<and>
   (ParseArray member fuel d vs s raw = Some res \<longrightarrow> values_ok d vs \<longrightarrow> loop_post d s raw res)"
proof (induction fuel arbitrary: d s raw res ms vs)
  case (Suc fuel)
  note IH = Suc.IH [THEN conjunct1, rule_format] Suc.IH [THEN conjunct2, THEN conjunct1, rule_format]
    Suc.IH [THEN conjunct2, THEN conjunct2, rule_format]
  show ?case
    unfolding ParseValue.simps ParseObject.simps ParseArray.simps
    by (intro conjI impI; (elim value_body_post [rotated 2] object_body_post [rotated 2] array_body_post [rotated 2])?)
      (auto intro: IH)
qed simp

lemmas ParseValue_post = parse_post [THEN conjunct1, rule_format]

section \<open>The fuel is enough\<close>

lemma value_body_cong:
  assumes "\<And>d ms t r. length t < length s \<Longrightarrow> ol d ms t r = ol' d ms t r"
    and "\<And>d vs t r. length t < length s \<Longrightarrow> al d vs t r = al' d vs t r"
  shows "value_body ol al d s raw = value_body ol' al' d s raw"
proof -
  define u where "u = SkipWhitespace s"
  have "u \<noteq> [] \<Longrightarrow> length (SkipWhitespace (tl u)) < length s"
    using SkipWhitespace_length [of s] SkipWhitespace_length [of "tl u"] by (cases u) (auto simp: u_def)
  then show ?thesis using assms by (simp add: value_body_def u_def [symmetric] Let_def)
qed

lemma object_body_cong:
  assumes "\<And>d t r. length t < length s \<Longrightarrow> pv d t r = pv' d t r"
    and "\<And>d ms t r. length t < length s \<Longrightarrow> ol d ms t r = ol' d ms t r"
    and "\<And>d t r v x r'. pv d t r = Some (v, x, r') \<Longrightarrow> length x < length t"
  shows "object_body member pv ol d ms s raw = object_body member pv' ol' d ms s raw"
proof (cases "ParseString (SkipWhitespace s)")
  case (Some res)
  then obtain key s1 where key: "ParseString (SkipWhitespace s) = Some (key, s1)" by (cases res) simp
  define vs where "vs = SkipWhitespace (tl (SkipWhitespace s1))"
  have vs: "length vs < length s" 
    using ParseString_length [OF key] SkipWhitespace_length [of s] SkipWhitespace_length [of s1]
      SkipWhitespace_length [of "tl (SkipWhitespace s1)"] by (simp add: vs_def)
  then have pv: "pv' d vs raw = pv d vs raw" using assms(1) by simp
  show ?thesis
  proof (cases "pv d vs raw")
    case None
    then show ?thesis using key pv by (simp add: object_body_def vs_def [symmetric] Let_def)
  next
    case (Some res)
    then obtain v s3 raw1 where v: "pv d vs raw = Some (v, s3, raw1)" by (cases res) auto
    then have "length (tl (SkipWhitespace s3)) < length s"
      using assms(3) [OF v] SkipWhitespace_length [of s3] vs by simp
    then show ?thesis using key pv v assms(2) by (simp add: object_body_def vs_def [symmetric] Let_def)
  qed
qed (simp add: object_body_def)

lemma array_body_cong:
  assumes "\<And>d r. pv d s r = pv' d s r"
    and "\<And>d ms t r. length t < length s \<Longrightarrow> al d ms t r = al' d ms t r"
    and "\<And>d t r v x r'. pv d t r = Some (v, x, r') \<Longrightarrow> length x < length t"
  shows "array_body pv al d vs s raw = array_body pv' al' d vs s raw"
proof (cases "pv d s raw")
  case (Some res)
  then obtain v s1 raw1 where v: "pv d s raw = Some (v, s1, raw1)" by (cases res) auto
  then have "length (tl (SkipWhitespace s1)) < length s"
    using assms(3) [OF v] SkipWhitespace_length [of s1] by simp
  then show ?thesis using v assms(1) [of d raw] assms(2) by (simp add: array_body_def Let_def)
qed (use assms(1) [of d raw] in \<open>simp add: array_body_def\<close>)

lemma ParseValue_length: "ParseValue member fuel d s raw = Some (v, x, r) \<Longrightarrow> length x < length s"
  using ParseValue_post [of member fuel d s raw "(v, x, r)"] by (simp add: value_post_def)

lemma fuel_step:
  "(2 * length s + 1 \<le> fuel \<longrightarrow> ParseValue member (Suc fuel) d s raw = ParseValue member fuel d s raw) \<and>
   (2 * length s + 2 \<le> fuel \<longrightarrow> ParseObject member (Suc fuel) d ms s raw = ParseObject member fuel d ms s raw) \<and>
   (2 * length s + 2 \<le> fuel \<longrightarrow> ParseArray member (Suc fuel) d vs s raw = ParseArray member fuel d vs s raw)"
proof (induction fuel arbitrary: d s raw ms vs)
  case (Suc fuel)
  note IH = Suc.IH [THEN conjunct1, rule_format] Suc.IH [THEN conjunct2, THEN conjunct1, rule_format]
    Suc.IH [THEN conjunct2, THEN conjunct2, rule_format]
  show ?case
  proof (intro conjI impI)
    assume "2 * length s + 1 \<le> Suc fuel"
    then show "ParseValue member (Suc (Suc fuel)) d s raw = ParseValue member (Suc fuel) d s raw"
      by (subst (1 2) ParseValue.simps(2)) (intro value_body_cong IH; simp)
  next
    assume "2 * length s + 2 \<le> Suc fuel"
    then show "ParseObject member (Suc (Suc fuel)) d ms s raw = ParseObject member (Suc fuel) d ms s raw"
      by (subst (1 2) ParseObject.simps(2)) (intro object_body_cong IH; (erule ParseValue_length | simp))
  next
    assume "2 * length s + 2 \<le> Suc fuel"
    then show "ParseArray member (Suc (Suc fuel)) d vs s raw = ParseArray member (Suc fuel) d vs s raw"
      by (subst (1 2) ParseArray.simps(2)) (intro array_body_cong IH; (erule ParseValue_length | simp))
  qed
qed simp

lemma ParseValue_fuel:
  "2 * length s + 1 \<le> fuel \<Longrightarrow>
     ParseValue member fuel d s raw = ParseValue member (2 * length s + 1) d s raw"
  by (induction rule: dec_induct) (simp_all add: fuel_step)

section \<open>Printed values read back\<close>

text \<open>What the parser has captured after the members of the outermost object.\<close>

definition raw_members :: "string option \<Rightarrow> (string \<times> json) list \<Rightarrow> string \<Rightarrow> string" where
  "raw_members member ms raw =
     foldl (\<lambda>r (k, v). if member = Some k \<and> r = [] then Stringify v else r) raw ms"

definition raw_of :: "string option \<Rightarrow> nat \<Rightarrow> json \<Rightarrow> string \<Rightarrow> string" where
  "raw_of member d v raw =
     (case v of JObject ms \<Rightarrow> if d = 0 then raw_members member ms raw else raw | _ \<Rightarrow> raw)"

lemma raw_of_nested: "d \<noteq> 0 \<Longrightarrow> raw_of member d v raw = raw"
  by (simp add: raw_of_def split: json.splits)

text \<open>A text that starts neither with white space nor with a closing bracket.\<close>

definition starts_value :: "string \<Rightarrow> bool" where
  "starts_value s \<longleftrightarrow> s \<noteq> [] \<and> \<not> is_space (hd s) \<and> hd s \<noteq> CHR '']'' \<and> hd s \<noteq> CHR ''}''"

lemma starts_value_skip:
  "starts_value s \<Longrightarrow> SkipWhitespace (s @ x) = s @ x"
  by (cases s) (simp_all add: starts_value_def SkipWhitespace_def)

lemma Stringify_number: "number_token token \<Longrightarrow> StringifyNumber d token = token"
  by (auto simp: StringifyNumber_def dest: number_token_head)

lemma Stringify_starts: "json_wf v \<Longrightarrow> starts_value (Stringify v)"
proof (cases v)
  case (JNumber d token)
  assume "json_wf v"
  then show ?thesis using JNumber number_token_head [of token]
    by (auto simp: Stringify_number starts_value_def is_space_def isdigit_def)
qed (simp_all add: starts_value_def is_space_def quoted_def)

lemma quoted_starts: "starts_value (quoted k)"
  by (simp add: starts_value_def is_space_def quoted_def)

lemma ParseString_quoted: "valid_utf8 k \<Longrightarrow> ParseString (quoted k @ x) = Some (k, x)"
  using ParseString_escaped [of k x] by (simp add: quoted_def)

lemma ParseScalar_printed:
  "json_wf v \<Longrightarrow> json_depth v = 0 \<Longrightarrow> number_end x \<Longrightarrow> ParseScalar (Stringify v @ x) = Some (v, x)"
proof (cases v)
  case (JNumber d token)
  assume a: "json_wf v" "number_end x"
  then have t: "number_token token" "ParseFiniteDouble token = Some d" using JNumber by simp_all
  have "hd (token @ x) = CHR ''-'' \<or> isdigit (hd (token @ x))" using number_token_head [OF t(1)] by auto
  then show ?thesis
    using JNumber a ParseNumber_token [OF t a(2)] by (auto simp: Stringify_number ParseScalar_def isdigit_def)
next
  case (JString s)
  assume "json_wf v"
  then show ?thesis using JString ParseString_quoted [of s x] by (simp add: ParseScalar_def) (simp add: quoted_def)
qed (simp_all add: ParseScalar_def ParseBool_def ParseNull_def)

lemma map_emplace_last:
  "\<forall>a \<in> fst ` set m. a < k \<Longrightarrow> map_emplace k v m = m @ [(k, v)]"
  by (induction m) auto

lemma closing_end: "c \<in> {CHR '','', CHR '']'', CHR ''}''} \<Longrightarrow> number_end (c # x) \<and> SkipWhitespace (c # x) = c # x"
  by (elim insertE emptyE; simp add: number_end_def isdigit_def is_e_def SkipWhitespace_def is_space_def)

lemma at_char_Cons [simp]: "at_char c (d # x) \<longleftrightarrow> d = c"
  by (simp add: at_char_def)

text \<open>Reading one printed value, as the induction needs it.\<close>

definition reads_back :: "json \<Rightarrow> bool" where
  "reads_back v \<longleftrightarrow>
     (\<forall>member fuel d raw x. d + json_depth v \<le> kMaxJsonNestDepth \<longrightarrow> number_end x \<longrightarrow>
        2 * length (Stringify v @ x) + 1 \<le> fuel \<longrightarrow>
        ParseValue member fuel d (Stringify v @ x) raw = Some (v, x, raw_of member d v raw))"

lemma ParseArray_printed:
  assumes "vs \<noteq> []" "\<And>v. v \<in> set vs \<Longrightarrow> reads_back v \<and> json_wf v \<and> d + json_depth v \<le> kMaxJsonNestDepth"
    and "0 < d" "2 * length (stringify_elements True vs @ CHR '']'' # x) + 2 \<le> fuel"
  shows "ParseArray member fuel d arr (stringify_elements True vs @ CHR '']'' # x) raw =
    Some (JArray (arr @ vs), x, raw)"
  using assms
proof (induction vs arbitrary: arr fuel)
  case (Cons v vs)
  obtain f where f: "fuel = Suc f" using Cons.prems(4) by (cases fuel) auto
  define rest where "rest = stringify_elements False vs @ CHR '']'' # x"
  have rest: "number_end rest" "SkipWhitespace rest = rest"
    using closing_end by (cases vs; simp add: rest_def)+
  have mem: "reads_back v" "d + json_depth v \<le> kMaxJsonNestDepth" using Cons.prems(2) [of v] by simp_all
  have "2 * length (Stringify v @ rest) + 1 \<le> f" using Cons.prems(4) f by (simp add: rest_def)
  then have "ParseValue member f d (Stringify v @ rest) raw = Some (v, rest, raw)"
    using mem rest(1) Cons.prems(3) by (simp add: reads_back_def raw_of_nested)
  then have "ParseArray member fuel d arr (stringify_elements True (v # vs) @ CHR '']'' # x) raw =
      (if at_char (CHR '','') rest then ParseArray member f d (arr @ [v]) (tl rest) raw
       else if at_char (CHR '']'') rest then Some (JArray (arr @ [v]), tl rest, raw) else None)"
    using rest f by (simp add: ParseArray.simps(2) array_body_def rest_def Let_def)
  also have "\<dots> = Some (JArray (arr @ v # vs), x, raw)"
  proof (cases vs)
    case Nil
    then show ?thesis by (simp add: rest_def at_char_def)
  next
    case (Cons w ws)
    then have "rest = CHR '','' # stringify_elements True vs @ CHR '']'' # x" by (simp add: rest_def)
    moreover from this have "2 * length (stringify_elements True vs @ CHR '']'' # x) + 2 \<le> f"
      using Cons.prems(4) f by (simp add: rest_def)
    then have "ParseArray member f d (arr @ [v]) (stringify_elements True vs @ CHR '']'' # x) raw =
        Some (JArray ((arr @ [v]) @ vs), x, raw)"
      using Cons.prems Cons by (intro Cons.IH) auto
    ultimately show ?thesis by simp
  qed
  finally show ?case .
qed simp

lemma ParseObject_printed:
  assumes "ms \<noteq> []"
    and "\<And>k v. (k, v) \<in> set ms \<Longrightarrow> valid_utf8 k \<and> reads_back v \<and> json_wf v \<and> d + json_depth v \<le> kMaxJsonNestDepth"
    and "map_wf (obj @ ms)" "0 < d" "2 * length (stringify_members True ms @ CHR ''}'' # x) + 2 \<le> fuel"
  shows "ParseObject member fuel d obj (stringify_members True ms @ CHR ''}'' # x) raw =
    Some (JObject (obj @ ms), x, if d = 1 then raw_members member ms raw else raw)"
  using assms
proof (induction ms arbitrary: obj fuel raw)
  case (Cons kv ms)
  obtain k v where kv: "kv = (k, v)" by (cases kv)
  obtain f where f: "fuel = Suc f" using Cons.prems(5) by (cases fuel) auto
  define rest where "rest = stringify_members False ms @ CHR ''}'' # x"
  define raw2 where "raw2 = (if member = Some k \<and> d = 1 \<and> raw = [] then Stringify v else raw)"
  have rest: "number_end rest" "SkipWhitespace rest = rest"
    using closing_end by (cases ms; force simp: rest_def)+
  have mem: "valid_utf8 k" "reads_back v" "json_wf v" "d + json_depth v \<le> kMaxJsonNestDepth"
    using Cons.prems(2) [of k v] kv by simp_all
  have "2 * length (Stringify v @ rest) + 1 \<le> f" using Cons.prems(5) f kv by (simp add: rest_def)
  then have v: "ParseValue member f d (Stringify v @ rest) raw = Some (v, rest, raw)" "valid_utf8 k"
      "SkipWhitespace (Stringify v @ rest) = Stringify v @ rest"
    using mem rest starts_value_skip [OF Stringify_starts [OF mem(3)]] Cons.prems(4)
    by (simp_all add: reads_back_def raw_of_nested)
  have emp: "map_emplace k v obj = obj @ [(k, v)]"
    using Cons.prems(3) kv by (intro map_emplace_last) (auto simp: map_wf_def sorted_wrt_append)
  have shape: "stringify_members True (kv # ms) @ CHR ''}'' # x = quoted k @ CHR '':'' # Stringify v @ rest"
    by (simp add: kv rest_def)
  have colon: "SkipWhitespace (CHR '':'' # y) = CHR '':'' # y" for y by (simp add: SkipWhitespace_def is_space_def)
  have "ParseObject member fuel d obj (stringify_members True (kv # ms) @ CHR ''}'' # x) raw =
      (if at_char (CHR '','') rest then ParseObject member f d (obj @ [kv]) (tl rest) raw2
       else if at_char (CHR ''}'') rest then Some (JObject (obj @ [kv]), tl rest, raw2) else None)"
    unfolding shape f ParseObject.simps(2) object_body_def starts_value_skip [OF quoted_starts]
      ParseString_quoted [OF v(2)]
    using v(1,3) rest(2) by (simp add: colon Let_def emp kv raw2_def split del: if_split cong del: if_weak_cong)
  also have "\<dots> = Some (JObject (obj @ kv # ms), x, if d = 1 then raw_members member (kv # ms) raw else raw)"
  proof (cases ms)
    case Nil
    then show ?thesis by (simp add: rest_def at_char_def kv raw2_def raw_members_def)
  next
    case (Cons w ws)
    then have r: "rest = CHR '','' # stringify_members True ms @ CHR ''}'' # x"
      by (cases w) (simp add: rest_def)
    have "2 * length (stringify_members True ms @ CHR ''}'' # x) + 2 \<le> f"
      using Cons.prems(5) f arg_cong [OF shape, of length] arg_cong [OF r, of length] by simp
    then have "ParseObject member f d (obj @ [kv]) (stringify_members True ms @ CHR ''}'' # x) raw2 =
        Some (JObject ((obj @ [kv]) @ ms), x, if d = 1 then raw_members member ms raw2 else raw2)"
      using Cons.prems Cons by (intro Cons.IH) auto
    then show ?thesis unfolding r by (simp add: at_char_def kv raw2_def raw_members_def)
  qed
  finally show ?case .
qed simp

lemma scalar_head:
  "json_wf v \<Longrightarrow> json_depth v = 0 \<Longrightarrow> hd (Stringify v @ x) \<noteq> CHR ''{'' \<and> hd (Stringify v @ x) \<noteq> CHR ''[''"
proof (cases v)
  case (JNumber d token)
  assume "json_wf v"
  then show ?thesis using JNumber number_token_head [of token] by (auto simp: Stringify_number isdigit_def)
qed (auto simp: quoted_def)

lemma reads_back_scalar: "json_wf v \<Longrightarrow> json_depth v = 0 \<Longrightarrow> reads_back v"
  unfolding reads_back_def
proof (intro allI impI)
  fix member fuel d raw x
  assume v: "json_wf v" "json_depth v = 0" and x: "number_end x" and fuel: "2 * length (Stringify v @ x) + 1 \<le> fuel"
  obtain f where f: "fuel = Suc f" using fuel by (cases fuel) auto
  have "Stringify v @ x \<noteq> []" using Stringify_starts [OF v(1)] by (auto simp: starts_value_def)
  then have "ParseValue member fuel d (Stringify v @ x) raw = Some (v, x, raw)"
    using scalar_head [OF v, of x] ParseScalar_printed [OF v x] starts_value_skip [OF Stringify_starts [OF v(1)]]
    by (simp add: f ParseValue.simps(2) value_body_def Let_def)
  then show "ParseValue member fuel d (Stringify v @ x) raw = Some (v, x, raw_of member d v raw)"
    using v(2) by (cases v) (simp_all add: raw_of_def)
qed

lemma reads_back: "json_wf v \<Longrightarrow> reads_back v"
proof (induction v)
  case (JArray vs)
  show ?case unfolding reads_back_def
  proof (intro allI impI)
    fix member fuel d raw x
    assume d: "d + json_depth (JArray vs) \<le> kMaxJsonNestDepth"
      and fuel: "2 * length (Stringify (JArray vs) @ x) + 1 \<le> fuel"
    obtain f where f: "fuel = Suc f" using fuel by (cases fuel) auto
    have vs: "\<And>v. v \<in> set vs \<Longrightarrow> reads_back v \<and> json_wf v \<and> Suc d + json_depth v \<le> kMaxJsonNestDepth" "d < kMaxJsonNestDepth"
      using d depth_array [of vs "kMaxJsonNestDepth - d"] JArray by fastforce+
    show "ParseValue member fuel d (Stringify (JArray vs) @ x) raw = Some (JArray vs, x, raw_of member d (JArray vs) raw)"
    proof (cases vs)
      case Nil
      then show ?thesis using vs(2)
        by (simp add: f ParseValue.simps(2) value_body_def SkipWhitespace_def is_space_def at_char_def raw_of_def)
    next
      case (Cons w ws)
      define body where "body = stringify_elements True vs @ CHR '']'' # x"
      have st: "starts_value (Stringify w)" using JArray.prems Cons Stringify_starts [of w] by simp
      then have body: "SkipWhitespace body = body" "\<not> at_char (CHR '']'') body"
        using Cons starts_value_skip [OF st] by (auto simp: body_def at_char_def starts_value_def)
      have "ParseArray member f (Suc d) [] body raw = Some (JArray vs, x, raw)"
        using ParseArray_printed [of vs "Suc d" x f member "[]" raw] vs fuel f Cons by (simp add: body_def)
      then show ?thesis using vs(2) body
        by (simp add: f ParseValue.simps(2) value_body_def body_def [symmetric] raw_of_def SkipWhitespace_def is_space_def)
    qed
  qed
next
  case (JObject ms)
  show ?case unfolding reads_back_def
  proof (intro allI impI)
    fix member fuel d raw x
    assume d: "d + json_depth (JObject ms) \<le> kMaxJsonNestDepth"
      and fuel: "2 * length (Stringify (JObject ms) @ x) + 1 \<le> fuel"
    obtain f where f: "fuel = Suc f" using fuel by (cases fuel) auto
    have ms: "\<And>k v. (k, v) \<in> set ms \<Longrightarrow> valid_utf8 k \<and> reads_back v \<and> json_wf v \<and> Suc d + json_depth v \<le> kMaxJsonNestDepth"
        "d < kMaxJsonNestDepth" "map_wf ms"
      using d depth_object [of ms "kMaxJsonNestDepth - d"] JObject by fastforce+
    show "ParseValue member fuel d (Stringify (JObject ms) @ x) raw = Some (JObject ms, x, raw_of member d (JObject ms) raw)"
    proof (cases ms)
      case Nil
      then show ?thesis using ms(2)
        by (simp add: f ParseValue.simps(2) value_body_def SkipWhitespace_def is_space_def at_char_def raw_of_def raw_members_def)
    next
      case (Cons w ws)
      define body where "body = stringify_members True ms @ CHR ''}'' # x"
      have body: "SkipWhitespace body = body" "\<not> at_char (CHR ''}'') body"
        using Cons starts_value_skip [OF quoted_starts] by (cases w; simp add: body_def at_char_def quoted_def)+
      have "ParseObject member f (Suc d) [] body raw = Some (JObject ms, x, raw_of member d (JObject ms) raw)"
        using ParseObject_printed [of ms "Suc d" "[]" x f member raw] ms fuel f Cons by (simp add: body_def raw_of_def)
      then show ?thesis using ms(2) body
        by (simp add: f ParseValue.simps(2) value_body_def body_def [symmetric] SkipWhitespace_def is_space_def)
    qed
  qed
qed (auto intro: reads_back_scalar)

section \<open>Properties\<close>

lemma SkipWhitespace_idem [simp]: "SkipWhitespace (SkipWhitespace s) = SkipWhitespace s"
  by (simp add: SkipWhitespace_def)

lemma SkipWhitespace_Nil [simp]: "SkipWhitespace [] = []"
  by (simp add: SkipWhitespace_def)

lemma ParseDocument_printed:
  assumes "json_wf v" "json_depth v \<le> kMaxJsonNestDepth" "length (Stringify v) \<le> kMaxJsonInputBytes"
  shows "ParseDocument member (Stringify v) = Some (v, raw_of member 0 v [])"
proof -
  have "ParseValue member (2 * length (Stringify v) + 1) 0 (Stringify v @ []) [] = Some (v, [], raw_of member 0 v [])"
    using reads_back [OF assms(1)] assms(2) by (simp add: reads_back_def number_end_def)
  then show ?thesis
    using assms(3) starts_value_skip [OF Stringify_starts [OF assms(1)], of "[]"]
    by (simp add: ParseDocument_def)
qed

text \<open>Whatever text \<open>Parse\<close> accepts, the value it returns is well formed: every string and every
  key is valid UTF-8 (raw bytes, escapes and surrogate pairs alike), every number carries the
  token it was read from together with the finite value of that token, objects have strictly
  increasing keys, and no value is nested deeper than \<open>kMaxJsonNestDepth\<close>.
\<close>

theorem Parse_well_formed:
  assumes "Parse s = Some v"
  shows "json_wf v \<and> json_depth v \<le> kMaxJsonNestDepth"
proof -
  obtain x raw where "ParseValue None (2 * length s + 1) 0 (SkipWhitespace s) [] = Some (v, x, raw)"
    using assms by (auto simp: Parse_def ParseDocument_def split: if_splits option.splits)
  then show ?thesis using ParseValue_post by (fastforce simp: value_post_def)
qed

theorem Parse_well_formed_witness:
  "Parse '' [true,null,{}] '' = Some (JArray [JBool True, JNull, JObject []]) \<and>
   json_depth (JArray [JBool True, JNull, JObject []]) \<le> kMaxJsonNestDepth"
proof -
  have "ParseValue None 33 0 (SkipWhitespace '' [true,null,{}] '') [] =
      Some (JArray [JBool True, JNull, JObject []], '' '', [])"
    by code_simp
  then have "Parse '' [true,null,{}] '' = Some (JArray [JBool True, JNull, JObject []])"
    by (simp add: Parse_def ParseDocument_def kMaxJsonInputBytes_def) (simp add: SkipWhitespace_def is_space_def)
  then show ?thesis using Parse_well_formed by blast
qed

text \<open>C3: Printing and parsing are inverse on every well-formed value within the limits of the
  parser: escapes, control characters, multi-byte text, numbers, member order and nesting all
  come back as they were.
\<close>

theorem Parse_Stringify:
  assumes "json_wf v" "json_depth v \<le> kMaxJsonNestDepth" "length (Stringify v) \<le> kMaxJsonInputBytes"
  shows "Parse (Stringify v) = Some v"
  using ParseDocument_printed [OF assms] by (simp add: Parse_def)

lemma EscapeString_length: "length (EscapeString s) \<le> 6 * length s"
proof (induction s)
  case (Cons c s)
  have "length (escape_byte c) \<le> 6" by (simp add: escape_byte_def unicode_escape_def)
  with Cons show ?case by (simp add: EscapeString_def)
qed (simp add: EscapeString_def)

theorem Parse_Stringify_witness:
  "Parse (Stringify (JObject [(''k'', JArray [JString (utf8s [0x3042, 0x0a, 0x22]), Value_int (- 42)])])) =
     Some (JObject [(''k'', JArray [JString (utf8s [0x3042, 0x0a, 0x22]), Value_int (- 42)])])"
proof (rule Parse_Stringify)
  have "valid_utf8 (utf8s [0x3042, 0x0a, 0x22])"
    unfolding valid_utf8_iff by (intro exI [of _ "[0x3042, 0x0a, 0x22]"]) (simp add: is_scalar_def)
  moreover have "valid_utf8 ''k''" by (simp add: valid_utf8_ascii)
  ultimately show "json_wf (JObject [(''k'', JArray [JString (utf8s [0x3042, 0x0a, 0x22]), Value_int (- 42)])])"
    using Value_int_wf [of "- 42"] by (simp add: map_wf_def)
  show "json_depth (JObject [(''k'', JArray [JString (utf8s [0x3042, 0x0a, 0x22]), Value_int (- 42)])])
      \<le> kMaxJsonNestDepth"
    by (simp add: kMaxJsonNestDepth_def Value_int_def)
  show "length (Stringify (JObject [(''k'', JArray [JString (utf8s [0x3042, 0x0a, 0x22]), Value_int (- 42)])]))
      \<le> kMaxJsonInputBytes"
    using EscapeString_length [of "utf8s [0x3042, 0x0a, 0x22]"] EscapeString_length [of "''k''"]
    by (simp add: kMaxJsonInputBytes_def Value_int_def StringifyNumber_def FormatInteger_def quoted_def
        to_string.simps [of 42] to_string.simps [of 4] utf8_cases)
qed

text \<open>The parser always ends for want of text, never of fuel: any larger budget of recursive calls
  gives every text the same answer, so a rejected text is rejected by the grammar or the limits.
\<close>

theorem ParseDocument_fuel:
  "ParseDocument member s =
     (if length s > kMaxJsonInputBytes then None
      else case ParseValue member (2 * length s + 1 + extra) 0 (SkipWhitespace s) [] of
             None \<Rightarrow> None
           | Some (v, rest, raw) \<Rightarrow> if SkipWhitespace rest \<noteq> [] then None else Some (v, raw))"
  using ParseValue_fuel [of "SkipWhitespace s" "2 * length s + 1" member 0 "[]"]
    ParseValue_fuel [of "SkipWhitespace s" "2 * length s + 1 + extra" member 0 "[]"] SkipWhitespace_length [of s]
  by (simp add: ParseDocument_def)

lemma length_to_string: "n < 10 ^ k \<Longrightarrow> 0 < k \<Longrightarrow> length (to_string n) \<le> k"
proof (induction k arbitrary: n)
  case (Suc k)
  show ?case
  proof (cases "n < 10")
    case False
    then have "k > 0" using Suc.prems by (cases k) auto
    moreover have "n div 10 < 10 ^ k" using Suc.prems by (simp add: less_mult_imp_div_less mult.commute)
    ultimately show ?thesis using Suc.IH [of "n div 10"] False by (simp add: to_string.simps [of n])
  qed (simp add: to_string.simps [of n])
qed simp

section \<open>Integers keep every bit\<close>

lemma plain_integer_format: "plain_integer (FormatInteger v) = v"
proof (cases "v < 0")
  case True
  then show ?thesis by (simp add: plain_integer_def FormatInteger_def)
next
  case False
  then have "hd (FormatInteger v) \<noteq> CHR ''-''"
    using to_string_no_marks [of "nat v"] to_string_digits [of "nat v"] by (auto simp: FormatInteger_def)
  then show ?thesis using False by (simp add: plain_integer_def) (simp add: FormatInteger_def)
qed

lemma format_nonneg: "0 \<le> v \<Longrightarrow> hd (FormatInteger v) \<noteq> CHR ''-'' \<and> dec_value (FormatInteger v) = nat v"
  using to_string_no_marks [of "nat v"] to_string_digits [of "nat v"] by (auto simp: FormatInteger_def)

lemma GetInt_Value_int:
  "Find v k = Some (Value_int n) \<Longrightarrow> - (2 ^ 63) \<le> n \<Longrightarrow> n < 2 ^ 63 \<Longrightarrow> GetInt v k = Some n"
  using FormatInteger_number(3) [of n] by (simp add: GetInt_def Value_int_def plain_integer_format Let_def)

lemma GetUInt_Value_int:
  "Find v k = Some (Value_int (int n)) \<Longrightarrow> n < 2 ^ 64 \<Longrightarrow> GetUInt v k = Some n"
  using FormatInteger_number(3) [of "int n"] format_nonneg [of "int n"] by (simp add: GetUInt_def Value_int_def)

text \<open>A 64-bit integer stored in a message is read back exactly, signed or unsigned, although the
  parsed number also holds the nearest \<open>double\<close>, which has only 53 bits: the accessors use the token.
\<close>

theorem integers_exact:
  assumes "- (2 ^ 63) \<le> i" "i < 2 ^ 63" "n < 2 ^ 64"
  shows "map_option (\<lambda>v. (GetInt v ''i'', GetUInt v ''n''))
     (Parse (Stringify (JObject [(''i'', Value_int i), (''n'', Value_int (int n))]))) = Some (Some i, Some n)"
proof -
  let ?v = "JObject [(''i'', Value_int i), (''n'', Value_int (int n))]"
  have wf: "json_wf ?v"
    using assms Value_int_wf [of i] Value_int_wf [of "int n"] valid_utf8_ascii [of "CHR ''i''"]
      valid_utf8_ascii [of "CHR ''n''"]
    by (simp add: map_wf_def less_char_def abs_if)
  have "nat \<bar>i\<bar> < 10 ^ 20" "n < 10 ^ 20" using assms by (auto simp: abs_if)
  then have len: "length (FormatInteger i) \<le> 21" "length (FormatInteger (int n)) \<le> 20"
    using length_to_string [of "nat \<bar>i\<bar>" 20] length_to_string [of n 20] by (auto simp: FormatInteger_def abs_if)
  have tok: "StringifyNumber (double_of_int v) (FormatInteger v) = FormatInteger v" if "\<bar>v\<bar> < 2 ^ 64" for v
    using FormatInteger_number(1) [OF that] by (rule Stringify_number)
  have "length (Stringify ?v) \<le> kMaxJsonInputBytes"
    using assms len by (simp add: Value_int_def tok abs_if quoted_def EscapeString_def escape_byte_def kMaxJsonInputBytes_def)
  moreover have "json_depth ?v \<le> kMaxJsonNestDepth" by (simp add: kMaxJsonNestDepth_def Value_int_def)
  ultimately have "ParseDocument None (Stringify ?v) = Some (?v, raw_of None 0 ?v [])"
    using ParseDocument_printed [OF wf] by blast
  then show ?thesis using assms GetInt_Value_int [of ?v "''i''" i] GetUInt_Value_int [of ?v "''n''" n]
    by (simp add: Parse_def)
qed

theorem integers_exact_witness:
  "map_option (\<lambda>v. (GetInt v ''i'', GetUInt v ''n''))
     (Parse (Stringify (JObject [(''i'', Value_int (- 9007199254740993)), (''n'', Value_int (int 18446744073709551615))]))) =
   Some (Some (- 9007199254740993), Some 18446744073709551615)"
  by (rule integers_exact) simp_all

end
