(* ===== verification/DoubleText.thy ===== *)
theory DoubleText
  imports DoubleArith Json
begin

text \<open>
  Doubles as text: the shortest decimal that \<open>std::to_chars\<close> prints is read back by
  \<open>std::from_chars\<close> as the same double.
\<close>

section \<open>Canonical doubles\<close>

text \<open>The finite values of the format: a significand below \<open>2^53\<close>, normalized unless the exponent is the
  smallest.\<close>

fun double_wf :: "double \<Rightarrow> bool" where
  "double_wf (Finite s m e) \<longleftrightarrow> m < 2 ^ 53 \<and> - 1074 \<le> e \<and> e \<le> 971 \<and> (e = - 1074 \<or> 2 ^ 52 \<le> m)"
| "double_wf _ \<longleftrightarrow> False"

section \<open>Rounding to a near double\<close>

lemma round_half_even_near: "\<bar>x - of_int n\<bar> < 1 / 2 \<Longrightarrow> round_half_even x = n"
proof -
  assume near: "\<bar>x - of_int n\<bar> < 1 / 2"
  have "of_int (round_half_even x) < (of_int (n + 1) :: rat)" "(of_int (n - 1) :: rat) < of_int (round_half_even x)"
    using round_half_even_bounds [of x] near unfolding abs_less_iff by simp_all
  then show ?thesis by (simp only: of_int_less_iff)
qed

lemma floor_log2_unique: "pow2 k \<le> q \<Longrightarrow> q < pow2 (k + 1) \<Longrightarrow> floor_log2 q = k"
proof -
  assume k: "pow2 k \<le> q" "q < pow2 (k + 1)"
  have "0 < q" using k(1) pow2_pos(1) [of k] by linarith
  from floor_log2_bounds [OF this] k have "pow2 k < pow2 (floor_log2 q + 1)" "pow2 (floor_log2 q) < pow2 (k + 1)" by linarith+
  then show ?thesis by (simp add: pow2_less_iff)
qed

lemma abs_near: "\<bar>y - a\<bar> < b \<longleftrightarrow> y < a + b \<and> a - b < (y::rat)"
  by (auto simp: abs_less_iff)

lemma round_magnitude_near:
  assumes wf: "double_wf (Finite s m e)" "0 < m"
    and near: "\<bar>y - of_nat m * pow2 e\<bar> < pow2 e / 2" "m = 2 ^ 52 \<Longrightarrow> \<bar>y - of_nat m * pow2 e\<bar> < pow2 e / 4"
  shows "round_magnitude s y = Some (Finite s m e)"
proof -
  define q where "q = of_nat m * pow2 e"
  have P: "0 < pow2 e" by simp
  have pow: "pow2 (e + 53) = 2 ^ 53 * pow2 e" "pow2 (e + 52) = 2 ^ 52 * pow2 e" by (simp_all add: pow2_add pow2_def [of 53] pow2_def [of 52])
  have "(1::rat) \<le> of_nat m" "of_nat m \<le> (2 ^ 53 - 1 :: rat)"
    using wf of_nat_le_iff [of m "2 ^ 53 - 1", where ?'a = rat] of_nat_le_iff [of 1 m, where ?'a = rat] by simp_all
  then have q: "1 * pow2 e \<le> q" "q \<le> (2 ^ 53 - 1) * pow2 e" unfolding q_def by (intro mult_right_mono; simp add: less_imp_le)+
  have q2: "q \<le> 2 ^ 53 * pow2 e - pow2 e" using q(2) by (simp add: left_diff_distrib)
  have n1: "y < q + pow2 e / 2" "q - pow2 e / 2 < y" using near(1) unfolding q_def [symmetric] abs_near by auto
  have y: "0 < y" "y < pow2 (e + 53)" using n1 q(1) q2 P unfolding pow by linarith+
  show ?thesis
  proof (cases "e = - 1074 \<or> pow2 (e + 52) \<le> y")
    case True
    have "round_exp y = e"
    proof (cases "pow2 (e + 52) \<le> y")
      case True
      then have "floor_log2 y = e + 52" using y(2) by (intro floor_log2_unique) (simp_all add: add.assoc)
      then show ?thesis using wf by (simp add: round_exp_def)
    next
      case False
      then have "pow2 (floor_log2 y) < pow2 (e + 52)" using floor_log2_bounds(1) [OF y(1)] by linarith
      then show ?thesis using True False by (simp add: round_exp_def pow2_less_iff)
    qed
    moreover have "round_half_even (y / pow2 e) = int m"
    proof (rule round_half_even_near, unfold abs_near, intro conjI)
      show "y / pow2 e < of_int (int m) + 1 / 2" using n1(1) P by (simp add: q_def divide_less_eq distrib_right)
      show "of_int (int m) - 1 / 2 < y / pow2 e" using n1(2) P by (simp add: q_def less_divide_eq left_diff_distrib)
    qed
    ultimately show ?thesis using wf y(1) by (simp add: round_magnitude_def Let_def flip: round_exp_def)
  next
    case False
    then have e: "- 1074 < e" and b: "2 ^ 52 \<le> m" using wf by auto
    have "q < 2 ^ 52 * pow2 e + pow2 e" using n1(2) False P unfolding pow by linarith
    then have "q < (2 ^ 52 + 1) * pow2 e" by (simp add: distrib_right)
    then have "(of_nat m :: rat) < of_nat (2 ^ 52 + 1)" using P by (simp add: q_def)
    then have m: "m = 2 ^ 52" using b by (simp only: of_nat_less_iff)
    have n2: "y < q + pow2 e / 4" "q - pow2 e / 4 < y" using near(2) [OF m] unfolding q_def [symmetric] abs_near by auto
    define p where "p = pow2 (e - 1)"
    have half: "pow2 e = 2 * p" "0 < p" using pow2_add [of "e - 1" 1] by (simp_all add: pow2_1 p_def)
    have q': "q = 2 ^ 53 * p" by (simp add: q_def m half)
    have "round_half_even (y / p) = 2 ^ 53"
    proof (rule round_half_even_near, unfold abs_near, intro conjI)
      show "y / p < of_int (2 ^ 53) + 1 / 2" using n2(1) half(2) unfolding q' half(1) by (simp add: divide_less_eq distrib_right)
      show "of_int (2 ^ 53) - 1 / 2 < y / p" using n2(2) half(2) unfolding q' half(1) by (simp add: less_divide_eq left_diff_distrib)
    qed
    moreover have "pow2 (e - 1 + 52) \<le> y" "y < pow2 (e - 1 + 52 + 1)"
    proof -
      have "pow2 (e - 1 + 52) = 2 ^ 52 * p" by (simp only: pow2_add [of "e - 1" 52]) (simp add: p_def pow2_def [of 52])
      moreover have "2 ^ 52 * p \<le> y" using n2(2) half(2) unfolding q' half(1) by simp
      ultimately show "pow2 (e - 1 + 52) \<le> y" by (simp only:)
      show "y < pow2 (e - 1 + 52 + 1)" using False by (simp add: algebra_simps)
    qed
    then have "round_exp y = e - 1" using floor_log2_unique [of "e - 1 + 52" y] e by (simp add: round_exp_def)
    ultimately show ?thesis using wf y(1) e m by (simp add: round_magnitude_def Let_def p_def flip: round_exp_def)
  qed
qed

section \<open>Decimal logarithms\<close>

lemma pow10_power_int: "pow10 x = power_int 10 x"
  by (simp add: pow10_def power_int_def inverse_eq_divide power_divide)

lemma pow10_pos [simp]: "pow10 e > 0" "pow10 e \<noteq> 0"
  by (simp_all add: pow10_def)

lemma pow10_add: "pow10 (a + b) = pow10 a * pow10 b"
  by (simp add: pow10_power_int power_int_add)

lemma pow10_nat: "pow10 (int n) = 10 ^ n"
  by (simp add: pow10_def)

lemma pow10_less_iff: "pow10 a < pow10 b \<longleftrightarrow> a < b"
  using power_int_strict_increasing [of a b "10::rat"] power_int_increasing [of b a "10::rat"]
  by (cases "a < b") (simp_all add: pow10_power_int not_less)

lemma digit_count_bounds: "n < 10 ^ digit_count n \<and> (n > 0 \<longrightarrow> 10 ^ (digit_count n - 1) \<le> n) \<and> digit_count n > 0"
proof (induction n rule: digit_count.induct)
  case (1 n)
  show ?case
  proof (cases "n < 10")
    case True
    then show ?thesis by (simp add: digit_count.simps [of n])
  next
    case False
    define k where "k = digit_count (n div 10)"
    have "n div 10 < 10 ^ k" "10 ^ (k - 1) \<le> n div 10" "k > 0" using 1 [OF False] False by (auto simp: k_def)
    then have "n < 10 * 10 ^ k" "10 * 10 ^ (k - 1) \<le> n" by linarith+
    moreover have "10 * 10 ^ (k - 1) = (10::nat) ^ k" using \<open>k > 0\<close> by (cases k) auto
    ultimately show ?thesis using False by (simp add: digit_count.simps [of n] k_def [symmetric])
  qed
qed

lemma log10_below_one_bounds:
  "pow10 (- int f) \<le> q \<Longrightarrow> q < 10 \<Longrightarrow> pow10 (log10_below_one f q) \<le> q \<and> q < pow10 (log10_below_one f q + 1)
     \<and> - int f \<le> log10_below_one f q \<and> log10_below_one f q \<le> 0"
proof (induction f arbitrary: q)
  case 0
  then show ?case by (simp add: pow10_def)
next
  case (Suc f)
  show ?case
  proof (cases "q \<ge> 1")
    case True
    then show ?thesis using Suc.prems by (simp add: pow10_def)
  next
    case False
    have "pow10 (- int f) = pow10 (- int (Suc f)) * 10" using pow10_add [of "- int (Suc f)" 1] by (simp add: pow10_def [of 1])
    then have "pow10 (- int f) \<le> q * 10" using Suc.prems(1) by simp
    from Suc.IH [OF this] False have ih: "pow10 (log10_below_one f (q * 10)) \<le> q * 10" "q * 10 < pow10 (log10_below_one f (q * 10) + 1)"
      "- int f \<le> log10_below_one f (q * 10)" "log10_below_one f (q * 10) \<le> 0" by auto
    define k where "k = log10_below_one f (q * 10)"
    have "pow10 k = pow10 (k - 1) * 10" "pow10 (k + 1) = pow10 k * 10"
      using pow10_add [of "k - 1" 1] pow10_add [of k 1] by (simp_all add: pow10_def [of 1])
    then show ?thesis using ih False by (simp flip: k_def)
  qed
qed

lemma floor_log10_bounds:
  assumes "pow10 (- 330) \<le> q"
  shows "pow10 (floor_log10 q) \<le> q" "q < pow10 (floor_log10 q + 1)" "- 330 \<le> floor_log10 q"
proof -
  have "pow10 (floor_log10 q) \<le> q \<and> q < pow10 (floor_log10 q + 1) \<and> - 330 \<le> floor_log10 q"
  proof (cases "q \<ge> 1")
    case True
    define n where "n = nat \<lfloor>q\<rfloor>"
    define k where "k = digit_count n"
    have "n > 0" using True by (simp add: n_def)
    then have k: "n < 10 ^ k" "10 ^ (k - 1) \<le> n" "k > 0" using digit_count_bounds [of n] by (auto simp: k_def)
    have n: "of_nat n \<le> q" "q < of_nat (n + 1)" using True by (simp_all add: n_def) linarith
    have "n + 1 \<le> 10 ^ k" using k(1) by simp
    then have "(of_nat (n + 1) :: rat) \<le> of_nat (10 ^ k)" "(of_nat (10 ^ (k - 1)) :: rat) \<le> of_nat n"
      using k(2) by (simp_all only: of_nat_le_iff)
    moreover have "pow10 (int k) = of_nat (10 ^ k)" "pow10 (int k - 1) = of_nat (10 ^ (k - 1))"
      using k(3) pow10_nat [of k] pow10_nat [of "k - 1"] by (simp_all add: of_nat_diff)
    ultimately have "pow10 (int k - 1) \<le> q" "q < pow10 (int k)" using n by linarith+
    then show ?thesis using True k(3) by (simp add: floor_log10_def n_def k_def)
  next
    case False
    then show ?thesis using log10_below_one_bounds [of 330 q] assms by (simp add: floor_log10_def)
  qed
  then show "pow10 (floor_log10 q) \<le> q" "q < pow10 (floor_log10 q + 1)" "- 330 \<le> floor_log10 q" by auto
qed

section \<open>Seventeen digits\<close>

lemma double_magnitude:
  assumes "double_wf (Finite s m e)" "0 < m"
  shows "pow10 (- 330) \<le> of_nat m * pow2 e" "of_nat m * pow2 e < pow10 310"
proof -
  have "pow10 (- 330) \<le> pow2 (- 1074)" by (simp add: pow10_def pow2_def)
  also have "\<dots> \<le> pow2 e" using assms by (simp add: pow2_le_iff)
  also have "\<dots> \<le> of_nat m * pow2 e" using assms by simp
  finally show "pow10 (- 330) \<le> of_nat m * pow2 e" .
  have "(of_nat m :: rat) \<le> of_nat (2 ^ 53)" using assms by (simp only: of_nat_le_iff) simp
  then have "of_nat m * pow2 e \<le> 2 ^ 53 * pow2 971"
    using assms by (intro mult_mono) (simp_all add: pow2_le_iff less_imp_le)
  also have "\<dots> < pow10 310" by (simp add: pow10_def pow2_def)
  finally show "of_nat m * pow2 e < pow10 310" .
qed

lemma decimal_17_reads:
  assumes wf: "double_wf (Finite s m e)" "0 < m" and d: "decimal_of (of_nat m * pow2 e) 17 = (c, x)"
  shows "round_magnitude s (of_nat c * pow10 x) = Some (Finite s m e)"
proof (rule round_magnitude_near [OF wf])
  define q where "q = of_nat m * pow2 e"
  note lg = floor_log10_bounds [OF double_magnitude(1) [OF wf], folded q_def]
  have x: "x = floor_log10 q - 16" "c = nat (round_half_even (q / pow10 x))" using d by (auto simp: decimal_of_def q_def Let_def)
  have "pow10 (floor_log10 q) = pow10 x * 10 ^ 16" using pow10_add [of x 16] by (simp add: x(1) pow10_def [of 16])
  then have lo: "10 ^ 16 * pow10 x \<le> q" using lg(1) by (simp add: mult.commute)
  have "0 \<le> round_half_even (q / pow10 x)" by (rule round_half_even_ge) (simp add: q_def less_imp_le)
  then have "of_nat c = (of_int (round_half_even (q / pow10 x)) :: rat)" by (simp add: x(2))
  then have "of_nat c \<le> q / pow10 x + 1 / 2" "q / pow10 x - 1 / 2 \<le> of_nat c" using round_half_even_bounds [of "q / pow10 x"] by simp_all
  then have "of_nat c * pow10 x \<le> q + pow10 x / 2" "q \<le> of_nat c * pow10 x + pow10 x / 2"
    using pow10_pos(1) [of x] by (simp_all add: field_simps)
  then have near: "\<bar>of_nat c * pow10 x - q\<bar> \<le> pow10 x / 2" by linarith
  have "(of_nat m :: rat) \<le> of_nat (2 ^ 53)" using wf by (simp only: of_nat_le_iff) simp
  then have "q \<le> 2 ^ 53 * pow2 e" unfolding q_def by (intro mult_right_mono) (simp_all add: less_imp_le)
  then have "10 ^ 16 * pow10 x \<le> 2 ^ 53 * pow2 e" using lo by linarith
  then have "pow10 x < pow2 e" using pow2_pos(1) [of e] pow10_pos(1) [of x] by (simp del: pow2_pos pow10_pos)
  then show "\<bar>of_nat c * pow10 x - of_nat m * pow2 e\<bar> < pow2 e / 2" using near by (simp flip: q_def)
  show "\<bar>of_nat c * pow10 x - of_nat m * pow2 e\<bar> < pow2 e / 4" if "m = 2 ^ 52"
  proof -
    have "10 ^ 16 * pow10 x \<le> 2 ^ 52 * pow2 e" using lo that by (simp add: q_def)
    then have "pow10 x < pow2 e / 2" using pow2_pos(1) [of e] by (simp del: pow2_pos)
    then show ?thesis using near by (simp flip: q_def)
  qed
qed

lemma decimal_of_bounds:
  assumes q: "pow10 (- 330) \<le> q" "q < pow10 310" and d: "decimal_of q n = (c, x)" "0 < n" "n \<le> 17"
  shows "c \<le> 10 ^ 17" "- 346 \<le> x" "x \<le> 309"
proof -
  note lg = floor_log10_bounds [OF q(1)]
  have x: "x = floor_log10 q - int n + 1" "c = nat (round_half_even (q / pow10 x))" using d by (auto simp: decimal_of_def Let_def)
  have "pow10 (floor_log10 q) < pow10 310" using lg(1) q(2) by linarith
  then have "floor_log10 q < 310" by (simp add: pow10_less_iff)
  then show "- 346 \<le> x" "x \<le> 309" using lg(3) d by (simp_all add: x(1))
  have "pow10 (floor_log10 q + 1) = pow10 x * 10 ^ n" using pow10_add [of x "int n"] by (simp add: x(1) pow10_nat)
  then have "q / pow10 x \<le> of_int (10 ^ n)" using lg(2) by (simp add: divide_le_eq mult.commute)
  then have "round_half_even (q / pow10 x) \<le> 10 ^ n" by (rule round_half_even_le)
  also have "\<dots> \<le> 10 ^ 17" using d(3) by (rule power_increasing) simp
  finally show "c \<le> 10 ^ 17" by (simp add: x(2) nat_le_iff)
qed

lemma shortest_from_reads:
  assumes wf: "double_wf (Finite s m e)" "0 < m" and f: "shortest_from f n (Finite s m e) = (c, x)" "0 < n" "n + f \<le> 17"
  shows "round_magnitude s (of_nat c * pow10 x) = Some (Finite s m e) \<and> 0 < c \<and> c \<le> 10 ^ 17 + 1 \<and> - 346 \<le> x \<and> x \<le> 309"
proof -
  let ?d = "Finite s m e"
  have q: "\<bar>rat_of_double ?d\<bar> = of_nat m * pow2 e" "rat_of_double ?d < 0 \<longleftrightarrow> s"
    using wf pow2_pos(1) [of e] by (simp_all add: abs_mult less_imp_le mult_less_0_iff not_less)
  note mag = double_magnitude [OF wf]
  have "round_magnitude s (of_nat c * pow10 x) = Some ?d \<and> c \<le> 10 ^ 17 + 1 \<and> - 346 \<le> x \<and> x \<le> 309"
    using f
  proof (induction f arbitrary: n)
    case 0
    then have "decimal_of (of_nat m * pow2 e) 17 = (c, x)" by (simp only: shortest_from.simps q)
    then show ?case using decimal_17_reads [OF wf] decimal_of_bounds [OF mag, of 17 c x] by fastforce
  next
    case (Suc f)
    obtain ds y where dy: "decimal_of (of_nat m * pow2 e) n = (ds, y)" by fastforce
    note b = decimal_of_bounds [OF mag dy] 
    show ?case
    proof (cases "find (\<lambda>c. round_magnitude s (of_nat c * pow10 y) = Some ?d) [ds, ds + 1]")
      case None
      then show ?thesis using Suc dy by (simp only: shortest_from.simps q Let_def prod.case option.case)
    next
      case (Some z)
      then have "c = z" "x = y" using Suc.prems(1) dy by (simp_all only: shortest_from.simps q Let_def prod.case option.case prod.inject)
      moreover have "round_magnitude s (of_nat z * pow10 y) = Some ?d" "z \<le> ds + 1" using Some by (auto split: if_splits)
      ultimately show ?thesis using b Suc.prems(2,3) by simp
    qed
  qed
  moreover have "c \<noteq> 0"
  proof
    assume "c = 0"
    then show False using calculation wf by (simp add: round_magnitude_def)
  qed
  ultimately show ?thesis by simp
qed

lemma strip_zeros_value:
  "strip_zeros f c x = (c', x') \<Longrightarrow> of_nat c' * pow10 x' = of_nat c * pow10 x \<and> c' \<le> c \<and> (0 < c \<longrightarrow> 0 < c') \<and> x \<le> x' \<and> x' \<le> x + int f"
proof (induction f arbitrary: c x)
  case (Suc f)
  show ?case
  proof (cases "c \<noteq> 0 \<and> c mod 10 = 0")
    case True
    then have c: "c = 10 * (c div 10)" by presburger
    have "of_nat (c div 10) * pow10 (x + 1) = of_nat (10 * (c div 10)) * pow10 x" by (simp add: pow10_add pow10_def [of 1])
    then have "of_nat (c div 10) * pow10 (x + 1) = of_nat c * pow10 x" using c by (simp only:)
    moreover have "strip_zeros f (c div 10) (x + 1) = (c', x')" using Suc.prems True by simp
    from Suc.IH [OF this] have "of_nat c' * pow10 x' = of_nat (c div 10) * pow10 (x + 1)" "c' \<le> c div 10"
      "0 < c div 10 \<longrightarrow> 0 < c'" "x + 1 \<le> x'" "x' \<le> x + 1 + int f" by auto
    moreover have "0 < c div 10" "c div 10 \<le> c" using True by auto
    ultimately show ?thesis by auto
  qed (use Suc.prems in auto)
qed simp

section \<open>The text of a number\<close>

text \<open>A numeral from its parts: sign, integer digits, fraction digits, and the sign and digits of the exponent.\<close>

definition parts :: "bool \<Rightarrow> string \<Rightarrow> string \<Rightarrow> (bool \<times> string) option \<Rightarrow> string" where
  "parts s i f x =
     (if s then ''-'' else []) @ i @ (if f = [] then [] else CHR ''.'' # f) @
     (case x of None \<Rightarrow> [] | Some (neg, ds) \<Rightarrow> CHR ''e'' # (if neg then CHR ''-'' else CHR ''+'') # ds)"

definition parts_ok :: "string \<Rightarrow> string \<Rightarrow> (bool \<times> string) option \<Rightarrow> bool" where
  "parts_ok i f x \<longleftrightarrow> i \<noteq> [] \<and> list_all isdigit i \<and> (i = ''0'' \<or> hd i \<noteq> CHR ''0'') \<and> list_all isdigit f \<and>
     (case x of None \<Rightarrow> True | Some (neg, ds) \<Rightarrow> ds \<noteq> [] \<and> list_all isdigit ds)"

definition parts_exp :: "(bool \<times> string) option \<Rightarrow> int" where
  "parts_exp x = (case x of None \<Rightarrow> 0 | Some (neg, ds) \<Rightarrow> if neg then - int (dec_value ds) else int (dec_value ds))"

lemma digit_plain: "isdigit c \<Longrightarrow> c \<noteq> CHR ''.'' \<and> \<not> is_e c \<and> c \<noteq> CHR ''-'' \<and> c \<noteq> CHR ''+''"
  by (auto simp: isdigit_def is_e_def)

lemma takeWhile_stop: "list_all P p \<Longrightarrow> x = [] \<or> \<not> P (hd x) \<Longrightarrow> takeWhile P (p @ x) = p \<and> dropWhile P (p @ x) = x"
  by (induction p; cases x) auto

lemma parts_fields:
  assumes "parts_ok i f x"
  shows "numeral_sign (parts s i f x) = s" "int_digits (parts s i f x) = i" "frac_digits (parts s i f x) = f"
    "dropWhile (\<lambda>c. \<not> is_e c) (strip_sign (parts s i f x)) =
       (case x of None \<Rightarrow> [] | Some (neg, ds) \<Rightarrow> CHR ''e'' # (if neg then CHR ''-'' else CHR ''+'') # ds)"
proof -
  define m where "m = i @ (if f = [] then [] else CHR ''.'' # f)"
  define ex where "ex = (case x of None \<Rightarrow> [] | Some (neg, ds) \<Rightarrow> CHR ''e'' # (if neg then CHR ''-'' else CHR ''+'') # ds)"
  have p: "parts s i f x = (if s then ''-'' else []) @ m @ ex" by (simp add: parts_def m_def ex_def)
  have i: "i \<noteq> []" "list_all isdigit i" "list_all isdigit f" using assms by (auto simp: parts_ok_def)
  have "hd i \<noteq> CHR ''-''" using i digit_plain [of "hd i"] by (cases i) auto
  then show sg: "numeral_sign (parts s i f x) = s" unfolding p using i(1) by (cases i) (auto simp: numeral_sign_def m_def)
  then have st: "strip_sign (parts s i f x) = m @ ex" unfolding strip_sign_def sg unfolding p by simp
  have dm: "list_all (\<lambda>c. \<not> is_e c) m" using i digit_plain by (auto simp: m_def list_all_iff is_e_def)
  have "ex = [] \<or> is_e (hd ex)" by (auto simp: ex_def is_e_def split: option.splits)
  then have se: "significand (parts s i f x) = m" "dropWhile (\<lambda>c. \<not> is_e c) (m @ ex) = ex"
    using takeWhile_stop [OF dm, of ex] by (auto simp: significand_def st)
  have di: "list_all (\<lambda>c. c \<noteq> CHR ''.'') i" using i digit_plain by (auto simp: list_all_iff)
  show "int_digits (parts s i f x) = i" "frac_digits (parts s i f x) = f"
    using takeWhile_stop [OF di, of "if f = [] then [] else CHR ''.'' # f"] by (simp_all add: int_digits_def frac_digits_def se m_def split: if_splits)
  show "dropWhile (\<lambda>c. \<not> is_e c) (strip_sign (parts s i f x)) =
      (case x of None \<Rightarrow> [] | Some (neg, ds) \<Rightarrow> CHR ''e'' # (if neg then CHR ''-'' else CHR ''+'') # ds)"
    using se(2) by (simp add: st ex_def)
qed

lemma parts_value:
  assumes "parts_ok i f x"
  shows "numeral_magnitude (parts s i f x) = of_nat (dec_value (i @ f)) * pow10 (parts_exp x - int (length f))"
proof -
  have "exponent_part (parts s i f x) = parts_exp x"
    unfolding exponent_part_def parts_fields(4) [OF assms] using assms by (auto simp: parts_exp_def parts_ok_def split: option.splits)
  then show ?thesis by (simp add: numeral_magnitude_def parts_fields [OF assms])
qed

lemma parts_token:
  assumes ok: "parts_ok i f x"
  shows "number_token (parts s i f x)"
proof -
  define ex where "ex = (case x of None \<Rightarrow> [] | Some (neg, ds) \<Rightarrow> CHR ''e'' # (if neg then CHR ''-'' else CHR ''+'') # ds)"
  define r where "r = (if f = [] then [] else CHR ''.'' # f) @ ex"
  have i: "i \<noteq> []" "list_all isdigit i" "i = ''0'' \<or> hd i \<noteq> CHR ''0''" "list_all isdigit f" using ok by (auto simp: parts_ok_def)
  have e: "ex = [] \<or> \<not> isdigit (hd ex) \<and> hd ex \<noteq> CHR ''.''" by (auto simp: ex_def isdigit_def split: option.splits)
  then have r: "r = [] \<or> \<not> isdigit (hd r)" by (auto simp: r_def isdigit_def)
  have "hd i \<noteq> CHR ''-''" using i(1,2) digit_plain [of "hd i"] by (cases i) auto
  then have "scan_sign (parts s i f x) = i @ r"
    using i(1) by (cases i) (auto simp: scan_sign_def parts_def r_def ex_def)
  moreover have "scan_int (i @ r) = Some r"
  proof (cases "i = ''0''")
    case True
    then show ?thesis using r by (auto simp: scan_int_def)
  next
    case False
    then obtain c u where c: "i = c # u" "c \<noteq> CHR ''0''" "isdigit c" using i by (cases i) auto
    have "ord c \<noteq> 48" using c(2) ord_eq_iff [of c "CHR ''0''"] by simp
    then have "49 \<le> ord c" "ord c \<le> 57" using c(3) by (auto simp: isdigit_def)
    then show ?thesis using dropWhile_digits [OF i(2) r] c(1,2) by (simp add: scan_int_def)
  qed
  moreover have "scan_frac r = Some ex"
  proof (cases "f = []")
    case True
    then show ?thesis using e by (auto simp: scan_frac_def r_def)
  next
    case False
    then have "isdigit (hd f)" using i(4) by (cases f) auto
    then show ?thesis using False e dropWhile_digits [OF i(4), of ex] by (auto simp: scan_frac_def r_def scan_digits_def)
  qed
  moreover have "scan_exp ex = Some []"
  proof (cases x)
    case None
    then show ?thesis by (simp add: ex_def scan_exp_def)
  next
    case (Some nd)
    then obtain neg ds where "x = Some (neg, ds)" by (cases nd) auto
    then show ?thesis using ok by (cases ds) (auto simp: ex_def scan_exp_def scan_digits_def parts_ok_def is_e_def list_all_iff)
  qed
  ultimately show ?thesis by (simp add: number_token_def scan_number_def)
qed

text \<open>Both notations are such numerals, with the value of the digits.\<close>

lemma dec_value_zeros: "dec_value (replicate n (CHR ''0'') @ t) = dec_value t"
  by (induction n) (simp_all add: dec_value_def)

lemma dec_value_zero_Cons: "dec_value (CHR ''0'' # t) = dec_value t"
  using dec_value_zeros [of 1 t] by simp

lemma to_string_pos_head: "0 < n \<Longrightarrow> hd (to_string n) \<noteq> CHR ''0''"
  using to_string_head [of n] by simp

lemma scientific_parts:
  assumes "0 < ds"
  obtains i f x' where "(if s then ''-'' else []) @ scientific ds x = parts s i f x'" "parts_ok i f x'"
    "of_nat (dec_value (i @ f)) * pow10 (parts_exp x' - int (length f)) = of_nat ds * pow10 x"
proof -
  define t e mag where "t = to_string ds" and "e = x + int (length t) - 1" and "mag = to_string (nat \<bar>e\<bar>)"
  have t: "t \<noteq> []" "list_all isdigit t" "hd t \<noteq> CHR ''0''" "dec_value t = ds" "list_all isdigit mag" "mag \<noteq> []" "dec_value mag = nat \<bar>e\<bar>"
    using to_string_digits [of ds] to_string_digits [of "nat \<bar>e\<bar>"] to_string_pos_head [OF assms] by (simp_all add: t_def mag_def)
  define m where "m = (if length mag < 2 then CHR ''0'' # mag else mag)"
  have m: "list_all isdigit m" "m \<noteq> []" "dec_value m = nat \<bar>e\<bar>" using t(5-7) by (auto simp: m_def dec_value_zero_Cons isdigit_def)
  obtain c u where cu: "t = c # u" using t(1) by (cases t) auto
  show thesis
  proof (rule that [of "[hd t]" "tl t" "Some (e < 0, m)"])
    show "(if s then ''-'' else []) @ scientific ds x = parts s [hd t] (tl t) (Some (e < 0, m))"
      by (simp add: scientific_def parts_def Let_def m_def mag_def e_def t_def)
    show "parts_ok [hd t] (tl t) (Some (e < 0, m))" using t(2,3) m cu by (simp add: parts_ok_def)
    have "parts_exp (Some (e < 0, m)) - int (length (tl t)) = x" using m(3) cu by (simp add: parts_exp_def e_def)
    then show "of_nat (dec_value ([hd t] @ tl t)) * pow10 (parts_exp (Some (e < 0, m)) - int (length (tl t))) = of_nat ds * pow10 x"
      using t(1,4) by simp
  qed
qed

lemma fixed_parts:
  assumes "0 < ds" "0 \<le> x \<Longrightarrow> of_nat N = q \<and> 0 < N"
  obtains i f where "(if s then ''-'' else []) @ fixed q ds x = parts s i f None" "parts_ok i f None"
    "of_nat (dec_value (i @ f)) * pow10 (parts_exp None - int (length f)) = (if 0 \<le> x then q else of_nat ds * pow10 x)"
proof -
  define t n where "t = to_string ds" and "n = int (length t)"
  have t: "t \<noteq> []" "list_all isdigit t" "hd t \<noteq> CHR ''0''" "dec_value t = ds"
    using to_string_digits [of ds] to_string_pos_head [OF assms(1)] by (simp_all add: t_def)
  consider "0 \<le> x" | "x < 0" "n + x > 0" | "x < 0" "n + x \<le> 0" by linarith
  then show thesis
  proof cases
    case 1
    then have q: "q = of_nat N" "0 < N" using assms(2) by auto
    have z: "to_string N \<noteq> []" "list_all isdigit (to_string N)" "hd (to_string N) \<noteq> CHR ''0''"
      using to_string_digits [of N] to_string_pos_head [OF q(2)] by simp_all
    show thesis
    proof (rule that [of "to_string N" "[]"])
      show "(if s then ''-'' else []) @ fixed q ds x = parts s (to_string N) [] None" using 1 by (simp add: fixed_def parts_def q Let_def)
      show "parts_ok (to_string N) [] None" using z by (simp add: parts_ok_def)
    qed (use 1 in \<open>simp add: q parts_exp_def pow10_def\<close>)
  next
    case 2
    define k where "k = nat (n + x)"
    have k: "0 < k" "k < length t" "int (length (drop k t)) = - x" using 2 by (simp_all add: k_def n_def nat_less_iff)
    show thesis
    proof (rule that [of "take k t" "drop k t"])
      show "(if s then ''-'' else []) @ fixed q ds x = parts s (take k t) (drop k t) None"
        using 2 k by (simp add: fixed_def parts_def t_def n_def k_def Let_def)
      show "parts_ok (take k t) (drop k t) None"
        using t k by (auto simp: parts_ok_def list_all_iff dest: in_set_takeD in_set_dropD)
      show "of_nat (dec_value (take k t @ drop k t)) * pow10 (parts_exp None - int (length (drop k t))) =
          (if 0 \<le> x then q else of_nat ds * pow10 x)"
        unfolding k(3) using 2 t(4) by (simp add: parts_exp_def)
    qed
  next
    case 3
    define z where "z = replicate (nat (- (n + x))) (CHR ''0'')"
    have l: "int (length (z @ t)) = - x" using 3 by (simp add: z_def n_def)
    show thesis
    proof (rule that [of "''0''" "z @ t"])
      show "(if s then ''-'' else []) @ fixed q ds x = parts s ''0'' (z @ t) None"
        using 3 t(1) by (simp add: fixed_def parts_def t_def n_def z_def Let_def)
      show "parts_ok ''0'' (z @ t) None" using t(2) by (auto simp: parts_ok_def isdigit_def z_def list_all_iff)
      show "of_nat (dec_value (''0'' @ z @ t)) * pow10 (parts_exp None - int (length (z @ t))) = (if 0 \<le> x then q else of_nat ds * pow10 x)"
        unfolding l using 3 t(4) by (simp add: parts_exp_def dec_value_zero_Cons z_def dec_value_zeros)
    qed
  qed
qed

section \<open>Doubles read back\<close>

lemma rounded_integer:
  assumes "round_magnitude s (of_nat N) = Some (Finite s m e)" "0 < N"
  shows "\<exists>k. of_nat m * pow2 e = of_int k"
proof -
  define b where "b = round_exp (of_nat N)"
  have pos: "(0::rat) < of_nat N" using assms(2) by simp
  have "round_signed s (of_nat N) = Finite s m e" using assms(1) by (simp add: round_signed_def)
  then have v: "of_nat m * pow2 e = of_int (round_half_even (of_nat N / pow2 b)) * pow2 b"
    using round_signed_cases [OF pos, of s] by (auto simp: rounded_def b_def)
  show ?thesis
  proof (cases "0 \<le> b")
    case True
    then have "of_nat m * pow2 e = of_int (round_half_even (of_nat N / pow2 b) * 2 ^ nat b)" using v by (simp add: pow2_def)
    then show ?thesis by blast
  next
    case False
    then have "of_nat N / pow2 b = of_int (int N * 2 ^ nat (- b))" by (simp add: pow2_def)
    then have "round_half_even (of_nat N / pow2 b) = int N * 2 ^ nat (- b)" using round_half_even_near [of _ "int N * 2 ^ nat (- b)"] by simp
    then have "of_nat m * pow2 e = of_nat N / pow2 b * pow2 b" using v \<open>of_nat N / pow2 b = _\<close> by simp
    then have "of_nat m * pow2 e = of_int (int N)" by simp
    then show ?thesis by blast
  qed
qed

lemma to_chars_parts:
  assumes wf: "double_wf (Finite s m e)" "0 < m"
  obtains i f x where "to_chars_double (Finite s m e) = parts s i f x" "parts_ok i f x"
    "from_chars_double (parts s i f x) = Parsed (Finite s m e)" "length (to_chars_double (Finite s m e)) \<le> 30"
proof -
  let ?d = "Finite s m e"
  define q where "q = of_nat m * pow2 e"
  have q: "\<bar>rat_of_double ?d\<bar> = q" "0 < q" using wf by (simp_all add: abs_mult less_imp_le q_def)
  obtain c0 x0 where s0: "shortest_from 16 1 ?d = (c0, x0)" by fastforce
  obtain c x where s1: "strip_zeros 20 c0 x0 = (c, x)" by fastforce
  note r0 = shortest_from_reads [OF wf s0] and v1 = strip_zeros_value [OF s1]
  have c: "0 < c" "c \<le> 10 ^ 17 + 1" "- 346 \<le> x" "x \<le> 329" using r0 v1 by auto
  have rm: "round_magnitude s (of_nat c * pow10 x) = Some ?d" using r0 v1 by auto
  have "\<exists>N. 0 \<le> x \<longrightarrow> of_nat N = q \<and> 0 < N"
  proof (cases "0 \<le> x")
    case True
    then have "of_nat c * pow10 x = of_nat (c * 10 ^ nat x)" by (simp add: pow10_def)
    then obtain k where k: "q = of_int k" using rounded_integer [of s "c * 10 ^ nat x" m e] rm c(1) by (auto simp: q_def)
    then have "q = of_nat (nat k)" "0 < nat k" using q(2) by simp_all
    then show ?thesis by metis
  qed simp
  then obtain N where N: "0 \<le> x \<Longrightarrow> of_nat N = q \<and> 0 < N" by blast
  let ?f = "fixed q c x" and ?sc = "scientific c x" and ?sg = "if s then ''-'' else []"
  have t: "to_chars_double ?d = ?sg @ (if length ?f \<le> length ?sc then ?f else ?sc)"
    using wf(2) unfolding to_chars_double_def double.case q(1) by (simp only: s0 s1 Let_def prod.case if_False neq0_conv [symmetric])
  have rq: "round_magnitude s q = Some ?d" unfolding q_def using wf by (intro round_magnitude_near) simp_all
  obtain i f x' v where p: "to_chars_double ?d = parts s i f x'" "parts_ok i f x'" "numeral_magnitude (parts s i f x') = v" "round_magnitude s v = Some ?d"
  proof (cases "length ?f \<le> length ?sc")
    case True
    obtain i f where "?sg @ ?f = parts s i f None" "parts_ok i f None"
      "of_nat (dec_value (i @ f)) * pow10 (parts_exp None - int (length f)) = (if 0 \<le> x then q else of_nat c * pow10 x)"
      using fixed_parts [OF c(1) N] by metis
    then show thesis using that [of i f None "if 0 \<le> x then q else of_nat c * pow10 x"] True t rm rq parts_value [of i f None s] by simp
  next
    case False
    obtain i f x' where "?sg @ ?sc = parts s i f x'" "parts_ok i f x'"
      "of_nat (dec_value (i @ f)) * pow10 (parts_exp x' - int (length f)) = of_nat c * pow10 x"
      using scientific_parts [OF c(1)] by metis
    then show thesis using that [of i f x' "of_nat c * pow10 x"] False t rm parts_value [of i f x' s] by simp
  qed
  have "c < 10 ^ 18" using c(2) by simp
  then have l: "length (to_string c) \<le> 18" using length_to_string [of c 18] by simp
  have e: "nat \<bar>x + int (length (to_string c)) - 1\<bar> < 10 ^ 3" using c(3,4) l by simp
  have "length ?sc \<le> 27"
    using l length_to_string [OF e] by (cases "to_string c") (auto simp: scientific_def Let_def)
  then have "length (to_chars_double ?d) \<le> 30" by (simp add: t)
  moreover have "from_chars_double (parts s i f x') = Parsed ?d"
    using p(3,4) parts_fields(1) [OF p(2)] q wf(2) by (simp add: from_chars_double_def)
  ultimately show thesis using that p(1,2) by blast
qed

lemma to_chars_reads_back:
  assumes wf: "double_wf (Finite s m e)" "0 < m"
  shows "number_token (to_chars_double (Finite s m e))" "ParseFiniteDouble (to_chars_double (Finite s m e)) = Some (Finite s m e)"
    "length (to_chars_double (Finite s m e)) \<le> 30"
proof -
  obtain i f x where p: "to_chars_double (Finite s m e) = parts s i f x" "parts_ok i f x"
    "from_chars_double (parts s i f x) = Parsed (Finite s m e)" "length (to_chars_double (Finite s m e)) \<le> 30"
    using to_chars_parts [OF wf] by metis
  show "number_token (to_chars_double (Finite s m e))" using p(1,2) parts_token by simp
  show "ParseFiniteDouble (to_chars_double (Finite s m e)) = Some (Finite s m e)" using p(3) by (simp add: p(1) ParseFiniteDouble_def)
  show "length (to_chars_double (Finite s m e)) \<le> 30" by (rule p(4))
qed

text \<open>The text of a number in a message: integers of 64 bits as such, everything else by \<open>to_chars\<close>.\<close>

lemma FormatInteger_reads_back:
  assumes wf: "double_wf d" "d \<noteq> Finite True 0 (- 1074)" and k: "rat_of_double d = of_int k" "\<bar>k\<bar> < 2 ^ 64"
  shows "double_of_int k = d" "length (FormatInteger k) \<le> 21"
proof -
  obtain s m e where d: "d = Finite s m e" using wf(1) by (cases d) auto
  show "double_of_int k = d"
  proof (cases "m = 0")
    case True
    then have "e = - 1074" "\<not> s" "k = 0" using wf k(1) d by auto
    then show ?thesis using True d by (simp add: double_of_int_def round_magnitude_def)
  next
    case False
    have "round_magnitude s (of_nat m * pow2 e) = Some d" using wf False unfolding d by (intro round_magnitude_near) simp_all
    moreover have "0 < of_nat m * pow2 e" using False by simp
    then have "(of_int \<bar>k\<bar> :: rat) = of_nat m * pow2 e" "k < 0 \<longleftrightarrow> s"
      using k(1) of_int_less_0_iff [of k, where ?'a = rat] by (auto simp: d abs_if split: if_splits)
    ultimately show ?thesis by (simp add: double_of_int_def)
  qed
  have "nat \<bar>k\<bar> < 10 ^ 20" using k(2) by simp
  then show "length (FormatInteger k) \<le> 21" using length_to_string [of "nat \<bar>k\<bar>" 20] by (auto simp: FormatInteger_def abs_if)
qed

lemma StringifyNumber_reads_back:
  assumes wf: "double_wf d" "d \<noteq> Finite True 0 (- 1074)"
  shows "number_token (StringifyNumber d [])" "ParseFiniteDouble (StringifyNumber d []) = Some d" "length (StringifyNumber d []) \<le> 30"
proof -
  obtain s m e where d: "d = Finite s m e" using wf(1) by (cases d) auto
  define k where "k = \<lfloor>rat_of_double d\<rfloor>"
  let ?int = "no_fraction d \<and> (0 \<le> rat_of_double d \<and> rat_of_double d < 2 ^ 64 \<or> - (2 ^ 63) \<le> rat_of_double d \<and> rat_of_double d < 2 ^ 63)"
  have "number_token (StringifyNumber d []) \<and> ParseFiniteDouble (StringifyNumber d []) = Some d \<and> length (StringifyNumber d []) \<le> 30"
  proof (cases ?int)
    case True
    then have t: "StringifyNumber d [] = FormatInteger k" and v: "rat_of_double d = of_int k" by (auto simp: StringifyNumber_def d k_def)
    have "\<bar>of_int k :: rat\<bar> < 2 ^ 64" using True unfolding v by (auto simp: abs_if)
    then have "(of_int \<bar>k\<bar> :: rat) < of_int (2 ^ 64)" by simp
    then have k: "\<bar>k\<bar> < 2 ^ 64" by (simp only: of_int_less_iff)
    show ?thesis using FormatInteger_reads_back [OF wf v k] FormatInteger_number [OF k] t by simp
  next
    case False
    have "m \<noteq> 0"
    proof
      assume "m = 0"
      then show False using False by (simp add: d)
    qed
    then have r: "number_token (to_chars_double d)" "ParseFiniteDouble (to_chars_double d) = Some d" "length (to_chars_double d) \<le> 30"
      using to_chars_reads_back [of s m e] wf by (simp_all add: d)
    then have "StringifyNumber d [] = to_chars_double d" using False by (auto simp: StringifyNumber_def FormatDouble_def d)
    then show ?thesis using r by simp
  qed
  then show "number_token (StringifyNumber d [])" "ParseFiniteDouble (StringifyNumber d []) = Some d" "length (StringifyNumber d []) \<le> 30" by auto
qed

end
