(* ===== verification/LearningText.thy ===== *)
theory LearningText
  imports DoubleText StdMap "HOL-Library.Monad_Syntax"
begin

text \<open>
  The text of the learning file, \<open>src/learning/src/LearningStore.cpp\<close>: the events and records, the
  escaped fields, the number fields, a row of the current format and one of the old format, and the
  rows of a whole text. A record's times and counts are \<open>uint64_t\<close>, words of 64 bits.
\<close>

section \<open>Events and records\<close>

datatype LearningEventType = EvNone | EvCommit | EvCorrectionAccept | EvCorrectionReject | EvTypoAccept | EvTypoReject

fun LearningEventTypeName :: "LearningEventType \<Rightarrow> string" where
  "LearningEventTypeName EvNone = []"
| "LearningEventTypeName EvCommit = ''commit''"
| "LearningEventTypeName EvCorrectionAccept = ''correction_accept''"
| "LearningEventTypeName EvCorrectionReject = ''correction_reject''"
| "LearningEventTypeName EvTypoAccept = ''typo_accept''"
| "LearningEventTypeName EvTypoReject = ''typo_reject''"

definition ParseLearningEventType :: "string \<Rightarrow> LearningEventType option" where
  "ParseLearningEventType name =
     List.find (\<lambda>ev. LearningEventTypeName ev = name)
       [EvNone, EvCommit, EvCorrectionAccept, EvCorrectionReject, EvTypoAccept, EvTypoReject]"

record LearningRecord =
  weight :: double
  last_updated_epoch_sec :: "64 word"
  commit_count :: "64 word"
  accept_count :: "64 word"
  reject_count :: "64 word"
  last_event :: LearningEventType
  context_hash :: string

definition empty_record :: LearningRecord where
  "empty_record = \<lparr>weight = Finite False 0 (- 1074), last_updated_epoch_sec = 0, commit_count = 0, accept_count = 0,
     reject_count = 0, last_event = EvNone, context_hash = []\<rparr>"

record LearningEntry =
  entry_reading :: string
  entry_surface :: string
  entry_record :: LearningRecord
  entry_app_name :: string

definition kMaxLearningCount :: "64 word" where
  "kMaxLearningCount = 1000000000"

definition kMaxLearningWeight :: double where
  "kMaxLearningWeight = double_lit 1000000000"

definition kLearningStoreEscapedTsvHeader :: string where
  "kLearningStoreEscapedTsvHeader = ''# azookey-learning-tsv escaped=1''"

definition kLearningStoreV2Header :: string where
  "kLearningStoreV2Header = ''# azookey-learning-tsv escaped=1 version=2''"

section \<open>Fields\<close>

fun EscapeTsvField :: "string \<Rightarrow> string" where
  "EscapeTsvField [] = []"
| "EscapeTsvField (ch # s) =
     (if ch = CHR 92 then [CHR 92, CHR 92]
      else if ch = CHR 9 then [CHR 92, CHR ''t'']
      else if ch = CHR 10 then [CHR 92, CHR ''n'']
      else if ch = CHR 13 then [CHR 92, CHR ''r'']
      else [ch]) @ EscapeTsvField s"

fun UnescapeTsvField :: "string \<Rightarrow> string" where
  "UnescapeTsvField [] = []"
| "UnescapeTsvField [ch] = [ch]"
| "UnescapeTsvField (ch # escaped # s) =
     (if ch \<noteq> CHR 92 then ch # UnescapeTsvField (escaped # s)
      else (if escaped = CHR 92 then [CHR 92]
            else if escaped = CHR ''t'' then [CHR 9]
            else if escaped = CHR ''n'' then [CHR 10]
            else if escaped = CHR ''r'' then [CHR 13]
            else [CHR 92, escaped]) @ UnescapeTsvField s)"

definition IsAsciiWhitespace :: "char \<Rightarrow> bool" where
  "IsAsciiWhitespace ch \<longleftrightarrow> ch \<in> {CHR '' '', CHR 9, CHR 10, CHR 13, CHR 12, CHR 11}"

definition TrimLeadingAsciiWhitespace :: "string \<Rightarrow> string" where
  "TrimLeadingAsciiWhitespace s = dropWhile IsAsciiWhitespace s"

text \<open>The token and the rest of the input.\<close>

definition ConsumeAsciiToken :: "string \<Rightarrow> (string \<times> string) option" where
  "ConsumeAsciiToken input =
     (let s = TrimLeadingAsciiWhitespace input in
      if s = [] then None
      else Some (takeWhile (\<lambda>c. \<not> IsAsciiWhitespace c) s, dropWhile (\<lambda>c. \<not> IsAsciiWhitespace c) s))"

text \<open>
  The numerals \<open>std::from_chars\<close> reads to the end as a finite double: an optional minus sign,
  digits with at most one point, and an optional exponent. A value out of range is an error.
\<close>

definition exponent_ok :: "string \<Rightarrow> bool" where
  "exponent_ok x \<longleftrightarrow>
     (let ds = (if x \<noteq> [] \<and> (hd x = CHR ''-'' \<or> hd x = CHR ''+'') then tl x else x) in ds \<noteq> [] \<and> list_all isdigit ds)"

definition decimal_token :: "string \<Rightarrow> bool" where
  "decimal_token t \<longleftrightarrow>
     (let x = dropWhile (\<lambda>c. \<not> is_e c) (strip_sign t) in
      int_digits t @ frac_digits t \<noteq> [] \<and> list_all isdigit (int_digits t) \<and> list_all isdigit (frac_digits t) \<and>
      (x = [] \<or> exponent_ok (tl x)))"

definition ParseFiniteNonNegativeDouble :: "string \<Rightarrow> double option" where
  "ParseFiniteNonNegativeDouble token =
     (if \<not> decimal_token token then None
      else case from_chars_double token of
             OutOfRange \<Rightarrow> None
           | Parsed d \<Rightarrow> if \<not> isfinite d \<or> double_less d 0 then None else Some d)"

definition ParseUint64 :: "string \<Rightarrow> 64 word option" where
  "ParseUint64 token =
     (case from_chars_unsigned (2 ^ 64) token of
        Some (n, []) \<Rightarrow> Some (word_of_nat n)
      | _ \<Rightarrow> None)"

definition IsContextHash :: "string \<Rightarrow> bool" where
  "IsContextHash s \<longleftrightarrow>
     s = [] \<or> (length s = 10 \<and> take 2 s = ''0x'' \<and>
       list_all (\<lambda>ch. (48 \<le> ord ch \<and> ord ch \<le> 57) \<or> (97 \<le> ord ch \<and> ord ch \<le> 102)) (drop 2 s))"

function SplitTabs :: "string \<Rightarrow> string list" where
  "SplitTabs line =
     (case find_char (CHR 9) line of
        None \<Rightarrow> [line]
      | Some i \<Rightarrow> take i line # SplitTabs (drop (Suc i) line))"
  by pat_completeness auto
termination by (relation "measure length") (auto dest: find_char_Some)

declare SplitTabs.simps [simp del]

text \<open>\<open>std::min\<close>, \<open>/\<close> and \<open>std::round\<close>, which takes halves away from zero.\<close>

definition double_min :: "double \<Rightarrow> double \<Rightarrow> double" where
  "double_min a b = (if double_lt b a then b else a)"

fun double_div :: "double \<Rightarrow> double \<Rightarrow> double" where
  "double_div NaN _ = NaN"
| "double_div _ NaN = NaN"
| "double_div (Infinite s) (Infinite t) = NaN"
| "double_div (Infinite s) (Finite t n f) = Infinite (s \<noteq> t)"
| "double_div (Finite s m e) (Infinite t) = Finite (s \<noteq> t) 0 (- 1074)"
| "double_div (Finite s m e) (Finite t n f) =
     (if n = 0 then (if m = 0 then NaN else Infinite (s \<noteq> t))
      else round_signed (s \<noteq> t) \<bar>rat_of_double (Finite s m e) / rat_of_double (Finite t n f)\<bar>)"

fun double_round :: "double \<Rightarrow> double" where
  "double_round (Finite s m e) = round_signed s (of_int \<lfloor>\<bar>rat_of_double (Finite s m e)\<bar> + 1 / 2\<rfloor>)"
| "double_round d = d"

section \<open>Rows\<close>

definition kV2FieldCount :: nat where
  "kV2FieldCount = 10"

definition bounded_record :: "LearningRecord \<Rightarrow> LearningRecord" where
  "bounded_record r = r\<lparr>weight := double_min (weight r) kMaxLearningWeight,
     commit_count := min (commit_count r) kMaxLearningCount,
     accept_count := min (accept_count r) kMaxLearningCount,
     reject_count := min (reject_count r) kMaxLearningCount\<rparr>"

definition ParseV2Row :: "string \<Rightarrow> LearningEntry option" where
  "ParseV2Row line =
     (let fields = SplitTabs line in
      if length fields \<noteq> kV2FieldCount \<or> fields ! 0 = [] \<or> fields ! 1 = [] then None
      else do {
        w \<leftarrow> ParseFiniteNonNegativeDouble (fields ! 2);
        updated \<leftarrow> ParseUint64 (fields ! 3);
        commits \<leftarrow> ParseUint64 (fields ! 4);
        accepts \<leftarrow> ParseUint64 (fields ! 5);
        rejects \<leftarrow> ParseUint64 (fields ! 6);
        event \<leftarrow> ParseLearningEventType (fields ! 8);
        if \<not> IsContextHash (fields ! 9) then None
        else Some \<lparr>entry_reading = UnescapeTsvField (fields ! 0),
               entry_surface = UnescapeTsvField (fields ! 1),
               entry_record = bounded_record \<lparr>weight = w, last_updated_epoch_sec = updated, commit_count = commits,
                 accept_count = accepts, reject_count = rejects, last_event = event, context_hash = fields ! 9\<rparr>,
               entry_app_name = UnescapeTsvField (fields ! 7)\<rparr>
      })"

definition ParseRecordValues :: "string \<Rightarrow> LearningRecord option" where
  "ParseRecordValues s = do {
     (weight_token, s1) \<leftarrow> ConsumeAsciiToken s;
     (timestamp_token, s2) \<leftarrow> ConsumeAsciiToken s1;
     if TrimLeadingAsciiWhitespace s2 \<noteq> [] then None
     else do {
       w \<leftarrow> ParseFiniteNonNegativeDouble weight_token;
       updated \<leftarrow> ParseUint64 timestamp_token;
       Some (empty_record\<lparr>weight := w, last_updated_epoch_sec := updated\<rparr>)
     }
   }"

text \<open>\<open>d <= 0.0\<close>\<close>

fun double_nonpos :: "double \<Rightarrow> bool" where
  "double_nonpos (Finite s m e) \<longleftrightarrow> rat_of_double (Finite s m e) \<le> 0"
| "double_nonpos (Infinite s) \<longleftrightarrow> s"
| "double_nonpos NaN \<longleftrightarrow> False"

definition FillMigratedCounts :: "LearningRecord \<Rightarrow> LearningRecord" where
  "FillMigratedCounts r =
     (if double_nonpos (weight r) then r
      else let commits = double_min (double_round (double_div (weight r) (double_lit (8 / 10)))) (double_of_int (uint kMaxLearningCount))
           in r\<lparr>commit_count := (if double_less commits 1 then 1 else word_of_int \<lfloor>rat_of_double commits\<rfloor>)\<rparr>)"

text \<open>\<open>std::getline\<close> with a delimiter: it fails at the end of the text.\<close>

definition getline_to :: "char \<Rightarrow> string \<Rightarrow> (string \<times> string) option" where
  "getline_to d s = (if s = [] then None
     else case find_char d s of
         None \<Rightarrow> Some (s, [])
       | Some i \<Rightarrow> Some (take i s, drop (Suc i) s))"

definition ParseLegacyRow :: "string \<Rightarrow> bool \<Rightarrow> LearningEntry option" where
  "ParseLegacyRow line escaped_fields = do {
     (rd, s1) \<leftarrow> getline_to (CHR 9) line;
     (sf, s2) \<leftarrow> getline_to (CHR 9) s1;
     (weight_timestamp, s3) \<leftarrow> getline_to (CHR 10) s2;
     r \<leftarrow> ParseRecordValues weight_timestamp;
     Some \<lparr>entry_reading = (if escaped_fields then UnescapeTsvField rd else rd),
           entry_surface = (if escaped_fields then UnescapeTsvField sf else sf),
           entry_record = FillMigratedCounts (r\<lparr>weight := double_min (weight r) kMaxLearningWeight\<rparr>),
           entry_app_name = []\<rparr>
   }"

section \<open>The rows of a text\<close>

text \<open>What \<open>ParseRows\<close> reports to its callbacks, in the order of the calls.\<close>

datatype row_report = Row LearningEntry | MalformedRow nat

datatype Format = FormatV2 | FormatEscaped | FormatLegacy

function ParseRows_loop :: "string \<Rightarrow> nat \<Rightarrow> Format \<Rightarrow> row_report list" where
  "ParseRows_loop ifs line_number format =
     (case getline_to (CHR 10) ifs of
        None \<Rightarrow> []
      | Some (line, rest) \<Rightarrow>
          (let n = line_number + 1 in
           if n = 1 \<and> line = kLearningStoreV2Header then ParseRows_loop rest n FormatV2
           else if n = 1 \<and> line = kLearningStoreEscapedTsvHeader then ParseRows_loop rest n FormatEscaped
           else if line = [] then ParseRows_loop rest n format
           else (case (if format = FormatV2 then ParseV2Row line else ParseLegacyRow line (format = FormatEscaped)) of
                   Some entry \<Rightarrow> Row entry
                 | None \<Rightarrow> MalformedRow n) # ParseRows_loop rest n format))"
  by pat_completeness auto
termination
  by (relation "measure (\<lambda>(s, n, f). length s)") (auto simp: getline_to_def split: if_splits option.splits)

declare ParseRows_loop.simps [simp del]

definition ParseRows :: "string \<Rightarrow> row_report list" where
  "ParseRows s = ParseRows_loop s 0 FormatLegacy"

definition CountValidLearningRows :: "string \<Rightarrow> nat option" where
  "CountValidLearningRows s =
     (let rows = ParseRows s in
      if list_all (\<lambda>r. case r of Row _ \<Rightarrow> True | MalformedRow _ \<Rightarrow> False) rows then Some (length rows) else None)"

section \<open>What is written is read back\<close>

lemma event_name_roundtrip [simp]: "ParseLearningEventType (LearningEventTypeName ev) = Some ev"
  by (cases ev) (simp_all add: ParseLearningEventType_def)

lemma event_name_plain: "CHR 9 \<notin> set (LearningEventTypeName ev) \<and> CHR 10 \<notin> set (LearningEventTypeName ev)"
  by (cases ev) simp_all

lemma UnescapeTsvField_plain: "ch \<noteq> CHR 92 \<Longrightarrow> UnescapeTsvField (ch # s) = ch # UnescapeTsvField s"
  by (cases s) simp_all

lemma Unescape_Escape [simp]: "UnescapeTsvField (EscapeTsvField s) = s"
  by (induction s) (simp_all add: UnescapeTsvField_plain)

lemma Escape_plain: "CHR 9 \<notin> set (EscapeTsvField s) \<and> CHR 10 \<notin> set (EscapeTsvField s)"
  by (induction s) auto

lemma Escape_Nil [simp]: "EscapeTsvField s = [] \<longleftrightarrow> s = []"
  by (cases s) auto

lemma Escape_inject [simp]: "EscapeTsvField s = EscapeTsvField t \<longleftrightarrow> s = t"
  by (metis Unescape_Escape)

lemma ParseUint64_written [simp]: "ParseUint64 (to_string (unat w)) = Some w"
proof -
  have "unat w < 2 ^ LENGTH(64)" by (rule unsigned_less)
  then show ?thesis using from_chars_to_string [of "unat w" "2 ^ 64" "[]"] by (simp add: ParseUint64_def)
qed

lemma to_string_plain: "CHR 9 \<notin> set (to_string n) \<and> CHR 10 \<notin> set (to_string n)"
  using to_string_digits [of n] by (auto simp: list_all_iff isdigit_def)

lemma hash_plain: "IsContextHash h \<Longrightarrow> CHR 9 \<notin> set h \<and> CHR 10 \<notin> set h"
proof (cases "h = []")
  case False
  assume "IsContextHash h"
  then have h: "take 2 h = ''0x''" "list_all (\<lambda>ch. 48 \<le> ord ch) (drop 2 h)"
    using False by (auto simp: IsContextHash_def list_all_iff)
  have "CHR 9 \<notin> set (take 2 h @ drop 2 h) \<and> CHR 10 \<notin> set (take 2 h @ drop 2 h)"
    unfolding set_append h(1) using h(2) by (auto simp: list_all_iff)
  then show ?thesis by simp
qed simp

lemma parts_decimal: "parts_ok i f x \<Longrightarrow> decimal_token (parts s i f x)"
  by (auto simp: decimal_token_def parts_fields Let_def parts_ok_def exponent_ok_def split: option.splits)

definition weight_ok :: "double \<Rightarrow> bool" where
  "weight_ok d \<longleftrightarrow> double_wf d \<and> 0 \<le> rat_of_double d"

lemma decimal_token_plain: "parts_ok i f x \<Longrightarrow> CHR 9 \<notin> set (parts s i f x) \<and> CHR 10 \<notin> set (parts s i f x)"
  by (auto simp: parts_def parts_ok_def list_all_iff isdigit_def split: option.splits)

lemma weight_written:
  assumes "weight_ok d"
  shows "ParseFiniteNonNegativeDouble (to_chars_double d) = Some d"
    "CHR 9 \<notin> set (to_chars_double d) \<and> CHR 10 \<notin> set (to_chars_double d)"
proof -
  obtain s m e where d: "d = Finite s m e" using assms by (cases d) (auto simp: weight_ok_def)
  have "\<exists>i f x. to_chars_double d = parts s i f x \<and> parts_ok i f x \<and> from_chars_double (parts s i f x) = Parsed d"
  proof (cases "m = 0")
    case True
    then have "e = - 1074" using assms by (auto simp: d weight_ok_def)
    moreover have "to_chars_double d = parts s ''0'' [] None" "parts_ok ''0'' [] None"
      using True by (simp_all add: d to_chars_double_def parts_def parts_ok_def isdigit_def)
    moreover from this have "from_chars_double (parts s ''0'' [] None) = Parsed (Finite s 0 (- 1074))"
      by (simp add: from_chars_double_def parts_value parts_fields round_magnitude_def dec_value_def)
    ultimately show ?thesis using True by (metis d)
  next
    case False
    then show ?thesis using to_chars_parts [of s m e] assms by (metis d weight_ok_def neq0_conv)
  qed
  then obtain i f x where p: "to_chars_double d = parts s i f x" "parts_ok i f x" "from_chars_double (parts s i f x) = Parsed d" by blast
  have "isfinite d" "\<not> double_less d 0" using assms by (simp_all add: d weight_ok_def)
  then show "ParseFiniteNonNegativeDouble (to_chars_double d) = Some d"
    using parts_decimal [OF p(2)] p(3) by (simp add: p(1) ParseFiniteNonNegativeDouble_def)
  show "CHR 9 \<notin> set (to_chars_double d) \<and> CHR 10 \<notin> set (to_chars_double d)" using decimal_token_plain [OF p(2)] p(1) by simp
qed

lemma SplitTabs_field: "CHR 9 \<notin> set f \<Longrightarrow> SplitTabs (f @ CHR 9 # line) = f # SplitTabs line"
  by (subst SplitTabs.simps) (simp add: find_char_append)

lemma SplitTabs_last: "CHR 9 \<notin> set f \<Longrightarrow> SplitTabs f = [f]"
proof -
  assume "CHR 9 \<notin> set f"
  then have n: "find_char (CHR 9) f = None" by simp
  show ?thesis by (subst SplitTabs.simps) (simp only: n option.case)
qed

lemma getline_to_line: "d \<notin> set line \<Longrightarrow> getline_to d (line @ d # rest) = Some (line, rest)"
  by (simp add: getline_to_def find_char_append)

end
