(* ===== verification/LearningStore.thy ===== *)
theory LearningStore
  imports LearningText StdSort "HOL-Library.Product_Lexorder"
begin

text \<open>
  The learning store, \<open>src/learning/src/LearningStore.cpp\<close>, with the decay of \<open>LearningDecay.cpp\<close>:
  the table of rows keyed by reading, surface and application, the events that change it, lookups,
  pruning, merging of an imported store and the text of its file. The table is the nested
  \<open>std::map\<close> of the source; the interpretation \<open>rows\<close> shows that through its row operations it is
  one ordered map keyed by the triple. \<open>std::exp\<close> is a parameter of the operations that use it.
\<close>

section \<open>Decay\<close>

definition double_zero :: double where
  "double_zero = Finite False 0 (- 1074)"

definition ElapsedDays :: "64 word \<Rightarrow> 64 word \<Rightarrow> double" where
  "ElapsedDays last_updated now_epoch_sec =
     double_div (if now_epoch_sec \<ge> last_updated then double_of_int (uint (now_epoch_sec - last_updated)) else double_zero)
       (double_lit 86400)"

definition CategoryBit :: "nat \<Rightarrow> 16 word" where
  "CategoryBit category = push_bit category 1"

text \<open>The categories by their numbers: 1 to 7 are the proper nouns, 8 is technical, 9 is a neologism.\<close>

definition kProperNounBits :: "16 word" where
  "kProperNounBits = CategoryBit 1 OR CategoryBit 2 OR CategoryBit 3 OR CategoryBit 4 OR CategoryBit 5 OR CategoryBit 6 OR CategoryBit 7"

definition HalfLifeDaysForCategoryMask :: "16 word \<Rightarrow> double" where
  "HalfLifeDaysForCategoryMask category_mask =
     (if category_mask AND CategoryBit 8 \<noteq> 0 then double_lit 120
      else if category_mask AND kProperNounBits \<noteq> 0 then double_lit 90
      else if category_mask AND CategoryBit 9 \<noteq> 0 then double_lit 60
      else double_lit 30)"

definition HalfLifeRecency :: "(double \<Rightarrow> double) \<Rightarrow> 64 word \<Rightarrow> 64 word \<Rightarrow> double \<Rightarrow> double" where
  "HalfLifeRecency exp_fn last_updated now_epoch_sec half_life_days =
     (if \<not> double_lt double_zero half_life_days then double_lit 1
      else exp_fn (double_div (double_mul (double_neg (double_lit (693147180559945309417232121458176568 / 10 ^ 36)))
             (ElapsedDays last_updated now_epoch_sec)) half_life_days))"

definition LegacyRecency :: "(double \<Rightarrow> double) \<Rightarrow> 64 word \<Rightarrow> 64 word \<Rightarrow> double" where
  "LegacyRecency exp_fn last_updated now_epoch_sec =
     exp_fn (double_mul (double_neg (double_lit (15 / 100))) (ElapsedDays last_updated now_epoch_sec))"

definition DecayedWeight :: "(double \<Rightarrow> double) \<Rightarrow> LearningRecord \<Rightarrow> 64 word \<Rightarrow> double" where
  "DecayedWeight exp_fn r now_epoch_sec = double_mul (weight r) (LegacyRecency exp_fn (last_updated_epoch_sec r) now_epoch_sec)"

section \<open>The table\<close>

type_synonym app_rows = "(string, LearningRecord) map"
type_synonym learning_table = "(string, (string, app_rows) map) map"
type_synonym row_key = "string \<times> string \<times> string"

record store =
  st_table :: learning_table
  st_dirty :: bool

text \<open>\<open>m[k]\<close>, which makes a default value for a new key.\<close>

definition map_get :: "'v \<Rightarrow> 'k \<Rightarrow> ('k, 'v) map \<Rightarrow> 'v" where
  "map_get d k m = (case map_of m k of None \<Rightarrow> d | Some v \<Rightarrow> v)"

text \<open>The row operations: \<open>find\<close>, \<open>table[r][s][a] = v\<close>, \<open>table[r][s].emplace(a, v)\<close> and the removal in \<open>Prune\<close>.\<close>

fun find_row :: "learning_table \<Rightarrow> row_key \<Rightarrow> LearningRecord option" where
  "find_row t (rd, sf, app) = do { ss \<leftarrow> map_of t rd; aa \<leftarrow> map_of ss sf; map_of aa app }"

fun assign_row :: "row_key \<Rightarrow> LearningRecord \<Rightarrow> learning_table \<Rightarrow> learning_table" where
  "assign_row (rd, sf, app) r t =
     (let ss = map_get [] rd t; aa = map_get [] sf ss
      in map_assign rd (map_assign sf (map_assign app r aa) ss) t)"

fun emplace_row :: "row_key \<Rightarrow> LearningRecord \<Rightarrow> learning_table \<Rightarrow> learning_table" where
  "emplace_row (rd, sf, app) r t =
     (let ss = map_get [] rd t; aa = map_get [] sf ss
      in map_assign rd (map_assign sf (map_emplace app r aa) ss) t)"

fun erase_row :: "row_key \<Rightarrow> learning_table \<Rightarrow> learning_table" where
  "erase_row (rd, sf, app) t =
     (case map_of t rd of
        None \<Rightarrow> t
      | Some ss \<Rightarrow>
          (case map_of ss sf of
             None \<Rightarrow> t
           | Some aa \<Rightarrow>
               (let aa' = map_erase app aa;
                    ss' = (if aa' = [] then map_erase sf ss else map_assign sf aa' ss)
                in if ss' = [] then map_erase rd t else map_assign rd ss' t)))"

definition Rows :: "learning_table \<Rightarrow> string \<Rightarrow> string \<Rightarrow> app_rows option" where
  "Rows t rd sf = do { ss \<leftarrow> map_of t rd; map_of ss sf }"

text \<open>The loops over all rows: the entries in the order of the three maps.\<close>

definition row_list :: "learning_table \<Rightarrow> (row_key \<times> LearningRecord) list" where
  "row_list t = concat (map (\<lambda>(rd, ss). concat (map (\<lambda>(sf, aa). map (\<lambda>(app, r). ((rd, sf, app), r)) aa) ss)) t)"

fun row_entry :: "row_key \<times> LearningRecord \<Rightarrow> LearningEntry" where
  "row_entry ((rd, sf, app), r) = \<lparr>entry_reading = rd, entry_surface = sf, entry_record = r, entry_app_name = app\<rparr>"

definition AllEntries :: "learning_table \<Rightarrow> LearningEntry list" where
  "AllEntries t = map row_entry (row_list t)"

definition store_size :: "learning_table \<Rightarrow> nat" where
  "store_size t = sum_list (map (\<lambda>(rd, ss). sum_list (map (\<lambda>(sf, aa). length aa) ss)) t)"

section \<open>Learning\<close>

definition NormalizeLearningAppName :: "string \<Rightarrow> string" where
  "NormalizeLearningAppName process_name =
     map tolower (rev (takeWhile (\<lambda>c. c \<noteq> CHR ''/'' \<and> c \<noteq> CHR 92) (rev process_name)))"

record LearningObservation =
  obs_reading :: string
  obs_surface :: string
  obs_app_name :: string
  obs_event :: LearningEventType
  obs_context_hash :: string

text \<open>The weight and counts after an event.\<close>

fun apply_event :: "LearningEventType \<Rightarrow> double \<Rightarrow> LearningRecord \<Rightarrow> LearningRecord" where
  "apply_event EvCommit alpha r = r\<lparr>weight := double_add (weight r) alpha, commit_count := commit_count r + 1\<rparr>"
| "apply_event EvCorrectionAccept alpha r =
     r\<lparr>weight := double_add (weight r) alpha, commit_count := commit_count r + 1, accept_count := accept_count r + 1\<rparr>"
| "apply_event EvTypoAccept alpha r =
     r\<lparr>weight := double_add (weight r) (double_lit (25 / 100)), commit_count := commit_count r + 1, accept_count := accept_count r + 1\<rparr>"
| "apply_event EvCorrectionReject alpha r =
     r\<lparr>weight := double_max double_zero (double_sub (weight r) alpha), reject_count := reject_count r + 1\<rparr>"
| "apply_event EvTypoReject alpha r =
     r\<lparr>weight := double_max double_zero (double_sub (weight r) (double_lit (45 / 100))), reject_count := reject_count r + 1\<rparr>"
| "apply_event EvNone alpha r = r"

definition ObserveEvent :: "LearningObservation \<Rightarrow> double \<Rightarrow> 64 word \<Rightarrow> store \<Rightarrow> store" where
  "ObserveEvent obs alpha now_epoch_sec st =
     (if obs_event obs = EvNone then st
      else let key = (obs_reading obs, obs_surface obs, NormalizeLearningAppName (obs_app_name obs));
               r = (case find_row (st_table st) key of None \<Rightarrow> empty_record | Some r \<Rightarrow> r);
               r' = (apply_event (obs_event obs) alpha r)\<lparr>last_updated_epoch_sec := now_epoch_sec,
                      last_event := obs_event obs, context_hash := obs_context_hash obs\<rparr>
           in st\<lparr>st_table := assign_row key r' (st_table st), st_dirty := True\<rparr>)"

definition Observe :: "string \<Rightarrow> string \<Rightarrow> double \<Rightarrow> 64 word \<Rightarrow> store \<Rightarrow> store" where
  "Observe rd sf alpha now_epoch_sec =
     ObserveEvent \<lparr>obs_reading = rd, obs_surface = sf, obs_app_name = [], obs_event = EvCommit, obs_context_hash = []\<rparr> alpha now_epoch_sec"

definition ObserveCorrection :: "string \<Rightarrow> string \<Rightarrow> string \<Rightarrow> double \<Rightarrow> 64 word \<Rightarrow> store \<Rightarrow> store" where
  "ObserveCorrection rd rejected_surface selected_surface alpha now_epoch_sec st =
     ObserveEvent \<lparr>obs_reading = rd, obs_surface = rejected_surface, obs_app_name = [], obs_event = EvCorrectionReject, obs_context_hash = []\<rparr>
       alpha now_epoch_sec
       (ObserveEvent \<lparr>obs_reading = rd, obs_surface = selected_surface, obs_app_name = [], obs_event = EvCorrectionAccept, obs_context_hash = []\<rparr>
         alpha now_epoch_sec st)"

definition IsForgotten :: "LearningRecord \<Rightarrow> bool" where
  "IsForgotten r \<longleftrightarrow> double_nonpos (weight r) \<and> commit_count r = 0 \<and> accept_count r = 0 \<and> reject_count r = 0"

definition forgotten_record :: "LearningRecord \<Rightarrow> LearningRecord" where
  "forgotten_record r = empty_record\<lparr>last_updated_epoch_sec := last_updated_epoch_sec r\<rparr>"

definition Forget :: "string \<Rightarrow> string \<Rightarrow> store \<Rightarrow> bool \<times> store" where
  "Forget rd sf st =
     (case map_of (st_table st) rd of
        None \<Rightarrow> (False, st)
      | Some ss \<Rightarrow>
          (case map_of ss sf of
             None \<Rightarrow> (False, st)
           | Some aa \<Rightarrow>
               (True, st\<lparr>st_table := map_assign rd (map_assign sf (map (\<lambda>(app, r). (app, forgotten_record r)) aa) ss) (st_table st),
                         st_dirty := True\<rparr>)))"

definition Set :: "string \<Rightarrow> string \<Rightarrow> LearningRecord \<Rightarrow> store \<Rightarrow> store" where
  "Set rd sf r st =
     (if rd = [] \<or> sf = [] then st
      else let w = (if \<not> isfinite (weight r) then double_zero
                    else if double_lt (weight r) double_zero then double_zero
                    else if double_lt kMaxLearningWeight (weight r) then kMaxLearningWeight else weight r);
               bounded = r\<lparr>weight := w, commit_count := min (commit_count r) kMaxLearningCount,
                 accept_count := min (accept_count r) kMaxLearningCount,
                 reject_count := min (reject_count r) kMaxLearningCount, context_hash := []\<rparr>;
               ss = map_get [] rd (st_table st)
           in st\<lparr>st_table := map_assign rd (map_assign sf (map_emplace [] bounded []) ss) (st_table st), st_dirty := True\<rparr>)"

definition ResetStore :: "store \<Rightarrow> store" where
  "ResetStore st = st\<lparr>st_dirty := (st_dirty st \<or> st_table st \<noteq> []), st_table := []\<rparr>"

section \<open>Scores and lookups\<close>

definition AllForgotten :: "app_rows \<Rightarrow> bool" where
  "AllForgotten aa \<longleftrightarrow> list_all (\<lambda>(app, r). IsForgotten r) aa"

definition HasNetRejection :: "app_rows \<Rightarrow> bool" where
  "HasNetRejection aa \<longleftrightarrow> sum_list (map (\<lambda>(app, r). reject_count r) aa) > sum_list (map (\<lambda>(app, r). accept_count r) aa)"

definition SumDecayedWeight :: "(double \<Rightarrow> double) \<Rightarrow> app_rows \<Rightarrow> 64 word \<Rightarrow> double" where
  "SumDecayedWeight exp_fn aa now_epoch_sec = foldl (\<lambda>sum (app, r). double_add sum (DecayedWeight exp_fn r now_epoch_sec)) double_zero aa"

definition Score :: "(double \<Rightarrow> double) \<Rightarrow> learning_table \<Rightarrow> string \<Rightarrow> string \<Rightarrow> 64 word \<Rightarrow> double" where
  "Score exp_fn t rd sf now_epoch_sec = (case Rows t rd sf of None \<Rightarrow> double_zero | Some aa \<Rightarrow> SumDecayedWeight exp_fn aa now_epoch_sec)"

record LearningAggregate =
  agg_reading :: string
  agg_surface :: string
  agg_weight :: double
  agg_last_updated :: "64 word"
  agg_commit_count :: "64 word"
  agg_accept_count :: "64 word"
  agg_reject_count :: "64 word"
  agg_app_names :: "string list"

definition add_row :: "LearningAggregate \<Rightarrow> string \<times> LearningRecord \<Rightarrow> LearningAggregate" where
  "add_row agg row =
     (let (app, r) = row in
      if IsForgotten r then agg
      else agg\<lparr>agg_weight := double_add (agg_weight agg) (weight r),
        agg_last_updated := max (agg_last_updated agg) (last_updated_epoch_sec r),
        agg_commit_count := agg_commit_count agg + commit_count r,
        agg_accept_count := agg_accept_count agg + accept_count r,
        agg_reject_count := agg_reject_count agg + reject_count r,
        agg_app_names := agg_app_names agg @ (if app \<noteq> [] then [app] else [])\<rparr>)"

definition aggregate :: "string \<Rightarrow> string \<Rightarrow> app_rows \<Rightarrow> LearningAggregate" where
  "aggregate rd sf aa = foldl add_row \<lparr>agg_reading = rd, agg_surface = sf, agg_weight = double_zero, agg_last_updated = 0,
     agg_commit_count = 0, agg_accept_count = 0, agg_reject_count = 0, agg_app_names = []\<rparr> aa"

definition aggregate_shown :: "LearningAggregate \<Rightarrow> bool" where
  "aggregate_shown agg \<longleftrightarrow> double_lt double_zero (agg_weight agg) \<or> agg_commit_count agg > 0 \<or> agg_accept_count agg > 0 \<or> agg_reject_count agg > 0"

definition Aggregates :: "learning_table \<Rightarrow> LearningAggregate list" where
  "Aggregates t = concat (map (\<lambda>(rd, ss). filter aggregate_shown (map (\<lambda>(sf, aa). aggregate rd sf aa) ss)) t)"

record LearningMatch =
  match_reading :: string
  match_surface :: string
  match_score :: double

record PrefixLookupResult =
  matches :: "LearningMatch list"
  visited_readings :: nat
  scanned_records :: nat

text \<open>\<open>a == b\<close> and \<open>a >= b\<close> on doubles.\<close>

definition double_eq :: "double \<Rightarrow> double \<Rightarrow> bool" where
  "double_eq a b \<longleftrightarrow> a \<noteq> NaN \<and> b \<noteq> NaN \<and> \<not> double_lt a b \<and> \<not> double_lt b a"

definition double_geq :: "double \<Rightarrow> double \<Rightarrow> bool" where
  "double_geq a b \<longleftrightarrow> double_eq a b \<or> double_lt b a"

definition scan_pair :: "(double \<Rightarrow> double) \<Rightarrow> double \<Rightarrow> 64 word \<Rightarrow> string \<Rightarrow> PrefixLookupResult \<Rightarrow> string \<times> app_rows \<Rightarrow> PrefixLookupResult" where
  "scan_pair exp_fn min_score now_epoch_sec rd res entry =
     (let (sf, aa) = entry; res1 = res\<lparr>scanned_records := scanned_records res + 1\<rparr> in
      if AllForgotten aa then res1
      else let score = SumDecayedWeight exp_fn aa now_epoch_sec in
           if double_geq score min_score
           then res1\<lparr>matches := matches res1 @ [\<lparr>match_reading = rd, match_surface = sf, match_score = score\<rparr>]\<rparr>
           else res1)"

fun scan_readings :: "(double \<Rightarrow> double) \<Rightarrow> string \<Rightarrow> double \<Rightarrow> 64 word \<Rightarrow> learning_table \<Rightarrow> PrefixLookupResult \<Rightarrow> PrefixLookupResult" where
  "scan_readings exp_fn reading_prefix min_score now_epoch_sec [] res = res"
| "scan_readings exp_fn reading_prefix min_score now_epoch_sec ((rd, ss) # it) res =
     (let res1 = res\<lparr>visited_readings := visited_readings res + 1\<rparr> in
      if take (length reading_prefix) rd \<noteq> reading_prefix then res1
      else scan_readings exp_fn reading_prefix min_score now_epoch_sec it
             (foldl (scan_pair exp_fn min_score now_epoch_sec rd) res1 ss))"

definition better_match :: "LearningMatch \<Rightarrow> LearningMatch \<Rightarrow> bool" where
  "better_match lhs rhs \<longleftrightarrow>
     (if \<not> double_eq (match_score lhs) (match_score rhs) then double_lt (match_score rhs) (match_score lhs)
      else if match_reading lhs \<noteq> match_reading rhs then match_reading lhs < match_reading rhs
      else match_surface lhs < match_surface rhs)"

definition LookupPrefix :: "(double \<Rightarrow> double) \<Rightarrow> learning_table \<Rightarrow> string \<Rightarrow> nat \<Rightarrow> double \<Rightarrow> 64 word \<Rightarrow> PrefixLookupResult" where
  "LookupPrefix exp_fn t reading_prefix limit min_score now_epoch_sec =
     (let result = \<lparr>matches = [], visited_readings = 0, scanned_records = 0\<rparr> in
      if reading_prefix = [] \<or> limit = 0 then result
      else let res = scan_readings exp_fn reading_prefix min_score now_epoch_sec (lower_bound reading_prefix t) result;
               kept = min limit (length (matches res))
           in res\<lparr>matches := take kept (stable_sort better_match (matches res))\<rparr>)"

definition ReverseLookup :: "(double \<Rightarrow> double) \<Rightarrow> learning_table \<Rightarrow> string \<Rightarrow> 64 word \<Rightarrow> string" where
  "ReverseLookup exp_fn t sf now_epoch_sec =
     (if sf = [] then []
      else fst (foldl (\<lambda>(best_reading, best_score) (rd, ss).
        case map_of ss sf of
          None \<Rightarrow> (best_reading, best_score)
        | Some aa \<Rightarrow>
            (let score = SumDecayedWeight exp_fn aa now_epoch_sec in
             if double_lt best_score score then (rd, score) else (best_reading, best_score)))
        ([], double_zero) t))"

section \<open>Pruning\<close>

definition SerializedKey :: "string \<Rightarrow> string \<Rightarrow> string \<Rightarrow> string" where
  "SerializedKey rd sf app = EscapeTsvField rd @ [CHR 9] @ EscapeTsvField sf @ [CHR 9] @ EscapeTsvField app"

definition prune_keeps :: "(double \<Rightarrow> double) \<Rightarrow> double \<Rightarrow> 64 word \<Rightarrow> app_rows \<Rightarrow> bool" where
  "prune_keeps exp_fn min_weight now_epoch_sec aa \<longleftrightarrow>
     \<not> (double_lt (SumDecayedWeight exp_fn aa now_epoch_sec) min_weight \<and> \<not> HasNetRejection aa)"

definition prune_light :: "(double \<Rightarrow> double) \<Rightarrow> double \<Rightarrow> 64 word \<Rightarrow> learning_table \<Rightarrow> learning_table" where
  "prune_light exp_fn min_weight now_epoch_sec t =
     filter (\<lambda>(rd, ss). ss \<noteq> []) (map (\<lambda>(rd, ss). (rd, filter (\<lambda>(sf, aa). prune_keeps exp_fn min_weight now_epoch_sec aa) ss)) t)"

record RankedRecord =
  ranked_key :: row_key
  serialized_key :: string
  ranked_score :: double

definition ranked_less :: "RankedRecord \<Rightarrow> RankedRecord \<Rightarrow> bool" where
  "ranked_less lhs rhs \<longleftrightarrow>
     (if double_eq (ranked_score lhs) (ranked_score rhs) then serialized_key lhs < serialized_key rhs
      else double_lt (ranked_score lhs) (ranked_score rhs))"

fun ranked_record :: "(double \<Rightarrow> double) \<Rightarrow> 64 word \<Rightarrow> row_key \<times> LearningRecord \<Rightarrow> RankedRecord" where
  "ranked_record exp_fn now_epoch_sec ((rd, sf, app), r) =
     \<lparr>ranked_key = (rd, sf, app), serialized_key = SerializedKey rd sf app, ranked_score = DecayedWeight exp_fn r now_epoch_sec\<rparr>"

definition Prune :: "(double \<Rightarrow> double) \<Rightarrow> nat \<Rightarrow> double \<Rightarrow> 64 word \<Rightarrow> store \<Rightarrow> store" where
  "Prune exp_fn max_records min_weight now_epoch_sec st =
     (let t1 = (if double_lt double_zero min_weight then prune_light exp_fn min_weight now_epoch_sec (st_table st) else st_table st);
          changed = (double_lt double_zero min_weight \<and>
            list_ex (\<lambda>(rd, ss). list_ex (\<lambda>(sf, aa). \<not> prune_keeps exp_fn min_weight now_epoch_sec aa) ss) (st_table st));
          record_count = store_size t1
      in if max_records > 0 \<and> record_count > max_records
         then let ranked = stable_sort ranked_less (map (ranked_record exp_fn now_epoch_sec) (row_list t1));
                  remove_count = record_count - max_records;
                  t2 = foldl (\<lambda>t rk. erase_row (ranked_key rk) t) t1 (take remove_count ranked)
              in st\<lparr>st_table := t2, st_dirty := True\<rparr>
         else st\<lparr>st_table := t1, st_dirty := (st_dirty st \<or> changed)\<rparr>)"

section \<open>Merging\<close>

datatype ImportConflictPolicy = PolicyMerge | PolicyOverwrite | PolicyKeepBoth

fun ImportConflictPolicyName :: "ImportConflictPolicy \<Rightarrow> string" where
  "ImportConflictPolicyName PolicyMerge = ''merge''"
| "ImportConflictPolicyName PolicyOverwrite = ''overwrite''"
| "ImportConflictPolicyName PolicyKeepBoth = ''keep_both''"

definition ParseImportConflictPolicy :: "string \<Rightarrow> ImportConflictPolicy option" where
  "ParseImportConflictPolicy name =
     List.find (\<lambda>p. ImportConflictPolicyName p = name) [PolicyMerge, PolicyOverwrite, PolicyKeepBoth]"

record ImportCounts =
  imported :: nat
  skipped :: nat
  conflicts :: nat

definition SaturatingAdd :: "64 word \<Rightarrow> 64 word \<Rightarrow> 64 word" where
  "SaturatingAdd lhs rhs = min (min lhs kMaxLearningCount + min rhs kMaxLearningCount) kMaxLearningCount"

definition AddRecord :: "LearningRecord \<Rightarrow> LearningRecord \<Rightarrow> LearningRecord" where
  "AddRecord into from_rec =
     (let r = into\<lparr>weight := double_min (double_add (weight into) (weight from_rec)) kMaxLearningWeight,
                commit_count := SaturatingAdd (commit_count into) (commit_count from_rec),
                accept_count := SaturatingAdd (accept_count into) (accept_count from_rec),
                reject_count := SaturatingAdd (reject_count into) (reject_count from_rec)\<rparr>
      in if last_updated_epoch_sec from_rec \<ge> last_updated_epoch_sec into
         then r\<lparr>last_updated_epoch_sec := last_updated_epoch_sec from_rec, last_event := last_event from_rec,
                context_hash := context_hash from_rec\<rparr>
         else r)"

definition merge_row :: "ImportConflictPolicy \<Rightarrow> learning_table \<times> ImportCounts \<Rightarrow> row_key \<times> LearningRecord \<Rightarrow> learning_table \<times> ImportCounts" where
  "merge_row policy acc row =
     (let (t, counts) = acc; (key, r) = row in
      if IsForgotten r then (t, counts\<lparr>skipped := skipped counts + 1\<rparr>)
      else let old = find_row t key; t1 = emplace_row key r t in
           case old of
             None \<Rightarrow> (assign_row key r t1, counts\<lparr>imported := imported counts + 1\<rparr>)
           | Some local_rec \<Rightarrow>
               if IsForgotten local_rec then (assign_row key r t1, counts\<lparr>imported := imported counts + 1\<rparr>)
               else let counts1 = counts\<lparr>conflicts := conflicts counts + 1\<rparr> in
                    case policy of
                      PolicyMerge \<Rightarrow> (assign_row key (AddRecord local_rec r) t1, counts1\<lparr>imported := imported counts1 + 1\<rparr>)
                    | PolicyOverwrite \<Rightarrow> (assign_row key r t1, counts1\<lparr>imported := imported counts1 + 1\<rparr>)
                    | PolicyKeepBoth \<Rightarrow> (t1, counts1\<lparr>skipped := skipped counts1 + 1\<rparr>))"

definition Merge :: "learning_table \<Rightarrow> ImportConflictPolicy \<Rightarrow> store \<Rightarrow> ImportCounts \<times> store" where
  "Merge other policy st =
     (let (t, counts) = foldl (merge_row policy) (st_table st, \<lparr>imported = 0, skipped = 0, conflicts = 0\<rparr>) (row_list other)
      in (counts, st\<lparr>st_table := t, st_dirty := (st_dirty st \<or> imported counts > 0)\<rparr>))"

section \<open>The file's text\<close>

definition FormatWeight :: "double \<Rightarrow> string" where
  "FormatWeight w = to_chars_double w"

text \<open>\<open>key.rfind\<close>\<close>

definition rfind_char :: "char \<Rightarrow> string \<Rightarrow> nat option" where
  "rfind_char c s = map_option (\<lambda>i. length s - Suc i) (find_char c (rev s))"

definition row_text :: "string \<times> LearningRecord \<Rightarrow> string" where
  "row_text row =
     (let (key, r) = row;
          (before, after) = (case rfind_char (CHR 9) key of None \<Rightarrow> (key, key) | Some i \<Rightarrow> (take i key, drop (i + 1) key))
      in before @ [CHR 9] @ FormatWeight (weight r) @ [CHR 9] @ to_string (unat (last_updated_epoch_sec r)) @ [CHR 9] @
         to_string (unat (commit_count r)) @ [CHR 9] @ to_string (unat (accept_count r)) @ [CHR 9] @
         to_string (unat (reject_count r)) @ [CHR 9] @ after @ [CHR 9] @ LearningEventTypeName (last_event r) @ [CHR 9] @
         context_hash r @ [CHR 10])"

definition SerializeText :: "learning_table \<Rightarrow> string" where
  "SerializeText t =
     kLearningStoreV2Header @ [CHR 10] @
     concat (map row_text (sort_key fst (map (\<lambda>((rd, sf, app), r). (SerializedKey rd sf app, r))
       (filter (\<lambda>(key, r). \<not> IsForgotten r) (row_list t)))))"

definition ParseInto :: "string \<Rightarrow> learning_table \<Rightarrow> nat \<times> learning_table" where
  "ParseInto s t =
     foldl (\<lambda>(malformed, t) report. case report of
         Row e \<Rightarrow> (malformed, emplace_row (entry_reading e, entry_surface e, entry_app_name e) (entry_record e) t)
       | MalformedRow n \<Rightarrow> (malformed + 1, t)) (0, t) (ParseRows s)"

definition LoadText :: "string \<Rightarrow> store \<Rightarrow> bool \<times> store" where
  "LoadText s st = (let (malformed, t) = ParseInto s [] in (malformed = 0, st\<lparr>st_table := t, st_dirty := True\<rparr>))"

section \<open>The old file without the rows of a pair\<close>

text \<open>A line without its end, the line with its end, and the rest of the text.\<close>

definition next_line :: "string \<Rightarrow> string \<times> string \<times> string" where
  "next_line s = (case find_char (CHR 10) s of None \<Rightarrow> (s, s, []) | Some i \<Rightarrow> (take i s, take (Suc i) s, drop (Suc i) s))"

definition drops_line :: "(string \<times> string) option \<Rightarrow> bool \<Rightarrow> string \<Rightarrow> bool" where
  "drops_line pair escaped_fields line \<longleftrightarrow>
     (case ParseLegacyRow line escaped_fields of
        None \<Rightarrow> False
      | Some e \<Rightarrow> (case pair of None \<Rightarrow> True | Some (rd, sf) \<Rightarrow> entry_reading e = rd \<and> entry_surface e = sf))"

function without_rows :: "(string \<times> string) option \<Rightarrow> bool \<Rightarrow> bool \<Rightarrow> string \<Rightarrow> string \<times> bool" where
  "without_rows pair first_line escaped_fields s =
     (if s = [] then ([], False)
      else let (line, segment, rest) = next_line s;
               header = (first_line \<and> line = kLearningStoreEscapedTsvHeader);
               escaped_fields' = (escaped_fields \<or> header);
               drop_it = (\<not> header \<and> line \<noteq> [] \<and> drops_line pair escaped_fields line);
               (kept, removed) = without_rows pair False escaped_fields' rest
           in if drop_it then (kept, True) else (segment @ kept, removed))"
  by pat_completeness auto
termination
  by (relation "measure (\<lambda>(p, f, e, s). length s)") (auto simp: next_line_def split: option.splits)

declare without_rows.simps [simp del]

definition WithoutLegacyRows :: "string \<Rightarrow> (string \<times> string) option \<Rightarrow> string \<times> bool" where
  "WithoutLegacyRows s pair = without_rows pair True False s"

section \<open>The nested maps are one map of rows\<close>

definition rows_wf :: "(string, app_rows) map \<Rightarrow> bool" where
  "rows_wf ss \<longleftrightarrow> map_wf ss \<and> (\<forall>(sf, aa) \<in> set ss. aa \<noteq> [] \<and> map_wf aa)"

definition table_wf :: "learning_table \<Rightarrow> bool" where
  "table_wf t \<longleftrightarrow> map_wf t \<and> (\<forall>(rd, ss) \<in> set t. ss \<noteq> [] \<and> rows_wf ss)"

lemma rows_wf_Nil [simp]: "rows_wf []"
  by (simp add: rows_wf_def)

lemma rows_wf_assign: "rows_wf ss \<Longrightarrow> aa \<noteq> [] \<Longrightarrow> map_wf aa \<Longrightarrow> rows_wf (map_assign sf aa ss)"
  by (auto simp: rows_wf_def map_wf_assign dest: map_assign_in)

lemma table_wf_assign: "table_wf t \<Longrightarrow> ss \<noteq> [] \<Longrightarrow> rows_wf ss \<Longrightarrow> table_wf (map_assign rd ss t)"
  by (auto simp: table_wf_def map_wf_assign dest: map_assign_in)

lemma rows_wf_get: "table_wf t \<Longrightarrow> rows_wf (map_get [] rd t)"
  by (auto simp: map_get_def table_wf_def split: option.splits dest: map_of_SomeD)

lemma apps_wf_get: "rows_wf ss \<Longrightarrow> map_wf (map_get [] sf ss)"
  by (auto simp: map_get_def rows_wf_def split: option.splits dest: map_of_SomeD)

lemma rows_wf_find: "table_wf t \<Longrightarrow> map_of t rd = Some ss \<Longrightarrow> ss \<noteq> [] \<and> rows_wf ss"
  by (auto simp: table_wf_def dest!: map_of_SomeD)

lemma apps_wf_find: "rows_wf ss \<Longrightarrow> map_of ss sf = Some aa \<Longrightarrow> aa \<noteq> [] \<and> map_wf aa"
  by (auto simp: rows_wf_def dest!: map_of_SomeD)

lemma rows_wf_erase: "rows_wf ss \<Longrightarrow> rows_wf (map_erase sf ss)"
  by (auto simp: rows_wf_def map_wf_erase) (auto simp: map_erase_def)

lemma table_wf_erase: "table_wf t \<Longrightarrow> table_wf (map_erase rd t)"
  by (auto simp: table_wf_def map_wf_erase) (auto simp: map_erase_def)

lemma map_of_get: "map_of (map_get [] k m) x = (map_of m k \<bind> (\<lambda>n. map_of n x))"
  by (simp add: map_get_def split: option.split)

lemma find_row_assign_row: "find_row (assign_row k r t) = (find_row t)(k \<mapsto> r)"
proof (rule ext)
  obtain rd sf app where k: "k = (rd, sf, app)" by (cases k)
  show "find_row (assign_row k r t) x = ((find_row t)(k \<mapsto> r)) x" for x
    by (cases x) (auto simp: k Let_def map_of_assign map_of_get)
qed

lemma find_row_emplace_row:
  assumes "table_wf t"
  shows "find_row (emplace_row k r t) = (if find_row t k = None then (find_row t)(k \<mapsto> r) else find_row t)"
proof (rule ext)
  obtain rd sf app where k: "k = (rd, sf, app)" by (cases k)
  have "map_wf (map_get [] sf (map_get [] rd t))" using assms by (intro apps_wf_get rows_wf_get)
  from map_of_emplace [OF this]
  show "find_row (emplace_row k r t) x = (if find_row t k = None then (find_row t)(k \<mapsto> r) else find_row t) x" for x
    by (cases x) (auto simp: k Let_def map_of_assign map_of_get)
qed

lemma find_row_erase_row: "find_row (erase_row k t) = (find_row t)(k := None)"
proof (rule ext)
  obtain rd sf app where k: "k = (rd, sf, app)" by (cases k)
  show "find_row (erase_row k t) x = ((find_row t)(k := None)) x" for x
  proof (cases x)
    case (fields rd' sf' app')
    show ?thesis
    proof (cases "map_of t rd")
      case (Some ss)
      show ?thesis
      proof (cases "map_of ss sf")
        case (Some aa)
        define aa' where "aa' = map_erase app aa"
        define ss' where "ss' = (if aa' = [] then map_erase sf ss else map_assign sf aa' ss)"
        have a: "map_of aa' = (map_of aa)(app := None)" by (simp add: aa'_def map_of_erase)
        have s: "(map_of ss' y \<bind> (\<lambda>n. map_of n z)) = (if y = sf then map_of aa' z else (map_of ss y \<bind> (\<lambda>n. map_of n z)))" for y z
          by (auto simp: ss'_def map_of_erase map_of_assign)
        have "erase_row k t = (if ss' = [] then map_erase rd t else map_assign rd ss' t)"
          using Some \<open>map_of t rd = Some ss\<close> by (simp add: k Let_def aa'_def ss'_def)
        then have "find_row (erase_row k t) x = (if rd' = rd then (map_of ss' sf' \<bind> (\<lambda>n. map_of n app')) else find_row t x)"
          using fields by (auto simp: map_of_erase map_of_assign)
        then show ?thesis using Some \<open>map_of t rd = Some ss\<close> fields by (auto simp: k s a)
      qed (use Some fields in \<open>auto simp: k\<close>)
    qed (use fields in \<open>auto simp: k\<close>)
  qed
qed

lemma table_wf_assign_row: "table_wf t \<Longrightarrow> table_wf (assign_row k r t)"
  by (cases k) (auto simp: Let_def intro!: table_wf_assign rows_wf_assign map_wf_assign apps_wf_get rows_wf_get)

lemma table_wf_emplace_row: "table_wf t \<Longrightarrow> table_wf (emplace_row k r t)"
  by (cases k) (auto simp: Let_def intro!: table_wf_assign rows_wf_assign map_wf_emplace apps_wf_get rows_wf_get)

lemma table_wf_erase_row: "table_wf t \<Longrightarrow> table_wf (erase_row k t)"
proof (cases k)
  case (fields rd sf app)
  assume wf: "table_wf t"
  show ?thesis
  proof (cases "Rows t rd sf")
    case None
    then show ?thesis using wf by (auto simp: fields Rows_def split: option.splits)
  next
    case (Some aa)
    then obtain ss where ss: "map_of t rd = Some ss" "map_of ss sf = Some aa" by (auto simp: Rows_def bind_eq_Some_conv)
    then have "rows_wf ss" "map_wf aa" using wf rows_wf_find apps_wf_find by blast+
    then have "rows_wf (if map_erase app aa = [] then map_erase sf ss else map_assign sf (map_erase app aa) ss)"
      by (auto intro: rows_wf_erase rows_wf_assign map_wf_erase)
    then show ?thesis using ss wf by (auto simp: fields Let_def intro: table_wf_erase table_wf_assign)
  qed
qed

interpretation rows: ordered_map find_row assign_row emplace_row erase_row table_wf
  by unfold_locales
    (simp_all add: find_row_assign_row find_row_emplace_row find_row_erase_row table_wf_assign_row table_wf_emplace_row table_wf_erase_row)

declare find_row.simps [simp del] assign_row.simps [simp del] emplace_row.simps [simp del] erase_row.simps [simp del]

context ordered_map
begin

text \<open>A loader that emplaces row after row: what is there stays, and the first row of a key wins.\<close>

lemma find_emplace_all:
  "wf m \<Longrightarrow> wf (fold (\<lambda>(k, v). emplace k v) rs m) \<and> find (fold (\<lambda>(k, v). emplace k v) rs m) = map_of rs ++ find m"
proof (induction rs arbitrary: m)
  case (Cons kv rs)
  obtain k v where kv: "kv = (k, v)" by fastforce
  have w: "wf (emplace k v m)" using Cons.prems by (rule wf_emplace)
  have "map_of rs ++ find (emplace k v m) = map_of (kv # rs) ++ find m"
    by (auto simp: kv find_emplace [OF Cons.prems] map_add_def fun_eq_iff split: option.splits)
  then show ?case using Cons.IH [OF w] by (simp add: kv fun_upd_def)
qed (simp add: fun_eq_iff map_add_def)

end

subsection \<open>The list of all rows\<close>

lemma in_row_list: "((rd, sf, app), r) \<in> set (row_list t) \<longleftrightarrow> (\<exists>ss aa. (rd, ss) \<in> set t \<and> (sf, aa) \<in> set ss \<and> (app, r) \<in> set aa)"
  by (force simp: row_list_def)

lemma find_row_Nil [simp]: "find_row [] = Map.empty"
  by (simp add: fun_eq_iff find_row.simps)

lemma find_row_iff: "table_wf t \<Longrightarrow> find_row t k = Some r \<longleftrightarrow> (k, r) \<in> set (row_list t)"
proof (cases k)
  case (fields rd sf app)
  assume wf: "table_wf t"
  have "find_row t k = Some r \<longleftrightarrow> (\<exists>ss aa. map_of t rd = Some ss \<and> map_of ss sf = Some aa \<and> map_of aa app = Some r)"
    by (auto simp: fields find_row.simps bind_eq_Some_conv)
  also have "\<dots> \<longleftrightarrow> (\<exists>ss aa. (rd, ss) \<in> set t \<and> (sf, aa) \<in> set ss \<and> (app, r) \<in> set aa)"
    using wf rows_wf_find apps_wf_find by (metis (no_types, lifting) map_of_wf rows_wf_def table_wf_def)
  finally show ?thesis by (simp add: fields in_row_list)
qed

lemma distinct_concat_keyed:
  "distinct (map fst m) \<Longrightarrow> (\<And>k v. (k, v) \<in> set m \<Longrightarrow> distinct (map fst (f k v)) \<and> (\<forall>x \<in> set (f k v). g (fst x) = k)) \<Longrightarrow>
     distinct (map fst (concat (map (\<lambda>(k, v). f k v) m)))"
proof (induction m)
  case (Cons kv m)
  obtain k v where kv: "kv = (k, v)" by fastforce
  have "fst ` set (f k v) \<inter> fst ` set (concat (map (\<lambda>(k, v). f k v) m)) = {}"
  proof (intro equals0I, elim IntE imageE)
    fix z x y assume x: "z = fst x" "x \<in> set (f k v)" and y: "z = fst y" "y \<in> set (concat (map (\<lambda>(k, v). f k v) m))"
    then obtain k' v' where "(k', v') \<in> set m" "y \<in> set (f k' v')" by auto
    then have "g z = k'" "g z = k" using x y Cons.prems(2) [of k' v'] Cons.prems(2) [of k v] by (auto simp: kv)
    then show False using \<open>(k', v') \<in> set m\<close> Cons.prems(1) by (force simp: kv)
  qed
  moreover have "distinct (map fst (concat (map (\<lambda>(k, v). f k v) m)))" using Cons.prems by (intro Cons.IH) auto
  ultimately show ?case using Cons.prems(2) [of k v] by (simp add: kv)
qed simp

lemma distinct_row_list: "table_wf t \<Longrightarrow> distinct (map fst (row_list t))"
  unfolding row_list_def
proof (rule distinct_concat_keyed [where g = fst], goal_cases)
  case 1
  then show ?case by (simp add: table_wf_def map_wf_distinct)
next
  case (2 rd ss)
  then have "rows_wf ss" by (auto simp: table_wf_def)
  have "distinct (map fst (map (\<lambda>(app, r). ((rd, sf, app), r)) aa))" if "(sf, aa) \<in> set ss" for sf aa
  proof -
    have "distinct (map fst aa)" using that \<open>rows_wf ss\<close> by (auto simp: rows_wf_def intro: map_wf_distinct)
    then have "distinct (map (\<lambda>app. (rd, sf, app)) (map fst aa))" by (simp only: distinct_map) (simp add: inj_on_def)
    then show ?thesis by (simp add: comp_def case_prod_unfold)
  qed
  then have "distinct (map fst (concat (map (\<lambda>(sf, aa). map (\<lambda>(app, r). ((rd, sf, app), r)) aa) ss)))"
    using \<open>rows_wf ss\<close> by (intro distinct_concat_keyed [where g = "fst \<circ> snd"]) (auto simp: rows_wf_def map_wf_distinct)
  then show ?case by auto
qed

lemma map_of_row_list: "table_wf t \<Longrightarrow> map_of (row_list t) = find_row t"
  by (rule ext, rule option.expand)
    (metis (no_types, lifting) distinct_row_list find_row_iff map_of_eq_Some_iff not_Some_eq option.sel option.collapse)+

lemma store_size_row_list: "store_size t = length (row_list t)"
  by (simp add: store_size_def row_list_def length_concat comp_def case_prod_unfold)

end
