(* ===== verification/LearningFile.thy ===== *)
theory LearningFile
  imports LearningStore
begin

text \<open>
  What the text of the learning file keeps. A saved store is read back row by row, only the forgotten
  rows left out; whatever the bytes of a file are, the rows read from it are within the limits; and
  the old file is rewritten without the rows of a forgotten pair and with all other bytes.
\<close>

section \<open>A row is read back\<close>

text \<open>The rows the format can hold.\<close>

fun row_ok :: "row_key \<Rightarrow> LearningRecord \<Rightarrow> bool" where
  "row_ok (rd, sf, app) r \<longleftrightarrow> rd \<noteq> [] \<and> sf \<noteq> [] \<and> weight_ok (weight r) \<and> IsContextHash (context_hash r)"

lemma rfind_key: "rfind_char (CHR 9) (SerializedKey rd sf app) = Some (length (EscapeTsvField rd) + Suc (length (EscapeTsvField sf)))"
proof -
  let ?pre = "EscapeTsvField rd @ [CHR 9] @ EscapeTsvField sf"
  have "rev (SerializedKey rd sf app) = rev (EscapeTsvField app) @ CHR 9 # rev ?pre"
    by (simp add: SerializedKey_def)
  moreover have "CHR 9 \<notin> set (rev (EscapeTsvField app))" using Escape_plain by simp
  ultimately have "find_char (CHR 9) (rev (SerializedKey rd sf app)) = Some (length (EscapeTsvField app))"
    using find_char_append by (metis length_rev)
  then show ?thesis by (simp add: rfind_char_def SerializedKey_def)
qed

definition row_fields :: "row_key \<times> LearningRecord \<Rightarrow> string list" where
  "row_fields row = (let ((rd, sf, app), r) = row in
     [EscapeTsvField rd, EscapeTsvField sf, FormatWeight (weight r), to_string (unat (last_updated_epoch_sec r)),
      to_string (unat (commit_count r)), to_string (unat (accept_count r)), to_string (unat (reject_count r)),
      EscapeTsvField app, LearningEventTypeName (last_event r), context_hash r])"

fun join_tabs :: "string list \<Rightarrow> string" where
  "join_tabs [] = []"
| "join_tabs [f] = f"
| "join_tabs (f # g # fs) = f @ CHR 9 # join_tabs (g # fs)"

lemma row_text_fields: "row_text (SerializedKey rd sf app, r) = join_tabs (row_fields ((rd, sf, app), r)) @ [CHR 10]"
proof -
  let ?k = "SerializedKey rd sf app" and ?n = "length (EscapeTsvField rd) + Suc (length (EscapeTsvField sf))"
  have "take ?n ?k = EscapeTsvField rd @ [CHR 9] @ EscapeTsvField sf" "drop (?n + 1) ?k = EscapeTsvField app"
    by (simp_all add: SerializedKey_def)
  then show ?thesis by (simp add: row_text_def rfind_key row_fields_def)
qed

lemma SplitTabs_join: "fs \<noteq> [] \<Longrightarrow> list_all (\<lambda>f. CHR 9 \<notin> set f) fs \<Longrightarrow> SplitTabs (join_tabs fs) = fs"
  by (induction fs rule: join_tabs.induct) (simp_all add: SplitTabs_last SplitTabs_field)

lemma join_tabs_line: "list_all (\<lambda>f. CHR 10 \<notin> set f) fs \<Longrightarrow> CHR 10 \<notin> set (join_tabs fs)"
  by (induction fs rule: join_tabs.induct) simp_all

lemma row_fields_plain:
  assumes "row_ok k r"
  shows "list_all (\<lambda>f. CHR 9 \<notin> set f) (row_fields (k, r))" "list_all (\<lambda>f. CHR 10 \<notin> set f) (row_fields (k, r))"
proof -
  obtain rd sf app where k: "k = (rd, sf, app)" by (cases k)
  note plain = Escape_plain event_name_plain to_string_plain weight_written(2) hash_plain
  show "list_all (\<lambda>f. CHR 9 \<notin> set f) (row_fields (k, r))" "list_all (\<lambda>f. CHR 10 \<notin> set f) (row_fields (k, r))"
    using assms by (simp_all add: k row_fields_def FormatWeight_def plain del: to_string.simps)
qed

lemma row_read_back:
  assumes "row_ok k r"
  shows "ParseV2Row (join_tabs (row_fields (k, r))) = Some (row_entry (k, bounded_record r))"
proof -
  obtain rd sf app where k: "k = (rd, sf, app)" by (cases k)
  have f: "SplitTabs (join_tabs (row_fields (k, r))) = row_fields (k, r)"
    using row_fields_plain(1) [OF assms] by (intro SplitTabs_join) (simp_all add: row_fields_def k)
  have w: "ParseFiniteNonNegativeDouble (FormatWeight (weight r)) = Some (weight r)"
    using assms by (simp add: k FormatWeight_def weight_written(1))
  have e: "row_fields (k, r) ! 8 = LearningEventTypeName (last_event r)" "row_fields (k, r) ! 9 = context_hash r"
    "row_fields (k, r) ! 7 = EscapeTsvField app"
    by (simp_all add: row_fields_def k)
  show ?thesis
    using assms w unfolding ParseV2Row_def f Let_def
    by (cases r) (simp add: k kV2FieldCount_def e [unfolded k] w row_fields_def numeral_2_eq_2 numeral_3_eq_3 del: to_string.simps)
qed

section \<open>A store is read back\<close>

lemma header_line: "CHR 10 \<notin> set kLearningStoreV2Header"
  by (simp add: kLearningStoreV2Header_def)

lemma ParseRows_loop_line:
  assumes "CHR 10 \<notin> set line" "line \<noteq> []" "0 < n" "ParseV2Row line = Some e"
  shows "ParseRows_loop (line @ CHR 10 # rest) n FormatV2 = Row e # ParseRows_loop rest (Suc n) FormatV2"
  using assms by (subst ParseRows_loop.simps) (simp add: getline_to_line Let_def)

lemma ParseRows_written:
  "\<forall>(k, r) \<in> set rs. row_ok k r \<Longrightarrow> 0 < n \<Longrightarrow>
     ParseRows_loop (concat (map (\<lambda>row. join_tabs (row_fields row) @ [CHR 10]) rs)) n FormatV2 =
       map (\<lambda>(k, r). Row (row_entry (k, bounded_record r))) rs"
proof (induction rs arbitrary: n)
  case Nil
  show ?case by (simp add: ParseRows_loop.simps getline_to_def)
next
  case (Cons row rs)
  obtain rd sf app r where row: "row = ((rd, sf, app), r)" by (metis surj_pair)
  then have ok: "row_ok (rd, sf, app) r" using Cons.prems(1) by simp
  have "join_tabs (row_fields row) \<noteq> []" using ok by (simp add: row row_fields_def)
  then show ?case
    using Cons ParseRows_loop_line [OF join_tabs_line [OF row_fields_plain(2) [OF ok]] _ Cons.prems(2) row_read_back [OF ok]]
    by (simp add: row)
qed

lemma sort_key_map: "sort_key g (map f xs) = map f (sort_key (\<lambda>x. g (f x)) xs)"
proof -
  have "insort_key g (f x) (map f ys) = map f (insort_key (\<lambda>x. g (f x)) x ys)" for x ys
    by (induction ys) simp_all
  then show ?thesis by (induction xs) simp_all
qed

definition saved_rows :: "learning_table \<Rightarrow> (row_key \<times> LearningRecord) list" where
  "saved_rows t = sort_key (\<lambda>((rd, sf, app), r). SerializedKey rd sf app) (filter (\<lambda>(key, r). \<not> IsForgotten r) (row_list t))"

lemma SerializeText_rows:
  "SerializeText t = kLearningStoreV2Header @ CHR 10 # concat (map (\<lambda>row. join_tabs (row_fields row) @ [CHR 10]) (saved_rows t))"
proof -
  have "sort_key fst (map (\<lambda>((rd, sf, app), r). (SerializedKey rd sf app, r)) rs) =
      map (\<lambda>((rd, sf, app), r). (SerializedKey rd sf app, r)) (sort_key (\<lambda>((rd, sf, app), r). SerializedKey rd sf app) rs)"
    for rs :: "(row_key \<times> LearningRecord) list"
    unfolding sort_key_map by (intro arg_cong [where f = "\<lambda>k. map _ (sort_key k rs)"]) (auto simp: fun_eq_iff)
  then show ?thesis
    unfolding SerializeText_def saved_rows_def by (simp add: comp_def case_prod_unfold row_text_fields split_def)
qed

lemma ParseInto_rows:
  "ParseRows s = map (\<lambda>(k, r). Row (row_entry (k, g r))) rs \<Longrightarrow>
     ParseInto s t = (0, fold (\<lambda>(k, v). emplace_row k v) (map (\<lambda>(k, r). (k, g r)) rs) t)"
proof -
  let ?step = "\<lambda>(malformed, t) report. case report of
         Row e \<Rightarrow> (malformed, emplace_row (entry_reading e, entry_surface e, entry_app_name e) (entry_record e) t)
       | MalformedRow n \<Rightarrow> (malformed + 1, t)"
  have "foldl ?step (0 :: nat, t) (map (\<lambda>(k, r). Row (row_entry (k, g r))) rs) =
      (0, fold (\<lambda>(k, v). emplace_row k v) (map (\<lambda>(k, r). (k, g r)) rs) t)"
    by (induction rs arbitrary: t) auto
  then show "ParseRows s = map (\<lambda>(k, r). Row (row_entry (k, g r))) rs \<Longrightarrow> ?thesis" by (simp add: ParseInto_def)
qed

definition store_ok :: "store \<Rightarrow> bool" where
  "store_ok st \<longleftrightarrow> table_wf (st_table st) \<and> (\<forall>(k, r) \<in> set (row_list (st_table st)). row_ok k r)"

lemma map_of_saved_rows:
  assumes "table_wf t"
  shows "map_of (map (\<lambda>(k, r). (k, g r)) (saved_rows t)) k =
    (case find_row t k of None \<Rightarrow> None | Some r \<Rightarrow> if IsForgotten r then None else Some (g r))"
proof -
  have set: "set (saved_rows t) = {(k, r). find_row t k = Some r \<and> \<not> IsForgotten r}"
    using find_row_iff [OF assms] by (auto simp: saved_rows_def)
  have "distinct (map fst (filter (\<lambda>(key, r). \<not> IsForgotten r) (row_list t)))"
    using distinct_row_list [OF assms] by (rule distinct_map_filter)
  then have d: "distinct (map fst (saved_rows t))"
    by (simp add: saved_rows_def distinct_map)
  then have "map_of (saved_rows t) k = (case find_row t k of None \<Rightarrow> None | Some r \<Rightarrow> if IsForgotten r then None else Some r)"
    using map_of_eq_Some_iff [OF d, of k] set by (cases "map_of (saved_rows t) k") (auto split: option.splits)
  then show ?thesis by (simp add: map_of_map split: option.splits)
qed

text \<open>What reading the written text gives.\<close>

lemma ParseInto_SerializeText:
  assumes "store_ok st"
  shows "\<exists>t. ParseInto (SerializeText (st_table st)) [] = (0, t) \<and> (\<forall>k. find_row t k =
    (case find_row (st_table st) k of None \<Rightarrow> None | Some r \<Rightarrow> if IsForgotten r then None else Some (bounded_record r)))"
proof -
  let ?t = "st_table st" and ?load = "fold (\<lambda>(k, v). emplace_row k v) (map (\<lambda>(k, r). (k, bounded_record r)) (saved_rows (st_table st))) []"
  have wf: "table_wf ?t" using assms by (simp add: store_ok_def)
  have "\<forall>(k, r) \<in> set (saved_rows ?t). row_ok k r" using assms by (auto simp: store_ok_def saved_rows_def)
  then have "ParseRows (SerializeText ?t) = map (\<lambda>(k, r). Row (row_entry (k, bounded_record r))) (saved_rows ?t)"
    unfolding ParseRows_def SerializeText_rows
    by (subst ParseRows_loop.simps) (simp add: getline_to_line [OF header_line] ParseRows_written)
  then have "ParseInto (SerializeText ?t) [] = (0, ?load)" by (rule ParseInto_rows)
  moreover have "find_row ?load = map_of (map (\<lambda>(k, r). (k, bounded_record r)) (saved_rows ?t)) ++ find_row []"
    using rows.find_emplace_all [of "[]"] by (simp add: table_wf_def)
  ultimately show ?thesis using map_of_saved_rows [OF wf, of bounded_record] by (simp del: split_paired_All)
qed

text \<open>A saved store is read back: loading the text that is written for a store with readings, surfaces
  and weights the format can hold succeeds, and gives exactly its rows, each once under its reading, surface
  and application, but without the forgotten ones. Counts and weights above the limits come back as the limits.\<close>

theorem SerializeText_LoadText:
  assumes "store_ok st"
  shows "fst (LoadText (SerializeText (st_table st)) st') \<and>
    find_row (st_table (snd (LoadText (SerializeText (st_table st)) st'))) k =
      (case find_row (st_table st) k of None \<Rightarrow> None | Some r \<Rightarrow> if IsForgotten r then None else Some (bounded_record r))"
  using ParseInto_SerializeText [OF assms] by (auto simp: LoadText_def simp del: split_paired_All)

section \<open>Whatever is read is within the limits\<close>

lemma round_magnitude_wf: "0 \<le> q \<Longrightarrow> round_magnitude s q = Some d \<Longrightarrow> double_wf d"
proof (cases "q = 0")
  case False
  assume "0 \<le> q" and d: "round_magnitude s q = Some d"
  then have q: "0 < q" using False by simp
  define e where "e = round_exp q"
  define m where "m = round_half_even (q / pow2 e)"
  note b = rounded_normal [OF q, folded e_def, folded m_def]
  have e: "- 1074 \<le> e" by (simp add: e_def round_exp_def)
  then have "e = - 1074 \<or> 2 ^ 52 \<le> m" using b(3) by linarith
  then show ?thesis
    using e d b(1,2) q by (auto simp: round_magnitude_def Let_def nat_less_iff le_nat_iff simp flip: round_exp_def e_def m_def split: if_splits)
qed (auto simp: round_magnitude_def)

lemma numeral_magnitude_nonneg: "0 \<le> numeral_magnitude t"
  by (simp add: numeral_magnitude_def pow10_def)

lemma parsed_weight_ok: "ParseFiniteNonNegativeDouble t = Some d \<Longrightarrow> weight_ok d"
proof -
  assume p: "ParseFiniteNonNegativeDouble t = Some d"
  then have f: "from_chars_double t = Parsed d" "isfinite d" "\<not> double_less d 0"
    by (auto simp: ParseFiniteNonNegativeDouble_def split: if_splits from_chars_result.splits)
  then have "double_wf d"
    using round_magnitude_wf [OF numeral_magnitude_nonneg] by (auto simp: from_chars_double_def Let_def split: option.splits if_splits)
  moreover have "0 \<le> rat_of_double d" using f(2,3) by (cases d) simp_all
  ultimately show ?thesis by (simp add: weight_ok_def)
qed

lemma kMaxLearningWeight_value: "kMaxLearningWeight = Finite False 8388608000000000 (- 23)"
proof -
  have "round_magnitude False 1000000000 = Some (Finite False 8388608000000000 (- 23))"
    by (rule round_magnitude_near) (simp_all add: pow2_def)
  then show ?thesis by (simp add: kMaxLearningWeight_def double_lit_def round_signed_def)
qed

lemma max_count_double: "rat_of_double (double_of_int (uint kMaxLearningCount)) = 1000000000" "isfinite (double_of_int (uint kMaxLearningCount))"
proof -
  have "round_magnitude False 1000000000 = Some (Finite False 8388608000000000 (- 23))"
    by (rule round_magnitude_near) (simp_all add: pow2_def)
  then show "rat_of_double (double_of_int (uint kMaxLearningCount)) = 1000000000" "isfinite (double_of_int (uint kMaxLearningCount))"
    by (simp_all add: double_of_int_def kMaxLearningCount_def pow2_def)
qed

definition record_bounded :: "LearningRecord \<Rightarrow> bool" where
  "record_bounded r \<longleftrightarrow> weight_ok (weight r) \<and> \<not> double_lt kMaxLearningWeight (weight r) \<and>
     commit_count r \<le> kMaxLearningCount \<and> accept_count r \<le> kMaxLearningCount \<and> reject_count r \<le> kMaxLearningCount \<and>
     IsContextHash (context_hash r)"

lemma min_weight_bounded:
  assumes "weight_ok w"
  shows "weight_ok (double_min w kMaxLearningWeight)" "\<not> double_lt kMaxLearningWeight (double_min w kMaxLearningWeight)"
  using assms by (auto simp: double_min_def kMaxLearningWeight_value weight_ok_def less_imp_le)

lemma bounded_record_bounded: "weight_ok (weight r) \<Longrightarrow> IsContextHash (context_hash r) \<Longrightarrow> record_bounded (bounded_record r)"
  by (simp add: record_bounded_def bounded_record_def min_weight_bounded)

lemma ParseV2Row_bounded: "ParseV2Row line = Some e \<Longrightarrow> record_bounded (entry_record e)"
  by (auto simp: ParseV2Row_def Let_def bind_eq_Some_conv split: if_splits intro!: bounded_record_bounded parsed_weight_ok)

lemma migrated_count:
  assumes "\<not> double_less d 1"
  shows "word_of_int \<lfloor>rat_of_double (double_min d (double_of_int (uint kMaxLearningCount)))\<rfloor> \<le> kMaxLearningCount"
proof -
  let ?c = "double_of_int (uint kMaxLearningCount)" and ?m = "double_min d (double_of_int (uint kMaxLearningCount))"
  have "0 \<le> rat_of_double ?m \<and> rat_of_double ?m \<le> 1000000000"
    using assms max_count_double by (cases d; cases ?c) (auto simp: double_min_def not_less)
  then have "0 \<le> \<lfloor>rat_of_double ?m\<rfloor>" "\<lfloor>rat_of_double ?m\<rfloor> \<le> 1000000000" by (simp_all add: floor_le_iff)
  then show ?thesis by (simp add: word_le_def uint_word_of_int kMaxLearningCount_def)
qed

lemma double_min_less: "double_less (double_min d c) q \<Longrightarrow> isfinite c \<Longrightarrow> q \<le> rat_of_double c \<Longrightarrow> double_less d q"
  by (cases d; cases c) (auto simp: double_min_def split: if_splits)

lemma FillMigratedCounts_bounded: "record_bounded r \<Longrightarrow> record_bounded (FillMigratedCounts r)"
proof -
  let ?x = "double_round (double_div (weight r) (double_lit (8 / 10)))"
  assume r: "record_bounded r"
  have "word_of_int \<lfloor>rat_of_double (double_min ?x (double_of_int (uint kMaxLearningCount)))\<rfloor> \<le> kMaxLearningCount"
    if "\<not> double_less (double_min ?x (double_of_int (uint kMaxLearningCount))) 1"
  proof (cases "double_less ?x 1")
    case True
    then show ?thesis using that max_count_double by (cases ?x; cases "double_of_int (uint kMaxLearningCount)") (auto simp: double_min_def split: if_splits)
  qed (rule migrated_count)
  then show ?thesis using r by (auto simp: FillMigratedCounts_def record_bounded_def Let_def kMaxLearningCount_def)
qed

lemma ParseLegacyRow_bounded: "ParseLegacyRow line esc = Some e \<Longrightarrow> record_bounded (entry_record e)"
proof -
  assume "ParseLegacyRow line esc = Some e"
  then obtain s r where r: "ParseRecordValues s = Some r"
    "entry_record e = FillMigratedCounts (r\<lparr>weight := double_min (weight r) kMaxLearningWeight\<rparr>)"
    by (auto simp: ParseLegacyRow_def bind_eq_Some_conv)
  then have "weight_ok (weight r)" "commit_count r = 0" "accept_count r = 0" "reject_count r = 0" "context_hash r = []"
    by (auto simp: ParseRecordValues_def bind_eq_Some_conv empty_record_def dest: parsed_weight_ok split: if_splits)
  then show ?thesis unfolding r(2)
    by (intro FillMigratedCounts_bounded) (simp add: record_bounded_def min_weight_bounded IsContextHash_def)
qed

lemma ParseRows_loop_bounded: "Row e \<in> set (ParseRows_loop s n f) \<Longrightarrow> record_bounded (entry_record e)"
proof (induction s n f rule: ParseRows_loop.induct)
  case (1 s n f)
  show ?case
  proof (cases "getline_to (CHR 10) s")
    case None
    then show ?thesis using 1(5) by (subst (asm) ParseRows_loop.simps) simp
  next
    case (Some lr)
    obtain line rest where lr: "lr = (line, rest)" by fastforce
    have one: "record_bounded (entry_record e)"
      if "(if f = FormatV2 then ParseV2Row line else ParseLegacyRow line (f = FormatEscaped)) = Some e"
      using that by (auto split: if_splits intro: ParseV2Row_bounded ParseLegacyRow_bounded)
    note IH = 1(1-4) [OF Some lr [symmetric] refl]
    from 1(5) show ?thesis
      by (subst (asm) ParseRows_loop.simps) (auto simp: Some lr Let_def intro: IH one split: if_splits option.splits)
  qed
qed

definition store_bounded :: "store \<Rightarrow> bool" where
  "store_bounded st \<longleftrightarrow> table_wf (st_table st) \<and> (\<forall>k r. find_row (st_table st) k = Some r \<longrightarrow> record_bounded r)"

definition rows_bounded :: "learning_table \<Rightarrow> bool" where
  "rows_bounded t \<longleftrightarrow> table_wf t \<and> (\<forall>k r. find_row t k = Some r \<longrightarrow> record_bounded r)"

lemma store_bounded_rows: "store_bounded st \<longleftrightarrow> rows_bounded (st_table st)"
  by (simp add: store_bounded_def rows_bounded_def)

lemma rows_bounded_emplace: "rows_bounded t \<Longrightarrow> record_bounded r \<Longrightarrow> rows_bounded (emplace_row k r t)"
  by (auto simp: rows_bounded_def rows.find_emplace rows.wf_emplace split: if_splits)

lemma rows_bounded_assign: "rows_bounded t \<Longrightarrow> record_bounded r \<Longrightarrow> rows_bounded (assign_row k r t)"
  by (auto simp: rows_bounded_def rows.find_assign rows.wf_assign split: if_splits)

lemma rows_bounded_Nil: "rows_bounded []"
  by (simp add: rows_bounded_def table_wf_def)

lemma ParseInto_bounded: "rows_bounded t \<Longrightarrow> rows_bounded (snd (ParseInto s t))"
proof -
  let ?step = "\<lambda>(malformed, t) report. case report of
         Row e \<Rightarrow> (malformed, emplace_row (entry_reading e, entry_surface e, entry_app_name e) (entry_record e) t)
       | MalformedRow n \<Rightarrow> (malformed + 1, t)"
  assume t: "rows_bounded t"
  have "rows_bounded (snd (foldl ?step (n, t) reports))"
    if "\<forall>e. Row e \<in> set reports \<longrightarrow> record_bounded (entry_record e)" "rows_bounded t" for reports and n :: nat and t
    using that by (induction reports arbitrary: n t) (auto split: row_report.split intro: rows_bounded_emplace)
  then show ?thesis using t ParseRows_loop_bounded by (simp add: ParseInto_def ParseRows_def)
qed

text \<open>C36: Whatever the bytes of a learning file or of a backup are, every row that is loaded from them has a finite
  weight between zero and the limit, counts within the limit and a context hash of the right form, in the current
  format and in both old formats.\<close>

theorem LoadText_bounded: "store_bounded (snd (LoadText s st))"
  using ParseInto_bounded [OF rows_bounded_Nil, of s] by (simp add: LoadText_def store_bounded_rows case_prod_unfold Let_def)

section \<open>The old file without a pair\<close>

definition report_rows :: "row_report list \<Rightarrow> LearningEntry list" where
  "report_rows reports = List.map_filter (\<lambda>r. case r of Row e \<Rightarrow> Some e | MalformedRow _ \<Rightarrow> None) reports"

definition is_row_of :: "(string \<times> string) option \<Rightarrow> LearningEntry \<Rightarrow> bool" where
  "is_row_of pair e \<longleftrightarrow> (case pair of None \<Rightarrow> True | Some (rd, sf) \<Rightarrow> entry_reading e = rd \<and> entry_surface e = sf)"

definition legacy_format :: "bool \<Rightarrow> Format" where
  "legacy_format esc = (if esc then FormatEscaped else FormatLegacy)"

lemma report_rows_append: "report_rows (xs @ ys) = report_rows xs @ report_rows ys"
  by (simp add: report_rows_def map_filter_def)

lemma report_rows_Nil [simp]: "report_rows [] = []"
  by (simp add: report_rows_def map_filter_def)

text \<open>What a line that is not the first one contributes.\<close>

definition line_rows :: "bool \<Rightarrow> string \<Rightarrow> LearningEntry list" where
  "line_rows esc line = (if line = [] then [] else case ParseLegacyRow line esc of None \<Rightarrow> [] | Some e \<Rightarrow> [e])"

lemma legacy_line:
  assumes "0 < n" "getline_to (CHR 10) s = Some (line, rest)"
  shows "report_rows (ParseRows_loop s n (legacy_format esc)) = line_rows esc line @ report_rows (ParseRows_loop rest (n + 1) (legacy_format esc))"
  using assms by (subst ParseRows_loop.simps)
    (auto simp: Let_def legacy_format_def line_rows_def report_rows_def map_filter_def split: option.splits)

lemma next_line_cases:
  assumes "s \<noteq> []"
  obtains line rest where "next_line s = (line, line @ [CHR 10], rest)" "s = line @ CHR 10 # rest" "CHR 10 \<notin> set line"
  | "next_line s = (s, s, [])" "CHR 10 \<notin> set s"
proof (cases "find_char (CHR 10) s")
  case None
  then have "CHR 10 \<notin> set s" by simp
  then show thesis using that(2) None by (simp add: next_line_def)
next
  case (Some i)
  note f = find_char_Some [OF Some]
  then have "take (Suc i) s = take i s @ [CHR 10]" by (simp add: take_Suc_conv_app_nth)
  moreover have "s = take i s @ CHR 10 # drop (Suc i) s" using f by (metis id_take_nth_drop)
  ultimately show thesis using that(1) [of "take i s" "drop (Suc i) s"] f Some by (simp add: next_line_def)
qed

lemma drops_line_rows: "line \<noteq> [] \<and> drops_line pair esc line \<longleftrightarrow> line_rows esc line \<noteq> [] \<and> is_row_of pair (hd (line_rows esc line))"
  by (auto simp: drops_line_def line_rows_def is_row_of_def split: option.splits)

lemma filter_line_rows:
  "filter (\<lambda>e. \<not> is_row_of pair e) (line_rows esc line) = (if line \<noteq> [] \<and> drops_line pair esc line then [] else line_rows esc line)"
  unfolding drops_line_rows by (auto simp: line_rows_def split: option.splits)

lemma getline_last: "s \<noteq> [] \<Longrightarrow> CHR 10 \<notin> set s \<Longrightarrow> getline_to (CHR 10) s = Some (s, [])"
proof -
  assume "s \<noteq> []" "CHR 10 \<notin> set s"
  moreover from this have n: "find_char (CHR 10) s = None" by simp
  ultimately show ?thesis unfolding getline_to_def n by simp
qed

lemma without_rows_keeps:
  "0 < n \<Longrightarrow> 0 < m \<Longrightarrow>
     report_rows (ParseRows_loop (fst (without_rows pair False esc s)) n (legacy_format esc)) =
       filter (\<lambda>e. \<not> is_row_of pair e) (report_rows (ParseRows_loop s m (legacy_format esc)))"
proof (induction "length s" arbitrary: s n m rule: less_induct)
  case less
  have empty: "report_rows (ParseRows_loop [] k f) = []" for k f by (simp add: ParseRows_loop.simps getline_to_def)
  show ?case
  proof (cases "s = []")
    case True
    then show ?thesis by (simp add: without_rows.simps empty)
  next
    case False
    then show ?thesis
    proof (cases rule: next_line_cases)
      case (1 line rest)
      let ?w = "without_rows pair False esc rest" and ?drop = "line \<noteq> [] \<and> drops_line pair esc line"
      have w: "fst (without_rows pair False esc s) = (if ?drop then fst ?w else line @ CHR 10 # fst ?w)"
        using False 1(1) by (subst without_rows.simps) (simp add: case_prod_unfold Let_def)
      have IH: "report_rows (ParseRows_loop (fst ?w) k (legacy_format esc)) =
          filter (\<lambda>e. \<not> is_row_of pair e) (report_rows (ParseRows_loop rest (m + 1) (legacy_format esc)))" if "0 < k" for k
        using less(1) [of rest k "m + 1"] that 1(2) by simp
      have g: "getline_to (CHR 10) (line @ CHR 10 # x) = Some (line, x)" for x using 1(3) by (rule getline_to_line)
      have "report_rows (ParseRows_loop s m (legacy_format esc)) = line_rows esc line @ report_rows (ParseRows_loop rest (m + 1) (legacy_format esc))"
        using legacy_line [OF less(3) g] 1(2) by simp
      then show ?thesis
        using legacy_line [OF less(2) g, of "fst ?w" esc] IH [of n] IH [of "n + 1"] less(2) filter_line_rows [of pair esc line]
        by (auto simp: w)
    next
      case 2
      have w: "fst (without_rows pair False esc s) = (if s \<noteq> [] \<and> drops_line pair esc s then [] else s)"
        using False 2(1) by (subst without_rows.simps) (simp add: without_rows.simps case_prod_unfold Let_def)
      have g: "getline_to (CHR 10) s = Some (s, [])" using False 2(2) by (rule getline_last)
      show ?thesis
        using legacy_line [OF less(3) g, of esc] legacy_line [OF less(2) g, of esc] filter_line_rows [of pair esc s]
        by (auto simp: w empty)
    qed
  qed
qed

lemma without_rows_unchanged: "\<not> snd (without_rows pair first esc s) \<Longrightarrow> fst (without_rows pair first esc s) = s"
proof (induction "length s" arbitrary: s first esc rule: less_induct)
  case less
  show ?case
  proof (cases "s = []")
    case False
    then show ?thesis
    proof (cases rule: next_line_cases)
      case (1 line rest)
      then show ?thesis using less False 1(1)
        by (subst without_rows.simps, subst (asm) (2) without_rows.simps) (auto simp: case_prod_unfold Let_def split: if_splits)
    next
      case 2
      then show ?thesis using less(2) False
        by (subst without_rows.simps, subst (asm) without_rows.simps) (auto simp: case_prod_unfold Let_def without_rows.simps split: if_splits)
    qed
  qed (simp add: without_rows.simps)
qed

text \<open>The old learning file is rewritten without the rows of a forgotten pair: reading the rewritten text gives
  exactly the rows of the text without those of the pair (all of them when no pair is given), in their order; when
  nothing is removed the text is unchanged byte for byte.\<close>

theorem WithoutLegacyRows_rows:
  assumes "getline_to (CHR 10) s = Some (kLearningStoreEscapedTsvHeader, body)" "WithoutLegacyRows s pair = (kept, removed)"
  shows "report_rows (ParseRows kept) = filter (\<lambda>e. \<not> is_row_of pair e) (report_rows (ParseRows s)) \<and> (removed \<or> kept = s)"
proof -
  let ?h = kLearningStoreEscapedTsvHeader and ?w = "without_rows pair False True body"
  have h: "?h \<noteq> kLearningStoreV2Header" "CHR 10 \<notin> set ?h" by (simp_all add: kLearningStoreEscapedTsvHeader_def kLearningStoreV2Header_def)
  have parse: "report_rows (ParseRows x) = report_rows (ParseRows_loop y 1 (legacy_format True))" if "getline_to (CHR 10) x = Some (?h, y)" for x y
    using that h(1) unfolding ParseRows_def by (subst ParseRows_loop.simps) (simp add: legacy_format_def)
  have "s \<noteq> []" using assms(1) by (auto simp: getline_to_def)
  then have "getline_to (CHR 10) kept = Some (?h, fst ?w)"
  proof (cases rule: next_line_cases)
    case (1 line rest)
    then have l: "line = ?h" "rest = body" using assms(1) getline_to_line [OF 1(3), of rest] by simp_all
    then have "kept = ?h @ CHR 10 # fst ?w"
      using assms(2) 1(1) \<open>s \<noteq> []\<close> unfolding WithoutLegacyRows_def by (subst (asm) without_rows.simps) (auto simp: case_prod_unfold Let_def)
    then show ?thesis by (simp add: getline_to_line [OF h(2)])
  next
    case 2
    then have l: "s = ?h" "body = []" using assms(1) getline_last [OF \<open>s \<noteq> []\<close>] by simp_all
    then have "kept = ?h" "fst ?w = []"
      using assms(2) 2(1) \<open>s \<noteq> []\<close> unfolding WithoutLegacyRows_def by (subst (asm) without_rows.simps, auto simp: case_prod_unfold Let_def without_rows.simps)+
    then show ?thesis using getline_last [of ?h] h(2) by (simp add: kLearningStoreEscapedTsvHeader_def)
  qed
  moreover have "removed \<or> kept = s" using without_rows_unchanged [of pair True False s] assms(2) by (auto simp: WithoutLegacyRows_def)
  ultimately show ?thesis using without_rows_keeps [of 1 1 pair True body] parse assms(1) by simp
qed

section \<open>Instances\<close>

definition sample_record :: LearningRecord where
  "sample_record = \<lparr>weight = Finite False 4503599627370496 (- 52), last_updated_epoch_sec = 7, commit_count = 1,
     accept_count = 0, reject_count = 0, last_event = EvCommit, context_hash = ''0x0a1b2c3d''\<rparr>"

definition sample_store :: store where
  "sample_store = \<lparr>st_table = [(''ka'', [(''a'' @ [CHR 9], [([], sample_record)]), (''b'', [(''code.exe'', forgotten_record sample_record)])])],
     st_dirty = True\<rparr>"

lemma sample_store_ok: "store_ok sample_store"
  by (simp add: store_ok_def sample_store_def table_wf_def rows_wf_def map_wf_def row_list_def weight_ok_def sample_record_def
      forgotten_record_def empty_record_def IsContextHash_def less_imp_le)

lemma sample_find:
  "find_row (st_table sample_store) (''ka'', ''a'' @ [CHR 9], []) = Some sample_record"
  "find_row (st_table sample_store) (''ka'', ''b'', ''code.exe'') = Some (forgotten_record sample_record)"
  by (simp_all add: sample_store_def find_row.simps)

lemma sample_bounded: "bounded_record sample_record = sample_record"
  by (simp add: bounded_record_def sample_record_def kMaxLearningWeight_value double_min_def pow2_def kMaxLearningCount_def min_def)

lemma sample_forgotten: "\<not> IsForgotten sample_record" "IsForgotten (forgotten_record sample_record)"
  by (simp_all add: IsForgotten_def sample_record_def forgotten_record_def empty_record_def)

theorem SerializeText_LoadText_witness:
  "store_ok sample_store \<and> fst (LoadText (SerializeText (st_table sample_store)) sample_store) \<and>
   find_row (st_table (snd (LoadText (SerializeText (st_table sample_store)) sample_store))) (''ka'', ''a'' @ [CHR 9], []) = Some sample_record \<and>
   find_row (st_table (snd (LoadText (SerializeText (st_table sample_store)) sample_store))) (''ka'', ''b'', ''code.exe'') = None"
  using SerializeText_LoadText [OF sample_store_ok, of sample_store "(''ka'', ''a'' @ [CHR 9], [])"]
    SerializeText_LoadText [OF sample_store_ok, of sample_store "(''ka'', ''b'', ''code.exe'')"] sample_store_ok
  unfolding sample_find by (simp add: sample_bounded sample_forgotten)

definition sample_legacy :: string where
  "sample_legacy = kLearningStoreEscapedTsvHeader @ [CHR 10] @ ''a'' @ [CHR 9] @ ''b'' @ [CHR 9] @ ''0 5'' @ [CHR 10] @
     ''c'' @ [CHR 9] @ ''d'' @ [CHR 9] @ ''0 5'' @ [CHR 10]"

lemma sample_legacy_header: "getline_to (CHR 10) sample_legacy = Some (kLearningStoreEscapedTsvHeader, drop 33 sample_legacy)"
  by code_simp

lemma ParseLegacyRow_fields:
  assumes "CHR 9 \<notin> set rd" "CHR 9 \<notin> set sf" "w \<noteq> []" "CHR 10 \<notin> set w" "ParseRecordValues w = Some r"
  shows "drops_line pair True (rd @ CHR 9 # sf @ CHR 9 # w) \<longleftrightarrow>
    (case pair of None \<Rightarrow> True | Some (rd', sf') \<Rightarrow> UnescapeTsvField rd = rd' \<and> UnescapeTsvField sf = sf')"
  using assms by (simp add: drops_line_def ParseLegacyRow_def getline_to_line getline_last split: option.splits)

lemma sample_record_values: "ParseRecordValues ''0 5'' = Some (empty_record\<lparr>last_updated_epoch_sec := 5\<rparr>)"
proof -
  have "byte 53 = CHR ''5''" by code_simp
  then have "ParseUint64 ''5'' = Some 5" using ParseUint64_written [of 5] by (simp add: to_string.simps)
  moreover have "weight_ok (Finite False 0 (- 1074))" by (simp add: weight_ok_def)
  from weight_written(1) [OF this] have "ParseFiniteNonNegativeDouble ''0'' = Some (Finite False 0 (- 1074))"
    by (simp add: to_chars_double_def)
  ultimately show ?thesis
    by (simp add: ParseRecordValues_def ConsumeAsciiToken_def TrimLeadingAsciiWhitespace_def IsAsciiWhitespace_def Let_def empty_record_def)
qed

lemma next_line_line: "CHR 10 \<notin> set line \<Longrightarrow> next_line (line @ CHR 10 # rest) = (line, line @ [CHR 10], rest)"
  by (simp add: next_line_def find_char_append)

lemma without_rows_line:
  "CHR 10 \<notin> set line \<Longrightarrow> line \<noteq> [] \<Longrightarrow> without_rows pair False esc (line @ CHR 10 # rest) =
     (let (kept, removed) = without_rows pair False esc rest
      in if drops_line pair esc line then (kept, True) else (line @ CHR 10 # kept, removed))"
  by (subst without_rows.simps) (simp add: next_line_line case_prod_unfold Let_def)

lemma sample_legacy_kept:
  "WithoutLegacyRows sample_legacy (Some (''a'', ''b'')) =
     (kLearningStoreEscapedTsvHeader @ [CHR 10] @ ''c'' @ [CHR 9] @ ''d'' @ [CHR 9] @ ''0 5'' @ [CHR 10], True)"
proof -
  let ?a = "''a'' @ CHR 9 # ''b'' @ CHR 9 # ''0 5''" and ?c = "''c'' @ CHR 9 # ''d'' @ CHR 9 # ''0 5''"
  have d: "drops_line (Some (''a'', ''b'')) True ?a" "\<not> drops_line (Some (''a'', ''b'')) True ?c"
    using ParseLegacyRow_fields [of "''a''" "''b''", OF _ _ _ _ sample_record_values] ParseLegacyRow_fields [of "''c''" "''d''", OF _ _ _ _ sample_record_values]
    by simp_all
  have s: "sample_legacy = kLearningStoreEscapedTsvHeader @ CHR 10 # ?a @ CHR 10 # ?c @ CHR 10 # []" by (simp add: sample_legacy_def)
  have h: "CHR 10 \<notin> set kLearningStoreEscapedTsvHeader" by (simp add: kLearningStoreEscapedTsvHeader_def)
  have "without_rows (Some (''a'', ''b'')) False True (?a @ CHR 10 # ?c @ CHR 10 # []) = (?c @ CHR 10 # [], True)"
    using d without_rows_line [of ?a "Some (''a'', ''b'')" True] without_rows_line [of ?c "Some (''a'', ''b'')" True "[]"]
    by (simp add: without_rows.simps [of _ _ _ "[]"])
  then show ?thesis unfolding WithoutLegacyRows_def s
    by (subst without_rows.simps) (simp add: next_line_line [OF h])
qed

theorem WithoutLegacyRows_rows_witness:
  "report_rows (ParseRows (kLearningStoreEscapedTsvHeader @ [CHR 10] @ ''c'' @ [CHR 9] @ ''d'' @ [CHR 9] @ ''0 5'' @ [CHR 10])) =
     filter (\<lambda>e. \<not> is_row_of (Some (''a'', ''b'')) e) (report_rows (ParseRows sample_legacy))"
  using WithoutLegacyRows_rows [OF sample_legacy_header sample_legacy_kept] by blast

end
