(* ===== verification/LearningQueries.thy ===== *)
theory LearningQueries
  imports LearningFile
begin

text \<open>
  What the operations of the learning store do to what the user sees: a forgotten pair is shown by no
  lookup and written to no file, the lookup by prefix finds what a search of the whole table finds,
  a merge follows its policy and never exceeds the limits, and pruning keeps the best rows.
\<close>

section \<open>Pairs\<close>

lemma find_row_Rows: "find_row t (rd, sf, app) = (Rows t rd sf \<bind> (\<lambda>aa. map_of aa app))"
  by (simp add: find_row.simps Rows_def)

lemma Rows_iff: "table_wf t \<Longrightarrow> Rows t rd sf = Some aa \<longleftrightarrow> (\<exists>ss. (rd, ss) \<in> set t \<and> (sf, aa) \<in> set ss)"
proof -
  assume wf: "table_wf t"
  have t: "map_of t rd = Some ss \<longleftrightarrow> (rd, ss) \<in> set t" for ss using wf by (simp add: table_wf_def map_of_wf)
  have "map_of ss sf = Some aa \<longleftrightarrow> (sf, aa) \<in> set ss" if "(rd, ss) \<in> set t" for ss
    using that wf by (auto simp: table_wf_def rows_wf_def map_of_wf)
  then show ?thesis using t by (auto simp: Rows_def bind_eq_Some_conv)
qed

lemma Rows_assign: "Rows (map_assign rd (map_assign sf aa ss) t) rd' sf' =
    (if rd' = rd then if sf' = sf then Some aa else map_of ss sf' else Rows t rd' sf')"
  by (simp add: Rows_def map_of_assign)

section \<open>Forgetting\<close>

lemma Forget_Rows:
  "Rows (st_table (snd (Forget rd sf st))) rd' sf' =
     (if (rd', sf') = (rd, sf) then map_option (map (\<lambda>(app, r). (app, forgotten_record r))) (Rows (st_table st) rd sf)
      else Rows (st_table st) rd' sf')"
  by (auto simp: Forget_def Rows_def map_of_assign split: option.splits)

lemma Forget_wf: "table_wf (st_table st) \<Longrightarrow> table_wf (st_table (snd (Forget rd sf st)))"
proof (cases "Rows (st_table st) rd sf")
  case None
  assume "table_wf (st_table st)"
  then show ?thesis using None by (auto simp: Forget_def Rows_def split: option.splits)
next
  case (Some aa)
  assume wf: "table_wf (st_table st)"
  obtain ss where ss: "map_of (st_table st) rd = Some ss" "map_of ss sf = Some aa" using Some by (auto simp: Rows_def bind_eq_Some_conv)
  then have "rows_wf ss" "aa \<noteq> []" "map_wf aa" using wf rows_wf_find apps_wf_find by blast+
  then show ?thesis using wf by (simp add: Forget_def ss table_wf_assign rows_wf_assign map_wf_map)
qed

lemma forgotten_record_forgotten: "IsForgotten (forgotten_record r)"
  by (simp add: IsForgotten_def forgotten_record_def empty_record_def)

lemma Forget_all_forgotten: "Rows (st_table (snd (Forget rd sf st))) rd sf = Some aa \<Longrightarrow> AllForgotten aa"
  by (auto simp: Forget_Rows AllForgotten_def list_all_iff forgotten_record_forgotten)

text \<open>The score of forgotten rows made by \<open>Forget\<close> never exceeds zero, whatever \<open>std::exp\<close> gives.\<close>

fun zero_or_nan :: "double \<Rightarrow> bool" where
  "zero_or_nan (Finite s m e) \<longleftrightarrow> m = 0"
| "zero_or_nan (Infinite s) \<longleftrightarrow> False"
| "zero_or_nan NaN \<longleftrightarrow> True"

lemma zero_mul: "zero_or_nan (double_mul (Finite s 0 e) b)"
  by (cases b) (simp_all add: round_signed_def round_magnitude_def)

lemma zero_add: "zero_or_nan a \<Longrightarrow> zero_or_nan b \<Longrightarrow> zero_or_nan (double_add a b)"
  by (cases a; cases b) simp_all

lemma zero_not_greater: "zero_or_nan a \<Longrightarrow> cost_ok b \<Longrightarrow> \<not> double_lt b a"
  by (cases a; cases b) auto

lemma forgotten_score: "zero_or_nan (SumDecayedWeight exp_fn (map (\<lambda>(app, r). (app, forgotten_record r)) aa) now)"
proof -
  have "zero_or_nan (foldl (\<lambda>sum (app, r). double_add sum (DecayedWeight exp_fn r now)) z (map (\<lambda>(app, r). (app, forgotten_record r)) aa))"
    if "zero_or_nan z" for z
    using that
  proof (induction aa arbitrary: z)
    case (Cons row aa)
    have "zero_or_nan (DecayedWeight exp_fn (forgotten_record (snd row)) now)"
      by (simp add: DecayedWeight_def forgotten_record_def empty_record_def zero_mul del: double_mul.simps)
    then show ?case using Cons.IH [OF zero_add [OF Cons.prems]] by (simp add: case_prod_unfold)
  qed simp
  then show ?thesis by (simp add: SumDecayedWeight_def double_zero_def)
qed

subsection \<open>What the lookups show\<close>

definition surface_matches :: "(double \<Rightarrow> double) \<Rightarrow> double \<Rightarrow> 64 word \<Rightarrow> string \<Rightarrow> (string, app_rows) map \<Rightarrow> LearningMatch list" where
  "surface_matches exp_fn min_score now rd ss =
     map (\<lambda>(sf, aa). \<lparr>match_reading = rd, match_surface = sf, match_score = SumDecayedWeight exp_fn aa now\<rparr>)
       (filter (\<lambda>(sf, aa). \<not> AllForgotten aa \<and> double_geq (SumDecayedWeight exp_fn aa now) min_score) ss)"

text \<open>The matches of a search through the whole table.\<close>

definition all_matches :: "(double \<Rightarrow> double) \<Rightarrow> string \<Rightarrow> double \<Rightarrow> 64 word \<Rightarrow> learning_table \<Rightarrow> LearningMatch list" where
  "all_matches exp_fn p min_score now t =
     concat (map (\<lambda>(rd, ss). surface_matches exp_fn min_score now rd ss) (filter (\<lambda>(rd, ss). prefix p rd) t))"

lemma scan_surfaces:
  "foldl (scan_pair exp_fn min_score now rd) res ss =
     res\<lparr>matches := matches res @ surface_matches exp_fn min_score now rd ss, scanned_records := scanned_records res + length ss\<rparr>"
proof (induction ss arbitrary: res)
  case (Cons e ss)
  have "scan_pair exp_fn min_score now rd res e =
      res\<lparr>matches := matches res @ surface_matches exp_fn min_score now rd [e], scanned_records := scanned_records res + 1\<rparr>"
    by (cases e) (simp add: scan_pair_def surface_matches_def Let_def)
  then show ?case using Cons.IH by (simp add: surface_matches_def)
qed (simp add: surface_matches_def)

lemma take_prefix: "take (length p) s = p \<longleftrightarrow> prefix p s"
  by (metis append_eq_conv_conj prefix_def)

lemma scan_readings_result:
  "scan_readings exp_fn p min_score now it res =
     res\<lparr>matches := matches res @ concat (map (\<lambda>(rd, ss). surface_matches exp_fn min_score now rd ss) (takeWhile (\<lambda>(rd, ss). prefix p rd) it)),
         visited_readings := visited_readings res + min (length it) (Suc (length (takeWhile (\<lambda>(rd, ss). prefix p rd) it))),
         scanned_records := scanned_records res + sum_list (map (length \<circ> snd) (takeWhile (\<lambda>(rd, ss). prefix p rd) it))\<rparr>"
proof (induction it arbitrary: res)
  case (Cons e it)
  then show ?case by (cases e) (simp add: Let_def take_prefix scan_surfaces)
qed simp

lemma takeWhile_lower_bound:
  "map_wf t \<Longrightarrow> takeWhile (\<lambda>(rd, ss). prefix p rd) (lower_bound p t) = filter (\<lambda>(rd, ss). prefix p rd) t"
  for t :: "(string, 'v) map"
proof (induction t)
  case (Cons e t)
  obtain rd ss where e: "e = (rd, ss)" by fastforce
  have wf: "map_wf t" "\<forall>x \<in> fst ` set t. rd < x" using Cons.prems by (simp_all add: e map_wf_Cons)
  show ?case
  proof (cases "rd < p")
    case True
    then have "\<not> prefix p rd" using prefix_le [of p rd] by auto
    then show ?thesis using True Cons.IH wf(1) by (simp add: e lower_bound_def)
  next
    case False
    have sorted: "takeWhile (\<lambda>(rd, ss). prefix p rd) t = filter (\<lambda>(rd, ss). prefix p rd) t"
    proof -
      have "dropWhile (\<lambda>(a, b). a < p) t = t" using False wf(2) by (cases t) force+
      then show ?thesis using Cons.IH wf(1) by (simp add: lower_bound_def)
    qed
    have "filter (\<lambda>(rd, ss). prefix p rd) t = []" if "\<not> prefix p rd"
    proof -
      have "\<not> prefix p x" if "x \<in> fst ` set t" for x
        using prefix_interval [of p rd x] that wf(2) False \<open>\<not> prefix p rd\<close> by (metis less_imp_le linorder_not_le)
      then show ?thesis by (force simp: filter_empty_conv)
    qed
    then show ?thesis using False sorted by (auto simp: e lower_bound_def)
  qed
qed (simp add: lower_bound_def)

lemma LookupPrefix_matches:
  assumes "table_wf t" "p \<noteq> []" "0 < limit"
  shows "matches (LookupPrefix exp_fn t p limit min_score now) = take limit (stable_sort better_match (all_matches exp_fn p min_score now t))"
proof -
  have "map_wf t" using assms(1) by (simp add: table_wf_def)
  from takeWhile_lower_bound [OF this, of p] have "matches (scan_readings exp_fn p min_score now (lower_bound p t) \<lparr>matches = [], visited_readings = 0, scanned_records = 0\<rparr>) =
      all_matches exp_fn p min_score now t"
    by (simp add: scan_readings_result all_matches_def)
  then show ?thesis using assms(2,3) by (simp add: LookupPrefix_def Let_def min_def)
qed

text \<open>The lookup by prefix starts at the first reading that is not before the prefix and stops at the first that does not
  begin with it; it finds what a search through the whole table finds: of all pairs whose reading begins with the
  prefix, that are not forgotten and whose score reaches the minimum, the best ones up to the limit. It visits at most
  one reading more than those beginning with the prefix.\<close>

theorem LookupPrefix_exact:
  assumes "table_wf t" "p \<noteq> []" "0 < limit"
  shows "matches (LookupPrefix exp_fn t p limit min_score now) = take limit (stable_sort better_match (all_matches exp_fn p min_score now t)) \<and>
    visited_readings (LookupPrefix exp_fn t p limit min_score now) \<le> Suc (length (filter (\<lambda>(rd, ss). prefix p rd) t))"
proof -
  have "map_wf t" using assms(1) by (simp add: table_wf_def)
  from takeWhile_lower_bound [OF this, of p] have "visited_readings (LookupPrefix exp_fn t p limit min_score now) \<le> Suc (length (filter (\<lambda>(rd, ss). prefix p rd) t))"
    using assms(2,3) by (simp add: LookupPrefix_def Let_def scan_readings_result)
  then show ?thesis using LookupPrefix_matches [OF assms] by simp
qed

lemma all_matches_pair:
  assumes "table_wf t" "m \<in> set (all_matches exp_fn p min_score now t)"
  shows "\<exists>aa. Rows t (match_reading m) (match_surface m) = Some aa \<and> \<not> AllForgotten aa"
  using assms(2) unfolding all_matches_def surface_matches_def Rows_iff [OF assms(1)] by fastforce

lemma LookupPrefix_pair:
  assumes "table_wf t" "m \<in> set (matches (LookupPrefix exp_fn t p limit min_score now))"
  shows "\<exists>aa. Rows t (match_reading m) (match_surface m) = Some aa \<and> \<not> AllForgotten aa"
proof (cases "p = [] \<or> limit = 0")
  case True
  then show ?thesis using assms(2) by (auto simp: LookupPrefix_def Let_def)
next
  case False
  then have "m \<in> set (all_matches exp_fn p min_score now t)"
    using assms LookupPrefix_matches [of t p limit] by (auto simp: set_stable_sort dest!: in_set_takeD)
  then show ?thesis using assms(1) by (rule all_matches_pair [rotated])
qed

lemma aggregate_forgotten:
  assumes "AllForgotten aa"
  shows "\<not> aggregate_shown (aggregate rd sf aa)"
proof -
  have "foldl add_row agg aa = agg" for agg
    using assms by (induction aa) (auto simp: AllForgotten_def add_row_def)
  then show ?thesis by (simp add: aggregate_def aggregate_shown_def double_zero_def)
qed

lemma foldl_add_row_pair:
  "agg_reading (foldl add_row agg aa) = agg_reading agg \<and> agg_surface (foldl add_row agg aa) = agg_surface agg"
  by (induction aa arbitrary: agg) (auto simp: add_row_def Let_def)

lemma Aggregates_pair:
  assumes "table_wf t" "a \<in> set (Aggregates t)"
  shows "\<exists>aa. Rows t (agg_reading a) (agg_surface a) = Some aa \<and> \<not> AllForgotten aa"
proof -
  obtain rd ss sf aa where a: "(rd, ss) \<in> set t" "(sf, aa) \<in> set ss" "a = aggregate rd sf aa" "aggregate_shown a"
    using assms(2) by (auto simp: Aggregates_def)
  then have "agg_reading a = rd" "agg_surface a = sf" by (simp_all add: aggregate_def foldl_add_row_pair)
  moreover have "\<not> AllForgotten aa" using a(3,4) aggregate_forgotten by blast
  ultimately show ?thesis using a(1,2) Rows_iff [OF assms(1)] by blast
qed

lemma ReverseLookup_pair:
  assumes "table_wf t" "ReverseLookup exp_fn t sf now \<noteq> []"
  shows "\<exists>aa. Rows t (ReverseLookup exp_fn t sf now) sf = Some aa \<and> \<not> zero_or_nan (SumDecayedWeight exp_fn aa now)"
proof -
  let ?step = "\<lambda>(best_reading, best_score) (rd, ss).
        case map_of ss sf of
          None \<Rightarrow> (best_reading, best_score)
        | Some aa \<Rightarrow>
            (let score = SumDecayedWeight exp_fn aa now in
             if double_lt best_score score then (rd, score) else (best_reading, best_score))"
  define inv where "inv = (\<lambda>(best, score). cost_ok score \<and>
    (best = [] \<or> (\<exists>aa. Rows t best sf = Some aa \<and> \<not> zero_or_nan (SumDecayedWeight exp_fn aa now))))"
  have lt: "cost_ok b" if "cost_ok a" "double_lt a b" for a b using that by (cases a; cases b) auto
  have "inv (foldl ?step acc es)" if "inv acc" "set es \<subseteq> set t" for acc es
    using that
  proof (induction es arbitrary: acc)
    case (Cons e es)
    obtain rd ss where e: "e = (rd, ss)" by fastforce
    have rows: "Rows t rd sf = Some aa" if "map_of ss sf = Some aa" for aa
      using that Cons.prems(2) Rows_iff [OF assms(1)] map_of_SomeD [OF that] by (auto simp: e)
    obtain best score where acc: "acc = (best, score)" by fastforce
    have "inv (?step acc e)"
    proof (cases "map_of ss sf")
      case (Some aa)
      let ?s = "SumDecayedWeight exp_fn aa now"
      have "inv (rd, ?s)" if "double_lt score ?s"
        using that Cons.prems(1) rows [OF Some] lt [of score ?s] zero_not_greater [of ?s score] by (auto simp: inv_def acc)
      then show ?thesis using Cons.prems(1) Some by (simp add: e acc Let_def)
    qed (use Cons.prems(1) in \<open>simp add: e acc\<close>)
    then show ?case using Cons.IH [of "?step acc e"] Cons.prems(2) by simp
  qed simp
  then have "inv (foldl ?step ([], double_zero) t)" by (simp add: inv_def double_zero_def)
  then show ?thesis using assms(2) by (auto simp: inv_def ReverseLookup_def case_prod_unfold split: if_splits)
qed

text \<open>C8: After a pair is forgotten, no lookup by prefix with any limits, no lookup of a reading for the surface and no
  listing shows it, at any time and whatever the decay function gives, and the next saved file has no row of it for any
  application; every row of every other pair is as before.\<close>

theorem Forget_hides:
  assumes "table_wf (st_table st)" "Forget rd sf st = (found, st')"
  shows "(\<forall>m \<in> set (matches (LookupPrefix exp_fn (st_table st') p limit min_score now)). (match_reading m, match_surface m) \<noteq> (rd, sf)) \<and>
    (\<forall>a \<in> set (Aggregates (st_table st')). (agg_reading a, agg_surface a) \<noteq> (rd, sf)) \<and>
    (rd \<noteq> [] \<longrightarrow> ReverseLookup exp_fn (st_table st') sf now \<noteq> rd) \<and>
    (\<forall>(k, r) \<in> set (saved_rows (st_table st')). (fst k, fst (snd k)) \<noteq> (rd, sf)) \<and>
    (\<forall>rd' sf' app. (rd', sf') \<noteq> (rd, sf) \<longrightarrow> find_row (st_table st') (rd', sf', app) = find_row (st_table st) (rd', sf', app))"
proof -
  let ?t = "st_table st'"
  have st': "st' = snd (Forget rd sf st)" using assms(2) by simp
  have wf: "table_wf ?t" using Forget_wf [OF assms(1)] by (simp add: st')
  have rows: "AllForgotten aa" if "Rows ?t rd sf = Some aa" for aa using that Forget_all_forgotten st' by blast
  have "(match_reading m, match_surface m) \<noteq> (rd, sf)" if "m \<in> set (matches (LookupPrefix exp_fn ?t p limit min_score now))" for m
    using LookupPrefix_pair [OF wf that] rows by auto
  moreover have "(agg_reading a, agg_surface a) \<noteq> (rd, sf)" if "a \<in> set (Aggregates ?t)" for a
    using Aggregates_pair [OF wf that] rows by auto
  moreover have "ReverseLookup exp_fn ?t sf now \<noteq> rd" if "rd \<noteq> []"
    using ReverseLookup_pair [OF wf, of exp_fn sf now] that forgotten_score by (auto simp: st' Forget_Rows)
  moreover have "(fst k, fst (snd k)) \<noteq> (rd, sf)" if kr: "(k, r) \<in> set (saved_rows ?t)" for k r
  proof
    assume "(fst k, fst (snd k)) = (rd, sf)"
    moreover have "find_row ?t k = Some r" "\<not> IsForgotten r" using kr find_row_iff [OF wf] by (auto simp: saved_rows_def)
    ultimately obtain aa where "Rows ?t rd sf = Some aa" "map_of aa (snd (snd k)) = Some r" "\<not> IsForgotten r"
      by (cases k) (auto simp: find_row_Rows bind_eq_Some_conv)
    then show False using rows map_of_SomeD by (fastforce simp: AllForgotten_def list_all_iff)
  qed
  moreover have "find_row ?t (rd', sf', app) = find_row (st_table st) (rd', sf', app)" if "(rd', sf') \<noteq> (rd, sf)" for rd' sf' app
    using that by (auto simp: find_row_Rows st' Forget_Rows)
  ultimately show ?thesis by blast
qed

section \<open>Merging\<close>

definition merged :: "ImportConflictPolicy \<Rightarrow> LearningRecord option \<Rightarrow> LearningRecord \<Rightarrow> LearningRecord option" where
  "merged policy old r =
     (if IsForgotten r then old
      else case old of
             None \<Rightarrow> Some r
           | Some l \<Rightarrow> if IsForgotten l then Some r
                       else case policy of PolicyMerge \<Rightarrow> Some (AddRecord l r) | PolicyOverwrite \<Rightarrow> Some r | PolicyKeepBoth \<Rightarrow> Some l)"

lemma merge_row_find:
  assumes "table_wf t"
  shows "table_wf (fst (merge_row policy (t, c) (k, r)))"
    "find_row (fst (merge_row policy (t, c) (k, r))) = (find_row t)(k := merged policy (find_row t k) r)"
    "imported (snd (merge_row policy (t, c) (k, r))) + skipped (snd (merge_row policy (t, c) (k, r))) = imported c + skipped c + 1"
  using assms by (auto simp: merge_row_def merged_def Let_def find_row_assign_row find_row_emplace_row table_wf_assign_row table_wf_emplace_row
      fun_eq_iff split: option.splits ImportConflictPolicy.splits)

lemma merge_rows_find:
  "table_wf t \<Longrightarrow> distinct (map fst rs) \<Longrightarrow>
     table_wf (fst (foldl (merge_row policy) (t, c) rs)) \<and>
     find_row (fst (foldl (merge_row policy) (t, c) rs)) k =
       (case map_of rs k of None \<Rightarrow> find_row t k | Some r \<Rightarrow> merged policy (find_row t k) r) \<and>
     imported (snd (foldl (merge_row policy) (t, c) rs)) + skipped (snd (foldl (merge_row policy) (t, c) rs)) = imported c + skipped c + length rs"
proof (induction rs arbitrary: t c)
  case (Cons row rs)
  obtain k0 r0 where row: "row = (k0, r0)" by fastforce
  obtain t1 c1 where m: "merge_row policy (t, c) row = (t1, c1)" by fastforce
  note f = merge_row_find [OF Cons.prems(1), of policy c k0 r0, folded row, unfolded m fst_conv snd_conv]
  have "map_of rs k0 = None" using Cons.prems(2) by (simp add: row map_of_eq_None_iff)
  then show ?case using Cons.IH [OF f(1), of c1] Cons.prems(2) f(2,3) m by (cases "k = k0"; cases "map_of rs k") (simp_all add: row)
qed simp

lemma SaturatingAdd_exact: "unat (SaturatingAdd a b) = min (min (unat a) 1000000000 + min (unat b) 1000000000) 1000000000"
proof -
  let ?m = "\<lambda>x. min x kMaxLearningCount"
  have k: "unat kMaxLearningCount = 1000000000" by (simp add: kMaxLearningCount_def)
  have u: "unat (min x y) = min (unat x) (unat y)" for x y :: "64 word" by (simp add: min_def word_le_nat_alt)
  have "unat (?m a) + unat (?m b) < 2 ^ LENGTH(64)" by (simp add: u k)
  then have "unat (?m a + ?m b) = unat (?m a) + unat (?m b)" by (rule iffD1 [OF unat_add_lem])
  then show ?thesis by (simp add: SaturatingAdd_def u k)
qed

lemma SaturatingAdd_bounded: "SaturatingAdd a b \<le> kMaxLearningCount"
  by (simp add: SaturatingAdd_def)

lemma sum_weight_ok:
  assumes "weight_ok a" "weight_ok b"
  shows "weight_ok (double_min (double_add a b) kMaxLearningWeight)" "\<not> double_lt kMaxLearningWeight (double_min (double_add a b) kMaxLearningWeight)"
proof -
  obtain s m e t n f where ab: "a = Finite s m e" "b = Finite t n f" using assms by (cases a; cases b) (auto simp: weight_ok_def)
  define v where "v = rat_of_double a + rat_of_double b"
  have v: "0 \<le> v" using assms by (simp add: weight_ok_def v_def)
  have "weight_ok (double_add a b) \<or> double_add a b = Infinite False"
  proof (cases "v = 0")
    case True
    then show ?thesis by (simp add: ab v_def [unfolded ab] weight_ok_def)
  next
    case False
    then have sum: "double_add a b = round_signed False v" using v by (simp add: ab v_def [unfolded ab] Let_def not_less)
    show ?thesis
    proof (cases "round_magnitude False v")
      case (Some d)
      then have "double_wf d" using v round_magnitude_wf by blast
      moreover have "0 \<le> rat_of_double d" using round_signed_cost [OF v] Some \<open>double_wf d\<close> by (cases d) (auto simp: round_signed_def)
      ultimately show ?thesis using Some by (simp add: sum round_signed_def weight_ok_def)
    qed (simp add: sum round_signed_def)
  qed
  moreover have "weight_ok kMaxLearningWeight" by (simp add: kMaxLearningWeight_value weight_ok_def less_imp_le)
  ultimately show "weight_ok (double_min (double_add a b) kMaxLearningWeight)" "\<not> double_lt kMaxLearningWeight (double_min (double_add a b) kMaxLearningWeight)"
    using min_weight_bounded [of "double_add a b"] by (auto simp: double_min_def kMaxLearningWeight_value)
qed

lemma AddRecord_bounded: "record_bounded a \<Longrightarrow> record_bounded b \<Longrightarrow> record_bounded (AddRecord a b)"
  by (simp add: AddRecord_def record_bounded_def SaturatingAdd_bounded sum_weight_ok Let_def)

lemma merged_bounded: "pred_option record_bounded old \<Longrightarrow> record_bounded r \<Longrightarrow> pred_option record_bounded (merged policy old r)"
  by (auto simp: merged_def AddRecord_bounded split: option.splits ImportConflictPolicy.splits)

text \<open>C19: Importing a backup, whatever its bytes are, into a store within the limits gives a store within the limits, and
  row by row the policy decides: a row only one side has is kept or added, a forgotten row never replaces or clashes,
  and of two rows the policy takes the sum, the imported one or the present one. Every imported row is counted once.\<close>

theorem import_follows_policy:
  assumes "store_bounded st" "Merge (st_table (snd (LoadText s st0))) policy st = (counts, st')"
  shows "store_bounded st' \<and>
    find_row (st_table st') k =
      (case find_row (st_table (snd (LoadText s st0))) k of
         None \<Rightarrow> find_row (st_table st) k
       | Some r \<Rightarrow> merged policy (find_row (st_table st) k) r) \<and>
    imported counts + skipped counts = store_size (st_table (snd (LoadText s st0)))"
proof -
  let ?o = "st_table (snd (LoadText s st0))" and ?c = "\<lparr>imported = 0, skipped = 0, conflicts = 0\<rparr>"
  have o: "rows_bounded ?o" using ParseInto_bounded [OF rows_bounded_Nil, of s] by (simp add: LoadText_def case_prod_unfold Let_def)
  have t: "table_wf (st_table st)" "table_wf ?o" using assms(1) o by (simp_all add: store_bounded_def rows_bounded_def)
  have m: "st_table st' = fst (foldl (merge_row policy) (st_table st, ?c) (row_list ?o))"
    "counts = snd (foldl (merge_row policy) (st_table st, ?c) (row_list ?o))"
    using assms(2) by (auto simp: Merge_def case_prod_unfold Let_def)
  note f = merge_rows_find [OF t(1) distinct_row_list [OF t(2)], of policy ?c, folded m, unfolded map_of_row_list [OF t(2)]]
  have "pred_option record_bounded (find_row (st_table st') k)" for k
  proof -
    have old: "pred_option record_bounded (find_row (st_table st) k)"
      using assms(1) by (auto simp: store_bounded_def pred_option_def simp del: split_paired_All)
    have "record_bounded r" if "find_row ?o k = Some r" for r using that o by (auto simp: rows_bounded_def simp del: split_paired_All)
    then show ?thesis using f [of k] old merged_bounded [OF old, of _ policy] by (cases "find_row ?o k") simp_all
  qed
  then show ?thesis using f [of k] by (auto simp: store_bounded_def store_size_row_list pred_option_def)
qed

section \<open>Pruning\<close>

lemma prune_light_wf: "table_wf t \<Longrightarrow> table_wf (prune_light exp_fn w now t)"
proof -
  assume wf: "table_wf t"
  have "rows_wf (filter P ss)" if "rows_wf ss" for P ss using that by (auto simp: rows_wf_def map_wf_filter)
  then show ?thesis using wf
    by (auto simp: table_wf_def prune_light_def map_wf_map [where f = "filter (\<lambda>(sf, aa). prune_keeps exp_fn w now aa)"] intro!: map_wf_filter)
qed

lemma prune_light_Rows:
  assumes "table_wf t"
  shows "Rows (prune_light exp_fn w now t) rd sf = Some aa \<longleftrightarrow> Rows t rd sf = Some aa \<and> prune_keeps exp_fn w now aa"
proof -
  have "(rd, ss') \<in> set (prune_light exp_fn w now t) \<longleftrightarrow>
      (\<exists>ss. (rd, ss) \<in> set t \<and> ss' = filter (\<lambda>(sf, aa). prune_keeps exp_fn w now aa) ss \<and> ss' \<noteq> [])" for ss'
    by (auto simp: prune_light_def)
  then show ?thesis
    unfolding Rows_iff [OF assms] Rows_iff [OF prune_light_wf [OF assms]] by (fastforce simp: filter_empty_conv)
qed

lemma prune_light_find:
  "table_wf t \<Longrightarrow> find_row (prune_light exp_fn w now t) k = Some r \<Longrightarrow> find_row t k = Some r"
  by (cases k) (auto simp: find_row_Rows bind_eq_Some_conv prune_light_Rows)

lemma store_size_card: "table_wf t \<Longrightarrow> store_size t = card (dom (find_row t))"
proof -
  assume wf: "table_wf t"
  have "dom (find_row t) = set (map fst (row_list t))" by (simp add: map_of_row_list [OF wf, symmetric] dom_map_of_conv_image_fst)
  then show ?thesis using distinct_card [OF distinct_row_list [OF wf]] by (simp add: store_size_row_list)
qed

lemma erase_rows: "table_wf t \<Longrightarrow> table_wf (foldl (\<lambda>t x. erase_row (f x) t) t xs) \<and>
    find_row (foldl (\<lambda>t x. erase_row (f x) t) t xs) = find_row t |` (- f ` set xs)"
proof (induction xs arbitrary: t)
  case (Cons x xs)
  then show ?case using Cons.IH [OF rows.wf_erase [OF Cons.prems, of "f x"]]
    by (auto simp: rows.find_erase restrict_map_def fun_eq_iff)
qed (simp add: restrict_map_def fun_eq_iff)

lemma ranked_orders:
  assumes "\<forall>x \<in> A. cost_ok (ranked_score x)"
  shows "orders A ranked_less"
proof -
  have eq: "double_eq (ranked_score x) (ranked_score y) \<longleftrightarrow> double_le (ranked_score x) (ranked_score y) \<and> double_le (ranked_score y) (ranked_score x)"
    if "x \<in> A" "y \<in> A" for x y using that assms by (auto simp: double_eq_def double_le_def)
  have less: "ranked_less x y \<longleftrightarrow> double_le (ranked_score x) (ranked_score y) \<and>
      (double_le (ranked_score y) (ranked_score x) \<longrightarrow> serialized_key x < serialized_key y)" if "x \<in> A" "y \<in> A" for x y
    using that assms double_lt_imp_le [of "ranked_score x" "ranked_score y"] eq [OF that]
    by (auto simp: ranked_less_def double_le_def)
  have tot: "double_le (ranked_score x) (ranked_score y) \<or> double_le (ranked_score y) (ranked_score x)" if "x \<in> A" "y \<in> A" for x y
    using that assms double_lt_imp_le [of "ranked_score x" "ranked_score y"] by (auto simp: double_le_def)
  have trans: "double_le (ranked_score x) (ranked_score z)"
    if "x \<in> A" "y \<in> A" "z \<in> A" "double_le (ranked_score x) (ranked_score y)" "double_le (ranked_score y) (ranked_score z)" for x y z
    using that assms double_le_trans by blast
  show ?thesis
    unfolding orders_def
  proof (intro conjI ballI impI)
    fix a b assume "a \<in> A" "b \<in> A" "ranked_less a b"
    then show "\<not> ranked_less b a" using less by auto
  next
    fix a b c assume A: "a \<in> A" "b \<in> A" "c \<in> A" and n: "\<not> ranked_less b a" "\<not> ranked_less c b"
    note l = less [OF A(2,1)] less [OF A(3,2)] less [OF A(3,1)]
    show "\<not> ranked_less c a"
      using n l tot [OF A(1,2)] tot [OF A(2,3)] tot [OF A(1,3)] trans [of a b c] trans [of c a b] trans [of b c a] trans [of c b a] trans [of b a c] trans [of a c b] A
      by (meson leD le_less_trans not_less)
  qed
qed

lemma ranked_record_fields: "ranked_key (ranked_record exp_fn now (k, r)) = k" "ranked_score (ranked_record exp_fn now (k, r)) = DecayedWeight exp_fn r now"
  by (cases k, simp)+

definition ranked_rows :: "(double \<Rightarrow> double) \<Rightarrow> 64 word \<Rightarrow> learning_table \<Rightarrow> RankedRecord list" where
  "ranked_rows exp_fn now t = stable_sort ranked_less (map (ranked_record exp_fn now) (row_list t))"

lemma ranked_rows_keys:
  assumes "table_wf t"
  shows "distinct (map ranked_key (ranked_rows exp_fn now t))" "ranked_key ` set (ranked_rows exp_fn now t) = dom (find_row t)"
    "length (ranked_rows exp_fn now t) = store_size t"
proof -
  let ?L = "map (ranked_record exp_fn now) (row_list t)"
  have keys: "map ranked_key ?L = map fst (row_list t)" by (auto simp: ranked_record_fields simp del: ranked_record.simps)
  have "mset (map ranked_key (ranked_rows exp_fn now t)) = mset (map ranked_key ?L)" by (simp only: ranked_rows_def mset_map mset_stable_sort)
  then have "distinct (map ranked_key (ranked_rows exp_fn now t)) = distinct (map ranked_key ?L)" by (rule mset_eq_imp_distinct_iff)
  then show "distinct (map ranked_key (ranked_rows exp_fn now t))" using distinct_row_list [OF assms] by (simp only: keys)
  have "ranked_key ` set (ranked_rows exp_fn now t) = set (map ranked_key ?L)" by (simp only: ranked_rows_def set_stable_sort set_map)
  then show "ranked_key ` set (ranked_rows exp_fn now t) = dom (find_row t)"
    by (simp only: keys) (simp add: map_of_row_list [OF assms, symmetric] dom_map_of_conv_image_fst)
  show "length (ranked_rows exp_fn now t) = store_size t" by (simp add: ranked_rows_def store_size_row_list)
qed

lemma ranked_rows_score:
  assumes "table_wf t" "find_row t k = Some r" "x \<in> set (ranked_rows exp_fn now t)" "ranked_key x = k"
  shows "ranked_score x = DecayedWeight exp_fn r now"
proof -
  obtain j q where x: "x = ranked_record exp_fn now (j, q)" "(j, q) \<in> set (row_list t)"
    using assms(3) by (auto simp: ranked_rows_def set_stable_sort simp del: ranked_record.simps)
  then have "find_row t k = Some q" using assms(4) find_row_iff [OF assms(1)] by (simp add: ranked_record_fields)
  then show ?thesis using assms(2) x(1) by (simp add: ranked_record_fields)
qed

lemma erase_ranked:
  assumes "table_wf t" "n \<le> store_size t"
    and t': "t' = foldl (\<lambda>t rk. erase_row (ranked_key rk) t) t (take n (ranked_rows exp_fn now t))"
  shows "table_wf t'" "find_row t' = find_row t |` (- ranked_key ` set (take n (ranked_rows exp_fn now t)))" "store_size t' = store_size t - n"
proof -
  let ?ranked = "ranked_rows exp_fn now t"
  have "table_wf t' \<and> find_row t' = find_row t |` (- ranked_key ` set (take n ?ranked))" unfolding t' by (rule erase_rows [OF assms(1)])
  then show wf: "table_wf t'" and f: "find_row t' = find_row t |` (- ranked_key ` set (take n ?ranked))" by simp_all
  have "card (set (map ranked_key (take n ?ranked))) = length (take n ?ranked)"
    using ranked_rows_keys(1) [OF assms(1), of exp_fn now] distinct_card [of "map ranked_key (take n ?ranked)"] by (simp add: take_map [symmetric])
  then have "card (ranked_key ` set (take n ?ranked)) = n" using assms(2) ranked_rows_keys(3) [OF assms(1), of exp_fn now] by simp
  moreover have "ranked_key ` set (take n ?ranked) \<subseteq> dom (find_row t)"
    using ranked_rows_keys(2) [OF assms(1), of exp_fn now] set_take_subset [of n ?ranked] by blast
  moreover have "dom (find_row t') = dom (find_row t) - ranked_key ` set (take n ?ranked)" using f by auto
  ultimately show "store_size t' = store_size t - n"
    by (simp add: store_size_card [OF wf] store_size_card [OF assms(1)] card_Diff_subset)
qed

lemma erase_ranked_best:
  assumes "table_wf t" "\<And>k r. find_row t k = Some r \<Longrightarrow> cost_ok (DecayedWeight exp_fn r now)"
    and "find_row t k = Some r" "k \<notin> ranked_key ` set (take n (ranked_rows exp_fn now t))"
    and "find_row t k' = Some r'" "k' \<in> ranked_key ` set (take n (ranked_rows exp_fn now t))"
  shows "\<not> double_lt (DecayedWeight exp_fn r now) (DecayedWeight exp_fn r' now)"
proof -
  let ?ranked = "ranked_rows exp_fn now t"
  have "cost_ok (ranked_score x)" if "x \<in> set ?ranked" for x
  proof -
    from imageI [OF that, of ranked_key] obtain j where "find_row t (ranked_key x) = Some j"
      unfolding ranked_rows_keys(2) [OF assms(1)] by (auto simp: dom_def)
    then show ?thesis using assms(2) [of "ranked_key x" j] ranked_rows_score [OF assms(1) _ that refl, of j] by simp
  qed
  then have "orders (set (map (ranked_record exp_fn now) (row_list t))) ranked_less"
    by (intro ranked_orders) (simp add: ranked_rows_def set_stable_sort)
  from stable_sort_ordered [OF this] have "sorted_wrt (\<lambda>a b. \<not> ranked_less b a) (take n ?ranked @ drop n ?ranked)"
    by (simp add: ranked_rows_def)
  then have ord: "\<not> ranked_less y x" if "x \<in> set (take n ?ranked)" "y \<in> set (drop n ?ranked)" for x y
    using that by (simp only: sorted_wrt_append) blast
  obtain x where x: "x \<in> set (take n ?ranked)" "ranked_key x = k'" using assms(6) by blast
  have "k \<in> ranked_key ` set ?ranked" using assms(1,3) ranked_rows_keys(2) by blast
  then obtain y where y: "y \<in> set ?ranked" "ranked_key y = k" by blast
  then have "y \<in> set (drop n ?ranked)" using assms(4) by (metis Un_iff append_take_drop_id imageI set_append)
  then have "\<not> ranked_less y x" using ord x(1) by blast
  moreover have "ranked_score y = DecayedWeight exp_fn r now" "ranked_score x = DecayedWeight exp_fn r' now"
    using ranked_rows_score [OF assms(1,3) y] ranked_rows_score [OF assms(1,5) in_set_takeD [OF x(1)] x(2)] by simp_all
  ultimately show ?thesis by (auto simp: ranked_less_def double_eq_def split: if_splits)
qed

text \<open>C35: Pruning leaves at most the given number of rows. What is left is unchanged, and no row that had to go to make
  room has a higher decayed weight than a row that is kept.\<close>

theorem Prune_keeps_best:
  assumes "table_wf (st_table st)" "0 < max_records" "Prune exp_fn max_records min_weight now st = st'"
    and "\<And>k r. find_row (st_table st) k = Some r \<Longrightarrow> cost_ok (DecayedWeight exp_fn r now)"
    and "light = (if double_lt double_zero min_weight then prune_light exp_fn min_weight now (st_table st) else st_table st)"
  shows "store_size (st_table st') \<le> max_records \<and>
    (\<forall>k r. find_row (st_table st') k = Some r \<longrightarrow> find_row (st_table st) k = Some r) \<and>
    (\<forall>k r k' r'. find_row (st_table st') k = Some r \<longrightarrow> find_row light k' = Some r' \<longrightarrow> find_row (st_table st') k' = None \<longrightarrow>
       \<not> double_lt (DecayedWeight exp_fn r now) (DecayedWeight exp_fn r' now))"
proof -
  have wf: "table_wf light" using assms(1) by (simp add: assms(5) prune_light_wf)
  have sub: "find_row (st_table st) k = Some r" if "find_row light k = Some r" for k r
    using that assms(1) prune_light_find by (auto simp: assms(5) split: if_splits)
  show ?thesis
  proof (cases "store_size light > max_records")
    case False
    then have "st_table st' = light" using assms(3) by (auto simp: Prune_def Let_def assms(5))
    then show ?thesis using False sub by auto
  next
    case True
    let ?n = "store_size light - max_records"
    have t: "st_table st' = foldl (\<lambda>t rk. erase_row (ranked_key rk) t) light (take ?n (ranked_rows exp_fn now light))"
      using assms(2,3) True by (auto simp: Prune_def Let_def assms(5) ranked_rows_def)
    note er = erase_ranked [OF wf diff_le_self t]
    have f: "find_row (st_table st') j = (if j \<in> ranked_key ` set (take ?n (ranked_rows exp_fn now light)) then None else find_row light j)" for j
      using er(2) by (simp add: restrict_map_def)
    have "\<not> double_lt (DecayedWeight exp_fn r now) (DecayedWeight exp_fn r' now)"
      if "find_row (st_table st') k = Some r" "find_row light k' = Some r'" "find_row (st_table st') k' = None" for k r k' r'
      using erase_ranked_best [OF wf assms(4) [OF sub], where k = k and r = r and n = ?n and k' = k' and r' = r'] that f [of k] f [of k'] by (auto split: if_splits)
    then show ?thesis using er(3) True sub f by (auto split: if_splits)
  qed
qed

section \<open>A row without reading\<close>

text \<open>A row with an empty reading, which an observation can make, is written but not read back.\<close>

theorem empty_reading_not_read_back:
  assumes "weight_ok (weight r)" "IsContextHash (context_hash r)" "\<not> IsForgotten r"
  shows "LoadText (SerializeText [([], [(sf, [(app, r)])])]) st = (False, st\<lparr>st_table := [], st_dirty := True\<rparr>)"
proof -
  let ?line = "join_tabs (row_fields (([], sf, app), r))"
  have "row_ok (''a'', ''a'', app) r" using assms(1,2) by simp
  from row_fields_plain [OF this] have f: "list_all (\<lambda>f. CHR 9 \<notin> set f) (row_fields (([], sf, app), r))" "list_all (\<lambda>f. CHR 10 \<notin> set f) (row_fields (([], sf, app), r))"
    using Escape_plain [of sf] by (simp_all add: row_fields_def)
  have plain: "CHR 10 \<notin> set ?line" "SplitTabs ?line = row_fields (([], sf, app), r)"
    using join_tabs_line [OF f(2)] SplitTabs_join [OF _ f(1)] by (simp_all add: row_fields_def del: join_tabs.simps)
  then have "ParseV2Row ?line = None" by (simp add: ParseV2Row_def row_fields_def)
  moreover have "?line \<noteq> []" by (simp add: row_fields_def)
  ultimately have "ParseRows_loop (?line @ CHR 10 # []) 1 FormatV2 = [MalformedRow 2]"
    by (subst ParseRows_loop.simps) (simp add: getline_to_line [OF plain(1)] ParseRows_loop.simps getline_to_def [of _ "[]"])
  moreover have "SerializeText [([], [(sf, [(app, r)])])] = kLearningStoreV2Header @ CHR 10 # ?line @ CHR 10 # []"
    using assms(3) by (simp add: SerializeText_rows saved_rows_def row_list_def)
  ultimately have "ParseRows (SerializeText [([], [(sf, [(app, r)])])]) = [MalformedRow 2]"
    unfolding ParseRows_def by (subst ParseRows_loop.simps) (simp add: getline_to_line [OF header_line])
  then show ?thesis by (simp add: LoadText_def ParseInto_def)
qed

section \<open>Instances\<close>

lemma sample_wf: "table_wf (st_table sample_store)"
  using sample_store_ok by (simp add: store_ok_def)

theorem LookupPrefix_exact_witness:
  "matches (LookupPrefix (\<lambda>_. double_lit 1) (st_table sample_store) ''k'' 3 double_zero 7) =
     take 3 (stable_sort better_match (all_matches (\<lambda>_. double_lit 1) ''k'' double_zero 7 (st_table sample_store)))"
  using LookupPrefix_exact [OF sample_wf, of "''k''" 3 "\<lambda>_. double_lit 1" double_zero 7] by simp

lemma sample_forget: "Forget ''ka'' (''a'' @ [CHR 9]) sample_store = (True, snd (Forget ''ka'' (''a'' @ [CHR 9]) sample_store))"
  by (simp add: Forget_def sample_store_def)

theorem Forget_hides_witness:
  "ReverseLookup (\<lambda>_. double_lit 1) (st_table (snd (Forget ''ka'' (''a'' @ [CHR 9]) sample_store))) (''a'' @ [CHR 9]) 7 \<noteq> ''ka''"
  using Forget_hides [OF sample_wf sample_forget, of "\<lambda>_. double_lit 1" "''k''" 3 double_zero 7] by simp

lemma sample_store_bounded: "store_bounded \<lparr>st_table = [], st_dirty = False\<rparr>"
  by (simp add: store_bounded_def table_wf_def)

theorem import_follows_policy_witness:
  "store_bounded (snd (Merge (st_table (snd (LoadText (SerializeText (st_table sample_store)) sample_store))) PolicyMerge \<lparr>st_table = [], st_dirty = False\<rparr>))"
  using import_follows_policy [OF sample_store_bounded surjective_pairing] by blast

definition two_rows :: store where
  "two_rows = \<lparr>st_table = [(''a'', [(''b'', [([], sample_record), (''code.exe'', sample_record\<lparr>last_updated_epoch_sec := 3\<rparr>)])])], st_dirty = False\<rparr>"

lemma two_rows_wf: "table_wf (st_table two_rows)"
  by (simp add: two_rows_def table_wf_def rows_wf_def map_wf_def)

lemma two_rows_scores: "find_row (st_table two_rows) k = Some r \<Longrightarrow> cost_ok (DecayedWeight (\<lambda>_. Finite False 4503599627370496 (- 52)) r now)"
  by (cases k) (auto simp: two_rows_def find_row.simps bind_eq_Some_conv DecayedWeight_def LegacyRecency_def sample_record_def
      split: if_splits intro!: round_signed_cost)

theorem Prune_keeps_best_witness:
  "store_size (st_table (Prune (\<lambda>_. Finite False 4503599627370496 (- 52)) 1 double_zero 7 two_rows)) \<le> 1"
  by (rule Prune_keeps_best [OF two_rows_wf zero_less_one refl _ refl, THEN conjunct1]) (erule two_rows_scores)

end
