(* ===== verification/ProtectedFile.thy ===== *)
theory ProtectedFile
  imports StdText "HOL-Library.State_Monad"
begin

text \<open>
  Protected files, \<open>src/learning/src/DpapiCrypto.cpp\<close> with the atomic write of \<open>AtomicFile.h\<close>:
  reading, migrating and writing an encrypted file beside the plaintext file it replaces.

  The disk is a map from paths to bytes. Every call of the operating system is one step that takes
  the next outcome of a given list: it succeeds, or it fails, a write possibly after some bytes. When
  the list is empty nothing happens any more and every call fails, so the list also says where the
  process is killed. An outcome is the final one after the retries of transient errors. A replacement
  by \<open>MoveFileEx\<close> and the deletion of a file happen completely or not at all. Paths have a directory, as all
  paths of the application have, so a write creates it first. Encryption is a
  parameter, as it is in the source (\<open>ByteCrypto\<close>).
\<close>

section \<open>The disk\<close>

type_synonym disk = "string \<Rightarrow> string option"

datatype outcome = Succeeds | Fails "nat option"

record world =
  disk :: disk
  outcomes :: "outcome list"

definition next_outcome :: "(world, outcome) state" where
  "next_outcome = State (\<lambda>w. case outcomes w of [] \<Rightarrow> (Fails None, w) | out # rest \<Rightarrow> (out, w\<lparr>outcomes := rest\<rparr>))"

definition read_disk :: "(world, disk) state" where
  "read_disk = State (\<lambda>w. (disk w, w))"

definition set_file :: "string \<Rightarrow> string option \<Rightarrow> (world, unit) state" where
  "set_file path content = State (\<lambda>w. ((), w\<lparr>disk := (disk w)(path := content)\<rparr>))"

text \<open>A call that changes no file: taking a lock, opening a handle, flushing, creating a directory.\<close>

definition attempt :: "(world, bool) state" where
  "attempt = do { out \<leftarrow> next_outcome; State_Monad.return (out = Succeeds) }"

definition Exists :: "string \<Rightarrow> (world, bool option) state" where
  "Exists path = do {
     out \<leftarrow> next_outcome;
     d \<leftarrow> read_disk;
     State_Monad.return (if out = Succeeds then Some (d path \<noteq> None) else None)
   }"

definition ReadBytes :: "string \<Rightarrow> (world, string option) state" where
  "ReadBytes path = do {
     out \<leftarrow> next_outcome;
     d \<leftarrow> read_disk;
     State_Monad.return (if out = Succeeds then d path else None)
   }"

definition open_trunc :: "string \<Rightarrow> (world, bool) state" where
  "open_trunc path = do {
     out \<leftarrow> next_outcome;
     if out = Succeeds then do { set_file path (Some []); State_Monad.return True } else State_Monad.return False
   }"

definition put_bytes :: "string \<Rightarrow> string \<Rightarrow> (world, bool) state" where
  "put_bytes path content = do {
     out \<leftarrow> next_outcome;
     case out of
       Succeeds \<Rightarrow> do { set_file path (Some content); State_Monad.return True }
     | Fails None \<Rightarrow> State_Monad.return False
     | Fails (Some n) \<Rightarrow> do { set_file path (Some (take n content)); State_Monad.return False }
   }"

definition remove_file :: "string \<Rightarrow> (world, bool) state" where
  "remove_file path = do {
     out \<leftarrow> next_outcome;
     d \<leftarrow> read_disk;
     if out = Succeeds \<and> d path \<noteq> None then do { set_file path None; State_Monad.return True } else State_Monad.return False
   }"

definition replace_file :: "string \<Rightarrow> string \<Rightarrow> (world, bool) state" where
  "replace_file temp target = do {
     out \<leftarrow> next_outcome;
     d \<leftarrow> read_disk;
     case d temp of
       None \<Rightarrow> State_Monad.return False
     | Some content \<Rightarrow>
         if out = Succeeds then do { set_file target (Some content); set_file temp None; State_Monad.return True }
         else State_Monad.return False
   }"

text \<open>\<open>copy_file\<close> with \<open>copy_options::none\<close>: an existing target is an error.\<close>

definition copy_file :: "string \<Rightarrow> string \<Rightarrow> (world, bool) state" where
  "copy_file source target = do {
     d \<leftarrow> read_disk;
     if d target \<noteq> None then do { next_outcome; State_Monad.return False }
     else case d source of
            None \<Rightarrow> do { next_outcome; State_Monad.return False }
          | Some content \<Rightarrow> put_bytes target content
   }"

section \<open>The atomic write\<close>

text \<open>\<open>tag\<close> is the process id, time stamp and sequence number in the name of the temporary file.\<close>

definition temp_path :: "string \<Rightarrow> string \<Rightarrow> string" where
  "temp_path tag target = target @ ''.tmp.'' @ tag"

definition WriteTextFileAtomically :: "string \<Rightarrow> string \<Rightarrow> string \<Rightarrow> (world, bool) state" where
  "WriteTextFileAtomically tag target content = (let temp = temp_path tag target in do {
     created \<leftarrow> attempt;
     if \<not> created then State_Monad.return False
     else do {
       opened \<leftarrow> open_trunc temp;
       if \<not> opened then State_Monad.return False
       else do {
         good \<leftarrow> put_bytes temp content;
         if \<not> good then do { remove_file temp; State_Monad.return False }
         else do {
           flushed \<leftarrow> attempt;
           if \<not> flushed then do { remove_file temp; State_Monad.return False }
           else do {
             replaced \<leftarrow> replace_file temp target;
             if \<not> replaced then do { remove_file temp; State_Monad.return False }
             else State_Monad.return True
           }
         }
       }
     }
   })"

section \<open>Protected files\<close>

record ByteCrypto =
  Encrypt :: "string \<Rightarrow> string option"
  Decrypt :: "string \<Rightarrow> string option"
  IsAvailable :: bool

definition EncryptedPathFor :: "string \<Rightarrow> string" where
  "EncryptedPathFor plain_path = plain_path @ ''.enc''"

definition backup_path :: "string \<Rightarrow> string" where
  "backup_path plain_path = plain_path @ ''.bak''"

datatype ProtectedFileSource = FileMissing | FileEncrypted | FilePlaintext | FileError

definition EncryptAndWrite :: "ByteCrypto \<Rightarrow> string \<Rightarrow> string \<Rightarrow> string \<Rightarrow> (world, bool) state" where
  "EncryptAndWrite crypto tag encrypted_path content =
     (case Encrypt crypto content of
        None \<Rightarrow> State_Monad.return False
      | Some cipher \<Rightarrow> if cipher = [] then State_Monad.return False else WriteTextFileAtomically tag encrypted_path cipher)"

definition DecryptFile :: "ByteCrypto \<Rightarrow> string \<Rightarrow> (world, string option) state" where
  "DecryptFile crypto encrypted_path = do {
     bytes \<leftarrow> ReadBytes encrypted_path;
     State_Monad.return (case bytes of None \<Rightarrow> None | Some cipher \<Rightarrow> Decrypt crypto cipher)
   }"

definition ReadProtectedText :: "ByteCrypto \<Rightarrow> string \<Rightarrow> (world, ProtectedFileSource \<times> string) state" where
  "ReadProtectedText crypto plain_path = do {
     encrypted_exists \<leftarrow> Exists (EncryptedPathFor plain_path);
     case encrypted_exists of
       None \<Rightarrow> State_Monad.return (FileError, [])
     | Some True \<Rightarrow> do {
         content \<leftarrow> DecryptFile crypto (EncryptedPathFor plain_path);
         State_Monad.return (case content of Some t \<Rightarrow> (FileEncrypted, t) | None \<Rightarrow> (FileError, []))
       }
     | Some False \<Rightarrow> do {
         plain_exists \<leftarrow> Exists plain_path;
         case plain_exists of
           None \<Rightarrow> State_Monad.return (FileError, [])
         | Some False \<Rightarrow> do {
             backup_exists \<leftarrow> Exists (backup_path plain_path);
             State_Monad.return (case backup_exists of Some False \<Rightarrow> (FileMissing, []) | _ \<Rightarrow> (FileError, []))
           }
         | Some True \<Rightarrow> do {
             content \<leftarrow> ReadBytes plain_path;
             State_Monad.return (case content of Some t \<Rightarrow> (FilePlaintext, t) | None \<Rightarrow> (FileError, []))
           }
       }
   }"

text \<open>\<open>MigrationSource\<close>: a handle that is open or not; reading and deleting go through it.\<close>

definition open_source :: "string \<Rightarrow> (world, bool) state" where
  "open_source path = do { out \<leftarrow> next_outcome; d \<leftarrow> read_disk; State_Monad.return (out = Succeeds \<and> d path \<noteq> None) }"

definition source_read :: "bool \<Rightarrow> string \<Rightarrow> (world, string option) state" where
  "source_read open_handle path = (if \<not> open_handle then State_Monad.return None else ReadBytes path)"

definition source_remove :: "bool \<Rightarrow> string \<Rightarrow> (world, bool) state" where
  "source_remove open_handle path = (if \<not> open_handle then State_Monad.return False else remove_file path)"

text \<open>The backup of a migration: an existing one must be the same, a new one is copied, flushed and compared.\<close>

definition make_backup :: "string \<Rightarrow> string \<Rightarrow> (world, bool) state" where
  "make_backup plain_path current = do {
     backup_exists \<leftarrow> Exists (backup_path plain_path);
     case backup_exists of
       None \<Rightarrow> State_Monad.return False
     | Some True \<Rightarrow> do { previous \<leftarrow> ReadBytes (backup_path plain_path); State_Monad.return (previous = Some current) }
     | Some False \<Rightarrow> do {
         copied \<leftarrow> copy_file plain_path (backup_path plain_path);
         if \<not> copied then State_Monad.return False
         else do {
           flushed \<leftarrow> attempt;
           if \<not> flushed then State_Monad.return False
           else do { bytes \<leftarrow> ReadBytes (backup_path plain_path); State_Monad.return (bytes = Some current) }
         }
       }
   }"

definition MigratePlaintextFile :: "ByteCrypto \<Rightarrow> string \<Rightarrow> string \<Rightarrow> string \<Rightarrow> (world, bool) state" where
  "MigratePlaintextFile crypto tag plain_path content = do {
     locked \<leftarrow> attempt;
     if \<not> locked then State_Monad.return False
     else do {
       encrypted_exists \<leftarrow> Exists (EncryptedPathFor plain_path);
       if encrypted_exists \<noteq> Some False then State_Monad.return False
       else do {
         current \<leftarrow> ReadBytes plain_path;
         if current \<noteq> Some content then State_Monad.return False
         else do {
           backed_up \<leftarrow> make_backup plain_path content;
           if \<not> backed_up then State_Monad.return False
           else do {
             source \<leftarrow> open_source plain_path;
             current1 \<leftarrow> source_read source plain_path;
             if current1 \<noteq> Some content then State_Monad.return False
             else do {
               written \<leftarrow> EncryptAndWrite crypto tag (EncryptedPathFor plain_path) content;
               if \<not> written then State_Monad.return False
               else do {
                 current2 \<leftarrow> source_read source plain_path;
                 if current2 \<noteq> Some content then State_Monad.return False
                 else source_remove source plain_path
               }
             }
           }
         }
       }
     }
   }"

text \<open>Finishing an interrupted migration: plaintext that is the same as its backup is removed.\<close>

definition finish_migration :: "string \<Rightarrow> (world, bool) state" where
  "finish_migration plain_path = do {
     source \<leftarrow> open_source plain_path;
     backed_up \<leftarrow> ReadBytes (backup_path plain_path);
     if backed_up = None then State_Monad.return False
     else do {
       current \<leftarrow> source_read source plain_path;
       if current = None \<or> current \<noteq> backed_up then State_Monad.return False
       else source_remove source plain_path
     }
   }"

definition PrepareProtectedWrite :: "ByteCrypto \<Rightarrow> string \<Rightarrow> (world, bool) state" where
  "PrepareProtectedWrite crypto plain_path = do {
     plain_exists \<leftarrow> Exists plain_path;
     if plain_exists = None then State_Monad.return False
     else do {
       encrypted_exists \<leftarrow> Exists (EncryptedPathFor plain_path);
       if encrypted_exists = None then State_Monad.return False
       else do {
         backup_exists \<leftarrow> Exists (backup_path plain_path);
         if backup_exists = None then State_Monad.return False
         else if backup_exists = Some True \<and> encrypted_exists \<noteq> Some True then State_Monad.return False
         else do {
           can_decrypt \<leftarrow> (if encrypted_exists = Some True
             then do { previous \<leftarrow> DecryptFile crypto (EncryptedPathFor plain_path); State_Monad.return (previous \<noteq> None) }
             else State_Monad.return True);
           if \<not> can_decrypt then State_Monad.return False
           else if plain_exists = Some True
           then if encrypted_exists \<noteq> Some True \<or> backup_exists \<noteq> Some True then State_Monad.return False
                else finish_migration plain_path
           else State_Monad.return True
         }
       }
     }
   }"

definition WriteProtectedText :: "ByteCrypto \<Rightarrow> string \<Rightarrow> string \<Rightarrow> string \<Rightarrow> (world, bool) state" where
  "WriteProtectedText crypto tag plain_path content = do {
     locked \<leftarrow> attempt;
     if \<not> locked then State_Monad.return False
     else do {
       prepared \<leftarrow> PrepareProtectedWrite crypto plain_path;
       if \<not> prepared then State_Monad.return False
       else EncryptAndWrite crypto tag (EncryptedPathFor plain_path) content
     }
   }"

definition SettleProtectedFile :: "ByteCrypto \<Rightarrow> string \<Rightarrow> (world, bool) state" where
  "SettleProtectedFile crypto plain_path = do {
     locked \<leftarrow> attempt;
     if \<not> locked then State_Monad.return False else PrepareProtectedWrite crypto plain_path
   }"

section \<open>All runs\<close>

text \<open>The postcondition holds of the result and the disk after every run from the disk, whatever the outcomes are.\<close>

definition all_runs :: "(world, 'a) state \<Rightarrow> ('a \<Rightarrow> disk \<Rightarrow> bool) \<Rightarrow> disk \<Rightarrow> bool" where
  "all_runs m Q d \<longleftrightarrow> (\<forall>w. disk w = d \<longrightarrow> Q (fst (run_state m w)) (disk (snd (run_state m w))))"

named_theorems runs "rules for all runs of a step"

lemma all_runs_return [runs]: "Q x d \<Longrightarrow> all_runs (State_Monad.return x) Q d"
  by (simp add: all_runs_def)

lemma all_runs_bind [runs]: "all_runs m (\<lambda>x. all_runs (f x) Q) d \<Longrightarrow> all_runs (m \<bind> f) Q d"
  by (simp add: all_runs_def case_prod_unfold)

lemma all_runs_if [runs]: "(b \<Longrightarrow> all_runs m Q d) \<Longrightarrow> (\<not> b \<Longrightarrow> all_runs n Q d) \<Longrightarrow> all_runs (if b then m else n) Q d"
  by simp

lemma all_runs_mono: "all_runs m P d \<Longrightarrow> (\<And>x d'. P x d' \<Longrightarrow> Q x d') \<Longrightarrow> all_runs m Q d"
  by (simp add: all_runs_def)

lemmas step_defs = next_outcome_def read_disk_def set_file_def case_prod_unfold

lemma runs_attempt [runs]: "Q True d \<Longrightarrow> Q False d \<Longrightarrow> all_runs attempt Q d"
proof -
  assume "Q True d" "Q False d"
  then have "Q b d" for b by (cases b) simp_all
  then show ?thesis by (auto simp: all_runs_def attempt_def step_defs split: list.splits)
qed

lemma runs_Exists [runs]: "Q None d \<Longrightarrow> Q (Some (d p \<noteq> None)) d \<Longrightarrow> all_runs (Exists p) Q d"
  by (auto simp: all_runs_def Exists_def step_defs split: list.splits)

lemma runs_ReadBytes [runs]: "Q None d \<Longrightarrow> Q (d p) d \<Longrightarrow> all_runs (ReadBytes p) Q d"
  by (auto simp: all_runs_def ReadBytes_def step_defs split: list.splits)

lemma runs_open_trunc [runs]: "Q False d \<Longrightarrow> Q True (d(p \<mapsto> [])) \<Longrightarrow> all_runs (open_trunc p) Q d"
  by (auto simp: all_runs_def open_trunc_def step_defs split: list.splits)

lemma runs_put_bytes [runs]:
  "Q False d \<Longrightarrow> (\<And>n. Q False (d(p \<mapsto> take n b))) \<Longrightarrow> Q True (d(p \<mapsto> b)) \<Longrightarrow> all_runs (put_bytes p b) Q d"
  by (auto simp: all_runs_def put_bytes_def step_defs split: list.splits outcome.splits option.splits)

lemma runs_remove_file [runs]: "Q False d \<Longrightarrow> (d p \<noteq> None \<Longrightarrow> Q True (d(p := None))) \<Longrightarrow> all_runs (remove_file p) Q d"
  by (auto simp: all_runs_def remove_file_def step_defs split: list.splits)

lemma runs_replace_file [runs]:
  "Q False d \<Longrightarrow> (\<And>b. d t = Some b \<Longrightarrow> Q True (d(p \<mapsto> b, t := None))) \<Longrightarrow> all_runs (replace_file t p) Q d"
  by (auto simp: all_runs_def replace_file_def step_defs split: list.splits option.splits)

lemma runs_copy_file [runs]:
  "Q False d \<Longrightarrow> (\<And>b n. d s = Some b \<Longrightarrow> d t = None \<Longrightarrow> Q False (d(t \<mapsto> take n b))) \<Longrightarrow>
     (\<And>b. d s = Some b \<Longrightarrow> d t = None \<Longrightarrow> Q True (d(t \<mapsto> b))) \<Longrightarrow> all_runs (copy_file s t) Q d"
  by (auto simp: all_runs_def copy_file_def put_bytes_def step_defs split: list.splits option.splits outcome.splits)

lemma runs_open_source [runs]: "Q False d \<Longrightarrow> (d p \<noteq> None \<Longrightarrow> Q True d) \<Longrightarrow> all_runs (open_source p) Q d"
proof -
  assume q: "Q False d" "d p \<noteq> None \<Longrightarrow> Q True d"
  then have "Q (b \<and> (\<exists>y. d p = Some y)) d" for b by (cases b; cases "d p = None") simp_all
  then show ?thesis using q(1) by (auto simp: all_runs_def open_source_def step_defs split: list.splits)
qed

section \<open>What is stored\<close>

text \<open>What reading a protected file gives when no call fails.\<close>

definition stored :: "ByteCrypto \<Rightarrow> disk \<Rightarrow> string \<Rightarrow> ProtectedFileSource \<times> string" where
  "stored crypto d p =
     (case d (EncryptedPathFor p) of
        Some cipher \<Rightarrow> (case Decrypt crypto cipher of Some t \<Rightarrow> (FileEncrypted, t) | None \<Rightarrow> (FileError, []))
      | None \<Rightarrow>
          (case d p of
             Some t \<Rightarrow> (FilePlaintext, t)
           | None \<Rightarrow> if d (backup_path p) = None then (FileMissing, []) else (FileError, [])))"

lemma paths_differ [simp]:
  "EncryptedPathFor p \<noteq> p" "p \<noteq> EncryptedPathFor p" "backup_path p \<noteq> p" "p \<noteq> backup_path p"
  "EncryptedPathFor p \<noteq> backup_path p" "backup_path p \<noteq> EncryptedPathFor p"
  "temp_path tag (EncryptedPathFor p) \<noteq> p" "p \<noteq> temp_path tag (EncryptedPathFor p)"
  "temp_path tag (EncryptedPathFor p) \<noteq> backup_path p" "backup_path p \<noteq> temp_path tag (EncryptedPathFor p)"
  "temp_path tag target \<noteq> target" "target \<noteq> temp_path tag target"
  by (auto simp: EncryptedPathFor_def backup_path_def temp_path_def)

lemma ReadProtectedText_runs:
  "all_runs (ReadProtectedText crypto p) (\<lambda>res d'. d' = d \<and> (res = stored crypto d p \<or> res = (FileError, []))) d"
  unfolding ReadProtectedText_def DecryptFile_def
  by (intro runs) (auto simp: stored_def split: option.splits bool.splits intro!: runs)

text \<open>The atomic write changes nothing but its target and its temporary file, and the target only when it succeeds.\<close>

definition same_but :: "string set \<Rightarrow> disk \<Rightarrow> disk \<Rightarrow> bool" where
  "same_but ps d d' \<longleftrightarrow> (\<forall>q. q \<notin> ps \<longrightarrow> d' q = d q)"

lemma same_but_refl [simp]: "same_but ps d d"
  by (simp add: same_but_def)

lemma same_but_upd: "same_but ps d d' \<Longrightarrow> p \<in> ps \<Longrightarrow> same_but ps d (d'(p := v))"
  by (auto simp: same_but_def)

lemma WriteTextFileAtomically_runs:
  "all_runs (WriteTextFileAtomically tag target content)
     (\<lambda>ok d'. same_but {target, temp_path tag target} d d' \<and> d' target = (if ok then Some content else d target)) d"
  unfolding WriteTextFileAtomically_def Let_def
  by (intro runs) (auto simp: same_but_def)

definition crypto_ok :: "ByteCrypto \<Rightarrow> bool" where
  "crypto_ok crypto \<longleftrightarrow> (\<forall>t cipher. Encrypt crypto t = Some cipher \<longrightarrow> Decrypt crypto cipher = Some t)"

definition own_files :: "string \<Rightarrow> string \<Rightarrow> string set" where
  "own_files tag p = {EncryptedPathFor p, temp_path tag (EncryptedPathFor p)}"

lemma EncryptAndWrite_runs:
  "all_runs (EncryptAndWrite crypto tag (EncryptedPathFor p) t)
     (\<lambda>ok d'. same_but (own_files tag p) d d' \<and>
        (if ok then \<exists>cipher. d' (EncryptedPathFor p) = Some cipher \<and> Encrypt crypto t = Some cipher
         else d' (EncryptedPathFor p) = d (EncryptedPathFor p))) d"
proof (cases "Encrypt crypto t")
  case (Some cipher)
  show ?thesis
  proof (cases "cipher = []")
    case False
    have "all_runs (WriteTextFileAtomically tag (EncryptedPathFor p) cipher)
        (\<lambda>ok d'. same_but (own_files tag p) d d' \<and>
          (if ok then \<exists>cipher. d' (EncryptedPathFor p) = Some cipher \<and> Encrypt crypto t = Some cipher
           else d' (EncryptedPathFor p) = d (EncryptedPathFor p))) d"
      by (rule all_runs_mono [OF WriteTextFileAtomically_runs]) (use Some in \<open>auto simp: own_files_def split: if_splits\<close>)
    then show ?thesis using Some False by (simp add: EncryptAndWrite_def)
  qed (use Some in \<open>simp add: EncryptAndWrite_def all_runs_return\<close>)
qed (simp add: EncryptAndWrite_def all_runs_return)

lemma runs_return_iff [simp]: "all_runs (State_Monad.return x) Q d \<longleftrightarrow> Q x d"
proof -
  have "\<exists>w :: world. disk w = d" by (rule exI [of _ "\<lparr>disk = d, outcomes = []\<rparr>"]) simp
  then show ?thesis by (auto simp: all_runs_def)
qed

lemma runs_source_read [runs]: "Q None d \<Longrightarrow> (h \<Longrightarrow> Q (d p) d) \<Longrightarrow> all_runs (source_read h p) Q d"
  unfolding source_read_def by (intro runs; simp)

lemma own_files_other:
  assumes "same_but (own_files tag p) d d'"
  shows "d' p = d p" "d' (backup_path p) = d (backup_path p)"
proof -
  have "p \<notin> own_files tag p" "backup_path p \<notin> own_files tag p" by (simp_all add: own_files_def)
  then show "d' p = d p" "d' (backup_path p) = d (backup_path p)" using assms by (auto simp: same_but_def)
qed

text \<open>The state of an encrypted file that a failed write leaves.\<close>

lemma stored_own_files:
  assumes "same_but (own_files tag p) d d'" "d' (EncryptedPathFor p) = d (EncryptedPathFor p)"
  shows "stored crypto d' p = stored crypto d p"
  unfolding stored_def assms(2) own_files_other [OF assms(1)] ..

lemma finish_migration_runs:
  "all_runs (finish_migration p) (\<lambda>ok d'. d' = d \<and> \<not> ok \<or> (ok \<and> d' = d(p := None) \<and> d p = d (backup_path p))) d"
  unfolding finish_migration_def source_read_def source_remove_def
  by (cases "d p"; cases "d (backup_path p)") (intro runs; simp)+

text \<open>What a write requires, and what the preparation may change: plaintext that has been migrated is removed.\<close>

lemma PrepareProtectedWrite_runs:
  "all_runs (PrepareProtectedWrite crypto p)
     (\<lambda>ok d'. (d' = d \<or> (d' = d(p := None) \<and> fst (stored crypto d p) = FileEncrypted)) \<and>
        (ok \<longrightarrow> fst (stored crypto d p) \<in> {FileMissing, FileEncrypted})) d"
proof -
  have finish: "all_runs (finish_migration p) Q d"
    if "\<And>ok. \<not> ok \<Longrightarrow> Q ok d" "Q True (d(p := None))" for Q
    by (rule all_runs_mono [OF finish_migration_runs]) (use that in \<open>auto intro: that\<close>)
  show ?thesis
    unfolding PrepareProtectedWrite_def DecryptFile_def
    by (cases "d (EncryptedPathFor p)"; cases "d p"; cases "d (backup_path p)"; cases "Decrypt crypto (the (d (EncryptedPathFor p)))")
      (intro runs finish; simp add: stored_def)+
qed

lemma stored_without_plain: "fst (stored crypto d p) = FileEncrypted \<Longrightarrow> stored crypto (d(p := None)) p = stored crypto d p"
  by (auto simp: stored_def split: option.splits if_splits)

lemma WriteProtectedText_runs:
  assumes "crypto_ok crypto"
  shows "all_runs (WriteProtectedText crypto tag p t)
     (\<lambda>ok d'. stored crypto d' p = (if ok then (FileEncrypted, t) else stored crypto d p) \<and>
        (ok \<longrightarrow> fst (stored crypto d p) \<in> {FileMissing, FileEncrypted}) \<and>
        same_but (insert p (own_files tag p)) d d') d"
proof -
  let ?Q = "\<lambda>ok d'. stored crypto d' p = (if ok then (FileEncrypted, t) else stored crypto d p) \<and>
        (ok \<longrightarrow> fst (stored crypto d p) \<in> {FileMissing, FileEncrypted}) \<and> same_but (insert p (own_files tag p)) d d'"
  have wr: "all_runs (EncryptAndWrite crypto tag (EncryptedPathFor p) t) ?Q d1"
    if d1: "d1 = d \<or> (d1 = d(p := None) \<and> fst (stored crypto d p) = FileEncrypted)" and src: "fst (stored crypto d p) \<in> {FileMissing, FileEncrypted}" for d1
  proof (rule all_runs_mono [OF EncryptAndWrite_runs])
    fix ok d'
    assume w: "same_but (own_files tag p) d1 d' \<and> (if ok then \<exists>cipher. d' (EncryptedPathFor p) = Some cipher \<and> Encrypt crypto t = Some cipher
         else d' (EncryptedPathFor p) = d1 (EncryptedPathFor p))"
    have same: "stored crypto d1 p = stored crypto d p" using d1 stored_without_plain by blast
    have "stored crypto d' p = (if ok then (FileEncrypted, t) else stored crypto d p)"
    proof (cases ok)
      case True
      then obtain cipher where "d' (EncryptedPathFor p) = Some cipher" "Decrypt crypto cipher = Some t" using w assms by (auto simp: crypto_ok_def)
      then show ?thesis using True by (simp add: stored_def)
    next
      case False
      then show ?thesis using w same stored_own_files [of tag p d1 d'] by simp
    qed
    moreover have "same_but (insert p (own_files tag p)) d d'" using w d1 by (auto simp: same_but_def)
    ultimately show "?Q ok d'" using src by blast
  qed
  have refused: "?Q False d1" if "d1 = d \<or> (d1 = d(p := None) \<and> fst (stored crypto d p) = FileEncrypted)" for d1
    using that stored_without_plain by (auto simp: same_but_def)
  have prepared: "all_runs (if \<not> ok then State_Monad.return False else EncryptAndWrite crypto tag (EncryptedPathFor p) t) ?Q d1"
    if "(d1 = d \<or> (d1 = d(p := None) \<and> fst (stored crypto d p) = FileEncrypted)) \<and> (ok \<longrightarrow> fst (stored crypto d p) \<in> {FileMissing, FileEncrypted})" for ok d1
    using that wr [of d1] refused [of d1] all_runs_return [of ?Q False d1] by (cases ok) (simp_all only: simp_thms if_True if_False)
  show ?thesis
    unfolding WriteProtectedText_def
    by (rule all_runs_bind, rule runs_attempt, simp_all only: simp_thms if_True if_False)
      (rule all_runs_bind, rule all_runs_mono [OF PrepareProtectedWrite_runs prepared], assumption, rule all_runs_return, rule refused, simp)
qed

lemma make_backup_runs:
  "d p = Some t \<Longrightarrow>
   all_runs (make_backup p t) (\<lambda>ok d'. same_but {backup_path p} d d' \<and> (ok \<longrightarrow> d' (backup_path p) = Some t)) d"
  unfolding make_backup_def by (intro runs) (auto simp: same_but_def split: option.splits bool.splits intro!: runs)

lemma MigratePlaintextFile_refuses:
  assumes "stored crypto d p \<noteq> (FilePlaintext, t)"
  shows "all_runs (MigratePlaintextFile crypto tag p t) (\<lambda>ok d'. \<not> ok \<and> d' = d) d"
proof (cases "d (EncryptedPathFor p) = None")
  case True
  then have "d p \<noteq> Some t" using assms by (auto simp: stored_def)
  then show ?thesis unfolding MigratePlaintextFile_def using True by (intro runs; simp)
next
  case False
  then show ?thesis unfolding MigratePlaintextFile_def by (intro runs; simp)
qed

text \<open>What may be on the disk during a migration: the plaintext, or the ciphertext beside a full backup.\<close>

definition migrating :: "ByteCrypto \<Rightarrow> string \<Rightarrow> string \<Rightarrow> disk \<Rightarrow> bool" where
  "migrating crypto p t d \<longleftrightarrow>
     (d (EncryptedPathFor p) = None \<and> d p = Some t) \<or>
     (stored crypto d p = (FileEncrypted, t) \<and> d (backup_path p) = Some t)"

lemma encrypt_migrating:
  assumes "crypto_ok crypto" "d (EncryptedPathFor p) = None" "d p = Some t" "d (backup_path p) = Some t"
  shows "all_runs (EncryptAndWrite crypto tag (EncryptedPathFor p) t)
    (\<lambda>ok d'. migrating crypto p t d' \<and> d' p = Some t \<and> d' (backup_path p) = Some t \<and> (ok \<longrightarrow> stored crypto d' p = (FileEncrypted, t))) d"
proof (rule all_runs_mono [OF EncryptAndWrite_runs])
  fix ok d'
  assume w: "same_but (own_files tag p) d d' \<and> (if ok then \<exists>cipher. d' (EncryptedPathFor p) = Some cipher \<and> Encrypt crypto t = Some cipher
         else d' (EncryptedPathFor p) = d (EncryptedPathFor p))"
  then have same: "d' p = Some t" "d' (backup_path p) = Some t" using assms(3,4) own_files_other [of tag p d d'] by simp_all
  have "stored crypto d' p = (FileEncrypted, t)" if ok using that w assms(1) by (auto simp: stored_def crypto_ok_def)
  then show "migrating crypto p t d' \<and> d' p = Some t \<and> d' (backup_path p) = Some t \<and> (ok \<longrightarrow> stored crypto d' p = (FileEncrypted, t))"
    using w same assms(2) by (cases ok) (simp_all add: migrating_def)
qed

lemma removed_migrating:
  assumes "stored crypto d p = (FileEncrypted, t)" "d (backup_path p) = Some t"
  shows "migrating crypto p t (d(p := None))" "stored crypto (d(p := None)) p = (FileEncrypted, t)"
  using assms stored_without_plain [of crypto d p] by (simp_all add: migrating_def)

lemma MigratePlaintextFile_runs:
  assumes "crypto_ok crypto" "stored crypto d p = (FilePlaintext, t)"
  shows "all_runs (MigratePlaintextFile crypto tag p t)
    (\<lambda>ok d'. migrating crypto p t d' \<and> (ok \<longrightarrow> stored crypto d' p = (FileEncrypted, t) \<and> d' p = None)) d"
proof -
  let ?Q = "\<lambda>ok d'. migrating crypto p t d' \<and> (ok \<longrightarrow> stored crypto d' p = (FileEncrypted, t) \<and> d' p = None)"
  have d: "d (EncryptedPathFor p) = None" "d p = Some t" using assms(2) by (auto simp: stored_def split: option.splits if_splits)
  have finish: "all_runs (do { current2 \<leftarrow> source_read source p; if current2 \<noteq> Some t then State_Monad.return False else source_remove source p }) ?Q d2"
    if "stored crypto d2 p = (FileEncrypted, t)" "d2 (backup_path p) = Some t" for source d2
    unfolding source_read_def source_remove_def using that removed_migrating [OF that] by (intro runs; simp add: migrating_def)
  have encrypt: "all_runs (do { written \<leftarrow> EncryptAndWrite crypto tag (EncryptedPathFor p) t;
      if \<not> written then State_Monad.return False
      else do { current2 \<leftarrow> source_read source p; if current2 \<noteq> Some t then State_Monad.return False else source_remove source p } }) ?Q d1"
    if "d1 (EncryptedPathFor p) = None" "d1 p = Some t" "d1 (backup_path p) = Some t" for source d1
    by (rule all_runs_bind, rule all_runs_mono [OF encrypt_migrating [OF assms(1) that]]) (intro all_runs_if all_runs_return finish; simp)
  have source: "all_runs (do { source \<leftarrow> open_source p; current1 \<leftarrow> source_read source p;
      if current1 \<noteq> Some t then State_Monad.return False
      else do { written \<leftarrow> EncryptAndWrite crypto tag (EncryptedPathFor p) t;
        if \<not> written then State_Monad.return False
        else do { current2 \<leftarrow> source_read source p; if current2 \<noteq> Some t then State_Monad.return False else source_remove source p } } }) ?Q d1"
    if "d1 (EncryptedPathFor p) = None" "d1 p = Some t" "d1 (backup_path p) = Some t" for d1
  proof -
    have "migrating crypto p t d1" by (simp add: migrating_def that)
    then show ?thesis
      by (intro all_runs_bind runs_open_source) (rule runs_source_read, simp_all add: encrypt [OF that] that)+
  qed
  have backup: "all_runs (make_backup p t) (\<lambda>ok d1. d1 (EncryptedPathFor p) = None \<and> d1 p = Some t \<and> (ok \<longrightarrow> d1 (backup_path p) = Some t)) d"
    by (rule all_runs_mono [OF make_backup_runs [of d p t]]) (use d in \<open>simp_all add: same_but_def\<close>)
  show ?thesis
    unfolding MigratePlaintextFile_def
    using d by (intro all_runs_bind runs_attempt runs_Exists runs_ReadBytes all_runs_if all_runs_return all_runs_mono [OF backup] source; simp add: migrating_def)
qed

section \<open>Runs without failures\<close>

lemma run_success:
  "run_state attempt \<lparr>disk = d, outcomes = Succeeds # rest\<rparr> = (True, \<lparr>disk = d, outcomes = rest\<rparr>)"
  "run_state (Exists p) \<lparr>disk = d, outcomes = Succeeds # rest\<rparr> = (Some (d p \<noteq> None), \<lparr>disk = d, outcomes = rest\<rparr>)"
  "run_state (ReadBytes p) \<lparr>disk = d, outcomes = Succeeds # rest\<rparr> = (d p, \<lparr>disk = d, outcomes = rest\<rparr>)"
  "run_state (open_trunc p) \<lparr>disk = d, outcomes = Succeeds # rest\<rparr> = (True, \<lparr>disk = d(p \<mapsto> []), outcomes = rest\<rparr>)"
  "run_state (put_bytes p b) \<lparr>disk = d, outcomes = Succeeds # rest\<rparr> = (True, \<lparr>disk = d(p \<mapsto> b), outcomes = rest\<rparr>)"
  "run_state (remove_file p) \<lparr>disk = d, outcomes = Succeeds # rest\<rparr> = (d p \<noteq> None, \<lparr>disk = d(p := None), outcomes = rest\<rparr>)"
  "d t = Some b \<Longrightarrow> run_state (replace_file t p) \<lparr>disk = d, outcomes = Succeeds # rest\<rparr> = (True, \<lparr>disk = d(p \<mapsto> b, t := None), outcomes = rest\<rparr>)"
  "run_state (open_source p) \<lparr>disk = d, outcomes = Succeeds # rest\<rparr> = (d p \<noteq> None, \<lparr>disk = d, outcomes = rest\<rparr>)"
  by (auto simp: attempt_def Exists_def ReadBytes_def open_trunc_def put_bytes_def remove_file_def replace_file_def open_source_def step_defs fun_upd_idem)

lemma copy_success: "d s = Some b \<Longrightarrow> d t = None \<Longrightarrow>
    run_state (copy_file s t) \<lparr>disk = d, outcomes = Succeeds # rest\<rparr> = (True, \<lparr>disk = d(t \<mapsto> b), outcomes = rest\<rparr>)"
  by (simp add: copy_file_def run_success read_disk_def)

lemma EncryptAndWrite_succeeds:
  assumes "Encrypt crypto t = Some cipher" "cipher \<noteq> []"
  shows "run_state (EncryptAndWrite crypto tag q t) \<lparr>disk = d, outcomes = replicate 5 Succeeds @ rest\<rparr> =
    (True, \<lparr>disk = d(q \<mapsto> cipher, temp_path tag q := None), outcomes = rest\<rparr>)"
  using assms by (simp add: EncryptAndWrite_def WriteTextFileAtomically_def Let_def run_success numeral_eq_Suc fun_upd_twist)

text \<open>When the current text may be replaced and the new one can be encrypted.\<close>

definition writable :: "ByteCrypto \<Rightarrow> disk \<Rightarrow> string \<Rightarrow> string \<Rightarrow> bool" where
  "writable crypto d p t \<longleftrightarrow> (\<exists>cipher. Encrypt crypto t = Some cipher \<and> cipher \<noteq> []) \<and>
     fst (stored crypto d p) \<in> {FileMissing, FileEncrypted} \<and> (d p = None \<or> d p = d (backup_path p))"

lemma Prepare_succeeds:
  assumes "fst (stored crypto d p) \<in> {FileMissing, FileEncrypted}" "d p = None \<or> d p = d (backup_path p)"
  shows "\<exists>d' k. k \<le> 8 \<and> (\<forall>rest. run_state (PrepareProtectedWrite crypto p) \<lparr>disk = d, outcomes = replicate k Succeeds @ rest\<rparr> =
     (True, \<lparr>disk = d', outcomes = rest\<rparr>))"
proof -
  consider (missing) "d (EncryptedPathFor p) = None" "d p = None" "d (backup_path p) = None"
    | (encrypted) cipher u where "d (EncryptedPathFor p) = Some cipher" "Decrypt crypto cipher = Some u" "d p = None"
    | (both) cipher u b where "d (EncryptedPathFor p) = Some cipher" "Decrypt crypto cipher = Some u" "d p = Some b" "d (backup_path p) = Some b"
    using assms by (cases "d p") (auto simp: stored_def split: option.splits if_splits)
  then show ?thesis
  proof cases
    case missing
    then show ?thesis by (intro exI [of _ d] exI [of _ 3]) (simp add: PrepareProtectedWrite_def run_success numeral_eq_Suc)
  next
    case encrypted
    then show ?thesis by (intro exI [of _ d] exI [of _ 4]) (simp add: PrepareProtectedWrite_def DecryptFile_def run_success numeral_eq_Suc)
  next
    case both
    then show ?thesis
      by (intro exI [of _ "d(p := None)"] exI [of _ 8])
        (simp add: PrepareProtectedWrite_def DecryptFile_def finish_migration_def source_read_def source_remove_def run_success numeral_eq_Suc)
  qed
qed

lemma WriteProtectedText_succeeds:
  assumes "writable crypto d p t"
  shows "fst (run_state (WriteProtectedText crypto tag p t) \<lparr>disk = d, outcomes = replicate 14 Succeeds @ rest\<rparr>)"
proof -
  obtain cipher where c: "Encrypt crypto t = Some cipher" "cipher \<noteq> []" using assms by (auto simp: writable_def)
  obtain d' k where k: "k \<le> 8" "\<And>rest. run_state (PrepareProtectedWrite crypto p) \<lparr>disk = d, outcomes = replicate k Succeeds @ rest\<rparr> =
     (True, \<lparr>disk = d', outcomes = rest\<rparr>)"
    using Prepare_succeeds [of crypto d p] assms by (auto simp: writable_def)
  have "(14::nat) = 1 + (k + (5 + (8 - k)))" using k(1) by simp
  then have "replicate 14 Succeeds @ rest = Succeeds # replicate k Succeeds @ replicate 5 Succeeds @ replicate (8 - k) Succeeds @ rest"
    by (simp only: replicate_add append_assoc) simp
  then show ?thesis by (simp only: WriteProtectedText_def) (simp add: run_success k(2) EncryptAndWrite_succeeds [OF c])
qed

text \<open>C7: A protected write is atomic and never destroys what it cannot read. Whatever calls fail and wherever the process is
  killed, afterwards reading gives the new text if the write reported success and what it gave before otherwise; it
  succeeds only over no file or over a file that could be decrypted, never over foreign ciphertext, over plaintext that
  has not been migrated or beside an orphaned backup; other files stay as they are. Without failures it succeeds
  whenever the text can be encrypted and nothing forbids the replacement.\<close>

theorem WriteProtectedText_atomic:
  assumes "crypto_ok crypto" "run_state (WriteProtectedText crypto tag p t) w = (ok, w')"
  shows "stored crypto (disk w') p = (if ok then (FileEncrypted, t) else stored crypto (disk w) p) \<and>
    (ok \<longrightarrow> fst (stored crypto (disk w) p) \<in> {FileMissing, FileEncrypted}) \<and>
    (\<forall>q. q \<noteq> p \<longrightarrow> q \<notin> own_files tag p \<longrightarrow> disk w' q = disk w q) \<and>
    (writable crypto (disk w) p t \<longrightarrow> (\<exists>rest. outcomes w = replicate 14 Succeeds @ rest) \<longrightarrow> ok)"
proof -
  have "ok" if "writable crypto (disk w) p t" "outcomes w = replicate 14 Succeeds @ rest" for rest
  proof -
    have "w = \<lparr>disk = disk w, outcomes = replicate 14 Succeeds @ rest\<rparr>" using that(2) by (cases w) simp
    then show ?thesis using WriteProtectedText_succeeds [OF that(1), of tag rest] assms(2) by (metis fst_conv)
  qed
  moreover have "stored crypto (disk w') p = (if ok then (FileEncrypted, t) else stored crypto (disk w) p) \<and>
      (ok \<longrightarrow> fst (stored crypto (disk w) p) \<in> {FileMissing, FileEncrypted}) \<and> same_but (insert p (own_files tag p)) (disk w) (disk w')"
    using WriteProtectedText_runs [OF assms(1), of tag p t "disk w"] assms(2) unfolding all_runs_def by fastforce
  ultimately show ?thesis by (auto simp: same_but_def)
qed

lemma make_backup_succeeds:
  assumes "d p = Some t" "d (backup_path p) = None \<or> d (backup_path p) = Some t"
  shows "\<exists>k. k \<le> 4 \<and> (\<forall>rest. run_state (make_backup p t) \<lparr>disk = d, outcomes = replicate k Succeeds @ rest\<rparr> =
     (True, \<lparr>disk = d(backup_path p \<mapsto> t), outcomes = rest\<rparr>))"
proof (cases "d (backup_path p)")
  case None
  then show ?thesis using assms(1)
    by (intro exI [of _ 4]) (simp add: make_backup_def run_success copy_success numeral_eq_Suc)
next
  case (Some b)
  then show ?thesis using assms
    by (intro exI [of _ 2]) (simp add: make_backup_def run_success numeral_eq_Suc fun_upd_idem)
qed

lemma Migrate_succeeds:
  assumes "stored crypto d p = (FilePlaintext, t)" "d (backup_path p) = None \<or> d (backup_path p) = Some t"
    "Encrypt crypto t = Some cipher" "cipher \<noteq> []"
  shows "fst (run_state (MigratePlaintextFile crypto tag p t) \<lparr>disk = d, outcomes = replicate 16 Succeeds @ rest\<rparr>)"
proof -
  have d: "d (EncryptedPathFor p) = None" "d p = Some t" using assms(1) by (auto simp: stored_def split: option.splits if_splits)
  obtain k where k: "k \<le> 4" "\<And>rest. run_state (make_backup p t) \<lparr>disk = d, outcomes = replicate k Succeeds @ rest\<rparr> =
     (True, \<lparr>disk = d(backup_path p \<mapsto> t), outcomes = rest\<rparr>)"
    using make_backup_succeeds [OF d(2) assms(2)] by blast
  have "(16::nat) = 3 + (k + (2 + (5 + (2 + (4 - k)))))" using k(1) by simp
  then have "replicate 16 Succeeds @ rest = replicate 3 Succeeds @ replicate k Succeeds @ replicate 2 Succeeds @ replicate 5 Succeeds @ replicate 2 Succeeds @ replicate (4 - k) Succeeds @ rest"
    by (simp only: replicate_add append_assoc)
  also have "\<dots> = Succeeds # Succeeds # Succeeds # replicate k Succeeds @ Succeeds # Succeeds # replicate 5 Succeeds @ Succeeds # Succeeds # replicate (4 - k) Succeeds @ rest"
    by (simp add: numeral_eq_Suc)
  finally show ?thesis
    by (simp only: MigratePlaintextFile_def)
      (simp add: run_success k(2) d source_read_def source_remove_def EncryptAndWrite_succeeds [OF assms(3,4)])
qed

text \<open>C16: Migrating a plaintext file to an encrypted one never loses its text. Whatever calls fail and wherever the process is
  killed, afterwards either the plaintext is still there and is what is read, or the encrypted file holds the text
  beside a full backup; a success leaves the encrypted file and no plaintext. A file that changed meanwhile or is not
  plaintext is not touched. Without failures the migration succeeds, unless a different backup stands in the way.\<close>

theorem migration_keeps_text:
  assumes "crypto_ok crypto" "run_state (MigratePlaintextFile crypto tag p t) w = (ok, w')"
  shows "if stored crypto (disk w) p = (FilePlaintext, t)
    then migrating crypto p t (disk w') \<and> (ok \<longrightarrow> stored crypto (disk w') p = (FileEncrypted, t) \<and> disk w' p = None) \<and>
      ((\<exists>cipher. Encrypt crypto t = Some cipher \<and> cipher \<noteq> []) \<longrightarrow> disk w (backup_path p) \<in> {None, Some t} \<longrightarrow>
        (\<exists>rest. outcomes w = replicate 16 Succeeds @ rest) \<longrightarrow> ok)
    else \<not> ok \<and> disk w' = disk w"
proof (cases "stored crypto (disk w) p = (FilePlaintext, t)")
  case True
  have "ok" if "Encrypt crypto t = Some cipher" "cipher \<noteq> []" "disk w (backup_path p) \<in> {None, Some t}" "outcomes w = replicate 16 Succeeds @ rest" for cipher rest
  proof -
    have "w = \<lparr>disk = disk w, outcomes = replicate 16 Succeeds @ rest\<rparr>" using that(4) by (cases w) simp
    then show ?thesis using Migrate_succeeds [OF True _ that(1,2), of tag rest] that(3) assms(2) by (metis fst_conv insert_iff singletonD)
  qed
  moreover have "migrating crypto p t (disk w') \<and> (ok \<longrightarrow> stored crypto (disk w') p = (FileEncrypted, t) \<and> disk w' p = None)"
    using MigratePlaintextFile_runs [OF assms(1) True, of tag] assms(2) unfolding all_runs_def by fastforce
  ultimately show ?thesis using True by auto
next
  case False
  then show ?thesis using MigratePlaintextFile_refuses [OF False, of tag] assms(2) unfolding all_runs_def by fastforce
qed

text \<open>A copy that breaks off leaves a backup that blocks every later migration.\<close>

theorem broken_backup_blocks:
  assumes "stored crypto d p = (FilePlaintext, t)" "d (backup_path p) = None" "n < length t"
  shows "\<exists>d'. run_state (MigratePlaintextFile crypto tag p t) \<lparr>disk = d, outcomes = [Succeeds, Succeeds, Succeeds, Succeeds, Fails (Some n)]\<rparr> =
      (False, \<lparr>disk = d', outcomes = []\<rparr>) \<and>
    stored crypto d' p = (FilePlaintext, t) \<and>
    all_runs (MigratePlaintextFile crypto tag' p t) (\<lambda>ok d''. \<not> ok \<and> d'' = d') d'"
proof -
  let ?d = "d(backup_path p \<mapsto> take n t)"
  have d: "d (EncryptedPathFor p) = None" "d p = Some t" using assms(1) by (auto simp: stored_def split: option.splits if_splits)
  have "run_state (copy_file p (backup_path p)) \<lparr>disk = d, outcomes = [Fails (Some n)]\<rparr> = (False, \<lparr>disk = ?d, outcomes = []\<rparr>)"
    using d(2) assms(2) by (simp add: copy_file_def put_bytes_def step_defs)
  then have run: "run_state (MigratePlaintextFile crypto tag p t) \<lparr>disk = d, outcomes = [Succeeds, Succeeds, Succeeds, Succeeds, Fails (Some n)]\<rparr> =
      (False, \<lparr>disk = ?d, outcomes = []\<rparr>)"
    using d assms(2) by (simp add: MigratePlaintextFile_def make_backup_def run_success)
  have "length (take n t) \<noteq> length t" using assms(3) by simp
  then have ne: "take n t \<noteq> t" by (rule contrapos_nn) (simp only:)
  have "all_runs (make_backup p t) (\<lambda>ok d''. \<not> ok \<and> d'' = ?d) ?d"
    unfolding make_backup_def by (rule all_runs_bind, rule runs_Exists) (simp, simp, rule all_runs_bind, rule runs_ReadBytes, simp, simp add: ne del: take_all_iff)
  then have mb: "all_runs (make_backup p t \<bind> (\<lambda>ok. if \<not> ok then State_Monad.return False else rest)) (\<lambda>ok d''. \<not> ok \<and> d'' = ?d) ?d" for rest
    by (intro all_runs_bind) (rule all_runs_mono, assumption, simp)
  have "all_runs (MigratePlaintextFile crypto tag' p t) (\<lambda>ok d''. \<not> ok \<and> d'' = ?d) ?d"
    unfolding MigratePlaintextFile_def
    by (rule all_runs_bind, rule runs_attempt, simp_all only: simp_thms if_True if_False runs_return_iff)
      (rule all_runs_bind, rule runs_Exists, simp, rule all_runs_if, simp, rule all_runs_bind, rule runs_ReadBytes, simp, rule all_runs_if, simp, rule mb)
  moreover have "stored crypto ?d p = (FilePlaintext, t)" using d by (simp add: stored_def)
  ultimately show ?thesis using run by blast
qed

section \<open>Instances\<close>

definition sample_crypto :: ByteCrypto where
  "sample_crypto = \<lparr>Encrypt = (\<lambda>t. Some (CHR ''!'' # t)), Decrypt = (\<lambda>c. if c \<noteq> [] \<and> hd c = CHR ''!'' then Some (tl c) else None), IsAvailable = True\<rparr>"

lemma sample_crypto_ok: "crypto_ok sample_crypto"
  by (simp add: crypto_ok_def sample_crypto_def)

definition sample_world :: "disk \<Rightarrow> world" where
  "sample_world d = \<lparr>disk = d, outcomes = replicate 16 Succeeds\<rparr>"

lemma sample_outcomes: "\<exists>rest. outcomes (sample_world d) = replicate 14 Succeeds @ rest" "\<exists>rest. outcomes (sample_world d) = replicate 16 Succeeds @ rest"
proof -
  have "outcomes (sample_world d) = replicate 14 Succeeds @ replicate 2 Succeeds"
    unfolding sample_world_def by (simp flip: replicate_add)
  then show "\<exists>rest. outcomes (sample_world d) = replicate 14 Succeeds @ rest" ..
  show "\<exists>rest. outcomes (sample_world d) = replicate 16 Succeeds @ rest" by (simp add: sample_world_def)
qed

theorem WriteProtectedText_atomic_witness:
  "fst (run_state (WriteProtectedText sample_crypto ''1'' ''u/l.tsv'' ''new'') (sample_world Map.empty)) \<and>
   stored sample_crypto (disk (snd (run_state (WriteProtectedText sample_crypto ''1'' ''u/l.tsv'' ''new'') (sample_world Map.empty)))) ''u/l.tsv'' = (FileEncrypted, ''new'')"
proof -
  have "writable sample_crypto (disk (sample_world Map.empty)) ''u/l.tsv'' ''new''"
    by (simp add: writable_def sample_crypto_def sample_world_def stored_def)
  then show ?thesis
    using WriteProtectedText_atomic [OF sample_crypto_ok surjective_pairing, where tag = "''1''" and p = "''u/l.tsv''" and t = "''new''" and w = "sample_world Map.empty"] sample_outcomes(1) by auto
qed

theorem migration_keeps_text_witness:
  "fst (run_state (MigratePlaintextFile sample_crypto ''1'' ''u/l.tsv'' ''old'') (sample_world [''u/l.tsv'' \<mapsto> ''old''])) \<and>
   stored sample_crypto (disk (snd (run_state (MigratePlaintextFile sample_crypto ''1'' ''u/l.tsv'' ''old'') (sample_world [''u/l.tsv'' \<mapsto> ''old''])))) ''u/l.tsv'' = (FileEncrypted, ''old'')"
proof -
  have s: "stored sample_crypto (disk (sample_world [''u/l.tsv'' \<mapsto> ''old''])) ''u/l.tsv'' = (FilePlaintext, ''old'')"
    "disk (sample_world [''u/l.tsv'' \<mapsto> ''old'']) (backup_path ''u/l.tsv'') \<in> {None, Some ''old''}" "\<exists>cipher. Encrypt sample_crypto ''old'' = Some cipher \<and> cipher \<noteq> []"
    by (simp_all add: sample_crypto_def sample_world_def stored_def EncryptedPathFor_def backup_path_def)
  show ?thesis
    using migration_keeps_text [OF sample_crypto_ok surjective_pairing, where tag = "''1''" and p = "''u/l.tsv''" and t = "''old''" and w = "sample_world [''u/l.tsv'' \<mapsto> ''old'']"] s sample_outcomes(2)
    by auto
qed

end
