(* ===== verification/SecretText.thy ===== *)
theory SecretText
  imports ProtectedFile
begin

text \<open>
  Encrypted values of the settings, the second half of \<open>src/learning/src/DpapiCrypto.cpp\<close>: Base64 text
  and the prefix that tells an encrypted value from an old plaintext one.
\<close>

definition kSecretPrefix :: string where
  "kSecretPrefix = ''dpapi:''"

definition kBase64Alphabet :: string where
  "kBase64Alphabet = ''ABCDEFGHIJKLMNOPQRSTUVWXYZabcdefghijklmnopqrstuvwxyz0123456789+/''"

text \<open>A block is a number of 24 bits, so its shifts and masks are quotients and remainders.\<close>

definition base64_digit_at :: "nat \<Rightarrow> nat \<Rightarrow> char" where
  "base64_digit_at block shift = kBase64Alphabet ! (block div 2 ^ shift mod 64)"

fun EncodeBase64 :: "string \<Rightarrow> string" where
  "EncodeBase64 [] = []"
| "EncodeBase64 [x] = (let block = ord x * 65536 in
     [base64_digit_at block 18, base64_digit_at block 12, CHR ''='', CHR ''=''])"
| "EncodeBase64 [x, y] = (let block = ord x * 65536 + ord y * 256 in
     [base64_digit_at block 18, base64_digit_at block 12, base64_digit_at block 6, CHR ''=''])"
| "EncodeBase64 (x # y # z # bytes) = (let block = ord x * 65536 + ord y * 256 + ord z in
     [base64_digit_at block 18, base64_digit_at block 12, base64_digit_at block 6, base64_digit_at block 0] @ EncodeBase64 bytes)"

definition Base64Digit :: "char \<Rightarrow> nat option" where
  "Base64Digit ch = find_char ch kBase64Alphabet"

fun decode_blocks :: "string \<Rightarrow> string option" where
  "decode_blocks [] = Some []"
| "decode_blocks (e0 # e1 # e2 # e3 # rest) =
     (let pad2 = (e2 = CHR ''=''); pad3 = (e3 = CHR ''='') in
      case (Base64Digit e0, Base64Digit e1, if pad2 then Some 0 else Base64Digit e2, if pad3 then Some 0 else Base64Digit e3) of
        (Some a, Some b, Some c, Some d) \<Rightarrow>
          if (pad2 \<and> \<not> pad3) \<or> ((pad2 \<or> pad3) \<and> rest \<noteq> []) \<or> (pad2 \<and> b mod 16 \<noteq> 0) \<or> (pad3 \<and> \<not> pad2 \<and> c mod 4 \<noteq> 0) then None
          else let block = a * 2 ^ 18 + b * 2 ^ 12 + c * 2 ^ 6 + d in
               map_option (\<lambda>bytes. byte (block div 65536) # (if pad2 then [] else [byte (block div 256)]) @ (if pad3 then [] else [byte block]) @ bytes)
                 (decode_blocks rest)
      | _ \<Rightarrow> None)"
| "decode_blocks _ = None"

definition DecodeBase64 :: "string \<Rightarrow> string option" where
  "DecodeBase64 encoded = (if encoded = [] \<or> length encoded mod 4 \<noteq> 0 then None else decode_blocks encoded)"

datatype SecretStatus = SecretOk | SecretInvalidEncoding | SecretCryptoUnavailable | SecretCryptoFailure

record SecretResult =
  secret_status :: SecretStatus
  secret_value :: string
  secret_encrypted :: bool

definition ProtectSecret :: "ByteCrypto \<Rightarrow> string \<Rightarrow> SecretResult" where
  "ProtectSecret crypto plain =
     (if plain = [] then \<lparr>secret_status = SecretOk, secret_value = [], secret_encrypted = False\<rparr>
      else if \<not> IsAvailable crypto then \<lparr>secret_status = SecretCryptoUnavailable, secret_value = [], secret_encrypted = False\<rparr>
      else case Encrypt crypto plain of
             None \<Rightarrow> \<lparr>secret_status = SecretCryptoFailure, secret_value = [], secret_encrypted = False\<rparr>
           | Some cipher \<Rightarrow>
               if cipher = [] then \<lparr>secret_status = SecretCryptoFailure, secret_value = [], secret_encrypted = False\<rparr>
               else \<lparr>secret_status = SecretOk, secret_value = kSecretPrefix @ EncodeBase64 cipher, secret_encrypted = True\<rparr>)"

definition UnprotectSecret :: "ByteCrypto \<Rightarrow> string \<Rightarrow> SecretResult" where
  "UnprotectSecret crypto stored_value =
     (if take (length kSecretPrefix) stored_value \<noteq> kSecretPrefix then \<lparr>secret_status = SecretOk, secret_value = stored_value, secret_encrypted = False\<rparr>
      else case DecodeBase64 (drop (length kSecretPrefix) stored_value) of
             None \<Rightarrow> \<lparr>secret_status = SecretInvalidEncoding, secret_value = [], secret_encrypted = True\<rparr>
           | Some cipher \<Rightarrow>
               if \<not> IsAvailable crypto then \<lparr>secret_status = SecretCryptoUnavailable, secret_value = [], secret_encrypted = True\<rparr>
               else case Decrypt crypto cipher of
                      None \<Rightarrow> \<lparr>secret_status = SecretCryptoFailure, secret_value = [], secret_encrypted = True\<rparr>
                    | Some plain \<Rightarrow> \<lparr>secret_status = SecretOk, secret_value = plain, secret_encrypted = True\<rparr>)"

section \<open>Base64 is read back\<close>

lemma find_char_nth: "distinct s \<Longrightarrow> i < length s \<Longrightarrow> find_char (s ! i) s = Some i"
proof (induction s arbitrary: i)
  case (Cons c s)
  then show ?case by (cases i) auto
qed simp

lemma Base64Digit_at [simp]: "i < 64 \<Longrightarrow> Base64Digit (kBase64Alphabet ! i) = Some i"
  unfolding Base64Digit_def by (rule find_char_nth) (simp_all add: kBase64Alphabet_def)

lemma Base64_not_pad [simp]: "i < 64 \<Longrightarrow> kBase64Alphabet ! i \<noteq> CHR ''=''"
proof -
  assume "i < 64"
  then have "kBase64Alphabet ! i \<in> set kBase64Alphabet" by (intro nth_mem) (simp add: kBase64Alphabet_def)
  moreover have "CHR ''='' \<notin> set kBase64Alphabet" by (simp add: kBase64Alphabet_def)
  ultimately show ?thesis by metis
qed

lemma block_digits:
  assumes "block < 2 ^ 24"
  shows "(block div 2 ^ 18 mod 64) * 2 ^ 18 + (block div 2 ^ 12 mod 64) * 2 ^ 12 + (block div 2 ^ 6 mod 64) * 2 ^ 6 + block mod 64 = (block::nat)"
proof -
  define y u v where "y = block div 64" and "u = y div 64" and "v = u div 64"
  have e: "block div 2 ^ 6 = y" "block div 2 ^ 12 = u" "block div 2 ^ 18 = v"
    by (simp_all add: y_def u_def v_def flip: div_mult2_eq)
  have "v < 64" using assms by (simp add: less_mult_imp_div_less flip: e(3))
  moreover have "block = 64 * y + block mod 64" "y = 64 * u + y mod 64" "u = 64 * v + u mod 64"
    by (simp_all add: y_def u_def v_def)
  ultimately show ?thesis unfolding e by simp
qed

lemma ord_less: "ord c < 256"
  using ord_byte [of "ord c"] by (metis mod_less_divisor zero_less_numeral char_of_char)

lemma byte_eqI: "n mod 256 = ord c \<Longrightarrow> byte n = c"
  by (metis ord_byte ord_eq_iff)

lemma block_bytes:
  assumes "block = ord x * 65536 + ord y * 256 + ord z"
  shows "block < 2 ^ 24" "byte (block div 65536) = x" "byte (block div 256) = y" "byte block = z"
proof -
  note o = ord_less [of x] ord_less [of y] ord_less [of z]
  have "block < 16777216" using o assms by linarith
  then show "block < 2 ^ 24" by simp
  have "65536 * ord x \<le> block" "block < 65536 * Suc (ord x)" "256 * (ord x * 256 + ord y) \<le> block" "block < 256 * Suc (ord x * 256 + ord y)"
    using o assms unfolding mult_Suc_right distrib_left by linarith+
  then have div: "block div 65536 = ord x" "block div 256 = ord x * 256 + ord y" by (auto intro: div_nat_eqI)
  show "byte (block div 65536) = x" unfolding div by (intro byte_eqI) (use o in simp)
  show "byte (block div 256) = y" unfolding div by (intro byte_eqI) (use o in simp)
  have "block = ord z + (ord x * 256 + ord y) * 256" using assms by simp
  then have "block mod 256 = ord z" using o by (simp only: mod_mult_self1 mod_less)
  then show "byte block = z" by (rule byte_eqI)
qed

text \<open>The low digits of a short block are zero.\<close>

lemma short_block:
  "n * 65536 mod 64 = (0::nat)" "n * 65536 div 2 ^ 6 mod 64 = (0::nat)" "n * 65536 div 2 ^ 12 mod 64 mod 16 = (0::nat)"
  "n * 256 mod 64 = (0::nat)" "n * 256 div 2 ^ 6 mod 64 mod 4 = (0::nat)"
proof -
  have "n * 65536 div 2 ^ 6 = n * 16 * 64" "n * 65536 div 2 ^ 12 = n * 16" "n * 256 div 2 ^ 6 = n * 4" by simp_all
  then show "n * 65536 div 2 ^ 6 mod 64 = 0" "n * 65536 div 2 ^ 12 mod 64 mod 16 = 0" "n * 256 div 2 ^ 6 mod 64 mod 4 = 0"
    by (simp_all add: mod_mod_cancel)
  show "n * 65536 mod 64 = 0" "n * 256 mod 64 = 0" by (simp_all add: mod_eq_0_iff_dvd)
qed

lemma decode_blocks_full:
  assumes "block = ord x * 65536 + ord y * 256 + ord z"
  shows "decode_blocks ([base64_digit_at block 18, base64_digit_at block 12, base64_digit_at block 6, base64_digit_at block 0] @ rest) =
    map_option (\<lambda>bytes. x # y # z # bytes) (decode_blocks rest)"
  using block_digits [OF block_bytes(1) [OF assms]] block_bytes [OF assms]
  by (simp add: base64_digit_at_def Let_def del: power_numeral)

lemma decode_encode: "decode_blocks (EncodeBase64 bytes) = Some bytes"
proof (induction bytes rule: EncodeBase64.induct)
  case (2 x)
  define block where "block = ord x * 65536"
  have b: "block = ord x * 65536 + ord (CHR 0x00) * 256 + ord (CHR 0x00)" by (simp add: block_def)
  have z: "block mod 64 = 0" "block div 2 ^ 6 mod 64 = 0" "block div 2 ^ 12 mod 64 mod 16 = 0"
    using short_block(1-3) [of "ord x"] by (simp_all only: block_def)
  show ?case using block_digits [OF block_bytes(1) [OF b]] block_bytes(2) [OF b] z
    by (simp add: base64_digit_at_def Let_def flip: block_def del: power_numeral)
next
  case (3 x y)
  define block where "block = ord x * 65536 + ord y * 256"
  have b: "block = ord x * 65536 + ord y * 256 + ord (CHR 0x00)" by (simp add: block_def)
  have "block = (ord x * 256 + ord y) * 256" by (simp add: block_def)
  then have z: "block mod 64 = 0" "block div 2 ^ 6 mod 64 mod 4 = 0"
    using short_block(4,5) [of "ord x * 256 + ord y"] by (simp_all only:)
  show ?case using block_digits [OF block_bytes(1) [OF b]] block_bytes(2,3) [OF b] z
    by (simp add: base64_digit_at_def Let_def flip: block_def del: power_numeral)
next
  case (4 x y z bytes)
  then show ?case using decode_blocks_full [OF refl, of x y z "EncodeBase64 bytes"] by (simp only: EncodeBase64.simps Let_def) simp
qed simp

lemma length_EncodeBase64: "length (EncodeBase64 bytes) mod 4 = 0"
  by (induction bytes rule: EncodeBase64.induct) (simp_all add: Let_def)

lemma EncodeBase64_Nil: "EncodeBase64 bytes = [] \<longleftrightarrow> bytes = []"
  by (cases bytes rule: EncodeBase64.cases) (simp_all add: Let_def)

lemma DecodeBase64_EncodeBase64: "bytes \<noteq> [] \<Longrightarrow> DecodeBase64 (EncodeBase64 bytes) = Some bytes"
  by (simp add: DecodeBase64_def length_EncodeBase64 EncodeBase64_Nil decode_encode)

text \<open>C38: A secret of the settings that could be protected is read back, by the user who can decrypt it: any bytes, also the empty
  value, which is stored as it is, and a value that itself looks like a protected one.\<close>

theorem secret_roundtrip:
  assumes "crypto_ok crypto" "secret_status (ProtectSecret crypto plain) = SecretOk"
  shows "UnprotectSecret crypto (secret_value (ProtectSecret crypto plain)) = \<lparr>secret_status = SecretOk, secret_value = plain, secret_encrypted = (plain \<noteq> [])\<rparr>"
proof (cases "plain = []")
  case False
  then obtain cipher where c: "IsAvailable crypto" "Encrypt crypto plain = Some cipher" "cipher \<noteq> []"
    using assms(2) by (auto simp: ProtectSecret_def split: if_splits option.splits)
  then have "Decrypt crypto cipher = Some plain" using assms(1) by (simp add: crypto_ok_def)
  then show ?thesis using False c by (simp add: ProtectSecret_def UnprotectSecret_def DecodeBase64_EncodeBase64)
qed (simp add: ProtectSecret_def UnprotectSecret_def kSecretPrefix_def)

theorem secret_roundtrip_witness:
  "UnprotectSecret sample_crypto (secret_value (ProtectSecret sample_crypto ''dpapi:key'')) = \<lparr>secret_status = SecretOk, secret_value = ''dpapi:key'', secret_encrypted = True\<rparr>"
  using secret_roundtrip [OF sample_crypto_ok, of "''dpapi:key''"] by (simp add: ProtectSecret_def sample_crypto_def)

end
