(* ===== verification/LearningPersist.thy ===== *)
theory LearningPersist
  imports LearningQueries ProtectedFile
begin

text \<open>
  Loading and saving the learning store, the rest of \<open>src/learning/src/LearningStore.cpp\<close>: the current
  file beside the one of the old format, the migration, the copy of a damaged file that is kept aside and
  the rewriting of the old file. The disk and its failures are those of \<open>ProtectedFile\<close>.
\<close>

section \<open>Paths\<close>

definition file_name :: "string \<Rightarrow> string" where
  "file_name path = rev (takeWhile (\<lambda>c. c \<noteq> CHR ''/'' \<and> c \<noteq> CHR 92) (rev path))"

definition file_extension :: "string \<Rightarrow> string" where
  "file_extension f = (case rfind_char (CHR ''.'') f of
     None \<Rightarrow> []
   | Some i \<Rightarrow> if i = 0 \<or> f = ''..'' then [] else drop i f)"

definition LearningStoreV2PathFor :: "string \<Rightarrow> string" where
  "LearningStoreV2PathFor legacy_path =
     (let f = file_name legacy_path; ext = file_extension f
      in take (length legacy_path - length f) legacy_path @ take (length f - length ext) f @ ''.v2'' @ ext)"

section \<open>Loading\<close>

record persistent =
  ps_store :: store
  ps_save_blocked :: bool
  ps_preserve_before_save :: bool

definition LoadImpl :: "bool \<Rightarrow> ByteCrypto \<Rightarrow> string \<Rightarrow> string \<Rightarrow> (world, bool \<times> persistent) state" where
  "LoadImpl migrate_plaintext crypto tag path = do {
     (source, content) \<leftarrow> ReadProtectedText crypto (LearningStoreV2PathFor path);
     let from_legacy = (source = FileMissing);
     (source, content) \<leftarrow> (if from_legacy then ReadProtectedText crypto path else State_Monad.return (source, content));
     let source_path = (if from_legacy then path else LearningStoreV2PathFor path);
     let empty = \<lparr>ps_store = \<lparr>st_table = [], st_dirty = False\<rparr>, ps_save_blocked = False, ps_preserve_before_save = False\<rparr>;
     if source = FileMissing then State_Monad.return (False, empty)
     else if source = FileError then State_Monad.return (False, empty\<lparr>ps_save_blocked := True\<rparr>)
     else do {
       let (malformed, t) = ParseInto content [];
       let loaded = \<lparr>ps_store = \<lparr>st_table = t, st_dirty = False\<rparr>, ps_save_blocked = False,
                     ps_preserve_before_save = (\<not> from_legacy \<and> malformed > 0)\<rparr>;
       migrated \<leftarrow> (if source = FilePlaintext \<and> migrate_plaintext then MigratePlaintextFile crypto tag source_path content
                    else State_Monad.return True);
       State_Monad.return (if \<not> migrated then (False, loaded\<lparr>ps_save_blocked := True\<rparr>)
         else (True, loaded\<lparr>ps_store := \<lparr>st_table = t, st_dirty = (from_legacy \<and> t \<noteq> [])\<rparr>\<rparr>))
     }
   }"

section \<open>Saving\<close>

definition KeepAsideCopy :: "string \<Rightarrow> string \<Rightarrow> (world, bool) state" where
  "KeepAsideCopy epoch v2_path = do {
     encrypted \<leftarrow> Exists (EncryptedPathFor v2_path);
     if encrypted = None then State_Monad.return False
     else do {
       let kept = (if encrypted = Some True then EncryptedPathFor v2_path else v2_path);
       there \<leftarrow> Exists kept;
       if there \<noteq> Some True then State_Monad.return (there \<noteq> None)
       else do {
         let copy = kept @ ''.corrupt-'' @ epoch;
         copied \<leftarrow> Exists copy;
         if copied = Some True then State_Monad.return True else copy_file kept copy
       }
     }
   }"

definition RemoveVerifiedLegacyFile :: "ByteCrypto \<Rightarrow> string \<Rightarrow> string \<Rightarrow> (world, unit) state" where
  "RemoveVerifiedLegacyFile crypto path saved_text = do {
     legacy \<leftarrow> Exists (EncryptedPathFor path);
     if legacy \<noteq> Some True then State_Monad.return ()
     else do {
       v2_lock \<leftarrow> attempt;
       if \<not> v2_lock then State_Monad.return ()
       else do {
         legacy_lock \<leftarrow> attempt;
         if \<not> legacy_lock then State_Monad.return ()
         else do {
           plain \<leftarrow> Exists path;
           if plain \<noteq> Some False then State_Monad.return ()
           else do {
             (v2_source, verified) \<leftarrow> ReadProtectedText crypto (LearningStoreV2PathFor path);
             if \<not> (v2_source = FileEncrypted \<and> verified = saved_text \<and> CountValidLearningRows verified \<noteq> None) then State_Monad.return ()
             else do {
               (legacy_source, verified) \<leftarrow> ReadProtectedText crypto path;
               if \<not> (legacy_source = FileEncrypted \<and> CountValidLearningRows verified \<noteq> None) then State_Monad.return ()
               else do { removed \<leftarrow> remove_file (EncryptedPathFor path); State_Monad.return () }
             }
           }
         }
       }
     }
   }"

definition Save :: "ByteCrypto \<Rightarrow> string \<Rightarrow> string \<Rightarrow> string \<Rightarrow> persistent \<Rightarrow> (world, bool \<times> persistent) state" where
  "Save crypto tag epoch path ps =
     (if ps_save_blocked ps then State_Monad.return (False, ps)
      else let v2_path = LearningStoreV2PathFor path in do {
        encrypted \<leftarrow> Exists (EncryptedPathFor v2_path);
        plain \<leftarrow> (if encrypted = Some True then State_Monad.return (Some False) else Exists v2_path);
        if encrypted = None \<or> plain = None then State_Monad.return (False, ps)
        else do {
          settled \<leftarrow> (if encrypted = Some True \<or> plain = Some True then State_Monad.return True else SettleProtectedFile crypto path);
          if \<not> settled then State_Monad.return (False, ps)
          else do {
            kept \<leftarrow> (if ps_preserve_before_save ps then KeepAsideCopy epoch v2_path else State_Monad.return True);
            if \<not> kept then State_Monad.return (False, ps)
            else do {
              let content = SerializeText (st_table (ps_store ps));
              saved \<leftarrow> WriteProtectedText crypto tag v2_path content;
              if \<not> saved then State_Monad.return (False, ps)
              else do {
                done \<leftarrow> RemoveVerifiedLegacyFile crypto path content;
                State_Monad.return (True, ps\<lparr>ps_store := (ps_store ps)\<lparr>st_dirty := False\<rparr>, ps_preserve_before_save := False\<rparr>)
              }
            }
          }
        }
      })"

section \<open>Forgetting in the old file\<close>

text \<open>The result and whether rows were removed.\<close>

definition RewriteLegacyFile :: "ByteCrypto \<Rightarrow> string \<Rightarrow> string \<Rightarrow> (string \<times> string) option \<Rightarrow> (world, bool \<times> bool) state" where
  "RewriteLegacyFile crypto tag path pair = do {
     (source, content) \<leftarrow> ReadProtectedText crypto path;
     if source = FileMissing then State_Monad.return (True, False)
     else if source = FileError then State_Monad.return (False, False)
     else do {
       let (rewritten, removed) = WithoutLegacyRows content pair;
       ok \<leftarrow> (if \<not> removed then State_Monad.return True else WriteProtectedText crypto tag path rewritten);
       State_Monad.return (ok, removed \<and> ok)
     }
   }"

definition RemoveFromLegacyFile :: "ByteCrypto \<Rightarrow> string \<Rightarrow> string \<Rightarrow> string \<Rightarrow> string \<Rightarrow> (world, bool \<times> bool) state" where
  "RemoveFromLegacyFile crypto tag path rd sf = RewriteLegacyFile crypto tag path (Some (rd, sf))"

definition ClearLegacyFile :: "ByteCrypto \<Rightarrow> string \<Rightarrow> string \<Rightarrow> (world, bool) state" where
  "ClearLegacyFile crypto tag path = do { (ok, removed) \<leftarrow> RewriteLegacyFile crypto tag path None; State_Monad.return ok }"

section \<open>What saving keeps\<close>

lemma V2Path_length: "length (LearningStoreV2PathFor path) = length path + 3"
proof -
  have "length (file_extension f) \<le> length f" for f by (simp add: file_extension_def split: option.split)
  moreover have "length (file_name path) \<le> length path" using length_takeWhile_le [of _ "rev path"] by (simp add: file_name_def)
  ultimately show ?thesis by (simp add: LearningStoreV2PathFor_def Let_def)
qed

lemma length_neq: "length a \<noteq> length b \<Longrightarrow> a \<noteq> b"
  by blast

text \<open>The files of the two formats are different.\<close>

lemma v2_files_differ [simp]:
  "EncryptedPathFor (LearningStoreV2PathFor p) \<noteq> p" "EncryptedPathFor (LearningStoreV2PathFor p) \<noteq> EncryptedPathFor p"
  "EncryptedPathFor (LearningStoreV2PathFor p) \<noteq> backup_path p" "LearningStoreV2PathFor p \<noteq> p"
  "LearningStoreV2PathFor p \<noteq> EncryptedPathFor p" "LearningStoreV2PathFor p \<noteq> backup_path p"
  "backup_path (LearningStoreV2PathFor p) \<noteq> p" "backup_path (LearningStoreV2PathFor p) \<noteq> EncryptedPathFor p"
  "temp_path tag (EncryptedPathFor (LearningStoreV2PathFor p)) \<noteq> p" "temp_path tag (EncryptedPathFor (LearningStoreV2PathFor p)) \<noteq> EncryptedPathFor p"
  "temp_path tag (EncryptedPathFor (LearningStoreV2PathFor p)) \<noteq> backup_path p"
  by (rule length_neq, simp add: EncryptedPathFor_def backup_path_def temp_path_def V2Path_length)+

lemma stored_cong:
  "d' (EncryptedPathFor p) = d (EncryptedPathFor p) \<Longrightarrow> d' p = d p \<Longrightarrow> d' (backup_path p) = d (backup_path p) \<Longrightarrow>
     stored crypto d' p = stored crypto d p"
  by (simp only: stored_def)

lemma runs_prod: "(\<And>a b. x = (a, b) \<Longrightarrow> all_runs (f a b) Q d) \<Longrightarrow> all_runs (case x of (a, b) \<Rightarrow> f a b) Q d"
  by (cases x) simp

lemma runs_ReadProtected: "(\<And>source t. Q (source, t) d) \<Longrightarrow> all_runs (ReadProtectedText crypto p) Q d"
  by (rule all_runs_mono [OF ReadProtectedText_runs]) auto

text \<open>Both files read as before.\<close>

definition both_kept :: "ByteCrypto \<Rightarrow> string \<Rightarrow> disk \<Rightarrow> disk \<Rightarrow> bool" where
  "both_kept crypto p d d' \<longleftrightarrow> stored crypto d' p = stored crypto d p \<and>
     stored crypto d' (LearningStoreV2PathFor p) = stored crypto d (LearningStoreV2PathFor p)"

lemma both_kept_refl [simp]: "both_kept crypto p d d"
  by (simp add: both_kept_def)

lemma both_kept_trans: "both_kept crypto p d d1 \<Longrightarrow> both_kept crypto p d1 d2 \<Longrightarrow> both_kept crypto p d d2"
  by (simp add: both_kept_def)

lemma both_kept_other:
  assumes "length path + 8 \<le> length q"
  shows "both_kept crypto path d (d(q := v))"
proof -
  have "q \<noteq> path" "q \<noteq> EncryptedPathFor path" "q \<noteq> backup_path path" "q \<noteq> LearningStoreV2PathFor path"
    "q \<noteq> EncryptedPathFor (LearningStoreV2PathFor path)" "q \<noteq> backup_path (LearningStoreV2PathFor path)"
    using assms by (auto simp: EncryptedPathFor_def backup_path_def V2Path_length dest!: arg_cong [of q _ length])
  then show ?thesis unfolding both_kept_def by (intro conjI stored_cong) simp_all
qed

lemma Settle_runs: "all_runs (SettleProtectedFile crypto p) (\<lambda>ok d'. both_kept crypto p d d') d"
proof -
  have "all_runs (PrepareProtectedWrite crypto p) (\<lambda>ok d'. both_kept crypto p d d') d"
  proof (rule all_runs_mono [OF PrepareProtectedWrite_runs])
    fix ok d'
    assume "(d' = d \<or> (d' = d(p := None) \<and> fst (stored crypto d p) = FileEncrypted)) \<and> (ok \<longrightarrow> fst (stored crypto d p) \<in> {FileMissing, FileEncrypted})"
    then show "both_kept crypto p d d'"
      using stored_without_plain [of crypto d p] stored_cong [of "d(p := None)" "LearningStoreV2PathFor p" d crypto] by (auto simp: both_kept_def)
  qed
  then show ?thesis unfolding SettleProtectedFile_def by (intro all_runs_bind runs_attempt) simp_all
qed

lemma KeepAsideCopy_runs: "all_runs (KeepAsideCopy epoch (LearningStoreV2PathFor p)) (\<lambda>ok d'. both_kept crypto p d d') d"
proof -
  have "both_kept crypto p d (d(kept @ ''.corrupt-'' @ epoch := v))"
    if "kept = EncryptedPathFor (LearningStoreV2PathFor p) \<or> kept = LearningStoreV2PathFor p" for kept v
    using that by (intro both_kept_other) (auto simp: EncryptedPathFor_def V2Path_length)
  then show ?thesis unfolding KeepAsideCopy_def Let_def by (intro runs) (simp_all split: if_splits)
qed

lemma RemoveVerified_runs:
  "all_runs (RemoveVerifiedLegacyFile crypto p t) (\<lambda>_ d'. stored crypto d' (LearningStoreV2PathFor p) = stored crypto d (LearningStoreV2PathFor p)) d"
proof -
  have "stored crypto (d(EncryptedPathFor p := None)) (LearningStoreV2PathFor p) = stored crypto d (LearningStoreV2PathFor p)"
    by (rule stored_cong) simp_all
  then show ?thesis
    unfolding RemoveVerifiedLegacyFile_def by (intro runs runs_ReadProtected runs_prod) simp_all
qed

lemma Write_v2_runs:
  assumes "crypto_ok crypto"
  shows "all_runs (WriteProtectedText crypto tag (LearningStoreV2PathFor p) t)
    (\<lambda>ok d'. if ok then stored crypto d' (LearningStoreV2PathFor p) = (FileEncrypted, t) else both_kept crypto p d d') d"
proof (rule all_runs_mono [OF WriteProtectedText_runs [OF assms]])
  fix ok d'
  let ?v = "LearningStoreV2PathFor p"
  assume w: "stored crypto d' ?v = (if ok then (FileEncrypted, t) else stored crypto d ?v) \<and>
      (ok \<longrightarrow> fst (stored crypto d ?v) \<in> {FileMissing, FileEncrypted}) \<and> same_but (insert ?v (own_files tag ?v)) d d'"
  have "q \<notin> insert ?v (own_files tag ?v)" if "q \<in> {p, EncryptedPathFor p, backup_path p}" for q
    using that v2_files_differ [of p] v2_files_differ(9-11) [of tag p] by (auto simp: own_files_def dest: sym)
  then have "d' q = d q" if "q \<in> {p, EncryptedPathFor p, backup_path p}" for q using that w by (simp only: same_but_def) blast
  then have "stored crypto d' p = stored crypto d p" by (intro stored_cong) simp_all
  then show "if ok then stored crypto d' ?v = (FileEncrypted, t) else both_kept crypto p d d'" using w by (simp add: both_kept_def)
qed

lemma Save_runs:
  assumes "crypto_ok crypto"
  shows "all_runs (Save crypto tag epoch p ps)
    (\<lambda>(ok, ps') d'. if ok then stored crypto d' (LearningStoreV2PathFor p) = (FileEncrypted, SerializeText (st_table (ps_store ps))) \<and>
          ps' = ps\<lparr>ps_store := (ps_store ps)\<lparr>st_dirty := False\<rparr>, ps_preserve_before_save := False\<rparr>
        else both_kept crypto p d d' \<and> ps' = ps) d"
proof -
  let ?v = "LearningStoreV2PathFor p" and ?t = "SerializeText (st_table (ps_store ps))"
  let ?saved = "ps\<lparr>ps_store := (ps_store ps)\<lparr>st_dirty := False\<rparr>, ps_preserve_before_save := False\<rparr>"
  let ?Q = "\<lambda>(ok, ps') d'. if ok then stored crypto d' ?v = (FileEncrypted, ?t) \<and> ps' = ?saved else both_kept crypto p d d' \<and> ps' = ps"
  have wr: "all_runs (do { saved \<leftarrow> WriteProtectedText crypto tag ?v ?t;
      if \<not> saved then State_Monad.return (False, ps) else do { done \<leftarrow> RemoveVerifiedLegacyFile crypto p ?t; State_Monad.return (True, ?saved) } }) ?Q d1"
    if "both_kept crypto p d d1" for d1
    by (intro all_runs_bind all_runs_mono [OF Write_v2_runs [OF assms]] all_runs_if all_runs_return all_runs_mono [OF RemoveVerified_runs])
      (use that both_kept_trans in \<open>auto split: if_splits\<close>)
  have keep: "all_runs (do { kept \<leftarrow> (if ps_preserve_before_save ps then KeepAsideCopy epoch ?v else State_Monad.return True);
      if \<not> kept then State_Monad.return (False, ps)
      else do { saved \<leftarrow> WriteProtectedText crypto tag ?v ?t;
        if \<not> saved then State_Monad.return (False, ps) else do { done \<leftarrow> RemoveVerifiedLegacyFile crypto p ?t; State_Monad.return (True, ?saved) } } }) ?Q d1"
    if "both_kept crypto p d d1" for d1
    by (rule all_runs_bind, rule all_runs_mono [where P = "\<lambda>_. both_kept crypto p d1"], rule all_runs_if)
      (use that both_kept_trans wr in \<open>auto intro!: KeepAsideCopy_runs all_runs_if simp del: bind_assoc\<close>)
  have settle: "all_runs (do { settled \<leftarrow> (if c then State_Monad.return True else SettleProtectedFile crypto p);
      if \<not> settled then State_Monad.return (False, ps)
      else do { kept \<leftarrow> (if ps_preserve_before_save ps then KeepAsideCopy epoch ?v else State_Monad.return True);
        if \<not> kept then State_Monad.return (False, ps)
        else do { saved \<leftarrow> WriteProtectedText crypto tag ?v ?t;
          if \<not> saved then State_Monad.return (False, ps) else do { done \<leftarrow> RemoveVerifiedLegacyFile crypto p ?t; State_Monad.return (True, ?saved) } } } }) ?Q d" for c
    by (rule all_runs_bind, rule all_runs_mono [where P = "\<lambda>_. both_kept crypto p d"], rule all_runs_if)
      (use keep in \<open>auto intro!: Settle_runs all_runs_if simp del: bind_assoc\<close>)
  show ?thesis
    unfolding Save_def Let_def
    by (rule all_runs_if, simp, rule all_runs_bind, rule runs_Exists; rule all_runs_bind, rule all_runs_if; (rule runs_Exists)?; simp del: bind_assoc split del: if_split add: settle keep)
qed

text \<open>C17: Saving the learning store never loses what is stored. Whatever calls fail and wherever the process is killed, a save
  that reports success has put the whole text of the store into the encrypted file of the current format, and after one
  that does not, both the current and the old file read as before and the store keeps its state. A store whose file
  could not be read is never written.\<close>

theorem Save_keeps_stored:
  assumes "crypto_ok crypto" "run_state (Save crypto tag epoch p ps) w = ((ok, ps'), w')"
  shows "(if ok
      then stored crypto (disk w') (LearningStoreV2PathFor p) = (FileEncrypted, SerializeText (st_table (ps_store ps))) \<and>
        ps' = ps\<lparr>ps_store := (ps_store ps)\<lparr>st_dirty := False\<rparr>, ps_preserve_before_save := False\<rparr>
      else stored crypto (disk w') p = stored crypto (disk w) p \<and>
        stored crypto (disk w') (LearningStoreV2PathFor p) = stored crypto (disk w) (LearningStoreV2PathFor p) \<and> ps' = ps) \<and>
    (ps_save_blocked ps \<longrightarrow> \<not> ok \<and> w' = w)"
proof
  show "ps_save_blocked ps \<longrightarrow> \<not> ok \<and> w' = w" using assms(2) by (auto simp: Save_def)
qed (use Save_runs [OF assms(1), of tag epoch p ps "disk w"] assms(2) in \<open>unfold all_runs_def both_kept_def, fastforce\<close>)

text \<open>Reading an encrypted file of the current format.\<close>

lemma LoadImpl_encrypted:
  assumes "stored crypto d (LearningStoreV2PathFor p) = (FileEncrypted, t)" "ParseInto t [] = (0, table)"
  shows "run_state (LoadImpl migrate crypto tag p) \<lparr>disk = d, outcomes = Succeeds # Succeeds # rest\<rparr> =
    ((True, \<lparr>ps_store = \<lparr>st_table = table, st_dirty = False\<rparr>, ps_save_blocked = False, ps_preserve_before_save = False\<rparr>), \<lparr>disk = d, outcomes = rest\<rparr>)"
proof -
  obtain cipher where "d (EncryptedPathFor (LearningStoreV2PathFor p)) = Some cipher" "Decrypt crypto cipher = Some t"
    using assms(1) by (auto simp: stored_def split: option.splits if_splits)
  then have "run_state (ReadProtectedText crypto (LearningStoreV2PathFor p)) \<lparr>disk = d, outcomes = Succeeds # Succeeds # rest\<rparr> =
      ((FileEncrypted, t), \<lparr>disk = d, outcomes = rest\<rparr>)"
    by (simp add: ReadProtectedText_def DecryptFile_def run_success)
  then show ?thesis using assms(2) by (simp add: LoadImpl_def)
qed


text \<open>C18: A store that cannot be read is not overwritten. When the file of the current format is there and cannot be decrypted, or
  only an orphaned backup is left of it, every load reports failure and blocks the store, and saving the blocked store
  changes nothing on the disk.\<close>

theorem unreadable_store_not_overwritten:
  assumes "fst (stored crypto (disk w) (LearningStoreV2PathFor p)) = FileError"
    "run_state (LoadImpl migrate crypto tag p) w = ((ok, ps), w1)"
  shows "\<not> ok \<and> disk w1 = disk w \<and> ps_save_blocked ps \<and> run_state (Save crypto tag' epoch p ps) w2 = ((False, ps), w2)"
proof -
  obtain t where "stored crypto (disk w) (LearningStoreV2PathFor p) = (FileError, t)" using assms(1) by (metis prod.collapse)
  then have "all_runs (LoadImpl migrate crypto tag p) (\<lambda>(ok, ps) d'. \<not> ok \<and> d' = disk w \<and> ps_save_blocked ps) (disk w)"
    unfolding LoadImpl_def by (intro all_runs_bind all_runs_mono [OF ReadProtectedText_runs]) auto
  then have "\<not> ok \<and> disk w1 = disk w \<and> ps_save_blocked ps" using assms(2) unfolding all_runs_def by fastforce
  then show ?thesis by (simp add: Save_def)
qed

section \<open>Forgetting in the old file\<close>

text \<open>Rewriting the old file removes the rows of the pair or leaves the file as it was.\<close>

lemma RewriteLegacyFile_runs:
  assumes "crypto_ok crypto"
  shows "all_runs (RewriteLegacyFile crypto tag p pair)
    (\<lambda>(ok, removed) d'. if removed then ok \<and> stored crypto d' p = (FileEncrypted, fst (WithoutLegacyRows (snd (stored crypto d p)) pair))
       else stored crypto d' p = stored crypto d p \<and> (ok \<longrightarrow> fst (stored crypto d p) \<in> {FileEncrypted, FilePlaintext} \<longrightarrow> \<not> snd (WithoutLegacyRows (snd (stored crypto d p)) pair))) d"
proof -
  have w: "all_runs (WriteProtectedText crypto tag p t \<bind> (\<lambda>ok. State_Monad.return (ok, ok)))
      (\<lambda>(ok, removed) d'. if removed then ok \<and> stored crypto d' p = (FileEncrypted, t) else \<not> ok \<and> stored crypto d' p = stored crypto d p) d" for t
    by (rule all_runs_bind, rule all_runs_mono [OF WriteProtectedText_runs [OF assms]]) simp
  obtain source t where t: "stored crypto d p = (source, t)" by fastforce
  obtain rewritten removed where r: "WithoutLegacyRows t pair = (rewritten, removed)" by fastforce
  show ?thesis
    unfolding RewriteLegacyFile_def
    by (rule all_runs_bind, rule all_runs_mono [OF ReadProtectedText_runs], elim conjE disjE; cases removed)
      (use all_runs_mono [OF w [of rewritten]] in \<open>auto simp: t r split: if_splits\<close>)
qed

section \<open>Instances\<close>

definition sample_persistent :: persistent where
  "sample_persistent = \<lparr>ps_store = sample_store, ps_save_blocked = False, ps_preserve_before_save = False\<rparr>"

lemma sample_save:
  "\<exists>ps' w'. run_state (Save sample_crypto ''1'' ''5'' ''u/l.tsv'' sample_persistent) (sample_world Map.empty) = ((True, ps'), w')"
proof -
  have "sample_world Map.empty = \<lparr>disk = Map.empty, outcomes = Succeeds # Succeeds # Succeeds # Succeeds # Succeeds # Succeeds #
      Succeeds # Succeeds # Succeeds # Succeeds # replicate 5 Succeeds @ [Succeeds]\<rparr>"
    by (simp add: sample_world_def numeral_eq_Suc)
  moreover have "Encrypt sample_crypto t = Some (CHR ''!'' # t)" for t by (simp add: sample_crypto_def)
  ultimately show ?thesis
    by (simp add: Save_def sample_persistent_def SettleProtectedFile_def PrepareProtectedWrite_def WriteProtectedText_def RemoveVerifiedLegacyFile_def
      Let_def run_success EncryptAndWrite_succeeds v2_files_differ(2) [symmetric])
qed

lemma sample_persistent_store: "ps_store sample_persistent = sample_store"
  by (simp add: sample_persistent_def)

lemma sample_V2_path: "LearningStoreV2PathFor ''u/l.tsv'' = ''u/l.v2.tsv''"
  by code_simp

theorem Save_keeps_stored_witness:
  "stored sample_crypto (disk (snd (run_state (Save sample_crypto ''1'' ''5'' ''u/l.tsv'' sample_persistent) (sample_world Map.empty)))) ''u/l.v2.tsv'' =
     (FileEncrypted, SerializeText (st_table sample_store))"
proof -
  obtain ps' w' where r: "run_state (Save sample_crypto ''1'' ''5'' ''u/l.tsv'' sample_persistent) (sample_world Map.empty) = ((True, ps'), w')"
    using sample_save by blast
  from Save_keeps_stored [OF sample_crypto_ok r] show ?thesis by (simp add: r sample_V2_path sample_persistent_store)
qed


theorem unreadable_store_not_overwritten_witness:
  "ps_save_blocked (snd (fst (run_state (LoadImpl True sample_crypto ''2'' ''u/l.tsv'') (sample_world [''u/l.v2.tsv.enc'' \<mapsto> ''x'']))))"
proof -
  have "fst (stored sample_crypto (disk (sample_world [''u/l.v2.tsv.enc'' \<mapsto> ''x''])) (LearningStoreV2PathFor ''u/l.tsv'')) = FileError"
    by (simp add: sample_V2_path stored_def EncryptedPathFor_def sample_world_def sample_crypto_def)
  from unreadable_store_not_overwritten [OF this, of True "''2''"] show ?thesis
    by (cases "run_state (LoadImpl True sample_crypto ''2'' ''u/l.tsv'') (sample_world [''u/l.v2.tsv.enc'' \<mapsto> ''x''])") auto
qed

end
