(* ===== verification/Messages.thy ===== *)
theory Messages
  imports Json
begin

text \<open>
  The messages between the input method and the inference host: \<open>ipc/include/azookey/ipc/Messages.h\<close>
  and \<open>ipc/src/Messages.cpp\<close>. An envelope is serialized to one JSON object, framed by its length in
  four little-endian bytes, and read back the same way. \<open>int\<close> is 32 bits wide, so the version that
  \<open>Deserialize\<close> takes from the text is cut to 32 bits; the length and the request number are words.
\<close>

section \<open>Message types\<close>

datatype MessageType =
    Handshake | LoadModel | QueryCandidates | QueryLiveConversion | QueryBatchConversion |
    QueryPredictions | QueryCorrections | Cancel | CommitObservation | CommitCorrection |
    AddUserWord | UpdateUserWord | RemoveUserWord | UpdateConfig | Ping | Health |
    QueryDiagnostics | CommitSegmentsObservation | ObserveTypo | ListNewWordCandidates |
    ResolveNewWord | ReverseConvert | ListModels | BenchmarkModel | ListLearningEntries |
    ForgetLearningEntry | ExportLearningData | ImportLearningData | ResetLearningStore |
    QueryPersona | DetectAnomalies | FetchCatalogModel | QueryCatalogFetch | CancelCatalogFetch |
    Unknown

fun TypeToString :: "MessageType \<Rightarrow> string" where
  "TypeToString Handshake = ''Handshake''"
| "TypeToString LoadModel = ''LoadModel''"
| "TypeToString QueryCandidates = ''QueryCandidates''"
| "TypeToString QueryLiveConversion = ''QueryLiveConversion''"
| "TypeToString QueryBatchConversion = ''QueryBatchConversion''"
| "TypeToString QueryPredictions = ''QueryPredictions''"
| "TypeToString QueryCorrections = ''QueryCorrections''"
| "TypeToString Cancel = ''Cancel''"
| "TypeToString CommitObservation = ''CommitObservation''"
| "TypeToString CommitSegmentsObservation = ''CommitSegmentsObservation''"
| "TypeToString CommitCorrection = ''CommitCorrection''"
| "TypeToString AddUserWord = ''AddUserWord''"
| "TypeToString UpdateUserWord = ''UpdateUserWord''"
| "TypeToString RemoveUserWord = ''RemoveUserWord''"
| "TypeToString UpdateConfig = ''UpdateConfig''"
| "TypeToString Ping = ''Ping''"
| "TypeToString Health = ''Health''"
| "TypeToString QueryDiagnostics = ''QueryDiagnostics''"
| "TypeToString ObserveTypo = ''ObserveTypo''"
| "TypeToString ListNewWordCandidates = ''ListNewWordCandidates''"
| "TypeToString ResolveNewWord = ''ResolveNewWord''"
| "TypeToString ReverseConvert = ''ReverseConvert''"
| "TypeToString ListModels = ''ListModels''"
| "TypeToString BenchmarkModel = ''BenchmarkModel''"
| "TypeToString ListLearningEntries = ''ListLearningEntries''"
| "TypeToString ForgetLearningEntry = ''ForgetLearningEntry''"
| "TypeToString ExportLearningData = ''ExportLearningData''"
| "TypeToString ImportLearningData = ''ImportLearningData''"
| "TypeToString ResetLearningStore = ''ResetLearningStore''"
| "TypeToString QueryPersona = ''QueryPersona''"
| "TypeToString DetectAnomalies = ''DetectAnomalies''"
| "TypeToString FetchCatalogModel = ''FetchCatalogModel''"
| "TypeToString QueryCatalogFetch = ''QueryCatalogFetch''"
| "TypeToString CancelCatalogFetch = ''CancelCatalogFetch''"
| "TypeToString Unknown = ''Unknown''"

definition TypeFromString :: "string \<Rightarrow> MessageType" where
  "TypeFromString s =
     (if s = ''Handshake'' then Handshake
      else if s = ''LoadModel'' then LoadModel
      else if s = ''QueryCandidates'' then QueryCandidates
      else if s = ''QueryLiveConversion'' then QueryLiveConversion
      else if s = ''QueryBatchConversion'' then QueryBatchConversion
      else if s = ''QueryPredictions'' then QueryPredictions
      else if s = ''QueryCorrections'' then QueryCorrections
      else if s = ''Cancel'' then Cancel
      else if s = ''CommitObservation'' then CommitObservation
      else if s = ''CommitSegmentsObservation'' then CommitSegmentsObservation
      else if s = ''CommitCorrection'' then CommitCorrection
      else if s = ''AddUserWord'' then AddUserWord
      else if s = ''UpdateUserWord'' then UpdateUserWord
      else if s = ''RemoveUserWord'' then RemoveUserWord
      else if s = ''UpdateConfig'' then UpdateConfig
      else if s = ''Ping'' then Ping
      else if s = ''Health'' then Health
      else if s = ''QueryDiagnostics'' then QueryDiagnostics
      else if s = ''ObserveTypo'' then ObserveTypo
      else if s = ''ListNewWordCandidates'' then ListNewWordCandidates
      else if s = ''ResolveNewWord'' then ResolveNewWord
      else if s = ''ReverseConvert'' then ReverseConvert
      else if s = ''ListModels'' then ListModels
      else if s = ''BenchmarkModel'' then BenchmarkModel
      else if s = ''ListLearningEntries'' then ListLearningEntries
      else if s = ''ForgetLearningEntry'' then ForgetLearningEntry
      else if s = ''ExportLearningData'' then ExportLearningData
      else if s = ''ImportLearningData'' then ImportLearningData
      else if s = ''ResetLearningStore'' then ResetLearningStore
      else if s = ''QueryPersona'' then QueryPersona
      else if s = ''DetectAnomalies'' then DetectAnomalies
      else if s = ''FetchCatalogModel'' then FetchCatalogModel
      else if s = ''QueryCatalogFetch'' then QueryCatalogFetch
      else if s = ''CancelCatalogFetch'' then CancelCatalogFetch
      else Unknown)"

section \<open>Envelopes\<close>

definition kEnvelopeVersion :: int where "kEnvelopeVersion = 1"

record Envelope =
  version :: int
  request_id :: "64 word"
  trace_id :: string
  type :: MessageType
  payload_json :: string

text \<open>A literal of the source between double quotes.\<close>

definition in_quotes :: "string \<Rightarrow> string" where
  "in_quotes s = CHR 0x22 # s @ [CHR 0x22]"

definition Serialize :: "Envelope \<Rightarrow> string option" where
  "Serialize env =
     (if payload_json env \<noteq> [] \<and> Parse (payload_json env) = None then None
      else Some
        (''{'' @ in_quotes ''payload'' @ '':'' @ (if payload_json env = [] then ''{}'' else payload_json env) @
         '','' @ in_quotes ''request_id'' @ '':'' @ to_string (unat (request_id env)) @
         '','' @ in_quotes ''trace_id'' @ '':'' @ in_quotes (EscapeString (trace_id env)) @
         '','' @ in_quotes ''type'' @ '':'' @ in_quotes (TypeToString (type env)) @
         '','' @ in_quotes ''version'' @ '':'' @ FormatInteger (version env) @ ''}''))"

text \<open>\<open>static_cast<int>\<close> of a 64-bit value keeps the low 32 bits.\<close>

definition int_of_int64 :: "int \<Rightarrow> int" where
  "int_of_int64 x = signed_take_bit 31 x"

definition Deserialize :: "string \<Rightarrow> Envelope option" where
  "Deserialize json_text =
     (case ParseWithRawMember json_text ''payload'' of
        (Some (JObject ms), raw_payload) \<Rightarrow>
          let v = JObject ms;
              ver = (case GetInt v ''version'' of Some x \<Rightarrow> int_of_int64 x | None \<Rightarrow> kEnvelopeVersion)
          in if ver < 1 \<or> ver > kEnvelopeVersion then None
             else (case (GetUInt v ''request_id'', GetString v ''type'', GetString v ''trace_id'') of
                     (Some rid, Some ty, Some trace) \<Rightarrow>
                       Some \<lparr>version = ver, request_id = word_of_nat rid, trace_id = trace,
                         type = TypeFromString ty,
                         payload_json = (if raw_payload \<noteq> [] then raw_payload else ''{}'')\<rparr>
                   | _ \<Rightarrow> None)
      | _ \<Rightarrow> None)"

section \<open>Frames\<close>

definition kMaxFrameSize :: nat where "kMaxFrameSize = kMaxJsonInputBytes"

text \<open>A \<open>std::vector<uint8_t>\<close> is a list of bytes.\<close>

definition size_byte :: "32 word \<Rightarrow> nat \<Rightarrow> char" where
  "size_byte sz k = byte (unat (drop_bit k sz AND 0xff))"

definition EncodeLengthPrefixed :: "string \<Rightarrow> string option" where
  "EncodeLengthPrefixed json_text =
     (if length json_text > kMaxFrameSize then None
      else let sz = word_of_nat (length json_text) in
           Some ([size_byte sz 0, size_byte sz 8, size_byte sz 16, size_byte sz 24] @ json_text))"

definition frame_size :: "string \<Rightarrow> 32 word" where
  "frame_size bytes =
     word_of_nat (ord (bytes ! 0)) OR push_bit 8 (word_of_nat (ord (bytes ! 1))) OR
       push_bit 16 (word_of_nat (ord (bytes ! 2))) OR push_bit 24 (word_of_nat (ord (bytes ! 3)))"

definition DecodeLengthPrefixed :: "string \<Rightarrow> string option" where
  "DecodeLengthPrefixed bytes =
     (if length bytes < 4 then None
      else let sz = frame_size bytes in
           if length bytes \<noteq> unat (sz + 4) then None
           else if sz = 0 \<or> unat sz > kMaxFrameSize then None
           else Some (drop 4 bytes))"

section \<open>Type names\<close>

lemma TypeFromString_TypeToString: "TypeFromString (TypeToString t) = t"
  by (cases t) (simp_all add: TypeFromString_def)

lemma plain_text:
  "list_all (\<lambda>c. 0x20 \<le> ord c \<and> ord c < 0x80 \<and> c \<noteq> CHR 0x22 \<and> c \<noteq> CHR 0x5c) s \<Longrightarrow>
     valid_utf8 s \<and> EscapeString s = s"
proof (induction s)
  case (Cons c s)
  then have c: "0x20 \<le> ord c" "ord c < 0x80" "c \<noteq> CHR 0x22" "c \<noteq> CHR 0x5c" and s: "valid_utf8 s" "EscapeString s = s"
    by simp_all
  have "c \<noteq> CHR 0x08 \<and> c \<noteq> CHR 0x0c \<and> c \<noteq> CHR 0x0a \<and> c \<noteq> CHR 0x0d \<and> c \<noteq> CHR 0x09"
    using c(1) by (intro conjI notI) simp_all
  then have "escape_byte c = [c]" using c by (simp add: escape_byte_def)
  then show ?case using valid_utf8_concat [OF valid_utf8_ascii [OF c(2)] s(1)] s(2) by (simp add: EscapeString_def)
qed (simp add: EscapeString_def)

lemma TypeToString_plain: "valid_utf8 (TypeToString t) \<and> EscapeString (TypeToString t) = TypeToString t"
  by (rule plain_text) (cases t; simp)

section \<open>The length prefix\<close>

lemma little_endian:
  assumes "b0 < 256" "b1 < 256" "b2 < 256" "b3 < 256"
  shows "b0 OR push_bit 8 b1 OR push_bit 16 b2 OR push_bit 24 b3 = b0 + 256 * b1 + 65536 * b2 + 16777216 * (b3::nat)"
proof -
  have 1: "b0 OR push_bit 8 b1 = b1 * 256 + b0" using assms shift_or [of b0 8 b1] by (simp add: or.commute)
  have 2: "(b1 * 256 + b0) OR push_bit 16 b2 = b2 * 65536 + (b1 * 256 + b0)"
    using assms shift_or [of "b1 * 256 + b0" 16 b2] by (simp add: or.commute)
  have 3: "(b2 * 65536 + (b1 * 256 + b0)) OR push_bit 24 b3 = b3 * 16777216 + (b2 * 65536 + (b1 * 256 + b0))"
    using assms shift_or [of "b2 * 65536 + (b1 * 256 + b0)" 24 b3] by (simp add: or.commute)
  show ?thesis by (simp add: 1 2 3 flip: or.assoc)
qed

lemma frame_size_value:
  "unat (frame_size (b0 # b1 # b2 # b3 # rest)) = ord b0 + 256 * ord b1 + 65536 * ord b2 + 16777216 * ord b3"
proof -
  have lt: "ord c < 256" for c by simp
  have w: "unat (word_of_nat (ord c) :: 32 word) = ord c" for c
    using lt [of c] less_trans [of "ord c" 256 4294967296] by (simp add: unat_of_nat)
  have p: "unat (push_bit k (word_of_nat (ord c) :: 32 word)) = push_bit k (ord c)" if "k \<in> {8, 16, 24}" for k c
  proof -
    have "ord c < 65536" "ord c < 16777216" using lt [of c] by linarith+
    then show ?thesis
      unfolding unsigned_push_bit_eq w
      using that by (intro take_bit_nat_eq_self) (auto simp: push_bit_eq_mult)
  qed
  show ?thesis
    using little_endian [of "ord b0" "ord b1" "ord b2" "ord b3"]
    by (simp add: frame_size_def unsigned_or_eq w p)
qed

lemma size_byte_value:
  assumes "n < 2 ^ 32"
  shows "size_byte (word_of_nat n) k = byte (n div 2 ^ k mod 256)"
proof -
  have n: "unat (word_of_nat n :: 32 word) = n" using assms by (simp add: unat_of_nat)
  have "unat (drop_bit k (word_of_nat n :: 32 word)) = n div 2 ^ k"
    unfolding unsigned_drop_bit_eq n using assms by (simp add: drop_bit_eq_div take_bit_eq_mod)
  then show ?thesis by (simp add: size_byte_def unsigned_and_eq bits del: unsigned_drop_bit_eq)
qed

lemma bytes_of_size:
  assumes "n = b0 + 256 * b1 + 65536 * b2 + 16777216 * (b3::nat)" "b0 < 256" "b1 < 256" "b2 < 256"
  shows "n mod 256 = b0" "n div 256 mod 256 = b1" "n div 65536 mod 256 = b2" "n div 16777216 = b3"
proof -
  have digit: "(a + 256 * m) mod 256 = a \<and> (a + 256 * m) div 256 = m" if "a < 256" for a m :: nat
    using that by simp
  have "n = b0 + 256 * (b1 + 256 * (b2 + 256 * b3))" using assms(1) by simp
  then have 1: "n mod 256 = b0" "n div 256 = b1 + 256 * (b2 + 256 * b3)" using digit [OF assms(2)] by metis+
  then have 2: "n div 256 mod 256 = b1" "n div 256 div 256 = b2 + 256 * b3" using digit [OF assms(3)] by metis+
  then have 3: "n div 256 div 256 mod 256 = b2" "n div 256 div 256 div 256 = b3" using digit [OF assms(4)] by metis+
  show "n mod 256 = b0" "n div 256 mod 256 = b1" "n div 65536 mod 256 = b2" "n div 16777216 = b3"
    using 1(1) 2(1) 3 by (simp_all flip: div_mult2_eq)
qed

lemma sum_of_bytes:
  fixes n :: nat
  assumes "n < 2 ^ 32"
  shows "n mod 256 + 256 * (n div 256 mod 256) + 65536 * (n div 65536 mod 256) + 16777216 * (n div 16777216 mod 256) = n"
proof -
  have "n div 16777216 mod 256 = n div 16777216" using assms by (simp add: less_mult_imp_div_less)
  moreover have "n div 65536 = n div 16777216 * 256 + n div 65536 mod 256"
    using div_mult_mod_eq [of "n div 65536" 256] by (simp flip: div_mult2_eq)
  moreover have "n div 256 = n div 65536 * 256 + n div 256 mod 256"
    using div_mult_mod_eq [of "n div 256" 256] by (simp flip: div_mult2_eq)
  moreover have "n = n div 256 * 256 + n mod 256" by simp
  ultimately show ?thesis by linarith
qed

lemma decode_frame_iff:
  "DecodeLengthPrefixed bytes = Some t \<longleftrightarrow> EncodeLengthPrefixed t = Some bytes \<and> t \<noteq> []"
proof (cases "\<exists>b0 b1 b2 b3 rest. bytes = b0 # b1 # b2 # b3 # rest")
  case True
  then obtain b0 b1 b2 b3 rest where b: "bytes = b0 # b1 # b2 # b3 # rest" by blast
  define n where "n = ord b0 + 256 * ord b1 + 65536 * ord b2 + 16777216 * ord b3"
  have sz: "unat (frame_size bytes) = n" by (simp add: b frame_size_value n_def)
  have lim: "kMaxFrameSize = 1048576" by (simp add: kMaxFrameSize_def kMaxJsonInputBytes_def)
  have plus: "unat (frame_size bytes + 4) = n + 4" if "n \<le> kMaxFrameSize"
    using that sz by (subst unat_add_lem [THEN iffD1]) (simp_all add: lim)
  have zero: "frame_size bytes = 0 \<longleftrightarrow> n = 0" using sz by (simp add: unat_eq_0 [symmetric])
  have d: "DecodeLengthPrefixed bytes = Some t \<longleftrightarrow> t = rest \<and> length rest = n \<and> 0 < n \<and> n \<le> kMaxFrameSize"
    using plus zero sz by (cases "n \<le> kMaxFrameSize") (auto simp: DecodeLengthPrefixed_def Let_def b)
  have e: "length t = n \<Longrightarrow> n \<le> kMaxFrameSize \<Longrightarrow> EncodeLengthPrefixed t = Some (b0 # b1 # b2 # b3 # t)"
  proof -
    assume n: "length t = n" "n \<le> kMaxFrameSize"
    then have "n < 2 ^ 32" by (simp add: lim)
    note bytes = size_byte_value [OF this] 
    have "n div 2 ^ 24 mod 256 = ord b3" using bytes_of_size(4) [OF n_def] by simp
    then have "size_byte (word_of_nat n) 24 = b3" by (simp only: bytes char_of_char)
    moreover have "size_byte (word_of_nat n) 0 = b0" "size_byte (word_of_nat n) 8 = b1" "size_byte (word_of_nat n) 16 = b2"
      using bytes_of_size(1-3) [OF n_def] by (simp_all add: bytes)
    ultimately show ?thesis using n by (simp add: EncodeLengthPrefixed_def Let_def)
  qed
  have inverse: "length t = n" "n \<le> kMaxFrameSize" "t = rest" if "EncodeLengthPrefixed t = Some bytes"
  proof -
    have len: "length t \<le> kMaxFrameSize" and eq: "bytes = [size_byte (word_of_nat (length t)) 0,
        size_byte (word_of_nat (length t)) 8, size_byte (word_of_nat (length t)) 16, size_byte (word_of_nat (length t)) 24] @ t"
      using that by (auto simp: EncodeLengthPrefixed_def Let_def split: if_splits)
    show "t = rest" using eq b by simp
    show "length t = n"
      using eq b len sum_of_bytes [of "length t"] by (simp add: n_def size_byte_value lim)
    then show "n \<le> kMaxFrameSize" using len by simp
  qed
  show ?thesis
  proof
    assume "DecodeLengthPrefixed bytes = Some t"
    then have "t = rest" "length t = n" "0 < n" "n \<le> kMaxFrameSize" using d by simp_all
    then show "EncodeLengthPrefixed t = Some bytes \<and> t \<noteq> []" using e b by auto
  next
    assume a: "EncodeLengthPrefixed t = Some bytes \<and> t \<noteq> []"
    note i = inverse [OF a [THEN conjunct1]]
    then have "0 < n" using a by auto
    then show "DecodeLengthPrefixed bytes = Some t" using i d by simp
  qed
next
  case False
  then have "length bytes < 4" by (cases bytes; cases "tl bytes"; cases "tl (tl bytes)"; cases "tl (tl (tl bytes))") auto
  then show ?thesis using False by (auto simp: DecodeLengthPrefixed_def EncodeLengthPrefixed_def Let_def)
qed

section \<open>Envelopes read back\<close>

text \<open>The object that a serialized envelope prints, its members in key order.\<close>

definition envelope_json :: "json \<Rightarrow> nat \<Rightarrow> string \<Rightarrow> string \<Rightarrow> int \<Rightarrow> json" where
  "envelope_json payload rid trace ty ver =
     JObject [(''payload'', payload), (''request_id'', Value_int (int rid)), (''trace_id'', JString trace),
              (''type'', JString ty), (''version'', Value_int ver)]"

lemma key_plain:
  "EscapeString ''payload'' = ''payload''" "EscapeString ''request_id'' = ''request_id''"
  "EscapeString ''trace_id'' = ''trace_id''" "EscapeString ''type'' = ''type''" "EscapeString ''version'' = ''version''"
  "valid_utf8 ''payload''" "valid_utf8 ''request_id''" "valid_utf8 ''trace_id''" "valid_utf8 ''type''" "valid_utf8 ''version''"
  by (simp_all add: plain_text)

lemma Stringify_Value_int: "\<bar>v\<bar> < 2 ^ 64 \<Longrightarrow> Stringify (Value_int v) = FormatInteger v"
  using Stringify_number [OF FormatInteger_number(1)] by (simp add: Value_int_def)

lemma Stringify_Value_nat: "n < 2 ^ 64 \<Longrightarrow> Stringify (Value_int (int n)) = to_string n"
  by (simp add: Stringify_Value_int FormatInteger_def)

lemma Serialize_eq:
  assumes "payload_json env = Stringify w" "Parse (Stringify w) = Some w" "Stringify w \<noteq> []" "\<bar>version env\<bar> < 2 ^ 64"
  shows "Serialize env = Some (Stringify (envelope_json w (unat (request_id env)) (trace_id env)
    (TypeToString (type env)) (version env)))"
proof -
  have "unat (request_id env) < 2 ^ 64" using unsigned_less [of "request_id env"] by simp
  then have "Stringify (Value_int (int (unat (request_id env)))) = to_string (unat (request_id env))"
    by (rule Stringify_Value_nat)
  then show ?thesis
    using assms TypeToString_plain [of "type env"] Stringify_Value_int [OF assms(4)]
    by (simp add: Serialize_def envelope_json_def in_quotes_def quoted_def key_plain)
qed

lemma envelope_json_wf:
  assumes "json_wf w" "valid_utf8 trace" "valid_utf8 ty" "rid < 2 ^ 64" "\<bar>ver\<bar> < 2 ^ 64"
  shows "json_wf (envelope_json w rid trace ty ver)"
  using assms Value_int_wf [of "int rid"] Value_int_wf [of ver]
  by (simp add: envelope_json_def key_plain map_wf_def less_char_def)

lemma envelope_json_depth: "json_depth (envelope_json w rid trace ty ver) = Suc (json_depth w)"
  by (simp add: envelope_json_def Value_int_def)

lemma Deserialize_printed:
  assumes wf: "json_wf w" "valid_utf8 trace" "valid_utf8 ty" and rid: "rid < 2 ^ 64"
    and ver: "- (2 ^ 63) \<le> ver" "ver < 2 ^ 63"
    and depth: "json_depth w < kMaxJsonNestDepth"
    and len: "length (Stringify (envelope_json w rid trace ty ver)) \<le> kMaxJsonInputBytes"
  shows "Deserialize (Stringify (envelope_json w rid trace ty ver)) =
    (if int_of_int64 ver < 1 \<or> int_of_int64 ver > kEnvelopeVersion then None
     else Some \<lparr>version = int_of_int64 ver, request_id = word_of_nat rid, trace_id = trace,
       type = TypeFromString ty, payload_json = Stringify w\<rparr>)"
proof -
  let ?v = "envelope_json w rid trace ty ver"
  have "json_wf ?v" using wf rid ver by (intro envelope_json_wf) (auto simp: abs_if)
  then have "ParseDocument (Some ''payload'') (Stringify ?v) = Some (?v, raw_of (Some ''payload'') 0 ?v [])"
    using depth len by (intro ParseDocument_printed) (simp_all add: envelope_json_depth)
  moreover have "Stringify w \<noteq> []" using Stringify_starts [OF wf(1)] by (auto simp: starts_value_def)
  then have "raw_of (Some ''payload'') 0 ?v [] = Stringify w"
    by (simp add: envelope_json_def raw_of_def raw_members_def)
  moreover have "GetUInt ?v ''request_id'' = Some rid" "GetInt ?v ''version'' = Some ver"
    using GetUInt_Value_int [of ?v "''request_id''" rid] GetInt_Value_int [of ?v "''version''" ver] rid ver
    by (simp_all add: envelope_json_def)
  moreover have "GetString ?v ''type'' = Some ty" "GetString ?v ''trace_id'' = Some trace"
    by (simp_all add: envelope_json_def GetString_def)
  ultimately show ?thesis using \<open>Stringify w \<noteq> []\<close>
    by (simp add: Deserialize_def ParseWithRawMember_def envelope_json_def Let_def)
qed

section \<open>The wire\<close>

text \<open>What a peer sends and what the other side makes of it.\<close>

definition send_frame :: "Envelope \<Rightarrow> string option" where
  "send_frame env = Option.bind (Serialize env) EncodeLengthPrefixed"

definition receive_frame :: "string \<Rightarrow> Envelope option" where
  "receive_frame bytes = Option.bind (DecodeLengthPrefixed bytes) Deserialize"

lemma sent_frame_received:
  assumes "send_frame env = Some bytes" "payload_json env = Stringify w" "json_wf w"
    and "json_depth w < kMaxJsonNestDepth" "valid_utf8 (trace_id env)" "version env = kEnvelopeVersion"
  shows "receive_frame bytes = Some env"
proof -
  let ?v = "envelope_json w (unat (request_id env)) (trace_id env) (TypeToString (type env)) (version env)"
  have st: "starts_value (Stringify w)" by (rule Stringify_starts [OF assms(3)])
  obtain t where t: "Serialize env = Some t" "EncodeLengthPrefixed t = Some bytes"
    using assms(1) by (auto simp: send_frame_def Option.bind_eq_Some_conv)
  then obtain v where "Parse (Stringify w) = Some v"
    using st assms(2) by (auto simp: Serialize_def starts_value_def split: if_splits)
  then have "length (Stringify w) \<le> kMaxJsonInputBytes"
    by (auto simp: Parse_def ParseDocument_def split: if_splits)
  then have "Parse (Stringify w) = Some w"
    using ParseDocument_printed [OF assms(3)] assms(4) by (simp add: Parse_def)
  then have tv: "t = Stringify ?v"
    using Serialize_eq [OF assms(2)] st t(1) assms(6) by (simp add: starts_value_def kEnvelopeVersion_def)
  have len: "length t \<le> kMaxJsonInputBytes"
    using t(2) by (auto simp: EncodeLengthPrefixed_def kMaxFrameSize_def split: if_splits)
  have "DecodeLengthPrefixed bytes = Some t"
    using t(2) tv decode_frame_iff [of bytes t] by (simp add: envelope_json_def)
  moreover have "unat (request_id env) < 2 ^ 64" using unsigned_less [of "request_id env"] by simp
  then have "Deserialize t = Some env"
    using Deserialize_printed [OF assms(3,5) TypeToString_plain [THEN conjunct1], of "unat (request_id env)" "version env" "type env"]
      assms(2,4,6) len tv
    by (simp add: kEnvelopeVersion_def int_of_int64_def TypeFromString_TypeToString signed_take_bit_eq_if_positive)
  ultimately show ?thesis by (simp add: receive_frame_def)
qed


text \<open>A frame is decoded if and only if it is the encoding of a non-empty text, and then to that
  text: a wrong length, a length above \<open>kMaxFrameSize\<close>, trailing bytes and a length whose sum with
  the four header bytes wraps around 32 bits are all refused.
\<close>

theorem DecodeLengthPrefixed_iff:
  "DecodeLengthPrefixed bytes = Some t \<longleftrightarrow> EncodeLengthPrefixed t = Some bytes \<and> t \<noteq> []"
  by (rule decode_frame_iff)


section \<open>Two limits of the format\<close>

text \<open>Arrays in arrays.\<close>

fun nested :: "nat \<Rightarrow> json" where
  "nested 0 = JNull"
| "nested (Suc n) = JArray [nested n]"

lemma nested_wf: "json_wf (nested n) \<and> json_depth (nested n) = n"
  by (induction n) simp_all

lemma nested_too_deep:
  "d \<le> kMaxJsonNestDepth \<Longrightarrow> kMaxJsonNestDepth < d + n \<Longrightarrow>
     ParseValue member fuel d (Stringify (nested n) @ x) raw = None"
proof (induction n arbitrary: d fuel x)
  case (Suc n)
  show ?case
  proof (cases fuel)
    case (Suc f)
    show ?thesis
    proof (cases "d = kMaxJsonNestDepth")
      case True
      then show ?thesis using Suc by (simp add: ParseValue.simps(2) value_body_def SkipWhitespace_def is_space_def)
    next
      case False
      have st: "starts_value (Stringify (nested n))" using nested_wf [of n] Stringify_starts by blast
      have "ParseArray member f (Suc d) [] (Stringify (nested n) @ CHR '']'' # x) raw = None"
        using Suc.IH [of "Suc d"] Suc.prems False by (cases f) (simp_all add: ParseArray.simps(2) array_body_def)
      moreover have "\<not> at_char (CHR '']'') (Stringify (nested n) @ CHR '']'' # x)"
        using st by (auto simp: at_char_def starts_value_def)
      ultimately show ?thesis using Suc Suc.prems False starts_value_skip [OF st]
        by (simp add: ParseValue.simps(2) value_body_def) (simp add: SkipWhitespace_def is_space_def)
    qed
  qed simp
qed simp

lemma nested_length: "length (Stringify (nested n)) = 4 + 2 * n"
  by (induction n) simp_all

lemma ParseObject_member_fails:
  assumes "valid_utf8 k" "starts_value s" "ParseValue member f d (s @ x) raw = None"
  shows "ParseObject member (Suc f) d obj (quoted k @ CHR '':'' # s @ x) raw = None"
proof -
  have colon: "SkipWhitespace (CHR '':'' # y) = CHR '':'' # y" for y by (simp add: SkipWhitespace_def is_space_def)
  show ?thesis
    unfolding ParseObject.simps(2) object_body_def starts_value_skip [OF quoted_starts] ParseString_quoted [OF assms(1)]
    using assms(3) starts_value_skip [OF assms(2)] by (simp add: colon)
qed

text \<open>
  A payload nested exactly \<open>kMaxJsonNestDepth\<close> deep passes the check of \<open>Serialize\<close>, which parses it
  alone, and is refused by \<open>Deserialize\<close>, which parses it one level deeper.
\<close>

theorem deepest_payload_lost:
  assumes "payload_json env = Stringify (nested kMaxJsonNestDepth)" "version env = kEnvelopeVersion"
  shows "\<exists>t. Serialize env = Some t \<and> Deserialize t = None"
proof -
  let ?w = "nested kMaxJsonNestDepth"
  let ?v = "envelope_json ?w (unat (request_id env)) (trace_id env) (TypeToString (type env)) (version env)"
  have st: "starts_value (Stringify ?w)" using nested_wf Stringify_starts by blast
  have "Parse (Stringify ?w) = Some ?w"
    using ParseDocument_printed [of ?w None] nested_wf nested_length [of kMaxJsonNestDepth]
    by (simp add: Parse_def kMaxJsonNestDepth_def kMaxJsonInputBytes_def)
  then have ser: "Serialize env = Some (Stringify ?v)"
    using assms st by (intro Serialize_eq) (auto simp: starts_value_def kEnvelopeVersion_def)
  obtain rest where body: "Stringify ?v = CHR ''{'' # quoted ''payload'' @ CHR '':'' # Stringify ?w @ rest"
    by (simp add: envelope_json_def)
  have "ParseObject member f 1 [] (quoted ''payload'' @ CHR '':'' # Stringify ?w @ rest) raw = None" for member f raw
  proof (cases f)
    case (Suc g)
    have "ParseValue member g 1 (Stringify ?w @ rest) raw = None"
      by (rule nested_too_deep) (simp_all add: kMaxJsonNestDepth_def)
    then show ?thesis using ParseObject_member_fails [OF key_plain(6) st] Suc by simp
  qed simp
  then have "ParseValue member f 0 (Stringify ?v) raw = None" for member f raw
    using starts_value_skip [OF quoted_starts, of "''payload''"] unfolding body
    by (cases f) (simp_all add: ParseValue.simps(2) value_body_def SkipWhitespace_def is_space_def at_char_def quoted_def Let_def)
  then have "Deserialize (Stringify ?v) = None"
    using starts_value_skip [of "Stringify ?v" "[]"] body
    by (simp add: Deserialize_def ParseWithRawMember_def ParseDocument_def starts_value_def is_space_def)
  with ser show ?thesis by blast
qed

text \<open>
  The version is narrowed to 32 bits before it is checked, so a version that the gate is meant to
  refuse passes it when its low 32 bits are those of the current one.
\<close>

theorem version_gate_wraps:
  "Deserialize (Stringify (envelope_json (JObject []) 7 ''t'' ''Ping'' 4294967297)) =
     Some \<lparr>version = 1, request_id = 7, trace_id = ''t'', type = Ping, payload_json = ''{}''\<rparr>"
proof -
  have len: "length (Stringify (envelope_json (JObject []) 7 ''t'' ''Ping'' 4294967297)) \<le> kMaxJsonInputBytes"
    using length_to_string [of 7 1] length_to_string [of 4294967297 10] EscapeString_length [of "''t''"]
      EscapeString_length [of "''Ping''"]
    by (simp add: envelope_json_def Stringify_Value_int Value_int_def [symmetric] FormatInteger_def quoted_def key_plain
        kMaxJsonInputBytes_def)
  have "TypeFromString ''Ping'' = Ping" using TypeFromString_TypeToString [of Ping] by simp
  then show ?thesis
    using Deserialize_printed [of "JObject []" "''t''" "''Ping''" 7 4294967297] len
    by (simp add: map_wf_def kMaxJsonNestDepth_def plain_text kEnvelopeVersion_def int_of_int64_def
        signed_take_bit_eq_if_positive bit_iff_odd take_bit_eq_mod)
qed

end
