(* ===== verification/PayloadWire.thy ===== *)
theory PayloadWire
  imports DoubleText Messages "HOL-Library.Monad_Syntax"
begin

text \<open>
  JSON values as the program builds them for a message, and what arrives. A value built by the program
  differs from a parsed one in its numbers: a \<open>double\<close> put into a message has no token yet. \<open>wire\<close> is
  the value with the tokens the printer writes. An object is built by successive \<open>emplace\<close>.
\<close>

section \<open>Values that can be sent\<close>

text \<open>A number of the format other than the negative zero, which the printer writes as \<open>0\<close>.\<close>

definition sendable_double :: "double \<Rightarrow> bool" where
  "sendable_double d \<longleftrightarrow> double_wf d \<and> d \<noteq> Finite True 0 (- 1074)"

fun sendable :: "json \<Rightarrow> bool" where
  "sendable (JNumber d token) \<longleftrightarrow> (if token = [] then sendable_double d else number_token token \<and> ParseFiniteDouble token = Some d)"
| "sendable (JString s) \<longleftrightarrow> valid_utf8 s"
| "sendable (JArray vs) \<longleftrightarrow> (\<forall>v \<in> set vs. sendable v)"
| "sendable (JObject ms) \<longleftrightarrow> map_wf ms \<and> (\<forall>(k, v) \<in> set ms. valid_utf8 k \<and> sendable v)"
| "sendable _ \<longleftrightarrow> True"

fun wire :: "json \<Rightarrow> json" where
  "wire (JNumber d token) = JNumber d (StringifyNumber d token)"
| "wire (JArray vs) = JArray (map wire vs)"
| "wire (JObject ms) = JObject (map (\<lambda>(k, v). (k, wire v)) ms)"
| "wire v = v"

lemma StringifyNumber_idem: "StringifyNumber d (StringifyNumber d token) = StringifyNumber d token"
  by (cases "token = []"; cases "StringifyNumber d token = []") (simp_all add: StringifyNumber_def)

lemma Stringify_wire:
  "Stringify (wire v) = Stringify v"
  "stringify_elements b (map wire vs) = stringify_elements b vs"
  "stringify_members b (map (\<lambda>(k, v). (k, wire v)) ms) = stringify_members b ms"
  by (induction v and b vs and b ms rule: Stringify_stringify_elements_stringify_members.induct)
    (simp_all add: StringifyNumber_idem)

lemma json_depth_wire [simp]: "json_depth (wire v) = json_depth v"
proof (induction v rule: wire.induct)
  case (2 vs)
  then have "map (json_depth \<circ> wire) vs = map json_depth vs" by simp
  then show ?case by (simp only: wire.simps json_depth.simps map_map)
next
  case (3 ms)
  then have "map ((\<lambda>(k, v). json_depth v) \<circ> (\<lambda>(k, v). (k, wire v))) ms = map (\<lambda>(k, v). json_depth v) ms" by auto
  then show ?case by (simp only: wire.simps json_depth.simps map_map)
qed simp_all

lemma json_wf_wire: "sendable v \<Longrightarrow> json_wf (wire v)"
proof (induction v rule: wire.induct)
  case (1 d token)
  then show ?case using StringifyNumber_reads_back [of d] by (cases "token = []") (auto simp: sendable_double_def StringifyNumber_def)
next
  case (3 ms)
  have "map fst (map (\<lambda>(k, v). (k, wire v)) ms) = map fst ms" by auto
  then have "map_wf (map (\<lambda>(k, v). (k, wire v)) ms)" using 3(2) by (simp only: map_wf_def sendable.simps)
  then show ?case using 3 by fastforce
qed auto

text \<open>The reader receives what the program built, with the tokens of its numbers.\<close>

lemma Parse_built:
  assumes "sendable v" "json_depth v \<le> kMaxJsonNestDepth" "length (Stringify v) \<le> kMaxJsonInputBytes"
  shows "Parse (Stringify v) = Some (wire v)"
  using ParseDocument_printed [OF json_wf_wire [OF assms(1)], of None] assms(2,3)
  by (simp add: Parse_def Stringify_wire)

section \<open>Reading members\<close>

lemma Find_wire: "Find (wire v) k = map_option wire (Find v k)"
  by (cases v) (simp_all add: map_of_map)

lemma GetString_wire [simp]: "GetString (wire v) k = GetString v k"
  unfolding GetString_def Find_wire by (cases "Find v k"; simp) (case_tac a; simp)

lemma GetBool_wire [simp]: "GetBool (wire v) k = GetBool v k"
  unfolding GetBool_def Find_wire by (cases "Find v k"; simp) (case_tac a; simp)

lemma GetNumber_wire [simp]: "GetNumber (wire v) k = GetNumber v k"
  unfolding GetNumber_def Find_wire by (cases "Find v k"; simp) (case_tac a; simp)

lemma GetArray_wire [simp]: "GetArray (wire v) k = map_option (map wire) (GetArray v k)"
  unfolding GetArray_def Find_wire by (cases "Find v k"; simp) (case_tac a; simp)

section \<open>Building objects\<close>

definition build_object :: "(string \<times> json) list \<Rightarrow> json" where
  "build_object ms = JObject (foldl (\<lambda>obj (k, v). map_emplace k v obj) [] ms)"

text \<open>\<open>if (c) o.emplace(k, v)\<close>, and the same for an \<open>std::optional\<close>.\<close>

definition member_if :: "bool \<Rightarrow> string \<Rightarrow> json \<Rightarrow> (string \<times> json) list" where
  "member_if c k v = (if c then [(k, v)] else [])"

definition member_opt :: "string \<Rightarrow> ('a \<Rightarrow> json) \<Rightarrow> 'a option \<Rightarrow> (string \<times> json) list" where
  "member_opt k f x = (case x of None \<Rightarrow> [] | Some y \<Rightarrow> [(k, f y)])"

definition value_or :: "'a option \<Rightarrow> 'a \<Rightarrow> 'a" where
  "value_or x d = (case x of None \<Rightarrow> d | Some y \<Rightarrow> y)"

lemma value_or_simps [simp]: "value_or None d = d" "value_or (Some y) d = y"
  by (simp_all add: value_or_def)

lemma emplace_all_wf: "map_wf m \<Longrightarrow> map_wf (foldl (\<lambda>obj (k, v). map_emplace k v obj) m ms)"
  by (induction ms arbitrary: m) (auto simp: map_wf_emplace)

lemma emplace_all_find:
  "map_wf m \<Longrightarrow> map_of (foldl (\<lambda>obj (k, v). map_emplace k v obj) m ms) k = (case map_of m k of None \<Rightarrow> map_of ms k | Some v \<Rightarrow> Some v)"
proof (induction ms arbitrary: m)
  case (Cons kv ms)
  then show ?case by (cases kv) (simp add: map_wf_emplace map_of_emplace split: option.splits)
qed (simp split: option.splits)

lemma emplace_all_set: "set (foldl (\<lambda>obj (k, v). map_emplace k v obj) m ms) \<subseteq> set m \<union> set ms"
proof (induction ms arbitrary: m)
  case (Cons kv ms)
  obtain k v where kv: "kv = (k, v)" by fastforce
  show ?case using Cons.IH [of "map_emplace k v m"] set_map_emplace [of k v m] kv by auto
qed simp

text \<open>The member of a key is the first one put in.\<close>

lemma Find_build_object [simp]: "Find (build_object ms) k = map_of ms k"
  by (simp add: build_object_def emplace_all_find map_wf_def)

lemma sendable_build_object:
  assumes "list_all (\<lambda>(k, v). valid_utf8 k \<and> sendable v) ms"
  shows "sendable (build_object ms)"
  using assms emplace_all_set [of "[]" ms] emplace_all_wf [of "[]" ms]
  by (fastforce simp: build_object_def list_all_iff map_wf_def)

lemma depth_build_object:
  assumes "list_all (\<lambda>(k, v). json_depth v \<le> n) ms"
  shows "json_depth (build_object ms) \<le> Suc n"
  unfolding build_object_def depth_object
  using assms emplace_all_set [of "[]" ms] by (fastforce simp: list_all_iff less_Suc_eq_le)

section \<open>Accessors on built objects\<close>

named_theorems reads \<open>reading the members of an object that was built and sent\<close>

definition as_string :: "json option \<Rightarrow> string option" where
  "as_string x = (case x of Some (JString s) \<Rightarrow> Some s | _ \<Rightarrow> None)"

definition as_bool :: "json option \<Rightarrow> bool option" where
  "as_bool x = (case x of Some (JBool b) \<Rightarrow> Some b | _ \<Rightarrow> None)"

definition as_number :: "json option \<Rightarrow> double option" where
  "as_number x = (case x of Some (JNumber d _) \<Rightarrow> Some d | _ \<Rightarrow> None)"

definition as_array :: "json option \<Rightarrow> json list option" where
  "as_array x = (case x of Some (JArray vs) \<Rightarrow> Some vs | _ \<Rightarrow> None)"

definition as_uint :: "json option \<Rightarrow> nat option" where
  "as_uint x = (case x of None \<Rightarrow> None | Some v \<Rightarrow> GetUInt (wire (JObject [([], v)])) [])"

definition as_int :: "json option \<Rightarrow> int option" where
  "as_int x = (case x of None \<Rightarrow> None | Some v \<Rightarrow> GetInt (wire (JObject [([], v)])) [])"

lemma as_simps [simp]:
  "as_string None = None" "as_string (Some (JString s)) = Some s" "as_string (Some (JBool b)) = None"
  "as_bool None = None" "as_bool (Some (JBool b)) = Some b"
  "as_number None = None" "as_number (Some (Value_double d)) = Some d"
  "as_array None = None" "as_array (Some (JArray vs)) = Some vs"
  "as_uint None = None" "as_int None = None"
  by (simp_all add: as_string_def as_bool_def as_number_def as_array_def as_uint_def as_int_def Value_double_def)

lemma wire_Value_int: "\<bar>v\<bar> < 2 ^ 64 \<Longrightarrow> wire (Value_int v) = Value_int v"
  using FormatInteger_number(1) [of v] by (simp add: Value_int_def Stringify_number)

lemma as_uint_Value_int [simp]: "n < 2 ^ 64 \<Longrightarrow> as_uint (Some (Value_int (int n))) = Some n"
  by (simp add: as_uint_def wire_Value_int GetUInt_Value_int)

lemma as_int_Value_int [simp]: "- (2 ^ 63) \<le> n \<Longrightarrow> n < 2 ^ 63 \<Longrightarrow> as_int (Some (Value_int n)) = Some n"
  by (simp add: as_int_def wire_Value_int GetInt_Value_int)

lemma reads_built [reads]:
  "GetString (build_object ms) k = as_string (map_of ms k)"
  "GetBool (build_object ms) k = as_bool (map_of ms k)"
  "GetNumber (build_object ms) k = as_number (map_of ms k)"
  "GetArray (build_object ms) k = as_array (map_of ms k)"
  by (simp_all add: GetString_def GetBool_def GetNumber_def GetArray_def as_string_def as_bool_def as_number_def as_array_def)

lemma reads_uint [reads]:
  "GetUInt (wire (build_object ms)) k = as_uint (map_of ms k)"
  "GetInt (wire (build_object ms)) k = as_int (map_of ms k)"
  by (cases "map_of ms k"; simp add: GetUInt_def GetInt_def as_uint_def as_int_def Find_wire)+

lemma map_of_member_if [simp]:
  "map_of (member_if c k v @ ms) k' = (if c \<and> k' = k then Some v else map_of ms k')"
  "map_of (member_if c k v) k' = (if c \<and> k' = k then Some v else None)"
  by (simp_all add: member_if_def)

lemma map_of_member_opt [simp]:
  "map_of (member_opt k f x @ ms) k' = (if k' = k \<and> x \<noteq> None then map_option f x else map_of ms k')"
  "map_of (member_opt k f x) k' = (if k' = k then map_option f x else None)"
  by (cases x; simp add: member_opt_def)+

section \<open>Scores are exact\<close>

text \<open>A number in a message is received bit for bit: for every finite double but the negative zero,
  the text the printer writes, the shortest decimal or an integer, is read back as the same double.\<close>

theorem double_roundtrip:
  assumes "sendable_double d"
  shows "Option.bind (Parse (Stringify (build_object [(''score'', Value_double d)]))) (\<lambda>v. GetNumber v ''score'') = Some d"
proof -
  let ?v = "build_object [(''score'', Value_double d)]"
  have "valid_utf8 ''score''" by (simp add: plain_text)
  then have "sendable ?v" using assms by (intro sendable_build_object) (simp add: Value_double_def)
  moreover have "json_depth ?v \<le> Suc 0" by (rule depth_build_object) (simp add: Value_double_def)
  then have "json_depth ?v \<le> kMaxJsonNestDepth" by (simp add: kMaxJsonNestDepth_def)
  moreover have "length (Stringify ?v) \<le> kMaxJsonInputBytes"
    using StringifyNumber_reads_back(3) [of d] assms plain_text [of "''score''"]
    by (simp add: build_object_def Value_double_def quoted_def kMaxJsonInputBytes_def sendable_double_def)
  ultimately show ?thesis by (simp add: Parse_built reads)
qed

theorem double_roundtrip_witness:
  "Option.bind (Parse (Stringify (build_object [(''score'', Value_double (Finite False 7205759403792794 (- 56)))])))
     (\<lambda>v. GetNumber v ''score'') = Some (Finite False 7205759403792794 (- 56))"
  by (rule double_roundtrip) (simp add: sendable_double_def)

end
