(* ===== verification/Tsv.thy ===== *)
theory Tsv
  imports StdText
begin

text \<open>
  The line loop that the readers of the user's tab-separated files share
  (\<open>core/src/BracketTable.cpp\<close>, \<open>core/src/PunctuationRules.cpp\<close>): a byte order mark is skipped, the
  text is cut at line feeds, a final carriage return of a line is dropped, lines are numbered from
  one, and a last line without line feed counts only if it is not empty. A reader is the function
  that folds one numbered line into its state; the locale \<open>line_reader\<close> is the contract by which an
  invariant of the state survives a whole file.
\<close>

definition strip_bom :: "string \<Rightarrow> string" where
  "strip_bom tsv = (if take 3 tsv = [CHR 0xef, CHR 0xbb, CHR 0xbf] then drop 3 tsv else tsv)"

definition strip_cr :: "string \<Rightarrow> string" where
  "strip_cr line = (if line \<noteq> [] \<and> last line = CHR 0x0d then butlast line else line)"

function tsv_lines :: "string \<Rightarrow> string list" where
  "tsv_lines tsv =
     (if tsv = [] then []
      else case find_char (CHR 0x0a) tsv of
             None \<Rightarrow> [strip_cr tsv]
           | Some e \<Rightarrow> strip_cr (take e tsv) # tsv_lines (drop (e + 1) tsv))"
  by pat_completeness auto
termination
  by (relation "measure length") auto

declare tsv_lines.simps [simp del]

fun load_lines :: "(nat \<Rightarrow> string \<Rightarrow> 's \<Rightarrow> 's) \<Rightarrow> nat \<Rightarrow> string list \<Rightarrow> 's \<Rightarrow> 's" where
  "load_lines step n [] s = s"
| "load_lines step n (line # ls) s = load_lines step (n + 1) ls (step n line s)"

definition load_tsv :: "(nat \<Rightarrow> string \<Rightarrow> 's \<Rightarrow> 's) \<Rightarrow> string \<Rightarrow> 's \<Rightarrow> 's" where
  "load_tsv step tsv s = load_lines step 1 (tsv_lines (strip_bom tsv)) s"

section \<open>The contract of a reader\<close>

text \<open>
  A reader keeps an invariant of what it builds, and it reports only the line at hand. What follows
  for a file: the invariant holds at its end, and the reported lines are in increasing order and
  lines of the file.
\<close>

locale line_reader =
  fixes step :: "nat \<Rightarrow> string \<Rightarrow> 's \<Rightarrow> 's"
    and keeps :: "'s \<Rightarrow> bool"
    and reported :: "'s \<Rightarrow> nat list"
  assumes step_keeps: "keeps s \<Longrightarrow> keeps (step n line s)"
    and step_reports: "reported (step n line s) = reported s \<or> reported (step n line s) = reported s @ [n]"
begin

lemma load_lines_keeps: "keeps s \<Longrightarrow> keeps (load_lines step n ls s)"
  by (induction ls arbitrary: n s) (simp_all add: step_keeps)

lemma load_tsv_keeps: "keeps s \<Longrightarrow> keeps (load_tsv step tsv s)"
  by (simp add: load_tsv_def load_lines_keeps)

lemma load_lines_reports:
  "sorted_wrt (<) (reported s) \<Longrightarrow> \<forall>k \<in> set (reported s). k < n \<Longrightarrow>
     sorted_wrt (<) (reported (load_lines step n ls s)) \<and>
     (\<forall>k \<in> set (reported (load_lines step n ls s)). k < n + length ls)"
proof (induction ls arbitrary: n s)
  case (Cons line ls)
  have "sorted_wrt (<) (reported (step n line s))" "\<forall>k \<in> set (reported (step n line s)). k < n + 1"
    using step_reports [of n line s] Cons.prems by (fastforce simp: sorted_wrt_append)+
  then show ?case using Cons.IH [of "step n line s" "n + 1"] by simp
qed simp

lemma load_tsv_reports:
  "reported s = [] \<Longrightarrow> sorted_wrt (<) (reported (load_tsv step tsv s)) \<and>
     (\<forall>k \<in> set (reported (load_tsv step tsv s)). k \<le> length (tsv_lines (strip_bom tsv)))"
  using load_lines_reports [of s 1 "tsv_lines (strip_bom tsv)"] by (auto simp: load_tsv_def)

end

end
