(* ===== verification/LiveCarry.thy ===== *)
theory LiveCarry
  imports Utf8
begin

text \<open>
  Carrying a live conversion answer over to a changed reading (\<open>tsf-tip/src/LiveCarry.cpp\<close>): the
  answer is cut into pieces of reading and surface, and while the answer for the new reading is on
  its way the longest converted start that the new reading still begins with is kept.

  The dynamic program of \<open>AlignSegment\<close> fills its table row by row from the last unit; a row is a
  list here. Of a segment only the fields the code reads are modelled.
\<close>

record Codepoint =
  cp_value :: codepoint
  cp_text :: string

record LiveSegment =
  seg_auto_punctuation :: bool
  seg_surface :: string
  seg_reading :: string

record LivePiece =
  piece_reading :: string
  piece_surface :: string
  auto_punctuation :: bool
  cut_after :: bool

definition empty_piece :: LivePiece where
  "empty_piece = \<lparr>piece_reading = [], piece_surface = [], auto_punctuation = False, cut_after = False\<rparr>"

record CarriedLiveText =
  carried_surface :: string
  reading_bytes :: nat

lemma DecodeNextUtf8_step: "i < length s \<Longrightarrow> i < fst (snd (DecodeNextUtf8 s i cp))"
  by (auto simp: DecodeNextUtf8_def Let_def split: option.splits)

text \<open>The loop of \<open>SplitCodepoints\<close> from an offset; a byte that decodes to nothing is kept as its own
  value.\<close>

function split_from :: "string \<Rightarrow> nat \<Rightarrow> Codepoint list" where
  "split_from text start =
     (if start < length text then
        (let offset = fst (snd (DecodeNextUtf8 text start 0));
             v = snd (snd (DecodeNextUtf8 text start 0))
         in \<lparr>cp_value = v, cp_text = take (offset - start) (drop start text)\<rparr> # split_from text offset)
      else [])"
  by pat_completeness auto
termination
proof (relation "measure (\<lambda>(text, start). length text - start)", goal_cases)
  case (2 s start)
  then show ?case using DecodeNextUtf8_step [of start s 0] by simp
qed simp

declare split_from.simps [simp del]

definition SplitCodepoints :: "string \<Rightarrow> Codepoint list" where
  "SplitCodepoints text = split_from text 0"

definition KanaKey :: "codepoint \<Rightarrow> codepoint option" where
  "KanaKey c =
     (if c \<ge> 0x3041 \<and> c \<le> 0x3094 then Some c
      else if c \<ge> 0x30A1 \<and> c \<le> 0x30F4 then Some (c - 0x60)
      else if c = 0x30FC then Some c
      else None)"

definition kMaxAlignedCodepoints :: nat where
  "kMaxAlignedCodepoints = 64"

section \<open>Aligning a segment\<close>

record align_unit =
  unit_text :: string
  kana :: "codepoint option"

definition add_unit :: "align_unit list \<Rightarrow> Codepoint \<Rightarrow> align_unit list" where
  "add_unit units c =
     (let key = KanaKey (cp_value c) in
      if key \<noteq> None \<or> units = [] \<or> kana (last units) \<noteq> None
      then units @ [\<lparr>unit_text = cp_text c, kana = key\<rparr>]
      else butlast units @ [(last units)\<lparr>unit_text := unit_text (last units) @ cp_text c\<rparr>])"

definition build_units :: "Codepoint list \<Rightarrow> align_unit list" where
  "build_units shown = foldl add_unit [] shown"

text \<open>\<open>for (end = j + 1; end <= typed_count && total < 2; ++end) total += at(i + 1, end);\<close>\<close>

function run_total :: "nat list \<Rightarrow> nat \<Rightarrow> nat \<Rightarrow> nat \<Rightarrow> nat" where
  "run_total row typed_count stop sum_so_far =
     (if stop \<le> typed_count \<and> sum_so_far < 2 then run_total row typed_count (stop + 1) (sum_so_far + row ! stop)
      else sum_so_far)"
  by pat_completeness auto
termination
  by (relation "measure (\<lambda>(row, typed_count, stop, sum_so_far). Suc typed_count - stop)") auto

declare run_total.simps [simp del]

text \<open>One row of the table, from the row below it.\<close>

definition ways_cell :: "Codepoint list \<Rightarrow> align_unit \<Rightarrow> nat list \<Rightarrow> nat \<Rightarrow> nat" where
  "ways_cell typed u below j =
     min 2 (if kana u \<noteq> None
            then (if j < length typed \<and> KanaKey (cp_value (typed ! j)) = kana u then below ! (j + 1) else 0)
            else run_total below (length typed) (j + 1) 0)"

fun ways :: "Codepoint list \<Rightarrow> align_unit list \<Rightarrow> nat list" where
  "ways typed [] = replicate (length typed) 0 @ [1]"
| "ways typed (u # us) = map (ways_cell typed u (ways typed us)) [0..<Suc (length typed)]"

text \<open>\<open>while (at(i + 1, end) == 0) ++end;\<close> bounded by the end of the row.\<close>

fun first_nonzero :: "nat list \<Rightarrow> nat \<Rightarrow> nat" where
  "first_nonzero [] stop = stop"
| "first_nonzero (w # ws) stop = (if w = 0 then first_nonzero ws (Suc stop) else stop)"

text \<open>The last loop: one piece per unit, from position \<open>j\<close> of the reading.\<close>

fun cut_pieces :: "Codepoint list \<Rightarrow> align_unit list \<Rightarrow> nat \<Rightarrow> LivePiece list" where
  "cut_pieces typed [] j = []"
| "cut_pieces typed (u # us) j =
     (let stop = (if kana u \<noteq> None then j + 1
                  else first_nonzero (drop (j + 1) (ways typed us)) (j + 1))
      in \<lparr>piece_reading = concat (map cp_text (take (stop - j) (drop j typed))),
          piece_surface = unit_text u, auto_punctuation = False, cut_after = kana u \<noteq> None\<rparr> #
         cut_pieces typed us stop)"

definition AlignSegment :: "string \<Rightarrow> string \<Rightarrow> LivePiece list" where
  "AlignSegment rd sf =
     (let typed = SplitCodepoints rd;
          units = build_units (SplitCodepoints sf);
          unit_count = length units;
          typed_count = length typed
      in if unit_count = 0 \<or> typed_count = 0 \<or> unit_count > kMaxAlignedCodepoints \<or>
            typed_count > kMaxAlignedCodepoints then []
         else if ways typed units ! 0 \<noteq> 1 then []
         else let pieces = cut_pieces typed units 0
              in butlast pieces @ [(last pieces)\<lparr>cut_after := True\<rparr>])"

section \<open>Pieces of an answer\<close>

definition segments_usable :: "string \<Rightarrow> string \<Rightarrow> LiveSegment list \<Rightarrow> bool" where
  "segments_usable rd sf segments \<longleftrightarrow>
     segments \<noteq> [] \<and>
     list_all (\<lambda>seg. seg_auto_punctuation seg \<or> seg_reading seg \<noteq> []) segments \<and>
     concat (map (\<lambda>seg. if seg_auto_punctuation seg then [] else seg_reading seg) segments) = rd \<and>
     concat (map seg_surface segments) = sf"

definition segment_pieces :: "LiveSegment \<Rightarrow> LivePiece list" where
  "segment_pieces seg =
     (if seg_auto_punctuation seg
      then [empty_piece\<lparr>piece_surface := seg_surface seg, auto_punctuation := True\<rparr>]
      else let aligned = AlignSegment (seg_reading seg) (seg_surface seg) in
        if aligned = []
        then [empty_piece\<lparr>piece_reading := seg_reading seg, piece_surface := seg_surface seg,
                cut_after := True\<rparr>]
        else aligned)"

definition BuildLivePieces :: "string \<Rightarrow> string \<Rightarrow> LiveSegment list \<Rightarrow> bool \<Rightarrow> LivePiece list" where
  "BuildLivePieces rd sf segments auto_punct =
     (if rd = [] \<or> sf = [] then []
      else if \<not> segments_usable rd sf segments \<and> auto_punct then []
      else let whole = [\<lparr>seg_auto_punctuation = False, seg_surface = sf, seg_reading = rd\<rparr>]
           in concat (map segment_pieces (if segments_usable rd sf segments then segments else whole)))"

text \<open>The loop of \<open>CarryLiveText\<close>.\<close>

fun carry_loop :: "string \<Rightarrow> LivePiece list \<Rightarrow> string \<Rightarrow> string \<Rightarrow> nat \<Rightarrow> CarriedLiveText \<Rightarrow> CarriedLiveText" where
  "carry_loop typed [] kept marks consumed best = best"
| "carry_loop typed (p # ps) kept marks consumed best =
     (if auto_punctuation p then carry_loop typed ps kept (marks @ piece_surface p) consumed best
      else if piece_reading p = [] \<or>
              take (length (piece_reading p)) (drop consumed typed) \<noteq> piece_reading p then best
      else let kept' = kept @ marks @ piece_surface p;
               consumed' = consumed + length (piece_reading p)
           in carry_loop typed ps kept' [] consumed'
                (if cut_after p then \<lparr>carried_surface = kept', reading_bytes = consumed'\<rparr> else best))"

definition CarryLiveText :: "LivePiece list \<Rightarrow> string \<Rightarrow> CarriedLiveText" where
  "CarryLiveText pieces typed =
     carry_loop typed pieces [] [] 0 \<lparr>carried_surface = [], reading_bytes = 0\<rparr>"

section \<open>Nothing is lost\<close>

lemma split_from_concat: "concat (map cp_text (split_from s i)) = drop i s"
proof (induction s i rule: split_from.induct)
  case (1 s i)
  show ?case
  proof (cases "i < length s")
    case True
    let ?j = "fst (snd (DecodeNextUtf8 s i 0))"
    have "i < ?j" using DecodeNextUtf8_step [OF True] .
    then have "take (?j - i) (drop i s) @ drop ?j s = drop i s"
      by (metis append_take_drop_id drop_drop le_add_diff_inverse2 less_imp_le)
    then show ?thesis using 1 [OF True refl refl] True by (subst split_from.simps) (simp add: Let_def)
  qed (simp add: split_from.simps)
qed

lemma SplitCodepoints_concat: "concat (map cp_text (SplitCodepoints s)) = s"
  by (simp add: SplitCodepoints_def split_from_concat)

lemma add_unit_text: "concat (map unit_text (add_unit us c)) = concat (map unit_text us) @ cp_text c"
proof (cases us rule: rev_cases)
  case (snoc vs v)
  then show ?thesis by (simp add: add_unit_def Let_def)
qed (simp add: add_unit_def Let_def)

lemma build_units_text: "concat (map unit_text (build_units cs)) = concat (map cp_text cs)"
proof -
  have "concat (map unit_text (foldl add_unit us cs)) = concat (map unit_text us) @ concat (map cp_text cs)" for us
    by (induction cs arbitrary: us) (simp_all add: add_unit_text)
  then show ?thesis by (simp add: build_units_def)
qed

lemma length_ways [simp]: "length (ways typed us) = Suc (length typed)"
  by (cases us) simp_all

lemma first_nonzero_spec:
  "\<exists>w \<in> set ws. w \<noteq> 0 \<Longrightarrow> \<exists>d. first_nonzero ws stop = stop + d \<and> d < length ws \<and> ws ! d \<noteq> 0"
proof (induction ws arbitrary: stop)
  case (Cons w ws)
  show ?case
  proof (cases "w = 0")
    case True
    then obtain d where "first_nonzero ws (Suc stop) = Suc stop + d" "d < length ws" "ws ! d \<noteq> 0"
      using Cons.IH [of "Suc stop"] Cons.prems True by auto
    then show ?thesis using True by (intro exI [of _ "Suc d"]) simp
  qed (simp add: exI [of _ 0])
qed simp

text \<open>Where the table has a way, the walk finds its way to the end of the reading.\<close>

lemma cut_pieces_lossless:
  "j \<le> length typed \<Longrightarrow> ways typed us ! j \<noteq> 0 \<Longrightarrow>
     concat (map piece_reading (cut_pieces typed us j)) = concat (map cp_text (drop j typed)) \<and>
     concat (map piece_surface (cut_pieces typed us j)) = concat (map unit_text us)"
proof (induction us arbitrary: j)
  case Nil
  then have "j = length typed" by (auto simp: nth_append split: if_splits)
  then show ?case by simp
next
  case (Cons u us)
  let ?stop = "if kana u \<noteq> None then j + 1 else first_nonzero (drop (j + 1) (ways typed us)) (j + 1)"
  have cell: "ways_cell typed u (ways typed us) j \<noteq> 0"
    using Cons.prems by (simp add: nth_append del: upt_Suc)
  have s: "j < ?stop \<and> ?stop \<le> length typed \<and> ways typed us ! ?stop \<noteq> 0"
  proof (cases "kana u")
    case None
    then have "run_total (ways typed us) (length typed) (j + 1) 0 \<noteq> 0"
      using cell by (simp add: ways_cell_def)
    moreover have "run_total (ways typed us) (length typed) (j + 1) 0 = 0"
      if "\<forall>w \<in> set (drop (j + 1) (ways typed us)). w = 0"
    proof -
      have z: "j + 1 \<le> k \<Longrightarrow> k \<le> length typed \<Longrightarrow> ways typed us ! k = 0" for k
      proof -
        assume k: "j + 1 \<le> k" "k \<le> length typed"
        have "drop (j + 1) (ways typed us) ! (k - (j + 1)) \<in> set (drop (j + 1) (ways typed us))"
          using k by (intro nth_mem) simp
        then show "ways typed us ! k = 0" using that k by simp
      qed
      have "run_total (ways typed us) (length typed) i 0 = 0" if "j + 1 \<le> i" for i
        using that z
        by (induction "Suc (length typed) - i" arbitrary: i) (subst run_total.simps, simp)+
      then show ?thesis by simp
    qed
    ultimately have "\<exists>w \<in> set (drop (j + 1) (ways typed us)). w \<noteq> 0" by fastforce
    then obtain d where d: "first_nonzero (drop (j + 1) (ways typed us)) (j + 1) = j + 1 + d"
      "d < length (drop (j + 1) (ways typed us))" "drop (j + 1) (ways typed us) ! d \<noteq> 0"
      using first_nonzero_spec [of "drop (j + 1) (ways typed us)" "j + 1"] by blast
    then show ?thesis using None by auto
  next
    case (Some k)
    then show ?thesis using cell by (auto simp: ways_cell_def split: if_splits)
  qed
  have IH: "concat (map piece_reading (cut_pieces typed us ?stop)) = concat (map cp_text (drop ?stop typed)) \<and>
      concat (map piece_surface (cut_pieces typed us ?stop)) = concat (map unit_text us)"
    using Cons.IH [of ?stop] s by blast
  have "take (?stop - j) (drop j typed) @ drop ?stop typed = drop j typed"
    using s by (metis append_take_drop_id drop_drop le_add_diff_inverse2 less_imp_le)
  then have "concat (map cp_text (take (?stop - j) (drop j typed))) @ concat (map cp_text (drop ?stop typed)) =
      concat (map cp_text (drop j typed))"
    by (metis concat_append map_append)
  then show ?case using IH by (simp only: cut_pieces.simps Let_def list.map concat.simps LivePiece.simps)
qed

lemma AlignSegment_lossless:
  assumes "AlignSegment rd sf \<noteq> []"
  shows "concat (map piece_reading (AlignSegment rd sf)) = rd \<and>
    concat (map piece_surface (AlignSegment rd sf)) = sf \<and>
    list_all (\<lambda>p. \<not> auto_punctuation p) (AlignSegment rd sf)"
proof -
  let ?typed = "SplitCodepoints rd" and ?units = "build_units (SplitCodepoints sf)"
  let ?pieces = "cut_pieces ?typed ?units 0"
  have a: "AlignSegment rd sf = butlast ?pieces @ [(last ?pieces)\<lparr>cut_after := True\<rparr>]"
    and w: "ways ?typed ?units ! 0 = 1" and u: "?units \<noteq> []"
    using assms by (auto simp: AlignSegment_def Let_def split: if_splits)
  have ne: "?pieces \<noteq> []" using u by (cases ?units) (simp_all add: Let_def)
  have l: "concat (map piece_reading ?pieces) = rd" "concat (map piece_surface ?pieces) = sf"
    using cut_pieces_lossless [of 0 ?typed ?units] w
    by (simp_all add: SplitCodepoints_concat build_units_text)
  have split: "concat (map f (butlast ?pieces)) @ f (last ?pieces) = concat (map f ?pieces)"
    for f :: "LivePiece \<Rightarrow> string"
    using ne by (rule concat_map_butlast)
  have plain: "list_all (\<lambda>p. \<not> auto_punctuation p) (cut_pieces t us j)" for t us j
    by (induction us arbitrary: j) (simp_all add: Let_def)
  have "list_all (\<lambda>p. \<not> auto_punctuation p) (butlast ?pieces)" "\<not> auto_punctuation (last ?pieces)"
    using plain [of ?typed ?units 0] ne by (auto simp: list_all_iff dest: in_set_butlastD)
  then show ?thesis
    using l split [of piece_reading] split [of piece_surface] by (simp add: a)
qed

lemma segment_pieces_lossless:
  "concat (map piece_surface (segment_pieces seg)) = seg_surface seg \<and>
   concat (map piece_reading (segment_pieces seg)) = (if seg_auto_punctuation seg then [] else seg_reading seg)"
  using AlignSegment_lossless [of "seg_reading seg" "seg_surface seg"]
  by (auto simp: segment_pieces_def Let_def empty_piece_def)

lemma pieces_lossless:
  "concat (map piece_surface (concat (map segment_pieces segs))) = concat (map seg_surface segs) \<and>
   concat (map piece_reading (concat (map segment_pieces segs))) =
     concat (map (\<lambda>seg. if seg_auto_punctuation seg then [] else seg_reading seg) segs)"
  by (induction segs) (simp_all add: segment_pieces_lossless)

text \<open>C27: The pieces of an answer spell it exactly: if there are any, their surfaces put together are
  the surface of the answer and their readings the reading it was made for.\<close>

theorem BuildLivePieces_lossless:
  assumes "BuildLivePieces rd sf segments auto_punct = pieces" "pieces \<noteq> []"
  shows "concat (map piece_surface pieces) = sf \<and> concat (map piece_reading pieces) = rd"
  using assms pieces_lossless [of segments]
    pieces_lossless [of "[\<lparr>seg_auto_punctuation = False, seg_surface = sf, seg_reading = rd\<rparr>]"]
  by (auto simp: BuildLivePieces_def Let_def segments_usable_def split: if_splits)

theorem BuildLivePieces_lossless_witness:
  "concat (map piece_reading (BuildLivePieces ''ab'' ''XY''
     [\<lparr>seg_auto_punctuation = False, seg_surface = ''X'', seg_reading = ''a''\<rparr>,
      \<lparr>seg_auto_punctuation = False, seg_surface = ''Y'', seg_reading = ''b''\<rparr>] True)) = ''ab''"
proof -
  let ?segs = "[\<lparr>seg_auto_punctuation = False, seg_surface = ''X'', seg_reading = ''a''\<rparr>,
      \<lparr>seg_auto_punctuation = False, seg_surface = ''Y'', seg_reading = ''b''\<rparr>]"
  have "BuildLivePieces ''ab'' ''XY'' ?segs True \<noteq> []"
    by (simp add: BuildLivePieces_def segments_usable_def segment_pieces_def Let_def)
  then show ?thesis using BuildLivePieces_lossless [OF refl] by blast
qed

section \<open>What is carried\<close>

text \<open>The pieces that a carried text stands for: an initial part of the answer, up to a cut.\<close>

lemma carry_loop_sound:
  assumes "kept @ marks = concat (map piece_surface done_pieces)"
    and "consumed \<le> length typed" "take consumed typed = concat (map piece_reading done_pieces)"
    and "\<exists>n. carried_surface best = concat (map piece_surface (take n (done_pieces @ ps))) \<and>
      take (reading_bytes best) typed = concat (map piece_reading (take n (done_pieces @ ps))) \<and>
      reading_bytes best \<le> length typed"
    and "list_all (\<lambda>p. auto_punctuation p \<longrightarrow> piece_reading p = []) ps"
  shows "\<exists>n. carried_surface (carry_loop typed ps kept marks consumed best) =
        concat (map piece_surface (take n (done_pieces @ ps))) \<and>
      take (reading_bytes (carry_loop typed ps kept marks consumed best)) typed =
        concat (map piece_reading (take n (done_pieces @ ps))) \<and>
      reading_bytes (carry_loop typed ps kept marks consumed best) \<le> length typed"
  using assms
proof (induction typed ps kept marks consumed best arbitrary: done_pieces rule: carry_loop.induct)
  case (1 typed kept marks consumed best)
  then show ?case by simp
next
  case (2 typed p ps kept marks consumed best)
  let ?stop = "piece_reading p = [] \<or> take (length (piece_reading p)) (drop consumed typed) \<noteq> piece_reading p"
  let ?kept = "kept @ marks @ piece_surface p" and ?consumed = "consumed + length (piece_reading p)"
  consider (mark) "auto_punctuation p" | (stop) "\<not> auto_punctuation p" ?stop
    | (go) "\<not> auto_punctuation p" "\<not> ?stop" by blast
  then show ?case
  proof cases
    case mark
    have "piece_reading p = []" using 2(7) mark by simp
    then show ?thesis
      using 2(1) [OF mark, of "done_pieces @ [p]"] mark 2(3-7) by simp
  next
    case stop
    then show ?thesis using 2(6) by auto
  next
    case go
    have t: "take ?consumed typed = concat (map piece_reading (done_pieces @ [p]))"
      using go 2(5) by (simp add: take_add)
    have le: "?consumed \<le> length typed"
      using go 2(4) by (metis add_le_imp_le_diff diff_diff_cancel diff_le_self le_diff_conv2 length_drop
          length_take min.cobounded1 nat_add_left_cancel_le le_add_diff_inverse)
    have k: "?kept @ [] = concat (map piece_surface (done_pieces @ [p]))" using 2(3) by simp
    have b: "\<exists>n. carried_surface (if cut_after p then \<lparr>carried_surface = ?kept, reading_bytes = ?consumed\<rparr> else best) =
          concat (map piece_surface (take n ((done_pieces @ [p]) @ ps))) \<and>
        take (reading_bytes (if cut_after p then \<lparr>carried_surface = ?kept, reading_bytes = ?consumed\<rparr> else best)) typed =
          concat (map piece_reading (take n ((done_pieces @ [p]) @ ps))) \<and>
        reading_bytes (if cut_after p then \<lparr>carried_surface = ?kept, reading_bytes = ?consumed\<rparr> else best) \<le> length typed"
    proof (cases "cut_after p")
      case True
      then show ?thesis using k t le by (intro exI [of _ "length (done_pieces @ [p])"]) simp
    next
      case False
      then show ?thesis using 2(6) by simp
    qed
    show ?thesis
      using 2(2) [OF go refl refl k le t b] 2(7) go by (simp add: Let_def)
  qed
qed

lemma segment_pieces_marks:
  "list_all (\<lambda>p. auto_punctuation p \<longrightarrow> piece_reading p = []) (segment_pieces seg)"
  using AlignSegment_lossless [of "seg_reading seg" "seg_surface seg"]
  by (auto simp: segment_pieces_def Let_def empty_piece_def list_all_iff)

lemma BuildLivePieces_marks:
  "list_all (\<lambda>p. auto_punctuation p \<longrightarrow> piece_reading p = []) (BuildLivePieces rd sf segments ap)"
proof -
  have "list_all (\<lambda>p. auto_punctuation p \<longrightarrow> piece_reading p = []) (concat (map segment_pieces segs))" for segs
    by (induction segs) (simp_all add: segment_pieces_marks)
  then show ?thesis by (simp add: BuildLivePieces_def Let_def)
qed

text \<open>What is carried over belongs to the typed reading: it is the surface of some initial pieces
  of the answer whose readings are exactly the first bytes of the typed reading that are counted.\<close>

theorem CarryLiveText_sound:
  "\<exists>n. carried_surface (CarryLiveText (BuildLivePieces rd sf segments ap) typed) =
      concat (map piece_surface (take n (BuildLivePieces rd sf segments ap))) \<and>
    take (reading_bytes (CarryLiveText (BuildLivePieces rd sf segments ap) typed)) typed =
      concat (map piece_reading (take n (BuildLivePieces rd sf segments ap))) \<and>
    reading_bytes (CarryLiveText (BuildLivePieces rd sf segments ap) typed) \<le> length typed"
  using carry_loop_sound [of "[]" "[]" "[]" 0 typed "\<lparr>carried_surface = [], reading_bytes = 0\<rparr>"
      "BuildLivePieces rd sf segments ap"] BuildLivePieces_marks [of rd sf segments ap]
  by (force simp: CarryLiveText_def intro: exI [of _ 0])

end
