(* ===== verification/PunctuationRules.thy ===== *)
theory PunctuationRules
  imports Tsv DoubleArith LiveCarry
begin

text \<open>
  The policy of automatic punctuation (\<open>core/src/PunctuationRules.cpp\<close>): the built-in rules, the
  user's rules read from a tab-separated file over them, and the guards of a rule. The file's lines
  are folded by the line loop of \<open>Tsv\<close>. Japanese literals are given by their code points. The score
  of a line is read by \<open>std::from_chars\<close>; a line is accepted only when the numeral is the whole field
  and its value is finite, so of the inputs of \<open>from_chars\<close> only decimal numerals matter here.
\<close>

section \<open>Types\<close>

datatype SegmentPos =
    PosUnknown | Taigen | Yougen | JoshiCase | JoshiConj | JoshiOther | Setsuzoku | Jodoushi | HojoYougen | Rentai
  | Fukushi | Kigou | English

datatype SegmentSemantic =
    SemUnknown | Generic | PersonName | PlaceName | OrgName | ProductName | DateTime | NumberSem

datatype PunctuationKind = Comma | Period

datatype GuardField = PrevPos | NextHeadPos | PrevSem | NextHeadSem | SentenceFinal

record PunctuationGuard =
  guard_field :: GuardField
  not_equal :: bool
  guard_pos :: SegmentPos
  guard_sem :: SegmentSemantic

definition empty_guard :: PunctuationGuard where
  "empty_guard = \<lparr>guard_field = SentenceFinal, not_equal = False, guard_pos = PosUnknown, guard_sem = SemUnknown\<rparr>"

record PunctuationRule =
  rule_kind :: PunctuationKind
  rule_match :: string
  base_score :: double
  guards :: "PunctuationGuard list"

section \<open>Reading a rule\<close>

definition is_blank :: "char \<Rightarrow> bool" where
  "is_blank c \<longleftrightarrow> c = CHR '' '' \<or> c = CHR 0x09"

definition Trim :: "string \<Rightarrow> string" where
  "Trim v = rev (dropWhile is_blank (rev (dropWhile is_blank v)))"

function valid_match_from :: "string \<Rightarrow> nat \<Rightarrow> bool" where
  "valid_match_from match offset =
     (if offset < length match then
        (case DecodeNextUtf8 match offset 0 of (ok, offset', cp) \<Rightarrow>
           ok \<and> cp \<noteq> 0x3001 \<and> cp \<noteq> 0x3002 \<and> cp \<noteq> 0xff0c \<and> cp \<noteq> 0xff0e \<and>
           valid_match_from match (fst (snd (DecodeNextUtf8 match offset 0))))
      else True)"
  by pat_completeness auto
termination
proof (relation "measure (\<lambda>(match, offset). length match - offset)", goal_cases)
  case (2 match offset)
  then show ?case using DecodeNextUtf8_step [of offset match 0] by simp
qed simp

declare valid_match_from.simps [simp del]

definition ValidMatch :: "string \<Rightarrow> bool" where
  "ValidMatch match \<longleftrightarrow>
     match \<noteq> [] \<and> \<not> list_ex (\<lambda>c. c = CHR 0x0d \<or> c = CHR 0x0a \<or> c = CHR 0x09) match \<and> valid_match_from match 0"

definition ParsePos :: "string \<Rightarrow> SegmentPos option" where
  "ParsePos name =
     map_of [(''Unknown'', PosUnknown), (''Taigen'', Taigen), (''Yougen'', Yougen), (''JoshiCase'', JoshiCase),
       (''JoshiConj'', JoshiConj), (''JoshiOther'', JoshiOther), (''Setsuzoku'', Setsuzoku), (''Jodoushi'', Jodoushi),
       (''HojoYougen'', HojoYougen), (''Rentai'', Rentai), (''Fukushi'', Fukushi), (''Kigou'', Kigou), (''English'', English)] name"

definition ParseSem :: "string \<Rightarrow> SegmentSemantic option" where
  "ParseSem name =
     map_of [(''Unknown'', SemUnknown), (''Generic'', Generic), (''PersonName'', PersonName), (''PlaceName'', PlaceName),
       (''OrgName'', OrgName), (''ProductName'', ProductName), (''DateTime'', DateTime), (''Number'', NumberSem)] name"

text \<open>One condition of a guard.\<close>

definition parse_condition :: "string \<Rightarrow> PunctuationGuard option" where
  "parse_condition condition =
     (if condition = [] then None
      else if condition = ''sentence_final'' then Some empty_guard
      else case find_char (CHR ''='') condition of
        None \<Rightarrow> None
      | Some equals \<Rightarrow>
          (let ne = (equals \<noteq> 0 \<and> condition ! (equals - 1) = CHR ''!'');
               field = Trim (take (equals - (if ne then 1 else 0)) condition);
               v = Trim (drop (equals + 1) condition)
           in if v = [] \<or> list_ex (\<lambda>c. c = CHR ''='' \<or> c = CHR ''!'') v then None
              else if field = ''prev_pos'' then
                map_option (\<lambda>p. empty_guard\<lparr>guard_field := PrevPos, not_equal := ne, guard_pos := p\<rparr>) (ParsePos v)
              else if field = ''next_head_pos'' then
                map_option (\<lambda>p. empty_guard\<lparr>guard_field := NextHeadPos, not_equal := ne, guard_pos := p\<rparr>) (ParsePos v)
              else if field = ''prev_sem'' then
                map_option (\<lambda>s. empty_guard\<lparr>guard_field := PrevSem, not_equal := ne, guard_sem := s\<rparr>) (ParseSem v)
              else if field = ''next_head_sem'' then
                map_option (\<lambda>s. empty_guard\<lparr>guard_field := NextHeadSem, not_equal := ne, guard_sem := s\<rparr>) (ParseSem v)
              else None))"

text \<open>The loop of \<open>ParseGuards\<close>; the guards pushed before a failure stay in the vector.\<close>

function guards_loop :: "string \<Rightarrow> PunctuationGuard list \<Rightarrow> bool \<times> PunctuationGuard list" where
  "guards_loop text gs =
     (case parse_condition (Trim (case find_char (CHR '';'') text of None \<Rightarrow> text | Some i \<Rightarrow> take i text)) of
        None \<Rightarrow> (False, gs)
      | Some g \<Rightarrow>
          (case find_char (CHR '';'') text of
             None \<Rightarrow> (True, gs @ [g])
           | Some i \<Rightarrow> guards_loop (drop (i + 1) text) (gs @ [g])))"
  by pat_completeness auto
termination
  by (relation "measure (\<lambda>(text, gs). length text)") (auto dest: find_char_Some)

declare guards_loop.simps [simp del]

definition ParseGuards :: "string \<Rightarrow> bool \<times> PunctuationGuard list" where
  "ParseGuards text = (let t = Trim text in if t = [] then (True, []) else guards_loop t [])"

section \<open>The built-in rules\<close>

definition Add :: "PunctuationRule list \<Rightarrow> PunctuationKind \<Rightarrow> string \<Rightarrow> rat \<Rightarrow> string \<Rightarrow> PunctuationRule list" where
  "Add rules kind match score guard =
     rules @ [\<lparr>rule_kind = kind, rule_match = match, base_score = double_lit score, guards = snd (ParseGuards guard)\<rparr>]"

definition default_groups :: "(PunctuationKind \<times> codepoint list list \<times> rat \<times> string) list" where
  "default_groups =
     [(Comma, [[0x306e, 0x3067], [0x304b, 0x3089], [0x305f, 0x3081]], 8 / 10, []),
      (Comma, [[0x3051, 0x3069], [0x3051, 0x308c, 0x3069], [0x306e, 0x306b], [0x3066, 0x3082], [0x3067, 0x3082]], 85 / 100, []),
      (Comma, [[0x304c]], 85 / 100, ''prev_pos=JoshiConj''),
      (Comma, [[0x3066], [0x3067]], 6 / 10, ''next_head_pos!=HojoYougen''),
      (Comma, [[0x3057], [0x305f, 0x308a]], 6 / 10, []),
      (Comma, [[0x3070], [0x306a, 0x3089], [0x305f, 0x3089]], 7 / 10, []),
      (Comma, [[0x3068]], 7 / 10, ''next_head_pos!=Taigen''),
      (Comma, [[0x3068, 0x304d], [0x3068, 0x3053, 0x308d], [0x5834, 0x5408], [0x3046, 0x3048, 0x3067]], 65 / 100, []),
      (Comma, [[0x3057, 0x304b, 0x3057], [0x3060, 0x304b, 0x3089], [0x307e, 0x305f], [0x305d, 0x3057, 0x3066], [0x305f, 0x3060, 0x3057], [0x3064, 0x307e, 0x308a]], 9 / 10, ''prev_pos=Setsuzoku''),
      (Period, [[0x3067, 0x3059], [0x307e, 0x3059], [0x3067, 0x3042, 0x308b], [0x3057, 0x305f], [0x306a, 0x3044], [0x3060], [0x304b]], 1, ''sentence_final'')]"

definition Default :: "PunctuationRule list" where
  "Default =
     foldl (\<lambda>rules (kind, matches, score, guard). foldl (\<lambda>rs match. Add rs kind (utf8s match) score guard) rules matches)
       [] default_groups"

section \<open>The user's rules\<close>

text \<open>A decimal numeral in the sense of \<open>std::from_chars\<close>, and the score of a field: \<^term>\<open>None\<close>
  when the field is not a numeral as a whole, or its value is out of range or not finite.\<close>

definition decimal_numeral :: "string \<Rightarrow> bool" where
  "decimal_numeral t =
     (let t1 = strip_sign t;
          int_part = takeWhile isdigit t1;
          r1 = dropWhile isdigit t1;
          dot = (r1 \<noteq> [] \<and> hd r1 = CHR ''.'');
          frac = (if dot then takeWhile isdigit (tl r1) else []);
          r2 = (if dot then dropWhile isdigit (tl r1) else r1);
          x = tl r2;
          ds = (if x \<noteq> [] \<and> (hd x = CHR ''+'' \<or> hd x = CHR ''-'') then tl x else x)
      in (int_part \<noteq> [] \<or> frac \<noteq> []) \<and> (r2 = [] \<or> is_e (hd r2) \<and> ds \<noteq> [] \<and> list_all isdigit ds))"

definition score_of :: "string \<Rightarrow> double option" where
  "score_of t =
     (if decimal_numeral t then (case from_chars_double t of Parsed d \<Rightarrow> if isfinite d then Some d else None | OutOfRange \<Rightarrow> None)
      else None)"

text \<open>The fields of a line; \<^term>\<open>None\<close> when there are fewer than three or more than four.\<close>

definition rule_fields :: "string \<Rightarrow> (string \<times> string \<times> string \<times> string) option" where
  "rule_fields line =
     (case find_char (CHR 0x09) line of
        None \<Rightarrow> None
      | Some first \<Rightarrow>
          (case find_char_from (CHR 0x09) line (first + 1) of
             None \<Rightarrow> None
           | Some second \<Rightarrow>
               (case find_char_from (CHR 0x09) line (second + 1) of
                  None \<Rightarrow> Some (take first line, take (second - first - 1) (drop (first + 1) line), drop (second + 1) line, [])
                | Some third \<Rightarrow>
                    if find_char_from (CHR 0x09) line (third + 1) \<noteq> None then None
                    else Some (take first line, take (second - first - 1) (drop (first + 1) line),
                           take (third - second - 1) (drop (second + 1) line), drop (third + 1) line))))"

definition parse_kind :: "string \<Rightarrow> PunctuationKind option" where
  "parse_kind t = (if t = ''comma'' then Some Comma else if t = ''period'' then Some Period else None)"

definition parse_rule :: "string \<Rightarrow> PunctuationRule option" where
  "parse_rule line =
     (case rule_fields line of
        None \<Rightarrow> None
      | Some (kind_text, match, score_text, guard_text) \<Rightarrow>
          (case (parse_kind kind_text, score_of score_text) of
             (Some kind, Some score) \<Rightarrow>
               if \<not> ValidMatch match \<or> rat_of_double score < 0 \<or> rat_of_double score > 1 \<or> \<not> fst (ParseGuards guard_text)
               then None
               else Some \<lparr>rule_kind = kind, rule_match = match, base_score = score, guards = snd (ParseGuards guard_text)\<rparr>
           | _ \<Rightarrow> None))"

text \<open>The first rule with the same kind and match is replaced, or the rule is added at the end.\<close>

fun merge_rule :: "PunctuationRule \<Rightarrow> PunctuationRule list \<Rightarrow> PunctuationRule list" where
  "merge_rule rule [] = [rule]"
| "merge_rule rule (existing # rules) =
     (if rule_kind existing = rule_kind rule \<and> rule_match existing = rule_match rule then rule # rules
      else existing # merge_rule rule rules)"

definition rule_line :: "nat \<Rightarrow> string \<Rightarrow> PunctuationRule list \<times> nat list \<Rightarrow> PunctuationRule list \<times> nat list" where
  "rule_line line_number line st =
     (case st of (rules, invalid) \<Rightarrow>
        if line_number = 1 \<and> take 10 line = ''# version:'' then
          (rules, if Trim (drop 10 line) \<noteq> ''1'' then invalid @ [line_number] else invalid)
        else if Trim line = [] \<or> take 1 line = ''#'' then (rules, invalid)
        else case parse_rule line of
          None \<Rightarrow> (rules, invalid @ [line_number])
        | Some rule \<Rightarrow> (merge_rule rule rules, invalid))"

definition ParseAndMerge :: "string \<Rightarrow> PunctuationRule list \<times> nat list" where
  "ParseAndMerge tsv = load_tsv rule_line tsv (Default, [])"

section \<open>Guards\<close>

definition MatchPos :: "SegmentPos \<Rightarrow> SegmentPos \<Rightarrow> bool \<Rightarrow> bool" where
  "MatchPos actual expected ne = (if actual = PosUnknown then ne else (actual = expected) \<noteq> ne)"

definition MatchSem :: "SegmentSemantic \<Rightarrow> SegmentSemantic \<Rightarrow> bool \<Rightarrow> bool" where
  "MatchSem actual expected ne = (if actual = SemUnknown then ne else (actual = expected) \<noteq> ne)"

definition MatchesGuard :: "PunctuationRule \<Rightarrow> SegmentPos \<Rightarrow> SegmentSemantic \<Rightarrow> SegmentPos \<Rightarrow> SegmentSemantic \<Rightarrow> bool \<Rightarrow> bool" where
  "MatchesGuard rule prev_pos prev_sem next_head_pos next_head_sem sentence_final =
     list_all (\<lambda>g. case guard_field g of
         PrevPos \<Rightarrow> MatchPos prev_pos (guard_pos g) (not_equal g)
       | NextHeadPos \<Rightarrow> MatchPos next_head_pos (guard_pos g) (not_equal g)
       | PrevSem \<Rightarrow> MatchSem prev_sem (guard_sem g) (not_equal g)
       | NextHeadSem \<Rightarrow> MatchSem next_head_sem (guard_sem g) (not_equal g)
       | SentenceFinal \<Rightarrow> sentence_final) (guards rule)"

section \<open>The rules are always well formed\<close>

definition rule_ok :: "PunctuationRule \<Rightarrow> bool" where
  "rule_ok r \<longleftrightarrow> ValidMatch (rule_match r) \<and> isfinite (base_score r) \<and> 0 \<le> rat_of_double (base_score r) \<and> rat_of_double (base_score r) \<le> 1"

definition rule_key :: "PunctuationRule \<Rightarrow> PunctuationKind \<times> string" where
  "rule_key r = (rule_kind r, rule_match r)"

definition rules_ok :: "PunctuationRule list \<Rightarrow> bool" where
  "rules_ok rs \<longleftrightarrow> list_all rule_ok rs \<and> distinct (map rule_key rs)"

lemma merge_rule_set: "set (merge_rule rule rs) \<subseteq> insert rule (set rs)"
  by (induction rs) auto

lemma merge_rule_keys: "rule_key ` set (merge_rule rule rs) = insert (rule_key rule) (rule_key ` set rs)"
  by (induction rs) (auto simp: rule_key_def)

lemma merge_rule_distinct: "distinct (map rule_key rs) \<Longrightarrow> distinct (map rule_key (merge_rule rule rs))"
proof (induction rs)
  case (Cons e rs)
  have "merge_rule rule (e # rs) = (if rule_key e = rule_key rule then rule # rs else e # merge_rule rule rs)"
    by (simp add: rule_key_def)
  then show ?case using Cons merge_rule_keys [of rule rs] by (auto simp del: merge_rule.simps)
qed simp

lemma parse_rule_ok: "parse_rule line = Some r \<Longrightarrow> rule_ok r"
  by (auto simp: parse_rule_def rule_ok_def score_of_def split: option.splits if_splits from_chars_result.splits)

lemma rule_line_keeps: "rules_ok (fst st) \<Longrightarrow> rules_ok (fst (rule_line n line st))"
proof -
  assume ok: "rules_ok (fst st)"
  have "rules_ok (merge_rule r (fst st))" if "rule_ok r" for r
    using ok that merge_rule_set [of r "fst st"] by (auto simp: rules_ok_def list_all_iff merge_rule_distinct)
  then show ?thesis using ok by (auto simp: rule_line_def dest: parse_rule_ok split: prod.split option.split)
qed

lemma rule_line_reports: "snd (rule_line n line st) = snd st \<or> snd (rule_line n line st) = snd st @ [n]"
  by (auto simp: rule_line_def split: prod.split option.split)

interpretation rule_reader: line_reader rule_line "\<lambda>st. rules_ok (fst st)" snd
  by unfold_locales (rule rule_line_keeps, assumption, rule rule_line_reports)

section \<open>The built-in rules are well formed\<close>

lemma utf8s_high: "list_all (\<lambda>cp. 0x80 \<le> cp \<and> is_scalar cp) cps \<Longrightarrow> list_all (\<lambda>c. 0x80 \<le> ord c) (utf8s cps)"
  by (induction cps) (simp_all add: utf8_high)

lemma decode_written: "is_scalar cp \<Longrightarrow> DecodeNextUtf8 (p @ utf8 cp @ t) (length p) 0 = (True, length p + length (utf8 cp), cp)"
  using core_decoder.decode_encoded [of cp p t] by (auto simp: decode_next_def split: prod.splits if_splits)

lemma utf8_ne [simp]: "utf8 cp \<noteq> []"
  by (simp add: AppendUtf8_def)

lemma utf8s_inj: "list_all is_scalar xs \<Longrightarrow> list_all is_scalar ys \<Longrightarrow> utf8s xs = utf8s ys \<Longrightarrow> xs = ys"
proof (induction xs arbitrary: ys)
  case Nil
  then show ?case by (cases ys) simp_all
next
  case (Cons x xs)
  then obtain y ys' where ys: "ys = y # ys'" by (cases ys) simp_all
  have "x = y" using decode_written [of x "[]" "utf8s xs"] decode_written [of y "[]" "utf8s ys'"] Cons.prems ys by simp
  then show ?case using Cons ys by simp
qed

lemma valid_match_written:
  "list_all (\<lambda>cp. is_scalar cp \<and> cp \<notin> {0x3001, 0x3002, 0xff0c, 0xff0e}) cps \<Longrightarrow> valid_match_from (p @ utf8s cps) (length p)"
proof (induction cps arbitrary: p)
  case (Cons cp cps)
  then have "DecodeNextUtf8 (p @ utf8 cp @ utf8s cps) (length p) 0 = (True, length p + length (utf8 cp), cp)"
    by (intro decode_written) simp
  then show ?case using Cons.IH [of "p @ utf8 cp"] Cons.prems by (subst valid_match_from.simps) simp
qed (simp add: valid_match_from.simps)

lemma ValidMatch_written:
  assumes "cps \<noteq> []" "list_all (\<lambda>cp. 0x80 \<le> cp \<and> is_scalar cp \<and> cp \<notin> {0x3001, 0x3002, 0xff0c, 0xff0e}) cps"
  shows "ValidMatch (utf8s cps)"
proof -
  have "list_all (\<lambda>c. 0x80 \<le> ord c) (utf8s cps)" using assms(2) by (intro utf8s_high) (auto simp: list_all_iff)
  then have "\<not> list_ex (\<lambda>c. c = CHR 0x0d \<or> c = CHR 0x0a \<or> c = CHR 0x09) (utf8s cps)" by (auto simp: list_all_iff list_ex_iff)
  moreover have "valid_match_from (utf8s cps) 0" using valid_match_written [of cps "[]"] assms(2) by (simp add: list_all_iff)
  ultimately show ?thesis using assms(1) by (cases cps) (simp_all add: ValidMatch_def)
qed

definition default_rows :: "(PunctuationKind \<times> codepoint list \<times> rat \<times> string) list" where
  "default_rows = concat (map (\<lambda>(kind, matches, score, guard). map (\<lambda>match. (kind, match, score, guard)) matches) default_groups)"

definition row_rule :: "PunctuationKind \<times> codepoint list \<times> rat \<times> string \<Rightarrow> PunctuationRule" where
  "row_rule row = (case row of (kind, match, score, guard) \<Rightarrow>
     \<lparr>rule_kind = kind, rule_match = utf8s match, base_score = double_lit score, guards = snd (ParseGuards guard)\<rparr>)"

lemma Default_rows: "Default = map row_rule default_rows"
proof -
  have inner: "foldl (\<lambda>rs match. Add rs kind (utf8s match) score guard) rules matches =
      rules @ map row_rule (map (\<lambda>match. (kind, match, score, guard)) matches)" for rules kind score guard matches
    by (induction matches arbitrary: rules) (simp_all add: Add_def row_rule_def)
  have "foldl (\<lambda>rules (kind, matches, score, guard). foldl (\<lambda>rs match. Add rs kind (utf8s match) score guard) rules matches) rules gs =
      rules @ map row_rule (concat (map (\<lambda>(kind, matches, score, guard). map (\<lambda>match. (kind, match, score, guard)) matches) gs))" for rules gs
    by (induction gs arbitrary: rules) (auto simp: inner)
  then show ?thesis by (simp add: Default_def default_rows_def)
qed

lemma default_rows_ok:
  "list_all (\<lambda>(kind, match, score, guard). match \<noteq> [] \<and> 0 < score \<and> score \<le> 1 \<and>
     list_all (\<lambda>cp. 0x80 \<le> cp \<and> is_scalar cp \<and> cp \<notin> {0x3001, 0x3002, 0xff0c, 0xff0e}) match) default_rows"
  by (simp add: default_rows_def default_groups_def is_scalar_def)

lemma default_rows_distinct: "distinct (map (\<lambda>(kind, match, score, guard). (kind, match)) default_rows)"
  by (simp add: default_rows_def default_groups_def)

lemma default_row:
  assumes "(kind, match, score, guard) \<in> set default_rows"
  shows "match \<noteq> []" "0 < score" "score \<le> 1"
    "list_all (\<lambda>cp. 0x80 \<le> cp \<and> is_scalar cp \<and> cp \<notin> {0x3001, 0x3002, 0xff0c, 0xff0e}) match" "list_all is_scalar match"
proof -
  note row = bspec [OF iffD1 [OF list_all_iff default_rows_ok] assms]
  show "match \<noteq> []" "0 < score" "score \<le> 1"
    "list_all (\<lambda>cp. 0x80 \<le> cp \<and> is_scalar cp \<and> cp \<notin> {0x3001, 0x3002, 0xff0c, 0xff0e}) match"
    using row by simp_all
  then show "list_all is_scalar match" by (auto elim: list.pred_mono_strong)
qed

lemma Default_ok: "rules_ok Default"
proof -
  have "rule_ok (row_rule row)" if "row \<in> set default_rows" for row
  proof -
    obtain kind match score guard where row: "row = (kind, match, score, guard)" by (cases row)
    note r = default_row [OF that [unfolded row]]
    show ?thesis using double_lit_unit [OF r(2,3)] ValidMatch_written [OF r(1,4)] by (simp add: rule_ok_def row_rule_def row)
  qed
  moreover have "distinct (map (\<lambda>r. rule_key (row_rule r)) default_rows)"
  proof (rule distinct_map [THEN iffD2], intro conjI inj_onI)
    show "distinct default_rows" using default_rows_distinct by (simp add: distinct_map)
    fix x y assume xy: "x \<in> set default_rows" "y \<in> set default_rows" "rule_key (row_rule x) = rule_key (row_rule y)"
    obtain k m s g k' m' s' g' where x: "x = (k, m, s, g)" and y: "y = (k', m', s', g')" by (cases x, cases y)
    have "k = k'" "utf8s m = utf8s m'" using xy(3) by (simp_all add: x y rule_key_def row_rule_def)
    moreover have "m = m'" using utf8s_inj default_row(5) xy(1,2) calculation(2) unfolding x y by blast
    ultimately show "x = y"
      using inj_onD [OF distinct_map [THEN iffD1, OF default_rows_distinct, THEN conjunct2] _ xy(1,2)] by (simp add: x y)
  qed
  ultimately show ?thesis by (simp add: rules_ok_def Default_rows list_all_iff o_def)
qed

section \<open>The last row of a key wins\<close>

text \<open>A reference reading of the file: the rules of its valid lines in order.\<close>

definition line_rule :: "nat \<times> string \<Rightarrow> PunctuationRule option" where
  "line_rule numbered =
     (case numbered of (n, line) \<Rightarrow>
        if n = 1 \<and> take 10 line = ''# version:'' \<or> Trim line = [] \<or> take 1 line = ''#'' then None else parse_rule line)"

definition file_rules :: "string \<Rightarrow> PunctuationRule list" where
  "file_rules tsv = List.map_filter line_rule (enumerate 1 (tsv_lines (strip_bom tsv)))"

definition rule_for :: "PunctuationKind \<times> string \<Rightarrow> PunctuationRule list \<Rightarrow> PunctuationRule option" where
  "rule_for key rs = find (\<lambda>r. rule_key r = key) rs"

lemma load_lines_rules:
  "fst (load_lines rule_line n ls st) = foldl (\<lambda>rs r. merge_rule r rs) (fst st) (List.map_filter line_rule (enumerate n ls))"
proof (induction ls arbitrary: n st)
  case (Cons line ls)
  have "fst (rule_line n line st) = (case line_rule (n, line) of None \<Rightarrow> fst st | Some r \<Rightarrow> merge_rule r (fst st))"
    by (auto simp: rule_line_def line_rule_def split: prod.split option.split)
  then show ?case using Cons by (auto simp: map_filter_simps split: option.split)
qed (simp add: map_filter_simps)

lemma rule_for_merge: "rule_for key (merge_rule rule rs) = (if rule_key rule = key then Some rule else rule_for key rs)"
  by (induction rs) (auto simp: rule_for_def rule_key_def)

lemma rule_for_foldl:
  "rule_for key (foldl (\<lambda>rs r. merge_rule r rs) rs new) =
     (case rule_for key (rev new) of None \<Rightarrow> rule_for key rs | Some r \<Rightarrow> Some r)"
proof (induction new rule: rev_induct)
  case (snoc r new)
  then show ?case by (simp add: rule_for_merge) (simp add: rule_for_def)
qed (simp add: rule_for_def)

lemma parsed_rules_ok: "rules_ok (fst (ParseAndMerge tsv))"
  using rule_reader.load_tsv_keeps [of "(Default, [])" tsv] Default_ok by (simp add: ParseAndMerge_def)

text \<open>Whatever the file, the rules in force are well formed: every pattern is a nonempty valid text
  without punctuation marks of its own, every score is a finite number between zero and one, no kind
  and pattern come twice. The rule for a kind and a pattern is that of the last valid line with them, or
  the built-in one if there is none; the lines reported as invalid are in increasing order and lines of
  the file.\<close>

theorem ParseAndMerge_rules:
  "rules_ok (fst (ParseAndMerge tsv)) \<and>
   rule_for key (fst (ParseAndMerge tsv)) =
     (case rule_for key (rev (file_rules tsv)) of None \<Rightarrow> rule_for key Default | Some r \<Rightarrow> Some r) \<and>
   sorted_wrt (<) (snd (ParseAndMerge tsv)) \<and>
   list_all (\<lambda>n. n \<le> length (tsv_lines (strip_bom tsv))) (snd (ParseAndMerge tsv))"
  using parsed_rules_ok [of tsv] rule_reader.load_tsv_reports [of "(Default, [])" tsv]
    load_lines_rules [of 1 "tsv_lines (strip_bom tsv)" "(Default, [])"] rule_for_foldl
  by (simp add: ParseAndMerge_def load_tsv_def file_rules_def list_all_iff)

end
