(* ===== verification/PunctuationInserter.thy ===== *)
theory PunctuationInserter
  imports PunctuationRules DoubleArith
begin

text \<open>
  Automatic punctuation in a live conversion (\<open>inference-host/src/PunctuationInserter.cpp\<close>). A
  segment of an answer extends the one of \<open>LiveCarry\<close> by the fields the inserter reads and writes.
  The loops over the code points of a text are \<open>SplitCodepoints\<close>, whose loop has the same body: a byte
  that decodes to nothing counts as a code point of its own. Offsets are unsigned 32-bit numbers.
\<close>

record WireSegment = LiveSegment +
  start_char :: "32 word"
  end_char :: "32 word"
  seg_score :: double
  seg_pos :: nat
  head_pos :: nat
  seg_sem :: nat
  head_sem :: nat
  seg_tag :: nat

definition empty_segment :: WireSegment where
  "empty_segment = \<lparr>seg_auto_punctuation = False, seg_surface = [], seg_reading = [], start_char = 0, end_char = 0,
     seg_score = Finite False 0 (- 1074), seg_pos = 0, head_pos = 0, seg_sem = 0, head_sem = 0, seg_tag = 0\<rparr>"

record PunctuationResult =
  result_surface :: string
  result_segments :: "WireSegment list"

section \<open>Texts\<close>

definition EndsWith :: "string \<Rightarrow> string \<Rightarrow> bool" where
  "EndsWith v suff \<longleftrightarrow> length suff \<le> length v \<and> drop (length v - length suff) v = suff"

definition StartsWith :: "string \<Rightarrow> string \<Rightarrow> bool" where
  "StartsWith v pre \<longleftrightarrow> take (length pre) v = pre"

definition Utf16Length :: "string \<Rightarrow> 32 word" where
  "Utf16Length v = sum_list (map (\<lambda>c. if cp_value c > 0xffff then 2 else 1) (SplitCodepoints v))"

definition CodepointLength :: "string \<Rightarrow> nat" where
  "CodepointLength v = length (SplitCodepoints v)"

definition IsPunctuationEnd :: "string \<Rightarrow> bool" where
  "IsPunctuationEnd v =
     list_ex (\<lambda>suff. EndsWith v (utf8s suff))
       [[0x3001], [0x3002], [0xff0c], [0xff0e], [0x2c], [0x2e], [0x21], [0x3f], [0xff01], [0xff1f]]"

definition IsPunctuationStart :: "string \<Rightarrow> bool" where
  "IsPunctuationStart v =
     list_ex (\<lambda>pre. StartsWith v (utf8s pre))
       [[0x3001], [0x3002], [0xff0c], [0xff0e], [0x2c], [0x2e], [0x21], [0x3f], [0xff01], [0xff1f], [0x300d], [0x300f], [0xff09], [0x29], [0x3011], [0x5d], [0x3009], [0x300b], [0xff5d], [0x7d]]"

definition IsAsciiWord :: "string \<Rightarrow> bool" where
  "IsAsciiWord v \<longleftrightarrow> v \<noteq> [] \<and> list_all (\<lambda>c. 0x21 \<le> ord c \<and> ord c \<le> 0x7e) v"

definition RecentComma :: "string \<Rightarrow> bool" where
  "RecentComma v =
     (let chars = map cp_value (SplitCodepoints v) in
      list_ex (\<lambda>c. c = 0x3001 \<or> c = 0xff0c) (drop (if length chars > 6 then length chars - 6 else 0) chars))"

section \<open>Parts of speech\<close>

definition AsPos :: "nat \<Rightarrow> SegmentPos" where
  "AsPos raw =
     (if raw \<le> 12
      then [PosUnknown, Taigen, Yougen, JoshiCase, JoshiConj, JoshiOther, Setsuzoku, Jodoushi, HojoYougen, Rentai, Fukushi, Kigou,
            English] ! raw
      else PosUnknown)"

definition AsSem :: "nat \<Rightarrow> SegmentSemantic" where
  "AsSem raw =
     (if raw \<le> 7 then [SemUnknown, Generic, PersonName, PlaceName, OrgName, ProductName, DateTime, NumberSem] ! raw else SemUnknown)"

definition InferPrevPos :: "string \<Rightarrow> SegmentPos" where
  "InferPrevPos v =
     (if list_ex (\<lambda>s. EndsWith v (utf8s s))
           [[0x3057, 0x304b, 0x3057], [0x3060, 0x304b, 0x3089], [0x305d, 0x3057, 0x3066], [0x305f, 0x3060, 0x3057], [0x3064, 0x307e, 0x308a], [0x307e, 0x305f]]
      then Setsuzoku
      else if EndsWith v (utf8s [0x304c]) then
        (let stem = take (length v - length (utf8s [0x304c])) v in
         if list_ex (\<lambda>s. EndsWith stem (utf8s s))
              [[0x305f], [0x3060], [0x308b], [0x3044], [0x3046], [0x3059], [0x304f], [0x3080], [0x306c], [0x3076], [0x3064]]
         then JoshiConj else JoshiCase)
      else PosUnknown)"

definition InferNextHeadPos :: "string \<Rightarrow> SegmentPos" where
  "InferNextHeadPos v =
     (if list_ex (\<lambda>s. StartsWith v (utf8s s))
           [[0x3044, 0x308b], [0x3042, 0x308b], [0x304a, 0x304f], [0x307f, 0x308b], [0x3057, 0x307e, 0x3046], [0x304f, 0x308c, 0x308b], [0x3082, 0x3089, 0x3046], [0x3044, 0x304f], [0x304f, 0x308b]]
      then HojoYougen
      else if list_ex (\<lambda>s. StartsWith v (utf8s s)) [[0x601d], [0x8a00], [0x8003], [0x805e], [0x8a71], [0x547c], [0x66f8]] then Yougen
      else PosUnknown)"

section \<open>Inserting\<close>

fun BestRule :: "PunctuationRule list \<Rightarrow> PunctuationKind \<Rightarrow> string \<Rightarrow> PunctuationRule option \<Rightarrow> PunctuationRule option" where
  "BestRule [] kind v best = best"
| "BestRule (rule # rules) kind v best =
     BestRule rules kind v
       (if rule_kind rule \<noteq> kind \<or> \<not> EndsWith v (rule_match rule) then best
        else case best of
          None \<Rightarrow> Some rule
        | Some b \<Rightarrow>
            if length (rule_match rule) > length (rule_match b) \<or>
               length (rule_match rule) = length (rule_match b) \<and> double_lt (base_score b) (base_score rule)
            then Some rule else best)"

definition AppendSegment :: "PunctuationResult \<Rightarrow> WireSegment \<Rightarrow> PunctuationResult" where
  "AppendSegment out seg =
     (let start = (if result_segments out = [] then 0 else end_char (last (result_segments out)));
          seg = seg\<lparr>start_char := start, end_char := start + Utf16Length (seg_surface seg)\<rparr>
      in \<lparr>result_surface = result_surface out @ seg_surface seg, result_segments = result_segments out @ [seg]\<rparr>)"

definition mark_segment :: "string \<Rightarrow> WireSegment" where
  "mark_segment mark = empty_segment\<lparr>seg_surface := mark, seg_auto_punctuation := True, seg_pos := 11\<rparr>"

text \<open>The conditions for a comma behind \<open>current\<close>, with the surface written so far.\<close>

definition wants_comma :: "PunctuationRule list \<Rightarrow> double \<Rightarrow> string \<Rightarrow> WireSegment \<Rightarrow> WireSegment \<Rightarrow> bool" where
  "wants_comma rules boundary_confidence written current nxt =
     (if double_lt (seg_score current) boundary_confidence \<or> IsPunctuationEnd (seg_surface current) \<or>
         IsPunctuationStart (seg_surface nxt) \<or> RecentComma written \<or>
         IsAsciiWord (seg_surface current) \<and> IsAsciiWord (seg_surface nxt) then False
      else case BestRule rules Comma (seg_surface current) None of
        None \<Rightarrow> False
      | Some rule \<Rightarrow>
          if double_less (base_score rule) (1 / 2) then False
          else let pos = (if AsPos (seg_pos current) = PosUnknown then InferPrevPos (seg_surface current) else AsPos (seg_pos current));
                   hp = (if AsPos (head_pos nxt) = PosUnknown then InferNextHeadPos (seg_surface nxt) else AsPos (head_pos nxt));
                   hp = (if rule_match rule = utf8s [0x3068] \<and> hp = PosUnknown then Taigen else hp)
               in MatchesGuard rule pos (AsSem (seg_sem current)) hp (AsSem (head_sem nxt)) False)"

definition wants_period :: "PunctuationRule list \<Rightarrow> WireSegment list \<Rightarrow> bool" where
  "wants_period rules converted =
     (let final = last converted; total_chars = sum_list (map (\<lambda>s. CodepointLength (seg_surface s)) converted) in
      \<not> (length converted = 1 \<and> total_chars < 8) \<and> \<not> IsPunctuationEnd (seg_surface final) \<and> \<not> IsAsciiWord (seg_surface final) \<and>
      (case BestRule rules Period (seg_surface final) None of
         None \<Rightarrow> False
       | Some rule \<Rightarrow> double_lt (Finite False 0 (- 1074)) (base_score rule) \<and>
           MatchesGuard rule (AsPos (seg_pos final)) (AsSem (seg_sem final)) PosUnknown SemUnknown True))"

fun insert_loop :: "PunctuationRule list \<Rightarrow> string \<Rightarrow> double \<Rightarrow> WireSegment list \<Rightarrow> PunctuationResult \<Rightarrow> PunctuationResult" where
  "insert_loop rules comma boundary_confidence [] out = out"
| "insert_loop rules comma boundary_confidence [current] out = AppendSegment out current"
| "insert_loop rules comma boundary_confidence (current # nxt # rest) out =
     (let out1 = AppendSegment out current in
      insert_loop rules comma boundary_confidence (nxt # rest)
        (if wants_comma rules boundary_confidence (result_surface out1) current nxt
         then AppendSegment out1 (mark_segment comma) else out1))"

definition comma_mark :: "string \<Rightarrow> string" where
  "comma_mark style = utf8s [if style = ''fullwidth_latin'' then 0xff0c else 0x3001]"

definition period_mark :: "string \<Rightarrow> string" where
  "period_mark style = utf8s [if style = ''fullwidth_latin'' then 0xff0e else 0x3002]"

definition Insert :: "WireSegment list \<Rightarrow> PunctuationRule list \<Rightarrow> string \<Rightarrow> double \<Rightarrow> PunctuationResult" where
  "Insert converted rules style boundary_confidence =
     (let out = \<lparr>result_surface = [], result_segments = []\<rparr> in
      if converted = [] then out
      else let out = insert_loop rules (comma_mark style) boundary_confidence converted out in
        if wants_period rules converted then AppendSegment out (mark_segment (period_mark style)) else out)"

text \<open>\<open>Dispatcher.cpp\<close>: the answer to a live request, with the rules in force.\<close>

definition InsertLivePunctuation ::
  "bool \<Rightarrow> bool \<Rightarrow> double \<Rightarrow> PunctuationRule list \<Rightarrow> bool \<Rightarrow> string \<Rightarrow> string \<Rightarrow> string \<Rightarrow> PunctuationResult option" where
  "InsertLivePunctuation enable_live_conversion dynamic_punctuation boundary_confidence rules auto_punct style sf rd =
     (if \<not> auto_punct \<or> \<not> enable_live_conversion \<or> \<not> dynamic_punctuation \<or> sf = [] then None
      else Some (Insert [empty_segment\<lparr>seg_surface := sf, seg_reading := rd, seg_score := double_lit 1\<rparr>] rules style boundary_confidence))"

section \<open>Loading the rules\<close>

text \<open>
  \<open>LoadRules\<close> with its static cache as a state. The local application data directory, the conversion
  and the joining of paths, and the answers of the file system are parameters: the time of the last
  write, the size, and the bytes when exactly as many as the size can be read.
\<close>

record 'p rules_cache =
  cached_path :: 'p
  cached_write_time :: nat
  cached_rules :: "PunctuationRule list"

definition kMaxRulesBytes :: nat where
  "kMaxRulesBytes = 1024 * 1024"

definition rules_path :: "'p option \<Rightarrow> (string \<Rightarrow> 'p) \<Rightarrow> ('p \<Rightarrow> 'p \<Rightarrow> 'p) \<Rightarrow> string \<Rightarrow> 'p option" where
  "rules_path local_dir utf8_path join configured =
     (let pre = ''%LOCALAPPDATA%'' @ [CHR 0x5c] in
      if take (length pre) configured = pre
      then map_option (\<lambda>d. join d (utf8_path (drop (length pre) configured))) local_dir
      else Some (utf8_path configured))"

definition LoadRules ::
  "('p \<Rightarrow> nat option) \<Rightarrow> ('p \<Rightarrow> nat option) \<Rightarrow> ('p \<Rightarrow> nat \<Rightarrow> string option) \<Rightarrow> 'p option \<Rightarrow> 'p rules_cache \<Rightarrow>
     PunctuationRule list \<times> 'p rules_cache" where
  "LoadRules last_write_time file_size read_exactly path cache =
     (case path of
        None \<Rightarrow> (Default, cache)
      | Some p \<Rightarrow>
          (case last_write_time p of
             None \<Rightarrow> (Default, cache)
           | Some t \<Rightarrow>
               if p = cached_path cache \<and> t = cached_write_time cache then (cached_rules cache, cache)
               else case file_size p of
                 None \<Rightarrow> (Default, cache)
               | Some n \<Rightarrow>
                   if n > kMaxRulesBytes then (Default, cache)
                   else case read_exactly p n of
                     None \<Rightarrow> (Default, cache)
                   | Some tsv \<Rightarrow>
                       (let rules = fst (ParseAndMerge tsv) in
                        (rules, \<lparr>cached_path = p, cached_write_time = t, cached_rules = rules\<rparr>))))"

lemma LoadRules_ok:
  "rules_ok (cached_rules cache) \<Longrightarrow>
     rules_ok (fst (LoadRules last_write_time file_size read_exactly path cache)) \<and>
     rules_ok (cached_rules (snd (LoadRules last_write_time file_size read_exactly path cache)))"
  using Default_ok parsed_rules_ok by (auto simp: LoadRules_def Let_def split: option.split)

section \<open>Nothing of the input is lost\<close>

definition unplaced :: "WireSegment \<Rightarrow> WireSegment" where
  "unplaced seg = seg\<lparr>start_char := 0, end_char := 0\<rparr>"

fun placed_from :: "32 word \<Rightarrow> WireSegment list \<Rightarrow> bool" where
  "placed_from a [] \<longleftrightarrow> True"
| "placed_from a (s # ss) \<longleftrightarrow> start_char s = a \<and> end_char s = a + Utf16Length (seg_surface s) \<and> placed_from (end_char s) ss"

lemma placed_from_snoc:
  "placed_from a (ss @ [s]) \<longleftrightarrow> placed_from a ss \<and> start_char s = (if ss = [] then a else end_char (last ss)) \<and>
     end_char s = start_char s + Utf16Length (seg_surface s)"
  by (induction ss arbitrary: a) auto

lemma AppendSegment_result:
  "\<exists>seg'. result_segments (AppendSegment out seg) = result_segments out @ [seg'] \<and> unplaced seg' = unplaced seg \<and>
     result_surface (AppendSegment out seg) = result_surface out @ seg_surface seg \<and> seg_surface seg' = seg_surface seg \<and>
     seg_auto_punctuation seg' = seg_auto_punctuation seg \<and> seg_reading seg' = seg_reading seg \<and>
     (placed_from 0 (result_segments out) \<longrightarrow> placed_from 0 (result_segments (AppendSegment out seg)))"
  by (auto simp: AppendSegment_def Let_def unplaced_def placed_from_snoc)

text \<open>What a result consists of: \<open>src\<close> with marks from \<open>marks\<close> put in between.\<close>

definition spells :: "string set \<Rightarrow> WireSegment list \<Rightarrow> PunctuationResult \<Rightarrow> bool" where
  "spells marks src out \<longleftrightarrow>
     map unplaced (filter (\<lambda>s. \<not> seg_auto_punctuation s) (result_segments out)) = map unplaced src \<and>
     result_surface out = concat (map seg_surface (result_segments out)) \<and>
     placed_from 0 (result_segments out) \<and>
     list_all (\<lambda>s. seg_auto_punctuation s \<longrightarrow> unplaced s \<in> mark_segment ` marks) (result_segments out)"

lemma mark_segment_simps [simp]:
  "seg_auto_punctuation (mark_segment m)" "seg_surface (mark_segment m) = m" "seg_reading (mark_segment m) = []"
  "unplaced (mark_segment m) = mark_segment m"
  by (simp_all add: mark_segment_def empty_segment_def unplaced_def)

lemma spells_source:
  "spells marks src out \<Longrightarrow> \<not> seg_auto_punctuation seg \<Longrightarrow> spells marks (src @ [seg]) (AppendSegment out seg)"
  using AppendSegment_result [of out seg] by (auto simp: spells_def)

lemma spells_mark: "spells marks src out \<Longrightarrow> m \<in> marks \<Longrightarrow> spells marks src (AppendSegment out (mark_segment m))"
  using AppendSegment_result [of out "mark_segment m"] by (auto simp: spells_def)

lemma insert_loop_spells:
  "spells marks src out \<Longrightarrow> comma \<in> marks \<Longrightarrow> list_all (\<lambda>s. \<not> seg_auto_punctuation s) converted \<Longrightarrow>
     spells marks (src @ converted) (insert_loop rules comma confidence converted out)"
proof (induction rules comma confidence converted out arbitrary: src rule: insert_loop.induct)
  case (3 rules comma confidence current nxt rest out)
  have "spells marks (src @ [current]) (AppendSegment out current)" using 3 by (simp add: spells_source)
  then have "spells marks (src @ [current])
      (if wants_comma rules confidence (result_surface (AppendSegment out current)) current nxt
       then AppendSegment (AppendSegment out current) (mark_segment comma) else AppendSegment out current)"
    using 3 by (simp add: spells_mark)
  from 3(1) [OF refl this] 3 show ?case by (simp add: Let_def)
qed (simp_all add: spells_source)

lemma Insert_spells:
  "list_all (\<lambda>s. \<not> seg_auto_punctuation s) converted \<Longrightarrow>
     spells {comma_mark style, period_mark style} converted (Insert converted rules style confidence)"
proof -
  assume plain: "list_all (\<lambda>s. \<not> seg_auto_punctuation s) converted"
  have "spells {comma_mark style, period_mark style} [] \<lparr>result_surface = [], result_segments = []\<rparr>" by (simp add: spells_def)
  then have "spells {comma_mark style, period_mark style} ([] @ converted)
      (insert_loop rules (comma_mark style) confidence converted \<lparr>result_surface = [], result_segments = []\<rparr>)"
    by (rule insert_loop_spells) (simp_all add: plain)
  then show ?thesis by (auto simp: Insert_def Let_def intro: spells_mark)
qed

text \<open>C34: Automatic punctuation only adds: without the added marks the answer is the list of converted
  segments, unchanged but for their offsets; an added mark is a comma or a period of the chosen style
  with an empty reading; the surface is that of the segments, and their offsets in UTF-16 units follow
  each other without gap from zero.\<close>

theorem Insert_only_adds:
  assumes "list_all (\<lambda>s. \<not> seg_auto_punctuation s) converted" "Insert converted rules style confidence = out"
  shows "map unplaced (filter (\<lambda>s. \<not> seg_auto_punctuation s) (result_segments out)) = map unplaced converted \<and>
    list_all (\<lambda>s. seg_auto_punctuation s \<longrightarrow> seg_reading s = [] \<and> seg_surface s \<in> {comma_mark style, period_mark style})
      (result_segments out) \<and>
    result_surface out = concat (map seg_surface (result_segments out)) \<and>
    placed_from 0 (result_segments out)"
proof -
  have s: "spells {comma_mark style, period_mark style} converted out" using Insert_spells [OF assms(1)] assms(2) by blast
  have "seg_reading x = [] \<and> seg_surface x = m" if "unplaced x = mark_segment m" for x m
    using arg_cong [OF that, of seg_reading] arg_cong [OF that, of seg_surface] by (simp add: unplaced_def)
  then show ?thesis using s by (fastforce simp: spells_def list_all_iff)
qed

definition sample_segments :: "WireSegment list" where
  "sample_segments = [empty_segment\<lparr>seg_surface := utf8s [0x96e8, 0x306a, 0x306e, 0x3067], seg_reading := ''amenanode''\<rparr>,
     empty_segment\<lparr>seg_surface := utf8s [0x4f11, 0x307f, 0x307e, 0x3059], seg_reading := ''yasumimasu''\<rparr>]"

lemma sample_segments_plain: "list_all (\<lambda>s. \<not> seg_auto_punctuation s) sample_segments"
  by (simp add: sample_segments_def empty_segment_def)

theorem Insert_only_adds_witness:
  "map unplaced (filter (\<lambda>s. \<not> seg_auto_punctuation s) (result_segments (Insert sample_segments Default ''ja'' (double_lit (1 / 2))))) =
     map unplaced sample_segments"
  using Insert_only_adds [OF sample_segments_plain refl] by blast

section \<open>The input processor can use the answer\<close>

lemma spells_reading:
  assumes "spells marks src out"
  shows "concat (map (\<lambda>s. if seg_auto_punctuation s then [] else seg_reading s) (result_segments out)) = concat (map seg_reading src)"
    "(\<And>s. s \<in> set src \<Longrightarrow> seg_reading s \<noteq> []) \<Longrightarrow> list_all (\<lambda>s. seg_auto_punctuation s \<or> seg_reading s \<noteq> []) (result_segments out)"
proof -
  let ?plain = "filter (\<lambda>s. \<not> seg_auto_punctuation s) (result_segments out)"
  have "map seg_reading (map unplaced ?plain) = map seg_reading (map unplaced src)" using assms by (simp add: spells_def)
  then have eq: "map seg_reading ?plain = map seg_reading src" by (simp add: unplaced_def o_def)
  have "concat (map (\<lambda>s. if seg_auto_punctuation s then [] else seg_reading s) xs) =
      concat (map seg_reading (filter (\<lambda>s. \<not> seg_auto_punctuation s) xs))" for xs :: "WireSegment list"
    by (induction xs) auto
  then show "concat (map (\<lambda>s. if seg_auto_punctuation s then [] else seg_reading s) (result_segments out)) = concat (map seg_reading src)"
    using eq by simp
  show "list_all (\<lambda>s. seg_auto_punctuation s \<or> seg_reading s \<noteq> []) (result_segments out)" if "\<And>s. s \<in> set src \<Longrightarrow> seg_reading s \<noteq> []"
  proof -
    have "[] \<notin> set (map seg_reading ?plain)" using that eq by (metis imageE list.set_map)
    then show ?thesis by (auto simp: list_all_iff image_iff)
  qed
qed

lemma truncate_fields [simp]:
  "seg_auto_punctuation (LiveSegment.truncate s) = seg_auto_punctuation s" "seg_surface (LiveSegment.truncate s) = seg_surface s"
  "seg_reading (LiveSegment.truncate s) = seg_reading s"
  by (simp_all add: LiveSegment.truncate_def)

text \<open>The input processor never has to throw a punctuated answer away: it accepts the segments of
  the inserter as the spelling of the reading and of the surface, and the pieces it makes of them to
  carry over to the next reading spell exactly both.\<close>

theorem punctuated_answer_usable:
  assumes "list_all (\<lambda>s. \<not> seg_auto_punctuation s \<and> seg_reading s \<noteq> []) converted" "concat (map seg_surface converted) \<noteq> []"
    "Insert converted rules style confidence = out"
    "BuildLivePieces (concat (map seg_reading converted)) (result_surface out) (map LiveSegment.truncate (result_segments out)) auto_punct =
      pieces"
  shows "concat (map piece_surface pieces) = result_surface out \<and>
    concat (map piece_reading pieces) = concat (map seg_reading converted) \<and>
    segments_usable (concat (map seg_reading converted)) (result_surface out) (map LiveSegment.truncate (result_segments out))"
proof -
  have plain: "list_all (\<lambda>s. \<not> seg_auto_punctuation s) converted" "\<And>s. s \<in> set converted \<Longrightarrow> seg_reading s \<noteq> []"
    using assms(1) by (auto simp: list_all_iff)
  have s: "spells {comma_mark style, period_mark style} converted out" using Insert_spells [OF plain(1)] assms(3) by blast
  have nonempty: "converted \<noteq> []" using assms(2) by auto
  then have rd: "concat (map seg_reading converted) \<noteq> []" using plain(2) by (cases converted) auto
  have "concat (map seg_surface (map unplaced converted)) = concat (map seg_surface converted)" by (simp add: unplaced_def o_def)
  moreover have "map unplaced converted = map unplaced (filter (\<lambda>s. \<not> seg_auto_punctuation s) (result_segments out))"
    using s by (simp add: spells_def)
  ultimately have "concat (map seg_surface (filter (\<lambda>s. \<not> seg_auto_punctuation s) (result_segments out))) \<noteq> []"
    using assms(2) by (simp add: unplaced_def o_def)
  then have sf: "result_surface out \<noteq> []" using s by (auto simp: spells_def)
  have segs: "result_segments out \<noteq> []" using sf s by (auto simp: spells_def)
  let ?segs = "map LiveSegment.truncate (result_segments out)"
  have reading: "concat (map (\<lambda>seg. if seg_auto_punctuation seg then [] else seg_reading seg) ?segs) = concat (map seg_reading converted)"
    using spells_reading(1) [OF s] by (simp add: o_def cong: if_cong)
  moreover have surface: "concat (map seg_surface ?segs) = result_surface out" using s by (simp add: spells_def o_def)
  moreover have "list_all (\<lambda>seg. seg_auto_punctuation seg \<or> seg_reading seg \<noteq> []) ?segs"
    using spells_reading(2) [OF s plain(2)] by (simp add: list_all_iff)
  ultimately have usable: "segments_usable (concat (map seg_reading converted)) (result_surface out) ?segs"
    using segs by (simp add: segments_usable_def)
  then have "pieces = concat (map segment_pieces ?segs)" using assms(4) rd sf by (simp only: BuildLivePieces_def Let_def simp_thms if_True if_False)
  then show ?thesis using pieces_lossless [of ?segs] usable reading surface by simp
qed

theorem punctuated_answer_usable_witness:
  "segments_usable ''amenanodeyasumimasu'' (result_surface (Insert sample_segments Default ''ja'' (double_lit (1 / 2))))
     (map LiveSegment.truncate (result_segments (Insert sample_segments Default ''ja'' (double_lit (1 / 2)))))"
proof -
  have "list_all (\<lambda>s. \<not> seg_auto_punctuation s \<and> seg_reading s \<noteq> []) sample_segments" "concat (map seg_surface sample_segments) \<noteq> []"
    "concat (map seg_reading sample_segments) = ''amenanodeyasumimasu''"
    by (simp_all add: sample_segments_def empty_segment_def)
  then show ?thesis
    using punctuated_answer_usable [of sample_segments Default "''ja''" "double_lit (1 / 2)", OF _ _ refl refl] by simp
qed

section \<open>Where commas go\<close>

definition comma_place :: "WireSegment list \<Rightarrow> string \<Rightarrow> bool" where
  "comma_place before after \<longleftrightarrow>
     before \<noteq> [] \<and> \<not> seg_auto_punctuation (last before) \<and> \<not> RecentComma (concat (map seg_surface before)) \<and>
     \<not> IsPunctuationEnd (seg_surface (last before)) \<and> \<not> IsPunctuationStart after"

text \<open>Every mark stands at a place for a comma; \<open>nx\<close> is the surface that will follow.\<close>

definition marks_ok :: "WireSegment list \<Rightarrow> string \<Rightarrow> bool" where
  "marks_ok segs nx \<longleftrightarrow>
     (\<forall>before s after. segs = before @ s # after \<longrightarrow> seg_auto_punctuation s \<longrightarrow>
        comma_place before (hd (map seg_surface after @ [nx])))"

lemma marks_ok_snoc:
  assumes "marks_ok segs (seg_surface s)" "seg_auto_punctuation s \<longrightarrow> comma_place segs nx"
  shows "marks_ok (segs @ [s]) nx"
  unfolding marks_ok_def
proof (intro allI impI)
  fix before m after assume eq: "segs @ [s] = before @ m # after" and m: "seg_auto_punctuation m"
  show "comma_place before (hd (map seg_surface after @ [nx]))"
  proof (cases after rule: rev_cases)
    case Nil
    then show ?thesis using eq m assms(2) by simp
  next
    case (snoc after' x)
    then have "segs = before @ m # after'" "x = s" using eq by simp_all
    then have "comma_place before (hd (map seg_surface after' @ [seg_surface s]))" using assms(1) m by (simp add: marks_ok_def)
    then show ?thesis using snoc \<open>x = s\<close> by (cases after') simp_all
  qed
qed

lemma marks_ok_append:
  "marks_ok (result_segments out) (seg_surface seg) \<Longrightarrow> (seg_auto_punctuation seg \<Longrightarrow> comma_place (result_segments out) nx) \<Longrightarrow>
     marks_ok (result_segments (AppendSegment out seg)) nx"
  using AppendSegment_result [of out seg] marks_ok_snoc [of "result_segments out" _ nx] by fastforce

lemma marks_okD:
  "marks_ok (before @ s # after) nx \<Longrightarrow> seg_auto_punctuation s \<Longrightarrow> comma_place before (hd (map seg_surface after @ [nx]))"
  by (simp add: marks_ok_def)

lemma insert_loop_marks:
  "converted \<noteq> [] \<Longrightarrow> list_all (\<lambda>s. \<not> seg_auto_punctuation s) converted \<Longrightarrow>
     result_surface out = concat (map seg_surface (result_segments out)) \<Longrightarrow>
     marks_ok (result_segments out) (seg_surface (hd converted)) \<Longrightarrow>
     marks_ok (result_segments (insert_loop rules comma confidence converted out)) nx"
proof (induction rules comma confidence converted out rule: insert_loop.induct)
  case (2 rules comma confidence current out)
  then show ?case by (auto intro: marks_ok_append)
next
  case (3 rules comma confidence current nxt rest out)
  let ?out1 = "AppendSegment out current" and ?comma = "mark_segment comma"
  obtain cur' where cur': "result_segments ?out1 = result_segments out @ [cur']" "seg_surface cur' = seg_surface current"
    "\<not> seg_auto_punctuation cur'" "result_surface ?out1 = concat (map seg_surface (result_segments ?out1))"
    using AppendSegment_result [of out current] 3(3,4) by auto
  have ok1: "marks_ok (result_segments ?out1) x" for x
    using 3(3,5) by (auto intro: marks_ok_append)
  have "marks_ok (result_segments (AppendSegment ?out1 ?comma)) (seg_surface nxt)"
    if w: "wants_comma rules confidence (result_surface ?out1) current nxt"
  proof -
    have "comma_place (result_segments ?out1) (seg_surface nxt)"
      using w cur' by (auto simp: wants_comma_def comma_place_def split: if_splits)
    then show ?thesis using ok1 by (auto intro: marks_ok_append)
  qed
  moreover have "result_surface (AppendSegment ?out1 ?comma) = concat (map seg_surface (result_segments (AppendSegment ?out1 ?comma)))"
    using AppendSegment_result [of ?out1 ?comma] cur'(4) by auto
  ultimately have "marks_ok (result_segments (insert_loop rules comma confidence (nxt # rest)
      (if wants_comma rules confidence (result_surface ?out1) current nxt then AppendSegment ?out1 ?comma else ?out1))) nx"
    using 3(3) cur'(4) ok1 by (intro 3(1)) auto
  then show ?case by (simp add: Let_def)
qed simp

text \<open>A comma is only added where one may stand: right behind a converted segment that does not end
  with a punctuation mark, before one that does not begin with a mark or a closing bracket, and with no
  other comma, typed or added, within the six characters before it. The only mark that can stand
  elsewhere is the one at the very end.\<close>

theorem Insert_comma_places:
  assumes "list_all (\<lambda>s. \<not> seg_auto_punctuation s) converted"
    "result_segments (Insert converted rules style confidence) = before @ mark # after" "seg_auto_punctuation mark" "after \<noteq> []"
  shows "comma_place before (seg_surface (hd after))"
proof -
  let ?start = "\<lparr>result_surface = [], result_segments = []\<rparr>"
  let ?out = "insert_loop rules (comma_mark style) confidence converted ?start"
  have ne: "converted \<noteq> []" using assms(2) by (auto simp: Insert_def Let_def)
  have ok: "marks_ok (result_segments ?out) nx" for nx
    using ne assms(1) by (intro insert_loop_marks) (simp_all add: marks_ok_def)
  let ?period = "mark_segment (period_mark style)"
  obtain p where p: "result_segments (AppendSegment ?out ?period) = result_segments ?out @ [p]" "seg_surface p = period_mark style"
    using AppendSegment_result [of ?out ?period] by auto
  consider "result_segments ?out = before @ mark # after" | "result_segments ?out @ [p] = before @ mark # after"
    using assms(2) ne p by (auto simp: Insert_def Let_def split: if_splits)
  then show ?thesis
  proof cases
    case 1
    then show ?thesis using marks_okD [OF ok [of "[]", unfolded 1] assms(3)] assms(4) by (cases after) simp_all
  next
    case 2
    then obtain after' where after: "after = after' @ [p]" "result_segments ?out = before @ mark # after'"
      using assms(4) by (cases after rule: rev_cases) auto
    have "comma_place before (hd (map seg_surface after' @ [seg_surface p]))"
      by (rule marks_okD [OF ok [of "seg_surface p", unfolded after(2)] assms(3)])
    then show ?thesis using after(1) by (cases after') simp_all
  qed
qed

lemma split_written: "list_all is_scalar cps \<Longrightarrow> map cp_value (split_from (p @ utf8s cps) (length p)) = cps"
proof (induction cps arbitrary: p)
  case (Cons cp cps)
  then have "DecodeNextUtf8 (p @ utf8 cp @ utf8s cps) (length p) 0 = (True, length p + length (utf8 cp), cp)"
    by (intro decode_written) simp
  then show ?case using Cons.IH [of "p @ utf8 cp"] Cons.prems by (subst split_from.simps) (simp add: Let_def)
qed (simp add: split_from.simps)

lemma SplitCodepoints_written: "list_all is_scalar cps \<Longrightarrow> map cp_value (SplitCodepoints (utf8s cps)) = cps"
  using split_written [of cps "[]"] by (simp add: SplitCodepoints_def)

definition sample_rule :: PunctuationRule where
  "sample_rule = \<lparr>rule_kind = Comma, rule_match = utf8s [0x306e, 0x3067], base_score = Finite False 1 0, guards = []\<rparr>"

lemma sample_wants_comma: "wants_comma [sample_rule] (Finite False 0 0) (seg_surface (sample_segments ! 0)) (sample_segments ! 0) (sample_segments ! 1)"
proof -
  have "\<not> RecentComma (utf8s [0x96e8, 0x306a, 0x306e, 0x3067])"
    using SplitCodepoints_written [of "[0x96e8, 0x306a, 0x306e, 0x3067]"] by (simp add: RecentComma_def is_scalar_def Let_def del: utf8s_simps)
  moreover have "\<not> IsPunctuationEnd (utf8s [0x96e8, 0x306a, 0x306e, 0x3067])"
    by (simp add: IsPunctuationEnd_def EndsWith_def utf8_cases byte_eq_iff)
  moreover have "\<not> IsPunctuationStart (utf8s [0x4f11, 0x307f, 0x307e, 0x3059])"
    by (simp add: IsPunctuationStart_def StartsWith_def utf8_cases byte_eq_iff)
  moreover have "\<not> IsAsciiWord (utf8s [0x96e8, 0x306a, 0x306e, 0x3067])" by (simp add: IsAsciiWord_def utf8_cases)
  moreover have "EndsWith (utf8s [0x96e8, 0x306a, 0x306e, 0x3067]) (utf8s [0x306e, 0x3067])"
    by (simp add: EndsWith_def utf8_cases)
  ultimately show ?thesis
    by (simp add: wants_comma_def sample_segments_def empty_segment_def sample_rule_def MatchesGuard_def pow2_def del: utf8s_simps)
qed

theorem Insert_comma_places_witness:
  "\<exists>before mark after. result_segments (Insert sample_segments [sample_rule] ''ja'' (Finite False 0 0)) = before @ mark # after \<and>
     seg_surface mark = utf8s [0x3001] \<and> comma_place before (seg_surface (hd after))"
proof -
  let ?out = "AppendSegment \<lparr>result_surface = [], result_segments = []\<rparr> (sample_segments ! 0)"
  have split: "sample_segments = [sample_segments ! 0, sample_segments ! 1]" by (simp add: sample_segments_def)
  have no_period: "\<not> wants_period [sample_rule] [sample_segments ! 0, sample_segments ! 1]"
    by (simp add: wants_period_def sample_rule_def Let_def)
  have loop: "Insert sample_segments [sample_rule] ''ja'' (Finite False 0 0) =
      AppendSegment (AppendSegment ?out (mark_segment (comma_mark ''ja''))) (sample_segments ! 1)"
    using sample_wants_comma no_period by (subst (1) split) (simp add: Insert_def AppendSegment_def Let_def)
  obtain a where a: "result_segments ?out = [a]" using AppendSegment_result [of "\<lparr>result_surface = [], result_segments = []\<rparr>"] by fastforce
  obtain m where m: "result_segments (AppendSegment ?out (mark_segment (comma_mark ''ja''))) = [a, m]"
    "seg_surface m = comma_mark ''ja''" "seg_auto_punctuation m"
    using AppendSegment_result [of ?out "mark_segment (comma_mark ''ja'')"] a by auto
  obtain b where "result_segments (Insert sample_segments [sample_rule] ''ja'' (Finite False 0 0)) = [a, m, b]"
    using AppendSegment_result [of "AppendSegment ?out (mark_segment (comma_mark ''ja''))" "sample_segments ! 1"] m loop by auto
  then have eq: "result_segments (Insert sample_segments [sample_rule] ''ja'' (Finite False 0 0)) = [a] @ m # [b]" by simp
  have "comma_place [a] (seg_surface (hd [b]))" by (rule Insert_comma_places [OF sample_segments_plain eq m(3)]) simp
  moreover have "seg_surface m = utf8s [0x3001]" using m(2) by (simp add: comma_mark_def)
  ultimately show ?thesis using eq by blast
qed

end
