(* ===== verification/ConversionPayloads.thy ===== *)
theory ConversionPayloads
  imports PayloadWire PunctuationInserter
begin

text \<open>
  The payloads of the requests around a conversion (\<open>ipc/src/Payloads.cpp\<close> and \<open>Payloads.h\<close>): handshake,
  ping, health, diagnostics, model loading, candidates, live conversion, predictions, reverse and batch
  conversion, cancellation, and the observations of commits. Every payload is a record with the fields
  of its struct; \<open>Build\<dots>\<close> is the text sent, \<open>Parse\<dots>\<close> returns \<^term>\<open>None\<close> where the source returns
  \<open>std::nullopt\<close>. Unsigned fields are words of their width, so a \<open>static_cast\<close> is \<^term>\<open>word_of_nat\<close>.
\<close>

section \<open>Values\<close>

definition Value_u32 :: "32 word \<Rightarrow> json" where "Value_u32 w = Value_int (int (unat w))"
definition Value_u64 :: "64 word \<Rightarrow> json" where "Value_u64 w = Value_int (int (unat w))"
definition Value_u8 :: "nat \<Rightarrow> json" where "Value_u8 n = Value_int (int n)"

definition parse_object :: "string \<Rightarrow> json option" where
  "parse_object s = do { v \<leftarrow> Parse s; case v of JObject ms \<Rightarrow> Some v | _ \<Rightarrow> None }"

text \<open>The strings of an array; other elements are skipped.\<close>

definition strings_of :: "json list \<Rightarrow> string list" where
  "strings_of vs = List.map_filter (\<lambda>v. case v of JString s \<Rightarrow> Some s | _ \<Rightarrow> None) vs"

definition zero_double :: double where "zero_double = Finite False 0 (- 1074)"

section \<open>Segments and candidates\<close>

definition live_segment_json :: "WireSegment \<Rightarrow> json" where
  "live_segment_json seg = build_object
     ([(''start_char'', Value_u32 (start_char seg)), (''end_char'', Value_u32 (end_char seg)),
       (''score'', Value_double (seg_score seg)), (''auto_punctuation'', JBool (seg_auto_punctuation seg)),
       (''surface'', JString (seg_surface seg)), (''reading'', JString (seg_reading seg)),
       (''pos'', Value_u8 (seg_pos seg)), (''head_pos'', Value_u8 (head_pos seg)),
       (''sem'', Value_u8 (seg_sem seg)), (''head_sem'', Value_u8 (head_sem seg))] @
      member_if (seg_tag seg \<noteq> 0) ''tag'' (Value_u8 (seg_tag seg)))"

definition LiveSegmentsToJson :: "WireSegment list \<Rightarrow> json" where
  "LiveSegmentsToJson segments = JArray (map live_segment_json segments)"

definition read_byte :: "json \<Rightarrow> string \<Rightarrow> nat" where
  "read_byte v field = (let n = value_or (GetUInt v field) 0 in if n \<le> 255 then n else 0)"

definition is_object :: "json \<Rightarrow> bool" where
  "is_object v = (case v of JObject _ \<Rightarrow> True | _ \<Rightarrow> False)"

text \<open>One pass of the loop of \<open>LiveSegmentsFromJson\<close>; \<^term>\<open>None\<close> is \<open>continue\<close>.\<close>

definition live_segment_of :: "json \<Rightarrow> WireSegment option" where
  "live_segment_of item =
     (if \<not> is_object item then None
      else do {
        start \<leftarrow> GetUInt item ''start_char'';
        stop \<leftarrow> GetUInt item ''end_char'';
        score \<leftarrow> GetNumber item ''score'';
        surface \<leftarrow> GetString item ''surface'';
        let automatic = value_or (GetBool item ''auto_punctuation'') False;
        let reading = value_or (GetString item ''reading'') [];
        if start > 2 ^ 32 - 1 \<or> stop > 2 ^ 32 - 1 \<or> stop < start \<or> automatic \<and> reading \<noteq> [] then None
        else Some \<lparr>seg_auto_punctuation = automatic, seg_surface = surface, seg_reading = reading,
          start_char = word_of_nat start, end_char = word_of_nat stop, seg_score = score,
          seg_pos = read_byte item ''pos'', head_pos = read_byte item ''head_pos'', seg_sem = read_byte item ''sem'',
          head_sem = read_byte item ''head_sem'', seg_tag = read_byte item ''tag''\<rparr> })"

definition LiveSegmentsFromJson :: "json \<Rightarrow> WireSegment list" where
  "LiveSegmentsFromJson v = (case GetArray v ''segments'' of None \<Rightarrow> [] | Some items \<Rightarrow> List.map_filter live_segment_of items)"

record CandidateField =
  cand_surface :: string
  cand_reading :: string
  cand_score :: double
  cand_source :: string
  cand_description :: string
  cand_tag :: nat
  cand_segments :: "WireSegment list"

definition CandidateToJson :: "CandidateField \<Rightarrow> json" where
  "CandidateToJson c = build_object
     ([(''surface'', JString (cand_surface c)), (''reading'', JString (cand_reading c)),
       (''score'', Value_double (cand_score c)), (''source'', JString (cand_source c))] @
      member_if (cand_description c \<noteq> []) ''description'' (JString (cand_description c)) @
      member_if (cand_tag c \<noteq> 0) ''tag'' (Value_u8 (cand_tag c)) @
      member_if (cand_segments c \<noteq> []) ''segments'' (LiveSegmentsToJson (cand_segments c)))"

definition CandidateFromJson :: "json \<Rightarrow> CandidateField option" where
  "CandidateFromJson v =
     (if \<not> is_object v then None
      else do {
        surface \<leftarrow> GetString v ''surface'';
        reading \<leftarrow> GetString v ''reading'';
        Some \<lparr>cand_surface = surface, cand_reading = reading, cand_score = value_or (GetNumber v ''score'') zero_double,
          cand_source = value_or (GetString v ''source'') [], cand_description = value_or (GetString v ''description'') [],
          cand_tag = read_byte v ''tag'', cand_segments = LiveSegmentsFromJson v\<rparr> })"

record AppIdentity =
  process_name :: string
  window_class :: string

definition AppToJson :: "AppIdentity option \<Rightarrow> (string \<times> json) list" where
  "AppToJson app = member_opt ''app''
     (\<lambda>a. build_object [(''process_name'', JString (process_name a)), (''window_class'', JString (window_class a))]) app"

definition AppFromJson :: "json \<Rightarrow> AppIdentity option" where
  "AppFromJson v = do {
     a \<leftarrow> FindObject v ''app'';
     let process = value_or (GetString (JObject a) ''process_name'') [];
     let window = value_or (GetString (JObject a) ''window_class'') [];
     if process = [] \<and> window = [] then None else Some \<lparr>process_name = process, window_class = window\<rparr> }"

record BatchConversionSegment =
  batch_reading :: string
  batch_candidates :: "CandidateField list"

definition BatchSegmentToJson :: "BatchConversionSegment \<Rightarrow> json" where
  "BatchSegmentToJson seg = build_object
     [(''reading'', JString (batch_reading seg)), (''candidates'', JArray (map CandidateToJson (batch_candidates seg)))]"

definition BatchSegmentFromJson :: "json \<Rightarrow> BatchConversionSegment option" where
  "BatchSegmentFromJson v =
     (if \<not> is_object v then None
      else do {
        reading \<leftarrow> GetString v ''reading'';
        Some \<lparr>batch_reading = reading,
          batch_candidates = (case GetArray v ''candidates'' of None \<Rightarrow> [] | Some es \<Rightarrow> List.map_filter CandidateFromJson es)\<rparr> })"

section \<open>Handshake, ping, health\<close>

definition kHandshakeProtocolVersion :: int where "kHandshakeProtocolVersion = 1"

record HandshakeRequest =
  tip_version :: string
  request_protocol :: int
  request_capabilities :: "string list"
  client_id :: string
  handshake_token :: string

definition BuildHandshakeRequest :: "HandshakeRequest \<Rightarrow> string" where
  "BuildHandshakeRequest p = Stringify (build_object
     ([(''tip_version'', JString (tip_version p)), (''protocol_version'', Value_int (request_protocol p)),
       (''capabilities'', JArray (map JString (request_capabilities p)))] @
      member_if (client_id p \<noteq> []) ''client_id'' (JString (client_id p)) @
      member_if (handshake_token p \<noteq> []) ''handshake_token'' (JString (handshake_token p))))"

definition ParseHandshakeRequest :: "string \<Rightarrow> HandshakeRequest option" where
  "ParseHandshakeRequest json = do {
     v \<leftarrow> parse_object json;
     tip \<leftarrow> GetString v ''tip_version'';
     Some \<lparr>tip_version = tip,
       request_protocol = int_of_int64 (value_or (GetInt v ''protocol_version'') kHandshakeProtocolVersion),
       request_capabilities = (case GetArray v ''capabilities'' of None \<Rightarrow> [] | Some caps \<Rightarrow> strings_of caps),
       client_id = value_or (GetString v ''client_id'') [], handshake_token = value_or (GetString v ''handshake_token'') []\<rparr> }"

record HandshakeResponse =
  host_version :: string
  response_protocol :: int
  accepted :: bool
  response_model_loaded :: bool
  host_generation_id :: string
  response_capabilities :: "string list"
  batch_romaji_conversion :: bool
  batch_romaji_preview_style :: string
  batch_conversion_mode :: string
  batch_auto_punctuation :: bool
  number_rewriter :: bool
  katakana_rewriter :: bool
  response_max_candidates :: "32 word"
  symbol_rewriter :: bool
  emoji_rewriter :: bool
  emoji_trigger_search :: bool
  emoji_max_candidates :: "32 word"
  emoji_trigger_min_query_length :: "32 word"

definition BuildHandshakeResponse :: "HandshakeResponse \<Rightarrow> string" where
  "BuildHandshakeResponse p = Stringify (build_object
     ([(''host_version'', JString (host_version p)), (''protocol_version'', Value_int (response_protocol p)),
       (''accepted'', JBool (accepted p)), (''model_loaded'', JBool (response_model_loaded p)),
       (''capabilities'', JArray (map JString (response_capabilities p)))] @
      member_if (host_generation_id p \<noteq> []) ''host_generation_id'' (JString (host_generation_id p)) @
      [(''batch_romaji_conversion'', JBool (batch_romaji_conversion p)),
       (''batch_romaji_preview_style'', JString (batch_romaji_preview_style p)),
       (''batch_conversion_mode'', JString (batch_conversion_mode p)),
       (''batch_auto_punctuation'', JBool (batch_auto_punctuation p)),
       (''number_rewriter'', JBool (number_rewriter p)), (''katakana_rewriter'', JBool (katakana_rewriter p)),
       (''symbol_rewriter'', JBool (symbol_rewriter p)), (''emoji_rewriter'', JBool (emoji_rewriter p)),
       (''emoji_trigger_search'', JBool (emoji_trigger_search p)),
       (''emoji_max_candidates'', Value_u32 (emoji_max_candidates p)),
       (''emoji_trigger_min_query_length'', Value_u32 (emoji_trigger_min_query_length p)),
       (''max_candidates'', Value_u32 (response_max_candidates p))]))"

definition clamp :: "'a::linorder \<Rightarrow> 'a \<Rightarrow> 'a \<Rightarrow> 'a" where
  "clamp x lo hi = (if x < lo then lo else if hi < x then hi else x)"

definition ParseHandshakeResponse :: "string \<Rightarrow> HandshakeResponse option" where
  "ParseHandshakeResponse json = do {
     v \<leftarrow> parse_object json;
     host \<leftarrow> GetString v ''host_version'';
     Some \<lparr>host_version = host,
       response_protocol = int_of_int64 (value_or (GetInt v ''protocol_version'') kHandshakeProtocolVersion),
       accepted = value_or (GetBool v ''accepted'') False, response_model_loaded = value_or (GetBool v ''model_loaded'') False,
       host_generation_id = value_or (GetString v ''host_generation_id'') [],
       response_capabilities = (case GetArray v ''capabilities'' of None \<Rightarrow> [] | Some caps \<Rightarrow> strings_of caps),
       batch_romaji_conversion = value_or (GetBool v ''batch_romaji_conversion'') False,
       batch_romaji_preview_style = value_or (GetString v ''batch_romaji_preview_style'') ''kana'',
       batch_conversion_mode = value_or (GetString v ''batch_conversion_mode'') ''neural'',
       batch_auto_punctuation = value_or (GetBool v ''batch_auto_punctuation'') False,
       number_rewriter = value_or (GetBool v ''number_rewriter'') False,
       katakana_rewriter = value_or (GetBool v ''katakana_rewriter'') False,
       response_max_candidates =
         (case GetUInt v ''max_candidates'' of Some n \<Rightarrow> if n \<ge> 1 \<and> n \<le> 32 then word_of_nat n else 9 | None \<Rightarrow> 9),
       symbol_rewriter = value_or (GetBool v ''symbol_rewriter'') False,
       emoji_rewriter = value_or (GetBool v ''emoji_rewriter'') False,
       emoji_trigger_search = value_or (GetBool v ''emoji_trigger_search'') True,
       emoji_max_candidates = word_of_int (clamp (value_or (GetInt v ''emoji_max_candidates'') 12) 1 50),
       emoji_trigger_min_query_length = word_of_int (clamp (value_or (GetInt v ''emoji_trigger_min_query_length'') 1) 1 8)\<rparr> }"

record PingPayload =
  nonce :: "64 word"
  t_ms :: "64 word"

definition BuildPing :: "PingPayload \<Rightarrow> string" where
  "BuildPing p = Stringify (build_object [(''nonce'', Value_u64 (nonce p)), (''t_ms'', Value_u64 (t_ms p))])"

definition ParsePing :: "string \<Rightarrow> PingPayload option" where
  "ParsePing json = do {
     v \<leftarrow> parse_object json;
     n \<leftarrow> GetUInt v ''nonce'';
     Some \<lparr>nonce = word_of_nat n, t_ms = word_of_nat (value_or (GetUInt v ''t_ms'') 0)\<rparr> }"

record HealthPayload =
  health_status :: string
  health_backend :: string
  health_model_loaded :: bool
  health_vram_mb :: "32 word option"
  health_last_error :: "string option"

definition BuildHealth :: "HealthPayload \<Rightarrow> string" where
  "BuildHealth p = Stringify (build_object
     ([(''status'', JString (health_status p)), (''backend'', JString (health_backend p)),
       (''model_loaded'', JBool (health_model_loaded p))] @
      member_opt ''vram_mb'' Value_u32 (health_vram_mb p) @ member_opt ''last_error'' JString (health_last_error p)))"

definition ParseHealth :: "string \<Rightarrow> HealthPayload option" where
  "ParseHealth json = do {
     v \<leftarrow> parse_object json;
     status \<leftarrow> GetString v ''status'';
     backend \<leftarrow> GetString v ''backend'';
     Some \<lparr>health_status = status, health_backend = backend, health_model_loaded = value_or (GetBool v ''model_loaded'') False,
       health_vram_mb = map_option word_of_nat (GetUInt v ''vram_mb''), health_last_error = GetString v ''last_error''\<rparr> }"

section \<open>Diagnostics and model loading\<close>

record NeologdLayerStatus =
  layer_state :: string
  layer_reason :: "string option"

record BackendSelectionDiagnostics =
  selection_source :: string
  auto_backend :: string
  selection_reason :: string
  adapters_known :: bool
  hw_gpu_count :: "64 word"
  hw_ml_only_count :: "64 word"
  vulkan_loader :: bool
  cuda_runtime :: bool
  os_build :: "32 word"
  winml_os_eligible :: bool
  on_battery :: bool

record QueryDiagnosticsPayload =
  diag_model_loaded :: bool
  loaded_model_path :: "string option"
  diag_engine :: string
  diag_backend :: string
  rss_mb :: "64 word"
  diag_ep :: "string option"
  ep_state :: "string option"
  ep_last_error :: "string option"
  learning_entries :: "64 word"
  user_dict_entries :: "64 word"
  fallback_state :: string
  diag_last_error :: "string option"
  neologd_layer :: "NeologdLayerStatus option"
  backend_selection :: "BackendSelectionDiagnostics option"
  prompt_format :: "string option"

definition neologd_layer_json :: "NeologdLayerStatus \<Rightarrow> json" where
  "neologd_layer_json l = build_object ([(''state'', JString (layer_state l))] @ member_opt ''reason'' JString (layer_reason l))"

definition backend_selection_json :: "BackendSelectionDiagnostics \<Rightarrow> json" where
  "backend_selection_json s = build_object
     [(''source'', JString (selection_source s)), (''auto_backend'', JString (auto_backend s)), (''reason'', JString (selection_reason s)),
      (''adapters_known'', JBool (adapters_known s)), (''hw_gpu_count'', Value_u64 (hw_gpu_count s)),
      (''hw_ml_only_count'', Value_u64 (hw_ml_only_count s)), (''vulkan_loader'', JBool (vulkan_loader s)),
      (''cuda_runtime'', JBool (cuda_runtime s)), (''os_build'', Value_u32 (os_build s)),
      (''winml_os_eligible'', JBool (winml_os_eligible s)), (''on_battery'', JBool (on_battery s))]"

definition BuildQueryDiagnostics :: "QueryDiagnosticsPayload \<Rightarrow> string" where
  "BuildQueryDiagnostics p = Stringify (build_object
     ([(''model_loaded'', JBool (diag_model_loaded p))] @ member_opt ''loaded_model_path'' JString (loaded_model_path p) @
      [(''engine'', JString (diag_engine p)), (''backend'', JString (diag_backend p)), (''rss_mb'', Value_u64 (rss_mb p))] @
      member_opt ''ep'' JString (diag_ep p) @ member_opt ''ep_state'' JString (ep_state p) @
      member_opt ''ep_last_error'' JString (ep_last_error p) @
      [(''learning_entries'', Value_u64 (learning_entries p)), (''user_dict_entries'', Value_u64 (user_dict_entries p)),
       (''fallback_state'', JString (fallback_state p))] @
      member_opt ''last_error'' JString (diag_last_error p) @
      member_opt ''neologd_layer'' neologd_layer_json (neologd_layer p) @
      member_opt ''backend_selection'' backend_selection_json (backend_selection p) @
      member_opt ''prompt_format'' JString (prompt_format p)))"

definition BackendSelectionFromJson :: "json \<Rightarrow> BackendSelectionDiagnostics option" where
  "BackendSelectionFromJson v = do {
     object \<leftarrow> FindObject v ''backend_selection'';
     let s = JObject object;
     source \<leftarrow> GetString s ''source'';
     backend \<leftarrow> GetString s ''auto_backend'';
     reason \<leftarrow> GetString s ''reason'';
     adapters \<leftarrow> GetBool s ''adapters_known'';
     gpu_count \<leftarrow> GetUInt s ''hw_gpu_count'';
     ml_count \<leftarrow> GetUInt s ''hw_ml_only_count'';
     vulkan \<leftarrow> GetBool s ''vulkan_loader'';
     cuda \<leftarrow> GetBool s ''cuda_runtime'';
     build \<leftarrow> GetUInt s ''os_build'';
     eligible \<leftarrow> GetBool s ''winml_os_eligible'';
     battery \<leftarrow> GetBool s ''on_battery'';
     if build > 2 ^ 32 - 1 then None
     else Some \<lparr>selection_source = source, auto_backend = backend, selection_reason = reason, adapters_known = adapters,
       hw_gpu_count = word_of_nat gpu_count, hw_ml_only_count = word_of_nat ml_count, vulkan_loader = vulkan,
       cuda_runtime = cuda, os_build = word_of_nat build, winml_os_eligible = eligible, on_battery = battery\<rparr> }"

definition IsNeologdLayerState :: "string \<Rightarrow> bool" where
  "IsNeologdLayerState state \<longleftrightarrow> state \<in> {''not_requested'', ''loading'', ''ready'', ''missing_pack'', ''error''}"

definition NeologdLayerFromJson :: "json \<Rightarrow> NeologdLayerStatus option" where
  "NeologdLayerFromJson v = do {
     object \<leftarrow> FindObject v ''neologd_layer'';
     state \<leftarrow> GetString (JObject object) ''state'';
     if \<not> IsNeologdLayerState state then None
     else Some \<lparr>layer_state = state, layer_reason = (if state = ''error'' then GetString (JObject object) ''reason'' else None)\<rparr> }"

definition ParseQueryDiagnostics :: "string \<Rightarrow> QueryDiagnosticsPayload option" where
  "ParseQueryDiagnostics json = do {
     v \<leftarrow> parse_object json;
     engine \<leftarrow> GetString v ''engine'';
     backend \<leftarrow> GetString v ''backend'';
     fallback \<leftarrow> GetString v ''fallback_state'';
     Some \<lparr>diag_model_loaded = value_or (GetBool v ''model_loaded'') False, loaded_model_path = GetString v ''loaded_model_path'',
       diag_engine = engine, diag_backend = backend, rss_mb = word_of_nat (value_or (GetUInt v ''rss_mb'') 0),
       diag_ep = GetString v ''ep'', ep_state = GetString v ''ep_state'', ep_last_error = GetString v ''ep_last_error'',
       learning_entries = word_of_nat (value_or (GetUInt v ''learning_entries'') 0),
       user_dict_entries = word_of_nat (value_or (GetUInt v ''user_dict_entries'') 0), fallback_state = fallback,
       diag_last_error = GetString v ''last_error'', neologd_layer = NeologdLayerFromJson v,
       backend_selection = BackendSelectionFromJson v,
       prompt_format = (case GetString v ''prompt_format'' of
          Some f \<Rightarrow> if f = ''zenz-v3'' \<or> f = ''kanakanji-edge-v1'' then Some f else None | None \<Rightarrow> None)\<rparr> }"

record LoadModelRequest =
  load_path :: string
  load_backend :: string
  n_gpu_layers :: "int option"

definition BuildLoadModelRequest :: "LoadModelRequest \<Rightarrow> string" where
  "BuildLoadModelRequest p = Stringify (build_object
     ([(''path'', JString (load_path p)), (''backend'', JString (load_backend p))] @
      member_opt ''n_gpu_layers'' Value_int (n_gpu_layers p)))"

definition ParseLoadModelRequest :: "string \<Rightarrow> LoadModelRequest option" where
  "ParseLoadModelRequest json = do {
     v \<leftarrow> parse_object json;
     path \<leftarrow> GetString v ''path'';
     backend \<leftarrow> GetString v ''backend'';
     Some \<lparr>load_path = path, load_backend = backend, n_gpu_layers = map_option int_of_int64 (GetInt v ''n_gpu_layers'')\<rparr> }"

record LoadModelResponse =
  load_ok :: bool
  load_error :: "string option"

definition BuildLoadModelResponse :: "LoadModelResponse \<Rightarrow> string" where
  "BuildLoadModelResponse p = Stringify (build_object ([(''ok'', JBool (load_ok p))] @ member_opt ''error'' JString (load_error p)))"

definition ParseLoadModelResponse :: "string \<Rightarrow> LoadModelResponse option" where
  "ParseLoadModelResponse json = do {
     v \<leftarrow> parse_object json;
     r \<leftarrow> GetBool v ''ok'';
     Some \<lparr>load_ok = r, load_error = GetString v ''error''\<rparr> }"

section \<open>Candidates\<close>

definition kMaxAltReadings :: nat where "kMaxAltReadings = 7"

definition AltReadingsToJson :: "string list \<Rightarrow> (string \<times> json) list" where
  "AltReadingsToJson readings = member_if (readings \<noteq> []) ''alt_readings'' (JArray (map JString readings))"

fun alt_readings_loop :: "string list \<Rightarrow> json list \<Rightarrow> string list" where
  "alt_readings_loop readings [] = readings"
| "alt_readings_loop readings (e # es) =
     (if length readings = kMaxAltReadings then readings
      else alt_readings_loop (case e of JString s \<Rightarrow> if s \<noteq> [] then readings @ [s] else readings | _ \<Rightarrow> readings) es)"

definition AltReadingsFromJson :: "json \<Rightarrow> string list" where
  "AltReadingsFromJson v = (case GetArray v ''alt_readings'' of None \<Rightarrow> [] | Some es \<Rightarrow> alt_readings_loop [] es)"

record QueryCandidatesRequest =
  qc_reading :: string
  qc_left_context :: string
  qc_max_candidates :: "32 word"
  qc_live :: bool
  qc_auto_punctuation :: bool
  qc_punctuation_style :: string
  qc_emoji_trigger :: string
  qc_secure :: bool
  qc_learning_allowed :: bool
  qc_app :: "AppIdentity option"
  qc_raw_romaji :: string
  qc_english_candidates :: bool
  qc_mixed_english :: bool
  qc_alt_readings :: "string list"

definition BuildQueryCandidatesRequest :: "QueryCandidatesRequest \<Rightarrow> string" where
  "BuildQueryCandidatesRequest p = Stringify (build_object
     ([(''reading'', JString (qc_reading p)), (''left_context'', JString (qc_left_context p)),
       (''max_candidates'', Value_u32 (qc_max_candidates p)), (''live'', JBool (qc_live p)),
       (''auto_punctuation'', JBool (qc_auto_punctuation p)), (''punctuation_style'', JString (qc_punctuation_style p))] @
      member_if (qc_emoji_trigger p \<noteq> []) ''emoji_trigger'' (JString (qc_emoji_trigger p)) @
      [(''secure'', JBool (qc_secure p)), (''learning_allowed'', JBool (qc_learning_allowed p))] @
      AppToJson (qc_app p) @
      member_if (qc_raw_romaji p \<noteq> []) ''raw_romaji'' (JString (qc_raw_romaji p)) @
      member_if (qc_english_candidates p) ''english_candidates'' (JBool True) @
      member_if (qc_mixed_english p) ''mixed_english'' (JBool True) @
      AltReadingsToJson (qc_alt_readings p)))"

definition ParseQueryCandidatesRequest :: "string \<Rightarrow> QueryCandidatesRequest option" where
  "ParseQueryCandidatesRequest json = do {
     v \<leftarrow> parse_object json;
     reading \<leftarrow> GetString v ''reading'';
     Some \<lparr>qc_reading = reading, qc_left_context = value_or (GetString v ''left_context'') [],
       qc_max_candidates = (case GetUInt v ''max_candidates'' of Some m \<Rightarrow> word_of_nat m | None \<Rightarrow> 10),
       qc_live = value_or (GetBool v ''live'') False, qc_auto_punctuation = value_or (GetBool v ''auto_punctuation'') False,
       qc_punctuation_style = value_or (GetString v ''punctuation_style'') ''ja'',
       qc_emoji_trigger = value_or (GetString v ''emoji_trigger'') [],
       qc_secure = value_or (GetBool v ''secure'') True, qc_learning_allowed = value_or (GetBool v ''learning_allowed'') False,
       qc_app = AppFromJson v, qc_raw_romaji = value_or (GetString v ''raw_romaji'') [],
       qc_english_candidates = value_or (GetBool v ''english_candidates'') False,
       qc_mixed_english = value_or (GetBool v ''mixed_english'') False, qc_alt_readings = AltReadingsFromJson v\<rparr> }"

record QueryCandidatesResponse =
  qr_candidates :: "CandidateField list"
  qr_segments :: "WireSegment list"
  qr_partial :: bool
  qr_ok :: bool
  qr_error :: "string option"
  qr_corrected_reading :: string

definition BuildQueryCandidatesResponse :: "QueryCandidatesResponse \<Rightarrow> string" where
  "BuildQueryCandidatesResponse p = Stringify (build_object
     (member_if (\<not> qr_ok p) ''ok'' (JBool False) @ member_opt ''error'' JString (qr_error p) @
      [(''candidates'', JArray (map CandidateToJson (qr_candidates p))), (''partial'', JBool (qr_partial p))] @
      member_if (qr_segments p \<noteq> []) ''segments'' (LiveSegmentsToJson (qr_segments p)) @
      member_if (qr_corrected_reading p \<noteq> []) ''corrected_reading'' (JString (qr_corrected_reading p))))"

definition ParseQueryCandidatesResponse :: "string \<Rightarrow> QueryCandidatesResponse option" where
  "ParseQueryCandidatesResponse json = do {
     v \<leftarrow> parse_object json;
     Some \<lparr>qr_candidates = (case GetArray v ''candidates'' of None \<Rightarrow> [] | Some es \<Rightarrow> List.map_filter CandidateFromJson es),
       qr_segments = LiveSegmentsFromJson v, qr_partial = value_or (GetBool v ''partial'') False,
       qr_ok = value_or (GetBool v ''ok'') True, qr_error = GetString v ''error'',
       qr_corrected_reading = value_or (GetString v ''corrected_reading'') []\<rparr> }"

section \<open>Live conversion, predictions, reverse conversion\<close>

record QueryLiveConversionRequest =
  ql_kana :: string
  ql_context :: string
  ql_auto_punctuation :: bool
  ql_punctuation_style :: string
  ql_raw_romaji :: string
  ql_mixed_english :: bool
  ql_secure :: bool

definition BuildQueryLiveConversionRequest :: "QueryLiveConversionRequest \<Rightarrow> string" where
  "BuildQueryLiveConversionRequest p = Stringify (build_object
     ([(''kana'', JString (ql_kana p)), (''context'', JString (ql_context p)),
       (''auto_punctuation'', JBool (ql_auto_punctuation p)), (''punctuation_style'', JString (ql_punctuation_style p))] @
      member_if (ql_raw_romaji p \<noteq> []) ''raw_romaji'' (JString (ql_raw_romaji p)) @
      member_if (ql_mixed_english p) ''mixed_english'' (JBool True) @
      member_if (\<not> ql_secure p) ''secure'' (JBool False)))"

definition ParseQueryLiveConversionRequest :: "string \<Rightarrow> QueryLiveConversionRequest option" where
  "ParseQueryLiveConversionRequest json = do {
     v \<leftarrow> parse_object json;
     k \<leftarrow> GetString v ''kana'';
     context_text \<leftarrow> GetString v ''context'';
     Some \<lparr>ql_kana = k, ql_context = context_text, ql_auto_punctuation = value_or (GetBool v ''auto_punctuation'') False,
       ql_punctuation_style = value_or (GetString v ''punctuation_style'') ''ja'',
       ql_raw_romaji = value_or (GetString v ''raw_romaji'') [], ql_mixed_english = value_or (GetBool v ''mixed_english'') False,
       ql_secure = value_or (GetBool v ''secure'') True\<rparr> }"

record QueryLiveConversionResponse =
  lr_surface :: string
  lr_confidence :: double
  lr_segments :: "WireSegment list"

definition BuildQueryLiveConversionResponse :: "QueryLiveConversionResponse \<Rightarrow> string" where
  "BuildQueryLiveConversionResponse p = Stringify (build_object
     ([(''surface'', JString (lr_surface p)), (''confidence'', Value_double (lr_confidence p))] @
      member_if (lr_segments p \<noteq> []) ''segments'' (LiveSegmentsToJson (lr_segments p))))"

text \<open>\<open>!isfinite(c) || c < 0.0 || c > 1.0\<close>\<close>

definition outside_unit :: "double \<Rightarrow> bool" where
  "outside_unit d \<longleftrightarrow> \<not> isfinite d \<or> rat_of_double d < 0 \<or> rat_of_double d > 1"

definition ParseQueryLiveConversionResponse :: "string \<Rightarrow> QueryLiveConversionResponse option" where
  "ParseQueryLiveConversionResponse json = do {
     v \<leftarrow> parse_object json;
     surface \<leftarrow> GetString v ''surface'';
     confidence \<leftarrow> GetNumber v ''confidence'';
     if outside_unit confidence then None
     else Some \<lparr>lr_surface = surface, lr_confidence = confidence, lr_segments = LiveSegmentsFromJson v\<rparr> }"

record QueryPredictionsRequest =
  qp_kana :: string
  left_side_context :: string
  qp_mode :: string
  qp_app :: "AppIdentity option"
  qp_secure :: bool

definition BuildQueryPredictionsRequest :: "QueryPredictionsRequest \<Rightarrow> string" where
  "BuildQueryPredictionsRequest p = Stringify (build_object
     ([(''kana'', JString (qp_kana p)), (''leftSideContext'', JString (left_side_context p)), (''mode'', JString (qp_mode p))] @
      AppToJson (qp_app p) @ member_if (\<not> qp_secure p) ''secure'' (JBool False)))"

definition ParseQueryPredictionsRequest :: "string \<Rightarrow> QueryPredictionsRequest option" where
  "ParseQueryPredictionsRequest json = do {
     v \<leftarrow> parse_object json;
     k \<leftarrow> GetString v ''kana'';
     left \<leftarrow> GetString v ''leftSideContext'';
     mode \<leftarrow> GetString v ''mode'';
     Some \<lparr>qp_kana = k, left_side_context = left, qp_mode = mode, qp_app = AppFromJson v,
       qp_secure = value_or (GetBool v ''secure'') True\<rparr> }"

record QueryPredictionsResponse =
  predictions :: "CandidateField list"
  pr_ok :: bool
  pr_error :: "string option"

definition BuildQueryPredictionsResponse :: "QueryPredictionsResponse \<Rightarrow> string" where
  "BuildQueryPredictionsResponse p = Stringify (build_object
     (member_if (\<not> pr_ok p) ''ok'' (JBool False) @ member_opt ''error'' JString (pr_error p) @
      [(''predictions'', JArray (map CandidateToJson (predictions p)))]))"

definition ParseQueryPredictionsResponse :: "string \<Rightarrow> QueryPredictionsResponse option" where
  "ParseQueryPredictionsResponse json = do {
     v \<leftarrow> parse_object json;
     es \<leftarrow> GetArray v ''predictions'';
     Some \<lparr>predictions = List.map_filter CandidateFromJson es, pr_ok = value_or (GetBool v ''ok'') True,
       pr_error = GetString v ''error''\<rparr> }"

record ReverseConvertRequest =
  rc_surface :: string

definition BuildReverseConvertRequest :: "ReverseConvertRequest \<Rightarrow> string" where
  "BuildReverseConvertRequest p = Stringify (build_object [(''surface'', JString (rc_surface p))])"

definition ParseReverseConvertRequest :: "string \<Rightarrow> ReverseConvertRequest option" where
  "ParseReverseConvertRequest json = do {
     v \<leftarrow> parse_object json;
     surface \<leftarrow> GetString v ''surface'';
     if surface = [] then None else Some \<lparr>rc_surface = surface\<rparr> }"

record ReverseConvertResponse =
  rr_reading :: string
  rr_confidence :: double

definition BuildReverseConvertResponse :: "ReverseConvertResponse \<Rightarrow> string" where
  "BuildReverseConvertResponse p = Stringify (build_object
     [(''reading'', JString (rr_reading p)), (''confidence'', Value_double (rr_confidence p))])"

definition ParseReverseConvertResponse :: "string \<Rightarrow> ReverseConvertResponse option" where
  "ParseReverseConvertResponse json = do {
     v \<leftarrow> parse_object json;
     reading \<leftarrow> GetString v ''reading'';
     confidence \<leftarrow> GetNumber v ''confidence'';
     if outside_unit confidence \<or> (reading = []) \<noteq> (rat_of_double confidence = 0) then None
     else Some \<lparr>rr_reading = reading, rr_confidence = confidence\<rparr> }"

section \<open>Batch conversion and cancellation\<close>

record QueryBatchConversionRequest =
  qb_reading :: string
  qb_raw_romaji :: string
  qb_mode :: string
  qb_auto_punctuation :: bool
  qb_max_candidates :: "32 word"
  ai_allowed :: bool
  external_ai_allowed :: bool
  ai_backend :: string
  qb_english_candidates :: bool
  qb_secure :: bool

definition BuildQueryBatchConversionRequest :: "QueryBatchConversionRequest \<Rightarrow> string" where
  "BuildQueryBatchConversionRequest p = Stringify (build_object
     ([(''reading'', JString (qb_reading p))] @ member_if (qb_raw_romaji p \<noteq> []) ''raw_romaji'' (JString (qb_raw_romaji p)) @
      [(''ai_allowed'', JBool (ai_allowed p)), (''external_ai_allowed'', JBool (external_ai_allowed p))] @
      member_if (ai_backend p \<noteq> []) ''ai_backend'' (JString (ai_backend p)) @
      [(''mode'', JString (qb_mode p)), (''auto_punctuation'', JBool (qb_auto_punctuation p)),
       (''max_candidates'', Value_u32 (qb_max_candidates p))] @
      member_if (qb_english_candidates p) ''english_candidates'' (JBool True) @
      member_if (\<not> qb_secure p) ''secure'' (JBool False)))"

definition ParseQueryBatchConversionRequest :: "string \<Rightarrow> QueryBatchConversionRequest option" where
  "ParseQueryBatchConversionRequest json = do {
     v \<leftarrow> parse_object json;
     reading \<leftarrow> GetString v ''reading'';
     let allowed = value_or (GetBool v ''ai_allowed'') False;
     let backend = value_or (GetString v ''ai_backend'') [];
     if backend \<noteq> [] \<and> backend \<noteq> ''none'' \<and> backend \<noteq> ''openai'' \<and> backend \<noteq> ''local-zenzai'' then None
     else Some \<lparr>qb_reading = reading, qb_raw_romaji = value_or (GetString v ''raw_romaji'') [],
       qb_mode = value_or (GetString v ''mode'') ''neural'', qb_auto_punctuation = value_or (GetBool v ''auto_punctuation'') False,
       qb_max_candidates = (case GetUInt v ''max_candidates'' of Some m \<Rightarrow> word_of_nat m | None \<Rightarrow> 10),
       ai_allowed = allowed, external_ai_allowed = (allowed \<and> value_or (GetBool v ''external_ai_allowed'') False),
       ai_backend = backend, qb_english_candidates = value_or (GetBool v ''english_candidates'') False,
       qb_secure = value_or (GetBool v ''secure'') True\<rparr> }"

record QueryBatchConversionResponse =
  br_segments :: "BatchConversionSegment list"
  full_surface :: string
  br_partial :: bool
  canceled :: bool
  error_class :: "string option"

definition BuildQueryBatchConversionResponse :: "QueryBatchConversionResponse \<Rightarrow> string" where
  "BuildQueryBatchConversionResponse p = Stringify (build_object
     ([(''segments'', JArray (map BatchSegmentToJson (br_segments p))), (''full_surface'', JString (full_surface p)),
       (''partial'', JBool (br_partial p)), (''canceled'', JBool (canceled p))] @
      member_opt ''error_class'' JString (error_class p)))"

definition ParseQueryBatchConversionResponse :: "string \<Rightarrow> QueryBatchConversionResponse option" where
  "ParseQueryBatchConversionResponse json = do {
     v \<leftarrow> parse_object json;
     Some \<lparr>br_segments = (case GetArray v ''segments'' of None \<Rightarrow> [] | Some es \<Rightarrow> List.map_filter BatchSegmentFromJson es),
       full_surface = value_or (GetString v ''full_surface'') [], br_partial = value_or (GetBool v ''partial'') False,
       canceled = value_or (GetBool v ''canceled'') False, error_class = GetString v ''error_class''\<rparr> }"

record CancelPayload =
  target_request_id :: "64 word"

definition BuildCancel :: "CancelPayload \<Rightarrow> string" where
  "BuildCancel p = Stringify (build_object [(''target_request_id'', Value_u64 (target_request_id p))])"

definition ParseCancel :: "string \<Rightarrow> CancelPayload option" where
  "ParseCancel json = do {
     v \<leftarrow> parse_object json;
     n \<leftarrow> GetUInt v ''target_request_id'';
     Some \<lparr>target_request_id = word_of_nat n\<rparr> }"

section \<open>Observed commits\<close>

record CommitObservationRequest =
  co_reading :: string
  co_chosen :: CandidateField
  co_shown :: "CandidateField list"
  co_left_context :: string
  co_timestamp_ms :: "64 word"
  co_observation_id :: string
  co_secure :: bool
  co_learning_allowed :: bool
  co_app :: "AppIdentity option"

definition BuildCommitObservationRequest :: "CommitObservationRequest \<Rightarrow> string" where
  "BuildCommitObservationRequest p = Stringify (build_object
     ([(''reading'', JString (co_reading p)), (''chosen'', CandidateToJson (co_chosen p)),
       (''shown'', JArray (map CandidateToJson (co_shown p))), (''left_context'', JString (co_left_context p)),
       (''timestamp_ms'', Value_u64 (co_timestamp_ms p)), (''observation_id'', JString (co_observation_id p)),
       (''secure'', JBool (co_secure p)), (''learning_allowed'', JBool (co_learning_allowed p))] @
      AppToJson (co_app p)))"

definition ParseCommitObservationRequest :: "string \<Rightarrow> CommitObservationRequest option" where
  "ParseCommitObservationRequest json = do {
     v \<leftarrow> parse_object json;
     reading \<leftarrow> GetString v ''reading'';
     chosen \<leftarrow> Find v ''chosen'';
     cand \<leftarrow> CandidateFromJson chosen;
     Some \<lparr>co_reading = reading, co_chosen = cand,
       co_shown = (case GetArray v ''shown'' of None \<Rightarrow> [] | Some es \<Rightarrow> List.map_filter CandidateFromJson es),
       co_left_context = value_or (GetString v ''left_context'') [],
       co_timestamp_ms = word_of_nat (value_or (GetUInt v ''timestamp_ms'') 0),
       co_observation_id = value_or (GetString v ''observation_id'') [], co_secure = value_or (GetBool v ''secure'') True,
       co_learning_allowed = value_or (GetBool v ''learning_allowed'') False, co_app = AppFromJson v\<rparr> }"

record CommitObservationResponse =
  cr_ok :: bool

definition BuildCommitObservationResponse :: "CommitObservationResponse \<Rightarrow> string" where
  "BuildCommitObservationResponse p = Stringify (build_object [(''ok'', JBool (cr_ok p))])"

definition ParseCommitObservationResponse :: "string \<Rightarrow> CommitObservationResponse option" where
  "ParseCommitObservationResponse json = do {
     v \<leftarrow> parse_object json;
     r \<leftarrow> GetBool v ''ok'';
     Some \<lparr>cr_ok = r\<rparr> }"

record ObservedSegment =
  os_reading :: string
  os_chosen :: CandidateField
  os_shown :: "CandidateField list"
  is_auto_punctuation :: bool

record CommitSegmentsObservationRequest =
  cs_segments :: "ObservedSegment list"
  cs_left_context :: string
  cs_timestamp_ms :: "64 word"
  cs_observation_id :: string
  cs_secure :: bool
  cs_learning_allowed :: bool
  cs_app :: "AppIdentity option"

definition observed_segment_json :: "ObservedSegment \<Rightarrow> json" where
  "observed_segment_json seg = build_object
     [(''reading'', JString (os_reading seg)), (''chosen'', CandidateToJson (os_chosen seg)),
      (''shown'', JArray (map CandidateToJson (os_shown seg))), (''is_auto_punctuation'', JBool (is_auto_punctuation seg))]"

definition BuildCommitSegmentsObservationRequest :: "CommitSegmentsObservationRequest \<Rightarrow> string" where
  "BuildCommitSegmentsObservationRequest p = Stringify (build_object
     ([(''segments'', JArray (map observed_segment_json (cs_segments p))), (''left_context'', JString (cs_left_context p)),
       (''timestamp_ms'', Value_u64 (cs_timestamp_ms p)), (''observation_id'', JString (cs_observation_id p)),
       (''secure'', JBool (cs_secure p)), (''learning_allowed'', JBool (cs_learning_allowed p))] @
      AppToJson (cs_app p)))"

text \<open>The first malformed element ends the parse.\<close>

fun all_of :: "('a \<Rightarrow> 'b option) \<Rightarrow> 'a list \<Rightarrow> 'b list option" where
  "all_of f [] = Some []"
| "all_of f (x # xs) = do { y \<leftarrow> f x; ys \<leftarrow> all_of f xs; Some (y # ys) }"

definition observed_segment_of :: "json \<Rightarrow> ObservedSegment option" where
  "observed_segment_of item = do {
     reading \<leftarrow> GetString item ''reading'';
     chosen \<leftarrow> Find item ''chosen'';
     cand \<leftarrow> CandidateFromJson chosen;
     let automatic = value_or (GetBool item ''is_auto_punctuation'') False;
     if cand_surface cand = [] \<or> reading = [] \<and> \<not> automatic then None
     else do {
       shown \<leftarrow> (case GetArray item ''shown'' of None \<Rightarrow> Some [] | Some es \<Rightarrow> all_of CandidateFromJson es);
       Some \<lparr>os_reading = reading, os_chosen = cand, os_shown = shown, is_auto_punctuation = automatic\<rparr> } }"

definition ParseCommitSegmentsObservationRequest :: "string \<Rightarrow> CommitSegmentsObservationRequest option" where
  "ParseCommitSegmentsObservationRequest json = do {
     v \<leftarrow> parse_object json;
     items \<leftarrow> GetArray v ''segments'';
     if items = [] then None
     else do {
       segments \<leftarrow> all_of observed_segment_of items;
       Some \<lparr>cs_segments = segments, cs_left_context = value_or (GetString v ''left_context'') [],
         cs_timestamp_ms = word_of_nat (value_or (GetUInt v ''timestamp_ms'') 0),
         cs_observation_id = value_or (GetString v ''observation_id'') [], cs_secure = value_or (GetBool v ''secure'') True,
         cs_learning_allowed = value_or (GetBool v ''learning_allowed'') False, cs_app = AppFromJson v\<rparr> } }"

record CommitCorrectionRequest =
  cc_kind :: string
  cc_reading :: string
  rejected_surface :: string
  selected_surface :: "string option"
  cc_left_context :: string
  cc_timestamp_ms :: "64 word"
  cc_observation_id :: string
  cc_secure :: bool
  cc_learning_allowed :: bool
  cc_app :: "AppIdentity option"

definition BuildCommitCorrectionRequest :: "CommitCorrectionRequest \<Rightarrow> string" where
  "BuildCommitCorrectionRequest p = Stringify (build_object
     ([(''kind'', JString (cc_kind p)), (''reading'', JString (cc_reading p)), (''rejected_surface'', JString (rejected_surface p))] @
      member_opt ''selected_surface'' JString (selected_surface p) @
      [(''left_context'', JString (cc_left_context p)), (''timestamp_ms'', Value_u64 (cc_timestamp_ms p)),
       (''observation_id'', JString (cc_observation_id p)), (''secure'', JBool (cc_secure p)),
       (''learning_allowed'', JBool (cc_learning_allowed p))] @
      AppToJson (cc_app p)))"

text \<open>The kind must agree with the selected surface.\<close>

definition correction_ok :: "string \<Rightarrow> string \<Rightarrow> string option \<Rightarrow> bool" where
  "correction_ok kind rejected selected =
     (if kind = ''undo'' then selected = None
      else if kind = ''reconvert'' then (case selected of None \<Rightarrow> False | Some s \<Rightarrow> s \<noteq> [] \<and> s \<noteq> rejected)
      else False)"

definition ParseCommitCorrectionRequest :: "string \<Rightarrow> CommitCorrectionRequest option" where
  "ParseCommitCorrectionRequest json = do {
     v \<leftarrow> parse_object json;
     kind \<leftarrow> GetString v ''kind'';
     reading \<leftarrow> GetString v ''reading'';
     rejected \<leftarrow> GetString v ''rejected_surface'';
     let selected = GetString v ''selected_surface'';
     if reading = [] \<or> rejected = [] \<or> \<not> correction_ok kind rejected selected then None
     else Some \<lparr>cc_kind = kind, cc_reading = reading, rejected_surface = rejected, selected_surface = selected,
       cc_left_context = value_or (GetString v ''left_context'') [],
       cc_timestamp_ms = word_of_nat (value_or (GetUInt v ''timestamp_ms'') 0),
       cc_observation_id = value_or (GetString v ''observation_id'') [], cc_secure = value_or (GetBool v ''secure'') True,
       cc_learning_allowed = value_or (GetBool v ''learning_allowed'') False, cc_app = AppFromJson v\<rparr> }"

end
