(* ===== verification/PayloadRoundTrip.thy ===== *)
theory PayloadRoundTrip
  imports ConversionPayloads
begin

text \<open>
  What is sent is received: for every payload of \<open>ConversionPayloads\<close>, parsing the text that was built
  gives the payload back. The conditions are those of the fields, \<open>\<dots>_ok\<close>: texts are UTF-8, scores are
  numbers that can be written, small numbers are in their range, and the text fits the parser.
\<close>

section \<open>Members\<close>

lemma valid_utf8_plain [simp]:
  "list_all (\<lambda>c. 0x20 \<le> ord c \<and> ord c < 0x80 \<and> c \<noteq> CHR 0x22 \<and> c \<noteq> CHR 0x5c) s \<Longrightarrow> valid_utf8 s"
  using plain_text by blast

lemma list_all_member_if [simp]: "list_all P (member_if c k v) \<longleftrightarrow> (c \<longrightarrow> P (k, v))"
  by (simp add: member_if_def)

lemma map_add_members [simp]:
  "(m ++ map_of (member_if c k v)) k' = (if c \<and> k' = k then Some v else m k')"
  "(m ++ map_of (member_opt k f x)) k' = (if k' = k \<and> x \<noteq> None then map_option f x else m k')"
  by (simp add: member_if_def) (cases x; simp add: member_opt_def)

definition member_ok :: "nat \<Rightarrow> string \<times> json \<Rightarrow> bool" where
  "member_ok n = (\<lambda>(k, v). valid_utf8 k \<and> sendable v \<and> json_depth v \<le> n)"

lemma member_ok_simp [simp]: "member_ok n (k, v) \<longleftrightarrow> valid_utf8 k \<and> sendable v \<and> json_depth v \<le> n"
  by (simp add: member_ok_def)

lemma list_all_member_opt [simp]:
  "valid_utf8 k \<Longrightarrow> list_all (member_ok n) (member_opt k f x) \<longleftrightarrow> pred_option (\<lambda>y. sendable (f y) \<and> json_depth (f y) \<le> n) x"
  by (cases x) (simp_all add: member_opt_def)

lemma pred_option_True [simp]: "pred_option (\<lambda>y. True) x"
  by (cases x) simp_all

lemma built_ok:
  assumes "list_all (member_ok n) ms"
  shows "sendable (build_object ms) \<and> json_depth (build_object ms) \<le> Suc n"
  using assms sendable_build_object [of ms] depth_build_object [of n ms] by (auto simp: list_all_iff member_ok_def)

lemma array_ok:
  assumes "list_all (\<lambda>v. sendable v \<and> json_depth v \<le> n) vs"
  shows "sendable (JArray vs) \<and> json_depth (JArray vs) \<le> Suc n"
  unfolding depth_array using assms by (auto simp: list_all_iff less_Suc_eq_le)

definition fits :: "string \<Rightarrow> bool" where
  "fits s \<longleftrightarrow> length s \<le> kMaxJsonInputBytes"

lemma parse_object_built:
  assumes "list_all (member_ok 8) ms" "fits (Stringify (build_object ms))"
  shows "parse_object (Stringify (build_object ms)) = Some (wire (build_object ms))"
proof -
  have "sendable (build_object ms)" "json_depth (build_object ms) \<le> kMaxJsonNestDepth"
    using built_ok [OF assms(1)] by (auto simp: kMaxJsonNestDepth_def)
  then have "Parse (Stringify (build_object ms)) = Some (wire (build_object ms))" using assms(2) by (intro Parse_built) (simp_all add: fits_def)
  then show ?thesis by (simp add: parse_object_def build_object_def)
qed

section \<open>Scalars\<close>

lemma Value_int_sendable: "\<bar>v\<bar> < 2 ^ 64 \<Longrightarrow> sendable (Value_int v) \<and> json_depth (Value_int v) = 0"
  using Value_int_wf [of v] by (auto simp: Value_int_def number_token_def scan_number_def scan_int_def scan_sign_def split: if_splits)

lemma unat_u32: "unat (w :: 32 word) < 2 ^ 64"
proof -
  have "unat w < 2 ^ 32" using unsigned_less [of w] by simp
  also have "\<dots> \<le> 2 ^ 64" by simp
  finally show ?thesis .
qed

lemma unat_u64: "unat (w :: 64 word) < 2 ^ 64" using unsigned_less [of w] by simp

lemma Value_nat_ok:
  "n < 2 ^ 64 \<Longrightarrow> sendable (Value_int (int n)) \<and> json_depth (Value_int (int n)) = 0 \<and> as_uint (Some (Value_int (int n))) = Some n"
  using Value_int_sendable [of "int n"] by simp

lemma scalar_ok [simp]:
  "sendable (Value_u32 a)" "json_depth (Value_u32 a) = 0" "as_uint (Some (Value_u32 a)) = Some (unat a)"
  "sendable (Value_u64 b)" "json_depth (Value_u64 b) = 0" "as_uint (Some (Value_u64 b)) = Some (unat b)"
  "sendable (Value_double d) \<longleftrightarrow> sendable_double d" "json_depth (Value_double d) = 0"
  using Value_nat_ok [OF unat_u32 [of a]] Value_nat_ok [OF unat_u64 [of b]]
  unfolding Value_u32_def Value_u64_def by (blast+, simp_all add: Value_double_def)

lemma byte_values [simp]:
  "n \<le> 255 \<Longrightarrow> sendable (Value_u8 n)" "json_depth (Value_u8 n) = 0" "n \<le> 255 \<Longrightarrow> as_uint (Some (Value_u8 n)) = Some n"
  using Value_nat_ok [of n] by (simp_all add: Value_u8_def) (simp add: Value_int_def)

lemma as_option [simp]:
  "as_string (map_option JString x) = x" "as_uint (map_option Value_u32 y) = map_option unat y"
  "as_number (map_option Value_double z) = z"
  by (cases x; cases y; cases z; simp)+

lemma word_unat [simp]: "map_option (word_of_nat :: nat \<Rightarrow> 32 word) (map_option unat y) = y"
  by (cases y) simp_all

definition byte_ok :: "nat \<Rightarrow> bool" where "byte_ok n \<longleftrightarrow> n \<le> 255"

lemma byte_ok_values [simp]: "byte_ok n \<Longrightarrow> sendable (Value_u8 n)" "byte_ok n \<Longrightarrow> as_uint (Some (Value_u8 n)) = Some n"
  by (simp_all add: byte_ok_def)

lemma is_object_built [simp]: "is_object (wire (build_object ms))" "is_object (build_object ms)"
  by (simp_all add: is_object_def build_object_def)

lemma read_byte_built [reads]: "read_byte (wire (build_object ms)) k = (let n = value_or (as_uint (map_of ms k)) 0 in if n \<le> 255 then n else 0)"
  by (simp add: read_byte_def reads)

lemma GetArray_built [reads]: "GetArray (wire (build_object ms)) k = map_option (map wire) (as_array (map_of ms k))"
  by (simp add: reads)

lemma strings_of_map [simp]: "strings_of (map wire (map JString ss)) = ss" "strings_of (map JString ss) = ss"
  by (simp_all add: strings_of_def List.map_filter_def comp_def)

lemma map_filter_inverse: "\<forall>x \<in> set xs. f (g x) = Some x \<Longrightarrow> List.map_filter f (map g xs) = xs"
  by (induction xs) (simp_all add: List.map_filter_simps)

lemma all_of_inverse: "\<forall>x \<in> set xs. f (g x) = Some x \<Longrightarrow> all_of f (map g xs) = Some xs"
  by (induction xs) simp_all

lemma strings_ok [simp]:
  "foldr max (map (json_depth \<circ> JString) ss) 0 = 0" "map (wire \<circ> JString) ss = map JString ss"
  by (induction ss) simp_all

lemma Ball_valid_utf8 [simp]: "Ball (set ss) valid_utf8 \<longleftrightarrow> list_all valid_utf8 ss"
  by (simp add: list_all_iff)

text \<open>A member that is left out when it has its default is read as the default.\<close>

lemma optional [simp]:
  "value_or (as_string (if x \<noteq> [] then Some (JString x) else None)) [] = x"
  "value_or (as_string (if x = [] then None else Some (JString x))) [] = x"
  "value_or (as_bool (if b then Some (JBool True) else None)) False = b"
  "value_or (as_bool (if \<not> b then Some (JBool False) else None)) True = b"
  "value_or (as_bool (if b then None else Some (JBool False))) True = b"
  "(if y \<noteq> None then map_option f y else None) = map_option f y"
  "(if y = None then None else map_option f y) = map_option f y"
  "(if \<exists>z. y = Some z then map_option f y else None) = map_option f y"
  by (auto split: option.splits)

section \<open>Segments, candidates, applications\<close>

definition segment_ok :: "WireSegment \<Rightarrow> bool" where
  "segment_ok seg \<longleftrightarrow> sendable_double (seg_score seg) \<and> valid_utf8 (seg_surface seg) \<and> valid_utf8 (seg_reading seg) \<and>
     start_char seg \<le> end_char seg \<and> (seg_auto_punctuation seg \<longrightarrow> seg_reading seg = []) \<and>
     seg_pos seg \<le> 255 \<and> head_pos seg \<le> 255 \<and> seg_sem seg \<le> 255 \<and> head_sem seg \<le> 255 \<and> seg_tag seg \<le> 255"

lemma segment_sent:
  assumes ok: "segment_ok seg"
  shows "sendable (live_segment_json seg) \<and> json_depth (live_segment_json seg) \<le> 1"
    and "live_segment_of (wire (live_segment_json seg)) = Some seg"
proof -
  show "sendable (live_segment_json seg) \<and> json_depth (live_segment_json seg) \<le> 1"
    unfolding live_segment_json_def One_nat_def using ok by (intro built_ok) (simp add: segment_ok_def)
  have "unat (start_char seg) \<le> unat (end_char seg)" using ok by (simp add: segment_ok_def word_le_nat_alt)
  moreover have "unat (start_char seg) < 2 ^ 32" "unat (end_char seg) < 2 ^ 32"
    using unsigned_less [of "start_char seg"] unsigned_less [of "end_char seg"] by simp_all
  ultimately show "live_segment_of (wire (live_segment_json seg)) = Some seg"
    using ok unfolding live_segment_json_def live_segment_of_def segment_ok_def by (simp add: reads Let_def)
qed

lemma segments_sent:
  assumes "list_all segment_ok segs"
  shows "sendable (LiveSegmentsToJson segs) \<and> json_depth (LiveSegmentsToJson segs) \<le> 2"
    and "List.map_filter live_segment_of (map wire (map live_segment_json segs)) = segs"
proof -
  show "sendable (LiveSegmentsToJson segs) \<and> json_depth (LiveSegmentsToJson segs) \<le> 2"
    using array_ok [of 1 "map live_segment_json segs"] assms segment_sent(1) by (auto simp: LiveSegmentsToJson_def list_all_iff)
  show "List.map_filter live_segment_of (map wire (map live_segment_json segs)) = segs"
    unfolding map_map using assms segment_sent(2) by (intro map_filter_inverse) (auto simp: list_all_iff)
qed

text \<open>The segments found under \<open>segments\<close>.\<close>

definition as_segments :: "json option \<Rightarrow> WireSegment list" where
  "as_segments x = (case as_array x of None \<Rightarrow> [] | Some vs \<Rightarrow> List.map_filter live_segment_of (map wire vs))"

lemma as_segments_simps [simp]:
  "as_segments None = []" "list_all segment_ok segs \<Longrightarrow> as_segments (Some (LiveSegmentsToJson segs)) = segs"
  using segments_sent(2) [of segs] by (simp_all add: as_segments_def LiveSegmentsToJson_def)

lemma LiveSegmentsFromJson_built [reads]: "LiveSegmentsFromJson (wire (build_object ms)) = as_segments (map_of ms ''segments'')"
  by (simp add: LiveSegmentsFromJson_def as_segments_def reads split: option.splits)

definition candidate_ok :: "CandidateField \<Rightarrow> bool" where
  "candidate_ok c \<longleftrightarrow> valid_utf8 (cand_surface c) \<and> valid_utf8 (cand_reading c) \<and> sendable_double (cand_score c) \<and>
     valid_utf8 (cand_source c) \<and> valid_utf8 (cand_description c) \<and> cand_tag c \<le> 255 \<and> list_all segment_ok (cand_segments c)"

lemma candidate_sent:
  assumes ok: "candidate_ok c"
  shows "sendable (CandidateToJson c) \<and> json_depth (CandidateToJson c) \<le> 3"
    and "CandidateFromJson (wire (CandidateToJson c)) = Some c"
proof -
  have "list_all (member_ok 2)
     ([(''surface'', JString (cand_surface c)), (''reading'', JString (cand_reading c)),
       (''score'', Value_double (cand_score c)), (''source'', JString (cand_source c))] @
      member_if (cand_description c \<noteq> []) ''description'' (JString (cand_description c)) @
      member_if (cand_tag c \<noteq> 0) ''tag'' (Value_u8 (cand_tag c)) @
      member_if (cand_segments c \<noteq> []) ''segments'' (LiveSegmentsToJson (cand_segments c)))"
    using ok segments_sent(1) [of "cand_segments c"] by (simp add: candidate_ok_def)
  then show "sendable (CandidateToJson c) \<and> json_depth (CandidateToJson c) \<le> 3"
    unfolding CandidateToJson_def using built_ok by fastforce
  show "CandidateFromJson (wire (CandidateToJson c)) = Some c"
    using ok unfolding CandidateToJson_def CandidateFromJson_def candidate_ok_def by (simp add: reads Let_def)
qed

lemma candidates_sent:
  assumes "list_all candidate_ok cs"
  shows "sendable (JArray (map CandidateToJson cs)) \<and> json_depth (JArray (map CandidateToJson cs)) \<le> 4"
    and "List.map_filter CandidateFromJson (map wire (map CandidateToJson cs)) = cs"
    and "all_of CandidateFromJson (map wire (map CandidateToJson cs)) = Some cs"
proof -
  show "sendable (JArray (map CandidateToJson cs)) \<and> json_depth (JArray (map CandidateToJson cs)) \<le> 4"
    using array_ok [of 3 "map CandidateToJson cs"] assms candidate_sent(1) by (fastforce simp: list_all_iff)
  show "List.map_filter CandidateFromJson (map wire (map CandidateToJson cs)) = cs"
    unfolding map_map using assms candidate_sent(2) by (intro map_filter_inverse) (auto simp: list_all_iff)
  show "all_of CandidateFromJson (map wire (map CandidateToJson cs)) = Some cs"
    unfolding map_map using assms candidate_sent(2) by (intro all_of_inverse) (auto simp: list_all_iff)
qed

definition app_ok :: "AppIdentity option \<Rightarrow> bool" where
  "app_ok app = (case app of None \<Rightarrow> True
     | Some a \<Rightarrow> valid_utf8 (process_name a) \<and> valid_utf8 (window_class a) \<and> (process_name a \<noteq> [] \<or> window_class a \<noteq> []))"

text \<open>The object found under a key.\<close>

definition members :: "(string \<times> json) list \<Rightarrow> (string \<times> json) list" where
  "members ms = foldl (\<lambda>obj (k, v). map_emplace k v obj) [] ms"

definition as_object :: "json option \<Rightarrow> (string \<times> json) list option" where
  "as_object x = (case x of Some (JObject ms) \<Rightarrow> Some ms | _ \<Rightarrow> None)"

lemma as_object_simps [simp]: "as_object None = None" "as_object (Some (build_object ms)) = Some (members ms)"
  by (simp_all add: as_object_def build_object_def members_def)

lemma JObject_members [simp]: "JObject (map (\<lambda>(k, v). (k, wire v)) (members ms)) = wire (build_object ms)"
  by (simp add: build_object_def members_def)

lemma FindObject_built [reads]:
  "FindObject (wire (build_object ms)) k = map_option (map (\<lambda>(k, v). (k, wire v))) (as_object (map_of ms k))"
  unfolding FindObject_def Find_wire Find_build_object as_object_def by (cases "map_of ms k"; simp) (case_tac a; simp)

definition app_json :: "AppIdentity \<Rightarrow> json" where
  "app_json a = build_object [(''process_name'', JString (process_name a)), (''window_class'', JString (window_class a))]"

lemma AppToJson_alt: "AppToJson app = member_opt ''app'' app_json app"
  unfolding AppToJson_def app_json_def ..

definition as_app :: "json option \<Rightarrow> AppIdentity option" where
  "as_app x = AppFromJson (wire (build_object (member_opt ''app'' id x)))"

lemma AppFromJson_built [reads]: "AppFromJson (wire (build_object ms)) = as_app (map_of ms ''app'')"
  by (simp add: AppFromJson_def as_app_def reads option.map_id)

lemma app_sent:
  assumes "app_ok app"
  shows "list_all (member_ok 8) (AppToJson app)" and "as_app (map_option app_json app) = app"
proof -
  have "sendable (app_json a) \<and> json_depth (app_json a) \<le> Suc 0" if "app = Some a" for a
    unfolding app_json_def using that assms by (intro built_ok) (simp add: app_ok_def)
  then show "list_all (member_ok 8) (AppToJson app)" by (cases app) (fastforce simp: AppToJson_alt)+
  show "as_app (map_option app_json app) = app"
    using assms by (cases app) (auto simp: as_app_def AppFromJson_def reads app_ok_def app_json_def Let_def)
qed

section \<open>Handshake\<close>

definition int32_ok :: "int \<Rightarrow> bool" where
  "int32_ok v \<longleftrightarrow> - (2 ^ 31) \<le> v \<and> v < 2 ^ 31"

lemma int32_values [simp]:
  "int32_ok v \<Longrightarrow> sendable (Value_int v)" "int32_ok v \<Longrightarrow> as_int (Some (Value_int v)) = Some v" "int32_ok v \<Longrightarrow> int_of_int64 v = v"
  "json_depth (Value_int v) = 0"
proof -
  assume v: "int32_ok v"
  then show "sendable (Value_int v)" using Value_int_sendable [of v] by (simp add: int32_ok_def abs_if)
  show "as_int (Some (Value_int v)) = Some v" using v by (simp add: int32_ok_def)
  show "int_of_int64 v = v" using v by (simp add: int32_ok_def int_of_int64_def signed_take_bit_int_eq_self)
qed (simp add: Value_int_def)

definition handshake_request_ok :: "HandshakeRequest \<Rightarrow> bool" where
  "handshake_request_ok p \<longleftrightarrow> valid_utf8 (tip_version p) \<and> int32_ok (request_protocol p) \<and>
     list_all valid_utf8 (request_capabilities p) \<and> valid_utf8 (client_id p) \<and> valid_utf8 (handshake_token p)"

lemma handshake_request_received:
  assumes "handshake_request_ok p" "fits (BuildHandshakeRequest p)"
  shows "ParseHandshakeRequest (BuildHandshakeRequest p) = Some p"
  using assms unfolding BuildHandshakeRequest_def ParseHandshakeRequest_def handshake_request_ok_def
  by (subst parse_object_built) (simp_all add: reads cong: if_cong split del: if_split)

definition handshake_response_ok :: "HandshakeResponse \<Rightarrow> bool" where
  "handshake_response_ok p \<longleftrightarrow> valid_utf8 (host_version p) \<and> int32_ok (response_protocol p) \<and> valid_utf8 (host_generation_id p) \<and>
     list_all valid_utf8 (response_capabilities p) \<and> valid_utf8 (batch_romaji_preview_style p) \<and> valid_utf8 (batch_conversion_mode p) \<and>
     1 \<le> response_max_candidates p \<and> response_max_candidates p \<le> 32 \<and> 1 \<le> emoji_max_candidates p \<and> emoji_max_candidates p \<le> 50 \<and>
     1 \<le> emoji_trigger_min_query_length p \<and> emoji_trigger_min_query_length p \<le> 8"

lemma as_int_u32 [simp]: "as_int (Some (Value_u32 w)) = Some (uint w)"
proof -
  have "uint w < 2 ^ 63" using uint_lt2p [of w] by simp
  moreover have "Value_u32 w = Value_int (uint w)" by (simp add: Value_u32_def)
  ultimately show ?thesis by (simp add: as_int_Value_int order_trans [OF _ uint_ge_0])
qed

lemma clamp_u32: "1 \<le> uint w \<Longrightarrow> uint w \<le> n \<Longrightarrow> word_of_int (clamp (uint w) 1 n) = w"
  by (simp add: clamp_def)

lemma handshake_response_received:
  assumes "handshake_response_ok p" "fits (BuildHandshakeResponse p)"
  shows "ParseHandshakeResponse (BuildHandshakeResponse p) = Some p"
proof -
  have "word_of_int (clamp (uint (emoji_max_candidates p)) 1 50) = emoji_max_candidates p"
    "word_of_int (clamp (uint (emoji_trigger_min_query_length p)) 1 8) = emoji_trigger_min_query_length p"
    using assms(1) clamp_u32 [of "emoji_max_candidates p" 50] clamp_u32 [of "emoji_trigger_min_query_length p" 8]
    by (simp_all add: handshake_response_ok_def word_le_def)
  moreover have "1 \<le> unat (response_max_candidates p)" "unat (response_max_candidates p) \<le> 32"
    using assms(1) by (simp_all add: handshake_response_ok_def word_le_nat_alt)
  ultimately show ?thesis
    using assms unfolding BuildHandshakeResponse_def ParseHandshakeResponse_def handshake_response_ok_def
    by (subst parse_object_built) (simp_all add: reads cong: if_cong split del: if_split)
qed

section \<open>Ping, health, diagnostics, model loading\<close>

lemma ping_received: "fits (BuildPing p) \<Longrightarrow> ParsePing (BuildPing p) = Some p"
  unfolding BuildPing_def ParsePing_def
  by (subst parse_object_built) (simp_all add: reads cong: if_cong split del: if_split)

abbreviation text_ok :: "string option \<Rightarrow> bool" where
  "text_ok \<equiv> pred_option valid_utf8"

definition health_ok :: "HealthPayload \<Rightarrow> bool" where
  "health_ok p \<longleftrightarrow> valid_utf8 (health_status p) \<and> valid_utf8 (health_backend p) \<and> text_ok (health_last_error p)"

lemma health_received:
  assumes "health_ok p" "fits (BuildHealth p)"
  shows "ParseHealth (BuildHealth p) = Some p"
  using assms unfolding BuildHealth_def ParseHealth_def health_ok_def
  by (subst parse_object_built) (simp_all add: reads cong: if_cong split del: if_split)

definition layer_ok :: "NeologdLayerStatus option \<Rightarrow> bool" where
  "layer_ok x = (case x of None \<Rightarrow> True
     | Some l \<Rightarrow> IsNeologdLayerState (layer_state l) \<and> text_ok (layer_reason l) \<and> (layer_state l \<noteq> ''error'' \<longrightarrow> layer_reason l = None))"

definition selection_ok :: "BackendSelectionDiagnostics option \<Rightarrow> bool" where
  "selection_ok x = (case x of None \<Rightarrow> True
     | Some s \<Rightarrow> valid_utf8 (selection_source s) \<and> valid_utf8 (auto_backend s) \<and> valid_utf8 (selection_reason s))"

definition format_ok :: "string option \<Rightarrow> bool" where
  "format_ok x \<longleftrightarrow> x \<in> {None, Some ''zenz-v3'', Some ''kanakanji-edge-v1''}"

definition diagnostics_ok :: "QueryDiagnosticsPayload \<Rightarrow> bool" where
  "diagnostics_ok p \<longleftrightarrow> text_ok (loaded_model_path p) \<and> valid_utf8 (diag_engine p) \<and> valid_utf8 (diag_backend p) \<and> text_ok (diag_ep p) \<and>
     text_ok (ep_state p) \<and> text_ok (ep_last_error p) \<and> valid_utf8 (fallback_state p) \<and> text_ok (diag_last_error p) \<and>
     layer_ok (neologd_layer p) \<and> selection_ok (backend_selection p) \<and> format_ok (prompt_format p)"

definition as_layer :: "json option \<Rightarrow> NeologdLayerStatus option" where
  "as_layer x = NeologdLayerFromJson (wire (build_object (member_opt ''neologd_layer'' id x)))"

definition as_selection :: "json option \<Rightarrow> BackendSelectionDiagnostics option" where
  "as_selection x = BackendSelectionFromJson (wire (build_object (member_opt ''backend_selection'' id x)))"

lemma diagnostics_reads [reads]:
  "NeologdLayerFromJson (wire (build_object ms)) = as_layer (map_of ms ''neologd_layer'')"
  "BackendSelectionFromJson (wire (build_object ms)) = as_selection (map_of ms ''backend_selection'')"
  by (simp_all add: NeologdLayerFromJson_def BackendSelectionFromJson_def as_layer_def as_selection_def reads option.map_id)

lemma layer_sent:
  assumes "layer_ok x"
  shows "list_all (member_ok 8) (member_opt ''neologd_layer'' neologd_layer_json x)" "as_layer (map_option neologd_layer_json x) = x"
proof -
  have "sendable (neologd_layer_json l) \<and> json_depth (neologd_layer_json l) \<le> Suc 0" if "x = Some l" for l
    unfolding neologd_layer_json_def using that assms by (intro built_ok) (auto simp: layer_ok_def IsNeologdLayerState_def)
  then show "list_all (member_ok 8) (member_opt ''neologd_layer'' neologd_layer_json x)" by (cases x) fastforce+
  show "as_layer (map_option neologd_layer_json x) = x"
    using assms by (cases x) (auto simp: as_layer_def NeologdLayerFromJson_def reads layer_ok_def neologd_layer_json_def)
qed

lemma selection_sent:
  assumes "selection_ok x"
  shows "list_all (member_ok 8) (member_opt ''backend_selection'' backend_selection_json x)" "as_selection (map_option backend_selection_json x) = x"
proof -
  have "sendable (backend_selection_json l) \<and> json_depth (backend_selection_json l) \<le> Suc 0" if "x = Some l" for l
    unfolding backend_selection_json_def using that assms by (intro built_ok) (auto simp: selection_ok_def)
  then show "list_all (member_ok 8) (member_opt ''backend_selection'' backend_selection_json x)" by (cases x) fastforce+
  have "unat (w :: 32 word) \<le> 4294967295" for w using unsigned_less [of w, where ?'a = nat] by simp
  then show "as_selection (map_option backend_selection_json x) = x"
    using assms by (cases x) (simp_all add: as_selection_def BackendSelectionFromJson_def reads selection_ok_def backend_selection_json_def Let_def not_less)
qed

lemma format_read: "format_ok x \<Longrightarrow> (case x of Some f \<Rightarrow> if f = ''zenz-v3'' \<or> f = ''kanakanji-edge-v1'' then Some f else None | None \<Rightarrow> None) = x"
  "format_ok x \<Longrightarrow> text_ok x"
  by (auto simp: format_ok_def)

lemma diagnostics_received:
  assumes "diagnostics_ok p" "fits (BuildQueryDiagnostics p)"
  shows "ParseQueryDiagnostics (BuildQueryDiagnostics p) = Some p"
proof -
  have l: "layer_ok (neologd_layer p)" and s: "selection_ok (backend_selection p)" and f: "format_ok (prompt_format p)"
    using assms(1) by (auto simp: diagnostics_ok_def)
  show ?thesis
    using assms unfolding BuildQueryDiagnostics_def ParseQueryDiagnostics_def diagnostics_ok_def
    by (subst parse_object_built)
      (simp_all add: reads layer_sent [OF l, simplified] selection_sent [OF s, simplified] format_read [OF f] cong: if_cong split del: if_split)
qed

definition load_request_ok :: "LoadModelRequest \<Rightarrow> bool" where
  "load_request_ok p \<longleftrightarrow> valid_utf8 (load_path p) \<and> valid_utf8 (load_backend p) \<and>
     pred_option int32_ok (n_gpu_layers p)"

lemma load_request_received:
  assumes "load_request_ok p" "fits (BuildLoadModelRequest p)"
  shows "ParseLoadModelRequest (BuildLoadModelRequest p) = Some p"
  using assms unfolding BuildLoadModelRequest_def ParseLoadModelRequest_def load_request_ok_def
  by (subst parse_object_built; cases "n_gpu_layers p") (auto simp: reads)

lemma load_response_received:
  assumes "text_ok (load_error p)" "fits (BuildLoadModelResponse p)"
  shows "ParseLoadModelResponse (BuildLoadModelResponse p) = Some p"
  using assms unfolding BuildLoadModelResponse_def ParseLoadModelResponse_def
  by (subst parse_object_built) (simp_all add: reads cong: if_cong split del: if_split)

section \<open>Candidates\<close>

lemma candidates_read [simp]:
  "list_all candidate_ok cs \<Longrightarrow> List.map_filter CandidateFromJson (map (wire \<circ> CandidateToJson) cs) = cs"
  "list_all candidate_ok cs \<Longrightarrow> all_of CandidateFromJson (map (wire \<circ> CandidateToJson) cs) = Some cs"
  using candidates_sent(2,3) [of cs] by simp_all

lemma candidates_member [simp]:
  "list_all candidate_ok cs \<Longrightarrow> (\<forall>v \<in> set cs. sendable (CandidateToJson v)) = True"
  "list_all candidate_ok cs \<Longrightarrow> 3 \<le> n \<Longrightarrow> foldr max (map (json_depth \<circ> CandidateToJson) cs) 0 \<le> n"
  using candidate_sent(1) by (fastforce simp: list_all_iff foldr_max_le)+

lemma segments_member [simp]:
  "list_all segment_ok segs \<Longrightarrow> sendable (LiveSegmentsToJson segs)"
  "list_all segment_ok segs \<Longrightarrow> 2 \<le> n \<Longrightarrow> json_depth (LiveSegmentsToJson segs) \<le> n"
  using segments_sent(1) by fastforce+

lemma segments_optional [simp]:
  "list_all segment_ok segs \<Longrightarrow> as_segments (if segs \<noteq> [] then Some (LiveSegmentsToJson segs) else None) = segs"
  "list_all segment_ok segs \<Longrightarrow> as_segments (if segs = [] then None else Some (LiveSegmentsToJson segs)) = segs"
  by (cases segs; simp)+

lemma app_member [simp]:
  "app_ok app \<Longrightarrow> pred_option (\<lambda>a. sendable (app_json a) \<and> json_depth (app_json a) \<le> 8) app"
  using app_sent(1) [of app] by (cases app) (simp_all add: AppToJson_alt member_opt_def)

lemma as_app_simps [simp]: "app_ok app \<Longrightarrow> as_app (map_option app_json app) = app"
  by (rule app_sent(2))

definition alt_ok :: "string list \<Rightarrow> bool" where
  "alt_ok rs \<longleftrightarrow> length rs \<le> kMaxAltReadings \<and> list_all (\<lambda>r. r \<noteq> [] \<and> valid_utf8 r) rs"

lemma alt_readings_loop_all:
  "list_all (\<lambda>r. r \<noteq> []) rs \<Longrightarrow> length acc + length rs \<le> kMaxAltReadings \<Longrightarrow> alt_readings_loop acc (map JString rs) = acc @ rs"
  by (induction rs arbitrary: acc) auto

definition as_alt :: "json option \<Rightarrow> string list" where
  "as_alt x = AltReadingsFromJson (wire (build_object (member_opt ''alt_readings'' id x)))"

lemma alt_read [reads]: "AltReadingsFromJson (wire (build_object ms)) = as_alt (map_of ms ''alt_readings'')"
  by (simp add: AltReadingsFromJson_def as_alt_def reads option.map_id)

lemma alt_optional [simp]:
  "alt_ok rs \<Longrightarrow> as_alt (if rs \<noteq> [] then Some (JArray (map JString rs)) else None) = rs"
  "alt_ok rs \<Longrightarrow> as_alt (if rs = [] then None else Some (JArray (map JString rs))) = rs"
  "alt_ok rs \<Longrightarrow> list_all valid_utf8 rs"
  by (auto simp: as_alt_def AltReadingsFromJson_def reads alt_ok_def list_all_iff alt_readings_loop_all)

definition query_request_ok :: "QueryCandidatesRequest \<Rightarrow> bool" where
  "query_request_ok p \<longleftrightarrow> valid_utf8 (qc_reading p) \<and> valid_utf8 (qc_left_context p) \<and> valid_utf8 (qc_punctuation_style p) \<and>
     valid_utf8 (qc_emoji_trigger p) \<and> app_ok (qc_app p) \<and> valid_utf8 (qc_raw_romaji p) \<and> alt_ok (qc_alt_readings p)"

lemma query_request_received:
  assumes "query_request_ok p" "fits (BuildQueryCandidatesRequest p)"
  shows "ParseQueryCandidatesRequest (BuildQueryCandidatesRequest p) = Some p"
  using assms unfolding BuildQueryCandidatesRequest_def ParseQueryCandidatesRequest_def query_request_ok_def AppToJson_alt AltReadingsToJson_def
  by (subst parse_object_built) (simp_all add: reads cong: if_cong split del: if_split)

definition query_response_ok :: "QueryCandidatesResponse \<Rightarrow> bool" where
  "query_response_ok p \<longleftrightarrow> list_all candidate_ok (qr_candidates p) \<and> list_all segment_ok (qr_segments p) \<and> text_ok (qr_error p) \<and>
     valid_utf8 (qr_corrected_reading p)"

lemma query_response_received:
  assumes "query_response_ok p" "fits (BuildQueryCandidatesResponse p)"
  shows "ParseQueryCandidatesResponse (BuildQueryCandidatesResponse p) = Some p"
  using assms unfolding BuildQueryCandidatesResponse_def ParseQueryCandidatesResponse_def query_response_ok_def
  by (subst parse_object_built) (simp_all add: reads cong: if_cong split del: if_split)

section \<open>Live conversion, predictions, reverse conversion\<close>

definition live_request_ok :: "QueryLiveConversionRequest \<Rightarrow> bool" where
  "live_request_ok p \<longleftrightarrow> valid_utf8 (ql_kana p) \<and> valid_utf8 (ql_context p) \<and> valid_utf8 (ql_punctuation_style p) \<and> valid_utf8 (ql_raw_romaji p)"

lemma live_request_received:
  assumes "live_request_ok p" "fits (BuildQueryLiveConversionRequest p)"
  shows "ParseQueryLiveConversionRequest (BuildQueryLiveConversionRequest p) = Some p"
  using assms unfolding BuildQueryLiveConversionRequest_def ParseQueryLiveConversionRequest_def live_request_ok_def
  by (subst parse_object_built) (simp_all add: reads cong: if_cong split del: if_split)

definition live_response_ok :: "QueryLiveConversionResponse \<Rightarrow> bool" where
  "live_response_ok p \<longleftrightarrow> valid_utf8 (lr_surface p) \<and> sendable_double (lr_confidence p) \<and> \<not> outside_unit (lr_confidence p) \<and>
     list_all segment_ok (lr_segments p)"

lemma live_response_received:
  assumes "live_response_ok p" "fits (BuildQueryLiveConversionResponse p)"
  shows "ParseQueryLiveConversionResponse (BuildQueryLiveConversionResponse p) = Some p"
  using assms unfolding BuildQueryLiveConversionResponse_def ParseQueryLiveConversionResponse_def live_response_ok_def
  by (subst parse_object_built) (simp_all add: reads cong: if_cong split del: if_split)

definition predictions_request_ok :: "QueryPredictionsRequest \<Rightarrow> bool" where
  "predictions_request_ok p \<longleftrightarrow> valid_utf8 (qp_kana p) \<and> valid_utf8 (left_side_context p) \<and> valid_utf8 (qp_mode p) \<and> app_ok (qp_app p)"

lemma predictions_request_received:
  assumes "predictions_request_ok p" "fits (BuildQueryPredictionsRequest p)"
  shows "ParseQueryPredictionsRequest (BuildQueryPredictionsRequest p) = Some p"
  using assms unfolding BuildQueryPredictionsRequest_def ParseQueryPredictionsRequest_def predictions_request_ok_def AppToJson_alt
  by (subst parse_object_built) (simp_all add: reads cong: if_cong split del: if_split)

definition predictions_response_ok :: "QueryPredictionsResponse \<Rightarrow> bool" where
  "predictions_response_ok p \<longleftrightarrow> list_all candidate_ok (predictions p) \<and> text_ok (pr_error p)"

lemma predictions_response_received:
  assumes "predictions_response_ok p" "fits (BuildQueryPredictionsResponse p)"
  shows "ParseQueryPredictionsResponse (BuildQueryPredictionsResponse p) = Some p"
  using assms unfolding BuildQueryPredictionsResponse_def ParseQueryPredictionsResponse_def predictions_response_ok_def
  by (subst parse_object_built) (simp_all add: reads cong: if_cong split del: if_split)

lemma reverse_request_received:
  assumes "valid_utf8 (rc_surface p)" "rc_surface p \<noteq> []" "fits (BuildReverseConvertRequest p)"
  shows "ParseReverseConvertRequest (BuildReverseConvertRequest p) = Some p"
  using assms unfolding BuildReverseConvertRequest_def ParseReverseConvertRequest_def
  by (subst parse_object_built) (simp_all add: reads cong: if_cong split del: if_split)

definition reverse_response_ok :: "ReverseConvertResponse \<Rightarrow> bool" where
  "reverse_response_ok p \<longleftrightarrow> valid_utf8 (rr_reading p) \<and> sendable_double (rr_confidence p) \<and> \<not> outside_unit (rr_confidence p) \<and>
     ((rr_reading p = []) \<longleftrightarrow> rat_of_double (rr_confidence p) = 0)"

lemma reverse_response_received:
  assumes "reverse_response_ok p" "fits (BuildReverseConvertResponse p)"
  shows "ParseReverseConvertResponse (BuildReverseConvertResponse p) = Some p"
  using assms unfolding BuildReverseConvertResponse_def ParseReverseConvertResponse_def reverse_response_ok_def
  by (subst parse_object_built) (simp_all add: reads cong: if_cong split del: if_split)

section \<open>Batch conversion and cancellation\<close>

definition batch_request_ok :: "QueryBatchConversionRequest \<Rightarrow> bool" where
  "batch_request_ok p \<longleftrightarrow> valid_utf8 (qb_reading p) \<and> valid_utf8 (qb_raw_romaji p) \<and> valid_utf8 (qb_mode p) \<and>
     (external_ai_allowed p \<longrightarrow> ai_allowed p) \<and> ai_backend p \<in> {[], ''none'', ''openai'', ''local-zenzai''}"

lemma batch_request_received:
  assumes "batch_request_ok p" "fits (BuildQueryBatchConversionRequest p)"
  shows "ParseQueryBatchConversionRequest (BuildQueryBatchConversionRequest p) = Some p"
proof -
  have "valid_utf8 (ai_backend p)" using assms(1) by (auto simp: batch_request_ok_def)
  moreover have "(ai_allowed p \<and> external_ai_allowed p) = external_ai_allowed p" using assms(1) by (auto simp: batch_request_ok_def)
  ultimately show ?thesis
    using assms unfolding BuildQueryBatchConversionRequest_def ParseQueryBatchConversionRequest_def batch_request_ok_def
    by (subst parse_object_built) (simp_all add: reads Let_def cong: if_cong split del: if_split, auto)
qed

definition batch_segment_ok :: "BatchConversionSegment \<Rightarrow> bool" where
  "batch_segment_ok seg \<longleftrightarrow> valid_utf8 (batch_reading seg) \<and> list_all candidate_ok (batch_candidates seg)"

lemma batch_segment_sent:
  assumes "batch_segment_ok seg"
  shows "sendable (BatchSegmentToJson seg) \<and> json_depth (BatchSegmentToJson seg) \<le> 5"
    and "BatchSegmentFromJson (wire (BatchSegmentToJson seg)) = Some seg"
proof -
  have "list_all (member_ok 4) [(''reading'', JString (batch_reading seg)), (''candidates'', JArray (map CandidateToJson (batch_candidates seg)))]"
    using assms candidates_sent(1) [of "batch_candidates seg"] by (simp add: batch_segment_ok_def)
  from built_ok [OF this] show "sendable (BatchSegmentToJson seg) \<and> json_depth (BatchSegmentToJson seg) \<le> 5"
    by (simp add: BatchSegmentToJson_def)
  show "BatchSegmentFromJson (wire (BatchSegmentToJson seg)) = Some seg"
    using assms unfolding BatchSegmentToJson_def BatchSegmentFromJson_def batch_segment_ok_def by (simp add: reads)
qed

lemma batch_segments_member [simp]:
  "list_all batch_segment_ok segs \<Longrightarrow> (\<forall>v \<in> set segs. sendable (BatchSegmentToJson v)) = True"
  "list_all batch_segment_ok segs \<Longrightarrow> 5 \<le> n \<Longrightarrow> foldr max (map (json_depth \<circ> BatchSegmentToJson) segs) 0 \<le> n"
  "list_all batch_segment_ok segs \<Longrightarrow> List.map_filter BatchSegmentFromJson (map (wire \<circ> BatchSegmentToJson) segs) = segs"
proof -
  assume ok: "list_all batch_segment_ok segs"
  show "(\<forall>v \<in> set segs. sendable (BatchSegmentToJson v)) = True" using ok batch_segment_sent(1) by (auto simp: list_all_iff)
  show "5 \<le> n \<Longrightarrow> foldr max (map (json_depth \<circ> BatchSegmentToJson) segs) 0 \<le> n"
    using ok batch_segment_sent(1) by (fastforce simp: list_all_iff foldr_max_le)
  show "List.map_filter BatchSegmentFromJson (map (wire \<circ> BatchSegmentToJson) segs) = segs"
    using ok batch_segment_sent(2) by (intro map_filter_inverse) (auto simp: list_all_iff)
qed

definition batch_response_ok :: "QueryBatchConversionResponse \<Rightarrow> bool" where
  "batch_response_ok p \<longleftrightarrow> list_all batch_segment_ok (br_segments p) \<and> valid_utf8 (full_surface p) \<and> text_ok (error_class p)"

lemma batch_response_received:
  assumes "batch_response_ok p" "fits (BuildQueryBatchConversionResponse p)"
  shows "ParseQueryBatchConversionResponse (BuildQueryBatchConversionResponse p) = Some p"
  using assms unfolding BuildQueryBatchConversionResponse_def ParseQueryBatchConversionResponse_def batch_response_ok_def
  by (subst parse_object_built) (simp_all add: reads cong: if_cong split del: if_split)

lemma cancel_received: "fits (BuildCancel p) \<Longrightarrow> ParseCancel (BuildCancel p) = Some p"
  unfolding BuildCancel_def ParseCancel_def
  by (subst parse_object_built) (simp_all add: reads cong: if_cong split del: if_split)

section \<open>Observed commits\<close>

lemma as_uint_u64_word [simp]: "word_of_nat (value_or (as_uint (Some (Value_u64 w))) 0) = w"
  by simp

lemma Find_chosen [reads]: "Find (wire (build_object ms)) k = map_option wire (map_of ms k)"
  by (simp add: Find_wire)

lemma candidate_member [simp]:
  "candidate_ok c \<Longrightarrow> sendable (CandidateToJson c)" "candidate_ok c \<Longrightarrow> 3 \<le> n \<Longrightarrow> json_depth (CandidateToJson c) \<le> n"
  "candidate_ok c \<Longrightarrow> CandidateFromJson (wire (CandidateToJson c)) = Some c"
  using candidate_sent [of c] by auto

definition commit_ok :: "CommitObservationRequest \<Rightarrow> bool" where
  "commit_ok p \<longleftrightarrow> valid_utf8 (co_reading p) \<and> candidate_ok (co_chosen p) \<and> list_all candidate_ok (co_shown p) \<and>
     valid_utf8 (co_left_context p) \<and> valid_utf8 (co_observation_id p) \<and> app_ok (co_app p)"

lemma commit_received:
  assumes "commit_ok p" "fits (BuildCommitObservationRequest p)"
  shows "ParseCommitObservationRequest (BuildCommitObservationRequest p) = Some p"
  using assms unfolding BuildCommitObservationRequest_def ParseCommitObservationRequest_def commit_ok_def AppToJson_alt
  by (subst parse_object_built) (simp_all add: reads cong: if_cong split del: if_split)

lemma commit_response_received: "fits (BuildCommitObservationResponse p) \<Longrightarrow> ParseCommitObservationResponse (BuildCommitObservationResponse p) = Some p"
  unfolding BuildCommitObservationResponse_def ParseCommitObservationResponse_def
  by (subst parse_object_built) (simp_all add: reads cong: if_cong split del: if_split)

definition observed_ok :: "ObservedSegment \<Rightarrow> bool" where
  "observed_ok seg \<longleftrightarrow> valid_utf8 (os_reading seg) \<and> candidate_ok (os_chosen seg) \<and> cand_surface (os_chosen seg) \<noteq> [] \<and>
     list_all candidate_ok (os_shown seg) \<and> (os_reading seg \<noteq> [] \<or> is_auto_punctuation seg)"

lemma observed_sent:
  assumes "observed_ok seg"
  shows "sendable (observed_segment_json seg) \<and> json_depth (observed_segment_json seg) \<le> 5"
    and "observed_segment_of (wire (observed_segment_json seg)) = Some seg"
proof -
  have "list_all (member_ok 4) [(''reading'', JString (os_reading seg)), (''chosen'', CandidateToJson (os_chosen seg)),
      (''shown'', JArray (map CandidateToJson (os_shown seg))), (''is_auto_punctuation'', JBool (is_auto_punctuation seg))]"
    using assms candidates_sent(1) [of "os_shown seg"] by (simp add: observed_ok_def)
  from built_ok [OF this] show "sendable (observed_segment_json seg) \<and> json_depth (observed_segment_json seg) \<le> 5"
    by (simp add: observed_segment_json_def)
  show "observed_segment_of (wire (observed_segment_json seg)) = Some seg"
    using assms unfolding observed_segment_json_def observed_segment_of_def observed_ok_def by (auto simp: reads Let_def)
qed

lemma observed_member [simp]:
  "list_all observed_ok segs \<Longrightarrow> (\<forall>v \<in> set segs. sendable (observed_segment_json v)) = True"
  "list_all observed_ok segs \<Longrightarrow> 5 \<le> n \<Longrightarrow> foldr max (map (json_depth \<circ> observed_segment_json) segs) 0 \<le> n"
  "list_all observed_ok segs \<Longrightarrow> all_of observed_segment_of (map (wire \<circ> observed_segment_json) segs) = Some segs"
proof -
  assume ok: "list_all observed_ok segs"
  show "(\<forall>v \<in> set segs. sendable (observed_segment_json v)) = True" using ok observed_sent(1) by (auto simp: list_all_iff)
  show "5 \<le> n \<Longrightarrow> foldr max (map (json_depth \<circ> observed_segment_json) segs) 0 \<le> n"
    using ok observed_sent(1) by (fastforce simp: list_all_iff foldr_max_le)
  show "all_of observed_segment_of (map (wire \<circ> observed_segment_json) segs) = Some segs"
    using ok observed_sent(2) by (intro all_of_inverse) (auto simp: list_all_iff)
qed

definition commit_segments_ok :: "CommitSegmentsObservationRequest \<Rightarrow> bool" where
  "commit_segments_ok p \<longleftrightarrow> cs_segments p \<noteq> [] \<and> list_all observed_ok (cs_segments p) \<and> valid_utf8 (cs_left_context p) \<and>
     valid_utf8 (cs_observation_id p) \<and> app_ok (cs_app p)"

lemma commit_segments_received:
  assumes "commit_segments_ok p" "fits (BuildCommitSegmentsObservationRequest p)"
  shows "ParseCommitSegmentsObservationRequest (BuildCommitSegmentsObservationRequest p) = Some p"
  using assms unfolding BuildCommitSegmentsObservationRequest_def ParseCommitSegmentsObservationRequest_def commit_segments_ok_def AppToJson_alt
  by (subst parse_object_built) (simp_all add: reads cong: if_cong split del: if_split)

definition correction_request_ok :: "CommitCorrectionRequest \<Rightarrow> bool" where
  "correction_request_ok p \<longleftrightarrow> valid_utf8 (cc_kind p) \<and> valid_utf8 (cc_reading p) \<and> cc_reading p \<noteq> [] \<and> valid_utf8 (rejected_surface p) \<and>
     rejected_surface p \<noteq> [] \<and> text_ok (selected_surface p) \<and> correction_ok (cc_kind p) (rejected_surface p) (selected_surface p) \<and>
     valid_utf8 (cc_left_context p) \<and> valid_utf8 (cc_observation_id p) \<and> app_ok (cc_app p)"

lemma correction_received:
  assumes "correction_request_ok p" "fits (BuildCommitCorrectionRequest p)"
  shows "ParseCommitCorrectionRequest (BuildCommitCorrectionRequest p) = Some p"
  using assms unfolding BuildCommitCorrectionRequest_def ParseCommitCorrectionRequest_def correction_request_ok_def AppToJson_alt Let_def
  by (subst parse_object_built) (simp_all add: reads cong: if_cong split del: if_split)

end
