(* ===== verification/ProofreadSession.thy ===== *)
theory ProofreadSession
  imports PayloadWire
begin

text \<open>
  The session of the batch correction view between the input method and the settings application:
  \<open>ipc/src/ProofreadSession.cpp\<close> and \<open>ProofreadSession.h\<close>. One document message is sent, then select
  requests are answered; every message is a JSON object in a length-prefixed frame. Modelled are the
  codec of the three messages, the validation of suggestions and tokens, and the frames. The pipe
  itself and the random bytes of a token come from Windows; the token is the function
  \<open>session_token\<close> of those bytes. A \<open>uint64_t\<close> is a 64-bit word.
\<close>

section \<open>Limits\<close>

definition kMaxAnomalyTextBytes :: nat where "kMaxAnomalyTextBytes = 60 * 1024"
definition kMaxAnomalySuggestions :: nat where "kMaxAnomalySuggestions = 5"
definition kMaxAnomalySuggestionBytes :: nat where "kMaxAnomalySuggestionBytes = 256"
definition kMaxSelectSuggestions :: nat where "kMaxSelectSuggestions = kMaxAnomalySuggestions"
definition kMaxSelectSuggestionBytes :: nat where "kMaxSelectSuggestionBytes = kMaxAnomalySuggestionBytes"
definition kSessionTokenHexLength :: nat where "kSessionTokenHexLength = 16 * 2"
definition kMaxDocumentFrameBytes :: nat where "kMaxDocumentFrameBytes = 512 * 1024"
definition kMaxRequestFrameBytes :: nat where "kMaxRequestFrameBytes = 4 * 1024"

lemmas limits = kMaxAnomalyTextBytes_def kMaxAnomalySuggestions_def kMaxAnomalySuggestionBytes_def
  kMaxSelectSuggestions_def kMaxSelectSuggestionBytes_def kSessionTokenHexLength_def
  kMaxDocumentFrameBytes_def kMaxRequestFrameBytes_def

section \<open>Tokens\<close>

definition IsValidSessionToken :: "string \<Rightarrow> bool" where
  "IsValidSessionToken token \<longleftrightarrow>
     length token = kSessionTokenHexLength \<and>
     list_all (\<lambda>c. (48 \<le> ord c \<and> ord c \<le> 57) \<or> (97 \<le> ord c \<and> ord c \<le> 102)) token"

text \<open>\<open>GenerateSessionToken\<close> on the sixteen bytes of the system's generator.\<close>

definition session_token :: "nat list \<Rightarrow> string" where
  "session_token bytes = concat (map (\<lambda>b. [hex_lower (drop_bit 4 b), hex_lower (b AND 0x0f)]) bytes)"

definition SessionPipeName :: "string \<Rightarrow> string" where
  "SessionPipeName token =
     [CHR 0x5c, CHR 0x5c, CHR ''.'', CHR 0x5c] @ ''pipe'' @ [CHR 0x5c] @ ''azookey-proofread-'' @ token"

section \<open>Suggestions\<close>

definition IsRefusedSuggestionCodePoint :: "codepoint \<Rightarrow> bool" where
  "IsRefusedSuggestionCodePoint code \<longleftrightarrow>
     code < 0x20 \<or> (code \<ge> 0x7f \<and> code \<le> 0x9f) \<or> code = 0x061c \<or> code = 0x200b \<or>
     code = 0x200e \<or> code = 0x200f \<or> code = 0x2028 \<or> code = 0x2029 \<or>
     (code \<ge> 0x202a \<and> code \<le> 0x202e) \<or> (code \<ge> 0x2060 \<and> code \<le> 0x2064) \<or>
     (code \<ge> 0x2066 \<and> code \<le> 0x2069) \<or> code = 0xfeff \<or>
     (code \<ge> 0xfff9 \<and> code \<le> 0xfffb) \<or> (code \<ge> 0xe0000 \<and> code \<le> 0xe007f)"

lemma NextCodePoint_iff:
  "i < length s \<Longrightarrow> NextCodePoint s i = Some (cp, j) \<longleftrightarrow>
     is_scalar cp \<and> (\<exists>t. drop i s = utf8 cp @ t) \<and> j = i + length (utf8 cp)"
  by (simp add: NextCodePoint_decode_next core_decoder.decode_iff)

function suggestion_from :: "string \<Rightarrow> nat \<Rightarrow> bool" where
  "suggestion_from s pos =
     (if pos < length s then
        (case NextCodePoint s pos of
           None \<Rightarrow> False
         | Some (code, pos') \<Rightarrow> if IsRefusedSuggestionCodePoint code then False else suggestion_from s pos')
      else True)"
  by pat_completeness auto
termination
  by (relation "measure (\<lambda>(s, pos). length s - pos)") (auto simp: NextCodePoint_iff length_utf8)

declare suggestion_from.simps [simp del]

definition IsValidSelectSuggestion :: "string \<Rightarrow> bool" where
  "IsValidSelectSuggestion s \<longleftrightarrow> s \<noteq> [] \<and> length s \<le> kMaxSelectSuggestionBytes \<and> suggestion_from s 0"

fun valid_loop :: "string list \<Rightarrow> string list \<Rightarrow> string list" where
  "valid_loop valid [] = valid"
| "valid_loop valid (s # ss) =
     (if length valid \<ge> kMaxSelectSuggestions then valid
      else valid_loop (if IsValidSelectSuggestion s then valid @ [s] else valid) ss)"

definition ValidSuggestions :: "string list \<Rightarrow> string list" where
  "ValidSuggestions suggestions = valid_loop [] suggestions"

section \<open>Messages\<close>

definition ParseKind :: "string \<Rightarrow> string \<Rightarrow> json option" where
  "ParseKind json kind =
     (case Parse json of
        Some (JObject ms) \<Rightarrow> if GetString (JObject ms) ''kind'' \<noteq> Some kind then None else Some (JObject ms)
      | _ \<Rightarrow> None)"

datatype DocumentStatus = Captured | Blocked | Unavailable

fun DocumentStatusName :: "DocumentStatus \<Rightarrow> string" where
  "DocumentStatusName Captured = ''captured''"
| "DocumentStatusName Blocked = ''blocked''"
| "DocumentStatusName Unavailable = ''unavailable''"

definition DocumentStatusFromName :: "string \<Rightarrow> DocumentStatus option" where
  "DocumentStatusFromName name =
     (if name = ''captured'' then Some Captured
      else if name = ''blocked'' then Some Blocked
      else if name = ''unavailable'' then Some Unavailable
      else None)"

record DocumentMessage =
  status :: DocumentStatus
  doc_text :: string
  secure :: bool
  learning_allowed :: bool
  window :: "64 word"

definition BuildDocumentMessage :: "DocumentMessage \<Rightarrow> string" where
  "BuildDocumentMessage message =
     Stringify (build_object
       [(''kind'', JString ''document''),
        (''status'', JString (DocumentStatusName (status message))),
        (''text'', JString (if status message = Captured then doc_text message else [])),
        (''secure'', JBool (secure message)),
        (''learning_allowed'', JBool (learning_allowed message)),
        (''window'', Value_int (int (unat (window message))))])"

definition ParseDocumentMessage :: "string \<Rightarrow> DocumentMessage option" where
  "ParseDocumentMessage json =
     (case ParseKind json ''document'' of
        None \<Rightarrow> None
      | Some v \<Rightarrow>
          (case (Option.bind (GetString v ''status'') DocumentStatusFromName, GetString v ''text'') of
             (Some st, Some t) \<Rightarrow>
               if (if st = Captured then t = [] \<or> length t > kMaxAnomalyTextBytes else t \<noteq> []) then None
               else Some
                 \<lparr>status = st, doc_text = t,
                  secure = (case GetBool v ''secure'' of Some b \<Rightarrow> b | None \<Rightarrow> True),
                  learning_allowed = (case GetBool v ''learning_allowed'' of Some b \<Rightarrow> b | None \<Rightarrow> False),
                  window = word_of_nat (case GetUInt v ''window'' of Some n \<Rightarrow> n | None \<Rightarrow> 0)\<rparr>
           | _ \<Rightarrow> None))"

record SelectRequest =
  start :: "64 word"
  len :: "64 word"
  reconvert :: bool
  suggestions :: "string list"

definition BuildSelectRequest :: "SelectRequest \<Rightarrow> string" where
  "BuildSelectRequest request =
     (let valid = ValidSuggestions (suggestions request) in
      Stringify (build_object
        ([(''kind'', JString ''select''),
          (''start'', Value_int (int (unat (start request)))),
          (''length'', Value_int (int (unat (len request)))),
          (''reconvert'', JBool (reconvert request))] @
         (if valid \<noteq> [] then [(''suggestions'', JArray (map JString valid))] else []))))"

fun suggestion_loop :: "string list \<Rightarrow> json list \<Rightarrow> string list" where
  "suggestion_loop acc [] = acc"
| "suggestion_loop acc (v # vs) =
     (if length acc \<ge> kMaxSelectSuggestions then acc
      else suggestion_loop
        (case v of JString s \<Rightarrow> if IsValidSelectSuggestion s then acc @ [s] else acc | _ \<Rightarrow> acc) vs)"

definition ParseSelectRequest :: "string \<Rightarrow> SelectRequest option" where
  "ParseSelectRequest json =
     (case ParseKind json ''select'' of
        None \<Rightarrow> None
      | Some v \<Rightarrow>
          (case (GetUInt v ''start'', GetUInt v ''length'') of
             (Some s, Some l) \<Rightarrow>
               Some \<lparr>start = word_of_nat s, len = word_of_nat l,
                     reconvert = (case GetBool v ''reconvert'' of Some b \<Rightarrow> b | None \<Rightarrow> False),
                     suggestions =
                       (case GetArray v ''suggestions'' of Some a \<Rightarrow> suggestion_loop [] a | None \<Rightarrow> [])\<rparr>
           | _ \<Rightarrow> None))"

datatype SelectResult = Ok | DocumentChanged | ContextGone | InvalidRange | Failed

fun SelectResultName :: "SelectResult \<Rightarrow> string" where
  "SelectResultName Ok = ''ok''"
| "SelectResultName DocumentChanged = ''document_changed''"
| "SelectResultName ContextGone = ''context_gone''"
| "SelectResultName InvalidRange = ''invalid_range''"
| "SelectResultName Failed = ''failed''"

definition kSelectResults :: "SelectResult list" where
  "kSelectResults = [Ok, DocumentChanged, ContextGone, InvalidRange, Failed]"

definition BuildSelectResponse :: "SelectResult \<Rightarrow> string" where
  "BuildSelectResponse result =
     Stringify (build_object [(''kind'', JString ''select_result''), (''result'', JString (SelectResultName result))])"

definition ParseSelectResponse :: "string \<Rightarrow> SelectResult option" where
  "ParseSelectResponse json =
     (case ParseKind json ''select_result'' of
        None \<Rightarrow> None
      | Some v \<Rightarrow>
          (case GetString v ''result'' of
             None \<Rightarrow> None
           | Some name \<Rightarrow> find (\<lambda>r. name = SelectResultName r) kSelectResults))"

section \<open>Frames\<close>

definition EncodeFrame :: "string \<Rightarrow> nat \<Rightarrow> string option" where
  "EncodeFrame json max_bytes =
     (if json = [] \<or> length json > max_bytes then None
      else let sz = word_of_nat (length json) :: 32 word in
           Some (map (\<lambda>shift. byte (unat (drop_bit shift sz))) [0, 8, 16, 24] @ json))"

definition DecodeFrameLength :: "string \<Rightarrow> nat \<Rightarrow> nat option" where
  "DecodeFrameLength header max_bytes =
     (let sz = unat (frame_size header) in if sz = 0 \<or> sz > max_bytes then None else Some sz)"

section \<open>What a valid suggestion is\<close>

lemma suggestion_from_chars:
  "suggestion_from s pos \<Longrightarrow> pos \<le> length s \<Longrightarrow>
     \<exists>cps. drop pos s = utf8s cps \<and> list_all (\<lambda>c. is_scalar c \<and> \<not> IsRefusedSuggestionCodePoint c) cps"
proof (induction s pos rule: suggestion_from.induct)
  case (1 s pos)
  show ?case
  proof (cases "pos < length s")
    case True
    then obtain cp j where n: "NextCodePoint s pos = Some (cp, j)" and ok: "\<not> IsRefusedSuggestionCodePoint cp"
        "suggestion_from s j"
      using 1(2) by (auto simp: suggestion_from.simps [of s pos] split: option.splits if_splits)
    then obtain t where t: "is_scalar cp" "drop pos s = utf8 cp @ t" "j = pos + length (utf8 cp)"
      using True by (auto simp: NextCodePoint_iff)
    have "length s - pos = length (utf8 cp) + length t" using arg_cong [OF t(2), of length] by simp
    then have "j \<le> length s" using t(3) True by simp
    then obtain cps where "drop j s = utf8s cps" "list_all (\<lambda>c. is_scalar c \<and> \<not> IsRefusedSuggestionCodePoint c) cps"
      using 1(1) [OF True n refl ok(1) ok(2)] by blast
    moreover have "drop j s = drop (length (utf8 cp)) (drop pos s)" by (simp add: t(3) add.commute)
    then have "drop j s = t" by (simp add: t(2))
    ultimately show ?thesis using t ok by (intro exI [of _ "cp # cps"]) simp
  next
    case False
    then show ?thesis using 1(3) by (intro exI [of _ "[]"]) simp
  qed
qed

lemma utf8_not_control: "is_scalar cp \<Longrightarrow> 0x20 \<le> cp \<Longrightarrow> list_all (\<lambda>c. 0x20 \<le> ord c) (utf8 cp)"
proof (cases "cp < 0x80")
  case False
  assume "is_scalar cp"
  then have "list_all (\<lambda>c. 0x80 \<le> ord c) (utf8 cp)" using utf8_high [of cp] False by simp
  then show ?thesis by (auto simp: list_all_iff)
qed (simp add: utf8_cases)

lemma valid_suggestion:
  assumes "IsValidSelectSuggestion s"
  shows "valid_utf8 s" "list_all (\<lambda>c. 0x20 \<le> ord c) s" "length s \<le> 256" "s \<noteq> []"
proof -
  obtain cps where c: "s = utf8s cps" "list_all (\<lambda>c. is_scalar c \<and> \<not> IsRefusedSuggestionCodePoint c) cps"
    using assms suggestion_from_chars [of s 0] by (auto simp: IsValidSelectSuggestion_def)
  then show "valid_utf8 s" by (auto simp: valid_utf8_iff list_all_iff)
  have "list_all (\<lambda>c. is_scalar c \<and> \<not> IsRefusedSuggestionCodePoint c) cps \<Longrightarrow> list_all (\<lambda>c. 0x20 \<le> ord c) (utf8s cps)" for cps
    by (induction cps) (auto simp: IsRefusedSuggestionCodePoint_def utf8_not_control)
  then show "list_all (\<lambda>c. 0x20 \<le> ord c) s" using c by blast
  show "length s \<le> 256" "s \<noteq> []" using assms by (simp_all add: IsValidSelectSuggestion_def limits)
qed

lemma escape_length_printable: "list_all (\<lambda>c. 0x20 \<le> ord c) s \<Longrightarrow> length (EscapeString s) \<le> 2 * length s"
proof (induction s)
  case (Cons c s)
  then have "length (escape_byte c) \<le> 2" by (simp add: escape_byte_def)
  with Cons show ?case by (simp add: EscapeString_def)
qed (simp add: EscapeString_def)

lemma valid_loop_valid:
  "list_all IsValidSelectSuggestion acc \<Longrightarrow> length acc \<le> kMaxSelectSuggestions \<Longrightarrow>
     list_all IsValidSelectSuggestion (valid_loop acc ss) \<and> length (valid_loop acc ss) \<le> kMaxSelectSuggestions"
  by (induction acc ss rule: valid_loop.induct) auto

lemma ValidSuggestions_valid:
  "list_all IsValidSelectSuggestion (ValidSuggestions ss)" "length (ValidSuggestions ss) \<le> kMaxSelectSuggestions"
  using valid_loop_valid [of "[]" ss] by (simp_all add: ValidSuggestions_def)

lemma suggestion_loop_valid:
  "list_all IsValidSelectSuggestion acc \<Longrightarrow> length acc \<le> kMaxSelectSuggestions \<Longrightarrow>
     list_all IsValidSelectSuggestion (suggestion_loop acc vs) \<and> length (suggestion_loop acc vs) \<le> kMaxSelectSuggestions"
  by (induction acc vs rule: suggestion_loop.induct) (auto split: json.splits)

lemma suggestion_loop_all:
  "list_all IsValidSelectSuggestion ss \<Longrightarrow> length acc + length ss \<le> kMaxSelectSuggestions \<Longrightarrow>
     suggestion_loop acc (map JString ss) = acc @ ss"
  by (induction ss arbitrary: acc) auto

section \<open>Sizes\<close>

lemma elements_length:
  "list_all IsValidSelectSuggestion ss \<Longrightarrow> length (stringify_elements first (map JString ss)) \<le> 515 * length ss"
proof (induction ss arbitrary: first)
  case (Cons s ss)
  have "length (EscapeString s) \<le> 512"
    using escape_length_printable [OF valid_suggestion(2) [of s]] valid_suggestion(3) [of s] Cons.prems by simp
  then show ?case using Cons.IH [of False] Cons.prems by (simp add: quoted_def)
qed simp

lemma Value_int_length: "length (Stringify (Value_int (int (unat (w :: 64 word))))) \<le> 20"
proof -
  have "unat w < 2 ^ 64" using unsigned_less [of w] by simp
  then have "Stringify (Value_int (int (unat w))) = to_string (unat w)" by (rule Stringify_Value_nat)
  moreover have "unat w < 10 ^ 20" using \<open>unat w < 2 ^ 64\<close> by simp
  ultimately show ?thesis using length_to_string [of "unat w" 20] by simp
qed

lemma Value_uint_wf: "json_wf (Value_int (int (unat (w :: 64 word))))"
  using unsigned_less [of w] by (intro Value_int_wf) simp

lemma word_uint: "word_of_nat (unat (w :: 64 word)) = w"
  by simp

section \<open>Properties\<close>

lemma request_object:
  "build_object
     ([(''kind'', k), (''start'', s), (''length'', l), (''reconvert'', r)] @ (if b then [(''suggestions'', a)] else [])) =
   JObject ([(''kind'', k), (''length'', l), (''reconvert'', r), (''start'', s)] @ (if b then [(''suggestions'', a)] else []))"
  by (simp add: build_object_def less_char_def)

lemma document_object:
  "build_object [(''kind'', k), (''status'', s), (''text'', t), (''secure'', c), (''learning_allowed'', l), (''window'', w)] =
   JObject [(''kind'', k), (''learning_allowed'', l), (''secure'', c), (''status'', s), (''text'', t), (''window'', w)]"
  by (simp add: build_object_def less_char_def)

lemma keys_plain:
  "list_all (\<lambda>k. EscapeString k = k \<and> valid_utf8 k)
     [''kind'', ''length'', ''reconvert'', ''start'', ''suggestions'', ''select'', ''document'', ''learning_allowed'',
      ''secure'', ''status'', ''text'', ''window'', ''select_result'', ''result'']"
  by (simp add: plain_text)

lemma Parse_printed:
  "json_wf v \<Longrightarrow> json_depth v \<le> kMaxJsonNestDepth \<Longrightarrow> length (Stringify v) \<le> kMaxJsonInputBytes \<Longrightarrow>
     Parse (Stringify v) = Some v"
  by (simp add: Parse_def ParseDocument_printed)

definition request_json :: "SelectRequest \<Rightarrow> json" where
  "request_json r =
     JObject ([(''kind'', JString ''select''), (''length'', Value_int (int (unat (len r)))),
       (''reconvert'', JBool (reconvert r)), (''start'', Value_int (int (unat (start r))))] @
       (if ValidSuggestions (suggestions r) \<noteq> []
        then [(''suggestions'', JArray (map JString (ValidSuggestions (suggestions r))))] else []))"

lemma BuildSelectRequest_eq: "BuildSelectRequest r = Stringify (request_json r)"
  unfolding BuildSelectRequest_def Let_def request_object request_json_def ..

lemma request_json_wf: "json_wf (request_json r)" "json_depth (request_json r) \<le> kMaxJsonNestDepth"
proof -
  have "\<forall>s \<in> set (ValidSuggestions (suggestions r)). valid_utf8 s"
    using ValidSuggestions_valid(1) [of "suggestions r"] valid_suggestion(1) by (auto simp: list_all_iff)
  then show "json_wf (request_json r)"
    using keys_plain Value_uint_wf [of "len r"] Value_uint_wf [of "start r"]
    by (auto simp: request_json_def map_wf_def less_char_def)
  have "foldr max (map (json_depth \<circ> JString) ss) 0 = 0" for ss by (induction ss) simp_all
  then show "json_depth (request_json r) \<le> kMaxJsonNestDepth"
    by (simp add: request_json_def Value_int_def kMaxJsonNestDepth_def)
qed

lemma request_json_length: "length (Stringify (request_json r)) \<le> kMaxRequestFrameBytes"
proof -
  define ss where "ss = ValidSuggestions (suggestions r)"
  have "length (stringify_elements True (map JString ss)) \<le> 515 * length ss" "length ss \<le> 5"
    using elements_length ValidSuggestions_valid [of "suggestions r"] by (simp_all add: ss_def limits)
  then show ?thesis
    using Value_int_length [of "len r"] Value_int_length [of "start r"] keys_plain
    by (simp add: request_json_def ss_def [symmetric] quoted_def limits)
qed

lemma ParseKind_printed:
  assumes "json_wf v" "json_depth v \<le> kMaxJsonNestDepth" "length (Stringify v) \<le> kMaxJsonInputBytes"
    and "Find v ''kind'' = Some (JString kind)"
  shows "ParseKind (Stringify v) kind = Some v"
  using Parse_printed [OF assms(1-3)] assms(4) by (cases v) (simp_all add: ParseKind_def GetString_def)

lemma request_read_back:
  "ParseSelectRequest (BuildSelectRequest r) = Some (r\<lparr>suggestions := ValidSuggestions (suggestions r)\<rparr>) \<and>
   length (BuildSelectRequest r) \<le> kMaxRequestFrameBytes"
proof -
  define ss where "ss = ValidSuggestions (suggestions r)"
  have "length (Stringify (request_json r)) \<le> kMaxJsonInputBytes"
    using request_json_length [of r] by (simp add: limits kMaxJsonInputBytes_def)
  then have k: "ParseKind (Stringify (request_json r)) ''select'' = Some (request_json r)"
    by (rule ParseKind_printed [OF request_json_wf]) (simp add: request_json_def)
  have u: "GetUInt (request_json r) ''start'' = Some (unat (start r))" "GetUInt (request_json r) ''length'' = Some (unat (len r))"
    using unsigned_less [of "start r"] unsigned_less [of "len r"]
    by (intro GetUInt_Value_int; simp add: request_json_def)+
  have b: "GetBool (request_json r) ''reconvert'' = Some (reconvert r)"
    by (simp add: GetBool_def request_json_def)
  have a: "(case GetArray (request_json r) ''suggestions'' of Some a \<Rightarrow> suggestion_loop [] a | None \<Rightarrow> []) = ss"
    using ValidSuggestions_valid [of "suggestions r"]
    by (simp add: GetArray_def request_json_def ss_def suggestion_loop_all)
  have "ParseSelectRequest (Stringify (request_json r)) = Some \<lparr>start = start r, len = len r, reconvert = reconvert r, suggestions = ss\<rparr>"
    by (simp add: ParseSelectRequest_def k u b a)
  then show ?thesis using request_json_length [of r] by (simp add: BuildSelectRequest_eq ss_def)
qed

text \<open>A select request is received as it was sent, except that only the first five valid
  suggestions go along; and its text always fits \<open>kMaxRequestFrameBytes\<close>, whatever the suggestions.
\<close>

theorem select_request_roundtrip:
  "ParseSelectRequest (BuildSelectRequest r) = Some (r\<lparr>suggestions := ValidSuggestions (suggestions r)\<rparr>) \<and>
   length (BuildSelectRequest r) \<le> kMaxRequestFrameBytes"
  by (rule request_read_back)

text \<open>Whatever bytes arrive as a select request, the suggestions taken from them are at most five,
  and each is non-empty valid UTF-8 of at most 256 bytes without control, bidirectional or
  invisible characters.
\<close>

theorem ParseSelectRequest_safe:
  assumes "ParseSelectRequest json = Some r"
  shows "length (suggestions r) \<le> kMaxSelectSuggestions \<and> list_all IsValidSelectSuggestion (suggestions r) \<and>
    list_all (\<lambda>s. \<exists>cps. s = utf8s cps \<and> list_all (\<lambda>c. is_scalar c \<and> \<not> IsRefusedSuggestionCodePoint c) cps) (suggestions r)"
proof -
  have v: "length (suggestions r) \<le> kMaxSelectSuggestions \<and> list_all IsValidSelectSuggestion (suggestions r)"
    using assms suggestion_loop_valid [of "[]"]
    by (auto simp: ParseSelectRequest_def split: option.splits)
  then show ?thesis
    using suggestion_from_chars [of _ 0] by (fastforce simp: list_all_iff IsValidSelectSuggestion_def)
qed

theorem ParseSelectRequest_safe_witness:
  "length (suggestions \<lparr>start = 1, len = 2, reconvert = True, suggestions = ValidSuggestions [''ok'']\<rparr>) \<le> kMaxSelectSuggestions"
proof -
  have "ParseSelectRequest (BuildSelectRequest \<lparr>start = 1, len = 2, reconvert = True, suggestions = [''ok'']\<rparr>) =
      Some \<lparr>start = 1, len = 2, reconvert = True, suggestions = ValidSuggestions [''ok'']\<rparr>"
    by (simp add: request_read_back)
  from ParseSelectRequest_safe [OF this] show ?thesis by simp
qed

section \<open>Documents and responses\<close>

definition document_json :: "DocumentMessage \<Rightarrow> json" where
  "document_json m =
     JObject [(''kind'', JString ''document''), (''learning_allowed'', JBool (learning_allowed m)),
       (''secure'', JBool (secure m)), (''status'', JString (DocumentStatusName (status m))),
       (''text'', JString (if status m = Captured then doc_text m else [])),
       (''window'', Value_int (int (unat (window m))))]"

lemma BuildDocumentMessage_eq: "BuildDocumentMessage m = Stringify (document_json m)"
  unfolding BuildDocumentMessage_def document_object document_json_def ..

lemma status_plain: "EscapeString (DocumentStatusName st) = DocumentStatusName st \<and> valid_utf8 (DocumentStatusName st)
    \<and> length (DocumentStatusName st) \<le> 11 \<and> DocumentStatusFromName (DocumentStatusName st) = Some st"
  by (cases st) (simp_all add: plain_text DocumentStatusFromName_def)

lemma document_json_length:
  assumes "length (doc_text m) \<le> kMaxAnomalyTextBytes"
  shows "length (Stringify (document_json m)) \<le> kMaxDocumentFrameBytes"
  using assms EscapeString_length [of "if status m = Captured then doc_text m else []"] status_plain [of "status m"]
    Value_int_length [of "window m"] keys_plain
  by (simp add: document_json_def quoted_def limits split del: if_split) (simp split: if_splits)

text \<open>The document a session starts with is received as it was captured, with its privacy flags and
  its window; a 60 KiB text of nothing but escapes still fits \<open>kMaxDocumentFrameBytes\<close>.
\<close>

theorem document_roundtrip:
  assumes "valid_utf8 (doc_text m)" "length (doc_text m) \<le> kMaxAnomalyTextBytes"
    and "doc_text m = [] \<longleftrightarrow> status m \<noteq> Captured"
  shows "ParseDocumentMessage (BuildDocumentMessage m) = Some m \<and>
    length (BuildDocumentMessage m) \<le> kMaxDocumentFrameBytes"
proof -
  let ?v = "document_json m"
  have wf: "json_wf ?v"
    using assms(1) status_plain [of "status m"] keys_plain Value_uint_wf [of "window m"]
    by (simp add: document_json_def map_wf_def less_char_def)
  have d: "json_depth ?v \<le> kMaxJsonNestDepth" by (simp add: document_json_def Value_int_def kMaxJsonNestDepth_def)
  have l: "length (Stringify ?v) \<le> kMaxJsonInputBytes"
    using document_json_length [OF assms(2)] by (simp add: limits kMaxJsonInputBytes_def)
  have k: "ParseKind (Stringify ?v) ''document'' = Some ?v"
    by (rule ParseKind_printed [OF wf d l]) (simp add: document_json_def)
  have g: "GetString ?v ''status'' = Some (DocumentStatusName (status m))" "GetString ?v ''text'' = Some (doc_text m)"
      "GetBool ?v ''secure'' = Some (secure m)" "GetBool ?v ''learning_allowed'' = Some (learning_allowed m)"
    using assms(3) by (auto simp: document_json_def GetString_def GetBool_def)
  have w: "GetUInt ?v ''window'' = Some (unat (window m))"
    using unsigned_less [of "window m"] by (intro GetUInt_Value_int; simp add: document_json_def)
  have "ParseDocumentMessage (Stringify ?v) = Some m"
    using assms(2,3) status_plain [of "status m"] by (simp add: ParseDocumentMessage_def k g w)
  then show ?thesis using document_json_length [OF assms(2)] by (simp add: BuildDocumentMessage_eq)
qed

theorem document_roundtrip_witness:
  "ParseDocumentMessage (BuildDocumentMessage
     \<lparr>status = Captured, doc_text = ''text'', secure = False, learning_allowed = True, window = 5\<rparr>) =
   Some \<lparr>status = Captured, doc_text = ''text'', secure = False, learning_allowed = True, window = 5\<rparr>"
  using document_roundtrip [of "\<lparr>status = Captured, doc_text = ''text'', secure = False, learning_allowed = True, window = 5\<rparr>"]
    keys_plain by (simp add: limits)

lemma response_roundtrip: "ParseSelectResponse (BuildSelectResponse r) = Some r"
proof -
  let ?v = "JObject [(''kind'', JString ''select_result''), (''result'', JString (SelectResultName r))]"
  have n: "EscapeString (SelectResultName r) = SelectResultName r \<and> valid_utf8 (SelectResultName r) \<and> length (SelectResultName r) \<le> 16"
    by (cases r) (simp_all add: plain_text)
  have b: "BuildSelectResponse r = Stringify ?v" by (simp add: BuildSelectResponse_def build_object_def less_char_def)
  have k: "ParseKind (Stringify ?v) ''select_result'' = Some ?v"
  proof (rule ParseKind_printed)
    show "json_wf ?v" using keys_plain n by (simp add: map_wf_def less_char_def)
  qed (use n keys_plain in \<open>simp_all add: kMaxJsonNestDepth_def kMaxJsonInputBytes_def quoted_def\<close>)
  show ?thesis unfolding b
    by (simp only: ParseSelectResponse_def k) (cases r; simp add: GetString_def kSelectResults_def)
qed

section \<open>Frames and tokens\<close>

lemma EncodeFrame_length:
  assumes "EncodeFrame json max_bytes = Some bytes" "max_bytes < 2 ^ 32"
  shows "DecodeFrameLength bytes max_bytes = Some (length (drop 4 bytes)) \<and> drop 4 bytes = json"
proof -
  have j: "json \<noteq> []" "length json \<le> max_bytes"
    and b: "bytes = map (\<lambda>shift. byte (unat (drop_bit shift (word_of_nat (length json) :: 32 word)))) [0, 8, 16, 24] @ json"
    using assms(1) by (auto simp: EncodeFrame_def Let_def split: if_splits)
  have n: "length json < 2 ^ 32" using j assms(2) by simp
  have d: "unat (drop_bit k (word_of_nat (length json) :: 32 word)) = length json div 2 ^ k" for k
    using n by (simp only: unsigned_drop_bit_eq) (simp add: unat_of_nat take_bit_eq_mod drop_bit_eq_div)
  have "unat (frame_size bytes) = length json"
    using sum_of_bytes [OF n] n unfolding b d by (simp add: frame_size_value less_mult_imp_div_less)
  then show ?thesis using j by (simp add: DecodeFrameLength_def b)
qed

lemma session_token_valid:
  assumes "length bytes = 16" "list_all (\<lambda>b. b < 256) bytes"
  shows "IsValidSessionToken (session_token bytes)"
proof -
  have hex: "(48 \<le> ord (hex_lower d) \<and> ord (hex_lower d) \<le> 57) \<or> (97 \<le> ord (hex_lower d) \<and> ord (hex_lower d) \<le> 102)"
    if "d < 16" for d using that by (auto simp: hex_lower_def)
  have "length (session_token bs) = 2 * length bs" for bs by (induction bs) (simp_all add: session_token_def)
  moreover have "drop_bit 4 b < 16" "b AND 0x0f < 16" if "b < 256" for b :: nat
    using that less_mult_imp_div_less [of b 16 16] by (simp_all add: drop_bit_eq_div bits)
  ultimately show ?thesis
    using assms hex by (auto simp: IsValidSessionToken_def limits session_token_def list_all_iff)
qed

end
