(* ===== verification/ManagementPayloads.thy ===== *)
theory ManagementPayloads
  imports ConversionPayloads ProofreadSession
begin

text \<open>
  The payloads of the settings application (the second half of \<open>ipc/src/Payloads.cpp\<close>): user words, typos,
  new words, models and their download, learning data, the writing persona and anomalies. A
  \<open>std::map<std::string, V>\<close> is an association list in increasing key order.
\<close>

section \<open>User words, configuration, typos\<close>

record AddUserWordRequest =
  aw_word :: string
  aw_ruby :: string
  aw_cid :: "int option"
  aw_mid :: "int option"
  aw_value :: "double option"

definition BuildAddUserWordRequest :: "AddUserWordRequest \<Rightarrow> string" where
  "BuildAddUserWordRequest p = Stringify (build_object
     ([(''word'', JString (aw_word p)), (''ruby'', JString (aw_ruby p))] @
      member_opt ''cid'' Value_int (aw_cid p) @ member_opt ''mid'' Value_int (aw_mid p) @
      member_opt ''value'' Value_double (aw_value p)))"

definition ParseAddUserWordRequest :: "string \<Rightarrow> AddUserWordRequest option" where
  "ParseAddUserWordRequest json = do {
     v \<leftarrow> parse_object json;
     word \<leftarrow> GetString v ''word'';
     ruby \<leftarrow> GetString v ''ruby'';
     Some \<lparr>aw_word = word, aw_ruby = ruby, aw_cid = map_option int_of_int64 (GetInt v ''cid''),
       aw_mid = map_option int_of_int64 (GetInt v ''mid''), aw_value = GetNumber v ''value''\<rparr> }"

record AddUserWordResponse =
  ar_ok :: bool
  generated_id :: "string option"
  ar_error :: "string option"

definition BuildAddUserWordResponse :: "AddUserWordResponse \<Rightarrow> string" where
  "BuildAddUserWordResponse p = Stringify (build_object
     ([(''ok'', JBool (ar_ok p))] @ member_opt ''generated_id'' JString (generated_id p) @ member_opt ''error'' JString (ar_error p)))"

definition ParseAddUserWordResponse :: "string \<Rightarrow> AddUserWordResponse option" where
  "ParseAddUserWordResponse json = do {
     v \<leftarrow> parse_object json;
     r \<leftarrow> GetBool v ''ok'';
     Some \<lparr>ar_ok = r, generated_id = GetString v ''generated_id'', ar_error = GetString v ''error''\<rparr> }"

record RemoveUserWordRequest =
  rw_word :: string
  rw_ruby :: string

definition BuildRemoveUserWordRequest :: "RemoveUserWordRequest \<Rightarrow> string" where
  "BuildRemoveUserWordRequest p = Stringify (build_object [(''word'', JString (rw_word p)), (''ruby'', JString (rw_ruby p))])"

definition ParseRemoveUserWordRequest :: "string \<Rightarrow> RemoveUserWordRequest option" where
  "ParseRemoveUserWordRequest json = do {
     v \<leftarrow> parse_object json;
     word \<leftarrow> GetString v ''word'';
     ruby \<leftarrow> GetString v ''ruby'';
     Some \<lparr>rw_word = word, rw_ruby = ruby\<rparr> }"

record RemoveUserWordResponse =
  rw_ok :: bool
  rw_error :: "string option"

definition BuildRemoveUserWordResponse :: "RemoveUserWordResponse \<Rightarrow> string" where
  "BuildRemoveUserWordResponse p = Stringify (build_object ([(''ok'', JBool (rw_ok p))] @ member_opt ''error'' JString (rw_error p)))"

definition ParseRemoveUserWordResponse :: "string \<Rightarrow> RemoveUserWordResponse option" where
  "ParseRemoveUserWordResponse json = do {
     v \<leftarrow> parse_object json;
     r \<leftarrow> GetBool v ''ok'';
     Some \<lparr>rw_ok = r, rw_error = GetString v ''error''\<rparr> }"

record UpdateConfigResponse =
  uc_ok :: bool
  uc_error :: "string option"

definition BuildUpdateConfigResponse :: "UpdateConfigResponse \<Rightarrow> string" where
  "BuildUpdateConfigResponse p = Stringify (build_object ([(''ok'', JBool (uc_ok p))] @ member_opt ''error'' JString (uc_error p)))"

definition ParseUpdateConfigResponse :: "string \<Rightarrow> UpdateConfigResponse option" where
  "ParseUpdateConfigResponse json = do {
     v \<leftarrow> parse_object json;
     r \<leftarrow> GetBool v ''ok'';
     Some \<lparr>uc_ok = r, uc_error = GetString v ''error''\<rparr> }"

record ObserveTypoRequest =
  wrong_reading :: string
  correct_reading :: string
  ot_timestamp_ms :: "64 word"
  ot_secure :: bool
  ot_learning_allowed :: bool

definition BuildObserveTypoRequest :: "ObserveTypoRequest \<Rightarrow> string" where
  "BuildObserveTypoRequest p = Stringify (build_object
     [(''wrong_reading'', JString (wrong_reading p)), (''correct_reading'', JString (correct_reading p)),
      (''timestamp_ms'', Value_u64 (ot_timestamp_ms p)), (''secure'', JBool (ot_secure p)),
      (''learning_allowed'', JBool (ot_learning_allowed p))])"

definition ParseObserveTypoRequest :: "string \<Rightarrow> ObserveTypoRequest option" where
  "ParseObserveTypoRequest json = do {
     v \<leftarrow> parse_object json;
     wrong \<leftarrow> GetString v ''wrong_reading'';
     correct \<leftarrow> GetString v ''correct_reading'';
     Some \<lparr>wrong_reading = wrong, correct_reading = correct,
       ot_timestamp_ms = word_of_nat (value_or (GetUInt v ''timestamp_ms'') 0),
       ot_secure = value_or (GetBool v ''secure'') True, ot_learning_allowed = value_or (GetBool v ''learning_allowed'') False\<rparr> }"

record ObserveTypoResponse =
  ot_ok :: bool

definition BuildObserveTypoResponse :: "ObserveTypoResponse \<Rightarrow> string" where
  "BuildObserveTypoResponse p = Stringify (build_object [(''ok'', JBool (ot_ok p))])"

definition ParseObserveTypoResponse :: "string \<Rightarrow> ObserveTypoResponse option" where
  "ParseObserveTypoResponse json = do {
     v \<leftarrow> parse_object json;
     r \<leftarrow> GetBool v ''ok'';
     Some \<lparr>ot_ok = r\<rparr> }"

section \<open>New words\<close>

definition kMaxNewWordCandidates :: nat where "kMaxNewWordCandidates = 500"

record NewWordField =
  nw_surface :: string
  nw_reading :: string
  nw_source :: string
  nw_state :: string
  nw_count :: "32 word"
  last_seen_epoch :: "64 word"

definition IsKnownNewWordState :: "string \<Rightarrow> bool" where
  "IsKnownNewWordState s \<longleftrightarrow> s = ''pending'' \<or> s = ''confirmed'' \<or> s = ''rejected''"

definition NewWordToJson :: "NewWordField \<Rightarrow> json" where
  "NewWordToJson w = build_object
     [(''surface'', JString (nw_surface w)), (''reading'', JString (nw_reading w)), (''source'', JString (nw_source w)),
      (''state'', JString (nw_state w)), (''count'', Value_u32 (nw_count w)), (''last_seen_epoch'', Value_u64 (last_seen_epoch w))]"

definition NewWordFromJson :: "json \<Rightarrow> NewWordField option" where
  "NewWordFromJson v =
     (if \<not> is_object v then None
      else do {
        surface \<leftarrow> GetString v ''surface'';
        reading \<leftarrow> GetString v ''reading'';
        Some \<lparr>nw_surface = surface, nw_reading = reading, nw_source = value_or (GetString v ''source'') [],
          nw_state = value_or (GetString v ''state'') [], nw_count = word_of_nat (value_or (GetUInt v ''count'') 0),
          last_seen_epoch = word_of_nat (value_or (GetUInt v ''last_seen_epoch'') 0)\<rparr> })"

record ListNewWordCandidatesRequest =
  state_filter :: string
  max_items :: "32 word"

definition BuildListNewWordCandidatesRequest :: "ListNewWordCandidatesRequest \<Rightarrow> string" where
  "BuildListNewWordCandidatesRequest p = Stringify (build_object
     [(''state_filter'', JString (state_filter p)), (''max_items'', Value_u32 (max_items p))])"

definition ParseListNewWordCandidatesRequest :: "string \<Rightarrow> ListNewWordCandidatesRequest option" where
  "ParseListNewWordCandidatesRequest json = do {
     v \<leftarrow> parse_object json;
     filter_state \<leftarrow> (case GetString v ''state_filter'' of None \<Rightarrow> Some ''pending''
        | Some f \<Rightarrow> if \<not> IsKnownNewWordState f then None else Some f);
     items \<leftarrow> (case GetUInt v ''max_items'' of None \<Rightarrow> Some 50
        | Some n \<Rightarrow> if n = 0 \<or> n > kMaxNewWordCandidates then None else Some (word_of_nat n));
     Some \<lparr>state_filter = filter_state, max_items = items\<rparr> }"

record ListNewWordCandidatesResponse =
  nl_ok :: bool
  nl_error :: "string option"
  nl_items :: "NewWordField list"

definition BuildListNewWordCandidatesResponse :: "ListNewWordCandidatesResponse \<Rightarrow> string" where
  "BuildListNewWordCandidatesResponse p = Stringify (build_object
     ([(''ok'', JBool (nl_ok p))] @ member_opt ''error'' JString (nl_error p) @
      [(''items'', JArray (map NewWordToJson (nl_items p)))]))"

definition ParseListNewWordCandidatesResponse :: "string \<Rightarrow> ListNewWordCandidatesResponse option" where
  "ParseListNewWordCandidatesResponse json = do {
     v \<leftarrow> parse_object json;
     Some \<lparr>nl_ok = value_or (GetBool v ''ok'') True, nl_error = GetString v ''error'',
       nl_items = (case GetArray v ''items'' of None \<Rightarrow> [] | Some es \<Rightarrow> List.map_filter NewWordFromJson es)\<rparr> }"

record ResolveNewWordRequest =
  rn_surface :: string
  rn_reading :: string
  rn_action :: string

definition BuildResolveNewWordRequest :: "ResolveNewWordRequest \<Rightarrow> string" where
  "BuildResolveNewWordRequest p = Stringify (build_object
     [(''surface'', JString (rn_surface p)), (''reading'', JString (rn_reading p)), (''action'', JString (rn_action p))])"

definition ParseResolveNewWordRequest :: "string \<Rightarrow> ResolveNewWordRequest option" where
  "ParseResolveNewWordRequest json = do {
     v \<leftarrow> parse_object json;
     surface \<leftarrow> GetString v ''surface'';
     reading \<leftarrow> GetString v ''reading'';
     action \<leftarrow> GetString v ''action'';
     if surface = [] \<or> reading = [] \<or> action \<noteq> ''confirm'' \<and> action \<noteq> ''reject'' then None
     else Some \<lparr>rn_surface = surface, rn_reading = reading, rn_action = action\<rparr> }"

record ResolveNewWordResponse =
  rn_ok :: bool
  rn_changed :: bool
  rn_error :: "string option"

definition BuildResolveNewWordResponse :: "ResolveNewWordResponse \<Rightarrow> string" where
  "BuildResolveNewWordResponse p = Stringify (build_object
     ([(''ok'', JBool (rn_ok p)), (''changed'', JBool (rn_changed p))] @ member_opt ''error'' JString (rn_error p)))"

definition ParseResolveNewWordResponse :: "string \<Rightarrow> ResolveNewWordResponse option" where
  "ParseResolveNewWordResponse json = do {
     v \<leftarrow> parse_object json;
     r \<leftarrow> GetBool v ''ok'';
     Some \<lparr>rn_ok = r, rn_changed = value_or (GetBool v ''changed'') False, rn_error = GetString v ''error''\<rparr> }"

section \<open>Models\<close>

text \<open>A member that may be absent but must not be of another type; \<^term>\<open>None\<close> refuses the request. The
  model requests contain the same test for a string in line.\<close>

definition ReadOptionalString :: "json \<Rightarrow> string \<Rightarrow> string \<Rightarrow> string option" where
  "ReadOptionalString v key out = (case Find v key of None \<Rightarrow> Some out | Some (JString s) \<Rightarrow> Some s | Some _ \<Rightarrow> None)"

definition ReadOptionalBool :: "json \<Rightarrow> string \<Rightarrow> bool \<Rightarrow> bool option" where
  "ReadOptionalBool v key out = (case Find v key of None \<Rightarrow> Some out | Some (JBool b) \<Rightarrow> Some b | Some _ \<Rightarrow> None)"

record ListModelsRequest =
  lm_directory :: string
  compute_sha256 :: bool
  include_catalog :: bool

definition BuildListModelsRequest :: "ListModelsRequest \<Rightarrow> string" where
  "BuildListModelsRequest p = Stringify (build_object
     (member_if (lm_directory p \<noteq> []) ''directory'' (JString (lm_directory p)) @
      [(''compute_sha256'', JBool (compute_sha256 p))] @ member_if (include_catalog p) ''include_catalog'' (JBool True)))"

definition ParseListModelsRequest :: "string \<Rightarrow> ListModelsRequest option" where
  "ParseListModelsRequest json = do {
     v \<leftarrow> parse_object json;
     directory \<leftarrow> ReadOptionalString v ''directory'' [];
     Some \<lparr>lm_directory = directory, compute_sha256 = value_or (GetBool v ''compute_sha256'') False,
       include_catalog = value_or (GetBool v ''include_catalog'') False\<rparr> }"

record ListedModelMetadata =
  model_family :: string
  quantization :: string
  n_params :: "64 word"

record ListedModel =
  lm_path :: string
  lm_file_name :: string
  lm_format :: string
  lm_size_bytes :: "64 word"
  lm_valid :: bool
  lm_metadata :: ListedModelMetadata
  lm_sha256 :: string
  last_load_status :: string
  lm_last_error :: string
  catalog_id :: string

definition metadata_json :: "ListedModelMetadata \<Rightarrow> json" where
  "metadata_json d = build_object
     (member_if (model_family d \<noteq> []) ''model_family'' (JString (model_family d)) @
      member_if (quantization d \<noteq> []) ''quantization'' (JString (quantization d)) @
      member_if (n_params d \<noteq> 0) ''n_params'' (Value_u64 (n_params d)))"

definition ListedModelToJson :: "ListedModel \<Rightarrow> json" where
  "ListedModelToJson d = build_object
     ([(''path'', JString (lm_path d)), (''file_name'', JString (lm_file_name d)), (''format'', JString (lm_format d)),
       (''size_bytes'', Value_u64 (lm_size_bytes d)), (''valid'', JBool (lm_valid d))] @
      member_if (lm_format d = ''gguf'') ''gguf_valid'' (JBool (lm_valid d)) @
      [(''metadata'', metadata_json (lm_metadata d))] @
      member_if (lm_sha256 d \<noteq> []) ''sha256'' (JString (lm_sha256 d)) @
      [(''last_load_status'', JString (last_load_status d))] @
      member_if (lm_last_error d \<noteq> []) ''last_error'' (JString (lm_last_error d)) @
      member_if (catalog_id d \<noteq> []) ''catalog_id'' (JString (catalog_id d)))"

definition ListedModelFromJson :: "json \<Rightarrow> ListedModel option" where
  "ListedModelFromJson v =
     (if \<not> is_object v then None
      else do {
        path \<leftarrow> GetString v ''path'';
        format \<leftarrow> GetString v ''format'';
        let metadata = (case FindObject v ''metadata'' of
          None \<Rightarrow> \<lparr>model_family = [], quantization = [], n_params = 0\<rparr>
        | Some md \<Rightarrow> \<lparr>model_family = value_or (GetString (JObject md) ''model_family'') [],
            quantization = value_or (GetString (JObject md) ''quantization'') [],
            n_params = word_of_nat (value_or (GetUInt (JObject md) ''n_params'') 0)\<rparr>);
        Some \<lparr>lm_path = path, lm_file_name = value_or (GetString v ''file_name'') [], lm_format = format,
          lm_size_bytes = word_of_nat (value_or (GetUInt v ''size_bytes'') 0),
          lm_valid = value_or (GetBool v ''valid'') (value_or (GetBool v ''gguf_valid'') False), lm_metadata = metadata,
          lm_sha256 = value_or (GetString v ''sha256'') [], last_load_status = value_or (GetString v ''last_load_status'') ''not_loaded'',
          lm_last_error = value_or (GetString v ''last_error'') [], catalog_id = value_or (GetString v ''catalog_id'') []\<rparr> })"

record CatalogModelEntry =
  ce_id :: string
  ce_display_name :: string
  ce_file_name :: string
  ce_is_default :: bool
  ce_size_bytes :: "64 word"
  ce_prompt_format :: string
  fetchable :: bool
  ce_state :: string
  ce_path :: string

definition CatalogModelEntryToJson :: "CatalogModelEntry \<Rightarrow> json" where
  "CatalogModelEntryToJson e = build_object
     [(''id'', JString (ce_id e)), (''display_name'', JString (ce_display_name e)), (''file_name'', JString (ce_file_name e)),
      (''is_default'', JBool (ce_is_default e)), (''size_bytes'', Value_u64 (ce_size_bytes e)),
      (''prompt_format'', JString (ce_prompt_format e)), (''fetchable'', JBool (fetchable e)), (''state'', JString (ce_state e)),
      (''path'', JString (ce_path e))]"

definition CatalogModelEntryFromJson :: "json \<Rightarrow> CatalogModelEntry option" where
  "CatalogModelEntryFromJson v =
     (if \<not> is_object v then None
      else do {
        i \<leftarrow> GetString v ''id'';
        if i = [] then None
        else Some \<lparr>ce_id = i, ce_display_name = value_or (GetString v ''display_name'') [],
          ce_file_name = value_or (GetString v ''file_name'') [], ce_is_default = value_or (GetBool v ''is_default'') False,
          ce_size_bytes = word_of_nat (value_or (GetUInt v ''size_bytes'') 0),
          ce_prompt_format = value_or (GetString v ''prompt_format'') [], fetchable = value_or (GetBool v ''fetchable'') False,
          ce_state = value_or (GetString v ''state'') ''missing'', ce_path = value_or (GetString v ''path'') []\<rparr> })"

record ListModelsResponse =
  lr_models :: "ListedModel list"
  lr_ok :: bool
  lr_error :: "string option"
  lr_catalog :: "CatalogModelEntry list option"

definition BuildListModelsResponse :: "ListModelsResponse \<Rightarrow> string" where
  "BuildListModelsResponse p = Stringify (build_object
     (member_if (\<not> lr_ok p) ''ok'' (JBool False) @ member_opt ''error'' JString (lr_error p) @
      [(''models'', JArray (map ListedModelToJson (lr_models p)))] @
      member_opt ''catalog'' (\<lambda>es. JArray (map CatalogModelEntryToJson es)) (lr_catalog p)))"

definition ParseListModelsResponse :: "string \<Rightarrow> ListModelsResponse option" where
  "ParseListModelsResponse json = do {
     v \<leftarrow> parse_object json;
     models \<leftarrow> GetArray v ''models'';
     Some \<lparr>lr_models = List.map_filter ListedModelFromJson models, lr_ok = value_or (GetBool v ''ok'') True,
       lr_error = GetString v ''error'',
       lr_catalog = map_option (List.map_filter CatalogModelEntryFromJson) (GetArray v ''catalog'')\<rparr> }"

record BenchmarkModelRequest =
  bm_path :: string
  bm_backend :: string
  bm_cases :: "string list"
  iterations :: "32 word"
  warmup :: "32 word"

definition BuildBenchmarkModelRequest :: "BenchmarkModelRequest \<Rightarrow> string" where
  "BuildBenchmarkModelRequest p = Stringify (build_object
     [(''path'', JString (bm_path p)), (''backend'', JString (bm_backend p)), (''cases'', JArray (map JString (bm_cases p))),
      (''iterations'', Value_u32 (iterations p)), (''warmup'', Value_u32 (warmup p))])"

definition string_value :: "json \<Rightarrow> string option" where
  "string_value v = (case v of JString s \<Rightarrow> Some s | _ \<Rightarrow> None)"

definition ParseBenchmarkModelRequest :: "string \<Rightarrow> BenchmarkModelRequest option" where
  "ParseBenchmarkModelRequest json = do {
     v \<leftarrow> parse_object json;
     path \<leftarrow> GetString v ''path'';
     if path = [] then None
     else do {
       tests \<leftarrow> (case Find v ''cases'' of None \<Rightarrow> Some [] | Some (JArray es) \<Rightarrow> all_of string_value es | Some _ \<Rightarrow> None);
       let rounds = value_or (GetUInt v ''iterations'') 50;
       let warm = value_or (GetUInt v ''warmup'') 5;
       if rounds > 2 ^ 32 - 1 \<or> warm > 2 ^ 32 - 1 then None
       else Some \<lparr>bm_path = path, bm_backend = value_or (GetString v ''backend'') ''cpu'', bm_cases = tests,
         iterations = word_of_nat rounds, warmup = word_of_nat warm\<rparr> } }"

record BenchmarkModelResponse =
  br_backend :: string
  p50_ms :: double
  p95_ms :: double
  p99_ms :: double
  load_ms :: double
  br_rss_mb :: double
  br_vram_mb :: "double option"
  br_status :: string
  iterations_completed :: "32 word"
  br_error :: "string option"

definition BuildBenchmarkModelResponse :: "BenchmarkModelResponse \<Rightarrow> string" where
  "BuildBenchmarkModelResponse p = Stringify (build_object
     [(''backend'', JString (br_backend p)), (''p50_ms'', Value_double (p50_ms p)), (''p95_ms'', Value_double (p95_ms p)),
      (''p99_ms'', Value_double (p99_ms p)), (''load_ms'', Value_double (load_ms p)), (''rss_mb'', Value_double (br_rss_mb p)),
      (''vram_mb'', (case br_vram_mb p of Some d \<Rightarrow> Value_double d | None \<Rightarrow> JNull)), (''status'', JString (br_status p)),
      (''iterations_completed'', Value_u32 (iterations_completed p)),
      (''error'', (case br_error p of Some s \<Rightarrow> JString s | None \<Rightarrow> JNull))])"

definition ParseBenchmarkModelResponse :: "string \<Rightarrow> BenchmarkModelResponse option" where
  "ParseBenchmarkModelResponse json = do {
     v \<leftarrow> parse_object json;
     status \<leftarrow> GetString v ''status'';
     let completed = value_or (GetUInt v ''iterations_completed'') 0;
     Some \<lparr>br_backend = value_or (GetString v ''backend'') [], p50_ms = value_or (GetNumber v ''p50_ms'') zero_double,
       p95_ms = value_or (GetNumber v ''p95_ms'') zero_double, p99_ms = value_or (GetNumber v ''p99_ms'') zero_double,
       load_ms = value_or (GetNumber v ''load_ms'') zero_double, br_rss_mb = value_or (GetNumber v ''rss_mb'') zero_double,
       br_vram_mb = GetNumber v ''vram_mb'', br_status = status,
       iterations_completed = (if completed > 2 ^ 32 - 1 then 0 else word_of_nat completed), br_error = GetString v ''error''\<rparr> }"

record FetchCatalogModelRequest =
  fc_model_id :: string

definition BuildFetchCatalogModelRequest :: "FetchCatalogModelRequest \<Rightarrow> string" where
  "BuildFetchCatalogModelRequest p = Stringify (build_object (member_if (fc_model_id p \<noteq> []) ''model_id'' (JString (fc_model_id p))))"

definition ParseFetchCatalogModelRequest :: "string \<Rightarrow> FetchCatalogModelRequest option" where
  "ParseFetchCatalogModelRequest json = do {
     v \<leftarrow> parse_object json;
     i \<leftarrow> ReadOptionalString v ''model_id'' [];
     Some \<lparr>fc_model_id = i\<rparr> }"

record CatalogFetchResponse =
  cf_ok :: bool
  cf_error :: "string option"
  cf_state :: string
  cf_model_id :: string
  received_bytes :: "64 word"
  total_bytes :: "64 word"
  cf_status :: string
  cf_path :: string
  result_error :: string

definition BuildCatalogFetchResponse :: "CatalogFetchResponse \<Rightarrow> string" where
  "BuildCatalogFetchResponse p = Stringify (build_object
     (member_if (\<not> cf_ok p) ''ok'' (JBool False) @ member_opt ''error'' JString (cf_error p) @
      [(''state'', JString (cf_state p))] @ member_if (cf_model_id p \<noteq> []) ''model_id'' (JString (cf_model_id p)) @
      [(''received_bytes'', Value_u64 (received_bytes p)), (''total_bytes'', Value_u64 (total_bytes p))] @
      member_if (cf_status p \<noteq> []) ''status'' (JString (cf_status p)) @ member_if (cf_path p \<noteq> []) ''path'' (JString (cf_path p)) @
      member_if (result_error p \<noteq> []) ''result_error'' (JString (result_error p))))"

definition ParseCatalogFetchResponse :: "string \<Rightarrow> CatalogFetchResponse option" where
  "ParseCatalogFetchResponse json = do {
     v \<leftarrow> parse_object json;
     state \<leftarrow> GetString v ''state'';
     Some \<lparr>cf_ok = value_or (GetBool v ''ok'') True, cf_error = GetString v ''error'', cf_state = state,
       cf_model_id = value_or (GetString v ''model_id'') [], received_bytes = word_of_nat (value_or (GetUInt v ''received_bytes'') 0),
       total_bytes = word_of_nat (value_or (GetUInt v ''total_bytes'') 0), cf_status = value_or (GetString v ''status'') [],
       cf_path = value_or (GetString v ''path'') [], result_error = value_or (GetString v ''result_error'') []\<rparr> }"

record CancelCatalogFetchRequest =
  xf_model_id :: string

definition BuildCancelCatalogFetchRequest :: "CancelCatalogFetchRequest \<Rightarrow> string" where
  "BuildCancelCatalogFetchRequest p = Stringify (build_object [(''model_id'', JString (xf_model_id p))])"

definition ParseCancelCatalogFetchRequest :: "string \<Rightarrow> CancelCatalogFetchRequest option" where
  "ParseCancelCatalogFetchRequest json = do {
     v \<leftarrow> parse_object json;
     i \<leftarrow> GetString v ''model_id'';
     if i = [] then None else Some \<lparr>xf_model_id = i\<rparr> }"

section \<open>Learning data\<close>

definition kMaxLearningEntries :: nat where "kMaxLearningEntries = 500"
definition kMaxLearningEntryTags :: nat where "kMaxLearningEntryTags = 64"
definition kMaxLearningEntryMetadata :: nat where "kMaxLearningEntryMetadata = 32"
definition kMaxLearningDataStores :: nat where "kMaxLearningDataStores = 16"

definition ReadNonEmptyString :: "json \<Rightarrow> string \<Rightarrow> string option" where
  "ReadNonEmptyString v key = (case GetString v key of None \<Rightarrow> None | Some s \<Rightarrow> if s = [] then None else Some s)"

definition store_name :: "json \<Rightarrow> string option" where
  "store_name v = (case v of JString s \<Rightarrow> if s = [] then None else Some s | _ \<Rightarrow> None)"

definition ReadStoreList :: "json \<Rightarrow> string list option" where
  "ReadStoreList v = do {
     stores \<leftarrow> GetArray v ''stores'';
     if stores = [] \<or> length stores > kMaxLearningDataStores then None else all_of store_name stores }"

definition StoreListToJson :: "string list \<Rightarrow> json" where
  "StoreListToJson stores = JArray (map JString stores)"

record LearningEntryField =
  le_id :: string
  le_channel :: string
  le_reading :: string
  le_surface :: string
  le_weight :: double
  last_updated_epoch_sec :: "64 word"
  le_tags :: "string list"
  le_metadata :: "(string \<times> string) list"

definition LearningEntryToJson :: "LearningEntryField \<Rightarrow> json" where
  "LearningEntryToJson e = build_object
     ([(''id'', JString (le_id e))] @ member_if (le_channel e \<noteq> []) ''channel'' (JString (le_channel e)) @
      [(''reading'', JString (le_reading e)), (''surface'', JString (le_surface e)), (''weight'', Value_double (le_weight e)),
       (''last_updated_epoch_sec'', Value_u64 (last_updated_epoch_sec e)), (''tags'', JArray (map JString (le_tags e))),
       (''metadata'', build_object (map (\<lambda>(k, s). (k, JString s)) (le_metadata e)))])"

text \<open>The metadata that are strings, put into a map in the order of the object.\<close>

definition metadata_of :: "(string \<times> json) list \<Rightarrow> (string \<times> string) list" where
  "metadata_of ms = foldl (\<lambda>out (k, v). case v of JString s \<Rightarrow> map_emplace k s out | _ \<Rightarrow> out) [] ms"

definition LearningEntryFromJson :: "json \<Rightarrow> LearningEntryField option" where
  "LearningEntryFromJson v =
     (if \<not> is_object v then None
      else do {
        i \<leftarrow> GetString v ''id'';
        reading \<leftarrow> GetString v ''reading'';
        surface \<leftarrow> GetString v ''surface'';
        tags \<leftarrow> (case GetArray v ''tags'' of None \<Rightarrow> Some []
           | Some ts \<Rightarrow> if length ts > kMaxLearningEntryTags then None else Some (strings_of ts));
        metadata \<leftarrow> (case FindObject v ''metadata'' of None \<Rightarrow> Some []
           | Some ms \<Rightarrow> if length ms > kMaxLearningEntryMetadata then None else Some (metadata_of ms));
        Some \<lparr>le_id = i, le_channel = value_or (GetString v ''channel'') [], le_reading = reading, le_surface = surface,
          le_weight = value_or (GetNumber v ''weight'') zero_double,
          last_updated_epoch_sec = word_of_nat (value_or (GetUInt v ''last_updated_epoch_sec'') 0),
          le_tags = tags, le_metadata = metadata\<rparr> })"

record LearningBackupItemField =
  bi_name :: string
  bi_file :: string
  bi_count :: "64 word"
  bi_sha256 :: string

definition BackupItemToJson :: "LearningBackupItemField \<Rightarrow> json" where
  "BackupItemToJson item = build_object
     [(''name'', JString (bi_name item)), (''file'', JString (bi_file item)), (''count'', Value_u64 (bi_count item)),
      (''sha256'', JString (bi_sha256 item))]"

definition BackupItemFromJson :: "json \<Rightarrow> LearningBackupItemField option" where
  "BackupItemFromJson v =
     (if \<not> is_object v then None
      else do {
        name \<leftarrow> GetString v ''name'';
        if name = [] then None
        else Some \<lparr>bi_name = name, bi_file = value_or (GetString v ''file'') [],
          bi_count = word_of_nat (value_or (GetUInt v ''count'') 0), bi_sha256 = value_or (GetString v ''sha256'') []\<rparr> })"

type_synonym counts = "(string \<times> 64 word) list"

definition CountsToJson :: "counts \<Rightarrow> json" where
  "CountsToJson cs = build_object (map (\<lambda>(name, n). (name, Value_u64 n)) cs)"

definition CountsFromJson :: "json \<Rightarrow> string \<Rightarrow> counts option" where
  "CountsFromJson v key =
     (case FindObject v key of None \<Rightarrow> Some []
      | Some ms \<Rightarrow> if length ms > kMaxLearningDataStores then None
          else Some (foldl (\<lambda>out (k, e). case GetUInt (JObject ms) k of Some n \<Rightarrow> map_emplace k (word_of_nat n) out | None \<Rightarrow> out) [] ms))"

definition IsKnownConflictResolution :: "string \<Rightarrow> bool" where
  "IsKnownConflictResolution s \<longleftrightarrow> s = ''merge'' \<or> s = ''overwrite'' \<or> s = ''keep_both''"

record ListLearningEntriesRequest =
  ll_store :: string
  ll_query :: string
  ll_limit :: "32 word"
  ll_offset :: "32 word"

definition BuildListLearningEntriesRequest :: "ListLearningEntriesRequest \<Rightarrow> string" where
  "BuildListLearningEntriesRequest p = Stringify (build_object
     [(''store'', JString (ll_store p)), (''query'', JString (ll_query p)), (''limit'', Value_u32 (ll_limit p)),
      (''offset'', Value_u32 (ll_offset p))])"

definition ParseListLearningEntriesRequest :: "string \<Rightarrow> ListLearningEntriesRequest option" where
  "ParseListLearningEntriesRequest json = do {
     v \<leftarrow> parse_object json;
     store \<leftarrow> ReadNonEmptyString v ''store'';
     query \<leftarrow> ReadOptionalString v ''query'' [];
     limit \<leftarrow> (if Find v ''limit'' \<noteq> None then map_option (\<lambda>n. word_of_nat (min n kMaxLearningEntries)) (GetUInt v ''limit'') else Some 100);
     offset \<leftarrow> (if Find v ''offset'' \<noteq> None
        then (case GetUInt v ''offset'' of None \<Rightarrow> None | Some n \<Rightarrow> if n > 2 ^ 32 - 1 then None else Some (word_of_nat n))
        else Some 0);
     Some \<lparr>ll_store = store, ll_query = query, ll_limit = limit, ll_offset = offset\<rparr> }"

record ListLearningEntriesResponse =
  ler_ok :: bool
  ler_error :: "string option"
  ler_total :: "64 word"
  ler_entries :: "LearningEntryField list"

definition BuildListLearningEntriesResponse :: "ListLearningEntriesResponse \<Rightarrow> string" where
  "BuildListLearningEntriesResponse p = Stringify (build_object
     (member_if (\<not> ler_ok p) ''ok'' (JBool False) @ member_opt ''error'' JString (ler_error p) @
      [(''total'', Value_u64 (ler_total p)), (''entries'', JArray (map LearningEntryToJson (ler_entries p)))]))"

definition ParseListLearningEntriesResponse :: "string \<Rightarrow> ListLearningEntriesResponse option" where
  "ParseListLearningEntriesResponse json = do {
     v \<leftarrow> parse_object json;
     entries \<leftarrow> (case GetArray v ''entries'' of None \<Rightarrow> Some []
        | Some es \<Rightarrow> if length es > kMaxLearningEntries then None else Some (List.map_filter LearningEntryFromJson es));
     Some \<lparr>ler_ok = value_or (GetBool v ''ok'') True, ler_error = GetString v ''error'',
       ler_total = word_of_nat (value_or (GetUInt v ''total'') 0), ler_entries = entries\<rparr> }"

record ForgetLearningEntryRequest =
  fl_store :: string
  fl_id :: string
  fl_reading :: string
  fl_surface :: string

definition BuildForgetLearningEntryRequest :: "ForgetLearningEntryRequest \<Rightarrow> string" where
  "BuildForgetLearningEntryRequest p = Stringify (build_object
     ([(''store'', JString (fl_store p))] @ member_if (fl_id p \<noteq> []) ''id'' (JString (fl_id p)) @
      member_if (fl_reading p \<noteq> []) ''reading'' (JString (fl_reading p)) @
      member_if (fl_surface p \<noteq> []) ''surface'' (JString (fl_surface p))))"

text \<open>Exactly one form: an id, or a reading with a surface.\<close>

definition forget_ok :: "ForgetLearningEntryRequest \<Rightarrow> bool" where
  "forget_ok p \<longleftrightarrow>
     (let by_id = (fl_id p \<noteq> []); by_pair = (fl_reading p \<noteq> [] \<or> fl_surface p \<noteq> []) in
      by_id \<noteq> by_pair \<and> \<not> (by_pair \<and> (fl_reading p = [] \<or> fl_surface p = [] \<or> fl_store p \<noteq> ''learning'')))"

definition ParseForgetLearningEntryRequest :: "string \<Rightarrow> ForgetLearningEntryRequest option" where
  "ParseForgetLearningEntryRequest json = do {
     v \<leftarrow> parse_object json;
     store \<leftarrow> ReadNonEmptyString v ''store'';
     i \<leftarrow> ReadOptionalString v ''id'' [];
     reading \<leftarrow> ReadOptionalString v ''reading'' [];
     surface \<leftarrow> ReadOptionalString v ''surface'' [];
     let p = \<lparr>fl_store = store, fl_id = i, fl_reading = reading, fl_surface = surface\<rparr>;
     if forget_ok p then Some p else None }"

record ForgetLearningEntryResponse =
  fr_ok :: bool
  fr_removed :: bool
  fr_error :: "string option"

definition BuildForgetLearningEntryResponse :: "ForgetLearningEntryResponse \<Rightarrow> string" where
  "BuildForgetLearningEntryResponse p = Stringify (build_object
     (member_if (\<not> fr_ok p) ''ok'' (JBool False) @ [(''removed'', JBool (fr_removed p))] @ member_opt ''error'' JString (fr_error p)))"

definition ParseForgetLearningEntryResponse :: "string \<Rightarrow> ForgetLearningEntryResponse option" where
  "ParseForgetLearningEntryResponse json = do {
     v \<leftarrow> parse_object json;
     Some \<lparr>fr_ok = value_or (GetBool v ''ok'') True, fr_removed = value_or (GetBool v ''removed'') False,
       fr_error = GetString v ''error''\<rparr> }"

record ExportLearningDataRequest =
  xl_stores :: "string list"
  destination_path :: string
  xl_encrypt :: bool
  include_settings :: bool

definition BuildExportLearningDataRequest :: "ExportLearningDataRequest \<Rightarrow> string" where
  "BuildExportLearningDataRequest p = Stringify (build_object
     [(''stores'', StoreListToJson (xl_stores p)), (''destination_path'', JString (destination_path p)),
      (''encrypt'', JBool (xl_encrypt p)), (''include_settings'', JBool (include_settings p))])"

definition ParseExportLearningDataRequest :: "string \<Rightarrow> ExportLearningDataRequest option" where
  "ParseExportLearningDataRequest json = do {
     v \<leftarrow> parse_object json;
     stores \<leftarrow> ReadStoreList v;
     destination \<leftarrow> ReadNonEmptyString v ''destination_path'';
     encrypt \<leftarrow> ReadOptionalBool v ''encrypt'' True;
     settings \<leftarrow> ReadOptionalBool v ''include_settings'' False;
     Some \<lparr>xl_stores = stores, destination_path = destination, xl_encrypt = encrypt, include_settings = settings\<rparr> }"

record ExportLearningDataResponse =
  xr_status :: string
  xr_error :: "string option"
  file_size_bytes :: "64 word"
  xr_encrypted :: bool
  xr_items :: "LearningBackupItemField list"

definition BuildExportLearningDataResponse :: "ExportLearningDataResponse \<Rightarrow> string" where
  "BuildExportLearningDataResponse p = Stringify (build_object
     ([(''status'', JString (xr_status p))] @ member_opt ''error'' JString (xr_error p) @
      [(''file_size_bytes'', Value_u64 (file_size_bytes p)), (''encrypted'', JBool (xr_encrypted p)),
       (''items'', JArray (map BackupItemToJson (xr_items p)))]))"

definition ParseExportLearningDataResponse :: "string \<Rightarrow> ExportLearningDataResponse option" where
  "ParseExportLearningDataResponse json = do {
     v \<leftarrow> parse_object json;
     status \<leftarrow> GetString v ''status'';
     items \<leftarrow> (case GetArray v ''items'' of None \<Rightarrow> Some []
        | Some es \<Rightarrow> if length es > kMaxLearningDataStores then None else Some (List.map_filter BackupItemFromJson es));
     Some \<lparr>xr_status = status, xr_error = GetString v ''error'',
       file_size_bytes = word_of_nat (value_or (GetUInt v ''file_size_bytes'') 0),
       xr_encrypted = value_or (GetBool v ''encrypted'') True, xr_items = items\<rparr> }"

record ImportLearningDataRequest =
  source_path :: string
  conflict_resolution :: string
  il_stores :: "string list"

definition BuildImportLearningDataRequest :: "ImportLearningDataRequest \<Rightarrow> string" where
  "BuildImportLearningDataRequest p = Stringify (build_object
     [(''source_path'', JString (source_path p)), (''conflict_resolution'', JString (conflict_resolution p)),
      (''stores'', StoreListToJson (il_stores p))])"

definition ParseImportLearningDataRequest :: "string \<Rightarrow> ImportLearningDataRequest option" where
  "ParseImportLearningDataRequest json = do {
     v \<leftarrow> parse_object json;
     source \<leftarrow> ReadNonEmptyString v ''source_path'';
     stores \<leftarrow> ReadStoreList v;
     resolution \<leftarrow> ReadOptionalString v ''conflict_resolution'' ''merge'';
     if \<not> IsKnownConflictResolution resolution then None
     else Some \<lparr>source_path = source, conflict_resolution = resolution, il_stores = stores\<rparr> }"

record ImportLearningDataResponse =
  ir_status :: string
  ir_error :: "string option"
  imported_counts :: counts
  skipped_counts :: counts
  conflict_counts :: counts

definition BuildImportLearningDataResponse :: "ImportLearningDataResponse \<Rightarrow> string" where
  "BuildImportLearningDataResponse p = Stringify (build_object
     ([(''status'', JString (ir_status p))] @ member_opt ''error'' JString (ir_error p) @
      [(''imported_counts'', CountsToJson (imported_counts p)), (''skipped_counts'', CountsToJson (skipped_counts p)),
       (''conflict_counts'', CountsToJson (conflict_counts p))]))"

definition ParseImportLearningDataResponse :: "string \<Rightarrow> ImportLearningDataResponse option" where
  "ParseImportLearningDataResponse json = do {
     v \<leftarrow> parse_object json;
     status \<leftarrow> GetString v ''status'';
     imported \<leftarrow> CountsFromJson v ''imported_counts'';
     skipped \<leftarrow> CountsFromJson v ''skipped_counts'';
     conflicts \<leftarrow> CountsFromJson v ''conflict_counts'';
     Some \<lparr>ir_status = status, ir_error = GetString v ''error'', imported_counts = imported, skipped_counts = skipped,
       conflict_counts = conflicts\<rparr> }"

record ResetLearningStoreRequest =
  rl_store :: string

definition BuildResetLearningStoreRequest :: "ResetLearningStoreRequest \<Rightarrow> string" where
  "BuildResetLearningStoreRequest p = Stringify (build_object [(''store'', JString (rl_store p))])"

definition ParseResetLearningStoreRequest :: "string \<Rightarrow> ResetLearningStoreRequest option" where
  "ParseResetLearningStoreRequest json = do {
     v \<leftarrow> parse_object json;
     store \<leftarrow> ReadNonEmptyString v ''store'';
     Some \<lparr>rl_store = store\<rparr> }"

record ResetLearningStoreResponse =
  rl_ok :: bool
  rl_error :: "string option"

definition BuildResetLearningStoreResponse :: "ResetLearningStoreResponse \<Rightarrow> string" where
  "BuildResetLearningStoreResponse p = Stringify (build_object ([(''ok'', JBool (rl_ok p))] @ member_opt ''error'' JString (rl_error p)))"

definition ParseResetLearningStoreResponse :: "string \<Rightarrow> ResetLearningStoreResponse option" where
  "ParseResetLearningStoreResponse json = do {
     v \<leftarrow> parse_object json;
     r \<leftarrow> GetBool v ''ok'';
     Some \<lparr>rl_ok = r, rl_error = GetString v ''error''\<rparr> }"

section \<open>Persona and anomalies\<close>

record QueryPersonaResponse =
  qp_ok :: bool
  qp_error :: "string option"
  polite_ratio :: double
  casual_ratio :: double
  technical_ratio :: double
  kaomoji_ratio :: double
  sample_count :: "64 word"
  computed_at_epoch_sec :: "64 word"

definition BuildQueryPersonaResponse :: "QueryPersonaResponse \<Rightarrow> string" where
  "BuildQueryPersonaResponse p = Stringify (build_object
     ([(''ok'', JBool (qp_ok p))] @ member_opt ''error'' JString (qp_error p) @
      [(''polite_ratio'', Value_double (polite_ratio p)), (''casual_ratio'', Value_double (casual_ratio p)),
       (''technical_ratio'', Value_double (technical_ratio p)), (''kaomoji_ratio'', Value_double (kaomoji_ratio p)),
       (''sample_count'', Value_u64 (sample_count p)), (''computed_at_epoch_sec'', Value_u64 (computed_at_epoch_sec p))]))"

text \<open>\<open>ratio >= 0.0 && ratio <= 1.0\<close>\<close>

definition in_unit :: "double \<Rightarrow> bool" where
  "in_unit d \<longleftrightarrow> isfinite d \<and> rat_of_double d \<ge> 0 \<and> rat_of_double d \<le> 1"

definition read_ratio :: "json \<Rightarrow> string \<Rightarrow> double option" where
  "read_ratio v key = (let r = value_or (GetNumber v key) zero_double in if in_unit r then Some r else None)"

definition ParseQueryPersonaResponse :: "string \<Rightarrow> QueryPersonaResponse option" where
  "ParseQueryPersonaResponse json = do {
     v \<leftarrow> parse_object json;
     r \<leftarrow> GetBool v ''ok'';
     polite \<leftarrow> read_ratio v ''polite_ratio'';
     casual \<leftarrow> read_ratio v ''casual_ratio'';
     technical \<leftarrow> read_ratio v ''technical_ratio'';
     kaomoji \<leftarrow> read_ratio v ''kaomoji_ratio'';
     Some \<lparr>qp_ok = r, qp_error = GetString v ''error'', polite_ratio = polite, casual_ratio = casual, technical_ratio = technical,
       kaomoji_ratio = kaomoji, sample_count = word_of_nat (value_or (GetUInt v ''sample_count'') 0),
       computed_at_epoch_sec = word_of_nat (value_or (GetUInt v ''computed_at_epoch_sec'') 0)\<rparr> }"

definition kDefaultAnomalyFindings :: nat where "kDefaultAnomalyFindings = 20"
definition kMaxAnomalyFindings :: nat where "kMaxAnomalyFindings = 50"

record DetectAnomaliesRequest =
  da_text :: string
  max_findings :: "32 word"
  da_secure :: bool
  da_learning_allowed :: bool

definition BuildDetectAnomaliesRequest :: "DetectAnomaliesRequest \<Rightarrow> string" where
  "BuildDetectAnomaliesRequest p = Stringify (build_object
     [(''text'', JString (da_text p)), (''max_findings'', Value_u32 (max_findings p)), (''secure'', JBool (da_secure p)),
      (''learning_allowed'', JBool (da_learning_allowed p))])"

definition ParseDetectAnomaliesRequest :: "string \<Rightarrow> DetectAnomaliesRequest option" where
  "ParseDetectAnomaliesRequest json = do {
     v \<leftarrow> parse_object json;
     t \<leftarrow> GetString v ''text'';
     if t = [] \<or> length t > kMaxAnomalyTextBytes then None
     else Some \<lparr>da_text = t,
       max_findings = word_of_nat (clamp (value_or (GetUInt v ''max_findings'') kDefaultAnomalyFindings) 1 kMaxAnomalyFindings),
       da_secure = value_or (GetBool v ''secure'') True, da_learning_allowed = value_or (GetBool v ''learning_allowed'') False\<rparr> }"

record AnomalyFindingField =
  af_start :: "32 word"
  af_length :: "32 word"
  af_reason :: string
  af_suggestions :: "string list"
  af_confidence :: double

record DetectAnomaliesResponse =
  dr_ok :: bool
  dr_error :: "string option"
  dr_findings :: "AnomalyFindingField list"

definition anomaly_json :: "AnomalyFindingField \<Rightarrow> json" where
  "anomaly_json f = build_object
     [(''start'', Value_u32 (af_start f)), (''length'', Value_u32 (af_length f)), (''reason'', JString (af_reason f)),
      (''suggestions'', JArray (map JString (af_suggestions f))), (''confidence'', Value_double (af_confidence f))]"

definition BuildDetectAnomaliesResponse :: "DetectAnomaliesResponse \<Rightarrow> string" where
  "BuildDetectAnomaliesResponse p = Stringify (build_object
     ([(''ok'', JBool (dr_ok p))] @ member_opt ''error'' JString (dr_error p) @
      [(''findings'', JArray (map anomaly_json (dr_findings p)))]))"

fun finding_suggestions :: "string list \<Rightarrow> json list \<Rightarrow> string list" where
  "finding_suggestions out [] = out"
| "finding_suggestions out (e # es) =
     (if length out \<ge> kMaxAnomalySuggestions then out
      else finding_suggestions (case e of JString s \<Rightarrow> out @ [s] | _ \<Rightarrow> out) es)"

definition anomaly_of :: "json \<Rightarrow> AnomalyFindingField option" where
  "anomaly_of item = do {
     start \<leftarrow> GetUInt item ''start'';
     len \<leftarrow> GetUInt item ''length'';
     confidence \<leftarrow> GetNumber item ''confidence'';
     if \<not> is_object item \<or> len = 0 \<or> start > 2 ^ 32 - 1 \<or> len > 2 ^ 32 - 1 - start \<or> \<not> in_unit confidence then None
     else Some \<lparr>af_start = word_of_nat start, af_length = word_of_nat len, af_reason = value_or (GetString item ''reason'') [],
       af_suggestions = (case GetArray item ''suggestions'' of None \<Rightarrow> [] | Some es \<Rightarrow> finding_suggestions [] es),
       af_confidence = confidence\<rparr> }"

definition ParseDetectAnomaliesResponse :: "string \<Rightarrow> DetectAnomaliesResponse option" where
  "ParseDetectAnomaliesResponse json = do {
     v \<leftarrow> parse_object json;
     r \<leftarrow> GetBool v ''ok'';
     case GetArray v ''findings'' of
       None \<Rightarrow> Some \<lparr>dr_ok = r, dr_error = GetString v ''error'', dr_findings = []\<rparr>
     | Some es \<Rightarrow>
         if length es > kMaxAnomalyFindings then None
         else Some \<lparr>dr_ok = r, dr_error = GetString v ''error'', dr_findings = List.map_filter anomaly_of es\<rparr> }"

end
