(* ===== verification/PayloadContract.thy ===== *)
theory PayloadContract
  imports PayloadRoundTrip ManagementPayloads
begin

text \<open>
  What the two sides of the pipe may rely on: a payload that was built, put into an envelope and sent
  in a frame (\<open>ipc/src/Messages.cpp\<close>) is read back as the same message (\<open>ipc/src/Payloads.cpp\<close>), and
  whatever bytes arrive, a message that the parsers accept keeps the limits of the protocol.
\<close>

section \<open>From the sender's record to the receiver's\<close>

lemma sent_payload_received:
  assumes "send_frame env = Some bytes" "payload_json env = Stringify (build_object ms)" "list_all (member_ok 8) ms"
    and "valid_utf8 (trace_id env)" "version env = kEnvelopeVersion"
  shows "receive_frame bytes = Some env" "fits (payload_json env)"
proof -
  have ok: "sendable (build_object ms)" "json_depth (build_object ms) < kMaxJsonNestDepth"
    using built_ok [OF assms(3)] by (auto simp: kMaxJsonNestDepth_def)
  have st: "starts_value (Stringify (build_object ms))"
    using Stringify_starts [OF json_wf_wire [OF ok(1)]] by (simp add: Stringify_wire)
  show "receive_frame bytes = Some env"
    by (rule sent_frame_received [OF assms(1), of "wire (build_object ms)"])
      (use assms(2,4,5) ok json_wf_wire in \<open>simp_all add: Stringify_wire\<close>)
  obtain v where "Parse (payload_json env) = Some v"
    using assms(1,2) st
    by (auto simp: send_frame_def Option.bind_eq_Some_conv Serialize_def starts_value_def split: if_splits)
  then show "fits (payload_json env)"
    by (auto simp: fits_def Parse_def ParseDocument_def split: if_splits)
qed

lemma commit_members:
  assumes "commit_ok p"
  shows "\<exists>ms. BuildCommitObservationRequest p = Stringify (build_object ms) \<and> list_all (member_ok 8) ms"
  unfolding BuildCommitObservationRequest_def AppToJson_alt
  by (rule exI, rule conjI, rule refl) (use assms in \<open>simp add: commit_ok_def\<close>)

text \<open>C11: What the user commits is what the host gets to learn: a commit observation that the input
  processor builds, wraps into an envelope and sends as a frame comes out of the frame, the envelope
  and the payload parser on the other side with the same reading, candidates, context, time,
  identifier, application and privacy flags.\<close>

theorem commit_reaches_host:
  assumes "commit_ok p" "valid_utf8 trace"
    and "send_frame \<lparr>version = kEnvelopeVersion, request_id = i, trace_id = trace, type = CommitObservation,
           payload_json = BuildCommitObservationRequest p\<rparr> = Some bytes"
  shows "map_option (ParseCommitObservationRequest \<circ> payload_json) (receive_frame bytes) = Some (Some p)"
proof -
  let ?env = "\<lparr>version = kEnvelopeVersion, request_id = i, trace_id = trace, type = CommitObservation,
           payload_json = BuildCommitObservationRequest p\<rparr>"
  have "receive_frame bytes = Some ?env" "fits (BuildCommitObservationRequest p)"
    using sent_payload_received [OF assms(3)] commit_members [OF assms(1)] assms(2) by auto
  then show ?thesis using commit_received [OF assms(1)] by simp
qed

definition sample_field :: CandidateField where
  "sample_field = \<lparr>cand_surface = ''A'', cand_reading = ''a'', cand_score = zero_double, cand_source = ''s'', cand_description = [], cand_tag = 0, cand_segments = []\<rparr>"

definition sample_commit :: CommitObservationRequest where
  "sample_commit = \<lparr>co_reading = ''a'', co_chosen = sample_field, co_shown = [], co_left_context = [], co_timestamp_ms = 1,
     co_observation_id = ''o'', co_secure = False, co_learning_allowed = True, co_app = None\<rparr>"

lemma zero_text: "StringifyNumber zero_double [] = ''0''"
  by (simp add: StringifyNumber_def zero_double_def FormatInteger_def to_string.simps eq_byte_numeral)

lemma quoted_plain:
  "list_all (\<lambda>c. 0x20 \<le> ord c \<and> ord c < 0x80 \<and> c \<noteq> CHR 0x22 \<and> c \<noteq> CHR 0x5c) s \<Longrightarrow> length (quoted s) = length s + 2"
  using plain_text by (simp add: quoted_def)

lemma frame_sent:
  assumes "payload_json env = Stringify (build_object ms)" "list_all (member_ok 8) ms"
    and "length (payload_json env) \<le> 1000" "request_id env = 1" "trace_id env = ''t''" "version env = kEnvelopeVersion"
  shows "send_frame env \<noteq> None"
proof -
  have "fits (payload_json env)" using assms(3) by (simp add: fits_def kMaxJsonInputBytes_def)
  then have "parse_object (payload_json env) \<noteq> None" using parse_object_built [OF assms(2)] assms(1) by simp
  then have p: "Parse (payload_json env) \<noteq> None" by (auto simp: parse_object_def bind_eq_Some_conv)
  have l: "length (TypeToString (type env)) \<le> 40" by (cases "type env") simp_all
  show ?thesis
    using p l assms(3-6)
    by (auto simp: send_frame_def Serialize_def EncodeLengthPrefixed_def kMaxFrameSize_def kMaxJsonInputBytes_def
        in_quotes_def plain_text to_string.simps kEnvelopeVersion_def FormatInteger_def TypeToString_plain Let_def)
qed

lemma sample_commit_ok: "commit_ok sample_commit"
  by (simp add: commit_ok_def sample_commit_def sample_field_def candidate_ok_def app_ok_def zero_double_def sendable_double_def)

lemma sample_commit_length: "length (BuildCommitObservationRequest sample_commit) \<le> 1000"
  by (simp add: BuildCommitObservationRequest_def sample_commit_def sample_field_def build_object_def CandidateToJson_def
      AppToJson_def member_opt_def member_if_def)
    (simp add: zero_text Value_double_def Value_u64_def Stringify_Value_int quoted_plain FormatInteger_def to_string.simps)

theorem commit_reaches_host_witness:
  "\<exists>bytes. send_frame \<lparr>version = kEnvelopeVersion, request_id = 1, trace_id = ''t'', type = CommitObservation,
       payload_json = BuildCommitObservationRequest sample_commit\<rparr> = Some bytes \<and>
     map_option (ParseCommitObservationRequest \<circ> payload_json) (receive_frame bytes) = Some (Some sample_commit)"
proof -
  let ?env = "\<lparr>version = kEnvelopeVersion, request_id = 1, trace_id = ''t'', type = CommitObservation,
       payload_json = BuildCommitObservationRequest sample_commit\<rparr>"
  have "send_frame ?env \<noteq> None"
    using frame_sent [of ?env] commit_members [OF sample_commit_ok] sample_commit_length by auto
  then obtain bytes where b: "send_frame ?env = Some bytes" by blast
  moreover have "valid_utf8 ''t''" by (simp add: plain_text)
  ultimately show ?thesis using commit_reaches_host [OF sample_commit_ok _ b] by blast
qed

section \<open>Whatever bytes arrive\<close>

lemma parse_object_wf:
  assumes "parse_object json = Some v"
  shows "json_wf v"
proof -
  obtain w where w: "Parse json = Some w" "(case w of JObject ms \<Rightarrow> Some w | _ \<Rightarrow> None) = Some v"
    using assms by (auto simp: parse_object_def bind_eq_Some_conv)
  then have "w = v" by (cases w) simp_all
  then show ?thesis using Parse_well_formed w(1) by blast
qed

lemma Find_wf: "json_wf v \<Longrightarrow> Find v k = Some e \<Longrightarrow> json_wf e"
  by (cases v) (auto dest!: map_of_SomeD)

lemma GetString_wf: "json_wf v \<Longrightarrow> GetString v k = Some s \<Longrightarrow> valid_utf8 s"
  using Find_wf [of v k] by (auto simp: GetString_def split: option.splits json.splits)

lemma text_member_wf: "json_wf v \<Longrightarrow> valid_utf8 (value_or (GetString v k) [])" "json_wf v \<Longrightarrow> text_ok (GetString v k)"
  using GetString_wf [of v k] by (cases "GetString v k"; simp add: plain_text)+

lemma AppFromJson_wf: "json_wf v \<Longrightarrow> app_ok (AppFromJson v)"
  using Find_wf [of v "''app''"]
  by (auto simp: AppFromJson_def app_ok_def FindObject_def Let_def text_member_wf bind_eq_Some_conv
      split: option.splits json.splits if_splits)


definition sample_correction :: CommitCorrectionRequest where
  "sample_correction = \<lparr>cc_kind = ''undo'', cc_reading = ''a'', rejected_surface = ''A'', selected_surface = None, cc_left_context = [],
     cc_timestamp_ms = 0, cc_observation_id = [], cc_secure = True, cc_learning_allowed = False, cc_app = None\<rparr>"


section \<open>Forgetting\<close>

definition forget_texts :: "ForgetLearningEntryRequest \<Rightarrow> bool" where
  "forget_texts p \<longleftrightarrow> valid_utf8 (fl_store p) \<and> valid_utf8 (fl_id p) \<and> valid_utf8 (fl_reading p) \<and> valid_utf8 (fl_surface p)"

lemma ReadNonEmptyString_built [reads]:
  "ReadNonEmptyString (wire (build_object ms)) k = Option.bind (as_string (map_of ms k)) (\<lambda>s. if s = [] then None else Some s)"
  by (simp add: ReadNonEmptyString_def reads split: option.splits)

lemma ReadOptionalString_built [reads]:
  "ReadOptionalString (wire (build_object ms)) k d = (case map_of ms k of None \<Rightarrow> Some d | Some e \<Rightarrow> string_value e)"
proof -
  have "string_value (wire e) = string_value e" for e by (cases e) (simp_all add: string_value_def)
  then show ?thesis
    by (simp add: ReadOptionalString_def Find_wire string_value_def split: option.splits)
qed

lemma string_member_read [simp]:
  "(case (if s \<noteq> [] then Some (JString s) else None) of None \<Rightarrow> Some [] | Some e \<Rightarrow> string_value e) = Some s"
  by (simp add: string_value_def)

lemma forget_parsed:
  assumes "forget_texts p" "fits (BuildForgetLearningEntryRequest p)"
  shows "ParseForgetLearningEntryRequest (BuildForgetLearningEntryRequest p) =
    (if fl_store p \<noteq> [] \<and> forget_ok p then Some p else None)"
proof -
  have "parse_object (BuildForgetLearningEntryRequest p) = Some (wire (build_object
     ([(''store'', JString (fl_store p))] @ member_if (fl_id p \<noteq> []) ''id'' (JString (fl_id p)) @
      member_if (fl_reading p \<noteq> []) ''reading'' (JString (fl_reading p)) @
      member_if (fl_surface p \<noteq> []) ''surface'' (JString (fl_surface p)))))"
    using assms unfolding BuildForgetLearningEntryRequest_def forget_texts_def
    by (intro parse_object_built) simp_all
  then show ?thesis
    unfolding ParseForgetLearningEntryRequest_def
    by (simp add: reads Let_def split del: if_split cong: if_cong) (cases p; simp)
qed

text \<open>C40: The host forgets only what was named without doubt: a request to forget an entry is accepted,
  and then unchanged, if and only if it names a store and either an identifier alone or, in the store of
  learned conversions only, a reading together with a surface.\<close>

theorem forget_request_iff:
  assumes "forget_texts p" "fits (BuildForgetLearningEntryRequest p)"
  shows "ParseForgetLearningEntryRequest (BuildForgetLearningEntryRequest p) =
    (if fl_store p \<noteq> [] \<and>
        (fl_id p \<noteq> [] \<and> fl_reading p = [] \<and> fl_surface p = [] \<or>
         fl_id p = [] \<and> fl_reading p \<noteq> [] \<and> fl_surface p \<noteq> [] \<and> fl_store p = ''learning'')
     then Some p else None)"
  unfolding forget_parsed [OF assms] by (auto simp: forget_ok_def Let_def)

theorem forget_request_iff_witness:
  "ParseForgetLearningEntryRequest (BuildForgetLearningEntryRequest
     \<lparr>fl_store = ''user_dict'', fl_id = ''7'', fl_reading = [], fl_surface = ''A''\<rparr>) = None"
proof -
  let ?p = "\<lparr>fl_store = ''user_dict'', fl_id = ''7'', fl_reading = [], fl_surface = ''A''\<rparr>"
  have "forget_texts ?p" by (simp add: forget_texts_def)
  moreover have "fits (BuildForgetLearningEntryRequest ?p)"
    by (simp add: BuildForgetLearningEntryRequest_def build_object_def member_if_def quoted_plain fits_def kMaxJsonInputBytes_def)
  ultimately show ?thesis using forget_request_iff [of ?p] by simp
qed

section \<open>Findings of the proofreader\<close>

definition finding_ok :: "AnomalyFindingField \<Rightarrow> bool" where
  "finding_ok f \<longleftrightarrow> 0 < unat (af_length f) \<and> unat (af_start f) + unat (af_length f) < 2 ^ 32 \<and> in_unit (af_confidence f) \<and>
     length (af_suggestions f) \<le> kMaxAnomalySuggestions"

lemma finding_suggestions_length:
  "length out \<le> kMaxAnomalySuggestions \<Longrightarrow> length (finding_suggestions out es) \<le> kMaxAnomalySuggestions"
  by (induction out es rule: finding_suggestions.induct) (auto split: json.splits)

lemma anomaly_of_ok:
  assumes "anomaly_of item = Some f"
  shows "finding_ok f"
proof -
  obtain start len where f: "len \<noteq> 0" "start \<le> 2 ^ 32 - 1" "len \<le> 2 ^ 32 - 1 - start"
    "af_start f = word_of_nat start" "af_length f = word_of_nat len" "in_unit (af_confidence f)"
    using assms that by (auto simp: anomaly_of_def bind_eq_Some_conv not_less split: if_splits)
  have "length (af_suggestions f) \<le> kMaxAnomalySuggestions"
    using assms finding_suggestions_length [of "[]"]
    by (auto simp: anomaly_of_def bind_eq_Some_conv split: if_splits option.splits)
  moreover have "unat (word_of_nat start :: 32 word) = start" "unat (word_of_nat len :: 32 word) = len"
    using f by (simp_all add: unat_of_nat take_bit_nat_eq_self)
  ultimately show ?thesis using f unfolding finding_ok_def by simp
qed

lemma length_map_filter: "length (List.map_filter f xs) \<le> length xs"
  by (induction xs) (simp_all add: map_filter_simps split: option.split)

text \<open>The proofreading view can place every finding it gets, whatever the host sent: there are at
  most \<open>kMaxAnomalyFindings\<close>, each covers at least one position, its end is computed without wrapping
  around 32 bits, its confidence lies between zero and one and it has at most
  \<open>kMaxAnomalySuggestions\<close> suggestions; and a request never asks for none or for more than the
  limit.\<close>

theorem findings_bounded:
  "pred_option (\<lambda>p. length (dr_findings p) \<le> kMaxAnomalyFindings \<and> list_all finding_ok (dr_findings p))
      (ParseDetectAnomaliesResponse json) \<and>
   pred_option (\<lambda>q. 1 \<le> unat (max_findings q) \<and> unat (max_findings q) \<le> kMaxAnomalyFindings \<and> da_text q \<noteq> [] \<and>
      length (da_text q) \<le> kMaxAnomalyTextBytes) (ParseDetectAnomaliesRequest json')"
proof
  have ok: "list_all finding_ok (List.map_filter anomaly_of es)" for es
    by (induction es) (simp_all add: map_filter_simps anomaly_of_ok split: option.split)
  have "length (List.map_filter anomaly_of es) \<le> kMaxAnomalyFindings" if "\<not> kMaxAnomalyFindings < length es" for es
    using length_map_filter [of anomaly_of es] that by simp
  with ok show "pred_option (\<lambda>p. length (dr_findings p) \<le> kMaxAnomalyFindings \<and> list_all finding_ok (dr_findings p))
      (ParseDetectAnomaliesResponse json)"
    by (cases "ParseDetectAnomaliesResponse json")
      (auto simp: ParseDetectAnomaliesResponse_def bind_eq_Some_conv split: if_splits option.splits)
next
  have "1 \<le> clamp n 1 kMaxAnomalyFindings" "clamp n 1 kMaxAnomalyFindings \<le> kMaxAnomalyFindings" for n :: nat
    by (simp_all add: clamp_def kMaxAnomalyFindings_def)
  moreover have "unat (word_of_nat n :: 32 word) = n" if "n \<le> kMaxAnomalyFindings" for n
    using that by (simp add: kMaxAnomalyFindings_def unat_of_nat take_bit_nat_eq_self)
  ultimately show "pred_option (\<lambda>q. 1 \<le> unat (max_findings q) \<and> unat (max_findings q) \<le> kMaxAnomalyFindings \<and> da_text q \<noteq> [] \<and>
        length (da_text q) \<le> kMaxAnomalyTextBytes) (ParseDetectAnomaliesRequest json')"
    by (cases "ParseDetectAnomaliesRequest json'") (auto simp: ParseDetectAnomaliesRequest_def bind_eq_Some_conv split: if_splits)
qed

end
