(* ===== verification/Privacy.thy ===== *)
theory Privacy
  imports PayloadWire
begin

text \<open>
  What the settings allow (\<open>core/include/azookey/core/PrivacyPolicy.h\<close>, \<open>AiPrivacy.h\<close>,
  \<open>core/src/BodyLogGate.cpp\<close>): learning, detailed logs, the AI backend and sending text out.
\<close>

record PrivacyPolicy =
  pp_secure :: bool
  detailed_logging_allowed :: bool
  pp_learning_allowed :: bool

definition no_permission :: PrivacyPolicy where
  "no_permission = \<lparr>pp_secure = True, detailed_logging_allowed = False, pp_learning_allowed = False\<rparr>"

definition permissions :: "bool \<Rightarrow> bool \<Rightarrow> bool \<Rightarrow> PrivacyPolicy" where
  "permissions s d l = \<lparr>pp_secure = s, detailed_logging_allowed = d, pp_learning_allowed = l\<rparr>"

fun IsObject :: "json \<Rightarrow> bool" where
  "IsObject (JObject ms) = True"
| "IsObject _ = False"

definition flag_in :: "json option \<Rightarrow> string \<Rightarrow> bool" where
  "flag_in custom key = (case custom of None \<Rightarrow> False | Some c \<Rightarrow> IsObject c \<and> value_or (GetBool c key) False)"

definition ParsePrivacyPolicy :: "json \<Rightarrow> PrivacyPolicy" where
  "ParsePrivacyPolicy settings =
     (if \<not> IsObject settings then no_permission
      else case Find settings ''privacy'' of
          None \<Rightarrow> permissions False False True
        | Some privacy \<Rightarrow>
            if \<not> IsObject privacy then no_permission
            else if Find privacy ''mode'' \<noteq> None \<and> GetString privacy ''mode'' = None then no_permission
            else
              let mode = value_or (GetString privacy ''mode'') ''normal'' in
              if mode = ''secure'' then no_permission
              else if mode \<noteq> ''normal'' \<and> mode \<noteq> ''private'' \<and> mode \<noteq> ''offline'' \<and> mode \<noteq> ''custom'' then no_permission
              else
                let redact = value_or (GetBool privacy ''redactLogs'') True in
                if mode = ''private'' then permissions False False False
                else if mode = ''custom'' then
                  (let custom = Find privacy ''custom''
                   in permissions False (\<not> redact \<and> flag_in custom ''detailedLogging'') (flag_in custom ''learning''))
                else permissions False (\<not> redact) True)"

record AiPrivacy =
  ai_allowed :: bool
  external_allowed :: bool

definition ParseAiPrivacy :: "json \<Rightarrow> AiPrivacy" where
  "ParseAiPrivacy settings =
     (let none = \<lparr>ai_allowed = False, external_allowed = False\<rparr> in
      if \<not> IsObject settings then none
      else case Find settings ''privacy'' of
          None \<Rightarrow> \<lparr>ai_allowed = True, external_allowed = True\<rparr>
        | Some privacy \<Rightarrow>
            if \<not> IsObject privacy then none
            else if Find privacy ''mode'' \<noteq> None \<and> GetString privacy ''mode'' = None then none
            else
              let mode = value_or (GetString privacy ''mode'') ''normal'' in
              if mode = ''normal'' then \<lparr>ai_allowed = True, external_allowed = True\<rparr>
              else if mode = ''private'' \<or> mode = ''offline'' then \<lparr>ai_allowed = True, external_allowed = False\<rparr>
              else if mode = ''custom'' then
                (case Find privacy ''custom'' of
                   None \<Rightarrow> \<lparr>ai_allowed = True, external_allowed = False\<rparr>
                 | Some custom \<Rightarrow>
                     if \<not> IsObject custom then none
                     else if Find custom ''aiCandidate'' \<noteq> None \<and> GetBool custom ''aiCandidate'' = None \<or>
                             Find custom ''externalAi'' \<noteq> None \<and> GetBool custom ''externalAi'' = None then none
                     else let ai = value_or (GetBool custom ''aiCandidate'') True
                          in \<lparr>ai_allowed = ai, external_allowed = ai \<and> value_or (GetBool custom ''externalAi'') False\<rparr>)
              else none)"

text \<open>\<open>debug_build\<close> says whether the file was compiled with \<open>_DEBUG\<close> and without \<open>NDEBUG\<close>.\<close>

definition BodyLoggingAllowed :: "bool \<Rightarrow> PrivacyPolicy \<Rightarrow> bool \<Rightarrow> bool" where
  "BodyLoggingAllowed debug_build privacy body_opt_in =
     (if debug_build then body_opt_in \<and> \<not> pp_secure privacy \<and> detailed_logging_allowed privacy else False)"

definition BodyLogOptInFromEnvironment :: "string option \<Rightarrow> bool" where
  "BodyLogOptInFromEnvironment raw = (case raw of None \<Rightarrow> False | Some v \<Rightarrow> v = ''1'')"

section \<open>The modes\<close>

text \<open>The mode of a settings document: \<^term>\<open>None\<close> when it is not one of those the program knows, or
  not a text, or the section is not an object.\<close>

definition privacy_mode :: "json \<Rightarrow> string option" where
  "privacy_mode settings =
     (case Find settings ''privacy'' of
        None \<Rightarrow> if IsObject settings then Some ''normal'' else None
      | Some privacy \<Rightarrow>
          if \<not> IsObject privacy then None
          else case Find privacy ''mode'' of
              None \<Rightarrow> Some ''normal''
            | Some (JString m) \<Rightarrow> if m \<in> {''normal'', ''private'', ''offline'', ''custom'', ''secure''} then Some m else None
            | Some _ \<Rightarrow> None)"

definition custom_section :: "json \<Rightarrow> json option" where
  "custom_section settings = Option.bind (Find settings ''privacy'') (\<lambda>p. Find p ''custom'')"

lemma GetString_Find: "Find v k = Some e \<Longrightarrow> GetString v k = (case e of JString s \<Rightarrow> Some s | _ \<Rightarrow> None)" "Find v k = None \<Longrightarrow> GetString v k = None"
  by (simp_all add: GetString_def)

text \<open>What the settings say about learning.\<close>

definition settings_learn :: "json \<Rightarrow> bool" where
  "settings_learn settings \<longleftrightarrow> privacy_mode settings \<in> {Some ''normal'', Some ''offline''} \<or>
     privacy_mode settings = Some ''custom'' \<and> flag_in (custom_section settings) ''learning''"

lemma mode_permissions:
  "(pp_learning_allowed (ParsePrivacyPolicy settings) \<longleftrightarrow> settings_learn settings) \<and>
   (pp_secure (ParsePrivacyPolicy settings) \<longleftrightarrow> privacy_mode settings \<in> {None, Some ''secure''}) \<and>
   (external_allowed (ParseAiPrivacy settings) \<longleftrightarrow>
      ai_allowed (ParseAiPrivacy settings) \<and>
      (privacy_mode settings = Some ''normal'' \<or>
       privacy_mode settings = Some ''custom'' \<and> flag_in (custom_section settings) ''externalAi'')) \<and>
   \<not> (ai_allowed (ParseAiPrivacy settings) \<and> privacy_mode settings \<in> {None, Some ''secure''})"
proof (cases settings)
  case (JObject ms)
  show ?thesis
  proof (cases "Find settings ''privacy''")
    case None
    then show ?thesis
      using JObject by (simp add: settings_learn_def ParsePrivacyPolicy_def ParseAiPrivacy_def privacy_mode_def permissions_def)
  next
    case (Some privacy)
    show ?thesis
    proof (cases privacy)
      case (JObject ps)
      then have p: "IsObject privacy" by simp
      show ?thesis
      proof (cases "Find privacy ''mode''")
        case None
        then show ?thesis
          using Some p \<open>settings = JObject ms\<close>
          by (simp add: settings_learn_def ParsePrivacyPolicy_def ParseAiPrivacy_def privacy_mode_def permissions_def GetString_Find)
      next
        case (Some mode)
        then show ?thesis
          using \<open>Find settings ''privacy'' = Some privacy\<close> p \<open>settings = JObject ms\<close>
          by (cases mode) (auto simp: settings_learn_def ParsePrivacyPolicy_def ParseAiPrivacy_def privacy_mode_def permissions_def no_permission_def
              GetString_Find custom_section_def flag_in_def Let_def split: option.splits)
      qed
    qed (use Some \<open>settings = JObject ms\<close> in \<open>simp_all add: settings_learn_def ParsePrivacyPolicy_def ParseAiPrivacy_def privacy_mode_def no_permission_def Let_def\<close>)
  qed
qed (simp_all add: settings_learn_def ParsePrivacyPolicy_def ParseAiPrivacy_def privacy_mode_def no_permission_def Let_def)



end
