(* ===== verification/AppProfiles.thy ===== *)
theory AppProfiles
  imports Privacy
begin

text \<open>
  Settings per application (\<open>core/src/AppProfileResolver.cpp\<close>): the profiles of the settings document
  are cleaned when they are read, and for the application in front the layers of global values, default
  profile, window class, old prompt prefix and process are laid over each other. Warnings are a list of
  messages. Names are compared case-insensitively; for names that are not ASCII the comparison is the one
  of the operating system, a parameter.
\<close>

type_synonym object = "(string \<times> json) list"

record ForegroundApp =
  fg_process :: string
  fg_window :: string
  resolved :: bool

section \<open>Names\<close>

definition lower_byte :: "char \<Rightarrow> nat" where
  "lower_byte c = (if 0x41 \<le> ord c \<and> ord c \<le> 0x5a then ord c + 0x20 else ord c)"

definition EqualAsciiAppName :: "string \<Rightarrow> string \<Rightarrow> bool" where
  "EqualAsciiAppName left right \<longleftrightarrow> length left = length right \<and> list_all2 (\<lambda>a b. lower_byte a = lower_byte b) left right"

definition is_ascii_name :: "string \<Rightarrow> bool" where
  "is_ascii_name n \<longleftrightarrow> list_all (\<lambda>c. ord c < 128) n"

text \<open>\<open>wide_equal\<close> is the conversion to UTF-16 followed by \<open>CompareStringOrdinal\<close>.\<close>

definition EqualAppName :: "(string \<Rightarrow> string \<Rightarrow> bool) \<Rightarrow> string \<Rightarrow> string \<Rightarrow> bool" where
  "EqualAppName wide_equal left right =
     (if \<not> is_ascii_name left \<or> \<not> is_ascii_name right then wide_equal left right else EqualAsciiAppName left right)"

section \<open>Cleaning the profiles\<close>

definition one_of :: "json \<Rightarrow> string list \<Rightarrow> bool" where
  "one_of v choices = (case v of JString s \<Rightarrow> s \<in> set choices | _ \<Rightarrow> False)"

definition is_string :: "json \<Rightarrow> bool" where
  "is_string v = (case v of JString s \<Rightarrow> True | _ \<Rightarrow> False)"

definition is_bool :: "json \<Rightarrow> bool" where
  "is_bool v = (case v of JBool b \<Rightarrow> True | _ \<Rightarrow> False)"

definition Validate :: "string \<Rightarrow> json \<Rightarrow> json option" where
  "Validate key v =
     (let ok = (if key = ''profileName'' \<or> key = ''promptPrefix'' then is_string v
                else if key = ''predictionEnabled'' \<or> key = ''sentenceCompletion'' \<or> key = ''learningEnabled'' \<or>
                        key = ''preferTechnicalTerms'' then is_bool v
                else if key = ''aiBackend'' then one_of v [''auto'', ''local-zenzai'', ''openai'', ''none'']
                else if key = ''style'' then one_of v [''auto'', ''polite'', ''casual'', ''technical'']
                else if key = ''privacyMode'' then one_of v [''inherit'', ''normal'', ''private'', ''secure'']
                else if key = ''bracketPairing'' then one_of v [''auto'', ''on'', ''off'']
                else False)
      in if ok then Some v else None)"

text \<open>\<open>std::clamp(boost, 1.0, 3.0)\<close>\<close>

definition bounded_boost :: "double \<Rightarrow> double" where
  "bounded_boost d = (if double_lt d (double_lit 1) then double_lit 1 else if double_lt (double_lit 3) d then double_lit 3 else d)"

text \<open>\<open>a != b\<close> on finite doubles.\<close>

definition double_differ :: "double \<Rightarrow> double \<Rightarrow> bool" where
  "double_differ a b \<longleftrightarrow> double_lt a b \<or> double_lt b a"

definition clean_boost :: "object \<times> string list \<Rightarrow> string \<times> json \<Rightarrow> object \<times> string list" where
  "clean_boost = (\<lambda>(boosts, warnings) (tag, boost).
     case boost of
       JNumber d token \<Rightarrow>
         if \<not> isfinite d then (boosts, warnings @ [''invalid app profile tag boost removed''])
         else (map_emplace tag (Value_double (bounded_boost d)) boosts,
               if double_differ (bounded_boost d) d then warnings @ [''app profile tag boost clamped''] else warnings)
     | _ \<Rightarrow> (boosts, warnings @ [''invalid app profile tag boost removed'']))"

definition clean_field :: "object \<times> string list \<Rightarrow> string \<times> json \<Rightarrow> object \<times> string list" where
  "clean_field = (\<lambda>(profile, warnings) (key, field).
     case (key = ''candidateTagBoosts'', field) of
       (True, JObject fs) \<Rightarrow>
         let (boosts, warnings') = foldl clean_boost ([], warnings) fs
         in (map_emplace key (JObject boosts) profile, warnings')
     | _ \<Rightarrow>
         (case Validate key field of
            Some valid \<Rightarrow> (map_emplace key valid profile, warnings)
          | None \<Rightarrow> (profile, warnings @ [''unknown or invalid app profile field removed''])))"

definition clean_profile :: "object \<times> string list \<Rightarrow> string \<times> json \<Rightarrow> object \<times> string list" where
  "clean_profile = (\<lambda>(output, warnings) (name, v).
     case v of
       JObject fs \<Rightarrow>
         let (profile, warnings') = foldl clean_field ([], warnings) fs
         in (map_emplace name (JObject profile) output, warnings')
     | _ \<Rightarrow> (output, warnings @ [''invalid app profile object removed'']))"

definition lower_name :: "string \<Rightarrow> string" where
  "lower_name n = map (\<lambda>c. char_of (lower_byte c)) n"

definition collision_warning :: string where
  "collision_warning = ''app profile case collision: greatest original key selected''"

definition warn_name :: "(string \<Rightarrow> string \<Rightarrow> bool) \<Rightarrow> string list \<times> string list \<times> string list \<Rightarrow> string \<Rightarrow> string list \<times> string list \<times> string list" where
  "warn_name wide_equal = (\<lambda>(seen, unicode_names, warnings) name.
     if \<not> is_ascii_name name then
       (seen, unicode_names @ [name],
        if list_ex (\<lambda>previous. EqualAppName wide_equal previous name) unicode_names then warnings @ [collision_warning] else warnings)
     else let key = lower_name name in
       if key \<in> set seen then (seen, unicode_names, warnings @ [collision_warning])
       else (seen @ [key], unicode_names, warnings))"

definition WarnCollisions :: "(string \<Rightarrow> string \<Rightarrow> bool) \<Rightarrow> object \<Rightarrow> string list \<Rightarrow> string list" where
  "WarnCollisions wide_equal vs warnings = snd (snd (foldl (warn_name wide_equal) ([], [], warnings) (map fst vs)))"

definition SanitizeAppProfiles :: "(string \<Rightarrow> string \<Rightarrow> bool) \<Rightarrow> object \<Rightarrow> string list \<Rightarrow> object \<times> string list" where
  "SanitizeAppProfiles wide_equal profiles warnings =
     (let (output, warnings') = foldl clean_profile ([], warnings) profiles
      in (output, WarnCollisions wide_equal output warnings'))"

section \<open>The resolver\<close>

record AppProfileResolver =
  profiles :: object
  legacy :: object
  globals :: object

definition default_globals :: object where
  "default_globals = foldl (\<lambda>m (k, v). map_emplace k v m) []
     [(''profileName'', JString []), (''predictionEnabled'', JBool True), (''sentenceCompletion'', JBool False),
      (''learningEnabled'', JBool True), (''aiBackend'', JString ''none''), (''promptPrefix'', JString []),
      (''style'', JString ''auto''), (''preferTechnicalTerms'', JBool False), (''candidateTagBoosts'', JObject []),
      (''privacyMode'', JString ''inherit''), (''bracketPairing'', JString ''auto'')]"

definition global_value :: "json \<Rightarrow> string \<times> json \<Rightarrow> string \<times> json" where
  "global_value settings = (\<lambda>(key, v).
     (key, if key = ''bracketPairing'' then v
           else case Find settings key of None \<Rightarrow> v
              | Some field \<Rightarrow> (case Validate key field of None \<Rightarrow> v | Some valid \<Rightarrow> valid)))"

definition FromSettings :: "(string \<Rightarrow> string \<Rightarrow> bool) \<Rightarrow> json \<Rightarrow> AppProfileResolver \<times> string list" where
  "FromSettings wide_equal settings =
     (let gs = map (global_value settings) default_globals;
          gs = (if map_of gs ''aiBackend'' = Some (JString ''auto'') then map_assign ''aiBackend'' (JString ''none'') gs else gs);
          (ps, w) = (case FindObject settings ''profilesByApp'' of
                       Some ps \<Rightarrow> SanitizeAppProfiles wide_equal ps []
                     | None \<Rightarrow> ([], if Find settings ''profilesByApp'' \<noteq> None then [''invalid profilesByApp removed''] else []));
          (ls, w) = (case FindObject settings ''promptPrefixByApp'' of
                       Some old \<Rightarrow>
                         (let ls = foldl (\<lambda>m (k, v). if is_string v then map_emplace k v m else m) [] old
                          in (ls, WarnCollisions wide_equal ls w))
                     | None \<Rightarrow> ([], w))
      in (\<lparr>profiles = ps, legacy = ls, globals = gs\<rparr>, w))"

text \<open>The last entry in key order whose name matches.\<close>

definition ProcessMatch :: "object \<Rightarrow> string \<Rightarrow> (string \<Rightarrow> string \<Rightarrow> bool) \<Rightarrow> json option" where
  "ProcessMatch vs name eq = foldl (\<lambda>selected (key, v). if eq key name then Some v else selected) None vs"

definition overlay :: "string option \<Rightarrow> object \<Rightarrow> object \<Rightarrow> object" where
  "overlay field vs result = foldl (\<lambda>out (key, v).
     if (case field of None \<Rightarrow> False | Some f \<Rightarrow> key \<noteq> f) then out
     else if key = ''privacyMode'' \<and> v = JString ''inherit'' then out
     else map_assign key v out) result vs"

definition apply_layer :: "string option \<Rightarrow> json option \<Rightarrow> object \<Rightarrow> object" where
  "apply_layer field v result = (case v of Some (JObject fs) \<Rightarrow> overlay field fs result | _ \<Rightarrow> result)"

text \<open>\<open>globals_.at("aiBackend")\<close> is always there: \<open>FromSettings\<close> puts it there, and a resolver without
  globals has no profiles.\<close>

definition ResolveImpl :: "AppProfileResolver \<Rightarrow> ForegroundApp \<Rightarrow> (string \<Rightarrow> string \<Rightarrow> bool) \<Rightarrow> string option \<Rightarrow> object" where
  "ResolveImpl r app eq field =
     (let result = overlay field (globals r) [];
          result = apply_layer field (map_of (profiles r) ''default'') result;
          result =
            (if resolved app \<and> fg_process app \<noteq> [] then
               let result = (if fg_window app \<noteq> [] then apply_layer field (map_of (profiles r) (fg_window app)) result else result);
                   result = (if field = None \<or> field = Some ''promptPrefix''
                             then case ProcessMatch (legacy r) (fg_process app) eq of
                                    None \<Rightarrow> result | Some pre \<Rightarrow> map_assign ''promptPrefix'' pre result
                             else result)
               in apply_layer field (ProcessMatch (profiles r) (fg_process app) eq) result
             else result);
          result = (if map_of result ''aiBackend'' = Some (JString ''auto'')
                    then map_assign ''aiBackend'' (the (map_of (globals r) ''aiBackend'')) result else result)
      in if (field = None \<or> field = Some ''privacyMode'') \<and> map_of result ''privacyMode'' = None
         then map_assign ''privacyMode'' (JString ''inherit'') result else result)"

definition Resolve :: "AppProfileResolver \<Rightarrow> ForegroundApp \<Rightarrow> (string \<Rightarrow> string \<Rightarrow> bool) \<Rightarrow> object" where
  "Resolve r app eq = ResolveImpl r app eq None"

definition ResolveField :: "AppProfileResolver \<Rightarrow> string \<Rightarrow> ForegroundApp \<Rightarrow> (string \<Rightarrow> string \<Rightarrow> bool) \<Rightarrow> json option" where
  "ResolveField r field app eq = map_of (ResolveImpl r app eq (Some field)) field"

section \<open>Which value counts\<close>

text \<open>The value that one layer gives a field; an inherited privacy mode gives none.\<close>

definition layer_value :: "string \<Rightarrow> json option \<Rightarrow> json option" where
  "layer_value f v =
     (case v of
        Some (JObject fs) \<Rightarrow>
          (case map_of fs f of None \<Rightarrow> None
           | Some x \<Rightarrow> if f = ''privacyMode'' \<and> x = JString ''inherit'' then None else Some x)
      | _ \<Rightarrow> None)"

fun first_some :: "'a option list \<Rightarrow> 'a option" where
  "first_some [] = None"
| "first_some (None # xs) = first_some xs"
| "first_some (Some x # xs) = Some x"

definition layers :: "AppProfileResolver \<Rightarrow> ForegroundApp \<Rightarrow> (string \<Rightarrow> string \<Rightarrow> bool) \<Rightarrow> string \<Rightarrow> json option list" where
  "layers r app eq f =
     (if resolved app \<and> fg_process app \<noteq> []
      then [layer_value f (ProcessMatch (profiles r) (fg_process app) eq),
            if f = ''promptPrefix'' then ProcessMatch (legacy r) (fg_process app) eq else None,
            if fg_window app \<noteq> [] then layer_value f (map_of (profiles r) (fg_window app)) else None]
      else []) @
     [layer_value f (map_of (profiles r) ''default''), layer_value f (Some (JObject (globals r)))]"

definition effective :: "AppProfileResolver \<Rightarrow> ForegroundApp \<Rightarrow> (string \<Rightarrow> string \<Rightarrow> bool) \<Rightarrow> string \<Rightarrow> json option" where
  "effective r app eq f =
     (let v = first_some (layers r app eq f) in
      if f = ''aiBackend'' \<and> v = Some (JString ''auto'') then map_of (globals r) ''aiBackend''
      else if f = ''privacyMode'' \<and> v = None then Some (JString ''inherit'') else v)"

text \<open>Objects are maps: their keys are in order and distinct.\<close>

definition object_wf :: "json \<Rightarrow> bool" where
  "object_wf v = (case v of JObject fs \<Rightarrow> map_wf fs | _ \<Rightarrow> True)"

definition resolver_ok :: "AppProfileResolver \<Rightarrow> bool" where
  "resolver_ok r \<longleftrightarrow> map_wf (profiles r) \<and> list_all (object_wf \<circ> snd) (profiles r) \<and> map_wf (globals r) \<and>
     map_of (globals r) ''aiBackend'' \<noteq> None \<and> map_of (globals r) ''aiBackend'' \<noteq> Some (JString ''auto'')"

definition wants :: "string option \<Rightarrow> string \<Rightarrow> bool" where
  "wants field f \<longleftrightarrow> (case field of None \<Rightarrow> True | Some g \<Rightarrow> g = f)"

definition over :: "'a option \<Rightarrow> 'a option \<Rightarrow> 'a option" where
  "over x y = (case x of None \<Rightarrow> y | Some v \<Rightarrow> Some v)"

lemma over_simps [simp]: "over None y = y" "over (Some v) y = Some v" "over x None = x"
  by (simp_all add: over_def split: option.split)

lemma first_some_Cons [simp]: "first_some (x # xs) = over x (first_some xs)"
  by (cases x) simp_all

lemma overlay_find:
  assumes "map_wf vs"
  shows "map_of (overlay field vs result) f =
    (if wants field f then over (layer_value f (Some (JObject vs))) (map_of result f) else map_of result f)"
  using assms
proof (induction vs arbitrary: result)
  case (Cons kv vs)
  obtain k v where kv: "kv = (k, v)" by (cases kv)
  have none: "map_of vs k = None" and wf: "map_wf vs"
    using Cons.prems by (force simp: kv map_wf_Cons map_of_eq_None_iff)+
  have "overlay field (kv # vs) result = overlay field vs
      (if (case field of None \<Rightarrow> False | Some g \<Rightarrow> k \<noteq> g) then result
       else if k = ''privacyMode'' \<and> v = JString ''inherit'' then result else map_assign k v result)"
    by (simp add: overlay_def kv)
  then show ?case
    using Cons.IH [OF wf] none by (auto simp: kv layer_value_def map_of_assign wants_def over_def split: option.splits)
qed (simp add: overlay_def layer_value_def)

lemma apply_layer_find:
  assumes "pred_option object_wf v"
  shows "map_of (apply_layer field v result) f =
    (if wants field f then over (layer_value f v) (map_of result f) else map_of result f)"
proof (cases v)
  case (Some w)
  then show ?thesis
    using assms overlay_find [of _ field result f] by (cases w) (simp_all add: apply_layer_def object_wf_def layer_value_def)
qed (simp add: apply_layer_def layer_value_def)

lemma ProcessMatch_in: "ProcessMatch vs name eq = Some v \<Longrightarrow> v \<in> snd ` set vs"
proof -
  have "foldl (\<lambda>selected (key, v). if eq key name then Some v else selected) s vs = Some v \<Longrightarrow> s = Some v \<or> v \<in> snd ` set vs" for s
    by (induction vs arbitrary: s) (force split: if_splits)+
  then show "ProcessMatch vs name eq = Some v \<Longrightarrow> v \<in> snd ` set vs" by (fastforce simp: ProcessMatch_def)
qed

lemma layer_wf:
  assumes "resolver_ok r"
  shows "pred_option object_wf (map_of (profiles r) n)" "pred_option object_wf (ProcessMatch (profiles r) n eq)"
proof -
  have all: "object_wf v" if "v \<in> snd ` set (profiles r)" for v
    using assms that by (auto simp: resolver_ok_def list_all_iff)
  show "pred_option object_wf (map_of (profiles r) n)"
    by (cases "map_of (profiles r) n") (force dest: map_of_SomeD intro: all)+
  show "pred_option object_wf (ProcessMatch (profiles r) n eq)"
    by (cases "ProcessMatch (profiles r) n eq") (auto dest: ProcessMatch_in intro: all)
qed

text \<open>The object before the two final corrections.\<close>

definition laid_over :: "AppProfileResolver \<Rightarrow> ForegroundApp \<Rightarrow> (string \<Rightarrow> string \<Rightarrow> bool) \<Rightarrow> string option \<Rightarrow> object" where
  "laid_over r app eq field =
     (let result = apply_layer field (map_of (profiles r) ''default'') (overlay field (globals r) []) in
      if resolved app \<and> fg_process app \<noteq> [] then
        let result = (if fg_window app \<noteq> [] then apply_layer field (map_of (profiles r) (fg_window app)) result else result);
            result = (if field = None \<or> field = Some ''promptPrefix''
                      then case ProcessMatch (legacy r) (fg_process app) eq of
                             None \<Rightarrow> result | Some pre \<Rightarrow> map_assign ''promptPrefix'' pre result
                      else result)
        in apply_layer field (ProcessMatch (profiles r) (fg_process app) eq) result
      else result)"

lemma prefix_find:
  "map_of (case p of None \<Rightarrow> result | Some pre \<Rightarrow> map_assign k pre result) f = over (if f = k then p else None) (map_of result f)"
  by (simp add: map_of_assign split: option.split)

lemma laid_over_find:
  assumes "resolver_ok r"
  shows "map_of (laid_over r app eq field) f = (if wants field f then first_some (layers r app eq f) else None)"
proof -
  have wf: "map_wf (globals r)" using assms by (simp add: resolver_ok_def)
  note finds = overlay_find [OF wf] apply_layer_find [OF layer_wf(1) [OF assms]] apply_layer_find [OF layer_wf(2) [OF assms]] prefix_find
  show ?thesis
  proof (cases "wants field f")
    case True
    then have "field = None \<or> field = Some f" by (auto simp: wants_def split: option.splits)
    with True show ?thesis
      by (cases "resolved app"; cases "fg_process app = []"; cases "fg_window app = []"; cases "f = ''promptPrefix''")
        (simp_all add: laid_over_def layers_def Let_def finds cong: option.case_cong)
  next
    case False
    then obtain g where "field = Some g" "g \<noteq> f" by (auto simp: wants_def split: option.splits)
    with False show ?thesis
      by (cases "g = ''promptPrefix''") (simp_all add: laid_over_def Let_def finds)
  qed
qed

lemma ResolveImpl_find:
  assumes "resolver_ok r" "wants field f"
  shows "map_of (ResolveImpl r app eq field) f = effective r app eq f"
proof -
  let ?L = "laid_over r app eq field"
  have R: "ResolveImpl r app eq field =
     (let result = (if map_of ?L ''aiBackend'' = Some (JString ''auto'')
                    then map_assign ''aiBackend'' (the (map_of (globals r) ''aiBackend'')) ?L else ?L)
      in if (field = None \<or> field = Some ''privacyMode'') \<and> map_of result ''privacyMode'' = None
         then map_assign ''privacyMode'' (JString ''inherit'') result else result)"
    unfolding ResolveImpl_def laid_over_def Let_def ..
  have "map_of (globals r) ''aiBackend'' \<noteq> None" using assms(1) by (simp add: resolver_ok_def)
  then show ?thesis
    using assms(2) unfolding R
    by (auto simp: Let_def map_of_assign laid_over_find [OF assms(1)] effective_def wants_def split: option.splits)
qed

section \<open>The resolver of a settings document\<close>

lemma foldl_keeps: "P s \<Longrightarrow> (\<And>s x. P s \<Longrightarrow> P (f s x)) \<Longrightarrow> P (foldl f s xs)"
  by (induction xs arbitrary: s) auto

lemma clean_wf: "map_wf m \<Longrightarrow> map_wf (fst (clean_boost (m, w) x))" "map_wf m \<Longrightarrow> map_wf (fst (clean_field (m, w) x))"
  by (auto simp: clean_boost_def clean_field_def map_wf_emplace case_prod_beta Let_def split: json.splits option.splits bool.splits)

lemma clean_field_all_wf: "map_wf (fst (foldl clean_field ([], w) fs))"
proof (rule foldl_keeps [where P = "\<lambda>s. map_wf (fst s)"])
  show "map_wf (fst s) \<Longrightarrow> map_wf (fst (clean_field s x))" for s x using clean_wf(2) [of "fst s" "snd s"] by simp
qed (simp add: map_wf_def)

lemma list_all_emplace: "list_all P m \<Longrightarrow> P (k, v) \<Longrightarrow> list_all P (map_emplace k v m)"
  using set_map_emplace [of k v m] by (auto simp: list_all_iff)

lemma clean_profile_ok:
  assumes "map_wf m" "list_all (object_wf \<circ> snd) m"
  shows "map_wf (fst (clean_profile (m, w) x)) \<and> list_all (object_wf \<circ> snd) (fst (clean_profile (m, w) x))"
proof (cases x)
  case (Pair name v)
  then show ?thesis
    using assms clean_field_all_wf
    by (cases v) (simp_all add: clean_profile_def map_wf_emplace list_all_emplace case_prod_beta Let_def object_wf_def [of "JObject _"])
qed

lemma Sanitize_ok:
  "map_wf (fst (SanitizeAppProfiles wide_equal ps w)) \<and> list_all (object_wf \<circ> snd) (fst (SanitizeAppProfiles wide_equal ps w))"
proof -
  let ?P = "\<lambda>s. map_wf (fst s) \<and> list_all (object_wf \<circ> snd) (fst s)"
  have "?P (foldl clean_profile ([], w) ps)"
  proof (rule foldl_keeps [where P = ?P])
    show "?P s \<Longrightarrow> ?P (clean_profile s x)" for s x using clean_profile_ok [of "fst s" "snd s" x] by simp
  qed (simp add: map_wf_def)
  then show ?thesis by (simp add: SanitizeAppProfiles_def Let_def case_prod_beta)
qed

lemma global_keys: "map fst (map (global_value settings) ms) = map fst ms"
  by (simp add: global_value_def case_prod_beta)

lemma FromSettings_ok: "resolver_ok (fst (FromSettings wide_equal settings))"
proof -
  let ?gs = "map (global_value settings) default_globals"
  have keys: "map fst default_globals = [''aiBackend'', ''bracketPairing'', ''candidateTagBoosts'', ''learningEnabled'', ''predictionEnabled'',
      ''preferTechnicalTerms'', ''privacyMode'', ''profileName'', ''promptPrefix'', ''sentenceCompletion'', ''style'']"
    by (simp add: default_globals_def)
  then have wf: "map_wf ?gs" unfolding map_wf_def global_keys by simp
  have "map_of ?gs ''aiBackend'' \<noteq> None" unfolding map_of_eq_None_iff set_map [symmetric] global_keys using keys by simp
  then show ?thesis
    using wf Sanitize_ok
    by (auto simp: FromSettings_def resolver_ok_def Let_def case_prod_beta map_wf_assign map_of_assign map_wf_def [of "[]"]
        split: option.splits)
qed

text \<open>C24: The value of a setting for the application in front comes from the most specific place that
  has one: the profile of its process, the old prompt prefix of the process, the profile of its window
  class, the default profile, the global settings; an inherited privacy mode is no value, an automatic
  backend means the global one. Asking for a single field gives the same answer as resolving all of
  them, for every settings document, application and comparison of names.\<close>

theorem Resolve_effective:
  assumes "fst (FromSettings wide_equal settings) = r"
  shows "map_of (Resolve r app eq) f = effective r app eq f \<and> ResolveField r f app eq = map_of (Resolve r app eq) f"
proof -
  have ok: "resolver_ok r" using FromSettings_ok assms by blast
  show ?thesis
    using ResolveImpl_find [OF ok, of None f app eq] ResolveImpl_find [OF ok, of "Some f" f app eq]
    by (simp add: Resolve_def ResolveField_def wants_def)
qed

definition sample_settings :: json where
  "sample_settings = JObject [(''profilesByApp'', JObject [(''Code.exe'', JObject [(''style'', JString ''technical'')]),
     (''default'', JObject [(''style'', JString ''polite'')])])]"

theorem Resolve_effective_witness:
  "ResolveField (fst (FromSettings (\<lambda>a b. False) sample_settings)) ''style''
     \<lparr>fg_process = ''code.exe'', fg_window = [], resolved = True\<rparr> (EqualAppName (\<lambda>a b. False)) = Some (JString ''technical'')"
proof -
  let ?r = "fst (FromSettings (\<lambda>a b. False) sample_settings)"
  let ?app = "\<lparr>fg_process = ''code.exe'', fg_window = [], resolved = True\<rparr>"
  have "profiles ?r = [(''Code.exe'', JObject [(''style'', JString ''technical'')]), (''default'', JObject [(''style'', JString ''polite'')])]"
    by (simp add: FromSettings_def sample_settings_def FindObject_def SanitizeAppProfiles_def clean_profile_def clean_field_def Validate_def
        one_of_def Let_def case_prod_beta)
  then have "effective ?r ?app (EqualAppName (\<lambda>a b. False)) ''style'' = Some (JString ''technical'')"
    by (simp add: effective_def layers_def ProcessMatch_def EqualAppName_def is_ascii_name_def EqualAsciiAppName_def lower_byte_def
        layer_value_def)
  then show ?thesis using Resolve_effective [OF refl, of "\<lambda>a b. False" sample_settings ?app "EqualAppName (\<lambda>a b. False)" "''style''"] by simp
qed

end
