(* ===== verification/RequestScheduler.thy ===== *)
theory RequestScheduler
  imports StdMap
begin

text \<open>
  The request scheduler of the inference host (\<open>inference-host/src/RequestScheduler.cpp\<close>): which
  requests of which client are active, which are cancelled and which is the latest.

  Every member function holds the mutex for its whole body, so concurrent use is a sequence of the
  operations below. The cancellation flags are shared with the threads that run the requests; they
  live in a store, and a \<open>shared_ptr\<close> is an address of it. The hash maps are kept as ordered maps,
  since no operation depends on their order; request ids are \<open>uint64_t\<close> values.
\<close>

section \<open>State\<close>

type_synonym address = nat

record cancel_state =
  flag :: "address option"
  active_count :: nat

record client_state =
  latest :: nat
  active_connections :: nat
  pending_requests :: nat
  cancel_states :: "(nat, cancel_state) map"

record scheduler =
  request_id :: "64 word"
  client_states :: "(string, client_state) map"
  flags :: "bool list"

definition new_cancel_state :: cancel_state where
  "new_cancel_state = \<lparr>flag = None, active_count = 0\<rparr>"

definition new_client_state :: client_state where
  "new_client_state = \<lparr>latest = 0, active_connections = 0, pending_requests = 0, cancel_states = []\<rparr>"

definition new_scheduler :: scheduler where
  "new_scheduler = \<lparr>request_id = 0, client_states = [], flags = []\<rparr>"

definition kMaxPendingRequestsPerClient :: nat where
  "kMaxPendingRequestsPerClient = 64"

section \<open>Operations\<close>

definition NextRequestId :: "scheduler \<Rightarrow> 64 word \<times> scheduler" where
  "NextRequestId s = (request_id s + 1, s\<lparr>request_id := request_id s + 1\<rparr>)"

text \<open>\<open>client_states_[client_id]\<close>: a reference, with a default entry when there was none.\<close>

definition client_of :: "scheduler \<Rightarrow> string \<Rightarrow> client_state" where
  "client_of s c = (case map_of (client_states s) c of None \<Rightarrow> new_client_state | Some cl \<Rightarrow> cl)"

definition set_client :: "string \<Rightarrow> client_state \<Rightarrow> scheduler \<Rightarrow> scheduler" where
  "set_client c cl s = s\<lparr>client_states := map_assign c cl (client_states s)\<rparr>"

text \<open>\<open>std::make_shared<AiCancellationFlag>()\<close>, and \<open>Cancel()\<close> on a flag.\<close>

definition make_flag :: "scheduler \<Rightarrow> address \<times> scheduler" where
  "make_flag s = (length (flags s), s\<lparr>flags := flags s @ [False]\<rparr>)"

definition set_flag :: "address option \<Rightarrow> scheduler \<Rightarrow> scheduler" where
  "set_flag a s = (case a of None \<Rightarrow> s | Some i \<Rightarrow> s\<lparr>flags := (flags s)[i := True]\<rparr>)"

definition RegisterClient :: "string \<Rightarrow> scheduler \<Rightarrow> scheduler" where
  "RegisterClient c s =
     (if c = [] then s
      else let cl = client_of s c
           in set_client c (cl\<lparr>active_connections := active_connections cl + 1\<rparr>) s)"

definition UnregisterClient :: "string \<Rightarrow> scheduler \<Rightarrow> scheduler" where
  "UnregisterClient c s =
     (if c = [] then s
      else case map_of (client_states s) c of
          None \<Rightarrow> s
        | Some cl \<Rightarrow>
            let cl1 = (if active_connections cl > 0
                       then cl\<lparr>active_connections := active_connections cl - 1\<rparr> else cl)
            in if active_connections cl1 = 0
               then s\<lparr>client_states := map_erase c (client_states s)\<rparr>
               else set_client c cl1 s)"

definition scheduler_Cancel :: "string \<Rightarrow> nat \<Rightarrow> scheduler \<Rightarrow> scheduler" where
  "scheduler_Cancel c i s =
     (let cl = client_of s c in
      case map_of (cancel_states cl) i of
        Some st \<Rightarrow> set_flag (flag st) (set_client c cl s)
      | None \<Rightarrow>
          if length (cancel_states cl) \<ge> kMaxPendingRequestsPerClient then set_client c cl s
          else let (a, s1) = make_flag s;
                   st = \<lparr>flag = Some a, active_count = 0\<rparr>
               in set_flag (Some a)
                    (set_client c (cl\<lparr>cancel_states := map_emplace i st (cancel_states cl)\<rparr>) s1))"

definition IsCanceled :: "string \<Rightarrow> nat \<Rightarrow> scheduler \<Rightarrow> bool" where
  "IsCanceled c i s =
     (case map_of (client_states s) c of
        None \<Rightarrow> False
      | Some cl \<Rightarrow>
          (case map_of (cancel_states cl) i of
             None \<Rightarrow> False
           | Some st \<Rightarrow> (case flag st of None \<Rightarrow> False | Some a \<Rightarrow> flags s ! a)))"

definition PruneInactiveBeforeLocked :: "client_state \<Rightarrow> nat \<Rightarrow> client_state" where
  "PruneInactiveBeforeLocked cl i =
     cl\<lparr>cancel_states := filter (\<lambda>(j, st). \<not> (j \<le> i \<and> active_count st = 0)) (cancel_states cl)\<rparr>"

text \<open>The result is the flag, \<^term>\<open>None\<close> for \<open>nullptr\<close>.\<close>

definition TrackCancellation :: "string \<Rightarrow> nat \<Rightarrow> scheduler \<Rightarrow> address option \<times> scheduler" where
  "TrackCancellation c i s =
     (let cl = client_of s c in
      if pending_requests cl \<ge> kMaxPendingRequestsPerClient then (None, set_client c cl s)
      else
        let cl1 = (if map_of (cancel_states cl) i = None \<and>
                      length (cancel_states cl) \<ge> kMaxPendingRequestsPerClient
                   then PruneInactiveBeforeLocked cl (2 ^ 64 - 1) else cl)
        in if map_of (cancel_states cl) i = None \<and>
              length (cancel_states cl1) \<ge> kMaxPendingRequestsPerClient
           then (None, set_client c cl1 s)
           else
             let st = (case map_of (cancel_states cl1) i of None \<Rightarrow> new_cancel_state | Some st \<Rightarrow> st);
                 (a, s1) = (case flag st of None \<Rightarrow> make_flag s | Some a \<Rightarrow> (a, s));
                 st' = st\<lparr>flag := Some a, active_count := active_count st + 1\<rparr>
             in (Some a,
                 set_client c (cl1\<lparr>cancel_states := map_assign i st' (cancel_states cl1),
                   pending_requests := pending_requests cl1 + 1\<rparr>) s1))"

definition CompleteRequest :: "string \<Rightarrow> nat \<Rightarrow> scheduler \<Rightarrow> scheduler" where
  "CompleteRequest c i s =
     (case map_of (client_states s) c of
        None \<Rightarrow> s
      | Some cl \<Rightarrow>
          (case map_of (cancel_states cl) i of
             None \<Rightarrow> s
           | Some st \<Rightarrow>
               let (st1, cl1) =
                     (if active_count st > 0
                      then (st\<lparr>active_count := active_count st - 1\<rparr>,
                            cl\<lparr>pending_requests := pending_requests cl - 1\<rparr>)
                      else (st, cl))
               in if active_count st1 = 0
                  then set_client c (cl1\<lparr>cancel_states := map_erase i (cancel_states cl1)\<rparr>) s
                  else set_client c (cl1\<lparr>cancel_states := map_assign i st1 (cancel_states cl1)\<rparr>) s))"

definition MarkLatest :: "string \<Rightarrow> nat \<Rightarrow> scheduler \<Rightarrow> scheduler" where
  "MarkLatest c i s =
     set_client c (PruneInactiveBeforeLocked ((client_of s c)\<lparr>latest := i\<rparr>) i) s"

definition IsLatest :: "string \<Rightarrow> nat \<Rightarrow> scheduler \<Rightarrow> bool" where
  "IsLatest c i s =
     (case map_of (client_states s) c of None \<Rightarrow> False | Some cl \<Rightarrow> latest cl = i)"

section \<open>Sequences of operations\<close>

datatype scheduler_op =
    OpNextId
  | OpRegister string
  | OpUnregister string
  | OpCancel string nat
  | OpTrack string nat
  | OpComplete string nat
  | OpMarkLatest string nat

fun scheduler_step :: "scheduler \<Rightarrow> scheduler_op \<Rightarrow> scheduler" where
  "scheduler_step s OpNextId = snd (NextRequestId s)"
| "scheduler_step s (OpRegister c) = RegisterClient c s"
| "scheduler_step s (OpUnregister c) = UnregisterClient c s"
| "scheduler_step s (OpCancel c i) = scheduler_Cancel c i s"
| "scheduler_step s (OpTrack c i) = snd (TrackCancellation c i s)"
| "scheduler_step s (OpComplete c i) = CompleteRequest c i s"
| "scheduler_step s (OpMarkLatest c i) = MarkLatest c i s"

section \<open>The invariant\<close>

definition total_active :: "(nat, cancel_state) map \<Rightarrow> nat" where
  "total_active m = sum_list (map (active_count \<circ> snd) m)"

definition client_ok :: "client_state \<Rightarrow> bool" where
  "client_ok cl \<longleftrightarrow> map_wf (cancel_states cl) \<and>
     pending_requests cl = total_active (cancel_states cl) \<and>
     pending_requests cl \<le> kMaxPendingRequestsPerClient \<and>
     length (cancel_states cl) \<le> kMaxPendingRequestsPerClient"

text \<open>The entry of a request, and the address of its flag.\<close>

definition entry :: "scheduler \<Rightarrow> string \<Rightarrow> nat \<Rightarrow> cancel_state option" where
  "entry s c i = map_of (cancel_states (client_of s c)) i"

definition flag_at :: "scheduler \<Rightarrow> string \<times> nat \<Rightarrow> address option" where
  "flag_at s = (\<lambda>(c, i). Option.bind (entry s c i) flag)"

definition scheduler_ok :: "scheduler \<Rightarrow> bool" where
  "scheduler_ok s \<longleftrightarrow> map_wf (client_states s) \<and> (\<forall>c. client_ok (client_of s c)) \<and>
     (\<forall>c i st. entry s c i = Some st \<longrightarrow> flag st \<noteq> None) \<and>
     (\<forall>k a. flag_at s k = Some a \<longrightarrow> a < length (flags s)) \<and>
     (\<forall>k l a. flag_at s k = Some a \<longrightarrow> flag_at s l = Some a \<longrightarrow> k = l)"

lemma scheduler_okI:
  "map_wf (client_states s) \<Longrightarrow> (\<And>c. client_ok (client_of s c)) \<Longrightarrow>
     (\<And>c i st. entry s c i = Some st \<Longrightarrow> flag st \<noteq> None) \<Longrightarrow>
     (\<And>k a. flag_at s k = Some a \<Longrightarrow> a < length (flags s)) \<Longrightarrow>
     (\<And>k l a. flag_at s k = Some a \<Longrightarrow> flag_at s l = Some a \<Longrightarrow> k = l) \<Longrightarrow> scheduler_ok s"
  unfolding scheduler_ok_def by blast

lemma scheduler_okD:
  "scheduler_ok s \<Longrightarrow> map_wf (client_states s)" "scheduler_ok s \<Longrightarrow> client_ok (client_of s c)"
  "scheduler_ok s \<Longrightarrow> entry s c i = Some st \<Longrightarrow> flag st \<noteq> None"
  "scheduler_ok s \<Longrightarrow> flag_at s k = Some a \<Longrightarrow> a < length (flags s)"
  "scheduler_ok s \<Longrightarrow> flag_at s k = Some a \<Longrightarrow> flag_at s l = Some a \<Longrightarrow> k = l"
  unfolding scheduler_ok_def by blast+

lemma new_client_ok [simp]: "client_ok new_client_state"
  by (simp add: client_ok_def new_client_state_def map_wf_def total_active_def)

lemma client_ok_connections [simp]:
  "client_ok (cl\<lparr>active_connections := n\<rparr>) = client_ok cl" "client_ok (cl\<lparr>latest := i\<rparr>) = client_ok cl"
  by (simp_all add: client_ok_def)

lemma client_of_set: "client_of (set_client c cl s) d = (if d = c then cl else client_of s d)"
  by (simp add: client_of_def set_client_def map_of_assign)

lemma client_of_erased [simp]:
  "client_of (s\<lparr>client_states := map_erase c (client_states s)\<rparr>) d = (if d = c then new_client_state else client_of s d)"
  by (simp add: client_of_def map_of_erase)

lemma client_of_other [simp]:
  "client_of (s\<lparr>flags := fs\<rparr>) = client_of s" "client_of (s\<lparr>request_id := r\<rparr>) = client_of s"
  by (simp_all add: client_of_def fun_eq_iff)

lemma entry_set:
  "entry (set_client c cl s) d i = (if d = c then map_of (cancel_states cl) i else entry s d i)"
  by (simp add: entry_def client_of_set)

lemma set_client_frame [simp]:
  "flags (set_client c cl s) = flags s" "map_wf (client_states s) \<Longrightarrow> map_wf (client_states (set_client c cl s))"
  by (simp_all add: set_client_def map_wf_assign)

lemma set_flag_frame [simp]:
  "client_states (set_flag a s) = client_states s" "length (flags (set_flag a s)) = length (flags s)"
  "entry (set_flag a s) = entry s" "flag_at (set_flag a s) = flag_at s" "client_of (set_flag a s) = client_of s"
proof -
  show cs: "client_states (set_flag a s) = client_states s" by (simp add: set_flag_def split: option.splits)
  show "length (flags (set_flag a s)) = length (flags s)" by (simp add: set_flag_def split: option.splits)
  show co: "client_of (set_flag a s) = client_of s" by (simp add: client_of_def cs fun_eq_iff)
  show en: "entry (set_flag a s) = entry s" by (simp add: entry_def co fun_eq_iff)
  show "flag_at (set_flag a s) = flag_at s" by (simp add: flag_at_def en fun_eq_iff)
qed

subsection \<open>Counting the active requests\<close>

lemma total_active_assign_new:
  "map_of m i = None \<Longrightarrow> total_active (map_assign i st m) = total_active m + active_count st \<and>
     length (map_assign i st m) = Suc (length m)"
  by (induction i st m rule: map_assign.induct) (auto simp: total_active_def split: if_splits)

lemma total_active_assign_old:
  "map_wf m \<Longrightarrow> map_of m i = Some old \<Longrightarrow>
     total_active (map_assign i st m) + active_count old = total_active m + active_count st \<and>
     length (map_assign i st m) = length m"
proof (induction i st m rule: map_assign.induct)
  case (2 k v a b m)
  have "k < a \<Longrightarrow> map_of m k = None"
    using 2(2) by (force simp: map_wf_Cons map_of_eq_None_iff)
  then show ?case using 2 by (auto simp: total_active_def map_wf_Cons split: if_splits)
qed (simp add: total_active_def)

lemma emplace_new: "map_of m i = None \<Longrightarrow> map_emplace i st m = map_assign i st m"
  by (induction i st m rule: map_assign.induct) (auto split: if_splits)

lemma total_active_erase:
  "map_wf m \<Longrightarrow> map_of m i = Some old \<Longrightarrow>
     total_active (map_erase i m) + active_count old = total_active m \<and> length (map_erase i m) \<le> length m"
proof (induction m)
  case (Cons kv m)
  obtain k v where kv: "kv = (k, v)" by (cases kv)
  show ?case
  proof (cases "k = i")
    case True
    then have "map_erase i m = m"
      using Cons.prems(1) kv by (auto simp: map_erase_def map_wf_Cons filter_id_conv)
    then show ?thesis using Cons.prems kv True by (simp add: total_active_def map_erase_def)
  next
    case False
    then show ?thesis using Cons kv by (simp add: total_active_def map_erase_def map_wf_Cons)
  qed
qed simp

lemma active_le_total: "map_of m i = Some st \<Longrightarrow> active_count st \<le> total_active m"
  by (induction m) (auto simp: total_active_def split: if_splits)

subsection \<open>Pruning\<close>

lemma total_active_filter:
  "(\<And>x. x \<in> set m \<Longrightarrow> \<not> P x \<Longrightarrow> active_count (snd x) = 0) \<Longrightarrow> total_active (filter P m) = total_active m"
  by (induction m) (auto simp: total_active_def)

lemma Prune_ok: "client_ok cl \<Longrightarrow> client_ok (PruneInactiveBeforeLocked cl i)"
proof -
  assume ok: "client_ok cl"
  let ?P = "\<lambda>(j, st). \<not> (j \<le> i \<and> active_count st = 0)"
  have "total_active (filter ?P (cancel_states cl)) = total_active (cancel_states cl)"
    by (rule total_active_filter) auto
  moreover have "length (filter ?P (cancel_states cl)) \<le> length (cancel_states cl)"
    by (rule length_filter_le)
  ultimately show ?thesis
    using ok map_wf_filter [of "cancel_states cl" ?P]
    unfolding client_ok_def PruneInactiveBeforeLocked_def
    by (simp only: client_state.simps) (simp del: length_filter_le)
qed

lemma Prune_lookup:
  assumes "map_wf (cancel_states cl)"
  shows "map_of (cancel_states (PruneInactiveBeforeLocked cl i)) j = Some st \<longleftrightarrow>
    map_of (cancel_states cl) j = Some st \<and> (i < j \<or> 0 < active_count st)"
proof -
  have d: "distinct (map fst (cancel_states cl))" using map_wf_distinct [OF assms] .
  have d': "distinct (map fst (cancel_states (PruneInactiveBeforeLocked cl i)))"
    using d by (simp add: PruneInactiveBeforeLocked_def distinct_map_filter)
  show ?thesis
    using map_of_eq_Some_iff [OF d] map_of_eq_Some_iff [OF d']
    by (auto simp: PruneInactiveBeforeLocked_def not_le)
qed

lemma Prune_frame [simp]:
  "pending_requests (PruneInactiveBeforeLocked cl i) = pending_requests cl"
  "latest (PruneInactiveBeforeLocked cl i) = latest cl"
  by (simp_all add: PruneInactiveBeforeLocked_def)

subsection \<open>Preservation\<close>

lemma flag_at_apply: "flag_at s (c, i) = Option.bind (entry s c i) flag"
  by (simp add: flag_at_def)

text \<open>A client may be replaced by one whose flags it had before at the same requests.\<close>

lemma set_client_ok:
  assumes ok: "scheduler_ok s" and cl: "client_ok cl"
    and same: "\<And>i st. map_of (cancel_states cl) i = Some st \<Longrightarrow> \<exists>old. entry s c i = Some old \<and> flag st = flag old"
  shows "scheduler_ok (set_client c cl s)"
proof -
  let ?s = "set_client c cl s"
  have sub: "flag_at ?s k = Some a \<Longrightarrow> flag_at s k = Some a" for k a
    using same
    by (cases k) (fastforce simp: flag_at_apply entry_set bind_eq_Some_conv split: if_splits)
  show ?thesis
  proof (rule scheduler_okI)
    show "entry ?s d i = Some st \<Longrightarrow> flag st \<noteq> None" for d i st
      using scheduler_okD(3) [OF ok] same [of i st] by (fastforce simp: entry_set split: if_splits)
    show "flag_at ?s k = Some a \<Longrightarrow> a < length (flags ?s)" for k a
      using sub [of k a] scheduler_okD(4) [OF ok, of k a] by simp
    show "flag_at ?s k = Some a \<Longrightarrow> flag_at ?s l = Some a \<Longrightarrow> k = l" for k l a
      using sub scheduler_okD(5) [OF ok] by blast
  qed (use cl scheduler_okD(1,2) [OF ok] in \<open>simp_all add: client_of_set\<close>)
qed

text \<open>One request may get a fresh flag.\<close>

lemma fresh_client_ok:
  assumes ok: "scheduler_ok s" and cl: "client_ok cl"
    and same: "\<And>j st. j \<noteq> i \<Longrightarrow> map_of (cancel_states cl) j = Some st \<Longrightarrow>
      \<exists>old. entry s c j = Some old \<and> flag st = flag old"
    and new: "\<And>st. map_of (cancel_states cl) i = Some st \<Longrightarrow> flag st = Some (length (flags s))"
  shows "scheduler_ok (set_client c cl (s\<lparr>flags := flags s @ [False]\<rparr>))"
proof -
  let ?s = "set_client c cl (s\<lparr>flags := flags s @ [False]\<rparr>)"
  have en: "entry (s\<lparr>flags := fs\<rparr>) = entry s" for fs by (simp add: entry_def fun_eq_iff)
  have sub: "flag_at ?s k = Some a \<Longrightarrow> (if k = (c, i) then a = length (flags s) else flag_at s k = Some a)" for k a
  proof (cases k)
    case (Pair d j)
    assume "flag_at ?s k = Some a"
    then show ?thesis
      using same [of j] new Pair
      by (cases "d = c"; cases "j = i") (auto simp: flag_at_apply entry_set en bind_eq_Some_conv)
  qed
  show ?thesis
  proof (rule scheduler_okI)
    show "entry ?s d j = Some st \<Longrightarrow> flag st \<noteq> None" for d j st
      using scheduler_okD(3) [OF ok] same [of j st] new [of st]
      by (cases "j = i") (fastforce simp: entry_set en split: if_splits)+
    show "flag_at ?s k = Some a \<Longrightarrow> a < length (flags ?s)" for k a
      using sub [of k a] scheduler_okD(4) [OF ok, of k a] by (auto split: if_splits)
    show "flag_at ?s k = Some a \<Longrightarrow> flag_at ?s l = Some a \<Longrightarrow> k = l" for k l a
      using sub [of k a] sub [of l a] scheduler_okD(4) [OF ok, of k a] scheduler_okD(4) [OF ok, of l a]
        scheduler_okD(5) [OF ok, of k a l] by (auto split: if_splits)
  qed (use cl scheduler_okD(1,2) [OF ok] in \<open>simp_all add: client_of_set\<close>)
qed

lemma set_flag_ok: "scheduler_ok s \<Longrightarrow> scheduler_ok (set_flag a s)"
  by (simp add: scheduler_ok_def)

lemma client_okD: "scheduler_ok s \<Longrightarrow> client_ok (client_of s c)"
  by (simp add: scheduler_ok_def)

lemma same_entries: "map_of (cancel_states (client_of s c)) i = Some st \<Longrightarrow>
    \<exists>old. entry s c i = Some old \<and> flag st = flag old"
  by (simp add: entry_def)

lemma RegisterClient_ok: "scheduler_ok s \<Longrightarrow> scheduler_ok (RegisterClient c s)"
  by (auto simp: RegisterClient_def Let_def same_entries client_okD intro!: set_client_ok)

lemma erase_client:
  assumes "scheduler_ok s"
  shows "scheduler_ok (s\<lparr>client_states := map_erase c (client_states s)\<rparr>)"
proof -
  let ?s = "s\<lparr>client_states := map_erase c (client_states s)\<rparr>"
  have co: "client_of ?s d = (if d = c then new_client_state else client_of s d)" for d
    by (simp add: client_of_def map_of_erase)
  have en: "entry ?s d i = (if d = c then None else entry s d i)" for d i
    by (simp add: entry_def co new_client_state_def)
  have sub: "flag_at ?s k = Some a \<Longrightarrow> flag_at s k = Some a" for k a
    by (cases k) (auto simp: flag_at_apply en split: if_splits)
  show ?thesis
  proof (rule scheduler_okI)
    show "entry ?s d i = Some st \<Longrightarrow> flag st \<noteq> None" for d i st
      using scheduler_okD(3) [OF assms] by (auto simp: en split: if_splits)
    show "flag_at ?s k = Some a \<Longrightarrow> a < length (flags ?s)" for k a
      using sub [of k a] scheduler_okD(4) [OF assms, of k a] by simp
    show "flag_at ?s k = Some a \<Longrightarrow> flag_at ?s l = Some a \<Longrightarrow> k = l" for k l a
      using sub scheduler_okD(5) [OF assms] by blast
  qed (use scheduler_okD(1,2) [OF assms] in \<open>simp_all add: co map_wf_erase\<close>)
qed

lemma UnregisterClient_ok:
  assumes "scheduler_ok s"
  shows "scheduler_ok (UnregisterClient c s)"
proof (cases "map_of (client_states s) c")
  case None
  then show ?thesis using assms by (simp add: UnregisterClient_def)
next
  case (Some cl)
  then have co: "client_of s c = cl" by (simp add: client_of_def)
  have "scheduler_ok (set_client c (cl\<lparr>active_connections := n\<rparr>) s)" "scheduler_ok (set_client c cl s)" for n
    using client_okD [OF assms, of c] same_entries [of s c]
    by (auto simp: co intro!: set_client_ok [OF assms])
  then show ?thesis
    using assms Some erase_client by (auto simp: UnregisterClient_def Let_def)
qed

lemma Cancel_ok:
  assumes "scheduler_ok s"
  shows "scheduler_ok (scheduler_Cancel c i s)"
proof -
  let ?cl = "client_of s c"
  have keep: "scheduler_ok (set_client c ?cl s)"
    using set_client_ok [OF assms client_okD [OF assms]] same_entries by blast
  have cok: "client_ok ?cl" using client_okD [OF assms] .
  have fresh: "scheduler_ok (set_client c
      (?cl\<lparr>cancel_states := map_emplace i \<lparr>flag = Some (length (flags s)), active_count = 0\<rparr> (cancel_states ?cl)\<rparr>)
      (s\<lparr>flags := flags s @ [False]\<rparr>))"
    if n: "map_of (cancel_states ?cl) i = None" and l: "length (cancel_states ?cl) < kMaxPendingRequestsPerClient"
    using cok n l total_active_assign_new [OF n] same_entries [of s c]
    by (intro fresh_client_ok [OF assms, where i = i])
      (auto simp: emplace_new client_ok_def map_wf_assign map_of_assign split: if_splits)
  show ?thesis
    using keep fresh
    by (auto simp: scheduler_Cancel_def Let_def make_flag_def set_flag_ok not_le split: option.splits)
qed

text \<open>The client after the pruning that \<open>TrackCancellation\<close> does when its table is full.\<close>

definition track_client :: "string \<Rightarrow> nat \<Rightarrow> scheduler \<Rightarrow> client_state" where
  "track_client c i s =
     (let cl = client_of s c in
      if map_of (cancel_states cl) i = None \<and> length (cancel_states cl) \<ge> kMaxPendingRequestsPerClient
      then PruneInactiveBeforeLocked cl (2 ^ 64 - 1) else cl)"

lemma track_client_ok: "scheduler_ok s \<Longrightarrow> client_ok (track_client c i s)"
  by (simp add: track_client_def Let_def Prune_ok client_okD)

lemma track_client_pending [simp]: "pending_requests (track_client c i s) = pending_requests (client_of s c)"
  by (simp add: track_client_def Let_def)

lemma track_client_lookup:
  assumes "scheduler_ok s" "map_of (cancel_states (track_client c i s)) j = Some st"
  shows "entry s c j = Some st"
proof -
  have "map_wf (cancel_states (client_of s c))" using client_okD [OF assms(1)] by (simp add: client_ok_def)
  then show ?thesis
    using assms(2) Prune_lookup by (auto simp: track_client_def Let_def entry_def split: if_splits)
qed

lemma track_client_same:
  "map_of (cancel_states (client_of s c)) i = Some st \<Longrightarrow> track_client c i s = client_of s c"
  by (simp add: track_client_def Let_def)

lemma TrackCancellation_unfold:
  "TrackCancellation c i s =
     (let cl = client_of s c; cl1 = track_client c i s in
      if pending_requests cl \<ge> kMaxPendingRequestsPerClient then (None, set_client c cl s)
      else if map_of (cancel_states cl) i = None \<and> length (cancel_states cl1) \<ge> kMaxPendingRequestsPerClient
      then (None, set_client c cl1 s)
      else case map_of (cancel_states cl1) i of
          None \<Rightarrow>
            (Some (length (flags s)),
             set_client c (cl1\<lparr>cancel_states := map_assign i
                 \<lparr>flag = Some (length (flags s)), active_count = 1\<rparr> (cancel_states cl1),
               pending_requests := pending_requests cl1 + 1\<rparr>) (s\<lparr>flags := flags s @ [False]\<rparr>))
        | Some st \<Rightarrow>
            (let (a, s1) = (case flag st of None \<Rightarrow> make_flag s | Some a \<Rightarrow> (a, s)) in
             (Some a, set_client c (cl1\<lparr>cancel_states := map_assign i
                 (st\<lparr>flag := Some a, active_count := active_count st + 1\<rparr>) (cancel_states cl1),
               pending_requests := pending_requests cl1 + 1\<rparr>) s1)))"
  unfolding TrackCancellation_def track_client_def [symmetric] Let_def
  by (simp add: new_cancel_state_def make_flag_def track_client_def Let_def split: option.splits)

lemma track_client_None:
  assumes "scheduler_ok s"
  shows "map_of (cancel_states (track_client c i s)) i = None \<longleftrightarrow> map_of (cancel_states (client_of s c)) i = None"
  using track_client_same [of s c i] track_client_lookup [OF assms, of c i i]
  by (cases "map_of (cancel_states (client_of s c)) i";
      cases "map_of (cancel_states (track_client c i s)) i") (auto simp: entry_def)

lemma track_grow_ok:
  assumes "client_ok cl" "pending_requests cl < kMaxPendingRequestsPerClient"
    and "map_of (cancel_states cl) i = None \<Longrightarrow> length (cancel_states cl) < kMaxPendingRequestsPerClient"
    and "active_count st = Suc (case map_of (cancel_states cl) i of None \<Rightarrow> 0 | Some old \<Rightarrow> active_count old)"
  shows "client_ok (cl\<lparr>cancel_states := map_assign i st (cancel_states cl),
    pending_requests := pending_requests cl + 1\<rparr>)"
proof (cases "map_of (cancel_states cl) i")
  case None
  then show ?thesis
    using assms total_active_assign_new [OF None, of st] by (simp add: client_ok_def map_wf_assign)
next
  case (Some old)
  then show ?thesis
    using assms total_active_assign_old [of "cancel_states cl" i old st]
    by (auto simp: client_ok_def map_wf_assign)
qed

lemma TrackCancellation_ok:
  assumes ok: "scheduler_ok s"
  shows "scheduler_ok (snd (TrackCancellation c i s))"
proof -
  let ?cl = "client_of s c" and ?cl1 = "track_client c i s"
  have c1: "client_ok ?cl1" using track_client_ok [OF ok] .
  have same: "map_of (cancel_states ?cl1) j = Some st \<Longrightarrow> \<exists>old. entry s c j = Some old \<and> flag st = flag old" for j st
    using track_client_lookup [OF ok] by blast
  have keep: "scheduler_ok (set_client c ?cl1 s)" "scheduler_ok (set_client c ?cl s)"
    using set_client_ok [OF ok c1] set_client_ok [OF ok client_okD [OF ok]] same same_entries by blast+
  consider (full) "pending_requests ?cl \<ge> kMaxPendingRequestsPerClient"
    | (many) "pending_requests ?cl < kMaxPendingRequestsPerClient" "map_of (cancel_states ?cl) i = None"
        "length (cancel_states ?cl1) \<ge> kMaxPendingRequestsPerClient"
    | (new) "pending_requests ?cl < kMaxPendingRequestsPerClient" "map_of (cancel_states ?cl1) i = None"
        "length (cancel_states ?cl1) < kMaxPendingRequestsPerClient"
    | (old) st a where "pending_requests ?cl < kMaxPendingRequestsPerClient"
        "map_of (cancel_states ?cl1) i = Some st" "flag st = Some a"
    using track_client_None [OF ok, of c i] scheduler_okD(3) [OF ok] track_client_lookup [OF ok, of c i i]
    by (metis not_le option.exhaust)
  then show ?thesis
  proof cases
    case full
    then show ?thesis using keep by (simp add: TrackCancellation_unfold)
  next
    case many
    then show ?thesis using keep by (simp add: TrackCancellation_unfold Let_def)
  next
    case new
    have "scheduler_ok (set_client c (?cl1\<lparr>cancel_states := map_assign i
        \<lparr>flag = Some (length (flags s)), active_count = 1\<rparr> (cancel_states ?cl1),
        pending_requests := pending_requests ?cl1 + 1\<rparr>) (s\<lparr>flags := flags s @ [False]\<rparr>))"
      by (rule fresh_client_ok [OF ok track_grow_ok [OF c1], where i = i])
        (use new same in \<open>auto simp: map_of_assign\<close>)
    then show ?thesis using new track_client_None [OF ok, of c i] by (simp add: TrackCancellation_unfold Let_def)
  next
    case old
    have n: "map_of (cancel_states ?cl) i \<noteq> None" using old(2) track_client_None [OF ok, of c i] by auto
    have "scheduler_ok (set_client c (?cl1\<lparr>cancel_states := map_assign i
        (st\<lparr>flag := Some a, active_count := active_count st + 1\<rparr>) (cancel_states ?cl1),
        pending_requests := pending_requests ?cl1 + 1\<rparr>) s)"
      by (rule set_client_ok [OF ok track_grow_ok [OF c1]])
        (use old same [of i st] same in \<open>auto simp: map_of_assign split: if_splits\<close>)
    then show ?thesis using old n by (auto simp: TrackCancellation_unfold Let_def)
  qed
qed

lemma CompleteRequest_ok:
  assumes ok: "scheduler_ok s"
  shows "scheduler_ok (CompleteRequest c i s)"
proof (cases "map_of (client_states s) c")
  case None
  then show ?thesis using ok by (simp add: CompleteRequest_def)
next
  case (Some cl)
  then have co: "client_of s c = cl" by (simp add: client_of_def)
  have cl: "client_ok cl" using client_okD [OF ok, of c] co by simp
  show ?thesis
  proof (cases "map_of (cancel_states cl) i")
    case None
    then show ?thesis using ok Some by (simp add: CompleteRequest_def)
  next
    case st: (Some st)
    let ?n = "if active_count st > 0 then pending_requests cl - 1 else pending_requests cl"
    have wf: "map_wf (cancel_states cl)" using cl by (simp add: client_ok_def)
    have le: "active_count st \<le> pending_requests cl"
      using active_le_total [OF st] cl by (simp add: client_ok_def)
    have "client_ok (cl\<lparr>pending_requests := ?n, cancel_states := map_erase i (cancel_states cl)\<rparr>)"
      if "active_count st \<le> 1"
      using that cl le total_active_erase [OF wf st] by (auto simp: client_ok_def map_wf_erase)
    moreover have "client_ok (cl\<lparr>pending_requests := pending_requests cl - 1, cancel_states :=
        map_assign i (st\<lparr>active_count := active_count st - 1\<rparr>) (cancel_states cl)\<rparr>)" if "active_count st > 1"
      using that cl le total_active_assign_old [OF wf st, of "st\<lparr>active_count := active_count st - 1\<rparr>"]
      by (auto simp: client_ok_def map_wf_assign)
    moreover have same: "map_of (cancel_states cl) j = Some st' \<Longrightarrow> \<exists>old. entry s c j = Some old \<and> flag st' = flag old" for j st'
      using same_entries [of s c] co by simp
    ultimately have
      "active_count st \<le> 1 \<Longrightarrow> scheduler_ok (set_client c
         (cl\<lparr>pending_requests := ?n, cancel_states := map_erase i (cancel_states cl)\<rparr>) s)"
      "active_count st > 1 \<Longrightarrow> scheduler_ok (set_client c (cl\<lparr>pending_requests := pending_requests cl - 1,
         cancel_states := map_assign i (st\<lparr>active_count := active_count st - 1\<rparr>) (cancel_states cl)\<rparr>) s)"
      using st by (auto simp: map_of_erase map_of_assign intro!: set_client_ok [OF ok] split: if_splits)
    then show ?thesis
      using Some st by (cases "active_count st = 0") (auto simp: CompleteRequest_def Let_def)
  qed
qed

lemma MarkLatest_ok:
  assumes ok: "scheduler_ok s"
  shows "scheduler_ok (MarkLatest c i s)"
proof -
  let ?cl = "(client_of s c)\<lparr>latest := i\<rparr>"
  have cl: "client_ok ?cl" using client_okD [OF ok] by simp
  then have wf: "map_wf (cancel_states ?cl)" by (simp add: client_ok_def)
  show ?thesis
    unfolding MarkLatest_def
    by (rule set_client_ok [OF ok Prune_ok [OF cl]]) (simp add: Prune_lookup [OF wf] entry_def)
qed

lemma step_ok: "scheduler_ok s \<Longrightarrow> scheduler_ok (scheduler_step s op)"
proof (cases op)
  case OpNextId
  have en: "entry (s\<lparr>request_id := r\<rparr>) = entry s" "flag_at (s\<lparr>request_id := r\<rparr>) = flag_at s" for r
    by (simp_all add: entry_def flag_at_def fun_eq_iff)
  assume "scheduler_ok s"
  then show ?thesis using OpNextId by (simp add: NextRequestId_def scheduler_ok_def en)
qed (simp_all add: RegisterClient_ok UnregisterClient_ok Cancel_ok TrackCancellation_ok CompleteRequest_ok MarkLatest_ok)

interpretation scheduler: event_system "\<lambda>s. s = new_scheduler" scheduler_step scheduler_ok
proof unfold_locales
  have co: "client_of new_scheduler c = new_client_state" for c by (simp add: client_of_def new_scheduler_def)
  have en: "entry new_scheduler c i = None" for c i by (simp add: entry_def co new_client_state_def)
  show "s = new_scheduler \<Longrightarrow> scheduler_ok s" for s
    by (auto simp: scheduler_ok_def co en flag_at_def) (simp add: new_scheduler_def map_wf_def)
qed (rule step_ok)

section \<open>Other clients\<close>

lemma entry_flags [simp]: "entry (s\<lparr>flags := fs\<rparr>) = entry s"
  by (simp add: entry_def fun_eq_iff)

lemma entry_erase:
  "entry (s\<lparr>client_states := map_erase d (client_states s)\<rparr>) c i = (if c = d then None else entry s c i)"
  by (simp add: entry_def client_of_def map_of_erase new_client_state_def)

fun op_client :: "scheduler_op \<Rightarrow> string option" where
  "op_client OpNextId = None"
| "op_client (OpRegister c) = Some c"
| "op_client (OpUnregister c) = Some c"
| "op_client (OpCancel c i) = Some c"
| "op_client (OpTrack c i) = Some c"
| "op_client (OpComplete c i) = Some c"
| "op_client (OpMarkLatest c i) = Some c"

text \<open>An operation leaves the entries of the other clients alone.\<close>

lemma step_frame: "op_client op \<noteq> Some c \<Longrightarrow> entry (scheduler_step s op) c i = entry s c i \<and>
    map_of (client_states (scheduler_step s op)) c = map_of (client_states s) c"
proof (cases op)
  case OpNextId
  then show ?thesis by (simp add: NextRequestId_def entry_def)
next
  case (OpTrack d j)
  assume "op_client op \<noteq> Some c"
  then have "c \<noteq> d" using OpTrack by auto
  then show ?thesis
    using OpTrack
    by (auto simp: TrackCancellation_def Let_def entry_set make_flag_def set_client_def map_of_assign
        split: option.splits prod.splits) (simp_all add: entry_def client_of_def map_of_assign)
qed (auto simp: RegisterClient_def UnregisterClient_def scheduler_Cancel_def CompleteRequest_def MarkLatest_def
    make_flag_def Let_def entry_set entry_erase set_client_def map_of_assign map_of_erase entry_def client_of_def
    split: option.splits)

text \<open>No operation lowers a flag, and only \<open>Cancel\<close> raises one: the flag of its request.\<close>

lemma step_flags:
  assumes "scheduler_ok s" "a < length (flags s)" "\<And>c i. op = OpCancel c i \<Longrightarrow> flag_at s (c, i) \<noteq> Some a"
  shows "flags (scheduler_step s op) ! a = flags s ! a"
proof (cases op)
  case (OpCancel c i)
  have "flag_at s (c, i) \<noteq> Some a" using assms(3) OpCancel by blast
  then show ?thesis
    using OpCancel assms(2)
    by (auto simp: scheduler_Cancel_def Let_def make_flag_def set_flag_def flag_at_apply entry_def
        nth_append split: option.splits)
next
  case (OpTrack c i)
  then show ?thesis
    using assms(2)
    by (auto simp: TrackCancellation_def Let_def make_flag_def nth_append split: option.splits)
qed (auto simp: NextRequestId_def RegisterClient_def UnregisterClient_def CompleteRequest_def MarkLatest_def Let_def
    split: option.splits)

lemma IsCanceled_flag: "IsCanceled c i s = (case flag_at s (c, i) of None \<Rightarrow> False | Some a \<Rightarrow> flags s ! a)"
  by (simp add: IsCanceled_def flag_at_apply entry_def client_of_def new_client_state_def split: option.splits)

section \<open>Active requests\<close>

definition tracked :: "scheduler \<Rightarrow> string \<Rightarrow> nat \<Rightarrow> address \<Rightarrow> bool" where
  "tracked s c i a \<longleftrightarrow> (case entry s c i of None \<Rightarrow> False
     | Some st \<Rightarrow> flag st = Some a \<and> 0 < active_count st)"

definition releases :: "string \<Rightarrow> nat \<Rightarrow> scheduler_op \<Rightarrow> bool" where
  "releases c i op \<longleftrightarrow> op = OpUnregister c \<or> op = OpComplete c i"

lemma tracked_track:
  assumes ok: "scheduler_ok s" and t: "tracked s c i a"
  shows "tracked (snd (TrackCancellation c j s)) c i a"
proof -
  obtain st where e: "map_of (cancel_states (client_of s c)) i = Some st" "flag st = Some a" "0 < active_count st"
    using t by (auto simp: tracked_def entry_def split: option.splits)
  have wf: "map_wf (cancel_states (client_of s c))" using client_okD [OF ok] by (simp add: client_ok_def)
  have k: "map_of (cancel_states (track_client c j s)) i = Some st"
    using e Prune_lookup [OF wf] by (simp add: track_client_def Let_def)
  show ?thesis
    using e k
    by (auto simp: TrackCancellation_unfold Let_def tracked_def entry_set map_of_assign make_flag_def
        split: option.splits)
qed

lemma tracked_step:
  assumes ok: "scheduler_ok s" and t: "tracked s c i a" and r: "\<not> releases c i op"
  shows "tracked (scheduler_step s op) c i a"
proof (cases "op_client op = Some c")
  case False
  then show ?thesis using step_frame t by (simp add: tracked_def)
next
  case True
  obtain st where e: "map_of (cancel_states (client_of s c)) i = Some st" "flag st = Some a" "0 < active_count st"
    using t by (auto simp: tracked_def entry_def split: option.splits)
  have wf: "map_wf (cancel_states (client_of s c))" using client_okD [OF ok] by (simp add: client_ok_def)
  show ?thesis
  proof (cases op)
    case (OpTrack d j)
    then show ?thesis using True tracked_track [OF ok t] by simp
  next
    case (OpComplete d j)
    then have "d = c" "j \<noteq> i" using True r by (auto simp: releases_def)
    then show ?thesis
      using OpComplete e t
      by (auto simp: CompleteRequest_def Let_def tracked_def entry_set map_of_assign map_of_erase
          client_of_def split: option.splits)
  next
    case (OpMarkLatest d j)
    then have "d = c" using True by simp
    then show ?thesis
      using OpMarkLatest e Prune_lookup [of "(client_of s c)\<lparr>latest := j\<rparr>" j i st] wf
      by (simp add: MarkLatest_def tracked_def entry_set)
  next
    case (OpCancel d j)
    then have "d = c" using True by simp
    then show ?thesis
      using OpCancel e wf
      by (auto simp: scheduler_Cancel_def Let_def tracked_def entry_set make_flag_def emplace_new map_of_assign
          split: option.splits)
  next
    case (OpRegister d)
    then show ?thesis using True e by (auto simp: RegisterClient_def Let_def tracked_def entry_def client_of_set)
  qed (use True r in \<open>auto simp: releases_def\<close>)
qed

section \<open>Properties of the scheduler\<close>

text \<open>C20: After any sequence of calls, by any clients and in any order, every client has at most 64
  pending requests and at most 64 cancellation entries, the number of pending requests is the sum
  of the active counts of its entries, and every entry has a flag of its own.\<close>

theorem scheduler_invariant:
  "scheduler_ok (foldl scheduler_step new_scheduler ops)"
  by (rule scheduler.run_from_start) simp

text \<open>C2: A cancellation reaches the running request: once a request was accepted with a flag, and
  as long as neither it completes nor its client disconnects, whatever else happens, cancelling it
  raises that very flag.\<close>

theorem Cancel_reaches_request:
  assumes "scheduler_ok s" "TrackCancellation c i s = (Some a, s1)"
    and "list_all (\<lambda>op. \<not> releases c i op) ops"
  shows "flags (scheduler_Cancel c i (foldl scheduler_step s1 ops)) ! a"
proof -
  have ok1: "scheduler_ok s1" using TrackCancellation_ok [OF assms(1), of c i] assms(2) by simp
  have t1: "tracked s1 c i a"
    using assms(2)
    by (auto simp: TrackCancellation_unfold Let_def tracked_def entry_set map_of_assign make_flag_def
        split: if_splits option.splits prod.splits)
  have "scheduler_ok (foldl scheduler_step s1 ops) \<and> tracked (foldl scheduler_step s1 ops) c i a"
    using ok1 t1 assms(3)
    by (induction ops arbitrary: s1) (simp_all add: step_ok tracked_step)
  then have ok: "scheduler_ok (foldl scheduler_step s1 ops)" and t: "tracked (foldl scheduler_step s1 ops) c i a"
    by blast+
  have "a < length (flags (foldl scheduler_step s1 ops))"
    using t scheduler_okD(4) [OF ok, of "(c, i)" a] by (auto simp: tracked_def flag_at_apply split: option.splits)
  then show ?thesis
    using t by (auto simp: scheduler_Cancel_def Let_def tracked_def entry_def set_flag_def split: option.splits)
qed

theorem Cancel_reaches_request_witness:
  "flags (scheduler_Cancel ''a'' 7 (foldl scheduler_step (snd (TrackCancellation ''a'' 7 new_scheduler))
     [OpCancel ''b'' 7, OpTrack ''a'' 8, OpMarkLatest ''a'' 9])) ! 0"
proof (rule Cancel_reaches_request [of new_scheduler])
  show "scheduler_ok new_scheduler" by (rule scheduler.start_inv) simp
  show "TrackCancellation ''a'' 7 new_scheduler = (Some 0, snd (TrackCancellation ''a'' 7 new_scheduler))"
    by (simp add: TrackCancellation_def new_scheduler_def client_of_def new_client_state_def Let_def
        kMaxPendingRequestsPerClient_def new_cancel_state_def make_flag_def)
qed (simp add: releases_def)

text \<open>Clients are isolated: a call for one client never changes whether a request of another
  client is cancelled, nor which of its requests is the latest.\<close>

theorem clients_isolated:
  assumes "scheduler_ok s" "op_client op \<noteq> Some c"
  shows "IsCanceled c i (scheduler_step s op) = IsCanceled c i s \<and>
    IsLatest c i (scheduler_step s op) = IsLatest c i s"
proof -
  have f: "flag_at (scheduler_step s op) (c, i) = flag_at s (c, i)"
    using step_frame [OF assms(2)] by (simp add: flag_at_apply)
  have "flag_at s (c, i) = Some a \<Longrightarrow> flags (scheduler_step s op) ! a = flags s ! a" for a
  proof (rule step_flags [OF assms(1)])
    assume a: "flag_at s (c, i) = Some a"
    then show "a < length (flags s)" using scheduler_okD(4) [OF assms(1)] by blast
    show "flag_at s (d, j) \<noteq> Some a" if "op = OpCancel d j" for d j
      using a that assms(2) scheduler_okD(5) [OF assms(1) a, of "(d, j)"] by auto
  qed
  then show ?thesis
    using f step_frame [OF assms(2), of s] by (auto simp: IsCanceled_flag IsLatest_def split: option.splits)
qed

theorem clients_isolated_witness:
  "\<not> IsCanceled ''a'' 7 (scheduler_step new_scheduler (OpCancel ''b'' 7))"
  using clients_isolated [of new_scheduler "OpCancel ''b'' 7" "''a''" 7] scheduler.start_inv [of new_scheduler]
  by (simp add: IsCanceled_def new_scheduler_def)

end
