(* ===== verification/HostSession.thy ===== *)
theory HostSession
  imports RequestScheduler PayloadContract Privacy
begin

unbundle bit_operations_syntax

text \<open>
  The front of the host (\<open>inference-host/src/Dispatcher.cpp\<close>): one dispatcher per connection decides
  which requests are served, registers the client with the scheduler that all connections share, and
  lets an observation through to the learning engine only with the consent of every side.
  The engine and the settings store behind the dispatcher are a state of their own that the
  dispatcher reaches only through the calls in the record \<open>engine_calls\<close>. The requests whose handlers
  do more than ask the engine and answer are collected in its last field.
\<close>

section \<open>State\<close>

text \<open>The members of \<open>DispatcherConfig\<close> that the modelled handlers read.\<close>

record DispatcherConfig =
  cfg_host_version :: string
  cfg_protocol_version :: int
  cfg_host_generation_id :: string
  cfg_handshake_token :: string
  cfg_runtime_tier :: string
  cfg_catalog_fetch :: bool

record dispatcher =
  config_of :: DispatcherConfig
  authenticated :: bool
  client_supports_secure_flag :: bool
  session_client :: string

definition new_dispatcher :: "DispatcherConfig \<Rightarrow> dispatcher" where
  "new_dispatcher cfg = \<lparr>config_of = cfg, authenticated = False, client_supports_secure_flag = False, session_client = []\<rparr>"

text \<open>The settings the handshake reports.\<close>

record reported_settings =
  set_batch_romaji_conversion :: bool
  set_batch_romaji_preview_style :: string
  set_batch_conversion_mode :: string
  set_batch_auto_punctuation :: bool
  set_number_rewriter :: bool
  set_katakana_rewriter :: bool
  set_symbol_rewriter :: bool
  set_emoji_rewriter :: bool
  set_emoji_trigger_search :: bool
  set_emoji_max_candidates :: "32 word"
  set_emoji_trigger_min_query_length :: "32 word"
  set_max_candidates :: "32 word"

text \<open>
  The calls into \<open>InferenceEngine\<close> and \<open>SettingsStore\<close>; \<open>settings_in_force\<close> and \<open>privacy_in_force\<close> are
  \<^term>\<open>None\<close> without a settings store. The time is the one of the call.
\<close>

record 'e engine_calls =
  model_loaded :: "'e \<Rightarrow> bool"
  settings_in_force :: "'e \<Rightarrow> reported_settings option"
  privacy_in_force :: "'e \<Rightarrow> PrivacyPolicy option"
  engine_CommitEnglishObservation :: "string \<Rightarrow> string \<Rightarrow> 64 word \<Rightarrow> string \<Rightarrow> 'e \<Rightarrow> 'e"
  engine_CommitObservation :: "string \<Rightarrow> string \<Rightarrow> 64 word \<Rightarrow> string \<Rightarrow> string \<Rightarrow> string \<Rightarrow> 'e \<Rightarrow> bool \<times> 'e"
  engine_RecordRejectedEnglish :: "CandidateField list \<Rightarrow> string \<Rightarrow> 64 word \<Rightarrow> 'e \<Rightarrow> 'e"
  engine_CommitSegmentsObservation :: "CommitSegmentsObservationRequest \<Rightarrow> 64 word \<Rightarrow> 'e \<Rightarrow> 'e"
  engine_CommitCorrection :: "string \<Rightarrow> string \<Rightarrow> string option \<Rightarrow> 64 word \<Rightarrow> string \<Rightarrow> string \<Rightarrow> string \<Rightarrow> 'e \<Rightarrow> 'e"
  engine_ObserveTypo :: "string \<Rightarrow> string \<Rightarrow> 64 word \<Rightarrow> 'e \<Rightarrow> 'e"
  engine_ReverseConvert :: "string \<Rightarrow> 64 word \<Rightarrow> 'e \<Rightarrow> string"
  other_requests :: "Envelope \<Rightarrow> dispatcher \<Rightarrow> scheduler \<times> 'e \<Rightarrow> Envelope option \<times> scheduler \<times> 'e"

record 'e host =
  disp :: dispatcher
  sched :: scheduler
  engine :: 'e

section \<open>Helpers\<close>

definition MakeResponse :: "Envelope \<Rightarrow> string \<Rightarrow> Envelope" where
  "MakeResponse req payload = \<lparr>version = version req, request_id = Envelope.request_id req, trace_id = trace_id req,
     type = type req, payload_json = payload\<rparr>"

text \<open>\<open>difference\<close> after the byte at each index; a byte outside a text counts as zero.\<close>

definition byte_or_zero :: "string \<Rightarrow> nat \<Rightarrow> nat" where
  "byte_or_zero s i = (if i < length s then ord (s ! i) else 0)"

definition ConstantTimeEquals :: "string \<Rightarrow> string \<Rightarrow> bool" where
  "ConstantTimeEquals left right =
     (foldl (\<lambda>difference i. difference OR (byte_or_zero left i XOR byte_or_zero right i))
        (length left XOR length right) [0..<max (length left) (length right)] = 0)"

definition IsPrintableAsciiWord :: "string \<Rightarrow> bool" where
  "IsPrintableAsciiWord v \<longleftrightarrow> v \<noteq> [] \<and> list_all (\<lambda>c. 0x20 < ord c \<and> ord c < 0x7f) v"

definition IsEnglishObservation :: "string \<Rightarrow> nat \<Rightarrow> bool" where
  "IsEnglishObservation reading tag \<longleftrightarrow> tag = 4 \<and> IsPrintableAsciiWord reading"

definition RequiresAuthenticatedSession :: "dispatcher \<Rightarrow> bool" where
  "RequiresAuthenticatedSession d \<longleftrightarrow> cfg_handshake_token (config_of d) \<noteq> [] \<and> \<not> authenticated d"

definition LearningAllowed :: "dispatcher \<Rightarrow> bool \<Rightarrow> bool \<Rightarrow> bool \<Rightarrow> bool" where
  "LearningAllowed d in_secret learning blocked \<longleftrightarrow>
     client_supports_secure_flag d \<and> \<not> in_secret \<and> learning \<and> \<not> blocked"

text \<open>\<open>privacy && (privacy->policy.secure || !privacy->policy.learning_allowed)\<close>\<close>

definition host_learning_blocked :: "'e engine_calls \<Rightarrow> 'e \<Rightarrow> bool" where
  "host_learning_blocked calls e =
     (case privacy_in_force calls e of None \<Rightarrow> False | Some p \<Rightarrow> pp_secure p \<or> \<not> pp_learning_allowed p)"

definition SetClientId :: "string \<Rightarrow> dispatcher \<Rightarrow> scheduler \<Rightarrow> dispatcher \<times> scheduler" where
  "SetClientId c d s =
     (if c = session_client d then (d, s)
      else let s1 = (if session_client d \<noteq> [] then UnregisterClient (session_client d) s else s)
           in (d\<lparr>session_client := c\<rparr>, if c \<noteq> [] then RegisterClient c s1 else s1))"

section \<open>The handshake\<close>

definition host_capabilities :: "string list" where
  "host_capabilities = [''oob_cancel'', ''commit_segments'', ''query_live_conversion'', ''query_predictions'', ''app_profile'',
     ''candidate_tag'', ''list_models'', ''benchmark_model'', ''english_candidates'', ''learning_data_management'',
     ''commit_correction'', ''learning_reset'', ''persona'', ''detect_anomalies'', ''mixed_english'']"

definition default_handshake_response :: HandshakeResponse where
  "default_handshake_response = \<lparr>host_version = [], response_protocol = kHandshakeProtocolVersion, accepted = False,
     response_model_loaded = False, host_generation_id = [], response_capabilities = [], batch_romaji_conversion = False,
     batch_romaji_preview_style = ''kana'', batch_conversion_mode = ''neural'', batch_auto_punctuation = False,
     number_rewriter = False, katakana_rewriter = False, response_max_candidates = 9, symbol_rewriter = False,
     emoji_rewriter = False, emoji_trigger_search = True, emoji_max_candidates = 12, emoji_trigger_min_query_length = 1\<rparr>"

definition with_settings :: "reported_settings option \<Rightarrow> HandshakeResponse \<Rightarrow> HandshakeResponse" where
  "with_settings settings res =
     (case settings of None \<Rightarrow> res
      | Some v \<Rightarrow> res\<lparr>batch_romaji_conversion := set_batch_romaji_conversion v,
          batch_romaji_preview_style := set_batch_romaji_preview_style v, batch_conversion_mode := set_batch_conversion_mode v,
          batch_auto_punctuation := set_batch_auto_punctuation v, number_rewriter := set_number_rewriter v,
          katakana_rewriter := set_katakana_rewriter v, symbol_rewriter := set_symbol_rewriter v,
          emoji_rewriter := set_emoji_rewriter v, emoji_trigger_search := set_emoji_trigger_search v,
          emoji_max_candidates := set_emoji_max_candidates v,
          emoji_trigger_min_query_length := set_emoji_trigger_min_query_length v,
          response_max_candidates := set_max_candidates v\<rparr>)"

definition handshake_accepted :: "DispatcherConfig \<Rightarrow> HandshakeRequest \<Rightarrow> bool" where
  "handshake_accepted cfg p =
     (let version_ok = (request_protocol p = cfg_protocol_version cfg);
          token_ok = (cfg_handshake_token cfg = [] \<or> ConstantTimeEquals (handshake_token p) (cfg_handshake_token cfg))
      in version_ok \<and> token_ok)"

definition HandleHandshake :: "'e engine_calls \<Rightarrow> Envelope \<Rightarrow> 'e host \<Rightarrow> Envelope option \<times> 'e host" where
  "HandleHandshake calls req h =
     (let d = (disp h)\<lparr>client_supports_secure_flag := False\<rparr>;
          cfg = config_of d;
          caps = host_capabilities @ (if cfg_catalog_fetch cfg then [''fetch_catalog_model'', ''cancel_catalog_fetch''] else []);
          res = default_handshake_response\<lparr>host_version := cfg_host_version cfg, response_protocol := cfg_protocol_version cfg,
                  host_generation_id := cfg_host_generation_id cfg, response_capabilities := caps\<rparr>;
          (ok, d1, s1) =
            (case ParseHandshakeRequest (payload_json req) of
               Some p \<Rightarrow>
                 (let ok = handshake_accepted cfg p;
                      d0 = d\<lparr>client_supports_secure_flag := (ok \<and> ''secure_flag'' \<in> set (request_capabilities p))\<rparr>
                  in (ok, SetClientId (if ok then client_id p else []) d0 (sched h)))
             | None \<Rightarrow> (False, SetClientId [] d (sched h)));
          res = with_settings (settings_in_force calls (engine h))
                  (res\<lparr>accepted := ok, response_model_loaded := model_loaded calls (engine h)\<rparr>)
      in (Some (MakeResponse req (BuildHandshakeResponse res)), h\<lparr>disp := d1\<lparr>authenticated := ok\<rparr>, sched := s1\<rparr>))"

section \<open>Before the handshake\<close>

text \<open>The default \<open>QueryPersonaResponse\<close>, \<open>QueryDiagnosticsPayload\<close>, \<open>BenchmarkModelResponse\<close> and
  \<open>CatalogFetchResponse\<close> with an error.\<close>

definition no_persona :: "string \<Rightarrow> QueryPersonaResponse" where
  "no_persona err = \<lparr>qp_ok = False, qp_error = Some err, polite_ratio = zero_double, casual_ratio = zero_double,
     technical_ratio = zero_double, kaomoji_ratio = zero_double, sample_count = 0, computed_at_epoch_sec = 0\<rparr>"

definition no_diagnostics :: "string \<Rightarrow> QueryDiagnosticsPayload" where
  "no_diagnostics tier = \<lparr>diag_model_loaded = False, loaded_model_path = None, diag_engine = tier, diag_backend = [], rss_mb = 0,
     diag_ep = None, ep_state = None, ep_last_error = None, learning_entries = 0, user_dict_entries = 0,
     fallback_state = ''healthy'', diag_last_error = Some ''not authenticated'', neologd_layer = None, backend_selection = None,
     prompt_format = None\<rparr>"

definition no_benchmark :: "string \<Rightarrow> BenchmarkModelResponse" where
  "no_benchmark err = \<lparr>br_backend = [], p50_ms = zero_double, p95_ms = zero_double, p99_ms = zero_double, load_ms = zero_double,
     br_rss_mb = zero_double, br_vram_mb = None, br_status = ''error'', iterations_completed = 0, br_error = Some err\<rparr>"

definition no_fetch :: "string \<Rightarrow> CatalogFetchResponse" where
  "no_fetch err = \<lparr>cf_ok = False, cf_error = Some err, cf_state = ''idle'', cf_model_id = [], received_bytes = 0, total_bytes = 0,
     cf_status = [], cf_path = [], result_error = []\<rparr>"

definition HandleUnauthenticated :: "DispatcherConfig \<Rightarrow> Envelope \<Rightarrow> Envelope option" where
  "HandleUnauthenticated cfg req =
     (let answer = (\<lambda>payload. Some (MakeResponse req payload)) in
      case type req of
        AddUserWord \<Rightarrow> answer (BuildAddUserWordResponse \<lparr>ar_ok = False, generated_id = None, ar_error = Some ''not_authenticated''\<rparr>)
      | RemoveUserWord \<Rightarrow> answer (BuildRemoveUserWordResponse \<lparr>rw_ok = False, rw_error = Some ''not_authenticated''\<rparr>)
      | UpdateConfig \<Rightarrow> answer (BuildUpdateConfigResponse \<lparr>uc_ok = False, uc_error = Some ''not authenticated''\<rparr>)
      | CommitSegmentsObservation \<Rightarrow> answer (BuildCommitObservationResponse \<lparr>cr_ok = False\<rparr>)
      | CommitObservation \<Rightarrow> answer (BuildCommitObservationResponse \<lparr>cr_ok = False\<rparr>)
      | CommitCorrection \<Rightarrow> answer (BuildCommitObservationResponse \<lparr>cr_ok = False\<rparr>)
      | ObserveTypo \<Rightarrow> None
      | ListNewWordCandidates \<Rightarrow> answer (BuildListNewWordCandidatesResponse
          \<lparr>nl_ok = False, nl_error = Some ''not_authenticated'', nl_items = []\<rparr>)
      | ResolveNewWord \<Rightarrow> answer (BuildResolveNewWordResponse \<lparr>rn_ok = False, rn_changed = False, rn_error = Some ''not_authenticated''\<rparr>)
      | LoadModel \<Rightarrow> answer (BuildLoadModelResponse \<lparr>load_ok = False, load_error = Some ''not authenticated''\<rparr>)
      | QueryCandidates \<Rightarrow> answer (BuildQueryCandidatesResponse \<lparr>qr_candidates = [], qr_segments = [], qr_partial = False, qr_ok = True,
          qr_error = None, qr_corrected_reading = []\<rparr>)
      | QueryLiveConversion \<Rightarrow> answer (BuildQueryLiveConversionResponse \<lparr>lr_surface = [], lr_confidence = zero_double, lr_segments = []\<rparr>)
      | QueryPredictions \<Rightarrow> answer (BuildQueryPredictionsResponse \<lparr>predictions = [], pr_ok = False, pr_error = Some ''not authenticated''\<rparr>)
      | QueryBatchConversion \<Rightarrow> answer (BuildQueryBatchConversionResponse \<lparr>br_segments = [],
          full_surface = (case ParseQueryBatchConversionRequest (payload_json req) of None \<Rightarrow> [] | Some p \<Rightarrow> qb_reading p),
          br_partial = False, canceled = False, error_class = None\<rparr>)
      | ReverseConvert \<Rightarrow> answer (BuildReverseConvertResponse \<lparr>rr_reading = [], rr_confidence = zero_double\<rparr>)
      | ListLearningEntries \<Rightarrow> answer (BuildListLearningEntriesResponse
          \<lparr>ler_ok = False, ler_error = Some ''not_authenticated'', ler_total = 0, ler_entries = []\<rparr>)
      | ForgetLearningEntry \<Rightarrow> answer (BuildForgetLearningEntryResponse \<lparr>fr_ok = False, fr_removed = False, fr_error = Some ''not_authenticated''\<rparr>)
      | ExportLearningData \<Rightarrow> answer (BuildExportLearningDataResponse
          \<lparr>xr_status = ''error'', xr_error = Some ''not_authenticated'', file_size_bytes = 0, xr_encrypted = True, xr_items = []\<rparr>)
      | ImportLearningData \<Rightarrow> answer (BuildImportLearningDataResponse
          \<lparr>ir_status = ''error'', ir_error = Some ''not_authenticated'', imported_counts = [], skipped_counts = [], conflict_counts = []\<rparr>)
      | ResetLearningStore \<Rightarrow> answer (BuildResetLearningStoreResponse \<lparr>rl_ok = False, rl_error = Some ''not_authenticated''\<rparr>)
      | QueryPersona \<Rightarrow> answer (BuildQueryPersonaResponse (no_persona ''not_authenticated''))
      | DetectAnomalies \<Rightarrow> answer (BuildDetectAnomaliesResponse \<lparr>dr_ok = False, dr_error = Some ''not_authenticated'', dr_findings = []\<rparr>)
      | ListModels \<Rightarrow> answer (BuildListModelsResponse \<lparr>lr_models = [], lr_ok = False, lr_error = Some ''not authenticated'', lr_catalog = None\<rparr>)
      | BenchmarkModel \<Rightarrow> answer (BuildBenchmarkModelResponse (no_benchmark ''not authenticated''))
      | FetchCatalogModel \<Rightarrow> answer (BuildCatalogFetchResponse (no_fetch ''not authenticated''))
      | QueryCatalogFetch \<Rightarrow> answer (BuildCatalogFetchResponse (no_fetch ''not authenticated''))
      | CancelCatalogFetch \<Rightarrow> answer (BuildCatalogFetchResponse (no_fetch ''not authenticated''))
      | Ping \<Rightarrow> answer (BuildPing \<lparr>nonce = 0, t_ms = 0\<rparr>)
      | Health \<Rightarrow> answer (BuildHealth \<lparr>health_status = ''error'', health_backend = [], health_model_loaded = False,
          health_vram_mb = None, health_last_error = Some ''not authenticated''\<rparr>)
      | QueryDiagnostics \<Rightarrow> answer (BuildQueryDiagnostics (no_diagnostics (cfg_runtime_tier cfg)))
      | _ \<Rightarrow> None)"

section \<open>Handlers\<close>

definition HandlePing :: "64 word \<Rightarrow> Envelope \<Rightarrow> Envelope option" where
  "HandlePing now_ms req =
     Some (MakeResponse req (BuildPing
       \<lparr>nonce = (case ParsePing (payload_json req) of None \<Rightarrow> 0 | Some p \<Rightarrow> nonce p), t_ms = now_ms\<rparr>))"

definition HandleReverseConvert :: "'e engine_calls \<Rightarrow> 64 word \<Rightarrow> Envelope \<Rightarrow> 'e host \<Rightarrow> Envelope option" where
  "HandleReverseConvert calls now req h =
     Some (MakeResponse req (BuildReverseConvertResponse
       (case ParseReverseConvertRequest (payload_json req) of
          None \<Rightarrow> \<lparr>rr_reading = [], rr_confidence = zero_double\<rparr>
        | Some p \<Rightarrow>
            let rd = engine_ReverseConvert calls (rc_surface p) now (engine h)
            in \<lparr>rr_reading = rd, rr_confidence = (if rd = [] then zero_double else double_lit 1)\<rparr>)))"

definition HandleCancel :: "Envelope \<Rightarrow> 'e host \<Rightarrow> 'e host" where
  "HandleCancel req h =
     (case ParseCancel (payload_json req) of
        None \<Rightarrow> h
      | Some p \<Rightarrow> h\<lparr>sched := scheduler_Cancel (session_client (disp h)) (unat (target_request_id p)) (sched h)\<rparr>)"

definition process_of :: "AppIdentity option \<Rightarrow> string" where
  "process_of app = (case app of None \<Rightarrow> [] | Some a \<Rightarrow> process_name a)"

definition HandleCommitObservation :: "'e engine_calls \<Rightarrow> 64 word \<Rightarrow> Envelope \<Rightarrow> 'e host \<Rightarrow> Envelope option \<times> 'e host" where
  "HandleCommitObservation calls now req h =
     (let reply = (\<lambda>ok. Some (MakeResponse req (BuildCommitObservationResponse \<lparr>cr_ok = ok\<rparr>))) in
      case ParseCommitObservationRequest (payload_json req) of
        None \<Rightarrow> (reply False, h)
      | Some p \<Rightarrow>
          if \<not> LearningAllowed (disp h) (co_secure p) (co_learning_allowed p) (host_learning_blocked calls (engine h))
          then (reply False, h)
          else
            let chosen = cand_surface (co_chosen p);
                e = (if IsEnglishObservation (co_reading p) (cand_tag (co_chosen p))
                     then engine_CommitEnglishObservation calls (co_reading p) chosen now (co_observation_id p) (engine h)
                     else
                       let (recorded, e1) = engine_CommitObservation calls (co_reading p) chosen now (co_observation_id p)
                             (process_of (co_app p)) (co_left_context p) (engine h)
                       in if recorded then engine_RecordRejectedEnglish calls (co_shown p) chosen now e1 else e1)
            in (reply True, h\<lparr>engine := e\<rparr>))"

definition HandleCommitSegments :: "'e engine_calls \<Rightarrow> 64 word \<Rightarrow> Envelope \<Rightarrow> 'e host \<Rightarrow> Envelope option \<times> 'e host" where
  "HandleCommitSegments calls now req h =
     (let reply = (\<lambda>ok. Some (MakeResponse req (BuildCommitObservationResponse \<lparr>cr_ok = ok\<rparr>))) in
      case ParseCommitSegmentsObservationRequest (payload_json req) of
        None \<Rightarrow> (reply False, h)
      | Some p \<Rightarrow>
          if LearningAllowed (disp h) (cs_secure p) (cs_learning_allowed p) (host_learning_blocked calls (engine h))
          then (reply True, h\<lparr>engine := engine_CommitSegmentsObservation calls p now (engine h)\<rparr>)
          else (reply False, h))"

definition HandleCommitCorrection :: "'e engine_calls \<Rightarrow> 64 word \<Rightarrow> Envelope \<Rightarrow> 'e host \<Rightarrow> Envelope option \<times> 'e host" where
  "HandleCommitCorrection calls now req h =
     (let reply = (\<lambda>ok. Some (MakeResponse req (BuildCommitObservationResponse \<lparr>cr_ok = ok\<rparr>))) in
      case ParseCommitCorrectionRequest (payload_json req) of
        None \<Rightarrow> (reply False, h)
      | Some p \<Rightarrow>
          if LearningAllowed (disp h) (cc_secure p) (cc_learning_allowed p) (host_learning_blocked calls (engine h))
          then (reply True, h\<lparr>engine := engine_CommitCorrection calls (cc_reading p) (rejected_surface p) (selected_surface p) now
                 (cc_observation_id p) (process_of (cc_app p)) (cc_left_context p) (engine h)\<rparr>)
          else (reply False, h))"

definition HandleObserveTypo :: "'e engine_calls \<Rightarrow> 64 word \<Rightarrow> Envelope \<Rightarrow> 'e host \<Rightarrow> 'e host" where
  "HandleObserveTypo calls now req h =
     (case ParseObserveTypoRequest (payload_json req) of
        None \<Rightarrow> h
      | Some p \<Rightarrow>
          if LearningAllowed (disp h) (ot_secure p) (ot_learning_allowed p) (host_learning_blocked calls (engine h))
          then h\<lparr>engine := engine_ObserveTypo calls (wrong_reading p) (correct_reading p) now (engine h)\<rparr>
          else h)"

definition unsupported :: "Envelope \<Rightarrow> Envelope option" where
  "unsupported req = Some (MakeResponse req (''{\"ok\":false,\"error\":\"unsupported_message_type\"}''))"

section \<open>Dispatch\<close>

definition Dispatch :: "'e engine_calls \<Rightarrow> 64 word \<Rightarrow> 64 word \<Rightarrow> Envelope \<Rightarrow> 'e host \<Rightarrow> Envelope option \<times> 'e host" where
  "Dispatch calls now now_ms req h =
     (if type req \<noteq> Handshake \<and> RequiresAuthenticatedSession (disp h)
      then (HandleUnauthenticated (config_of (disp h)) req, h)
      else case type req of
          Handshake \<Rightarrow> HandleHandshake calls req h
        | Ping \<Rightarrow> (HandlePing now_ms req, h)
        | ReverseConvert \<Rightarrow> (HandleReverseConvert calls now req h, h)
        | Cancel \<Rightarrow> (None, HandleCancel req h)
        | CommitObservation \<Rightarrow> HandleCommitObservation calls now req h
        | CommitCorrection \<Rightarrow> HandleCommitCorrection calls now req h
        | CommitSegmentsObservation \<Rightarrow> HandleCommitSegments calls now req h
        | ObserveTypo \<Rightarrow> (None, HandleObserveTypo calls now req h)
        | QueryCorrections \<Rightarrow> (unsupported req, h)
        | UpdateUserWord \<Rightarrow> (unsupported req, h)
        | Unknown \<Rightarrow> (unsupported req, h)
        | _ \<Rightarrow> (let (answer, s, e) = other_requests calls req (disp h) (sched h, engine h)
               in (answer, h\<lparr>sched := s, engine := e\<rparr>)))"

text \<open>The destructor of the dispatcher.\<close>

definition close_session :: "'e host \<Rightarrow> 'e host" where
  "close_session h = (let (d, s) = SetClientId [] (disp h) (sched h) in h\<lparr>disp := d, sched := s\<rparr>)"

section \<open>Sessions\<close>

text \<open>A request with the times its handler reads, and the answers of a whole session.\<close>

type_synonym timed_request = "64 word \<times> 64 word \<times> Envelope"

fun serve :: "'e engine_calls \<Rightarrow> timed_request list \<Rightarrow> 'e host \<Rightarrow> Envelope option list \<times> 'e host" where
  "serve calls [] h = ([], h)"
| "serve calls ((now, now_ms, req) # rs) h =
     (let (answer, h1) = Dispatch calls now now_ms req h; (answers, h2) = serve calls rs h1 in (answer # answers, h2))"

definition open_host :: "DispatcherConfig \<Rightarrow> scheduler \<Rightarrow> 'e \<Rightarrow> 'e host" where
  "open_host cfg s e = \<lparr>disp = new_dispatcher cfg, sched = s, engine = e\<rparr>"

text \<open>The token is compared as a whole, whatever the two lengths are.\<close>

lemma foldl_or_zero: "foldl (\<lambda>d i. d OR f i) a xs = (0::nat) \<longleftrightarrow> a = 0 \<and> (\<forall>i \<in> set xs. f i = 0)"
  by (induction xs arbitrary: a) (auto simp: or_eq_0_iff)

lemma xor_zero_iff: "a XOR b = (0::nat) \<longleftrightarrow> a = b"
  by (metis xor.assoc xor.left_neutral xor.right_neutral xor_self_eq)

lemma ConstantTimeEquals_iff: "ConstantTimeEquals left right \<longleftrightarrow> left = right"
proof
  assume "ConstantTimeEquals left right"
  then have l: "length left = length right" and
    b: "\<forall>i \<in> set [0..<max (length left) (length right)]. byte_or_zero left i = byte_or_zero right i"
    unfolding ConstantTimeEquals_def foldl_or_zero xor_zero_iff by blast+
  then show "left = right" by (intro nth_equalityI) (auto simp: byte_or_zero_def)
next
  assume "left = right"
  then show "ConstantTimeEquals left right" unfolding ConstantTimeEquals_def foldl_or_zero xor_zero_iff by simp
qed

definition opens_session :: "DispatcherConfig \<Rightarrow> Envelope \<Rightarrow> bool" where
  "opens_session cfg req \<longleftrightarrow> type req = Handshake \<and>
     (\<exists>p. ParseHandshakeRequest (payload_json req) = Some p \<and> request_protocol p = cfg_protocol_version cfg \<and>
        handshake_token p = cfg_handshake_token cfg)"

lemma handshake_accepted_iff:
  "handshake_accepted cfg p \<longleftrightarrow> request_protocol p = cfg_protocol_version cfg \<and>
     (cfg_handshake_token cfg = [] \<or> handshake_token p = cfg_handshake_token cfg)"
  by (simp add: handshake_accepted_def ConstantTimeEquals_iff Let_def)

lemma SetClientId_frame [simp]:
  "config_of (fst (SetClientId c d s)) = config_of d" "authenticated (fst (SetClientId c d s)) = authenticated d"
  "client_supports_secure_flag (fst (SetClientId c d s)) = client_supports_secure_flag d"
  "session_client (fst (SetClientId c d s)) = c"
  by (simp_all add: SetClientId_def Let_def)

lemma SetClientId_same: "session_client d = c \<Longrightarrow> SetClientId c d s = (d, s)"
  by (simp add: SetClientId_def)

lemma HandleHandshake_frame [simp]:
  "engine (snd (HandleHandshake calls req h)) = engine h"
  "config_of (disp (snd (HandleHandshake calls req h))) = config_of (disp h)"
  by (simp_all add: HandleHandshake_def Let_def case_prod_beta split: option.splits)

lemma Dispatch_config [simp]: "config_of (disp (snd (Dispatch calls now now_ms req h))) = config_of (disp h)"
  by (simp add: Dispatch_def HandleCancel_def HandleCommitObservation_def HandleCommitCorrection_def HandleCommitSegments_def
      HandleObserveTypo_def Let_def case_prod_beta split: MessageType.split option.split)

section \<open>No service before the handshake\<close>

lemma serve_unauthenticated:
  assumes "cfg_handshake_token cfg \<noteq> []" "list_all (\<lambda>(now, now_ms, req). \<not> opens_session cfg req) rs"
    and "config_of (disp h) = cfg" "\<not> authenticated (disp h)" "session_client (disp h) = []"
    and "serve calls rs h = (answers, h')"
  shows "engine h' = engine h \<and> sched h' = sched h \<and> \<not> authenticated (disp h') \<and> length answers = length rs \<and>
    list_all (\<lambda>((now, now_ms, req), answer). type req = Handshake \<or> answer = HandleUnauthenticated cfg req) (zip rs answers)"
  using assms(2-6)
proof (induction rs arbitrary: h answers)
  case (Cons r rs)
  obtain now now_ms req where r: "r = (now, now_ms, req)" by (cases r)
  obtain answer h1 where d: "Dispatch calls now now_ms req h = (answer, h1)" by fastforce
  obtain rest where s: "serve calls rs h1 = (rest, h')" "answers = answer # rest"
    using Cons.prems(5) by (auto simp: r d split: prod.splits)
  have step: "engine h1 = engine h \<and> sched h1 = sched h \<and> \<not> authenticated (disp h1) \<and> session_client (disp h1) = [] \<and>
      (type req = Handshake \<or> answer = HandleUnauthenticated cfg req)"
  proof (cases "type req = Handshake")
    case True
    have "\<not> handshake_accepted cfg p" if "ParseHandshakeRequest (payload_json req) = Some p" for p
      using Cons.prems(1) True that assms(1) by (auto simp: r opens_session_def handshake_accepted_iff)
    then have "authenticated (disp (snd (HandleHandshake calls req h))) = False \<and> sched (snd (HandleHandshake calls req h)) = sched h \<and>
        session_client (disp (snd (HandleHandshake calls req h))) = []"
      using Cons.prems(2,4)
      by (simp add: HandleHandshake_def Let_def case_prod_beta SetClientId_same split: option.splits)
    then show ?thesis using d True HandleHandshake_frame(1) [of calls req h] by (simp add: Dispatch_def)
  next
    case False
    then have "h1 = h \<and> answer = HandleUnauthenticated cfg req"
      using d Cons.prems(2,3) assms(1) by (simp add: Dispatch_def RequiresAuthenticatedSession_def)
    then show ?thesis using Cons.prems by simp
  qed
  have "config_of (disp h1) = cfg" using Dispatch_config [of calls now now_ms req h] d Cons.prems(2) by simp
  with Cons.IH [OF _ this _ _ s(1)] step Cons.prems(1) show ?case by (simp add: r s(2))
qed simp

text \<open>C9: Nothing is served before the handshake: as long as no peer presents the token of this host
  and its protocol version, no request of a connection, in any order and of any type, changes the
  engine, the learned data or the scheduler that other connections share, no session is opened, and
  every request but a handshake gets the fixed refusal of its type, which does not depend on the
  engine.\<close>

theorem unauthenticated_isolated:
  assumes "cfg_handshake_token cfg \<noteq> []" "list_all (\<lambda>(now, now_ms, req). \<not> opens_session cfg req) rs"
    and "serve calls rs (open_host cfg s e) = (answers, h)"
  shows "engine h = e \<and> sched h = s \<and> \<not> authenticated (disp h) \<and> length answers = length rs \<and>
    list_all (\<lambda>((now, now_ms, req), answer). type req = Handshake \<or> answer = HandleUnauthenticated cfg req) (zip rs answers)"
  using serve_unauthenticated [OF assms(1,2) _ _ _ assms(3)] by (simp add: open_host_def new_dispatcher_def)

text \<open>An engine that counts the observations it gets.\<close>

definition counting_engine :: "nat engine_calls" where
  "counting_engine = \<lparr>model_loaded = (\<lambda>e. False), settings_in_force = (\<lambda>e. None), privacy_in_force = (\<lambda>e. None),
     engine_CommitEnglishObservation = (\<lambda>rd sf now i e. e + 1), engine_CommitObservation = (\<lambda>rd sf now i app ctx e. (True, e + 1)),
     engine_RecordRejectedEnglish = (\<lambda>shown sf now e. e), engine_CommitSegmentsObservation = (\<lambda>p now e. e + 1),
     engine_CommitCorrection = (\<lambda>rd rj sel now i app ctx e. e + 1), engine_ObserveTypo = (\<lambda>w c now e. e + 1),
     engine_ReverseConvert = (\<lambda>sf now e. []), other_requests = (\<lambda>req d st. (None, st))\<rparr>"

definition sample_config :: DispatcherConfig where
  "sample_config = \<lparr>cfg_host_version = ''0'', cfg_protocol_version = 1, cfg_host_generation_id = [], cfg_handshake_token = ''secret'',
     cfg_runtime_tier = ''mock'', cfg_catalog_fetch = False\<rparr>"

theorem unauthenticated_isolated_witness:
  "engine (snd (serve counting_engine [(0, 0, \<lparr>version = 1, request_id = 1, trace_id = [], type = CommitObservation, payload_json = ''{}''\<rparr>)]
     (open_host sample_config new_scheduler 5))) = 5"
proof -
  let ?rs = "[(0, 0, \<lparr>version = 1, request_id = 1, trace_id = [], type = CommitObservation, payload_json = ''{}''\<rparr>)] :: timed_request list"
  have "cfg_handshake_token sample_config \<noteq> []" "list_all (\<lambda>(now, now_ms, req). \<not> opens_session sample_config req) ?rs"
    by (simp_all add: sample_config_def opens_session_def)
  moreover obtain answers h where "serve counting_engine ?rs (open_host sample_config new_scheduler 5) = (answers, h)" by fastforce
  ultimately show ?thesis using unauthenticated_isolated [of sample_config ?rs counting_engine new_scheduler 5 answers h] by simp
qed

section \<open>No learning without consent\<close>

definition learning_request :: "Envelope \<Rightarrow> bool" where
  "learning_request req \<longleftrightarrow> type req \<in> {CommitObservation, CommitCorrection, CommitSegmentsObservation, ObserveTypo}"

text \<open>The message itself says, in so many words, that the text is not secret and may be learned.\<close>

definition consents :: "Envelope \<Rightarrow> bool" where
  "consents req \<longleftrightarrow> (\<exists>v. parse_object (payload_json req) = Some v \<and> GetBool v ''secure'' = Some False \<and>
     GetBool v ''learning_allowed'' = Some True)"

definition announces_secure_flag :: "DispatcherConfig \<Rightarrow> Envelope \<Rightarrow> bool" where
  "announces_secure_flag cfg req \<longleftrightarrow> type req = Handshake \<and>
     (\<exists>p. ParseHandshakeRequest (payload_json req) = Some p \<and> handshake_accepted cfg p \<and> ''secure_flag'' \<in> set (request_capabilities p))"

lemma value_or_flags:
  "value_or x True \<longleftrightarrow> x \<noteq> Some False" "value_or x False \<longleftrightarrow> x = Some True"
  by (cases x; simp)+

lemma parsed_consents:
  "ParseCommitObservationRequest (payload_json req) = Some p \<Longrightarrow> \<not> co_secure p \<Longrightarrow> co_learning_allowed p \<Longrightarrow> consents req"
  "ParseCommitSegmentsObservationRequest (payload_json req) = Some q \<Longrightarrow> \<not> cs_secure q \<Longrightarrow> cs_learning_allowed q \<Longrightarrow> consents req"
  "ParseCommitCorrectionRequest (payload_json req) = Some r \<Longrightarrow> \<not> cc_secure r \<Longrightarrow> cc_learning_allowed r \<Longrightarrow> consents req"
  "ParseObserveTypoRequest (payload_json req) = Some t \<Longrightarrow> \<not> ot_secure t \<Longrightarrow> ot_learning_allowed t \<Longrightarrow> consents req"
  by (auto simp: value_or_flags consents_def ParseCommitObservationRequest_def ParseCommitSegmentsObservationRequest_def
      ParseCommitCorrectionRequest_def ParseObserveTypoRequest_def bind_eq_Some_conv Let_def split: if_splits)

lemma learning_step:
  assumes "learning_request req" "engine (snd (Dispatch calls now now_ms req h)) \<noteq> engine h"
  shows "client_supports_secure_flag (disp h) \<and> consents req \<and> \<not> host_learning_blocked calls (engine h)"
  using assms parsed_consents
  by (auto simp: learning_request_def Dispatch_def HandleCommitObservation_def HandleCommitSegments_def HandleCommitCorrection_def
      HandleObserveTypo_def LearningAllowed_def Let_def split: if_splits option.splits)

lemma secure_flag_step:
  assumes "client_supports_secure_flag (disp (snd (Dispatch calls now now_ms req h)))"
  shows "client_supports_secure_flag (disp h) \<or> announces_secure_flag (config_of (disp h)) req"
proof (cases "type req = Handshake")
  case True
  then have "client_supports_secure_flag (disp (snd (HandleHandshake calls req h)))" using assms by (simp add: Dispatch_def)
  then have "announces_secure_flag (config_of (disp h)) req"
    using True
    by (simp add: HandleHandshake_def announces_secure_flag_def Let_def case_prod_beta split: option.splits)
  then show ?thesis ..
next
  case False
  then show ?thesis
    using assms
    by (simp add: Dispatch_def HandleCancel_def HandleCommitObservation_def HandleCommitCorrection_def HandleCommitSegments_def
      HandleObserveTypo_def Let_def case_prod_beta split: MessageType.splits option.splits if_splits)
qed

lemma secure_flag_session:
  "client_supports_secure_flag (disp (snd (serve calls rs h))) \<Longrightarrow>
     client_supports_secure_flag (disp h) \<or> list_ex (\<lambda>(now, now_ms, req). announces_secure_flag (config_of (disp h)) req) rs"
proof (induction calls rs h rule: serve.induct)
  case (2 calls now now_ms req rs h)
  obtain answer h1 where d: "Dispatch calls now now_ms req h = (answer, h1)" by fastforce
  have "config_of (disp h1) = config_of (disp h)" using Dispatch_config [of calls now now_ms req h] d by simp
  moreover have "client_supports_secure_flag (disp h1) \<or> list_ex (\<lambda>(now, now_ms, req). announces_secure_flag (config_of (disp h1)) req) rs"
  proof -
    have "client_supports_secure_flag (disp (snd (serve calls rs h1)))" using 2(2) d by (simp add: split_beta)
    then show ?thesis using 2(1) [OF d [symmetric] refl] by simp
  qed
  ultimately show ?case using secure_flag_step [of calls now now_ms req h] d by auto
qed simp

text \<open>C10: Nothing the user commits is learned without the consent of every side. If an observation,
  a correction or a typo, sent after any sequence of requests, changes the engine at all, then some
  accepted handshake of this connection announced that the client marks secret input, the message says
  explicitly that the text is not secret and may be learned (a missing or mistyped flag counts as a
  refusal), and the settings of the host that are in force permit learning: their privacy mode is normal
  or offline, or it is custom and allows it.\<close>

theorem learning_needs_consent:
  assumes "serve calls rs (open_host cfg s e) = (answers, h)" "learning_request req"
    and "engine (snd (Dispatch calls now now_ms req h)) \<noteq> engine h"
    and "privacy_in_force calls (engine h) = map_option ParsePrivacyPolicy settings"
  shows "list_ex (\<lambda>(now, now_ms, req). announces_secure_flag cfg req) rs \<and> consents req \<and> pred_option settings_learn settings"
proof -
  have "pred_option settings_learn settings" if "\<not> host_learning_blocked calls (engine h)"
    using that assms(4) mode_permissions by (cases settings) (simp_all add: host_learning_blocked_def)
  then show ?thesis
    using learning_step [OF assms(2,3)] secure_flag_session [of calls rs "open_host cfg s e"] assms(1)
    by (simp add: open_host_def new_dispatcher_def)
qed

definition sample_hello :: HandshakeRequest where
  "sample_hello = \<lparr>tip_version = ''0'', request_protocol = 1, request_capabilities = [''secure_flag''], client_id = ''c'',
     handshake_token = ''secret''\<rparr>"

definition sample_session :: "timed_request list" where
  "sample_session = [(0, 0, \<lparr>version = 1, request_id = 1, trace_id = [], type = Handshake,
     payload_json = BuildHandshakeRequest sample_hello\<rparr>)]"

definition sample_observation :: Envelope where
  "sample_observation = \<lparr>version = 1, request_id = 2, trace_id = [], type = CommitObservation,
     payload_json = BuildCommitObservationRequest sample_commit\<rparr>"

lemma sample_hello_received: "ParseHandshakeRequest (BuildHandshakeRequest sample_hello) = Some sample_hello"
proof (rule handshake_request_received)
  show "handshake_request_ok sample_hello" by (simp add: handshake_request_ok_def sample_hello_def int32_ok_def)
  show "fits (BuildHandshakeRequest sample_hello)"
    by (simp add: fits_def kMaxJsonInputBytes_def BuildHandshakeRequest_def sample_hello_def build_object_def member_if_def)
      (simp add: Stringify_Value_int quoted_plain FormatInteger_def to_string.simps)
qed

lemma sample_commit_received: "ParseCommitObservationRequest (BuildCommitObservationRequest sample_commit) = Some sample_commit"
  by (rule commit_received [OF sample_commit_ok]) (simp add: fits_def kMaxJsonInputBytes_def order_trans [OF sample_commit_length])

theorem learning_needs_consent_witness:
  "engine (snd (Dispatch counting_engine 0 0 sample_observation (snd (serve counting_engine sample_session (open_host sample_config new_scheduler 5))))) = 6 \<and>
   consents sample_observation"
proof -
  let ?h = "snd (serve counting_engine sample_session (open_host sample_config new_scheduler 5))"
  have acc: "handshake_accepted sample_config sample_hello"
    by (simp add: handshake_accepted_iff sample_config_def sample_hello_def)
  have h: "authenticated (disp ?h) \<and> client_supports_secure_flag (disp ?h) \<and> engine ?h = 5"
    using acc sample_hello_received
    by (simp add: sample_session_def open_host_def new_dispatcher_def Dispatch_def HandleHandshake_def Let_def case_prod_beta)
      (simp add: sample_hello_def)
  then have e: "engine (snd (Dispatch counting_engine 0 0 sample_observation ?h)) = 6"
    using sample_commit_received
    by (simp add: Dispatch_def RequiresAuthenticatedSession_def sample_observation_def HandleCommitObservation_def LearningAllowed_def
        host_learning_blocked_def Let_def) (simp add: sample_commit_def counting_engine_def sample_field_def IsEnglishObservation_def)
  obtain answers where "serve counting_engine sample_session (open_host sample_config new_scheduler 5) = (answers, ?h)"
    by (metis prod.collapse)
  moreover have "learning_request sample_observation" by (simp add: learning_request_def sample_observation_def)
  ultimately show ?thesis using learning_needs_consent [of counting_engine sample_session sample_config new_scheduler 5 answers ?h sample_observation 0 0 None] e h
    by (simp add: counting_engine_def)
qed

section \<open>Registrations\<close>

text \<open>How many connections the scheduler counts for a client.\<close>

definition conn :: "scheduler \<Rightarrow> string \<Rightarrow> nat" where
  "conn s c = active_connections (client_of s c)"

text \<open>The connections besides this one.\<close>

definition balanced :: "(string \<Rightarrow> nat) \<Rightarrow> 'e host \<Rightarrow> bool" where
  "balanced others h \<longleftrightarrow> (\<forall>c. conn (sched h) c = others c + (if c \<noteq> [] \<and> c = session_client (disp h) then 1 else 0))"

lemma conn_Register: "conn (RegisterClient c s) d = conn s d + (if c \<noteq> [] \<and> d = c then 1 else 0)"
  by (simp add: conn_def RegisterClient_def client_of_set Let_def)

lemma conn_Unregister: "conn (UnregisterClient c s) d = conn s d - (if c \<noteq> [] \<and> d = c then 1 else 0)"
proof (cases "map_of (client_states s) c")
  case None
  then show ?thesis by (simp add: conn_def UnregisterClient_def client_of_def new_client_state_def)
next
  case (Some cl)
  then have "client_of s c = cl" by (simp add: client_of_def)
  then show ?thesis
    using Some by (auto simp: conn_def UnregisterClient_def client_of_set Let_def new_client_state_def)
qed

lemma conn_SetClientId:
  "conn (snd (SetClientId c d s)) k + (if k \<noteq> [] \<and> k = session_client d then 1 else 0) =
     conn s k + (if k \<noteq> [] \<and> k = c then 1 else 0)" if "session_client d \<noteq> [] \<Longrightarrow> conn s (session_client d) > 0"
  using that by (auto simp: SetClientId_def Let_def conn_Register conn_Unregister)

lemma balanced_SetClientId:
  assumes "balanced others h" "session_client d = session_client (disp h)"
  shows "balanced others (h\<lparr>disp := (fst (SetClientId c d (sched h)))\<lparr>authenticated := b\<rparr>, sched := snd (SetClientId c d (sched h))\<rparr>)"
    "balanced others (h\<lparr>disp := fst (SetClientId c d (sched h)), sched := snd (SetClientId c d (sched h))\<rparr>)"
proof -
  have "conn (snd (SetClientId c d (sched h))) k = others k + (if k \<noteq> [] \<and> k = c then 1 else 0)" for k
  proof -
    have "conn (sched h) k = others k + (if k \<noteq> [] \<and> k = session_client d then 1 else 0)"
      using assms by (simp add: balanced_def)
    then show ?thesis using conn_SetClientId [of d "sched h" c k] assms unfolding balanced_def by simp
  qed
  then show "balanced others (h\<lparr>disp := (fst (SetClientId c d (sched h)))\<lparr>authenticated := b\<rparr>, sched := snd (SetClientId c d (sched h))\<rparr>)"
    "balanced others (h\<lparr>disp := fst (SetClientId c d (sched h)), sched := snd (SetClientId c d (sched h))\<rparr>)"
    unfolding balanced_def by simp_all
qed

text \<open>The handlers behind the dispatcher track and complete requests; they register no client.\<close>

definition keeps_connections :: "'e engine_calls \<Rightarrow> bool" where
  "keeps_connections calls \<longleftrightarrow> (\<forall>req d s e. conn (fst (snd (other_requests calls req d (s, e)))) = conn s)"

lemma conn_Cancel: "conn (scheduler_Cancel c i s) d = conn s d"
  by (simp add: conn_def scheduler_Cancel_def client_of_set make_flag_def Let_def split: option.split)

lemma balanced_same: "balanced others h \<Longrightarrow> (\<And>c. conn s' c = conn (sched h) c) \<Longrightarrow> balanced others (h\<lparr>sched := s', engine := e\<rparr>)"
  "balanced others h \<Longrightarrow> (\<And>c. conn s' c = conn (sched h) c) \<Longrightarrow> balanced others (h\<lparr>sched := s'\<rparr>)"
  "balanced others (h\<lparr>engine := e\<rparr>) = balanced others h"
  by (simp_all add: balanced_def)

lemma balanced_Dispatch:
  assumes "balanced others h" "keeps_connections calls"
  shows "balanced others (snd (Dispatch calls now now_ms req h))"
proof -
  have hs: "balanced others (snd (HandleHandshake calls req h))"
    using balanced_SetClientId(1) [OF assms(1)]
    by (simp add: HandleHandshake_def Let_def case_prod_beta split: option.splits)
  have o: "balanced others (h\<lparr>sched := fst (snd (other_requests calls req (disp h) (sched h, engine h))),
      engine := snd (snd (other_requests calls req (disp h) (sched h, engine h)))\<rparr>)"
    using assms by (intro balanced_same(1)) (auto simp: keeps_connections_def fun_eq_iff)
  show ?thesis
    using assms(1) hs o
    by (simp add: Dispatch_def HandleCancel_def HandleCommitObservation_def HandleCommitCorrection_def HandleCommitSegments_def
      HandleObserveTypo_def Let_def case_prod_beta balanced_same conn_Cancel split: MessageType.split option.split)
qed

lemma balanced_serve: "balanced others h \<Longrightarrow> keeps_connections calls \<Longrightarrow> balanced others (snd (serve calls rs h))"
proof (induction rs arbitrary: h)
  case (Cons r rs)
  then show ?case by (cases r) (simp add: split_beta balanced_Dispatch)
qed simp



end
