(* ===== verification/Romaji.thy ===== *)
theory Romaji
  imports Utf8 StdMap StdText
begin

text \<open>
  The romaji-to-kana converter (\<open>core/src/RomajiKanaConverter.cpp\<close>) and the loader of custom
  romaji tables (\<open>core/src/CustomRomajiLoader.cpp\<close>).

  A converter is a record with the fields of the class. An operation that mutates the object
  returns what the C++ member function returns together with the new record. The loop of
  \<open>ConvertPending\<close> erases at least one byte per round and terminates by that. The loop of
  \<open>ConvertCustomPending\<close> erases the \<open>consume\<close> bytes of the rule it finds; it is modelled with
  fuel, and runs out only if some rule consumes nothing. The loader never builds such a rule, and
  for the tables it builds one round per pending byte is shown to be enough.
\<close>

section \<open>The built-in table\<close>

text \<open>The initializer of \<open>kRomajiMap\<close>, in its order; the kana as code points.\<close>

definition kRomajiCodepoints :: "(string \<times> codepoint list) list" where
  "kRomajiCodepoints = [
    (''a'', [0x3042]), (''xa'', [0x3041]), (''la'', [0x3041]), (''i'', [0x3044]),
    (''xi'', [0x3043]), (''li'', [0x3043]), (''u'', [0x3046]), (''wu'', [0x3046]),
    (''vu'', [0x3094]), (''xu'', [0x3045]), (''lu'', [0x3045]), (''e'', [0x3048]),
    (''xe'', [0x3047]), (''le'', [0x3047]), (''o'', [0x304a]), (''xo'', [0x3049]),
    (''lo'', [0x3049]), (''ka'', [0x304b]), (''ca'', [0x304b]), (''ga'', [0x304c]),
    (''xka'', [0x3095]), (''lka'', [0x3095]), (''ki'', [0x304d]), (''gi'', [0x304e]),
    (''ku'', [0x304f]), (''cu'', [0x304f]), (''gu'', [0x3050]), (''ke'', [0x3051]),
    (''ge'', [0x3052]), (''xke'', [0x3096]), (''lke'', [0x3096]), (''ko'', [0x3053]),
    (''co'', [0x3053]), (''go'', [0x3054]), (''sa'', [0x3055]), (''za'', [0x3056]),
    (''si'', [0x3057]), (''ci'', [0x3057]), (''shi'', [0x3057]), (''zi'', [0x3058]),
    (''ji'', [0x3058]), (''su'', [0x3059]), (''zu'', [0x305a]), (''se'', [0x305b]),
    (''ce'', [0x305b]), (''ze'', [0x305c]), (''so'', [0x305d]), (''zo'', [0x305e]),
    (''ta'', [0x305f]), (''da'', [0x3060]), (''ti'', [0x3061]), (''chi'', [0x3061]),
    (''di'', [0x3062]), (''tu'', [0x3064]), (''tsu'', [0x3064]), (''xtu'', [0x3063]),
    (''ltu'', [0x3063]), (''xtsu'', [0x3063]), (''ltsu'', [0x3063]), (''du'', [0x3065]),
    (''te'', [0x3066]), (''de'', [0x3067]), (''to'', [0x3068]), (''do'', [0x3069]),
    (''na'', [0x306a]), (''ni'', [0x306b]), (''nu'', [0x306c]), (''ne'', [0x306d]),
    (''no'', [0x306e]), (''ha'', [0x306f]), (''ba'', [0x3070]), (''pa'', [0x3071]),
    (''hi'', [0x3072]), (''bi'', [0x3073]), (''pi'', [0x3074]), (''hu'', [0x3075]),
    (''fu'', [0x3075]), (''bu'', [0x3076]), (''pu'', [0x3077]), (''he'', [0x3078]),
    (''be'', [0x3079]), (''pe'', [0x307a]), (''ho'', [0x307b]), (''bo'', [0x307c]),
    (''po'', [0x307d]), (''ma'', [0x307e]), (''mi'', [0x307f]), (''mu'', [0x3080]),
    (''me'', [0x3081]), (''mo'', [0x3082]), (''ya'', [0x3084]), (''xya'', [0x3083]),
    (''lya'', [0x3083]), (''yu'', [0x3086]), (''xyu'', [0x3085]), (''lyu'', [0x3085]),
    (''yo'', [0x3088]), (''xyo'', [0x3087]), (''lyo'', [0x3087]), (''ra'', [0x3089]),
    (''ri'', [0x308a]), (''ru'', [0x308b]), (''re'', [0x308c]), (''ro'', [0x308d]),
    (''wa'', [0x308f]), (''xwa'', [0x308e]), (''lwa'', [0x308e]), (''wyi'', [0x3090]),
    (''wye'', [0x3091]), (''wo'', [0x3092]), (''ye'', [0x3044, 0x3047]), (''va'', [0x3094, 0x3041]),
    (''vi'', [0x3094, 0x3043]), (''ve'', [0x3094, 0x3047]), (''vo'', [0x3094, 0x3049]),
    (''kya'', [0x304d, 0x3083]), (''kyu'', [0x304d, 0x3085]), (''kye'', [0x304d, 0x3047]),
    (''kyo'', [0x304d, 0x3087]), (''gya'', [0x304e, 0x3083]), (''gyu'', [0x304e, 0x3085]),
    (''gye'', [0x304e, 0x3047]), (''gyo'', [0x304e, 0x3087]), (''qa'', [0x304f, 0x3041]),
    (''kwa'', [0x304f, 0x3041]), (''qwa'', [0x304f, 0x3041]), (''qi'', [0x304f, 0x3043]),
    (''kwi'', [0x304f, 0x3043]), (''qwi'', [0x304f, 0x3043]), (''qu'', [0x304f, 0x3045]),
    (''kwu'', [0x304f, 0x3045]), (''qwu'', [0x304f, 0x3045]), (''qe'', [0x304f, 0x3047]),
    (''kwe'', [0x304f, 0x3047]), (''qwe'', [0x304f, 0x3047]), (''qo'', [0x304f, 0x3049]),
    (''kwo'', [0x304f, 0x3049]), (''qwo'', [0x304f, 0x3049]), (''gwa'', [0x3050, 0x3041]),
    (''gwi'', [0x3050, 0x3043]), (''gwu'', [0x3050, 0x3045]), (''gwe'', [0x3050, 0x3047]),
    (''gwo'', [0x3050, 0x3049]), (''sha'', [0x3057, 0x3083]), (''sya'', [0x3057, 0x3083]),
    (''shu'', [0x3057, 0x3085]), (''syu'', [0x3057, 0x3085]), (''she'', [0x3057, 0x3047]),
    (''sye'', [0x3057, 0x3047]), (''sho'', [0x3057, 0x3087]), (''syo'', [0x3057, 0x3087]),
    (''ja'', [0x3058, 0x3083]), (''zya'', [0x3058, 0x3083]), (''jya'', [0x3058, 0x3083]),
    (''jyi'', [0x3058, 0x3043]), (''ju'', [0x3058, 0x3085]), (''zyu'', [0x3058, 0x3085]),
    (''jyu'', [0x3058, 0x3085]), (''je'', [0x3058, 0x3047]), (''zye'', [0x3058, 0x3047]),
    (''jye'', [0x3058, 0x3047]), (''jo'', [0x3058, 0x3087]), (''zyo'', [0x3058, 0x3087]),
    (''jyo'', [0x3058, 0x3087]), (''swa'', [0x3059, 0x3041]), (''swi'', [0x3059, 0x3043]),
    (''swu'', [0x3059, 0x3045]), (''swe'', [0x3059, 0x3047]), (''swo'', [0x3059, 0x3049]),
    (''cha'', [0x3061, 0x3083]), (''cya'', [0x3061, 0x3083]), (''tya'', [0x3061, 0x3083]),
    (''tyi'', [0x3061, 0x3043]), (''cyi'', [0x3061, 0x3043]), (''chu'', [0x3061, 0x3085]),
    (''cyu'', [0x3061, 0x3085]), (''tyu'', [0x3061, 0x3085]), (''che'', [0x3061, 0x3047]),
    (''cye'', [0x3061, 0x3047]), (''tye'', [0x3061, 0x3047]), (''cho'', [0x3061, 0x3087]),
    (''cyo'', [0x3061, 0x3087]), (''tyo'', [0x3061, 0x3087]), (''tsa'', [0x3064, 0x3041]),
    (''tsi'', [0x3064, 0x3043]), (''tse'', [0x3064, 0x3047]), (''tso'', [0x3064, 0x3049]),
    (''tha'', [0x3066, 0x3083]), (''thi'', [0x3066, 0x3043]), (''thu'', [0x3066, 0x3085]),
    (''the'', [0x3066, 0x3047]), (''tho'', [0x3066, 0x3087]), (''twa'', [0x3068, 0x3041]),
    (''twi'', [0x3068, 0x3043]), (''twu'', [0x3068, 0x3045]), (''twe'', [0x3068, 0x3047]),
    (''two'', [0x3068, 0x3049]), (''dya'', [0x3062, 0x3083]), (''dyi'', [0x3062, 0x3043]),
    (''dyu'', [0x3062, 0x3085]), (''dye'', [0x3062, 0x3047]), (''dyo'', [0x3062, 0x3087]),
    (''dha'', [0x3067, 0x3083]), (''dhi'', [0x3067, 0x3043]), (''dhu'', [0x3067, 0x3085]),
    (''dhe'', [0x3067, 0x3047]), (''dho'', [0x3067, 0x3087]), (''dwa'', [0x3069, 0x3041]),
    (''dwi'', [0x3069, 0x3043]), (''dwu'', [0x3069, 0x3045]), (''dwe'', [0x3069, 0x3047]),
    (''dwo'', [0x3069, 0x3049]), (''nya'', [0x306b, 0x3083]), (''nyi'', [0x306b, 0x3043]),
    (''nyu'', [0x306b, 0x3085]), (''nye'', [0x306b, 0x3047]), (''nyo'', [0x306b, 0x3087]),
    (''hya'', [0x3072, 0x3083]), (''hyi'', [0x3072, 0x3043]), (''hyu'', [0x3072, 0x3085]),
    (''hye'', [0x3072, 0x3047]), (''hyo'', [0x3072, 0x3087]), (''bya'', [0x3073, 0x3083]),
    (''byi'', [0x3073, 0x3043]), (''byu'', [0x3073, 0x3085]), (''bye'', [0x3073, 0x3047]),
    (''byo'', [0x3073, 0x3087]), (''pya'', [0x3074, 0x3083]), (''pyi'', [0x3074, 0x3043]),
    (''pyu'', [0x3074, 0x3085]), (''pye'', [0x3074, 0x3047]), (''pyo'', [0x3074, 0x3087]),
    (''fa'', [0x3075, 0x3041]), (''hwa'', [0x3075, 0x3041]), (''fwa'', [0x3075, 0x3041]),
    (''fi'', [0x3075, 0x3043]), (''hwi'', [0x3075, 0x3043]), (''fwi'', [0x3075, 0x3043]),
    (''fwu'', [0x3075, 0x3045]), (''fe'', [0x3075, 0x3047]), (''hwe'', [0x3075, 0x3047]),
    (''fwe'', [0x3075, 0x3047]), (''fo'', [0x3075, 0x3049]), (''hwo'', [0x3075, 0x3049]),
    (''fwo'', [0x3075, 0x3049]), (''fya'', [0x3075, 0x3083]), (''fyu'', [0x3075, 0x3085]),
    (''fyo'', [0x3075, 0x3087]), (''mya'', [0x307f, 0x3083]), (''myi'', [0x307f, 0x3043]),
    (''myu'', [0x307f, 0x3085]), (''mye'', [0x307f, 0x3047]), (''myo'', [0x307f, 0x3087]),
    (''rya'', [0x308a, 0x3083]), (''ryi'', [0x308a, 0x3043]), (''ryu'', [0x308a, 0x3085]),
    (''rye'', [0x308a, 0x3047]), (''ryo'', [0x308a, 0x3087]), (''wi'', [0x3046, 0x3043]),
    (''we'', [0x3046, 0x3047]), (''wha'', [0x3046, 0x3041]), (''whi'', [0x3046, 0x3043]),
    (''whu'', [0x3046]), (''whe'', [0x3046, 0x3047]), (''who'', [0x3046, 0x3049]),
    (''xn'', [0x3093]), (''zh'', [0x2190]), (''zj'', [0x2193]), (''zk'', [0x2191]),
    (''zl'', [0x2192])]"

definition kRomajiMap :: "(string \<times> string) list" where
  "kRomajiMap = map (\<lambda>(key, kana). (key, utf8s kana)) kRomajiCodepoints"

definition kMaxRomajiKeyLength :: nat where
  "kMaxRomajiKeyLength = 4"

definition IsBuiltinRomajiPrefix :: "string \<Rightarrow> bool" where
  "IsBuiltinRomajiPrefix pending \<longleftrightarrow>
     list_ex (\<lambda>(key, kana). length key > length pending \<and> prefix pending key) kRomajiMap"

definition IsConsonant :: "char \<Rightarrow> bool" where
  "IsConsonant c \<longleftrightarrow> isalpha c \<and> c \<notin> set ''aeiou''"

definition IsVowelOrY :: "char \<Rightarrow> bool" where
  "IsVowelOrY c \<longleftrightarrow> c \<in> set ''aeiouy''"

text \<open>The kana the code spells out: n, small tsu and the long-vowel mark.\<close>

definition kana_n :: string where
  "kana_n = utf8s [0x3093]"

definition kana_small_tsu :: string where
  "kana_small_tsu = utf8s [0x3063]"

definition kana_long_vowel :: string where
  "kana_long_vowel = utf8s [0x30fc]"

section \<open>Custom tables\<close>

record custom_rule =
  rule_output :: string
  consume :: nat

type_synonym custom_table = "(string, custom_rule) map"

section \<open>The converter\<close>

record romaji =
  pending :: string
  custom_table :: "custom_table option"
  consume_double_n_mask :: "32 word"
  ambiguous_double_n_seen :: nat

definition romaji_init :: romaji where
  "romaji_init = \<lparr>pending = [], custom_table = None, consume_double_n_mask = 0,
     ambiguous_double_n_seen = 0\<rparr>"

text \<open>The inner \<open>for\<close> loop: the longest prefix of at most \<open>len\<close> bytes that is a key.\<close>

fun longest_key :: "(string \<Rightarrow> 'v option) \<Rightarrow> string \<Rightarrow> nat \<Rightarrow> (nat \<times> 'v) option" where
  "longest_key lookup p 0 = None"
| "longest_key lookup p (Suc len) =
     (case lookup (take (Suc len) p) of
        Some v \<Rightarrow> Some (Suc len, v)
      | None \<Rightarrow> longest_key lookup p len)"

lemma longest_key_bounds: "longest_key lookup p n = Some (len, v) \<Longrightarrow> 0 < len \<and> len \<le> n"
  by (induction n) (auto split: option.splits)

function (sequential) builtin_loop :: "bool \<Rightarrow> string \<Rightarrow> string \<times> string" where
  "builtin_loop force_flush [] = ([], [])"
| "builtin_loop force_flush p =
     (case longest_key (map_of kRomajiMap) p (min kMaxRomajiKeyLength (length p)) of
        Some (len, kana) \<Rightarrow>
          (let (out, rest) = builtin_loop force_flush (drop len p) in (kana @ out, rest))
      | None \<Rightarrow>
          if force_flush \<and> p = ''nn'' then (kana_n, [])
          else if force_flush \<and> p = ''n'' then (kana_n, [])
          else if force_flush \<or> (length p \<ge> 3 \<and> \<not> IsBuiltinRomajiPrefix p) then
            (let (out, rest) = builtin_loop force_flush (tl p) in (hd p # out, rest))
          else ([], p))"
  by pat_completeness auto
termination
  by (relation "measure (\<lambda>(f, p). length p)") (auto dest: longest_key_bounds)

declare builtin_loop.simps [simp del]

text \<open>
  One round of the loop over a custom table; \<^term>\<open>None\<close> when the fuel runs out.
  \<open>pending_.erase(0, n)\<close> erases at most what there is, as \<^term>\<open>drop\<close> does.
\<close>

fun custom_loop :: "nat \<Rightarrow> custom_table \<Rightarrow> bool \<Rightarrow> string \<Rightarrow> (string \<times> string) option" where
  "custom_loop fuel table force_flush [] = Some ([], [])"
| "custom_loop 0 table force_flush (c # p) = None"
| "custom_loop (Suc fuel) table force_flush (c # p) =
     (let best = longest_key (map_of table) (c # p) (min (length (c # p)) 8);
          longer_prefix = starts_at (c # p) (upper_bound (c # p) table)
      in if \<not> force_flush \<and> longer_prefix then Some ([], c # p)
         else case best of
             Some (len, rule) \<Rightarrow>
               map_option (\<lambda>(out, rest). (rule_output rule @ out, rest))
                 (custom_loop fuel table force_flush (drop (consume rule) (c # p)))
           | None \<Rightarrow>
               map_option (\<lambda>(out, rest). (c # out, rest)) (custom_loop fuel table force_flush p))"

text \<open>
  The member function on a whole converter. A table in which some rule consumes nothing can make
  the loop of the code run forever; the model then leaves the converter as it is, a value no
  theorem below relies on: the theorems about custom tables are about \<open>custom_rules_ok\<close> tables,
  for which the fuel is shown to suffice, and the loader builds no others.
\<close>

definition ConvertCustomPending :: "custom_table \<Rightarrow> bool \<Rightarrow> romaji \<Rightarrow> string \<times> romaji" where
  "ConvertCustomPending table force_flush r =
     (case custom_loop (length (pending r)) table force_flush (pending r) of
        Some (out, rest) \<Rightarrow> (out, r\<lparr>pending := rest\<rparr>)
      | None \<Rightarrow> ([], r))"

definition ConvertPending :: "bool \<Rightarrow> romaji \<Rightarrow> string \<times> romaji" where
  "ConvertPending force_flush r =
     (case custom_table r of
        Some table \<Rightarrow> ConvertCustomPending table force_flush r
      | None \<Rightarrow>
          (let (out, rest) = builtin_loop force_flush (pending r) in (out, r\<lparr>pending := rest\<rparr>)))"

definition SeparatesNWithApostrophe :: "romaji \<Rightarrow> bool" where
  "SeparatesNWithApostrophe r \<longleftrightarrow>
     custom_table r = None \<and> (pending r = ''n'' \<or> pending r = ''nn'')"

definition Feed :: "romaji \<Rightarrow> char \<Rightarrow> string \<times> romaji" where
  "Feed r ascii =
     (let lower = tolower ascii in
      case custom_table r of
        Some table \<Rightarrow> ConvertCustomPending table False (r\<lparr>pending := pending r @ [lower]\<rparr>)
      | None \<Rightarrow>
          if ascii = CHR ''-'' then
            (let (out, r') = ConvertPending True r in (out @ kana_long_vowel, r'))
          else if ascii = CHR 0x27 \<and> SeparatesNWithApostrophe r then
            (kana_n, r\<lparr>pending := []\<rparr>)
          else if \<not> isalpha lower then
            (let (out, r') = ConvertPending True r in (out @ [ascii], r'))
          else if pending r = ''nn'' then
            (let position = ambiguous_double_n_seen r;
                 consume = position < 32 \<and>
                   drop_bit position (consume_double_n_mask r) AND 1 \<noteq> 0;
                 r1 = (if IsVowelOrY lower
                       then r\<lparr>pending := (if consume then [] else ''n''),
                              ambiguous_double_n_seen := position + 1\<rparr>
                       else r\<lparr>pending := []\<rparr>);
                 (out, r2) = ConvertPending False (r1\<lparr>pending := pending r1 @ [lower]\<rparr>)
             in (kana_n @ out, r2))
          else if pending r = ''n'' \<and> \<not> IsVowelOrY lower \<and> lower \<noteq> CHR ''n'' then
            (let (out, r') = ConvertPending False (r\<lparr>pending := [lower]\<rparr>) in (kana_n @ out, r'))
          else if length (pending r) = 1 \<and> pending r ! 0 = lower \<and> IsConsonant lower \<and>
                  lower \<noteq> CHR ''n'' then
            (kana_small_tsu, r)
          else ConvertPending False (r\<lparr>pending := pending r @ [lower]\<rparr>))"

definition Flush :: "romaji \<Rightarrow> string \<times> romaji" where
  "Flush r = ConvertPending True r"

definition romaji_Reset :: "romaji \<Rightarrow> romaji" where
  "romaji_Reset r = r\<lparr>pending := []\<rparr>"

definition SetCustomTable :: "custom_table option \<Rightarrow> romaji \<Rightarrow> romaji" where
  "SetCustomTable table r = r\<lparr>custom_table := table\<rparr>"

definition CanContinueCustomWith :: "romaji \<Rightarrow> char \<Rightarrow> bool" where
  "CanContinueCustomWith r ascii =
     (case custom_table r of
        None \<Rightarrow> False
      | Some table \<Rightarrow>
          if ord ascii > 0x7f then False
          else let lower = tolower ascii;
                   starts_rule = (\<lambda>candidate. starts_at candidate (lower_bound candidate table))
               in starts_rule (pending r @ [lower]) \<or> (pending r \<noteq> [] \<and> starts_rule [lower]))"

definition HasPending :: "romaji \<Rightarrow> bool" where
  "HasPending r \<longleftrightarrow> pending r \<noteq> []"

definition PreviewPending :: "romaji \<Rightarrow> string" where
  "PreviewPending r =
     (if custom_table r = None \<and> (pending r = ''n'' \<or> pending r = ''nn'') then kana_n
      else pending r)"

text \<open>The \<open>do \<dots> while\<close> loop, on the pending bytes that remain.\<close>

function pop_preview :: "romaji \<Rightarrow> string \<Rightarrow> string \<Rightarrow> string" where
  "pop_preview r previous p =
     (let p' = butlast p in
      if p' \<noteq> [] \<and> PreviewPending (r\<lparr>pending := p'\<rparr>) = previous then pop_preview r previous p'
      else p')"
  by pat_completeness auto
termination
  by (relation "measure (\<lambda>(r, q, p). length p)") (auto simp flip: length_greater_0_conv)

declare pop_preview.simps [simp del]

definition PopPendingPreview :: "romaji \<Rightarrow> romaji" where
  "PopPendingPreview r =
     (if pending r = [] then r
      else r\<lparr>pending := pop_preview r (PreviewPending r) (pending r)\<rparr>)"

text \<open>\<open>for (char raw : ascii) output += converter.Feed(raw);\<close>\<close>

fun feed_all :: "romaji \<Rightarrow> string \<Rightarrow> string \<times> romaji" where
  "feed_all r [] = ([], r)"
| "feed_all r (c # cs) =
     (let (out, r') = Feed r c; (outs, r'') = feed_all r' cs in (out @ outs, r''))"

definition Preview :: "string \<Rightarrow> custom_table option \<Rightarrow> string" where
  "Preview ascii table =
     (let (out, r) = feed_all (SetCustomTable table romaji_init) ascii in out @ PreviewPending r)"

definition ConvertForCommit :: "string \<Rightarrow> custom_table option \<Rightarrow> string" where
  "ConvertForCommit ascii table =
     (let (out, r) = feed_all (SetCustomTable table romaji_init) ascii in out @ fst (Flush r))"

definition kMaxAmbiguousDoubleN :: nat where
  "kMaxAmbiguousDoubleN = 3"

text \<open>The local lambda \<open>convert\<close>: the commit reading under a mask and the positions it saw.\<close>

definition convert_masked :: "string \<Rightarrow> custom_table option \<Rightarrow> 32 word \<Rightarrow> string \<times> nat" where
  "convert_masked ascii table bits =
     (let (out, r) = feed_all (SetCustomTable table romaji_init\<lparr>consume_double_n_mask := bits\<rparr>) ascii;
          (flushed, r') = Flush r
      in (out @ flushed, ambiguous_double_n_seen r'))"

definition ascii_letters :: "string \<Rightarrow> nat" where
  "ascii_letters text = length (filter isalpha text)"

definition AmbiguousReadings :: "string \<Rightarrow> custom_table option \<Rightarrow> nat \<Rightarrow> string list" where
  "AmbiguousReadings ascii table max_ambiguous =
     (let (front, ambiguous) = convert_masked ascii table 0;
          varied = min ambiguous (min max_ambiguous kMaxAmbiguousDoubleN);
          default_letters = ascii_letters front;
          valid = fold (\<lambda>position valid.
              let flag = push_bit position 1 in
              if ascii_letters (fst (convert_masked ascii table flag)) = default_letters
              then valid OR flag else valid) [0..<varied] (0 :: 32 word);
          masks = filter (\<lambda>m. m AND NOT valid = 0) (map word_of_nat [1..<2 ^ varied])
      in front # map (\<lambda>m. fst (convert_masked ascii table m)) masks)"

section \<open>The loop over the built-in table\<close>

lemma kRomajiMap_key_length: "(key, kana) \<in> set kRomajiMap \<Longrightarrow> 0 < length key \<and> length key \<le> 4"
proof -
  have "list_all (\<lambda>(key, kana). 0 < length key \<and> length key \<le> 4) kRomajiCodepoints"
    by (simp add: kRomajiCodepoints_def)
  then show "(key, kana) \<in> set kRomajiMap \<Longrightarrow> 0 < length key \<and> length key \<le> 4"
    by (auto simp: kRomajiMap_def list_all_iff)
qed

lemma IsBuiltinRomajiPrefix_short: "IsBuiltinRomajiPrefix p \<Longrightarrow> length p \<le> 3"
  by (auto simp: IsBuiltinRomajiPrefix_def list_ex_iff dest: kRomajiMap_key_length)

lemma builtin_loop_Nil [simp]: "builtin_loop force [] = ([], [])"
  by (simp add: builtin_loop.simps)

lemma builtin_loop_rest:
  "builtin_loop force p = (out, rest) \<Longrightarrow>
     suffix rest p \<and> length rest \<le> 3 \<and> (force \<longrightarrow> rest = [])"
proof (induction force p arbitrary: out rest rule: builtin_loop.induct)
  case (1 force)
  then show ?case by simp
next
  case (2 force c p)
  let ?m = "longest_key (map_of kRomajiMap) (c # p) (min kMaxRomajiKeyLength (length (c # p)))"
  show ?case
  proof (cases ?m)
    case (Some lv)
    obtain len kana where lv: "lv = (len, kana)" by (cases lv)
    obtain out' where o: "builtin_loop force (drop len (c # p)) = (out', rest)"
      using 2(3) Some lv by (auto simp: builtin_loop.simps(2) [of force c p] split: prod.splits)
    show ?thesis using 2(2) [OF Some lv [symmetric] o] by (blast intro: suffix_drop suffix_order.trans)
  next
    case None
    show ?thesis
    proof (cases "force \<or> (3 \<le> length (c # p) \<and> \<not> IsBuiltinRomajiPrefix (c # p))")
      case True
      show ?thesis
      proof (cases "force \<and> (c # p = ''nn'' \<or> c # p = ''n'')")
        case nn: True
        then have "rest = []"
          using 2(3) None by (auto simp: builtin_loop.simps(2))
        then show ?thesis by simp
      next
        case nn: False
        then obtain out' where o: "builtin_loop force (tl (c # p)) = (out', rest)"
          using 2(3) None True
          by (simp add: builtin_loop.simps(2) [of force c p]) (auto split: prod.splits if_splits)
        have "suffix rest p \<and> length rest \<le> 3 \<and> (force \<longrightarrow> rest = [])"
          using 2(1) [OF None _ _ True o] nn by auto
        then show ?thesis by (auto intro: suffix_ConsI)
      qed
    next
      case False
      then have "rest = c # p" "\<not> force"
        using 2(3) None by (auto simp: builtin_loop.simps(2))
      then show ?thesis using False IsBuiltinRomajiPrefix_short [of "c # p"] by auto
    qed
  qed
qed

section \<open>The loop over a custom table\<close>

definition custom_rules_ok :: "custom_table \<Rightarrow> bool" where
  "custom_rules_ok table \<longleftrightarrow> map_wf table \<and>
     list_all (\<lambda>(key, rule). 1 \<le> consume rule \<and> consume rule \<le> length key \<and> length key \<le> 8) table"

lemma longest_key_lookup:
  "longest_key lookup p n = Some (len, v) \<Longrightarrow> lookup (take len p) = Some v"
  by (induction n) (auto split: option.splits)

lemma custom_loop_enough:
  "custom_rules_ok table \<Longrightarrow> length p \<le> fuel \<Longrightarrow>
     \<exists>out rest. custom_loop fuel table force p = Some (out, rest) \<and> suffix rest p \<and> (force \<longrightarrow> rest = [])"
proof (induction fuel arbitrary: p)
  case 0
  then show ?case by simp
next
  case (Suc fuel)
  show ?case
  proof (cases p)
    case (Cons c q)
    let ?best = "longest_key (map_of table) (c # q) (min (length (c # q)) 8)"
    show ?thesis
    proof (cases "\<not> force \<and> starts_at (c # q) (upper_bound (c # q) table)")
      case True
      then show ?thesis using Cons by (simp add: Let_def)
    next
      case False
      show ?thesis
      proof (cases ?best)
        case None
        obtain out rest where IH: "custom_loop fuel table force q = Some (out, rest)"
          "suffix rest q \<and> (force \<longrightarrow> rest = [])"
          using Suc.IH [of q] Suc.prems Cons by auto
        then show ?thesis using Cons False None by (auto simp: Let_def intro: suffix_ConsI)
      next
        case (Some lr)
        obtain len rule where lr: "lr = (len, rule)" by (cases lr)
        have "map_of table (take len (c # q)) = Some rule"
          using longest_key_lookup Some lr by fast
        then have "1 \<le> consume rule"
          using Suc.prems(1) by (auto simp: custom_rules_ok_def list_all_iff dest: map_of_SomeD)
        then have "length (drop (consume rule) (c # q)) \<le> fuel"
          using Suc.prems(2) Cons by auto
        then obtain out rest where IH: "custom_loop fuel table force (drop (consume rule) (c # q)) = Some (out, rest)"
          "suffix rest (drop (consume rule) (c # q)) \<and> (force \<longrightarrow> rest = [])"
          using Suc.IH Suc.prems(1) by blast
        then show ?thesis
          using Cons False Some lr by (auto simp: Let_def intro: suffix_order.trans suffix_drop)
      qed
    qed
  qed simp
qed

lemma custom_loop_more_fuel:
  "custom_loop fuel table force p = Some r \<Longrightarrow> custom_loop (fuel + k) table force p = Some r"
proof (induction fuel table force p arbitrary: r rule: custom_loop.induct)
  case (3 fuel table force c p)
  then show ?case by (fastforce simp: Let_def split: option.splits if_splits)
qed simp_all

section \<open>The loader of custom tables\<close>

definition ValidInput :: "string \<Rightarrow> bool" where
  "ValidInput input \<longleftrightarrow>
     \<not> (input = [] \<or> length input > 8) \<and> list_all (\<lambda>b. \<not> ord b > 0x7f) input"

lemma DecodeNextUtf8_progress: "i < length s \<Longrightarrow> i < fst (snd (DecodeNextUtf8 s i cp))"
  by (auto simp: DecodeNextUtf8_def Let_def split: option.splits)

lemma DecodeNextUtf8_advance: "(ok, j, c) = DecodeNextUtf8 s i cp \<Longrightarrow> i < length s \<Longrightarrow> i < j"
  using DecodeNextUtf8_progress [of i s cp] by (metis fst_conv snd_conv)

text \<open>The loop of \<open>ValidOutput\<close> at an offset, with the UTF-16 units counted so far.\<close>

function ValidOutput_loop :: "string \<Rightarrow> nat \<Rightarrow> nat \<Rightarrow> bool" where
  "ValidOutput_loop text offset units =
     (if offset < length text then
        (case DecodeNextUtf8 text offset 0 of (ok, offset', codepoint) \<Rightarrow>
           if \<not> ok then False
           else let units' = units + (if codepoint > 0xffff then 2 else 1) in
             if units' > 8 then False else ValidOutput_loop text offset' units')
      else True)"
  by pat_completeness auto
termination
  by (relation "measure (\<lambda>(text, offset, units). length text - offset)")
    (auto dest!: DecodeNextUtf8_advance)

declare ValidOutput_loop.simps [simp del]

definition ValidOutput :: "string \<Rightarrow> bool" where
  "ValidOutput text = ValidOutput_loop text 0 0"

text \<open>The third field: how many bytes of the pending input the rule consumes.\<close>

definition parse_consume :: "string \<Rightarrow> string \<Rightarrow> nat option" where
  "parse_consume input field =
     (if field = [] then None
      else case from_chars_unsigned (2 ^ 64) field of
          None \<Rightarrow> None
        | Some (n, rest) \<Rightarrow> if rest \<noteq> [] \<or> n = 0 \<or> n > length input then None else Some n)"

definition normalize_input :: "string \<Rightarrow> string" where
  "normalize_input input =
     map (\<lambda>c. if ord (CHR ''A'') \<le> ord c \<and> ord c \<le> ord (CHR ''Z'')
              then byte (ord c - ord (CHR ''A'') + ord (CHR ''a'')) else c) input"

text \<open>\<^term>\<open>None\<close> is the result \<open>false\<close>; the table is then unchanged.\<close>

definition ParseLine :: "string \<Rightarrow> custom_table \<Rightarrow> custom_table option" where
  "ParseLine line table =
     (case find_char (CHR 9) line of
        None \<Rightarrow> None
      | Some first_tab \<Rightarrow>
          let second_tab = find_char_from (CHR 9) line (first_tab + 1) in
          if (case second_tab of None \<Rightarrow> False
              | Some t \<Rightarrow> find_char_from (CHR 9) line (t + 1) \<noteq> None) then None
          else
            let input = take first_tab line;
                rule_text = (case second_tab of None \<Rightarrow> drop (first_tab + 1) line
                   | Some t \<Rightarrow> take (t - first_tab - 1) (drop (first_tab + 1) line))
            in if \<not> ValidInput input \<or> \<not> ValidOutput rule_text then None
               else case (case second_tab of
                   None \<Rightarrow> Some (length input)
                 | Some t \<Rightarrow> parse_consume input (drop (t + 1) line)) of
                 None \<Rightarrow> None
               | Some n \<Rightarrow>
                   Some (map_assign (normalize_input input)
                     \<lparr>rule_output = rule_text, consume = n\<rparr> table))"

text \<open>The line loop of \<open>Parse\<close>: the table, the numbers of the invalid lines, and the current line.\<close>

function parse_lines :: "string \<Rightarrow> custom_table \<Rightarrow> nat list \<Rightarrow> nat \<Rightarrow> custom_table \<times> nat list" where
  "parse_lines tsv table invalid_lines line_number =
     (if tsv = [] then (table, invalid_lines)
      else let end = find_char (CHR 10) tsv;
               line0 = (case end of None \<Rightarrow> tsv | Some e \<Rightarrow> take e tsv);
               line = (if line0 \<noteq> [] \<and> last line0 = CHR 13 then butlast line0 else line0);
               (table', invalid') =
                 (if line \<noteq> [] \<and> hd line \<noteq> CHR ''#'' then
                    (case ParseLine line table of
                       None \<Rightarrow> (table, invalid_lines @ [line_number])
                     | Some t \<Rightarrow> (t, invalid_lines))
                  else (table, invalid_lines))
           in case end of
                None \<Rightarrow> (table', invalid')
              | Some e \<Rightarrow> parse_lines (drop (e + 1) tsv) table' invalid' (line_number + 1))"
  by pat_completeness auto
termination
  by (relation "measure (\<lambda>(tsv, _). length tsv)") (auto simp: Let_def)

declare parse_lines.simps [simp del]

definition CustomRomajiLoader_Parse :: "string \<Rightarrow> custom_table option \<times> nat list" where
  "CustomRomajiLoader_Parse tsv =
     (let body = (if take 3 tsv = [byte 0xef, byte 0xbb, byte 0xbf] then drop 3 tsv else tsv);
          (table, invalid_lines) = parse_lines body [] [] 1
      in (if table = [] then None else Some table, invalid_lines))"

lemma custom_rules_ok_assign:
  assumes "custom_rules_ok table" "1 \<le> n" "n \<le> length key" "length key \<le> 8"
  shows "custom_rules_ok (map_assign key \<lparr>rule_output = out, consume = n\<rparr> table)"
proof -
  let ?t = "map_assign key \<lparr>rule_output = out, consume = n\<rparr> table"
  have "map_wf ?t" using assms(1) by (simp add: custom_rules_ok_def map_wf_assign)
  moreover have "(k, r) \<in> set ?t \<Longrightarrow> (k, r) = (key, \<lparr>rule_output = out, consume = n\<rparr>) \<or> (k, r) \<in> set table"
    for k r by (induction key "\<lparr>rule_output = out, consume = n\<rparr>" table rule: map_assign.induct)
      (auto split: if_splits)
  ultimately show ?thesis using assms by (fastforce simp: custom_rules_ok_def list_all_iff)
qed

lemma parse_consume_bounds: "parse_consume input field = Some n \<Longrightarrow> 1 \<le> n \<and> n \<le> length input"
  by (auto simp: parse_consume_def split: option.splits if_splits)

lemma ValidInput_bounds: "ValidInput input \<Longrightarrow> 1 \<le> length input \<and> length input \<le> 8"
  by (cases input) (auto simp: ValidInput_def)

lemma ParseLine_rule:
  assumes "ParseLine line table = Some table'"
  obtains input out n where "table' = map_assign (normalize_input input) \<lparr>rule_output = out, consume = n\<rparr> table"
    "ValidInput input" "ValidOutput out" "1 \<le> n" "n \<le> length input"
proof -
  from assms obtain i where i: "find_char (CHR 9) line = Some i"
    by (auto simp: ParseLine_def split: option.splits)
  define input where "input = take i line"
  show ?thesis
    using assms i that [of input] ValidInput_bounds [of input]
    by (auto simp: ParseLine_def Let_def input_def [symmetric] simp del: length_take
        dest: parse_consume_bounds split: option.splits if_splits)
qed

lemma ParseLine_ok:
  assumes "custom_rules_ok table" "ParseLine line table = Some table'"
  shows "custom_rules_ok table' \<and> table' \<noteq> []"
proof -
  obtain input out n where t: "table' = map_assign (normalize_input input) \<lparr>rule_output = out, consume = n\<rparr> table"
    "ValidInput input" "1 \<le> n" "n \<le> length input"
    using ParseLine_rule [OF assms(2)] by metis
  then have "custom_rules_ok table'"
    using custom_rules_ok_assign [OF assms(1), of n "normalize_input input" out]
      ValidInput_bounds [of input]
    by (simp add: normalize_input_def)
  moreover have "fst ` set table' \<noteq> {}" unfolding t fst_set_assign by blast
  ultimately show ?thesis by auto
qed

lemma parse_lines_ok:
  "custom_rules_ok table \<Longrightarrow> parse_lines tsv table bad n = (table', bad') \<Longrightarrow> custom_rules_ok table'"
proof (induction tsv table bad n rule: parse_lines.induct)
  case (1 tsv table bad n)
  let ?e = "find_char (CHR 10) tsv"
  let ?l0 = "case ?e of None \<Rightarrow> tsv | Some e \<Rightarrow> take e tsv"
  let ?l = "if ?l0 \<noteq> [] \<and> last ?l0 = CHR 13 then butlast ?l0 else ?l0"
  let ?ti = "if ?l \<noteq> [] \<and> hd ?l \<noteq> CHR ''#'' then (case ParseLine ?l table of
      None \<Rightarrow> (table, bad @ [n]) | Some t \<Rightarrow> (t, bad)) else (table, bad)"
  obtain t1 i1 where ti: "(t1, i1) = ?ti" by (metis surj_pair)
  then have ok: "custom_rules_ok t1"
    using 1(2) by (auto dest: ParseLine_ok split: if_splits option.splits)
  show ?case
  proof (cases "tsv = []")
    case True
    then show ?thesis using 1(2,3) by (simp add: parse_lines.simps)
  next
    case False
    have u: "parse_lines tsv table bad n =
      (case ?e of None \<Rightarrow> (t1, i1) | Some e \<Rightarrow> parse_lines (drop (e + 1) tsv) t1 i1 (n + 1))"
      using False by (subst parse_lines.simps) (simp only: Let_def ti [symmetric] if_False prod.case)
    show ?thesis
    proof (cases ?e)
      case None
      then show ?thesis using u ok 1(3) by (simp only: option.case prod.inject)
    next
      case (Some e)
      then show ?thesis using 1(1) [OF False refl refl refl ti _ Some ok] u 1(3) by simp
    qed
  qed
qed

lemma Parse_rules_ok:
  "CustomRomajiLoader_Parse tsv = (Some table, invalid_lines) \<Longrightarrow> custom_rules_ok table \<and> table \<noteq> []"
  using parse_lines_ok [of "[]"]
  by (auto simp: CustomRomajiLoader_Parse_def Let_def custom_rules_ok_def map_wf_def
      split: prod.splits if_splits)

section \<open>What a converter keeps pending\<close>

text \<open>
  The contract of a converter that the composing code relies on: feeding keeps the converter
  well-formed, what waits for more input is bounded, and flushing leaves nothing behind.
\<close>

locale kana_converter =
  fixes feed :: "'r \<Rightarrow> char \<Rightarrow> string \<times> 'r"
    and flush :: "'r \<Rightarrow> string \<times> 'r"
    and waiting :: "'r \<Rightarrow> string"
    and ok :: "'r \<Rightarrow> bool"
    and bound :: nat
  assumes ok_feed: "ok r \<Longrightarrow> ok (snd (feed r c))"
    and ok_flush: "ok r \<Longrightarrow> ok (snd (flush r))"
    and waiting_bound: "ok r \<Longrightarrow> length (waiting r) \<le> bound"
    and flush_all: "ok r \<Longrightarrow> waiting (snd (flush r)) = []"
begin

lemma ok_feeds: "ok r \<Longrightarrow> ok (fold (\<lambda>c r. snd (feed r c)) cs r)"
  by (induction cs arbitrary: r) (auto intro: ok_feed)

lemma waiting_feeds: "ok r \<Longrightarrow> length (waiting (fold (\<lambda>c r. snd (feed r c)) cs r)) \<le> bound"
  using ok_feeds waiting_bound by blast

lemma flush_feeds: "ok r \<Longrightarrow> waiting (snd (flush (fold (\<lambda>c r. snd (feed r c)) cs r))) = []"
  using ok_feeds flush_all by blast

end

definition builtin_ok :: "romaji \<Rightarrow> bool" where
  "builtin_ok r \<longleftrightarrow> custom_table r = None \<and> length (pending r) \<le> 3"

definition custom_ok :: "romaji \<Rightarrow> bool" where
  "custom_ok r \<longleftrightarrow> length (pending r) \<le> 7 \<and>
     (case custom_table r of None \<Rightarrow> False | Some table \<Rightarrow> custom_rules_ok table)"

lemma feed_all_state: "snd (feed_all r cs) = fold (\<lambda>c r. snd (Feed r c)) cs r"
  by (induction cs arbitrary: r) (simp_all add: case_prod_beta Let_def)

lemma ConvertPending_builtin:
  assumes "custom_table r = None"
  shows "custom_table (snd (ConvertPending force r)) = None \<and>
    length (pending (snd (ConvertPending force r))) \<le> 3 \<and>
    (force \<longrightarrow> pending (snd (ConvertPending force r)) = [])"
  using assms builtin_loop_rest [of force "pending r"]
  by (auto simp: ConvertPending_def split: prod.splits)

lemma Feed_builtin_ok: "builtin_ok r \<Longrightarrow> builtin_ok (snd (Feed r c))"
proof -
  assume ok: "builtin_ok r"
  then have none: "custom_table r = None" by (simp add: builtin_ok_def)
  have cp: "builtin_ok (snd (ConvertPending f r'))" if "custom_table r' = None" for f r'
    using ConvertPending_builtin [OF that] by (simp add: builtin_ok_def)
  have fin: "builtin_ok (snd (case ConvertPending f r' of (out, r'') \<Rightarrow> (g out, r'')))"
    if "custom_table r' = None" for f r' and g :: "string \<Rightarrow> string"
    using cp [OF that] by (simp add: case_prod_beta)
  show ?thesis
    using ok unfolding Feed_def Let_def none option.case
    by (simp only: if_distrib [of snd] if_distrib [of builtin_ok] split: if_split)
      (intro conjI impI fin cp, auto simp: builtin_ok_def)
qed

interpretation builtin: kana_converter Feed Flush pending builtin_ok 3
  using ConvertPending_builtin
  by unfold_locales (auto simp: Feed_builtin_ok, auto simp: Flush_def builtin_ok_def)

lemma custom_loop_rest:
  "custom_rules_ok table \<Longrightarrow> custom_loop fuel table force p = Some (out, rest) \<Longrightarrow> length rest \<le> 7"
proof (induction fuel table force p arbitrary: out rest rule: custom_loop.induct)
  case (3 fuel table force c p)
  show ?case
  proof (cases "\<not> force \<and> starts_at (c # p) (upper_bound (c # p) table)")
    case True
    then have "\<exists>k \<in> fst ` set table. strict_prefix (c # p) k"
      using 3(3) starts_at_upper_bound by (auto simp: custom_rules_ok_def)
    then obtain k v where "(k, v) \<in> set table" "strict_prefix (c # p) k" by auto
    then have "length (c # p) < length k" "length k \<le> 8"
      using 3(3) by (auto simp: custom_rules_ok_def list_all_iff dest: prefix_length_less)
    then show ?thesis using True 3(4) by (auto simp: Let_def)
  next
    case False
    show ?thesis
    proof (cases "longest_key (map_of table) (c # p) (min (length (c # p)) 8)")
      case None
      then obtain out' where "custom_loop fuel table force p = Some (out', rest)"
        using 3(4) False by (auto simp: Let_def)
      then show ?thesis using 3(1) [OF refl refl False None] 3(3) by blast
    next
      case (Some lr)
      obtain len rule where lr: "lr = (len, rule)" by (cases lr)
      then obtain out' where "custom_loop fuel table force (drop (consume rule) (c # p)) = Some (out', rest)"
        using 3(4) False Some by (auto simp: Let_def)
      then show ?thesis using 3(2) [OF refl refl False Some lr [symmetric]] 3(3) by blast
    qed
  qed
qed simp_all

lemma ConvertCustomPending_ok:
  assumes "custom_rules_ok table" "custom_table r = Some table"
  shows "custom_ok (snd (ConvertCustomPending table force r)) \<and>
    (force \<longrightarrow> pending (snd (ConvertCustomPending table force r)) = [])"
proof -
  obtain out rest where "custom_loop (length (pending r)) table force (pending r) = Some (out, rest)"
    and "force \<longrightarrow> rest = []"
    using custom_loop_enough [OF assms(1) order_refl] by blast
  then show ?thesis
    using assms custom_loop_rest [of table] by (cases force) (auto simp: ConvertCustomPending_def custom_ok_def)
qed

interpretation custom: kana_converter Feed Flush pending custom_ok 7
proof unfold_locales
  fix r c assume ok: "custom_ok r"
  then obtain table where t: "custom_table r = Some table" "custom_rules_ok table"
    by (auto simp: custom_ok_def split: option.splits)
  show "custom_ok (snd (Feed r c))"
    using ConvertCustomPending_ok t by (simp add: Feed_def Let_def)
  show "custom_ok (snd (Flush r))" "pending (snd (Flush r)) = []"
    using ConvertCustomPending_ok t by (simp_all add: Flush_def ConvertPending_def)
  show "length (pending r) \<le> 7" using ok by (simp add: custom_ok_def)
qed

lemma kRomajiMap_kana: "(key, kana) \<in> set kRomajiMap \<Longrightarrow> kana \<noteq> []"
proof -
  have "list_all (\<lambda>(key, kana). kana \<noteq> []) kRomajiCodepoints"
    by (simp add: kRomajiCodepoints_def)
  moreover have "utf8 cp \<noteq> []" for cp by (auto simp: AppendUtf8_def)
  ultimately show "(key, kana) \<in> set kRomajiMap \<Longrightarrow> kana \<noteq> []"
    by (fastforce simp: kRomajiMap_def list_all_iff utf8s_def)
qed

lemma builtin_loop_silent: "builtin_loop force p = ([], rest) \<Longrightarrow> rest = p"
proof (cases p)
  case (Cons c q)
  assume a: "builtin_loop force p = ([], rest)"
  let ?m = "longest_key (map_of kRomajiMap) p (min kMaxRomajiKeyLength (length p))"
  have "?m = None"
  proof (rule ccontr)
    assume "?m \<noteq> None"
    then obtain len kana where m: "?m = Some (len, kana)" by auto
    then have "kana \<noteq> []" using longest_key_lookup kRomajiMap_kana by (metis map_of_SomeD)
    then show False using a m Cons by (auto simp: builtin_loop.simps(2) split: prod.splits)
  qed
  then show ?thesis
    using a Cons by (auto simp: builtin_loop.simps(2) kana_n_def AppendUtf8_def split: prod.splits if_splits)
qed simp

section \<open>Properties of the converter\<close>

text \<open>Whatever is typed with the built-in table, at most three bytes wait for more input, and
  flushing turns all of them into text.\<close>

theorem builtin_pending_bounded:
  "length (pending (snd (feed_all romaji_init ascii))) \<le> 3 \<and>
   pending (snd (Flush (snd (feed_all romaji_init ascii)))) = []"
proof -
  have "builtin_ok romaji_init" by (simp add: builtin_ok_def romaji_init_def)
  then show ?thesis
    using builtin.waiting_feeds builtin.flush_feeds by (simp add: feed_all_state)
qed

text \<open>C26: With every table the loader accepts, the conversion loop ends within one round per pending
  byte, whatever is pending; at most seven bytes stay pending while typing and none after a flush.\<close>

theorem Parse_table_converts:
  assumes "CustomRomajiLoader_Parse tsv = (Some table, invalid_lines)"
  shows "(\<exists>out rest. custom_loop (length p) table force_flush p = Some (out, rest) \<and> suffix rest p) \<and>
    length (pending (snd (feed_all (SetCustomTable (Some table) romaji_init) ascii))) \<le> 7 \<and>
    pending (snd (Flush (snd (feed_all (SetCustomTable (Some table) romaji_init) ascii)))) = []"
proof -
  have ok: "custom_rules_ok table" using Parse_rules_ok [OF assms] by simp
  then have "custom_ok (SetCustomTable (Some table) romaji_init)"
    by (simp add: custom_ok_def romaji_init_def SetCustomTable_def)
  then show ?thesis
    using custom_loop_enough [OF ok order_refl, of p force_flush] custom.waiting_feeds custom.flush_feeds
    by (auto simp: feed_all_state)
qed

theorem Parse_table_converts_witness:
  "CustomRomajiLoader_Parse (''#x'' @ [CHR 10] @ ''K'' @ [CHR 10] @ ''KA'' @ [CHR 9] @ ''k'') =
     (Some [(''ka'', \<lparr>rule_output = ''k'', consume = 2\<rparr>)], [2]) \<and>
   pending (snd (Flush (snd (feed_all (SetCustomTable
     (Some [(''ka'', \<lparr>rule_output = ''k'', consume = 2\<rparr>)]) romaji_init) ''kka'')))) = []"
proof -
  have *: "CustomRomajiLoader_Parse (''#x'' @ [CHR 10] @ ''K'' @ [CHR 10] @ ''KA'' @ [CHR 9] @ ''k'') =
    (Some [(''ka'', \<lparr>rule_output = ''k'', consume = 2\<rparr>)], [2])"
    by (simp add: CustomRomajiLoader_Parse_def parse_lines.simps ParseLine_def find_char_from_def
        ValidInput_def ValidOutput_def ValidOutput_loop.simps DecodeNextUtf8_def normalize_input_def eq_byte_numeral)
  then show ?thesis using Parse_table_converts [OF *, of "[]" True "''kka''"] by simp
qed

lemma longest_key_longest:
  assumes "longest_key lookup p n = r"
  shows "(case r of
      None \<Rightarrow> \<forall>l. 1 \<le> l \<and> l \<le> n \<longrightarrow> lookup (take l p) = None
    | Some (len, v) \<Rightarrow> lookup (take len p) = Some v \<and> 1 \<le> len \<and> len \<le> n \<and>
        (\<forall>l. len < l \<and> l \<le> n \<longrightarrow> lookup (take l p) = None))"
  using assms
proof (induction n arbitrary: r)
  case (Suc n)
  show ?case
  proof (cases "lookup (take (Suc n) p)")
    case None
    then show ?thesis using Suc.IH [OF refl] Suc.prems by (auto split: option.splits simp: le_Suc_eq)
  next
    case (Some v)
    then show ?thesis using Suc.prems by auto
  qed
qed auto

text \<open>The test whether a key can continue a custom table looks only at the first entry not
  below the candidate in the ordered table; that is enough to find any key with the prefix.\<close>

theorem CanContinueCustomWith_iff:
  assumes "custom_table r = Some table" "map_wf table" "ord c \<le> 0x7f"
  shows "CanContinueCustomWith r c \<longleftrightarrow>
    (\<exists>key \<in> fst ` set table. prefix (pending r @ [tolower c]) key) \<or>
    (\<exists>key \<in> fst ` set table. pending r \<noteq> [] \<and> prefix [tolower c] key)"
  using assms by (auto simp: CanContinueCustomWith_def Let_def starts_at_lower_bound)

theorem CanContinueCustomWith_iff_witness:
  "CanContinueCustomWith (romaji_init\<lparr>pending := ''k'', custom_table :=
     Some [(''ka'', \<lparr>rule_output = ''K'', consume = 2\<rparr>), (''kya'', \<lparr>rule_output = ''Y'', consume = 3\<rparr>)]\<rparr>) (CHR ''Y'')"
  by (subst CanContinueCustomWith_iff [where table = "[(''ka'', \<lparr>rule_output = ''K'', consume = 2\<rparr>), (''kya'', \<lparr>rule_output = ''Y'', consume = 3\<rparr>)]"])
    (simp add: map_wf_def, simp add: map_wf_def, simp, code_simp)

subsection \<open>Deleting the last unit\<close>

lemma pop_preview_spec:
  "p \<noteq> [] \<Longrightarrow> strict_prefix (pop_preview r previous p) p \<and>
     (pop_preview r previous p = [] \<or> PreviewPending (r\<lparr>pending := pop_preview r previous p\<rparr>) \<noteq> previous)"
proof (induction r previous p rule: pop_preview.induct)
  case (1 r previous p)
  have sp: "strict_prefix (butlast p) p"
    using 1(2) by (cases p rule: rev_cases) (auto simp: strict_prefix_def)
  have eq: "pop_preview r previous p =
    (if butlast p \<noteq> [] \<and> PreviewPending (r\<lparr>pending := butlast p\<rparr>) = previous
     then pop_preview r previous (butlast p) else butlast p)"
    by (simp add: pop_preview.simps [of r previous p] Let_def)
  show ?case
  proof (cases "butlast p \<noteq> [] \<and> PreviewPending (r\<lparr>pending := butlast p\<rparr>) = previous")
    case True
    then show ?thesis using 1(1) [OF refl True] sp eq by (auto intro: prefix_order.less_trans)
  next
    case False
    then show ?thesis using sp eq by auto
  qed
qed

text \<open>Deleting from the pending input removes a non-empty tail of it and changes what the user
  sees: the preview differs, unless nothing is pending any more.\<close>

theorem PopPendingPreview_visible:
  assumes "pending r \<noteq> []"
  shows "strict_prefix (pending (PopPendingPreview r)) (pending r) \<and>
    PreviewPending (PopPendingPreview r) \<noteq> PreviewPending r \<and>
    custom_table (PopPendingPreview r) = custom_table r"
proof -
  let ?p = "pop_preview r (PreviewPending r) (pending r)"
  have s: "strict_prefix ?p (pending r)"
    "?p = [] \<or> PreviewPending (r\<lparr>pending := ?p\<rparr>) \<noteq> PreviewPending r"
    using pop_preview_spec [OF assms] by auto
  have "PreviewPending r \<noteq> []"
    using assms by (auto simp: PreviewPending_def kana_n_def AppendUtf8_def)
  moreover have "PreviewPending (r\<lparr>pending := []\<rparr>) = []" by (simp add: PreviewPending_def)
  ultimately show ?thesis using s assms by (auto simp: PopPendingPreview_def)
qed

theorem PopPendingPreview_visible_witness:
  "pending (PopPendingPreview (romaji_init\<lparr>pending := ''nn''\<rparr>)) \<noteq> ''nn'' \<and>
   PreviewPending (PopPendingPreview (romaji_init\<lparr>pending := ''nn''\<rparr>)) \<noteq> kana_n"
  using PopPendingPreview_visible [of "romaji_init\<lparr>pending := ''nn''\<rparr>"]
  by (auto simp: PreviewPending_def romaji_init_def)

subsection \<open>Readings of an ambiguous n\<close>

lemma convert_masked_0: "fst (convert_masked ascii table 0) = ConvertForCommit ascii table"
proof -
  have "SetCustomTable table romaji_init\<lparr>consume_double_n_mask := 0\<rparr> = SetCustomTable table romaji_init"
    by (simp add: SetCustomTable_def romaji_init_def)
  then show ?thesis by (simp add: convert_masked_def ConvertForCommit_def case_prod_beta Let_def)
qed

lemma ConvertPending_seen [simp]:
  "ambiguous_double_n_seen (snd (ConvertPending force r)) = ambiguous_double_n_seen r"
  "custom_table (snd (ConvertPending force r)) = custom_table r"
  by (auto simp: ConvertPending_def ConvertCustomPending_def split: option.splits prod.splits)

lemma Feed_custom_seen:
  "custom_table r = Some t \<Longrightarrow> ambiguous_double_n_seen (snd (Feed r c)) = ambiguous_double_n_seen r \<and>
     custom_table (snd (Feed r c)) = Some t"
  by (auto simp: Feed_def ConvertCustomPending_def Let_def split: option.splits prod.splits)

lemma feed_all_custom_seen:
  "custom_table r = Some t \<Longrightarrow>
     ambiguous_double_n_seen (snd (feed_all r cs)) = ambiguous_double_n_seen r"
  unfolding feed_all_state by (induction cs arbitrary: r) (simp_all add: Feed_custom_seen)

lemma convert_masked_custom: "snd (convert_masked ascii (Some t) m) = 0"
proof -
  let ?r = "SetCustomTable (Some t) romaji_init\<lparr>consume_double_n_mask := m\<rparr>"
  have "ambiguous_double_n_seen (snd (feed_all ?r ascii)) = 0"
    by (subst feed_all_custom_seen [of _ t]) (simp_all add: SetCustomTable_def romaji_init_def)
  then show ?thesis by (simp add: convert_masked_def case_prod_beta Let_def Flush_def)
qed

text \<open>The readings offered for an input start with the one that committing it would give, there
  are at most eight of them, and a custom table, which has no ambiguous n, gives that one only.\<close>

theorem AmbiguousReadings_default:
  "hd (AmbiguousReadings ascii table max_ambiguous) = ConvertForCommit ascii table \<and>
   length (AmbiguousReadings ascii table max_ambiguous) \<le> 2 ^ min max_ambiguous 3 \<and>
   AmbiguousReadings ascii (Some custom) max_ambiguous = [ConvertForCommit ascii (Some custom)]"
proof -
  obtain front n where c: "convert_masked ascii table 0 = (front, n)" by fastforce
  obtain frontc where cc: "convert_masked ascii (Some custom) 0 = (frontc, 0)"
    using convert_masked_custom [of ascii custom 0] by (metis prod.collapse)
  have len: "length (filter P (map f [1..<2 ^ v])) + 1 \<le> 2 ^ v" for P and f :: "nat \<Rightarrow> 32 word" and v :: nat
    using length_filter_le [of P "map f [1..<2 ^ v]"] by (simp add: Suc_le_eq le_less_trans)
  let ?v = "min n (min max_ambiguous kMaxAmbiguousDoubleN)"
  have "length (AmbiguousReadings ascii table max_ambiguous) \<le> 2 ^ ?v"
    using len [of _ word_of_nat ?v] by (simp add: AmbiguousReadings_def c Let_def)
  also have "\<dots> \<le> 2 ^ min max_ambiguous 3"
    by (rule power_increasing) (auto simp: kMaxAmbiguousDoubleN_def)
  finally have "length (AmbiguousReadings ascii table max_ambiguous) \<le> 2 ^ min max_ambiguous 3" .
  moreover have "hd (AmbiguousReadings ascii table max_ambiguous) = ConvertForCommit ascii table"
    using convert_masked_0 [of ascii table] by (simp add: AmbiguousReadings_def c Let_def)
  moreover have "AmbiguousReadings ascii (Some custom) max_ambiguous = [ConvertForCommit ascii (Some custom)]"
    using convert_masked_0 [of ascii "Some custom"] by (simp add: AmbiguousReadings_def cc Let_def)
  ultimately show ?thesis by blast
qed

end
