(* ===== verification/MixedRomajiSplitter.thy ===== *)
theory MixedRomajiSplitter
  imports Romaji DoubleArith StdSort LiveCarry "HOL-Library.Monad_Syntax"
begin

text \<open>
  Splitting typed romaji into Japanese and English segments (\<open>core/src/MixedRomajiSplitter.cpp\<close>): a
  lattice of dictionary words and kana stretches, searched by dynamic programming for the cheapest
  paths. A cost is an exact IEEE double. The table \<open>nodes_\<close> is a list with, for each position, the
  best partial paths after an English and after a Japanese segment; a node refers to its predecessor by
  position, state and rank. \<open>Trace\<close> follows these references; it is modelled with as many rounds as the
  position it starts from, and \<^term>\<open>None\<close> is a reference outside the table or a round too many. The
  dictionary is a parameter; the memo of the Japanese costs is not modelled.
\<close>

section \<open>Types\<close>

datatype MixedRomajiSegmentKind = JapaneseKind | EnglishKind

datatype EnglishSegmentConfidence = LowConfidence | HighConfidence

record EnglishWordMatch =
  word_surface :: string
  word_flags :: nat

type_synonym EnglishWordLookup = "string \<Rightarrow> EnglishWordMatch list"

record MixedRomajiSegment =
  mixed_kind :: MixedRomajiSegmentKind
  raw_begin :: nat
  raw_end :: nat
  mixed_kana :: string
  mixed_surface :: string
  mixed_confidence :: EnglishSegmentConfidence

definition empty_mixed :: MixedRomajiSegment where
  "empty_mixed = \<lparr>mixed_kind = JapaneseKind, raw_begin = 0, raw_end = 0, mixed_kana = [], mixed_surface = [],
     mixed_confidence = LowConfidence\<rparr>"

record MixedRomajiSplit =
  split_segments :: "MixedRomajiSegment list"
  split_cost :: double

record MixedRomajiSplitOptions =
  max_raw_length :: nat
  max_splits :: nat
  min_english_length :: nat
  split_inline :: bool
  min_inline_english_length :: nat
  min_shift_inline_english_length :: nat
  max_inline_english_length :: nat
  inline_high_confidence :: bool
  min_readable_english_length :: nat

definition default_split_options :: MixedRomajiSplitOptions where
  "default_split_options = \<lparr>max_raw_length = 64, max_splits = 8, min_english_length = 2, split_inline = False,
     min_inline_english_length = 3, min_shift_inline_english_length = 2, max_inline_english_length = 24,
     inline_high_confidence = True, min_readable_english_length = 4\<rparr>"

record MixedRomajiAlternative =
  alternative_split :: MixedRomajiSplit
  english_segment :: nat

section \<open>Letters and kana\<close>

definition IsAsciiUpper :: "char \<Rightarrow> bool" where
  "IsAsciiUpper c \<longleftrightarrow> 65 \<le> ord c \<and> ord c \<le> 90"

definition IsAsciiLower :: "char \<Rightarrow> bool" where
  "IsAsciiLower c \<longleftrightarrow> 97 \<le> ord c \<and> ord c \<le> 122"

definition IsPrintableAscii :: "char \<Rightarrow> bool" where
  "IsPrintableAscii c \<longleftrightarrow> 32 < ord c \<and> ord c \<le> 126"

definition Lower :: "string \<Rightarrow> string" where
  "Lower raw = map (\<lambda>c. if IsAsciiUpper c then byte (ord c - 65 + 97) else c) raw"

definition HasAsciiLetter :: "string \<Rightarrow> bool" where
  "HasAsciiLetter s = list_ex IsAsciiLower s"

definition CountAsciiLetters :: "string \<Rightarrow> nat" where
  "CountAsciiLetters s = length (filter IsAsciiLower s)"

definition IsSmallVowel :: "codepoint \<Rightarrow> bool" where
  "IsSmallVowel c \<longleftrightarrow> c \<in> {0x3041, 0x3043, 0x3045, 0x3047, 0x3049}"

definition IsSmallY :: "codepoint \<Rightarrow> bool" where
  "IsSmallY c \<longleftrightarrow> c \<in> {0x3083, 0x3085, 0x3087}"

definition TakesSmallVowel :: "codepoint \<Rightarrow> bool" where
  "TakesSmallVowel c \<longleftrightarrow> c \<in> {0x3044, 0x3046, 0x304f, 0x3050, 0x3057, 0x3058, 0x3059, 0x305a, 0x3061, 0x3062, 0x3064, 0x3066, 0x3067, 0x3068, 0x3069, 0x3075, 0x3094}"

definition TakesSmallY :: "codepoint \<Rightarrow> bool" where
  "TakesSmallY c \<longleftrightarrow> c \<in> {0x304d, 0x304e, 0x3057, 0x3058, 0x3061, 0x3062, 0x306b, 0x3072, 0x3073, 0x3074, 0x307f, 0x308a, 0x3066, 0x3067, 0x3075, 0x3094}"

function unnatural_from :: "string \<Rightarrow> nat \<Rightarrow> codepoint option \<Rightarrow> nat" where
  "unnatural_from kn offset previous =
     (if offset < length kn \<and> fst (DecodeNextUtf8 kn offset 0) then
        (let c = snd (snd (DecodeNextUtf8 kn offset 0)) in
         (if c = 0x3094 \<or> IsSmallVowel c \<and> \<not> (case previous of None \<Rightarrow> False | Some p \<Rightarrow> TakesSmallVowel p) \<or>
             IsSmallY c \<and> \<not> (case previous of None \<Rightarrow> False | Some p \<Rightarrow> TakesSmallY p) then 1 else 0) +
         unnatural_from kn (fst (snd (DecodeNextUtf8 kn offset 0))) (Some c))
      else 0)"
  by pat_completeness auto
termination
proof (relation "measure (\<lambda>(kn, offset, previous). length kn - offset)", goal_cases)
  case (2 kn offset previous)
  then show ?case using DecodeNextUtf8_step [of offset kn 0] by auto
qed simp

declare unnatural_from.simps [simp del]

definition CountUnnaturalKana :: "string \<Rightarrow> nat" where
  "CountUnnaturalKana kn = unnatural_from kn 0 None"

section \<open>Costs\<close>

definition double_count :: "nat \<Rightarrow> double" where
  "double_count n = double_of_int (int n)"

definition EnglishEdgeCost :: "nat \<Rightarrow> bool \<Rightarrow> bool \<Rightarrow> double" where
  "EnglishEdgeCost len readable shift =
     double_add (double_max (double_lit (1 / 10)) (double_sub (double_lit 1) (double_mul (double_lit (5 / 100)) (double_count len))))
       (if readable \<and> \<not> shift then double_lit 2 else double_lit 0)"

definition BoundaryCost :: "string \<Rightarrow> nat \<Rightarrow> double" where
  "BoundaryCost lower b =
     (let c = lower ! b in
      if c \<in> set ''aiueo'' then double_lit 1
      else if c = CHR ''n'' \<and> \<not> (b + 1 < length lower \<and> lower ! (b + 1) \<in> set ''aiueoy'') then double_lit (3 / 2)
      else double_lit 0)"

definition slice :: "string \<Rightarrow> nat \<Rightarrow> nat \<Rightarrow> string" where
  "slice s b e = take (e - b) (drop b s)"

definition commit_kana :: "string \<Rightarrow> string" where
  "commit_kana ascii = ConvertForCommit ascii None"

definition JapaneseEdgeCost :: "string \<Rightarrow> string \<Rightarrow> nat \<Rightarrow> nat \<Rightarrow> double" where
  "JapaneseEdgeCost raw lower b e =
     (let kn = commit_kana (slice lower b e);
          capitals = length (filter IsAsciiUpper (slice raw b e))
      in double_add (double_add (double_mul (double_lit 10) (double_count (CountAsciiLetters kn)))
             (double_mul (double_lit (3 / 2)) (double_count (CountUnnaturalKana kn))))
           (double_mul (double_lit 2) (double_count capitals)))"

section \<open>The lattice\<close>

record EnglishEdge =
  edge_end :: nat
  edge_cost :: double
  edge_surface :: string
  edge_confidence :: EnglishSegmentConfidence

datatype State = kAfterEnglish | kAfterJapanese

record LatticeNode =
  node_cost :: double
  node_begin :: nat
  from_state :: State
  from_rank :: nat
  node_english :: bool
  edge_index :: nat

definition start_node :: LatticeNode where
  "start_node = \<lparr>node_cost = double_lit 0, node_begin = 0, from_state = kAfterEnglish, from_rank = 0, node_english = False,
     edge_index = 0\<rparr>"

text \<open>One pass of the inner loop of the constructor: the edge from \<open>b\<close> to \<open>e\<close>, if there is one.\<close>

definition english_edge :: "string \<Rightarrow> string \<Rightarrow> EnglishWordLookup \<Rightarrow> MixedRomajiSplitOptions \<Rightarrow> nat \<Rightarrow> nat \<Rightarrow> EnglishEdge option" where
  "english_edge raw lower lookup options b e =
     (let shift = IsAsciiUpper (raw ! b);
          key = slice lower b e;
          matches = lookup key
      in if \<not> HasAsciiLetter key \<or> matches = [] then None
         else let readable = (\<not> HasAsciiLetter (commit_kana key));
                  typed = slice raw b e;
                  sure = (shift \<or> \<not> readable)
              in Some \<lparr>edge_end = e, edge_cost = EnglishEdgeCost (e - b) readable shift,
                   edge_surface = (if list_ex IsAsciiUpper typed then typed else word_surface (hd matches)),
                   edge_confidence = (if sure \<and> inline_high_confidence options then HighConfidence else LowConfidence)\<rparr>)"

definition english_edges :: "string \<Rightarrow> string \<Rightarrow> EnglishWordLookup \<Rightarrow> MixedRomajiSplitOptions \<Rightarrow> nat \<Rightarrow> EnglishEdge list" where
  "english_edges raw lower lookup options b =
     (let min_length = (if IsAsciiUpper (raw ! b) then min_shift_inline_english_length options else min_inline_english_length options);
          max_end = min (length lower) (b + max_inline_english_length options)
      in List.map_filter (english_edge raw lower lookup options b) [b + max min_length 1..<Suc max_end])"

definition HasEnglishEdge :: "string \<Rightarrow> string \<Rightarrow> EnglishWordLookup \<Rightarrow> MixedRomajiSplitOptions \<Rightarrow> bool" where
  "HasEnglishEdge raw lower lookup options = list_ex (\<lambda>b. english_edges raw lower lookup options b \<noteq> []) [0..<length lower]"

type_synonym table = "(LatticeNode list \<times> LatticeNode list) list"

fun nodes_at :: "table \<Rightarrow> nat \<Rightarrow> State \<Rightarrow> LatticeNode list" where
  "nodes_at nodes p kAfterEnglish = fst (nodes ! p)"
| "nodes_at nodes p kAfterJapanese = snd (nodes ! p)"

fun set_nodes :: "table \<Rightarrow> nat \<Rightarrow> State \<Rightarrow> LatticeNode list \<Rightarrow> table" where
  "set_nodes nodes p kAfterEnglish ns = nodes[p := (ns, snd (nodes ! p))]"
| "set_nodes nodes p kAfterJapanese ns = nodes[p := (fst (nodes ! p), ns)]"

text \<open>\<open>Offer\<close>; \<open>upper_bound\<close> on the sorted list is the length of its part that is not more expensive.\<close>

definition offer_list :: "nat \<Rightarrow> LatticeNode \<Rightarrow> LatticeNode list \<Rightarrow> LatticeNode list" where
  "offer_list limit node ns =
     (let at_pos = length (takeWhile (\<lambda>n. \<not> double_lt (node_cost node) (node_cost n)) ns) in
      if at_pos \<ge> limit then ns
      else let ns' = take at_pos ns @ node # drop at_pos ns in if length ns' > limit then butlast ns' else ns')"

definition Offer :: "MixedRomajiSplitOptions \<Rightarrow> nat \<times> State \<times> LatticeNode \<Rightarrow> table \<Rightarrow> table" where
  "Offer options offer nodes =
     (case offer of (p, st, node) \<Rightarrow> set_nodes nodes p st (offer_list (max_splits options) node (nodes_at nodes p st)))"

text \<open>What one partial path at \<open>b\<close> offers: the English edges, then, unless it ends with a Japanese
  segment, every Japanese stretch.\<close>

definition rank_offers :: "string \<Rightarrow> string \<Rightarrow> (nat \<Rightarrow> EnglishEdge list) \<Rightarrow> nat \<Rightarrow> State \<Rightarrow> nat \<Rightarrow> double \<Rightarrow> (nat \<times> State \<times> LatticeNode) list" where
  "rank_offers raw lower edges b st rank c =
     map (\<lambda>(index, edge). (edge_end edge, kAfterEnglish,
         \<lparr>node_cost = double_add c (edge_cost edge), node_begin = b, from_state = st, from_rank = rank, node_english = True,
          edge_index = index\<rparr>)) (enumerate 0 (edges b)) @
     (if st = kAfterJapanese then []
      else let boundary = (if b > 0 then BoundaryCost lower b else double_lit 0) in
        map (\<lambda>e. (e, kAfterJapanese,
            \<lparr>node_cost = double_add (double_add c boundary) (JapaneseEdgeCost raw lower b e), node_begin = b, from_state = st,
             from_rank = rank, node_english = False, edge_index = 0\<rparr>)) [b + 1..<Suc (length lower)])"

definition expand_state :: "string \<Rightarrow> string \<Rightarrow> (nat \<Rightarrow> EnglishEdge list) \<Rightarrow> MixedRomajiSplitOptions \<Rightarrow> nat \<Rightarrow> State \<Rightarrow> table \<Rightarrow> table" where
  "expand_state raw lower edges options b st nodes =
     (let here = nodes_at nodes b st in
      fold (\<lambda>rank nodes. fold (Offer options) (rank_offers raw lower edges b st rank (node_cost (here ! rank))) nodes)
        [0..<length here] nodes)"

definition build_table :: "string \<Rightarrow> string \<Rightarrow> (nat \<Rightarrow> EnglishEdge list) \<Rightarrow> MixedRomajiSplitOptions \<Rightarrow> table" where
  "build_table raw lower edges options =
     fold (\<lambda>b nodes. fold (expand_state raw lower edges options b) [kAfterEnglish, kAfterJapanese] nodes) [0..<length lower]
       (([start_node], []) # replicate (length lower) ([], []))"

definition english_mixed :: "nat \<Rightarrow> EnglishEdge \<Rightarrow> MixedRomajiSegment" where
  "english_mixed b edge = empty_mixed\<lparr>mixed_kind := EnglishKind, raw_begin := b, raw_end := edge_end edge,
     mixed_surface := edge_surface edge, mixed_confidence := edge_confidence edge\<rparr>"

definition japanese_mixed :: "string \<Rightarrow> nat \<Rightarrow> nat \<Rightarrow> MixedRomajiSegment" where
  "japanese_mixed lower b e = empty_mixed\<lparr>raw_begin := b, raw_end := e, mixed_kana := commit_kana (slice lower b e)\<rparr>"

text \<open>The loop of \<open>Trace\<close>, with the segments already in reading order.\<close>

fun trace_loop :: "string \<Rightarrow> (nat \<Rightarrow> EnglishEdge list) \<Rightarrow> table \<Rightarrow> nat \<Rightarrow> nat \<Rightarrow> State \<Rightarrow> nat \<Rightarrow> MixedRomajiSegment list option" where
  "trace_loop lower edges nodes fuel 0 st rank = Some []"
| "trace_loop lower edges nodes 0 (Suc p) st rank = None"
| "trace_loop lower edges nodes (Suc fuel) (Suc p) st rank =
     (if Suc p < length nodes \<and> rank < length (nodes_at nodes (Suc p) st) then
        (let node = nodes_at nodes (Suc p) st ! rank; b = node_begin node in
         if node_english node \<and> edge_index node \<ge> length (edges b) then None
         else do {
           segments \<leftarrow> trace_loop lower edges nodes fuel b (from_state node) (from_rank node);
           Some (segments @ [if node_english node then (english_mixed b (edges b ! edge_index node))\<lparr>raw_end := Suc p\<rparr>
                             else japanese_mixed lower b (Suc p)]) })
      else None)"

definition Trace :: "string \<Rightarrow> (nat \<Rightarrow> EnglishEdge list) \<Rightarrow> table \<Rightarrow> nat \<Rightarrow> State \<times> nat \<Rightarrow> MixedRomajiSplit option" where
  "Trace lower edges nodes p final =
     map_option (\<lambda>segments. \<lparr>split_segments = segments, split_cost = node_cost (nodes_at nodes p (fst final) ! snd final)\<rparr>)
       (trace_loop lower edges nodes p p (fst final) (snd final))"

fun trace_all :: "('a \<Rightarrow> 'b option) \<Rightarrow> 'a list \<Rightarrow> 'b list option" where
  "trace_all f [] = Some []"
| "trace_all f (x # xs) = do { y \<leftarrow> f x; ys \<leftarrow> trace_all f xs; Some (y # ys) }"

definition final_nodes :: "table \<Rightarrow> nat \<Rightarrow> (State \<times> nat) list" where
  "final_nodes nodes n =
     stable_sort (\<lambda>l r. double_lt (node_cost (nodes_at nodes n (fst l) ! snd l)) (node_cost (nodes_at nodes n (fst r) ! snd r)))
       (concat (map (\<lambda>st. map (\<lambda>rank. (st, rank)) [0..<length (nodes_at nodes n st)]) [kAfterEnglish, kAfterJapanese]))"

definition Best :: "string \<Rightarrow> string \<Rightarrow> (nat \<Rightarrow> EnglishEdge list) \<Rightarrow> MixedRomajiSplitOptions \<Rightarrow> MixedRomajiSplit list option" where
  "Best raw lower edges options =
     (let nodes = build_table raw lower edges options; n = length lower in
      trace_all (Trace lower edges nodes n) (take (max_splits options) (final_nodes nodes n)))"

definition SplitMixedRomaji ::
  "string \<Rightarrow> EnglishWordLookup option \<Rightarrow> MixedRomajiSplitOptions \<Rightarrow> MixedRomajiSplit list option" where
  "SplitMixedRomaji raw lookup options =
     (if raw = [] \<or> length raw > max_raw_length options \<or> max_splits options = 0 \<or> \<not> list_all IsPrintableAscii raw then Some []
      else let lower = Lower raw;
               kn = commit_kana lower;
               has_letter = HasAsciiLetter lower;
               long_enough = (length raw \<ge> min_english_length options);
               shift_first = IsAsciiUpper (hd raw);
               matches = (case lookup of Some f \<Rightarrow> if has_letter \<and> long_enough then f lower else [] | None \<Rightarrow> []);
               seg = empty_mixed\<lparr>raw_end := length raw\<rparr>;
               single = (\<lambda>s. [\<lparr>split_segments = [s], split_cost = double_lit 0\<rparr>]);
               fallback = single
                 (if has_letter \<and> long_enough \<and> shift_first
                  then seg\<lparr>mixed_kind := EnglishKind, mixed_surface := raw, mixed_confidence := HighConfidence\<rparr>
                  else seg\<lparr>mixed_kana := kn\<rparr>)
           in if matches \<noteq> [] then
                Some (single (seg\<lparr>mixed_kind := EnglishKind,
                  mixed_surface := (if list_ex IsAsciiUpper raw then raw else word_surface (hd matches)),
                  mixed_confidence := (if shift_first \<or> HasAsciiLetter kn then HighConfidence else LowConfidence)\<rparr>))
              else case lookup of
                None \<Rightarrow> Some fallback
              | Some f \<Rightarrow>
                  if split_inline options \<and> has_letter \<and> HasEnglishEdge raw lower f options then
                    do {
                      splits \<leftarrow> Best raw lower (english_edges raw lower f options) options;
                      let any_english = (splits \<noteq> [] \<and> list_ex (\<lambda>s. mixed_kind s = EnglishKind) (split_segments (hd splits)));
                      Some (if any_english \<or> \<not> shift_first then splits else fallback) }
                  else Some fallback)"

section \<open>Readable words\<close>

text \<open>The body of the innermost loop of \<open>ReadableEnglishAlternatives\<close> behind its first three checks: the
  alternative for the word from \<open>b\<close> to \<open>e\<close> inside segment \<open>index\<close>, which spans from \<open>s\<close> to \<open>t\<close>.\<close>

definition readable_at :: "string \<Rightarrow> string \<Rightarrow> EnglishWordLookup \<Rightarrow> MixedRomajiSplit \<Rightarrow> nat \<Rightarrow> nat \<Rightarrow> nat \<Rightarrow> double \<Rightarrow> double \<Rightarrow> nat \<Rightarrow> nat \<Rightarrow>
    MixedRomajiAlternative option" where
  "readable_at raw lower lookup adopted index s t adopted_cost head_cost b e =
     (let key = slice lower b e;
          kn = commit_kana key;
          head = commit_kana (slice lower s b);
          tail_kn = commit_kana (slice lower e t);
          tail_cost = (if e < t then JapaneseEdgeCost raw lower e t else double_lit 0);
          matches = lookup key
      in if HasAsciiLetter kn \<or> CountUnnaturalKana kn \<noteq> 0 \<or> head @ kn @ tail_kn \<noteq> commit_kana (slice lower s t) \<or>
            double_lt (double_add adopted_cost (double_lit (1 / 10 ^ 9))) (double_add head_cost tail_cost) \<or>
            \<not> list_ex (\<lambda>m. word_flags m = 0 \<and> word_surface m = key) matches
         then None
         else let before = take index (split_segments adopted) @
                    (if b > s then [empty_mixed\<lparr>raw_begin := s, raw_end := b, mixed_kana := head\<rparr>] else []);
                  english = empty_mixed\<lparr>mixed_kind := EnglishKind, raw_begin := b, raw_end := e, mixed_surface := word_surface (hd matches)\<rparr>;
                  after = (if e < t then [empty_mixed\<lparr>raw_begin := e, raw_end := t, mixed_kana := tail_kn\<rparr>] else []) @
                    drop (index + 1) (split_segments adopted)
              in Some \<lparr>alternative_split = \<lparr>split_segments = before @ english # after,
                     split_cost = double_add (double_add (double_add (double_sub (split_cost adopted) adopted_cost) head_cost) tail_cost)
                       (EnglishEdgeCost (e - b) True False)\<rparr>,
                   english_segment = length before\<rparr>)"

text \<open>The loop over the ends of a word; a capital ends it.\<close>

fun readable_ends :: "string \<Rightarrow> string \<Rightarrow> EnglishWordLookup \<Rightarrow> MixedRomajiSplit \<Rightarrow> nat \<Rightarrow> nat \<Rightarrow> nat \<Rightarrow> double \<Rightarrow> double \<Rightarrow> nat \<Rightarrow> nat list \<Rightarrow>
    MixedRomajiAlternative list" where
  "readable_ends raw lower lookup adopted index s t adopted_cost head_cost b [] = []"
| "readable_ends raw lower lookup adopted index s t adopted_cost head_cost b (e # es) =
     (let rest = readable_ends raw lower lookup adopted index s t adopted_cost head_cost b es in
      if b = 0 \<and> e = length lower then rest
      else if e < t \<and> rat_of_double (BoundaryCost lower e) \<noteq> 0 then rest
      else if list_ex IsAsciiUpper (slice raw b e) then []
      else case readable_at raw lower lookup adopted index s t adopted_cost head_cost b e of None \<Rightarrow> rest | Some a \<Rightarrow> a # rest)"

definition readable_in_segment :: "string \<Rightarrow> string \<Rightarrow> EnglishWordLookup \<Rightarrow> MixedRomajiSplitOptions \<Rightarrow> MixedRomajiSplit \<Rightarrow> nat \<Rightarrow> MixedRomajiAlternative list" where
  "readable_in_segment raw lower lookup options adopted index =
     (let seg = split_segments adopted ! index; s = raw_begin seg; t = raw_end seg;
          min_length = max (min_readable_english_length options) (min_inline_english_length options)
      in if mixed_kind seg \<noteq> JapaneseKind \<or> t > length lower \<or> s \<ge> t then []
         else let before = (if s > 0 then BoundaryCost lower s else double_lit 0);
                  adopted_cost = double_add before (JapaneseEdgeCost raw lower s t)
              in concat (map (\<lambda>b.
                   if b = s \<and> rat_of_double before \<noteq> 0 then []
                   else let head_cost = (if b > s then double_add before (JapaneseEdgeCost raw lower s b) else double_lit 0);
                            max_end = min t (b + max_inline_english_length options)
                        in readable_ends raw lower lookup adopted index s t adopted_cost head_cost b [b + min_length..<Suc max_end])
                 [s..<t]))"

text \<open>The loops stop when as many alternatives as allowed were found; a limit of zero is never met.\<close>

definition ReadableEnglishAlternatives ::
  "string \<Rightarrow> MixedRomajiSplit \<Rightarrow> EnglishWordLookup option \<Rightarrow> MixedRomajiSplitOptions \<Rightarrow> MixedRomajiAlternative list" where
  "ReadableEnglishAlternatives raw adopted lookup options =
     (case lookup of
        None \<Rightarrow> []
      | Some f \<Rightarrow>
          if \<not> split_inline options \<or> raw = [] \<or> length raw > max_raw_length options \<or> \<not> list_all IsPrintableAscii raw then []
          else let alternatives = concat (map (readable_in_segment raw (Lower raw) f options adopted) [0..<length (split_segments adopted)])
               in if max_splits options = 0 then alternatives else take (max_splits options) alternatives)"

section \<open>Costs are costs\<close>

lemma double_mul_cost:
  assumes "cost_ok a" "cost_ok b" "isfinite a" "0 < rat_of_double a"
  shows "cost_ok (double_mul a b)"
proof -
  obtain s m e where a: "a = Finite s m e" using assms(3) by (cases a) auto
  then have s: "\<not> s" "m > 0"
    using assms(4) pow2_pos(1) [of e] by (auto simp: mult_less_0_iff zero_less_mult_iff simp del: pow2_pos split: if_splits)
  show ?thesis
  proof (cases b)
    case (Finite t n f)
    show ?thesis
    proof (cases t)
      case True
      have "n = 0"
      proof (rule ccontr)
        assume "n \<noteq> 0"
        then have "0 < of_nat n * pow2 f" by simp
        then show False using assms(2) Finite True by simp
      qed
      then show ?thesis using a Finite s True by (simp add: round_signed_def round_magnitude_def)
    next
      case False
      then show ?thesis using a Finite s by (simp add: round_signed_cost)
    qed
  qed (use assms a s in auto)
qed

lemma double_count_cost: "cost_ok (double_count n)"
proof -
  have "double_count n = round_signed False (of_nat n)"
    by (simp add: double_count_def double_of_int_def round_signed_def split: option.split)
  then show ?thesis by (simp add: round_signed_cost)
qed

lemma double_lit_pos: "0 < q \<Longrightarrow> q \<le> 1024 \<Longrightarrow> isfinite (double_lit q) \<and> (1 \<le> q \<longrightarrow> 0 < rat_of_double (double_lit q))"
proof -
  assume q: "0 < q" "q \<le> 1024"
  have k: "pow2 10 = 1024" "pow2 0 = 1" by (simp_all add: pow2_def)
  have "pow2 (floor_log2 q) \<le> pow2 10" using floor_log2_bounds(1) [OF q(1)] q(2) k by simp
  then have e: "round_exp q \<le> 10" by (simp only: pow2_le_iff) (simp add: round_exp_def)
  then have "rounded q \<le> pow2 10" using q k by (intro rounded_le) simp_all
  then have "rounded q < pow2 1024" using pow2_less_iff [of 10 1024] by simp
  then obtain m e' where d: "double_lit q = Finite False m e'" "of_nat m * pow2 e' = rounded q"
    using round_signed_cases [OF q(1), of False] by (auto simp: double_lit_def)
  moreover have "0 < rounded q" if "1 \<le> q"
  proof -
    have "q < pow2 (floor_log2 q + 1)" by (rule floor_log2_bounds(2) [OF q(1)])
    then have "pow2 (floor_log2 q) \<le> rounded q"
      using floor_log2_bounds(1) [OF q(1)] that by (intro rounded_ge [OF q(1)]) (simp_all add: round_exp_def, use pow2_less_iff [of 0 "floor_log2 q + 1"] k in linarith)
    then show ?thesis using pow2_pos(1) [of "floor_log2 q"] by linarith
  qed
  ultimately show ?thesis by simp
qed

lemma lit_mul_cost: "1 \<le> q \<Longrightarrow> q \<le> 1024 \<Longrightarrow> cost_ok (double_mul (double_lit q) (double_count n))"
  using double_lit_pos [of q] by (intro double_mul_cost) (simp_all add: double_lit_cost double_count_cost)

lemma edge_cost_costs [simp]:
  "cost_ok (EnglishEdgeCost len readable shift)" "cost_ok (BoundaryCost lower b)" "cost_ok (JapaneseEdgeCost raw lower b e)"
proof -
  have "cost_ok (double_max (double_lit (1 / 10)) x)" for x
  proof (cases "double_lt (double_lit (1 / 10)) x")
    case True
    have "cost_ok (double_lit (1 / 10))" by (simp add: double_lit_cost)
    then have "cost_ok x" using True by (cases x; cases "double_lit (1 / 10)") auto
    then show ?thesis using True by (simp add: double_max_def)
  qed (simp add: double_max_def double_lit_cost)
  then show "cost_ok (EnglishEdgeCost len readable shift)"
    unfolding EnglishEdgeCost_def by (intro double_add_cost) (simp_all add: double_lit_cost)
  show "cost_ok (BoundaryCost lower b)" by (simp add: BoundaryCost_def Let_def double_lit_cost)
  show "cost_ok (JapaneseEdgeCost raw lower b e)"
    by (simp add: JapaneseEdgeCost_def Let_def double_add_cost lit_mul_cost)
qed

section \<open>Paths through the lattice\<close>

text \<open>The specification: the paths, their segments and their costs, added up from the start.\<close>

inductive lattice_path :: "string \<Rightarrow> string \<Rightarrow> (nat \<Rightarrow> EnglishEdge list) \<Rightarrow> nat \<Rightarrow> State \<Rightarrow> double \<Rightarrow> MixedRomajiSegment list \<Rightarrow> bool"
  for raw lower edges where
  path_start: "lattice_path raw lower edges 0 kAfterEnglish (double_lit 0) []"
| path_english: "lattice_path raw lower edges b st c segs \<Longrightarrow> b < length lower \<Longrightarrow> edge \<in> set (edges b) \<Longrightarrow>
    lattice_path raw lower edges (edge_end edge) kAfterEnglish (double_add c (edge_cost edge)) (segs @ [english_mixed b edge])"
| path_japanese: "lattice_path raw lower edges b kAfterEnglish c segs \<Longrightarrow> b < e \<Longrightarrow> e \<le> length lower \<Longrightarrow>
    lattice_path raw lower edges e kAfterJapanese
      (double_add (double_add c (if b > 0 then BoundaryCost lower b else double_lit 0)) (JapaneseEdgeCost raw lower b e))
      (segs @ [japanese_mixed lower b e])"

section \<open>Offering\<close>

lemma nodes_at_set [simp]:
  "p < length nodes \<Longrightarrow> nodes_at (set_nodes nodes p st ns) p st = ns"
  "(q, st') \<noteq> (p, st) \<Longrightarrow> nodes_at (set_nodes nodes p st ns) q st' = nodes_at nodes q st'"
  "length (set_nodes nodes p st ns) = length nodes"
proof -
  show "p < length nodes \<Longrightarrow> nodes_at (set_nodes nodes p st ns) p st = ns" by (cases st) simp_all
  show "length (set_nodes nodes p st ns) = length nodes" by (cases st) simp_all
  show "nodes_at (set_nodes nodes p st ns) q st' = nodes_at nodes q st'" if "(q, st') \<noteq> (p, st)"
    using that by (cases "q = p"; cases "p < length nodes"; cases st; cases st') (simp_all add: not_less list_update_beyond)
qed

declare nodes_at.simps [simp del] set_nodes.simps [simp del]

definition cost_sorted :: "LatticeNode list \<Rightarrow> bool" where
  "cost_sorted ns \<longleftrightarrow> list_all (\<lambda>n. cost_ok (node_cost n)) ns \<and> sorted_wrt (\<lambda>a b. double_le (node_cost a) (node_cost b)) ns"

lemma offer_list_set: "set (offer_list k node ns) \<subseteq> insert node (set ns)"
proof -
  have "set (take i ns @ node # drop i ns) \<subseteq> insert node (set ns)" for i
    using set_take_subset [of i ns] set_drop_subset [of i ns] by auto
  moreover have "set (butlast xs) \<subseteq> set xs" for xs :: "LatticeNode list" by (auto dest: in_set_butlastD)
  ultimately show ?thesis unfolding offer_list_def Let_def by (smt (verit) subset_insertI subset_trans)
qed

lemma offer_list_length: "length ns \<le> k \<Longrightarrow> length (offer_list k node ns) \<le> k"
proof -
  assume "length ns \<le> k"
  moreover have "length (take i ns @ node # drop i ns) = Suc (length ns)" for i by simp
  ultimately show ?thesis unfolding offer_list_def Let_def by (simp only: length_butlast split: if_split) auto
qed

lemma cost_sorted_butlast: "cost_sorted ns \<Longrightarrow> cost_sorted (butlast ns)"
  by (cases ns rule: rev_cases) (simp_all add: cost_sorted_def sorted_wrt_append)

lemma offer_list_sorted:
  assumes "cost_sorted ns" "cost_ok (node_cost node)"
  shows "cost_sorted (offer_list k node ns)"
proof -
  let ?P = "\<lambda>n. \<not> double_lt (node_cost node) (node_cost n)"
  have parts: "take (length (takeWhile ?P ns)) ns = takeWhile ?P ns" "drop (length (takeWhile ?P ns)) ns = dropWhile ?P ns"
    by (rule takeWhile_eq_take [symmetric], rule dropWhile_eq_drop [symmetric])
  have ok: "cost_ok (node_cost n)" if "n \<in> set ns" for n using assms(1) that by (auto simp: cost_sorted_def list_all_iff)
  have below: "double_le (node_cost n) (node_cost node)" if "n \<in> set (takeWhile ?P ns)" for n
    using set_takeWhileD [OF that] by (simp add: double_le_def)
  have above: "double_le (node_cost node) (node_cost n)" if n: "n \<in> set (dropWhile ?P ns)" for n
  proof -
    obtain h t where ht: "dropWhile ?P ns = h # t" using n by (cases "dropWhile ?P ns") auto
    have h: "double_lt (node_cost node) (node_cost h)" using hd_dropWhile [of ?P ns] ht by simp
    have "sorted_wrt (\<lambda>a b. double_le (node_cost a) (node_cost b)) (h # t)"
      using assms(1) ht sorted_wrt_drop [of _ ns] parts(2) by (metis cost_sorted_def)
    then have "double_le (node_cost h) (node_cost n)" using n ht by auto
    moreover have "h \<in> set ns" "n \<in> set ns" using ht n set_dropWhileD [of _ ?P ns] by auto
    ultimately show ?thesis using double_lt_le_trans [OF assms(2) ok ok h] double_lt_imp_le [OF assms(2) ok] by blast
  qed
  have mid: "cost_sorted (takeWhile ?P ns @ node # dropWhile ?P ns)"
  proof -
    have "sorted_wrt (\<lambda>a b. double_le (node_cost a) (node_cost b)) (takeWhile ?P ns @ dropWhile ?P ns)"
      using assms(1) by (simp only: takeWhile_dropWhile_id cost_sorted_def)
    note parts_sorted = sorted_wrt_append [THEN iffD1, OF this]
    show ?thesis
      using below above ok assms(2) parts_sorted set_takeWhileD [of _ ?P ns] set_dropWhileD [of _ ?P ns]
      by (auto simp: cost_sorted_def sorted_wrt_append list_all_iff)
  qed
  then show ?thesis using assms(1) parts cost_sorted_butlast [OF mid] by (simp add: offer_list_def Let_def)
qed

text \<open>A list covers a cost when its first node is not more expensive.\<close>

definition covers :: "LatticeNode list \<Rightarrow> double \<Rightarrow> bool" where
  "covers ns c \<longleftrightarrow> ns \<noteq> [] \<and> double_le (node_cost (hd ns)) c"

lemma offer_list_head:
  assumes "0 < k"
  shows "ns \<noteq> [] \<Longrightarrow> \<not> double_lt (node_cost node) (node_cost (hd ns)) \<Longrightarrow> offer_list k node ns \<noteq> [] \<and> hd (offer_list k node ns) = hd ns"
    "ns = [] \<or> double_lt (node_cost node) (node_cost (hd ns)) \<Longrightarrow> offer_list k node ns \<noteq> [] \<and> hd (offer_list k node ns) = node"
proof -
  assume a: "ns \<noteq> []" "\<not> double_lt (node_cost node) (node_cost (hd ns))"
  then obtain x xs where "ns = x # xs" by (cases ns) auto
  then show "offer_list k node ns \<noteq> [] \<and> hd (offer_list k node ns) = hd ns" using a by (auto simp: offer_list_def Let_def hd_append)
next
  assume a: "ns = [] \<or> double_lt (node_cost node) (node_cost (hd ns))"
  then show "offer_list k node ns \<noteq> [] \<and> hd (offer_list k node ns) = node"
    using assms by (cases ns) (auto simp: offer_list_def Let_def butlast_conv_take)
qed

lemma offer_list_covers:
  assumes "0 < k" "cost_sorted ns" "cost_ok (node_cost node)"
  shows "covers (offer_list k node ns) (node_cost node)" "cost_ok c \<Longrightarrow> covers ns c \<Longrightarrow> covers (offer_list k node ns) c"
proof -
  have ok: "ns \<noteq> [] \<Longrightarrow> cost_ok (node_cost (hd ns))" using assms(2) by (cases ns) (auto simp: cost_sorted_def)
  show "covers (offer_list k node ns) (node_cost node)"
    using offer_list_head [OF assms(1), of ns node] by (cases "ns = [] \<or> double_lt (node_cost node) (node_cost (hd ns))")
      (auto simp: covers_def double_le_def simp del: double_lt.simps)
  show "covers (offer_list k node ns) c" if "cost_ok c" "covers ns c"
  proof (cases "double_lt (node_cost node) (node_cost (hd ns))")
    case True
    have ne: "ns \<noteq> []" using that(2) by (simp add: covers_def)
    have "double_lt (node_cost node) c" using double_lt_le_trans [OF assms(3) ok [OF ne] that(1) True] that(2) by (simp add: covers_def)
    then have "double_le (node_cost node) c" using double_lt_imp_le [OF assms(3) that(1)] by blast
    then show ?thesis using offer_list_head(2) [OF assms(1), of ns node] True by (simp add: covers_def)
  next
    case False
    then show ?thesis using offer_list_head(1) [OF assms(1), of ns node] that(2) by (simp add: covers_def)
  qed
qed

section \<open>Tracing all\<close>

lemma trace_all_Some:
  "(\<And>x. x \<in> set xs \<Longrightarrow> \<exists>y. f x = Some y \<and> P x y) \<Longrightarrow> \<exists>ys. trace_all f xs = Some ys \<and> list_all2 P xs ys"
proof (induction xs)
  case (Cons x xs)
  obtain y where "f x = Some y" "P x y" using Cons.prems [of x] by auto
  moreover obtain ys where "trace_all f xs = Some ys" "list_all2 P xs ys" using Cons by auto
  ultimately show ?case by auto
qed simp

section \<open>The search\<close>

text \<open>
  What the search needs of the edges: they lead forward and stay inside the text, and their costs are
  costs. Under this contract every node of the table stands for a path, and every path is covered.
\<close>

locale english_lattice =
  fixes raw lower :: string and edges :: "nat \<Rightarrow> EnglishEdge list" and options :: MixedRomajiSplitOptions
  assumes edge_bounds: "b < length lower \<Longrightarrow> edge \<in> set (edges b) \<Longrightarrow> b < edge_end edge \<and> edge_end edge \<le> length lower"
    and edge_costs: "b < length lower \<Longrightarrow> edge \<in> set (edges b) \<Longrightarrow> cost_ok (edge_cost edge)"
    and some_splits: "0 < max_splits options"
begin

text \<open>A node at \<open>p\<close> extends the node it refers to by one edge.\<close>

definition node_ok :: "table \<Rightarrow> nat \<Rightarrow> State \<Rightarrow> LatticeNode \<Rightarrow> bool" where
  "node_ok nodes p st node \<longleftrightarrow>
     node_begin node < p \<and> p \<le> length lower \<and> from_rank node < length (nodes_at nodes (node_begin node) (from_state node)) \<and>
     (let c = node_cost (nodes_at nodes (node_begin node) (from_state node) ! from_rank node); b = node_begin node in
      if node_english node
      then st = kAfterEnglish \<and> edge_index node < length (edges b) \<and> edge_end (edges b ! edge_index node) = p \<and>
        node_cost node = double_add c (edge_cost (edges b ! edge_index node))
      else st = kAfterJapanese \<and> from_state node = kAfterEnglish \<and>
        node_cost node = double_add (double_add c (if b > 0 then BoundaryCost lower b else double_lit 0)) (JapaneseEdgeCost raw lower b p))"

definition table_ok :: "nat \<Rightarrow> table \<Rightarrow> bool" where
  "table_ok b nodes \<longleftrightarrow>
     length nodes = Suc (length lower) \<and> nodes_at nodes 0 kAfterEnglish = [start_node] \<and> nodes_at nodes 0 kAfterJapanese = [] \<and>
     (\<forall>p st. p \<le> length lower \<longrightarrow> cost_sorted (nodes_at nodes p st) \<and> length (nodes_at nodes p st) \<le> max_splits options) \<and>
     (\<forall>p st. 0 < p \<longrightarrow> p \<le> length lower \<longrightarrow> (\<forall>node \<in> set (nodes_at nodes p st). node_ok nodes p st node \<and> node_begin node \<le> b))"

definition same_until :: "nat \<Rightarrow> table \<Rightarrow> table \<Rightarrow> bool" where
  "same_until b nodes nodes' \<longleftrightarrow> (\<forall>p st. p \<le> b \<longrightarrow> nodes_at nodes' p st = nodes_at nodes p st)"

lemma node_ok_english:
  "node_ok nodes p st node \<Longrightarrow> node_english node \<Longrightarrow> st = kAfterEnglish \<and> edge_index node < length (edges (node_begin node)) \<and>
     edge_end (edges (node_begin node) ! edge_index node) = p \<and>
     node_cost node = double_add (node_cost (nodes_at nodes (node_begin node) (from_state node) ! from_rank node))
       (edge_cost (edges (node_begin node) ! edge_index node))"
  by (simp add: node_ok_def Let_def)

lemma node_ok_japanese:
  "node_ok nodes p st node \<Longrightarrow> \<not> node_english node \<Longrightarrow> st = kAfterJapanese \<and> from_state node = kAfterEnglish \<and>
     node_cost node = double_add (double_add (node_cost (nodes_at nodes (node_begin node) (from_state node) ! from_rank node))
       (if node_begin node > 0 then BoundaryCost lower (node_begin node) else double_lit 0)) (JapaneseEdgeCost raw lower (node_begin node) p)"
  by (simp add: node_ok_def Let_def)

lemma node_path:
  assumes "node_ok nodes p st node"
    "lattice_path raw lower edges (node_begin node) (from_state node) (node_cost (nodes_at nodes (node_begin node) (from_state node) ! from_rank node)) segs"
  shows "lattice_path raw lower edges p st (node_cost node)
    (segs @ [if node_english node then (english_mixed (node_begin node) (edges (node_begin node) ! edge_index node))\<lparr>raw_end := p\<rparr>
             else japanese_mixed lower (node_begin node) p])"
proof (cases "node_english node")
  case True
  note e = node_ok_english [OF assms(1) True]
  have "node_begin node < length lower" using assms(1) by (simp add: node_ok_def)
  moreover have "(english_mixed (node_begin node) edge)\<lparr>raw_end := edge_end edge\<rparr> = english_mixed (node_begin node) edge" for edge
    by (simp add: english_mixed_def)
  ultimately show ?thesis using path_english [OF assms(2)] e True by force
next
  case False
  note e = node_ok_japanese [OF assms(1) False]
  have "node_begin node < p" "p \<le> length lower" using assms(1) by (simp_all add: node_ok_def)
  then show ?thesis using path_japanese [of raw lower edges "node_begin node" _ segs p] assms(2) e False by simp
qed

lemma node_ok_same: "same_until b nodes nodes' \<Longrightarrow> node_begin node \<le> b \<Longrightarrow> node_ok nodes' p st node = node_ok nodes p st node"
  by (simp add: node_ok_def same_until_def)

lemma Offer_ok:
  assumes "table_ok b nodes" "b < p" "node_ok nodes p st node" "node_begin node \<le> b" "cost_ok (node_cost node)"
  shows "table_ok b (Offer options (p, st, node) nodes)" "same_until b nodes (Offer options (p, st, node) nodes)"
proof -
  let ?nodes = "Offer options (p, st, node) nodes"
  have p: "p \<le> length lower" "p < length nodes" using assms(1,3) by (auto simp: node_ok_def table_ok_def)
  have here: "nodes_at ?nodes p st = offer_list (max_splits options) node (nodes_at nodes p st)"
    using p by (simp add: Offer_def)
  have other: "nodes_at ?nodes q st' = nodes_at nodes q st'" if "(q, st') \<noteq> (p, st)" for q st'
    using that by (simp add: Offer_def)
  show same: "same_until b nodes ?nodes" using other assms(2) by (auto simp: same_until_def)
  have "cost_sorted (nodes_at ?nodes q st') \<and> length (nodes_at ?nodes q st') \<le> max_splits options" if "q \<le> length lower" for q st'
    using that assms(1,5) here other offer_list_sorted offer_list_length by (cases "(q, st') = (p, st)") (auto simp: table_ok_def)
  moreover have "node_ok ?nodes q st' x \<and> node_begin x \<le> b"
    if q: "0 < q" "q \<le> length lower" and x: "x \<in> set (nodes_at ?nodes q st')" for q st' x
  proof -
    have "x \<in> set (nodes_at nodes q st') \<or> x = node \<and> q = p \<and> st' = st"
      using x here other offer_list_set [of "max_splits options" node "nodes_at nodes p st"] by (cases "(q, st') = (p, st)") auto
    then have "node_ok nodes q st' x \<and> node_begin x \<le> b" using assms(1,3,4) q by (auto simp: table_ok_def)
    then show ?thesis using node_ok_same [OF same] by simp
  qed
  moreover have "nodes_at ?nodes 0 st' = nodes_at nodes 0 st'" for st' using same by (simp add: same_until_def)
  moreover have "length ?nodes = length nodes" by (simp add: Offer_def)
  ultimately show "table_ok b ?nodes" using assms(1) by (simp add: table_ok_def)
qed

lemma Offer_covers:
  assumes "table_ok b nodes" "b < p" "p \<le> length lower" "cost_ok (node_cost node)"
  shows "covers (nodes_at (Offer options (p, st, node) nodes) p st) (node_cost node)"
    "q \<le> length lower \<Longrightarrow> cost_ok c \<Longrightarrow> covers (nodes_at nodes q st') c \<Longrightarrow> covers (nodes_at (Offer options (p, st, node) nodes) q st') c"
proof -
  have "p < length nodes" using assms(1,3) by (simp add: table_ok_def)
  then have here: "nodes_at (Offer options (p, st, node) nodes) p st = offer_list (max_splits options) node (nodes_at nodes p st)"
    by (simp add: Offer_def)
  have sorted: "cost_sorted (nodes_at nodes p st)" using assms(1,3) by (simp add: table_ok_def)
  show "covers (nodes_at (Offer options (p, st, node) nodes) p st) (node_cost node)"
    unfolding here by (rule offer_list_covers(1) [OF some_splits sorted assms(4)])
  show "covers (nodes_at (Offer options (p, st, node) nodes) q st') c" if "q \<le> length lower" "cost_ok c" "covers (nodes_at nodes q st') c"
  proof (cases "(q, st') = (p, st)")
    case True
    then show ?thesis using that here offer_list_covers(2) [OF some_splits sorted assms(4) that(2)] by simp
  next
    case False
    then show ?thesis using that by (simp add: Offer_def)
  qed
qed

definition keeps_covers :: "table \<Rightarrow> table \<Rightarrow> bool" where
  "keeps_covers nodes nodes' \<longleftrightarrow>
     (\<forall>q st c. q \<le> length lower \<longrightarrow> cost_ok c \<longrightarrow> covers (nodes_at nodes q st) c \<longrightarrow> covers (nodes_at nodes' q st) c)"

definition offer_ok :: "nat \<Rightarrow> table \<Rightarrow> nat \<times> State \<times> LatticeNode \<Rightarrow> bool" where
  "offer_ok b nodes offer \<longleftrightarrow>
     (case offer of (p, st, node) \<Rightarrow> b < p \<and> node_ok nodes p st node \<and> node_begin node = b \<and> cost_ok (node_cost node))"

definition offer_covered :: "table \<Rightarrow> nat \<times> State \<times> LatticeNode \<Rightarrow> bool" where
  "offer_covered nodes offer \<longleftrightarrow> (case offer of (p, st, node) \<Rightarrow> covers (nodes_at nodes p st) (node_cost node))"

lemma same_until_trans: "same_until b x y \<Longrightarrow> same_until b y z \<Longrightarrow> same_until b x z"
  by (simp add: same_until_def)

lemma offer_ok_same: "same_until b nodes nodes' \<Longrightarrow> offer_ok b nodes' offer = offer_ok b nodes offer"
  using node_ok_same [of b nodes nodes'] by (auto simp: offer_ok_def split: prod.split)

lemma fold_Offer:
  "table_ok b nodes \<Longrightarrow> list_all (offer_ok b nodes) offers \<Longrightarrow>
     table_ok b (fold (Offer options) offers nodes) \<and> same_until b nodes (fold (Offer options) offers nodes) \<and>
     keeps_covers nodes (fold (Offer options) offers nodes) \<and> list_all (offer_covered (fold (Offer options) offers nodes)) offers"
proof (induction offers arbitrary: nodes)
  case Nil
  then show ?case by (simp add: same_until_def keeps_covers_def)
next
  case (Cons x offers)
  obtain p st node where x: "x = (p, st, node)" by (cases x)
  let ?nodes = "Offer options (p, st, node) nodes"
  have "offer_ok b nodes (p, st, node)" using Cons.prems(2) x by simp
  then have o: "b < p" "node_ok nodes p st node" "node_begin node = b" "cost_ok (node_cost node)" by (simp_all add: offer_ok_def)
  then have p: "p \<le> length lower" by (simp add: node_ok_def)
  note step = Offer_ok [OF Cons.prems(1) o(1,2) _ o(4)] and cov = Offer_covers [OF Cons.prems(1) o(1) p o(4)]
  have same: "same_until b nodes ?nodes" and ok: "table_ok b ?nodes" using step o(3) by simp_all
  have "list_all (offer_ok b ?nodes) offers" using Cons.prems(2) offer_ok_same [OF same] by (simp add: list_all_iff)
  note IH = Cons.IH [OF ok this]
  have keep: "keeps_covers nodes ?nodes" using cov(2) by (simp add: keeps_covers_def)
  have "offer_covered (fold (Offer options) offers ?nodes) x"
    using IH cov(1) o(4) p x by (auto simp: keeps_covers_def offer_covered_def)
  then show ?case using IH x same keep by (auto simp: same_until_def keeps_covers_def)
qed

lemma rank_offers_ok:
  assumes "table_ok b nodes" "b < length lower" "rank < length (nodes_at nodes b st)"
  shows "list_all (offer_ok b nodes) (rank_offers raw lower edges b st rank (node_cost (nodes_at nodes b st ! rank)))"
proof -
  have c: "cost_ok (node_cost (nodes_at nodes b st ! rank))"
    using assms by (auto simp: table_ok_def cost_sorted_def list_all_length)
  have bd: "cost_ok (if b > 0 then BoundaryCost lower b else double_lit 0)" by (simp add: double_lit_cost)
  let ?c = "node_cost (nodes_at nodes b st ! rank)"
  have "offer_ok b nodes (edge_end edge, kAfterEnglish, \<lparr>node_cost = double_add ?c (edge_cost edge), node_begin = b, from_state = st,
      from_rank = rank, node_english = True, edge_index = i\<rparr>)" if "i < length (edges b)" "edge = edges b ! i" for i edge
    using that c assms(3) edge_bounds [OF assms(2), of edge] edge_costs [OF assms(2), of edge] double_add_cost
    by (simp add: offer_ok_def node_ok_def Let_def)
  moreover have "offer_ok b nodes (e, kAfterJapanese, \<lparr>node_cost = double_add (double_add ?c (if b > 0 then BoundaryCost lower b else double_lit 0))
      (JapaneseEdgeCost raw lower b e), node_begin = b, from_state = kAfterEnglish, from_rank = rank, node_english = False, edge_index = 0\<rparr>)"
    if "b < e" "e \<le> length lower" "st = kAfterEnglish" for e
    using that c bd assms(3) double_add_cost by (simp add: offer_ok_def node_ok_def Let_def del: if_split)
  moreover have "st = kAfterEnglish \<or> st = kAfterJapanese" by (cases st) simp_all
  ultimately show ?thesis
    by (auto simp: rank_offers_def list_all_iff Let_def in_set_enumerate_eq simp del: upt_Suc)
qed

lemma fold_concat_map: "fold (\<lambda>x s. fold f (g x) s) xs s = fold f (concat (map g xs)) s"
  by (induction xs arbitrary: s) simp_all

text \<open>What has to be covered after \<open>b\<close> was expanded in a state.\<close>

definition expanded :: "nat \<Rightarrow> State \<Rightarrow> LatticeNode list \<Rightarrow> table \<Rightarrow> bool" where
  "expanded b st here nodes \<longleftrightarrow> here = [] \<or>
     (\<forall>edge \<in> set (edges b). covers (nodes_at nodes (edge_end edge) kAfterEnglish) (double_add (node_cost (hd here)) (edge_cost edge))) \<and>
     (st = kAfterEnglish \<longrightarrow> (\<forall>e. b < e \<longrightarrow> e \<le> length lower \<longrightarrow>
        covers (nodes_at nodes e kAfterJapanese)
          (double_add (double_add (node_cost (hd here)) (if b > 0 then BoundaryCost lower b else double_lit 0)) (JapaneseEdgeCost raw lower b e))))"

lemma expand_state_ok:
  assumes "table_ok b nodes" "b < length lower"
  shows "table_ok b (expand_state raw lower edges options b st nodes)" "same_until b nodes (expand_state raw lower edges options b st nodes)"
    "keeps_covers nodes (expand_state raw lower edges options b st nodes)"
    "expanded b st (nodes_at nodes b st) (expand_state raw lower edges options b st nodes)"
proof -
  let ?here = "nodes_at nodes b st"
  define offers where "offers = concat (map (\<lambda>rank. rank_offers raw lower edges b st rank (node_cost (?here ! rank))) [0..<length ?here])"
  have eq: "expand_state raw lower edges options b st nodes = fold (Offer options) offers nodes"
    by (simp add: expand_state_def offers_def fold_concat_map Let_def)
  have "list_all (offer_ok b nodes) offers" using rank_offers_ok [OF assms] by (auto simp: offers_def list_all_iff)
  note f = fold_Offer [OF assms(1) this, folded eq]
  then show "table_ok b (expand_state raw lower edges options b st nodes)" "same_until b nodes (expand_state raw lower edges options b st nodes)"
    "keeps_covers nodes (expand_state raw lower edges options b st nodes)" by simp_all
  have "expanded b st ?here (expand_state raw lower edges options b st nodes)" if "?here \<noteq> []"
  proof -
    have first: "x \<in> set offers" if "x \<in> set (rank_offers raw lower edges b st 0 (node_cost (hd ?here)))" for x
      using that \<open>?here \<noteq> []\<close> by (auto simp: offers_def hd_conv_nth intro!: bexI [of _ 0])
    have "covers (nodes_at (expand_state raw lower edges options b st nodes) (edge_end edge) kAfterEnglish)
        (double_add (node_cost (hd ?here)) (edge_cost edge))" if ed: "edge \<in> set (edges b)" for edge
    proof -
      obtain i where i: "i < length (edges b)" "edges b ! i = edge" using ed by (auto simp: in_set_conv_nth)
      have "(edge_end edge, kAfterEnglish, \<lparr>node_cost = double_add (node_cost (hd ?here)) (edge_cost edge), node_begin = b, from_state = st,
          from_rank = 0, node_english = True, edge_index = i\<rparr>) \<in> set offers"
        using i by (intro first) (force simp: rank_offers_def in_set_enumerate_eq)
      then show ?thesis using f by (auto simp: list_all_iff offer_covered_def)
    qed
    moreover have "covers (nodes_at (expand_state raw lower edges options b st nodes) e kAfterJapanese)
        (double_add (double_add (node_cost (hd ?here)) (if b > 0 then BoundaryCost lower b else double_lit 0)) (JapaneseEdgeCost raw lower b e))"
      if "st = kAfterEnglish" "b < e" "e \<le> length lower" for e
    proof -
      have "(e, kAfterJapanese, \<lparr>node_cost = double_add (double_add (node_cost (hd ?here)) (if b > 0 then BoundaryCost lower b else double_lit 0))
          (JapaneseEdgeCost raw lower b e), node_begin = b, from_state = st, from_rank = 0, node_english = False, edge_index = 0\<rparr>) \<in> set offers"
        using that by (intro first) (simp add: rank_offers_def Let_def image_iff del: upt_Suc)
      then show ?thesis using f by (auto simp: list_all_iff offer_covered_def)
    qed
    ultimately show ?thesis by (simp add: expanded_def)
  qed
  then show "expanded b st ?here (expand_state raw lower edges options b st nodes)" by (auto simp: expanded_def)
qed

lemma table_ok_mono: "table_ok b nodes \<Longrightarrow> b \<le> b' \<Longrightarrow> table_ok b' nodes"
  unfolding table_ok_def using le_trans by blast

lemma keeps_covers_trans: "keeps_covers x y \<Longrightarrow> keeps_covers y z \<Longrightarrow> keeps_covers x z"
  by (simp add: keeps_covers_def)

lemma head_cost: "table_ok b nodes \<Longrightarrow> p \<le> length lower \<Longrightarrow> nodes_at nodes p st \<noteq> [] \<Longrightarrow> cost_ok (node_cost (hd (nodes_at nodes p st)))"
proof -
  assume "table_ok b nodes" "p \<le> length lower" "nodes_at nodes p st \<noteq> []"
  moreover from this have "cost_sorted (nodes_at nodes p st)" by (simp add: table_ok_def)
  ultimately show ?thesis by (cases "nodes_at nodes p st") (simp_all add: cost_sorted_def)
qed

definition stage :: "nat \<Rightarrow> table" where
  "stage k = fold (\<lambda>b nodes. fold (expand_state raw lower edges options b) [kAfterEnglish, kAfterJapanese] nodes) [0..<k]
     (([start_node], []) # replicate (length lower) ([], []))"

lemma stage_0_ok: "table_ok 0 (stage 0)"
proof -
  have at: "nodes_at (stage 0) p st = (if p = 0 \<and> st = kAfterEnglish then [start_node] else [])" if "p \<le> length lower" for p st
    using that by (cases st; cases p) (simp_all add: stage_def nodes_at.simps)
  have "cost_sorted [start_node]" by (simp add: cost_sorted_def start_node_def double_lit_cost)
  then show ?thesis using at some_splits by (auto simp: table_ok_def cost_sorted_def stage_def)
qed

lemma stage_step:
  assumes "table_ok b (stage b)" "b < length lower"
  shows "table_ok b (stage (Suc b))" "same_until b (stage b) (stage (Suc b))" "keeps_covers (stage b) (stage (Suc b))"
    "expanded b st (nodes_at (stage b) b st) (stage (Suc b))"
proof -
  let ?one = "expand_state raw lower edges options b kAfterEnglish (stage b)"
  note e = expand_state_ok [OF assms, of kAfterEnglish]
  note j = expand_state_ok [OF e(1) assms(2), of kAfterJapanese]
  have eq: "stage (Suc b) = expand_state raw lower edges options b kAfterJapanese ?one" by (simp add: stage_def)
  show "table_ok b (stage (Suc b))" "same_until b (stage b) (stage (Suc b))" "keeps_covers (stage b) (stage (Suc b))"
    using e j same_until_trans keeps_covers_trans unfolding eq by blast+
  show "expanded b st (nodes_at (stage b) b st) (stage (Suc b))"
  proof (cases st)
    case kAfterEnglish
    let ?here = "nodes_at (stage b) b kAfterEnglish"
    have "cost_ok (node_cost (hd ?here))" if "?here \<noteq> []" using that assms by (simp add: head_cost)
    moreover have "cost_ok (if b > 0 then BoundaryCost lower b else double_lit 0)" by (simp add: double_lit_cost)
    ultimately show ?thesis
      using e(4) j(3) kAfterEnglish edge_bounds [OF assms(2)] edge_costs [OF assms(2)] unfolding eq
      by (auto simp: expanded_def keeps_covers_def double_add_cost simp del: if_split)
  next
    case kAfterJapanese
    then show ?thesis using j(4) e(2) unfolding eq by (simp add: same_until_def)
  qed
qed

lemma stage_ok: "k \<le> length lower \<Longrightarrow> table_ok k (stage k)"
proof (induction k)
  case (Suc k)
  then show ?case using stage_step(1) [of k] table_ok_mono [of k _ "Suc k"] by simp
qed (simp add: stage_0_ok)

lemma stage_later: "k \<le> k' \<Longrightarrow> k' \<le> length lower \<Longrightarrow> same_until k (stage k) (stage k') \<and> keeps_covers (stage k) (stage k')"
proof (induction k' rule: dec_induct)
  case base
  then show ?case by (simp add: same_until_def keeps_covers_def)
next
  case (step m)
  then have "same_until m (stage m) (stage (Suc m))" "keeps_covers (stage m) (stage (Suc m))"
    using stage_step [OF stage_ok [of m]] by simp_all
  then show ?case using step by (auto simp: same_until_def keeps_covers_def)
qed

lemma build_stage: "build_table raw lower edges options = stage (length lower)"
  by (simp add: build_table_def stage_def)

lemma covers_later:
  assumes "covers (nodes_at (stage (Suc b)) q st) c" "b < length lower" "q \<le> length lower" "cost_ok c" "cost_ok c'" "double_le c c'"
  shows "covers (nodes_at (stage (length lower)) q st) c'"
proof -
  have "covers (nodes_at (stage (length lower)) q st) c"
    using stage_later [of "Suc b" "length lower"] assms(1-4) by (simp add: keeps_covers_def)
  then show ?thesis
    using head_cost [OF stage_ok assms(3)] double_le_trans [OF _ assms(4,5) _ assms(6)] by (auto simp: covers_def)
qed

lemma covered_head:
  assumes "covers (nodes_at (stage (length lower)) b st) c" "b < length lower"
  shows "nodes_at (stage b) b st \<noteq> []" "double_le (node_cost (hd (nodes_at (stage b) b st))) c"
    "cost_ok (node_cost (hd (nodes_at (stage b) b st)))"
proof -
  have eq: "nodes_at (stage (length lower)) b st = nodes_at (stage b) b st"
    using stage_later [of b "length lower"] assms(2) by (simp add: same_until_def)
  then show "nodes_at (stage b) b st \<noteq> []" "double_le (node_cost (hd (nodes_at (stage b) b st))) c" using assms(1) by (simp_all add: covers_def)
  then show "cost_ok (node_cost (hd (nodes_at (stage b) b st)))" using head_cost [OF stage_ok] assms(2) by simp
qed

text \<open>No path is cheaper than what the table has found.\<close>

lemma path_covered:
  "lattice_path raw lower edges p st c segs \<Longrightarrow> p \<le> length lower \<and> cost_ok c \<and> covers (nodes_at (stage (length lower)) p st) c"
proof (induction rule: lattice_path.induct)
  case path_start
  have "nodes_at (stage (length lower)) 0 kAfterEnglish = [start_node]" using stage_ok [of "length lower"] by (simp add: table_ok_def)
  then show ?case by (simp add: covers_def start_node_def double_lit_cost)
next
  case (path_english b st c segs edge)
  let ?h = "node_cost (hd (nodes_at (stage b) b st))"
  have h: "nodes_at (stage b) b st \<noteq> []" "double_le ?h c" "cost_ok ?h" and c: "cost_ok c"
    using covered_head [OF _ path_english(2)] path_english.IH by blast+
  note b = edge_bounds [OF path_english(2,3)] and ec = edge_costs [OF path_english(2,3)]
  have "covers (nodes_at (stage (Suc b)) (edge_end edge) kAfterEnglish) (double_add ?h (edge_cost edge))"
    using stage_step(4) [OF stage_ok path_english(2), of st] path_english(2,3) h(1) by (simp add: expanded_def)
  then have "covers (nodes_at (stage (length lower)) (edge_end edge) kAfterEnglish) (double_add c (edge_cost edge))"
    using path_english(2) b double_add_cost [OF _ ec] h c double_add_mono [OF h(3) c ec h(2)] by (blast intro: covers_later)
  then show ?case using b double_add_cost [OF c ec] by simp
next
  case (path_japanese b c segs e)
  let ?h = "node_cost (hd (nodes_at (stage b) b kAfterEnglish))" and ?bd = "if b > 0 then BoundaryCost lower b else double_lit 0"
  let ?j = "JapaneseEdgeCost raw lower b e"
  have b: "b < length lower" using path_japanese by simp
  have h: "nodes_at (stage b) b kAfterEnglish \<noteq> []" "double_le ?h c" "cost_ok ?h" and c: "cost_ok c"
    using covered_head [OF _ b] path_japanese.IH by blast+
  have bd: "cost_ok ?bd" "cost_ok ?j" by (simp_all add: double_lit_cost)
  have "covers (nodes_at (stage (Suc b)) e kAfterJapanese) (double_add (double_add ?h ?bd) ?j)"
    using stage_step(4) [OF stage_ok b, of kAfterEnglish] b path_japanese(2,3) h(1) by (simp add: expanded_def)
  moreover have "double_le (double_add (double_add ?h ?bd) ?j) (double_add (double_add c ?bd) ?j)"
    using bd h c double_add_cost by (intro double_add_mono) blast+
  ultimately have "covers (nodes_at (stage (length lower)) e kAfterJapanese) (double_add (double_add c ?bd) ?j)"
    using b path_japanese(3) bd h c double_add_cost by (blast intro: covers_later)
  then show ?case using path_japanese(3) bd c double_add_cost by simp
qed

text \<open>Every node stands for a path, and \<open>Trace\<close> finds it.\<close>

lemma trace_path:
  "p \<le> length lower \<Longrightarrow> p \<le> fuel \<Longrightarrow> rank < length (nodes_at (stage (length lower)) p st) \<Longrightarrow>
     \<exists>segs. trace_loop lower edges (stage (length lower)) fuel p st rank = Some segs \<and>
       lattice_path raw lower edges p st (node_cost (nodes_at (stage (length lower)) p st ! rank)) segs"
proof (induction fuel arbitrary: p st rank)
  case 0
  have "nodes_at (stage (length lower)) 0 st = (if st = kAfterEnglish then [start_node] else [])"
    using stage_ok [of "length lower"] by (cases st) (simp_all add: table_ok_def)
  then show ?case using 0 path_start by (auto simp: start_node_def split: if_splits)
next
  case (Suc fuel)
  let ?T = "stage (length lower)"
  have T: "table_ok (length lower) ?T" by (rule stage_ok) simp
  show ?case
  proof (cases p)
    case 0
    have "nodes_at ?T 0 st = (if st = kAfterEnglish then [start_node] else [])" using T by (cases st) (simp_all add: table_ok_def)
    then show ?thesis using 0 Suc.prems(3) path_start by (auto simp: start_node_def split: if_splits)
  next
    case (Suc p')
    define node where "node = nodes_at ?T p st ! rank"
    have ok: "node_ok ?T p st node" using T Suc.prems Suc by (auto simp: table_ok_def node_def)
    then have b: "node_begin node < p" "from_rank node < length (nodes_at ?T (node_begin node) (from_state node))" by (simp_all add: node_ok_def)
    then obtain segs where segs: "trace_loop lower edges ?T fuel (node_begin node) (from_state node) (from_rank node) = Some segs"
      "lattice_path raw lower edges (node_begin node) (from_state node)
         (node_cost (nodes_at ?T (node_begin node) (from_state node) ! from_rank node)) segs"
      using Suc.IH [of "node_begin node" "from_rank node" "from_state node"] Suc.prems Suc by auto
    have "p < length ?T" using T Suc.prems by (simp add: table_ok_def)
    moreover have "\<not> (node_english node \<and> length (edges (node_begin node)) \<le> edge_index node)"
      using node_ok_english [OF ok] by auto
    ultimately have "trace_loop lower edges ?T (Suc fuel) p st rank = Some (segs @ [if node_english node
        then (english_mixed (node_begin node) (edges (node_begin node) ! edge_index node))\<lparr>raw_end := p\<rparr> else japanese_mixed lower (node_begin node) p])"
      using segs(1) Suc.prems(3) unfolding Suc by (simp add: Let_def flip: node_def [unfolded Suc])
    then show ?thesis using node_path [OF ok segs(2)] by (simp flip: node_def)
  qed
qed

lemma Best_paths:
  "\<exists>splits. Best raw lower edges options = Some splits \<and> length splits \<le> max_splits options \<and>
     list_all (\<lambda>split. \<exists>st. lattice_path raw lower edges (length lower) st (split_cost split) (split_segments split)) splits \<and>
     sorted_wrt double_le (map split_cost splits) \<and>
     (\<forall>st c segs. lattice_path raw lower edges (length lower) st c segs \<longrightarrow> splits \<noteq> [] \<and> double_le (split_cost (hd splits)) c)"
proof -
  let ?T = "stage (length lower)" and ?n = "length lower"
  let ?cost = "\<lambda>l. node_cost (nodes_at ?T ?n (fst l) ! snd l)"
  define finals where "finals = final_nodes ?T ?n"
  have T: "table_ok ?n ?T" by (rule stage_ok) simp
  have in_table: "l \<in> set finals \<longleftrightarrow> snd l < length (nodes_at ?T ?n (fst l))" for l
    by (cases l; cases "fst l") (auto simp: finals_def final_nodes_def set_stable_sort)
  have ok: "cost_ok (?cost l)" if "l \<in> set finals" for l
    using T that in_table by (auto simp: table_ok_def cost_sorted_def list_all_length)
  have sorted: "sorted_wrt (\<lambda>a b. double_le (?cost a) (?cost b)) finals"
    unfolding finals_def final_nodes_def
    by (rule stable_sort_sorted) (use ok in \<open>simp add: finals_def final_nodes_def set_stable_sort\<close>)
  have "\<exists>split. Trace lower edges ?T ?n l = Some split \<and> split_cost split = ?cost l \<and>
      (\<exists>st. lattice_path raw lower edges ?n st (split_cost split) (split_segments split))" if "l \<in> set finals" for l
    using trace_path [of ?n ?n "snd l" "fst l"] that in_table by (fastforce simp: Trace_def)
  then obtain splits where splits: "trace_all (Trace lower edges ?T ?n) (take (max_splits options) finals) = Some splits"
    "list_all2 (\<lambda>l split. split_cost split = ?cost l \<and> (\<exists>st. lattice_path raw lower edges ?n st (split_cost split) (split_segments split)))
       (take (max_splits options) finals) splits"
    using trace_all_Some [of "take (max_splits options) finals" "Trace lower edges ?T ?n"
        "\<lambda>l split. split_cost split = ?cost l \<and> (\<exists>st. lattice_path raw lower edges ?n st (split_cost split) (split_segments split))"]
    by (meson in_set_takeD)
  have costs: "map split_cost splits = map ?cost (take (max_splits options) finals)"
    using splits(2) by (induction rule: list_all2_induct) simp_all
  have "length splits \<le> max_splits options" using list_all2_lengthD [OF splits(2)] by simp
  moreover have "list_all (\<lambda>split. \<exists>st. lattice_path raw lower edges ?n st (split_cost split) (split_segments split)) splits"
    using splits(2) by (induction rule: list_all2_induct) auto
  moreover have "sorted_wrt double_le (map split_cost splits)" unfolding costs sorted_wrt_map using sorted by (rule sorted_wrt_take)
  moreover have "splits \<noteq> [] \<and> double_le (split_cost (hd splits)) c" if path: "lattice_path raw lower edges ?n st c segs" for st c segs
  proof -
    have cov: "covers (nodes_at ?T ?n st) c" "cost_ok c" using path_covered [OF path] by simp_all
    then have mem: "(st, 0) \<in> set finals" using in_table by (simp add: covers_def)
    then obtain l rest where finals: "finals = l # rest" by (cases finals) auto
    have "double_le (?cost l) (?cost (st, 0))" using sorted mem finals by auto
    moreover have "double_le (?cost (st, 0)) c" using cov(1) by (cases "nodes_at ?T ?n st") (simp_all add: covers_def)
    moreover have "l \<in> set finals" using finals by simp
    ultimately have le: "double_le (?cost l) c" using double_le_trans [OF ok ok cov(2)] mem by blast
    have "map split_cost splits = ?cost l # map ?cost (take (max_splits options - 1) rest)"
      using costs finals some_splits by (cases "max_splits options") simp_all
    then show ?thesis using le by (cases splits) simp_all
  qed
  ultimately show ?thesis using splits(1) by (auto simp: Best_def Let_def build_stage finals_def)
qed

end

section \<open>What a split is\<close>

fun segments_from :: "nat \<Rightarrow> MixedRomajiSegment list \<Rightarrow> nat \<Rightarrow> bool" where
  "segments_from b [] e \<longleftrightarrow> b = e"
| "segments_from b (s # ss) e \<longleftrightarrow> raw_begin s = b \<and> b < raw_end s \<and> segments_from (raw_end s) ss e"

lemma segments_from_append: "segments_from b (xs @ ys) e \<longleftrightarrow> (\<exists>m. segments_from b xs m \<and> segments_from m ys e)"
  by (induction xs arbitrary: b) auto

definition apart :: "MixedRomajiSegment list \<Rightarrow> bool" where
  "apart segs = successively (\<lambda>a b. mixed_kind a = EnglishKind \<or> mixed_kind b = EnglishKind) segs"

text \<open>A Japanese segment shows the kana of its keys; an English one the keys as typed or a word that the
  dictionary has for them.\<close>

definition spelled :: "string \<Rightarrow> EnglishWordLookup option \<Rightarrow> MixedRomajiSegment \<Rightarrow> bool" where
  "spelled raw lookup seg \<longleftrightarrow>
     (case mixed_kind seg of
        JapaneseKind \<Rightarrow> mixed_kana seg = commit_kana (slice (Lower raw) (raw_begin seg) (raw_end seg))
      | EnglishKind \<Rightarrow> mixed_surface seg = slice raw (raw_begin seg) (raw_end seg) \<or>
          (case lookup of None \<Rightarrow> False
           | Some f \<Rightarrow> mixed_surface seg \<in> word_surface ` set (f (slice (Lower raw) (raw_begin seg) (raw_end seg)))))"

lemma length_Lower [simp]: "length (Lower raw) = length raw"
  by (simp add: Lower_def)

lemma english_edge_Some:
  assumes "english_edge raw lower f options b e = Some edge"
  shows "edge_end edge = e" "cost_ok (edge_cost edge)"
    "edge_surface edge = slice raw b e \<or> edge_surface edge \<in> word_surface ` set (f (slice lower b e))"
proof -
  have "hd (f (slice lower b e)) \<in> set (f (slice lower b e))" if "f (slice lower b e) \<noteq> []" using that by simp
  then show "edge_end edge = e" "cost_ok (edge_cost edge)"
    "edge_surface edge = slice raw b e \<or> edge_surface edge \<in> word_surface ` set (f (slice lower b e))"
    using assms by (auto simp: english_edge_def Let_def split: if_splits)
qed

lemma english_edges_mem:
  assumes "edge \<in> set (english_edges raw lower f options b)"
  shows "english_edge raw lower f options b (edge_end edge) = Some edge" "b < edge_end edge" "edge_end edge \<le> length lower"
proof -
  obtain e where e: "e \<in> set [b + max (if IsAsciiUpper (raw ! b) then min_shift_inline_english_length options
      else min_inline_english_length options) 1..<Suc (min (length lower) (b + max_inline_english_length options))]"
    "english_edge raw lower f options b e = Some edge"
    using assms by (auto simp: english_edges_def Let_def List.map_filter_def simp del: upt_Suc)
  then have "edge_end edge = e" by (simp add: english_edge_Some(1))
  with e show "english_edge raw lower f options b (edge_end edge) = Some edge" "b < edge_end edge" "edge_end edge \<le> length lower"
    by (simp_all only: set_upt atLeastLessThan_iff) linarith+
qed

interpretation typed_lattice: english_lattice raw "Lower raw" "english_edges raw (Lower raw) f options" "options\<lparr>max_splits := Suc k\<rparr>"
  for raw f options k
  by unfold_locales (auto dest: english_edges_mem english_edge_Some(2) [OF english_edges_mem(1)])

lemma path_partition:
  "lattice_path raw (Lower raw) (english_edges raw (Lower raw) f options) p st c segs \<Longrightarrow>
     segments_from 0 segs p \<and> apart segs \<and> (segs \<noteq> [] \<longrightarrow> st = kAfterEnglish \<longrightarrow> mixed_kind (last segs) = EnglishKind) \<and>
     list_all (spelled raw (Some f)) segs"
proof (induction rule: lattice_path.induct)
  case path_start
  then show ?case by (simp add: apart_def)
next
  case (path_english b st c segs edge)
  note e = english_edges_mem [OF path_english(3)]
  have "spelled raw (Some f) (english_mixed b edge)"
    using english_edge_Some(3) [OF e(1)] by (simp add: spelled_def english_mixed_def empty_mixed_def)
  then show ?case using path_english.IH e
    by (auto simp: segments_from_append apart_def successively_append_iff english_mixed_def empty_mixed_def)
next
  case (path_japanese b c segs e)
  have "spelled raw (Some f) (japanese_mixed (Lower raw) b e)" by (simp add: spelled_def japanese_mixed_def empty_mixed_def)
  then show ?case using path_japanese
    by (auto simp: segments_from_append apart_def successively_append_iff japanese_mixed_def empty_mixed_def)
qed

text \<open>C33: The search is exact: whatever the dictionary, the first split that it returns is a path of the
  lattice with its cost, and no path through the whole text costs less, all costs added in double
  arithmetic in the order of the segments.\<close>

theorem Best_is_cheapest:
  assumes "lattice_path raw (Lower raw) (english_edges raw (Lower raw) f options) (length raw) st c segs" "0 < max_splits options"
  shows "\<exists>best rest. Best raw (Lower raw) (english_edges raw (Lower raw) f options) options = Some (best # rest) \<and>
    (\<exists>st'. lattice_path raw (Lower raw) (english_edges raw (Lower raw) f options) (length raw) st' (split_cost best) (split_segments best)) \<and>
    \<not> double_lt c (split_cost best)"
proof -
  have "options\<lparr>max_splits := Suc (max_splits options - 1)\<rparr> = options" using assms(2) by simp
  then obtain splits where splits: "Best raw (Lower raw) (english_edges raw (Lower raw) f options) options = Some splits"
    "list_all (\<lambda>split. \<exists>st. lattice_path raw (Lower raw) (english_edges raw (Lower raw) f options) (length raw) st (split_cost split)
      (split_segments split)) splits"
    "splits \<noteq> []" "double_le (split_cost (hd splits)) c"
    using typed_lattice.Best_paths [of raw f options "max_splits options - 1"] assms(1) by auto
  then obtain best rest where "splits = best # rest" by (cases splits) auto
  then show ?thesis using splits by (auto simp: double_le_def)
qed

theorem Best_is_cheapest_witness:
  "\<exists>best rest. Best ''gitwo'' ''gitwo'' (english_edges ''gitwo'' ''gitwo'' (\<lambda>key. if key = ''git'' then [\<lparr>word_surface = ''Git'', word_flags = 0\<rparr>] else [])
     (default_split_options\<lparr>split_inline := True\<rparr>)) (default_split_options\<lparr>split_inline := True\<rparr>) = Some (best # rest)"
proof -
  have lower: "Lower ''gitwo'' = ''gitwo''" by (simp add: Lower_def IsAsciiUpper_def)
  let ?o = "default_split_options\<lparr>split_inline := True\<rparr>"
  let ?e = "english_edges ''gitwo'' ''gitwo'' (\<lambda>key. if key = ''git'' then [\<lparr>word_surface = ''Git'', word_flags = 0\<rparr>] else []) ?o"
  have "lattice_path ''gitwo'' ''gitwo'' ?e (length ''gitwo'') kAfterJapanese
      (double_add (double_add (double_lit 0) (if 0 < (0::nat) then BoundaryCost ''gitwo'' 0 else double_lit 0)) (JapaneseEdgeCost ''gitwo'' ''gitwo'' 0 (length ''gitwo'')))
      ([] @ [japanese_mixed ''gitwo'' 0 (length ''gitwo'')])"
    by (rule path_japanese [OF path_start]) simp_all
  from Best_is_cheapest [of "''gitwo''" "\<lambda>key. if key = ''git'' then [\<lparr>word_surface = ''Git'', word_flags = 0\<rparr>] else []" ?o, unfolded lower, OF this]
  show ?thesis by (auto simp: default_split_options_def)
qed

text \<open>Splitting never fails and loses no key. Every split covers the typed text with nonempty segments
  that follow each other without gap, no two Japanese ones in a row; each shows the kana of its keys, or
  the keys as typed, or a word of the dictionary for them. There are at most as many splits as asked for,
  and none exactly when the text is empty, too long, not printable, or none was asked for.\<close>

theorem SplitMixedRomaji_partition:
  "\<exists>splits. SplitMixedRomaji raw lookup options = Some splits \<and> length splits \<le> max_splits options \<and>
     (splits \<noteq> [] \<longleftrightarrow> raw \<noteq> [] \<and> length raw \<le> max_raw_length options \<and> 0 < max_splits options \<and> list_all IsPrintableAscii raw) \<and>
     list_all (\<lambda>split. segments_from 0 (split_segments split) (length raw) \<and> apart (split_segments split) \<and>
       list_all (spelled raw lookup) (split_segments split)) splits"
proof (cases "raw = [] \<or> length raw > max_raw_length options \<or> max_splits options = 0 \<or> \<not> list_all IsPrintableAscii raw")
  case True
  then show ?thesis by (auto simp: SplitMixedRomaji_def)
next
  case False
  let ?ok = "\<lambda>splits. length splits \<le> max_splits options \<and> splits \<noteq> [] \<and>
    list_all (\<lambda>split. segments_from 0 (split_segments split) (length raw) \<and> apart (split_segments split) \<and>
      list_all (spelled raw lookup) (split_segments split)) splits"
  have whole: "slice raw 0 (length raw) = raw" "slice (Lower raw) 0 (length raw) = Lower raw" by (simp_all add: slice_def)
  have single: "?ok [\<lparr>split_segments = [seg], split_cost = c\<rparr>]"
    if "raw_begin seg = 0" "raw_end seg = length raw" "spelled raw lookup seg" for seg c
    using that False by (auto simp: apart_def Suc_le_eq)
  have best: "\<exists>splits. Best raw (Lower raw) (english_edges raw (Lower raw) f options) options = Some splits \<and> ?ok splits" if f: "lookup = Some f" for f
  proof -
    have o: "options\<lparr>max_splits := Suc (max_splits options - 1)\<rparr> = options" using False by simp
    have "lattice_path raw (Lower raw) (english_edges raw (Lower raw) f options) (length raw) kAfterJapanese
      (double_add (double_add (double_lit 0) (if 0 < (0::nat) then BoundaryCost (Lower raw) 0 else double_lit 0)) (JapaneseEdgeCost raw (Lower raw) 0 (length raw)))
      ([] @ [japanese_mixed (Lower raw) 0 (length raw)])"
      using False by (intro path_japanese [OF path_start]) simp_all
    then show ?thesis
      using typed_lattice.Best_paths [of raw f options "max_splits options - 1"] path_partition [of raw f options] f
      unfolding o by (fastforce simp: list_all_iff)
  qed
  define fallback where "fallback = [\<lparr>split_segments = [if HasAsciiLetter (Lower raw) \<and> length raw \<ge> min_english_length options \<and> IsAsciiUpper (hd raw)
      then empty_mixed\<lparr>raw_end := length raw, mixed_kind := EnglishKind, mixed_surface := raw, mixed_confidence := HighConfidence\<rparr>
      else empty_mixed\<lparr>raw_end := length raw, mixed_kana := commit_kana (Lower raw)\<rparr>], split_cost = double_lit 0\<rparr>]"
  have fallback: "?ok fallback" unfolding fallback_def
    by (rule single) (simp_all add: spelled_def empty_mixed_def whole)
  have word: "?ok [\<lparr>split_segments = [empty_mixed\<lparr>raw_end := length raw, mixed_kind := EnglishKind,
      mixed_surface := (if list_ex IsAsciiUpper raw then raw else word_surface (hd (f (Lower raw)))), mixed_confidence := x\<rparr>], split_cost = double_lit 0\<rparr>]"
    if "lookup = Some f" "f (Lower raw) \<noteq> []" for f x
    by (rule single) (use that in \<open>simp_all add: spelled_def empty_mixed_def whole\<close>)
  have "\<exists>splits. SplitMixedRomaji raw lookup options = Some splits \<and> ?ok splits"
  proof (cases lookup)
    case None
    then show ?thesis using False fallback by (simp add: SplitMixedRomaji_def Let_def fallback_def)
  next
    case (Some f)
    obtain splits where b: "Best raw (Lower raw) (english_edges raw (Lower raw) f options) options = Some splits" "?ok splits"
      using best [OF Some] by blast
    have "SplitMixedRomaji raw lookup options =
      (if HasAsciiLetter (Lower raw) \<and> length raw \<ge> min_english_length options \<and> f (Lower raw) \<noteq> [] then
         Some [\<lparr>split_segments = [empty_mixed\<lparr>raw_end := length raw, mixed_kind := EnglishKind,
           mixed_surface := (if list_ex IsAsciiUpper raw then raw else word_surface (hd (f (Lower raw)))),
           mixed_confidence := (if IsAsciiUpper (hd raw) \<or> HasAsciiLetter (commit_kana (Lower raw)) then HighConfidence else LowConfidence)\<rparr>],
           split_cost = double_lit 0\<rparr>]
       else if split_inline options \<and> HasAsciiLetter (Lower raw) \<and> HasEnglishEdge raw (Lower raw) f options then
         Some (if splits \<noteq> [] \<and> list_ex (\<lambda>s. mixed_kind s = EnglishKind) (split_segments (hd splits)) \<or> \<not> IsAsciiUpper (hd raw)
               then splits else fallback)
       else Some fallback)"
      using False Some b(1) by (simp add: SplitMixedRomaji_def Let_def fallback_def)
    then show ?thesis using b(2) fallback word [OF Some] by (simp split: if_split)
  qed
  then show ?thesis using False by auto
qed

section \<open>Readable words inside a segment\<close>

lemma readable_ends_mem:
  "a \<in> set (readable_ends raw lower f adopted index s t ac hc b es) \<Longrightarrow> \<exists>e \<in> set es. readable_at raw lower f adopted index s t ac hc b e = Some a"
  by (induction es) (auto simp: Let_def split: if_splits option.splits)

lemma guarded_concat_mem:
  assumes "a \<in> set (if P then [] else concat (map (\<lambda>b. if Q b then [] else E b) xs))"
  obtains b where "\<not> P" "b \<in> set xs" "a \<in> set (E b)"
  using assms by (auto split: if_splits)

lemma readable_in_segment_mem:
  assumes "a \<in> set (readable_in_segment raw lower f options adopted index)"
  obtains b e ac hc where "mixed_kind (split_segments adopted ! index) = JapaneseKind"
    "b \<in> set [raw_begin (split_segments adopted ! index)..<raw_end (split_segments adopted ! index)]"
    "e \<in> set [b + max (min_readable_english_length options) (min_inline_english_length options)..<
      Suc (min (raw_end (split_segments adopted ! index)) (b + max_inline_english_length options))]"
    "readable_at raw lower f adopted index (raw_begin (split_segments adopted ! index)) (raw_end (split_segments adopted ! index)) ac hc b e = Some a"
  using assms unfolding readable_in_segment_def Let_def
  by (elim guarded_concat_mem) (drule readable_ends_mem, elim bexE, blast)

lemma alternatives_mem:
  assumes "a \<in> set (ReadableEnglishAlternatives raw adopted (Some f) options)"
    "0 < max (min_readable_english_length options) (min_inline_english_length options)"
  obtains index b e ac hc where "index < length (split_segments adopted)" "mixed_kind (split_segments adopted ! index) = JapaneseKind"
    "raw_begin (split_segments adopted ! index) \<le> b" "b < e" "e \<le> raw_end (split_segments adopted ! index)"
    "readable_at raw (Lower raw) f adopted index (raw_begin (split_segments adopted ! index)) (raw_end (split_segments adopted ! index)) ac hc b e = Some a"
proof -
  obtain index where index: "index < length (split_segments adopted)" "a \<in> set (readable_in_segment raw (Lower raw) f options adopted index)"
    using assms(1) by (auto simp: ReadableEnglishAlternatives_def Let_def split: if_splits dest!: in_set_takeD)
  from index(2) obtain b e ac hc where
    kind: "mixed_kind (split_segments adopted ! index) = JapaneseKind" and
    b: "b \<in> set [raw_begin (split_segments adopted ! index)..<raw_end (split_segments adopted ! index)]" and
    e: "e \<in> set [b + max (min_readable_english_length options) (min_inline_english_length options)..<
      Suc (min (raw_end (split_segments adopted ! index)) (b + max_inline_english_length options))]" and
    at: "readable_at raw (Lower raw) f adopted index (raw_begin (split_segments adopted ! index)) (raw_end (split_segments adopted ! index)) ac hc b e = Some a"
    by (rule readable_in_segment_mem)
  have "b < e" "e \<le> raw_end (split_segments adopted ! index)"
    using e assms(2) unfolding set_upt atLeastLessThan_iff by linarith+
  then show thesis using that [OF index(1) kind _ _ _ at] b by simp
qed

text \<open>Every readable alternative is again such a split: given that the adopted one covers the text
  without gap, has no two Japanese segments in a row and shows what its keys spell, so does the
  alternative, and the segment it names is an English one that turns English only when asked.\<close>

lemma ReadableEnglishAlternatives_partition:
  assumes "a \<in> set (ReadableEnglishAlternatives raw adopted (Some f) options)"
    "0 < max (min_readable_english_length options) (min_inline_english_length options)"
    "segments_from 0 (split_segments adopted) (length raw)" "apart (split_segments adopted)"
    "list_all (spelled raw (Some f)) (split_segments adopted)"
  shows "segments_from 0 (split_segments (alternative_split a)) (length raw) \<and> apart (split_segments (alternative_split a)) \<and>
    list_all (spelled raw (Some f)) (split_segments (alternative_split a)) \<and>
    english_segment a < length (split_segments (alternative_split a)) \<and>
    mixed_kind (split_segments (alternative_split a) ! english_segment a) = EnglishKind \<and>
    mixed_confidence (split_segments (alternative_split a) ! english_segment a) = LowConfidence"
proof -
  from alternatives_mem [OF assms(1,2)] obtain index b e ac hc where
    index: "index < length (split_segments adopted)" and kind: "mixed_kind (split_segments adopted ! index) = JapaneseKind" and
    b: "raw_begin (split_segments adopted ! index) \<le> b" "b < e" "e \<le> raw_end (split_segments adopted ! index)" and
    at: "readable_at raw (Lower raw) f adopted index (raw_begin (split_segments adopted ! index)) (raw_end (split_segments adopted ! index)) ac hc b e = Some a" .
  define seg pre post where "seg = split_segments adopted ! index" and "pre = take index (split_segments adopted)" and
    "post = drop (index + 1) (split_segments adopted)"
  let ?s = "raw_begin seg" and ?t = "raw_end seg" and ?key = "slice (Lower raw) b e"
  let ?head = "if b > ?s then [empty_mixed\<lparr>raw_begin := ?s, raw_end := b, mixed_kana := commit_kana (slice (Lower raw) ?s b)\<rparr>] else []"
  let ?tail = "if e < ?t then [empty_mixed\<lparr>raw_begin := e, raw_end := ?t, mixed_kana := commit_kana (slice (Lower raw) e ?t)\<rparr>] else []"
  let ?word = "empty_mixed\<lparr>mixed_kind := EnglishKind, raw_begin := b, raw_end := e, mixed_surface := word_surface (hd (f ?key))\<rparr>"
  have parts: "split_segments adopted = pre @ seg # post" using index by (simp add: seg_def pre_def post_def id_take_nth_drop)
  have segs: "split_segments (alternative_split a) = (pre @ ?head) @ ?word # ?tail @ post" and i: "english_segment a = length (pre @ ?head)"
    and m: "list_ex (\<lambda>m. word_flags m = 0 \<and> word_surface m = ?key) (f ?key)"
    using at by (auto simp: readable_at_def Let_def seg_def pre_def post_def split: if_splits)
  have "f ?key \<noteq> []" using m by auto
  then have word: "spelled raw (Some f) ?word" by (simp add: spelled_def empty_mixed_def)
  have japanese: "spelled raw (Some f) (empty_mixed\<lparr>raw_begin := x, raw_end := y, mixed_kana := commit_kana (slice (Lower raw) x y)\<rparr>)" for x y
    by (simp add: spelled_def empty_mixed_def)
  have b': "?s \<le> b" "b < e" "e \<le> ?t" using b by (simp_all add: seg_def)
  have "segments_from 0 (split_segments (alternative_split a)) (length raw)"
    using assms(3) b' unfolding parts segs by (cases "b = ?s"; cases "e = ?t") (auto simp: segments_from_append empty_mixed_def)
  moreover have "apart (split_segments (alternative_split a))"
    using assms(4) kind [folded seg_def] unfolding parts segs
    by (auto simp: apart_def successively_append_iff successively_Cons empty_mixed_def)
  moreover have "list_all (spelled raw (Some f)) (split_segments (alternative_split a))"
    using assms(5) word japanese unfolding parts segs by simp
  ultimately show ?thesis unfolding segs i by (simp add: nth_append empty_mixed_def)
qed

end
