(* ===== verification/BatchConversionChunker.thy ===== *)
theory BatchConversionChunker
  imports Romaji
begin

text \<open>
  The splitting of batch conversion input (\<open>core/include/azookey/core/BatchConversionChunker.h\<close>):
  raw romaji into transport chunks with their readings, and text into model chunks at sentence
  ends. Both loops are recursions over what is left of the input; the theorems state that nothing
  is lost or duplicated, where a chunk may end and how long it can get.
\<close>

definition kModelChunkBytes :: nat where
  "kModelChunkBytes = 96"

definition kIpcChunkBytes :: nat where
  "kIpcChunkBytes = 512"

definition kPendingRomajiSlackBytes :: nat where
  "kPendingRomajiSlackBytes = 4"

record BatchRomajiChunk =
  raw_romaji :: string
  reading :: string

definition empty_chunk :: BatchRomajiChunk where
  "empty_chunk = \<lparr>raw_romaji = [], reading = []\<rparr>"

section \<open>Raw romaji\<close>

text \<open>The condition under which the loop closes the current chunk; \<open>rest\<close> is the input after it.\<close>

definition chunk_full :: "nat \<Rightarrow> romaji \<Rightarrow> BatchRomajiChunk \<Rightarrow> string \<Rightarrow> bool" where
  "chunk_full max_bytes converter current rest \<longleftrightarrow>
     (rest = [] \<or> ord (hd rest) AND 0xC0 \<noteq> 0x80) \<and>
     length (raw_romaji current) \<ge> max_bytes \<and> reading current \<noteq> [] \<and>
     (\<not> HasPending converter \<or>
      length (raw_romaji current) \<ge> max_bytes + kPendingRomajiSlackBytes)"

text \<open>The \<open>for\<close> loop over the input, on the converter, the current chunk and the finished ones.\<close>

fun split_romaji_loop :: "nat \<Rightarrow> string \<Rightarrow> romaji \<Rightarrow> BatchRomajiChunk \<Rightarrow> BatchRomajiChunk list \<Rightarrow>
    romaji \<times> BatchRomajiChunk \<times> BatchRomajiChunk list" where
  "split_romaji_loop max_bytes [] converter current chunks = (converter, current, chunks)"
| "split_romaji_loop max_bytes (c # rest) converter current chunks =
     (let (out, converter') = Feed converter c;
          current' = \<lparr>raw_romaji = raw_romaji current @ [c], reading = reading current @ out\<rparr>
      in if chunk_full max_bytes converter' current' rest
         then split_romaji_loop max_bytes rest converter' empty_chunk (chunks @ [current'])
         else split_romaji_loop max_bytes rest converter' current' chunks)"

definition SplitBatchRomaji :: "string \<Rightarrow> nat \<Rightarrow> custom_table option \<Rightarrow> BatchRomajiChunk list" where
  "SplitBatchRomaji raw max_bytes table =
     (let (converter, current0, chunks) =
            split_romaji_loop max_bytes raw (SetCustomTable table romaji_init) empty_chunk [];
          current = current0\<lparr>reading := reading current0 @ fst (Flush converter)\<rparr>
      in if raw_romaji current = [] \<and> chunks \<noteq> []
         then butlast chunks @ [last chunks\<lparr>reading := reading (last chunks) @ reading current\<rparr>]
         else if raw_romaji current \<noteq> [] \<or> reading current \<noteq> [] then chunks @ [current]
         else chunks)"

lemma split_romaji_loop_concat:
  "split_romaji_loop m raw conv cur chunks = (conv', cur', chunks') \<Longrightarrow>
     concat (map raw_romaji chunks') @ raw_romaji cur' = concat (map raw_romaji chunks) @ raw_romaji cur @ raw \<and>
     concat (map reading chunks') @ reading cur' =
       concat (map reading chunks) @ reading cur @ fst (feed_all conv raw) \<and>
     conv' = snd (feed_all conv raw)"
proof (induction m raw conv cur chunks arbitrary: conv' cur' chunks' rule: split_romaji_loop.induct)
  case (2 m c rest conv cur chunks)
  obtain out conv1 where f: "Feed conv c = (out, conv1)" by fastforce
  let ?cur = "\<lparr>raw_romaji = raw_romaji cur @ [c], reading = reading cur @ out\<rparr>"
  show ?case
  proof (cases "chunk_full m conv1 ?cur rest")
    case True
    then show ?thesis
      using 2(1) [OF f [symmetric] refl refl True] 2(3) f
      by (simp add: Let_def empty_chunk_def case_prod_beta)
  next
    case False
    then show ?thesis
      using 2(2) [OF f [symmetric] refl refl False] 2(3) f
      by (simp add: Let_def case_prod_beta)
  qed
qed simp

text \<open>Splitting romaji loses nothing: the raw parts put together are the input, and the
  readings put together are the reading that committing the whole input at once would give.\<close>

theorem SplitBatchRomaji_lossless:
  "concat (map raw_romaji (SplitBatchRomaji raw max_bytes table)) = raw \<and>
   concat (map reading (SplitBatchRomaji raw max_bytes table)) = ConvertForCommit raw table"
proof -
  obtain conv cur chunks where l:
    "split_romaji_loop max_bytes raw (SetCustomTable table romaji_init) empty_chunk [] = (conv, cur, chunks)"
    by (metis prod.exhaust)
  have c: "concat (map raw_romaji chunks) @ raw_romaji cur = raw"
    "concat (map reading chunks) @ reading cur @ fst (Flush conv) = ConvertForCommit raw table"
    using split_romaji_loop_concat [OF l]
    by (simp_all add: empty_chunk_def ConvertForCommit_def case_prod_beta flip: append_assoc)
  show ?thesis
  proof (cases "raw_romaji cur = [] \<and> chunks \<noteq> []")
    case True
    then show ?thesis
      using c concat_map_butlast [of chunks raw_romaji] concat_map_butlast [of chunks reading]
      by (simp add: SplitBatchRomaji_def l Let_def flip: append_assoc)
  next
    case False
    then show ?thesis using c by (auto simp: SplitBatchRomaji_def l Let_def)
  qed
qed

subsection \<open>The size of a chunk\<close>

text \<open>A key that produces no text is added to the pending input.\<close>

lemma Feed_silent:
  assumes "custom_table r = None" "fst (Feed r c) = []"
  shows "pending (snd (Feed r c)) = pending r @ [tolower c]"
proof -
  have cp: "pending (snd (ConvertPending f r')) = pending r'"
    if "custom_table r' = None" "fst (ConvertPending f r') = []" for f r'
    using that builtin_loop_silent [of f "pending r'"] by (auto simp: ConvertPending_def split: prod.splits)
  have kana_nonempty: "kana_n \<noteq> []" "kana_small_tsu \<noteq> []" "kana_long_vowel \<noteq> []"
    by (auto simp: kana_n_def kana_small_tsu_def kana_long_vowel_def AppendUtf8_def)
  let ?r = "r\<lparr>pending := pending r @ [tolower c]\<rparr>"
  define P where "P x \<longleftrightarrow> (fst x = [] \<longrightarrow> x = ConvertPending False ?r)" for x
  have *: "P x \<Longrightarrow> P y \<Longrightarrow> P (if b then x else y)" for b x y by simp
  have "P (Feed r c)"
    unfolding Feed_def Let_def assms(1) option.case case_prod_beta
    by (intro *) (simp_all only: P_def fst_conv append_is_Nil_conv list.simps kana_nonempty simp_thms)
  then show ?thesis using assms cp [of ?r False] by (simp add: P_def)
qed

lemma split_romaji_loop_sizes:
  "split_romaji_loop m raw conv cur chunks = (conv', cur', chunks') \<Longrightarrow> 3 \<le> m \<Longrightarrow> builtin_ok conv \<Longrightarrow>
     list_all (\<lambda>c. ord c < 0x80) raw \<Longrightarrow>
     (reading cur = [] \<longrightarrow> length (raw_romaji cur) \<le> length (pending conv)) \<Longrightarrow>
     length (raw_romaji cur) < m + 4 \<Longrightarrow> list_all (\<lambda>c. length (raw_romaji c) \<le> m + 4) chunks \<Longrightarrow>
     list_all (\<lambda>c. length (raw_romaji c) \<le> m + 4) (cur' # chunks')"
proof (induction m raw conv cur chunks arbitrary: conv' cur' chunks' rule: split_romaji_loop.induct)
  case (2 m c rest conv cur chunks)
  obtain out conv1 where f: "Feed conv c = (out, conv1)" by fastforce
  let ?cur = "\<lparr>raw_romaji = raw_romaji cur @ [c], reading = reading cur @ out\<rparr>"
  have ok: "builtin_ok conv1" using builtin.ok_feed [OF 2(5)] f by (metis snd_conv)
  have silent: "out = [] \<Longrightarrow> length (pending conv1) = length (pending conv) + 1"
    using Feed_silent [of conv c] 2(5) f by (simp add: builtin_ok_def)
  have grow: "reading ?cur = [] \<longrightarrow> length (raw_romaji ?cur) \<le> length (pending conv1)"
    using 2(7) silent by auto
  show ?case
  proof (cases "chunk_full m conv1 ?cur rest")
    case True
    then show ?thesis
      using 2(1) [OF f [symmetric] refl refl True _ 2(4) ok] 2(3,6,8,9) f
      by (simp add: Let_def empty_chunk_def)
  next
    case False
    have ascii: "rest = [] \<or> ord (hd rest) AND 0xC0 \<noteq> 0x80"
      using 2(6) is_continuation_iff [of "hd rest"] by (cases rest) (auto simp: is_continuation_def)
    have "length (raw_romaji ?cur) < m + 4"
    proof (rule ccontr)
      assume "\<not> length (raw_romaji ?cur) < m + 4"
      then have len: "length (raw_romaji ?cur) \<ge> m + 4" by simp
      have "length (pending conv1) \<le> 3" using ok by (simp add: builtin_ok_def)
      then have "reading ?cur \<noteq> []" using grow len 2(4) by linarith
      then show False
        using False len ascii by (simp add: chunk_full_def kPendingRomajiSlackBytes_def)
    qed
    then show ?thesis
      using 2(2) [OF f [symmetric] refl refl False _ 2(4) ok _ grow] 2(3,6,9) f False
      by (simp add: Let_def)
  qed
qed simp

text \<open>With the built-in table a chunk of ASCII input exceeds its budget by at most the four bytes
  of slack.\<close>

theorem SplitBatchRomaji_bounded:
  assumes "3 \<le> max_bytes" "list_all (\<lambda>c. ord c < 0x80) raw"
  shows "list_all (\<lambda>chunk. length (raw_romaji chunk) \<le> max_bytes + kPendingRomajiSlackBytes)
    (SplitBatchRomaji raw max_bytes None)"
proof -
  obtain conv cur chunks where l:
    "split_romaji_loop max_bytes raw (SetCustomTable None romaji_init) empty_chunk [] = (conv, cur, chunks)"
    by (metis prod.exhaust)
  have "list_all (\<lambda>c. length (raw_romaji c) \<le> max_bytes + 4) (cur # chunks)"
    by (rule split_romaji_loop_sizes [OF l assms(1) _ assms(2)])
      (auto simp: empty_chunk_def builtin_ok_def SetCustomTable_def romaji_init_def)
  then have all: "\<forall>c \<in> set (cur # chunks). length (raw_romaji c) \<le> max_bytes + 4"
    by (simp add: list_all_iff)
  show ?thesis
    using all last_in_set [of chunks]
    by (auto simp: SplitBatchRomaji_def l Let_def kPendingRomajiSlackBytes_def list_all_iff
        dest: in_set_butlastD)
qed

theorem SplitBatchRomaji_bounded_witness:
  "list_all (\<lambda>chunk. length (raw_romaji chunk) \<le> 7) (SplitBatchRomaji ''kkkkkkkkkkkka'' 3 None)"
  using SplitBatchRomaji_bounded [of 3 "''kkkkkkkkkkkka''"]
  by (simp add: kPendingRomajiSlackBytes_def)

section \<open>Text\<close>

definition ends_sentence :: "codepoint \<Rightarrow> bool" where
  "ends_sentence codepoint \<longleftrightarrow>
     codepoint = 0x3002 \<or> codepoint = 0xff01 \<or> codepoint = 0xff1f \<or> codepoint = 0x0a \<or>
     codepoint = 0x2e \<or> codepoint = 0x21 \<or> codepoint = 0x3f"

text \<open>The inner \<open>while\<close> loop: where the chunk that starts at \<open>begin\<close> ends.\<close>

function chunk_end :: "string \<Rightarrow> nat \<Rightarrow> nat \<Rightarrow> nat \<Rightarrow> nat" where
  "chunk_end text max_bytes start stop =
     (if stop < length text then
        (case DecodeNextUtf8 text stop 0 of (ok, next, codepoint) \<Rightarrow>
           if next - start > max_bytes \<and> stop \<noteq> start then stop
           else if ends_sentence codepoint then next
           else chunk_end text max_bytes start next)
      else stop)"
  by pat_completeness auto
termination
  by (relation "measure (\<lambda>(text, max_bytes, start, stop). length text - stop)")
    (auto dest!: DecodeNextUtf8_advance)

declare chunk_end.simps [simp del]

lemma chunk_end_ge: "stop \<le> chunk_end s m start stop"
proof (induction s m start stop rule: chunk_end.induct)
  case (1 s m start stop)
  obtain ok j cp where d: "DecodeNextUtf8 s stop 0 = (ok, j, cp)" by (metis prod.exhaust)
  show ?case
  proof (cases "stop < length s")
    case True
    then have "stop < j" using DecodeNextUtf8_advance [OF d [symmetric]] by simp
    then show ?thesis
      using 1 [OF True d [symmetric] refl] by (subst chunk_end.simps) (auto simp: d)
  next
    case False
    then show ?thesis by (simp add: chunk_end.simps)
  qed
qed

lemma chunk_end_progress: "start < length s \<Longrightarrow> start < chunk_end s m start start"
proof -
  assume b: "start < length s"
  obtain ok j cp where d: "DecodeNextUtf8 s start 0 = (ok, j, cp)" by (metis prod.exhaust)
  have "start < j" using DecodeNextUtf8_advance [OF d [symmetric] b] .
  then show ?thesis using b chunk_end_ge [of j s m start] by (subst chunk_end.simps) (auto simp: d)
qed

function split_conversion_loop :: "string \<Rightarrow> nat \<Rightarrow> nat \<Rightarrow> string list" where
  "split_conversion_loop text max_bytes start =
     (if start < length text then
        (let stop = chunk_end text max_bytes start start in
         take (stop - start) (drop start text) # split_conversion_loop text max_bytes stop)
      else [])"
  by pat_completeness auto
termination
proof (relation "measure (\<lambda>(text, max_bytes, start). length text - start)", goal_cases)
  case (2 s max_bytes start)
  then show ?case using chunk_end_progress [of start s max_bytes] by auto
qed simp

declare split_conversion_loop.simps [simp del]

definition SplitBatchConversion :: "string \<Rightarrow> nat \<Rightarrow> string list" where
  "SplitBatchConversion text max_bytes = split_conversion_loop text max_bytes 0"

lemma split_conversion_loop_concat:
  "concat (split_conversion_loop s m start) = drop start s \<and> [] \<notin> set (split_conversion_loop s m start)"
proof (induction s m start rule: split_conversion_loop.induct)
  case (1 s m start)
  show ?case
  proof (cases "start < length s")
    case True
    let ?e = "chunk_end s m start start"
    have p: "start < ?e" using chunk_end_progress True by blast
    then have "take (?e - start) (drop start s) @ drop ?e s = drop start s"
      by (metis append_take_drop_id drop_drop le_add_diff_inverse2 less_imp_le)
    then show ?thesis
      using 1 [OF True refl] True p by (subst (1 2) split_conversion_loop.simps) (simp add: Let_def)
  next
    case False
    then show ?thesis by (simp add: split_conversion_loop.simps)
  qed
qed

lemma DecodeNextUtf8_scalar:
  assumes "is_scalar cp"
  shows "DecodeNextUtf8 (pre @ utf8 cp @ post) (length pre) 0 = (True, length pre + length (utf8 cp), cp)"
proof -
  have "decode_next (pre @ utf8 cp @ post) (length pre) = Some (cp, length pre + length (utf8 cp))"
    using core_decoder.decode_encoded assms by simp
  then show ?thesis by (auto simp: decode_next_def split: prod.splits if_splits)
qed

text \<open>On the encoding of scalar values the inner loop ends between two of them, within the budget.\<close>

lemma chunk_end_scalars:
  assumes "list_all is_scalar (xs @ ys)" "length (utf8s xs) \<le> m \<or> length xs \<le> 1"
  shows "\<exists>zs ws. ys = zs @ ws \<and>
    chunk_end (pre @ utf8s (xs @ ys)) m (length pre) (length (pre @ utf8s xs)) = length (pre @ utf8s (xs @ zs)) \<and>
    (length (utf8s (xs @ zs)) \<le> m \<or> length (xs @ zs) \<le> 1)"
  using assms
proof (induction ys arbitrary: xs)
  case Nil
  then show ?case by (simp add: chunk_end.simps)
next
  case (Cons y ys)
  let ?s = "pre @ utf8s (xs @ y # ys)"
  have y: "is_scalar y" using Cons.prems by simp
  have s: "?s = (pre @ utf8s xs) @ utf8 y @ utf8s ys" by simp
  have d: "DecodeNextUtf8 ?s (length (pre @ utf8s xs)) 0 =
    (True, length (pre @ utf8s xs) + length (utf8 y), y)"
    unfolding s by (rule DecodeNextUtf8_scalar [OF y])
  have ne: "utf8 c \<noteq> []" for c by (auto simp: AppendUtf8_def)
  let ?stop = "length (utf8s xs) + length (utf8 y) > m \<and> xs \<noteq> []"
  have xs: "utf8s xs = [] \<longleftrightarrow> xs = []" using ne by (cases xs) auto
  have u: "chunk_end ?s m (length pre) (length (pre @ utf8s xs)) =
    (if ?stop then length (pre @ utf8s xs)
     else if ends_sentence y then length (pre @ utf8s (xs @ [y]))
     else chunk_end ?s m (length pre) (length (pre @ utf8s (xs @ [y]))))"
    by (subst chunk_end.simps) (use d ne xs in \<open>auto simp: add.assoc\<close>)
  show ?case
  proof (cases ?stop)
    case True
    then show ?thesis
      using u Cons.prems by (intro exI [of _ "[]"] exI [of _ "y # ys"]) simp
  next
    case ns: False
    then have fits: "length (utf8s (xs @ [y])) \<le> m \<or> length (xs @ [y]) \<le> 1" by auto
    show ?thesis
    proof (cases "ends_sentence y")
      case True
      then show ?thesis
        using u ns fits by (intro exI [of _ "[y]"] exI [of _ ys]) simp
    next
      case False
      obtain zs ws where "ys = zs @ ws"
        "chunk_end (pre @ utf8s ((xs @ [y]) @ ys)) m (length pre) (length (pre @ utf8s (xs @ [y]))) =
           length (pre @ utf8s ((xs @ [y]) @ zs))"
        "length (utf8s ((xs @ [y]) @ zs)) \<le> m \<or> length ((xs @ [y]) @ zs) \<le> 1"
        using Cons.IH [OF _ fits] Cons.prems(1) by fastforce
      then show ?thesis
        using u ns False by (intro exI [of _ "y # zs"] exI [of _ ws]) simp
    qed
  qed
qed

lemma split_conversion_loop_scalars:
  "list_all is_scalar ys \<Longrightarrow> \<exists>groups. concat groups = ys \<and>
     split_conversion_loop (pre @ utf8s ys) m (length pre) = map utf8s groups \<and>
     list_all (\<lambda>g. length (utf8s g) \<le> m \<or> length g = 1) groups"
proof (induction "length ys" arbitrary: ys pre rule: less_induct)
  case less
  show ?case
  proof (cases "ys = []")
    case True
    then show ?thesis by (intro exI [of _ "[]"]) (simp add: split_conversion_loop.simps)
  next
    case False
    have ne: "utf8 c \<noteq> []" for c by (auto simp: AppendUtf8_def)
    have u: "utf8s zs = [] \<longleftrightarrow> zs = []" for zs using ne by (cases zs) auto
    obtain zs ws where z: "ys = zs @ ws"
      "chunk_end (pre @ utf8s ys) m (length pre) (length pre) = length (pre @ utf8s zs)"
      "length (utf8s zs) \<le> m \<or> length zs \<le> 1"
      using chunk_end_scalars [of "[]" ys m pre] less.prems by auto
    have b: "length pre < length (pre @ utf8s ys)" using False u by simp
    have zne: "zs \<noteq> []" using chunk_end_progress [OF b, of m] z(2) by auto
    then obtain groups where g: "concat groups = ws"
      "split_conversion_loop ((pre @ utf8s zs) @ utf8s ws) m (length (pre @ utf8s zs)) = map utf8s groups"
      "list_all (\<lambda>g. length (utf8s g) \<le> m \<or> length g = 1) groups"
      using less.hyps [of ws "pre @ utf8s zs"] less.prems z(1) by auto
    have "split_conversion_loop (pre @ utf8s ys) m (length pre) = utf8s zs # map utf8s groups"
      using b z(2) g(2) by (subst split_conversion_loop.simps) (simp add: Let_def z(1))
    then show ?thesis
      using g z zne by (intro exI [of _ "zs # groups"]) (cases zs, auto)
  qed
qed

text \<open>Splitting text loses nothing and makes no empty chunk, whatever the bytes are.\<close>

theorem SplitBatchConversion_lossless:
  "concat (SplitBatchConversion s max_bytes) = s \<and> [] \<notin> set (SplitBatchConversion s max_bytes)"
  using split_conversion_loop_concat [of s max_bytes 0] by (simp add: SplitBatchConversion_def)

text \<open>On the encoding of scalar values the text is cut only between them, and a chunk exceeds
  the budget only if it is a single scalar.\<close>

theorem SplitBatchConversion_scalars:
  assumes "list_all is_scalar cps"
  shows "\<exists>groups. concat groups = cps \<and> SplitBatchConversion (utf8s cps) max_bytes = map utf8s groups \<and>
    list_all (\<lambda>g. length (utf8s g) \<le> max_bytes \<or> length g = 1) groups"
  using split_conversion_loop_scalars [OF assms, of "[]"] by (simp add: SplitBatchConversion_def)

theorem SplitBatchConversion_scalars_witness:
  "\<exists>groups. concat groups = [0x3042, 0x3002, 0x1f600] \<and>
     SplitBatchConversion (utf8s [0x3042, 0x3002, 0x1f600]) 7 = map utf8s groups \<and>
     list_all (\<lambda>g. length (utf8s g) \<le> 7 \<or> length g = 1) groups"
  using SplitBatchConversion_scalars [of "[0x3042, 0x3002, 0x1f600]" 7] by (simp add: is_scalar_def)

end
