(* ===== verification/InputState.thy ===== *)
theory InputState
  imports Romaji EditContext
begin

text \<open>
  The input state machine of the frontend (\<open>core/src/InputState.cpp\<close>, with the data types of
  \<open>UserAction.h\<close>, \<open>ClientAction.h\<close> and \<open>Candidate.h\<close>).

  The class is pure in the source: every handler is a \<open>const\<close> member that copies the state, and
  returns the actions for the frontend together with the next state. Here the state is a record
  with the fields of the class, and a handler is a function to a pair of actions and state. The
  private helpers that append to the caller's list of actions return what they append.
\<close>

section \<open>Data\<close>

datatype InputStateKind = Idle | Composing | Previewing | Selecting | ReplaceSuggestion | UnicodeInput

datatype UserAction =
    Input | InputAlnum
  | Backspace | Delete | Forward | Backward | Up | Down | LineHead | LineEnd
  | StartConversion | NextCandidate | PrevCandidate | SelectByDigit | Commit | Cancel
  | ToggleHankaku | ToggleHiraKata | StartUnicodeInput | StartAlnumDouble | StartKanaDouble
  | Forget
  | ToggleDebugWindow | ToggleAlnum
  | CommitHiragana | CommitKatakana | CommitHalfwidthKatakana | CommitFullwidthRoman
  | CommitHalfwidthRoman

text \<open>A code point is a \<open>char32_t\<close>; \<open>modifiers\<close> is a set of flags.\<close>

record UserActionEvent =
  action :: UserAction
  event_codepoint :: codepoint
  modifiers :: "32 word"
  digit :: int

datatype CandidateTag = NoTag | Polite | Casual | Technical | English | Kaomoji | Idiom

datatype CandidateSource =
  SystemDictionary | UserDictionary | Model | Llm | Heuristic | Learning | Symbol | Emoji

text \<open>The score is a \<open>double\<close> that the state machine only copies; it is kept as its bits.\<close>

record Candidate =
  surface :: string
  candidate_reading :: string
  score :: "64 word"
  candidate_source :: CandidateSource
  debug_info :: string
  description :: string
  candidate_tag :: CandidateTag

datatype InputModeToggle = Hankaku | HiraKata

datatype ReplaceSuggestionMode = MagicConversion | ReplaceSuggestionPrompt

datatype ClientAction =
    AppendToMarkedText string
  | ReplaceMarkedText string
  | CommitMarkedText
  | CancelMarkedText
  | ShowCandidateWindow "Candidate list" nat
  | HideCandidateWindow
  | ShowPredictionWindow "Candidate list"
  | HidePredictionWindow
  | ReplaceSelectedText string
  | PlayBeep
  | QueryCandidates string bool
  | UpdateCandidateSelection nat
  | ObserveCommit string string
  | ToggleInputMode InputModeToggle
  | ShowReplaceSuggestionPrompt ReplaceSuggestionMode
  | SubmitReplaceSuggestion
  | HideReplaceSuggestionPrompt
  | ForgetLastCommit
  | ToggleDebugWindowAction

record InputState =
  kind :: InputStateKind
  confirmed_kana :: string
  pending_romaji :: romaji
  candidates :: "Candidate list"
  selected_index :: nat
  awaiting_candidates :: bool
  unicode_hex :: string
  live_conversion :: bool
  punctuation_conversion :: bool
  replace_suggestion_mode :: ReplaceSuggestionMode

definition InputState_init :: InputState where
  "InputState_init = \<lparr>kind = Idle, confirmed_kana = [], pending_romaji = romaji_init,
     candidates = [], selected_index = 0, awaiting_candidates = False, unicode_hex = [],
     live_conversion = False, punctuation_conversion = False,
     replace_suggestion_mode = MagicConversion\<rparr>"

type_synonym HandleResult = "ClientAction list \<times> InputState"

definition kMaxUnicodeHexDigits :: nat where
  "kMaxUnicodeHexDigits = 8"

definition kUnicodePrefix :: string where
  "kUnicodePrefix = ''U+''"

section \<open>Character classes\<close>

definition IsAsciiLetter :: "codepoint \<Rightarrow> bool" where
  "IsAsciiLetter cp \<longleftrightarrow> (cp \<ge> 0x61 \<and> cp \<le> 0x7a) \<or> (cp \<ge> 0x41 \<and> cp \<le> 0x5a)"

definition HexDigit :: "codepoint \<Rightarrow> char option" where
  "HexDigit cp =
     (if cp \<ge> 0x30 \<and> cp \<le> 0x39 then Some (byte cp)
      else if cp \<ge> 0x61 \<and> cp \<le> 0x66 then Some (byte (cp - 0x61 + 0x41))
      else if cp \<ge> 0x41 \<and> cp \<le> 0x46 then Some (byte cp)
      else None)"

text \<open>The accumulator is a \<open>uint64_t\<close>; the digits are those \<open>HexDigit\<close> returns.\<close>

definition hex_step :: "64 word \<Rightarrow> char \<Rightarrow> 64 word" where
  "hex_step value c =
     value * 16 + (if ord c \<le> 0x39 then of_nat (ord c) - 0x30 else of_nat (ord c) - 0x41 + 10)"

definition ParseUnicodeScalar :: "string \<Rightarrow> codepoint option" where
  "ParseUnicodeScalar hex =
     (if hex = [] then None
      else let value = foldl hex_step 0 hex in
        if value > 0x10FFFF \<or> (value \<ge> 0xD800 \<and> value \<le> 0xDFFF) then None
        else Some (unat value))"

definition IsSentenceMark :: "codepoint \<Rightarrow> bool" where
  "IsSentenceMark cp \<longleftrightarrow> cp = 0x3001 \<or> cp = 0x3002 \<or> cp = 0xff1f \<or> cp = 0xff01"

definition IsDigit :: "codepoint \<Rightarrow> bool" where
  "IsDigit cp \<longleftrightarrow> (cp \<ge> 0x30 \<and> cp \<le> 0x39) \<or> (cp \<ge> 0xff10 \<and> cp \<le> 0xff19)"

section \<open>The private operations\<close>

definition Reading :: "InputState \<Rightarrow> string" where
  "Reading s = confirmed_kana s @ PreviewPending (pending_romaji s)"

definition ResetComposition :: "InputState \<Rightarrow> InputState" where
  "ResetComposition s = s\<lparr>kind := Idle, confirmed_kana := [],
     pending_romaji := romaji_Reset (pending_romaji s), candidates := [], selected_index := 0,
     awaiting_candidates := False, unicode_hex := []\<rparr>"

definition AppendInput :: "UserActionEvent \<Rightarrow> InputState \<Rightarrow> InputState" where
  "AppendInput event s =
     (let cp = event_codepoint event; r = pending_romaji s in
      if cp = 0 then s
      else if action event = UserAction.Input \<and> cp \<le> 0x7f \<and>
          (IsAsciiLetter cp \<or> cp = 0x2d \<or> (cp = 0x27 \<and> SeparatesNWithApostrophe r) \<or>
           CanContinueCustomWith r (byte cp)) then
        (let (out, r') = Feed r (byte cp)
         in s\<lparr>confirmed_kana := confirmed_kana s @ out, pending_romaji := r'\<rparr>)
      else
        (let (out, r') = Flush r
         in s\<lparr>confirmed_kana := AppendUtf8 (confirmed_kana s @ out) cp, pending_romaji := r'\<rparr>))"

text \<open>\<open>while (i > 0 && is_continuation(kana_[i - 1])) --i;\<close>\<close>

fun back_over_continuation :: "string \<Rightarrow> nat \<Rightarrow> nat" where
  "back_over_continuation kana 0 = 0"
| "back_over_continuation kana (Suc i) =
     (if ord (kana ! i) AND 0xC0 = 0x80 then back_over_continuation kana i else Suc i)"

definition EraseLastUnit :: "InputState \<Rightarrow> InputState" where
  "EraseLastUnit s =
     (if HasPending (pending_romaji s)
      then s\<lparr>pending_romaji := PopPendingPreview (pending_romaji s)\<rparr>
      else let i = back_over_continuation (confirmed_kana s) (length (confirmed_kana s));
               i' = (if i > 0 then i - 1 else i)
           in s\<lparr>confirmed_kana := take i' (confirmed_kana s)\<rparr>)"

definition AfterReadingChanged :: "InputState \<Rightarrow> HandleResult" where
  "AfterReadingChanged s =
     (let s1 = s\<lparr>candidates := [], awaiting_candidates := False\<rparr>;
          reading = Reading s1
      in if reading = [] then ([CancelMarkedText], ResetComposition s1)
         else ([ReplaceMarkedText reading, QueryCandidates reading False], s1))"

definition do_StartConversion :: "InputState \<Rightarrow> HandleResult" where
  "do_StartConversion s =
     (let (flushed, r) = Flush (pending_romaji s);
          s1 = s\<lparr>pending_romaji := r\<rparr>;
          (acts, s2) =
            (if flushed \<noteq> [] then
               (let kana = confirmed_kana s1 @ flushed
                in ([ReplaceMarkedText kana], s1\<lparr>confirmed_kana := kana\<rparr>))
             else ([], s1))
      in if confirmed_kana s2 = [] then (acts, s2)
         else (acts @ [QueryCandidates (confirmed_kana s2) True],
               s2\<lparr>candidates := [], awaiting_candidates := True\<rparr>))"

definition OpenCandidates :: "InputState \<Rightarrow> HandleResult" where
  "OpenCandidates s =
     ([ShowCandidateWindow (candidates s) 0, ReplaceMarkedText (surface (hd (candidates s)))],
      s\<lparr>kind := Selecting, selected_index := 0, awaiting_candidates := False\<rparr>)"

definition CommitCandidate :: "nat \<Rightarrow> codepoint \<Rightarrow> InputState \<Rightarrow> HandleResult" where
  "CommitCandidate index punctuation s =
     (let (flushed, r) = Flush (pending_romaji s);
          reading = confirmed_kana s @ flushed;
          surf = surface (candidates s ! index);
          txt = (if punctuation \<noteq> 0 then AppendUtf8 surf punctuation else surf)
      in ([HideCandidateWindow, ReplaceMarkedText txt, CommitMarkedText, ObserveCommit reading surf],
          ResetComposition (s\<lparr>pending_romaji := r\<rparr>)))"

definition CommitAsIs :: "InputState \<Rightarrow> HandleResult" where
  "CommitAsIs s =
     (let (flushed, r) = Flush (pending_romaji s);
          kana = confirmed_kana s @ flushed
      in (if kana \<noteq> [] then [ReplaceMarkedText kana, CommitMarkedText] else [],
          ResetComposition (s\<lparr>confirmed_kana := kana, pending_romaji := r\<rparr>)))"

section \<open>Settings and imports\<close>

definition WithLiveConversion :: "bool \<Rightarrow> InputState \<Rightarrow> InputState" where
  "WithLiveConversion enabled s = s\<lparr>live_conversion := enabled\<rparr>"

definition WithPunctuationConversion :: "bool \<Rightarrow> InputState \<Rightarrow> InputState" where
  "WithPunctuationConversion enabled s = s\<lparr>punctuation_conversion := enabled\<rparr>"

definition Reset :: "InputState \<Rightarrow> InputState" where
  "Reset s = ResetComposition s"

definition WithComposition :: "string \<Rightarrow> romaji \<Rightarrow> InputState \<Rightarrow> InputState" where
  "WithComposition kana r s =
     (let next = (Reset s)\<lparr>confirmed_kana := kana, pending_romaji := r\<rparr>
      in if confirmed_kana next \<noteq> [] \<or> HasPending (pending_romaji next)
         then next\<lparr>kind := Composing\<rparr> else next)"

definition has_reading :: "InputStateKind \<Rightarrow> bool" where
  "has_reading k \<longleftrightarrow> k = Composing \<or> k = Previewing \<or> k = Selecting"

definition WithCorrectedReading :: "string \<Rightarrow> InputState \<Rightarrow> InputState" where
  "WithCorrectedReading kana s =
     (if kana = [] \<or> \<not> has_reading (kind s) then s
      else s\<lparr>confirmed_kana := kana, pending_romaji := romaji_Reset (pending_romaji s)\<rparr>)"

text \<open>The scan of the reading: whether it is punctuation only, and its last code point.\<close>

function scan_reading :: "string \<Rightarrow> nat \<Rightarrow> bool \<Rightarrow> codepoint \<Rightarrow> (bool \<times> codepoint) option" where
  "scan_reading reading offset punctuation_only last_cp =
     (if offset < length reading then
        (case DecodeNextUtf8 reading offset 0 of (ok, offset', cp) \<Rightarrow>
           if \<not> ok then None
           else scan_reading reading offset' (punctuation_only \<and> IsSentenceMark cp) cp)
      else Some (punctuation_only, last_cp))"
  by pat_completeness auto
termination
  by (relation "measure (\<lambda>(reading, offset, p, l). length reading - offset)")
    (auto dest!: DecodeNextUtf8_advance)

declare scan_reading.simps [simp del]

definition PunctuationConversionReading :: "UserActionEvent \<Rightarrow> InputState \<Rightarrow> string option" where
  "PunctuationConversionReading event s =
     (if \<not> punctuation_conversion s \<or> action event \<noteq> UserAction.Input \<or>
         \<not> IsSentenceMark (event_codepoint event) \<or> \<not> has_reading (kind s)
      then None
      else let reading = confirmed_kana s @ fst (Flush (pending_romaji s)) in
        case scan_reading reading 0 True 0 of
          None \<Rightarrow> None
        | Some (punctuation_only, last_cp) \<Rightarrow>
            if punctuation_only then None
            else if kind s \<noteq> Selecting \<and> IsDigit last_cp then None
            else Some reading)"

section \<open>The handlers\<close>

definition HandleIdle :: "UserActionEvent \<Rightarrow> InputState \<Rightarrow> HandleResult" where
  "HandleIdle event s =
     (case action event of
        UserAction.Input \<Rightarrow>
          (let next = AppendInput event s in
           if Reading next = [] then ([], s)
           else AfterReadingChanged
             (next\<lparr>kind := (if live_conversion next then Previewing else Composing)\<rparr>))
      | UserAction.InputAlnum \<Rightarrow>
          (let next = AppendInput event s in
           if Reading next = [] then ([], s)
           else AfterReadingChanged
             (next\<lparr>kind := (if live_conversion next then Previewing else Composing)\<rparr>))
      | UserAction.StartUnicodeInput \<Rightarrow>
          ([ReplaceMarkedText kUnicodePrefix], s\<lparr>kind := UnicodeInput, unicode_hex := []\<rparr>)
      | UserAction.StartAlnumDouble \<Rightarrow>
          ([ShowReplaceSuggestionPrompt MagicConversion],
           s\<lparr>kind := ReplaceSuggestion, replace_suggestion_mode := MagicConversion\<rparr>)
      | UserAction.StartKanaDouble \<Rightarrow>
          ([ShowReplaceSuggestionPrompt ReplaceSuggestionPrompt],
           s\<lparr>kind := ReplaceSuggestion, replace_suggestion_mode := ReplaceSuggestionPrompt\<rparr>)
      | _ \<Rightarrow> ([], s))"

definition compose_input :: "UserActionEvent \<Rightarrow> InputState \<Rightarrow> HandleResult" where
  "compose_input event s =
     (if (case PunctuationConversionReading event s of None \<Rightarrow> False
          | Some reading \<Rightarrow> candidates s \<noteq> [] \<and> candidate_reading (hd (candidates s)) = reading)
      then CommitCandidate 0 (event_codepoint event) s
      else let next = AppendInput event s;
               next' = (if live_conversion next then next\<lparr>kind := Previewing\<rparr> else next)
           in AfterReadingChanged next')"

definition HandleComposing :: "UserActionEvent \<Rightarrow> InputState \<Rightarrow> HandleResult" where
  "HandleComposing event s =
     (case action event of
        UserAction.Input \<Rightarrow> compose_input event s
      | UserAction.InputAlnum \<Rightarrow> compose_input event s
      | UserAction.Backspace \<Rightarrow> AfterReadingChanged (EraseLastUnit s)
      | UserAction.StartConversion \<Rightarrow> do_StartConversion s
      | UserAction.NextCandidate \<Rightarrow> do_StartConversion s
      | UserAction.PrevCandidate \<Rightarrow> do_StartConversion s
      | UserAction.Commit \<Rightarrow> CommitAsIs s
      | UserAction.Cancel \<Rightarrow> ([CancelMarkedText], ResetComposition s)
      | UserAction.StartUnicodeInput \<Rightarrow>
          (let (acts, next) = CommitAsIs s
           in (acts @ [ReplaceMarkedText kUnicodePrefix], next\<lparr>kind := UnicodeInput\<rparr>))
      | _ \<Rightarrow> ([], s))"

definition move_selection :: "bool \<Rightarrow> InputState \<Rightarrow> HandleResult" where
  "move_selection forward s =
     (let count = length (candidates s);
          index = (if forward then (selected_index s + 1) mod count
                   else (selected_index s + count - 1) mod count)
      in ([UpdateCandidateSelection index, ReplaceMarkedText (surface (candidates s ! index))],
          s\<lparr>selected_index := index\<rparr>))"

definition select_input :: "UserActionEvent \<Rightarrow> InputState \<Rightarrow> HandleResult" where
  "select_input event s =
     (if PunctuationConversionReading event s \<noteq> None
      then CommitCandidate (selected_index s) (event_codepoint event) s
      else let (acts, next) = CommitCandidate (selected_index s) 0 s;
               (resumed, next') = HandleIdle event next
           in (acts @ resumed, next'))"

definition HandleSelecting :: "UserActionEvent \<Rightarrow> InputState \<Rightarrow> HandleResult" where
  "HandleSelecting event s =
     (case action event of
        UserAction.Input \<Rightarrow> select_input event s
      | UserAction.InputAlnum \<Rightarrow> select_input event s
      | UserAction.Backspace \<Rightarrow>
          (let (acts, next) = AfterReadingChanged (EraseLastUnit
             (s\<lparr>kind := (if live_conversion s then Previewing else Composing), selected_index := 0\<rparr>))
           in (HideCandidateWindow # acts, next))
      | UserAction.StartConversion \<Rightarrow> move_selection True s
      | UserAction.NextCandidate \<Rightarrow> move_selection True s
      | UserAction.Down \<Rightarrow> move_selection True s
      | UserAction.PrevCandidate \<Rightarrow> move_selection False s
      | UserAction.Up \<Rightarrow> move_selection False s
      | UserAction.SelectByDigit \<Rightarrow>
          if digit event \<ge> 1 \<and> nat (digit event) \<le> length (candidates s)
          then CommitCandidate (nat (digit event - 1)) 0 s else ([], s)
      | UserAction.Commit \<Rightarrow> CommitCandidate (selected_index s) 0 s
      | UserAction.Cancel \<Rightarrow> ([HideCandidateWindow, CancelMarkedText], ResetComposition s)
      | UserAction.StartUnicodeInput \<Rightarrow>
          (let (acts, next) = CommitCandidate (selected_index s) 0 s
           in (acts @ [ReplaceMarkedText kUnicodePrefix], next\<lparr>kind := UnicodeInput\<rparr>))
      | _ \<Rightarrow> ([], s))"

definition HandleReplaceSuggestion :: "UserActionEvent \<Rightarrow> InputState \<Rightarrow> HandleResult" where
  "HandleReplaceSuggestion event s =
     (case action event of
        UserAction.Commit \<Rightarrow> ([SubmitReplaceSuggestion], ResetComposition s)
      | UserAction.Cancel \<Rightarrow> ([HideReplaceSuggestionPrompt], ResetComposition s)
      | _ \<Rightarrow> ([], s))"

text \<open>The local lambda \<open>finish\<close>: its result, the actions it appends and the next state.\<close>

definition finish_unicode :: "bool \<Rightarrow> InputState \<Rightarrow> bool \<times> HandleResult" where
  "finish_unicode beep_on_invalid s =
     (if unicode_hex s = [] then (True, [CancelMarkedText], ResetComposition s)
      else case ParseUnicodeScalar (unicode_hex s) of
          None \<Rightarrow> (False, if beep_on_invalid then [PlayBeep] else [], s)
        | Some scalar \<Rightarrow>
            (True, [ReplaceMarkedText (AppendUtf8 [] scalar), CommitMarkedText], ResetComposition s))"

definition unicode_input :: "UserActionEvent \<Rightarrow> InputState \<Rightarrow> HandleResult" where
  "unicode_input event s =
     (case HexDigit (event_codepoint event) of
        Some d \<Rightarrow>
          if length (unicode_hex s) \<ge> kMaxUnicodeHexDigits then ([PlayBeep], s)
          else let hex = unicode_hex s @ [d]
               in ([ReplaceMarkedText (kUnicodePrefix @ hex)], s\<lparr>unicode_hex := hex\<rparr>)
      | None \<Rightarrow>
          (let (ok, acts, next) = finish_unicode False s;
               (acts', next') =
                 (if ok then (acts, next)
                  else (acts @ [PlayBeep, CancelMarkedText], ResetComposition next));
               (resumed, next'') = HandleIdle event next'
           in (acts' @ resumed, next'')))"

definition HandleUnicodeInput :: "UserActionEvent \<Rightarrow> InputState \<Rightarrow> HandleResult" where
  "HandleUnicodeInput event s =
     (case action event of
        UserAction.Input \<Rightarrow> unicode_input event s
      | UserAction.InputAlnum \<Rightarrow> unicode_input event s
      | UserAction.Backspace \<Rightarrow>
          if unicode_hex s = [] then ([CancelMarkedText], ResetComposition s)
          else let hex = butlast (unicode_hex s)
               in ([ReplaceMarkedText (kUnicodePrefix @ hex)], s\<lparr>unicode_hex := hex\<rparr>)
      | UserAction.Commit \<Rightarrow> snd (finish_unicode True s)
      | UserAction.Cancel \<Rightarrow> ([CancelMarkedText], ResetComposition s)
      | _ \<Rightarrow> ([], s))"

text \<open>The hint about the document is passed through and not looked at.\<close>

definition HandleEvent :: "UserActionEvent \<Rightarrow> EditContextHint \<Rightarrow> InputState \<Rightarrow> HandleResult" where
  "HandleEvent event hint s =
     (case action event of
        UserAction.ToggleDebugWindow \<Rightarrow> ([ToggleDebugWindowAction], s)
      | UserAction.ToggleHankaku \<Rightarrow> ([ToggleInputMode Hankaku], s)
      | UserAction.ToggleHiraKata \<Rightarrow> ([ToggleInputMode HiraKata], s)
      | UserAction.Forget \<Rightarrow> ([ForgetLastCommit], s)
      | _ \<Rightarrow>
        (case kind s of
           Idle \<Rightarrow> HandleIdle event s
         | Composing \<Rightarrow> HandleComposing event s
         | Previewing \<Rightarrow> HandleComposing event s
         | Selecting \<Rightarrow> HandleSelecting event s
         | ReplaceSuggestion \<Rightarrow> HandleReplaceSuggestion event s
         | UnicodeInput \<Rightarrow> HandleUnicodeInput event s))"

definition HandleCandidatesArrived :: "Candidate list \<Rightarrow> InputState \<Rightarrow> HandleResult" where
  "HandleCandidatesArrived cands s =
     (if kind s \<noteq> Composing \<and> kind s \<noteq> Previewing then ([], s)
      else let s1 = s\<lparr>candidates := cands\<rparr> in
        if awaiting_candidates s1 then
          (let s2 = s1\<lparr>awaiting_candidates := False\<rparr> in
           if candidates s2 \<noteq> [] then OpenCandidates s2 else ([], s2))
        else ([], s1))"

section \<open>The converter inside the state\<close>

definition romaji_ok :: "romaji \<Rightarrow> bool" where
  "romaji_ok r \<longleftrightarrow> builtin_ok r \<or> custom_ok r"

lemma romaji_ok_Feed: "romaji_ok r \<Longrightarrow> romaji_ok (snd (Feed r c))"
  using builtin.ok_feed custom.ok_feed by (auto simp: romaji_ok_def)

lemma romaji_ok_Flush: "romaji_ok r \<Longrightarrow> romaji_ok (snd (Flush r)) \<and> pending (snd (Flush r)) = []"
  using builtin.ok_flush custom.ok_flush builtin.flush_all custom.flush_all
  by (auto simp: romaji_ok_def)

lemma romaji_ok_shorter:
  "romaji_ok r \<Longrightarrow> length p \<le> length (pending r) \<Longrightarrow> romaji_ok (r\<lparr>pending := p\<rparr>)"
  by (auto simp: romaji_ok_def builtin_ok_def custom_ok_def)

lemma romaji_ok_Reset: "romaji_ok r \<Longrightarrow> romaji_ok (romaji_Reset r)"
  by (simp add: romaji_Reset_def romaji_ok_shorter)

lemma romaji_ok_Pop: "romaji_ok r \<Longrightarrow> romaji_ok (PopPendingPreview r)"
proof (cases "pending r = []")
  case False
  then have "strict_prefix (pop_preview r (PreviewPending r) (pending r)) (pending r)"
    using pop_preview_spec by blast
  then show "romaji_ok r \<Longrightarrow> romaji_ok (PopPendingPreview r)"
    using False romaji_ok_shorter prefix_length_less by (fastforce simp: PopPendingPreview_def)
qed (simp add: PopPendingPreview_def)

lemma table_Flush [simp]: "custom_table (snd (Flush r)) = custom_table r"
  by (simp add: Flush_def)

lemma table_Feed [simp]: "custom_table (snd (Feed r c)) = custom_table r"
proof (cases "custom_table r")
  case None
  have *: "custom_table x = None \<Longrightarrow> custom_table y = None \<Longrightarrow> custom_table (if b then x else y) = None"
    for b and x y :: romaji by simp
  show ?thesis
    unfolding Feed_def Let_def None option.case case_prod_beta if_distrib [of snd]
    by (intro *) (simp_all add: None)
next
  case (Some t)
  then show ?thesis using Feed_custom_seen by simp
qed

lemma table_Pop [simp]: "custom_table (PopPendingPreview r) = custom_table r"
  by (simp add: PopPendingPreview_def)

lemma table_Reset [simp]: "custom_table (romaji_Reset r) = custom_table r"
  by (simp add: romaji_Reset_def)

lemma pending_Reset [simp]: "pending (romaji_Reset r) = []"
  by (simp add: romaji_Reset_def)

lemma PreviewPending_empty [simp]: "PreviewPending r = [] \<longleftrightarrow> pending r = []"
  by (auto simp: PreviewPending_def kana_n_def AppendUtf8_def)

lemma PreviewPending_Nil: "pending r = [] \<Longrightarrow> PreviewPending r = []"
  by simp

lemma Flush_nonempty: "custom_table r = None \<Longrightarrow> fst (Flush r) = [] \<longleftrightarrow> pending r = []"
proof -
  assume n: "custom_table r = None"
  obtain out rest where l: "builtin_loop True (pending r) = (out, rest)" by fastforce
  then have "rest = []" using builtin_loop_rest by blast
  then show ?thesis
    using n l builtin_loop_silent [of True "pending r" rest]
    by (auto simp: Flush_def ConvertPending_def)
qed

section \<open>The invariant\<close>

definition composition_empty :: "InputState \<Rightarrow> bool" where
  "composition_empty s \<longleftrightarrow> confirmed_kana s = [] \<and> pending (pending_romaji s) = [] \<and>
     candidates s = [] \<and> selected_index s = 0 \<and> \<not> awaiting_candidates s"

definition is_hex_digit :: "char \<Rightarrow> bool" where
  "is_hex_digit c \<longleftrightarrow> (0x30 \<le> ord c \<and> ord c \<le> 0x39) \<or> (0x41 \<le> ord c \<and> ord c \<le> 0x46)"

definition state_ok :: "InputState \<Rightarrow> bool" where
  "state_ok s \<longleftrightarrow> romaji_ok (pending_romaji s) \<and>
     (case kind s of
        Idle \<Rightarrow> composition_empty s \<and> unicode_hex s = []
      | ReplaceSuggestion \<Rightarrow> composition_empty s \<and> unicode_hex s = []
      | UnicodeInput \<Rightarrow> composition_empty s \<and> length (unicode_hex s) \<le> kMaxUnicodeHexDigits \<and>
          list_all is_hex_digit (unicode_hex s)
      | Selecting \<Rightarrow> unicode_hex s = [] \<and> selected_index s < length (candidates s) \<and>
          \<not> awaiting_candidates s \<and> (custom_table (pending_romaji s) = None \<longrightarrow> Reading s \<noteq> [])
      | _ \<Rightarrow> unicode_hex s = [] \<and> selected_index s = 0 \<and>
          (awaiting_candidates s \<longrightarrow> candidates s = [] \<and> pending (pending_romaji s) = []) \<and>
          (custom_table (pending_romaji s) = None \<longrightarrow> Reading s \<noteq> []))"

lemma Reset_simps [simp]:
  "kind (ResetComposition s) = Idle" "composition_empty (ResetComposition s)"
  "unicode_hex (ResetComposition s) = []"
  "custom_table (pending_romaji (ResetComposition s)) = custom_table (pending_romaji s)"
  "live_conversion (ResetComposition s) = live_conversion s"
  by (simp_all add: ResetComposition_def composition_empty_def)

lemma Reset_ok: "romaji_ok (pending_romaji s) \<Longrightarrow> state_ok (ResetComposition s)"
  by (simp add: state_ok_def) (simp add: ResetComposition_def romaji_ok_Reset)

lemma AppendInput_frame [simp]:
  "kind (AppendInput e s) = kind s" "candidates (AppendInput e s) = candidates s"
  "selected_index (AppendInput e s) = selected_index s" "unicode_hex (AppendInput e s) = unicode_hex s"
  "live_conversion (AppendInput e s) = live_conversion s"
  "custom_table (pending_romaji (AppendInput e s)) = custom_table (pending_romaji s)"
  by (simp_all add: AppendInput_def Let_def case_prod_beta)

lemma AppendInput_ok: "romaji_ok (pending_romaji s) \<Longrightarrow> romaji_ok (pending_romaji (AppendInput e s))"
  by (simp add: AppendInput_def Let_def case_prod_beta romaji_ok_Feed romaji_ok_Flush)

lemma EraseLastUnit_frame [simp]:
  "kind (EraseLastUnit s) = kind s" "candidates (EraseLastUnit s) = candidates s"
  "selected_index (EraseLastUnit s) = selected_index s" "unicode_hex (EraseLastUnit s) = unicode_hex s"
  "live_conversion (EraseLastUnit s) = live_conversion s"
  "custom_table (pending_romaji (EraseLastUnit s)) = custom_table (pending_romaji s)"
  by (simp_all add: EraseLastUnit_def Let_def)

lemma EraseLastUnit_ok: "romaji_ok (pending_romaji s) \<Longrightarrow> romaji_ok (pending_romaji (EraseLastUnit s))"
  by (simp add: EraseLastUnit_def Let_def romaji_ok_Pop)

lemma AfterReadingChanged_ok:
  assumes "romaji_ok (pending_romaji s)" "kind s = Composing \<or> kind s = Previewing"
    and "selected_index s = 0" "unicode_hex s = []"
  shows "state_ok (snd (AfterReadingChanged s))"
  using assms Reset_ok [of "s\<lparr>candidates := [], awaiting_candidates := False\<rparr>"]
  by (auto simp: AfterReadingChanged_def Let_def) (auto simp: state_ok_def Reading_def)

lemma CommitCandidate_ok: "romaji_ok (pending_romaji s) \<Longrightarrow> state_ok (snd (CommitCandidate i p s))"
  by (simp add: CommitCandidate_def Let_def case_prod_beta Reset_ok romaji_ok_Flush)

lemma CommitAsIs_ok: "romaji_ok (pending_romaji s) \<Longrightarrow> state_ok (snd (CommitAsIs s))"
  by (simp add: CommitAsIs_def Let_def case_prod_beta Reset_ok romaji_ok_Flush)

lemma Commit_kinds [simp]:
  "kind (snd (CommitCandidate i p s)) = Idle" "kind (snd (CommitAsIs s)) = Idle"
  by (simp_all add: CommitCandidate_def CommitAsIs_def Let_def case_prod_beta)

lemma to_unicode_ok: "state_ok s \<Longrightarrow> kind s = Idle \<Longrightarrow> state_ok (s\<lparr>kind := UnicodeInput\<rparr>)"
  by (simp add: state_ok_def composition_empty_def)

lemma romaji_okD: "state_ok s \<Longrightarrow> romaji_ok (pending_romaji s)"
  by (simp add: state_ok_def)

lemma HandleIdle_ok:
  assumes "state_ok s" "kind s = Idle"
  shows "state_ok (snd (HandleIdle e s))"
proof -
  have i: "composition_empty s" "unicode_hex s = []" "romaji_ok (pending_romaji s)"
    using assms by (auto simp: state_ok_def)
  have "state_ok (snd (AfterReadingChanged (AppendInput e s
      \<lparr>kind := if live_conversion s then Previewing else Composing\<rparr>)))"
    using i by (intro AfterReadingChanged_ok) (auto simp: AppendInput_ok composition_empty_def)
  moreover have "state_ok (s\<lparr>kind := UnicodeInput, unicode_hex := []\<rparr>)"
    "state_ok (s\<lparr>kind := ReplaceSuggestion, replace_suggestion_mode := m\<rparr>)" for m
    using i by (auto simp: state_ok_def composition_empty_def)
  ultimately show ?thesis
    using assms by (auto simp: HandleIdle_def Let_def split: UserAction.splits)
qed

lemma do_StartConversion_ok:
  assumes "state_ok s" "kind s = Composing \<or> kind s = Previewing"
  shows "state_ok (snd (do_StartConversion s))"
proof -
  have r: "romaji_ok (snd (Flush (pending_romaji s)))" "pending (snd (Flush (pending_romaji s))) = []"
    using assms romaji_ok_Flush by (auto simp: state_ok_def)
  show ?thesis
    using assms r Flush_nonempty [of "pending_romaji s"]
    by (auto simp: do_StartConversion_def Let_def case_prod_beta state_ok_def Reading_def)
qed

lemma compose_input_ok:
  assumes "state_ok s" "kind s = Composing \<or> kind s = Previewing"
  shows "state_ok (snd (compose_input e s))"
proof -
  have "state_ok (snd (AfterReadingChanged (if live_conversion s then AppendInput e s\<lparr>kind := Previewing\<rparr>
      else AppendInput e s)))"
    using assms by (intro AfterReadingChanged_ok) (auto simp: AppendInput_ok state_ok_def)
  then show ?thesis
    using CommitCandidate_ok [OF romaji_okD [OF assms(1)]] by (auto simp: compose_input_def Let_def)
qed

lemma HandleComposing_ok:
  assumes "state_ok s" "kind s = Composing \<or> kind s = Previewing"
  shows "state_ok (snd (HandleComposing e s))"
proof -
  have "state_ok (snd (AfterReadingChanged (EraseLastUnit s)))"
    using assms by (intro AfterReadingChanged_ok) (auto simp: EraseLastUnit_ok state_ok_def)
  then show ?thesis
    using assms romaji_okD [OF assms(1)] compose_input_ok do_StartConversion_ok
    by (auto simp: HandleComposing_def case_prod_beta CommitAsIs_ok Reset_ok to_unicode_ok Let_def
        split: UserAction.splits)
qed

lemma HandleSelecting_ok:
  assumes "state_ok s" "kind s = Selecting"
  shows "state_ok (snd (HandleSelecting e s))"
proof -
  have s: "selected_index s < length (candidates s)" "romaji_ok (pending_romaji s)" "unicode_hex s = []"
    using assms by (auto simp: state_ok_def)
  have move: "state_ok (snd (move_selection b s))" for b
  proof -
    have "x mod length (candidates s) < length (candidates s)" for x
      using s by (intro mod_less_divisor) auto
    then show ?thesis using assms s by (auto simp: move_selection_def Let_def state_ok_def Reading_def)
  qed
  have input: "state_ok (snd (select_input e s))"
    using s by (simp add: select_input_def Let_def case_prod_beta CommitCandidate_ok HandleIdle_ok)
  have "state_ok (snd (AfterReadingChanged (EraseLastUnit
      (s\<lparr>kind := if live_conversion s then Previewing else Composing, selected_index := 0\<rparr>))))"
    using s by (intro AfterReadingChanged_ok) (auto simp: EraseLastUnit_ok)
  then show ?thesis
    using assms(1) s move input
    by (auto simp: HandleSelecting_def case_prod_beta CommitCandidate_ok Reset_ok to_unicode_ok Let_def
        split: UserAction.splits)
qed

lemma HexDigit_hex: "HexDigit cp = Some d \<Longrightarrow> is_hex_digit d"
  by (auto simp: HexDigit_def is_hex_digit_def split: if_splits)

lemma HandleUnicodeInput_ok:
  assumes "state_ok s" "kind s = UnicodeInput"
  shows "state_ok (snd (HandleUnicodeInput e s))"
proof -
  have r: "romaji_ok (pending_romaji s)" using assms by (simp add: state_ok_def)
  have fin: "state_ok (snd (snd (finish_unicode b s)))" for b
    using assms r by (auto simp: finish_unicode_def Reset_ok split: option.splits)
  have fin_idle: "fst (finish_unicode b s) \<Longrightarrow> kind (snd (snd (finish_unicode b s))) = Idle" for b
    by (auto simp: finish_unicode_def split: option.splits if_splits)
  have input: "state_ok (snd (unicode_input e s))"
  proof (cases "HexDigit (event_codepoint e)")
    case None
    have "state_ok (snd (HandleIdle e (snd (snd (finish_unicode False s)))))" if "fst (finish_unicode False s)"
      using fin fin_idle that HandleIdle_ok by blast
    moreover have "state_ok (snd (HandleIdle e (ResetComposition (snd (snd (finish_unicode False s))))))"
      using fin romaji_okD Reset_ok HandleIdle_ok Reset_simps(1) by blast
    ultimately show ?thesis using None by (simp add: unicode_input_def Let_def case_prod_beta)
  next
    case (Some d)
    then show ?thesis
      using assms HexDigit_hex [OF Some]
      by (auto simp: unicode_input_def Let_def state_ok_def composition_empty_def)
  qed
  have erase: "unicode_hex s \<noteq> [] \<Longrightarrow> state_ok (s\<lparr>unicode_hex := butlast (unicode_hex s)\<rparr>)"
    using assms
    by (auto simp: state_ok_def composition_empty_def list_all_iff dest: in_set_butlastD)
  show ?thesis
    using assms(1) r fin input erase
    by (auto simp: HandleUnicodeInput_def Reset_ok Let_def split: UserAction.splits)
qed

lemma HandleEvent_ok:
  assumes "state_ok s"
  shows "state_ok (snd (HandleEvent e hint s))"
proof -
  have rs: "kind s = ReplaceSuggestion \<Longrightarrow> state_ok (snd (HandleReplaceSuggestion e s))"
    using assms romaji_okD Reset_ok by (auto simp: HandleReplaceSuggestion_def split: UserAction.splits)
  have "state_ok (snd (case kind s of Idle \<Rightarrow> HandleIdle e s | Composing \<Rightarrow> HandleComposing e s
      | Previewing \<Rightarrow> HandleComposing e s | Selecting \<Rightarrow> HandleSelecting e s
      | ReplaceSuggestion \<Rightarrow> HandleReplaceSuggestion e s | UnicodeInput \<Rightarrow> HandleUnicodeInput e s))"
    using assms rs HandleIdle_ok HandleComposing_ok HandleSelecting_ok HandleUnicodeInput_ok
    by (cases "kind s") simp_all
  then show ?thesis using assms by (cases "action e") (simp_all add: HandleEvent_def)
qed

lemma HandleCandidatesArrived_ok: "state_ok s \<Longrightarrow> state_ok (snd (HandleCandidatesArrived cs s))"
  by (cases "kind s") (auto simp: HandleCandidatesArrived_def OpenCandidates_def Let_def state_ok_def Reading_def)

lemma WithCorrectedReading_ok: "state_ok s \<Longrightarrow> state_ok (WithCorrectedReading kana s)"
  by (cases "kind s")
    (auto simp: WithCorrectedReading_def has_reading_def state_ok_def Reading_def romaji_ok_Reset)

lemma WithComposition_ok:
  "state_ok s \<Longrightarrow> romaji_ok r \<Longrightarrow> state_ok (WithComposition kana r s)"
  by (auto simp: WithComposition_def Reset_def ResetComposition_def state_ok_def composition_empty_def
      Reading_def HasPending_def Let_def)

section \<open>Reachable states\<close>

text \<open>
  Every state a frontend can get to: from the initial one by user events, by candidate responses,
  by the settings and by the two imports. The converter that is imported comes from the frontend's
  own composition; it uses the built-in table or one that the loader accepted.
\<close>

inductive reachable :: "InputState \<Rightarrow> bool" where
  start: "reachable InputState_init"
| event: "reachable s \<Longrightarrow> reachable (snd (HandleEvent e hint s))"
| arrived: "reachable s \<Longrightarrow> reachable (snd (HandleCandidatesArrived cs s))"
| live: "reachable s \<Longrightarrow> reachable (WithLiveConversion b s)"
| punctuation: "reachable s \<Longrightarrow> reachable (WithPunctuationConversion b s)"
| reset: "reachable s \<Longrightarrow> reachable (Reset s)"
| corrected: "reachable s \<Longrightarrow> reachable (WithCorrectedReading kana s)"
| composition: "reachable s \<Longrightarrow> romaji_ok r \<Longrightarrow> reachable (WithComposition kana r s)"

lemma reachable_ok: "reachable s \<Longrightarrow> state_ok s"
proof (induction rule: reachable.induct)
  case start
  show ?case
    by (simp add: InputState_init_def state_ok_def composition_empty_def romaji_ok_def builtin_ok_def
        romaji_init_def)
next
  case (live s b)
  then show ?case
    by (simp add: WithLiveConversion_def state_ok_def Reading_def composition_empty_def
        split: InputStateKind.splits)
next
  case (punctuation s b)
  then show ?case
    by (simp add: WithPunctuationConversion_def state_ok_def Reading_def composition_empty_def
        split: InputStateKind.splits)
next
  case (reset s)
  then show ?case by (simp add: Reset_def Reset_ok romaji_okD)
qed (simp_all add: HandleEvent_ok HandleCandidatesArrived_ok WithCorrectedReading_ok WithComposition_ok)

section \<open>What the document shows\<close>

text \<open>
  The frontend applies the actions in order. The part of its state that the composition is about:
  the committed text and the marked text, \<^term>\<open>None\<close> when there is no composition. The meaning
  of the actions is the one their comments in \<open>ClientAction.h\<close> give.
\<close>

record editor =
  document :: string
  marked :: "string option"

fun apply_action :: "ClientAction \<Rightarrow> editor \<Rightarrow> editor" where
  "apply_action (AppendToMarkedText t) ed =
     ed\<lparr>marked := Some ((case marked ed of None \<Rightarrow> [] | Some m \<Rightarrow> m) @ t)\<rparr>"
| "apply_action (ReplaceMarkedText t) ed = ed\<lparr>marked := Some t\<rparr>"
| "apply_action CommitMarkedText ed =
     ed\<lparr>document := document ed @ (case marked ed of None \<Rightarrow> [] | Some m \<Rightarrow> m), marked := None\<rparr>"
| "apply_action CancelMarkedText ed = ed\<lparr>marked := None\<rparr>"
| "apply_action _ ed = ed"

definition apply_actions :: "ClientAction list \<Rightarrow> editor \<Rightarrow> editor" where
  "apply_actions = fold apply_action"

text \<open>The marked text that a state stands for.\<close>

definition shown :: "InputState \<Rightarrow> string option" where
  "shown s =
     (case kind s of
        Idle \<Rightarrow> None
      | ReplaceSuggestion \<Rightarrow> None
      | Selecting \<Rightarrow> Some (surface (candidates s ! selected_index s))
      | UnicodeInput \<Rightarrow> Some (kUnicodePrefix @ unicode_hex s)
      | _ \<Rightarrow> Some (Reading s))"

lemma apply_actions_simps [simp]:
  "apply_actions [] ed = ed" "apply_actions (a # as) ed = apply_actions as (apply_action a ed)"
  "apply_actions (as @ bs) ed = apply_actions bs (apply_actions as ed)"
  by (simp_all add: apply_actions_def)

lemma shown_Idle: "kind s = Idle \<Longrightarrow> shown s = None"
  and shown_Replace: "kind s = ReplaceSuggestion \<Longrightarrow> shown s = None"
  and shown_Unicode: "kind s = UnicodeInput \<Longrightarrow> shown s = Some (kUnicodePrefix @ unicode_hex s)"
  by (simp_all add: shown_def)

lemmas shown_modes = shown_Idle shown_Replace shown_Unicode

lemma AfterReadingChanged_shown:
  "kind s = Composing \<or> kind s = Previewing \<Longrightarrow>
     marked (apply_actions (fst (AfterReadingChanged s)) ed) = shown (snd (AfterReadingChanged s))"
  by (auto simp: AfterReadingChanged_def Let_def shown_def Reading_def)

lemma CommitCandidate_marked [simp]:
  "marked (apply_actions (fst (CommitCandidate i p s)) ed) = None"
  by (simp add: CommitCandidate_def Let_def case_prod_beta)

lemma HandleIdle_shown:
  assumes "state_ok s" "kind s = Idle" "marked ed = None"
  shows "marked (apply_actions (fst (HandleIdle e s)) ed) = shown (snd (HandleIdle e s))"
  using assms by (auto simp: HandleIdle_def Let_def shown_modes AfterReadingChanged_shown split: UserAction.splits)

lemma do_StartConversion_shown:
  assumes "state_ok s" "kind s = Composing \<or> kind s = Previewing"
    and "custom_table (pending_romaji s) = None" "marked ed = shown s"
  shows "marked (apply_actions (fst (do_StartConversion s)) ed) = shown (snd (do_StartConversion s))"
proof -
  have "pending (snd (Flush (pending_romaji s))) = []"
    using assms romaji_ok_Flush by (auto simp: state_ok_def)
  then show ?thesis
    using assms Flush_nonempty [of "pending_romaji s"]
    by (auto simp: do_StartConversion_def Let_def case_prod_beta shown_def Reading_def state_ok_def
        PreviewPending_Nil)
qed

lemma CommitAsIs_marked:
  assumes "state_ok s" "kind s = Composing \<or> kind s = Previewing"
    and "custom_table (pending_romaji s) = None"
  shows "marked (apply_actions (fst (CommitAsIs s)) ed) = None"
proof -
  have "confirmed_kana s @ fst (Flush (pending_romaji s)) \<noteq> []"
    using assms Flush_nonempty [of "pending_romaji s"] by (auto simp: state_ok_def Reading_def)
  then show ?thesis by (simp add: CommitAsIs_def Let_def case_prod_beta)
qed

lemma HandleComposing_shown:
  assumes "state_ok s" "kind s = Composing \<or> kind s = Previewing"
    and "custom_table (pending_romaji s) = None" "marked ed = shown s"
  shows "marked (apply_actions (fst (HandleComposing e s)) ed) = shown (snd (HandleComposing e s))"
proof -
  have i: "marked (apply_actions (fst (compose_input e s)) ed) = shown (snd (compose_input e s))"
    using assms(2) by (auto simp: compose_input_def Let_def AfterReadingChanged_shown shown_Idle)
  have b: "marked (apply_actions (fst (AfterReadingChanged (EraseLastUnit s))) ed) =
    shown (snd (AfterReadingChanged (EraseLastUnit s)))"
    using assms(2) by (intro AfterReadingChanged_shown) auto
  have "unicode_hex (snd (CommitAsIs s)) = []"
    by (simp add: CommitAsIs_def Let_def case_prod_beta)
  then show ?thesis
    using assms i b do_StartConversion_shown [OF assms] CommitAsIs_marked [OF assms(1-3)]
    by (auto simp: HandleComposing_def case_prod_beta shown_modes Let_def split: UserAction.splits)
qed

lemma HandleSelecting_shown:
  assumes "state_ok s" "kind s = Selecting" "marked ed = shown s"
  shows "marked (apply_actions (fst (HandleSelecting e s)) ed) = shown (snd (HandleSelecting e s))"
proof -
  have r: "romaji_ok (pending_romaji s)" using assms(1) by (simp add: state_ok_def)
  have move: "marked (apply_actions (fst (move_selection b s)) ed) = shown (snd (move_selection b s))" for b
    using assms(2) by (simp add: move_selection_def Let_def shown_def)
  have input: "marked (apply_actions (fst (select_input e s)) ed) = shown (snd (select_input e s))"
    using r by (simp add: select_input_def Let_def case_prod_beta CommitCandidate_ok HandleIdle_shown shown_Idle)
  have b: "marked (apply_actions (fst (AfterReadingChanged (EraseLastUnit
      (s\<lparr>kind := if live_conversion s then Previewing else Composing, selected_index := 0\<rparr>)))) ed) =
    shown (snd (AfterReadingChanged (EraseLastUnit
      (s\<lparr>kind := if live_conversion s then Previewing else Composing, selected_index := 0\<rparr>))))" for ed
    by (intro AfterReadingChanged_shown) auto
  have h: "unicode_hex (snd (CommitCandidate i p s)) = []" for i p
    by (simp add: CommitCandidate_def Let_def case_prod_beta)
  show ?thesis
    using assms(3) move input b h
    by (auto simp: HandleSelecting_def case_prod_beta shown_modes Let_def split: UserAction.splits)
qed

lemma HandleUnicodeInput_shown:
  assumes "state_ok s" "kind s = UnicodeInput" "marked ed = shown s"
  shows "marked (apply_actions (fst (HandleUnicodeInput e s)) ed) = shown (snd (HandleUnicodeInput e s))"
proof -
  have r: "romaji_ok (pending_romaji s)" using assms by (simp add: state_ok_def)
  have fin: "marked (apply_actions (fst (snd (finish_unicode b s))) ed) = shown (snd (snd (finish_unicode b s)))" for b
    using assms by (auto simp: finish_unicode_def shown_Idle split: option.splits)
  have input: "marked (apply_actions (fst (unicode_input e s)) ed) = shown (snd (unicode_input e s))"
  proof (cases "HexDigit (event_codepoint e)")
    case None
    have idle: "marked ed' = None \<Longrightarrow> marked (apply_actions (fst (HandleIdle e (ResetComposition s))) ed') =
        shown (snd (HandleIdle e (ResetComposition s)))" for ed'
      using r by (simp add: HandleIdle_shown Reset_ok)
    then show ?thesis
      using None by (auto simp: unicode_input_def finish_unicode_def Let_def split: option.splits prod.splits if_splits)
  next
    case (Some d)
    then show ?thesis using assms by (auto simp: unicode_input_def Let_def shown_def)
  qed
  show ?thesis
    using assms fin input
    by (auto simp: HandleUnicodeInput_def shown_modes Let_def split: UserAction.splits)
qed

lemma HandleEvent_shown:
  assumes "state_ok s" "custom_table (pending_romaji s) = None" "marked ed = shown s"
  shows "marked (apply_actions (fst (HandleEvent e hint s)) ed) = shown (snd (HandleEvent e hint s))"
proof -
  have rs: "kind s = ReplaceSuggestion \<Longrightarrow>
    marked (apply_actions (fst (HandleReplaceSuggestion e s)) ed) = shown (snd (HandleReplaceSuggestion e s))"
    using assms by (auto simp: HandleReplaceSuggestion_def shown_def split: UserAction.splits)
  have idle: "kind s = Idle \<Longrightarrow> marked ed = None" using assms(3) by (simp add: shown_def)
  show ?thesis
    using assms rs idle HandleIdle_shown [of s ed e] HandleComposing_shown [of s ed e]
      HandleSelecting_shown [of s ed e] HandleUnicodeInput_shown [of s ed e]
    by (cases "kind s") (auto simp: HandleEvent_def split: UserAction.splits)
qed

lemma HandleCandidatesArrived_shown:
  "state_ok s \<Longrightarrow> marked ed = shown s \<Longrightarrow>
     marked (apply_actions (fst (HandleCandidatesArrived cs s)) ed) = shown (snd (HandleCandidatesArrived cs s))"
  by (cases "kind s")
    (auto simp: HandleCandidatesArrived_def OpenCandidates_def shown_def Let_def Reading_def hd_conv_nth)

lemma HandleEvent_table:
  "custom_table (pending_romaji (snd (HandleEvent e hint s))) = custom_table (pending_romaji s)"
proof -
  have [simp]: "custom_table (pending_romaji (snd (AfterReadingChanged s))) = custom_table (pending_romaji s)" for s
    by (simp add: AfterReadingChanged_def Let_def)
  have [simp]: "custom_table (pending_romaji (snd (CommitCandidate i p s))) = custom_table (pending_romaji s)" for i p s
    by (simp add: CommitCandidate_def Let_def case_prod_beta)
  have [simp]: "custom_table (pending_romaji (snd (CommitAsIs s))) = custom_table (pending_romaji s)" for s
    by (simp add: CommitAsIs_def Let_def case_prod_beta)
  have [simp]: "custom_table (pending_romaji (snd (HandleIdle e s))) = custom_table (pending_romaji s)" for s
    by (simp add: HandleIdle_def Let_def split: UserAction.splits)
  have [simp]: "custom_table (pending_romaji (snd (do_StartConversion s))) = custom_table (pending_romaji s)"
    by (simp add: do_StartConversion_def Let_def case_prod_beta)
  have [simp]: "custom_table (pending_romaji (snd (HandleComposing e s))) = custom_table (pending_romaji s)"
    by (simp add: HandleComposing_def compose_input_def Let_def case_prod_beta split: UserAction.splits)
  have [simp]: "custom_table (pending_romaji (snd (HandleSelecting e s))) = custom_table (pending_romaji s)"
    by (simp add: HandleSelecting_def select_input_def move_selection_def Let_def case_prod_beta
        split: UserAction.splits)
  have [simp]: "custom_table (pending_romaji (snd (HandleReplaceSuggestion e s))) = custom_table (pending_romaji s)"
    by (simp add: HandleReplaceSuggestion_def split: UserAction.splits)
  have [simp]: "custom_table (pending_romaji (snd (HandleUnicodeInput e s))) = custom_table (pending_romaji s)"
    by (auto simp: HandleUnicodeInput_def unicode_input_def finish_unicode_def Let_def case_prod_beta
        split: UserAction.splits option.splits)
  show ?thesis by (simp add: HandleEvent_def split: UserAction.splits InputStateKind.splits)
qed

section \<open>Sessions\<close>

text \<open>A frontend that delivers events and responses and applies the actions it gets back.\<close>

datatype client_event =
    KeyEvent UserActionEvent EditContextHint
  | CandidatesArrive "Candidate list"
  | LiveSetting bool
  | PunctuationSetting bool

definition session_step :: "InputState \<times> editor \<Rightarrow> client_event \<Rightarrow> InputState \<times> editor" where
  "session_step = (\<lambda>(s, ed) ev.
     case ev of
       KeyEvent e hint \<Rightarrow> (let (acts, s') = HandleEvent e hint s in (s', apply_actions acts ed))
     | CandidatesArrive cs \<Rightarrow> (let (acts, s') = HandleCandidatesArrived cs s in (s', apply_actions acts ed))
     | LiveSetting b \<Rightarrow> (WithLiveConversion b s, ed)
     | PunctuationSetting b \<Rightarrow> (WithPunctuationConversion b s, ed))"

definition session_inv :: "InputState \<times> editor \<Rightarrow> bool" where
  "session_inv = (\<lambda>(s, ed). state_ok s \<and> custom_table (pending_romaji s) = None \<and> marked ed = shown s)"

definition session_start :: "InputState \<times> editor \<Rightarrow> bool" where
  "session_start = (\<lambda>(s, ed). s = InputState_init \<and> marked ed = None)"

lemma settings_ok:
  "state_ok s \<Longrightarrow> state_ok (WithLiveConversion b s)" "state_ok s \<Longrightarrow> state_ok (WithPunctuationConversion b s)"
  "shown (WithLiveConversion b s) = shown s" "shown (WithPunctuationConversion b s) = shown s"
  by (simp_all add: WithLiveConversion_def WithPunctuationConversion_def state_ok_def shown_def
      Reading_def composition_empty_def split: InputStateKind.splits)

lemma settings_table:
  "custom_table (pending_romaji (WithLiveConversion b s)) = custom_table (pending_romaji s)"
  "custom_table (pending_romaji (WithPunctuationConversion b s)) = custom_table (pending_romaji s)"
  by (simp_all add: WithLiveConversion_def WithPunctuationConversion_def)

interpretation session: event_system session_start session_step session_inv
proof unfold_locales
  fix s :: "InputState \<times> editor"
  assume "session_start s"
  then show "session_inv s"
    using reachable_ok [OF reachable.start]
    by (auto simp: session_start_def session_inv_def shown_def InputState_init_def romaji_init_def)
next
  fix s :: "InputState \<times> editor" and ev
  assume inv: "session_inv s"
  obtain st ed where s: "s = (st, ed)" by (cases s)
  have arrived: "custom_table (pending_romaji (snd (HandleCandidatesArrived cs st))) =
      custom_table (pending_romaji st)" for cs
    by (simp add: HandleCandidatesArrived_def OpenCandidates_def Let_def)
  show "session_inv (session_step s ev)"
    using inv s
    by (cases ev) (auto simp: session_inv_def session_step_def HandleEvent_ok HandleEvent_shown
        HandleEvent_table HandleCandidatesArrived_ok HandleCandidatesArrived_shown arrived case_prod_beta
        Let_def settings_ok settings_table)
qed

section \<open>Properties of the state machine\<close>

text \<open>C5: Every state a frontend can reach is well-formed: while candidates are shown the
  highlighted index is in range, an idle state holds no composition, at most eight hexadecimal
  digits are buffered, and a composing state with the built-in table has a reading.\<close>

theorem reachable_state_ok:
  assumes "reachable s"
  shows "state_ok s"
  using assms by (rule reachable_ok)

theorem reachable_state_ok_witness:
  "state_ok (snd (HandleEvent \<lparr>action = UserAction.Input, event_codepoint = 0x6b, modifiers = 0, digit = 0\<rparr>
     \<lparr>char_before = None, char_after = None, selection_collapsed = None\<rparr> InputState_init))"
  using reachable_state_ok [OF reachable.event [OF reachable.start]] .


text \<open>C15: Committing while candidates are shown inserts exactly the highlighted surface, reports it
  for learning with the flushed reading, and leaves the state idle.\<close>

theorem Commit_inserts_highlighted:
  assumes "kind s = Selecting" "action e = UserAction.Commit"
  shows "case HandleEvent e hint s of (acts, s') \<Rightarrow>
      document (apply_actions acts ed) = document ed @ surface (candidates s ! selected_index s) \<and>
      last acts = ObserveCommit (confirmed_kana s @ fst (Flush (pending_romaji s)))
        (surface (candidates s ! selected_index s)) \<and>
      kind s' = Idle \<and> composition_empty s'"
  using assms by (simp add: HandleEvent_def HandleSelecting_def CommitCandidate_def Let_def case_prod_beta)

definition sample_candidate :: "string \<Rightarrow> Candidate" where
  "sample_candidate t = \<lparr>surface = t, candidate_reading = ''ka'', score = 0, candidate_source = Heuristic,
     debug_info = [], description = [], candidate_tag = NoTag\<rparr>"

definition sample_event :: "UserAction \<Rightarrow> UserActionEvent" where
  "sample_event a = \<lparr>action = a, event_codepoint = 0, modifiers = 0, digit = 0\<rparr>"

definition no_hint :: EditContextHint where
  "no_hint = \<lparr>char_before = None, char_after = None, selection_collapsed = None\<rparr>"

definition sample_selecting :: InputState where
  "sample_selecting = InputState_init\<lparr>kind := Selecting, confirmed_kana := ''ka'',
     candidates := [sample_candidate ''A'', sample_candidate ''B''], selected_index := 1\<rparr>"

theorem Commit_inserts_highlighted_witness:
  "document (apply_actions (fst (HandleEvent (sample_event UserAction.Commit) no_hint sample_selecting))
     \<lparr>document = ''x'', marked = Some ''B''\<rparr>) = ''xB''"
  using Commit_inserts_highlighted [where s = sample_selecting and e = "sample_event UserAction.Commit"
      and hint = no_hint and ed = "\<lparr>document = ''x'', marked = Some ''B''\<rparr>"]
  by (simp add: sample_selecting_def sample_event_def sample_candidate_def case_prod_beta)

text \<open>Cancelling never changes the document and never reports anything for learning; it ends the
  composition.\<close>

theorem Cancel_discards:
  assumes "kind s \<noteq> Idle" "action e = UserAction.Cancel"
  shows "case HandleEvent e hint s of (acts, s') \<Rightarrow>
      document (apply_actions acts ed) = document ed \<and>
      list_all (\<lambda>a. case a of ObserveCommit r t \<Rightarrow> False | CommitMarkedText \<Rightarrow> False | _ \<Rightarrow> True) acts \<and>
      kind s' = Idle \<and> composition_empty s'"
  using assms
  by (cases "kind s") (simp_all add: HandleEvent_def HandleSelecting_def HandleComposing_def
      HandleUnicodeInput_def HandleReplaceSuggestion_def)

theorem Cancel_discards_witness:
  "document (apply_actions (fst (HandleEvent (sample_event UserAction.Cancel) no_hint sample_selecting))
     \<lparr>document = ''x'', marked = Some ''B''\<rparr>) = ''x''"
  using Cancel_discards [where s = sample_selecting and e = "sample_event UserAction.Cancel"
      and hint = no_hint and ed = "\<lparr>document = ''x'', marked = Some ''B''\<rparr>"]
  by (simp add: sample_selecting_def sample_event_def case_prod_beta)

subsection \<open>What is reported for learning\<close>

definition observed :: "ClientAction list \<Rightarrow> (string \<times> string) list" where
  "observed acts = concat (map (\<lambda>a. case a of ObserveCommit r t \<Rightarrow> [(r, t)] | _ \<Rightarrow> []) acts)"

lemma observed_simps [simp]:
  "observed [] = []" "observed (a # as) = (case a of ObserveCommit r t \<Rightarrow> [(r, t)] | _ \<Rightarrow> []) @ observed as"
  "observed (as @ bs) = observed as @ observed bs"
  by (simp_all add: observed_def)

lemma observed_helpers [simp]:
  "observed (fst (AfterReadingChanged s)) = []" "observed (fst (do_StartConversion s)) = []"
  "observed (fst (CommitAsIs s)) = []" "observed (fst (HandleIdle e s)) = []"
  "observed (fst (move_selection b s)) = []" "observed (fst (HandleReplaceSuggestion e s)) = []"
  "observed (fst (CommitCandidate i p s)) =
     [(confirmed_kana s @ fst (Flush (pending_romaji s)), surface (candidates s ! i))]"
proof -
  show a: "observed (fst (AfterReadingChanged s)) = []" for s
    by (simp add: AfterReadingChanged_def Let_def)
  show "observed (fst (HandleIdle e s)) = []"
    using a by (simp add: HandleIdle_def Let_def split: UserAction.splits)
  show "observed (fst (HandleReplaceSuggestion e s)) = []"
    by (simp add: HandleReplaceSuggestion_def split: UserAction.splits)
qed (simp_all add: do_StartConversion_def CommitAsIs_def move_selection_def CommitCandidate_def
    Let_def case_prod_beta)

lemma HandleUnicodeInput_observed: "observed (fst (HandleUnicodeInput e s)) = []"
  by (auto simp: HandleUnicodeInput_def unicode_input_def finish_unicode_def Let_def case_prod_beta
      split: UserAction.splits option.splits)

text \<open>Only what the user chose is learned: an event reports at most one commit, and then its
  surface is a candidate of the state, its reading is the flushed reading, and the state had
  candidates for that reading. In the other modes nothing is reported.\<close>

theorem observed_is_candidate:
  assumes "state_ok s" "observed (fst (HandleEvent e hint s)) = obs" "obs \<noteq> []"
  shows "\<exists>c \<in> set (candidates s). has_reading (kind s) \<and>
    obs = [(confirmed_kana s @ fst (Flush (pending_romaji s)), surface c)]"
proof -
  have e: "observed (fst (case kind s of Idle \<Rightarrow> HandleIdle e s | Composing \<Rightarrow> HandleComposing e s
      | Previewing \<Rightarrow> HandleComposing e s | Selecting \<Rightarrow> HandleSelecting e s
      | ReplaceSuggestion \<Rightarrow> HandleReplaceSuggestion e s | UnicodeInput \<Rightarrow> HandleUnicodeInput e s)) = obs"
    using assms(2,3) by (cases "action e") (simp_all add: HandleEvent_def)
  have comp: "\<exists>c \<in> set (candidates s). obs =
      [(confirmed_kana s @ fst (Flush (pending_romaji s)), surface c)]"
    if "observed (fst (HandleComposing e s)) = obs"
    using that assms(3)
    by (cases "candidates s")
      (auto simp: HandleComposing_def compose_input_def Let_def case_prod_beta
        split: UserAction.splits option.splits if_splits)
  have sel: "\<exists>c \<in> set (candidates s). obs =
      [(confirmed_kana s @ fst (Flush (pending_romaji s)), surface c)]"
    if "observed (fst (HandleSelecting e s)) = obs" "kind s = Selecting"
  proof -
    have "selected_index s < length (candidates s)" using assms(1) that(2) by (simp add: state_ok_def)
    then have i: "candidates s ! selected_index s \<in> set (candidates s)" by simp
    have d: "1 \<le> digit e \<Longrightarrow> nat (digit e) \<le> length (candidates s) \<Longrightarrow>
        candidates s ! nat (digit e - 1) \<in> set (candidates s)" by (intro nth_mem) linarith
    show ?thesis
      using that(1) assms(3) i d
      by (auto simp: HandleSelecting_def select_input_def Let_def case_prod_beta
          split: UserAction.splits if_splits)
  qed
  show ?thesis
    using e comp sel assms(3) HandleUnicodeInput_observed [of e s]
    by (cases "kind s") (auto simp: has_reading_def)
qed

subsection \<open>Late responses\<close>

text \<open>A candidate response that nobody waits for changes neither what is shown nor what a commit
  would insert: while candidates are shown it is dropped, and while composing it only fills the
  cache.\<close>

theorem late_candidates_harmless:
  assumes "state_ok s" "\<not> awaiting_candidates s"
  shows "case HandleCandidatesArrived cs s of (acts, s') \<Rightarrow>
    acts = [] \<and> shown s' = shown s \<and> kind s' = kind s \<and>
    (kind s = Selecting \<longrightarrow> s' = s) \<and>
    (action e = UserAction.Commit \<longrightarrow> HandleEvent e hint s' = HandleEvent e hint s)"
proof -
  have r: "ResetComposition (s\<lparr>candidates := cs, confirmed_kana := k, pending_romaji := p\<rparr>) =
      ResetComposition (s\<lparr>confirmed_kana := k, pending_romaji := p\<rparr>)" for k p
    by (simp add: ResetComposition_def)
  show ?thesis
    using assms(2)
    by (cases "kind s") (auto simp: HandleCandidatesArrived_def shown_def Reading_def Let_def
        HandleEvent_def HandleComposing_def CommitAsIs_def r case_prod_beta)
qed

theorem late_candidates_harmless_witness:
  "snd (HandleCandidatesArrived [sample_candidate ''C''] sample_selecting) = sample_selecting"
proof -
  have "state_ok sample_selecting"
    by (simp add: sample_selecting_def state_ok_def InputState_init_def romaji_init_def romaji_ok_def
        builtin_ok_def Reading_def)
  then show ?thesis
    using late_candidates_harmless [where s = sample_selecting and cs = "[sample_candidate ''C'']"
        and e = "sample_event UserAction.Commit" and hint = no_hint]
    by (simp add: sample_selecting_def InputState_init_def case_prod_beta)
qed

theorem observed_is_candidate_witness:
  "\<exists>c \<in> set (candidates sample_selecting). has_reading (kind sample_selecting) \<and>
     [(''ka'', ''B'')] = [(confirmed_kana sample_selecting @
        fst (Flush (pending_romaji sample_selecting)), surface c)]"
proof (rule observed_is_candidate [of _ "sample_event UserAction.Commit" no_hint])
  show "state_ok sample_selecting"
    by (simp add: sample_selecting_def state_ok_def InputState_init_def romaji_init_def romaji_ok_def
        builtin_ok_def Reading_def)
  show "observed (fst (HandleEvent (sample_event UserAction.Commit) no_hint sample_selecting)) = [(''ka'', ''B'')]"
    by (simp add: HandleEvent_def HandleSelecting_def sample_event_def sample_selecting_def
        InputState_init_def sample_candidate_def romaji_init_def Flush_def ConvertPending_def)
qed simp

subsection \<open>Unicode input\<close>

definition hex_digit_value :: "char \<Rightarrow> nat" where
  "hex_digit_value c = (if ord c \<le> 0x39 then ord c - 0x30 else ord c - 0x41 + 10)"

definition hex_value :: "string \<Rightarrow> nat" where
  "hex_value hex = foldl (\<lambda>v c. v * 16 + hex_digit_value c) 0 hex"

lemma hex_digit_value_less: "is_hex_digit c \<Longrightarrow> hex_digit_value c < 16"
  by (auto simp: is_hex_digit_def hex_digit_value_def)

lemma hex_value_bound: "list_all is_hex_digit hex \<Longrightarrow> hex_value hex < 16 ^ length hex"
proof (induction hex rule: rev_induct)
  case (snoc c hex)
  then have "hex_value hex < 16 ^ length hex" "hex_digit_value c < 16"
    using hex_digit_value_less by auto
  then show ?case by (simp add: hex_value_def)
qed (simp add: hex_value_def)

lemma hex_step_value:
  assumes "is_hex_digit c"
  shows "hex_step v c = v * 16 + of_nat (hex_digit_value c)"
proof -
  have "0x30 \<le> ord c" "\<not> ord c \<le> 0x39 \<Longrightarrow> 0x41 \<le> ord c" using assms by (auto simp: is_hex_digit_def)
  then show ?thesis by (auto simp: hex_step_def hex_digit_value_def of_nat_diff)
qed

lemma foldl_hex_step:
  "list_all is_hex_digit hex \<Longrightarrow> foldl hex_step 0 hex = of_nat (hex_value hex)"
  by (induction hex rule: rev_induct) (simp_all add: hex_value_def hex_step_value)

text \<open>The eight digits the mode can buffer never overflow the 64-bit accumulator: the parser
  returns exactly the number the digits spell when it is a Unicode scalar value, and nothing
  otherwise.\<close>

theorem ParseUnicodeScalar_exact:
  assumes "list_all is_hex_digit hex" "length hex \<le> kMaxUnicodeHexDigits"
  shows "ParseUnicodeScalar hex =
    (if hex \<noteq> [] \<and> is_scalar (hex_value hex) then Some (hex_value hex) else None)"
proof -
  have "hex_value hex < 16 ^ length hex" using hex_value_bound assms(1) by blast
  also have "\<dots> \<le> 16 ^ 8"
    using assms(2) by (intro power_increasing) (simp_all add: kMaxUnicodeHexDigits_def)
  finally have b: "hex_value hex < 2 ^ 64" by simp
  have w: "unat (of_nat (hex_value hex) :: 64 word) = hex_value hex"
    using b by (simp add: unat_of_nat)
  show ?thesis
    unfolding ParseUnicodeScalar_def Let_def foldl_hex_step [OF assms(1)] word_less_nat_alt word_le_nat_alt w
    by (auto simp: is_scalar_def)
qed

theorem ParseUnicodeScalar_exact_witness:
  "ParseUnicodeScalar ''1F600'' = Some 0x1f600 \<and> ParseUnicodeScalar ''D800'' = None"
  using ParseUnicodeScalar_exact [of "''1F600''"] ParseUnicodeScalar_exact [of "''D800''"]
  by (simp add: is_hex_digit_def kMaxUnicodeHexDigits_def hex_value_def hex_digit_value_def is_scalar_def)

subsection \<open>Backspace\<close>

lemma back_over_continuation_append:
  "list_all is_continuation ys \<Longrightarrow> \<not> is_continuation x \<Longrightarrow>
     back_over_continuation (xs @ x # ys) (length xs + 1 + length ys) = length xs + 1"
proof (induction ys rule: rev_induct)
  case (snoc y ys)
  have s: "back_over_continuation (zs @ [y]) n = back_over_continuation zs n" if "n \<le> length zs" for n zs
    using that by (induction n) (auto simp: nth_append)
  have "(xs @ x # ys @ [y]) ! (length xs + 1 + length ys) = y" by (simp add: nth_append)
  then show ?case
    using snoc s [of "length xs + 1 + length ys" "xs @ x # ys"] by (simp add: is_continuation_def)
qed (simp add: nth_append is_continuation_def)

text \<open>With nothing pending, Backspace removes exactly the last character of the reading, whatever
  the length of its encoding.\<close>

theorem EraseLastUnit_scalar:
  assumes "is_scalar c" "pending (pending_romaji s) = []" "confirmed_kana s = kana @ utf8 c"
  shows "confirmed_kana (EraseLastUnit s) = kana"
proof -
  obtain b bs where u: "utf8 c = b # bs" by (cases "utf8 c") (auto simp: AppendUtf8_def split: if_splits)
  have "\<not> is_continuation b" "list_all is_continuation bs" using utf8_lead [OF assms(1)] u by auto
  then have "back_over_continuation (kana @ b # bs) (length kana + 1 + length bs) = length kana + 1"
    using back_over_continuation_append by blast
  then show ?thesis using assms(2,3) u by (simp add: EraseLastUnit_def HasPending_def Let_def)
qed

theorem EraseLastUnit_scalar_witness:
  "confirmed_kana (EraseLastUnit (InputState_init\<lparr>confirmed_kana := ''a'' @ utf8 0x3042\<rparr>)) = ''a''"
  using EraseLastUnit_scalar [where c = "0x3042" and kana = "''a''"
      and s = "InputState_init\<lparr>confirmed_kana := ''a'' @ utf8 0x3042\<rparr>"]
  by (simp add: is_scalar_def InputState_init_def romaji_init_def)

subsection \<open>A rule without output\<close>

text \<open>
  The loader accepts a rule with an empty output. Converting or committing a composition that
  flushes to nothing emits no action: the marked text stays on the screen.
\<close>

definition silent_table :: custom_table where
  "silent_table = [(''x'', \<lparr>rule_output = [], consume = 1\<rparr>), (''xa'', \<lparr>rule_output = ''a'', consume = 2\<rparr>)]"

definition silent_session :: "InputState \<times> editor" where
  "silent_session = foldl session_step
     (WithComposition [] (SetCustomTable (Some silent_table) romaji_init) InputState_init,
      \<lparr>document = [], marked = None\<rparr>)
     [KeyEvent (sample_event UserAction.Input\<lparr>event_codepoint := 0x78\<rparr>) no_hint,
      KeyEvent (sample_event UserAction.Commit) no_hint]"

text \<open>With a custom rule whose output is empty, committing the pending key leaves the state
  idle while its marked text is still shown and nothing was committed: the composition is never
  cancelled.\<close>

theorem silent_rule_leaves_marked:
  "fst (CustomRomajiLoader_Parse (''x'' @ [CHR 9] @ [CHR 10] @ ''xa'' @ [CHR 9] @ ''a'')) = Some silent_table \<and>
   kind (fst silent_session) = Idle \<and> shown (fst silent_session) = None \<and>
   marked (snd silent_session) = Some ''x'' \<and> document (snd silent_session) = []"
proof -
  have 1: "fst (CustomRomajiLoader_Parse (''x'' @ [CHR 9] @ [CHR 10] @ ''xa'' @ [CHR 9] @ ''a'')) = Some silent_table"
    by (simp add: CustomRomajiLoader_Parse_def parse_lines.simps ParseLine_def find_char_from_def
        ValidInput_def ValidOutput_def ValidOutput_loop.simps DecodeNextUtf8_def normalize_input_def
        eq_byte_numeral silent_table_def)
  have x: "byte 0x78 = CHR ''x''" by (simp add: eq_byte_numeral)
  have t: "tolower (CHR ''x'') = CHR ''x''" by (simp add: tolower_def)
  show ?thesis using 1
    by (simp add: silent_session_def session_step_def HandleEvent_def HandleIdle_def sample_event_def
        WithComposition_def Reset_def ResetComposition_def InputState_init_def romaji_init_def
        SetCustomTable_def romaji_Reset_def HasPending_def AppendInput_def IsAsciiLetter_def x t
        Feed_def ConvertCustomPending_def silent_table_def upper_bound_def starts_at_def Reading_def
        PreviewPending_def AfterReadingChanged_def HandleComposing_def CommitAsIs_def Flush_def
        ConvertPending_def shown_def Let_def)
qed

end
