(* ===== verification/UserActionMap.thy ===== *)
theory UserActionMap
  imports InputState
begin

text \<open>
  The first layer of the key translation (\<open>core/src/UserActionMap.cpp\<close>): from a Windows virtual
  key, the modifier flags and the kind of the current state to a semantic action, or \<^term>\<open>None\<close>
  when the input method does not consume the key. Virtual keys and modifiers are \<open>uint32_t\<close>.
\<close>

type_synonym vkey = "32 word"

definition kModifierShift :: "32 word" where "kModifierShift = push_bit 0 1"

definition kModifierCtrl :: "32 word" where "kModifierCtrl = push_bit 1 1"

definition kModifierAlt :: "32 word" where "kModifierAlt = push_bit 2 1"

definition kModifierWin :: "32 word" where "kModifierWin = push_bit 3 1"

section \<open>Classes of states and keys\<close>

definition IsComposing :: "InputStateKind \<Rightarrow> bool" where
  "IsComposing k \<longleftrightarrow> k = Composing \<or> k = Previewing"

definition AcceptsEditing :: "InputStateKind \<Rightarrow> bool" where
  "AcceptsEditing k \<longleftrightarrow> IsComposing k \<or> k = Selecting \<or> k = UnicodeInput"

definition IsLetter :: "vkey \<Rightarrow> bool" where
  "IsLetter key \<longleftrightarrow> key \<ge> 0x41 \<and> key \<le> 0x5A"

definition IsDigitRow :: "vkey \<Rightarrow> bool" where
  "IsDigitRow key \<longleftrightarrow> key \<ge> 0x30 \<and> key \<le> 0x39"

definition IsNumpadDigit :: "vkey \<Rightarrow> bool" where
  "IsNumpadDigit key \<longleftrightarrow> key \<ge> 0x60 \<and> key \<le> 0x69"

definition IsUnicodeInputSymbol :: "vkey \<Rightarrow> bool" where
  "IsUnicodeInputSymbol key \<longleftrightarrow>
     key = 0xBD \<or> key = 0x6D \<or> key = 0xBC \<or> key = 0xBE \<or> key = 0xBF"

definition IsCompositionSymbol :: "vkey \<Rightarrow> bool" where
  "IsCompositionSymbol key \<longleftrightarrow>
     (key \<ge> 0xBA \<and> key \<le> 0xC0) \<or> (key \<ge> 0xDB \<and> key \<le> 0xDF) \<or> key = 0xE2"

definition IsNumpadSymbol :: "vkey \<Rightarrow> bool" where
  "IsNumpadSymbol key \<longleftrightarrow> key = 0x6A \<or> key = 0x6B \<or> key = 0x6D \<or> key = 0x6E \<or> key = 0x6F"

definition TakesSymbol :: "InputStateKind \<Rightarrow> bool" where
  "TakesSymbol k \<longleftrightarrow> IsComposing k \<or> k = Selecting \<or> k = Idle"

section \<open>The map\<close>

definition Make :: "UserAction \<Rightarrow> 32 word \<Rightarrow> int \<Rightarrow> UserActionEvent option" where
  "Make a mods d = Some \<lparr>action = a, event_codepoint = 0, modifiers = mods, digit = d\<rparr>"

definition MapCtrl :: "vkey \<Rightarrow> 32 word \<Rightarrow> InputStateKind \<Rightarrow> UserActionEvent option" where
  "MapCtrl key mods k =
     (if mods AND kModifierShift \<noteq> 0 then
        if key = 0x55 \<and> k \<noteq> ReplaceSuggestion \<and> k \<noteq> UnicodeInput
        then Make UserAction.StartUnicodeInput mods 0
        else if key = 0x08 \<and> k = Idle then Make UserAction.Forget mods 0
        else None
      else if key = 0x48 \<and> AcceptsEditing k then Make UserAction.Backspace mods 0
      else if key = 0x50 \<and> k = Selecting then Make UserAction.Up mods 0
      else if key = 0x4E \<and> k = Selecting then Make UserAction.Down mods 0
      else if key = 0x46 \<and> k = Selecting then Make UserAction.Forward mods 0
      else if key = 0x42 \<and> k = Selecting then Make UserAction.Backward mods 0
      else None)"

text \<open>\<open>kForms\<close>, indexed by the function key.\<close>

definition kForms :: "UserAction list" where
  "kForms = [UserAction.CommitHiragana, UserAction.CommitKatakana, UserAction.CommitHalfwidthKatakana,
     UserAction.CommitFullwidthRoman, UserAction.CommitHalfwidthRoman]"

text \<open>The keys that are looked at only without Shift: \<^term>\<open>Some r\<close> is an early return of \<open>r\<close>.\<close>

definition map_unshifted :: "vkey \<Rightarrow> 32 word \<Rightarrow> InputStateKind \<Rightarrow> UserActionEvent option option" where
  "map_unshifted key mods k =
     (if key = 0x19 \<or> key = 0xF3 \<or> key = 0xF4 then Some (Make UserAction.ToggleHankaku mods 0)
      else if key = 0x1D then Some (Make UserAction.ToggleHiraKata mods 0)
      else if key = 0xF0 then Some (Make UserAction.ToggleAlnum mods 0)
      else if key \<ge> 0x75 \<and> key \<le> 0x79 then
        if AcceptsEditing k then Some (Make (kForms ! unat (key - 0x75)) mods 0)
        else if key = 0x79 then Some (Make UserAction.ToggleDebugWindow mods 0)
        else Some None
      else None)"

definition map_digit :: "bool \<Rightarrow> vkey \<Rightarrow> 32 word \<Rightarrow> InputStateKind \<Rightarrow> UserActionEvent option" where
  "map_digit shift key mods k =
     (let numpad = IsNumpadDigit key in
      if shift \<and> \<not> numpad then (if TakesSymbol k then Make UserAction.Input mods 0 else None)
      else let d = uint (key - (if numpad then 0x60 else 0x30)) in
        if k = Selecting \<and> d \<noteq> 0 then Make UserAction.SelectByDigit mods d
        else if k = Selecting \<or> IsComposing k then Make UserAction.Input mods 0
        else None)"

definition map_control_key :: "bool \<Rightarrow> vkey \<Rightarrow> 32 word \<Rightarrow> InputStateKind \<Rightarrow> UserActionEvent option" where
  "map_control_key shift key mods k =
     (if key = 0x08 \<and> AcceptsEditing k then Make UserAction.Backspace mods 0
      else if key = 0x20 \<and> IsComposing k then Make UserAction.StartConversion mods 0
      else if key = 0x20 \<and> k = Selecting then
        Make (if shift then UserAction.PrevCandidate else UserAction.NextCandidate) mods 0
      else if key = 0x1C \<and> \<not> shift \<and> IsComposing k then Make UserAction.StartConversion mods 0
      else if key = 0x1C \<and> \<not> shift \<and> k = Selecting then Make UserAction.NextCandidate mods 0
      else if key = 0x26 \<and> k = Selecting then Make UserAction.Up mods 0
      else if key = 0x28 \<and> k = Selecting then Make UserAction.Down mods 0
      else if key = 0x25 \<and> k = Selecting then Make UserAction.Backward mods 0
      else if key = 0x27 \<and> k = Selecting then Make UserAction.Forward mods 0
      else if key = 0x0D \<and> k \<noteq> Idle then Make UserAction.Commit mods 0
      else if key = 0x1B \<and> k \<noteq> Idle then Make UserAction.Cancel mods 0
      else None)"

definition MapUserAction :: "vkey \<Rightarrow> 32 word \<Rightarrow> InputStateKind \<Rightarrow> UserActionEvent option" where
  "MapUserAction key mods k =
     (if mods AND (kModifierAlt OR kModifierWin) \<noteq> 0 then None
      else if mods AND kModifierCtrl \<noteq> 0 then MapCtrl key mods k
      else
        let shift = (mods AND kModifierShift \<noteq> 0) in
        case (if shift then None else map_unshifted key mods k) of
          Some r \<Rightarrow> r
        | None \<Rightarrow>
            if k = UnicodeInput \<and>
               (IsLetter key \<or> IsDigitRow key \<or> IsNumpadDigit key \<or> IsUnicodeInputSymbol key)
            then Make UserAction.Input mods 0
            else if IsLetter key then
              (if k = ReplaceSuggestion then None else Make UserAction.Input mods 0)
            else if IsDigitRow key \<or> IsNumpadDigit key then map_digit shift key mods k
            else if IsCompositionSymbol key then
              (if TakesSymbol k then Make UserAction.Input mods 0 else None)
            else if IsNumpadSymbol key then
              (if IsComposing k \<or> k = Selecting then Make UserAction.Input mods 0 else None)
            else map_control_key shift key mods k)"

section \<open>What the map promises\<close>

text \<open>
  The actions a state of the given kind can be sent. The state machine relies on this: an idle
  state is sent no key that edits, selects, commits or cancels, so it ignores those.
\<close>

definition expected_actions :: "InputStateKind \<Rightarrow> UserAction set" where
  "expected_actions k =
     {UserAction.ToggleHankaku, UserAction.ToggleHiraKata, UserAction.ToggleAlnum} \<union>
     (case k of
        Idle \<Rightarrow> {UserAction.Input, UserAction.StartUnicodeInput, UserAction.Forget, UserAction.ToggleDebugWindow}
      | ReplaceSuggestion \<Rightarrow> {UserAction.Commit, UserAction.Cancel, UserAction.ToggleDebugWindow}
      | UnicodeInput \<Rightarrow> {UserAction.Input, UserAction.Backspace, UserAction.Commit, UserAction.Cancel} \<union> set kForms
      | Selecting \<Rightarrow> {UserAction.Input, UserAction.Backspace, UserAction.StartUnicodeInput,
          UserAction.NextCandidate, UserAction.PrevCandidate, UserAction.SelectByDigit, UserAction.Up,
          UserAction.Down, UserAction.Forward, UserAction.Backward, UserAction.Commit,
          UserAction.Cancel} \<union> set kForms
      | _ \<Rightarrow> {UserAction.Input, UserAction.Backspace, UserAction.StartUnicodeInput,
          UserAction.StartConversion, UserAction.Commit, UserAction.Cancel} \<union> set kForms)"

definition event_fits :: "32 word \<Rightarrow> InputStateKind \<Rightarrow> UserActionEvent option \<Rightarrow> bool" where
  "event_fits mods k r = (case r of None \<Rightarrow> True | Some e \<Rightarrow>
     action e \<in> expected_actions k \<and> modifiers e = mods \<and> event_codepoint e = 0 \<and>
     (if action e = UserAction.SelectByDigit then 1 \<le> digit e \<and> digit e \<le> 9 else digit e = 0))"

lemma event_fits_None [simp]: "event_fits mods k None"
  by (simp add: event_fits_def)

lemma event_fits_Make:
  "event_fits mods k (Make a mods d) \<longleftrightarrow> a \<in> expected_actions k \<and>
     (if a = UserAction.SelectByDigit then 1 \<le> d \<and> d \<le> 9 else d = 0)"
  by (simp add: event_fits_def Make_def)

lemma kForms_member: "key \<ge> 0x75 \<Longrightarrow> key \<le> 0x79 \<Longrightarrow> kForms ! unat (key - 0x75 :: vkey) \<in> set kForms"
proof -
  assume "key \<ge> 0x75" "key \<le> 0x79"
  then have "unat (key - 0x75) = unat key - 0x75" "unat key \<le> 0x79"
    by (simp_all add: unat_sub word_le_nat_alt)
  then have "unat (key - 0x75) < length kForms" by (simp add: kForms_def)
  then show ?thesis by simp
qed

lemma kForms_no_digit: "UserAction.SelectByDigit \<notin> set kForms"
  by (simp add: kForms_def)

lemma expected_actions_simps:
  "UserAction.ToggleHankaku \<in> expected_actions k" "UserAction.ToggleHiraKata \<in> expected_actions k"
  "UserAction.ToggleAlnum \<in> expected_actions k"
  "AcceptsEditing k \<Longrightarrow> a \<in> set kForms \<Longrightarrow> a \<in> expected_actions k"
  "AcceptsEditing k \<Longrightarrow> UserAction.Backspace \<in> expected_actions k"
  "k = UnicodeInput \<or> TakesSymbol k \<Longrightarrow> UserAction.Input \<in> expected_actions k"
  "k \<noteq> Idle \<Longrightarrow> UserAction.Commit \<in> expected_actions k \<and> UserAction.Cancel \<in> expected_actions k"
  "\<not> AcceptsEditing k \<Longrightarrow> UserAction.ToggleDebugWindow \<in> expected_actions k"
  "k \<noteq> ReplaceSuggestion \<Longrightarrow> k \<noteq> UnicodeInput \<Longrightarrow> UserAction.StartUnicodeInput \<in> expected_actions k"
  "UserAction.Forget \<in> expected_actions Idle"
  "IsComposing k \<Longrightarrow> UserAction.StartConversion \<in> expected_actions k"
  by (cases k; auto simp: expected_actions_def AcceptsEditing_def IsComposing_def TakesSymbol_def)+

lemma expected_selecting:
  "UserAction.Up \<in> expected_actions Selecting" "UserAction.Down \<in> expected_actions Selecting"
  "UserAction.Forward \<in> expected_actions Selecting" "UserAction.Backward \<in> expected_actions Selecting"
  "UserAction.NextCandidate \<in> expected_actions Selecting"
  "UserAction.PrevCandidate \<in> expected_actions Selecting"
  "UserAction.SelectByDigit \<in> expected_actions Selecting"
  by (simp_all add: expected_actions_def)

lemma digit_range:
  assumes "IsDigitRow key \<or> IsNumpadDigit key"
  shows "uint (key - (if IsNumpadDigit key then 0x60 else 0x30)) \<le> 9"
proof -
  have "IsNumpadDigit key \<Longrightarrow> uint (key - 0x60) = uint key - 0x60 \<and> uint key \<le> 0x69"
    using uint_minus_simple_alt [where y = "0x60" and x = key] by (simp add: IsNumpadDigit_def word_le_def)
  moreover have "IsDigitRow key \<Longrightarrow> uint (key - 0x30) = uint key - 0x30 \<and> uint key \<le> 0x39"
    using uint_minus_simple_alt [where y = "0x30" and x = key] by (simp add: IsDigitRow_def word_le_def)
  ultimately show ?thesis using assms by auto
qed

lemmas expected = expected_actions_simps expected_selecting kForms_no_digit

lemma map_digit_fits:
  assumes "IsDigitRow key \<or> IsNumpadDigit key"
  shows "event_fits mods k (map_digit shift key mods k)"
proof -
  let ?d = "uint (key - (if IsNumpadDigit key then 0x60 else 0x30))"
  have "?d \<noteq> 0 \<Longrightarrow> 1 \<le> ?d" using uint_ge_0 [of "key - (if IsNumpadDigit key then 0x60 else 0x30)"] by linarith
  then show ?thesis
    using digit_range [OF assms]
    unfolding map_digit_def Let_def
    by (auto simp: event_fits_Make TakesSymbol_def expected)
qed

lemma map_unshifted_fits: "map_unshifted key mods k = Some r \<Longrightarrow> event_fits mods k r"
proof -
  have "key \<ge> 0x75 \<Longrightarrow> key \<le> 0x79 \<Longrightarrow> AcceptsEditing k \<Longrightarrow>
      event_fits mods k (Make (kForms ! unat (key - 0x75)) mods 0)"
    using kForms_member [of key] kForms_no_digit by (auto simp: event_fits_Make expected)
  then show "map_unshifted key mods k = Some r \<Longrightarrow> event_fits mods k r"
    by (auto simp: map_unshifted_def event_fits_Make expected split: if_splits)
qed

lemma MapCtrl_fits: "event_fits mods k (MapCtrl key mods k)"
  by (auto simp: MapCtrl_def event_fits_Make expected)

lemma map_control_key_fits: "event_fits mods k (map_control_key shift key mods k)"
  by (auto simp: map_control_key_def event_fits_Make expected)

text \<open>Whatever key is pressed, the event sent to the state machine is one that its current kind
  expects; a digit selection carries a digit from 1 to 9 and only while candidates are shown; keys
  with Alt or Win are never consumed.\<close>

theorem MapUserAction_fits:
  "event_fits mods k (MapUserAction key mods k) \<and>
   (MapUserAction key mods k = None \<or> mods AND (kModifierAlt OR kModifierWin) = 0)"
proof -
  have "event_fits mods k (MapUserAction key mods k)"
    unfolding MapUserAction_def Let_def
    using map_digit_fits [of key mods k] map_unshifted_fits [of key mods k] MapCtrl_fits [of mods k key]
      map_control_key_fits [of mods k _ key]
    by (cases k) (auto simp: event_fits_Make TakesSymbol_def IsComposing_def expected split: option.splits)
  then show ?thesis by (simp add: MapUserAction_def)
qed

end
