(* ===== verification/Health.thy ===== *)
theory Health
  imports StdText
begin

text \<open>
  The recovery states of the inference host and its crash-loop detection
  (\<open>inference-host/src/HealthStateMachine.cpp\<close>): the transition table with its linear search, the
  machine that applies events, the run history that a start and a clean exit record, and the text
  format in which the history is kept between runs. The query of the operating system for live
  processes is not modelled.
\<close>

section \<open>The transition table\<close>

datatype HealthState =
  Healthy | DegradedSimple | DegradedModel | RecoveringTransport | RecoveringModel | SafeMode

datatype HealthEvent =
    HostUnresponsive | ModelFailed | TransportReconnected | ModelReloadAccepted
  | HostHealthConfirmed | ModelLoadConfirmed | TransportRecoveryFailed | ModelRecoveryFailed
  | CrashLoopDetected | SafeModeCleared

type_synonym HealthTransition = "HealthState \<times> HealthEvent \<times> HealthState"

definition HealthTransitions :: "HealthTransition list" where
  "HealthTransitions =
    [(Healthy, HostUnresponsive, DegradedSimple),
     (Healthy, ModelFailed, DegradedModel),
     (DegradedSimple, TransportReconnected, RecoveringTransport),
     (DegradedModel, ModelReloadAccepted, RecoveringModel),
     (RecoveringTransport, HostHealthConfirmed, Healthy),
     (RecoveringModel, ModelLoadConfirmed, Healthy),
     (RecoveringTransport, TransportRecoveryFailed, DegradedSimple),
     (RecoveringModel, ModelRecoveryFailed, DegradedModel),
     (Healthy, CrashLoopDetected, SafeMode),
     (DegradedSimple, CrashLoopDetected, SafeMode),
     (DegradedModel, CrashLoopDetected, SafeMode),
     (RecoveringTransport, CrashLoopDetected, SafeMode),
     (RecoveringModel, CrashLoopDetected, SafeMode),
     (SafeMode, SafeModeCleared, Healthy)]"

definition NextHealthState :: "HealthState \<Rightarrow> HealthEvent \<Rightarrow> HealthState option" where
  "NextHealthState s e = find_transition HealthTransitions s e"

definition HealthStateName :: "HealthState \<Rightarrow> string" where
  "HealthStateName s =
     (case s of
        Healthy \<Rightarrow> ''healthy''
      | DegradedSimple \<Rightarrow> ''degraded_simple''
      | DegradedModel \<Rightarrow> ''degraded_model''
      | RecoveringTransport \<Rightarrow> ''recovering_transport''
      | RecoveringModel \<Rightarrow> ''recovering_model''
      | SafeMode \<Rightarrow> ''safe_mode'')"

definition HealthEventName :: "HealthEvent \<Rightarrow> string" where
  "HealthEventName e =
     (case e of
        HostUnresponsive \<Rightarrow> ''host_unresponsive''
      | ModelFailed \<Rightarrow> ''model_failed''
      | TransportReconnected \<Rightarrow> ''transport_reconnected''
      | ModelReloadAccepted \<Rightarrow> ''model_reload_accepted''
      | HostHealthConfirmed \<Rightarrow> ''host_health_confirmed''
      | ModelLoadConfirmed \<Rightarrow> ''model_load_confirmed''
      | TransportRecoveryFailed \<Rightarrow> ''transport_recovery_failed''
      | ModelRecoveryFailed \<Rightarrow> ''model_recovery_failed''
      | CrashLoopDetected \<Rightarrow> ''crash_loop_detected''
      | SafeModeCleared \<Rightarrow> ''safe_mode_cleared'')"

text \<open>The member function \<open>Apply\<close>: the transition taken, and the state after it.\<close>

definition Apply :: "HealthState \<Rightarrow> HealthEvent \<Rightarrow> HealthTransition option \<times> HealthState" where
  "Apply s e =
     (case NextHealthState s e of
        None \<Rightarrow> (None, s)
      | Some next \<Rightarrow> (Some (s, e, next), next))"

interpretation health: transition_table HealthTransitions
  by unfold_locales (auto simp: HealthTransitions_def)

lemma NextHealthState_iff: "NextHealthState s e = Some t \<longleftrightarrow> (s, e, t) \<in> set HealthTransitions"
  by (simp add: NextHealthState_def health.find_iff)

lemma Apply_state: "snd (Apply s e) = (case NextHealthState s e of None \<Rightarrow> s | Some t \<Rightarrow> t)"
  by (simp add: Apply_def split: option.splits)

text \<open>A host that lost its model is not healthy until the model was loaded again.\<close>

definition model_lost :: "HealthState \<Rightarrow> bool" where
  "model_lost s \<longleftrightarrow> s = DegradedModel \<or> s = RecoveringModel \<or> s = SafeMode"

definition step_without_model :: "HealthState \<Rightarrow> HealthEvent \<Rightarrow> HealthState" where
  "step_without_model s e =
     (if e = ModelLoadConfirmed \<or> e = SafeModeCleared then s else snd (Apply s e))"

interpretation without_model: event_system "\<lambda>s. s = DegradedModel" step_without_model model_lost
proof unfold_locales
  fix s e assume "model_lost s"
  then show "model_lost (step_without_model s e)"
    by (cases e)
      (auto simp: model_lost_def step_without_model_def Apply_def NextHealthState_def HealthTransitions_def)
qed (simp add: model_lost_def)

lemma foldl_without_model:
  "ModelLoadConfirmed \<notin> set es \<Longrightarrow> SafeModeCleared \<notin> set es \<Longrightarrow>
     foldl (\<lambda>s e. snd (Apply s e)) s es = foldl step_without_model s es"
  by (induction es arbitrary: s) (auto simp: step_without_model_def)

section \<open>The run history\<close>

definition kSafeModeCrashThreshold :: nat where
  "kSafeModeCrashThreshold = 3"

definition kSafeModeCrashWindow :: int where
  "kSafeModeCrashWindow = 60000"

definition kMaxRunHistoryBytes :: nat where
  "kMaxRunHistoryBytes = 4096"

definition kMaxRecordedCrashes :: nat where
  "kMaxRecordedCrashes = 32"

record HostRunHistory =
  running :: bool
  pid :: nat
  process_start :: nat
  crash_epoch_ms :: "int list"

definition empty_history :: HostRunHistory where
  "empty_history = \<lparr>running = False, pid = 0, process_start = 0, crash_epoch_ms = []\<rparr>"

record HostStartOutcome =
  next_history :: HostRunHistory
  previous_run_crashed :: bool
  recent_crashes :: nat
  crash_loop :: bool

definition RecordHostStart :: "HostRunHistory \<Rightarrow> nat \<Rightarrow> nat \<Rightarrow> int \<Rightarrow> HostStartOutcome" where
  "RecordHostStart previous new_pid new_start now =
     (let crashed = running previous;
          window_start = now - kSafeModeCrashWindow;
          recent = filter (\<lambda>at. at > window_start \<and> at \<le> now) (crash_epoch_ms previous);
          recent1 = (if crashed then recent @ [now] else recent);
          recent2 = (if length recent1 > kMaxRecordedCrashes
                     then drop (length recent1 - kMaxRecordedCrashes) recent1 else recent1)
      in \<lparr>next_history = \<lparr>running = True, pid = new_pid, process_start = new_start,
            crash_epoch_ms = recent2\<rparr>,
          previous_run_crashed = crashed,
          recent_crashes = length recent2,
          crash_loop = crashed \<and> length recent2 \<ge> kSafeModeCrashThreshold\<rparr>)"

definition RecordHostCleanExit :: HostRunHistory where
  "RecordHostCleanExit = empty_history"

section \<open>Its text format\<close>

definition kRunHistoryHeader :: string where
  "kRunHistoryHeader = ''azookey-host-run v1''"

text \<open>\<open>std::getline\<close>: a line and what follows its end; it fails at the end of the text.\<close>

definition getline :: "string \<Rightarrow> (string \<times> string) option" where
  "getline s = (if s = [] then None
     else case find_char (CHR 10) s of
         None \<Rightarrow> Some (s, [])
       | Some i \<Rightarrow> Some (take i s, drop (Suc i) s))"

definition isspace :: "char \<Rightarrow> bool" where
  "isspace c \<longleftrightarrow> ord c = 32 \<or> (9 \<le> ord c \<and> ord c \<le> 13)"

text \<open>\<open>stream >> word\<close>: the word and the rest of the stream.\<close>

definition extract_word :: "string \<Rightarrow> string \<times> string" where
  "extract_word s =
     (let t = dropWhile isspace s
      in (takeWhile (\<lambda>c. \<not> isspace c) t, dropWhile (\<lambda>c. \<not> isspace c) t))"

text \<open>
  \<open>stream >> n\<close> in decimal for a signed value in \<open>[- half, half)\<close>: an optional sign and digits;
  no digits or a value out of range set the fail bit.
\<close>

definition extract_signed :: "nat \<Rightarrow> string \<Rightarrow> int option" where
  "extract_signed half s =
     (let t = dropWhile isspace s;
          negative = (t \<noteq> [] \<and> hd t = CHR ''-'');
          u = (if t \<noteq> [] \<and> (hd t = CHR ''-'' \<or> hd t = CHR ''+'') then tl t else t);
          ds = takeWhile isdigit u;
          v = (if negative then - int (dec_value ds) else int (dec_value ds))
      in if ds = [] \<or> v < - int half \<or> v \<ge> int half then None else Some v)"

text \<open>The same for an unsigned type with \<open>bound\<close> values: a minus sign negates modulo \<open>bound\<close>.\<close>

definition extract_unsigned :: "nat \<Rightarrow> string \<Rightarrow> (nat \<times> string) option" where
  "extract_unsigned bound s =
     (let t = dropWhile isspace s;
          negative = (t \<noteq> [] \<and> hd t = CHR ''-'');
          u = (if t \<noteq> [] \<and> (hd t = CHR ''-'' \<or> hd t = CHR ''+'') then tl t else t);
          ds = takeWhile isdigit u;
          v = dec_value ds
      in if ds = [] \<or> v \<ge> bound then None
         else Some (if negative then (bound - v) mod bound else v, dropWhile isdigit u))"

lemma getline_shorter: "getline s = Some (line, rest) \<Longrightarrow> length rest < length s"
  by (auto simp: getline_def split: if_splits option.splits)

text \<open>The loop over the lines of crash times.\<close>

function read_crashes :: "string \<Rightarrow> int list \<Rightarrow> int list option" where
  "read_crashes s crashes =
     (case getline s of
        None \<Rightarrow> Some crashes
      | Some (line, rest) \<Rightarrow>
          if line = [] then read_crashes rest crashes
          else case extract_signed (2 ^ 63) line of
              None \<Rightarrow> None
            | Some at \<Rightarrow>
                let crashes' = crashes @ [at] in
                if length crashes' > kMaxRecordedCrashes then None
                else read_crashes rest crashes')"
  by pat_completeness auto
termination
  by (relation "measure (\<lambda>(s, crashes). length s)") (auto dest: getline_shorter)

declare read_crashes.simps [simp del]

text \<open>\<open>ReadHostRunHistory\<close> on the contents of the file.\<close>

definition parse_history :: "string \<Rightarrow> HostRunHistory option" where
  "parse_history content =
     (if length content > kMaxRunHistoryBytes then None
      else case getline content of
          None \<Rightarrow> None
        | Some (header, rest) \<Rightarrow>
            if header \<noteq> kRunHistoryHeader then None
            else case getline rest of
                None \<Rightarrow> None
              | Some (status, rest') \<Rightarrow>
                  (let (word, more) = extract_word status;
                       base =
                         (if word = ''running'' then
                            (case extract_unsigned (2 ^ 32) more of
                               None \<Rightarrow> None
                             | Some (p, more') \<Rightarrow>
                                 (case extract_unsigned (2 ^ 64) more' of
                                    None \<Rightarrow> None
                                  | Some (st, _) \<Rightarrow>
                                      Some (empty_history\<lparr>running := True, pid := p, process_start := st\<rparr>)))
                          else if word \<noteq> ''stopped'' then None
                          else Some empty_history)
                   in case base of
                        None \<Rightarrow> None
                      | Some h \<Rightarrow>
                          (case read_crashes rest' [] of
                             None \<Rightarrow> None
                           | Some crashes \<Rightarrow> Some (h\<lparr>crash_epoch_ms := crashes\<rparr>))))"

definition int_to_string :: "int \<Rightarrow> string" where
  "int_to_string v = (if v < 0 then CHR ''-'' # to_string (nat (- v)) else to_string (nat v))"

text \<open>The text that \<open>WriteHostRunHistory\<close> hands to the atomic file writer.\<close>

definition format_history :: "HostRunHistory \<Rightarrow> string" where
  "format_history h =
     kRunHistoryHeader @ [CHR 10] @
     (if running h
      then ''running '' @ to_string (pid h) @ '' '' @ to_string (process_start h) @ [CHR 10]
      else ''stopped'' @ [CHR 10]) @
     concat (map (\<lambda>at. int_to_string at @ [CHR 10]) (crash_epoch_ms h))"

section \<open>Properties of the machine\<close>

text \<open>The search of the transition table accepts exactly the listed rows: an event either
  changes the state along a row of the table, or is rejected and leaves the state alone.\<close>

theorem Apply_follows_table:
  "(case Apply s e of
      (None, s') \<Rightarrow> s' = s \<and> list_all (\<lambda>(f, ev, t). (f, ev) \<noteq> (s, e)) HealthTransitions
    | (Some (f, ev, t), s') \<Rightarrow> f = s \<and> ev = e \<and> t = s' \<and> s' \<noteq> s \<and> (s, e, s') \<in> set HealthTransitions)"
proof (cases "NextHealthState s e")
  case None
  then have "\<forall>t. (s, e, t) \<notin> set HealthTransitions"
    by (simp add: NextHealthState_def find_transition_None)
  then show ?thesis using None by (auto simp: Apply_def list_all_iff)
next
  case (Some t)
  then have "(s, e, t) \<in> set HealthTransitions" "t \<noteq> s"
    using health.find_changes [of s e t] NextHealthState_iff [of s e t] by (auto simp: NextHealthState_def)
  then show ?thesis using Some by (simp add: Apply_def)
qed

text \<open>A host that degraded because its model failed is not reported healthy again before the
  model was confirmed loaded or the user left the safe mode, whatever else happens, answered pings
  included.\<close>

theorem model_failure_persists:
  assumes "ModelLoadConfirmed \<notin> set events" "SafeModeCleared \<notin> set events"
  shows "foldl (\<lambda>s e. snd (Apply s e)) DegradedModel events \<noteq> Healthy"
proof -
  have "model_lost (foldl step_without_model DegradedModel events)"
    by (rule without_model.run_from_start) simp
  then show ?thesis using foldl_without_model [OF assms] by (auto simp: model_lost_def)
qed

theorem model_failure_persists_witness:
  "foldl (\<lambda>s e. snd (Apply s e)) DegradedModel
     [ModelReloadAccepted, HostHealthConfirmed, TransportReconnected, ModelRecoveryFailed] \<noteq> Healthy"
  by (rule model_failure_persists) simp_all

section \<open>Properties of the run history\<close>

definition in_window :: "int \<Rightarrow> int \<Rightarrow> bool" where
  "in_window now at \<longleftrightarrow> now - kSafeModeCrashWindow < at \<and> at \<le> now"

text \<open>C37: A start reports a crash loop exactly when the previous run crashed and at least two more
  crashes lie in the window of sixty seconds before it; a clean exit in between therefore always
  prevents it.\<close>

theorem RecordHostStart_crash_loop:
  "crash_loop (RecordHostStart h p st now) \<longleftrightarrow>
     running h \<and> 2 \<le> length (filter (in_window now) (crash_epoch_ms h))"
proof -
  have f: "filter (\<lambda>at. at > now - kSafeModeCrashWindow \<and> at \<le> now) xs = filter (in_window now) xs" for xs
    by (rule filter_cong) (auto simp: in_window_def)
  show ?thesis
    by (auto simp: RecordHostStart_def Let_def f kSafeModeCrashThreshold_def kMaxRecordedCrashes_def)
qed

text \<open>The recorded crash times are a bounded part of the window, so the history a start writes can
  always be read back.\<close>

lemma RecordHostStart_bounded:
  "list_all (in_window now) (crash_epoch_ms (next_history (RecordHostStart h p st now))) \<and>
   length (crash_epoch_ms (next_history (RecordHostStart h p st now))) \<le> kMaxRecordedCrashes \<and>
   recent_crashes (RecordHostStart h p st now) =
     length (crash_epoch_ms (next_history (RecordHostStart h p st now)))"
proof -
  have "in_window now now" by (simp add: in_window_def kSafeModeCrashWindow_def)
  then have "x \<in> set (crash_epoch_ms (next_history (RecordHostStart h p st now))) \<Longrightarrow> in_window now x" for x
    by (auto simp: RecordHostStart_def Let_def in_window_def dest!: in_set_dropD split: if_splits)
  then show ?thesis by (auto simp: list_all_iff RecordHostStart_def Let_def)
qed

subsection \<open>Reading back what was written\<close>

definition history_wf :: "HostRunHistory \<Rightarrow> bool" where
  "history_wf h \<longleftrightarrow>
     (if running h then pid h < 2 ^ 32 \<and> process_start h < 2 ^ 64 else pid h = 0 \<and> process_start h = 0) \<and>
     length (crash_epoch_ms h) \<le> kMaxRecordedCrashes \<and>
     list_all (\<lambda>at. - (2 ^ 63) \<le> at \<and> at < 2 ^ 63) (crash_epoch_ms h)"

lemma getline_line: "CHR 10 \<notin> set line \<Longrightarrow> getline (line @ CHR 10 # rest) = Some (line, rest)"
  by (simp add: getline_def find_char_append)

lemma digits_plain: "c \<in> set (to_string n) \<Longrightarrow> isdigit c"
  using to_string_digits [of n] by (auto simp: list_all_iff)

lemma digit_not_special: "isdigit c \<Longrightarrow> \<not> isspace c \<and> c \<noteq> CHR ''-'' \<and> c \<noteq> CHR ''+'' \<and> c \<noteq> CHR 10"
  by (auto simp: isdigit_def isspace_def)

lemma to_string_front:
  "dropWhile isspace (to_string n @ rest) = to_string n @ rest"
  "\<not> isspace (hd (to_string n @ rest))"
  "hd (to_string n @ rest) \<noteq> CHR ''-''" "hd (to_string n @ rest) \<noteq> CHR ''+''"
proof -
  obtain c cs where c: "to_string n = c # cs" using to_string_digits [of n] by (cases "to_string n") auto
  then have "isdigit c" using digits_plain [of c n] by simp
  then show "dropWhile isspace (to_string n @ rest) = to_string n @ rest"
    "\<not> isspace (hd (to_string n @ rest))"
    "hd (to_string n @ rest) \<noteq> CHR ''-''" "hd (to_string n @ rest) \<noteq> CHR ''+''"
    using digit_not_special [of c] c by simp_all
qed

lemma to_string_digits_front:
  "rest = [] \<or> \<not> isdigit (hd rest) \<Longrightarrow> takeWhile isdigit (to_string n @ rest) = to_string n \<and>
     dropWhile isdigit (to_string n @ rest) = rest"
  using digits_plain [of _ n] by (cases rest) (auto simp: takeWhile_append dropWhile_append)

lemma to_string_ne [simp]: "to_string n \<noteq> []"
  using to_string_digits by blast

lemma to_string_text [simp]:
  "takeWhile isdigit (to_string n) = to_string n" "CHR 10 \<notin> set (to_string n)"
  using digits_plain [of _ n] digit_not_special by auto

lemma extract_unsigned_to_string:
  assumes "n < bound" "rest = [] \<or> \<not> isdigit (hd rest)"
  shows "extract_unsigned bound (to_string n @ rest) = Some (n, rest)"
    and "extract_unsigned bound (CHR '' '' # to_string n @ rest) = Some (n, rest)"
proof -
  have s: "isspace (CHR '' '')" by (simp add: isspace_def)
  show "extract_unsigned bound (to_string n @ rest) = Some (n, rest)"
    using assms to_string_front [of n rest] to_string_digits_front [of rest n]
    by (simp add: extract_unsigned_def Let_def)
  then show "extract_unsigned bound (CHR '' '' # to_string n @ rest) = Some (n, rest)"
    using s by (simp add: extract_unsigned_def Let_def)
qed

lemma extract_signed_int_to_string:
  assumes "- int half \<le> v" "v < int half"
  shows "extract_signed half (int_to_string v) = Some v"
proof (cases "v < 0")
  case True
  have "\<not> isspace (CHR ''-'')" by (simp add: isspace_def)
  then show ?thesis
    using assms True
    by (simp add: extract_signed_def int_to_string_def Let_def)
next
  case False
  then show ?thesis
    using assms to_string_front [of "nat v" "[]"]
    by (simp add: extract_signed_def int_to_string_def Let_def)
qed

lemma int_to_string_line: "CHR 10 \<notin> set (int_to_string v)" "int_to_string v \<noteq> []"
  by (simp_all add: int_to_string_def)

lemma read_crashes_format:
  "list_all (\<lambda>at. - (2 ^ 63) \<le> at \<and> at < 2 ^ 63) ats \<Longrightarrow>
     length crashes + length ats \<le> kMaxRecordedCrashes \<Longrightarrow>
     read_crashes (concat (map (\<lambda>at. int_to_string at @ [CHR 10]) ats)) crashes = Some (crashes @ ats)"
proof (induction ats arbitrary: crashes)
  case Nil
  then show ?case by (simp add: read_crashes.simps getline_def)
next
  case (Cons at ats)
  have "extract_signed (2 ^ 63) (int_to_string at) = Some at"
    using Cons.prems(1) by (intro extract_signed_int_to_string) simp_all
  then show ?case
    using Cons getline_line [OF int_to_string_line(1), of at] int_to_string_line(2) [of at]
    by (subst read_crashes.simps) (simp add: Let_def)
qed

lemma to_string_length: "n < 10 ^ Suc k \<Longrightarrow> length (to_string n) \<le> Suc k"
proof (induction k arbitrary: n)
  case 0
  then show ?case by (simp add: to_string.simps [of n])
next
  case (Suc k)
  then have "n div 10 < 10 ^ Suc k" by (simp add: less_mult_imp_div_less mult.commute)
  then show ?case using Suc.IH [of "n div 10"] by (simp add: to_string.simps [of n])
qed

lemma int_to_string_length:
  assumes "- (2 ^ 63) \<le> v" "v < 2 ^ 63"
  shows "length (int_to_string v) \<le> 20"
proof -
  have "nat (- v) < 10 ^ Suc 18" "nat v < 10 ^ Suc 18" using assms by simp_all
  then have "length (to_string (nat (- v))) \<le> 19" "length (to_string (nat v)) \<le> 19"
    using to_string_length [of _ 18] by simp_all
  then show ?thesis by (simp add: int_to_string_def)
qed

lemma crashes_length:
  "list_all (\<lambda>at. - (2 ^ 63) \<le> at \<and> at < 2 ^ 63) ats \<Longrightarrow>
     length (concat (map (\<lambda>at. int_to_string at @ [CHR 10]) ats)) \<le> 21 * length ats"
proof (induction ats)
  case (Cons at ats)
  then show ?case using int_to_string_length [of at] by simp
qed simp

lemma format_history_length:
  assumes "history_wf h"
  shows "length (format_history h) \<le> kMaxRunHistoryBytes"
proof -
  have c: "length (concat (map (\<lambda>at. int_to_string at @ [CHR 10]) (crash_epoch_ms h))) \<le> 21 * 32"
    using crashes_length [of "crash_epoch_ms h"] assms
    by (simp add: history_wf_def kMaxRecordedCrashes_def)
  have p: "running h \<Longrightarrow> length (to_string (pid h)) \<le> 10 \<and> length (to_string (process_start h)) \<le> 20"
    using assms to_string_length [of "pid h" 9] to_string_length [of "process_start h" 19]
    by (simp add: history_wf_def)
  show ?thesis
  proof (cases "running h")
    case True
    then show ?thesis
      using c p [OF True] by (simp add: format_history_def kRunHistoryHeader_def kMaxRunHistoryBytes_def)
  next
    case False
    then show ?thesis
      using c by (simp add: format_history_def kRunHistoryHeader_def kMaxRunHistoryBytes_def)
  qed
qed

lemma extract_word_simps:
  "extract_word (''running '' @ s) = (''running'', CHR '' '' # s)" "extract_word ''stopped'' = (''stopped'', [])"
  by (simp_all add: extract_word_def isspace_def)

text \<open>The run history survives the file: reading what was written gives the same history, within
  the size that reading accepts.\<close>

theorem history_roundtrip:
  assumes "history_wf h"
  shows "parse_history (format_history h) = Some h"
proof -
  let ?crashes = "concat (map (\<lambda>at. int_to_string at @ [CHR 10]) (crash_epoch_ms h))"
  let ?run = "''running '' @ to_string (pid h) @ '' '' @ to_string (process_start h)"
  let ?status = "if running h then ?run else ''stopped''"
  have len: "\<not> length (format_history h) > kMaxRunHistoryBytes"
    using format_history_length [OF assms] by simp
  have g1: "getline (format_history h) = Some (kRunHistoryHeader, ?status @ CHR 10 # ?crashes)"
    using getline_line [of kRunHistoryHeader "?status @ CHR 10 # ?crashes"]
    by (auto simp: format_history_def kRunHistoryHeader_def)
  have nl: "CHR 10 \<notin> set ?status"
    by simp
  have g2: "getline (?status @ CHR 10 # ?crashes) = Some (?status, ?crashes)"
    by (rule getline_line [OF nl])
  have c: "read_crashes ?crashes [] = Some (crash_epoch_ms h)"
    using assms read_crashes_format [of "crash_epoch_ms h" "[]"] by (simp add: history_wf_def)
  show ?thesis
  proof (cases "running h")
    case True
    then have "extract_unsigned (2 ^ 32) (CHR '' '' # to_string (pid h) @ '' '' @ to_string (process_start h)) =
        Some (pid h, '' '' @ to_string (process_start h))"
      "extract_unsigned (2 ^ 64) ('' '' @ to_string (process_start h)) = Some (process_start h, [])"
      using assms extract_unsigned_to_string(2) [of "process_start h" _ "[]"]
      by (auto simp: history_wf_def isdigit_def intro!: extract_unsigned_to_string(2))
    then show ?thesis
      using True len g1 g2 c extract_word_simps(1) [of "to_string (pid h) @ '' '' @ to_string (process_start h)"]
      by (simp add: parse_history_def empty_history_def)
  next
    case False
    then show ?thesis
      using assms len g1 g2 c extract_word_simps(2)
      by (simp add: parse_history_def empty_history_def history_wf_def)
  qed
qed

theorem history_roundtrip_witness:
  "parse_history (format_history \<lparr>running = True, pid = 4711, process_start = 99, crash_epoch_ms = [-5, 1700000000000]\<rparr>) =
     Some \<lparr>running = True, pid = 4711, process_start = 99, crash_epoch_ms = [-5, 1700000000000]\<rparr>"
  by (rule history_roundtrip) (simp add: history_wf_def kMaxRecordedCrashes_def)

end
