(* ===== verification/IpcConnection.thy ===== *)
theory IpcConnection
  imports Prelude
begin

text \<open>
  The connection of the input method to the host: its state machine
  (\<open>tsf-tip/src/IpcConnectionState.cpp\<close>) and the delays between reconnects
  (\<open>tsf-tip/src/IpcReconnectBackoff.cpp\<close>). The random draw of the delays is a parameter.
\<close>

section \<open>The connection state machine\<close>

datatype IpcConnectionState = Disconnected | Connecting | Handshaking | Ready | Degraded

datatype IpcConnectionEvent =
    ConnectStarted | PipeConnected | ConnectFailed | HandshakeAccepted | HandshakeFailed
  | ConnectionLost | ResponseDeadlineExceeded | ResponseRestored | Stopped

definition IpcConnectionTransitionTable ::
  "(IpcConnectionState \<times> IpcConnectionEvent \<times> IpcConnectionState) list" where
  "IpcConnectionTransitionTable =
    [(Disconnected, ConnectStarted, Connecting),
     (Connecting, PipeConnected, Handshaking),
     (Connecting, ConnectFailed, Disconnected),
     (Connecting, Stopped, Disconnected),
     (Handshaking, HandshakeAccepted, Ready),
     (Handshaking, HandshakeFailed, Disconnected),
     (Handshaking, Stopped, Disconnected),
     (Ready, ConnectionLost, Disconnected),
     (Ready, ResponseDeadlineExceeded, Degraded),
     (Ready, Stopped, Disconnected),
     (Degraded, ResponseRestored, Ready),
     (Degraded, ConnectionLost, Disconnected),
     (Degraded, Stopped, Disconnected)]"

definition IsConnectAttemptState :: "IpcConnectionState \<Rightarrow> bool" where
  "IsConnectAttemptState s \<longleftrightarrow> s = Disconnected \<or> s = Connecting \<or> s = Handshaking"

definition NextIpcConnectionState ::
  "IpcConnectionState \<Rightarrow> IpcConnectionEvent \<Rightarrow> IpcConnectionState option" where
  "NextIpcConnectionState s e = find_transition IpcConnectionTransitionTable s e"

definition IpcConnectionStateName :: "IpcConnectionState \<Rightarrow> string" where
  "IpcConnectionStateName s =
     (case s of
        Disconnected \<Rightarrow> ''disconnected''
      | Connecting \<Rightarrow> ''connecting''
      | Handshaking \<Rightarrow> ''handshaking''
      | Ready \<Rightarrow> ''ready''
      | Degraded \<Rightarrow> ''degraded'')"

definition IpcConnectionEventName :: "IpcConnectionEvent \<Rightarrow> string" where
  "IpcConnectionEventName e =
     (case e of
        ConnectStarted \<Rightarrow> ''connect_started''
      | PipeConnected \<Rightarrow> ''pipe_connected''
      | ConnectFailed \<Rightarrow> ''connect_failed''
      | HandshakeAccepted \<Rightarrow> ''handshake_accepted''
      | HandshakeFailed \<Rightarrow> ''handshake_failed''
      | ConnectionLost \<Rightarrow> ''connection_lost''
      | ResponseDeadlineExceeded \<Rightarrow> ''response_deadline_exceeded''
      | ResponseRestored \<Rightarrow> ''response_restored''
      | Stopped \<Rightarrow> ''stopped'')"

text \<open>\<open>std::has_single_bit\<close> on a \<open>uint32_t\<close>.\<close>

definition has_single_bit :: "32 word \<Rightarrow> bool" where
  "has_single_bit w \<longleftrightarrow> list_ex (\<lambda>n. w = push_bit n 1) [0..<32]"

definition ShouldLogIpcConnectionTransition ::
  "IpcConnectionState \<Rightarrow> IpcConnectionState \<Rightarrow> 32 word \<Rightarrow> bool" where
  "ShouldLogIpcConnectionTransition from to attempt =
     (if \<not> IsConnectAttemptState from \<or> \<not> IsConnectAttemptState to then True
      else attempt \<le> 1 \<or> has_single_bit attempt)"

interpretation connection: transition_table IpcConnectionTransitionTable
  by unfold_locales (auto simp: IpcConnectionTransitionTable_def)

text \<open>The worker keeps its state when an event is rejected.\<close>

definition connection_step :: "IpcConnectionState \<Rightarrow> IpcConnectionEvent \<Rightarrow> IpcConnectionState" where
  "connection_step s e = (case NextIpcConnectionState s e of None \<Rightarrow> s | Some t \<Rightarrow> t)"

text \<open>What must have happened, in this order, before a state is reached.\<close>

definition connection_proof :: "IpcConnectionState \<Rightarrow> IpcConnectionEvent list" where
  "connection_proof s =
     (case s of
        Disconnected \<Rightarrow> []
      | Connecting \<Rightarrow> [ConnectStarted]
      | Handshaking \<Rightarrow> [ConnectStarted, PipeConnected]
      | Ready \<Rightarrow> [ConnectStarted, PipeConnected, HandshakeAccepted]
      | Degraded \<Rightarrow> [ConnectStarted, PipeConnected, HandshakeAccepted, ResponseDeadlineExceeded])"

lemma connection_step_proof:
  "connection_proof (connection_step s e) = connection_proof s @ [e] \<or>
   (\<exists>rest. connection_proof s = connection_proof (connection_step s e) @ rest)"
  by (cases s; cases e)
    (auto simp: connection_step_def NextIpcConnectionState_def IpcConnectionTransitionTable_def
      connection_proof_def)

text \<open>The state together with the events so far.\<close>

definition traced_step :: "IpcConnectionState \<times> IpcConnectionEvent list \<Rightarrow> IpcConnectionEvent \<Rightarrow>
    IpcConnectionState \<times> IpcConnectionEvent list" where
  "traced_step = (\<lambda>(s, es) e. (connection_step s e, es @ [e]))"

interpretation trace: event_system "\<lambda>(s, es). s = Disconnected \<and> es = []" traced_step
  "\<lambda>(s, es). subseq (connection_proof s) es"
proof unfold_locales
  fix se :: "IpcConnectionState \<times> IpcConnectionEvent list"
  assume "case se of (s, es) \<Rightarrow> s = Disconnected \<and> es = []"
  then show "case se of (s, es) \<Rightarrow> subseq (connection_proof s) es"
    by (auto simp: connection_proof_def)
next
  fix se :: "IpcConnectionState \<times> IpcConnectionEvent list" and e
  assume a: "case se of (s, es) \<Rightarrow> subseq (connection_proof s) es"
  obtain s es where se: "se = (s, es)" by (cases se)
  have s: "subseq (connection_proof s) es" using a se by simp
  have "subseq (connection_proof (connection_step s e)) (es @ [e])"
    using connection_step_proof [of s e]
  proof
    assume "connection_proof (connection_step s e) = connection_proof s @ [e]"
    then show ?thesis using s by (simp add: list_emb_append_mono)
  next
    assume "\<exists>rest. connection_proof s = connection_proof (connection_step s e) @ rest"
    then have "subseq (connection_proof (connection_step s e)) (connection_proof s)" by auto
    then show ?thesis using s by (meson subseq_order.trans list_emb_append2 list_emb_prefix subseq_append)
  qed
  then show "case traced_step se e of (s, es) \<Rightarrow> subseq (connection_proof s) es"
    by (simp add: traced_step_def se)
qed

lemma traced_run:
  "foldl traced_step (s, es) events = (foldl connection_step s events, es @ events)"
  by (induction events arbitrary: s es) (simp_all add: traced_step_def)

text \<open>The connection counts as ready only after it was opened and its handshake accepted: every
  run from the disconnected state that ends ready contains, in this order, the start of a connect
  attempt, the opened pipe and the accepted handshake.\<close>

theorem ready_needs_handshake:
  assumes "foldl connection_step Disconnected events = Ready"
  shows "subseq [ConnectStarted, PipeConnected, HandshakeAccepted] events"
proof -
  have "case foldl traced_step (Disconnected, []) events of (s, es) \<Rightarrow> subseq (connection_proof s) es"
    by (rule trace.run_from_start) simp
  then show ?thesis using assms by (simp add: traced_run connection_proof_def)
qed

theorem ready_needs_handshake_witness:
  "subseq [ConnectStarted, PipeConnected, HandshakeAccepted]
     [ConnectStarted, ConnectFailed, ConnectStarted, PipeConnected, ResponseRestored, HandshakeAccepted]"
  by (rule ready_needs_handshake)
    (simp add: connection_step_def NextIpcConnectionState_def IpcConnectionTransitionTable_def)

section \<open>Reconnect delays\<close>

record IpcReconnectBackoff =
  min_ms :: "32 word"
  max_ms :: "32 word"
  previous_ms :: "32 word"

definition new_IpcReconnectBackoff :: "32 word \<Rightarrow> 32 word \<Rightarrow> IpcReconnectBackoff" where
  "new_IpcReconnectBackoff lo hi = \<lparr>min_ms = lo, max_ms = max lo hi, previous_ms = lo\<rparr>"

text \<open>The upper end of the range that the draw is asked for.\<close>

definition backoff_hi :: "IpcReconnectBackoff \<Rightarrow> 32 word" where
  "backoff_hi b =
     (let widened = (ucast (previous_ms b) :: 64 word) * 3;
          hi = (ucast (min widened (ucast (max_ms b))) :: 32 word)
      in max (min_ms b) hi)"

text \<open>\<open>std::clamp\<close>\<close>

definition clamp :: "'a::linorder \<Rightarrow> 'a \<Rightarrow> 'a \<Rightarrow> 'a" where
  "clamp v lo hi = (if v < lo then lo else if hi < v then hi else v)"

definition Next :: "(32 word \<Rightarrow> 32 word \<Rightarrow> 32 word) \<Rightarrow> IpcReconnectBackoff \<Rightarrow>
    32 word \<times> IpcReconnectBackoff" where
  "Next uniform b =
     (let drawn = uniform (min_ms b) (backoff_hi b);
          delay = clamp drawn (min_ms b) (max_ms b)
      in (delay, b\<lparr>previous_ms := delay\<rparr>))"

definition backoff_Reset :: "IpcReconnectBackoff \<Rightarrow> IpcReconnectBackoff" where
  "backoff_Reset b = b\<lparr>previous_ms := min_ms b\<rparr>"

definition backoff_ok :: "IpcReconnectBackoff \<Rightarrow> bool" where
  "backoff_ok b \<longleftrightarrow> min_ms b \<le> previous_ms b \<and> previous_ms b \<le> max_ms b"

lemma clamp_bounds: "lo \<le> hi \<Longrightarrow> lo \<le> clamp v lo hi \<and> clamp v lo hi \<le> hi"
  by (auto simp: clamp_def)

lemma clamp_le: "lo \<le> x \<Longrightarrow> v \<le> x \<Longrightarrow> clamp v lo hi \<le> x"
  by (auto simp: clamp_def)

text \<open>Tripling is done in 64 bits and cannot wrap.\<close>

lemma backoff_hi_value:
  "unat (backoff_hi b) = max (unat (min_ms b)) (min (3 * unat (previous_ms b)) (unat (max_ms b)))"
proof -
  have p: "unat (previous_ms b) < 2 ^ 32" and m: "unat (max_ms b) < 2 ^ 32"
    using unsigned_less [of "previous_ms b"] unsigned_less [of "max_ms b"] by simp_all
  have w: "unat ((ucast (previous_ms b) :: 64 word) * 3) = 3 * unat (previous_ms b)"
    using p by (simp add: unat_word_ariths unsigned_ucast_eq take_bit_eq_mod)
  have x: "unat (ucast (max_ms b) :: 64 word) = unat (max_ms b)"
    using m by (simp add: unsigned_ucast_eq take_bit_eq_mod)
  have min64: "unat (min v u) = min (unat v) (unat u)" for v u :: "64 word"
    by (auto simp: min_def word_le_nat_alt)
  have max32: "unat (max v u) = max (unat v) (unat u)" for v u :: "32 word"
    by (auto simp: max_def word_le_nat_alt)
  have "unat (ucast (min ((ucast (previous_ms b) :: 64 word) * 3) (ucast (max_ms b))) :: 32 word) =
      min (3 * unat (previous_ms b)) (unat (max_ms b))"
    using m by (simp add: unsigned_ucast_eq min64 w x take_bit_eq_mod)
  then show ?thesis by (simp add: backoff_hi_def Let_def max32)
qed

text \<open>Whatever the draw returns, the delay stays within its bounds and the backoff stays
  well-formed; a draw within the range it was asked for never more than triples the previous delay.\<close>

theorem Next_bounded:
  assumes "backoff_ok b"
  shows "case Next uniform b of (delay, b') \<Rightarrow>
    min_ms b \<le> delay \<and> delay \<le> max_ms b \<and> backoff_ok b' \<and> backoff_ok (backoff_Reset b') \<and>
    (uniform (min_ms b) (backoff_hi b) \<le> backoff_hi b \<longrightarrow> unat delay \<le> 3 * unat (previous_ms b))"
proof -
  have mm: "min_ms b \<le> max_ms b" and mp: "min_ms b \<le> previous_ms b"
    using assms by (auto simp: backoff_ok_def)
  let ?d = "clamp (uniform (min_ms b) (backoff_hi b)) (min_ms b) (max_ms b)"
  have hi: "unat (backoff_hi b) \<le> 3 * unat (previous_ms b)"
    using mp by (simp add: backoff_hi_value word_le_nat_alt)
  have lo: "min_ms b \<le> backoff_hi b" by (simp add: backoff_hi_def Let_def)
  have "uniform (min_ms b) (backoff_hi b) \<le> backoff_hi b \<longrightarrow> unat ?d \<le> 3 * unat (previous_ms b)"
    using clamp_le [OF lo] hi by (meson order_trans word_le_nat_alt)
  then show ?thesis
    using clamp_bounds [OF mm] mm by (simp add: Next_def Let_def backoff_ok_def backoff_Reset_def)
qed

theorem Next_bounded_witness:
  "fst (Next (\<lambda>lo hi. hi) \<lparr>min_ms = 100, max_ms = 1000, previous_ms = 200\<rparr>) \<le> 1000"
  using Next_bounded [of "\<lparr>min_ms = 100, max_ms = 1000, previous_ms = 200\<rparr>" "\<lambda>lo hi. hi"]
  by (simp add: backoff_ok_def case_prod_beta)

end
