(* ===== verification/Progress.thy ===== *)
theory Progress
  imports InputState RequestScheduler
begin

text \<open>
  What eventually happens: the user can always erase a composition (\<open>core/src/InputState.cpp\<close>), and
  the scheduler never locks a client out (\<open>inference-host/src/RequestScheduler.cpp\<close>).
\<close>

section \<open>Erasing a composition\<close>

text \<open>One press of the backspace key on a session, and the most presses a composition can take.\<close>

definition press_erase :: "EditContextHint \<Rightarrow> InputState \<times> editor \<Rightarrow> InputState \<times> editor" where
  "press_erase hint st = session_step st (KeyEvent (sample_event UserAction.Backspace) hint)"

definition presses :: "InputState \<Rightarrow> nat" where
  "presses s = length (confirmed_kana s) + length (pending (pending_romaji s)) + length (unicode_hex s) + 1"

definition erased :: "InputState \<Rightarrow> editor \<Rightarrow> bool" where
  "erased s ed \<longleftrightarrow> kind s = Idle \<and> composition_empty s \<and> marked ed = None"

lemma back_over_le: "back_over_continuation kana i \<le> i"
  by (induction i) (auto intro: le_SucI)

lemma Pop_shorter:
  assumes "pending r \<noteq> []"
  shows "length (pending (PopPendingPreview r)) < length (pending r)"
  using pop_preview_spec assms prefix_length_less by (fastforce simp: PopPendingPreview_def)

lemma EraseLastUnit_presses:
  "Reading (EraseLastUnit s) \<noteq> [] \<Longrightarrow> presses (EraseLastUnit s) < presses s"
  using back_over_le [of "confirmed_kana s" "length (confirmed_kana s)"] Pop_shorter [of "pending_romaji s"]
  by (auto simp: EraseLastUnit_def Let_def presses_def Reading_def HasPending_def min_def split: if_splits)

lemma presses_frame [simp]:
  "presses (s\<lparr>kind := k\<rparr>) = presses s" "presses (s\<lparr>candidates := cs\<rparr>) = presses s"
  "presses (s\<lparr>awaiting_candidates := b\<rparr>) = presses s" "presses (s\<lparr>selected_index := i\<rparr>) = presses s"
  by (simp_all add: presses_def)

lemma AfterReadingChanged_erases:
  "case AfterReadingChanged (EraseLastUnit s) of (acts, s') \<Rightarrow>
     document (apply_actions acts ed) = document ed \<and>
     (erased s' (apply_actions acts ed) \<or> kind s' = kind s \<and> presses s' < presses s)"
  using EraseLastUnit_presses [of s]
  by (auto simp: AfterReadingChanged_def Let_def erased_def Reading_def)

lemma press_erases:
  assumes "kind s \<noteq> ReplaceSuggestion" "kind s \<noteq> Idle"
  shows "case press_erase hint (s, ed) of (s', ed') \<Rightarrow> document ed' = document ed \<and>
    (erased s' ed' \<or> kind s' \<noteq> ReplaceSuggestion \<and> kind s' \<noteq> Idle \<and> presses s' < presses s)"
proof -
  have chg: "case AfterReadingChanged (EraseLastUnit t) of (acts, s') \<Rightarrow>
     document (apply_actions acts ed) = document ed \<and>
     (erased s' (apply_actions acts ed) \<or> kind s' = kind t \<and> presses s' < presses t)" for t
    by (rule AfterReadingChanged_erases)
  show ?thesis
  proof (cases "kind s")
    case Selecting
    then show ?thesis
      using chg [of "s\<lparr>kind := (if live_conversion s then Previewing else Composing), selected_index := 0\<rparr>"]
      by (auto simp: press_erase_def session_step_def HandleEvent_def sample_event_def HandleSelecting_def
          case_prod_beta Let_def split: if_splits)
  next
    case UnicodeInput
    then show ?thesis
      by (auto simp: press_erase_def session_step_def HandleEvent_def sample_event_def HandleUnicodeInput_def
          erased_def presses_def Let_def)
  qed (use assms chg [of s] in \<open>auto simp: press_erase_def session_step_def HandleEvent_def sample_event_def
        HandleComposing_def case_prod_beta Let_def\<close>)
qed

lemma erased_stays:
  "erased s ed \<Longrightarrow> (press_erase hint ^^ n) (s, ed) = (s, ed)"
  by (induction n) (simp_all add: press_erase_def session_step_def HandleEvent_def sample_event_def HandleIdle_def
      erased_def)

lemma presses_suffice:
  assumes "kind s \<noteq> ReplaceSuggestion" "kind s = Idle \<Longrightarrow> erased s ed" "presses s \<le> n"
  shows "case (press_erase hint ^^ n) (s, ed) of (s', ed') \<Rightarrow> erased s' ed' \<and> document ed' = document ed"
  using assms
proof (induction n arbitrary: s ed)
  case 0
  then show ?case by (simp add: presses_def)
next
  case (Suc n)
  show ?case
  proof (cases "kind s = Idle")
    case True
    then show ?thesis using Suc.prems erased_stays [where s = s and ed = ed and n = "Suc n"] by simp
  next
    case False
    obtain s' ed' where p: "press_erase hint (s, ed) = (s', ed')" by fastforce
    have "document ed' = document ed"
      "erased s' ed' \<or> kind s' \<noteq> ReplaceSuggestion \<and> kind s' \<noteq> Idle \<and> presses s' < presses s"
      using press_erases [OF Suc.prems(1) False, where hint = hint and ed = ed] p by auto
    moreover have "erased s' ed' \<Longrightarrow> (press_erase hint ^^ n) (s', ed') = (s', ed')"
      by (rule erased_stays)
    ultimately show ?thesis
      using Suc.IH [of s' ed'] Suc.prems(3) p by (auto simp: funpow_swap1 funpow_Suc_right simp del: funpow.simps)
  qed
qed


definition typing_code :: "client_event list" where
  "typing_code = [KeyEvent (sample_event UserAction.StartUnicodeInput) no_hint,
     KeyEvent (sample_event UserAction.Input\<lparr>event_codepoint := 0x33\<rparr>) no_hint]"


section \<open>A client is never locked out\<close>

text \<open>Request numbers are 64-bit values on the wire.\<close>

fun op_id_ok :: "scheduler_op \<Rightarrow> bool" where
  "op_id_ok (OpCancel c i) = (i < 2 ^ 64)"
| "op_id_ok (OpTrack c i) = (i < 2 ^ 64)"
| "op_id_ok (OpComplete c i) = (i < 2 ^ 64)"
| "op_id_ok (OpMarkLatest c i) = (i < 2 ^ 64)"
| "op_id_ok _ = True"

definition ids_ok :: "scheduler \<Rightarrow> bool" where
  "ids_ok s \<longleftrightarrow> (\<forall>c j st. entry s c j = Some st \<longrightarrow> j < 2 ^ 64)"

lemma step_entry:
  assumes "scheduler_ok s" "entry (scheduler_step s op) d j = Some st" "op_id_ok op"
  shows "j < 2 ^ 64 \<or> entry s d j \<noteq> None"
proof -
  have cs: "client_of s d = cl \<Longrightarrow> map_of (cancel_states cl) j = Some st' \<Longrightarrow> entry s d j \<noteq> None" for cl st'
    by (auto simp: entry_def)
  have found: "map_of (client_states s) c = Some cl \<Longrightarrow> client_of s c = cl" for c cl by (simp add: client_of_def)
  have wf: "map_wf (cancel_states (client_of s c))" for c
    using client_okD [OF assms(1), of c] by (simp add: client_ok_def)
  show ?thesis
  proof (cases op)
    case (OpTrack c i)
    then show ?thesis
      using assms(2,3) track_client_lookup [OF assms(1), of c i j]
      by (auto simp: TrackCancellation_unfold Let_def make_flag_def client_of_set map_of_assign entry_def split: if_splits option.splits)
  next
    case (OpMarkLatest c i)
    then show ?thesis
      using assms(2) Prune_lookup [of "(client_of s c)\<lparr>latest := i\<rparr>" i j st] wf
      by (auto simp: MarkLatest_def client_of_set entry_def split: if_splits)
  next
    case (OpUnregister c)
    then show ?thesis
      using assms(2) found by (auto simp: UnregisterClient_def new_client_state_def Let_def client_of_set entry_def split: if_splits option.splits)
  next
    case (OpCancel c i)
    then show ?thesis
      using assms(2,3) by (auto simp: scheduler_Cancel_def Let_def make_flag_def client_of_set entry_def emplace_new map_of_assign
          split: if_splits option.splits)
  next
    case (OpComplete c i)
    then show ?thesis
      using assms(2,3) found by (auto simp: CompleteRequest_def Let_def client_of_set entry_def map_of_assign map_of_erase
          split: if_splits option.splits)
  qed (use assms(2) in \<open>auto simp: RegisterClient_def NextRequestId_def client_of_set entry_def Let_def split: if_splits\<close>)
qed

lemma ids_run:
  "scheduler_ok s \<Longrightarrow> ids_ok s \<Longrightarrow> list_all op_id_ok ops \<Longrightarrow>
     scheduler_ok (foldl scheduler_step s ops) \<and> ids_ok (foldl scheduler_step s ops)"
proof (induction ops arbitrary: s)
  case (Cons op ops)
  have "ids_ok (scheduler_step s op)"
    using step_entry [OF Cons.prems(1), of op] Cons.prems(2,3) unfolding ids_ok_def by fastforce
  then show ?case using Cons step_ok by simp
qed simp

lemma length_le_active:
  "(\<And>x. x \<in> set m \<Longrightarrow> active_count (snd x) > 0) \<Longrightarrow> length m \<le> total_active m"
proof (induction m)
  case (Cons x m)
  then have "length m \<le> total_active m" "active_count (snd x) > 0" by auto
  then show ?case by (simp add: total_active_def)
qed (simp add: total_active_def)

lemma track_client_room:
  assumes "scheduler_ok s" "ids_ok s" "map_of (cancel_states (client_of s c)) i = None"
    and "pending_requests (client_of s c) < kMaxPendingRequestsPerClient"
  shows "length (cancel_states (track_client c i s)) < kMaxPendingRequestsPerClient"
proof (cases "length (cancel_states (client_of s c)) < kMaxPendingRequestsPerClient")
  case True
  then show ?thesis by (simp add: track_client_def Let_def)
next
  case False
  then have t: "track_client c i s = PruneInactiveBeforeLocked (client_of s c) (2 ^ 64 - 1)"
    using assms(3) by (simp add: track_client_def Let_def)
  have ok: "client_ok (track_client c i s)" using track_client_ok [OF assms(1)] .
  have wf: "map_wf (cancel_states (client_of s c))" using client_okD [OF assms(1), of c] by (simp add: client_ok_def)
  have "active_count (snd x) > 0" if x: "x \<in> set (cancel_states (track_client c i s))" for x
  proof -
    have "x \<in> set (cancel_states (client_of s c))" "\<not> (fst x \<le> 2 ^ 64 - 1 \<and> active_count (snd x) = 0)"
      using x unfolding t PruneInactiveBeforeLocked_def by (auto simp: case_prod_beta)
    moreover have "fst x < 2 ^ 64"
      using calculation(1) assms(2) map_of_eq_Some_iff [OF map_wf_distinct [OF wf], of "fst x" "snd x"]
      unfolding ids_ok_def entry_def by (metis prod.collapse)
    ultimately show ?thesis by simp
  qed
  then have "length (cancel_states (track_client c i s)) \<le> total_active (cancel_states (track_client c i s))"
    by (rule length_le_active)
  also have "\<dots> = pending_requests (client_of s c)" using ok by (simp add: client_ok_def)
  finally show ?thesis using assms(4) by simp
qed

text \<open>C23: A client is refused a request only while \<open>kMaxPendingRequestsPerClient\<close> of its own
  requests are really running. Cancellations of requests that never arrived, whatever their number,
  and everything other clients do cannot lock it out: after any sequence of operations a request is
  accepted, and gets a cancellation flag, if and only if fewer requests of the client are pending.\<close>

theorem request_accepted_iff:
  assumes "list_all op_id_ok ops" "s = foldl scheduler_step new_scheduler ops"
  shows "fst (TrackCancellation c i s) \<noteq> None \<longleftrightarrow> pending_requests (client_of s c) < kMaxPendingRequestsPerClient"
proof -
  have "ids_ok new_scheduler" by (simp add: ids_ok_def entry_def client_of_def new_scheduler_def new_client_state_def)
  then have "scheduler_ok s" "ids_ok s"
    using ids_run [OF scheduler.start_inv [OF refl] _ assms(1)] assms(2) by auto
  then have "map_of (cancel_states (client_of s c)) i = None \<and> pending_requests (client_of s c) < kMaxPendingRequestsPerClient \<longrightarrow>
      \<not> kMaxPendingRequestsPerClient \<le> length (cancel_states (track_client c i s))"
    using track_client_room [of s c i] by (meson not_le)
  then show ?thesis
    by (auto simp: TrackCancellation_unfold Let_def make_flag_def split: option.splits)
qed

theorem request_accepted_iff_witness:
  "fst (TrackCancellation ''a'' 7 (foldl scheduler_step new_scheduler [OpCancel ''a'' 1, OpTrack ''a'' 2])) \<noteq> None"
  using request_accepted_iff [OF _ refl, of "[OpCancel ''a'' 1, OpTrack ''a'' 2]" "''a''" 7]
  by (simp add: scheduler_Cancel_def TrackCancellation_def new_scheduler_def client_of_def new_client_state_def Let_def
      kMaxPendingRequestsPerClient_def new_cancel_state_def make_flag_def set_client_def set_flag_def)

end
