(* ===== verification/LiveConversionChunker.thy ===== *)
theory LiveConversionChunker
  imports Utf8
begin

text \<open>
  The chunker of live conversion (\<open>core/src/LiveConversionChunker.cpp\<close>): it groups a text into runs
  to convert and runs to keep, and plans the smallest replacement that turns the previous text into
  the current one. Texts are arbitrary bytes; a byte that starts no character is a unit of its own.
\<close>

record Utf8Unit =
  code_point :: codepoint
  unit_offset :: nat
  byte_length :: nat

datatype LiveConversionChunkKind = Convert | Verbatim

record LiveConversionChunk =
  chunk_kind :: LiveConversionChunkKind
  chunk_text :: string
  byte_offset :: nat

record LiveConversionChunkPlan =
  chunks :: "LiveConversionChunk list"
  replacement_chunks :: "LiveConversionChunk list"
  unchanged_prefix_bytes :: nat
  unchanged_suffix_bytes :: nat
  replace_old_begin_byte :: nat
  replace_old_end_byte :: nat
  replace_new_begin_byte :: nat
  replace_new_end_byte :: nat

lemma DecodeUtf8At_positive: "0 < snd (DecodeUtf8At s i)"
  by (auto simp: DecodeUtf8At_def Let_def)

text \<open>The loop of \<open>DecodeUtf8Units\<close> from an offset.\<close>

function decode_units_from :: "string \<Rightarrow> nat \<Rightarrow> Utf8Unit list" where
  "decode_units_from text offset =
     (if offset < length text then
        (let (cp, len) = DecodeUtf8At text offset
         in \<lparr>code_point = cp, unit_offset = offset, byte_length = len\<rparr> #
            decode_units_from text (offset + len))
      else [])"
  by pat_completeness auto
termination
proof (relation "measure (\<lambda>(text, offset). length text - offset)", goal_cases)
  case (2 s offset p cp len)
  then have "0 < len" using DecodeUtf8At_positive [of s offset] by (metis snd_conv)
  then show ?case using 2 by simp
qed simp

declare decode_units_from.simps [simp del]

definition DecodeUtf8Units :: "string \<Rightarrow> Utf8Unit list" where
  "DecodeUtf8Units text = decode_units_from text 0"

definition IsJapaneseForLiveConversion :: "codepoint \<Rightarrow> bool" where
  "IsJapaneseForLiveConversion c \<longleftrightarrow>
     (c \<ge> 0x3041 \<and> c \<le> 0x3096) \<or> (c \<ge> 0x309d \<and> c \<le> 0x309f) \<or> (c \<ge> 0x30a1 \<and> c \<le> 0x30fa) \<or>
     (c \<ge> 0x30fd \<and> c \<le> 0x30ff) \<or> (c \<ge> 0x31f0 \<and> c \<le> 0x31ff) \<or> (c \<ge> 0xff66 \<and> c \<le> 0xff9f) \<or>
     (c \<ge> 0x3400 \<and> c \<le> 0x4dbf) \<or> (c \<ge> 0x4e00 \<and> c \<le> 0x9fff) \<or> (c \<ge> 0xf900 \<and> c \<le> 0xfaff) \<or>
     (c \<ge> 0x20000 \<and> c \<le> 0x2ebef) \<or>
     c = 0x3005 \<or> c = 0x3006 \<or> c = 0x3007 \<or> c = 0x30fc"

definition KindFor :: "codepoint \<Rightarrow> LiveConversionChunkKind" where
  "KindFor c = (if IsJapaneseForLiveConversion c then Convert else Verbatim)"

text \<open>\<open>text.substr(offset, count)\<close>\<close>

definition substr :: "string \<Rightarrow> nat \<Rightarrow> nat \<Rightarrow> string" where
  "substr s offset count = take count (drop offset s)"

text \<open>The \<open>for\<close> loop of \<open>GroupUnitRange\<close> over the units of the range, with the kind and offset of
  the current chunk and its end so far.\<close>

fun group_loop :: "string \<Rightarrow> Utf8Unit list \<Rightarrow> LiveConversionChunkKind \<Rightarrow> nat \<Rightarrow> nat \<Rightarrow>
    LiveConversionChunk list" where
  "group_loop text [] kind offset current_end =
     [\<lparr>chunk_kind = kind, chunk_text = substr text offset (current_end - offset), byte_offset = offset\<rparr>]"
| "group_loop text (u # us) kind offset current_end =
     (let k = KindFor (code_point u);
          unit_end = unit_offset u + byte_length u
      in if k \<noteq> kind
         then \<lparr>chunk_kind = kind, chunk_text = substr text offset (current_end - offset), byte_offset = offset\<rparr> #
              group_loop text us k (unit_offset u) unit_end
         else group_loop text us kind offset unit_end)"

definition GroupUnitRange :: "string \<Rightarrow> Utf8Unit list \<Rightarrow> nat \<Rightarrow> nat \<Rightarrow> LiveConversionChunk list" where
  "GroupUnitRange text units begin_unit end_unit =
     (if begin_unit \<ge> end_unit then []
      else let first = units ! begin_unit
           in group_loop text (take (end_unit - begin_unit) (drop begin_unit units))
                (KindFor (code_point first)) (unit_offset first) (unit_offset first))"

definition GroupLiveConversionChunks :: "string \<Rightarrow> LiveConversionChunk list" where
  "GroupLiveConversionChunks text =
     (let units = DecodeUtf8Units text in GroupUnitRange text units 0 (length units))"

definition SameUtf8Unit :: "string \<Rightarrow> Utf8Unit \<Rightarrow> string \<Rightarrow> Utf8Unit \<Rightarrow> bool" where
  "SameUtf8Unit lhs lhs_unit rhs rhs_unit =
     (if byte_length lhs_unit \<noteq> byte_length rhs_unit then False
      else substr lhs (unit_offset lhs_unit) (byte_length lhs_unit) =
           substr rhs (unit_offset rhs_unit) (byte_length rhs_unit))"

text \<open>The number of leading units that agree; the \<open>while\<close> loop stops at the shorter list.\<close>

fun common_units :: "string \<Rightarrow> Utf8Unit list \<Rightarrow> string \<Rightarrow> Utf8Unit list \<Rightarrow> nat" where
  "common_units p (u # us) c (v # vs) =
     (if SameUtf8Unit p u c v then Suc (common_units p us c vs) else 0)"
| "common_units p _ c _ = 0"

definition CommonPrefixUnits :: "string \<Rightarrow> Utf8Unit list \<Rightarrow> string \<Rightarrow> Utf8Unit list \<Rightarrow> nat" where
  "CommonPrefixUnits previous_text previous_units current_text current_units =
     common_units previous_text previous_units current_text current_units"

text \<open>The same from the end, over the units that are not in the common prefix.\<close>

definition CommonSuffixUnits ::
  "string \<Rightarrow> Utf8Unit list \<Rightarrow> string \<Rightarrow> Utf8Unit list \<Rightarrow> nat \<Rightarrow> nat" where
  "CommonSuffixUnits previous_text previous_units current_text current_units prefix_units =
     common_units previous_text (rev (drop prefix_units previous_units))
       current_text (rev (drop prefix_units current_units))"

definition UnitOffsetOrEnd :: "Utf8Unit list \<Rightarrow> nat \<Rightarrow> nat \<Rightarrow> nat" where
  "UnitOffsetOrEnd units unit_index text_size =
     (if unit_index < length units then unit_offset (units ! unit_index) else text_size)"

definition ComputeLiveConversionChunkPlan :: "string \<Rightarrow> string \<Rightarrow> LiveConversionChunkPlan" where
  "ComputeLiveConversionChunkPlan previous_text current_text =
     (let previous_units = DecodeUtf8Units previous_text;
          current_units = DecodeUtf8Units current_text;
          prefix_units = CommonPrefixUnits previous_text previous_units current_text current_units;
          suffix_units =
            CommonSuffixUnits previous_text previous_units current_text current_units prefix_units
      in \<lparr>chunks = GroupUnitRange current_text current_units 0 (length current_units),
          replacement_chunks =
            GroupUnitRange current_text current_units prefix_units (length current_units - suffix_units),
          unchanged_prefix_bytes = UnitOffsetOrEnd current_units prefix_units (length current_text),
          unchanged_suffix_bytes = length current_text -
            UnitOffsetOrEnd current_units (length current_units - suffix_units) (length current_text),
          replace_old_begin_byte = UnitOffsetOrEnd previous_units prefix_units (length previous_text),
          replace_old_end_byte =
            UnitOffsetOrEnd previous_units (length previous_units - suffix_units) (length previous_text),
          replace_new_begin_byte = UnitOffsetOrEnd current_units prefix_units (length current_text),
          replace_new_end_byte =
            UnitOffsetOrEnd current_units (length current_units - suffix_units) (length current_text)\<rparr>)"

section \<open>Units cover the text\<close>

text \<open>A list of units that lie back to back from one offset to another.\<close>

fun covers :: "Utf8Unit list \<Rightarrow> nat \<Rightarrow> nat \<Rightarrow> bool" where
  "covers [] a b \<longleftrightarrow> a = b"
| "covers (u # us) a b \<longleftrightarrow> unit_offset u = a \<and> 0 < byte_length u \<and> covers us (a + byte_length u) b"

lemma covers_le: "covers us a b \<Longrightarrow> a \<le> b"
  by (induction us a b rule: covers.induct) auto

lemma covers_unique: "covers us a b \<Longrightarrow> covers us a c \<Longrightarrow> b = c"
  by (induction us arbitrary: a) auto

lemma covers_append: "covers (us @ vs) a b \<longleftrightarrow> (\<exists>m. covers us a m \<and> covers vs m b)"
  by (induction us arbitrary: a) auto

lemma DecodeUtf8At_fits: "i < length s \<Longrightarrow> snd (DecodeUtf8At s i) \<le> length s - i"
proof -
  assume i: "i < length s"
  have "utf8_head (drop i s) = Some (cp, w) \<Longrightarrow> w \<le> length s - i" for cp w
    using utf8_head_iff [of "drop i s" cp w] by (metis length_append length_drop le_add1)
  then show ?thesis using i by (auto simp: DecodeUtf8At_head split: option.splits)
qed

lemma decode_units_from_covers: "i \<le> length s \<Longrightarrow> covers (decode_units_from s i) i (length s)"
proof (induction s i rule: decode_units_from.induct)
  case (1 s i)
  show ?case
  proof (cases "i < length s")
    case True
    obtain cp len where d: "DecodeUtf8At s i = (cp, len)" by fastforce
    have "0 < len" "len \<le> length s - i"
      using DecodeUtf8At_positive [of s i] DecodeUtf8At_fits [OF True] d by simp_all
    then show ?thesis
      using 1(1) [OF True d [symmetric] refl] True d by (subst decode_units_from.simps) simp
  next
    case False
    then show ?thesis using 1(2) by (simp add: decode_units_from.simps)
  qed
qed

lemma DecodeUtf8Units_covers: "covers (DecodeUtf8Units s) 0 (length s)"
  by (simp add: DecodeUtf8Units_def decode_units_from_covers)

lemma UnitOffsetOrEnd_split:
  assumes "covers us 0 b" "n \<le> length us"
  shows "covers (take n us) 0 (UnitOffsetOrEnd us n b) \<and> covers (drop n us) (UnitOffsetOrEnd us n b) b"
proof -
  obtain m where m: "covers (take n us) 0 m" "covers (drop n us) m b"
    using assms(1) covers_append [of "take n us" "drop n us" 0 b] by auto
  have "m = UnitOffsetOrEnd us n b"
  proof (cases "n < length us")
    case True
    then have "drop n us = us ! n # drop (Suc n) us" by (simp add: Cons_nth_drop_Suc)
    then show ?thesis using m(2) True by (simp add: UnitOffsetOrEnd_def)
  next
    case False
    then show ?thesis using m(2) assms(2) by (simp add: UnitOffsetOrEnd_def)
  qed
  then show ?thesis using m by simp
qed

section \<open>Grouping\<close>

lemma substr_append:
  "a \<le> m \<Longrightarrow> m \<le> b \<Longrightarrow> substr s a (m - a) @ substr s m (b - m) = substr s a (b - a)"
proof -
  assume "a \<le> m" "m \<le> b"
  then have "b - a = (m - a) + (b - m)" "m = (m - a) + a" by simp_all
  then show ?thesis unfolding substr_def by (metis take_add drop_drop)
qed

text \<open>The chunks of a run: back to back, none empty, each the text at its offset, kinds alternating.\<close>

fun chunked :: "string \<Rightarrow> LiveConversionChunk list \<Rightarrow> nat \<Rightarrow> nat \<Rightarrow> bool" where
  "chunked s [] a b \<longleftrightarrow> a = b"
| "chunked s (c # cs) a b \<longleftrightarrow> byte_offset c = a \<and> chunk_text c \<noteq> [] \<and>
     chunk_text c = substr s a (length (chunk_text c)) \<and>
     (cs = [] \<or> chunk_kind (hd cs) \<noteq> chunk_kind c) \<and> chunked s cs (a + length (chunk_text c)) b"

lemma chunked_concat: "chunked s cs a b \<Longrightarrow> b \<le> length s \<Longrightarrow>
    concat (map chunk_text cs) = substr s a (b - a) \<and> a \<le> b"
proof (induction s cs a b rule: chunked.induct)
  case (2 s c cs a b)
  let ?m = "a + length (chunk_text c)"
  have IH: "concat (map chunk_text cs) = substr s ?m (b - ?m)" "?m \<le> b" using 2 by auto
  have "chunk_text c = substr s a (?m - a)" using 2(2) by simp
  then show ?case using IH substr_append [of a ?m b s] by simp
qed (simp add: substr_def)

lemma length_substr: "a \<le> m \<Longrightarrow> m \<le> length s \<Longrightarrow> length (substr s a (m - a)) = m - a"
  by (simp add: substr_def)

lemma group_loop_chunked:
  "covers us m b \<Longrightarrow> b \<le> length s \<Longrightarrow> offset < m \<Longrightarrow>
     chunked s (group_loop s us kind offset m) offset b \<and>
     chunk_kind (hd (group_loop s us kind offset m)) = kind"
proof (induction s us kind offset m rule: group_loop.induct)
  case (1 s kind offset m)
  then show ?case using length_substr [of offset m s] by (auto simp flip: length_0_conv)
next
  case (2 s u us kind offset m)
  have u: "unit_offset u = m" "0 < byte_length u" "covers us (m + byte_length u) b"
    using 2(3) by auto
  have le: "m + byte_length u \<le> b" using covers_le [OF u(3)] .
  show ?case
  proof (cases "KindFor (code_point u) \<noteq> kind")
    case True
    have "chunked s (group_loop s us (KindFor (code_point u)) m (m + byte_length u)) m b \<and>
        chunk_kind (hd (group_loop s us (KindFor (code_point u)) m (m + byte_length u))) = KindFor (code_point u)"
      using 2(1) [OF refl refl True] u 2(4) by simp
    then show ?thesis
      using True u 2(4,5) le length_substr [of offset m s] by (auto simp: Let_def simp flip: length_0_conv)
  next
    case False
    then show ?thesis using 2(2) [OF refl refl False] u 2(4,5) by (simp add: Let_def)
  qed
qed

lemma GroupUnitRange_chunked:
  assumes "covers us 0 (length s)" "p \<le> q" "q \<le> length us"
  shows "chunked s (GroupUnitRange s us p q) (UnitOffsetOrEnd us p (length s)) (UnitOffsetOrEnd us q (length s))"
proof (cases "p < q")
  case False
  then show ?thesis using assms(2) by (simp add: GroupUnitRange_def)
next
  case True
  let ?a = "UnitOffsetOrEnd us p (length s)" and ?b = "UnitOffsetOrEnd us q (length s)"
  have q: "covers (take q us) 0 ?b" "covers (drop q us) ?b (length s)"
    using UnitOffsetOrEnd_split [OF assms(1,3)] by auto
  have p: "covers (take p us) 0 ?a" using UnitOffsetOrEnd_split [OF assms(1), of p] assms(2,3) by simp
  have "take q us = take p us @ take (q - p) (drop p us)"
    using True by (metis le_add_diff_inverse less_imp_le take_add)
  then obtain m where "covers (take p us) 0 m" "covers (take (q - p) (drop p us)) m ?b"
    using q(1) covers_append by metis
  moreover have "covers (take p us) 0 m \<Longrightarrow> m = ?a" for m
    using p covers_unique by blast
  ultimately have mid: "covers (take (q - p) (drop p us)) ?a ?b" by blast
  obtain u us' where u: "take (q - p) (drop p us) = u # us'" "us ! p = u"
    using True assms(3) by (cases "drop p us") (auto simp: take_Cons' nth_via_drop)
  have le: "?b \<le> length s" using covers_le [OF q(2)] .
  have c: "unit_offset u = ?a" "0 < byte_length u" "covers us' (?a + byte_length u) ?b"
    using mid u(1) by auto
  then show ?thesis
    using group_loop_chunked [OF c(3) le, of ?a "KindFor (code_point u)"] True u
    by (simp add: GroupUnitRange_def Let_def)
qed

section \<open>Common units\<close>

lemma common_units_le: "common_units p us c vs \<le> length us \<and> common_units p us c vs \<le> length vs"
  by (induction p us c vs rule: common_units.induct) auto

lemma common_units_same:
  "i < common_units p us c vs \<Longrightarrow> SameUtf8Unit p (us ! i) c (vs ! i)"
proof (induction p us c vs arbitrary: i rule: common_units.induct)
  case (1 p u us c v vs)
  then show ?case by (cases i) (auto split: if_splits)
qed auto

text \<open>Runs of agreeing units have the same length and the same bytes.\<close>

lemma same_runs:
  "length us = length vs \<Longrightarrow> (\<And>i. i < length us \<Longrightarrow> SameUtf8Unit p (us ! i) c (vs ! i)) \<Longrightarrow>
     covers us a b \<Longrightarrow> covers vs a' b' \<Longrightarrow> b - a = b' - a' \<and> substr p a (b - a) = substr c a' (b' - a')"
proof (induction us arbitrary: vs a a')
  case (Cons u us)
  obtain v vs' where vs: "vs = v # vs'" using Cons.prems(1) by (cases vs) auto
  have u: "SameUtf8Unit p u c v" using Cons.prems(2) [of 0] vs by simp
  have rest: "b - (a + byte_length u) = b' - (a' + byte_length v) \<and>
      substr p (a + byte_length u) (b - (a + byte_length u)) = substr c (a' + byte_length v) (b' - (a' + byte_length v))"
  proof (rule Cons.IH)
    show "i < length us \<Longrightarrow> SameUtf8Unit p (us ! i) c (vs' ! i)" for i
      using Cons.prems(2) [of "Suc i"] vs by simp
  qed (use Cons.prems vs in auto)
  have len: "byte_length u = byte_length v"
    and same: "substr p a (byte_length u) = substr c a' (byte_length v)"
    using u Cons.prems(3,4) vs by (auto simp: SameUtf8Unit_def split: if_splits)
  have le: "a + byte_length u \<le> b" "a' + byte_length v \<le> b'"
    using Cons.prems(3,4) vs covers_le by auto
  have "substr p a (b - a) = substr p a (byte_length u) @ substr p (a + byte_length u) (b - (a + byte_length u))"
    using substr_append [of a "a + byte_length u" b p] le(1) by simp
  also have "\<dots> = substr c a' (byte_length v) @ substr c (a' + byte_length v) (b' - (a' + byte_length v))"
    using rest same by metis
  also have "\<dots> = substr c a' (b' - a')"
    using substr_append [of a' "a' + byte_length v" b' c] le(2) by simp
  finally show ?case using rest le len by linarith
qed (simp add: substr_def)

lemma take_rev_common:
  assumes "n \<le> length xs" "i < n"
  shows "drop (length xs - n) xs ! i = rev xs ! (n - 1 - i)"
  using assms by (simp add: rev_nth)

lemma prefix_text:
  assumes "covers us 0 (length p)" "covers vs 0 (length c)" "n = common_units p us c vs"
  shows "UnitOffsetOrEnd us n (length p) = UnitOffsetOrEnd vs n (length c) \<and>
    take (UnitOffsetOrEnd us n (length p)) p = take (UnitOffsetOrEnd vs n (length c)) c"
proof -
  have n: "n \<le> length us" "n \<le> length vs" using common_units_le assms(3) by auto
  have "UnitOffsetOrEnd us n (length p) - 0 = UnitOffsetOrEnd vs n (length c) - 0 \<and>
      substr p 0 (UnitOffsetOrEnd us n (length p) - 0) = substr c 0 (UnitOffsetOrEnd vs n (length c) - 0)"
  proof (rule same_runs)
    show "i < length (take n us) \<Longrightarrow> SameUtf8Unit p (take n us ! i) c (take n vs ! i)" for i
      using common_units_same [of i p us c vs] assms(3) by simp
  qed (use n UnitOffsetOrEnd_split assms(1,2) in auto)
  then show ?thesis by (metis substr_def diff_zero drop_0)
qed

lemma suffix_text:
  assumes "covers us 0 (length p)" "covers vs 0 (length c)" "k \<le> length us" "k \<le> length vs"
    and "n = common_units p (rev (drop k us)) c (rev (drop k vs))"
  shows "drop (UnitOffsetOrEnd us (length us - n) (length p)) p =
    drop (UnitOffsetOrEnd vs (length vs - n) (length c)) c"
proof -
  let ?a = "UnitOffsetOrEnd us (length us - n) (length p)"
  let ?b = "UnitOffsetOrEnd vs (length vs - n) (length c)"
  have n: "n \<le> length us - k" "n \<le> length vs - k"
    using common_units_le [of p "rev (drop k us)" c "rev (drop k vs)"] assms(5) by auto
  have "length p - ?a = length c - ?b \<and> substr p ?a (length p - ?a) = substr c ?b (length c - ?b)"
  proof (rule same_runs)
    show "length (drop (length us - n) us) = length (drop (length vs - n) vs)" using n by simp
    fix i assume "i < length (drop (length us - n) us)"
    then have i: "i < n" using n by simp
    have j: "n - 1 - i < common_units p (rev (drop k us)) c (rev (drop k vs))" using i assms(5) by simp
    have "rev (drop k us) ! (n - 1 - i) = drop (length us - n) us ! i"
      "rev (drop k vs) ! (n - 1 - i) = drop (length vs - n) vs ! i"
      using i n by (simp_all add: rev_nth)
    then show "SameUtf8Unit p (drop (length us - n) us ! i) c (drop (length vs - n) vs ! i)"
      using common_units_same [OF j] by simp
  qed (use UnitOffsetOrEnd_split assms(1,2) in auto)
  then show ?thesis by (simp add: substr_def)
qed

lemma group_all:
  "chunked s (GroupUnitRange s (DecodeUtf8Units s) 0 (length (DecodeUtf8Units s))) 0 (length s) \<and>
   concat (map chunk_text (GroupUnitRange s (DecodeUtf8Units s) 0 (length (DecodeUtf8Units s)))) = s"
proof -
  let ?us = "DecodeUtf8Units s"
  have "UnitOffsetOrEnd ?us 0 (length s) = 0" "UnitOffsetOrEnd ?us (length ?us) (length s) = length s"
    using UnitOffsetOrEnd_split [OF DecodeUtf8Units_covers, of 0 s] by (auto simp: UnitOffsetOrEnd_def)
  then have "chunked s (GroupUnitRange s ?us 0 (length ?us)) 0 (length s)"
    using GroupUnitRange_chunked [OF DecodeUtf8Units_covers, of 0 "length ?us" s] by simp
  then show ?thesis using chunked_concat [of s _ 0 "length s"] by (simp add: substr_def)
qed

section \<open>Properties of the chunker\<close>

text \<open>C13: The chunks put together are the text, whatever its bytes; none is empty, each is the text at
  its offset, and neighbours are of different kinds.\<close>

theorem GroupLiveConversionChunks_partition:
  "concat (map chunk_text (GroupLiveConversionChunks s)) = s \<and>
   chunked s (GroupLiveConversionChunks s) 0 (length s)"
  using group_all [of s] by (simp add: GroupLiveConversionChunks_def Let_def)

text \<open>The plan is a correct patch: replacing the planned range of the previous text by the
  replacement chunks gives the current text, and the bytes called unchanged are.\<close>

theorem ComputeLiveConversionChunkPlan_patches:
  "let plan = ComputeLiveConversionChunkPlan prev cur in
   take (replace_old_begin_byte plan) prev @ concat (map chunk_text (replacement_chunks plan)) @
     drop (replace_old_end_byte plan) prev = cur \<and>
   replace_old_begin_byte plan \<le> replace_old_end_byte plan \<and>
   take (unchanged_prefix_bytes plan) prev = take (unchanged_prefix_bytes plan) cur \<and>
   concat (map chunk_text (chunks plan)) = cur"
proof -
  let ?us = "DecodeUtf8Units prev" and ?vs = "DecodeUtf8Units cur"
  let ?n = "common_units prev ?us cur ?vs"
  let ?m = "common_units prev (rev (drop ?n ?us)) cur (rev (drop ?n ?vs))"
  let ?a = "UnitOffsetOrEnd ?us ?n (length prev)" and ?a' = "UnitOffsetOrEnd ?vs ?n (length cur)"
  let ?b = "UnitOffsetOrEnd ?us (length ?us - ?m) (length prev)"
  let ?b' = "UnitOffsetOrEnd ?vs (length ?vs - ?m) (length cur)"
  have cu: "covers ?us 0 (length prev)" and cv: "covers ?vs 0 (length cur)"
    using DecodeUtf8Units_covers by auto
  have n: "?n \<le> length ?us" "?n \<le> length ?vs" using common_units_le by auto
  have m: "?m \<le> length ?us - ?n" "?m \<le> length ?vs - ?n"
    using common_units_le [of prev "rev (drop ?n ?us)" cur "rev (drop ?n ?vs)"] by auto
  have nm: "?n \<le> length ?us - ?m" "?n \<le> length ?vs - ?m" using n m by linarith+
  have pre: "?a = ?a'" "take ?a prev = take ?a' cur" using prefix_text [OF cu cv refl] by auto
  have suf: "drop ?b prev = drop ?b' cur" using suffix_text [OF cu cv n refl] .
  have ch: "chunked cur (GroupUnitRange cur ?vs ?n (length ?vs - ?m)) ?a' ?b'"
    using GroupUnitRange_chunked [OF cv nm(2)] by simp
  have chu: "chunked prev (GroupUnitRange prev ?us ?n (length ?us - ?m)) ?a ?b"
    using GroupUnitRange_chunked [OF cu nm(1)] by simp
  have b': "?b' \<le> length cur" and b: "?b \<le> length prev"
    using UnitOffsetOrEnd_split [OF cv, of "length ?vs - ?m"] UnitOffsetOrEnd_split [OF cu, of "length ?us - ?m"]
      covers_le by auto
  have mid: "concat (map chunk_text (GroupUnitRange cur ?vs ?n (length ?vs - ?m))) = substr cur ?a' (?b' - ?a')"
    "?a' \<le> ?b'" using chunked_concat [OF ch b'] by auto
  have ab: "?a \<le> ?b" using chunked_concat [OF chu b] by simp
  have "take ?a' cur @ substr cur ?a' (?b' - ?a') @ drop ?b' cur = cur"
  proof -
    have "substr cur ?a' (?b' - ?a') @ drop ?b' cur = drop ?a' cur"
      using mid(2) unfolding substr_def by (metis append_take_drop_id drop_drop le_add_diff_inverse2)
    then show ?thesis by simp
  qed
  moreover have "concat (map chunk_text (GroupUnitRange cur ?vs 0 (length ?vs))) = cur"
    using group_all by simp
  ultimately show ?thesis
    using pre suf mid ab
    by (simp add: ComputeLiveConversionChunkPlan_def Let_def CommonPrefixUnits_def CommonSuffixUnits_def)
qed

end
