(* ===== verification/Brackets.thy ===== *)
theory Brackets
  imports Tsv StdMap Utf8 EditContext
begin

text \<open>
  Automatic pairing of brackets: the tables of \<open>core/src/BracketTable.cpp\<close>, the decisions of
  \<open>core/src/BracketPairing.cpp\<close>, and what \<open>BracketEditSession::Apply\<close> of the input method does to the
  document with a decision. A \<open>std::map<char32_t, char32_t>\<close> is an ordered map on code points. The
  document is the text before the selection, the selected text and the text behind it; the calls of
  the text services framework are taken to succeed, and pairs are inserted directly, not as a
  composition.
\<close>

record BracketTable =
  pairs :: "(codepoint, codepoint) map"
  closing :: "(codepoint, codepoint) map"

definition kBracketPairs :: "(codepoint \<times> codepoint) list" where
  "kBracketPairs =
     [(0xff08, 0xff09), (0x300c, 0x300d), (0x300e, 0x300f), (0x3010, 0x3011), (0x3014, 0x3015),
      (0xff3b, 0xff3d), (0xff5b, 0xff5d), (0x3008, 0x3009), (0x300a, 0x300b), (0x201c, 0x201d),
      (0x2018, 0x2019), (0x28, 0x29), (0x5b, 0x5d), (0x7b, 0x7d), (0x22, 0x22), (0x27, 0x27), (0x60, 0x60)]"

definition BuiltinBracketTable :: BracketTable where
  "BuiltinBracketTable =
     foldl (\<lambda>t (open, close). \<lparr>pairs = map_emplace open close (pairs t), closing = map_emplace close open (closing t)\<rparr>)
       \<lparr>pairs = [], closing = []\<rparr> kBracketPairs"

definition LookupBracketPair :: "codepoint \<Rightarrow> BracketTable \<Rightarrow> (codepoint \<times> codepoint) option" where
  "LookupBracketPair c table = map_option (\<lambda>close. (c, close)) (map_of (pairs table) c)"

definition LookupClosingBracket :: "codepoint \<Rightarrow> BracketTable \<Rightarrow> (codepoint \<times> codepoint) option" where
  "LookupClosingBracket c table = map_option (\<lambda>open. (open, c)) (map_of (closing table) c)"

section \<open>The user's table\<close>

text \<open>The lambda \<open>scalar\<close> of \<open>ParseBracketTable\<close>.\<close>

definition bracket_scalar :: "string \<Rightarrow> codepoint option" where
  "bracket_scalar s =
     (case DecodeNextUtf8 s 0 0 of (ok, offset, cp) \<Rightarrow>
        if ok \<and> offset = length s \<and> cp > 0x20 \<and> cp \<le> 0xffff \<and> \<not> (cp \<ge> 0x7f \<and> cp \<le> 0x9f)
        then Some cp else None)"

text \<open>The three fields of a line: opening and closing bracket and flags.\<close>

definition bracket_fields :: "string \<Rightarrow> string \<times> string \<times> string" where
  "bracket_fields line =
     (case find_char (CHR 0x09) line of
        None \<Rightarrow> (line, [], [])
      | Some f \<Rightarrow>
          (case find_char_from (CHR 0x09) line (f + 1) of
             None \<Rightarrow> (take f line, drop (f + 1) line, [])
           | Some s \<Rightarrow> (take f line, take (s - f - 1) (drop (f + 1) line), drop (s + 1) line)))"

text \<open>One line: the pairs so far and the numbers of the invalid lines.\<close>

definition bracket_line :: "nat \<Rightarrow> string \<Rightarrow> (codepoint, codepoint) map \<times> nat list \<Rightarrow>
    (codepoint, codepoint) map \<times> nat list" where
  "bracket_line line_number line st =
     (if line = [] \<or> hd line = CHR ''#'' then st
      else case (st, bracket_fields line) of
        ((ps, invalid), (open_text, close_text, flags)) \<Rightarrow>
          (case (bracket_scalar open_text, bracket_scalar close_text) of
             (Some open, Some close) \<Rightarrow>
               if flags \<noteq> [] \<and> flags \<noteq> ''off'' then (ps, invalid @ [line_number])
               else if flags = ''off'' then (map_erase open ps, invalid)
               else (map_assign open close ps, invalid)
           | _ \<Rightarrow> (ps, invalid @ [line_number])))"

definition closing_of :: "(codepoint, codepoint) map \<Rightarrow> (codepoint, codepoint) map" where
  "closing_of ps = foldl (\<lambda>m (open, close). map_emplace close open m) [] ps"

definition ParseBracketTable :: "string \<Rightarrow> BracketTable \<times> nat list" where
  "ParseBracketTable tsv =
     (case load_tsv bracket_line tsv (pairs BuiltinBracketTable, []) of
        (ps, invalid) \<Rightarrow> (\<lparr>pairs = ps, closing = closing_of ps\<rparr>, invalid))"

section \<open>Decisions\<close>

datatype BracketPairingActionType =
  PassThrough | InsertPair | WrapSelection | InsertLiteral | SkipClosing | DeletePair

record BracketPairingAction =
  action_type :: BracketPairingActionType
  action_open :: codepoint
  action_close :: codepoint

abbreviation action :: "BracketPairingActionType \<Rightarrow> codepoint \<Rightarrow> codepoint \<Rightarrow> BracketPairingAction" where
  "action t p c \<equiv> \<lparr>action_type = t, action_open = p, action_close = c\<rparr>"

record BracketPairingOptions =
  enabled :: bool
  skip_over_closing :: bool
  backspace_deletes_pair :: bool
  enabled_in_alnum_mode :: bool
  symmetric_quote_pairing :: bool
  wrap_selection :: bool

definition IsWhitespace :: "codepoint \<Rightarrow> bool" where
  "IsWhitespace cp \<longleftrightarrow>
     (cp \<ge> 0x9 \<and> cp \<le> 0xd) \<or> cp = 0x20 \<or> cp = 0x85 \<or> cp = 0xa0 \<or> cp = 0x1680 \<or>
     (cp \<ge> 0x2000 \<and> cp \<le> 0x200a) \<or> cp = 0x2028 \<or> cp = 0x2029 \<or> cp = 0x202f \<or>
     cp = 0x205f \<or> cp = 0x3000"

definition EvaluateBracketInput ::
  "codepoint \<Rightarrow> bool \<Rightarrow> EditContextHint \<Rightarrow> BracketPairingOptions \<Rightarrow> BracketTable \<Rightarrow> BracketPairingAction" where
  "EvaluateBracketInput codepoint alnum_mode hint options table =
     (if \<not> enabled options \<or> (alnum_mode \<and> \<not> enabled_in_alnum_mode options) then action PassThrough 0 0
      else case LookupBracketPair codepoint table of
        Some (open, close) \<Rightarrow>
          let symmetric = (open = close) in
          if symmetric \<and> \<not> symmetric_quote_pairing options then action PassThrough 0 0
          else if selection_collapsed hint = Some False \<and> wrap_selection options then action WrapSelection open close
          else if selection_collapsed hint \<noteq> Some True then action InsertLiteral codepoint 0
          else if symmetric \<and> skip_over_closing options \<and> char_after hint = Some codepoint then
            action SkipClosing 0 codepoint
          else if symmetric \<and>
            (case char_before hint of
               None \<Rightarrow> False
             | Some b \<Rightarrow> \<not> IsWhitespace b \<and> (b = codepoint \<or> LookupBracketPair b table = None)) then
            action InsertLiteral codepoint 0
          else action InsertPair open close
      | None \<Rightarrow>
          if LookupClosingBracket codepoint table \<noteq> None then
            if skip_over_closing options \<and> selection_collapsed hint = Some True \<and> char_after hint = Some codepoint
            then action SkipClosing 0 codepoint
            else action InsertLiteral codepoint 0
          else action PassThrough 0 0)"

definition EvaluateBracketBackspace ::
  "bool \<Rightarrow> EditContextHint \<Rightarrow> BracketPairingOptions \<Rightarrow> BracketTable \<Rightarrow> BracketPairingAction" where
  "EvaluateBracketBackspace alnum_mode hint options table =
     (if \<not> enabled options \<or> (alnum_mode \<and> \<not> enabled_in_alnum_mode options) \<or>
         \<not> backspace_deletes_pair options \<or> selection_collapsed hint \<noteq> Some True then action PassThrough 0 0
      else case char_before hint of
        None \<Rightarrow> action PassThrough 0 0
      | Some b \<Rightarrow>
          (case LookupBracketPair b table of
             None \<Rightarrow> action PassThrough 0 0
           | Some (open, close) \<Rightarrow>
               if (open = close \<and> \<not> symmetric_quote_pairing options) \<or> char_after hint \<noteq> Some close
               then action PassThrough 0 0
               else action DeletePair open close))"

section \<open>Their effect on the document\<close>

record document =
  left :: "codepoint list"
  selected :: "codepoint list"
  right :: "codepoint list"

text \<open>The hint that a successful read of the document gives.\<close>

definition ReadHint :: "document \<Rightarrow> EditContextHint" where
  "ReadHint d =
     \<lparr>char_before = (if left d = [] then None else Some (last (left d))),
      char_after = (if right d = [] then None else Some (hd (right d))),
      selection_collapsed = Some (selected d = [])\<rparr>"

text \<open>The revalidation at the start of \<open>Apply\<close>; \<^term>\<open>None\<close> is \<open>S_FALSE\<close>.\<close>

definition revalidate ::
  "BracketPairingAction \<Rightarrow> EditContextHint \<Rightarrow> BracketPairingOptions \<Rightarrow> BracketTable \<Rightarrow> BracketPairingAction option" where
  "revalidate a fresh options table =
     (if action_type a = DeletePair \<and>
         (selection_collapsed fresh \<noteq> Some True \<or> char_before fresh \<noteq> Some (action_open a) \<or>
          char_after fresh \<noteq> Some (action_close a)) then None
      else
        let a1 = (if action_type a = SkipClosing \<and>
                     (selection_collapsed fresh \<noteq> Some True \<or> char_after fresh \<noteq> Some (action_close a))
                  then action InsertLiteral (action_close a) (action_close a) else a);
            a2 = (if action_type a1 = InsertPair \<and> selection_collapsed fresh \<noteq> Some True
                  then a1\<lparr>action_type := InsertLiteral\<rparr> else a1);
            a3 = (if action_type a2 = InsertPair \<and> action_open a2 = action_close a2
                  then EvaluateBracketInput (action_open a2) False fresh options table else a2)
        in Some (if action_type a3 = WrapSelection \<and> selection_collapsed fresh \<noteq> Some False
                 then a3\<lparr>action_type := InsertLiteral\<rparr> else a3))"

text \<open>The edits; \<^term>\<open>None\<close> when nothing was applied.\<close>

definition perform :: "BracketPairingAction \<Rightarrow> document \<Rightarrow> document option" where
  "perform a d =
     (case action_type a of
        WrapSelection \<Rightarrow>
          Some \<lparr>left = left d @ action_open a # selected d @ [action_close a], selected = [], right = right d\<rparr>
      | SkipClosing \<Rightarrow>
          if right d = [] then None
          else Some \<lparr>left = left d @ selected d @ [hd (right d)], selected = [], right = tl (right d)\<rparr>
      | DeletePair \<Rightarrow>
          if left d = [] \<or> right d = [] then None
          else Some \<lparr>left = butlast (left d), selected = [], right = tl (right d)\<rparr>
      | InsertPair \<Rightarrow>
          Some \<lparr>left = left d @ [action_open a], selected = [], right = action_close a # right d\<rparr>
      | InsertLiteral \<Rightarrow>
          Some \<lparr>left = left d @ [action_open a], selected = [], right = right d\<rparr>
      | PassThrough \<Rightarrow> None)"

definition Apply_bracket ::
  "BracketPairingAction \<Rightarrow> BracketPairingOptions \<Rightarrow> BracketTable \<Rightarrow> document \<Rightarrow> document option" where
  "Apply_bracket a options table d =
     (case revalidate a (ReadHint d) options table of None \<Rightarrow> None | Some a' \<Rightarrow> perform a' d)"

section \<open>What a table guarantees\<close>

definition bracket_char :: "codepoint \<Rightarrow> bool" where
  "bracket_char cp \<longleftrightarrow> is_scalar cp \<and> cp > 0x20 \<and> cp \<le> 0xffff \<and> \<not> (cp \<ge> 0x7f \<and> cp \<le> 0x9f)"

definition pairs_ok :: "(codepoint, codepoint) map \<Rightarrow> bool" where
  "pairs_ok ps \<longleftrightarrow> map_wf ps \<and> (\<forall>(p, c) \<in> set ps. bracket_char p \<and> bracket_char c)"

lemma bracket_scalar_char: "bracket_scalar s = Some cp \<Longrightarrow> bracket_char cp"
proof -
  assume "bracket_scalar s = Some cp"
  then obtain j where "decode_next s 0 = Some (cp, j)" and b: "cp > 0x20" "cp \<le> 0xffff" "\<not> (cp \<ge> 0x7f \<and> cp \<le> 0x9f)"
    by (auto simp: bracket_scalar_def decode_next_def split: prod.splits if_splits)
  then show ?thesis by (simp add: bracket_char_def core_decoder.decode_iff)
qed

lemma set_map_assign: "set (map_assign k v m) \<subseteq> insert (k, v) (set m)"
  by (induction k v m rule: map_assign.induct) auto

lemma bracket_line_cases:
  "bracket_line n line (ps, bad) \<in> {(ps, bad), (ps, bad @ [n])} \<or>
   (\<exists>p. bracket_line n line (ps, bad) = (map_erase p ps, bad)) \<or>
   (\<exists>p c. bracket_line n line (ps, bad) = (map_assign p c ps, bad) \<and> bracket_char p \<and> bracket_char c)"
proof -
  obtain x y f where fields: "bracket_fields line = (x, y, f)" by (cases "bracket_fields line")
  show ?thesis
  proof (cases "bracket_scalar x = None \<or> bracket_scalar y = None \<or> line = [] \<or> hd line = CHR ''#''")
    case True
    then show ?thesis by (auto simp: bracket_line_def fields split: option.splits)
  next
    case False
    then obtain p c where pc: "bracket_scalar x = Some p" "bracket_scalar y = Some c" by auto
    then have "bracket_char p" "bracket_char c" by (auto dest: bracket_scalar_char)
    then show ?thesis using False pc by (simp add: bracket_line_def fields) blast
  qed
qed

lemma bracket_line_ok: "pairs_ok (fst st) \<Longrightarrow> pairs_ok (fst (bracket_line n line st))"
proof -
  assume ok: "pairs_ok (fst st)"
  obtain ps bad where st: "st = (ps, bad)" by (cases st)
  have "pairs_ok (map_erase p ps)" for p
    using ok st map_wf_erase [of ps p] by (auto simp: pairs_ok_def map_erase_def)
  moreover have "pairs_ok (map_assign p c ps)" if "bracket_char p" "bracket_char c" for p c
    using ok st that set_map_assign [of p c ps] by (auto simp: pairs_ok_def map_wf_assign)
  ultimately show ?thesis using ok st bracket_line_cases [of n line ps bad] by auto
qed

lemma bracket_line_reports: "snd (bracket_line n line st) = snd st \<or> snd (bracket_line n line st) = snd st @ [n]"
  using bracket_line_cases [of n line "fst st" "snd st"] by auto

interpretation bracket_reader: line_reader bracket_line "\<lambda>st. pairs_ok (fst st)" snd
  by unfold_locales (rule bracket_line_ok, assumption, rule bracket_line_reports)

lemma builtin_pairs_ok: "pairs_ok (pairs BuiltinBracketTable)"
  by (simp add: BuiltinBracketTable_def kBracketPairs_def pairs_ok_def map_wf_def bracket_char_def is_scalar_def)

lemma closing_of_spec:
  "map_wf m \<Longrightarrow>
     map_wf (foldl (\<lambda>m (p, c). map_emplace c p m) m ps) \<and>
     fst ` set (foldl (\<lambda>m (p, c). map_emplace c p m) m ps) = fst ` set m \<union> snd ` set ps \<and>
     set (foldl (\<lambda>m (p, c). map_emplace c p m) m ps) \<subseteq> set m \<union> (\<lambda>(p, c). (c, p)) ` set ps"
proof (induction ps arbitrary: m)
  case (Cons pc ps)
  obtain p c where pc: "pc = (p, c)" by (cases pc)
  have "set (map_emplace c p m) \<subseteq> insert (c, p) (set m)"
    by (induction c p m rule: map_emplace.induct) auto
  then show ?case
    using Cons.IH [of "map_emplace c p m"] Cons.prems pc by (auto simp: map_wf_emplace fst_set_emplace)
qed simp

lemma ParseBracketTable_ok:
  assumes "ParseBracketTable tsv = (table, bad)"
  shows "pairs_ok (pairs table) \<and> closing table = closing_of (pairs table)"
  using assms bracket_reader.load_tsv_keeps [of "(pairs BuiltinBracketTable, [])" tsv] builtin_pairs_ok
  by (auto simp: ParseBracketTable_def split: prod.splits)

lemma closing_known:
  assumes "ParseBracketTable tsv = (table, bad)" "LookupBracketPair p table = Some (p, c)"
  shows "LookupClosingBracket c table \<noteq> None"
proof -
  have "(p, c) \<in> set (pairs table)" using assms(2) by (auto simp: LookupBracketPair_def dest: map_of_SomeD)
  moreover have "fst ` set (closing table) = snd ` set (pairs table)"
    using closing_of_spec [of "[]" "pairs table"] ParseBracketTable_ok [OF assms(1)] by (simp add: closing_of_def map_wf_def)
  ultimately have "c \<in> fst ` set (closing table)" by force
  then show ?thesis by (simp add: LookupClosingBracket_def map_of_eq_None_iff)
qed

text \<open>Whatever the user's file contains, the table read from it is consistent: keys and values are
  printable characters of the basic plane, every closing bracket of a pair is known as one, what is
  recorded for a closing bracket is an opening bracket paired with it, and the reported line numbers
  are increasing.
\<close>

theorem ParseBracketTable_consistent:
  "case ParseBracketTable tsv of (table, bad) \<Rightarrow>
     list_all (\<lambda>(p, c). bracket_char p \<and> bracket_char c \<and> LookupBracketPair p table = Some (p, c) \<and>
       LookupClosingBracket c table \<noteq> None) (pairs table) \<and>
     list_all (\<lambda>(c, p). LookupBracketPair p table = Some (p, c)) (closing table) \<and>
     sorted_wrt (<) bad"
proof -
  obtain table bad where t: "ParseBracketTable tsv = (table, bad)" by (cases "ParseBracketTable tsv")
  have ok: "pairs_ok (pairs table)" "closing table = closing_of (pairs table)"
    using ParseBracketTable_ok [OF t] by simp_all
  have "distinct (map fst (pairs table))"
    using ok(1) by (auto simp: pairs_ok_def map_wf_def strict_sorted_iff)
  then have look: "LookupBracketPair p table = Some (p, c) \<longleftrightarrow> (p, c) \<in> set (pairs table)" for p c
    by (auto simp: LookupBracketPair_def)
  have cl: "set (closing table) \<subseteq> (\<lambda>(p, c). (c, p)) ` set (pairs table)"
    using closing_of_spec [of "[]" "pairs table"] ok(2) by (auto simp: closing_of_def map_wf_def)
  have "LookupClosingBracket c table \<noteq> None" if "(p, c) \<in> set (pairs table)" for p c
    using that look closing_known [OF t] by blast
  moreover have "sorted_wrt (<) bad"
    using t bracket_reader.load_tsv_reports [of "(pairs BuiltinBracketTable, [])" tsv]
    by (auto simp: ParseBracketTable_def split: prod.splits)
  ultimately show ?thesis using ok(1) look cl t by (auto simp: list_all_iff pairs_ok_def)
qed

section \<open>What happens to the document\<close>

lemma input_never_deletes: "action_type (EvaluateBracketInput c alnum hint options table) \<noteq> DeletePair"
  by (simp add: EvaluateBracketInput_def Let_def split: option.split prod.split)

lemma revalidate_delete:
  assumes "revalidate a fresh options table = Some b" "action_type b = DeletePair"
  shows "action_type a = DeletePair \<and> selection_collapsed fresh = Some True \<and>
    char_before fresh = Some (action_open a) \<and> char_after fresh = Some (action_close a)"
proof (cases "action_type a = DeletePair")
  case True
  then show ?thesis using assms(1) by (simp add: revalidate_def split: if_splits)
next
  case False
  define a1 where "a1 = (if action_type a = SkipClosing \<and>
      (selection_collapsed fresh \<noteq> Some True \<or> char_after fresh \<noteq> Some (action_close a))
    then action InsertLiteral (action_close a) (action_close a) else a)"
  define a2 where "a2 = (if action_type a1 = InsertPair \<and> selection_collapsed fresh \<noteq> Some True
    then a1\<lparr>action_type := InsertLiteral\<rparr> else a1)"
  define a3 where "a3 = (if action_type a2 = InsertPair \<and> action_open a2 = action_close a2
    then EvaluateBracketInput (action_open a2) False fresh options table else a2)"
  have "action_type a1 \<noteq> DeletePair" using False by (simp add: a1_def)
  then have "action_type a2 \<noteq> DeletePair" by (simp add: a2_def)
  then have "action_type a3 \<noteq> DeletePair" by (simp add: a3_def input_never_deletes)
  moreover have "b = (if action_type a3 = WrapSelection \<and> selection_collapsed fresh \<noteq> Some False
      then a3\<lparr>action_type := InsertLiteral\<rparr> else a3)"
    using assms(1) False unfolding revalidate_def Let_def a1_def [symmetric] a2_def [symmetric] a3_def [symmetric] by simp
  ultimately show ?thesis using assms(2) by (simp split: if_splits)
qed


text \<open>A key and the backspace key as the user presses them: what is passed through, the application does.\<close>

definition type_key :: "BracketPairingOptions \<Rightarrow> BracketTable \<Rightarrow> codepoint \<Rightarrow> document \<Rightarrow> document" where
  "type_key options table c d =
     (case Apply_bracket (EvaluateBracketInput c False (ReadHint d) options table) options table d of
        Some d' \<Rightarrow> d'
      | None \<Rightarrow> \<lparr>left = left d @ [c], selected = [], right = right d\<rparr>)"

definition press_backspace :: "BracketPairingOptions \<Rightarrow> BracketTable \<Rightarrow> document \<Rightarrow> document" where
  "press_backspace options table d =
     (case Apply_bracket (EvaluateBracketBackspace False (ReadHint d) options table) options table d of
        Some d' \<Rightarrow> d'
      | None \<Rightarrow> if selected d \<noteq> [] then d\<lparr>selected := []\<rparr> else d\<lparr>left := butlast (left d)\<rparr>)"

lemma type_open:
  assumes "selected d = []" "LookupBracketPair p table = Some (p, c)" "p \<noteq> c" "enabled options"
  shows "type_key options table p d = \<lparr>left = left d @ [p], selected = [], right = c # right d\<rparr>"
  using assms by (simp add: type_key_def EvaluateBracketInput_def ReadHint_def Apply_bracket_def revalidate_def perform_def Let_def)

text \<open>Pairing does not get in the user's way, with any table read from a file: typing an opening
  bracket and then its closing bracket leaves the text a user without pairing would get, and typing an
  opening bracket and then backspace leaves the document as it was.
\<close>

theorem pairing_transparent:
  assumes "ParseBracketTable tsv = (table, bad)" "LookupBracketPair p table = Some (p, c)" "p \<noteq> c"
    and "LookupBracketPair c table = None" "enabled options" "selected d = []"
    and "skip_over_closing options" "backspace_deletes_pair options"
  shows "type_key options table c (type_key options table p d) =
      \<lparr>left = left d @ [p, c], selected = [], right = right d\<rparr> \<and>
    press_backspace options table (type_key options table p d) = d"
proof -
  have cl: "LookupClosingBracket c table \<noteq> None" using assms(1,2) by (rule closing_known)
  have o: "type_key options table p d = \<lparr>left = left d @ [p], selected = [], right = c # right d\<rparr>"
    using assms by (simp add: type_open)
  have "type_key options table c (type_key options table p d) = \<lparr>left = left d @ [p, c], selected = [], right = right d\<rparr>"
    using assms cl unfolding o
    by (simp add: type_key_def EvaluateBracketInput_def ReadHint_def Apply_bracket_def revalidate_def perform_def Let_def)
  moreover have "press_backspace options table (type_key options table p d) = d"
    using assms unfolding o
    by (simp add: press_backspace_def EvaluateBracketBackspace_def ReadHint_def Apply_bracket_def revalidate_def perform_def Let_def)
  ultimately show ?thesis by simp
qed

theorem pairing_transparent_witness:
  "\<exists>table bad. ParseBracketTable [] = (table, bad) \<and>
     type_key \<lparr>enabled = True, skip_over_closing = True, backspace_deletes_pair = True, enabled_in_alnum_mode = True,
       symmetric_quote_pairing = False, wrap_selection = False\<rparr> table 0x29
       (type_key \<lparr>enabled = True, skip_over_closing = True, backspace_deletes_pair = True, enabled_in_alnum_mode = True,
          symmetric_quote_pairing = False, wrap_selection = False\<rparr> table 0x28 \<lparr>left = [0x61], selected = [], right = []\<rparr>) =
     \<lparr>left = [0x61, 0x28, 0x29], selected = [], right = []\<rparr>"
proof -
  obtain table bad where t: "ParseBracketTable [] = (table, bad)" by (cases "ParseBracketTable []")
  then have ps: "pairs table = pairs BuiltinBracketTable"
    by (auto simp: ParseBracketTable_def load_tsv_def strip_bom_def tsv_lines.simps [of "[]"])
  have "LookupBracketPair 0x28 table = Some (0x28, 0x29)" "LookupBracketPair 0x29 table = None"
    by (simp_all add: LookupBracketPair_def ps BuiltinBracketTable_def kBracketPairs_def)
  then show ?thesis
    using t pairing_transparent [OF t, of "0x28" "0x29" "\<lparr>enabled = True, skip_over_closing = True, backspace_deletes_pair = True,
      enabled_in_alnum_mode = True, symmetric_quote_pairing = False, wrap_selection = False\<rparr>" "\<lparr>left = [0x61], selected = [], right = []\<rparr>"]
    by simp
qed


end
