(* ===== verification/DoubleArrayTrie.thy ===== *)
theory DoubleArrayTrie
  imports Json StdMap Utf8 "HOL-Library.Monad_Syntax"
begin

text \<open>
  The reader of the binary dictionaries, \<open>core/src/DoubleArrayTrie.cpp\<close>. A dictionary file is
  mapped into memory and read in place by raw pointers, so the model keeps its bytes and makes
  every read of them explicit: a read outside the file is undefined behaviour and is the value
  \<^term>\<open>None\<close> of the option monad, in which all operations run. The object is the record
  \<open>Impl\<close>; its two mutable members \<open>available\<close> and \<open>error\<close> are threaded through the queries, which
  return the changed object, because a query that meets a malformed reference invalidates the
  dictionary.

  Offsets, lengths and counts are natural numbers: the code compares every 64-bit offset with the
  size of the file before it adds to it. The file system is not modelled; \<open>Load\<close> starts from the
  bytes of the file, or from the reason why there are none.
\<close>

section \<open>Reading bytes\<close>

definition kNone :: nat where
  "kNone = 0xffffffff"

definition kNodeSize :: nat where
  "kNodeSize = 16"

text \<open>\<open>Read(p + off, n)\<close>, little endian.\<close>

definition Read :: "string \<Rightarrow> nat \<Rightarrow> nat \<Rightarrow> nat option" where
  "Read p off n =
     (if off + n \<le> length p then Some (fold (\<lambda>i v. v OR push_bit (8 * i) (ord (p ! (off + i)))) [0..<n] 0)
      else None)"

definition byte_at :: "string \<Rightarrow> nat \<Rightarrow> nat option" where
  "byte_at p off = (if off < length p then Some (ord (p ! off)) else None)"

text \<open>A string view on \<open>n\<close> bytes of the file.\<close>

definition view :: "string \<Rightarrow> nat \<Rightarrow> nat \<Rightarrow> string option" where
  "view p off n = (if off + n \<le> length p then Some (take n (drop off p)) else None)"

definition Range :: "nat \<Rightarrow> nat \<Rightarrow> nat \<Rightarrow> bool" where
  "Range off sz tot \<longleftrightarrow> off \<le> tot \<and> sz \<le> tot - off"

section \<open>Texts\<close>

function valid_from :: "string \<Rightarrow> nat \<Rightarrow> bool" where
  "valid_from s i =
     (if i < length s then (case trie_Decode s i of None \<Rightarrow> False | Some (cp, j) \<Rightarrow> valid_from s j) else True)"
  by pat_completeness auto
termination
  by (relation "measure (\<lambda>(s, i). length s - i)") (auto dest: dictionary_decoder.decode_progress)

declare valid_from.simps [simp del]

definition IsValidUtf8 :: "string \<Rightarrow> bool" where
  "IsValidUtf8 s = valid_from s 0"

definition normalize_codepoint :: "codepoint \<Rightarrow> codepoint" where
  "normalize_codepoint cp =
     (let cp1 = (if cp \<ge> 0x30a1 \<and> cp \<le> 0x30f6 then cp - 0x60 else cp)
      in if cp1 \<ge> 0xff01 \<and> cp1 \<le> 0xff5e then cp1 - 0xfee0 else cp1)"

function normalize_from :: "string \<Rightarrow> nat \<Rightarrow> string \<Rightarrow> string" where
  "normalize_from s i out =
     (if i < length s then
        (case trie_Decode s i of
           None \<Rightarrow> []
         | Some (cp, j) \<Rightarrow> normalize_from s j (trie_Encode (normalize_codepoint cp) out))
      else out)"
  by pat_completeness auto
termination
  by (relation "measure (\<lambda>(s, i, out). length s - i)") (auto dest: dictionary_decoder.decode_progress)

declare normalize_from.simps [simp del]

definition NormalizeReading :: "string \<Rightarrow> string" where
  "NormalizeReading s = normalize_from s 0 []"

section \<open>The object\<close>

record Section =
  sec_offset :: nat
  sec_size :: nat

record Impl =
  data :: string
  available :: bool
  error :: string
  layer :: nat
  entries :: nat
  keys :: nat
  pos_count :: nat
  trie :: Section
  key_section :: Section
  refs :: Section
  records :: Section
  strings :: Section
  meta :: Section
  surface_index :: Section
  has_surface_index :: bool

definition no_section :: Section where
  "no_section = \<lparr>sec_offset = 0, sec_size = 0\<rparr>"

text \<open>A new object over the bytes of a file.\<close>

definition fresh :: "string \<Rightarrow> Impl" where
  "fresh bytes =
     \<lparr>data = bytes, available = False, error = ''not loaded'', layer = 0, entries = 0, keys = 0, pos_count = 0,
      trie = no_section, key_section = no_section, refs = no_section, records = no_section,
      strings = no_section, meta = no_section, surface_index = no_section, has_surface_index = False\<rparr>"

definition Fail :: "string \<Rightarrow> Impl \<Rightarrow> Impl" where
  "Fail reason d = d\<lparr>available := False, error := reason\<rparr>"

definition U32 :: "Impl \<Rightarrow> nat \<Rightarrow> nat option" where
  "U32 d off = Read (data d) off 4"

definition Node :: "Impl \<Rightarrow> nat \<Rightarrow> nat \<Rightarrow> nat option" where
  "Node d node field = U32 d (sec_offset (trie d) + node * kNodeSize + field)"

section \<open>The structural check\<close>

text \<open>The bytes \<open>AZDIC1\<close> and two zeros.\<close>

definition magic :: string where
  "magic = ''AZDIC1'' @ [byte 0, byte 0]"

definition header_ok :: "string \<Rightarrow> bool option" where
  "header_ok p =
     (if length p < 64 then Some False
      else do {
        version \<leftarrow> Read p 8 2;
        header_size \<leftarrow> Read p 10 2;
        flags \<leftarrow> Read p 12 4;
        Some (take 8 p = magic \<and> version = 1 \<and> header_size = 64 \<and> flags AND 0xfffffffe = 0) })"

text \<open>The loop over the section table: the sections by name and in the order of the table.\<close>

fun section_table :: "Impl \<Rightarrow> nat \<Rightarrow> nat list \<Rightarrow> (string, Section) map \<Rightarrow> Section list \<Rightarrow>
    (string + (string, Section) map \<times> Section list) option" where
  "section_table d count [] sections ranges = Some (Inr (sections, ranges))"
| "section_table d count (i # js) sections ranges =
     do {
       let pos = 64 + i * 24;
       off \<leftarrow> Read (data d) (pos + 8) 8;
       len \<leftarrow> Read (data d) (pos + 16) 8;
       reserved \<leftarrow> U32 d (pos + 4);
       if reserved \<noteq> 0 \<or> off mod 8 \<noteq> 0 \<or> off < 64 + count * 24 \<or> \<not> Range off len (length (data d))
       then Some (Inl ''invalid section range'')
       else do {
         name \<leftarrow> view (data d) pos 4;
         let sec = \<lparr>sec_offset = off, sec_size = len\<rparr>;
         if map_of sections name \<noteq> None then Some (Inl ''duplicate section'')
         else section_table d count js (map_emplace name sec sections) (ranges @ [sec]) } }"

fun overlapping :: "Section list \<Rightarrow> bool" where
  "overlapping (a # b # ss) \<longleftrightarrow> sec_size a > sec_offset b - sec_offset a \<or> overlapping (b # ss)"
| "overlapping _ \<longleftrightarrow> False"

definition section_names :: "string list" where
  "section_names = [''TRIE'', ''KEYS'', ''EIDX'', ''ENTS'', ''STRS'', ''META'']"

definition section_at :: "(string, Section) map \<Rightarrow> string \<Rightarrow> Section" where
  "section_at sections name = (case map_of sections name of Some s \<Rightarrow> s | None \<Rightarrow> no_section)"

definition set_sections :: "(string, Section) map \<Rightarrow> Impl \<Rightarrow> Impl" where
  "set_sections sections d =
     d\<lparr>trie := section_at sections ''TRIE'', key_section := section_at sections ''KEYS'',
       refs := section_at sections ''EIDX'', records := section_at sections ''ENTS'',
       strings := section_at sections ''STRS'', meta := section_at sections ''META'',
       has_surface_index := (map_of sections ''SIDX'' \<noteq> None),
       surface_index := (if map_of sections ''SIDX'' \<noteq> None then section_at sections ''SIDX'' else surface_index d)\<rparr>"

definition sizes_ok :: "Impl \<Rightarrow> bool" where
  "sizes_ok d \<longleftrightarrow>
     \<not> (sec_size (trie d) < 16 \<or> sec_size (trie d) mod 16 \<noteq> 0 \<or> sec_size (trie d) div 16 > 0xffffffff \<or>
        sec_size (key_section d) \<noteq> keys d * 8 \<or> sec_size (refs d) mod 8 \<noteq> 0 \<or>
        sec_size (records d) \<noteq> entries d * 32 \<or> sec_size (meta d) > 1024 * 1024 \<or>
        (has_surface_index d \<and> sec_size (surface_index d) \<noteq> entries d * 4))"

fun IsString :: "json \<Rightarrow> bool" where
  "IsString (JString s) \<longleftrightarrow> True"
| "IsString _ \<longleftrightarrow> False"

text \<open>The second half, from the metadata on.\<close>

definition check_contents :: "Impl \<Rightarrow> (bool \<times> Impl) option" where
  "check_contents d =
     do {
       metadata \<leftarrow> view (data d) (sec_offset (meta d)) (sec_size (meta d));
       if \<not> IsValidUtf8 metadata then Some (False, Fail ''invalid metadata encoding'' d)
       else case Option.bind (Parse metadata) (\<lambda>v. GetArray v ''pos_table'') of
          None \<Rightarrow> Some (False, Fail ''invalid pos table'' d)
        | Some table \<Rightarrow>
            if table = [] \<or> length table > 65536 then Some (False, Fail ''invalid pos table'' d)
            else if \<not> list_all IsString table then Some (False, Fail ''invalid pos value'' d)
            else do {
              let d1 = d\<lparr>pos_count := length table\<rparr>;
              parent \<leftarrow> Node d1 0 4;
              key_id \<leftarrow> Node d1 0 8;
              depth \<leftarrow> Node d1 0 12;
              if parent \<noteq> 0 \<or> key_id \<noteq> kNone \<or> depth \<noteq> 0 then Some (False, Fail ''invalid root'' d1)
              else Some (True, d1\<lparr>available := True, error := []\<rparr>) } }"

definition Structure :: "Impl \<Rightarrow> (bool \<times> Impl) option" where
  "Structure d =
     do {
       ok \<leftarrow> header_ok (data d);
       if \<not> ok then Some (False, Fail ''invalid header'' d)
       else if \<exists>i \<in> set [40..<64]. ord (data d ! i) \<noteq> 0 then Some (False, Fail ''reserved header bytes'' d)
       else do {
         l \<leftarrow> U32 d 16;
         e \<leftarrow> U32 d 20;
         k \<leftarrow> U32 d 24;
         let d1 = d\<lparr>layer := l, entries := e, keys := k\<rparr>;
         if l > 4 then Some (False, Fail ''non-static layer'' d1)
         else do {
           count \<leftarrow> U32 d1 28;
           if count < 6 \<or> count > 64 \<or> \<not> Range 64 (count * 24) (length (data d1))
           then Some (False, Fail ''invalid section table'' d1)
           else do {
             r \<leftarrow> section_table d1 count [0..<count] [] [];
             case r of
               Inl reason \<Rightarrow> Some (False, Fail reason d1)
             | Inr (sections, ranges) \<Rightarrow>
                 if overlapping (sort_key sec_offset ranges) then Some (False, Fail ''overlapping sections'' d1)
                 else if \<exists>name \<in> set section_names. map_of sections name = None
                 then Some (False, Fail ''missing section'' d1)
                 else let d2 = set_sections sections d1 in
                   if \<not> sizes_ok d2 then Some (False, Fail ''invalid section size'' d2)
                   else check_contents d2 } } } }"

text \<open>
  \<open>Load\<close> without verification: \<open>Map\<close> gives the bytes of the file or the reason for its failure.
\<close>

definition Load :: "string + string \<Rightarrow> (bool \<times> Impl) option" where
  "Load mapped = (case mapped of Inl reason \<Rightarrow> Some (False, Fail reason (fresh [])) | Inr bytes \<Rightarrow> Structure (fresh bytes))"

definition Metadata :: "Impl \<Rightarrow> string option" where
  "Metadata d = (if \<not> available d then Some [] else view (data d) (sec_offset (meta d)) (sec_size (meta d)))"

section \<open>Nodes and records\<close>

record PrefixMatch =
  key_length :: nat
  key_id :: nat
  entry_ref_off :: nat
  entry_count :: nat

datatype MatchKind = Exact | Alias | LongVowelRelaxed

record StaticDictionaryEntry =
  entry_surface :: string
  entry_reading :: string
  pos_id :: nat
  category_mask :: nat
  cost :: int
  frequency :: double
  source :: nat
  entry_kind :: MatchKind

definition node_count :: "Impl \<Rightarrow> nat" where
  "node_count d = sec_size (trie d) div 16"

definition Step :: "Impl \<Rightarrow> nat \<Rightarrow> nat \<Rightarrow> (nat \<times> Impl) option" where
  "Step d st b =
     do {
       base \<leftarrow> Node d st 0;
       let nxt = base + b;
       if nxt \<ge> node_count d then Some (kNone, d)
       else do {
         parent \<leftarrow> Node d nxt 4;
         if parent \<noteq> st then Some (kNone, d)
         else do {
           depth \<leftarrow> Node d st 12;
           child_depth \<leftarrow> Node d nxt 12;
           if depth = 0xffffffff \<or> child_depth \<noteq> depth + 1
           then Some (kNone, Fail ''invalid trie depth'' d)
           else Some (nxt, d) } } }"

text \<open>\<open>Match\<close> writes its result only when it returns true, so the result is an option.\<close>

definition Match :: "Impl \<Rightarrow> nat \<Rightarrow> (PrefixMatch option \<times> Impl) option" where
  "Match d node =
     do {
       key \<leftarrow> Node d node 8;
       if key = kNone then Some (None, d)
       else if key \<ge> keys d then Some (None, Fail ''invalid key id'' d)
       else do {
         let pos = sec_offset (key_section d) + key * 8;
         off \<leftarrow> U32 d pos;
         count \<leftarrow> U32 d (pos + 4);
         if count = 0 \<or> \<not> Range off count (sec_size (refs d) div 8)
         then Some (None, Fail ''invalid entry range'' d)
         else do {
           depth \<leftarrow> Node d node 12;
           Some (Some \<lparr>key_length = depth, key_id = key, entry_ref_off = off, entry_count = count\<rparr>, d) } } }"

definition Surface :: "Impl \<Rightarrow> nat \<Rightarrow> (string option \<times> Impl) option" where
  "Surface d index =
     do {
       let pos = sec_offset (records d) + index * 32;
       off \<leftarrow> U32 d pos;
       len \<leftarrow> U32 d (pos + 4);
       if len = 0 \<or> \<not> Range off len (sec_size (strings d)) then Some (None, Fail ''invalid string range'' d)
       else do {
         s \<leftarrow> view (data d) (sec_offset (strings d) + off) len;
         Some (Some s, d) } }"

definition SurfaceIndexAt :: "Impl \<Rightarrow> nat \<Rightarrow> ((nat \<times> string) option \<times> Impl) option" where
  "SurfaceIndexAt d position =
     do {
       index \<leftarrow> U32 d (sec_offset (surface_index d) + position * 4);
       if index \<ge> entries d then Some (None, Fail ''invalid surface index'' d)
       else do {
         (s, d1) \<leftarrow> Surface d index;
         Some (map_option (Pair index) s, d1) } }"

text \<open>The lambda \<open>string_at\<close> of \<open>Record\<close>; \<open>pos\<close> is the position of the record.\<close>

definition string_at :: "Impl \<Rightarrow> nat \<Rightarrow> nat \<Rightarrow> (string option \<times> Impl) option" where
  "string_at d pos field =
     do {
       off \<leftarrow> U32 d (pos + field);
       len \<leftarrow> U32 d (pos + field + 4);
       if len = 0 \<or> \<not> Range off len (sec_size (strings d)) then Some (None, Fail ''invalid string range'' d)
       else do {
         s \<leftarrow> view (data d) (sec_offset (strings d) + off) len;
         if \<not> IsValidUtf8 s then Some (None, Fail ''invalid entry encoding'' d) else Some (Some s, d) } }"

text \<open>\<open>static_cast<double>(v) / 65535.0\<close>: the nearest double; both operands are exact.\<close>

definition double_ratio :: "nat \<Rightarrow> nat \<Rightarrow> double" where
  "double_ratio v w = (case round_magnitude False (of_nat v / of_nat w) of None \<Rightarrow> Infinite False | Some q \<Rightarrow> q)"

definition int16_of :: "nat \<Rightarrow> int" where
  "int16_of v = (if v \<ge> 32768 then int v - 65536 else int v)"

definition record_fields :: "Impl \<Rightarrow> nat \<Rightarrow> string \<Rightarrow> string \<Rightarrow> StaticDictionaryEntry option" where
  "record_fields d pos surf rd =
     do {
       p \<leftarrow> Read (data d) (pos + 16) 2;
       mask \<leftarrow> Read (data d) (pos + 18) 2;
       c \<leftarrow> Read (data d) (pos + 20) 2;
       f \<leftarrow> Read (data d) (pos + 22) 2;
       src \<leftarrow> byte_at (data d) (pos + 24);
       Some \<lparr>entry_surface = surf, entry_reading = rd, pos_id = p, category_mask = mask, cost = int16_of c,
             frequency = double_ratio f 65535, source = src, entry_kind = Exact\<rparr> }"

definition checked_fields :: "Impl \<Rightarrow> nat \<Rightarrow> string \<Rightarrow> string \<Rightarrow> (StaticDictionaryEntry option \<times> Impl) option" where
  "checked_fields d pos surf rd =
     do {
       e \<leftarrow> record_fields d pos surf rd;
       if pos_id e \<ge> pos_count d \<or> source e \<noteq> layer d \<or> category_mask e AND 0xfffffc00 \<noteq> 0
       then Some (None, Fail ''invalid entry metadata'' d)
       else do {
         reserved \<leftarrow> view (data d) (pos + 26) 6;
         if \<exists>b \<in> set reserved. ord b \<noteq> 0 then Some (None, Fail ''reserved entry bytes'' d)
         else Some (Some e, d) } }"

text \<open>The entry has the default kind; the callers set it.\<close>

definition Record :: "Impl \<Rightarrow> nat \<Rightarrow> (StaticDictionaryEntry option \<times> Impl) option" where
  "Record d index =
     (if index \<ge> entries d then Some (None, Fail ''invalid entry index'' d)
      else do {
        let pos = sec_offset (records d) + index * 32;
        (surf, d1) \<leftarrow> string_at d pos 0;
        case surf of
          None \<Rightarrow> Some (None, d1)
        | Some surf \<Rightarrow> do {
            (rd, d2) \<leftarrow> string_at d1 pos 8;
            case rd of None \<Rightarrow> Some (None, d2) | Some rd \<Rightarrow> checked_fields d2 pos surf rd } })"

section \<open>Queries by key\<close>

fun walk :: "Impl \<Rightarrow> nat \<Rightarrow> string \<Rightarrow> (nat \<times> Impl) option" where
  "walk d st [] = Some (st, d)"
| "walk d st (c # cs) =
     do {
       (nxt, d1) \<leftarrow> Step d st (ord c);
       if nxt = kNone then Some (kNone, d1) else walk d1 nxt cs }"

definition ExactMatch :: "Impl \<Rightarrow> string \<Rightarrow> (PrefixMatch option \<times> Impl) option" where
  "ExactMatch d key =
     (if \<not> available d \<or> key = [] \<or> \<not> IsValidUtf8 key then Some (None, d)
      else do {
        (st, d1) \<leftarrow> walk d 0 key;
        if st = kNone then Some (None, d1) else Match d1 st })"

text \<open>The loop of \<open>CommonPrefixSearch\<close>: the last argument is the part of the key that remains.\<close>

fun prefix_loop :: "string \<Rightarrow> nat \<Rightarrow> Impl \<Rightarrow> nat \<Rightarrow> nat \<Rightarrow> PrefixMatch list \<Rightarrow> string \<Rightarrow>
    (PrefixMatch list \<times> Impl) option" where
  "prefix_loop key maximum d st consumed out [] = Some (out, d)"
| "prefix_loop key maximum d st consumed out (c # cs) =
     do {
       let consumed1 = consumed + 1;
       (nxt, d1) \<leftarrow> Step d st (ord c);
       if nxt = kNone then Some (out, d1)
       else do {
         (m, d2) \<leftarrow> Match d1 nxt;
         case m of
           None \<Rightarrow> prefix_loop key maximum d2 nxt consumed1 out cs
         | Some m \<Rightarrow>
             if consumed1 < length key \<and> ord (key ! consumed1) AND 0xc0 = 0x80
             then Some (out, Fail ''terminal inside UTF-8 character'' d2)
             else if maximum \<noteq> 0 \<and> length (out @ [m]) = maximum then Some (out @ [m], d2)
             else prefix_loop key maximum d2 nxt consumed1 (out @ [m]) cs } }"

definition CommonPrefixSearch :: "Impl \<Rightarrow> string \<Rightarrow> nat \<Rightarrow> (PrefixMatch list \<times> Impl) option" where
  "CommonPrefixSearch d key maximum =
     (if \<not> available d \<or> key = [] \<or> \<not> IsValidUtf8 key then Some ([], d)
      else do {
        (out, d1) \<leftarrow> prefix_loop key maximum d 0 0 [] key;
        Some (if available d1 then out else [], d1) })"

section \<open>Predictive search\<close>

record Visit =
  node :: nat
  remaining :: nat
  low :: nat
  high :: nat

definition Advance :: "nat \<Rightarrow> Visit \<Rightarrow> bool \<times> Visit" where
  "Advance b v =
     (if remaining v \<noteq> 0 then
        (if b < low v \<or> b > high v then (False, v)
         else (True, v\<lparr>remaining := remaining v - 1, low := 0x80, high := 0xbf\<rparr>))
      else if b < 0x80 then (b \<noteq> 0, v)
      else if b \<ge> 0xc2 \<and> b \<le> 0xdf then (True, v\<lparr>remaining := 1\<rparr>)
      else if b \<ge> 0xe0 \<and> b \<le> 0xef then
        (True, v\<lparr>remaining := 2, low := (if b = 0xe0 then 0xa0 else low v), high := (if b = 0xed then 0x9f else high v)\<rparr>)
      else if b \<ge> 0xf0 \<and> b \<le> 0xf4 then
        (True, v\<lparr>remaining := 3, low := (if b = 0xf0 then 0x90 else low v), high := (if b = 0xf4 then 0x8f else high v)\<rparr>)
      else (False, v))"

fun match_level :: "Impl \<Rightarrow> Visit list \<Rightarrow> PrefixMatch list \<Rightarrow> (PrefixMatch list \<times> Impl) option" where
  "match_level d [] matches = Some (matches, d)"
| "match_level d (v # vs) matches =
     do {
       (m, d1) \<leftarrow> Match d (node v);
       case m of
         None \<Rightarrow> match_level d1 vs matches
       | Some m \<Rightarrow>
           let d2 = (if remaining v \<noteq> 0 then Fail ''terminal inside UTF-8 character'' d1 else d1);
               d3 = (if matches \<noteq> [] \<and> key_id (last matches) \<ge> key_id m then Fail ''invalid key order'' d2 else d2)
           in match_level d3 vs (matches @ [m]) }"

text \<open>The results of a level; the flag says that the maximum was reached.\<close>

fun emit :: "nat \<Rightarrow> PrefixMatch list \<Rightarrow> PrefixMatch list \<Rightarrow> PrefixMatch list \<times> bool" where
  "emit maximum out [] = (out, False)"
| "emit maximum out (m # ms) =
     (if maximum \<noteq> 0 \<and> length (out @ [m]) = maximum then (out @ [m], True) else emit maximum (out @ [m]) ms)"

fun expand_visit :: "Impl \<Rightarrow> Visit \<Rightarrow> nat list \<Rightarrow> Visit list \<Rightarrow> (Visit list \<times> Impl) option" where
  "expand_visit d v [] nexts = Some (nexts, d)"
| "expand_visit d v (b # bs) nexts =
     do {
       (child, d1) \<leftarrow> Step d (node v) b;
       if child = kNone then expand_visit d1 v bs nexts
       else case Advance b (v\<lparr>node := child\<rparr>) of
         (ok, v1) \<Rightarrow>
           expand_visit (if ok then d1 else Fail ''invalid trie key encoding'' d1) v bs (nexts @ [v1]) }"

fun expand_level :: "Impl \<Rightarrow> Visit list \<Rightarrow> Visit list \<Rightarrow> (Visit list \<times> Impl) option" where
  "expand_level d [] nexts = Some (nexts, d)"
| "expand_level d (v # vs) nexts =
     do {
       (nexts1, d1) \<leftarrow> expand_visit d v [1..<256] nexts;
       expand_level d1 vs nexts1 }"

text \<open>
  The search goes down one level of the trie at a time. It ends because the depth that the file
  records for a child is one more than that of its parent: the nodes of the next level are deeper.
\<close>

definition depth_of :: "Impl \<Rightarrow> nat \<Rightarrow> nat" where
  "depth_of d n = (case Node d n 12 of Some x \<Rightarrow> x | None \<Rightarrow> 0)"

text \<open>A query changes nothing of the object but that it may invalidate it.\<close>

definition invalidates :: "Impl \<Rightarrow> Impl \<Rightarrow> bool" where
  "invalidates d d' \<longleftrightarrow> d' = d \<or> (\<exists>reason. d' = Fail reason d)"

lemma Fail_Fail [simp]: "Fail r (Fail r' d) = Fail r d"
  by (simp add: Fail_def)

lemma Fail_sel [simp]:
  "data (Fail r d) = data d" "available (Fail r d) = False" "error (Fail r d) = r" "layer (Fail r d) = layer d"
  "entries (Fail r d) = entries d" "keys (Fail r d) = keys d" "pos_count (Fail r d) = pos_count d"
  "trie (Fail r d) = trie d" "key_section (Fail r d) = key_section d" "refs (Fail r d) = refs d"
  "records (Fail r d) = records d" "strings (Fail r d) = strings d" "meta (Fail r d) = meta d"
  "surface_index (Fail r d) = surface_index d" "has_surface_index (Fail r d) = has_surface_index d"
  by (simp_all add: Fail_def)

lemma U32_Fail [simp]: "U32 (Fail r d) off = U32 d off"
  by (simp add: U32_def)

lemma Node_Fail [simp]: "Node (Fail r d) n f = Node d n f"
  by (simp add: Node_def)

lemma depth_of_Fail [simp]: "depth_of (Fail r d) n = depth_of d n"
  by (simp add: depth_of_def)

lemma invalidates_refl [simp, intro]: "invalidates d d" "invalidates d (Fail r d)"
  by (auto simp: invalidates_def)

lemma invalidates_trans [trans]: "invalidates d d' \<Longrightarrow> invalidates d' d'' \<Longrightarrow> invalidates d d''"
  by (auto simp: invalidates_def)

lemma invalidates_depth_of: "invalidates d d' \<Longrightarrow> depth_of d' n = depth_of d n"
  by (auto simp: invalidates_def)

lemma fold_bytes_less: "fold (\<lambda>i v. v OR push_bit (8 * i) (ord (f i))) [0..<n] (0::nat) < 2 ^ (8 * n)"
proof (induction n)
  case (Suc n)
  let ?v = "fold (\<lambda>i v. v OR push_bit (8 * i) (ord (f i))) [0..<n] (0::nat)"
  have b: "ord (f n) < 256" by simp
  have "?v OR push_bit (8 * n) (ord (f n)) = ord (f n) * 2 ^ (8 * n) + ?v"
    using shift_or [OF Suc.IH] by (simp add: or.commute)
  also have "\<dots> < ord (f n) * 2 ^ (8 * n) + 2 ^ (8 * n)" using Suc.IH by simp
  also have "\<dots> = (ord (f n) + 1) * 2 ^ (8 * n)" by simp
  also have "\<dots> \<le> 256 * 2 ^ (8 * n)" using b by (intro mult_right_mono) linarith+
  finally show ?case by (simp add: power_add)
qed simp

lemma Read_less: "Read p off n = Some v \<Longrightarrow> v < 2 ^ (8 * n)"
  using fold_bytes_less [of "\<lambda>i. p ! (off + i)" n] by (auto simp: Read_def split: if_splits)

lemma U32_less: "U32 d off = Some v \<Longrightarrow> v < 0x100000000"
  by (auto simp: U32_def dest: Read_less)

lemma Node_less: "Node d n f = Some v \<Longrightarrow> v < 0x100000000"
  by (auto simp: Node_def dest: U32_less)

lemma depth_of_less [simp]: "depth_of d n < 0x100000000"
  by (auto simp: depth_of_def dest: Node_less split: option.split)

lemma Step_invalidates: "Step d st b = Some (n, d') \<Longrightarrow> invalidates d d'"
  by (auto simp: Step_def bind_eq_Some_conv Let_def split: if_splits)

lemma Step_child:
  "Step d st b = Some (n, d') \<Longrightarrow> n \<noteq> kNone \<Longrightarrow>
     d' = d \<and> n < node_count d \<and> depth_of d n = Suc (depth_of d st) \<and> depth_of d st \<noteq> 0xffffffff"
  by (auto simp: Step_def depth_of_def bind_eq_Some_conv Let_def split: if_splits)

lemma node_Advance [simp]: "Advance b v = (ok, v') \<Longrightarrow> node v' = node v"
  by (auto simp: Advance_def split: if_splits)

definition below :: "Impl \<Rightarrow> Visit list \<Rightarrow> Visit \<Rightarrow> bool" where
  "below d vs v \<longleftrightarrow> (\<exists>u \<in> set vs. depth_of d (node v) = Suc (depth_of d (node u)) \<and> depth_of d (node u) \<noteq> 0xffffffff)"

lemma expand_visit_below:
  "expand_visit d v bs nexts = Some (nexts', d') \<Longrightarrow>
     invalidates d d' \<and> (\<forall>w \<in> set nexts'. w \<in> set nexts \<or> below d [v] w)"
proof (induction bs arbitrary: d nexts)
  case (Cons b bs)
  then obtain child d1 where st: "Step d (node v) b = Some (child, d1)"
    by (auto simp: bind_eq_Some_conv)
  show ?case
  proof (cases "child = kNone")
    case True
    with Cons.prems st have "expand_visit d1 v bs nexts = Some (nexts', d')" by simp
    from Cons.IH [OF this] show ?thesis
      using Step_invalidates [OF st] invalidates_trans by (auto simp: below_def invalidates_depth_of)
  next
    case False
    obtain ok v1 where adv: "Advance b (v\<lparr>node := child\<rparr>) = (ok, v1)" by fastforce
    note child = Step_child [OF st False]
    have v1: "below d [v] v1" using child node_Advance [OF adv] by (simp add: below_def)
    define d2 where "d2 = (if ok then d1 else Fail ''invalid trie key encoding'' d1)"
    have inv2: "invalidates d d2" using child by (simp add: d2_def)
    from Cons.prems st False adv child have "expand_visit d2 v bs (nexts @ [v1]) = Some (nexts', d')"
      by (cases ok) (simp_all add: d2_def)
    from Cons.IH [OF this] show ?thesis
      using v1 inv2 invalidates_trans by (auto simp: below_def invalidates_depth_of)
  qed
qed simp

lemma expand_level_below:
  "expand_level d vs nexts = Some (nexts', d') \<Longrightarrow>
     invalidates d d' \<and> (\<forall>w \<in> set nexts'. w \<in> set nexts \<or> below d vs w)"
proof (induction vs arbitrary: d nexts)
  case (Cons v vs)
  then obtain nexts1 d1 where 1: "expand_visit d v [1..<256] nexts = Some (nexts1, d1)"
    and 2: "expand_level d1 vs nexts1 = Some (nexts', d')"
    by (auto simp: bind_eq_Some_conv simp del: upt_rec_numeral)
  from expand_visit_below [OF 1] Cons.IH [OF 2] show ?case
    by (auto simp: below_def invalidates_depth_of intro: invalidates_trans)
qed simp

lemma Match_invalidates: "Match d n = Some (m, d') \<Longrightarrow> invalidates d d'"
  by (auto simp: Match_def bind_eq_Some_conv Let_def split: if_splits)

lemma match_level_invalidates: "match_level d vs ms = Some (ms', d') \<Longrightarrow> invalidates d d'"
proof (induction vs arbitrary: d ms)
  case (Cons v vs)
  then obtain m d1 where m: "Match d (node v) = Some (m, d1)" by (auto simp: bind_eq_Some_conv)
  have "\<exists>d2 ms2. invalidates d1 d2 \<and> match_level d2 vs ms2 = Some (ms', d')"
    using Cons.prems m by (auto simp: Let_def split: option.splits if_splits)
  then show ?case using Cons.IH Match_invalidates [OF m] invalidates_trans by blast
qed simp

definition level_measure :: "Impl \<Rightarrow> Visit list \<Rightarrow> nat" where
  "level_measure d vs =
     (if vs = [] then 0 else Suc (0x100000000 - Min ((\<lambda>v. depth_of d (node v)) ` set vs)))"

lemma level_measure_decreases:
  assumes "vs \<noteq> []" "invalidates d d'" "\<forall>w \<in> set ws. below d vs w"
  shows "level_measure d' ws < level_measure d vs"
proof (cases "ws = []")
  case False
  let ?f = "\<lambda>v. depth_of d (node v)"
  have "Min (?f ` set vs) < ?f w" if "w \<in> set ws" for w
  proof -
    from that assms(3) obtain u where u: "u \<in> set vs" "?f w = Suc (?f u)" by (auto simp: below_def)
    then have "Min (?f ` set vs) \<le> ?f u" by (intro Min_le) auto
    with u(2) show ?thesis by linarith
  qed
  then have "Min (?f ` set vs) < Min (?f ` set ws)" using False by (subst Min_gr_iff) auto
  moreover have "Min (?f ` set vs) < 0x100000000" using assms(1) by (subst Min_less_iff) (auto simp: neq_Nil_conv)
  ultimately have "0x100000000 - Min (?f ` set ws) < 0x100000000 - Min (?f ` set vs)" by (rule diff_less_mono2)
  then show ?thesis using assms(1,2) False by (simp add: level_measure_def invalidates_depth_of)
qed (use assms in \<open>simp add: level_measure_def\<close>)

lemma predict_decreases:
  assumes "level \<noteq> []" "match_level d level [] = Some (matches, d1)" "expand_level d1 level [] = Some (nexts, d2)"
  shows "level_measure d2 nexts < level_measure d level"
proof -
  have 1: "invalidates d d1" using assms(2) by (rule match_level_invalidates)
  have 2: "invalidates d1 d2" "\<forall>w \<in> set nexts. below d1 level w" using expand_level_below [OF assms(3)] by auto
  then have "invalidates d d2" "\<forall>w \<in> set nexts. below d level w"
    using 1 by (auto simp: below_def invalidates_depth_of intro: invalidates_trans)
  with assms(1) show ?thesis by (intro level_measure_decreases)
qed

function predict_loop :: "nat \<Rightarrow> Impl \<Rightarrow> Visit list \<Rightarrow> PrefixMatch list \<Rightarrow> (PrefixMatch list \<times> Impl) option" where
  "predict_loop maximum d level out =
     (if level = [] \<or> \<not> available d then Some (if available d then out else [], d)
      else case match_level d level [] of
        None \<Rightarrow> None
      | Some (matches, d1) \<Rightarrow>
          if \<not> available d1 then Some ([], d1)
          else case emit maximum out matches of
            (out1, full) \<Rightarrow>
              if full then Some (out1, d1)
              else case expand_level d1 level [] of
                None \<Rightarrow> None
              | Some (nexts, d2) \<Rightarrow> predict_loop maximum d2 nexts out1)"
  by pat_completeness auto
termination
  by (relation "measure (\<lambda>(maximum, d, level, out). level_measure d level)") (auto intro: predict_decreases)

declare predict_loop.simps [simp del]

definition PredictiveSearch :: "Impl \<Rightarrow> string \<Rightarrow> nat \<Rightarrow> (PrefixMatch list \<times> Impl) option" where
  "PredictiveSearch d key maximum =
     (if \<not> available d \<or> key = [] \<or> \<not> IsValidUtf8 key then Some ([], d)
      else do {
        (st, d1) \<leftarrow> walk d 0 key;
        if st = kNone then Some ([], d1)
        else predict_loop maximum d1 [\<lparr>node = st, remaining = 0, low = 0x80, high = 0xbf\<rparr>] [] })"

section \<open>Entries\<close>

text \<open>The loop over the references of a key, given by their positions in the file.\<close>

fun read_refs :: "Impl \<Rightarrow> nat list \<Rightarrow> StaticDictionaryEntry list \<Rightarrow> (StaticDictionaryEntry list option \<times> Impl) option" where
  "read_refs d [] out = Some (Some out, d)"
| "read_refs d (pos # ps) out =
     do {
       k \<leftarrow> byte_at (data d) (pos + 4);
       r5 \<leftarrow> byte_at (data d) (pos + 5);
       r6 \<leftarrow> byte_at (data d) (pos + 6);
       r7 \<leftarrow> byte_at (data d) (pos + 7);
       if k > 1 \<or> r5 \<noteq> 0 \<or> r6 \<noteq> 0 \<or> r7 \<noteq> 0 then Some (None, Fail ''invalid entry reference'' d)
       else do {
         index \<leftarrow> U32 d pos;
         (e, d1) \<leftarrow> Record d index;
         case e of
           None \<Rightarrow> Some (None, Fail ''invalid entry reference'' d1)
         | Some e \<Rightarrow> read_refs d1 ps (out @ [e\<lparr>entry_kind := (if k = 0 then Exact else Alias)\<rparr>]) } }"

text \<open>\<^term>\<open>None\<close> inside the result is the return value false, with the output cleared.\<close>

definition ReadEntries :: "Impl \<Rightarrow> PrefixMatch \<Rightarrow> (StaticDictionaryEntry list option \<times> Impl) option" where
  "ReadEntries d m =
     (if \<not> available d then Some (None, d)
      else if key_id m \<ge> keys d \<or> \<not> Range (entry_ref_off m) (entry_count m) (sec_size (refs d) div 8)
      then Some (None, Fail ''invalid match range'' d)
      else do {
        let key_at = sec_offset (key_section d) + key_id m * 8;
        off \<leftarrow> U32 d key_at;
        count \<leftarrow> U32 d (key_at + 4);
        if off \<noteq> entry_ref_off m \<or> count \<noteq> entry_count m
        then Some (None, Fail ''mismatched key references'' d)
        else read_refs d (map (\<lambda>i. sec_offset (refs d) + (entry_ref_off m + i) * 8) [0..<entry_count m]) [] })"

section \<open>Queries by surface\<close>

text \<open>The lambda \<open>bound\<close> of \<open>FindSurface\<close>.\<close>

function bound_loop :: "Impl \<Rightarrow> string \<Rightarrow> bool \<Rightarrow> nat \<Rightarrow> nat \<Rightarrow> (nat option \<times> Impl) option" where
  "bound_loop d surf upper first count =
     (if count = 0 then Some (Some first, d)
      else
        let step = count div 2; position = first + step in
        case SurfaceIndexAt d position of
          None \<Rightarrow> None
        | Some (None, d1) \<Rightarrow> Some (None, d1)
        | Some (Some (index, v), d1) \<Rightarrow>
            if (if upper then \<not> surf < v else v < surf)
            then bound_loop d1 surf upper (position + 1) (count - (step + 1))
            else bound_loop d1 surf upper first step)"
  by pat_completeness auto
termination
  by (relation "measure (\<lambda>(d, surf, upper, first, count). count)") auto

declare bound_loop.simps [simp del]

fun collect_surface :: "Impl \<Rightarrow> string \<Rightarrow> nat option \<Rightarrow> nat list \<Rightarrow> StaticDictionaryEntry list \<Rightarrow>
    (StaticDictionaryEntry list option \<times> Impl) option" where
  "collect_surface d surf previous [] out = Some (Some out, d)"
| "collect_surface d surf previous (position # ps) out =
     do {
       (r, d1) \<leftarrow> SurfaceIndexAt d position;
       case r of
         None \<Rightarrow> Some (None, d1)
       | Some (index, v) \<Rightarrow>
           if v \<noteq> surf then Some (None, Fail ''surface index mismatch'' d1)
           else if (case previous of None \<Rightarrow> False | Some p \<Rightarrow> index \<le> p)
           then Some (None, Fail ''invalid surface index order'' d1)
           else do {
             (e, d2) \<leftarrow> Record d1 index;
             case e of
               None \<Rightarrow> Some (None, d2)
             | Some e \<Rightarrow> collect_surface d2 surf (Some index) ps (out @ [e\<lparr>entry_kind := Exact\<rparr>]) } }"

definition FindSurface :: "Impl \<Rightarrow> string \<Rightarrow> (StaticDictionaryEntry list option \<times> Impl) option" where
  "FindSurface d surf =
     do {
       (lower, d1) \<leftarrow> bound_loop d surf False 0 (entries d);
       case lower of
         None \<Rightarrow> Some (None, d1)
       | Some lower \<Rightarrow> do {
           (upper, d2) \<leftarrow> bound_loop d1 surf True 0 (entries d1);
           case upper of
             None \<Rightarrow> Some (None, d2)
           | Some upper \<Rightarrow>
               if upper < lower then Some (None, Fail ''invalid surface index order'' d2)
               else collect_surface d2 surf None [lower..<upper] [] } }"

text \<open>The scan of all entries; a failure clears the output.\<close>

fun scan_surface :: "Impl \<Rightarrow> string \<Rightarrow> nat list \<Rightarrow> StaticDictionaryEntry list \<Rightarrow>
    (StaticDictionaryEntry list \<times> Impl) option" where
  "scan_surface d surf [] out = Some (out, d)"
| "scan_surface d surf (i # js) out =
     do {
       let pos = sec_offset (records d) + i * 32;
       off \<leftarrow> U32 d pos;
       len \<leftarrow> U32 d (pos + 4);
       if len = 0 \<or> \<not> Range off len (sec_size (strings d)) then Some ([], Fail ''invalid string range'' d)
       else do {
         v \<leftarrow> view (data d) (sec_offset (strings d) + off) len;
         if len \<noteq> length surf \<or> v \<noteq> surf then scan_surface d surf js out
         else do {
           (e, d1) \<leftarrow> Record d i;
           case e of
             None \<Rightarrow> Some ([], d1)
           | Some e \<Rightarrow> scan_surface d1 surf js (out @ [e\<lparr>entry_kind := Exact\<rparr>]) } } }"

definition LookupSurface :: "Impl \<Rightarrow> string \<Rightarrow> (StaticDictionaryEntry list \<times> Impl) option" where
  "LookupSurface d surf =
     (if \<not> available d \<or> surf = [] \<or> \<not> IsValidUtf8 surf then Some ([], d)
      else if has_surface_index d then do {
        (r, d1) \<leftarrow> FindSurface d surf;
        Some (case r of None \<Rightarrow> [] | Some out \<Rightarrow> out, d1) }
      else scan_surface d surf [0..<entries d] [])"

end
