(* ===== verification/TrieSafety.thy ===== *)
theory TrieSafety
  imports DoubleArrayTrie
begin

text \<open>
  The reader of the dictionaries never reads outside the file. The bytes are arbitrary: the
  structural check itself reads only what is there, and what it accepts has a layout in which
  every later read of every query stays inside the file, because each reference is checked when it
  is followed. Queries may invalidate the dictionary, and the statements hold for the object they
  leave behind, so they chain over any sequence of queries.
\<close>

section \<open>Layouts that fit the file\<close>

definition inside :: "Impl \<Rightarrow> Section \<Rightarrow> bool" where
  "inside d s \<longleftrightarrow> sec_offset s + sec_size s \<le> length (data d)"

definition layout_ok :: "Impl \<Rightarrow> bool" where
  "layout_ok d \<longleftrightarrow>
     64 \<le> length (data d) \<and> inside d (trie d) \<and> inside d (key_section d) \<and> inside d (refs d) \<and> inside d (records d) \<and>
     inside d (strings d) \<and> inside d (meta d) \<and> (has_surface_index d \<longrightarrow> inside d (surface_index d)) \<and> sizes_ok d"

lemma inside_Fail [simp]: "inside (Fail r d) s = inside d s"
  by (simp add: inside_def)

lemma layout_ok_Fail [simp]: "layout_ok (Fail r d) = layout_ok d"
  by (simp add: layout_ok_def sizes_ok_def)

lemma node_count_Fail [simp]: "node_count (Fail r d) = node_count d"
  by (simp add: node_count_def)

lemma invalidates_same:
  assumes "invalidates d d'"
  shows "layout_ok d' = layout_ok d" "node_count d' = node_count d" "entries d' = entries d" "keys d' = keys d"
    "data d' = data d" "records d' = records d" "refs d' = refs d" "strings d' = strings d"
    "key_section d' = key_section d" "has_surface_index d' = has_surface_index d" "available d' \<Longrightarrow> d' = d"
  using assms by (auto simp: invalidates_def)

lemma U32_Some: "off + 4 \<le> length (data d) \<Longrightarrow> \<exists>v. U32 d off = Some v"
  by (simp add: U32_def Read_def)

lemma byte_at_Some: "off < length p \<Longrightarrow> \<exists>v. byte_at p off = Some v"
  by (simp add: byte_at_def)

lemma Node_Some:
  assumes "layout_ok d" "n < node_count d" "f \<le> 12"
  shows "\<exists>v. Node d n f = Some v"
proof -
  have "Suc n \<le> sec_size (trie d) div 16" using assms(2) by (simp add: node_count_def)
  then have "Suc n * 16 \<le> sec_size (trie d)" by (metis div_times_less_eq_dividend dual_order.trans mult_le_mono1)
  moreover have "sec_offset (trie d) + sec_size (trie d) \<le> length (data d)"
    using assms(1) by (simp add: layout_ok_def inside_def)
  ultimately show ?thesis unfolding Node_def kNodeSize_def using assms(3) by (intro U32_Some) simp
qed

lemma key_Some:
  assumes "layout_ok d" "k < keys d"
  shows "\<exists>v. U32 d (sec_offset (key_section d) + k * 8) = Some v"
    "\<exists>v. U32 d (sec_offset (key_section d) + k * 8 + 4) = Some v"
proof -
  have "sec_offset (key_section d) + keys d * 8 \<le> length (data d)"
    using assms(1) by (auto simp: layout_ok_def inside_def sizes_ok_def)
  moreover have "Suc k * 8 \<le> keys d * 8" using assms(2) by simp
  ultimately show "\<exists>v. U32 d (sec_offset (key_section d) + k * 8) = Some v"
    "\<exists>v. U32 d (sec_offset (key_section d) + k * 8 + 4) = Some v"
    by (simp_all add: U32_Some)
qed

lemma record_inside: "layout_ok d \<Longrightarrow> i < entries d \<Longrightarrow> sec_offset (records d) + i * 32 + 32 \<le> length (data d)"
proof -
  assume "layout_ok d" "i < entries d"
  then have "sec_offset (records d) + entries d * 32 \<le> length (data d)" "Suc i * 32 \<le> entries d * 32"
    by (auto simp: layout_ok_def inside_def sizes_ok_def)
  then show ?thesis by simp
qed

lemma strings_view:
  "layout_ok d \<Longrightarrow> Range off len (sec_size (strings d)) \<Longrightarrow>
     view (data d) (sec_offset (strings d) + off) len = Some (take len (drop (sec_offset (strings d) + off) (data d)))"
  by (auto simp: layout_ok_def inside_def Range_def view_def)

section \<open>Operations that run\<close>

text \<open>
  \<open>runs d q P\<close>: the operation reads inside the file only, changes at most the validity of the
  object, and its result satisfies \<open>P\<close>.
\<close>

definition runs :: "Impl \<Rightarrow> ('a \<times> Impl) option \<Rightarrow> ('a \<Rightarrow> bool) \<Rightarrow> bool" where
  "runs d q P \<longleftrightarrow> (\<exists>r d'. q = Some (r, d') \<and> invalidates d d' \<and> P r)"

named_theorems run_rules "operations that read inside the file only"

lemma runs_return [simp]: "runs d (Some (r, d)) P = P r" "runs d (Some (r, Fail e d)) P = P r"
  by (auto simp: runs_def)

lemma runs_bind:
  assumes "runs d q P" "\<And>r d'. invalidates d d' \<Longrightarrow> P r \<Longrightarrow> runs d' (f r d') Q"
  shows "runs d (Option.bind q (\<lambda>(r, d'). f r d')) Q"
  using assms invalidates_trans by (fastforce simp: runs_def)

lemma runs_mono: "runs d q P \<Longrightarrow> (\<And>r. P r \<Longrightarrow> Q r) \<Longrightarrow> runs d q Q"
  by (auto simp: runs_def)

lemma runs_if: "(c \<Longrightarrow> runs d q P) \<Longrightarrow> (\<not> c \<Longrightarrow> runs d q' P) \<Longrightarrow> runs d (if c then q else q') P"
  by simp

lemma runs_from: "invalidates d d' \<Longrightarrow> runs d' q P \<Longrightarrow> runs d q P"
  by (auto simp: runs_def intro: invalidates_trans)

definition is_node :: "Impl \<Rightarrow> nat \<Rightarrow> bool" where
  "is_node d n \<longleftrightarrow> n \<noteq> kNone \<longrightarrow> n < node_count d"

lemma Step_runs [run_rules]:
  assumes "layout_ok d" "st < node_count d"
  shows "runs d (Step d st b) (is_node d)"
proof -
  obtain base depth where "Node d st 0 = Some base" "Node d st 12 = Some depth"
    using assms Node_Some [of d st] by fastforce
  moreover obtain parent child_depth where
    "base + b < node_count d \<Longrightarrow> Node d (base + b) 4 = Some parent \<and> Node d (base + b) 12 = Some child_depth"
    using assms Node_Some [of d "base + b"] by fastforce
  ultimately show ?thesis by (simp add: Step_def Let_def is_node_def)
qed

definition match_ok :: "Impl \<Rightarrow> PrefixMatch option \<Rightarrow> bool" where
  "match_ok d m \<longleftrightarrow> (case m of None \<Rightarrow> True | Some m \<Rightarrow> key_id m < keys d)"

lemma Match_runs [run_rules]:
  assumes "layout_ok d" "n < node_count d"
  shows "runs d (Match d n) (match_ok d)"
proof -
  obtain key depth where "Node d n 8 = Some key" "Node d n 12 = Some depth"
    using assms Node_Some [of d n] by fastforce
  moreover obtain off count where "key < keys d \<Longrightarrow>
      U32 d (sec_offset (key_section d) + key * 8) = Some off \<and> U32 d (sec_offset (key_section d) + key * 8 + 4) = Some count"
    using key_Some [OF assms(1)] by meson
  ultimately show ?thesis by (simp add: Match_def Let_def match_ok_def)
qed

lemma record_Some:
  assumes "layout_ok d" "i < entries d"
  shows "\<exists>v. U32 d (sec_offset (records d) + i * 32) = Some v"
    "f \<le> 28 \<Longrightarrow> \<exists>v. U32 d (sec_offset (records d) + i * 32 + f) = Some v"
    "f \<le> 24 \<Longrightarrow> \<exists>v. U32 d (sec_offset (records d) + i * 32 + f + 4) = Some v"
  using record_inside [OF assms] by (auto intro!: U32_Some)

lemma Surface_runs [run_rules]:
  assumes "layout_ok d" "i < entries d"
  shows "runs d (Surface d i) (\<lambda>r. True)"
proof -
  obtain off len where "U32 d (sec_offset (records d) + i * 32) = Some off" "U32 d (sec_offset (records d) + i * 32 + 4) = Some len"
    using record_Some(1,2) [OF assms] by fastforce
  then show ?thesis using strings_view [OF assms(1)] by (simp add: Surface_def Let_def)
qed

lemma SurfaceIndexAt_runs [run_rules]:
  assumes "layout_ok d" "has_surface_index d" "p < entries d"
  shows "runs d (SurfaceIndexAt d p) (\<lambda>r. case r of None \<Rightarrow> True | Some (i, s) \<Rightarrow> i < entries d)"
proof -
  have "sec_offset (surface_index d) + entries d * 4 \<le> length (data d)" "Suc p * 4 \<le> entries d * 4"
    using assms by (auto simp: layout_ok_def inside_def sizes_ok_def)
  then obtain index where i: "U32 d (sec_offset (surface_index d) + p * 4) = Some index"
    using U32_Some [of "sec_offset (surface_index d) + p * 4" d] by auto
  show ?thesis
  proof (cases "index < entries d")
    case True
    have "runs d (Option.bind (Surface d index) (\<lambda>(s, d1). Some (map_option (Pair index) s, d1)))
        (\<lambda>r. case r of None \<Rightarrow> True | Some (i, s) \<Rightarrow> i < entries d)"
      by (rule runs_bind [OF Surface_runs [OF assms(1) True]]) (auto simp: True split: option.split)
    then show ?thesis using i True by (simp add: SurfaceIndexAt_def)
  qed (simp add: SurfaceIndexAt_def i)
qed

lemma string_at_runs [run_rules]:
  assumes "layout_ok d" "i < entries d" "f \<le> 8" "pos = sec_offset (records d) + i * 32"
  shows "runs d (string_at d pos f) (\<lambda>r. True)"
proof -
  obtain off len where "U32 d (pos + f) = Some off" "U32 d (pos + f + 4) = Some len"
    using record_Some(2) [OF assms(1,2), of f] record_Some(3) [OF assms(1,2), of f] assms(3,4) by auto
  then show ?thesis using strings_view [OF assms(1)] by (simp add: string_at_def)
qed

lemma checked_fields_runs [run_rules]:
  assumes "pos + 32 \<le> length (data d)"
  shows "runs d (checked_fields d pos surf rd) (\<lambda>r. True)"
  using assms by (simp add: checked_fields_def record_fields_def Read_def byte_at_def view_def)

lemma Record_runs [run_rules]:
  assumes "layout_ok d"
  shows "runs d (Record d i) (\<lambda>r. True)"
proof (cases "i < entries d")
  case True
  let ?pos = "sec_offset (records d) + i * 32"
  have in_file: "?pos + 32 \<le> length (data d')" if "invalidates d d'" for d'
    using record_inside [OF assms True] that by (simp add: invalidates_same)
  have fields: "runs d' (case rd of None \<Rightarrow> Some (None, d') | Some rd \<Rightarrow> checked_fields d' ?pos surf rd) (\<lambda>r. True)"
    if "invalidates d d'" for d' surf rd
    using checked_fields_runs [OF in_file [OF that]] by (simp split: option.split)
  have readings: "runs d' (Option.bind (string_at d' ?pos 8)
      (\<lambda>(rd, d2). case rd of None \<Rightarrow> Some (None, d2) | Some rd \<Rightarrow> checked_fields d2 ?pos surf rd)) (\<lambda>r. True)"
    if "invalidates d d'" for d' surf
    using that assms True by (intro runs_bind [OF string_at_runs [where i = i]] fields)
      (auto simp: invalidates_same intro: invalidates_trans)
  have "runs d (Option.bind (string_at d ?pos 0) (\<lambda>(surf, d1). case surf of None \<Rightarrow> Some (None, d1)
      | Some surf \<Rightarrow> Option.bind (string_at d1 ?pos 8)
          (\<lambda>(rd, d2). case rd of None \<Rightarrow> Some (None, d2) | Some rd \<Rightarrow> checked_fields d2 ?pos surf rd))) (\<lambda>r. True)"
    by (intro runs_bind [OF string_at_runs [where i = i]]) (use assms True readings in \<open>auto split: option.split\<close>)
  then show ?thesis using True by (simp add: Record_def Let_def)
qed (simp add: Record_def)

section \<open>Queries by key\<close>

definition matches_ok :: "Impl \<Rightarrow> PrefixMatch list \<Rightarrow> bool" where
  "matches_ok d ms \<longleftrightarrow> (\<forall>m \<in> set ms. key_id m < keys d)"

lemma invalidates_results:
  assumes "invalidates d d'"
  shows "is_node d' = is_node d" "match_ok d' = match_ok d" "matches_ok d' = matches_ok d"
  using assms by (auto simp: invalidates_def is_node_def match_ok_def matches_ok_def fun_eq_iff split: option.splits)

lemma root_is_node: "layout_ok d \<Longrightarrow> 0 < node_count d"
  by (auto simp: layout_ok_def sizes_ok_def node_count_def div_greater_zero_iff)

lemma walk_runs [run_rules]:
  "layout_ok d \<Longrightarrow> st < node_count d \<Longrightarrow> runs d (walk d st cs) (is_node d)"
proof (induction cs arbitrary: d st)
  case (Cons c cs)
  have "runs d' (if n = kNone then Some (kNone, d') else walk d' n cs) (is_node d)"
    if "invalidates d d'" "is_node d n" for d' n
    using Cons.IH [of d' n] Cons.prems that
    by (cases "n = kNone") (auto simp: is_node_def [of d n] is_node_def [of d kNone] invalidates_same invalidates_results)
  then show ?case using Cons.prems by (auto intro!: runs_bind [OF Step_runs])
qed (simp add: is_node_def)

lemma ExactMatch_runs [run_rules]:
  assumes "layout_ok d"
  shows "runs d (ExactMatch d key) (match_ok d)"
proof -
  have "runs d' (if n = kNone then Some (None, d') else Match d' n) (match_ok d)"
    if "invalidates d d'" "is_node d n" for d' n
    using Match_runs [of d' n] assms that
    by (cases "n = kNone") (auto simp: match_ok_def [of d None] is_node_def invalidates_same invalidates_results)
  then show ?thesis
    using assms walk_runs [OF assms root_is_node [OF assms], of key]
    by (auto simp: ExactMatch_def match_ok_def intro!: runs_bind)
qed

lemma prefix_loop_runs [run_rules]:
  "layout_ok d \<Longrightarrow> st < node_count d \<Longrightarrow> matches_ok d out \<Longrightarrow>
     runs d (prefix_loop key maximum d st consumed out cs) (matches_ok d)"
proof (induction cs arbitrary: d st consumed out)
  case (Cons c cs)
  have loop: "runs d' (prefix_loop key maximum d' n (consumed + 1) out' cs) (matches_ok d)"
    if "invalidates d d'" "is_node d n" "n \<noteq> kNone" "matches_ok d out'" for d' n out'
    using Cons.IH [of d' n out'] Cons.prems that
    by (auto simp: is_node_def invalidates_same invalidates_results)
  have matched: "runs d' (Option.bind (Match d' n) (\<lambda>(m, d2). case m of
       None \<Rightarrow> prefix_loop key maximum d2 n (consumed + 1) out cs
     | Some m \<Rightarrow>
         if consumed + 1 < length key \<and> ord (key ! (consumed + 1)) AND 0xc0 = 0x80
         then Some (out, Fail ''terminal inside UTF-8 character'' d2)
         else if maximum \<noteq> 0 \<and> length (out @ [m]) = maximum then Some (out @ [m], d2)
         else prefix_loop key maximum d2 n (consumed + 1) (out @ [m]) cs)) (matches_ok d)"
    if "invalidates d d'" "is_node d n" "n \<noteq> kNone" for d' n
  proof (rule runs_bind [OF Match_runs])
    fix r d2 assume d2: "invalidates d' d2" and r: "match_ok d' r"
    have inv: "invalidates d d2" using that(1) d2 by (rule invalidates_trans)
    show "runs d2 (case r of
         None \<Rightarrow> prefix_loop key maximum d2 n (consumed + 1) out cs
       | Some m \<Rightarrow>
           if consumed + 1 < length key \<and> ord (key ! (consumed + 1)) AND 0xc0 = 0x80
           then Some (out, Fail ''terminal inside UTF-8 character'' d2)
           else if maximum \<noteq> 0 \<and> length (out @ [m]) = maximum then Some (out @ [m], d2)
           else prefix_loop key maximum d2 n (consumed + 1) (out @ [m]) cs) (matches_ok d)"
      using loop [OF inv that(2,3)] r Cons.prems(3) that(1)
      by (auto simp: match_ok_def matches_ok_def invalidates_same split: option.split)
  qed (use Cons.prems that in \<open>auto simp: is_node_def invalidates_same\<close>)
  show ?case unfolding prefix_loop.simps Let_def
    by (rule runs_bind [OF Step_runs]) (use Cons.prems matched in auto)
qed simp

lemma runs_available: "runs d q P \<Longrightarrow> P [] \<Longrightarrow> runs d (Option.bind q (\<lambda>(out, d1). Some (if available d1 then out else [], d1))) P"
  by (auto simp: runs_def)

lemma CommonPrefixSearch_runs [run_rules]:
  assumes "layout_ok d"
  shows "runs d (CommonPrefixSearch d key maximum) (matches_ok d)"
  using prefix_loop_runs [OF assms root_is_node [OF assms], of "[]" key maximum 0 key]
  by (auto simp: CommonPrefixSearch_def matches_ok_def intro!: runs_available)

section \<open>Predictive search\<close>

lemma match_level_runs [run_rules]:
  "layout_ok d \<Longrightarrow> list_all (\<lambda>v. node v < node_count d) vs \<Longrightarrow> matches_ok d ms \<Longrightarrow>
     runs d (match_level d vs ms) (matches_ok d)"
proof (induction vs arbitrary: d ms)
  case (Cons v vs)
  have IH: "runs d' (match_level d2 vs ms') (matches_ok d)"
    if "invalidates d d'" "invalidates d' d2" "matches_ok d ms'" for d' d2 ms'
  proof (rule runs_from [OF that(2)])
    have "invalidates d d2" using that by (blast intro: invalidates_trans)
    then show "runs d2 (match_level d2 vs ms') (matches_ok d)"
      using Cons.IH [of d2 ms'] Cons.prems that(3) by (auto simp: invalidates_same invalidates_results)
  qed
  show ?case unfolding match_level.simps
  proof (rule runs_bind [OF Match_runs])
    fix r d1 assume r: "invalidates d d1" "match_ok d r"
    show "runs d1 (case r of None \<Rightarrow> match_level d1 vs ms
       | Some m \<Rightarrow> let d2 = (if remaining v \<noteq> 0 then Fail ''terminal inside UTF-8 character'' d1 else d1);
               d3 = (if ms \<noteq> [] \<and> key_id (last ms) \<ge> key_id m then Fail ''invalid key order'' d2 else d2)
           in match_level d3 vs (ms @ [m])) (matches_ok d)"
      using IH [OF r(1)] r(2) Cons.prems(3)
      by (auto simp: Let_def match_ok_def matches_ok_def split: option.split)
  qed (use Cons.prems in auto)
qed simp

lemma expand_visit_runs [run_rules]:
  "layout_ok d \<Longrightarrow> node v < node_count d \<Longrightarrow> list_all (\<lambda>v. node v < node_count d) nexts \<Longrightarrow>
     runs d (expand_visit d v bs nexts) (list_all (\<lambda>v. node v < node_count d))"
proof (induction bs arbitrary: d nexts)
  case (Cons b bs)
  have IH: "runs d' (expand_visit d2 v bs nexts') (list_all (\<lambda>v. node v < node_count d))"
    if "invalidates d d'" "invalidates d' d2" "list_all (\<lambda>v. node v < node_count d) nexts'" for d' d2 nexts'
  proof (rule runs_from [OF that(2)])
    have "invalidates d d2" using that by (blast intro: invalidates_trans)
    then show "runs d2 (expand_visit d2 v bs nexts') (list_all (\<lambda>v. node v < node_count d))"
      using Cons.IH [of d2 nexts'] Cons.prems that(3) by (auto simp: invalidates_same)
  qed
  show ?case unfolding expand_visit.simps
  proof (rule runs_bind [OF Step_runs])
    fix r d1 assume r: "invalidates d d1" "is_node d r"
    show "runs d1 (if r = kNone then expand_visit d1 v bs nexts
       else case Advance b (v\<lparr>node := r\<rparr>) of (ok, v1) \<Rightarrow>
           expand_visit (if ok then d1 else Fail ''invalid trie key encoding'' d1) v bs (nexts @ [v1]))
         (list_all (\<lambda>v. node v < node_count d))"
      using IH [OF r(1)] r(2) Cons.prems(3) by (auto simp: is_node_def split: prod.split)
  qed (use Cons.prems in auto)
qed simp

lemma expand_level_runs [run_rules]:
  "layout_ok d \<Longrightarrow> list_all (\<lambda>v. node v < node_count d) vs \<Longrightarrow> list_all (\<lambda>v. node v < node_count d) nexts \<Longrightarrow>
     runs d (expand_level d vs nexts) (list_all (\<lambda>v. node v < node_count d))"
proof (induction vs arbitrary: d nexts)
  case (Cons v vs)
  have "runs d1 (expand_level d1 vs nexts1) (list_all (\<lambda>v. node v < node_count d))"
    if "invalidates d d1" "list_all (\<lambda>v. node v < node_count d) nexts1" for d1 nexts1
    using Cons.IH [of d1 nexts1] Cons.prems that by (auto simp: invalidates_same)
  then show ?case unfolding expand_level.simps
    using Cons.prems by (intro runs_bind [OF expand_visit_runs]) auto
qed simp

lemma emit_ok: "emit maximum out ms = (out', full) \<Longrightarrow> matches_ok d out \<Longrightarrow> matches_ok d ms \<Longrightarrow> matches_ok d out'"
  by (induction maximum out ms rule: emit.induct) (auto simp: matches_ok_def split: if_splits)

lemma predict_loop_runs [run_rules]:
  "layout_ok d \<Longrightarrow> list_all (\<lambda>v. node v < node_count d) level \<Longrightarrow> matches_ok d out \<Longrightarrow>
     runs d (predict_loop maximum d level out) (matches_ok d)"
proof (induction maximum d level out rule: predict_loop.induct)
  case (1 maximum d level out)
  show ?case
  proof (cases "level = [] \<or> \<not> available d")
    case True
    then show ?thesis using "1.prems" by (simp add: predict_loop.simps [of maximum d] matches_ok_def)
  next
    case False
    from match_level_runs [OF "1.prems"(1,2), of "[]"] obtain ms d1 where
      ms: "match_level d level [] = Some (ms, d1)" "invalidates d d1" "matches_ok d ms"
      by (auto simp: runs_def matches_ok_def)
    obtain out1 full where out1: "emit maximum out ms = (out1, full)" by fastforce
    with emit_ok ms(3) "1.prems"(3) have o1: "matches_ok d out1" by blast
    have "runs d1 (expand_level d1 level []) (list_all (\<lambda>v. node v < node_count d1))"
      using "1.prems"(1,2) ms(2) by (intro expand_level_runs) (simp_all add: invalidates_same)
    then obtain nexts d2 where
      n: "expand_level d1 level [] = Some (nexts, d2)" "invalidates d1 d2" "list_all (\<lambda>v. node v < node_count d1) nexts"
      by (auto simp: runs_def)
    have inv: "invalidates d d2" using ms(2) n(2) by (rule invalidates_trans)
    show ?thesis
    proof (cases "available d1 \<and> \<not> full")
      case True
      have "runs d2 (predict_loop maximum d2 nexts out1) (matches_ok d2)"
        by (rule "1.IH" [OF False ms(1) refl _ out1 [symmetric] _ n(1) refl])
          (use True "1.prems" inv ms(2) n(3) o1 in \<open>auto simp: invalidates_same invalidates_results\<close>)
      then show ?thesis
        using False True ms(1) out1 n(1) runs_from [OF inv] inv
        by (simp add: predict_loop.simps [of maximum d] invalidates_results)
    next
      case False': False
      have "runs d (Some (if available d1 then out1 else [], d1)) (matches_ok d)"
        using o1 by (intro runs_from [OF ms(2)]) (simp add: matches_ok_def)
      then show ?thesis using False False' ms(1) out1 by (simp add: predict_loop.simps [of maximum d] split: if_splits)
    qed
  qed
qed

lemma PredictiveSearch_runs [run_rules]:
  assumes "layout_ok d"
  shows "runs d (PredictiveSearch d key maximum) (matches_ok d)"
proof -
  have "runs d' (if n = kNone then Some ([], d')
      else predict_loop maximum d' [\<lparr>node = n, remaining = 0, low = 0x80, high = 0xbf\<rparr>] []) (matches_ok d)"
    if "invalidates d d'" "is_node d n" for d' n
    using predict_loop_runs [of d' "[\<lparr>node = n, remaining = 0, low = 0x80, high = 0xbf\<rparr>]" "[]" maximum] assms that
    by (auto simp: is_node_def matches_ok_def [of _ "[]"] invalidates_same invalidates_results)
  then show ?thesis
    using assms walk_runs [OF assms root_is_node [OF assms], of key]
    by (auto simp: PredictiveSearch_def matches_ok_def [of _ "[]"] intro!: runs_bind)
qed

section \<open>Entries and surfaces\<close>

lemma read_refs_runs [run_rules]:
  "layout_ok d \<Longrightarrow> list_all (\<lambda>pos. pos + 8 \<le> length (data d)) ps \<Longrightarrow> runs d (read_refs d ps out) (\<lambda>r. True)"
proof (induction ps arbitrary: d out)
  case (Cons pos ps)
  then have "\<exists>v. byte_at (data d) (pos + k) = Some v" if "k < 8" for k using that by (simp add: byte_at_Some)
  then obtain k r5 r6 r7 where b: "byte_at (data d) (pos + 4) = Some k" "byte_at (data d) (pos + 5) = Some r5"
    "byte_at (data d) (pos + 6) = Some r6" "byte_at (data d) (pos + 7) = Some r7" by fastforce
  obtain index where i: "U32 d pos = Some index" using Cons.prems U32_Some [of pos d] by auto
  have "runs d (Option.bind (Record d index) (\<lambda>(e, d1). case e of
         None \<Rightarrow> Some (None, Fail ''invalid entry reference'' d1)
       | Some e \<Rightarrow> read_refs d1 ps (out @ [e\<lparr>entry_kind := (if k = 0 then Exact else Alias)\<rparr>]))) (\<lambda>r. True)"
    by (rule runs_bind [OF Record_runs]) (use Cons in \<open>auto simp: invalidates_same split: option.split\<close>)
  then show ?case using b i by simp
qed simp

lemma ref_inside:
  assumes "layout_ok d" "Range off count (sec_size (refs d) div 8)" "i < count"
  shows "sec_offset (refs d) + (off + i) * 8 + 8 \<le> length (data d)"
proof -
  have "Suc (off + i) \<le> sec_size (refs d) div 8" using assms(2,3) by (auto simp: Range_def)
  then have "Suc (off + i) * 8 \<le> sec_size (refs d)" by (metis div_times_less_eq_dividend dual_order.trans mult_le_mono1)
  moreover have "sec_offset (refs d) + sec_size (refs d) \<le> length (data d)" using assms(1) by (simp add: layout_ok_def inside_def)
  ultimately show ?thesis by simp
qed

lemma ReadEntries_runs [run_rules]:
  assumes "layout_ok d"
  shows "runs d (ReadEntries d m) (\<lambda>r. True)"
proof (cases "available d \<and> key_id m < keys d \<and> Range (entry_ref_off m) (entry_count m) (sec_size (refs d) div 8)")
  case True
  obtain off count where k: "U32 d (sec_offset (key_section d) + key_id m * 8) = Some off"
    "U32 d (sec_offset (key_section d) + key_id m * 8 + 4) = Some count"
    using key_Some [OF assms, of "key_id m"] True by blast
  have "runs d (read_refs d (map (\<lambda>i. sec_offset (refs d) + (entry_ref_off m + i) * 8) [0..<entry_count m]) []) (\<lambda>r. True)"
    using True ref_inside [OF assms] by (intro read_refs_runs assms) (auto simp: list_all_iff)
  then show ?thesis using True k by (simp add: ReadEntries_def Let_def)
qed (auto simp: ReadEntries_def)

lemma bound_loop_runs [run_rules]:
  "layout_ok d \<Longrightarrow> has_surface_index d \<Longrightarrow> first + count \<le> entries d \<Longrightarrow>
     runs d (bound_loop d surf upper first count) (\<lambda>r. case r of None \<Rightarrow> True | Some b \<Rightarrow> b \<le> entries d)"
proof (induction d surf upper first count rule: bound_loop.induct)
  case (1 d surf upper first count)
  let ?step = "count div 2"
  show ?case
  proof (cases "count = 0")
    case False
    then have p: "first + ?step < entries d" using "1.prems"(3) by linarith
    from SurfaceIndexAt_runs [OF "1.prems"(1,2) p] obtain r d1 where
      r: "SurfaceIndexAt d (first + ?step) = Some (r, d1)" "invalidates d d1" by (auto simp: runs_def)
    show ?thesis
    proof (cases r)
      case None
      then show ?thesis using r False by (simp add: bound_loop.simps [of d] Let_def runs_from)
    next
      case (Some iv)
      obtain i v where iv: "iv = (i, v)" by fastforce
      let ?c = "if upper then \<not> surf < v else v < surf"
      have up: "runs d1 (bound_loop d1 surf upper (first + ?step + 1) (count - (?step + 1)))
          (\<lambda>r. case r of None \<Rightarrow> True | Some b \<Rightarrow> b \<le> entries d)" if ?c
        using "1.IH"(1) [OF False refl refl r(1) refl Some iv [symmetric] that] "1.prems" r(2) False
        by (simp add: invalidates_same)
      have lo: "runs d1 (bound_loop d1 surf upper first ?step)
          (\<lambda>r. case r of None \<Rightarrow> True | Some b \<Rightarrow> b \<le> entries d)" if "\<not> ?c"
        using "1.IH"(2) [OF False refl refl r(1) refl Some iv [symmetric] that] "1.prems" r(2) False
        by (simp add: invalidates_same)
      have "runs d (if ?c then bound_loop d1 surf upper (first + ?step + 1) (count - (?step + 1))
          else bound_loop d1 surf upper first ?step) (\<lambda>r. case r of None \<Rightarrow> True | Some b \<Rightarrow> b \<le> entries d)"
        by (rule runs_from [OF r(2) runs_if [OF up lo]])
      then show ?thesis using r False Some iv by (simp only: bound_loop.simps [of d] Let_def) simp
    qed
  qed (use "1.prems" in \<open>simp add: bound_loop.simps [of d]\<close>)
qed

lemma collect_surface_runs [run_rules]:
  "layout_ok d \<Longrightarrow> has_surface_index d \<Longrightarrow> list_all (\<lambda>p. p < entries d) ps \<Longrightarrow>
     runs d (collect_surface d surf previous ps out) (\<lambda>r. True)"
proof (induction ps arbitrary: d previous out)
  case (Cons p ps)
  have rec: "runs d1 (Option.bind (Record d1 index) (\<lambda>(e, d2). case e of None \<Rightarrow> Some (None, d2)
      | Some e \<Rightarrow> collect_surface d2 surf (Some index) ps (out @ [e\<lparr>entry_kind := Exact\<rparr>]))) (\<lambda>r. True)"
    if "invalidates d d1" for d1 index
  proof (rule runs_bind [OF Record_runs])
    fix r d2 assume "invalidates d1 d2"
    with that have "invalidates d d2" by (rule invalidates_trans)
    then show "runs d2 (case r of None \<Rightarrow> Some (None, d2)
      | Some e \<Rightarrow> collect_surface d2 surf (Some index) ps (out @ [e\<lparr>entry_kind := Exact\<rparr>])) (\<lambda>r. True)"
      using Cons by (auto simp: invalidates_same split: option.split)
  qed (use Cons.prems that in \<open>simp add: invalidates_same\<close>)
  show ?case unfolding collect_surface.simps
    by (rule runs_bind [OF SurfaceIndexAt_runs]) (use Cons.prems rec in \<open>auto split: option.split\<close>)
qed simp

lemma FindSurface_runs [run_rules]:
  assumes "layout_ok d" "has_surface_index d"
  shows "runs d (FindSurface d surf) (\<lambda>r. True)"
proof -
  have upper: "runs d1 (Option.bind (bound_loop d1 surf True 0 (entries d1)) (\<lambda>(upper, d2). case upper of
         None \<Rightarrow> Some (None, d2)
       | Some upper \<Rightarrow> if upper < lower then Some (None, Fail ''invalid surface index order'' d2)
           else collect_surface d2 surf None [lower..<upper] [])) (\<lambda>r. True)" if "invalidates d d1" for d1 lower
  proof (rule runs_bind [OF bound_loop_runs])
    fix r d2 assume inv: "invalidates d1 d2" and r: "case r of None \<Rightarrow> True | Some b \<Rightarrow> b \<le> entries d1"
    from inv that have "invalidates d d2" by (blast intro: invalidates_trans)
    then show "runs d2 (case r of None \<Rightarrow> Some (None, d2)
       | Some upper \<Rightarrow> if upper < lower then Some (None, Fail ''invalid surface index order'' d2)
           else collect_surface d2 surf None [lower..<upper] []) (\<lambda>r. True)"
      using collect_surface_runs [of d2] assms r that
      by (auto simp: invalidates_same list_all_iff split: option.split)
  qed (use assms that in \<open>simp_all add: invalidates_same\<close>)
  show ?thesis unfolding FindSurface_def
    by (rule runs_bind [OF bound_loop_runs]) (use assms upper in \<open>auto split: option.split\<close>)
qed

lemma scan_surface_runs [run_rules]:
  "layout_ok d \<Longrightarrow> list_all (\<lambda>i. i < entries d) js \<Longrightarrow> runs d (scan_surface d surf js out) (\<lambda>r. True)"
proof (induction js arbitrary: d out)
  case (Cons i js)
  let ?pos = "sec_offset (records d) + i * 32"
  obtain off len where ol: "U32 d ?pos = Some off" "U32 d (?pos + 4) = Some len"
    using record_Some(1) [of d i] record_Some(2) [of d i 4] Cons.prems by auto
  have "runs d (Option.bind (Record d i) (\<lambda>(e, d1). case e of None \<Rightarrow> Some ([], d1)
      | Some e \<Rightarrow> scan_surface d1 surf js (out @ [e\<lparr>entry_kind := Exact\<rparr>]))) (\<lambda>r. True)"
    by (rule runs_bind [OF Record_runs]) (use Cons in \<open>auto simp: invalidates_same split: option.split\<close>)
  moreover have "runs d (scan_surface d surf js out) (\<lambda>r. True)" using Cons by simp
  ultimately show ?case using ol strings_view [of d off len] Cons.prems by (simp add: Let_def)
qed simp

lemma LookupSurface_runs [run_rules]:
  assumes "layout_ok d"
  shows "runs d (LookupSurface d surf) (\<lambda>r. True)"
proof -
  have "runs d (Option.bind (FindSurface d surf) (\<lambda>(r, d1). Some (case r of None \<Rightarrow> [] | Some out \<Rightarrow> out, d1))) (\<lambda>r. True)"
    if "has_surface_index d" by (rule runs_bind [OF FindSurface_runs]) (use assms that in auto)
  moreover have "runs d (scan_surface d surf [0..<entries d] []) (\<lambda>r. True)"
    using assms by (intro scan_surface_runs) (auto simp: list_all_iff)
  ultimately show ?thesis by (simp add: LookupSurface_def)
qed

section \<open>The structural check\<close>

definition sections_inside :: "Impl \<Rightarrow> (string, Section) map \<Rightarrow> bool" where
  "sections_inside d m \<longleftrightarrow> (\<forall>(name, s) \<in> set m. inside d s)"

lemma section_table_runs:
  "64 + count * 24 \<le> length (data d) \<Longrightarrow> \<forall>i \<in> set js. i < count \<Longrightarrow> sections_inside d sections \<Longrightarrow>
     \<exists>r. section_table d count js sections ranges = Some r \<and>
       (case r of Inl reason \<Rightarrow> True | Inr (sections', ranges') \<Rightarrow> sections_inside d sections')"
proof (induction js arbitrary: sections ranges)
  case (Cons i js)
  let ?pos = "64 + i * 24"
  have "Suc i \<le> count" using Cons.prems(2) by simp
  then have "Suc i * 24 \<le> count * 24" by (rule mult_le_mono1)
  with Cons.prems(1) have pos: "?pos + 24 \<le> length (data d)" by simp
  obtain off len reserved name where rd: "Read (data d) (?pos + 8) 8 = Some off" "Read (data d) (?pos + 16) 8 = Some len"
    "U32 d (?pos + 4) = Some reserved" "view (data d) ?pos 4 = Some name"
    using pos by (simp add: Read_def U32_def view_def)
  let ?sec = "\<lparr>sec_offset = off, sec_size = len\<rparr>"
  show ?case
  proof (cases "reserved \<noteq> 0 \<or> off mod 8 \<noteq> 0 \<or> off < 64 + count * 24 \<or> \<not> Range off len (length (data d)) \<or> map_of sections name \<noteq> None")
    case True
    then show ?thesis using rd by (auto simp: Let_def)
  next
    case False
    then have "inside d ?sec" by (auto simp: inside_def Range_def)
    then have "sections_inside d (map_emplace name ?sec sections)"
      using Cons.prems(3) set_map_emplace [of name ?sec sections] by (auto simp: sections_inside_def)
    from Cons.IH [OF Cons.prems(1) _ this, of "ranges @ [?sec]"] show ?thesis
      using False rd Cons.prems(2) by (auto simp: Let_def)
  qed
qed simp

lemma section_at_inside: "sections_inside d m \<Longrightarrow> map_of m name \<noteq> None \<Longrightarrow> inside d (section_at m name)"
  by (auto simp: sections_inside_def section_at_def dest: map_of_SomeD split: option.split)

text \<open>The root that the check requires.\<close>

definition root_ok :: "Impl \<Rightarrow> bool" where
  "root_ok d \<longleftrightarrow> Node d 0 4 = Some 0 \<and> Node d 0 8 = Some kNone \<and> Node d 0 12 = Some 0"

lemma check_contents_ok:
  assumes "layout_ok d"
  shows "\<exists>ok d'. check_contents d = Some (ok, d') \<and> available d' = ok \<and> (ok \<longrightarrow> layout_ok d' \<and> root_ok d')"
proof -
  have view: "view (data d) (sec_offset (meta d)) (sec_size (meta d)) = Some (take (sec_size (meta d)) (drop (sec_offset (meta d)) (data d)))"
    using assms by (simp add: layout_ok_def inside_def view_def)
  have ok: "layout_ok (d\<lparr>pos_count := n\<rparr>)" "layout_ok (d\<lparr>pos_count := n, available := b, error := e\<rparr>)" for n b e
    using assms by (auto simp: layout_ok_def inside_def sizes_ok_def)
  have pos_count: "Node (d\<lparr>pos_count := n\<rparr>) 0 f = Node d 0 f" for n f by (simp add: Node_def U32_def)
  obtain a b c where "Node d 0 4 = Some a" "Node d 0 8 = Some b" "Node d 0 12 = Some c"
    using Node_Some [OF assms root_is_node [OF assms], of 4] Node_Some [OF assms root_is_node [OF assms], of 8]
      Node_Some [OF assms root_is_node [OF assms], of 12] by auto
  then show ?thesis unfolding check_contents_def view Let_def
    using ok by (auto simp: pos_count Fail_def root_ok_def Node_def U32_def split: option.split)
qed

lemma set_sections_ok:
  assumes "sections_inside d sections" "\<forall>name \<in> set section_names. map_of sections name \<noteq> None"
    "sizes_ok (set_sections sections d)" "64 \<le> length (data d)"
  shows "layout_ok (set_sections sections d)"
  using assms section_at_inside [OF assms(1)]
  by (auto simp: layout_ok_def set_sections_def inside_def section_names_def)

lemma Structure_ok:
  "\<exists>ok d. Structure (fresh bytes) = Some (ok, d) \<and> available d = ok \<and> (ok \<longrightarrow> layout_ok d \<and> root_ok d)"
proof (cases "length bytes < 64")
  case True
  then show ?thesis by (auto simp: Structure_def header_ok_def fresh_def)
next
  case long: False
  let ?d = "fresh bytes"
  have data: "data ?d = bytes" by (simp add: fresh_def)
  obtain ok where h: "header_ok bytes = Some ok" using long by (simp add: header_ok_def Read_def)
  have "\<exists>v. U32 ?d off = Some v" if "off \<le> 60" for off using that long data by (intro U32_Some) simp
  then obtain l e k where lek: "U32 ?d 16 = Some l" "U32 ?d 20 = Some e" "U32 ?d 24 = Some k" by fastforce
  define d1 where "d1 = ?d\<lparr>layer := l, entries := e, keys := k\<rparr>"
  have d1: "data d1 = bytes" by (simp add: d1_def data)
  obtain count where c: "U32 d1 28 = Some count" using U32_Some [of 28 d1] d1 long by auto
  show ?thesis
  proof (cases "count < 6 \<or> count > 64 \<or> \<not> Range 64 (count * 24) (length bytes)")
    case True
    then show ?thesis using h lek c d1 unfolding Structure_def data Let_def by (simp add: d1_def [symmetric])
  next
    case False
    then have "64 + count * 24 \<le> length (data d1)" by (auto simp: Range_def d1)
    from section_table_runs [OF this, of "[0..<count]" "[]" "[]"] obtain r where
      r: "section_table d1 count [0..<count] [] [] = Some r"
        "case r of Inl reason \<Rightarrow> True | Inr (sections, ranges) \<Rightarrow> sections_inside d1 sections"
      by (auto simp: sections_inside_def)
    show ?thesis
    proof (cases r)
      case (Inl reason)
      then show ?thesis using h lek c d1 False r unfolding Structure_def data Let_def by (simp add: d1_def [symmetric])
    next
      case (Inr sr)
      obtain sections ranges where sr: "sr = (sections, ranges)" by fastforce
      have "\<exists>ok d. check_contents (set_sections sections d1) = Some (ok, d) \<and> available d = ok \<and> (ok \<longrightarrow> layout_ok d \<and> root_ok d)"
        if "\<not> (\<exists>name \<in> set section_names. map_of sections name = None)" "sizes_ok (set_sections sections d1)"
        using check_contents_ok set_sections_ok [of d1 sections] r(2) Inr sr that long d1 by auto
      then show ?thesis using h lek c d1 False r Inr sr unfolding Structure_def data Let_def
        by (simp add: d1_def [symmetric])
    qed
  qed
qed

end
