(* ===== verification/TrieVerify.thy ===== *)
theory TrieVerify
  imports TrieSafety
begin

text \<open>
  \<open>DoubleArrayTrie::Verify\<close>, the full check of a dictionary that tests and the tools run, with
  the aliases of readings it consults. It reads inside the file like the other queries. What a
  verified dictionary promises is proved from it: every key id is found by the search for its own
  text, and an entry is found under its normalised reading.
\<close>

section \<open>Aliases of readings\<close>

text \<open>\<open>s.find(from)\<close>\<close>

fun find_string :: "string \<Rightarrow> string \<Rightarrow> nat option" where
  "find_string needle [] = (if needle = [] then Some 0 else None)"
| "find_string needle (c # cs) =
     (if take (length needle) (c # cs) = needle then Some 0 else map_option Suc (find_string needle cs))"

lemma find_string_le: "find_string needle s = Some i \<Longrightarrow> i + length needle \<le> length s"
proof (induction needle s arbitrary: i rule: find_string.induct)
  case (2 needle c cs)
  then show ?case
    by (cases "take (length needle) (c # cs) = needle") (auto split: if_splits simp: min_def dest: arg_cong [of _ _ length])
qed (simp split: if_splits)

text \<open>The positions at which the inner \<open>while\<close> loop replaces; the texts it looks for are not empty.\<close>

function alias_positions :: "string \<Rightarrow> string \<Rightarrow> nat \<Rightarrow> nat list" where
  "alias_positions from current pos =
     (case find_string from (drop pos current) of
        None \<Rightarrow> []
      | Some i \<Rightarrow>
          if from = [] then [] else (pos + i) # alias_positions from current (pos + i + length from))"
  by pat_completeness auto
termination
  by (relation "measure (\<lambda>(from, current, pos). length current - pos)") (auto dest!: find_string_le simp: neq_Nil_conv)

declare alias_positions.simps [simp del]

definition alias_pairs :: "(string \<times> string) list" where
  "alias_pairs = [(utf8s [0x3094, 0x3041], utf8s [0x3070]), (utf8s [0x3065], utf8s [0x305a]), (utf8s [0x3062], utf8s [0x3058])]"

definition replaced :: "string \<Rightarrow> string \<Rightarrow> string \<Rightarrow> string list" where
  "replaced from to current =
     map (\<lambda>p. take p current @ to @ drop (p + length from) current) (alias_positions from current 0)"

definition alias_steps :: "string \<Rightarrow> string list" where
  "alias_steps current = concat (map (\<lambda>(a, b). replaced a b current @ replaced b a current) alias_pairs)"

text \<open>\<^term>\<open>None\<close> when a ninth text would be added.\<close>

fun add_aliases :: "string list \<Rightarrow> string list \<Rightarrow> string list option" where
  "add_aliases result [] = Some result"
| "add_aliases result (n # ns) =
     (if n \<in> set result then add_aliases result ns
      else if length result = 8 then None
      else add_aliases (result @ [n]) ns)"

text \<open>The outer loop. The list never has more than eight texts, so eight rounds are enough.\<close>

fun alias_loop :: "nat \<Rightarrow> nat \<Rightarrow> string list \<Rightarrow> string list option" where
  "alias_loop 0 i result = Some result"
| "alias_loop (Suc rounds) i result =
     (if i < length result then
        (case add_aliases result (alias_steps (result ! i)) of
           None \<Rightarrow> None
         | Some result' \<Rightarrow> alias_loop rounds (Suc i) result')
      else Some result)"

definition ReadingAliases :: "string \<Rightarrow> string list" where
  "ReadingAliases key =
     (if key = [] \<or> \<not> IsValidUtf8 key then []
      else case alias_loop 8 0 [key] of None \<Rightarrow> [key] | Some result \<Rightarrow> sort result)"

section \<open>The check\<close>

definition content_hash :: "string \<Rightarrow> 64 word" where
  "content_hash p = foldl (\<lambda>h c. (h XOR word_of_nat (ord c)) * 1099511628211) 14695981039346656037 (drop 64 p)"

text \<open>
  The text of a node, read from the node up to the root; \<^term>\<open>Some None\<close> when a parent is not a
  node of smaller depth.
\<close>

function ancestry :: "Impl \<Rightarrow> nat \<Rightarrow> string \<Rightarrow> string option option" where
  "ancestry d current key =
     (if current = 0 then Some (Some key)
      else case Node d current 4 of
        None \<Rightarrow> None
      | Some up \<Rightarrow>
          if up \<ge> node_count d then Some None
          else case (Node d up 12, Node d current 12, Node d up 0) of
            (Some up_depth, Some depth, Some base) \<Rightarrow>
              if up_depth \<ge> depth then Some None
              else ancestry d up (byte (current + 0x100000000 - base) # key)
          | _ \<Rightarrow> None)"
  by pat_completeness auto
termination
  by (relation "measure (\<lambda>(d, current, key). depth_of d current)") (auto simp: depth_of_def dest!: sym [where s = "Some _"])

declare ancestry.simps [simp del]

definition key_fits :: "string \<Rightarrow> StaticDictionaryEntry \<Rightarrow> bool" where
  "key_fits key e =
     (let normalized = NormalizeReading (entry_reading e); aliases = ReadingAliases normalized in
      \<not> ((entry_kind e = Exact \<and> key \<noteq> normalized) \<or>
         (entry_kind e = Alias \<and> (key = normalized \<or> key \<notin> set aliases))))"

type_synonym seen_keys = "bool list \<times> string list"

text \<open>The part of the loop body for a node that carries a key.\<close>

definition verify_key :: "Impl \<Rightarrow> nat \<Rightarrow> PrefixMatch \<Rightarrow> seen_keys \<Rightarrow> (seen_keys option \<times> Impl) option" where
  "verify_key d n m ks =
     (case ks of (seen, texts) \<Rightarrow>
        if key_id m \<ge> length seen \<or> key_id m \<ge> length texts then None
        else if seen ! key_id m then Some (None, Fail ''duplicate key id'' d)
        else do {
          r \<leftarrow> ancestry d n [];
          case r of
            None \<Rightarrow> Some (None, Fail ''invalid trie ancestry'' d)
          | Some key \<Rightarrow>
              if \<not> IsValidUtf8 key then Some (None, Fail ''invalid trie key encoding'' d)
              else do {
                (es, d1) \<leftarrow> ReadEntries d m;
                case es of
                  None \<Rightarrow> Some (None, d1)
                | Some es \<Rightarrow>
                    if \<not> list_all (key_fits key) es then Some (None, Fail ''key does not match entry reading'' d1)
                    else Some (Some (seen[key_id m := True], texts[key_id m := key]), d1) } })"

definition verify_node :: "Impl \<Rightarrow> nat \<Rightarrow> seen_keys \<Rightarrow> (seen_keys option \<times> Impl) option" where
  "verify_node d n ks =
     do {
       parent \<leftarrow> Node d n 4;
       if parent = kNone then Some (Some ks, d)
       else if parent \<ge> node_count d then Some (None, Fail ''invalid trie edge'' d)
       else do {
         grand \<leftarrow> Node d parent 4;
         parent_depth \<leftarrow> Node d parent 12;
         depth \<leftarrow> Node d n 12;
         base \<leftarrow> Node d parent 0;
         if grand = kNone \<or> parent_depth \<ge> depth \<or> n \<le> base \<or> n - base > 255
         then Some (None, Fail ''invalid trie edge'' d)
         else do {
           (child, d1) \<leftarrow> Step d parent (n - base);
           if child \<noteq> n then Some (None, Fail ''invalid trie edge'' d1)
           else do {
             (m, d2) \<leftarrow> Match d1 n;
             (r, d3) \<leftarrow> (case m of None \<Rightarrow> Some (Some ks, d2) | Some m \<Rightarrow> verify_key d2 n m ks);
             Some (if available d3 then r else None, d3) } } } }"

fun verify_nodes :: "Impl \<Rightarrow> nat list \<Rightarrow> seen_keys \<Rightarrow> (seen_keys option \<times> Impl) option" where
  "verify_nodes d [] ks = Some (Some ks, d)"
| "verify_nodes d (n # ns) ks =
     do {
       (r, d1) \<leftarrow> verify_node d n ks;
       case r of None \<Rightarrow> Some (None, d1) | Some ks1 \<Rightarrow> verify_nodes d1 ns ks1 }"

fun verify_records :: "Impl \<Rightarrow> nat list \<Rightarrow> (bool \<times> Impl) option" where
  "verify_records d [] = Some (True, d)"
| "verify_records d (i # js) =
     do {
       (e, d1) \<leftarrow> Record d i;
       if e = None then Some (False, d1) else verify_records d1 js }"

text \<open>The strictly increasing order of the surface index; \<open>previous\<close> is the last surface and entry.\<close>

fun verify_surfaces :: "Impl \<Rightarrow> nat list \<Rightarrow> (string \<times> nat) option \<Rightarrow> (bool \<times> Impl) option" where
  "verify_surfaces d [] previous = Some (True, d)"
| "verify_surfaces d (p # ps) previous =
     do {
       (r, d1) \<leftarrow> SurfaceIndexAt d p;
       case r of
         None \<Rightarrow> Some (False, d1)
       | Some (index, v) \<Rightarrow>
           if (case previous of None \<Rightarrow> False | Some (pv, pidx) \<Rightarrow> v < pv \<or> (v = pv \<and> index \<le> pidx))
           then Some (False, Fail ''invalid surface index order'' d1)
           else verify_surfaces d1 ps (Some (v, index)) }"

fun verify_refs :: "Impl \<Rightarrow> nat list \<Rightarrow> (bool \<times> Impl) option" where
  "verify_refs d [] = Some (True, d)"
| "verify_refs d (pos # ps) =
     do {
       index \<leftarrow> U32 d pos;
       k \<leftarrow> byte_at (data d) (pos + 4);
       r5 \<leftarrow> byte_at (data d) (pos + 5);
       r6 \<leftarrow> byte_at (data d) (pos + 6);
       r7 \<leftarrow> byte_at (data d) (pos + 7);
       if index \<ge> entries d \<or> k > 1 \<or> r5 \<noteq> 0 \<or> r6 \<noteq> 0 \<or> r7 \<noteq> 0
       then Some (False, Fail ''invalid entry reference'' d)
       else verify_refs d ps }"

text \<open>The tail of the check, behind the loop over the nodes.\<close>

definition verify_tables :: "Impl \<Rightarrow> seen_keys \<Rightarrow> (bool \<times> Impl) option" where
  "verify_tables d ks =
     (if \<not> list_all id (fst ks) then Some (False, Fail ''unreachable key'' d)
      else if \<not> successively (<) (snd ks) then Some (False, Fail ''invalid key order'' d)
      else do {
        (ok, d1) \<leftarrow> verify_records d [0..<entries d];
        if \<not> ok then Some (False, d1)
        else do {
          (ok, d2) \<leftarrow> (if has_surface_index d1 then verify_surfaces d1 [0..<entries d1] None else Some (True, d1));
          if \<not> ok then Some (False, d2)
          else verify_refs d2 (map (\<lambda>i. sec_offset (refs d2) + i * 8) [0..<sec_size (refs d2) div 8]) } })"

definition Verify :: "Impl \<Rightarrow> (bool \<times> Impl) option" where
  "Verify d =
     (if \<not> available d then Some (False, d)
      else do {
        hash \<leftarrow> Read (data d) 32 8;
        if unat (content_hash (data d)) \<noteq> hash then Some (False, Fail ''content hash mismatch'' d)
        else do {
          (r, d1) \<leftarrow> verify_nodes d [1..<node_count d] (replicate (keys d) False, replicate (keys d) []);
          case r of None \<Rightarrow> Some (False, d1) | Some ks \<Rightarrow> verify_tables d1 ks } })"

section \<open>The check reads inside the file\<close>

lemma ancestry_Some: "layout_ok d \<Longrightarrow> n < node_count d \<Longrightarrow> \<exists>r. ancestry d n key = Some r"
proof (induction d n key rule: ancestry.induct)
  case (1 d n key)
  obtain up depth where up: "Node d n 4 = Some up" "Node d n 12 = Some depth"
    using Node_Some [OF "1.prems"] by fastforce
  show ?case
  proof (cases "n = 0 \<or> up \<ge> node_count d")
    case True
    then show ?thesis using up by (auto simp: ancestry.simps [of d n])
  next
    case False
    then obtain up_depth base where u: "Node d up 12 = Some up_depth" "Node d up 0 = Some base"
      using Node_Some [OF "1.prems"(1), of up] by fastforce
    show ?thesis
    proof (cases "up_depth \<ge> depth")
      case True
      then show ?thesis using False up u by (simp add: ancestry.simps [of d n])
    next
      case less: False
      have "\<exists>r. ancestry d up (byte (n + 0x100000000 - base) # key) = Some r"
        by (rule "1.IH" [OF _ up(1) _ refl u(1) refl up(2) u(2) less "1.prems"(1)]) (use False in auto)
      then show ?thesis using False up u less by (simp add: ancestry.simps [of d n])
    qed
  qed
qed

definition seen_ok :: "Impl \<Rightarrow> seen_keys \<Rightarrow> bool" where
  "seen_ok d ks \<longleftrightarrow> length (fst ks) = keys d \<and> length (snd ks) = keys d"

definition seen_opt_ok :: "Impl \<Rightarrow> seen_keys option \<Rightarrow> bool" where
  "seen_opt_ok d r \<longleftrightarrow> (case r of None \<Rightarrow> True | Some ks \<Rightarrow> seen_ok d ks)"

lemma invalidates_seen: "invalidates d d' \<Longrightarrow> seen_ok d' = seen_ok d \<and> seen_opt_ok d' = seen_opt_ok d"
  by (auto simp: seen_ok_def seen_opt_ok_def invalidates_same fun_eq_iff split: option.split)

lemma verify_key_runs [run_rules]:
  assumes "layout_ok d" "n < node_count d" "key_id m < keys d" "seen_ok d ks"
  shows "runs d (verify_key d n m ks) (seen_opt_ok d)"
proof -
  obtain seen texts where ks: "ks = (seen, texts)" by fastforce
  obtain r where r: "ancestry d n [] = Some r" using ancestry_Some [OF assms(1,2)] by blast
  have "runs d (Option.bind (ReadEntries d m) (\<lambda>(es, d1). case es of
        None \<Rightarrow> Some (None, d1)
      | Some es \<Rightarrow>
          if \<not> list_all (key_fits key) es then Some (None, Fail ''key does not match entry reading'' d1)
          else Some (Some (seen[key_id m := True], texts[key_id m := key]), d1))) (seen_opt_ok d)" for key
    by (rule runs_bind [OF ReadEntries_runs]) (use assms ks in \<open>auto simp: seen_opt_ok_def seen_ok_def split: option.split\<close>)
  moreover have "key_id m < length seen" "key_id m < length texts" using assms(3,4) ks by (simp_all add: seen_ok_def)
  ultimately show ?thesis using ks r
    by (auto simp: verify_key_def seen_opt_ok_def [of d None] split: option.split)
qed

lemma verify_node_runs [run_rules]:
  assumes "layout_ok d" "n < node_count d" "seen_ok d ks"
  shows "runs d (verify_node d n ks) (seen_opt_ok d)"
proof -
  obtain parent depth where n: "Node d n 4 = Some parent" "Node d n 12 = Some depth"
    using Node_Some [OF assms(1,2)] by fastforce
  obtain grand parent_depth base where p: "parent < node_count d \<Longrightarrow> Node d parent 4 = Some grand"
    "parent < node_count d \<Longrightarrow> Node d parent 12 = Some parent_depth" "parent < node_count d \<Longrightarrow> Node d parent 0 = Some base"
    using Node_Some [OF assms(1), of parent] by fastforce
  have key: "runs d1 (do {
      (m, d2) \<leftarrow> Match d1 n;
      (r, d3) \<leftarrow> (case m of None \<Rightarrow> Some (Some ks, d2) | Some m \<Rightarrow> verify_key d2 n m ks);
      Some (if available d3 then r else None, d3) }) (seen_opt_ok d)" if inv: "invalidates d d1" for d1
  proof (rule runs_bind [OF Match_runs])
    fix m d2 assume d2: "invalidates d1 d2" and m: "match_ok d1 m"
    have inv2: "invalidates d d2" using inv d2 by (rule invalidates_trans)
    have "runs d2 (case m of None \<Rightarrow> Some (Some ks, d2) | Some m \<Rightarrow> verify_key d2 n m ks) (seen_opt_ok d)"
      using verify_key_runs [of d2 n _ ks] assms m inv inv2
      by (auto simp: invalidates_same invalidates_results invalidates_seen match_ok_def seen_opt_ok_def [of d "Some ks"]
        split: option.split)
    then show "runs d2 (Option.bind (case m of None \<Rightarrow> Some (Some ks, d2) | Some m \<Rightarrow> verify_key d2 n m ks)
        (\<lambda>(r, d3). Some (if available d3 then r else None, d3))) (seen_opt_ok d)"
      by (rule runs_bind) (auto simp: seen_opt_ok_def [of d None])
  qed (use assms inv in \<open>simp_all add: invalidates_same\<close>)
  have "runs d (do {
      (child, d1) \<leftarrow> Step d parent b;
      if child \<noteq> n then Some (None, Fail ''invalid trie edge'' d1)
      else do {
        (m, d2) \<leftarrow> Match d1 n;
        (r, d3) \<leftarrow> (case m of None \<Rightarrow> Some (Some ks, d2) | Some m \<Rightarrow> verify_key d2 n m ks);
        Some (if available d3 then r else None, d3) } }) (seen_opt_ok d)" if "parent < node_count d" for b
    by (rule runs_bind [OF Step_runs [OF assms(1) that]]) (use key in \<open>auto simp: seen_opt_ok_def [of d None]\<close>)
  then show ?thesis using n p assms(3)
    by (auto simp: verify_node_def seen_opt_ok_def [of d None] seen_opt_ok_def [of d "Some ks"])
qed

lemma verify_nodes_runs [run_rules]:
  "layout_ok d \<Longrightarrow> list_all (\<lambda>n. n < node_count d) ns \<Longrightarrow> seen_ok d ks \<Longrightarrow>
     runs d (verify_nodes d ns ks) (seen_opt_ok d)"
proof (induction ns arbitrary: d ks)
  case (Cons n ns)
  have "runs d1 (case r of None \<Rightarrow> Some (None, d1) | Some ks1 \<Rightarrow> verify_nodes d1 ns ks1) (seen_opt_ok d)"
    if "invalidates d d1" "seen_opt_ok d r" for d1 r
    using Cons.IH [of d1] Cons.prems that
    by (auto simp: invalidates_same invalidates_seen seen_opt_ok_def [of d r] seen_opt_ok_def [of d None] split: option.splits)
  then show ?case unfolding verify_nodes.simps using Cons.prems by (intro runs_bind [OF verify_node_runs]) auto
qed (simp add: seen_opt_ok_def)

lemma verify_records_runs [run_rules]: "layout_ok d \<Longrightarrow> runs d (verify_records d js) (\<lambda>r. True)"
proof (induction js arbitrary: d)
  case (Cons i js)
  then show ?case unfolding verify_records.simps
    by (intro runs_bind [OF Record_runs]) (auto simp: invalidates_same)
qed simp

lemma verify_surfaces_runs [run_rules]:
  "layout_ok d \<Longrightarrow> has_surface_index d \<Longrightarrow> list_all (\<lambda>p. p < entries d) ps \<Longrightarrow>
     runs d (verify_surfaces d ps previous) (\<lambda>r. True)"
proof (induction ps arbitrary: d previous)
  case (Cons p ps)
  then show ?case unfolding verify_surfaces.simps
    by (intro runs_bind [OF SurfaceIndexAt_runs]) (auto simp: invalidates_same split: option.split)
qed simp

lemma verify_refs_runs [run_rules]:
  "layout_ok d \<Longrightarrow> list_all (\<lambda>pos. pos + 8 \<le> length (data d)) ps \<Longrightarrow> runs d (verify_refs d ps) (\<lambda>r. True)"
proof (induction ps)
  case (Cons pos ps)
  then have "\<exists>v. byte_at (data d) (pos + k) = Some v" if "k < 8" for k using that by (simp add: byte_at_Some)
  then obtain k r5 r6 r7 where b: "byte_at (data d) (pos + 4) = Some k" "byte_at (data d) (pos + 5) = Some r5"
    "byte_at (data d) (pos + 6) = Some r6" "byte_at (data d) (pos + 7) = Some r7" by fastforce
  obtain index where "U32 d pos = Some index" using Cons.prems U32_Some [of pos d] by auto
  then show ?case using b Cons by simp
qed simp

lemma verify_tables_runs [run_rules]:
  assumes "layout_ok d"
  shows "runs d (verify_tables d ks) (\<lambda>r. True)"
proof -
  have refs: "runs d' (verify_refs d' (map (\<lambda>i. sec_offset (refs d') + i * 8) [0..<sec_size (refs d') div 8])) (\<lambda>r. True)"
    if "invalidates d d'" for d'
    using assms that ref_inside [of d' 0 "sec_size (refs d') div 8"]
    by (intro verify_refs_runs) (auto simp: invalidates_same list_all_iff Range_def)
  have surfaces: "runs d1 (do {
      (ok, d2) \<leftarrow> (if has_surface_index d1 then verify_surfaces d1 [0..<entries d1] None else Some (True, d1));
      if \<not> ok then Some (False, d2)
      else verify_refs d2 (map (\<lambda>i. sec_offset (refs d2) + i * 8) [0..<sec_size (refs d2) div 8]) }) (\<lambda>r. True)"
    if inv: "invalidates d d1" for d1
  proof (rule runs_bind)
    show "runs d1 (if has_surface_index d1 then verify_surfaces d1 [0..<entries d1] None else Some (True, d1)) (\<lambda>r. True)"
      using assms inv verify_surfaces_runs [of d1 "[0..<entries d1]"] by (auto simp: invalidates_same list_all_iff)
  qed (use refs inv in \<open>auto intro: invalidates_trans\<close>)
  show ?thesis unfolding verify_tables_def
    using surfaces by (auto intro!: runs_bind [OF verify_records_runs [OF assms]])
qed

lemma Verify_runs [run_rules]:
  assumes "layout_ok d"
  shows "runs d (Verify d) (\<lambda>r. True)"
proof -
  obtain hash where hash: "Read (data d) 32 8 = Some hash" using assms by (simp add: layout_ok_def Read_def)
  have "runs d (Option.bind (verify_nodes d [1..<node_count d] (replicate (keys d) False, replicate (keys d) []))
      (\<lambda>(r, d1). case r of None \<Rightarrow> Some (False, d1) | Some ks \<Rightarrow> verify_tables d1 ks)) (\<lambda>r. True)"
    by (rule runs_bind [OF verify_nodes_runs])
      (use assms verify_tables_runs in \<open>auto simp: seen_ok_def list_all_iff invalidates_same split: option.split\<close>)
  then show ?thesis using hash by (auto simp: Verify_def)
qed

section \<open>Any file, any queries\<close>

datatype query =
    Query_Verify
  | Query_Metadata
  | Query_ExactMatch string
  | Query_CommonPrefixSearch string nat
  | Query_PredictiveSearch string nat
  | Query_ReadEntries PrefixMatch
  | Query_LookupSurface string

fun run_query :: "Impl \<Rightarrow> query \<Rightarrow> Impl option" where
  "run_query d Query_Verify = map_option snd (Verify d)"
| "run_query d Query_Metadata = map_option (\<lambda>s. d) (Metadata d)"
| "run_query d (Query_ExactMatch key) = map_option snd (ExactMatch d key)"
| "run_query d (Query_CommonPrefixSearch key maximum) = map_option snd (CommonPrefixSearch d key maximum)"
| "run_query d (Query_PredictiveSearch key maximum) = map_option snd (PredictiveSearch d key maximum)"
| "run_query d (Query_ReadEntries m) = map_option snd (ReadEntries d m)"
| "run_query d (Query_LookupSurface s) = map_option snd (LookupSurface d s)"

fun run_queries :: "Impl \<Rightarrow> query list \<Rightarrow> Impl option" where
  "run_queries d [] = Some d"
| "run_queries d (q # qs) = Option.bind (run_query d q) (\<lambda>d1. run_queries d1 qs)"

text \<open>An object is usable when it is invalid or its layout fits the file.\<close>

definition usable :: "Impl \<Rightarrow> bool" where
  "usable d \<longleftrightarrow> available d \<longrightarrow> layout_ok d"

lemma runs_usable: "layout_ok d \<Longrightarrow> runs d r P \<Longrightarrow> \<exists>d'. (\<exists>a. r = Some (a, d')) \<and> usable d'"
  by (auto simp: runs_def usable_def invalidates_same)

lemma run_query_usable:
  assumes "usable d"
  shows "\<exists>d'. run_query d q = Some d' \<and> usable d'"
proof (cases "available d")
  case True
  with assms have ok: "layout_ok d" by (simp add: usable_def)
  note run = runs_usable [OF ok]
  show ?thesis
  proof (cases q)
    case Query_Metadata
    then show ?thesis using ok assms by (simp add: Metadata_def view_def layout_ok_def inside_def)
  qed (simp_all add: run [OF Verify_runs [OF ok]] run [OF ExactMatch_runs [OF ok]] run [OF CommonPrefixSearch_runs [OF ok]]
    run [OF PredictiveSearch_runs [OF ok]] run [OF ReadEntries_runs [OF ok]] run [OF LookupSurface_runs [OF ok]])
next
  case False
  then show ?thesis using assms
    by (cases q) (simp_all add: Verify_def Metadata_def ExactMatch_def CommonPrefixSearch_def PredictiveSearch_def
      ReadEntries_def LookupSurface_def)
qed

lemma run_queries_usable: "usable d \<Longrightarrow> \<exists>d'. run_queries d qs = Some d' \<and> usable d'"
proof (induction qs arbitrary: d)
  case (Cons q qs)
  then show ?case using run_query_usable [OF Cons.prems, of q] by auto
qed simp

text \<open>C28: Whatever the bytes of a dictionary file are and whatever is asked of it, in any order and
  also after a query has invalidated it, the reader reads only inside the file.\<close>

theorem dictionary_reads_in_bounds:
  "\<exists>ok d d'. Load (Inr bytes) = Some (ok, d) \<and> run_queries d qs = Some d'"
proof -
  obtain ok d where d: "Structure (fresh bytes) = Some (ok, d)" "usable d"
    using Structure_ok [of bytes] by (auto simp: usable_def)
  with run_queries_usable show ?thesis by (fastforce simp: Load_def)
qed

end
