(* ===== verification/TrieSearch.thy ===== *)
theory TrieSearch
  imports TrieVerify
begin

text \<open>
  What the searches of a dictionary return, stated by the exact search: the common prefix search
  gives the exact matches of all prefixes of the key, shortest first; a match records the length
  of its key; and in a verified dictionary every key id is the exact match of one text.
\<close>

section \<open>Valid texts\<close>

lemma valid_from_iff:
  "i \<le> length s \<Longrightarrow> valid_from s i \<longleftrightarrow> (\<exists>cps. drop i s = utf8s cps \<and> list_all (\<lambda>c. is_scalar c \<and> c \<noteq> 0) cps)"
proof (induction s i rule: valid_from.induct)
  case (1 s i)
  show ?case
  proof (cases "i < length s")
    case True
    show ?thesis
    proof (cases "trie_Decode s i")
      case None
      have "False" if "drop i s = utf8s cps" "list_all (\<lambda>c. is_scalar c \<and> c \<noteq> 0) cps" for cps
        using that True None dictionary_decoder.decode_iff [of s i] by (cases cps) auto
      then show ?thesis using True None by (auto simp: valid_from.simps [of s i])
    next
      case (Some r)
      obtain cp j where r: "r = (cp, j)" by fastforce
      then obtain t where cp: "is_scalar cp" "cp \<noteq> 0" "drop i s = utf8 cp @ t" "j = i + length (utf8 cp)"
        using Some dictionary_decoder.decode_iff [of s i cp j] by auto
      have "drop (length (utf8 cp)) (drop i s) = t" using cp(3) by simp
      then have j: "drop j s = t" "j \<le> length s"
        using cp(4) dictionary_decoder.decode_progress [of s i cp j] Some r by (simp_all add: add.commute)
      have "(\<exists>cps. drop i s = utf8s cps \<and> list_all (\<lambda>c. is_scalar c \<and> c \<noteq> 0) cps) \<longleftrightarrow>
          (\<exists>cps. t = utf8s cps \<and> list_all (\<lambda>c. is_scalar c \<and> c \<noteq> 0) cps)" (is "?L \<longleftrightarrow> ?R")
      proof
        assume ?R
        then obtain cps where "t = utf8s cps" "list_all (\<lambda>c. is_scalar c \<and> c \<noteq> 0) cps" by blast
        then show ?L using cp by (intro exI [of _ "cp # cps"]) simp
      next
        assume ?L
        then obtain cps where cps: "drop i s = utf8s cps" "list_all (\<lambda>c. is_scalar c \<and> c \<noteq> 0) cps" by blast
        then obtain c cs where c: "cps = c # cs" using True by (cases cps) auto
        then have "trie_Decode s i = Some (c, i + length (utf8 c))"
          using cps dictionary_decoder.decode_iff [of s i c] by auto
        then have "c = cp" using Some r by simp
        then show ?R using cps c cp(3) by auto
      qed
      then show ?thesis using True Some r j "1.IH" [OF True Some r [symmetric]] by (simp add: valid_from.simps [of s i])
    qed
  next
    case False
    then have "valid_from s i" "drop i s = utf8s []" using "1.prems" by (simp_all add: valid_from.simps)
    then show ?thesis by (metis list.pred_inject(1))
  qed
qed

lemma IsValidUtf8_iff: "IsValidUtf8 s \<longleftrightarrow> (\<exists>cps. s = utf8s cps \<and> list_all (\<lambda>c. is_scalar c \<and> c \<noteq> 0) cps)"
  using valid_from_iff [of 0 s] by (simp add: IsValidUtf8_def)

lemma utf8_not_Nil [simp]: "utf8 c \<noteq> []"
  by (simp add: AppendUtf8_def)

lemma utf8_prefix_eq:
  assumes "is_scalar c" "is_scalar c'" "utf8 c @ t = utf8 c' @ t'"
  shows "c = c'"
proof -
  have "decode_next (utf8 c @ t) 0 = Some (c, length (utf8 c))"
    using core_decoder.decode_encoded [OF assms(1), of "[]" t] by simp
  moreover have "decode_next (utf8 c' @ t') 0 = Some (c', length (utf8 c'))"
    using core_decoder.decode_encoded [OF assms(2), of "[]" t'] by simp
  ultimately show ?thesis using assms(3) by simp
qed

text \<open>A prefix of a valid text is valid exactly when it does not end inside a character.\<close>

lemma valid_prefix:
  "list_all (\<lambda>c. is_scalar c \<and> c \<noteq> 0) cps \<Longrightarrow> k < length (utf8s cps) \<Longrightarrow>
     IsValidUtf8 (take k (utf8s cps)) \<longleftrightarrow> \<not> is_continuation (utf8s cps ! k)"
proof (induction cps arbitrary: k)
  case (Cons c cps)
  obtain b bs where u: "utf8 c = b # bs" using utf8_not_Nil [of c] by (cases "utf8 c") auto
  have lead: "\<not> is_continuation b" "list_all is_continuation bs" using utf8_lead [of c] Cons.prems u by auto
  consider "k = 0" | "0 < k" "k < length (utf8 c)" | "length (utf8 c) \<le> k" by linarith
  then show ?case
  proof cases
    case 1
    then show ?thesis using lead u by (auto simp: IsValidUtf8_iff intro: exI [of _ "[]"])
  next
    case 2
    have "\<not> IsValidUtf8 (take k (utf8s (c # cps)))"
    proof
      assume "IsValidUtf8 (take k (utf8s (c # cps)))"
      then obtain cs where cs: "take k (utf8 c) = utf8s cs" "list_all (\<lambda>c. is_scalar c \<and> c \<noteq> 0) cs"
        using 2 by (auto simp: IsValidUtf8_iff)
      then obtain c' cs' where "cs = c' # cs'" using 2 u by (cases cs) auto
      with cs have c': "take k (utf8 c) = utf8 c' @ utf8s cs'" "is_scalar c'" by simp_all
      then have "utf8 c @ [] = utf8 c' @ utf8s cs' @ drop k (utf8 c)"
        using append_take_drop_id [of k "utf8 c"] by simp
      from utf8_prefix_eq [OF _ c'(2) this] have "c = c'" using Cons.prems(1) by simp
      then show False using arg_cong [OF c'(1), of length] 2 by simp
    qed
    moreover have "is_continuation (utf8s (c # cps) ! k)"
      using 2 u lead by (cases k) (auto simp: nth_append list_all_length)
    ultimately show ?thesis by simp
  next
    case 3
    have "IsValidUtf8 (utf8 c @ x) \<longleftrightarrow> IsValidUtf8 x" for x
    proof
      assume "IsValidUtf8 x"
      then obtain cs where "x = utf8s cs" "list_all (\<lambda>c. is_scalar c \<and> c \<noteq> 0) cs" by (auto simp: IsValidUtf8_iff)
      then show "IsValidUtf8 (utf8 c @ x)" using Cons.prems by (auto simp: IsValidUtf8_iff intro!: exI [of _ "c # cs"])
    next
      assume "IsValidUtf8 (utf8 c @ x)"
      then obtain cs where cs: "utf8 c @ x = utf8s cs" "list_all (\<lambda>c. is_scalar c \<and> c \<noteq> 0) cs" by (auto simp: IsValidUtf8_iff)
      then obtain c' cs' where c': "cs = c' # cs'" using u by (cases cs) auto
      then have "c = c'" using utf8_prefix_eq [of c c' x "utf8s cs'"] cs Cons.prems by simp
      then show "IsValidUtf8 x" using cs c' by (auto simp: IsValidUtf8_iff)
    qed
    then show ?thesis using 3 Cons.IH [of "k - length (utf8 c)"] Cons.prems by (simp add: nth_append take_append)
  qed
qed simp

section \<open>Searching from the root\<close>

text \<open>The match at the end of a path, when there is one.\<close>

definition match_at :: "Impl \<Rightarrow> nat \<Rightarrow> PrefixMatch option" where
  "match_at d st = (case Match d st of Some (m, _) \<Rightarrow> m | None \<Rightarrow> None)"

definition exact :: "Impl \<Rightarrow> string \<Rightarrow> PrefixMatch option" where
  "exact d key = (case ExactMatch d key of Some (m, _) \<Rightarrow> m | None \<Rightarrow> None)"

text \<open>The path of a text, without the failures.\<close>

fun path :: "Impl \<Rightarrow> nat \<Rightarrow> string \<Rightarrow> nat option" where
  "path d st [] = Some st"
| "path d st (c # cs) =
     (case Step d st (ord c) of Some (n, _) \<Rightarrow> if n = kNone then None else path d n cs | None \<Rightarrow> None)"

lemma path_append: "path d st (xs @ ys) = Option.bind (path d st xs) (\<lambda>n. path d n ys)"
  by (induction xs arbitrary: st) (auto split: option.split)

lemma walk_path: "walk d st cs = Some (n, d') \<Longrightarrow> st \<noteq> kNone \<Longrightarrow>
    (if n = kNone then path d st cs = None else d' = d \<and> path d st cs = Some n)"
proof (induction cs arbitrary: st)
  case (Cons c cs)
  then obtain m d1 where s: "Step d st (ord c) = Some (m, d1)" by (auto simp: bind_eq_Some_conv)
  show ?case
  proof (cases "m = kNone")
    case True
    then show ?thesis using Cons.prems s by auto
  next
    case False
    then have "d1 = d" using Step_child [OF s] by simp
    then show ?thesis using Cons.IH [of m] Cons.prems s False by simp
  qed
qed auto

lemma zero_not_kNone [simp]: "0 \<noteq> kNone" "kNone \<noteq> 0"
  by (simp_all add: kNone_def)

lemma exact_path:
  assumes "layout_ok d" "available d" "key \<noteq> []"
  shows "exact d key = (if IsValidUtf8 key then Option.bind (path d 0 key) (match_at d) else None)"
proof -
  obtain n d' where w: "walk d 0 key = Some (n, d')"
    using walk_runs [OF assms(1) root_is_node [OF assms(1)], of key] by (auto simp: runs_def)
  show ?thesis using walk_path [OF w] w assms(2,3)
    by (auto simp: exact_def ExactMatch_def match_at_def split: if_splits)
qed

lemma path_depth: "path d st cs = Some n \<Longrightarrow> depth_of d n = depth_of d st + length cs"
proof (induction cs arbitrary: st)
  case (Cons c cs)
  then obtain m d1 where "Step d st (ord c) = Some (m, d1)" "m \<noteq> kNone" "path d m cs = Some n"
    by (auto split: option.splits if_splits)
  with Cons.IH [of m] Step_child [of d st "ord c" m d1] show ?case by simp
qed simp

lemma Match_length: "Match d n = Some (Some m, d') \<Longrightarrow> key_length m = depth_of d n \<and> d' = d"
  by (auto simp: Match_def depth_of_def bind_eq_Some_conv Let_def split: if_splits)

lemma exact_key_length:
  assumes "layout_ok d" "root_ok d" "available d" "exact d key = Some m"
  shows "key_length m = length key"
proof -
  have "key \<noteq> []" using assms(4) by (auto simp: exact_def ExactMatch_def)
  then obtain n where "path d 0 key = Some n" "match_at d n = Some m"
    using assms exact_path by (auto split: if_splits simp: bind_eq_Some_conv)
  then show ?thesis using path_depth [of d 0 key n] Match_length assms(2)
    by (auto simp: match_at_def root_ok_def depth_of_def split: option.splits)
qed

section \<open>The common prefix search\<close>

definition exact_prefixes :: "Impl \<Rightarrow> string \<Rightarrow> nat \<Rightarrow> PrefixMatch list" where
  "exact_prefixes d key consumed = List.map_filter (\<lambda>k. exact d (take k key)) [Suc consumed..<Suc (length key)]"

definition at_most :: "nat \<Rightarrow> 'a list \<Rightarrow> 'a list" where
  "at_most maximum xs = (if maximum = 0 then xs else take maximum xs)"

lemma exact_prefixes_step:
  "consumed < length key \<Longrightarrow> exact_prefixes d key consumed =
     (case exact d (take (Suc consumed) key) of None \<Rightarrow> [] | Some m \<Rightarrow> [m]) @ exact_prefixes d key (Suc consumed)"
  by (simp add: exact_prefixes_def upt_conv_Cons [of "Suc consumed"] List.map_filter_simps del: upt_Suc split: option.split)

lemma prefix_loop_invalidates: "prefix_loop key maximum d st consumed out cs = Some (out', d') \<Longrightarrow> invalidates d d'"
proof (induction cs arbitrary: d st consumed out)
  case (Cons c cs)
  then obtain n d1 where s: "Step d st (ord c) = Some (n, d1)" by (auto simp: bind_eq_Some_conv)
  show ?case
  proof (cases "n = kNone")
    case False
    with s Cons.prems obtain m d2 where m: "Match d1 n = Some (m, d2)" by (auto simp: bind_eq_Some_conv)
    have inv: "invalidates d d2" using Step_invalidates [OF s] Match_invalidates [OF m] by (rule invalidates_trans)
    have "invalidates d2 d'" using Cons.prems Cons.IH s m False by (auto simp: Let_def split: option.splits if_splits)
    then show ?thesis using inv by (blast intro: invalidates_trans)
  qed (use Cons.prems s Step_invalidates [OF s] in auto)
qed simp

lemma invalidates_back: "invalidates d d1 \<Longrightarrow> invalidates d1 d' \<Longrightarrow> available d' \<Longrightarrow> d1 = d \<and> d' = d"
  by (auto simp: invalidates_def)

lemma path_dead: "path d 0 pre = Some st \<Longrightarrow> path d st [c] = None \<Longrightarrow> path d 0 (pre @ c # cs) = None"
  by (auto simp: path_append split: option.splits if_splits)

lemma at_most_done: "length xs = maximum \<Longrightarrow> maximum \<noteq> 0 \<Longrightarrow> at_most maximum (xs @ ys) = xs"
  by (simp add: at_most_def)

lemma valid_prefix_of_key:
  assumes "IsValidUtf8 (pre @ cs)" "\<not> (cs \<noteq> [] \<and> is_continuation (hd cs))"
  shows "IsValidUtf8 pre"
proof (cases cs)
  case (Cons c cs')
  from assms(1) obtain cps where cps: "pre @ cs = utf8s cps" "list_all (\<lambda>c. is_scalar c \<and> c \<noteq> 0) cps"
    by (auto simp: IsValidUtf8_iff)
  have "length pre < length (utf8s cps)" using arg_cong [OF cps(1), of length] Cons by simp
  from valid_prefix [OF cps(2) this] show ?thesis using assms(2) Cons by (simp add: cps(1) [symmetric])
qed (use assms in simp)

lemma prefix_loop_exact:
  assumes "layout_ok d" "available d" "IsValidUtf8 key"
  shows "prefix_loop key maximum d st (length pre) out cs = Some (out', d') \<Longrightarrow> available d' \<Longrightarrow>
    key = pre @ cs \<Longrightarrow> path d 0 pre = Some st \<Longrightarrow> maximum = 0 \<or> length out < maximum \<Longrightarrow>
    out' = at_most maximum (out @ exact_prefixes d key (length pre))"
proof (induction cs arbitrary: pre st out)
  case Nil
  then show ?case by (auto simp: exact_prefixes_def at_most_def List.map_filter_simps)
next
  case (Cons c cs)
  let ?pre = "pre @ [c]"
  have key: "key = ?pre @ cs" "take (Suc (length pre)) key = ?pre" using Cons.prems(3) by simp_all
  obtain n d1 where s: "Step d st (ord c) = Some (n, d1)" using Cons.prems(1) by (auto simp: bind_eq_Some_conv)
  show ?case
  proof (cases "n = kNone")
    case True
    then have dead: "path d st [c] = None" using s by simp
    have "exact d (take k key) = None" if "Suc (length pre) \<le> k" for k
    proof -
      have "take k key = pre @ c # take (k - Suc (length pre)) cs" using that Cons.prems(3) by (simp add: take_Cons')
      then show ?thesis using exact_path [OF assms(1,2)] path_dead [OF Cons.prems(4) dead] by simp
    qed
    then have "exact_prefixes d key (length pre) = []"
      by (auto simp: exact_prefixes_def List.map_filter_def filter_empty_conv)
    then show ?thesis using Cons.prems s True by (auto simp: at_most_def)
  next
    case False
    then have d1: "d1 = d" using Step_child [OF s] by simp
    have path: "path d 0 ?pre = Some n" using Cons.prems(4) s False by (simp add: path_append)
    obtain m d2 where m: "Match d n = Some (m, d2)" using Cons.prems(1) s False d1 by (auto simp: bind_eq_Some_conv)
    have step: "exact_prefixes d key (length pre) =
        (case exact d ?pre of None \<Rightarrow> [] | Some m \<Rightarrow> [m]) @ exact_prefixes d key (length ?pre)"
      using exact_prefixes_step [of "length pre" key d] key Cons.prems(3) by simp
    show ?thesis
    proof (cases m)
      case None
      then have loop: "prefix_loop key maximum d2 n (length ?pre) out cs = Some (out', d')"
        using Cons.prems(1) s False d1 m by simp
      then have "d2 = d"
        using invalidates_back [OF Match_invalidates [OF m] prefix_loop_invalidates [OF loop] Cons.prems(2)] by simp
      moreover have "exact d ?pre = None" using exact_path [OF assms(1,2), of ?pre] path m None by (simp add: match_at_def)
      ultimately show ?thesis using Cons.IH [OF _ Cons.prems(2) key(1) path Cons.prems(5)] loop step by simp
    next
      case (Some pm)
      then have d2: "d2 = d" using Match_length m by blast
      have rest: "cs \<noteq> [] \<Longrightarrow> key ! Suc (length pre) = hd cs" "Suc (length pre) < length key \<longleftrightarrow> cs \<noteq> []"
        using Cons.prems(3) by (auto simp: nth_append hd_conv_nth)
      have "\<not> (cs \<noteq> [] \<and> is_continuation (hd cs))"
        using Cons.prems(1,2) s False d1 m Some rest by (auto simp: Let_def is_continuation_def split: if_splits)
      then have "IsValidUtf8 ?pre" using valid_prefix_of_key [of ?pre cs] assms(3) key(1) by simp
      then have ex: "exact d ?pre = Some pm" using exact_path [OF assms(1,2), of ?pre] path m Some by (simp add: match_at_def)
      show ?thesis
      proof (cases "maximum \<noteq> 0 \<and> length (out @ [pm]) = maximum")
        case True
        then have "out' = out @ [pm]"
          using Cons.prems(1,2) s False d1 m Some by (auto simp: Let_def split: if_splits)
        then show ?thesis using True ex step at_most_done [of "out @ [pm]"] by simp
      next
        case more: False
        then have "prefix_loop key maximum d n (length ?pre) (out @ [pm]) cs = Some (out', d')"
          using Cons.prems(1,2) s False d1 m Some d2 by (auto simp: Let_def split: if_splits)
        from Cons.IH [OF this Cons.prems(2) key(1) path] show ?thesis using more Cons.prems(5) ex step by auto
      qed
    qed
  qed
qed

lemma Load_facts:
  assumes "Load (Inr bytes) = Some (True, d)"
  shows "layout_ok d" "root_ok d" "available d"
  using assms Structure_ok [of bytes] by (auto simp: Load_def)

lemma exact_prefixes_sound:
  assumes "layout_ok d" "root_ok d" "available d" "m \<in> set (exact_prefixes d key 0)"
  shows "exact d (take (key_length m) key) = Some m"
proof -
  from assms(4) obtain k where k: "k \<le> length key" "exact d (take k key) = Some m"
    by (auto simp: exact_prefixes_def List.map_filter_def less_Suc_eq_le simp del: upt_Suc)
  then show ?thesis using exact_key_length [OF assms(1-3), of "take k key" m] by simp
qed

text \<open>C29: In a dictionary that loads, the common prefix search returns the exact matches of the
  prefixes of the key, shortest first, each once and no more than the maximum; each match says how
  long its prefix is. A result is given unless the search meets a malformed reference.\<close>

theorem CommonPrefixSearch_exact:
  assumes "Load (Inr bytes) = Some (True, d)" "IsValidUtf8 key"
    "CommonPrefixSearch d key maximum = Some (out, d')" "available d'"
  shows "out = at_most maximum (List.map_filter (\<lambda>k. exact d (take k key)) [1..<Suc (length key)]) \<and>
    list_all (\<lambda>m. exact d (take (key_length m) key) = Some m) out"
proof -
  note ok = Load_facts [OF assms(1)]
  have out: "out = at_most maximum (exact_prefixes d key 0)"
  proof (cases "key = []")
    case True
    then show ?thesis using assms(3) by (simp add: CommonPrefixSearch_def exact_prefixes_def at_most_def List.map_filter_simps)
  next
    case False
    then obtain out1 where "prefix_loop key maximum d 0 0 [] key = Some (out1, d')" "out = out1"
      using assms(2,3,4) ok(3) by (auto simp: CommonPrefixSearch_def bind_eq_Some_conv)
    then show ?thesis using prefix_loop_exact [OF ok(1,3) assms(2), of maximum 0 "[]" "[]" key out1 d'] assms(4) by (simp add: neq0_conv [symmetric] del: neq0_conv)
  qed
  moreover have "set (at_most maximum xs) \<subseteq> set xs" for xs :: "PrefixMatch list" by (simp add: at_most_def set_take_subset)
  ultimately show ?thesis using exact_prefixes_sound [OF ok] by (fastforce simp: exact_prefixes_def list_all_iff)
qed

end
