(* ===== verification/TrieVerified.thy ===== *)
theory TrieVerified
  imports TrieSearch
begin

text \<open>
  What the full check of a dictionary guarantees: the nodes form a tree in which the text read
  upwards from a node is the text that leads down to it, so that the exact search for the text of
  a key finds that key and no other, and the entries of a key are those whose reading it is.
\<close>

section \<open>Successful steps leave the object alone\<close>

lemma Surface_same: "Surface d i = Some (Some v, d') \<Longrightarrow> d' = d"
  by (auto simp: Surface_def bind_eq_Some_conv Let_def split: if_splits)

lemma SurfaceIndexAt_same: "SurfaceIndexAt d p = Some (Some v, d') \<Longrightarrow> d' = d"
  by (auto simp: SurfaceIndexAt_def bind_eq_Some_conv dest: Surface_same split: if_splits)

lemma string_at_same: "string_at d pos f = Some (Some v, d') \<Longrightarrow> d' = d"
  by (auto simp: string_at_def bind_eq_Some_conv split: if_splits)

lemma checked_fields_same: "checked_fields d pos s r = Some (Some e, d') \<Longrightarrow> d' = d"
  by (auto simp: checked_fields_def bind_eq_Some_conv split: if_splits)

lemma Record_same: "Record d i = Some (Some e, d') \<Longrightarrow> d' = d"
  by (auto simp: Record_def bind_eq_Some_conv Let_def dest: string_at_same checked_fields_same split: if_splits option.splits)

lemma read_refs_same: "read_refs d ps out = Some (Some es, d') \<Longrightarrow> d' = d"
proof (induction ps arbitrary: d out)
  case (Cons p ps)
  then show ?case by (auto simp: bind_eq_Some_conv dest: Record_same split: if_splits option.splits)
qed simp

lemma ReadEntries_same: "ReadEntries d m = Some (Some es, d') \<Longrightarrow> d' = d"
  by (auto simp: ReadEntries_def bind_eq_Some_conv Let_def dest: read_refs_same split: if_splits)

section \<open>The nodes that the check has visited\<close>

definition edge_ok :: "Impl \<Rightarrow> nat \<Rightarrow> bool" where
  "edge_ok d n \<longleftrightarrow> (\<exists>parent base. Node d n 4 = Some parent \<and> parent < node_count d \<and> Node d parent 4 \<noteq> Some kNone \<and>
     Node d parent 0 = Some base \<and> base < n \<and> n - base \<le> 255 \<and> Step d parent (n - base) = Some (n, d))"

definition key_ok :: "Impl \<Rightarrow> nat \<Rightarrow> PrefixMatch \<Rightarrow> bool" where
  "key_ok d n m \<longleftrightarrow> (\<exists>key es. ancestry d n [] = Some (Some key) \<and> IsValidUtf8 key \<and>
     ReadEntries d m = Some (Some es, d) \<and> list_all (key_fits key) es)"

text \<open>The key that a used node carries.\<close>

definition node_key :: "Impl \<Rightarrow> nat \<Rightarrow> PrefixMatch option" where
  "node_key d n = (if Node d n 4 = Some kNone then None else match_at d n)"

lemma verify_key_Some:
  assumes "verify_key d n m (seen, texts) = Some (Some ks', d')"
  shows "d' = d \<and> key_ok d n m \<and> \<not> seen ! key_id m \<and> key_id m < length seen \<and> fst ks' = seen[key_id m := True]"
proof -
  from assms have g: "key_id m < length seen" "key_id m < length texts" "\<not> seen ! key_id m"
    by (auto simp: verify_key_def split: if_splits)
  with assms obtain r where r: "ancestry d n [] = Some r" by (auto simp: verify_key_def bind_eq_Some_conv)
  with assms g obtain key where key: "r = Some key" "IsValidUtf8 key"
    by (cases r) (auto simp: verify_key_def split: if_splits)
  with assms g r obtain es d1 where es: "ReadEntries d m = Some (es, d1)" by (auto simp: verify_key_def bind_eq_Some_conv)
  with assms g r key obtain es' where "es = Some es'" "list_all (key_fits key) es'" "ks' = (seen[key_id m := True], texts[key_id m := key])"
    "d' = d1"
    by (cases es) (auto simp: verify_key_def split: if_splits)
  then show ?thesis using g r key es ReadEntries_same [of d m es' d1] by (auto simp: key_ok_def)
qed

lemma verify_node_Some:
  assumes "verify_node d n ks = Some (Some ks', d')" "n \<noteq> kNone"
  shows "d' = d \<and> (Node d n 4 = Some kNone \<or> edge_ok d n) \<and>
    (case node_key d n of
       None \<Rightarrow> ks' = ks
     | Some m \<Rightarrow> key_ok d n m \<and> \<not> fst ks ! key_id m \<and> key_id m < length (fst ks) \<and> fst ks' = (fst ks)[key_id m := True])"
proof (cases "Node d n 4 = Some kNone")
  case True
  then show ?thesis using assms by (auto simp: verify_node_def node_key_def)
next
  case False
  then obtain parent grand pd depth base child d1 m d2 r where
    e: "Node d n 4 = Some parent" "parent < node_count d" "Node d parent 4 = Some grand" "grand \<noteq> kNone"
    "Node d parent 12 = Some pd" "Node d n 12 = Some depth" "Node d parent 0 = Some base" "base < n" "n - base \<le> 255"
    "Step d parent (n - base) = Some (child, d1)" "child = n" "Match d1 n = Some (m, d2)"
    "(case m of None \<Rightarrow> Some (Some ks, d2) | Some m \<Rightarrow> verify_key d2 n m ks) = Some (r, d')" "available d'" "r = Some ks'"
    using assms(1) by (auto simp: verify_node_def bind_eq_Some_conv not_le split: if_splits)
  have d1: "d1 = d" using Step_child e(10,11) assms(2) by blast
  then have edge: "edge_ok d n" using e by (auto simp: edge_ok_def)
  show ?thesis
  proof (cases m)
    case None
    then have "d2 = d" "d' = d2" "ks' = ks" using e Match_invalidates [of d n m d2] d1 by (auto simp: invalidates_def)
    then show ?thesis using edge None e(12) d1 False by (simp add: node_key_def match_at_def)
  next
    case (Some pm)
    then have "d2 = d" using e(12) d1 Match_length by blast
    then show ?thesis using edge Some e(12,13,15) d1 False verify_key_Some [of d n pm "fst ks" "snd ks" ks' d']
      by (simp add: node_key_def match_at_def)
  qed
qed

lemma verify_nodes_Some:
  "verify_nodes d ns ks = Some (Some ks', d') \<Longrightarrow> \<forall>n \<in> set ns. n \<noteq> kNone \<Longrightarrow>
     d' = d \<and> (\<forall>n \<in> set ns. Node d n 4 = Some kNone \<or> edge_ok d n) \<and>
     (\<forall>n \<in> set ns. \<forall>m. node_key d n = Some m \<longrightarrow> key_ok d n m \<and> \<not> fst ks ! key_id m \<and> fst ks' ! key_id m) \<and>
     (\<forall>k < length (fst ks). fst ks' ! k \<longrightarrow> fst ks ! k \<or> (\<exists>n \<in> set ns. \<exists>m. node_key d n = Some m \<and> key_id m = k)) \<and>
     (\<forall>k < length (fst ks). fst ks ! k \<longrightarrow> fst ks' ! k) \<and> length (fst ks') = length (fst ks) \<and>
     (\<forall>a \<in> set ns. \<forall>b \<in> set ns. \<forall>m m'. node_key d a = Some m \<and> node_key d b = Some m' \<and> key_id m = key_id m' \<longrightarrow> a = b)"
proof (induction ns arbitrary: d ks)
  case (Cons n ns)
  then obtain ks1 d1 where 1: "verify_node d n ks = Some (Some ks1, d1)" and 2: "verify_nodes d1 ns ks1 = Some (Some ks', d')"
    by (auto simp: bind_eq_Some_conv split: option.splits)
  note n = verify_node_Some [OF 1]
  have d1: "d1 = d" using n Cons.prems(2) by simp
  have IH: "d' = d" "\<forall>n \<in> set ns. Node d n 4 = Some kNone \<or> edge_ok d n"
    "\<forall>n \<in> set ns. \<forall>m. node_key d n = Some m \<longrightarrow> key_ok d n m \<and> \<not> fst ks1 ! key_id m \<and> fst ks' ! key_id m"
    "\<forall>k < length (fst ks1). fst ks' ! k \<longrightarrow> fst ks1 ! k \<or> (\<exists>n \<in> set ns. \<exists>m. node_key d n = Some m \<and> key_id m = k)"
    "\<forall>k < length (fst ks1). fst ks1 ! k \<longrightarrow> fst ks' ! k" "length (fst ks') = length (fst ks1)"
    "\<forall>a \<in> set ns. \<forall>b \<in> set ns. \<forall>m m'. node_key d a = Some m \<and> node_key d b = Some m' \<and> key_id m = key_id m' \<longrightarrow> a = b"
    using Cons.IH [OF 2] Cons.prems(2) d1 by auto
  show ?case
  proof (cases "node_key d n")
    case None
    then have "ks1 = ks" using n Cons.prems(2) by simp
    then show ?thesis using IH n Cons.prems(2) None by auto
  next
    case (Some m)
    then have m: "key_ok d n m" "\<not> fst ks ! key_id m" "key_id m < length (fst ks)" "fst ks1 = (fst ks)[key_id m := True]"
      "Node d n 4 = Some kNone \<or> edge_ok d n"
      using n Cons.prems(2) by auto
    have mono: "fst ks ! k \<Longrightarrow> fst ks1 ! k" for k using m(2,4) by (metis nth_list_update_neq)
    have "fst ks' ! key_id m" using IH(5) m(3,4) by simp
    moreover have "\<forall>k < length (fst ks). fst ks' ! k \<longrightarrow> fst ks ! k \<or> (\<exists>n' \<in> set (n # ns). \<exists>m. node_key d n' = Some m \<and> key_id m = k)"
      using IH(4) m(3,4) Some by (auto simp: nth_list_update split: if_splits)
    moreover have "fst ks1 ! key_id m" using m(3,4) by simp
    then have "\<forall>b \<in> set ns. \<forall>m'. node_key d b = Some m' \<longrightarrow> key_id m' \<noteq> key_id m" using IH(3) by auto
    ultimately show ?thesis using IH m Some mono by (auto; metis option.inject)
  qed
qed auto

section \<open>The tree\<close>

definition tree_ok :: "Impl \<Rightarrow> bool" where
  "tree_ok d \<longleftrightarrow> (\<forall>n. 0 < n \<and> n < node_count d \<longrightarrow> Node d n 4 = Some kNone \<or> edge_ok d n)"

lemma node_not_kNone: "layout_ok d \<Longrightarrow> n < node_count d \<Longrightarrow> n \<noteq> kNone"
  by (auto simp: layout_ok_def sizes_ok_def node_count_def kNone_def)

lemma edge_path:
  assumes "layout_ok d" "edge_ok d n" "n < node_count d"
  obtains up base where "Node d n 4 = Some up" "up < node_count d" "Node d up 4 \<noteq> Some kNone" "Node d up 0 = Some base"
    "ord (byte (n + 0x100000000 - base)) = n - base" "path d up [byte (n + 0x100000000 - base)] = Some n"
proof -
  from assms(2) obtain up base where u: "Node d n 4 = Some up" "up < node_count d" "Node d up 4 \<noteq> Some kNone"
    "Node d up 0 = Some base" "base < n" "n - base \<le> 255" "Step d up (n - base) = Some (n, d)"
    by (auto simp: edge_ok_def)
  have "(n + 0x100000000 - base) mod 256 = (n - base + 0x100000000) mod 256" using u(5) by (simp add: add.commute)
  also have "\<dots> = n - base" using u(6) by (simp add: mod_add_right_eq [symmetric])
  finally have "ord (byte (n + 0x100000000 - base)) = n - base" by simp
  then show thesis using u node_not_kNone [OF assms(1,3)] by (intro that [of up base]) auto
qed

text \<open>The text collected on the way up leads down to the node.\<close>

lemma ancestry_path:
  assumes "layout_ok d" "tree_ok d"
  shows "n < node_count d \<Longrightarrow> Node d n 4 \<noteq> Some kNone \<Longrightarrow> ancestry d n acc = Some (Some key) \<Longrightarrow>
    \<exists>t. key = t @ acc \<and> path d 0 t = Some n"
proof (induction "depth_of d n" arbitrary: n acc rule: less_induct)
  case less
  show ?case
  proof (cases "n = 0")
    case True
    then show ?thesis using less.prems(3) by (simp add: ancestry.simps)
  next
    case False
    then have "edge_ok d n" using assms(2) less.prems(1,2) by (auto simp: tree_ok_def)
    from edge_path [OF assms(1) this less.prems(1)] obtain up base where
      u: "Node d n 4 = Some up" "up < node_count d" "Node d up 4 \<noteq> Some kNone" "Node d up 0 = Some base"
        "path d up [byte (n + 0x100000000 - base)] = Some n" by blast
    obtain up_depth depth where dd: "Node d up 12 = Some up_depth" "Node d n 12 = Some depth"
      using Node_Some [OF assms(1), of _ 12] u(2) less.prems(1) by fastforce
    have lt: "up_depth < depth" and an: "ancestry d up (byte (n + 0x100000000 - base) # acc) = Some (Some key)"
      using less.prems(3) False u(1,2,4) dd by (simp_all add: ancestry.simps [of d n] split: if_splits)
    have "depth_of d up < depth_of d n" using lt dd by (simp add: depth_of_def)
    from less.hyps [OF this u(2,3) an] obtain t where
      "key = t @ byte (n + 0x100000000 - base) # acc" "path d 0 t = Some up" by blast
    then show ?thesis using u(5) by (intro exI [of _ "t @ [byte (n + 0x100000000 - base)]"]) (simp add: path_append)
  qed
qed

text \<open>A node is reached by one text only, and the nodes that are reached are in use.\<close>

lemma Step_parent: "Step d st b = Some (n, d') \<Longrightarrow> n \<noteq> kNone \<Longrightarrow>
    Node d n 4 = Some st \<and> (\<exists>base. Node d st 0 = Some base \<and> n = base + b)"
  by (auto simp: Step_def bind_eq_Some_conv Let_def split: if_splits)

lemma path_snoc:
  assumes "path d st (t @ [c]) = Some n"
  obtains up base where "path d st t = Some up" "Node d n 4 = Some up" "Node d up 0 = Some base" "n = base + ord c"
    "n < node_count d" "depth_of d n = Suc (depth_of d up)"
proof -
  from assms obtain up m d1 where u: "path d st t = Some up" "Step d up (ord c) = Some (m, d1)" "m \<noteq> kNone" "m = n"
    by (auto simp: path_append bind_eq_Some_conv split: option.splits if_splits)
  then show thesis using that Step_parent [OF u(2,3)] Step_child [OF u(2,3)] by auto
qed

lemma path_unique:
  assumes "root_ok d"
  shows "path d 0 t = Some n \<Longrightarrow> path d 0 t' = Some n \<Longrightarrow> t = t'"
proof (induction t arbitrary: t' n rule: rev_induct)
  case Nil
  then show ?case using path_depth [of d 0 t' n] by simp
next
  case (snoc c t)
  from path_snoc [OF snoc.prems(1)] obtain up base where u: "path d 0 t = Some up" "Node d n 4 = Some up"
    "Node d up 0 = Some base" "n = base + ord c" by blast
  have "t' \<noteq> []" using path_depth [OF snoc.prems(1)] path_depth [OF snoc.prems(2)] by auto
  then obtain s e where t': "t' = s @ [e]" by (metis append_butlast_last_id)
  from path_snoc [OF snoc.prems(2) [unfolded t']] obtain up' base' where
    u': "path d 0 s = Some up'" "Node d n 4 = Some up'" "Node d up' 0 = Some base'" "n = base' + ord e" by blast
  have "up' = up" "base' = base" using u u' by auto
  then have "t = s" "ord c = ord e" using snoc.IH [OF u(1), of s] u u' by auto
  then show ?case using t' by (simp add: ord_eq_iff)
qed

lemma path_bound: "path d st t = Some n \<Longrightarrow> st < node_count d \<Longrightarrow> n < node_count d"
proof (induction t arbitrary: st)
  case (Cons c t)
  then obtain m d1 where "Step d st (ord c) = Some (m, d1)" "m \<noteq> kNone" "path d m t = Some n"
    by (auto split: option.splits if_splits)
  with Cons.IH [of m] Step_child [of d st "ord c" m d1] show ?case by simp
qed simp

lemma path_node:
  assumes "layout_ok d" "root_ok d" "path d 0 t = Some n" "t \<noteq> []"
  shows "0 < n \<and> n < node_count d \<and> Node d n 4 \<noteq> Some kNone"
proof -
  obtain s c where t: "t = s @ [c]" using assms(4) by (metis append_butlast_last_id)
  from path_snoc [OF assms(3) [unfolded t]] obtain up where
    u: "path d 0 s = Some up" "Node d n 4 = Some up" "n < node_count d" "depth_of d n = Suc (depth_of d up)" by blast
  have "up \<noteq> kNone" using node_not_kNone [OF assms(1) path_bound [OF u(1) root_is_node [OF assms(1)]]] .
  moreover have "depth_of d 0 = 0" using assms(2) by (simp add: root_ok_def depth_of_def)
  moreover from this have "n \<noteq> 0" using u(4) by (metis nat.distinct(1))
  ultimately show ?thesis using u by simp
qed

section \<open>A verified dictionary\<close>

lemma verify_records_True: "verify_records d js = Some (True, d') \<Longrightarrow> d' = d \<and> (\<forall>i \<in> set js. \<exists>e. Record d i = Some (Some e, d))"
proof (induction js arbitrary: d)
  case (Cons i js)
  then show ?case by (fastforce simp: bind_eq_Some_conv dest: Record_same split: if_splits)
qed simp

text \<open>The order of the rows of the surface index, by surface and then by entry.\<close>

definition row_less :: "nat \<times> string \<Rightarrow> nat \<times> string \<Rightarrow> bool" where
  "row_less r r' \<longleftrightarrow> snd r < snd r' \<or> (snd r = snd r' \<and> fst r < fst r')"

lemma row_less_trans: "row_less a b \<Longrightarrow> row_less b c \<Longrightarrow> row_less a c"
  by (auto simp: row_less_def)

lemma verify_surfaces_True:
  "verify_surfaces d ps previous = Some (True, d') \<Longrightarrow>
     d' = d \<and> (\<exists>rows. list_all2 (\<lambda>p r. SurfaceIndexAt d p = Some (Some r, d)) ps rows \<and> sorted_wrt row_less rows \<and>
       (\<forall>r \<in> set rows. case previous of None \<Rightarrow> True | Some (pv, pidx) \<Rightarrow> row_less (pidx, pv) r))"
proof (induction ps arbitrary: d previous)
  case (Cons p ps)
  from Cons.prems obtain ro d1 where ro: "SurfaceIndexAt d p = Some (ro, d1)" by (auto simp: bind_eq_Some_conv)
  with Cons.prems obtain r where "ro = Some r" by (cases ro) auto
  with ro have r: "SurfaceIndexAt d p = Some (Some r, d1)" by simp
  obtain index v where iv: "r = (index, v)" by fastforce
  have d1: "d1 = d" using SurfaceIndexAt_same [OF r] .
  have ord: "case previous of None \<Rightarrow> True | Some (pv, pidx) \<Rightarrow> row_less (pidx, pv) (index, v)"
    and rest: "verify_surfaces d ps (Some (v, index)) = Some (True, d')"
    using Cons.prems r iv d1 by (auto simp: row_less_def not_less not_le order.order_iff_strict split: option.splits if_splits)
  from Cons.IH [OF rest] obtain rows where rows: "d' = d" "list_all2 (\<lambda>p r. SurfaceIndexAt d p = Some (Some r, d)) ps rows"
    "sorted_wrt row_less rows" "\<forall>r \<in> set rows. row_less (index, v) r" by auto
  then show ?case using r iv d1 ord row_less_trans
    by (intro conjI exI [of _ "(index, v) # rows"]) (fastforce split: option.splits)+
qed simp

lemma verify_refs_True: "verify_refs d ps = Some (True, d') \<Longrightarrow> d' = d"
  by (induction ps) (auto simp: bind_eq_Some_conv split: if_splits)

lemma Verify_True:
  assumes "layout_ok d" "Verify d = Some (True, d')"
  obtains ks where
    "verify_nodes d [1..<node_count d] (replicate (keys d) False, replicate (keys d) []) = Some (Some ks, d)"
    "list_all id (fst ks)" "verify_records d [0..<entries d] = Some (True, d)"
    "has_surface_index d \<Longrightarrow> verify_surfaces d [0..<entries d] None = Some (True, d)" "d' = d"
proof -
  from assms(2) obtain ks d1 where 1: "verify_nodes d [1..<node_count d] (replicate (keys d) False, replicate (keys d) []) = Some (Some ks, d1)"
    "verify_tables d1 ks = Some (True, d')"
    by (auto simp: Verify_def bind_eq_Some_conv split: if_splits option.splits)
  have "\<forall>n \<in> set [1..<node_count d]. n \<noteq> kNone" using node_not_kNone [OF assms(1)] by auto
  from verify_nodes_Some [OF 1(1) this] have d1: "d1 = d" by blast
  from 1(2) d1 obtain d2 where 2: "list_all id (fst ks)" "verify_records d [0..<entries d] = Some (True, d2)"
    by (auto simp: verify_tables_def bind_eq_Some_conv split: if_splits)
  have d2: "d2 = d" using verify_records_True [OF 2(2)] by blast
  from 1(2) d1 d2 2 obtain d3 where 3: "(if has_surface_index d then verify_surfaces d [0..<entries d] None else Some (True, d)) = Some (True, d3)"
    "verify_refs d3 (map (\<lambda>i. sec_offset (refs d3) + i * 8) [0..<sec_size (refs d3) div 8]) = Some (True, d')"
    by (auto simp: verify_tables_def bind_eq_Some_conv split: if_splits)
  have d3: "d3 = d" using 3(1) verify_surfaces_True by (fastforce split: if_splits)
  have "has_surface_index d \<Longrightarrow> verify_surfaces d [0..<entries d] None = Some (True, d)" using 3(1) d3 by simp
  then show thesis using that [of ks] 1 d1 2 d2 d3 verify_refs_True [OF 3(2)] by blast
qed

text \<open>C30: In a verified dictionary every key id belongs to exactly one text; the exact search for
  that text finds the key, its entries can be read, and each of them has this text as its
  normalised reading or, when it is marked so, as an alias of it.\<close>

theorem Verify_finds_keys:
  assumes "Load (Inr bytes) = Some (True, d)" "Verify d = Some (True, d')" "k < keys d"
  shows "\<exists>key m es. exact d key = Some m \<and> key_id m = k \<and> ReadEntries d m = Some (Some es, d) \<and>
    list_all (key_fits key) es \<and> (\<forall>key' m'. exact d key' = Some m' \<and> key_id m' = k \<longrightarrow> key' = key)"
proof -
  note ok = Load_facts [OF assms(1)]
  obtain ks where ks: "verify_nodes d [1..<node_count d] (replicate (keys d) False, replicate (keys d) []) = Some (Some ks, d)"
    "list_all id (fst ks)" using Verify_True [OF ok(1) assms(2)] by blast
  have "\<forall>n \<in> set [1..<node_count d]. n \<noteq> kNone" using node_not_kNone [OF ok(1)] by auto
  note V = verify_nodes_Some [OF ks(1) this]
  have tree: "tree_ok d" using V by (auto simp: tree_ok_def)
  have "fst ks ! k" using ks(2) assms(3) V by (simp add: list_all_length)
  then obtain n m where n: "0 < n" "n < node_count d" "node_key d n = Some m" "key_id m = k" using V assms(3)
    by (simp add: Bex_def) (metis Suc_le_lessD)
  then have used: "Node d n 4 \<noteq> Some kNone" "match_at d n = Some m" by (auto simp: node_key_def split: if_splits)
  have "key_ok d n m" using V n by auto
  then obtain key es where key: "ancestry d n [] = Some (Some key)" "IsValidUtf8 key" "ReadEntries d m = Some (Some es, d)"
    "list_all (key_fits key) es" by (auto simp: key_ok_def)
  have path: "path d 0 key = Some n" using ancestry_path [OF ok(1) tree n(2) used(1) key(1)] by auto
  then have "key \<noteq> []" using n(1) by auto
  then have "exact d key = Some m" using exact_path [OF ok(1,3)] key(2) path used(2) by simp
  moreover have "key' = key" if ex: "exact d key' = Some m'" and id: "key_id m' = k" for key' m'
  proof -
    have ne: "key' \<noteq> []" using ex by (auto simp: exact_def ExactMatch_def)
    then obtain n' where n': "path d 0 key' = Some n'" "match_at d n' = Some m'"
      using ex exact_path [OF ok(1,3) ne] by (auto simp: bind_eq_Some_conv split: if_splits)
    have b: "0 < n'" "n' < node_count d" "node_key d n' = Some m'"
      using path_node [OF ok(1,2) n'(1) ne] n'(2) by (auto simp: node_key_def)
    then have "n' = n" using V n id by auto
    then show ?thesis using path_unique [OF ok(2)] path n'(1) by blast
  qed
  ultimately show ?thesis using n(4) key by blast
qed

end
