(* ===== verification/SurfaceIndex.thy ===== *)
theory SurfaceIndex
  imports TrieVerified
begin

text \<open>
  Looking up entries by their surface. The binary search of the optional surface index and the
  scan of all entries give the same answer on a verified dictionary: the entries that have this
  surface, in the order of the file.
\<close>

section \<open>The entries of a verified dictionary\<close>

definition entry_at :: "Impl \<Rightarrow> nat \<Rightarrow> StaticDictionaryEntry" where
  "entry_at d i = (case Record d i of Some (Some e, _) \<Rightarrow> e | _ \<Rightarrow> undefined)"

definition entries_ok :: "Impl \<Rightarrow> bool" where
  "entries_ok d \<longleftrightarrow> (\<forall>i < entries d. Record d i = Some (Some (entry_at d i), d))"

lemma entries_okI: "\<forall>i < entries d. \<exists>e. Record d i = Some (Some e, d) \<Longrightarrow> entries_ok d"
  by (auto simp: entries_ok_def entry_at_def)

lemma Record_surface:
  assumes "Record d i = Some (Some e, d')"
  shows "Surface d i = Some (Some (entry_surface e), d) \<and> entry_kind e = Exact"
proof -
  let ?pos = "sec_offset (records d) + i * 32"
  from assms obtain s d1 where s: "string_at d ?pos 0 = Some (Some s, d1)"
    by (auto simp: Record_def bind_eq_Some_conv Let_def split: if_splits option.splits)
  have d1: "d1 = d" using string_at_same [OF s] .
  from assms s obtain r d2 where r: "string_at d ?pos 8 = Some (Some r, d2)" "checked_fields d2 ?pos s r = Some (Some e, d')"
    using d1 by (auto simp: Record_def bind_eq_Some_conv Let_def split: if_splits option.splits)
  have "entry_surface e = s" "entry_kind e = Exact"
    using r(2) by (auto simp: checked_fields_def record_fields_def bind_eq_Some_conv split: if_splits)
  then show ?thesis using s d1 by (auto simp: string_at_def Surface_def bind_eq_Some_conv Let_def split: if_splits)
qed

lemma entry_exact: "entries_ok d \<Longrightarrow> i < entries d \<Longrightarrow> (entry_at d i)\<lparr>entry_kind := Exact\<rparr> = entry_at d i"
  using Record_surface [of d i "entry_at d i" d] by (simp add: entries_ok_def)

lemma entry_Surface: "entries_ok d \<Longrightarrow> i < entries d \<Longrightarrow> Surface d i = Some (Some (entry_surface (entry_at d i)), d)"
  using Record_surface [of d i "entry_at d i" d] by (simp add: entries_ok_def)

section \<open>The scan\<close>

lemma scan_surface_all:
  assumes "entries_ok d"
  shows "list_all (\<lambda>i. i < entries d) js \<Longrightarrow>
    scan_surface d surf js out = Some (out @ filter (\<lambda>e. entry_surface e = surf) (map (entry_at d) js), d)"
proof (induction js arbitrary: out)
  case (Cons i js)
  let ?pos = "sec_offset (records d) + i * 32"
  have i: "i < entries d" using Cons.prems by simp
  then have rec: "Record d i = Some (Some (entry_at d i), d)" using assms by (simp add: entries_ok_def)
  from entry_Surface [OF assms i] obtain off len where ol: "U32 d ?pos = Some off" "U32 d (?pos + 4) = Some len"
    "len \<noteq> 0" "Range off len (sec_size (strings d))"
    "view (data d) (sec_offset (strings d) + off) len = Some (entry_surface (entry_at d i))"
    by (auto simp: Surface_def bind_eq_Some_conv Let_def split: if_splits)
  have "entry_surface (entry_at d i) = take len (drop (sec_offset (strings d) + off) (data d))"
    "sec_offset (strings d) + off + len \<le> length (data d)" using ol(5) by (auto simp: view_def split: if_splits)
  then have "length (entry_surface (entry_at d i)) = len" by simp
  then show ?case using ol rec Cons entry_exact [OF assms i] by (auto simp: Let_def)
qed simp

section \<open>The index\<close>

definition rows_of :: "Impl \<Rightarrow> (nat \<times> string) list \<Rightarrow> bool" where
  "rows_of d rows \<longleftrightarrow> length rows = entries d \<and> sorted_wrt row_less rows \<and>
     (\<forall>p < entries d. SurfaceIndexAt d p = Some (Some (rows ! p), d))"

lemma row_surface:
  assumes "entries_ok d" "SurfaceIndexAt d p = Some (Some (i, v), d)"
  shows "i < entries d \<and> v = entry_surface (entry_at d i)"
proof -
  from assms(2) have i: "i < entries d" by (auto simp: SurfaceIndexAt_def bind_eq_Some_conv split: if_splits)
  with assms(2) entry_Surface [OF assms(1) i] show ?thesis
    by (auto simp: SurfaceIndexAt_def bind_eq_Some_conv split: if_splits)
qed

lemma rows_mono: "rows_of d rows \<Longrightarrow> p \<le> q \<Longrightarrow> q < entries d \<Longrightarrow> snd (rows ! p) \<le> snd (rows ! q)"
  using sorted_wrt_nth_less [of row_less rows p q]
  by (cases "p = q") (auto simp: rows_of_def row_less_def)

text \<open>The loop splits the rows at the first one that the test refuses.\<close>

definition row_test :: "bool \<Rightarrow> string \<Rightarrow> nat \<times> string \<Rightarrow> bool" where
  "row_test upper surf r \<longleftrightarrow> (if upper then \<not> surf < snd r else snd r < surf)"

lemma bound_loop_splits:
  assumes "rows_of d rows"
  shows "first + count \<le> entries d \<Longrightarrow> \<forall>p < first. row_test upper surf (rows ! p) \<Longrightarrow>
    \<forall>p. first + count \<le> p \<and> p < entries d \<longrightarrow> \<not> row_test upper surf (rows ! p) \<Longrightarrow>
    \<exists>b \<le> entries d. bound_loop d surf upper first count = Some (Some b, d) \<and>
      (\<forall>p < entries d. row_test upper surf (rows ! p) \<longleftrightarrow> p < b)"
proof (induction count arbitrary: first rule: less_induct)
  case (less count)
  show ?case
  proof (cases "count = 0")
    case True
    then show ?thesis using less.prems by (auto simp: bound_loop.simps) (meson not_le)
  next
    case False
    let ?pos = "first + count div 2"
    have pos: "?pos < entries d" using less.prems(1) False by linarith
    obtain i v where iv: "rows ! ?pos = (i, v)" by fastforce
    have sx: "SurfaceIndexAt d ?pos = Some (Some (i, v), d)" using assms pos iv by (simp add: rows_of_def)
    show ?thesis
    proof (cases "row_test upper surf (i, v)")
      case True
      have "row_test upper surf (rows ! p)" if "p < ?pos + 1" for p
        using rows_mono [OF assms, of p ?pos] that pos True iv by (auto simp: row_test_def)
      then have "\<exists>b \<le> entries d. bound_loop d surf upper (?pos + 1) (count - (count div 2 + 1)) = Some (Some b, d) \<and>
          (\<forall>p < entries d. row_test upper surf (rows ! p) \<longleftrightarrow> p < b)"
        using less.prems False by (intro less.IH) auto
      moreover have "bound_loop d surf upper first count = bound_loop d surf upper (?pos + 1) (count - (count div 2 + 1))"
        using sx False True by (subst bound_loop.simps) (simp add: row_test_def Let_def split: if_splits)
      ultimately show ?thesis by simp
    next
      case no: False
      have "\<not> row_test upper surf (rows ! p)" if "?pos \<le> p" "p < entries d" for p
        using rows_mono [OF assms, of ?pos p] that no iv by (auto simp: row_test_def)
      then have "\<exists>b \<le> entries d. bound_loop d surf upper first (count div 2) = Some (Some b, d) \<and>
          (\<forall>p < entries d. row_test upper surf (rows ! p) \<longleftrightarrow> p < b)"
        using less.prems False by (intro less.IH) auto
      moreover have "bound_loop d surf upper first count = bound_loop d surf upper first (count div 2)"
        using sx False no by (subst bound_loop.simps) (simp add: row_test_def Let_def split: if_splits)
      ultimately show ?thesis by simp
    qed
  qed
qed

lemma collect_surface_rows:
  assumes "rows_of d rows" "entries_ok d"
  shows "u \<le> entries d \<Longrightarrow> l \<le> u \<Longrightarrow> \<forall>p. l \<le> p \<and> p < u \<longrightarrow> snd (rows ! p) = surf \<Longrightarrow>
    (case previous of None \<Rightarrow> True | Some i \<Rightarrow> l < u \<longrightarrow> i < fst (rows ! l)) \<Longrightarrow>
    collect_surface d surf previous [l..<u] out = Some (Some (out @ map (\<lambda>p. entry_at d (fst (rows ! p))) [l..<u]), d)"
proof (induction "u - l" arbitrary: l previous out)
  case (Suc n)
  then have lu: "l < u" by simp
  obtain i where i: "rows ! l = (i, surf)" using Suc.prems(3) lu by (metis order_refl prod.collapse)
  have sx: "SurfaceIndexAt d l = Some (Some (i, surf), d)" using assms(1) lu Suc.prems(1) i by (simp add: rows_of_def)
  then have ib: "i < entries d" using row_surface [OF assms(2)] by blast
  have rec: "Record d i = Some (Some (entry_at d i), d)" using assms(2) ib by (simp add: entries_ok_def)
  have "i < fst (rows ! Suc l)" if "Suc l < u"
  proof -
    have "row_less (rows ! l) (rows ! Suc l)"
      using assms(1) that Suc.prems(1) sorted_wrt_nth_less [of row_less rows l "Suc l"] by (simp add: rows_of_def)
    then show ?thesis using Suc.prems(3) that i by (auto simp: row_less_def)
  qed
  then have "collect_surface d surf (Some i) [Suc l..<u] (out @ [entry_at d i]) =
      Some (Some ((out @ [entry_at d i]) @ map (\<lambda>p. entry_at d (fst (rows ! p))) [Suc l..<u]), d)"
    using Suc.hyps(2) Suc.prems lu by (intro Suc.hyps(1)) auto
  moreover have "\<not> (case previous of None \<Rightarrow> False | Some p \<Rightarrow> i \<le> p)"
    using Suc.prems(4) lu i by (auto split: option.splits)
  ultimately show ?case using lu sx rec entry_exact [OF assms(2) ib] i by (simp add: upt_conv_Cons)
qed simp

lemma rows_permute:
  assumes "rows_of d rows" "entries_ok d"
  shows "set (map fst rows) = {..<entries d}"
proof (rule card_subset_eq)
  show "set (map fst rows) \<subseteq> {..<entries d}"
    using assms row_surface [OF assms(2)] by (fastforce simp: rows_of_def in_set_conv_nth)
  have "fst (rows ! p) \<noteq> fst (rows ! q)" if "p < q" "q < length rows" for p q
  proof
    assume eq: "fst (rows ! p) = fst (rows ! q)"
    have "snd (rows ! r) = entry_surface (entry_at d (fst (rows ! r)))" if "r < length rows" for r
      using assms(1) that row_surface [OF assms(2), of r "fst (rows ! r)" "snd (rows ! r)"] by (simp add: rows_of_def)
    then have "snd (rows ! p) = snd (rows ! q)" using eq that by (metis order.strict_trans)
    then show False using sorted_wrt_nth_less [of row_less rows p q] assms(1) that eq by (simp add: rows_of_def row_less_def)
  qed
  then have "distinct (map fst rows)" by (auto simp: distinct_conv_nth) (metis nat_neq_iff)
  then show "card (set (map fst rows)) = card {..<entries d}"
    using assms(1) by (simp add: distinct_card rows_of_def del: set_map)
qed simp

lemma FindSurface_rows:
  assumes "rows_of d rows" "entries_ok d"
  shows "FindSurface d surf = Some (Some (filter (\<lambda>e. entry_surface e = surf) (map (entry_at d) [0..<entries d])), d)"
proof -
  from bound_loop_splits [OF assms(1), of 0 "entries d" False surf] obtain l where
    l: "l \<le> entries d" "bound_loop d surf False 0 (entries d) = Some (Some l, d)"
      "\<forall>p < entries d. snd (rows ! p) < surf \<longleftrightarrow> p < l" by (fastforce simp: row_test_def)
  from bound_loop_splits [OF assms(1), of 0 "entries d" True surf] obtain u where
    u: "u \<le> entries d" "bound_loop d surf True 0 (entries d) = Some (Some u, d)"
      "\<forall>p < entries d. \<not> surf < snd (rows ! p) \<longleftrightarrow> p < u" by (fastforce simp: row_test_def)
  have lu: "l \<le> u" using l u by (metis less_asym not_le order_less_le_trans)
  have mid: "snd (rows ! p) = surf \<longleftrightarrow> l \<le> p \<and> p < u" if "p < entries d" for p
    using l(3) u(3) that by (metis less_irrefl linorder_neqE not_le)
  let ?is = "map (\<lambda>p. fst (rows ! p)) [l..<u]"
  have inc: "fst (rows ! p) < fst (rows ! q)" if "l \<le> p" "p < q" "q < u" for p q
    using sorted_wrt_nth_less [of row_less rows p q] assms(1) u(1) mid [of p] mid [of q] that
    by (auto simp: rows_of_def row_less_def)
  then have "sorted_wrt (<) ?is" by (auto simp: sorted_wrt_iff_nth_less)
  moreover have row: "fst (rows ! p) < entries d \<and> snd (rows ! p) = entry_surface (entry_at d (fst (rows ! p)))"
    if "p < entries d" for p
    using assms(1) that row_surface [OF assms(2), of p "fst (rows ! p)" "snd (rows ! p)"] by (simp add: rows_of_def)
  have "set ?is = {i. i < entries d \<and> entry_surface (entry_at d i) = surf}" (is "?A = ?B")
  proof
    show "?A \<subseteq> ?B" using row mid u(1) by auto
    show "?B \<subseteq> ?A"
    proof
      fix i assume i: "i \<in> ?B"
      then have "i \<in> set (map fst rows)" using rows_permute [OF assms] by simp
      then obtain p where "p < entries d" "fst (rows ! p) = i" using assms(1) by (auto simp: in_set_conv_nth rows_of_def)
      then show "i \<in> ?A" using i row [of p] mid [of p] by auto
    qed
  qed
  ultimately have "?is = filter (\<lambda>i. entry_surface (entry_at d i) = surf) [0..<entries d]"
    by (intro sorted_distinct_set_unique) (auto simp: strict_sorted_iff intro: sorted_wrt_filter)
  from arg_cong [OF this, of "map (entry_at d)"]
  have "map (\<lambda>p. entry_at d (fst (rows ! p))) [l..<u] = filter (\<lambda>e. entry_surface e = surf) (map (entry_at d) [0..<entries d])"
    by (simp add: filter_map o_def)
  then show ?thesis
    using l u lu collect_surface_rows [OF assms u(1) lu, of surf None "[]"] mid by (simp add: FindSurface_def)
qed

section \<open>Lookup by surface\<close>

lemma verified_entries:
  assumes "layout_ok d" "Verify d = Some (True, d')"
  shows "entries_ok d" "has_surface_index d \<Longrightarrow> \<exists>rows. rows_of d rows"
proof -
  obtain ks where v: "verify_records d [0..<entries d] = Some (True, d)"
    "has_surface_index d \<Longrightarrow> verify_surfaces d [0..<entries d] None = Some (True, d)"
    using Verify_True [OF assms] by metis
  show "entries_ok d" using verify_records_True [OF v(1)] by (intro entries_okI) auto
  assume "has_surface_index d"
  from verify_surfaces_True [OF v(2) [OF this]] show "\<exists>rows. rows_of d rows"
    by (auto simp: rows_of_def list_all2_conv_all_nth)
qed

text \<open>In a verified dictionary a lookup by surface returns the entries that have this surface,
  all of them and in the order of the file, whether the binary search of the surface index or the
  scan of the entries answers it.\<close>

theorem LookupSurface_all:
  assumes "Load (Inr bytes) = Some (True, d)" "Verify d = Some (True, d')" "surf \<noteq> []" "IsValidUtf8 surf"
  shows "\<exists>es. list_all2 (\<lambda>i e. Record d i = Some (Some e, d)) [0..<entries d] es \<and>
    LookupSurface d surf = Some (filter (\<lambda>e. entry_surface e = surf) es, d)"
proof -
  note ok = Load_facts [OF assms(1)]
  note v = verified_entries [OF ok(1) assms(2)]
  let ?es = "map (entry_at d) [0..<entries d]"
  have "list_all2 (\<lambda>i e. Record d i = Some (Some e, d)) [0..<entries d] ?es"
    using v(1) by (simp add: entries_ok_def list_all2_conv_all_nth)
  moreover have "LookupSurface d surf = Some (filter (\<lambda>e. entry_surface e = surf) ?es, d)"
  proof (cases "has_surface_index d")
    case True
    then obtain rows where "rows_of d rows" using v(2) by blast
    from FindSurface_rows [OF this v(1)] show ?thesis using True ok(3) assms(3,4) by (simp add: LookupSurface_def)
  next
    case False
    have "scan_surface d surf [0..<entries d] [] = Some (filter (\<lambda>e. entry_surface e = surf) (map (entry_at d) [0..<entries d]), d)"
      using scan_surface_all [OF v(1), of "[0..<entries d]" surf "[]"] by (simp add: list_all_iff)
    then show ?thesis using False ok(3) assms(3,4) by (simp add: LookupSurface_def)
  qed
  ultimately show ?thesis by blast
qed

end
