(* ===== verification/TrieSample.thy ===== *)
theory TrieSample
  imports SurfaceIndex Messages
begin

text \<open>
  The smallest dictionary: the one key \<open>0x01\<close> with one entry, its surface \<open>A\<close> and a surface
  index. It loads and passes the full check, so it serves as the concrete dictionary of the
  theorems about dictionaries.
\<close>

definition sample :: string where
  "sample =
     ''AZDIC1'' @ map byte [0, 0, 1, 0, 64, 0, 0, 0, 0, 0, 0, 0, 0, 0, 1, 0, 0, 0, 1, 0, 0, 0, 7, 0, 0, 0] @
     map byte [216, 31, 179, 231, 130, 129, 91, 233] @
     map byte [0, 0, 0, 0, 0, 0, 0, 0, 0, 0, 0, 0, 0, 0, 0, 0, 0, 0, 0, 0, 0, 0, 0, 0] @
     ''TRIE'' @ map byte [0, 0, 0, 0, 232, 0, 0, 0, 0, 0, 0, 0, 32, 0, 0, 0, 0, 0, 0, 0] @
     ''KEYS'' @ map byte [0, 0, 0, 0, 8, 1, 0, 0, 0, 0, 0, 0, 8, 0, 0, 0, 0, 0, 0, 0] @
     ''EIDX'' @ map byte [0, 0, 0, 0, 16, 1, 0, 0, 0, 0, 0, 0, 8, 0, 0, 0, 0, 0, 0, 0] @
     ''ENTS'' @ map byte [0, 0, 0, 0, 24, 1, 0, 0, 0, 0, 0, 0, 32, 0, 0, 0, 0, 0, 0, 0] @
     ''STRS'' @ map byte [0, 0, 0, 0, 56, 1, 0, 0, 0, 0, 0, 0, 2, 0, 0, 0, 0, 0, 0, 0] @
     ''META'' @ map byte [0, 0, 0, 0, 64, 1, 0, 0, 0, 0, 0, 0, 19, 0, 0, 0, 0, 0, 0, 0] @
     ''SIDX'' @ map byte [0, 0, 0, 0, 88, 1, 0, 0, 0, 0, 0, 0, 4, 0, 0, 0, 0, 0, 0, 0] @
     map byte [0, 0, 0, 0, 0, 0, 0, 0, 255, 255, 255, 255, 0, 0, 0, 0, 0, 0, 0, 0, 0, 0, 0, 0, 0, 0, 0, 0, 1, 0, 0, 0] @
     map byte [0, 0, 0, 0, 1, 0, 0, 0] @
     map byte [0, 0, 0, 0, 0, 0, 0, 0] @
     map byte [0, 0, 0, 0, 1, 0, 0, 0, 1, 0, 0, 0, 1, 0, 0, 0, 0, 0, 1, 0, 255, 255, 255, 255, 0, 0, 0, 0, 0, 0, 0, 0] @
     ''A'' @ map byte [1, 0, 0, 0, 0, 0, 0] @
     ''{'' @ [CHR 0x22] @ ''pos_table'' @ [CHR 0x22] @ '':['' @ [CHR 0x22] @ ''n'' @ [CHR 0x22] @ '']}'' @ map byte [0, 0, 0, 0, 0] @
     map byte [0, 0, 0, 0]"

lemma sample_length [simp]: "length sample = 348"
  by (simp add: sample_def)

text \<open>Everything that a query reads of it.\<close>

lemma sample_reads:
  "Read sample 72 8 = Some 232"
  "Read sample 80 8 = Some 32"
  "Read sample 68 4 = Some 0"
  "view sample 64 4 = Some ''TRIE''"
  "Read sample 96 8 = Some 264"
  "Read sample 104 8 = Some 8"
  "Read sample 92 4 = Some 0"
  "view sample 88 4 = Some ''KEYS''"
  "Read sample 120 8 = Some 272"
  "Read sample 128 8 = Some 8"
  "Read sample 116 4 = Some 0"
  "view sample 112 4 = Some ''EIDX''"
  "Read sample 144 8 = Some 280"
  "Read sample 152 8 = Some 32"
  "Read sample 140 4 = Some 0"
  "view sample 136 4 = Some ''ENTS''"
  "Read sample 168 8 = Some 312"
  "Read sample 176 8 = Some 2"
  "Read sample 164 4 = Some 0"
  "view sample 160 4 = Some ''STRS''"
  "Read sample 192 8 = Some 320"
  "Read sample 200 8 = Some 19"
  "Read sample 188 4 = Some 0"
  "view sample 184 4 = Some ''META''"
  "Read sample 216 8 = Some 344"
  "Read sample 224 8 = Some 4"
  "Read sample 212 4 = Some 0"
  "view sample 208 4 = Some ''SIDX''"
  "Read sample 16 4 = Some 0"
  "Read sample 20 4 = Some 1"
  "Read sample 24 4 = Some 1"
  "Read sample 28 4 = Some 7"
  "Read sample 232 4 = Some 0"
  "Read sample 236 4 = Some 0"
  "Read sample 240 4 = Some 4294967295"
  "Read sample 244 4 = Some 0"
  "Read sample 248 4 = Some 0"
  "Read sample 252 4 = Some 0"
  "Read sample 256 4 = Some 0"
  "Read sample 260 4 = Some 1"
  "Read sample 264 4 = Some 0"
  "Read sample 268 4 = Some 1"
  "Read sample 272 4 = Some 0"
  "Read sample 280 4 = Some 0"
  "Read sample 284 4 = Some 1"
  "Read sample 288 4 = Some 1"
  "Read sample 292 4 = Some 1"
  "Read sample 344 4 = Some 0"
  "Read sample 296 2 = Some 0"
  "Read sample 298 2 = Some 1"
  "Read sample 300 2 = Some 65535"
  "Read sample 302 2 = Some 65535"
  "Read sample 32 8 = Some 16815176032950886360"
  "byte_at sample 304 = Some 0"
  "byte_at sample 276 = Some 0"
  "byte_at sample 277 = Some 0"
  "byte_at sample 278 = Some 0"
  "byte_at sample 279 = Some 0"
  "view sample 312 (Suc 0) = Some ''A''"
  "view sample 313 (Suc 0) = Some [byte (Suc 0)]"
  "view sample 306 6 = Some [byte 0, byte 0, byte 0, byte 0, byte 0, byte 0]"
  "ord (sample ! 40) = 0"
  "ord (sample ! 41) = 0"
  "ord (sample ! 42) = 0"
  "ord (sample ! 43) = 0"
  "ord (sample ! 44) = 0"
  "ord (sample ! 45) = 0"
  "ord (sample ! 46) = 0"
  "ord (sample ! 47) = 0"
  "ord (sample ! 48) = 0"
  "ord (sample ! 49) = 0"
  "ord (sample ! 50) = 0"
  "ord (sample ! 51) = 0"
  "ord (sample ! 52) = 0"
  "ord (sample ! 53) = 0"
  "ord (sample ! 54) = 0"
  "ord (sample ! 55) = 0"
  "ord (sample ! 56) = 0"
  "ord (sample ! 57) = 0"
  "ord (sample ! 58) = 0"
  "ord (sample ! 59) = 0"
  "ord (sample ! 60) = 0"
  "ord (sample ! 61) = 0"
  "ord (sample ! 62) = 0"
  "ord (sample ! 63) = 0"
  by (simp_all add: sample_def Read_def view_def byte_at_def upt_rec)

lemma sample_header: "header_ok sample = Some True"
  by (simp add: header_ok_def Read_def sample_def upt_rec magic_def)

abbreviation sec :: "nat \<Rightarrow> nat \<Rightarrow> Section" where
  "sec off len \<equiv> \<lparr>sec_offset = off, sec_size = len\<rparr>"

definition sample_sections :: "(string \<times> Section) list" where
  "sample_sections = [(''EIDX'', sec 272 8), (''ENTS'', sec 280 32), (''KEYS'', sec 264 8), (''META'', sec 320 19),
     (''SIDX'', sec 344 4), (''STRS'', sec 312 2), (''TRIE'', sec 232 32)]"

lemma sample_table: "data d = sample \<Longrightarrow> section_table d 7 [0..<7] [] [] =
    Some (Inr (sample_sections, [sec 232 32, sec 264 8, sec 272 8, sec 280 32, sec 312 2, sec 320 19, sec 344 4]))"
  by (simp add: sample_reads Range_def sample_sections_def U32_def upt_rec Let_def)

definition sample_meta :: json where
  "sample_meta = JObject [(''pos_table'', JArray [JString ''n''])]"

lemma sample_meta_text:
  "''{'' @ [CHR 0x22] @ ''pos_table'' @ [CHR 0x22] @ '':['' @ [CHR 0x22] @ ''n'' @ [CHR 0x22] @ '']}'' = Stringify sample_meta"
  by (simp add: sample_meta_def plain_text in_quotes_def quoted_def)

lemma sample_meta_view: "view sample 320 19 = Some (Stringify sample_meta)"
  unfolding sample_meta_text [symmetric] by (simp add: view_def sample_def)

lemma sample_meta_Parse: "Parse (Stringify sample_meta) = Some sample_meta"
proof -
  have "json_wf sample_meta" by (simp add: sample_meta_def plain_text map_wf_def)
  moreover have "json_depth sample_meta \<le> kMaxJsonNestDepth" by (simp add: sample_meta_def kMaxJsonNestDepth_def)
  moreover have "length (Stringify sample_meta) \<le> kMaxJsonInputBytes"
    by (simp add: sample_meta_text [symmetric] kMaxJsonInputBytes_def)
  ultimately show ?thesis by (simp add: Parse_def ParseDocument_printed)
qed

lemma sample_meta_valid: "IsValidUtf8 (Stringify sample_meta)"
  unfolding IsValidUtf8_iff sample_meta_text [symmetric]
  by (rule exI [of _ "[123, 34, 112, 111, 115, 95, 116, 97, 98, 108, 101, 34, 58, 91, 34, 110, 34, 93, 125]"])
    (simp add: is_scalar_def utf8_cases eq_byte_numeral)

definition sample_impl :: Impl where
  "sample_impl =
     \<lparr>data = sample, available = True, error = [], layer = 0, entries = 1, keys = 1, pos_count = 1,
      trie = sec 232 32, key_section = sec 264 8, refs = sec 272 8, records = sec 280 32,
      strings = sec 312 2, meta = sec 320 19, surface_index = sec 344 4, has_surface_index = True\<rparr>"

lemma sample_Load: "Load (Inr sample) = Some (True, sample_impl)"
proof -
  have contents: "check_contents (sample_impl\<lparr>available := False, error := ''not loaded'', pos_count := 0\<rparr>) = Some (True, sample_impl)"
    by (simp add: check_contents_def sample_impl_def sample_reads sample_meta_view sample_meta_valid sample_meta_Parse
      GetArray_def) (simp add: sample_meta_def Let_def Node_def U32_def kNodeSize_def kNone_def sample_reads)
  have names: "\<not> (\<exists>name \<in> set section_names. map_of sample_sections name = None)"
    by (simp add: section_names_def sample_sections_def)
  have order: "\<not> overlapping (sort_key sec_offset
      [sec 232 32, sec 264 8, sec 272 8, sec 280 32, sec 312 2, sec 320 19, sec 344 4])"
    by (simp add: sort_key_def)
  have sections: "set_sections sample_sections ((fresh sample)\<lparr>layer := 0, entries := 1, keys := 1\<rparr>) =
      sample_impl\<lparr>available := False, error := ''not loaded'', pos_count := 0\<rparr>"
    by (simp add: set_sections_def section_at_def sample_sections_def fresh_def sample_impl_def)
  have sizes: "sizes_ok (sample_impl\<lparr>available := False, error := ''not loaded'', pos_count := 0\<rparr>)"
    by (simp add: sizes_ok_def sample_impl_def)
  have data: "data (fresh sample) = sample" by (simp add: fresh_def)
  show ?thesis unfolding Load_def sum.case Structure_def
    by (simp add: data sample_header sample_reads U32_def Let_def sample_table Range_def names order sections sizes contents
      del: One_nat_def)
qed

lemma sample_sel [simp]:
  "data sample_impl = sample" "available sample_impl" "layer sample_impl = 0" "entries sample_impl = Suc 0"
  "keys sample_impl = Suc 0" "pos_count sample_impl = Suc 0" "trie sample_impl = sec 232 32"
  "key_section sample_impl = sec 264 8" "refs sample_impl = sec 272 8" "records sample_impl = sec 280 32"
  "strings sample_impl = sec 312 2" "meta sample_impl = sec 320 19" "surface_index sample_impl = sec 344 4"
  "has_surface_index sample_impl"
  by (simp_all add: sample_impl_def)

lemma sample_Node: "Node sample_impl 0 0 = Some 0" "Node sample_impl 0 4 = Some 0" "Node sample_impl 0 8 = Some kNone"
  "Node sample_impl 0 12 = Some 0" "Node sample_impl (Suc 0) 0 = Some 0" "Node sample_impl (Suc 0) 4 = Some 0"
  "Node sample_impl (Suc 0) 8 = Some 0" "Node sample_impl (Suc 0) 12 = Some (Suc 0)" "node_count sample_impl = 2"
  by (simp_all add: Node_def U32_def kNodeSize_def kNone_def node_count_def sample_reads)

lemma sample_Step: "Step sample_impl 0 (Suc 0) = Some (Suc 0, sample_impl)" "Step sample_impl (Suc 0) 97 = Some (kNone, sample_impl)"
  by (simp_all add: Step_def sample_Node Let_def)

definition sample_match :: PrefixMatch where
  "sample_match = \<lparr>key_length = 1, key_id = 0, entry_ref_off = 0, entry_count = 1\<rparr>"

lemma sample_Match: "Match sample_impl (Suc 0) = Some (Some sample_match, sample_impl)"
  by (simp add: Match_def sample_Node Let_def U32_def sample_reads Range_def sample_match_def kNone_def)

lemma sample_key_valid: "IsValidUtf8 [byte (Suc 0)]" "IsValidUtf8 (byte (Suc 0) # ''a'')"
  by (simp_all add: IsValidUtf8_def valid_from.simps trie_Decode_def Let_def)

lemma sample_ExactMatch: "ExactMatch sample_impl [byte 1] = Some (Some sample_match, sample_impl)"
  by (simp add: ExactMatch_def sample_key_valid sample_Step sample_Match kNone_def)

lemma sample_CommonPrefixSearch:
  "CommonPrefixSearch sample_impl (byte 1 # ''a'') 0 = Some ([sample_match], sample_impl)"
  by (simp add: CommonPrefixSearch_def sample_key_valid sample_Step sample_Match kNone_def)

definition sample_entry :: StaticDictionaryEntry where
  "sample_entry = \<lparr>entry_surface = ''A'', entry_reading = [byte 1], pos_id = 0, category_mask = 1, cost = -1,
     frequency = double_ratio 65535 65535, source = 0, entry_kind = Exact\<rparr>"

lemma sample_Record: "Record sample_impl 0 = Some (Some sample_entry, sample_impl)"
proof -
  have "IsValidUtf8 ''A''" by (simp add: IsValidUtf8_def valid_from.simps trie_Decode_def Let_def)
  then show ?thesis
    by (simp add: Record_def string_at_def checked_fields_def record_fields_def U32_def sample_reads Range_def Let_def
      sample_key_valid sample_entry_def int16_of_def)
qed

lemma content_hash_nat:
  "unat (content_hash p) =
     foldl (\<lambda>h c. (h XOR ord c) * 1099511628211 mod 0x10000000000000000) 14695981039346656037 (drop 64 p)"
proof -
  have "unat (foldl (\<lambda>h c. (h XOR word_of_nat (ord c)) * 1099511628211) w cs) =
      foldl (\<lambda>h c. (h XOR ord c) * 1099511628211 mod 0x10000000000000000) (unat w) cs" for w :: "64 word" and cs
  proof (induction cs arbitrary: w)
    case (Cons c cs)
    have "ord c < 0x10000000000000000" using nat_of_char_less_256 [of c] by linarith
    then have "unat (word_of_nat (ord c) :: 64 word) = ord c" by (simp add: unat_of_nat)
    then show ?case by (simp add: Cons.IH unat_word_ariths unsigned_xor_eq)
  qed simp
  then show ?thesis by (simp add: content_hash_def)
qed

lemma sample_hash: "unat (content_hash sample) = 16815176032950886360"
  by (simp add: content_hash_nat sample_def)

section \<open>The full check\<close>

lemma sample_ReadEntries: "ReadEntries sample_impl sample_match = Some (Some [sample_entry], sample_impl)"
  by (simp add: ReadEntries_def sample_match_def Range_def U32_def sample_reads sample_Record Let_def sample_entry_def)

lemma sample_normalized: "NormalizeReading [byte (Suc 0)] = [byte (Suc 0)]"
  by (simp add: NormalizeReading_def normalize_from.simps trie_Decode_def trie_Encode_def normalize_codepoint_def Let_def)

lemma byte_wraps: "byte 4294967297 = byte (Suc 0)"
  by (simp add: byte_eq_iff)

lemma sample_verify_node:
  "verify_node sample_impl (Suc 0) ([False], [[]]) = Some (Some ([True], [[byte (Suc 0)]]), sample_impl)"
proof -
  have "ancestry sample_impl (Suc 0) [] = Some (Some [byte (Suc 0)])"
    by (simp add: ancestry.simps sample_Node byte_wraps)
  moreover have "key_fits [byte (Suc 0)] sample_entry"
    by (simp add: key_fits_def sample_entry_def sample_normalized Let_def)
  ultimately have "verify_key sample_impl (Suc 0) sample_match ([False], [[]]) = Some (Some ([True], [[byte (Suc 0)]]), sample_impl)"
    using sample_ReadEntries sample_key_valid by (simp add: verify_key_def sample_match_def)
  then show ?thesis by (simp add: verify_node_def sample_Node sample_Step sample_Match kNone_def)
qed

lemma sample_SurfaceIndexAt: "SurfaceIndexAt sample_impl 0 = Some (Some (0, ''A''), sample_impl)"
  by (simp add: SurfaceIndexAt_def Surface_def U32_def sample_reads Range_def Let_def)

lemma sample_Verify: "Verify sample_impl = Some (True, sample_impl)"
  by (simp add: Verify_def sample_reads sample_hash sample_Node sample_verify_node verify_tables_def sample_Record
    sample_SurfaceIndexAt U32_def upt_rec)

section \<open>The theorems on it\<close>

theorem CommonPrefixSearch_exact_witness:
  "[sample_match] = at_most 0 (List.map_filter (\<lambda>k. exact sample_impl (take k (byte (Suc 0) # ''a''))) [1..<3])"
  using CommonPrefixSearch_exact [OF sample_Load sample_key_valid(2), of 0 "[sample_match]" sample_impl]
    sample_CommonPrefixSearch by (simp add: eval_nat_numeral)

theorem Verify_finds_keys_witness:
  "\<exists>key m es. exact sample_impl key = Some m \<and> key_id m = 0 \<and> ReadEntries sample_impl m = Some (Some es, sample_impl) \<and>
     list_all (key_fits key) es \<and> (\<forall>key' m'. exact sample_impl key' = Some m' \<and> key_id m' = 0 \<longrightarrow> key' = key)"
  by (rule Verify_finds_keys [OF sample_Load sample_Verify]) simp

theorem LookupSurface_all_witness:
  "\<exists>es. list_all2 (\<lambda>i e. Record sample_impl i = Some (Some e, sample_impl)) [0..<entries sample_impl] es \<and>
    LookupSurface sample_impl ''A'' = Some (filter (\<lambda>e. entry_surface e = ''A'') es, sample_impl)"
  by (rule LookupSurface_all [OF sample_Load sample_Verify])
    (simp_all add: IsValidUtf8_def valid_from.simps trie_Decode_def Let_def)

end
