(* ===== verification/StoreOnlyZip.thy ===== *)
theory StoreOnlyZip
  imports Prelude "HOL-Library.Monad_Syntax"
begin

text \<open>
  The archive that carries learning-data backups, \<open>inference-host/src/StoreOnlyZip.cpp\<close>: the writer
  of uncompressed ZIP files and the reader that accepts the same subset of the format. The reader
  works on untrusted bytes. Its reads of them are explicit, in the option monad: \<^term>\<open>None\<close> is
  a read outside the bytes, or the exception of a \<open>substr\<close> that starts behind their end; an error the
  code reports is a value on the left of a sum.
\<close>

section \<open>Checksums\<close>

definition crc_shift :: "32 word \<Rightarrow> 32 word" where
  "crc_shift c = (if c AND 1 \<noteq> 0 then 0xEDB88320 XOR drop_bit 1 c else drop_bit 1 c)"

definition kCrcTable :: "32 word list" where
  "kCrcTable = map (\<lambda>i. (crc_shift ^^ 8) (word_of_nat i)) [0..<256]"

definition Crc32 :: "string \<Rightarrow> 32 word" where
  "Crc32 s =
     foldl (\<lambda>crc c. kCrcTable ! unat ((crc XOR word_of_nat (ord c)) AND 0xff) XOR drop_bit 8 crc) 0xffffffff s XOR 0xffffffff"

section \<open>Fields\<close>

definition PutU16 :: "string \<Rightarrow> 16 word \<Rightarrow> string" where
  "PutU16 out v = out @ [byte (unat (v AND 0xff)), byte (unat (drop_bit 8 v AND 0xff))]"

definition PutU32 :: "string \<Rightarrow> 32 word \<Rightarrow> string" where
  "PutU32 out v = foldl (\<lambda>out shift. out @ [byte (unat (drop_bit shift v AND 0xff))]) out [0, 8, 16, 24]"

definition GetU16 :: "string \<Rightarrow> nat \<Rightarrow> nat option" where
  "GetU16 bytes off =
     (if off + 1 < length bytes then Some (ord (bytes ! off) OR push_bit 8 (ord (bytes ! (off + 1)))) else None)"

definition GetU32 :: "string \<Rightarrow> nat \<Rightarrow> nat option" where
  "GetU32 bytes off = do { lo \<leftarrow> GetU16 bytes off; hi \<leftarrow> GetU16 bytes (off + 2); Some (lo OR push_bit 16 hi) }"

text \<open>\<open>bytes.substr(pos, n)\<close>\<close>

definition substr_at :: "string \<Rightarrow> nat \<Rightarrow> nat \<Rightarrow> string option" where
  "substr_at bytes pos n = (if pos \<le> length bytes then Some (take n (drop pos bytes)) else None)"

definition IsSafeEntryName :: "string \<Rightarrow> bool" where
  "IsSafeEntryName name \<longleftrightarrow>
     name \<noteq> [] \<and> \<not> sublist ''..'' name \<and>
     \<not> (\<exists>c \<in> set name. c = CHR ''/'' \<or> c = CHR 0x5c \<or> c = CHR '':'' \<or> ord c < 0x20)"

section \<open>Constants and types\<close>

definition kLocalHeaderSignature :: nat where "kLocalHeaderSignature = 0x04034b50"
definition kCentralHeaderSignature :: nat where "kCentralHeaderSignature = 0x02014b50"
definition kEndOfCentralDirectorySignature :: nat where "kEndOfCentralDirectorySignature = 0x06054b50"
definition kLocalHeaderSize :: nat where "kLocalHeaderSize = 30"
definition kCentralHeaderSize :: nat where "kCentralHeaderSize = 46"
definition kEndOfCentralDirectorySize :: nat where "kEndOfCentralDirectorySize = 22"
definition kMaxCommentSize :: nat where "kMaxCommentSize = 0xffff"
definition kVersion :: "16 word" where "kVersion = 20"
definition kUtf8NameFlag :: "16 word" where "kUtf8NameFlag = 0x0800"
definition kMethodStore :: "16 word" where "kMethodStore = 0"
definition kDosTime :: "16 word" where "kDosTime = 0"
definition kDosDate :: "16 word" where "kDosDate = 0x0021"

record ZipEntry =
  entry_name :: string
  entry_data :: string

record ZipLimits =
  max_entries :: nat
  max_entry_bytes :: nat
  max_total_bytes :: nat

definition default_limits :: ZipLimits where
  "default_limits = \<lparr>max_entries = 16, max_entry_bytes = 32 * 1024 * 1024, max_total_bytes = 64 * 1024 * 1024\<rparr>"

datatype ZipError =
    MissingEndOfCentralDirectory | MultiDisk | BadCentralDirectory | BadLocalHeader | UnsupportedMethod
  | UnsupportedFlags | SizeMismatch | HeaderMismatch | CrcMismatch | BadOffset | OverlappingEntries
  | InvalidName | DuplicateName | TooManyEntries | EntryTooLarge | TotalTooLarge

record CentralEntry =
  flags :: nat
  comp_method :: nat
  crc :: nat
  esize :: nat
  local_offset :: nat
  cname :: string

record EndOfCentralDirectory =
  cd_offset :: nat
  cd_size :: nat
  entry_count :: nat
  position :: nat

section \<open>The writer\<close>

definition local_part :: "ZipEntry \<Rightarrow> string" where
  "local_part e =
     (let crc = Crc32 (entry_data e);
          sz = word_of_nat (length (entry_data e));
          name_length = word_of_nat (length (entry_name e));
          out = PutU32 [] (word_of_nat kLocalHeaderSignature);
          out = PutU16 out kVersion;
          out = PutU16 out kUtf8NameFlag;
          out = PutU16 out kMethodStore;
          out = PutU16 out kDosTime;
          out = PutU16 out kDosDate;
          out = PutU32 out crc;
          out = PutU32 out sz;
          out = PutU32 out sz;
          out = PutU16 out name_length;
          out = PutU16 out 0
      in out @ entry_name e @ entry_data e)"

definition central_part :: "ZipEntry \<Rightarrow> 32 word \<Rightarrow> string" where
  "central_part e off =
     (let crc = Crc32 (entry_data e);
          sz = word_of_nat (length (entry_data e));
          name_length = word_of_nat (length (entry_name e));
          out = PutU32 [] (word_of_nat kCentralHeaderSignature);
          out = PutU16 out kVersion;
          out = PutU16 out kVersion;
          out = PutU16 out kUtf8NameFlag;
          out = PutU16 out kMethodStore;
          out = PutU16 out kDosTime;
          out = PutU16 out kDosDate;
          out = PutU32 out crc;
          out = PutU32 out sz;
          out = PutU32 out sz;
          out = PutU16 out name_length;
          out = PutU16 out 0;
          out = PutU16 out 0;
          out = PutU16 out 0;
          out = PutU16 out 0;
          out = PutU32 out 0;
          out = PutU32 out off
      in out @ entry_name e)"

text \<open>The loop over the entries: the local parts and the central directory so far.\<close>

definition add_entry :: "string \<times> string \<Rightarrow> ZipEntry \<Rightarrow> string \<times> string" where
  "add_entry parts e =
     (case parts of (out, central) \<Rightarrow>
        (out @ local_part e, central @ central_part e (word_of_nat (length out))))"

definition end_part :: "nat \<Rightarrow> nat \<Rightarrow> nat \<Rightarrow> string" where
  "end_part count cd_sz cd_off =
     (let out = PutU32 [] (word_of_nat kEndOfCentralDirectorySignature);
          out = PutU16 out 0;
          out = PutU16 out 0;
          out = PutU16 out (word_of_nat count);
          out = PutU16 out (word_of_nat count);
          out = PutU32 out (word_of_nat cd_sz);
          out = PutU32 out (word_of_nat cd_off)
      in PutU16 out 0)"

definition BuildStoreOnlyZip :: "ZipEntry list \<Rightarrow> string" where
  "BuildStoreOnlyZip es =
     (case foldl add_entry ([], []) es of
        (out, central) \<Rightarrow> out @ central @ end_part (length es) (length central) (length out))"

section \<open>The reader\<close>

text \<open>The body of the loop of \<open>FindEndOfCentralDirectory\<close>; the left of the outer sum is \<open>continue\<close>.\<close>

definition eocd_at :: "string \<Rightarrow> nat \<Rightarrow> (unit + (ZipError + EndOfCentralDirectory)) option" where
  "eocd_at bytes pos =
     do {
       sig \<leftarrow> GetU32 bytes pos;
       if sig \<noteq> kEndOfCentralDirectorySignature then Some (Inl ())
       else do {
         comment \<leftarrow> GetU16 bytes (pos + 20);
         if pos + kEndOfCentralDirectorySize + comment \<noteq> length bytes then Some (Inl ())
         else do {
           disk \<leftarrow> GetU16 bytes (pos + 4);
           cd_disk \<leftarrow> GetU16 bytes (pos + 6);
           on_disk \<leftarrow> GetU16 bytes (pos + 8);
           count \<leftarrow> GetU16 bytes (pos + 10);
           if disk \<noteq> 0 \<or> cd_disk \<noteq> 0 \<or> on_disk \<noteq> count then Some (Inr (Inl MultiDisk))
           else do {
             sz \<leftarrow> GetU32 bytes (pos + 12);
             off \<leftarrow> GetU32 bytes (pos + 16);
             if off + sz > pos then Some (Inr (Inl BadOffset))
             else Some (Inr (Inr \<lparr>cd_offset = off, cd_size = sz, entry_count = count, position = pos\<rparr>)) } } } }"

fun find_eocd :: "string \<Rightarrow> nat list \<Rightarrow> (ZipError + EndOfCentralDirectory) option" where
  "find_eocd bytes [] = Some (Inl MissingEndOfCentralDirectory)"
| "find_eocd bytes (pos # ps) =
     do {
       r \<leftarrow> eocd_at bytes pos;
       case r of Inl _ \<Rightarrow> find_eocd bytes ps | Inr res \<Rightarrow> Some res }"

definition FindEndOfCentralDirectory :: "string \<Rightarrow> (ZipError + EndOfCentralDirectory) option" where
  "FindEndOfCentralDirectory bytes =
     (if length bytes < kEndOfCentralDirectorySize then Some (Inl MissingEndOfCentralDirectory)
      else let final = length bytes - kEndOfCentralDirectorySize;
               first = (if final > kMaxCommentSize then final - kMaxCommentSize else 0)
           in find_eocd bytes (rev [first..<Suc final]))"

text \<open>One central record at \<open>pos\<close>, as it stands in the file, and the position behind it.\<close>

definition central_record :: "string \<Rightarrow> nat \<Rightarrow> nat \<Rightarrow> (ZipError + CentralEntry \<times> nat \<times> nat \<times> nat) option" where
  "central_record bytes cd_end pos =
     (if cd_end - pos < kCentralHeaderSize then Some (Inl BadCentralDirectory)
      else do {
        sig \<leftarrow> GetU32 bytes pos;
        if sig \<noteq> kCentralHeaderSignature then Some (Inl BadCentralDirectory)
        else do {
          fl \<leftarrow> GetU16 bytes (pos + 8);
          me \<leftarrow> GetU16 bytes (pos + 10);
          cr \<leftarrow> GetU32 bytes (pos + 16);
          compressed \<leftarrow> GetU32 bytes (pos + 20);
          sz \<leftarrow> GetU32 bytes (pos + 24);
          name_length \<leftarrow> GetU16 bytes (pos + 28);
          extra_length \<leftarrow> GetU16 bytes (pos + 30);
          comment_length \<leftarrow> GetU16 bytes (pos + 32);
          start_disk \<leftarrow> GetU16 bytes (pos + 34);
          off \<leftarrow> GetU32 bytes (pos + 42);
          let variable = name_length + extra_length + comment_length;
          if cd_end - pos - kCentralHeaderSize < variable then Some (Inl BadCentralDirectory)
          else do {
            name \<leftarrow> substr_at bytes (pos + kCentralHeaderSize) name_length;
            Some (Inr (\<lparr>flags = fl, comp_method = me, crc = cr, esize = sz, local_offset = off, cname = name\<rparr>,
              compressed, start_disk, pos + kCentralHeaderSize + variable)) } } })"

text \<open>The loop of \<open>ReadCentralDirectory\<close>; \<open>n\<close> records remain.\<close>

fun central_loop :: "string \<Rightarrow> ZipLimits \<Rightarrow> nat \<Rightarrow> nat \<Rightarrow> nat \<Rightarrow> nat \<Rightarrow> CentralEntry list \<Rightarrow>
    (ZipError + CentralEntry list) option" where
  "central_loop bytes limits cd_end 0 pos tot es =
     Some (if pos \<noteq> cd_end then Inl BadCentralDirectory else Inr es)"
| "central_loop bytes limits cd_end (Suc n) pos tot es =
     do {
       r \<leftarrow> central_record bytes cd_end pos;
       case r of
         Inl e \<Rightarrow> Some (Inl e)
       | Inr (entry, compressed, start_disk, pos') \<Rightarrow>
           if start_disk \<noteq> 0 then Some (Inl MultiDisk)
           else if flags entry AND 0xf7ff \<noteq> 0 then Some (Inl UnsupportedFlags)
           else if comp_method entry \<noteq> unat kMethodStore then Some (Inl UnsupportedMethod)
           else if compressed \<noteq> esize entry then Some (Inl SizeMismatch)
           else if esize entry > max_entry_bytes limits then Some (Inl EntryTooLarge)
           else if tot + esize entry > max_total_bytes limits then Some (Inl TotalTooLarge)
           else if \<not> IsSafeEntryName (cname entry) then Some (Inl InvalidName)
           else if cname entry \<in> cname ` set es then Some (Inl DuplicateName)
           else central_loop bytes limits cd_end n pos' (tot + esize entry) (es @ [entry]) }"

definition ReadCentralDirectory :: "string \<Rightarrow> EndOfCentralDirectory \<Rightarrow> ZipLimits \<Rightarrow> (ZipError + CentralEntry list) option" where
  "ReadCentralDirectory bytes eocd limits =
     (if entry_count eocd > max_entries limits then Some (Inl TooManyEntries)
      else central_loop bytes limits (cd_offset eocd + cd_size eocd) (entry_count eocd) (cd_offset eocd) 0 [])"

text \<open>The result is the offset of the data.\<close>

definition CheckLocalEntry :: "string \<Rightarrow> CentralEntry \<Rightarrow> nat \<Rightarrow> (ZipError + nat) option" where
  "CheckLocalEntry bytes entry data_limit =
     (let pos = local_offset entry in
      if pos > data_limit \<or> data_limit - pos < kLocalHeaderSize then Some (Inl BadOffset)
      else do {
        sig \<leftarrow> GetU32 bytes pos;
        if sig \<noteq> kLocalHeaderSignature then Some (Inl BadLocalHeader)
        else do {
          name_length \<leftarrow> GetU16 bytes (pos + 26);
          extra_length \<leftarrow> GetU16 bytes (pos + 28);
          let data_start = pos + kLocalHeaderSize + name_length + extra_length;
          if data_start > data_limit \<or> data_limit - data_start < esize entry then Some (Inl OverlappingEntries)
          else do {
            local_name \<leftarrow> substr_at bytes (pos + kLocalHeaderSize) name_length;
            fl \<leftarrow> GetU16 bytes (pos + 6);
            me \<leftarrow> GetU16 bytes (pos + 8);
            cr \<leftarrow> GetU32 bytes (pos + 14);
            compressed \<leftarrow> GetU32 bytes (pos + 18);
            sz \<leftarrow> GetU32 bytes (pos + 22);
            if fl \<noteq> flags entry \<or> me \<noteq> comp_method entry \<or> cr \<noteq> crc entry \<or> compressed \<noteq> esize entry \<or>
               sz \<noteq> esize entry \<or> local_name \<noteq> cname entry
            then Some (Inl HeaderMismatch)
            else do {
              content \<leftarrow> substr_at bytes data_start (esize entry);
              if unat (Crc32 content) \<noteq> crc entry then Some (Inl CrcMismatch) else Some (Inr data_start) } } } })"

text \<open>The walk over the local entries in file order; \<open>data_offsets\<close> is written at the index of each entry.\<close>

fun check_locals :: "string \<Rightarrow> CentralEntry list \<Rightarrow> nat \<Rightarrow> nat list \<Rightarrow> nat list \<Rightarrow> (ZipError + nat list) option" where
  "check_locals bytes central cd_off [] data_offsets = Some (Inr data_offsets)"
| "check_locals bytes central cd_off (i # rest) data_offsets =
     do {
       let limit = (case rest of [] \<Rightarrow> cd_off | j # _ \<Rightarrow> local_offset (central ! j));
       r \<leftarrow> CheckLocalEntry bytes (central ! i) limit;
       case r of
         Inl e \<Rightarrow> Some (Inl e)
       | Inr off \<Rightarrow> check_locals bytes central cd_off rest (data_offsets[i := off]) }"

fun extract_all :: "string \<Rightarrow> (CentralEntry \<times> nat) list \<Rightarrow> ZipEntry list option" where
  "extract_all bytes [] = Some []"
| "extract_all bytes ((entry, off) # rest) =
     do {
       content \<leftarrow> substr_at bytes off (esize entry);
       es \<leftarrow> extract_all bytes rest;
       Some (\<lparr>entry_name = cname entry, entry_data = content\<rparr> # es) }"

definition ParseStoreOnlyZip :: "string \<Rightarrow> ZipLimits \<Rightarrow> (ZipError + ZipEntry list) option" where
  "ParseStoreOnlyZip bytes limits =
     do {
       r \<leftarrow> FindEndOfCentralDirectory bytes;
       case r of
         Inl e \<Rightarrow> Some (Inl e)
       | Inr eocd \<Rightarrow> do {
           c \<leftarrow> ReadCentralDirectory bytes eocd limits;
           case c of
             Inl e \<Rightarrow> Some (Inl e)
           | Inr central \<Rightarrow> do {
               l \<leftarrow> check_locals bytes central (cd_offset eocd)
                 (sort_key (\<lambda>i. local_offset (central ! i)) [0..<length central]) (replicate (length central) 0);
               case l of
                 Inl e \<Rightarrow> Some (Inl e)
               | Inr offsets \<Rightarrow> map_option Inr (extract_all bytes (zip central offsets)) } } }"

section \<open>Fields are read as they were written\<close>

definition le16 :: "nat \<Rightarrow> string" where
  "le16 n = [byte (n mod 256), byte (n div 256 mod 256)]"

definition le32 :: "nat \<Rightarrow> string" where
  "le32 n = le16 (n mod 65536) @ le16 (n div 65536)"

lemma length_le [simp]: "length (le16 n) = 2" "length (le32 n) = 4"
  by (simp_all add: le16_def le32_def)

lemma unat_byte16: "unat (drop_bit n w AND 0xff :: 16 word) = unat w div 2 ^ n mod 256"
proof -
  have "unat (drop_bit n w AND 0xff :: 16 word) = drop_bit n (unat w) AND unat (0xff :: 16 word)"
    by (simp only: unsigned_and_eq unat_drop_bit_eq)
  then show ?thesis by (simp add: and_low(5) drop_bit_eq_div)
qed

lemma unat_byte32: "unat (drop_bit n w AND 0xff :: 32 word) = unat w div 2 ^ n mod 256"
proof -
  have "unat (drop_bit n w AND 0xff :: 32 word) = drop_bit n (unat w) AND unat (0xff :: 32 word)"
    by (simp only: unsigned_and_eq unat_drop_bit_eq)
  then show ?thesis by (simp add: and_low(5) drop_bit_eq_div)
qed

lemma PutU16_eq: "PutU16 out v = out @ le16 (unat v)"
  using unat_byte16 [of 0 v] unat_byte16 [of 8 v] by (simp only: PutU16_def le16_def drop_bit_0) simp

lemma PutU32_eq: "PutU32 out v = out @ le32 (unat v)"
proof -
  have "unat v mod 65536 mod 256 = unat v mod 256" by (simp add: mod_mod_cancel)
  moreover have "unat v mod 65536 div 256 mod 256 = unat v div 256 mod 256"
    using mod_mult2_eq [of "unat v" 256 256] by simp
  moreover have "unat v div 65536 div 256 = unat v div 16777216" by (simp flip: div_mult2_eq)
  ultimately show ?thesis
    using unat_byte32 [of 0 v] unat_byte32 [of 8 v] unat_byte32 [of 16 v] unat_byte32 [of 24 v]
    by (simp only: PutU32_def le32_def le16_def foldl_Cons foldl_Nil) simp
qed

lemma GetU16_drop: "drop off bytes = le16 n @ t \<Longrightarrow> n < 65536 \<Longrightarrow> GetU16 bytes off = Some n"
proof -
  assume d: "drop off bytes = le16 n @ t" and n: "n < 65536"
  then have "off < length bytes" "bytes ! off = byte (n mod 256)" "drop (Suc off) bytes = byte (n div 256 mod 256) # t"
    by (auto simp: le16_def dest: drop_eq_ConsD)
  moreover from this(3) have "Suc off < length bytes" "bytes ! Suc off = byte (n div 256 mod 256)"
    by (auto dest: drop_eq_ConsD)
  moreover have "n mod 256 OR push_bit 8 (n div 256) = n"
    using shift_or [of "n mod 256" 8 "n div 256"] by (simp add: or.commute)
  ultimately show ?thesis using n by (simp add: GetU16_def less_mult_imp_div_less)
qed

lemma GetU32_drop: "drop off bytes = le32 n @ t \<Longrightarrow> n < 0x100000000 \<Longrightarrow> GetU32 bytes off = Some n"
proof -
  assume d: "drop off bytes = le32 n @ t" and n: "n < 0x100000000"
  have "drop off bytes = le16 (n mod 65536) @ le16 (n div 65536) @ t" using d by (simp add: le32_def)
  moreover from this have "drop 2 (drop off bytes) = le16 (n div 65536) @ t" by (simp only:) simp
  then have "drop (off + 2) bytes = le16 (n div 65536) @ t" by (simp only: drop_drop add.commute)
  moreover have "n div 65536 < 65536" using n by (simp add: less_mult_imp_div_less)
  ultimately have "GetU16 bytes off = Some (n mod 65536)" "GetU16 bytes (off + 2) = Some (n div 65536)"
    by (auto intro: GetU16_drop)
  moreover have "n mod 65536 OR push_bit 16 (n div 65536) = n"
    using shift_or [of "n mod 65536" 16 "n div 65536"] by (simp add: or.commute)
  ultimately show ?thesis by (simp add: GetU32_def)
qed

lemma GetU16_Some: "off + 2 \<le> length bytes \<Longrightarrow> \<exists>v. GetU16 bytes off = Some v"
  by (simp add: GetU16_def)

lemma GetU32_Some: "off + 4 \<le> length bytes \<Longrightarrow> \<exists>v. GetU32 bytes off = Some v"
  using GetU16_Some [of off bytes] GetU16_Some [of "off + 2" bytes] by (auto simp: GetU32_def)

section \<open>What an accepted archive contains\<close>

definition central_ok :: "ZipLimits \<Rightarrow> CentralEntry list \<Rightarrow> bool" where
  "central_ok limits es \<longleftrightarrow>
     list_all (\<lambda>e. esize e \<le> max_entry_bytes limits \<and> IsSafeEntryName (cname e)) es \<and>
     distinct (map cname es) \<and> sum_list (map esize es) \<le> max_total_bytes limits"

lemma central_loop_ok:
  "central_loop bytes limits cd_end n pos tot es = Some (Inr es') \<Longrightarrow> central_ok limits es \<Longrightarrow>
     tot = sum_list (map esize es) \<Longrightarrow> central_ok limits es' \<and> length es' = length es + n"
proof (induction n arbitrary: pos tot es)
  case (Suc n)
  from Suc.prems(1) obtain r where r: "central_record bytes cd_end pos = Some r" by (auto simp: bind_eq_Some_conv)
  with Suc.prems(1) obtain entry compressed start_disk pos' where r': "r = Inr (entry, compressed, start_disk, pos')"
    by (cases r) auto
  have loop: "central_loop bytes limits cd_end n pos' (tot + esize entry) (es @ [entry]) = Some (Inr es')"
    and e: "esize entry \<le> max_entry_bytes limits" "tot + esize entry \<le> max_total_bytes limits"
      "IsSafeEntryName (cname entry)" "cname entry \<notin> cname ` set es"
    using Suc.prems(1) r r' by (auto split: if_splits)
  have "central_ok limits (es @ [entry])" using Suc.prems(2,3) e by (auto simp: central_ok_def)
  from Suc.IH [OF loop this] show ?case using Suc.prems(3) by simp
qed (auto split: if_splits)

lemma ReadCentralDirectory_ok:
  "ReadCentralDirectory bytes eocd limits = Some (Inr es) \<Longrightarrow>
     central_ok limits es \<and> length es = entry_count eocd \<and> length es \<le> max_entries limits"
  using central_loop_ok [of bytes limits "cd_offset eocd + cd_size eocd" "entry_count eocd" "cd_offset eocd" 0 "[]" es]
  by (auto simp: ReadCentralDirectory_def central_ok_def split: if_splits)

lemma CheckLocalEntry_Inr:
  "CheckLocalEntry bytes e data_limit = Some (Inr off) \<Longrightarrow>
     local_offset e + kLocalHeaderSize \<le> off \<and> off + esize e \<le> data_limit \<and>
     (\<exists>content. substr_at bytes off (esize e) = Some content \<and> unat (Crc32 content) = crc e)"
  by (auto simp: CheckLocalEntry_def bind_eq_Some_conv Let_def split: if_splits)

text \<open>The data of the entries, visited in file order, do not overlap.\<close>

lemma check_locals_ok:
  "check_locals bytes central cd_off ord_ix offs = Some (Inr offs') \<Longrightarrow> distinct ord_ix \<Longrightarrow>
     list_all (\<lambda>i. i < length central \<and> i < length offs) ord_ix \<Longrightarrow>
     length offs' = length offs \<and> (\<forall>i. i \<notin> set ord_ix \<longrightarrow> offs' ! i = offs ! i) \<and>
     (\<forall>i \<in> set ord_ix. offs' ! i + esize (central ! i) \<le> cd_off \<and>
        (\<exists>content. substr_at bytes (offs' ! i) (esize (central ! i)) = Some content)) \<and>
     (case ord_ix of [] \<Rightarrow> True | i # _ \<Rightarrow> local_offset (central ! i) + sum_list (map (\<lambda>i. esize (central ! i)) ord_ix) \<le> cd_off)"
proof (induction ord_ix arbitrary: offs)
  case (Cons i rest)
  define limit where "limit = (case rest of [] \<Rightarrow> cd_off | j # _ \<Rightarrow> local_offset (central ! j))"
  from Cons.prems(1) obtain r where r: "CheckLocalEntry bytes (central ! i) limit = Some r"
    by (auto simp: bind_eq_Some_conv limit_def Let_def)
  with Cons.prems(1) obtain off where off: "r = Inr off"
    and rest: "check_locals bytes central cd_off rest (offs[i := off]) = Some (Inr offs')"
    by (cases r) (auto simp: limit_def [symmetric])
  note c = CheckLocalEntry_Inr [OF r [unfolded off]]
  have IH: "length offs' = length offs" "\<forall>j. j \<notin> set rest \<longrightarrow> offs' ! j = offs[i := off] ! j"
    "\<forall>j \<in> set rest. offs' ! j + esize (central ! j) \<le> cd_off \<and>
        (\<exists>content. substr_at bytes (offs' ! j) (esize (central ! j)) = Some content)"
    "case rest of [] \<Rightarrow> True | j # _ \<Rightarrow> local_offset (central ! j) + sum_list (map (\<lambda>i. esize (central ! i)) rest) \<le> cd_off"
    using Cons.IH [OF rest] Cons.prems(2,3) by auto
  have "offs' ! i = off" using IH(2) Cons.prems(2,3) by auto
  moreover have "limit + sum_list (map (\<lambda>i. esize (central ! i)) rest) \<le> cd_off"
    using IH(4) by (cases rest) (simp_all add: limit_def)
  ultimately show ?case using c IH by (auto simp: nth_list_update)
qed simp

lemma find_eocd_bound:
  "find_eocd bytes ps = Some (Inr eocd) \<Longrightarrow> \<exists>pos \<in> set ps. cd_offset eocd + cd_size eocd \<le> pos"
proof (induction ps)
  case (Cons pos ps)
  then obtain r where r: "eocd_at bytes pos = Some r" by (auto simp: bind_eq_Some_conv)
  show ?case
  proof (cases r)
    case (Inl u)
    then show ?thesis using Cons r by auto
  next
    case (Inr res)
    then have "eocd_at bytes pos = Some (Inr (Inr eocd))" using Cons.prems r by simp
    then show ?thesis by (auto simp: eocd_at_def bind_eq_Some_conv split: if_splits)
  qed
qed simp

lemma Find_bound: "FindEndOfCentralDirectory bytes = Some (Inr eocd) \<Longrightarrow> cd_offset eocd + cd_size eocd \<le> length bytes"
  by (fastforce simp: FindEndOfCentralDirectory_def Let_def simp del: upt_Suc dest!: find_eocd_bound split: if_splits)

lemma extract_all_ok:
  "extract_all bytes cs = Some es \<Longrightarrow> map entry_name es = map (\<lambda>(c, off). cname c) cs \<and>
     list_all2 (\<lambda>(c, off) e. length (entry_data e) \<le> esize c) cs es"
proof (induction cs arbitrary: es)
  case (Cons x cs)
  obtain c off where x: "x = (c, off)" by fastforce
  with Cons.prems obtain content es' where "substr_at bytes off (esize c) = Some content" "extract_all bytes cs = Some es'"
    "es = \<lparr>entry_name = cname c, entry_data = content\<rparr> # es'" by (auto simp: bind_eq_Some_conv)
  then show ?case using Cons.IH [of es'] x by (auto simp: substr_at_def split: if_splits)
qed simp

lemma sum_sort_key: "distinct xs \<Longrightarrow> sum_list (map f (sort_key k xs)) = sum_list (map f xs)" for f :: "'a \<Rightarrow> nat"
  by (simp add: sum_list_distinct_conv_sum_set)

lemma sum_list_mono2': "list_all2 (\<lambda>x y. g y \<le> f x) xs ys \<Longrightarrow> sum_list (map g ys) \<le> sum_list (map f xs)" for f :: "'a \<Rightarrow> nat"
  by (induction rule: list_all2_induct) auto

lemma Parse_steps:
  assumes "ParseStoreOnlyZip bytes limits = Some (Inr es)"
  obtains eocd central offs where "FindEndOfCentralDirectory bytes = Some (Inr eocd)"
    "ReadCentralDirectory bytes eocd limits = Some (Inr central)"
    "check_locals bytes central (cd_offset eocd) (sort_key (\<lambda>i. local_offset (central ! i)) [0..<length central])
       (replicate (length central) 0) = Some (Inr offs)"
    "extract_all bytes (zip central offs) = Some es"
proof -
  from assms obtain r where r: "FindEndOfCentralDirectory bytes = Some r" by (auto simp: ParseStoreOnlyZip_def bind_eq_Some_conv)
  with assms obtain eocd where eocd: "r = Inr eocd" by (cases r) (auto simp: ParseStoreOnlyZip_def)
  with assms r obtain c where c: "ReadCentralDirectory bytes eocd limits = Some c"
    by (auto simp: ParseStoreOnlyZip_def bind_eq_Some_conv)
  with assms r eocd obtain central where central: "c = Inr central" by (cases c) (auto simp: ParseStoreOnlyZip_def)
  from assms r eocd c central obtain l where
    l: "check_locals bytes central (cd_offset eocd) (sort_key (\<lambda>i. local_offset (central ! i)) [0..<length central])
       (replicate (length central) 0) = Some l"
    by (auto simp: ParseStoreOnlyZip_def bind_eq_Some_conv)
  with assms r eocd c central obtain offs where "l = Inr offs" by (cases l) (auto simp: ParseStoreOnlyZip_def)
  then show thesis using that r eocd c central l assms by (auto simp: ParseStoreOnlyZip_def)
qed

text \<open>C32: An archive that the reader accepts respects the limits: at most the allowed number of
  entries, none larger than allowed, not more than allowed in total and never more than the archive
  itself holds; every name is a plain file name and no name comes twice.\<close>

theorem accepted_archive:
  assumes "ParseStoreOnlyZip bytes limits = Some (Inr es)"
  shows "length es \<le> max_entries limits \<and>
    list_all (\<lambda>e. IsSafeEntryName (entry_name e) \<and> length (entry_data e) \<le> max_entry_bytes limits) es \<and>
    distinct (map entry_name es) \<and>
    sum_list (map (\<lambda>e. length (entry_data e)) es) \<le> min (max_total_bytes limits) (length bytes)"
proof -
  from Parse_steps [OF assms] obtain eocd central offs where
    find: "FindEndOfCentralDirectory bytes = Some (Inr eocd)" and read: "ReadCentralDirectory bytes eocd limits = Some (Inr central)" and
    check: "check_locals bytes central (cd_offset eocd) (sort_key (\<lambda>i. local_offset (central ! i)) [0..<length central])
      (replicate (length central) 0) = Some (Inr offs)" and ex: "extract_all bytes (zip central offs) = Some es" .
  let ?ix = "sort_key (\<lambda>i. local_offset (central ! i)) [0..<length central]"
  have ok: "central_ok limits central" "length central \<le> max_entries limits" using ReadCentralDirectory_ok [OF read] by auto
  have lok: "length offs = length central"
    "case ?ix of [] \<Rightarrow> True | i # _ \<Rightarrow> local_offset (central ! i) + sum_list (map (\<lambda>i. esize (central ! i)) ?ix) \<le> cd_offset eocd"
    using check_locals_ok [OF check] by (simp_all add: list_all_iff)
  have "sum_list (map (\<lambda>i. esize (central ! i)) ?ix) = sum_list (map (\<lambda>i. esize (central ! i)) [0..<length central])"
    by (rule sum_sort_key) simp
  also have "map (\<lambda>i. esize (central ! i)) [0..<length central] = map esize central"
    using arg_cong [OF map_nth [of central], of "map esize"] by (simp add: o_def)
  finally have sums: "sum_list (map (\<lambda>i. esize (central ! i)) ?ix) = sum_list (map esize central)" .
  have inside: "sum_list (map esize central) \<le> cd_offset eocd"
  proof (cases ?ix)
    case Nil
    then show ?thesis using sums by (metis list.simps(8) sum_list.Nil le0)
  next
    case (Cons i rest)
    then show ?thesis using lok(2) sums by simp
  qed
  have "map entry_name es = map cname (map fst (zip central offs))" using extract_all_ok [OF ex] by (simp add: case_prod_beta)
  then have names: "map entry_name es = map cname central" using lok(1) by simp
  then have len: "length es = length central" by (metis length_map)
  have sizes: "list_all2 (\<lambda>c e. length (entry_data e) \<le> esize c) central es"
    using extract_all_ok [OF ex] lok(1) by (simp add: list_all2_conv_all_nth)
  have "IsSafeEntryName (entry_name (es ! i)) \<and> length (entry_data (es ! i)) \<le> max_entry_bytes limits" if "i < length es" for i
  proof -
    have "entry_name (es ! i) = cname (central ! i)" using names that len by (metis nth_map)
    moreover have "length (entry_data (es ! i)) \<le> esize (central ! i)" using sizes that by (simp add: list_all2_conv_all_nth)
    ultimately show ?thesis using ok(1) that len by (fastforce simp: central_ok_def list_all_length)
  qed
  then show ?thesis
    using ok len inside sum_list_mono2' [OF sizes] Find_bound [OF find] names
    by (auto simp: central_ok_def list_all_length)
qed

section \<open>What is packed is unpacked\<close>

text \<open>The parts of an archive as sequences of fields.\<close>

definition name_fits :: "ZipEntry \<Rightarrow> bool" where
  "name_fits e \<longleftrightarrow> length (entry_name e) < 65536 \<and> length (entry_data e) < 0x100000000"

lemma unat_small: "n < 65536 \<Longrightarrow> unat (word_of_nat n :: 16 word) = n" "n < 0x100000000 \<Longrightarrow> unat (word_of_nat n :: 32 word) = n"
  by (simp_all add: unat_of_nat)

lemma local_part_eq:
  "name_fits e \<Longrightarrow> local_part e =
     le32 kLocalHeaderSignature @ le16 20 @ le16 0x800 @ le16 0 @ le16 0 @ le16 0x21 @ le32 (unat (Crc32 (entry_data e))) @
     le32 (length (entry_data e)) @ le32 (length (entry_data e)) @ le16 (length (entry_name e)) @ le16 0 @
     entry_name e @ entry_data e"
  by (simp add: local_part_def PutU16_eq PutU32_eq Let_def name_fits_def unat_small kLocalHeaderSignature_def kVersion_def
    kUtf8NameFlag_def kMethodStore_def kDosTime_def kDosDate_def)

lemma central_part_eq:
  "name_fits e \<Longrightarrow> central_part e off =
     le32 kCentralHeaderSignature @ le16 20 @ le16 20 @ le16 0x800 @ le16 0 @ le16 0 @ le16 0x21 @
     le32 (unat (Crc32 (entry_data e))) @ le32 (length (entry_data e)) @ le32 (length (entry_data e)) @
     le16 (length (entry_name e)) @ le16 0 @ le16 0 @ le16 0 @ le16 0 @ le32 0 @ le32 (unat off) @ entry_name e"
  by (simp add: central_part_def PutU16_eq PutU32_eq Let_def name_fits_def unat_small kCentralHeaderSignature_def kVersion_def
    kUtf8NameFlag_def kMethodStore_def kDosTime_def kDosDate_def)

lemma end_part_eq:
  "n < 65536 \<Longrightarrow> sz < 0x100000000 \<Longrightarrow> off < 0x100000000 \<Longrightarrow> end_part n sz off =
     le32 kEndOfCentralDirectorySignature @ le16 0 @ le16 0 @ le16 n @ le16 n @ le32 sz @ le32 off @ le16 0"
  by (simp add: end_part_def PutU16_eq PutU32_eq Let_def unat_small kEndOfCentralDirectorySignature_def)

lemma drop_at: "drop pos bytes = t \<Longrightarrow> drop (pos + k) bytes = drop k t"
  by (simp add: add.commute flip: drop_drop)

text \<open>The central record that the reader makes of an entry.\<close>

definition central_of :: "ZipEntry \<Rightarrow> nat \<Rightarrow> CentralEntry" where
  "central_of e off = \<lparr>flags = 0x800, comp_method = 0, crc = unat (Crc32 (entry_data e)),
     esize = length (entry_data e), local_offset = off, cname = entry_name e\<rparr>"

lemma unat_lt32: "unat (w :: 32 word) < 0x100000000"
  using unsigned_less [of w] by simp

lemma central_record_written:
  assumes "drop pos bytes = central_part e (word_of_nat off) @ t" "name_fits e" "off < 0x100000000"
    "pos + 46 + length (entry_name e) \<le> cd_end" "cd_end \<le> length bytes"
  shows "central_record bytes cd_end pos =
    Some (Inr (central_of e off, length (entry_data e), 0, pos + 46 + length (entry_name e)))"
proof -
  note at = drop_at [OF assms(1) [unfolded central_part_eq [OF assms(2)]]]
  have n: "length (entry_name e) < 65536" "length (entry_data e) < 0x100000000" using assms(2) by (auto simp: name_fits_def)
  have "GetU32 bytes pos = Some kCentralHeaderSignature"
    by (rule GetU32_drop [OF assms(1) [unfolded central_part_eq [OF assms(2)] append_assoc]]) (simp add: kCentralHeaderSignature_def)
  moreover have "GetU16 bytes (pos + 8) = Some 0x800" by (rule GetU16_drop) (subst at, simp, simp)
  moreover have "GetU16 bytes (pos + 10) = Some 0" by (rule GetU16_drop) (subst at, simp, simp)
  moreover have "GetU32 bytes (pos + 16) = Some (unat (Crc32 (entry_data e)))" by (rule GetU32_drop) (subst at, simp, rule unat_lt32)
  moreover have "GetU32 bytes (pos + 20) = Some (length (entry_data e))" by (rule GetU32_drop) (subst at, simp, rule n)
  moreover have "GetU32 bytes (pos + 24) = Some (length (entry_data e))" by (rule GetU32_drop) (subst at, simp, rule n)
  moreover have "GetU16 bytes (pos + 28) = Some (length (entry_name e))" by (rule GetU16_drop) (subst at, simp, rule n)
  moreover have "GetU16 bytes (pos + 30) = Some 0" by (rule GetU16_drop) (subst at, simp, simp)
  moreover have "GetU16 bytes (pos + 32) = Some 0" by (rule GetU16_drop) (subst at, simp, simp)
  moreover have "GetU16 bytes (pos + 34) = Some 0" by (rule GetU16_drop) (subst at, simp, simp)
  moreover have "GetU32 bytes (pos + 42) = Some off" by (rule GetU32_drop) (subst at, simp add: unat_small assms(3), rule assms(3))
  moreover have "drop (pos + 46) bytes = entry_name e @ t" by (subst at) simp
  moreover from this have "substr_at bytes (pos + 46) (length (entry_name e)) = Some (entry_name e)"
    using assms(4,5) by (simp add: substr_at_def)
  moreover have "\<not> cd_end - pos < 46" "\<not> cd_end - pos - 46 < length (entry_name e)" using assms(4) by linarith+
  ultimately show ?thesis by (simp add: central_record_def kCentralHeaderSize_def central_of_def Let_def)
qed

fun centrals :: "nat \<Rightarrow> ZipEntry list \<Rightarrow> string" where
  "centrals off [] = []"
| "centrals off (e # es) = central_part e (word_of_nat off) @ centrals (off + length (local_part e)) es"

fun central_list :: "nat \<Rightarrow> ZipEntry list \<Rightarrow> CentralEntry list" where
  "central_list off [] = []"
| "central_list off (e # es) = central_of e off # central_list (off + length (local_part e)) es"

definition locals :: "ZipEntry list \<Rightarrow> string" where
  "locals es = concat (map local_part es)"

lemma foldl_add_entry: "foldl add_entry (out, central) es = (out @ locals es, central @ centrals (length out) es)"
  by (induction es arbitrary: out central) (simp_all add: add_entry_def locals_def)

lemma Build_eq:
  "BuildStoreOnlyZip es = locals es @ centrals 0 es @ end_part (length es) (length (centrals 0 es)) (length (locals es))"
  by (simp add: BuildStoreOnlyZip_def foldl_add_entry)

definition entries_fit :: "ZipLimits \<Rightarrow> ZipEntry list \<Rightarrow> bool" where
  "entries_fit limits es \<longleftrightarrow>
     list_all (\<lambda>e. length (entry_name e) < 65536 \<and> IsSafeEntryName (entry_name e) \<and>
       length (entry_data e) \<le> max_entry_bytes limits) es \<and>
     distinct (map entry_name es) \<and> length es \<le> max_entries limits \<and> length es < 65536 \<and>
     sum_list (map (\<lambda>e. length (entry_data e)) es) \<le> max_total_bytes limits \<and>
     length (BuildStoreOnlyZip es) < 0x100000000"

lemma length_parts: "length (local_part e) = 30 + length (entry_name e) + length (entry_data e)"
  "length (central_part e off) = 46 + length (entry_name e)"
  by (simp_all add: local_part_def central_part_def PutU16_eq PutU32_eq Let_def)

lemma central_loop_written:
  assumes "cd_end \<le> length bytes" "list_all name_fits es"
    "list_all (\<lambda>e. IsSafeEntryName (entry_name e) \<and> length (entry_data e) \<le> max_entry_bytes limits) es"
  shows "drop pos bytes = centrals off es @ t \<Longrightarrow> pos + length (centrals off es) = cd_end \<Longrightarrow>
    off + length (locals es) < 0x100000000 \<Longrightarrow> tot + sum_list (map (\<lambda>e. length (entry_data e)) es) \<le> max_total_bytes limits \<Longrightarrow>
    distinct (map cname acc @ map entry_name es) \<Longrightarrow>
    central_loop bytes limits cd_end (length es) pos tot acc = Some (Inr (acc @ central_list off es))"
  using assms(2,3)
proof (induction es arbitrary: pos off tot acc)
  case (Cons e es)
  have fits: "name_fits e" using Cons.prems by simp
  have d: "drop pos bytes = central_part e (word_of_nat off) @ centrals (off + length (local_part e)) es @ t"
    using Cons.prems(1) by simp
  have rec: "central_record bytes cd_end pos =
      Some (Inr (central_of e off, length (entry_data e), 0, pos + 46 + length (entry_name e)))"
    using Cons.prems(2,3) by (intro central_record_written [OF d fits _ _ assms(1)]) (simp_all add: length_parts)
  have "central_loop bytes limits cd_end (length es) (pos + 46 + length (entry_name e)) (tot + length (entry_data e))
      (acc @ [central_of e off]) = Some (Inr ((acc @ [central_of e off]) @ central_list (off + length (local_part e)) es))"
  proof (rule Cons.IH)
    show "drop (pos + 46 + length (entry_name e)) bytes = centrals (off + length (local_part e)) es @ t"
      using drop_at [OF d, of "46 + length (entry_name e)"] by (simp add: length_parts add.assoc)
  qed (use Cons.prems in \<open>simp_all add: length_parts locals_def central_of_def\<close>)
  then show ?case using rec Cons.prems(4,5,7) by (simp add: central_of_def kMethodStore_def)
qed simp

lemma FindEndOfCentralDirectory_written:
  assumes "bytes = front @ end_part n sz (length front - sz)" "n < 65536" "sz \<le> length front" "length front < 0x100000000"
  shows "FindEndOfCentralDirectory bytes =
    Some (Inr \<lparr>cd_offset = length front - sz, cd_size = sz, entry_count = n, position = length front\<rparr>)"
proof -
  have eq: "end_part n sz (length front - sz) =
      le32 kEndOfCentralDirectorySignature @ le16 0 @ le16 0 @ le16 n @ le16 n @ le32 sz @ le32 (length front - sz) @ le16 0"
    using assms by (intro end_part_eq) simp_all
  have d: "drop (length front) bytes =
      le32 kEndOfCentralDirectorySignature @ le16 0 @ le16 0 @ le16 n @ le16 n @ le32 sz @ le32 (length front - sz) @ le16 0"
    using assms(1) eq by simp
  note at = drop_at [OF d]
  have len: "length bytes = length front + 22" using assms(1) eq by simp
  have "GetU32 bytes (length front) = Some kEndOfCentralDirectorySignature"
    by (rule GetU32_drop [OF d]) (simp add: kEndOfCentralDirectorySignature_def)
  moreover have "GetU16 bytes (length front + 20) = Some 0" by (rule GetU16_drop [where t = "[]"]) (subst at, simp, simp)
  moreover have "GetU16 bytes (length front + 4) = Some 0" by (rule GetU16_drop) (subst at, simp, simp)
  moreover have "GetU16 bytes (length front + 6) = Some 0" by (rule GetU16_drop) (subst at, simp, simp)
  moreover have "GetU16 bytes (length front + 8) = Some n" by (rule GetU16_drop) (subst at, simp, rule assms(2))
  moreover have "GetU16 bytes (length front + 10) = Some n" by (rule GetU16_drop) (subst at, simp, rule assms(2))
  moreover have "GetU32 bytes (length front + 12) = Some sz" by (rule GetU32_drop) (subst at, simp, use assms(3,4) in linarith)
  moreover have "GetU32 bytes (length front + 16) = Some (length front - sz)" by (rule GetU32_drop) (subst at, simp, use assms(3,4) in linarith)
  ultimately have e: "eocd_at bytes (length front) =
      Some (Inr (Inr \<lparr>cd_offset = length front - sz, cd_size = sz, entry_count = n, position = length front\<rparr>))"
    using len assms(3) by (simp add: eocd_at_def kEndOfCentralDirectorySize_def)
  have "rev [first..<Suc (length front)] = length front # rev [first..<length front]" if "first \<le> length front" for first
    using that by simp
  then show ?thesis using e len by (simp add: FindEndOfCentralDirectory_def kEndOfCentralDirectorySize_def Let_def del: upt_Suc)
qed

lemma CheckLocalEntry_written:
  assumes "drop off bytes = local_part e @ t" "name_fits e" "off + length (local_part e) = limit"
  shows "CheckLocalEntry bytes (central_of e off) limit = Some (Inr (off + 30 + length (entry_name e)))"
proof -
  note d = assms(1) [unfolded local_part_eq [OF assms(2)] append_assoc]
  note at = drop_at [OF d]
  have n: "length (entry_name e) < 65536" "length (entry_data e) < 0x100000000" using assms(2) by (auto simp: name_fits_def)
  have limit: "limit = off + 30 + length (entry_name e) + length (entry_data e)" using assms(3) by (simp add: length_parts)
  have inside: "limit \<le> length bytes"
    using arg_cong [OF assms(1), of length] assms(3) by (simp add: length_parts)
  have "GetU32 bytes off = Some kLocalHeaderSignature"
    by (rule GetU32_drop [OF d]) (simp add: kLocalHeaderSignature_def)
  moreover have "GetU16 bytes (off + 6) = Some 0x800" by (rule GetU16_drop) (subst at, simp, simp)
  moreover have "GetU16 bytes (off + 8) = Some 0" by (rule GetU16_drop) (subst at, simp, simp)
  moreover have "GetU32 bytes (off + 14) = Some (unat (Crc32 (entry_data e)))" by (rule GetU32_drop) (subst at, simp, rule unat_lt32)
  moreover have "GetU32 bytes (off + 18) = Some (length (entry_data e))" by (rule GetU32_drop) (subst at, simp, rule n)
  moreover have "GetU32 bytes (off + 22) = Some (length (entry_data e))" by (rule GetU32_drop) (subst at, simp, rule n)
  moreover have "GetU16 bytes (off + 26) = Some (length (entry_name e))" by (rule GetU16_drop) (subst at, simp, rule n)
  moreover have "GetU16 bytes (off + 28) = Some 0" by (rule GetU16_drop) (subst at, simp, simp)
  moreover have "drop (off + 30) bytes = entry_name e @ entry_data e @ t" by (subst at) simp
  moreover from this have "substr_at bytes (off + 30) (length (entry_name e)) = Some (entry_name e)"
    using inside limit by (simp add: substr_at_def)
  moreover have "drop (off + (30 + length (entry_name e))) bytes = entry_data e @ t" by (subst at) simp
  then have "substr_at bytes (off + 30 + length (entry_name e)) (length (entry_data e)) = Some (entry_data e)"
    using inside limit by (simp add: substr_at_def add.assoc)
  ultimately show ?thesis
    using limit by (simp add: CheckLocalEntry_def central_of_def kLocalHeaderSize_def Let_def)
qed

fun data_offsets_of :: "nat \<Rightarrow> ZipEntry list \<Rightarrow> nat list" where
  "data_offsets_of off [] = []"
| "data_offsets_of off (e # es) = (off + 30 + length (entry_name e)) # data_offsets_of (off + length (local_part e)) es"

lemma length_of [simp]: "length (central_list off es) = length es" "length (data_offsets_of off es) = length es"
  by (induction es arbitrary: off) simp_all

lemma offsets_sorted: "sorted (map local_offset (central_list off es)) \<and> (\<forall>c \<in> set (central_list off es). off \<le> local_offset c)"
  by (induction es arbitrary: off) (fastforce simp: central_of_def)+

lemma written_in_order:
  "sort_key (\<lambda>i. local_offset (central_list off es ! i)) [0..<length es] = [0..<length es]"
proof (rule sort_key_id_if_sorted)
  have "map (\<lambda>i. local_offset (central_list off es ! i)) [0..<length es] = map local_offset (central_list off es)"
    by (rule nth_equalityI) simp_all
  then show "sorted (map (\<lambda>i. local_offset (central_list off es ! i)) [0..<length es])" using offsets_sorted by simp
qed

lemma check_locals_written:
  assumes "list_all name_fits es" "drop off bytes = locals es @ t" "length done_offs = length done_list"
  shows "check_locals bytes (done_list @ central_list off es) (off + length (locals es))
    [length done_list..<length done_list + length es] (done_offs @ replicate (length es) 0) =
    Some (Inr (done_offs @ data_offsets_of off es))"
  using assms
proof (induction es arbitrary: off done_list done_offs)
  case (Cons e es)
  let ?next = "off + length (local_part e)"
  have ix: "[length done_list..<length done_list + length (e # es)] = length done_list # [Suc (length done_list)..<Suc (length done_list) + length es]"
    by (simp add: upt_rec del: upt_Suc)
  have d: "drop off bytes = local_part e @ locals es @ t" using Cons.prems(2) by (simp add: locals_def)
  have limit: "(case [Suc (length done_list)..<Suc (length done_list) + length es] of [] \<Rightarrow> off + length (locals (e # es))
      | j # _ \<Rightarrow> local_offset ((done_list @ central_list off (e # es)) ! j)) = ?next"
    by (cases es) (simp_all add: locals_def upt_conv_Cons nth_append central_of_def del: upt_Suc)
  have c: "CheckLocalEntry bytes (central_of e off) ?next = Some (Inr (off + 30 + length (entry_name e)))"
    using Cons.prems(1) by (intro CheckLocalEntry_written [OF d]) simp_all
  have IH: "check_locals bytes ((done_list @ [central_of e off]) @ central_list ?next es) (?next + length (locals es))
      [length (done_list @ [central_of e off])..<length (done_list @ [central_of e off]) + length es]
      ((done_offs @ [off + 30 + length (entry_name e)]) @ replicate (length es) 0) =
      Some (Inr ((done_offs @ [off + 30 + length (entry_name e)]) @ data_offsets_of ?next es))"
    using Cons.prems drop_at [OF d, of "length (local_part e)"] by (intro Cons.IH) simp_all
  have upd: "(done_offs @ replicate (length (e # es)) 0)[length done_list := off + 30 + length (entry_name e)] =
      (done_offs @ [off + 30 + length (entry_name e)]) @ replicate (length es) 0"
    using Cons.prems(3) by (simp add: list_update_append)
  show ?case unfolding ix check_locals.simps limit Let_def
    using c IH upd by (simp add: locals_def nth_append add.assoc del: upt_Suc)
qed simp

lemma extract_all_written:
  assumes "drop off bytes = locals es @ t" "off \<le> length bytes"
  shows "extract_all bytes (zip (central_list off es) (data_offsets_of off es)) = Some es"
  using assms
proof (induction es arbitrary: off)
  case (Cons e es)
  have "drop off bytes = local_part e @ locals es @ t" using Cons.prems(1) by (simp add: locals_def)
  note at = drop_at [OF this]
  have "length (drop off bytes) = length (local_part e) + length (locals es @ t)" using at [of 0] by simp
  then have inside: "off + length (local_part e) \<le> length bytes" using Cons.prems(2) by simp
  have IH: "extract_all bytes (zip (central_list (off + length (local_part e)) es) (data_offsets_of (off + length (local_part e)) es)) = Some es"
    using at [of "length (local_part e)"] inside by (intro Cons.IH) simp_all
  have "drop (30 + length (entry_name e)) (local_part e) = entry_data e"
    by (simp add: local_part_def PutU16_eq PutU32_eq Let_def)
  then have "drop (off + (30 + length (entry_name e))) bytes = entry_data e @ locals es @ t"
    using at [of "30 + length (entry_name e)"] by (simp add: length_parts)
  then have "substr_at bytes (off + 30 + length (entry_name e)) (length (entry_data e)) = Some (entry_data e)"
    using inside by (simp add: substr_at_def length_parts add.assoc)
  then show ?case using IH by (simp add: central_of_def)
qed simp

lemma length_locals_le: "e \<in> set es \<Longrightarrow> length (local_part e) \<le> length (locals es)"
  by (induction es) (auto simp: locals_def)

lemma Parse_written:
  assumes "entries_fit limits es"
  shows "ParseStoreOnlyZip (BuildStoreOnlyZip es) limits = Some (Inr es)"
proof -
  let ?bytes = "BuildStoreOnlyZip es" and ?cd = "centrals 0 es" and ?t = "end_part (length es) (length (centrals 0 es)) (length (locals es))"
  have build: "?bytes = (locals es @ ?cd) @ end_part (length es) (length ?cd) (length (locals es @ ?cd) - length ?cd)"
    by (simp add: Build_eq)
  have small: "length (locals es) + length ?cd < 0x100000000" using assms by (simp add: entries_fit_def Build_eq)
  have "length (entry_data e) < 0x100000000" if "e \<in> set es" for e
    using small length_locals_le [OF that] by (simp add: length_parts)
  then have fits: "list_all name_fits es" using assms by (fastforce simp: entries_fit_def list_all_iff name_fits_def)
  have find: "FindEndOfCentralDirectory ?bytes = Some (Inr \<lparr>cd_offset = length (locals es), cd_size = length ?cd,
      entry_count = length es, position = length (locals es @ ?cd)\<rparr>)"
    using FindEndOfCentralDirectory_written [OF build] assms small by (simp add: entries_fit_def)
  have "central_loop ?bytes limits (length (locals es) + length ?cd) (length es) (length (locals es)) 0 [] = Some (Inr ([] @ central_list 0 es))"
    using assms small by (intro central_loop_written [OF _ fits, where t = ?t]) (simp_all add: entries_fit_def Build_eq list_all_iff)
  then have read: "ReadCentralDirectory ?bytes \<lparr>cd_offset = length (locals es), cd_size = length ?cd,
      entry_count = length es, position = length (locals es @ ?cd)\<rparr> limits = Some (Inr (central_list 0 es))"
    using assms by (simp add: ReadCentralDirectory_def entries_fit_def)
  have check: "check_locals ?bytes (central_list 0 es) (length (locals es)) [0..<length es] (replicate (length es) 0) = Some (Inr (data_offsets_of 0 es))"
    using check_locals_written [OF fits, of 0 ?bytes "?cd @ ?t" "[]" "[]"] by (simp add: Build_eq)
  have "extract_all ?bytes (zip (central_list 0 es) (data_offsets_of 0 es)) = Some es"
    by (rule extract_all_written [where t = "?cd @ ?t"]) (simp_all add: Build_eq)
  then show ?thesis using find read check by (simp add: ParseStoreOnlyZip_def written_in_order)
qed

text \<open>C31: A backup is read back as it was written: for entries that respect the limits, with plain and
  distinct names, in an archive below the size that its 32-bit fields can express, the reader returns
  exactly the entries that were packed, in their order, without reading outside the archive.\<close>

theorem Parse_Build: "entries_fit limits es \<Longrightarrow> ParseStoreOnlyZip (BuildStoreOnlyZip es) limits = Some (Inr es)"
  by (rule Parse_written)

definition sample_entries :: "ZipEntry list" where
  "sample_entries = [\<lparr>entry_name = ''manifest.json'', entry_data = ''{}''\<rparr>, \<lparr>entry_name = ''learning.tsv'', entry_data = []\<rparr>]"

lemma sample_fits: "entries_fit default_limits sample_entries"
  by (simp add: entries_fit_def default_limits_def sample_entries_def Build_eq locals_def length_parts IsSafeEntryName_def
    end_part_def PutU16_eq PutU32_eq Let_def sublist_code)

theorem Parse_Build_witness:
  "ParseStoreOnlyZip (BuildStoreOnlyZip sample_entries) default_limits = Some (Inr sample_entries) \<and> length sample_entries = 2"
  using Parse_Build [OF sample_fits] by (simp add: sample_entries_def)

theorem accepted_archive_witness:
  "ParseStoreOnlyZip (BuildStoreOnlyZip sample_entries) default_limits = Some (Inr sample_entries) \<and>
   distinct (map entry_name sample_entries)"
  using accepted_archive [OF Parse_written [OF sample_fits]] Parse_written [OF sample_fits] by simp

section \<open>Reads outside the archive\<close>

lemma reads_None:
  "GetU16 bytes off = None \<longleftrightarrow> length bytes < off + 2" "GetU32 bytes off = None \<longleftrightarrow> length bytes < off + 4"
  "substr_at bytes off n = None \<longleftrightarrow> length bytes < off"
  by (auto simp: GetU16_def GetU32_def substr_at_def bind_eq_None_conv)

lemma eocd_at_Some: "pos + 22 \<le> length bytes \<Longrightarrow> eocd_at bytes pos \<noteq> None"
  by (rule notI) (auto simp: eocd_at_def bind_eq_None_conv reads_None split: if_splits)

lemma find_eocd_Some: "list_all (\<lambda>pos. pos + 22 \<le> length bytes) ps \<Longrightarrow> find_eocd bytes ps \<noteq> None"
proof (induction ps)
  case (Cons pos ps)
  then show ?case using eocd_at_Some [of pos bytes] by (auto split: sum.split)
qed simp

lemma Find_Some: "FindEndOfCentralDirectory bytes \<noteq> None"
proof (cases "length bytes < 22")
  case False
  then have "find_eocd bytes (rev [first..<Suc (length bytes - 22)]) \<noteq> None" for first
    by (intro find_eocd_Some) (auto simp: list_all_iff)
  then show ?thesis using False by (simp add: FindEndOfCentralDirectory_def kEndOfCentralDirectorySize_def Let_def del: upt_Suc)
qed (simp add: FindEndOfCentralDirectory_def kEndOfCentralDirectorySize_def)

lemma central_record_Some: "cd_end \<le> length bytes \<Longrightarrow> pos \<le> cd_end \<Longrightarrow> central_record bytes cd_end pos \<noteq> None"
  by (rule notI) (auto simp: central_record_def kCentralHeaderSize_def bind_eq_None_conv reads_None Let_def split: if_splits)

lemma central_record_pos:
  "central_record bytes cd_end pos = Some (Inr (entry, compressed, start_disk, pos')) \<Longrightarrow> pos' \<le> cd_end"
  by (auto simp: central_record_def kCentralHeaderSize_def bind_eq_Some_conv Let_def split: if_splits)

lemma central_loop_Some:
  "cd_end \<le> length bytes \<Longrightarrow> pos \<le> cd_end \<Longrightarrow> central_loop bytes limits cd_end n pos tot es \<noteq> None"
proof (induction n arbitrary: pos tot es)
  case (Suc n)
  then obtain r where r: "central_record bytes cd_end pos = Some r" using central_record_Some by blast
  show ?case
  proof (cases r)
    case (Inr a)
    obtain entry compressed start_disk pos' where "a = (entry, compressed, start_disk, pos')" by (cases a)
    then show ?thesis using r Inr Suc.IH [of pos'] Suc.prems central_record_pos [of bytes cd_end pos] by simp
  qed (simp add: r)
qed simp

lemma CheckLocalEntry_Some:
  "data_limit \<le> length bytes \<Longrightarrow> CheckLocalEntry bytes entry data_limit \<noteq> None"
  by (rule notI) (auto simp: CheckLocalEntry_def kLocalHeaderSize_def bind_eq_None_conv reads_None Let_def split: if_splits)

lemma check_locals_Some:
  "cd_off \<le> length bytes \<Longrightarrow> list_all (\<lambda>i. local_offset (central ! i) \<le> length bytes) ix \<Longrightarrow>
     check_locals bytes central cd_off ix offs \<noteq> None"
proof (induction ix arbitrary: offs)
  case (Cons i rest)
  have "CheckLocalEntry bytes (central ! i) (case rest of [] \<Rightarrow> cd_off | j # _ \<Rightarrow> local_offset (central ! j)) \<noteq> None"
    using Cons.prems by (intro CheckLocalEntry_Some) (auto split: list.split)
  then show ?case using Cons by (auto simp: Let_def split: sum.split)
qed simp

lemma extract_all_Some: "list_all (\<lambda>(c, off). off \<le> length bytes) cs \<Longrightarrow> extract_all bytes cs \<noteq> None"
proof (induction cs)
  case (Cons x cs)
  obtain c off where x: "x = (c, off)" by fastforce
  then have "substr_at bytes off (esize c) \<noteq> None" using Cons.prems by (simp add: substr_at_def)
  then show ?case using Cons x by auto
qed simp

text \<open>The reader handles any bytes at all without reading outside them, with one cause of exception:
  a record of the central directory that places its entry behind the end of the archive.\<close>

theorem reads_outside_cause:
  assumes "ParseStoreOnlyZip bytes limits = None"
  shows "\<exists>eocd central. FindEndOfCentralDirectory bytes = Some (Inr eocd) \<and>
    ReadCentralDirectory bytes eocd limits = Some (Inr central) \<and> list_ex (\<lambda>c. length bytes < local_offset c) central"
proof -
  obtain r where r: "FindEndOfCentralDirectory bytes = Some r" using Find_Some by blast
  with assms obtain eocd where find: "FindEndOfCentralDirectory bytes = Some (Inr eocd)" by (cases r) (auto simp: ParseStoreOnlyZip_def)
  note bound = Find_bound [OF find]
  then obtain c where c: "ReadCentralDirectory bytes eocd limits = Some c"
    using central_loop_Some by (fastforce simp: ReadCentralDirectory_def)
  with assms find obtain central where read: "ReadCentralDirectory bytes eocd limits = Some (Inr central)"
    by (cases c) (auto simp: ParseStoreOnlyZip_def)
  let ?ix = "sort_key (\<lambda>i. local_offset (central ! i)) [0..<length central]"
  have "list_ex (\<lambda>c. length bytes < local_offset c) central"
  proof (rule ccontr)
    assume "\<not> ?thesis"
    then have "list_all (\<lambda>i. local_offset (central ! i) \<le> length bytes) ?ix" by (auto simp: list_ex_iff list_all_iff not_less)
    then obtain l where l: "check_locals bytes central (cd_offset eocd) ?ix (replicate (length central) 0) = Some l"
      using check_locals_Some [of "cd_offset eocd" bytes central ?ix] bound by fastforce
    with assms find read obtain offs where offs: "l = Inr offs" "extract_all bytes (zip central offs) = None"
      by (cases l) (auto simp: ParseStoreOnlyZip_def)
    note ok = check_locals_ok [OF l [unfolded offs(1)]]
    have "length offs = length central" using ok by (simp add: list_all_iff)
    moreover have "offs ! i \<le> length bytes" if "i < length central" for i
    proof -
      have "offs ! i + esize (central ! i) \<le> cd_offset eocd" using ok that by (simp add: list_all_iff)
      then show ?thesis using bound by linarith
    qed
    ultimately show False using offs(2) extract_all_Some [of bytes "zip central offs"] by (fastforce simp: list_all_length)
  qed
  then show ?thesis using find read by blast
qed

definition crafted_archive :: string where
  "crafted_archive = centrals 4000000000 sample_entries @ end_part 2 (length (centrals 4000000000 sample_entries)) 0"

lemma crafted_None: "ParseStoreOnlyZip crafted_archive default_limits = None"
proof -
  let ?cd = "centrals 4000000000 sample_entries"
  have len: "length ?cd = 117" "length crafted_archive = 139"
    by (simp_all add: crafted_archive_def sample_entries_def length_parts end_part_def PutU16_eq PutU32_eq Let_def)
  have two: "length sample_entries = 2" "[0..<length sample_entries] = [0, 1]" by (simp_all add: sample_entries_def upt_rec)
  have fits: "list_all name_fits sample_entries" by (simp add: sample_entries_def name_fits_def)
  have find: "FindEndOfCentralDirectory crafted_archive = Some (Inr \<lparr>cd_offset = 0, cd_size = 117, entry_count = 2, position = 117\<rparr>)"
    using FindEndOfCentralDirectory_written [of crafted_archive ?cd 2 117] len by (simp add: crafted_archive_def)
  have "central_loop crafted_archive default_limits 117 (length sample_entries) 0 0 [] = Some (Inr ([] @ central_list 4000000000 sample_entries))"
    using sample_fits len
    by (intro central_loop_written [OF _ fits, where t = "end_part 2 (length ?cd) 0"])
      (simp_all add: entries_fit_def crafted_archive_def list_all_iff sample_entries_def locals_def length_parts)
  then have read: "ReadCentralDirectory crafted_archive \<lparr>cd_offset = 0, cd_size = 117, entry_count = 2, position = 117\<rparr> default_limits =
      Some (Inr (central_list 4000000000 sample_entries))"
    by (simp add: ReadCentralDirectory_def two default_limits_def del: central_loop.simps)
  have "GetU32 crafted_archive 4000000000 = None" using len by (simp add: reads_None)
  then have "check_locals crafted_archive (central_list 4000000000 sample_entries) 0 [0, 1] [0, 0] = None"
    by (simp add: sample_entries_def central_of_def length_parts CheckLocalEntry_def kLocalHeaderSize_def)
  then show ?thesis
    using find read written_in_order [of 4000000000 sample_entries] two
    by (simp add: ParseStoreOnlyZip_def numeral_2_eq_2)
qed

theorem reads_outside_cause_witness:
  "\<exists>eocd central. FindEndOfCentralDirectory crafted_archive = Some (Inr eocd) \<and>
    ReadCentralDirectory crafted_archive eocd default_limits = Some (Inr central) \<and>
    list_ex (\<lambda>c. length crafted_archive < local_offset c) central"
  by (rule reads_outside_cause [OF crafted_None])

text \<open>Not every malformed archive is rejected without harm. Two central records that place their
  entries behind the end of the file pass every check on the directory, because an entry is compared
  only with the start of the next one; the header of the first is then read outside the archive.\<close>

theorem crafted_archive_reads_outside:
  "length crafted_archive = 139 \<and> ParseStoreOnlyZip crafted_archive default_limits = None"
  using crafted_None by (simp add: crafted_archive_def sample_entries_def length_parts end_part_def PutU16_eq PutU32_eq Let_def)

end
