(* ===== verification/Spec2Isabelle.thy ===== *)
theory Spec2Isabelle
  imports Prelude Utf8 StdMap StdText EditContext DoubleArith StdSort DoubleText LearningText LearningStore LearningFile LearningQueries ProtectedFile SecretText LearningPersist PayloadWire ConversionPayloads PayloadRoundTrip ManagementPayloads PayloadContract Privacy AppProfiles HostSession MixedRomajiSplitter Romaji BatchConversionChunker InputState UserActionMap Health IpcConnection RequestScheduler Progress LiveConversionChunker LiveCarry Binary64 JsonText Json Messages ProofreadSession Tsv Brackets DoubleArrayTrie TrieSafety TrieVerify TrieSearch TrieVerified SurfaceIndex TrieSample StoreOnlyZip PunctuationRules PunctuationInserter
begin

text \<open>
  A verification library for azooKey-Desktop, a Japanese input method for Windows.

  \<^bold>\<open>The program.\<close> A small in-process part, the text input processor (\<open>src/tsf-tip\<close>), receives keys and
  edits the document of the host application. It feeds them to a platform-independent core
  (\<open>src/core\<close>): a state machine of the composition and a romaji converter. Kanji candidates come from
  a separate process, the inference host (\<open>src/inference-host\<close>), over a named pipe; the messages are
  length-prefixed JSON (\<open>src/ipc\<close>). The host keeps dictionaries and learning data (\<open>src/learning\<close>),
  schedules requests, watches its own health, and answers with candidates and with live conversions
  that the input processor shows while the user types.

  \<^bold>\<open>Theories and sources.\<close> Each theory opens with a text that says which functions it models.
  \<^item> Shared: \<open>Prelude\<close> (bytes, bit fields, the interfaces \<open>event_system\<close> and \<open>transition_table\<close>),
    \<open>StdText\<close> and \<open>StdMap\<close> (what the code uses of \<open><charconv>\<close>, \<open><cctype>\<close>, \<open>std::map\<close>; interface
    \<open>ordered_map\<close>), \<open>StdSort\<close> (\<open>std::stable_sort\<close>), \<open>Binary64\<close>, \<open>DoubleArith\<close>, \<open>DoubleText\<close> (\<open>double\<close>: rounding,
    arithmetic, \<open>from_chars\<close>, \<open>to_chars\<close>), \<open>Tsv\<close> (the line loop of the table loaders; interface
    \<open>line_reader\<close>), \<open>EditContext\<close>.
  \<^item> Text: \<open>Utf8\<close> (\<open>core/src/Utf8.cpp\<close> and the program's four other UTF-8 coders; interface
    \<open>utf8_decoder\<close>, interpreted for each), \<open>Romaji\<close> (\<open>RomajiKanaConverter.cpp\<close>, \<open>CustomRomajiLoader.cpp\<close>),
    \<open>MixedRomajiSplitter\<close> (the source of the same name).
  \<^item> Composition: \<open>InputState\<close> (\<open>InputState.cpp\<close>: every event in every state, and the effect of the
    client actions on the document), \<open>UserActionMap\<close>, \<open>Brackets\<close> (\<open>BracketTable.cpp\<close>,
    \<open>BracketPairing.cpp\<close>, the applied edits of \<open>BracketEditSession.cpp\<close>), \<open>AppProfiles\<close> and \<open>Privacy\<close>
    (\<open>AppProfileResolver.cpp\<close>, \<open>PrivacyPolicy.h\<close>, \<open>BodyLogGate.cpp\<close>), \<open>Progress\<close> (what always comes to an end).
  \<^item> Live conversion: \<open>LiveConversionChunker\<close>, \<open>BatchConversionChunker\<close>, \<open>LiveCarry\<close>,
    \<open>PunctuationRules\<close>, \<open>PunctuationInserter\<close> (the sources of the same names).
  \<^item> Transport: \<open>JsonText\<close>, \<open>Json\<close> (\<open>Json.cpp\<close>), \<open>Messages\<close> (envelopes and frames), \<open>ProofreadSession\<close>,
    \<open>IpcConnection\<close> (connection states, reconnect delays), \<open>PayloadWire\<close>, \<open>ConversionPayloads\<close>,
    \<open>ManagementPayloads\<close> (\<open>Payloads.cpp\<close>: every request and answer), \<open>PayloadRoundTrip\<close>, \<open>PayloadContract\<close> (what
    they guarantee).
  \<^item> Host: \<open>HostSession\<close> (the sessions, guards and handlers of \<open>Dispatcher.cpp\<close>), \<open>RequestScheduler\<close>, \<open>Health\<close>,
    \<open>StoreOnlyZip\<close> (the container of learning-data backups).
  \<^item> Learning: \<open>LearningText\<close> (the rows of the two file formats), \<open>LearningStore\<close> (the table and its
    operations), \<open>LearningFile\<close> (writing and reading the whole text), \<open>LearningQueries\<close> (lookups, pruning,
    forgetting, import), \<open>ProtectedFile\<close> and \<open>SecretText\<close> (\<open>DpapiCrypto.cpp\<close>, \<open>AtomicFile.h\<close>: encrypted files and
    settings), \<open>LearningPersist\<close> (\<open>Load\<close>, \<open>Save\<close> and the migration of \<open>LearningStore.cpp\<close>).
  \<^item> Dictionaries: \<open>DoubleArrayTrie\<close> (\<open>DoubleArrayTrie.cpp\<close>: loading and all queries), \<open>TrieVerify\<close> (its
    full check), \<open>TrieSafety\<close>, \<open>TrieSearch\<close>, \<open>TrieVerified\<close>, \<open>SurfaceIndex\<close> (what they guarantee),
    \<open>TrieSample\<close> (a concrete dictionary).

  \<^bold>\<open>Conventions.\<close> A \<open>std::string\<close> is a list of bytes; a \<open>char32_t\<close> and a \<open>size_t\<close> are natural numbers; an
  integer whose wrap-around the code can reach is a word. Objects are records that operations take and
  return. A read outside a buffer is the value \<^term>\<open>None\<close> of the option monad where the code
  reads by raw pointers. Errors are values. Operations on files are programs of the state monad: each
  call of the operating system takes its outcome from a list, and a run whose list is used up is a
  process that was killed, so a statement about all runs is one about every failure and every crash. Japanese string literals are given by their code points.

  \<^bold>\<open>What is shown.\<close> Text: every decoder accepts exactly the encodings of scalar values and the coders
  agree. Composition: after any events the marked text in the document is the text of the state;
  candidates are committed as highlighted; late answers change nothing. Live conversion: chunks,
  pieces and inserted punctuation lose no byte of reading or surface. Transport: what is printed is
  parsed back, frames are received as sent, a parsed document is well formed, requests and answers
  arrive as they were sent. Host: a cancelled request is reached, clients do not disturb each other,
  a client without the handshake reaches nothing, nothing is learned without consent, crash loops are
  recognised. Learning: a saved store is loaded again, a failed or interrupted save or migration
  loses nothing, a file that cannot be decrypted is never overwritten, a forgotten word is shown and
  written nowhere, imports follow their policy and every loaded value is within its limits. Archives: what
  is packed is unpacked, and unpacking any bytes reads inside them and respects the limits.
  Dictionaries: no bytes of a file make the reader read outside it; searches agree with the exact
  search; a verified dictionary finds every key and every surface.

  \<^bold>\<open>Loops and fuel.\<close> Loops are functions with termination proofs by measures: remaining text, remaining
  count, the recorded depth of trie nodes. Fuel is used for the JSON parser (\<open>2 * length + 1\<close>, proved
  enough for every input), and for the alias closure of readings (eight rounds, one for each of at
  most eight texts).

  \<^bold>\<open>Not modelled.\<close> Windows itself: COM and the text services framework (\<open>TextService.cpp\<close>, edit sessions
  beyond their text effects, windows, rendering), pipes, registry and power events, threads
  beyond the interleaving of scheduler operations. The language model and its bindings
  (\<open>ZenzaiModelConverter\<close>, \<open>InferenceEngine\<close>), downloads, the settings application, diagnostics and
  logging, the calls of DPAPI (a parameter with the hypothesis that what was encrypted is decrypted),
  retries of transient file errors, the stores beside the learning store (\<open>UserDictionary\<close>,
  \<open>TypoCorrectionStore\<close>, \<open>AutoWordStore\<close>, \<open>DictionaryStore\<close>), the candidate rewriters, tests, benchmarks, and the
  legacy Swift code. Allocation failure is not modelled anywhere.
\<close>

end
